(* ===== verification/Prelude.thy ===== *)
theory Prelude
  imports Main "HOL-Library.Word" "HOL-Library.Monad_Syntax"
begin

unbundle bit_operations_syntax

text \<open>
  Shared vocabulary of the development: the machine integers and byte buffers of the C++ sources,
  bounds-checked memory access, unsigned \<open>size_t\<close> subtraction, and the list lemmas the component
  theories rely on.

  A C++ object that lives in memory is a byte list whose length is the size of its allocation.
  Every \<open>memcpy\<close> and every indexed access of the sources goes through \<open>mem_read\<close> and
  \<open>mem_write\<close>, which return \<open>None\<close> where the access leaves the allocation, that is where the
  behaviour of the program is undefined. A theorem that an operation returns \<open>Some\<close> is therefore
  a memory-safety theorem.
\<close>

type_synonym byte = "8 word"
type_synonym u16 = "16 word"
type_synonym u32 = "32 word"
type_synonym u64 = "64 word"
type_synonym bytes = "byte list"

named_theorems mem_simps "rewriting of bounds-checked memory access"
named_theorems len_simps "lengths of encoded fields"

section \<open>Bounds-checked memory\<close>

definition mem_read :: "nat \<Rightarrow> nat \<Rightarrow> bytes \<Rightarrow> bytes option" where
  "mem_read i n mem = (if i + n \<le> length mem then Some (take n (drop i mem)) else None)"

definition mem_write :: "nat \<Rightarrow> bytes \<Rightarrow> bytes \<Rightarrow> bytes option" where
  "mem_write i bs mem =
     (if i + length bs \<le> length mem then Some (take i mem @ bs @ drop (i + length bs) mem) else None)"

text \<open>A single byte, as \<open>buf[i]\<close> reads and writes it.\<close>

definition mem_get :: "nat \<Rightarrow> bytes \<Rightarrow> byte option" where
  "mem_get i mem = (if i < length mem then Some (mem ! i) else None)"

definition mem_set :: "nat \<Rightarrow> byte \<Rightarrow> bytes \<Rightarrow> bytes option" where
  "mem_set i b mem = (if i < length mem then Some (mem[i := b]) else None)"

text \<open>Subtraction on \<open>size_t\<close> (64 bits) wraps around.\<close>

definition size_sub :: "nat \<Rightarrow> nat \<Rightarrow> nat" where
  "size_sub a b = (if b \<le> a then a - b else 2 ^ 64 + a - b)"

lemma unat_byte_less [simp]: "unat (b :: byte) < 256"
  using unsigned_less [of b] by simp

lemma size_sub_le [simp]: "b \<le> a \<Longrightarrow> size_sub a b = a - b"
  by (simp add: size_sub_def)

lemma size_sub_same [simp]: "size_sub a a = 0"
  by (simp add: size_sub_def)

subsection \<open>Reading and writing\<close>

lemma mem_read_Some_iff:
  "mem_read i n mem = Some bs \<longleftrightarrow> i + n \<le> length mem \<and> bs = take n (drop i mem)"
  by (auto simp: mem_read_def)

lemma mem_write_Some_iff:
  "mem_write i bs mem = Some mem' \<longleftrightarrow>
     i + length bs \<le> length mem \<and> mem' = take i mem @ bs @ drop (i + length bs) mem"
  by (auto simp: mem_write_def)

lemma mem_write_length [len_simps]:
  "mem_write i bs mem = Some mem' \<Longrightarrow> length mem' = length mem"
  by (auto simp: mem_write_def split: if_splits)

lemma mem_set_length [len_simps]: "mem_set i b mem = Some mem' \<Longrightarrow> length mem' = length mem"
  by (auto simp: mem_set_def split: if_splits)

lemma mem_read_length [len_simps]: "mem_read i n mem = Some bs \<Longrightarrow> length bs = n"
  by (auto simp: mem_read_def split: if_splits)

lemma mem_read_write_same:
  "mem_write i bs mem = Some mem' \<Longrightarrow> mem_read i (length bs) mem' = Some bs"
  by (auto simp: mem_read_def mem_write_def split: if_splits)

lemma mem_read_write_disjoint:
  assumes "mem_write i bs mem = Some mem'" and "j + n \<le> i \<or> i + length bs \<le> j"
  shows "mem_read j n mem' = mem_read j n mem"
proof -
  from assms(1) have le: "i + length bs \<le> length mem"
    and m': "mem' = take i mem @ bs @ drop (i + length bs) mem"
    by (simp_all add: mem_write_Some_iff)
  have "take n (drop j mem') = take n (drop j mem)" if "j + n \<le> length mem"
    using assms(2)
  proof
    assume "j + n \<le> i"
    then show ?thesis using le by (auto simp: m' min_def drop_take)
  next
    assume "i + length bs \<le> j"
    then show ?thesis using le by (simp add: m' add.commute)
  qed
  then show ?thesis
    using mem_write_length [OF assms(1)] by (simp add: mem_read_def)
qed

lemma take_drop_update_before:
  "i + n \<le> j \<Longrightarrow> take n (drop i (xs[j := x])) = take n (drop i xs)"
  by (simp add: drop_update_swap)

text \<open>Access to a buffer whose layout is known as an append of its parts.\<close>

lemma mem_write_append:
  "i = length pre \<Longrightarrow> length bs = length old \<Longrightarrow>
     mem_write i bs (pre @ old @ post) = Some (pre @ bs @ post)"
  by (simp add: mem_write_def)

lemma mem_set_append: "i = length pre \<Longrightarrow> mem_set i b (pre @ x # post) = Some (pre @ b # post)"
  by (simp add: mem_set_def)

lemma mem_read_append: "i = length pre \<Longrightarrow> n = length bs \<Longrightarrow> mem_read i n (pre @ bs @ post) = Some bs"
  by (simp add: mem_read_def)

lemma mem_get_append: "i = length pre \<Longrightarrow> mem_get i (pre @ x # post) = Some x"
  by (simp add: mem_get_def)

lemma mem_read_prefix: "n = length bs \<Longrightarrow> mem_read 0 n (bs @ post) = Some bs"
  by (simp add: mem_read_def)

lemma mem_write_eqI:
  "mem_write i bs mem = Some (take i mem @ bs @ drop (i + length bs) mem)" if "i + length bs \<le> length mem"
  using that by (simp add: mem_write_def)

lemma mem_read_sub:
  assumes "mem_read i n mem = Some bs" and "j + k \<le> n"
  shows "mem_read (i + j) k mem = Some (take k (drop j bs))"
  using assms by (auto simp: mem_read_def drop_take min_def add.commute split: if_splits)

lemma mem_get_read: "mem_read i n mem = Some bs \<Longrightarrow> j < n \<Longrightarrow> mem_get (i + j) mem = Some (bs ! j)"
  by (auto simp: mem_read_def mem_get_def split: if_splits)

text \<open>Splitting a buffer at known positions.\<close>

lemma length_eq_add_conv:
  "length xs = m + n \<longleftrightarrow> (\<exists>ys zs. xs = ys @ zs \<and> length ys = m \<and> length zs = n)"
proof
  assume "length xs = m + n"
  then show "\<exists>ys zs. xs = ys @ zs \<and> length ys = m \<and> length zs = n"
    by (intro exI [of _ "take m xs"] exI [of _ "drop m xs"]) simp
qed auto

lemma split_at:
  assumes "i + n \<le> length xs"
  obtains pre mid post where "xs = pre @ mid @ post" and "length pre = i" and "length mid = n"
proof
  show "xs = take i xs @ take n (drop i xs) @ drop n (drop i xs)"
    by (metis append_take_drop_id)
  show "length (take i xs) = i" and "length (take n (drop i xs)) = n"
    using assms by simp_all
qed

end
