(* ===== verification/Base64.thy ===== *)
theory Base64
  imports Prelude
begin

text \<open>
  The text encodings of \<open>src/core/util/base64.cpp\<close>: the I2P variant of base 64 and base 32.
  A function that fills \<open>OutBuffer\<close> returns the C++ return value together with the bytes it stores
  there, in order. \<open>None\<close> is undefined behaviour: a decoder that leaves one of its two buffers, and a
  signed \<open>int\<close> computation of the base 64 functions that overflows.
\<close>

section \<open>Base 64\<close>

definition T64 :: bytes where
  "T64 = map of_char ''ABCDEFGHIJKLMNOPQRSTUVWXYZabcdefghijklmnopqrstuvwxyz0123456789-~''"

definition P64 :: byte where
  "P64 = of_char (CHR ''='')"

definition iT64Build :: bytes where
  "iT64Build =
     (fold (\<lambda>i t. t[unat (T64 ! i) := of_nat i]) [0..<64] (replicate 256 (- 1)))[unat P64 := 0]"

definition iT64 :: "byte \<Rightarrow> byte" where
  "iT64 c = iT64Build ! unat c"

text \<open>The loop over whole groups and the two partial groups after it.\<close>

fun enc64 :: "bytes \<Rightarrow> bytes" where
  "enc64 (x # y # z # ps) =
     (let acc_1 = x;
          acc_2 = push_bit 4 acc_1 AND 0x30;
          acc_1 = drop_bit 2 acc_1;
          d1 = T64 ! unat acc_1;
          acc_1 = y;
          acc_2 = acc_2 OR drop_bit 4 acc_1;
          d2 = T64 ! unat acc_2;
          acc_1 = push_bit 2 (acc_1 AND 0x0F);
          acc_2 = z;
          acc_1 = acc_1 OR drop_bit 6 acc_2;
          d3 = T64 ! unat acc_1;
          d4 = T64 ! unat (acc_2 AND 0x3F)
      in d1 # d2 # d3 # d4 # enc64 ps)"
| "enc64 [x] =
     (let acc_2 = push_bit 4 x AND 0x3F;
          acc_1 = drop_bit 2 x
      in [T64 ! unat acc_1, T64 ! unat acc_2, P64, P64])"
| "enc64 [x, y] =
     (let acc_2 = push_bit 4 x AND 0x3F;
          d1 = T64 ! unat (drop_bit 2 x);
          acc_2 = acc_2 OR drop_bit 4 y;
          acc_1 = push_bit 2 (y AND 0x0F)
      in [d1, T64 ! unat acc_2, T64 ! unat acc_1, P64])"
| "enc64 [] = []"

text \<open>
  The counters \<open>n\<close> and \<open>m\<close> are C++ \<open>int\<close>: the narrowing of a \<open>size_t\<close> wraps to 32 bits, an arithmetic
  result outside the range is undefined, and the conversion back to \<open>size_t\<close> wraps to 64 bits.
\<close>

definition int_of_size :: "nat \<Rightarrow> int" where
  "int_of_size k = sint (of_nat k :: 32 word)"

definition int_op :: "int \<Rightarrow> int option" where
  "int_op i = (if - (2 ^ 31) \<le> i \<and> i < 2 ^ 31 then Some i else None)"

definition size_of_int :: "int \<Rightarrow> nat" where
  "size_of_int i = nat (i mod 2 ^ 64)"

definition ByteStreamToBase64 :: "bytes \<Rightarrow> nat \<Rightarrow> (nat \<times> bytes) option" where
  "ByteStreamToBase64 InBuffer len =
     (let n = int_of_size (length InBuffer div 3);
          m = length InBuffer mod 3
      in do {
        c \<leftarrow> (if m = 0 then int_op (4 * n) else Option.bind (int_op (n + 1)) (\<lambda>n1. int_op (4 * n1)));
        let outCount = size_of_int c;
        Some (if outCount > len then (0, []) else (outCount, enc64 (take (3 * nat n + m) InBuffer)))
      })"

text \<open>
  The decoder's loop; \<open>w\<close> counts the bytes stored so far, so \<open>w + 1 \<ge> outCount\<close> is the test
  \<open>pd >= endOfOutBuffer\<close> after the first store of a round.
\<close>

fun dec64 :: "nat \<Rightarrow> nat \<Rightarrow> bytes \<Rightarrow> bytes" where
  "dec64 outCount w (c0 # c1 # c2 # c3 # ps) =
     (let acc_1 = iT64 c0;
          acc_2 = iT64 c1;
          o1 = push_bit 2 acc_1 OR drop_bit 4 acc_2
      in if w + 1 \<ge> outCount then [o1]
         else
           let acc_2 = push_bit 4 acc_2;
               acc_1 = iT64 c2;
               o2 = acc_2 OR drop_bit 2 acc_1
           in if w + 2 \<ge> outCount then [o1, o2]
              else o1 # o2 # (iT64 c3 OR push_bit 6 acc_1) # dec64 outCount (w + 3) ps)"
| "dec64 outCount w _ = []"

definition Base64ToByteStream :: "bytes \<Rightarrow> nat \<Rightarrow> (nat \<times> bytes) option" where
  "Base64ToByteStream InBuffer len =
     (let n = int_of_size (length InBuffer div 4);
          m = length InBuffer mod 4
      in if InBuffer \<noteq> [] \<and> m = 0 then do {
           c \<leftarrow> int_op (3 * n);
           let pads = length (takeWhile (\<lambda>c. c = P64) (rev InBuffer));
           let outCount = size_sub (size_of_int c) pads;
           if pads = length InBuffer then None \<comment> \<open>the scan reads before the input\<close>
           else if outCount > len then Some (0, [])
           else
             let stores = dec64 outCount 0 (take (4 * nat n) InBuffer)
             in if length stores > len then None else Some (outCount, stores)
         } else Some (0, []))"

subsection \<open>The counters\<close>

lemma int_of_size_small: "k < 2 ^ 31 \<Longrightarrow> int_of_size k = int k"
  by (simp add: int_of_size_def signed_of_nat signed_take_bit_int_eq_self)

lemma size_of_int_small: "k < 2 ^ 64 \<Longrightarrow> size_of_int (int k) = k"
  by (simp add: size_of_int_def zmod_int [symmetric] flip: of_nat_power)

lemma int_op_small: "k < 2 ^ 31 \<Longrightarrow> int_op (int k) = Some (int k)"
  by (simp add: int_op_def)

text \<open>Up to the largest count that does not overflow, the functions compute in natural numbers.\<close>

lemma ByteStreamToBase64_small:
  assumes "4 * ((length xs + 2) div 3) < 2 ^ 31"
  shows "ByteStreamToBase64 xs len =
     Some (if 4 * ((length xs + 2) div 3) > len then (0, []) else (4 * ((length xs + 2) div 3), enc64 xs))"
proof -
  define q r where "q = length xs div 3" and "r = length xs mod 3"
  have L: "length xs = 3 * q + r" and r: "r < 3" by (simp_all add: q_def r_def)
  have n: "(length xs + 2) div 3 = (if r = 0 then q else q + 1)"
    unfolding L using r by (cases "r = 0") auto
  then have q: "q + (if r = 0 then 0 else 1) < 2 ^ 29" using assms by (auto split: if_splits)
  have "int_of_size q = int q" by (rule int_of_size_small) (use q in \<open>auto split: if_splits\<close>)
  moreover have "int_op (4 * int q) = Some (int (4 * q))" if "r = 0"
    using int_op_small [of "4 * q"] q that by simp
  moreover have "int_op (int q + 1) = Some (int (q + 1))" and "int_op (4 * int (q + 1)) = Some (int (4 * (q + 1)))" if "r \<noteq> 0"
    using int_op_small [of "q + 1"] int_op_small [of "4 * (q + 1)"] q that by (simp_all add: add.commute)
  moreover have "size_of_int (int (4 * q)) = 4 * q" and "size_of_int (int (4 * (q + 1))) = 4 * (q + 1)" 
    using size_of_int_small [of "4 * q"] size_of_int_small [of "4 * (q + 1)"] q by (auto split: if_splits)
  moreover have "take (3 * q + r) xs = xs" using L by simp
  ultimately show ?thesis
    unfolding n ByteStreamToBase64_def Let_def q_def [symmetric] r_def [symmetric]
    by (cases "r = 0") (simp_all del: of_nat_mult of_nat_add)
qed

lemma Base64ToByteStream_small:
  assumes "length cs = 4 * n" and "cs \<noteq> []" and "3 * n < 2 ^ 31"
  shows "Base64ToByteStream cs len =
     (let pads = length (takeWhile (\<lambda>c. c = P64) (rev cs));
          outCount = size_sub (3 * n) pads
      in if pads = length cs then None
         else if outCount > len then Some (0, [])
         else let stores = dec64 outCount 0 cs
              in if length stores > len then None else Some (outCount, stores))"
proof -
  have "int_of_size n = int n" by (rule int_of_size_small) (use assms(3) in simp)
  moreover have "int_op (3 * int n) = Some (int (3 * n))"
    using int_op_small [OF assms(3)] by simp
  moreover have "size_of_int (int (3 * n)) = 3 * n"
    by (rule size_of_int_small) (use assms(3) in simp)
  moreover have "length cs div 4 = n" and "length cs mod 4 = 0" and "take (4 * n) cs = cs"
    using assms(1) by simp_all
  ultimately show ?thesis
    using assms(2) by (simp add: Base64ToByteStream_def Let_def del: of_nat_mult)
qed

text \<open>From 1610612734 bytes on the encoder's count overflows before the buffer is looked at.\<close>

lemma ByteStreamToBase64_overflow:
  assumes "1610612734 \<le> length xs" and "length xs < 2 ^ 32"
  shows "ByteStreamToBase64 xs len = None"
proof -
  define q r where "q = length xs div 3" and "r = length xs mod 3"
  have L: "length xs = 3 * q + r" and r: "r < 3" by (simp_all add: q_def r_def)
  have q: "2 ^ 29 \<le> (if r = 0 then q else q + 1)" "q < 2 ^ 31 - 1"
    using assms r unfolding L by (auto split: if_splits)
  have "int_of_size q = int q" by (rule int_of_size_small) (use q(2) in simp)
  moreover have "int_op (4 * int q) = None" if "r = 0" using q(1) that by (simp add: int_op_def)
  moreover have "Option.bind (int_op (int q + 1)) (\<lambda>n1. int_op (4 * n1)) = None" if "r \<noteq> 0"
    using q that by (simp add: int_op_def)
  ultimately show ?thesis
    unfolding ByteStreamToBase64_def Let_def q_def [symmetric] r_def [symmetric]
    by (cases "r = 0") simp_all
qed

subsection \<open>The tables\<close>

lemma length_T64 [simp]: "length T64 = 64"
  by (simp add: T64_def)

lemma T64_distinct: "distinct (P64 # T64)"
  by (simp add: T64_def P64_def)

lemma fold_update_nth:
  assumes "distinct (map f [0..<n])" and "\<And>i. i < n \<Longrightarrow> f i < length t" and "i < n"
  shows "fold (\<lambda>i t. t[f i := g i]) [0..<n] t ! f i = g i"
  using assms
proof (induction n)
  case 0
  then show ?case by simp
next
  case (Suc n)
  have len: "length (fold (\<lambda>i t. t[f i := g i]) [0..<n] t) = length t"
    by (induction n) simp_all
  show ?case
  proof (cases "i = n")
    case True
    with Suc.prems len show ?thesis by simp
  next
    case False
    with Suc.prems have "f n \<noteq> f i" and "i < n" by auto
    with Suc show ?thesis by simp
  qed
qed

lemma T64_not_pad: "i < 64 \<Longrightarrow> T64 ! i \<noteq> P64"
  by (metis T64_distinct distinct.simps(2) length_T64 nth_mem)

lemma iT64_T64:
  assumes "i < 64"
  shows "iT64 (T64 ! i) = of_nat i"
proof -
  have "map (\<lambda>i. unat (T64 ! i)) [0..<64] = map unat T64"
    by (rule nth_equalityI) simp_all
  moreover have "distinct (map unat T64)"
    using T64_distinct by (simp add: distinct_map inj_on_def word_unat_eq_iff)
  ultimately have d: "distinct (map (\<lambda>i. unat (T64 ! i)) [0..<64])"
    by (simp only:)
  have "unat P64 \<noteq> unat (T64 ! i)"
    using T64_not_pad [OF assms] by (auto simp: word_unat_eq_iff)
  moreover have "unat (T64 ! k) < 256" for k
    using unsigned_less [of "T64 ! k"] by simp
  ultimately show ?thesis
    using fold_update_nth [OF d _ assms, of "replicate 256 (- 1)" of_nat]
    by (simp add: iT64_def iT64Build_def)
qed

lemma iT64_digit: "unat (w :: byte) < 64 \<Longrightarrow> iT64 (T64 ! unat w) = w"
  by (simp add: iT64_T64)

lemma byte_masks: "(0x3F :: byte) = mask 6" "(0x0F :: byte) = mask 4" "(0x30 :: byte) = push_bit 4 (mask 2)"
  by (simp_all add: mask_eq_exp_minus_1 push_bit_eq_mult)

lemma unat_less_64I: "(\<And>k. bit w k \<Longrightarrow> k < 6) \<Longrightarrow> unat (w :: byte) < 64"
proof -
  assume "\<And>k. bit w k \<Longrightarrow> k < 6"
  then have "w = take_bit 6 w" by (intro bit_word_eqI) (auto simp: bit_simps)
  then have "unat w = take_bit 6 (unat w)" by (metis unsigned_take_bit_eq)
  then show ?thesis using take_bit_nat_less_exp [of 6 "unat w"] by simp
qed

lemma bit_byte_less: "bit (w :: byte) k \<Longrightarrow> k < 8"
  using bit_imp_le_length [of w k] by simp

lemma byte_eqI:
  assumes "\<And>k. k \<in> {0, 1, 2, 3, 4, 5, 6, 7} \<Longrightarrow> bit v k = bit w k"
  shows "v = (w :: byte)"
proof (rule bit_word_eqI)
  fix k
  assume "k < LENGTH(8)"
  then have "k \<in> {0, 1, 2, 3, 4, 5, 6, 7}" by auto
  then show "bit v k = bit w k" by (rule assms)
qed

text \<open>The four six-bit digits of a group, as values of their own.\<close>

definition sext1 :: "byte \<Rightarrow> byte" where "sext1 x = drop_bit 2 x"
definition sext2 :: "byte \<Rightarrow> byte \<Rightarrow> byte" where "sext2 x y = push_bit 4 x AND 0x30 OR drop_bit 4 y"
definition sext3 :: "byte \<Rightarrow> byte \<Rightarrow> byte" where "sext3 y z = push_bit 2 (y AND 0x0F) OR drop_bit 6 z"
definition sext4 :: "byte \<Rightarrow> byte" where "sext4 z = z AND 0x3F"
definition digit64 :: "byte \<Rightarrow> byte" where "digit64 w = T64 ! unat w"

lemmas sext_defs = sext1_def sext2_def sext3_def sext4_def

lemma sext_less: "unat (sext1 x) < 64" "unat (sext2 x y) < 64" "unat (sext3 y z) < 64" "unat (sext4 z) < 64"
  unfolding sext_defs
  by (rule unat_less_64I; auto simp: byte_masks bit_simps dest: bit_byte_less)+

lemma sext_group:
  "push_bit 2 (sext1 x) OR drop_bit 4 (sext2 x y) = x"
  "push_bit 4 (sext2 x y) OR drop_bit 2 (sext3 y z) = y"
  "sext4 z OR push_bit 6 (sext3 y z) = z"
  unfolding sext_defs
  by (rule byte_eqI;
      auto simp: byte_masks bit_simps numeral_2_eq_2 [symmetric] numeral_3_eq_3 [symmetric])+

lemma sext2_pad: "push_bit 4 x AND 0x3F = sext2 x 0" "push_bit 4 x AND 0x3F OR drop_bit 4 y = sext2 x y"
  unfolding sext_defs by (rule byte_eqI; auto simp: byte_masks bit_simps)+

lemma sext3_pad: "push_bit 2 (y AND 0x0F) = sext3 y 0"
  by (simp add: sext3_def)

lemma digit64_not_pad: "unat w < 64 \<Longrightarrow> digit64 w \<noteq> P64"
  by (simp add: digit64_def T64_not_pad)

lemma iT64_digit64: "unat w < 64 \<Longrightarrow> iT64 (digit64 w) = w"
  by (simp add: digit64_def iT64_digit)

lemma enc64_eqs:
  "enc64 (x # y # z # ps) =
     digit64 (sext1 x) # digit64 (sext2 x y) # digit64 (sext3 y z) # digit64 (sext4 z) # enc64 ps"
  "enc64 [x, y] = [digit64 (sext1 x), digit64 (sext2 x y), digit64 (sext3 y 0), P64]"
  "enc64 [x] = [digit64 (sext1 x), digit64 (sext2 x 0), P64, P64]"
  by (simp_all only: enc64.simps Let_def digit64_def sext2_pad sext3_pad)
     (simp_all only: sext_defs drop_bit_of_0 or.right_neutral)

lemma dec64_eq:
  "dec64 oc w (c0 # c1 # c2 # c3 # ps) =
     (if w + 1 \<ge> oc then [push_bit 2 (iT64 c0) OR drop_bit 4 (iT64 c1)]
      else if w + 2 \<ge> oc then
        [push_bit 2 (iT64 c0) OR drop_bit 4 (iT64 c1), push_bit 4 (iT64 c1) OR drop_bit 2 (iT64 c2)]
      else (push_bit 2 (iT64 c0) OR drop_bit 4 (iT64 c1)) #
        (push_bit 4 (iT64 c1) OR drop_bit 2 (iT64 c2)) #
        (iT64 c3 OR push_bit 6 (iT64 c2)) # dec64 oc (w + 3) ps)"
  by (simp add: Let_def)

declare enc64.simps(1-3) [simp del] dec64.simps(1) [simp del]

lemma triples_induct [case_names three two one zero]:
  assumes "\<And>x y z xs. P xs \<Longrightarrow> P (x # y # z # xs)" and "\<And>x y. P [x, y]" and "\<And>x. P [x]" and "P []"
  shows "P xs"
  using assms by induction_schema (pat_completeness, lexicographic_order)

subsection \<open>Encoding and decoding\<close>

lemma length_enc64 [len_simps]: "length (enc64 xs) = 4 * ((length xs + 2) div 3)"
proof (induction xs rule: triples_induct)
  case (three x y z xs)
  have "(length xs + 2 + 3) div 3 = Suc ((length xs + 2) div 3)" by simp
  with three show ?case by (simp add: enc64_eqs)
qed (simp_all add: enc64_eqs)

lemma enc64_has_digit: "xs \<noteq> [] \<Longrightarrow> \<exists>c \<in> set (enc64 xs). c \<noteq> P64"
  by (cases xs rule: enc64.cases) (auto simp: enc64_eqs digit64_not_pad sext_less)

lemma enc64_pads:
  "xs \<noteq> [] \<Longrightarrow> length (takeWhile (\<lambda>c. c = P64) (rev (enc64 xs))) = (3 - length xs mod 3) mod 3"
proof (induction xs rule: triples_induct)
  case (three x y z ps)
  show ?case
  proof (cases "ps = []")
    case True
    then show ?thesis by (simp add: enc64_eqs digit64_not_pad sext_less)
  next
    case False
    then obtain c where "c \<in> set (rev (enc64 ps))" and "c \<noteq> P64"
      using enc64_has_digit by auto
    then have "takeWhile (\<lambda>c. c = P64) (rev (enc64 ps) @ ds) = takeWhile (\<lambda>c. c = P64) (rev (enc64 ps))"
      for ds by (rule takeWhile_append1)
    with three False show ?thesis by (simp add: enc64_eqs)
  qed
qed (simp_all add: enc64_eqs digit64_not_pad sext_less)

lemma dec64_enc64: "oc = w + length xs \<Longrightarrow> dec64 oc w (enc64 xs) = xs"
  by (induction xs arbitrary: w rule: triples_induct)
     (simp_all add: enc64_eqs dec64_eq iT64_digit64 sext_less sext_group add.commute [of _ 3])

text \<open>
  The decoder stores \<open>outCount\<close> bytes when at most two of the last four characters are padding; with
  three it stores one byte more.
\<close>

lemma length_dec64:
  "length cs = 4 * n \<Longrightarrow> w + 3 * n \<le> oc + 2 \<Longrightarrow> w < oc \<Longrightarrow> length (dec64 oc w cs) \<le> oc - w"
proof (induction n arbitrary: cs w)
  case 0
  then show ?case by simp
next
  case (Suc n)
  then obtain c0 c1 c2 c3 ps where cs: "cs = c0 # c1 # c2 # c3 # ps" and ps: "length ps = 4 * n"
    by (auto simp: length_Suc_conv numeral_eq_Suc)
  show ?case
  proof (cases "w + 3 < oc")
    case True
    with Suc.IH [of ps "w + 3"] Suc.prems ps show ?thesis by (auto simp: cs dec64_eq)
  next
    case False
    moreover have "w + 3 * n + 1 \<le> oc" using Suc.prems(2) by simp
    ultimately have "3 * n < 3" by linarith
    then have "n = 0" by simp
    with Suc.prems ps show ?thesis by (auto simp: cs dec64_eq)
  qed
qed


lemma base64_inverse:
  assumes "xs \<noteq> []" and "4 * ((length xs + 2) div 3) \<le> outLen" and "length xs \<le> len"
    and "length xs \<le> 1610612733"
  shows "ByteStreamToBase64 xs outLen = Some (length (enc64 xs), enc64 xs) \<and>
         Base64ToByteStream (enc64 xs) len = Some (length xs, xs)"
proof -
  define k where "k = (3 - length xs mod 3) mod 3"
  define n where "n = (length xs + 2) div 3"
  have arith: "3 * n = length xs + k \<and> k < 3 \<and> 0 < n \<and>
      n = (if length xs mod 3 = 0 then length xs div 3 else length xs div 3 + 1)"
  proof -
    define q r where "q = length xs div 3" and "r = length xs mod 3"
    then have len: "length xs = 3 * q + r" and r: "r < 3" by simp_all
    have n: "n = q + (r + 2) div 3"
      unfolding n_def len by (simp add: add.assoc)
    have k: "k = (3 - r) mod 3" by (simp add: k_def r_def)
    from len assms(1) have "0 < 3 * q + r" by (metis length_greater_0_conv)
    then have pos: "0 < q \<or> 0 < r" by simp
    from r consider "r = 0" | "r = 1" | "r = 2" by linarith
    then show ?thesis
      unfolding r_def [symmetric] q_def [symmetric] unfolding n k len using pos by cases simp_all
  qed
  have "n < 2 ^ 29" using assms(4) by (simp add: n_def)
  then have "ByteStreamToBase64 xs outLen = Some (length (enc64 xs), enc64 xs)"
    using assms(2) by (subst ByteStreamToBase64_small) (simp_all add: length_enc64 n_def)
  moreover have "Base64ToByteStream (enc64 xs) len = Some (length xs, xs)"
  proof -
    have ne: "enc64 xs \<noteq> []" and len4: "length (enc64 xs) = 4 * n"
      using enc64_has_digit [OF assms(1)] by (auto simp: length_enc64 n_def)
    have "k < 4 * n" using arith by linarith
    moreover have "size_sub (3 * n) k = length xs" using arith by (metis add_diff_cancel_right' le_add2 size_sub_le)
    moreover have "length (takeWhile (\<lambda>c. c = P64) (rev (enc64 xs))) = k"
      by (simp add: k_def enc64_pads [OF assms(1)])
    ultimately show ?thesis
      using ne len4 assms(3) dec64_enc64 [of "length xs" 0 xs] \<open>n < 2 ^ 29\<close>
      by (subst Base64ToByteStream_small [of _ n]) (simp_all add: Let_def del: size_sub_le)
  qed
  ultimately show ?thesis ..
qed

text \<open>
  C39. Base 64 round trip. Encoding a nonempty byte string of at most 1610612733 bytes into a buffer
  that is large enough, then decoding into a buffer of at least the original length, returns the
  original bytes and their count, and neither call leaves its buffers or overflows its counters; the
  encoder reports exactly the number of characters it stored. One byte more and the \<open>int\<close> count of the
  encoder overflows (\<open>ByteStreamToBase64_overflow\<close>).
\<close>

theorem base64_roundtrip:
  assumes "xs \<noteq> []" and "4 * ((length xs + 2) div 3) \<le> outLen" and "length xs \<le> len"
    and "length xs \<le> 1610612733"
  shows "ByteStreamToBase64 xs outLen = Some (length (enc64 xs), enc64 xs) \<and>
         Base64ToByteStream (enc64 xs) len = Some (length xs, xs)"
  using assms by (rule base64_inverse)

theorem base64_roundtrip_witness:
  "[1, 2] \<noteq> ([] :: bytes) \<and> Base64ToByteStream (enc64 [1, 2]) 2 = Some (2, [1, 2])"
  using base64_roundtrip [of "[1, 2]" 4 2] by simp

text \<open>
  The base 64 decoder is memory safe on every input shorter than 2 GB whose padding is at most two
  characters (and does not fill the whole input): it returns without leaving either buffer and reports at least as
  many bytes as it stored.
\<close>

theorem base64_decode_safe:
  assumes "length (takeWhile (\<lambda>c. c = P64) (rev cs)) \<le> 2" and "length cs < 2 ^ 31"
  shows "\<exists>n out. Base64ToByteStream cs len = Some (n, out) \<and> length out \<le> n \<and> n \<le> len"
proof (cases "cs \<noteq> [] \<and> length cs mod 4 = 0")
  case False
  then have "Base64ToByteStream cs len = Some (0, [])" by (auto simp: Base64ToByteStream_def)
  then show ?thesis by simp
next
  case True
  define n where "n = length cs div 4"
  define k where "k = length (takeWhile (\<lambda>c. c = P64) (rev cs))"
  have len: "length cs = 4 * n" using True by (auto simp: n_def)
  with True have "0 < n" by (cases n) auto
  have k: "k \<le> 2" using assms(1) by (simp add: k_def)
  have "length (dec64 (3 * n - k) 0 cs) \<le> 3 * n - k - 0"
    by (rule length_dec64 [OF len]) (use k \<open>0 < n\<close> in linarith)+
  moreover have "size_sub (3 * n) k = 3 * n - k" and "k \<noteq> length cs"
    using k len \<open>0 < n\<close> by simp_all
  moreover have "Base64ToByteStream cs len =
      (if k = length cs then None
       else if size_sub (3 * n) k > len then Some (0, [])
       else if length (dec64 (size_sub (3 * n) k) 0 cs) > len then None
       else Some (size_sub (3 * n) k, dec64 (size_sub (3 * n) k) 0 cs))"
    by (subst Base64ToByteStream_small [OF len])
      (use True assms(2) len in \<open>simp_all add: Let_def k_def del: size_sub_le\<close>)
  ultimately show ?thesis by auto
qed

theorem base64_decode_safe_witness:
  "\<exists>n out. Base64ToByteStream (map of_char ''QUI='') 2 = Some (n, out) \<and> length out \<le> n \<and> n \<le> 2"
  by (rule base64_decode_safe) (simp_all add: P64_def)

text \<open>
  With three padding characters the decoder stores one byte past the count it returns: eight
  characters that decode to three bytes overflow an output buffer of exactly three bytes.
\<close>

theorem base64_decode_overflow:
  "Base64ToByteStream (map of_char ''AAAAA==='') 3 = None \<and>
   length (dec64 3 0 (map of_char ''AAAAA===''))  = 4"
  by (simp add: Base64ToByteStream_small [of _ 2] Let_def dec64_eq P64_def)

end
