(* ===== verification/Base32.thy ===== *)
theory Base32
  imports Prelude
begin

text \<open>
  Base 32 of \<open>src/core/util/base64.cpp\<close>. The accumulator \<open>tmp\<close> is a C \<open>int\<close>: 32 bits whose left
  shifts drop the bits that leave the word (\<open>push_bit\<close>) and whose right shifts are arithmetic
  (\<open>signed_drop_bit\<close>).
\<close>

section \<open>The two loops\<close>

definition val32 :: "byte \<Rightarrow> byte option" where
  "val32 ch =
     (if of_char (CHR ''2'') \<le> ch \<and> ch \<le> of_char (CHR ''7'') then Some ((ch - of_char (CHR ''2'')) + 26)
      else if of_char (CHR ''a'') \<le> ch \<and> ch \<le> of_char (CHR ''z'') then Some (ch - of_char (CHR ''a''))
      else None)"

fun dec32 :: "nat \<Rightarrow> u32 \<Rightarrow> nat \<Rightarrow> nat \<Rightarrow> bytes \<Rightarrow> nat \<times> bytes" where
  "dec32 outLen tmp bits ret [] = (ret, [])"
| "dec32 outLen tmp bits ret (c # cs) =
     (case val32 c of
        None \<Rightarrow> (0, [])
      | Some ch \<Rightarrow>
          let tmp = tmp OR ucast ch;
              bits = bits + 5
          in if bits \<ge> 8 then
               if ret \<ge> outLen then (ret, [])
               else
                 let (r, out) = dec32 outLen (push_bit 5 tmp) (bits - 8) (ret + 1) cs
                 in (r, ucast (signed_drop_bit (bits - 8) tmp) # out)
             else dec32 outLen (push_bit 5 tmp) bits ret cs)"

definition Base32ToByteStream :: "bytes \<Rightarrow> nat \<Rightarrow> nat \<times> bytes" where
  "Base32ToByteStream inBuf outLen = dec32 outLen 0 0 0 inBuf"

definition chr32 :: "u32 \<Rightarrow> byte" where
  "chr32 ind = (if ind < 26 then ucast ind + of_char (CHR ''a'') else ucast (ind - 26) + of_char (CHR ''2''))"

text \<open>\<open>ps\<close> is the input from \<open>inBuf[pos]\<close> on, so \<open>pos < len\<close> reads \<open>ps \<noteq> []\<close>.\<close>

function enc32 :: "nat \<Rightarrow> u32 \<Rightarrow> nat \<Rightarrow> bytes \<Rightarrow> nat \<Rightarrow> bytes" where
  "enc32 outLen tmp bits ps ret =
     (if ret < outLen \<and> (bits > 0 \<or> ps \<noteq> []) then
        let (tmp, bits, ps) =
              (if bits < 5 then
                 (case ps of
                    x # ps' \<Rightarrow> (push_bit 8 tmp OR (ucast x AND 0xFF), bits + 8, ps')
                  | [] \<Rightarrow> (push_bit (5 - bits) tmp, 5, []))
               else (tmp, bits, ps));
            bits = bits - 5;
            ind = signed_drop_bit bits tmp AND 0x1F
        in chr32 ind # enc32 outLen tmp bits ps (ret + 1)
      else [])"
  by pat_completeness auto
termination
  by (relation "measure (\<lambda>(outLen, tmp, bits, ps, ret). outLen - ret)") auto

declare enc32.simps [simp del]

definition ByteStreamToBase32 :: "bytes \<Rightarrow> nat \<Rightarrow> nat \<times> bytes" where
  "ByteStreamToBase32 inBuf outLen =
     (case inBuf of
        [] \<Rightarrow> (0, [])
      | x # ps \<Rightarrow> let out = enc32 outLen (ucast x) 8 ps 0 in (length out, out))"

section \<open>The pending bits\<close>

lemma val32_chr32_all: "list_all (\<lambda>i. val32 (chr32 (of_nat i)) = Some (of_nat i)) [0..<32]"
  by code_simp

lemma val32_chr32:
  assumes "unat w < 32"
  shows "val32 (chr32 w) = Some (ucast w)"
proof -
  have "val32 (chr32 (of_nat (unat w))) = Some (of_nat (unat w))"
    using val32_chr32_all assms by (simp add: list_all_iff del: of_nat_unat)
  then show ?thesis by (simp add: of_nat_unat)
qed

text \<open>The low \<open>b\<close> bits of the accumulator as a number.\<close>

definition pend :: "nat \<Rightarrow> u32 \<Rightarrow> nat" where
  "pend b t = take_bit b (unat t)"

lemma pend_less: "pend b t < 2 ^ b"
  by (simp add: pend_def)

lemma pend_0 [simp]: "pend 0 t = 0" "pend b 0 = 0"
  by (simp_all add: pend_def)

lemma pend_push: "b + k \<le> 32 \<Longrightarrow> pend (b + k) (push_bit k t) = pend b t * 2 ^ k"
proof -
  assume "b + k \<le> 32"
  then have "min b (32 - k) = b" by simp
  then show ?thesis
    unfolding pend_def unsigned_push_bit_eq take_bit_take_bit take_bit_push_bit
    by (simp add: push_bit_eq_mult min_def)
qed

lemma pend_low: "c \<le> b \<Longrightarrow> pend c t = pend b t mod 2 ^ c"
  by (simp add: pend_def take_bit_eq_mod mod_mod_cancel le_imp_power_dvd)

lemma pend_or:
  assumes "unat x < 2 ^ k" and "k \<le> b" and "pend k t = 0"
  shows "pend b (t OR x) = pend b t + unat x"
proof -
  have "unat x < 2 ^ b"
    using assms(1,2) by (meson less_le_trans one_le_numeral power_increasing)
  then have xb: "take_bit b (unat x) = unat x" by (rule take_bit_nat_eq_self)
  have "take_bit b (unat t) AND unat x = 0"
  proof (rule bit_eqI)
    fix n
    have "take_bit k (unat x) = unat x" using assms(1) by (rule take_bit_nat_eq_self)
    then have "n < k" if "bit (unat x) n" using that by (metis bit_take_bit_iff)
    moreover have "\<not> bit (unat t) n" if "n < k"
      using assms(3) that by (metis bit_0_eq bit_take_bit_iff bot_apply bot_bool_def pend_def)
    ultimately show "bit (take_bit b (unat t) AND unat x) n = bit 0 n"
      by (auto simp: bit_simps)
  qed
  then show ?thesis
    by (simp add: pend_def unsigned_or_eq take_bit_or xb disjunctive_add_eq_or)
qed

lemma pend_shift_out:
  "b + 5 \<le> 31 \<Longrightarrow> unat (signed_drop_bit b t AND 0x1F) = pend (b + 5) t div 2 ^ b"
proof -
  assume "b + 5 \<le> 31"
  have m: "(0x1F :: u32) = mask 5" by (simp add: mask_eq_exp_minus_1)
  have "unat (signed_drop_bit b t AND 0x1F) = drop_bit b (take_bit (b + 5) (unat t))"
    using \<open>b + 5 \<le> 31\<close>
    by (intro bit_eqI) (auto simp: m bit_simps)
  then show ?thesis by (simp add: pend_def drop_bit_eq_div)
qed

lemma byte_shift_out:
  "b + 8 \<le> 31 \<Longrightarrow> (ucast (signed_drop_bit b t) :: byte) = of_nat (pend (b + 8) t div 2 ^ b)"
proof -
  assume "b + 8 \<le> 31"
  have "(ucast (signed_drop_bit b t) :: byte) = of_nat (drop_bit b (take_bit (b + 8) (unat t)))"
    using \<open>b + 8 \<le> 31\<close>
    by (intro bit_word_eqI) (auto simp: bit_simps)
  then show ?thesis by (simp add: pend_def drop_bit_eq_div)
qed

section \<open>One step of each loop\<close>

lemma enc32_take:
  assumes "ret < outLen" and "5 \<le> bits" and "bits \<le> 8"
  obtains w where "enc32 outLen t bits ps ret = chr32 w # enc32 outLen t (bits - 5) ps (ret + 1)"
    and "unat w = pend bits t div 2 ^ (bits - 5)"
proof -
  define w where "w = signed_drop_bit (bits - 5) t AND 0x1F"
  have "enc32 outLen t bits ps ret = chr32 w # enc32 outLen t (bits - 5) ps (ret + 1)"
    using assms by (subst enc32.simps) (simp add: w_def Let_def)
  moreover have "unat w = pend bits t div 2 ^ (bits - 5)"
    using assms pend_shift_out [of "bits - 5" t] by (simp add: w_def)
  ultimately show ?thesis by (rule that)
qed

lemma enc32_refill:
  assumes "ret < outLen" and "bits < 5"
  obtains w t' where
    "enc32 outLen t bits (x # ps) ret = chr32 w # enc32 outLen t' (bits + 3) ps (ret + 1)"
    and "unat w = (pend bits t * 256 + unat x) div 2 ^ (bits + 3)"
    and "pend (bits + 3) t' = (pend bits t * 256 + unat x) mod 2 ^ (bits + 3)"
proof -
  define t' where "t' = push_bit 8 t OR (ucast x AND 0xFF)"
  define w where "w = signed_drop_bit (bits + 3) t' AND 0x1F"
  have m: "(0xFF :: u32) = mask 8" by (simp add: mask_eq_exp_minus_1)
  have "(ucast x AND 0xFF :: u32) = ucast x"
    unfolding m by (rule bit_word_eqI) (auto simp: bit_simps dest: bit_imp_le_length)
  moreover have "unat (ucast x :: u32) = unat x"
  proof -
    have "unat x < 2 ^ 32" by (rule order.strict_trans [OF unat_byte_less]) simp
    then show ?thesis by (simp add: unsigned_ucast_eq take_bit_nat_eq_self)
  qed
  moreover have "unat x < 2 ^ 8" using unat_byte_less [of x] by simp
  ultimately have p': "pend (bits + 8) t' = pend bits t * 256 + unat x"
    using assms pend_push [of bits 8 t] pend_push [of 0 8 t]
    by (simp add: t'_def pend_or [where k = 8])
  have "enc32 outLen t bits (x # ps) ret = chr32 w # enc32 outLen t' (bits + 3) ps (ret + 1)"
    using assms by (subst enc32.simps) (simp add: w_def t'_def Let_def add.commute)
  moreover have "unat w = (pend bits t * 256 + unat x) div 2 ^ (bits + 3)"
    using assms pend_shift_out [of "bits + 3" t'] p' by (simp add: w_def add.commute)
  moreover have "pend (bits + 3) t' = (pend bits t * 256 + unat x) mod 2 ^ (bits + 3)"
    using pend_low [of "bits + 3" "bits + 8" t'] p' by simp
  ultimately show ?thesis by (rule that)
qed

lemma enc32_last:
  assumes "ret < outLen" and "0 < bits" and "bits < 5"
  obtains w t' where "enc32 outLen t bits [] ret = [chr32 w]"
    and "unat w = pend bits t * 2 ^ (5 - bits)"
proof -
  define t' where "t' = push_bit (5 - bits) t"
  define w where "w = signed_drop_bit 0 t' AND 0x1F"
  have "enc32 outLen t' 0 [] (ret + 1) = []" by (simp add: enc32.simps)
  then have "enc32 outLen t bits [] ret = [chr32 w]"
    using assms by (subst enc32.simps) (simp add: w_def t'_def Let_def)
  moreover have "unat w = pend bits t * 2 ^ (5 - bits)"
    using assms pend_shift_out [of 0 t'] pend_push [of bits "5 - bits" t] by (simp add: w_def t'_def)
  ultimately show ?thesis by (rule that)
qed

text \<open>
  Between two characters the decoder holds \<open>bd\<close> pending bits above five zero bits.
\<close>

definition dinv :: "nat \<Rightarrow> u32 \<Rightarrow> nat \<Rightarrow> bool" where
  "dinv bd t p \<longleftrightarrow> bd < 8 \<and> pend (bd + 5) t = p * 32"

lemma dinv_or:
  assumes "dinv bd t p" and "unat w < 32"
  shows "pend (bd + 5) (t OR ucast (ucast w :: byte)) = p * 32 + unat w"
proof -
  have "unat (ucast (ucast w :: byte) :: u32) = unat w"
    using assms(2) by (simp add: unsigned_ucast_eq unsigned_take_bit_eq take_bit_nat_eq_self)
  moreover have "pend 5 t = 0"
    using assms(1) pend_low [of 5 "bd + 5" t] by (simp add: dinv_def)
  ultimately show ?thesis
    using assms by (simp add: dinv_def pend_or [where k = 5])
qed

lemma dec32_keep:
  assumes "dinv bd t p" and "unat w < 32" and "bd < 3"
  obtains t' where "dec32 outLen t bd ret (chr32 w # cs) = dec32 outLen t' (bd + 5) ret cs"
    and "dinv (bd + 5) t' (p * 32 + unat w)"
proof -
  define t' where "t' = push_bit 5 (t OR ucast (ucast w :: byte))"
  have "dec32 outLen t bd ret (chr32 w # cs) = dec32 outLen t' (bd + 5) ret cs"
    using assms by (simp add: val32_chr32 Let_def t'_def)
  moreover have "dinv (bd + 5) t' (p * 32 + unat w)"
    using assms pend_push [of "bd + 5" 5 "t OR ucast (ucast w :: byte)"] dinv_or [OF assms(1,2)]
    by (simp add: dinv_def t'_def)
  ultimately show ?thesis by (rule that)
qed

lemma dec32_emit:
  assumes "dinv bd t p" and "unat w < 32" and "3 \<le> bd" and "ret < outLen"
  obtains t' where "dec32 outLen t bd ret (chr32 w # cs) =
      (let (r, out) = dec32 outLen t' (bd - 3) (ret + 1) cs
       in (r, of_nat ((p * 32 + unat w) div 2 ^ (bd - 3)) # out))"
    and "dinv (bd - 3) t' ((p * 32 + unat w) mod 2 ^ (bd - 3))"
proof -
  define s where "s = t OR ucast (ucast w :: byte)"
  have s: "pend (bd + 5) s = p * 32 + unat w"
    unfolding s_def by (rule dinv_or [OF assms(1,2)])
  have bd: "bd < 8" using assms(1) by (simp add: dinv_def)
  have "dec32 outLen t bd ret (chr32 w # cs) =
      (let (r, out) = dec32 outLen (push_bit 5 s) (bd - 3) (ret + 1) cs
       in (r, of_nat ((p * 32 + unat w) div 2 ^ (bd - 3)) # out))"
    using assms bd s byte_shift_out [of "bd - 3" s]
    by (simp add: val32_chr32 Let_def s_def [symmetric] add.commute)
  moreover have "dinv (bd - 3) (push_bit 5 s) ((p * 32 + unat w) mod 2 ^ (bd - 3))"
    using bd assms(3) s pend_push [of "bd - 3" 5 s] pend_low [of "bd - 3" "bd + 5" s]
    by (simp add: dinv_def)
  ultimately show ?thesis by (rule that)
qed

declare dec32.simps(2) [simp del]

section \<open>Round trip\<close>

lemma split_group:
  fixes q x :: nat
  assumes "be < 5" and "x < 256" and "q < 2 ^ be"
  defines "v \<equiv> q * 256 + x"
  shows "v div 2 ^ (be + 3) < 32"
    and "v div 2 ^ (be + 3) div 2 ^ (5 - be) = q"
    and "(v div 2 ^ (be + 3)) mod 2 ^ (5 - be) * 2 ^ (be + 3) + v mod 2 ^ (be + 3) = x"
proof -
  have pow: "(2::nat) ^ (be + 3) * 2 ^ (5 - be) = 256"
    using assms(1) by (simp flip: power_add)
  show "v div 2 ^ (be + 3) div 2 ^ (5 - be) = q"
    using assms(2) pow by (simp add: v_def flip: div_mult2_eq)
  have "x = v mod (2 ^ (be + 3) * 2 ^ (5 - be))"
    using assms(2) pow by (simp add: v_def)
  then show "(v div 2 ^ (be + 3)) mod 2 ^ (5 - be) * 2 ^ (be + 3) + v mod 2 ^ (be + 3) = x"
    by (simp add: mod_mult2_eq mult.commute)
  have "v < 2 ^ be * 256"
  proof -
    have "(q + 1) * 256 \<le> 2 ^ be * (256 :: nat)" using assms(3) by (intro mult_le_mono1) simp
    then show ?thesis using assms(2) by (simp add: v_def)
  qed
  then have "v < 32 * 2 ^ (be + 3)" by (simp add: power_add)
  then show "v div 2 ^ (be + 3) < 32" by (simp add: less_mult_imp_div_less)
qed

lemma combine_group:
  fixes p i :: nat
  assumes "be \<le> 5"
  shows "(p * 32 + i) div 2 ^ (5 - be) = p * 2 ^ be + i div 2 ^ (5 - be)"
    and "(p * 32 + i) mod 2 ^ (5 - be) = i mod 2 ^ (5 - be)"
proof -
  have "(2::nat) ^ be * 2 ^ (5 - be) = 2 ^ 5"
    using assms by (simp flip: power_add)
  then have eq: "p * 32 + i = i + p * 2 ^ be * 2 ^ (5 - be)"
    by (simp add: mult.assoc)
  show "(p * 32 + i) div 2 ^ (5 - be) = p * 2 ^ be + i div 2 ^ (5 - be)"
    unfolding eq by simp
  show "(p * 32 + i) mod 2 ^ (5 - be) = i mod 2 ^ (5 - be)"
    unfolding eq by simp
qed

lemma dec32_enc32:
  assumes "dinv bd td p" and "be \<le> 8" and "bd + be = 8 \<or> bd = 0 \<and> be = 0"
    and "be + 8 * length ps \<le> 5 * (encLen - s)"
    and "r + (if be = 0 then 0 else 1) + length ps \<le> outLen"
  shows "dec32 outLen td bd r (enc32 encLen te be ps s) =
     (r + (if be = 0 then 0 else 1) + length ps,
      (if be = 0 then [] else [of_nat (p * 2 ^ be + pend be te)]) @ ps)"
  using assms
proof (induction "encLen - s" arbitrary: te be ps s bd td p r rule: less_induct)
  case less
  have q: "pend be te < 2 ^ be" by (rule pend_less)
  show ?case
  proof (cases "5 \<le> be")
    case True
    have s: "s < encLen" using less.prems(4) True by simp
    from enc32_take [OF s True less.prems(2)] obtain w where
      enc: "enc32 encLen te be ps s = chr32 w # enc32 encLen te (be - 5) ps (s + 1)"
      and w: "unat w = pend be te div 2 ^ (be - 5)" .
    have pow: "(2::nat) ^ be = 32 * 2 ^ (be - 5)"
      using power_add [of "2::nat" 5 "be - 5"] True by simp
    then have w32: "unat w < 32" using q by (simp add: w less_mult_imp_div_less)
    have pq: "(p * 32 + unat w) * 2 ^ (be - 5) + pend (be - 5) te = p * 2 ^ be + pend be te"
      using pend_low [of "be - 5" be te] by (simp add: w pow algebra_simps)
    have cap: "be - 5 + 8 * length ps \<le> 5 * (encLen - (s + 1))" "encLen - (s + 1) < encLen - s"
      using less.prems(4) True s by auto
    show ?thesis
    proof (cases "be = 5")
      case False
      with True less.prems(3) have bd: "bd < 3" "bd + 5 + (be - 5) = 8" by auto
      from dec32_keep [OF less.prems(1) w32 bd(1)] obtain t' where
        "dec32 outLen td bd r (chr32 w # enc32 encLen te (be - 5) ps (s + 1)) =
           dec32 outLen t' (bd + 5) r (enc32 encLen te (be - 5) ps (s + 1))"
        and d: "dinv (bd + 5) t' (p * 32 + unat w)" .
      with less.hyps [OF cap(2) d, of "be - 5" ps r te] less.prems False True bd cap pq
      show ?thesis unfolding enc by simp
    next
      case True
      with less.prems(3) have bd: "3 \<le> bd" "bd - 3 = 0" by auto
      from less.prems(5) True have r: "r < outLen" by simp
      from dec32_emit [OF less.prems(1) w32 bd(1) r] obtain t' where
        "dec32 outLen td bd r (chr32 w # enc32 encLen te (be - 5) ps (s + 1)) =
          (let (r, out) = dec32 outLen t' (bd - 3) (r + 1) (enc32 encLen te (be - 5) ps (s + 1))
           in (r, of_nat ((p * 32 + unat w) div 2 ^ (bd - 3)) # out))"
        and d: "dinv (bd - 3) t' ((p * 32 + unat w) mod 2 ^ (bd - 3))" .
      with less.hyps [OF cap(2) d, of "be - 5" ps "r + 1" te] less.prems True bd cap pq
      show ?thesis unfolding enc by simp
    qed
  next
    case small: False
    then have be5: "be < 5" "be \<le> 5" by simp_all
    show ?thesis
    proof (cases ps)
      case (Cons x ps')
      have s: "s < encLen" using less.prems(4) Cons by simp
      from enc32_refill [OF s be5(1)] obtain w t where
        enc: "enc32 encLen te be (x # ps') s = chr32 w # enc32 encLen t (be + 3) ps' (s + 1)"
        and w: "unat w = (pend be te * 256 + unat x) div 2 ^ (be + 3)"
        and t: "pend (be + 3) t = (pend be te * 256 + unat x) mod 2 ^ (be + 3)" .
      have x: "unat x < 256" by simp
      note g = split_group [OF be5(1) x q, folded w t]
      have cap: "be + 3 + 8 * length ps' \<le> 5 * (encLen - (s + 1))" "encLen - (s + 1) < encLen - s"
        using less.prems(4) Cons s by auto
      show ?thesis
      proof (cases "be = 0")
        case True
        with less.prems(1,3) have bd: "bd < 3" "bd = 0" by (auto simp: dinv_def)
        have "p = 0" using less.prems(1) pend_less [of 5 td] bd by (simp add: dinv_def)
        from dec32_keep [OF less.prems(1) g(1) bd(1)] obtain t' where
          "dec32 outLen td bd r (chr32 w # enc32 encLen t (be + 3) ps' (s + 1)) =
             dec32 outLen t' (bd + 5) r (enc32 encLen t (be + 3) ps' (s + 1))"
          and d: "dinv (bd + 5) t' (p * 32 + unat w)" .
        with less.hyps [OF cap(2) d, of "be + 3" ps' r t] less.prems True bd cap g(3) g(1) Cons
        show ?thesis unfolding Cons enc by (simp add: \<open>p = 0\<close> del: of_nat_add of_nat_mult)
      next
        case False
        with less.prems(3) be5 have bd: "3 \<le> bd" "bd - 3 = 5 - be" by auto
        from less.prems(5) Cons have r: "r < outLen" by simp
        from dec32_emit [OF less.prems(1) g(1) bd(1) r] obtain t' where
          "dec32 outLen td bd r (chr32 w # enc32 encLen t (be + 3) ps' (s + 1)) =
            (let (r, out) = dec32 outLen t' (bd - 3) (r + 1) (enc32 encLen t (be + 3) ps' (s + 1))
             in (r, of_nat ((p * 32 + unat w) div 2 ^ (bd - 3)) # out))"
          and d: "dinv (bd - 3) t' ((p * 32 + unat w) mod 2 ^ (bd - 3))" .
        with less.hyps [OF cap(2) d, of "be + 3" ps' "r + 1" t] less.prems False bd cap g Cons be5
        show ?thesis unfolding Cons enc by (simp add: combine_group del: of_nat_add of_nat_mult)
      qed
    next
      case Nil
      show ?thesis
      proof (cases "be = 0")
        case True
        with Nil show ?thesis by (simp add: enc32.simps)
      next
        case False
        then have "0 < be" by simp
        have s: "s < encLen" using less.prems(4) False by simp
        from enc32_last [OF s \<open>0 < be\<close> be5(1)] obtain w where
          enc: "enc32 encLen te be [] s = [chr32 w]" and w: "unat w = pend be te * 2 ^ (5 - be)" .
        have "unat w < 2 ^ be * 2 ^ (5 - be)" using q by (simp add: w)
        then have w32: "unat w < 32" using be5 by (simp flip: power_add)
        from False less.prems(3) be5 have bd: "3 \<le> bd" "bd - 3 = 5 - be" by auto
        from less.prems(5) False have r: "r < outLen" by simp
        from dec32_emit [OF less.prems(1) w32 bd(1) r, of "[]"]
        have "dec32 outLen td bd r [chr32 w] = (r + 1, [of_nat ((p * 32 + unat w) div 2 ^ (bd - 3))])"
          by (metis (no_types, lifting) case_prod_conv dec32.simps(1))
        also have "(p * 32 + unat w) div 2 ^ (bd - 3) = p * 2 ^ be + pend be te"
          unfolding bd(2) combine_group(1) [OF be5(2)] w by simp
        finally show ?thesis unfolding Nil enc using False by (simp del: of_nat_add of_nat_mult)
      qed
    qed
  qed
qed


text \<open>
  Base 32 round trip: encoding a nonempty byte string into a buffer of at least
  \<open>8 * length / 5\<close> characters (rounded up) and decoding the result into a buffer of at least the
  original length returns the original bytes and their count.
\<close>

theorem base32_roundtrip:
  assumes "xs \<noteq> []" and "8 * length xs \<le> 5 * encLen" and "length xs \<le> outLen"
  shows "Base32ToByteStream (snd (ByteStreamToBase32 xs encLen)) outLen = (length xs, xs)"
proof -
  obtain x ps where xs: "xs = x # ps" using assms(1) by (cases xs) auto
  have "dinv 0 0 0" by (simp add: dinv_def)
  moreover have "pend 8 (ucast x) = unat x"
  proof -
    have "unat x < 2 ^ 32" by (rule order.strict_trans [OF unat_byte_less]) simp
    then show ?thesis
      by (simp add: pend_def unsigned_ucast_eq take_bit_nat_eq_self)
  qed
  ultimately show ?thesis
    using dec32_enc32 [of 0 0 0 8 ps encLen 0 0 outLen "ucast x"] assms(2,3)
    by (simp add: xs ByteStreamToBase32_def Base32ToByteStream_def Let_def)
qed

theorem base32_roundtrip_witness:
  "Base32ToByteStream (snd (ByteStreamToBase32 [104, 105] 4)) 2 = (2, [104, 105])"
  using base32_roundtrip [of "[104, 105]" 4 2] by simp

text \<open>
  A base 32 output buffer that is too small truncates the result instead of giving the zero the
  header documents: both directions return the number of bytes that fitted.
\<close>

theorem base32_truncates:
  "fst (ByteStreamToBase32 [104, 105] 2) = 2 \<and>
   fst (Base32ToByteStream (snd (ByteStreamToBase32 [104, 105] 4)) 1) = 1"
  by code_simp

end
