(* ===== verification/Endian.thy ===== *)
theory Endian
  imports Prelude
begin

text \<open>
  Byte order: \<open>src/core/util/I2PEndian.h\<close>, its fallback \<open>I2PEndian.cpp\<close> and the templates of
  \<open>LittleBigEndian.h\<close>. The host is little endian, as the fallback branch of the header assumes:
  a native integer is stored with its least significant byte first (\<open>le_bytes\<close>).
\<close>

section \<open>Native integers in memory\<close>

definition le_bytes :: "nat \<Rightarrow> 'a::len word \<Rightarrow> bytes" where
  "le_bytes n w = map (\<lambda>i. ucast (drop_bit (8 * i) w)) [0..<n]"

fun of_le :: "bytes \<Rightarrow> 'a::len word" where
  "of_le [] = 0"
| "of_le (b # bs) = ucast b OR push_bit 8 (of_le bs)"

lemma length_le_bytes [simp, len_simps]: "length (le_bytes n w) = n"
  by (simp add: le_bytes_def)

lemma bit_of_le:
  "bit (of_le bs :: 'a::len word) k \<longleftrightarrow>
     k < LENGTH('a) \<and> k div 8 < length bs \<and> bit (bs ! (k div 8)) (k mod 8)"
proof (induction bs arbitrary: k)
  case Nil
  then show ?case by simp
next
  case (Cons b bs)
  show ?case
  proof (cases "k < 8")
    case True
    then show ?thesis
      using bit_imp_le_length [of b k] by (auto simp: bit_simps)
  next
    case False
    then obtain j where j: "k = j + 8"
      by (metis add.commute le_Suc_ex not_less)
    have "\<not> bit b (j + 8)"
      using bit_imp_le_length [of b "j + 8"] by auto
    moreover have "(j + 8) div 8 = Suc (j div 8)"
      by presburger
    ultimately show ?thesis
      by (auto simp: bit_simps j Cons.IH)
  qed
qed

lemma of_le_le_bytes [simp]: "LENGTH('a) = 8 * n \<Longrightarrow> of_le (le_bytes n w) = (w :: 'a::len word)"
  by (rule bit_word_eqI)
     (auto simp: bit_of_le le_bytes_def bit_simps nth_append less_mult_imp_div_less mult.commute)

lemma le_bytes_of_le [simp]:
  assumes "LENGTH('a) = 8 * n" and "length bs = n"
  shows "le_bytes n (of_le bs :: 'a::len word) = bs"
proof (rule nth_equalityI)
  show "length (le_bytes n (of_le bs :: 'a word)) = length bs"
    using assms by simp
next
  fix i
  assume "i < length (le_bytes n (of_le bs :: 'a word))"
  then have i: "i < n" by simp
  have "bit (le_bytes n (of_le bs :: 'a word) ! i) k = bit (bs ! i) k" if "k < 8" for k
    using that i assms by (simp add: le_bytes_def bit_simps bit_of_le)
  then show "le_bytes n (of_le bs :: 'a word) ! i = bs ! i"
    by (intro bit_word_eqI) simp
qed

text \<open>Network order: most significant byte first.\<close>

abbreviation be_bytes :: "nat \<Rightarrow> 'a::len word \<Rightarrow> bytes" where
  "be_bytes n w \<equiv> rev (le_bytes n w)"

abbreviation of_be :: "bytes \<Rightarrow> 'a::len word" where
  "of_be bs \<equiv> of_le (rev bs)"

section \<open>I2PEndian.h\<close>

text \<open>\<open>htobe16\<close> and its kin of \<open><endian.h>\<close> swap the bytes on a little-endian host.\<close>

definition bswap :: "'a::len word \<Rightarrow> 'a word" where
  "bswap w = of_le (rev (le_bytes (LENGTH('a) div 8) w))"

definition htobe16 :: "u16 \<Rightarrow> u16" where "htobe16 x = bswap x"
definition htobe32 :: "u32 \<Rightarrow> u32" where "htobe32 x = bswap x"
definition htobe64 :: "u64 \<Rightarrow> u64" where "htobe64 x = bswap x"
definition be16toh :: "u16 \<Rightarrow> u16" where "be16toh x = bswap x"
definition be32toh :: "u32 \<Rightarrow> u32" where "be32toh x = bswap x"
definition be64toh :: "u64 \<Rightarrow> u64" where "be64toh x = bswap x"

definition buf16toh :: "nat \<Rightarrow> bytes \<Rightarrow> u16 option" where
  "buf16toh i mem = map_option of_le (mem_read i 2 mem)"
definition buf32toh :: "nat \<Rightarrow> bytes \<Rightarrow> u32 option" where
  "buf32toh i mem = map_option of_le (mem_read i 4 mem)"
definition buf64toh :: "nat \<Rightarrow> bytes \<Rightarrow> u64 option" where
  "buf64toh i mem = map_option of_le (mem_read i 8 mem)"

definition bufbe16toh :: "nat \<Rightarrow> bytes \<Rightarrow> u16 option" where
  "bufbe16toh i mem = map_option be16toh (buf16toh i mem)"
definition bufbe32toh :: "nat \<Rightarrow> bytes \<Rightarrow> u32 option" where
  "bufbe32toh i mem = map_option be32toh (buf32toh i mem)"
definition bufbe64toh :: "nat \<Rightarrow> bytes \<Rightarrow> u64 option" where
  "bufbe64toh i mem = map_option be64toh (buf64toh i mem)"

definition htobuf16 :: "nat \<Rightarrow> u16 \<Rightarrow> bytes \<Rightarrow> bytes option" where
  "htobuf16 i x mem = mem_write i (le_bytes 2 x) mem"
definition htobuf32 :: "nat \<Rightarrow> u32 \<Rightarrow> bytes \<Rightarrow> bytes option" where
  "htobuf32 i x mem = mem_write i (le_bytes 4 x) mem"
definition htobuf64 :: "nat \<Rightarrow> u64 \<Rightarrow> bytes \<Rightarrow> bytes option" where
  "htobuf64 i x mem = mem_write i (le_bytes 8 x) mem"

definition htobe16buf :: "nat \<Rightarrow> u16 \<Rightarrow> bytes \<Rightarrow> bytes option" where
  "htobe16buf i x mem = htobuf16 i (htobe16 x) mem"
definition htobe32buf :: "nat \<Rightarrow> u32 \<Rightarrow> bytes \<Rightarrow> bytes option" where
  "htobe32buf i x mem = htobuf32 i (htobe32 x) mem"
definition htobe64buf :: "nat \<Rightarrow> u64 \<Rightarrow> bytes \<Rightarrow> bytes option" where
  "htobe64buf i x mem = htobuf64 i (htobe64 x) mem"

lemmas hostorder_defs =
  htobe16_def htobe32_def htobe64_def be16toh_def be32toh_def be64toh_def

lemma bswap_bswap [simp]:
  assumes "8 dvd LENGTH('a)"
  shows "bswap (bswap w) = (w :: 'a::len word)"
proof -
  from assms obtain n where "LENGTH('a) = 8 * n" by (auto simp: dvd_def)
  then show ?thesis by (simp add: bswap_def)
qed

text \<open>What the accessors do, in terms of network order alone.\<close>

lemma le_bytes_bswap [simp]:
  "LENGTH('a) = 8 * n \<Longrightarrow> le_bytes n (bswap w :: 'a::len word) = be_bytes n w"
  by (simp add: bswap_def)

lemma bswap_of_le [simp]:
  "LENGTH('a) = 8 * n \<Longrightarrow> length bs = n \<Longrightarrow> bswap (of_le bs :: 'a::len word) = of_be bs"
  by (simp add: bswap_def)

lemma htobe16buf_eq [mem_simps]: "htobe16buf i x mem = mem_write i (be_bytes 2 x) mem"
  by (simp add: htobe16buf_def htobuf16_def hostorder_defs)

lemma htobe32buf_eq [mem_simps]: "htobe32buf i x mem = mem_write i (be_bytes 4 x) mem"
  by (simp add: htobe32buf_def htobuf32_def hostorder_defs)

lemma htobe64buf_eq [mem_simps]: "htobe64buf i x mem = mem_write i (be_bytes 8 x) mem"
  by (simp add: htobe64buf_def htobuf64_def hostorder_defs)

lemma bufbe16toh_eq [mem_simps]: "bufbe16toh i mem = map_option of_be (mem_read i 2 mem)"
  by (cases "mem_read i 2 mem")
     (auto simp: bufbe16toh_def buf16toh_def hostorder_defs dest: mem_read_length)

lemma bufbe32toh_eq [mem_simps]: "bufbe32toh i mem = map_option of_be (mem_read i 4 mem)"
  by (cases "mem_read i 4 mem")
     (auto simp: bufbe32toh_def buf32toh_def hostorder_defs dest: mem_read_length)

lemma bufbe64toh_eq [mem_simps]: "bufbe64toh i mem = map_option of_be (mem_read i 8 mem)"
  by (cases "mem_read i 8 mem")
     (auto simp: bufbe64toh_def buf64toh_def hostorder_defs dest: mem_read_length)

lemma length_be_bytes [len_simps]: "length (be_bytes n w) = n"
  by simp


section \<open>LittleBigEndian.h\<close>

text \<open>
  \<open>LittleEndian<T>\<close> and \<open>BigEndian<T>\<close> are unions of a native \<open>T\<close> and its bytes, so the state
  of either is a byte list of length \<open>sizeof(T)\<close>.
\<close>

abbreviation sizeof :: "'a::len itself \<Rightarrow> nat" where
  "sizeof (_ :: 'a itself) \<equiv> LENGTH('a) div 8"

definition raw_value :: "bytes \<Rightarrow> 'a::len word" where
  "raw_value bs = of_le bs"

definition LE_assign :: "'a::len word \<Rightarrow> bytes" where
  "LE_assign t =
     fold (\<lambda>i bs. bs[sizeof TYPE('a) - 1 - i := ucast (drop_bit (8 * i) t)])
       [0..<sizeof TYPE('a)] (replicate (sizeof TYPE('a)) 0)"

definition LE_value :: "bytes \<Rightarrow> 'a::len word" where
  "LE_value bs =
     fold (\<lambda>i t. t OR push_bit (8 * i) (ucast (bs ! i))) [0..<sizeof TYPE('a)] 0"

definition BE_assign :: "'a::len word \<Rightarrow> bytes" where
  "BE_assign t =
     fold (\<lambda>i bs. bs[sizeof TYPE('a) - 1 - i := ucast (drop_bit (8 * i) t)])
       [0..<sizeof TYPE('a)] (replicate (sizeof TYPE('a)) 0)"

definition BE_value :: "bytes \<Rightarrow> 'a::len word" where
  "BE_value bs =
     fold (\<lambda>i t. t OR push_bit (8 * i) (ucast (bs ! (sizeof TYPE('a) - 1 - i))))
       [0..<sizeof TYPE('a)] 0"

text \<open>The converting constructors reverse the bytes.\<close>

definition LE_of_BE :: "bytes \<Rightarrow> bytes" where
  "LE_of_BE bs = map (\<lambda>i. bs ! (length bs - 1 - i)) [0..<length bs]"

definition BE_of_LE :: "bytes \<Rightarrow> bytes" where
  "BE_of_LE bs = map (\<lambda>i. bs ! (length bs - 1 - i)) [0..<length bs]"

text \<open>
  \<open>operator ++\<close> walks the bytes from the least significant one and stops at the first that does
  not become zero; \<open>operator --\<close> stops at the first that does not become \<open>(T)(-1)\<close>, a comparison
  of a promoted byte with the largest \<open>T\<close>.
\<close>

fun incr_bytes :: "bytes \<Rightarrow> bytes" where
  "incr_bytes [] = []"
| "incr_bytes (b # bs) = (if b + 1 \<noteq> 0 then (b + 1) # bs else (b + 1) # incr_bytes bs)"

fun decr_bytes :: "'a::len itself \<Rightarrow> bytes \<Rightarrow> bytes" where
  "decr_bytes T [] = []"
| "decr_bytes (T :: 'a itself) (b # bs) =
     (if uint (b - 1) \<noteq> uint (- 1 :: 'a word) then (b - 1) # bs else (b - 1) # decr_bytes T bs)"

definition LE_incr :: "bytes \<Rightarrow> bytes" where "LE_incr bs = incr_bytes bs"
definition BE_incr :: "bytes \<Rightarrow> bytes" where "BE_incr bs = rev (incr_bytes (rev bs))"
definition LE_decr :: "'a::len itself \<Rightarrow> bytes \<Rightarrow> bytes" where "LE_decr T bs = decr_bytes T bs"
definition BE_decr :: "'a::len itself \<Rightarrow> bytes \<Rightarrow> bytes" where
  "BE_decr T bs = rev (decr_bytes T (rev bs))"

text \<open>The compound assignments \<open>*this = *this op t\<close>.\<close>

definition BE_op :: "('a::len word \<Rightarrow> 'a word \<Rightarrow> 'a word) \<Rightarrow> bytes \<Rightarrow> 'a word \<Rightarrow> bytes" where
  "BE_op f bs t = BE_assign (f (BE_value bs) t)"

definition LE_op :: "('a::len word \<Rightarrow> 'a word \<Rightarrow> 'a word) \<Rightarrow> bytes \<Rightarrow> 'a word \<Rightarrow> bytes" where
  "LE_op f bs t = LE_assign (f (LE_value bs) t)"

text \<open>The fallback conversions of \<open>I2PEndian.cpp\<close>.\<close>

definition local_htobe :: "'a::len word \<Rightarrow> 'a word" where
  "local_htobe x = raw_value (BE_assign x)"

definition local_betoh :: "'a::len word \<Rightarrow> 'a word" where
  "local_betoh x = raw_value (LE_assign x)"

lemma fold_store_rev:
  assumes "length bs = n" and "k \<le> n"
  shows "fold (\<lambda>i bs. bs[n - Suc i := f i]) [0..<k] bs = take (n - k) bs @ rev (map f [0..<k])"
  using assms(2)
proof (induction k)
  case 0
  then show ?case using assms(1) by simp
next
  case (Suc k)
  then have "n - k = Suc (n - Suc k)" and "n - Suc k < length bs"
    using assms(1) by simp_all
  then have eq: "take (n - k) bs = take (n - Suc k) bs @ [bs ! (n - Suc k)]"
    by (simp only: take_Suc_conv_app_nth)
  have "(take (n - Suc k) bs @ [bs ! (n - Suc k)] @ rev (map f [0..<k]))[n - Suc k := f k] =
        take (n - Suc k) bs @ [f k] @ rev (map f [0..<k])"
    using assms(1) Suc.prems by (simp add: list_update_append)
  with Suc eq show ?case by simp
qed

lemma BE_assign_eq: "BE_assign (t :: 'a::len word) = be_bytes (sizeof TYPE('a)) t"
  by (simp add: BE_assign_def le_bytes_def fold_store_rev)

lemma LE_assign_eq: "LE_assign (t :: 'a::len word) = be_bytes (sizeof TYPE('a)) t"
  by (simp add: LE_assign_def le_bytes_def fold_store_rev)

lemma local_htobe_eq: "local_htobe x = (bswap x :: 'a::len word)"
  by (simp add: local_htobe_def raw_value_def BE_assign_eq bswap_def)

lemma local_betoh_eq: "local_betoh x = (bswap x :: 'a::len word)"
  by (simp add: local_betoh_def raw_value_def LE_assign_eq bswap_def)

lemma bit_fold_or:
  fixes w :: "'a::len word"
  shows "bit (fold (\<lambda>i t. t OR push_bit (8 * i) (ucast (g i :: byte))) [0..<n] w) k \<longleftrightarrow>
     bit w k \<or> (k < LENGTH('a) \<and> k div 8 < n \<and> bit (g (k div 8)) (k mod 8))"
proof (induction n)
  case 0
  then show ?case by simp
next
  case (Suc n)
  have "bit (push_bit (8 * n) (ucast (g n)) :: 'a word) k \<longleftrightarrow>
        k < LENGTH('a) \<and> k div 8 = n \<and> bit (g n) (k mod 8)"
  proof (cases "k div 8 = n")
    case True
    then show ?thesis
      by (auto simp: bit_simps minus_mult_div_eq_mod)
  next
    case False
    have "\<not> bit (g n) (k - 8 * n)" if "8 * n \<le> k"
    proof -
      have "8 * (k div 8) + k mod 8 = k" and "k mod 8 < 8" by simp_all
      with that False have "8 \<le> k - 8 * n" by linarith
      then show ?thesis using bit_imp_le_length [of "g n" "k - 8 * n"] by auto
    qed
    with False show ?thesis by (auto simp: bit_simps)
  qed
  then show ?case
    by (auto simp: Suc.IH bit_or_iff less_Suc_eq)
qed

lemma LE_value_eq: "length bs = sizeof TYPE('a) \<Longrightarrow> LE_value bs = (of_le bs :: 'a::len word)"
  by (rule bit_word_eqI) (auto simp: LE_value_def bit_fold_or bit_of_le)

lemma BE_value_eq: "length bs = sizeof TYPE('a) \<Longrightarrow> BE_value bs = (of_be bs :: 'a::len word)"
  by (rule bit_word_eqI) (auto simp: BE_value_def bit_fold_or bit_of_le rev_nth)

lemma length_incr_bytes [simp, len_simps]: "length (incr_bytes bs) = length bs"
  by (induction bs) auto


lemma of_le_Cons_add: "of_le (b # bs) = (ucast b + 256 * of_le bs :: 'a::len word)"
proof -
  have "(ucast b :: 'a word) AND push_bit 8 (of_le bs) = 0"
    by (rule bit_word_eqI) (auto simp: bit_simps dest: bit_imp_le_length)
  then have "(ucast b :: 'a word) OR push_bit 8 (of_le bs) = ucast b + push_bit 8 (of_le bs)"
    by (simp add: disjunctive_add_eq_or)
  then show ?thesis by (simp add: push_bit_eq_mult mult.commute)
qed

lemma ucast_Suc: "b + 1 \<noteq> (0::byte) \<Longrightarrow> ucast (b + 1) = (ucast b + 1 :: 'a::len word)"
proof -
  assume "b + 1 \<noteq> 0"
  then have "unat (b + 1) = unat b + 1"
    by (metis Suc_eq_plus1 add.commute unatSuc)
  then have "of_nat (unat (b + 1)) = (of_nat (unat b) + 1 :: 'a word)"
    by simp
  then show ?thesis by (simp only: of_nat_unat)
qed

lemma ucast_255: "(ucast (255 :: byte) :: 'a::len word) = 255"
proof -
  have "of_nat (unat (255 :: byte)) = (255 :: 'a word)" by simp
  then show ?thesis by (simp only: of_nat_unat)
qed

lemma incr_bytes_carry:
  "of_le (incr_bytes bs) = (of_le bs + 1 :: 'a::len word) \<or>
   of_le (incr_bytes bs) = (0 :: 'a word) \<and> of_le bs + 1 = (2 ^ (8 * length bs) :: 'a word)"
proof (induction bs)
  case Nil
  then show ?case by simp
next
  case (Cons b bs)
  show ?case
  proof (cases "b + 1 = 0")
    case False
    then show ?thesis by (simp add: of_le_Cons_add ucast_Suc del: of_le.simps(2))
  next
    case True
    then have b: "b = 255" by (simp add: eq_neg_iff_add_eq_0 [symmetric])
    have l: "of_le (incr_bytes (b # bs)) = (256 * of_le (incr_bytes bs) :: 'a word)"
      by (simp add: True of_le_Cons_add del: of_le.simps(2))
    have r: "of_le (b # bs) + 1 = (256 * (of_le bs + 1) :: 'a word)"
      unfolding b of_le_Cons_add ucast_255 by (simp add: algebra_simps)
    from Cons.IH show ?thesis
    proof
      assume "of_le (incr_bytes bs) = (of_le bs + 1 :: 'a word)"
      then show ?thesis unfolding l r by simp
    next
      assume "of_le (incr_bytes bs) = (0 :: 'a word) \<and> of_le bs + 1 = (2 ^ (8 * length bs) :: 'a word)"
      then show ?thesis unfolding l r by (simp add: power_add del: distrib_left_numeral)
    qed
  qed
qed

lemma decr_bytes_no_borrow:
  assumes "8 < LENGTH('a::len)"
  shows "decr_bytes TYPE('a) (b # bs) = (b - 1) # bs"
proof -
  have "(2::int) ^ 8 < 2 ^ LENGTH('a)"
    using assms by (intro power_strict_increasing) simp_all
  moreover have "uint (b - 1) < 2 ^ 8"
    using uint_lt2p [of "b - 1"] by simp
  ultimately show ?thesis by (simp add: unsigned_minus_1_eq_mask mask_eq_exp_minus_1)
qed

section \<open>Fields in a buffer\<close>

text \<open>
  The contract every fixed-width field accessor pair keeps, and what its clients use: a stored
  value reads back, and a store changes no field that does not overlap it.
\<close>

locale field_codec =
  fixes width :: nat
    and enc :: "'v \<Rightarrow> bytes"
    and dec :: "bytes \<Rightarrow> 'v"
    and put :: "nat \<Rightarrow> 'v \<Rightarrow> bytes \<Rightarrow> bytes option"
    and get :: "nat \<Rightarrow> bytes \<Rightarrow> 'v option"
  assumes put_eq: "put i x mem = mem_write i (enc x) mem"
    and get_eq: "get i mem = map_option dec (mem_read i width mem)"
    and length_enc: "length (enc x) = width"
    and dec_enc: "dec (enc x) = x"
begin

lemma get_put_same: "put i x mem = Some mem' \<Longrightarrow> get i mem' = Some x"
  using mem_read_write_same [of i "enc x" mem mem'] by (simp add: put_eq get_eq length_enc dec_enc)

lemma read_put_other:
  "put i x mem = Some mem' \<Longrightarrow> j + n \<le> i \<or> i + width \<le> j \<Longrightarrow> mem_read j n mem' = mem_read j n mem"
  using mem_read_write_disjoint [of i "enc x" mem mem' j n] by (simp add: put_eq length_enc)

lemma put_defined: "(\<exists>mem'. put i x mem = Some mem') \<longleftrightarrow> i + width \<le> length mem"
  by (simp add: put_eq mem_write_def length_enc)

lemma put_length: "put i x mem = Some mem' \<Longrightarrow> length mem' = length mem"
  by (simp add: put_eq mem_write_length)

lemma enc_inject: "enc x = enc y \<longleftrightarrow> x = y"
  by (metis dec_enc)

end

interpretation be16: field_codec 2 "be_bytes 2" of_be htobe16buf bufbe16toh
  by unfold_locales (simp_all add: mem_simps)

interpretation be32: field_codec 4 "be_bytes 4" of_be htobe32buf bufbe32toh
  by unfold_locales (simp_all add: mem_simps)

interpretation be64: field_codec 8 "be_bytes 8" of_be htobe64buf bufbe64toh
  by unfold_locales (simp_all add: mem_simps)

interpretation host32: field_codec 4 "le_bytes 4" of_le htobuf32 buf32toh
  by unfold_locales (simp_all add: htobuf32_def buf32toh_def)

section \<open>Theorems\<close>

text \<open>
  The network-order accessors of \<open>I2PEndian.h\<close> round trip at every width: where a store of a
  16, 32 or 64 bit value stays inside the buffer, loading the same field returns the value, and
  every byte range that does not overlap the field is unchanged.
\<close>

theorem network_order_roundtrip:
  assumes "htobe16buf i a m = Some m1" and "htobe32buf i b m = Some m2"
    and "htobe64buf i c m = Some m3"
  shows "bufbe16toh i m1 = Some a \<and> bufbe32toh i m2 = Some b \<and> bufbe64toh i m3 = Some c \<and>
    (\<forall>j n. (j + n \<le> i \<or> i + 2 \<le> j \<longrightarrow> mem_read j n m1 = mem_read j n m) \<and>
           (j + n \<le> i \<or> i + 4 \<le> j \<longrightarrow> mem_read j n m2 = mem_read j n m) \<and>
           (j + n \<le> i \<or> i + 8 \<le> j \<longrightarrow> mem_read j n m3 = mem_read j n m))"
  using be16.get_put_same [OF assms(1)] be32.get_put_same [OF assms(2)]
    be64.get_put_same [OF assms(3)] be16.read_put_other [OF assms(1)]
    be32.read_put_other [OF assms(2)] be64.read_put_other [OF assms(3)]
  by blast

theorem network_order_roundtrip_witness:
  "\<exists>m1 m2 m3. htobe16buf 1 0x0102 (replicate 10 0) = Some m1 \<and>
     htobe32buf 1 0x01020304 (replicate 10 0) = Some m2 \<and>
     htobe64buf 1 7 (replicate 10 0) = Some m3 \<and>
     bufbe16toh 1 m1 = Some 0x0102 \<and> bufbe32toh 1 m2 = Some 0x01020304 \<and> bufbe64toh 1 m3 = Some 7"
proof -
  obtain m1 m2 m3 where "htobe16buf 1 0x0102 (replicate 10 0) = Some m1"
    "htobe32buf 1 0x01020304 (replicate 10 0) = Some m2"
    "htobe64buf 1 7 (replicate 10 0) = Some m3"
    by (simp add: htobe16buf_eq htobe32buf_eq htobe64buf_eq mem_write_def)
  then show ?thesis using network_order_roundtrip by blast
qed

text \<open>
  C40. The portable fallback of \<open>I2PEndian.cpp\<close>, built on the \<open>LittleBigEndian.h\<close> templates, is
  the byte swap of \<open><endian.h>\<close> in both directions, and its two conversions invert each other.
\<close>

theorem local_endian_correct:
  "local_htobe (a :: u16) = htobe16 a \<and> local_betoh a = be16toh a \<and>
   local_htobe (b :: u32) = htobe32 b \<and> local_betoh b = be32toh b \<and>
   local_htobe (c :: u64) = htobe64 c \<and> local_betoh c = be64toh c \<and>
   local_betoh (local_htobe a) = a \<and> local_betoh (local_htobe b) = b \<and>
   local_betoh (local_htobe c) = c"
  by (simp add: local_htobe_eq local_betoh_eq hostorder_defs)

text \<open>
  Incrementing a \<open>BigEndian<T>\<close> byte by byte with carry adds one modulo the width of \<open>T\<close>, and
  the compound assignments act on the value as the operator itself.
\<close>

theorem BE_incr_value:
  assumes "LENGTH('a) = 8 * length bs"
  shows "BE_value (BE_incr bs) = (BE_value bs + 1 :: 'a::len word) \<and>
         BE_value (BE_op f bs t) = (f (BE_value bs) t :: 'a word)"
proof -
  have z: "(2 ^ (8 * length bs) :: 'a word) = 0"
    by (simp flip: assms)
  have "BE_value (BE_incr bs) = (BE_value bs + 1 :: 'a word)"
    using incr_bytes_carry [of "rev bs", where 'a = 'a] assms z
    by (auto simp: BE_value_eq BE_incr_def)
  moreover have "BE_value (BE_assign x) = x" for x :: "'a word"
    using assms by (simp add: BE_value_eq BE_assign_eq)
  ultimately show ?thesis by (simp add: BE_op_def)
qed

theorem BE_incr_value_witness:
  "LENGTH(16) = 8 * length [0, 255 :: byte] \<and> BE_value (BE_incr [0, 255]) = (256 :: u16)"
proof -
  have h: "LENGTH(16) = 8 * length [0, 255 :: byte]" by simp
  have "BE_value [0, 255] = (255 :: u16)" by code_simp
  with BE_incr_value [OF h] h show ?thesis by simp
qed

text \<open>
  \<open>LittleEndian<T>\<close> is not its own inverse: reading back the value just assigned gives the
  byte-swapped value, since \<open>operator =\<close> stores the most significant byte first while the
  conversion reads the least significant byte first.
\<close>

theorem LE_assign_swaps:
  "LE_value (LE_assign (x :: u32)) = bswap x \<and> LE_value (LE_assign (1 :: u32)) \<noteq> (1 :: u32)"
proof -
  have "LE_value (LE_assign y) = bswap y" for y :: u32
    by (simp add: LE_value_eq LE_assign_eq bswap_def)
  moreover have "bswap (1 :: u32) \<noteq> 1" by code_simp
  ultimately show ?thesis by simp
qed

text \<open>
  \<open>operator --\<close> never borrows for a type wider than a byte: only the least significant byte
  changes, whatever its value, because a promoted byte is never equal to \<open>(T)(-1)\<close>.
\<close>

theorem decr_no_borrow:
  assumes "8 < LENGTH('a::len)"
  shows "LE_decr TYPE('a) (b # bs) = (b - 1) # bs \<and> BE_decr TYPE('a) (bs @ [b]) = bs @ [b - 1]"
  using decr_bytes_no_borrow [OF assms] by (simp add: LE_decr_def BE_decr_def)

theorem decr_no_borrow_witness:
  "8 < LENGTH(16) \<and> BE_decr TYPE(16) ([1] @ [0]) = [1, 255]"
proof -
  have h: "8 < LENGTH(16)" by simp
  show ?thesis using decr_no_borrow [OF h, of 0 "[1]"] by simp
qed

end
