(* ===== verification/I2NP.thy ===== *)
theory I2NP
  imports Endian
begin

text \<open>
  I2NP messages: the \<open>I2NPMessage\<close> structure of \<open>src/core/I2NPProtocol.h\<close> and the functions of
  \<open>I2NPProtocol.cpp\<close> that build messages and dispatch them. A message owns a buffer (\<open>mbuf\<close>, the
  whole allocation); \<open>moffset\<close> and \<open>mlen\<close> delimit the message inside it.

  Code outside the repository is a parameter: \<open>sha\<close> is Crypto++'s SHA-256, \<open>gzip\<close> its compressor,
  and the random words and the clock reading a call consumes are arguments of its model.
\<close>

section \<open>Constants\<close>

abbreviation I2NP_HEADER_TYPEID_OFFSET :: nat where "I2NP_HEADER_TYPEID_OFFSET \<equiv> 0"
abbreviation I2NP_HEADER_MSGID_OFFSET :: nat where "I2NP_HEADER_MSGID_OFFSET \<equiv> 1"
abbreviation I2NP_HEADER_EXPIRATION_OFFSET :: nat where "I2NP_HEADER_EXPIRATION_OFFSET \<equiv> 5"
abbreviation I2NP_HEADER_SIZE_OFFSET :: nat where "I2NP_HEADER_SIZE_OFFSET \<equiv> 13"
abbreviation I2NP_HEADER_CHKS_OFFSET :: nat where "I2NP_HEADER_CHKS_OFFSET \<equiv> 15"
abbreviation I2NP_HEADER_SIZE :: nat where "I2NP_HEADER_SIZE \<equiv> 16"
abbreviation I2NP_SHORT_HEADER_SIZE :: nat where "I2NP_SHORT_HEADER_SIZE \<equiv> 5"
abbreviation TUNNEL_GATEWAY_HEADER_SIZE :: nat where "TUNNEL_GATEWAY_HEADER_SIZE \<equiv> 6"
abbreviation DELIVERY_STATUS_SIZE :: nat where "DELIVERY_STATUS_SIZE \<equiv> 12"
abbreviation DATABASE_STORE_HEADER_SIZE :: nat where "DATABASE_STORE_HEADER_SIZE \<equiv> 37"
abbreviation I2NP_MAX_MESSAGE_SIZE :: nat where "I2NP_MAX_MESSAGE_SIZE \<equiv> 32768"
abbreviation I2NP_MAX_SHORT_MESSAGE_SIZE :: nat where "I2NP_MAX_SHORT_MESSAGE_SIZE \<equiv> 4096"
abbreviation TUNNEL_DATA_MSG_SIZE :: nat where "TUNNEL_DATA_MSG_SIZE \<equiv> 1028"

text \<open>The message types of the wire protocol.\<close>

abbreviation eI2NPDatabaseStore :: byte where "eI2NPDatabaseStore \<equiv> 1"
abbreviation eI2NPDatabaseLookup :: byte where "eI2NPDatabaseLookup \<equiv> 2"
abbreviation eI2NPDatabaseSearchReply :: byte where "eI2NPDatabaseSearchReply \<equiv> 3"
abbreviation eI2NPDeliveryStatus :: byte where "eI2NPDeliveryStatus \<equiv> 10"
abbreviation eI2NPGarlic :: byte where "eI2NPGarlic \<equiv> 11"
abbreviation eI2NPTunnelData :: byte where "eI2NPTunnelData \<equiv> 18"
abbreviation eI2NPTunnelGateway :: byte where "eI2NPTunnelGateway \<equiv> 19"
abbreviation eI2NPData :: byte where "eI2NPData \<equiv> 20"
abbreviation eI2NPTunnelBuild :: byte where "eI2NPTunnelBuild \<equiv> 21"
abbreviation eI2NPTunnelBuildReply :: byte where "eI2NPTunnelBuildReply \<equiv> 22"
abbreviation eI2NPVariableTunnelBuild :: byte where "eI2NPVariableTunnelBuild \<equiv> 23"
abbreviation eI2NPVariableTunnelBuildReply :: byte where "eI2NPVariableTunnelBuildReply \<equiv> 24"

section \<open>The message structure\<close>

record I2NPMessage =
  mbuf :: bytes
  mlen :: nat
  moffset :: nat
  mmaxLen :: nat
  mfrom :: "nat option" \<comment> \<open>the inbound tunnel the message came from\<close>

definition I2NPMessageBuffer :: "nat \<Rightarrow> I2NPMessage" where
  "I2NPMessageBuffer sz =
     \<lparr>mbuf = replicate (sz + 16) 0, mlen = I2NP_HEADER_SIZE + 2, moffset = 2, mmaxLen = sz, mfrom = None\<rparr>"

definition NewI2NPMessage :: I2NPMessage where
  "NewI2NPMessage = I2NPMessageBuffer I2NP_MAX_MESSAGE_SIZE"

definition NewI2NPShortMessage :: I2NPMessage where
  "NewI2NPShortMessage = I2NPMessageBuffer I2NP_MAX_SHORT_MESSAGE_SIZE"

definition NewI2NPMessage_len :: "nat \<Rightarrow> I2NPMessage" where
  "NewI2NPMessage_len len =
     (if len < I2NP_MAX_SHORT_MESSAGE_SIZE div 2 then NewI2NPShortMessage else NewI2NPMessage)"

text \<open>\<open>GetBuffer\<close>, \<open>GetHeader\<close> and \<open>GetPayload\<close> are positions in the buffer.\<close>

definition GetBuffer :: "I2NPMessage \<Rightarrow> nat" where "GetBuffer m = moffset m"
definition GetHeader :: "I2NPMessage \<Rightarrow> nat" where "GetHeader m = GetBuffer m"
definition GetPayload :: "I2NPMessage \<Rightarrow> nat" where "GetPayload m = GetBuffer m + I2NP_HEADER_SIZE"
definition GetLength :: "I2NPMessage \<Rightarrow> nat" where "GetLength m = size_sub (mlen m) (moffset m)"
definition GetPayloadLength :: "I2NPMessage \<Rightarrow> nat" where
  "GetPayloadLength m = size_sub (GetLength m) I2NP_HEADER_SIZE"

text \<open>A store into the buffer of a message, and a bulk copy to a position of it.\<close>

definition upd_buf :: "(bytes \<Rightarrow> bytes option) \<Rightarrow> I2NPMessage \<Rightarrow> I2NPMessage option" where
  "upd_buf f m = map_option (\<lambda>b. m\<lparr>mbuf := b\<rparr>) (f (mbuf m))"

definition put_bytes :: "nat \<Rightarrow> bytes \<Rightarrow> I2NPMessage \<Rightarrow> I2NPMessage option" where
  "put_bytes i bs = upd_buf (mem_write i bs)"

definition SetTypeID :: "byte \<Rightarrow> I2NPMessage \<Rightarrow> I2NPMessage option" where
  "SetTypeID typeID m = upd_buf (mem_set (GetHeader m + I2NP_HEADER_TYPEID_OFFSET) typeID) m"
definition GetTypeID :: "I2NPMessage \<Rightarrow> byte option" where
  "GetTypeID m = mem_get (GetHeader m + I2NP_HEADER_TYPEID_OFFSET) (mbuf m)"
definition SetMsgID :: "u32 \<Rightarrow> I2NPMessage \<Rightarrow> I2NPMessage option" where
  "SetMsgID msgID m = upd_buf (htobe32buf (GetHeader m + I2NP_HEADER_MSGID_OFFSET) msgID) m"
definition GetMsgID :: "I2NPMessage \<Rightarrow> u32 option" where
  "GetMsgID m = bufbe32toh (GetHeader m + I2NP_HEADER_MSGID_OFFSET) (mbuf m)"
definition SetExpiration :: "u64 \<Rightarrow> I2NPMessage \<Rightarrow> I2NPMessage option" where
  "SetExpiration expiration m =
     upd_buf (htobe64buf (GetHeader m + I2NP_HEADER_EXPIRATION_OFFSET) expiration) m"
definition GetExpiration :: "I2NPMessage \<Rightarrow> u64 option" where
  "GetExpiration m = bufbe64toh (GetHeader m + I2NP_HEADER_EXPIRATION_OFFSET) (mbuf m)"
definition SetSize :: "u16 \<Rightarrow> I2NPMessage \<Rightarrow> I2NPMessage option" where
  "SetSize sz m = upd_buf (htobe16buf (GetHeader m + I2NP_HEADER_SIZE_OFFSET) sz) m"
definition GetSize :: "I2NPMessage \<Rightarrow> u16 option" where
  "GetSize m = bufbe16toh (GetHeader m + I2NP_HEADER_SIZE_OFFSET) (mbuf m)"
definition UpdateSize :: "I2NPMessage \<Rightarrow> I2NPMessage option" where
  "UpdateSize m = SetSize (of_nat (GetPayloadLength m)) m"
definition SetChks :: "byte \<Rightarrow> I2NPMessage \<Rightarrow> I2NPMessage option" where
  "SetChks chks m = upd_buf (mem_set (GetHeader m + I2NP_HEADER_CHKS_OFFSET) chks) m"

definition UpdateChks :: "(bytes \<Rightarrow> bytes) \<Rightarrow> I2NPMessage \<Rightarrow> I2NPMessage option" where
  "UpdateChks sha m = do {
     payload \<leftarrow> mem_read (GetPayload m) (GetPayloadLength m) (mbuf m);
     h0 \<leftarrow> mem_get 0 (sha payload);
     upd_buf (mem_set (GetHeader m + I2NP_HEADER_CHKS_OFFSET) h0) m
   }"

text \<open>\<open>base\<close> is the address of the buffer, which \<open>Align\<close> rounds up.\<close>

definition Align :: "nat \<Rightarrow> nat \<Rightarrow> I2NPMessage \<Rightarrow> I2NPMessage" where
  "Align base alignment m =
     (if mlen m + alignment > mmaxLen m then m
      else
        let rem = (base + GetBuffer m) mod alignment
        in if rem \<noteq> 0 then
             m\<lparr>moffset := moffset m + (alignment - rem), mlen := mlen m + (alignment - rem)\<rparr>
           else m)"

text \<open>\<open>operator=\<close>: \<open>assign_msg m other\<close> is \<open>m = other\<close>.\<close>

definition assign_msg :: "I2NPMessage \<Rightarrow> I2NPMessage \<Rightarrow> I2NPMessage option" where
  "assign_msg m other = do {
     bs \<leftarrow> mem_read (moffset other) (GetLength other) (mbuf other);
     b \<leftarrow> mem_write (moffset m) bs (mbuf m);
     Some (m\<lparr>mbuf := b, mlen := moffset m + GetLength other, mfrom := mfrom other,
             mmaxLen := mmaxLen other\<rparr>)
   }"

definition GetSSUHeader :: "I2NPMessage \<Rightarrow> nat" where
  "GetSSUHeader m = moffset m + I2NP_HEADER_SIZE - I2NP_SHORT_HEADER_SIZE"

definition FromSSU :: "u32 \<Rightarrow> I2NPMessage \<Rightarrow> I2NPMessage option" where
  "FromSSU msgID m = do {
     let ssu = GetSSUHeader m;
     t \<leftarrow> mem_get ssu (mbuf m);
     m1 \<leftarrow> SetTypeID t m;
     m2 \<leftarrow> SetMsgID msgID m1;
     e \<leftarrow> bufbe32toh (ssu + 1) (mbuf m2);
     m3 \<leftarrow> SetExpiration (ucast e * 1000) m2;
     m4 \<leftarrow> SetSize (of_nat (size_sub (size_sub (mlen m) (moffset m)) I2NP_HEADER_SIZE)) m3;
     SetChks 0 m4
   }"

definition ToSSU :: "I2NPMessage \<Rightarrow> (u32 \<times> I2NPMessage) option" where
  "ToSSU m = do {
     header \<leftarrow> mem_read (GetHeader m) I2NP_HEADER_SIZE (mbuf m);
     let ssu = GetSSUHeader m;
     t \<leftarrow> mem_get I2NP_HEADER_TYPEID_OFFSET header;
     m1 \<leftarrow> upd_buf (mem_set ssu t) m;
     e \<leftarrow> bufbe64toh I2NP_HEADER_EXPIRATION_OFFSET header;
     m2 \<leftarrow> upd_buf (htobe32buf (ssu + 1) (ucast (e div 1000))) m1;
     sz \<leftarrow> bufbe16toh I2NP_HEADER_SIZE_OFFSET header;
     msgID \<leftarrow> bufbe32toh I2NP_HEADER_MSGID_OFFSET header;
     Some (msgID, m2\<lparr>mlen := moffset m + I2NP_SHORT_HEADER_SIZE + unat sz\<rparr>)
   }"

definition FillI2NPMessageHeader ::
    "(bytes \<Rightarrow> bytes) \<Rightarrow> byte \<Rightarrow> u32 \<Rightarrow> u32 \<Rightarrow> u64 \<Rightarrow> I2NPMessage \<Rightarrow> I2NPMessage option" where
  "FillI2NPMessageHeader sha msgType replyMsgID rnd now m = do {
     m1 \<leftarrow> SetTypeID msgType m;
     m2 \<leftarrow> (if replyMsgID \<noteq> 0 then SetMsgID replyMsgID m1 else SetMsgID rnd m1);
     m3 \<leftarrow> SetExpiration (now + 5000) m2;
     m4 \<leftarrow> UpdateSize m3;
     UpdateChks sha m4
   }"

definition RenewI2NPMessageHeader :: "u32 \<Rightarrow> u64 \<Rightarrow> I2NPMessage \<Rightarrow> I2NPMessage option" where
  "RenewI2NPMessageHeader rnd now m = do {
     m1 \<leftarrow> SetMsgID rnd m;
     SetExpiration (now + 5000) m1
   }"

definition GetI2NPMessageLength :: "bytes \<Rightarrow> nat option" where
  "GetI2NPMessageLength msg =
     map_option (\<lambda>s. unat s + I2NP_HEADER_SIZE) (bufbe16toh I2NP_HEADER_SIZE_OFFSET msg)"

section \<open>Building messages\<close>

text \<open>
  The environment of a call that fills a header: the hash function, one random word and the time in
  milliseconds.
\<close>

record env =
  sha256 :: "bytes \<Rightarrow> bytes"
  rndWord :: u32
  nowMs :: u64

definition fillHeader :: "env \<Rightarrow> byte \<Rightarrow> u32 \<Rightarrow> I2NPMessage \<Rightarrow> I2NPMessage option" where
  "fillHeader E msgType replyMsgID =
     FillI2NPMessageHeader (sha256 E) msgType replyMsgID (rndWord E) (nowMs E)"

definition add_len :: "nat \<Rightarrow> I2NPMessage \<Rightarrow> I2NPMessage" where
  "add_len n m = m\<lparr>mlen := mlen m + n\<rparr>"

definition CreateI2NPMessage :: "env \<Rightarrow> byte \<Rightarrow> bytes \<Rightarrow> u32 \<Rightarrow> I2NPMessage option" where
  "CreateI2NPMessage E msgType buf replyMsgID = do {
     let msg = NewI2NPMessage_len (length buf);
     msg1 \<leftarrow>
       (if mlen msg + length buf < mmaxLen msg
        then map_option (add_len (length buf)) (put_bytes (GetPayload msg) buf msg)
        else Some msg);
     fillHeader E msgType replyMsgID msg1
   }"

definition CreateI2NPMessage_from :: "bytes \<Rightarrow> nat option \<Rightarrow> I2NPMessage option" where
  "CreateI2NPMessage_from buf from =
     (let msg = NewI2NPMessage
      in if moffset msg + length buf < mmaxLen msg
         then map_option (\<lambda>m. m\<lparr>mlen := moffset m + length buf, mfrom := from\<rparr>)
                (put_bytes (GetBuffer msg) buf msg)
         else Some msg)"

definition CreateDeliveryStatusMsg :: "env \<Rightarrow> u32 \<Rightarrow> u32 \<Rightarrow> I2NPMessage option" where
  "CreateDeliveryStatusMsg E rnd msgID = do {
     let m = NewI2NPShortMessage;
     let buf = GetPayload m;
     m1 \<leftarrow> (if msgID \<noteq> 0 then do {
               a \<leftarrow> upd_buf (htobe32buf buf msgID) m;
               upd_buf (htobe64buf (buf + 4) (nowMs E)) a
             } else do {
               a \<leftarrow> upd_buf (htobe32buf buf rnd) m;
               upd_buf (htobe64buf (buf + 4) 2) a
             });
     fillHeader E eI2NPDeliveryStatus 0 (add_len DELIVERY_STATUS_SIZE m1)
   }"

text \<open>
  Consecutive copies: every \<open>Create...\<close> function below stores a sequence of fields at a cursor
  that starts at the payload and moves past each field.
\<close>

fun put_fields :: "nat \<Rightarrow> bytes list \<Rightarrow> I2NPMessage \<Rightarrow> I2NPMessage option" where
  "put_fields i [] m = Some m"
| "put_fields i (bs # bss) m =
     (case put_bytes i bs m of None \<Rightarrow> None | Some m' \<Rightarrow> put_fields (i + length bs) bss m')"

definition CreateRouterInfoDatabaseLookupMsg ::
    "env \<Rightarrow> bytes \<Rightarrow> bytes \<Rightarrow> u32 \<Rightarrow> bool \<Rightarrow> bytes list option \<Rightarrow> I2NPMessage option" where
  "CreateRouterInfoDatabaseLookupMsg E key from replyTunnelID exploratory excludedPeers = do {
     let m = (case excludedPeers of Some _ \<Rightarrow> NewI2NPMessage | None \<Rightarrow> NewI2NPShortMessage);
     let flag = (if exploratory then 0x0C else 0x08 :: byte);
     let fields =
       [key, from] @
       (if replyTunnelID \<noteq> 0 then [[flag OR 0x01], be_bytes 4 replyTunnelID] else [[flag]]) @
       (case excludedPeers of
          Some peers \<Rightarrow> be_bytes 2 (of_nat (length peers) :: u16) # peers
        | None \<Rightarrow> [be_bytes 2 (0 :: u16)]);
     m1 \<leftarrow> put_fields (GetPayload m) fields m;
     fillHeader E eI2NPDatabaseLookup 0 (add_len (length (concat fields)) m1)
   }"

definition CreateLeaseSetDatabaseLookupMsg ::
    "env \<Rightarrow> bytes \<Rightarrow> bytes list \<Rightarrow> bytes \<Rightarrow> u32 \<Rightarrow> bytes \<Rightarrow> bytes \<Rightarrow> I2NPMessage option" where
  "CreateLeaseSetDatabaseLookupMsg E dest excludedFloodfills replyIdent replyTunnelID replyKey replyTag = do {
     let m = (if length excludedFloodfills > 0 then NewI2NPMessage else NewI2NPShortMessage);
     let fields =
       [dest, replyIdent, [0x01 OR 0x02 OR 0x04], be_bytes 4 replyTunnelID,
        be_bytes 2 (of_nat (length excludedFloodfills) :: u16)] @
       excludedFloodfills @ [replyKey, [1], replyTag];
     m1 \<leftarrow> put_fields (GetPayload m) fields m;
     fillHeader E eI2NPDatabaseLookup 0 (add_len (length (concat fields)) m1)
   }"

definition CreateDatabaseSearchReply ::
    "env \<Rightarrow> bytes \<Rightarrow> bytes \<Rightarrow> bytes list \<Rightarrow> I2NPMessage option" where
  "CreateDatabaseSearchReply E ourIdent ident routers = do {
     let m = NewI2NPShortMessage;
     let fields = [ident, [of_nat (length routers)]] @ routers @ [ourIdent];
     m1 \<leftarrow> put_fields (GetPayload m) fields m;
     fillHeader E eI2NPDatabaseSearchReply 0 (add_len (length (concat fields)) m1)
   }"

text \<open>A RouterInfo is stored compressed; the short buffer is replaced when it would not fit.\<close>

definition CreateDatabaseStoreMsg_RI ::
    "env \<Rightarrow> (bytes \<Rightarrow> bytes) \<Rightarrow> bytes \<Rightarrow> bytes \<Rightarrow> u32 \<Rightarrow> I2NPMessage option" where
  "CreateDatabaseStoreMsg_RI E gzip ident ri replyToken = do {
     let m = NewI2NPShortMessage;
     let z = gzip ri;
     let fields =
       [ident, [0], be_bytes 4 replyToken] @
       (if replyToken \<noteq> 0 then [replicate 4 0, ident] else []) @
       [be_bytes 2 (of_nat (length z) :: u16)];
     m1 \<leftarrow> put_fields (GetPayload m) fields m;
     let m2 = add_len (length (concat fields)) m1;
     m3 \<leftarrow> (if mlen m2 + length z > mmaxLen m2 then assign_msg NewI2NPMessage m2 else Some m2);
     m4 \<leftarrow> put_bytes (mlen m3) z m3;
     fillHeader E eI2NPDatabaseStore 0 (add_len (length z) m4)
   }"

text \<open>The first lease that has not expired, if any, becomes the reply path.\<close>

definition CreateDatabaseStoreMsg_LS ::
    "env \<Rightarrow> bytes \<Rightarrow> bytes \<Rightarrow> (u32 \<times> bytes) list \<Rightarrow> u32 \<Rightarrow> I2NPMessage option" where
  "CreateDatabaseStoreMsg_LS E ident ls leases replyToken = do {
     let m = NewI2NPShortMessage;
     let fields =
       [ident, [1]] @
       (if replyToken \<noteq> 0 then
          (case leases of
             (tunnelID, gateway) # _ \<Rightarrow> [be_bytes 4 replyToken, be_bytes 4 tunnelID, gateway]
           | [] \<Rightarrow> [be_bytes 4 (0 :: u32)])
        else [be_bytes 4 replyToken]) @ [ls];
     m1 \<leftarrow> put_fields (GetPayload m) fields m;
     fillHeader E eI2NPDatabaseStore 0 (add_len (length (concat fields)) m1)
   }"

definition CreateTunnelDataMsg :: "env \<Rightarrow> bytes \<Rightarrow> I2NPMessage option" where
  "CreateTunnelDataMsg E buf = do {
     let msg = NewI2NPShortMessage;
     bs \<leftarrow> mem_read 0 TUNNEL_DATA_MSG_SIZE buf;
     m1 \<leftarrow> put_bytes (GetPayload msg) bs msg;
     fillHeader E eI2NPTunnelData 0 (add_len TUNNEL_DATA_MSG_SIZE m1)
   }"

definition CreateTunnelDataMsg_id :: "env \<Rightarrow> u32 \<Rightarrow> bytes \<Rightarrow> I2NPMessage option" where
  "CreateTunnelDataMsg_id E tunnelID payload = do {
     let msg = NewI2NPShortMessage;
     bs \<leftarrow> mem_read 0 (TUNNEL_DATA_MSG_SIZE - 4) payload;
     m1 \<leftarrow> put_bytes (GetPayload msg + 4) bs msg;
     m2 \<leftarrow> upd_buf (htobe32buf (GetPayload msg) tunnelID) m1;
     fillHeader E eI2NPTunnelData 0 (add_len TUNNEL_DATA_MSG_SIZE m2)
   }"

definition CreateEmptyTunnelDataMsg :: I2NPMessage where
  "CreateEmptyTunnelDataMsg = add_len TUNNEL_DATA_MSG_SIZE NewI2NPShortMessage"

definition CreateTunnelGatewayMsg_buf :: "env \<Rightarrow> u32 \<Rightarrow> bytes \<Rightarrow> I2NPMessage option" where
  "CreateTunnelGatewayMsg_buf E tunnelID buf = do {
     let msg = NewI2NPMessage_len (length buf);
     let payload = GetPayload msg;
     m1 \<leftarrow> upd_buf (htobe32buf payload tunnelID) msg;
     m2 \<leftarrow> upd_buf (htobe16buf (payload + 4) (of_nat (length buf))) m1;
     m3 \<leftarrow> put_bytes (payload + TUNNEL_GATEWAY_HEADER_SIZE) buf m2;
     fillHeader E eI2NPTunnelGateway 0 (add_len (TUNNEL_GATEWAY_HEADER_SIZE + length buf) m3)
   }"

text \<open>A message with room in front of it becomes the gateway message without a copy.\<close>

definition CreateTunnelGatewayMsg :: "env \<Rightarrow> u32 \<Rightarrow> I2NPMessage \<Rightarrow> I2NPMessage option" where
  "CreateTunnelGatewayMsg E tunnelID msg =
     (if moffset msg \<ge> I2NP_HEADER_SIZE + TUNNEL_GATEWAY_HEADER_SIZE then do {
        let payload = GetBuffer msg - TUNNEL_GATEWAY_HEADER_SIZE;
        m1 \<leftarrow> upd_buf (htobe32buf payload tunnelID) msg;
        let len = GetLength msg;
        m2 \<leftarrow> upd_buf (htobe16buf (payload + 4) (of_nat len)) m1;
        let off = moffset msg - (I2NP_HEADER_SIZE + TUNNEL_GATEWAY_HEADER_SIZE);
        fillHeader E eI2NPTunnelGateway 0
          (m2\<lparr>moffset := off, mlen := off + I2NP_HEADER_SIZE + TUNNEL_GATEWAY_HEADER_SIZE + len\<rparr>)
      } else do {
        bs \<leftarrow> mem_read (GetBuffer msg) (GetLength msg) (mbuf msg);
        CreateTunnelGatewayMsg_buf E tunnelID bs
      })"

definition CreateTunnelGatewayMsg_type ::
    "env \<Rightarrow> u32 \<Rightarrow> u32 \<Rightarrow> byte \<Rightarrow> bytes \<Rightarrow> u32 \<Rightarrow> I2NPMessage option" where
  "CreateTunnelGatewayMsg_type E rnd tunnelID msgType buf replyMsgID = do {
     let gatewayMsgOffset = I2NP_HEADER_SIZE + TUNNEL_GATEWAY_HEADER_SIZE;
     let m0 = NewI2NPMessage_len (length buf);
     let m1 = m0\<lparr>moffset := moffset m0 + gatewayMsgOffset, mlen := mlen m0 + gatewayMsgOffset\<rparr>;
     m2 \<leftarrow> put_bytes (GetPayload m1) buf m1;
     m3 \<leftarrow> fillHeader E msgType replyMsgID (add_len (length buf) m2);
     let len = GetLength m3;
     let m4 = m3\<lparr>moffset := moffset m3 - gatewayMsgOffset\<rparr>;
     m5 \<leftarrow> upd_buf (htobe32buf (GetPayload m4) tunnelID) m4;
     m6 \<leftarrow> upd_buf (htobe16buf (GetPayload m4 + 4) (of_nat len)) m5;
     fillHeader (E\<lparr>rndWord := rnd\<rparr>) eI2NPTunnelGateway 0 m6
   }"

section \<open>The header\<close>

text \<open>The sixteen header bytes, and what filling a header leaves in the buffer.\<close>

definition i2np_header :: "byte \<Rightarrow> u32 \<Rightarrow> u64 \<Rightarrow> u16 \<Rightarrow> byte \<Rightarrow> bytes" where
  "i2np_header t i e s c = t # be_bytes 4 i @ be_bytes 8 e @ be_bytes 2 s @ [c]"

lemma length_i2np_header [simp, len_simps]: "length (i2np_header t i e s c) = 16"
  by (simp add: i2np_header_def)

lemma header_split:
  assumes "length h = 16"
  obtains t i e s c where "h = t # i @ e @ s @ [c]" "length i = 4" "length e = 8" "length s = 2"
proof -
  from assms obtain t r where h: "h = t # r" "length r = 15" by (auto simp: length_Suc_conv numeral_eq_Suc)
  have "r = take 4 r @ take 8 (drop 4 r) @ take 2 (drop 12 r) @ [r ! 14]"
    using h(2) by (intro nth_equalityI) (auto simp: nth_append intro!: arg_cong [where f = "(!) r"])
  with h show ?thesis
    by (intro that [of t "take 4 r" "take 8 (drop 4 r)" "take 2 (drop 12 r)" "r ! 14"]) auto
qed

lemma mem_get_hd: "xs \<noteq> [] \<Longrightarrow> mem_get 0 xs = Some (hd xs)"
  by (cases xs) (simp_all add: mem_get_def)

lemmas i2np_access = SetTypeID_def GetTypeID_def SetMsgID_def GetMsgID_def SetExpiration_def
  GetExpiration_def SetSize_def GetSize_def UpdateSize_def SetChks_def UpdateChks_def
  GetHeader_def GetBuffer_def GetPayload_def GetPayloadLength_def GetLength_def upd_buf_def
  htobe16buf_eq htobe32buf_eq htobe64buf_eq bufbe16toh_eq bufbe32toh_eq bufbe64toh_eq

lemma FillI2NPMessageHeader_eq:
  assumes "moffset m + 16 \<le> mlen m" and "mlen m \<le> length (mbuf m)" and "\<And>x. sha x \<noteq> []"
  shows "FillI2NPMessageHeader sha t r rnd now m =
    Some (m\<lparr>mbuf := take (moffset m) (mbuf m) @
              i2np_header t (if r \<noteq> 0 then r else rnd) (now + 5000) (of_nat (mlen m - moffset m - 16))
                (hd (sha (take (mlen m - moffset m - 16) (drop (moffset m + 16) (mbuf m))))) @
              drop (moffset m + 16) (mbuf m)\<rparr>)"
proof -
  have "moffset m + 16 \<le> length (mbuf m)" using assms by linarith
  then obtain pre h post where buf: "mbuf m = pre @ h @ post" and pre: "length pre = moffset m"
    and "length h = 16" by (rule split_at)
  from \<open>length h = 16\<close> obtain t0 i0 e0 s0 c0 where h: "h = t0 # i0 @ e0 @ s0 @ [c0]"
    and l: "length i0 = 4" "length e0 = 8" "length s0 = 2" by (rule header_split)
  let ?id = "if r \<noteq> 0 then r else rnd"
  let ?sz = "of_nat (mlen m - moffset m - 16) :: u16"
  let ?b1 = "pre @ t # i0 @ e0 @ s0 @ c0 # post"
  let ?b2 = "pre @ t # be_bytes 4 ?id @ e0 @ s0 @ c0 # post"
  let ?b3 = "pre @ t # be_bytes 4 ?id @ be_bytes 8 (now + 5000) @ s0 @ c0 # post"
  let ?b4 = "pre @ t # be_bytes 4 ?id @ be_bytes 8 (now + 5000) @ be_bytes 2 ?sz @ c0 # post"
  have len: "mlen m - moffset m \<ge> 16" "moffset m \<le> mlen m" using assms(1) by auto
  have 1: "SetTypeID t m = Some (m\<lparr>mbuf := ?b1\<rparr>)"
    using mem_set_append [of "moffset m" pre t t0] by (simp add: i2np_access buf h pre)
  have 2: "SetMsgID ?id (m\<lparr>mbuf := ?b1\<rparr>) = Some (m\<lparr>mbuf := ?b2\<rparr>)"
    using mem_write_append [of "moffset m + 1" "pre @ [t]" "be_bytes 4 ?id" i0 "e0 @ s0 @ c0 # post"]
    by (simp add: i2np_access pre l)
  have 3: "SetExpiration (now + 5000) (m\<lparr>mbuf := ?b2\<rparr>) = Some (m\<lparr>mbuf := ?b3\<rparr>)"
    using mem_write_append [of "moffset m + 5" "pre @ t # be_bytes 4 ?id" "be_bytes 8 (now + 5000)" e0
        "s0 @ c0 # post"]
    by (simp add: i2np_access pre l)
  have 4: "UpdateSize (m\<lparr>mbuf := ?b3\<rparr>) = Some (m\<lparr>mbuf := ?b4\<rparr>)"
    using mem_write_append [of "moffset m + 13" "pre @ t # be_bytes 4 ?id @ be_bytes 8 (now + 5000)"
        "be_bytes 2 ?sz" s0 "c0 # post"] len
    by (simp add: i2np_access pre l)
  have "mem_read (moffset m + 16) (mlen m - moffset m - 16) ?b4 =
      Some (take (mlen m - moffset m - 16) post)"
    using assms(1,2) by (simp add: mem_read_def pre buf h l)
  then have 5: "UpdateChks sha (m\<lparr>mbuf := ?b4\<rparr>) =
      Some (m\<lparr>mbuf := pre @ t # be_bytes 4 ?id @ be_bytes 8 (now + 5000) @ be_bytes 2 ?sz @
        hd (sha (take (mlen m - moffset m - 16) post)) # post\<rparr>)"
    using mem_set_append [of "moffset m + 15"
        "pre @ t # be_bytes 4 ?id @ be_bytes 8 (now + 5000) @ be_bytes 2 ?sz" _ c0 post] len assms(3)
    by (simp add: i2np_access pre l mem_get_hd)
  have split: "take (moffset m) (mbuf m) = pre" "drop (moffset m + 16) (mbuf m) = post"
    by (simp_all add: buf h pre l)
  show ?thesis
    unfolding split i2np_header_def FillI2NPMessageHeader_def
      if_distrib [of "\<lambda>x. SetMsgID x _", symmetric]
    by (simp only: 1 2 3 4 5 Option.bind.bind_lunit append_Cons append_assoc append_Nil)
qed

text \<open>Reading the header back.\<close>

lemma header_access:
  assumes "mbuf m = pre @ i2np_header t i e s c @ post" and "length pre = moffset m"
  shows "GetTypeID m = Some t" and "GetMsgID m = Some i" and "GetExpiration m = Some e"
    and "GetSize m = Some s"
proof -
  show "GetTypeID m = Some t"
    using mem_get_append [of "moffset m" pre t] assms by (simp add: i2np_access i2np_header_def)
  have "mem_read (moffset m + 1) 4 (mbuf m) = Some (be_bytes 4 i)"
    using mem_read_append [of "moffset m + 1" "pre @ [t]" 4 "be_bytes 4 i"] assms
    by (simp add: i2np_header_def)
  then show "GetMsgID m = Some i" by (simp add: i2np_access)
  have "mem_read (moffset m + 5) 8 (mbuf m) = Some (be_bytes 8 e)"
    using mem_read_append [of "moffset m + 5" "pre @ t # be_bytes 4 i" 8 "be_bytes 8 e"] assms
    by (simp add: i2np_header_def)
  then show "GetExpiration m = Some e" by (simp add: i2np_access)
  have "mem_read (moffset m + 13) 2 (mbuf m) = Some (be_bytes 2 s)"
    using mem_read_append [of "moffset m + 13" "pre @ t # be_bytes 4 i @ be_bytes 8 e" 2 "be_bytes 2 s"]
      assms by (simp add: i2np_header_def)
  then show "GetSize m = Some s" by (simp add: i2np_access)
qed

definition msg_payload :: "I2NPMessage \<Rightarrow> bytes option" where
  "msg_payload m = mem_read (GetPayload m) (GetPayloadLength m) (mbuf m)"

definition msg_content :: "I2NPMessage \<Rightarrow> bytes option" where
  "msg_content m = mem_read (GetBuffer m) (GetLength m) (mbuf m)"

lemma put_bytes_alt:
  "put_bytes i bs m =
     (if i + length bs \<le> length (mbuf m)
      then Some (m\<lparr>mbuf := take i (mbuf m) @ bs @ drop (i + length bs) (mbuf m)\<rparr>) else None)"
  by (simp add: put_bytes_def upd_buf_def mem_write_def)

lemma put_fields_eq:
  "i + length (concat bss) \<le> length (mbuf m) \<Longrightarrow> put_fields i bss m = put_bytes i (concat bss) m"
proof (induction bss arbitrary: i m)
  case Nil
  then show ?case by (simp add: put_bytes_alt)
next
  case (Cons bs bss)
  let ?m = "m\<lparr>mbuf := take i (mbuf m) @ bs @ drop (i + length bs) (mbuf m)\<rparr>"
  have "put_fields (i + length bs) bss ?m = put_bytes (i + length bs) (concat bss) ?m"
    using Cons.prems by (intro Cons.IH) simp
  then show ?case
    using Cons.prems by (auto simp: put_bytes_alt ac_simps)
qed

text \<open>
  The message a constructor produces: a fresh buffer of a given size that holds a header and a
  payload from position 2 on.
\<close>

definition wire_msg :: "env \<Rightarrow> nat \<Rightarrow> byte \<Rightarrow> u32 \<Rightarrow> bytes \<Rightarrow> I2NPMessage" where
  "wire_msg E sz t r P =
     \<lparr>mbuf = [0, 0] @ i2np_header t (if r \<noteq> 0 then r else rndWord E) (nowMs E + 5000)
                 (of_nat (length P)) (hd (sha256 E P)) @ P @ replicate (sz - 2 - length P) 0,
      mlen = 18 + length P, moffset = 2, mmaxLen = sz, mfrom = None\<rparr>"

lemma wire_msg_build:
  assumes "\<And>x. sha256 E x \<noteq> []" and "2 + length P \<le> sz"
  shows "do { m1 \<leftarrow> put_bytes 18 P (I2NPMessageBuffer sz); fillHeader E t r (add_len (length P) m1) } =
    Some (wire_msg E sz t r P)"
proof -
  have "fillHeader E t r (add_len (length P)
      (I2NPMessageBuffer sz\<lparr>mbuf := replicate 18 0 @ P @ replicate (sz - 2 - length P) 0\<rparr>)) =
      Some (wire_msg E sz t r P)"
    unfolding fillHeader_def using assms
    by (subst FillI2NPMessageHeader_eq)
       (simp_all add: I2NPMessageBuffer_def add_len_def wire_msg_def numeral_2_eq_2)
  moreover have "put_bytes 18 P (I2NPMessageBuffer sz) =
      Some (I2NPMessageBuffer sz\<lparr>mbuf := replicate 18 0 @ P @ replicate (sz - 2 - length P) 0\<rparr>)"
    using assms(2) by (simp add: put_bytes_alt I2NPMessageBuffer_def)
  ultimately show ?thesis by (simp only: Option.bind.bind_lunit)
qed

lemma wire_msg_access:
  assumes "\<And>x. sha256 E x \<noteq> []"
  shows "GetTypeID (wire_msg E sz t r P) = Some t"
    and "GetMsgID (wire_msg E sz t r P) = Some (if r \<noteq> 0 then r else rndWord E)"
    and "GetExpiration (wire_msg E sz t r P) = Some (nowMs E + 5000)"
    and "GetSize (wire_msg E sz t r P) = Some (of_nat (length P))"
    and "msg_payload (wire_msg E sz t r P) = Some P"
proof -
  note h = header_access [of "wire_msg E sz t r P" "[0, 0]" t _ _ _ _ "P @ replicate (sz - 2 - length P) 0"]
  show "GetTypeID (wire_msg E sz t r P) = Some t"
    and "GetMsgID (wire_msg E sz t r P) = Some (if r \<noteq> 0 then r else rndWord E)"
    and "GetExpiration (wire_msg E sz t r P) = Some (nowMs E + 5000)"
    and "GetSize (wire_msg E sz t r P) = Some (of_nat (length P))"
    by (rule h; simp add: wire_msg_def)+
  show "msg_payload (wire_msg E sz t r P) = Some P"
    by (simp add: msg_payload_def i2np_access wire_msg_def mem_read_def)
qed

section \<open>What the constructors build\<close>

lemma new_msgs:
  "NewI2NPShortMessage = I2NPMessageBuffer 4096" "NewI2NPMessage = I2NPMessageBuffer 32768"
  "GetPayload (I2NPMessageBuffer sz) = 18" "length (mbuf (I2NPMessageBuffer sz)) = sz + 16"
  by (simp_all add: NewI2NPShortMessage_def NewI2NPMessage_def GetPayload_def GetBuffer_def
      I2NPMessageBuffer_def)

lemma wire_msg_fields:
  assumes "\<And>x. sha256 E x \<noteq> []" and "2 + length (concat flds) \<le> sz"
  shows "do { m1 \<leftarrow> put_fields 18 flds (I2NPMessageBuffer sz);
              fillHeader E t r (add_len (length (concat flds)) m1) } =
    Some (wire_msg E sz t r (concat flds))"
  using wire_msg_build [OF assms] assms(2)
  by (simp add: put_fields_eq new_msgs)

lemma FillI2NPMessageHeader_fills:
  assumes "moffset m + 16 \<le> mlen m" and "mlen m \<le> length (mbuf m)" and "\<And>x. sha x \<noteq> []"
  shows "\<exists>m'. FillI2NPMessageHeader sha t r rnd now m = Some m' \<and>
     GetTypeID m' = Some t \<and> GetMsgID m' = Some (if r \<noteq> 0 then r else rnd) \<and>
     GetExpiration m' = Some (now + 5000) \<and> GetSize m' = Some (of_nat (mlen m - moffset m - 16)) \<and>
     msg_payload m' = msg_payload m \<and> mmaxLen m' = mmaxLen m \<and> mfrom m' = mfrom m \<and>
     length (mbuf m') = length (mbuf m) \<and> mlen m' = mlen m \<and> moffset m' = moffset m \<and>
     take (moffset m) (mbuf m') = take (moffset m) (mbuf m) \<and>
     drop (moffset m + 16) (mbuf m') = drop (moffset m + 16) (mbuf m)"
proof -
  let ?m = "m\<lparr>mbuf := take (moffset m) (mbuf m) @
      i2np_header t (if r \<noteq> 0 then r else rnd) (now + 5000) (of_nat (mlen m - moffset m - 16))
        (hd (sha (take (mlen m - moffset m - 16) (drop (moffset m + 16) (mbuf m))))) @
      drop (moffset m + 16) (mbuf m)\<rparr>"
  have off: "moffset m + 16 \<le> length (mbuf m)" using assms by linarith
  have "FillI2NPMessageHeader sha t r rnd now m = Some ?m"
    by (rule FillI2NPMessageHeader_eq [OF assms])
  moreover have "GetTypeID ?m = Some t" "GetMsgID ?m = Some (if r \<noteq> 0 then r else rnd)"
    "GetExpiration ?m = Some (now + 5000)" "GetSize ?m = Some (of_nat (mlen m - moffset m - 16))"
    by (rule header_access [of ?m "take (moffset m) (mbuf m)"], simp, use off in simp)+
  moreover have "msg_payload ?m = msg_payload m"
    using assms off by (simp add: msg_payload_def i2np_access mem_read_def)
  ultimately show ?thesis using off by (intro exI [of _ ?m]) simp
qed

text \<open>
  Filling an I2NP header succeeds on every message that has room for it and is well formed, and
  afterwards the accessors return the type, the identifier (the reply identifier when one is given,
  a random word otherwise), the expiration five seconds ahead and the payload length; the payload
  and all bytes outside the header are unchanged.
\<close>

theorem FillI2NPMessageHeader_correct:
  assumes "moffset m + 16 \<le> mlen m" and "mlen m \<le> length (mbuf m)" and "\<And>x. sha x \<noteq> []"
  shows "\<exists>m'. FillI2NPMessageHeader sha t r rnd now m = Some m' \<and>
     GetTypeID m' = Some t \<and> GetMsgID m' = Some (if r \<noteq> 0 then r else rnd) \<and>
     GetExpiration m' = Some (now + 5000) \<and> GetSize m' = Some (of_nat (mlen m - moffset m - 16)) \<and>
     msg_payload m' = msg_payload m \<and> mlen m' = mlen m \<and> moffset m' = moffset m \<and>
     take (moffset m) (mbuf m') = take (moffset m) (mbuf m) \<and>
     drop (moffset m + 16) (mbuf m') = drop (moffset m + 16) (mbuf m)"
  using FillI2NPMessageHeader_fills [where sha = sha, OF assms, of t r rnd now] by blast

theorem FillI2NPMessageHeader_correct_witness:
  "\<exists>m'. FillI2NPMessageHeader (\<lambda>x. replicate 32 0) 18 0 7 1000 NewI2NPShortMessage = Some m' \<and>
     GetTypeID m' = Some 18 \<and> GetMsgID m' = Some 7 \<and> GetExpiration m' = Some 6000"
proof -
  have 1: "moffset NewI2NPShortMessage + 16 \<le> mlen NewI2NPShortMessage"
    and 2: "mlen NewI2NPShortMessage \<le> length (mbuf NewI2NPShortMessage)"
    by (simp_all add: NewI2NPShortMessage_def I2NPMessageBuffer_def)
  have 3: "replicate 32 (0 :: byte) \<noteq> []" by simp
  show ?thesis
    using FillI2NPMessageHeader_correct [OF 1 2 3, of 18 0 7 1000] by auto
qed

lemma CreateI2NPMessage_eq:
  assumes "\<And>x. sha256 E x \<noteq> []" and "18 + length buf < 32768"
  shows "CreateI2NPMessage E t buf r =
    Some (wire_msg E (if length buf < 2048 then 4096 else 32768) t r buf)"
proof -
  define sz :: nat where "sz = (if length buf < 2048 then 4096 else 32768)"
  have msg: "NewI2NPMessage_len (length buf) = I2NPMessageBuffer sz"
    by (simp add: NewI2NPMessage_len_def sz_def new_msgs)
  have "mlen (I2NPMessageBuffer sz) + length buf < mmaxLen (I2NPMessageBuffer sz)"
    using assms(2) by (simp add: I2NPMessageBuffer_def sz_def)
  moreover have "2 + length buf \<le> sz" using assms(2) by (simp add: sz_def)
  then have "do { m1 \<leftarrow> put_bytes 18 buf (I2NPMessageBuffer sz); fillHeader E t r (add_len (length buf) m1) } =
      Some (wire_msg E sz t r buf)" by (rule wire_msg_build [OF assms(1)])
  ultimately show ?thesis
    unfolding CreateI2NPMessage_def msg sz_def [symmetric]
    by (cases "put_bytes 18 buf (I2NPMessageBuffer sz)") (simp_all add: new_msgs)
qed

text \<open>
  C38. Constructing a message from a payload and parsing it back are inverse: for a payload that
  fits, \<open>CreateI2NPMessage\<close> produces a message whose type, identifier, size field and payload are
  the ones given, and whose size field makes \<open>GetI2NPMessageLength\<close> the length of the message.
\<close>

theorem CreateI2NPMessage_roundtrip:
  assumes "\<And>x. sha256 E x \<noteq> []" and "18 + length buf < 32768"
  shows "\<exists>m. CreateI2NPMessage E t buf r = Some m \<and> GetTypeID m = Some t \<and>
     GetMsgID m = Some (if r \<noteq> 0 then r else rndWord E) \<and> msg_payload m = Some buf \<and>
     GetI2NPMessageLength (drop (GetBuffer m) (mbuf m)) = Some (GetLength m)"
proof -
  define m where "m = wire_msg E (if length buf < 2048 then 4096 else 32768) t r buf"
  have "drop (GetBuffer m) (mbuf m) = drop 2 (mbuf m)" by (simp add: m_def wire_msg_def GetBuffer_def)
  moreover have "bufbe16toh 13 (drop 2 (mbuf m)) = GetSize m"
    by (simp add: i2np_access m_def wire_msg_def mem_read_def)
  moreover have "GetSize m = Some (of_nat (length buf))"
    unfolding m_def by (rule wire_msg_access [OF assms(1)])
  moreover have "unat (of_nat (length buf) :: u16) = length buf"
    using assms(2) by (simp add: unat_of_nat take_bit_nat_eq_self)
  moreover have "GetLength m = 16 + length buf"
    by (simp add: m_def wire_msg_def GetLength_def)
  ultimately have "GetI2NPMessageLength (drop (GetBuffer m) (mbuf m)) = Some (GetLength m)"
    by (simp add: GetI2NPMessageLength_def)
  then show ?thesis
    using CreateI2NPMessage_eq [OF assms, of t r] wire_msg_access [OF assms(1)]
    by (auto simp: m_def)
qed

theorem CreateI2NPMessage_roundtrip_witness:
  "\<exists>m. CreateI2NPMessage \<lparr>sha256 = (\<lambda>x. replicate 32 0), rndWord = 5, nowMs = 0\<rparr> 20 [1, 2, 3] 0 = Some m \<and>
     GetTypeID m = Some 20 \<and> GetMsgID m = Some 5 \<and> msg_payload m = Some [1, 2, 3]"
proof -
  let ?E = "\<lparr>sha256 = (\<lambda>x. replicate 32 0), rndWord = 5, nowMs = 0\<rparr>"
  have 1: "sha256 ?E x \<noteq> []" for x by simp
  have 2: "18 + length [1, 2, 3 :: byte] < 32768" by simp
  show ?thesis using CreateI2NPMessage_roundtrip [OF 1 2, of 20 0] by auto
qed

text \<open>
  The database messages have the layout of the protocol: a RouterInfo lookup, a LeaseSet lookup
  and a search reply carry exactly the concatenation of their fields, with the excluded peers
  counted in front of them, and none of them leaves its buffer as long as the list of peers is
  within the stated bounds.
\<close>

theorem database_messages_layout:
  assumes "\<And>x. sha256 E x \<noteq> []"
    and "length key = 32" and "length frm = 32" and "length ident = 32" and "length us = 32"
    and "length replyKey = 32" and "length replyTag = 32"
    and "\<And>p. p \<in> set peers \<Longrightarrow> length p = 32" and "length peers \<le> 1000"
    and "\<And>p. p \<in> set routers \<Longrightarrow> length p = 32" and "length routers \<le> 120"
  shows "\<exists>m1 m2 m3.
     CreateRouterInfoDatabaseLookupMsg E key frm tid expl (Some peers) = Some m1 \<and>
     msg_payload m1 = Some (key @ frm @
        (if tid \<noteq> 0 then [(if expl then 0x0C else 0x08) OR 1] @ be_bytes 4 tid
         else [if expl then 0x0C else 0x08]) @
        be_bytes 2 (of_nat (length peers) :: u16) @ concat peers) \<and>
     CreateLeaseSetDatabaseLookupMsg E key peers frm tid replyKey replyTag = Some m2 \<and>
     msg_payload m2 = Some (key @ frm @ [7] @ be_bytes 4 tid @
        be_bytes 2 (of_nat (length peers) :: u16) @ concat peers @ replyKey @ [1] @ replyTag) \<and>
     CreateDatabaseSearchReply E us ident routers = Some m3 \<and>
     msg_payload m3 = Some (ident @ [of_nat (length routers)] @ concat routers @ us)"
proof -
  have cat: "length (concat xs) = 32 * length xs" if "\<And>p. p \<in> set xs \<Longrightarrow> length p = 32" for xs :: "bytes list"
    using that by (induction xs) auto
  note lens = cat [OF assms(8)] cat [OF assms(10)]
  define f1 where "f1 = [key, frm] @
       (if tid \<noteq> 0 then [[(if expl then 0x0C else 0x08 :: byte) OR 0x01], be_bytes 4 tid]
        else [[if expl then 0x0C else 0x08]]) @ be_bytes 2 (of_nat (length peers) :: u16) # peers"
  define f2 where "f2 = [key, frm, [0x01 OR 0x02 OR 0x04 :: byte], be_bytes 4 tid,
        be_bytes 2 (of_nat (length peers) :: u16)] @ peers @ [replyKey, [1], replyTag]"
  define f3 where "f3 = [ident, [of_nat (length routers) :: byte]] @ routers @ [us]"
  define sz :: nat where "sz = (if length peers > 0 then 32768 else 4096)"
  have "2 + length (concat f1) \<le> 32768" "2 + length (concat f2) \<le> sz" "2 + length (concat f3) \<le> 4096"
    using assms(2-7,9,11) lens by (auto simp: f1_def f2_def f3_def sz_def)
  note w = this [THEN wire_msg_fields [OF assms(1)]]
  have 1: "CreateRouterInfoDatabaseLookupMsg E key frm tid expl (Some peers) =
      Some (wire_msg E 32768 2 0 (concat f1))"
    unfolding CreateRouterInfoDatabaseLookupMsg_def Let_def option.case f1_def [symmetric] new_msgs
    by (rule w(1))
  have 2: "CreateLeaseSetDatabaseLookupMsg E key peers frm tid replyKey replyTag =
      Some (wire_msg E sz 2 0 (concat f2))"
    unfolding CreateLeaseSetDatabaseLookupMsg_def Let_def f2_def [symmetric] new_msgs
      if_distrib [of I2NPMessageBuffer, symmetric] sz_def [symmetric] by (rule w(2))
  have 3: "CreateDatabaseSearchReply E us ident routers = Some (wire_msg E 4096 3 0 (concat f3))"
    unfolding CreateDatabaseSearchReply_def Let_def f3_def [symmetric] new_msgs by (rule w(3))
  show ?thesis
    unfolding 1 2 3 by (simp add: wire_msg_access(5) [OF assms(1)] f1_def f2_def f3_def)
qed

theorem database_messages_layout_witness:
  "\<exists>m. CreateDatabaseSearchReply \<lparr>sha256 = (\<lambda>x. replicate 32 0), rndWord = 5, nowMs = 0\<rparr>
      (replicate 32 1) (replicate 32 2) [replicate 32 3] = Some m \<and>
     msg_payload m = Some (replicate 32 2 @ [1] @ replicate 32 3 @ replicate 32 1)"
proof -
  let ?E = "\<lparr>sha256 = (\<lambda>x. replicate 32 0), rndWord = 5, nowMs = 0\<rparr>"
  let ?k = "\<lambda>b :: byte. replicate 32 b"
  have "sha256 ?E x \<noteq> []" for x by simp
  then show ?thesis
    using database_messages_layout [where E = ?E and key = "?k 0" and frm = "?k 0" and ident = "?k 2"
        and us = "?k 1" and replyKey = "?k 0" and replyTag = "?k 0" and peers = "[]"
        and routers = "[?k 3]" and tid = 0 and expl = False]
    by auto
qed

text \<open>
  \<open>operator=\<close> copies the capacity of its source along with the content. After moving a message
  into a larger buffer the recorded capacity is still that of the old one, and after copying a
  message held in a large buffer into a short one the recorded capacity exceeds the allocation.
\<close>

theorem assign_msg_capacity:
  assumes "moffset other \<le> mlen other" and "mlen other \<le> length (mbuf other)"
    and "moffset m + (mlen other - moffset other) \<le> length (mbuf m)"
  shows "\<exists>m'. assign_msg m other = Some m' \<and> msg_content m' = msg_content other \<and>
     moffset m' = moffset m \<and> mmaxLen m' = mmaxLen other \<and> length (mbuf m') = length (mbuf m)"
  using assms
  by (auto simp: assign_msg_def mem_read_def mem_write_def i2np_access msg_content_def)

theorem assign_msg_capacity_witness:
  "\<exists>m. assign_msg NewI2NPShortMessage NewI2NPMessage = Some m \<and> mmaxLen m > length (mbuf m)"
proof -
  have 1: "moffset NewI2NPMessage \<le> mlen NewI2NPMessage" "mlen NewI2NPMessage \<le> length (mbuf NewI2NPMessage)"
    "moffset NewI2NPShortMessage + (mlen NewI2NPMessage - moffset NewI2NPMessage) \<le> length (mbuf NewI2NPShortMessage)"
    by (simp_all add: NewI2NPMessage_def NewI2NPShortMessage_def I2NPMessageBuffer_def)
  have "mmaxLen NewI2NPMessage > length (mbuf NewI2NPShortMessage)"
    by (simp add: NewI2NPMessage_def NewI2NPShortMessage_def I2NPMessageBuffer_def)
  then show ?thesis using assign_msg_capacity [OF 1] by auto
qed

end
