(* ===== verification/Tunnel_Gateway.thy ===== *)
theory Tunnel_Gateway
  imports I2NP
begin

text \<open>
  The entry of a tunnel: \<open>src/core/tunnel/TunnelGateway.cpp\<close>. A gateway packs I2NP messages with
  their delivery instructions into tunnel data messages of fixed size, splitting a message that does
  not fit into a first fragment and follow-on fragments.

  The router's random number generator, allocator and clock are the environment: an abstract state
  \<open>'g\<close> with the operations of \<open>genv\<close>, passed along by every call that uses them. What the code relies
  on is \<open>genv_ok\<close>: a hash has 32 bytes, a generated block the requested length, a bounded random
  word is within its bound.
\<close>

abbreviation TUNNEL_DATA_ENCRYPTED_SIZE :: nat where "TUNNEL_DATA_ENCRYPTED_SIZE \<equiv> 1008"
abbreviation TUNNEL_DATA_MAX_PAYLOAD_SIZE :: nat where "TUNNEL_DATA_MAX_PAYLOAD_SIZE \<equiv> 1003"

abbreviation eDeliveryTypeLocal :: byte where "eDeliveryTypeLocal \<equiv> 0"
abbreviation eDeliveryTypeTunnel :: byte where "eDeliveryTypeTunnel \<equiv> 1"
abbreviation eDeliveryTypeRouter :: byte where "eDeliveryTypeRouter \<equiv> 2"

record TunnelMessageBlock =
  deliveryType :: byte
  bhash :: bytes
  btunnelID :: u32
  bdata :: "I2NPMessage option" \<comment> \<open>\<open>None\<close> is the null pointer\<close>

record 'g genv =
  gsha :: "bytes \<Rightarrow> bytes"
  genBlock :: "nat \<Rightarrow> 'g \<Rightarrow> bytes \<times> 'g"
  genWord32 :: "nat \<Rightarrow> 'g \<Rightarrow> nat \<times> 'g"
  genMsgID :: "'g \<Rightarrow> u32 \<times> 'g"
  allocAddr :: "'g \<Rightarrow> nat \<times> 'g"
  clock :: "'g \<Rightarrow> u64 \<times> 'g"

definition genv_ok :: "'g genv \<Rightarrow> bool" where
  "genv_ok E \<longleftrightarrow> (\<forall>x. length (gsha E x) = 32) \<and> (\<forall>n g. length (fst (genBlock E n g)) = n) \<and>
     (\<forall>m g. fst (genWord32 E m g) \<le> m)"

section \<open>The buffer of a gateway\<close>

record TunnelGatewayBuffer =
  gTunnelID :: u32
  gTunnelDataMsgs :: "I2NPMessage list"
  gCurrent :: "I2NPMessage option"
  gRemainingSize :: nat
  gNonZero :: bytes

definition newTunnelGatewayBuffer :: "'g genv \<Rightarrow> u32 \<Rightarrow> 'g \<Rightarrow> TunnelGatewayBuffer \<times> 'g" where
  "newTunnelGatewayBuffer E tunnelID g =
     (let (r, g') = genBlock E TUNNEL_DATA_MAX_PAYLOAD_SIZE g
      in (\<lparr>gTunnelID = tunnelID, gTunnelDataMsgs = [], gCurrent = None, gRemainingSize = 0,
           gNonZero = map (\<lambda>b. if b = 0 then 1 else b) r\<rparr>, g'))"

definition ClearTunnelDataMsgs :: "TunnelGatewayBuffer \<Rightarrow> TunnelGatewayBuffer" where
  "ClearTunnelDataMsgs st = st\<lparr>gTunnelDataMsgs := []\<rparr>"

definition CreateCurrentTunnelDataMessage ::
    "'g genv \<Rightarrow> TunnelGatewayBuffer \<times> 'g \<Rightarrow> TunnelGatewayBuffer \<times> 'g" where
  "CreateCurrentTunnelDataMessage E s =
     (let (st, g) = s;
          (base, g') = allocAddr E g;
          m = Align base 12 NewI2NPShortMessage;
          off = moffset m + TUNNEL_DATA_MSG_SIZE + I2NP_HEADER_SIZE
      in (st\<lparr>gCurrent := Some (m\<lparr>moffset := off, mlen := off\<rparr>),
             gRemainingSize := TUNNEL_DATA_MAX_PAYLOAD_SIZE\<rparr>, g'))"

text \<open>
  Completing the current message: the fragments collected so far become the tail of a message of
  1028 bytes, behind the tunnel identifier, a fresh IV, four bytes of checksum, nonzero padding and
  a zero byte.
\<close>

definition CompleteCurrentTunnelDataMessage ::
    "'g genv \<Rightarrow> TunnelGatewayBuffer \<times> 'g \<Rightarrow> (TunnelGatewayBuffer \<times> 'g) option" where
  "CompleteCurrentTunnelDataMessage E s =
     (let (st, g) = s in
      case gCurrent st of
        None \<Rightarrow> Some s
      | Some cur \<Rightarrow> do {
          let payload = GetBuffer cur;
          let sz = size_sub (mlen cur) (moffset cur);
          let m1 = cur\<lparr>moffset := size_sub (size_sub (mlen cur) TUNNEL_DATA_MSG_SIZE) I2NP_HEADER_SIZE\<rparr>;
          let buf = GetPayload m1;
          m2 \<leftarrow> upd_buf (htobe32buf buf (gTunnelID st)) m1;
          let (iv, g1) = genBlock E 16 g;
          m3 \<leftarrow> put_bytes (buf + 4) iv m2;
          m4 \<leftarrow> put_bytes (payload + sz) iv m3;
          hashed \<leftarrow> mem_read payload (sz + 16) (mbuf m4);
          m5 \<leftarrow> put_bytes (buf + 20) (take 4 (gsha E hashed)) m4;
          m6 \<leftarrow> (if payload = 0 then None else upd_buf (mem_set (payload - 1) 0) m5);
          let paddingSize = int payload - int buf - 25;
          if paddingSize > 0 then do {
            let (randomOffset, g2) = genWord32 E (TUNNEL_DATA_MAX_PAYLOAD_SIZE - nat paddingSize) g1;
            padding \<leftarrow> mem_read randomOffset (nat paddingSize) (gNonZero st);
            m7 \<leftarrow> put_bytes (buf + 24) padding m6;
            Some (st\<lparr>gTunnelDataMsgs := gTunnelDataMsgs st @ [m7], gCurrent := None\<rparr>, g2)
          } else Some (st\<lparr>gTunnelDataMsgs := gTunnelDataMsgs st @ [m6], gCurrent := None\<rparr>, g1)
        })"

text \<open>Bytes appended at the end of the current message.\<close>

definition append_current :: "bytes \<Rightarrow> TunnelGatewayBuffer \<Rightarrow> TunnelGatewayBuffer option" where
  "append_current bs st =
     (case gCurrent st of
        None \<Rightarrow> None
      | Some cur \<Rightarrow>
          map_option (\<lambda>m. st\<lparr>gCurrent := Some (add_len (length bs) m)\<rparr>) (put_bytes (mlen cur) bs cur))"

definition delivery_instructions :: "TunnelMessageBlock \<Rightarrow> bytes" where
  "delivery_instructions block =
     push_bit 5 (deliveryType block) #
     (if deliveryType block \<noteq> eDeliveryTypeLocal then
        (if deliveryType block = eDeliveryTypeTunnel then be_bytes 4 (btunnelID block) else []) @
        bhash block
      else [])"

text \<open>The loop over the follow-on fragments, from position \<open>sz\<close> of the message.\<close>

function put_follow_on ::
    "'g genv \<Rightarrow> I2NPMessage \<Rightarrow> u32 \<Rightarrow> nat \<Rightarrow> nat \<Rightarrow> TunnelGatewayBuffer \<times> 'g \<Rightarrow>
     (TunnelGatewayBuffer \<times> 'g) option" where
  "put_follow_on E msg msgID fragmentNumber sz s =
     (if sz < GetLength msg then do {
        let (st, g) = CreateCurrentTunnelDataMessage E s;
        let rest = GetLength msg - sz;
        let isLastFragment = (rest \<le> TUNNEL_DATA_MAX_PAYLOAD_SIZE - 7);
        let n = (if isLastFragment then rest else TUNNEL_DATA_MAX_PAYLOAD_SIZE - 7);
        let flag = (0x80 OR push_bit 1 (of_nat fragmentNumber)) OR (if isLastFragment then 0x01 else 0);
        data \<leftarrow> mem_read (GetBuffer msg + sz) n (mbuf msg);
        st1 \<leftarrow> append_current ([flag] @ le_bytes 4 msgID @ be_bytes 2 (of_nat n :: u16) @ data) st;
        s2 \<leftarrow> (if isLastFragment then
                let st2 = st1\<lparr>gRemainingSize := size_sub (gRemainingSize st1) (n + 7)\<rparr>
                in if gRemainingSize st2 = 0 then CompleteCurrentTunnelDataMessage E (st2, g)
                   else Some (st2, g)
              else CompleteCurrentTunnelDataMessage E (st1, g));
        put_follow_on E msg msgID (fragmentNumber + 1) (sz + n) s2
      } else Some s)"
  by pat_completeness auto
termination
  by (relation "measure (\<lambda>(E, msg, msgID, fragmentNumber, sz, s). GetLength msg - sz)") auto

declare put_follow_on.simps [simp del]

text \<open>
  One activation of \<open>PutI2NPMsg\<close>, with its recursive call as a parameter. The call is made only when
  the delivery instructions do not fit into the rest of the current message, and a fresh message
  always has room for them, so two activations are enough.
\<close>

definition put_body ::
    "'g genv \<Rightarrow> (TunnelGatewayBuffer \<times> 'g \<Rightarrow> (TunnelGatewayBuffer \<times> 'g) option) \<Rightarrow>
     TunnelMessageBlock \<Rightarrow> TunnelGatewayBuffer \<times> 'g \<Rightarrow> (TunnelGatewayBuffer \<times> 'g) option" where
  "put_body E self block s = do {
     let messageCreated = (gCurrent (fst s) = None);
     let (st, g) = (if messageCreated then CreateCurrentTunnelDataMessage E s else s);
     let di = delivery_instructions block;
     let diLen = length di;
     msg \<leftarrow> bdata block;
     let fullMsgLen = diLen + GetLength msg + 2;
     if fullMsgLen \<le> gRemainingSize st then do {
       data \<leftarrow> mem_read (GetBuffer msg) (GetLength msg) (mbuf msg);
       st1 \<leftarrow> append_current (di @ be_bytes 2 (of_nat (GetLength msg) :: u16) @ data) st;
       let st2 = st1\<lparr>gRemainingSize := gRemainingSize st1 - (diLen + 2 + GetLength msg)\<rparr>;
       if gRemainingSize st2 = 0 then CompleteCurrentTunnelDataMessage E (st2, g) else Some (st2, g)
     } else do {
       (st1, g1) \<leftarrow>
         (if \<not> messageCreated then
            let numFollowOnFragments = fullMsgLen div TUNNEL_DATA_MAX_PAYLOAD_SIZE;
                nonFit = (fullMsgLen + numFollowOnFragments * 7) mod TUNNEL_DATA_MAX_PAYLOAD_SIZE
            in if nonFit = 0 \<or> nonFit > gRemainingSize st
               then map_option (CreateCurrentTunnelDataMessage E) (CompleteCurrentTunnelDataMessage E (st, g))
               else Some (st, g)
          else Some (st, g));
       if diLen + 6 \<le> gRemainingSize st1 then do {
         msgID \<leftarrow> buf32toh (GetHeader msg + I2NP_HEADER_MSGID_OFFSET) (mbuf msg);
         let sz = gRemainingSize st1 - diLen - 6;
         data \<leftarrow> mem_read (GetBuffer msg) sz (mbuf msg);
         st2 \<leftarrow> append_current
           ((hd di OR 0x08) # tl di @ le_bytes 4 msgID @ be_bytes 2 (of_nat sz :: u16) @ data) st1;
         s3 \<leftarrow> CompleteCurrentTunnelDataMessage E (st2, g1);
         put_follow_on E msg msgID 1 sz s3
       } else do {
         s2 \<leftarrow> CompleteCurrentTunnelDataMessage E (st1, g1);
         self s2
       }
     }
   }"

fun PutI2NPMsg_calls ::
    "nat \<Rightarrow> 'g genv \<Rightarrow> TunnelMessageBlock \<Rightarrow> TunnelGatewayBuffer \<times> 'g \<Rightarrow>
     (TunnelGatewayBuffer \<times> 'g) option" where
  "PutI2NPMsg_calls 0 E block s = None"
| "PutI2NPMsg_calls (Suc n) E block s = put_body E (PutI2NPMsg_calls n E block) block s"

definition PutI2NPMsg ::
    "'g genv \<Rightarrow> TunnelMessageBlock \<Rightarrow> TunnelGatewayBuffer \<times> 'g \<Rightarrow> (TunnelGatewayBuffer \<times> 'g) option" where
  "PutI2NPMsg E block s = PutI2NPMsg_calls 2 E block s"

section \<open>The gateway\<close>

text \<open>
  \<open>SendBuffer\<close> encrypts every collected message for the tunnel (\<open>encrypt\<close> is the virtual
  \<open>EncryptTunnelMsg\<close>), fills its header and hands the batch to the transports.
\<close>

record TunnelGateway =
  gwBuffer :: TunnelGatewayBuffer
  gwNumSentBytes :: nat

fun seal_messages ::
    "'g genv \<Rightarrow> (I2NPMessage \<Rightarrow> I2NPMessage option) \<Rightarrow> I2NPMessage list \<Rightarrow> 'g \<Rightarrow>
     (I2NPMessage list \<times> 'g) option" where
  "seal_messages E encrypt [] g = Some ([], g)"
| "seal_messages E encrypt (m # ms) g = do {
     m1 \<leftarrow> encrypt m;
     let (rnd, g1) = genMsgID E g;
     let (now, g2) = clock E g1;
     m2 \<leftarrow> FillI2NPMessageHeader (gsha E) eI2NPTunnelData 0 rnd now m1;
     (ms', g3) \<leftarrow> seal_messages E encrypt ms g2;
     Some (m2 # ms', g3)
   }"

definition SendBuffer ::
    "'g genv \<Rightarrow> (I2NPMessage \<Rightarrow> I2NPMessage option) \<Rightarrow> TunnelGateway \<times> 'g \<Rightarrow>
     (I2NPMessage list \<times> TunnelGateway \<times> 'g) option" where
  "SendBuffer E encrypt s = do {
     let (gw, g) = s;
     (st, g1) \<leftarrow> CompleteCurrentTunnelDataMessage E (gwBuffer gw, g);
     (sent, g2) \<leftarrow> seal_messages E encrypt (gTunnelDataMsgs st) g1;
     Some (sent, gw\<lparr>gwBuffer := ClearTunnelDataMsgs st,
                    gwNumSentBytes := gwNumSentBytes gw + TUNNEL_DATA_MSG_SIZE * length (gTunnelDataMsgs st)\<rparr>, g2)
   }"

definition PutTunnelDataMsg ::
    "'g genv \<Rightarrow> TunnelMessageBlock \<Rightarrow> TunnelGateway \<times> 'g \<Rightarrow> (TunnelGateway \<times> 'g) option" where
  "PutTunnelDataMsg E block s =
     (if bdata block \<noteq> None
      then map_option (\<lambda>(st, g). ((fst s)\<lparr>gwBuffer := st\<rparr>, g)) (PutI2NPMsg E block (gwBuffer (fst s), snd s))
      else Some s)"

definition SendTunnelDataMsg ::
    "'g genv \<Rightarrow> (I2NPMessage \<Rightarrow> I2NPMessage option) \<Rightarrow> TunnelMessageBlock \<Rightarrow> TunnelGateway \<times> 'g \<Rightarrow>
     (I2NPMessage list \<times> TunnelGateway \<times> 'g) option" where
  "SendTunnelDataMsg E encrypt block s =
     (if bdata block \<noteq> None then Option.bind (PutTunnelDataMsg E block s) (SendBuffer E encrypt)
      else Some ([], s))"

section \<open>Fragments\<close>

text \<open>
  The specification of the gateway speaks about fragments: a whole message, the first fragment of a
  message, or a follow-on fragment, each with its delivery instructions.
\<close>

datatype delivery = DLocal | DTunnel u32 bytes | DRouter bytes

datatype tfrag =
    Whole delivery bytes
  | FirstFrag delivery u32 bytes
  | FollowOn u32 nat bool bytes

fun delivery_type :: "delivery \<Rightarrow> byte" where
  "delivery_type DLocal = 0"
| "delivery_type (DTunnel _ _) = 1"
| "delivery_type (DRouter _) = 2"

fun delivery_to :: "delivery \<Rightarrow> bytes" where
  "delivery_to DLocal = []"
| "delivery_to (DTunnel t h) = be_bytes 4 t @ h"
| "delivery_to (DRouter h) = h"

fun delivery_ok :: "delivery \<Rightarrow> bool" where
  "delivery_ok DLocal = True"
| "delivery_ok (DTunnel t h) = (length h = 32)"
| "delivery_ok (DRouter h) = (length h = 32)"

definition field16 :: "bytes \<Rightarrow> bytes" where
  "field16 d = be_bytes 2 (of_nat (length d) :: u16) @ d"

fun enc_frag :: "tfrag \<Rightarrow> bytes" where
  "enc_frag (Whole d data) = push_bit 5 (delivery_type d) # delivery_to d @ field16 data"
| "enc_frag (FirstFrag d i data) =
     (push_bit 5 (delivery_type d) OR 0x08) # delivery_to d @ be_bytes 4 i @ field16 data"
| "enc_frag (FollowOn i k l data) =
     ((0x80 OR push_bit 1 (of_nat k)) OR (if l then 0x01 else 0)) # be_bytes 4 i @ field16 data"

definition enc_frags :: "tfrag list \<Rightarrow> bytes" where
  "enc_frags fs = concat (map enc_frag fs)"

lemma enc_frags_simps [simp]:
  "enc_frags [] = []" "enc_frags (f # fs) = enc_frag f @ enc_frags fs"
  "enc_frags (fs @ gs) = enc_frags fs @ enc_frags gs"
  by (simp_all add: enc_frags_def)

lemma length_field16 [simp]: "length (field16 d) = 2 + length d"
  by (simp add: field16_def)

lemma delivery_to_le: "delivery_ok d \<Longrightarrow> length (delivery_to d) \<le> 36"
  by (cases d) simp_all

text \<open>A sealed tunnel message: what the payload of a completed message looks like on the wire.\<close>

definition sealed :: "(bytes \<Rightarrow> bytes) \<Rightarrow> u32 \<Rightarrow> bytes \<Rightarrow> bytes \<Rightarrow> bool" where
  "sealed sha tid body P \<longleftrightarrow>
     (\<exists>iv pad. P = be_bytes 4 tid @ iv @ take 4 (sha (body @ iv)) @ pad @ 0 # body \<and>
        length iv = 16 \<and> 0 \<notin> set pad \<and> length pad + length body = 1003)"

definition msg_is :: "I2NPMessage \<Rightarrow> nat \<Rightarrow> bytes \<Rightarrow> bool" where
  "msg_is m sz P \<longleftrightarrow> msg_payload m = Some P \<and> moffset m + 16 \<le> mlen m \<and> mlen m + 16 \<le> length (mbuf m) \<and>
     length (mbuf m) = sz + 16 \<and> mmaxLen m = sz"

section \<open>The operations on the buffer\<close>

definition cur_rel :: "I2NPMessage \<Rightarrow> bytes \<Rightarrow> bool" where
  "cur_rel cur body \<longleftrightarrow>
     (\<exists>pre post. mbuf cur = pre @ body @ post \<and> length pre = moffset cur \<and>
        mlen cur = moffset cur + length body \<and> moffset cur \<in> {1046..1057} \<and>
        length (mbuf cur) = 4112 \<and> length body \<le> 1003 \<and> mmaxLen cur = 4096)"

lemma Align_bounds:
  assumes "0 < a" "a \<le> 12"
  shows "\<exists>k<a. Align base a NewI2NPShortMessage =
     NewI2NPShortMessage\<lparr>moffset := 2 + k, mlen := 18 + k\<rparr>"
proof (cases "(base + 2) mod a = 0")
  case True
  then show ?thesis using assms
    by (intro exI [of _ 0]) (simp add: Align_def NewI2NPShortMessage_def I2NPMessageBuffer_def GetBuffer_def)
next
  case False
  then show ?thesis using assms
    by (intro exI [of _ "a - (base + 2) mod a"])
       (simp add: Align_def NewI2NPShortMessage_def I2NPMessageBuffer_def GetBuffer_def Let_def)
qed

lemma CreateCurrent_rel:
  assumes "CreateCurrentTunnelDataMessage E (st, g) = (st', g')"
  shows "\<exists>cur. st' = st\<lparr>gCurrent := Some cur, gRemainingSize := 1003\<rparr> \<and> cur_rel cur []"
proof -
  obtain base g1 where a: "allocAddr E g = (base, g1)" by (cases "allocAddr E g")
  obtain k where k: "k < 12" and al: "Align base 12 NewI2NPShortMessage =
      NewI2NPShortMessage\<lparr>moffset := 2 + k, mlen := 18 + k\<rparr>"
    using Align_bounds [of 12 base] by auto
  let ?cur = "NewI2NPShortMessage\<lparr>moffset := 1046 + k, mlen := 1046 + k\<rparr>"
  have "st' = st\<lparr>gCurrent := Some ?cur, gRemainingSize := 1003\<rparr>"
    using assms by (simp add: CreateCurrentTunnelDataMessage_def a al Let_def)
  moreover have "cur_rel ?cur []"
    unfolding cur_rel_def
    by (rule exI [of _ "take (1046 + k) (mbuf ?cur)"], rule exI [of _ "drop (1046 + k) (mbuf ?cur)"])
       (use k in \<open>simp add: NewI2NPShortMessage_def I2NPMessageBuffer_def flip: replicate_add\<close>)
  ultimately show ?thesis by blast
qed

lemma append_current_rel:
  assumes "gCurrent st = Some cur" and "cur_rel cur body" and "length body + length bs \<le> 1003"
  shows "\<exists>cur'. append_current bs st = Some (st\<lparr>gCurrent := Some cur'\<rparr>) \<and> cur_rel cur' (body @ bs)"
proof -
  from assms(2) obtain pre post where b: "mbuf cur = pre @ body @ post" "length pre = moffset cur"
    "mlen cur = moffset cur + length body" "moffset cur \<in> {1046..1057}" "length (mbuf cur) = 4112"
    "mmaxLen cur = 4096"
    by (auto simp: cur_rel_def)
  then have "0 + length bs \<le> length post" using assms(3) by auto
  then obtain q old post' where "post = q @ old @ post'" "length q = 0" "length old = length bs"
    by (rule split_at)
  then have post: "post = old @ post'" "length old = length bs" by simp_all
  let ?cur = "cur\<lparr>mbuf := pre @ body @ bs @ post', mlen := mlen cur + length bs\<rparr>"
  have "mem_write (mlen cur) bs (mbuf cur) = Some (pre @ body @ bs @ post')"
    using mem_write_append [of "mlen cur" "pre @ body" bs old post'] b post by simp
  then have "append_current bs st = Some (st\<lparr>gCurrent := Some ?cur\<rparr>)"
    by (simp add: append_current_def assms(1) put_bytes_def upd_buf_def add_len_def)
  moreover have "cur_rel ?cur (body @ bs)"
    unfolding cur_rel_def using b post assms(3)
    by (intro exI [of _ pre] exI [of _ post']) auto
  ultimately show ?thesis by blast
qed

lemma CompleteCurrent_rel:
  assumes "genv_ok E" and "gCurrent st = Some cur" and "cur_rel cur body"
    and "length (gNonZero st) = 1003" and "0 \<notin> set (gNonZero st)"
  shows "\<exists>m g'. CompleteCurrentTunnelDataMessage E (st, g) =
      Some (st\<lparr>gTunnelDataMsgs := gTunnelDataMsgs st @ [m], gCurrent := None\<rparr>, g') \<and>
    (\<exists>P. sealed (gsha E) (gTunnelID st) body P \<and> msg_is m 4096 P)"
proof -
  from assms(3) obtain pre post where b: "mbuf cur = pre @ body @ post" "length pre = moffset cur"
    "mlen cur = moffset cur + length body" "moffset cur \<in> {1046..1057}" "length (mbuf cur) = 4112"
    "length body \<le> 1003" "mmaxLen cur = 4096"
    by (auto simp: cur_rel_def)
  define n where "n = 1003 - length body"
  define a where "a = moffset cur + length body - 1028"
  have mlen: "mlen cur = a + 1028" and moff: "moffset cur = a + (n + 25)" and a16: "18 \<le> a" "a \<le> 1032"
    using b by (auto simp: a_def n_def)
  have "length pre = a + (4 + (16 + (4 + (n + 1))))" using b moff by auto
  then obtain p0 t i c p z where pre: "pre = p0 @ t @ i @ c @ p @ [z]"
    "length p0 = a" "length t = 4" "length i = 16" "length c = 4" "length p = n"
    unfolding length_eq_add_conv by (auto simp: length_Suc_conv)
  have "length post = 16 + (length post - 16)" using b by auto
  then obtain q post' where post: "post = q @ post'" "length q = 16"
    unfolding length_eq_add_conv by auto
  obtain iv g1 where iv: "genBlock E 16 g = (iv, g1)" "length iv = 16"
    using assms(1) by (metis genv_ok_def prod.collapse)
  obtain r g2 where r: "genWord32 E (1003 - n) g1 = (r, g2)" "r \<le> 1003 - n"
    using assms(1) by (metis genv_ok_def prod.collapse)
  let ?t = "be_bytes 4 (gTunnelID st)"
  let ?ck = "take 4 (gsha E (body @ iv))"
  have ck: "length ?ck = 4" using assms(1) by (simp add: genv_ok_def)
  define pad where "pad = take n (drop r (gNonZero st))"
  have n: "n \<le> 1003" by (simp add: n_def)
  have pad: "length pad = n" "0 \<notin> set pad" "mem_read r n (gNonZero st) = Some pad"
    using assms(4,5) r n by (auto simp: pad_def mem_read_def dest: in_set_takeD in_set_dropD)
  define m where "m b = cur\<lparr>moffset := a - 16, mbuf := b\<rparr>" for b
  have off: "size_sub (size_sub (mlen cur) 1028) 16 = a - 16" using mlen a16 by simp
  have 1: "mem_write a ?t (mbuf cur) = Some (p0 @ ?t @ i @ c @ p @ z # body @ q @ post')"
    using mem_write_append [of a p0 ?t t] pre b(1) post by simp
  have 2: "mem_write (a + 4) iv (p0 @ ?t @ i @ c @ p @ z # body @ q @ post') =
      Some (p0 @ ?t @ iv @ c @ p @ z # body @ q @ post')"
    using mem_write_append [of "a + 4" "p0 @ ?t" iv i] pre iv(2) by simp
  have 3: "mem_write (moffset cur + length body) iv (p0 @ ?t @ iv @ c @ p @ z # body @ q @ post') =
      Some (p0 @ ?t @ iv @ c @ p @ z # body @ iv @ post')"
    using mem_write_append [of "moffset cur + length body" "p0 @ ?t @ iv @ c @ p @ z # body" iv q]
      pre iv(2) post moff by simp
  have 4: "mem_read (moffset cur) (length body + 16) (p0 @ ?t @ iv @ c @ p @ z # body @ iv @ post') =
      Some (body @ iv)"
    using mem_read_append [of "moffset cur" "p0 @ ?t @ iv @ c @ p @ [z]" "length body + 16" "body @ iv"]
      pre iv(2) moff by simp
  have 5: "mem_write (a + 20) ?ck (p0 @ ?t @ iv @ c @ p @ z # body @ iv @ post') =
      Some (p0 @ ?t @ iv @ ?ck @ p @ z # body @ iv @ post')"
    using mem_write_append [of "a + 20" "p0 @ ?t @ iv" ?ck c] pre iv(2) ck by simp
  have 6: "mem_set (moffset cur - 1) 0 (p0 @ ?t @ iv @ ?ck @ p @ z # body @ iv @ post') =
      Some (p0 @ ?t @ iv @ ?ck @ p @ 0 # body @ iv @ post')"
    using mem_set_append [of "moffset cur - 1" "p0 @ ?t @ iv @ ?ck @ p" 0 z] pre iv(2) ck moff by simp
  have 7: "mem_write (a + 24) pad (p0 @ ?t @ iv @ ?ck @ p @ 0 # body @ iv @ post') =
      Some (p0 @ ?t @ iv @ ?ck @ pad @ 0 # body @ iv @ post')"
    using mem_write_append [of "a + 24" "p0 @ ?t @ iv @ ?ck" pad p] pre iv(2) ck pad(1) by simp
  let ?m = "m (p0 @ ?t @ iv @ ?ck @ pad @ 0 # body @ iv @ post')"
  have sz: "size_sub (mlen cur) (moffset cur) = length body" using b(3) by simp
  have "CompleteCurrentTunnelDataMessage E (st, g) =
      Some (st\<lparr>gTunnelDataMsgs := gTunnelDataMsgs st @ [?m], gCurrent := None\<rparr>, if n = 0 then g1 else g2)"
  proof -
    have pos: "GetPayload (cur\<lparr>moffset := a - 16\<rparr>) = a" "moffset cur \<noteq> 0"
        "int (moffset cur) - int a - 25 = int n" "25 < int (moffset cur) - int a \<longleftrightarrow> 0 < n"
      using a16 moff by (auto simp: GetPayload_def GetBuffer_def)
    have "pad = p" if "n = 0" using that pad(1) pre(6) by simp
    then show ?thesis
      unfolding CompleteCurrentTunnelDataMessage_def
      by (simp add: assms(2) Let_def sz off pos GetBuffer_def put_bytes_def upd_buf_def
          htobe32buf_eq iv(1) r(1) m_def 1 2 3 4 5 6 7 pad(3) del: One_nat_def)
  qed
  moreover have "sealed (gsha E) (gTunnelID st) body (?t @ iv @ ?ck @ pad @ 0 # body)"
    unfolding sealed_def using iv(2) pad b(6)
    by (intro exI [of _ iv] exI [of _ pad]) (simp add: n_def)
  moreover have "msg_is ?m 4096 (?t @ iv @ ?ck @ pad @ 0 # body)"
  proof -
    have "mem_read a 1028 (p0 @ (?t @ iv @ ?ck @ pad @ 0 # body) @ iv @ post') =
        Some (?t @ iv @ ?ck @ pad @ 0 # body)"
      by (rule mem_read_append) (use pre iv ck pad b(6) in \<open>simp_all add: n_def\<close>)
    moreover have "length (p0 @ (?t @ iv @ ?ck @ pad @ 0 # body) @ iv @ post') = 4112"
      using b(1,5) pre post iv ck pad by simp
    ultimately show ?thesis
      using a16 mlen b(7) by (simp add: msg_is_def m_def msg_payload_def i2np_access)
  qed
  ultimately show ?thesis by blast
qed

section \<open>The gateway as a packer of fragments\<close>

text \<open>
  The abstract gateway: the fragments of every finished tunnel message and those of the current one.
  \<open>abs_put\<close> is the packing decision of \<open>PutI2NPMsg\<close> on fragments.
\<close>

type_synonym abs_gw = "tfrag list list \<times> tfrag list option"

definition store_cur :: "tfrag list list \<Rightarrow> tfrag list \<Rightarrow> abs_gw" where
  "store_cur dn c = (if length (enc_frags c) = 1003 then (dn @ [c], None) else (dn, Some c))"

function follow_frags :: "u32 \<Rightarrow> nat \<Rightarrow> bytes \<Rightarrow> tfrag list" where
  "follow_frags i k d =
     (if d = [] then [] else if length d \<le> 996 then [FollowOn i k True d]
      else FollowOn i k False (take 996 d) # follow_frags i (k + 1) (drop 996 d))"
  by pat_completeness auto
termination by (relation "measure (\<lambda>(i, k, d). length d)") auto

declare follow_frags.simps [simp del]

fun place :: "tfrag list list \<Rightarrow> tfrag list \<Rightarrow> abs_gw" where
  "place dn [] = (dn, None)"
| "place dn [f] = store_cur dn [f]"
| "place dn (f # fs) = place (dn @ [[f]]) fs"

definition full_len :: "delivery \<Rightarrow> bytes \<Rightarrow> nat" where
  "full_len d data = 1 + length (delivery_to d) + length data + 2"

definition room :: "tfrag list option \<Rightarrow> nat" where
  "room cur = 1003 - (case cur of None \<Rightarrow> 0 | Some c \<Rightarrow> length (enc_frags c))"

definition put_split :: "delivery \<Rightarrow> u32 \<Rightarrow> bytes \<Rightarrow> tfrag list list \<Rightarrow> tfrag list \<Rightarrow> abs_gw" where
  "put_split d i data dn c =
     (let n = room (Some c) - (length (delivery_to d) + 7)
      in place (dn @ [c @ [FirstFrag d i (take n data)]]) (follow_frags i 1 (drop n data)))"

definition put_fresh :: "delivery \<Rightarrow> u32 \<Rightarrow> bytes \<Rightarrow> tfrag list list \<Rightarrow> abs_gw" where
  "put_fresh d i data dn =
     (if full_len d data \<le> 1003 then store_cur dn [Whole d data] else put_split d i data dn [])"

fun abs_put :: "delivery \<Rightarrow> u32 \<Rightarrow> bytes \<Rightarrow> abs_gw \<Rightarrow> abs_gw" where
  "abs_put d i data (dn, None) = put_fresh d i data dn"
| "abs_put d i data (dn, Some c) =
     (if full_len d data \<le> room (Some c) then store_cur dn (c @ [Whole d data])
      else
        let full = full_len d data; nonFit = (full + full div 1003 * 7) mod 1003
        in if nonFit = 0 \<or> nonFit > room (Some c) then put_split d i data (dn @ [c]) []
           else if length (delivery_to d) + 7 \<le> room (Some c) then put_split d i data dn c
           else put_fresh d i data (dn @ [c]))"

definition gw_rel :: "'g genv \<Rightarrow> TunnelGatewayBuffer \<Rightarrow> abs_gw \<Rightarrow> bool" where
  "gw_rel E st a \<longleftrightarrow>
     list_all2 (\<lambda>m fs. \<exists>P. sealed (gsha E) (gTunnelID st) (enc_frags fs) P \<and> msg_is m 4096 P)
       (gTunnelDataMsgs st) (fst a) \<and>
     (case snd a of None \<Rightarrow> gCurrent st = None
      | Some fs \<Rightarrow> (\<exists>c. gCurrent st = Some c \<and> cur_rel c (enc_frags fs)) \<and> gRemainingSize st = room (snd a)) \<and>
     length (gNonZero st) = 1003 \<and> 0 \<notin> set (gNonZero st)"

definition block_rel :: "TunnelMessageBlock \<Rightarrow> delivery \<Rightarrow> u32 \<Rightarrow> bytes \<Rightarrow> bool" where
  "block_rel block d i data \<longleftrightarrow>
     delivery_ok d \<and> deliveryType block = delivery_type d \<and>
     (case d of DLocal \<Rightarrow> True | DTunnel t h \<Rightarrow> btunnelID block = t \<and> bhash block = h | DRouter h \<Rightarrow> bhash block = h) \<and>
     (\<exists>msg. bdata block = Some msg \<and> msg_content msg = Some data \<and> GetMsgID msg = Some i \<and>
        moffset msg \<le> mlen msg)"

lemma CreateCurrent_gw:
  assumes "gw_rel E st (dn, cur)"
  shows "\<exists>st' g'. CreateCurrentTunnelDataMessage E (st, g) = (st', g') \<and> gw_rel E st' (dn, Some []) \<and>
    gTunnelID st' = gTunnelID st"
proof -
  obtain st' g' where c: "CreateCurrentTunnelDataMessage E (st, g) = (st', g')" by (cases "CreateCurrentTunnelDataMessage E (st, g)")
  then show ?thesis
    using CreateCurrent_rel [OF c] assms by (auto simp: gw_rel_def room_def)
qed

lemma append_gw:
  assumes "gw_rel E st (dn, Some c)" and "length (enc_frags (c @ fs)) \<le> 1003"
  shows "\<exists>st'. append_current (enc_frags fs) st = Some st' \<and> gRemainingSize st' = gRemainingSize st \<and>
    gw_rel E (st'\<lparr>gRemainingSize := room (Some (c @ fs))\<rparr>) (dn, Some (c @ fs))"
proof -
  from assms(1) obtain cur where cur: "gCurrent st = Some cur" "cur_rel cur (enc_frags c)"
    by (auto simp: gw_rel_def)
  then show ?thesis
    using append_current_rel [of st cur "enc_frags c" "enc_frags fs"] assms by (auto simp: gw_rel_def)
qed

lemma Complete_gw:
  assumes "genv_ok E" and "gw_rel E (st\<lparr>gRemainingSize := r\<rparr>) (dn, Some c)"
  shows "\<exists>st' g'. CompleteCurrentTunnelDataMessage E (st, g) = Some (st', g') \<and>
    gw_rel E st' (dn @ [c], None)"
proof -
  from assms(2) obtain cur where cur: "gCurrent st = Some cur" "cur_rel cur (enc_frags c)"
    "length (gNonZero st) = 1003" "0 \<notin> set (gNonZero st)"
    by (auto simp: gw_rel_def)
  then show ?thesis
    using CompleteCurrent_rel [OF assms(1) cur, of g] assms(2)
    by (fastforce simp: gw_rel_def intro!: list_all2_appendI)
qed

lemma store_gw:
  assumes "genv_ok E" and "gw_rel E st (dn, Some c)"
  shows "\<exists>st' g'. (if gRemainingSize st = 0 then CompleteCurrentTunnelDataMessage E (st, g) else Some (st, g)) =
      Some (st', g') \<and> gw_rel E st' (store_cur dn c)"
proof (cases "length (enc_frags c) = 1003")
  case True
  then show ?thesis using Complete_gw [where E = E and st = st and r = "gRemainingSize st" and dn = dn and c = c and g = g] assms
    by (auto simp: store_cur_def gw_rel_def room_def)
next
  case False
  moreover have "length (enc_frags c) \<le> 1003" using assms(2) by (auto simp: gw_rel_def cur_rel_def)
  ultimately show ?thesis using assms by (auto simp: store_cur_def gw_rel_def room_def)
qed

lemma msg_content_Some:
  assumes "msg_content m = Some data" and "moffset m \<le> mlen m"
  shows "GetLength m = length data"
    and "i + n \<le> length data \<Longrightarrow> mem_read (GetBuffer m + i) n (mbuf m) = Some (take n (drop i data))"
  using assms
  by (auto simp: msg_content_def mem_read_def i2np_access drop_take min_def add.commute split: if_splits)

lemma gRemainingSize_upd: "gRemainingSize (st\<lparr>gRemainingSize := r\<rparr>) = r"
  by simp

lemma put_follow_on_gw:
  assumes "genv_ok E" and "msg_content msg = Some data" and "moffset msg \<le> mlen msg"
    and "le_bytes 4 (j :: u32) = be_bytes 4 i" and "gw_rel E st (dn, None)" and "sz \<le> length data"
  shows "\<exists>st' g'. put_follow_on E msg j k sz (st, g) = Some (st', g') \<and>
    gw_rel E st' (place dn (follow_frags i k (drop sz data)))"
  using assms(5,6)
proof (induction "length data - sz" arbitrary: sz k st dn g rule: less_induct)
  case less
  note len = msg_content_Some(1) [OF assms(2,3)]
  show ?case
  proof (cases "sz < length data")
    case False
    then show ?thesis using less.prems
      by (subst put_follow_on.simps) (simp add: len follow_frags.simps)
  next
    case True
    obtain st1 g1 where c: "CreateCurrentTunnelDataMessage E (st, g) = (st1, g1)" "gw_rel E st1 (dn, Some [])"
      using CreateCurrent_gw [OF less.prems(1), of g] by auto
    define l where "l = (length data - sz \<le> 996)"
    define n where "n = (if l then length data - sz else 996)"
    define f where "f = FollowOn i k l (take n (drop sz data))"
    have n: "n \<le> 996" "0 < n" "sz + n \<le> length data" using True by (auto simp: n_def l_def)
    have rd: "mem_read (GetBuffer msg + sz) n (mbuf msg) = Some (take n (drop sz data))"
      by (rule msg_content_Some(2) [OF assms(2,3) n(3)])
    have ef: "enc_frags [f] = [(0x80 OR push_bit 1 (of_nat k)) OR (if l then 0x01 else 0)] @
        le_bytes 4 j @ be_bytes 2 (of_nat n :: u16) @ take n (drop sz data)"
      using n by (simp add: f_def field16_def assms(4))
    have lf: "length (enc_frags [f]) = n + 7" using n by (simp add: f_def)
    obtain st2 where a: "append_current (enc_frags [f]) st1 = Some st2" "gRemainingSize st2 = 1003"
        "gw_rel E (st2\<lparr>gRemainingSize := 996 - n\<rparr>) (dn, Some [f])"
      using append_gw [OF c(2), of "[f]"] lf n c(2) by (auto simp: room_def gw_rel_def)
    have step: "put_follow_on E msg j k sz (st, g) =
        Option.bind
          (if l then if 996 - n = 0 then CompleteCurrentTunnelDataMessage E (st2\<lparr>gRemainingSize := 996 - n\<rparr>, g1)
                     else Some (st2\<lparr>gRemainingSize := 996 - n\<rparr>, g1)
           else CompleteCurrentTunnelDataMessage E (st2, g1))
          (put_follow_on E msg j (k + 1) (sz + n))"
    proof -
      have l: "GetLength msg - sz \<le> 1003 - 7 \<longleftrightarrow> l" "(if l then GetLength msg - sz else 1003 - 7) = n"
        and lt: "sz < GetLength msg \<longleftrightarrow> True" and r: "size_sub (gRemainingSize st2) (n + 7) = 996 - n"
        using True n a(2) by (simp_all add: l_def n_def len)
      have fl: "[(0x80 OR push_bit 1 (of_nat k)) OR (if l then 0x01 else 0)] @ le_bytes 4 j @
          be_bytes 2 (of_nat n :: u16) @ take n (drop sz data) = enc_frags [f]"
        by (rule ef [symmetric])
      show ?thesis
        by (subst put_follow_on.simps)
           (simp only: lt if_True c(1) Let_def prod.case l rd Option.bind.bind_lunit fl a(1) r
             gRemainingSize_upd)
    qed
    show ?thesis
    proof (cases l)
      case True
      then have "follow_frags i k (drop sz data) = [f]" and e: "sz + n = length data"
        using n by (auto simp: follow_frags.simps [of i k] f_def n_def l_def)
      moreover obtain st3 g3 where "(if 996 - n = 0 then CompleteCurrentTunnelDataMessage E (st2\<lparr>gRemainingSize := 996 - n\<rparr>, g1)
           else Some (st2\<lparr>gRemainingSize := 996 - n\<rparr>, g1)) = Some (st3, g3)" "gw_rel E st3 (store_cur dn [f])"
        using store_gw [OF assms(1) a(3), of g1] by auto
      moreover have "put_follow_on E msg j (k + 1) (length data) s = Some s" for s
        by (subst put_follow_on.simps) (simp add: len)
      ultimately show ?thesis using True by (simp add: step)
    next
      case False
      then have n996: "n = 996" by (simp add: n_def)
      have dec: "length data - (sz + n) < length data - sz" using n by simp
      obtain st3 g3 where "CompleteCurrentTunnelDataMessage E (st2, g1) = Some (st3, g3)" "gw_rel E st3 (dn @ [[f]], None)"
        using Complete_gw [OF assms(1) a(3), of g1] by auto
      moreover obtain st4 g4 where "put_follow_on E msg j (k + 1) (sz + n) (st3, g3) = Some (st4, g4)"
          "gw_rel E st4 (place (dn @ [[f]]) (follow_frags i (k + 1) (drop (sz + n) data)))"
        using less.hyps [OF dec calculation(2) n(3), of "k + 1" g3] by auto
      moreover have "follow_frags i k (drop sz data) = f # follow_frags i (k + 1) (drop (sz + n) data)"
        "follow_frags i (k + 1) (drop (sz + n) data) \<noteq> []"
        using False n by (simp_all add: follow_frags.simps [of i k] follow_frags.simps [of i "Suc k"] f_def n996 l_def add.commute)
      ultimately show ?thesis using False
        by (cases "follow_frags i (k + 1) (drop (sz + n) data)") (simp_all add: step)
    qed
  qed
qed

lemma delivery_instructions_eq:
  "block_rel block d i data \<Longrightarrow> delivery_instructions block = push_bit 5 (delivery_type d) # delivery_to d"
  by (cases d) (auto simp: block_rel_def delivery_instructions_def)

lemma GetMsgID_raw:
  assumes "GetMsgID msg = Some i"
  obtains j where "buf32toh (GetHeader msg + 1) (mbuf msg) = Some j" "le_bytes 4 j = be_bytes 4 i"
proof -
  from assms obtain z where z: "mem_read (GetHeader msg + 1) 4 (mbuf msg) = Some z" "i = of_be z"
    by (auto simp: GetMsgID_def bufbe32toh_eq)
  have "length z = 4" by (rule mem_read_length [OF z(1)])
  with z show thesis by (intro that [of "of_le z"]) (simp_all add: buf32toh_def)
qed

text \<open>The first fragment fills the current message, which is completed.\<close>

lemma put_first_gw:
  assumes "genv_ok E" and "gw_rel E st (dn, Some c)"
    and "length (delivery_to d) + 7 + length x = room (Some c)"
    and di: "di = push_bit 5 (delivery_type d) # delivery_to d" and "le_bytes 4 (j :: u32) = be_bytes 4 i"
  shows "\<exists>st' g'.
      do { st2 \<leftarrow> append_current
             ((hd di OR 0x08) # tl di @ le_bytes 4 j @ be_bytes 2 (of_nat (length x) :: u16) @ x) st;
           CompleteCurrentTunnelDataMessage E (st2, g) } = Some (st', g') \<and>
    gw_rel E st' (dn @ [c @ [FirstFrag d i x]], None)"
proof -
  let ?f = "FirstFrag d i x"
  have ef: "(hd di OR 0x08) # tl di @ le_bytes 4 j @ be_bytes 2 (of_nat (length x) :: u16) @ x = enc_frags [?f]"
    by (simp add: di field16_def assms(5))
  have "length (enc_frags c) \<le> 1003" using assms(2) by (auto simp: gw_rel_def cur_rel_def)
  then have "length (enc_frags (c @ [?f])) \<le> 1003" using assms(3) by (simp add: room_def)
  then obtain st2 where a: "append_current (enc_frags [?f]) st = Some st2"
      "gw_rel E (st2\<lparr>gRemainingSize := room (Some (c @ [?f]))\<rparr>) (dn, Some (c @ [?f]))"
    using append_gw [OF assms(2)] by blast
  show ?thesis
    unfolding ef a(1) Option.bind.bind_lunit using Complete_gw [OF assms(1) a(2), of g] by auto
qed

lemma put_split_gw:
  assumes "genv_ok E" and "msg_content msg = Some data" and "GetMsgID msg = Some i"
    and "moffset msg \<le> mlen msg" and "gw_rel E st (dn, Some c)" and "delivery_ok d"
    and "length (delivery_to d) + 7 \<le> room (Some c)" and "room (Some c) - (length (delivery_to d) + 7) \<le> length data"
    and di: "di = push_bit 5 (delivery_type d) # delivery_to d"
  shows "\<exists>st' g'.
      do { msgID \<leftarrow> buf32toh (GetHeader msg + I2NP_HEADER_MSGID_OFFSET) (mbuf msg);
           let sz = gRemainingSize st - length di - 6;
           x \<leftarrow> mem_read (GetBuffer msg) sz (mbuf msg);
           st2 \<leftarrow> append_current
             ((hd di OR 0x08) # tl di @ le_bytes 4 msgID @ be_bytes 2 (of_nat sz :: u16) @ x) st;
           s3 \<leftarrow> CompleteCurrentTunnelDataMessage E (st2, g);
           put_follow_on E msg msgID 1 sz s3 } = Some (st', g') \<and>
    gw_rel E st' (put_split d i data dn c)"
proof -
  define n where "n = room (Some c) - (length (delivery_to d) + 7)"
  have n: "n \<le> length data" and x: "length (take n data) = n" using assms(8) by (auto simp: n_def)
  obtain j where j: "buf32toh (GetHeader msg + 1) (mbuf msg) = Some j" "le_bytes 4 j = be_bytes 4 i"
    by (rule GetMsgID_raw [OF assms(3)])
  have rd: "mem_read (GetBuffer msg) n (mbuf msg) = Some (take n data)"
    using msg_content_Some(2) [OF assms(2,4), of 0 n] n by simp
  have sz: "gRemainingSize st - length di - 6 = n"
    using assms(5) by (simp add: gw_rel_def di n_def)
  have "length (delivery_to d) + 7 + length (take n data) = room (Some c)"
    using assms(7) x by (simp add: n_def)
  from put_first_gw [OF assms(1,5) this di j(2), unfolded x] obtain st3 g3 where
    f: "do { st2 \<leftarrow> append_current
             ((hd di OR 0x08) # tl di @ le_bytes 4 j @ be_bytes 2 (of_nat n :: u16) @ take n data) st;
           CompleteCurrentTunnelDataMessage E (st2, g) } = Some (st3, g3)"
      "gw_rel E st3 (dn @ [c @ [FirstFrag d i (take n data)]], None)" by blast
  show ?thesis
    unfolding sz j(1) Option.bind.bind_lunit Let_def rd
      Option.bind_assoc [symmetric] f(1)
    using put_follow_on_gw [OF assms(1,2,4) j(2) f(2) n(1), of 1 g3]
    by (simp add: put_split_def Let_def n_def [symmetric])
qed

lemma put_whole_gw:
  assumes "genv_ok E" and "msg_content msg = Some data"
    and "moffset msg \<le> mlen msg" and "gw_rel E st (dn, Some c)"
    and "full_len d data \<le> room (Some c)"
    and di: "di = push_bit 5 (delivery_type d) # delivery_to d"
  shows "\<exists>st' g'.
      do { x \<leftarrow> mem_read (GetBuffer msg) (GetLength msg) (mbuf msg);
           st1 \<leftarrow> append_current (di @ be_bytes 2 (of_nat (GetLength msg) :: u16) @ x) st;
           let st2 = st1\<lparr>gRemainingSize := gRemainingSize st1 - (length di + 2 + GetLength msg)\<rparr>;
           if gRemainingSize st2 = 0 then CompleteCurrentTunnelDataMessage E (st2, g) else Some (st2, g) } =
      Some (st', g') \<and> gw_rel E st' (store_cur dn (c @ [Whole d data]))"
proof -
  note len = msg_content_Some(1) [OF assms(2,3)]
  define f where "f = Whole d data"
  have ef: "di @ be_bytes 2 (of_nat (length data) :: u16) @ data = enc_frags [f]"
    by (simp add: f_def di field16_def)
  have lf: "length (enc_frags [f]) = full_len d data" by (simp add: f_def full_len_def)
  have rd: "mem_read (GetBuffer msg) (length data) (mbuf msg) = Some data"
    using msg_content_Some(2) [OF assms(2,3), of 0 "length data"] by simp
  have le: "length (enc_frags c) \<le> 1003" using assms(4) by (auto simp: gw_rel_def cur_rel_def)
  then have "length (enc_frags (c @ [f])) \<le> 1003" using lf assms(5) by (simp add: room_def)
  then obtain st2 where a: "append_current (enc_frags [f]) st = Some st2" "gRemainingSize st2 = gRemainingSize st"
      "gw_rel E (st2\<lparr>gRemainingSize := room (Some (c @ [f]))\<rparr>) (dn, Some (c @ [f]))"
    using append_gw [OF assms(4)] by blast
  have r: "gRemainingSize st2 - (length di + 2 + length data) = room (Some (c @ [f]))"
    using assms(4) a(2) lf by (simp add: gw_rel_def room_def di full_len_def)
  show ?thesis
    unfolding len rd ef a(1) Option.bind.bind_lunit Let_def r
    using store_gw [OF assms(1) a(3), of g] by (simp add: f_def)
qed

definition put_safe :: "delivery \<Rightarrow> bytes \<Rightarrow> abs_gw \<Rightarrow> bool" where
  "put_safe d data a \<longleftrightarrow> snd a = None \<or> full_len d data \<le> room (snd a) \<or> 999 < full_len d data"

lemma put_body_fresh_gw:
  assumes "genv_ok E" and "block_rel block d i data" and "gw_rel E st (dn, None)"
  shows "\<exists>st' g'. put_body E self block (st, g) = Some (st', g') \<and> gw_rel E st' (put_fresh d i data dn)"
proof -
  from assms(2) obtain msg where msg: "bdata block = Some msg" "msg_content msg = Some data"
    "GetMsgID msg = Some i" "moffset msg \<le> mlen msg" "delivery_ok d"
    by (auto simp: block_rel_def)
  note di = delivery_instructions_eq [OF assms(2)]
  obtain st1 g1 where c: "CreateCurrentTunnelDataMessage E (st, g) = (st1, g1)" "gw_rel E st1 (dn, Some [])"
    using CreateCurrent_gw [OF assms(3), of g] by auto
  have none: "(gCurrent (fst (st, g)) = None) = True" using assms(3) by (simp add: gw_rel_def)
  have rem: "gRemainingSize st1 = 1003" using c(2) by (simp add: gw_rel_def room_def)
  have full: "length (delivery_instructions block) + GetLength msg + 2 = full_len d data"
    by (simp add: di full_len_def msg_content_Some(1) [OF msg(2,4)])
  show ?thesis
  proof (cases "full_len d data \<le> 1003")
    case True
    then have "full_len d data \<le> room (Some [])" by (simp add: room_def)
    from put_whole_gw [OF assms(1) msg(2,4) c(2) this di, of g1] True show ?thesis
      unfolding put_body_def put_fresh_def none if_True c(1) Let_def prod.case msg(1) Option.bind.bind_lunit full rem
      by simp
  next
    case False
    have 1: "length (delivery_to d) + 7 \<le> room (Some [])" "room (Some []) - (length (delivery_to d) + 7) \<le> length data"
      using delivery_to_le [OF msg(5)] False by (simp_all add: room_def full_len_def)
    have 2: "(length (delivery_instructions block) + 6 \<le> gRemainingSize st1) = True"
      using 1 by (simp add: rem di room_def)
    from put_split_gw [OF assms(1) msg(2,3,4) c(2) msg(5) 1 di, of g1] False show ?thesis
      unfolding put_body_def put_fresh_def none if_True not_True_eq_False if_False c(1) Let_def prod.case msg(1)
        Option.bind.bind_lunit full 2
      by (simp add: rem)
  qed
qed

text \<open>Completing the current message and opening a fresh one.\<close>

lemma renew_gw:
  assumes "genv_ok E" and "gw_rel E st (dn, Some c)"
  shows "\<exists>st' g'. map_option (CreateCurrentTunnelDataMessage E) (CompleteCurrentTunnelDataMessage E (st, g)) =
      Some (st', g') \<and> gw_rel E st' (dn @ [c], Some [])"
proof -
  have "gw_rel E (st\<lparr>gRemainingSize := gRemainingSize st\<rparr>) (dn, Some c)" using assms(2) by simp
  from Complete_gw [OF assms(1) this, of g] obtain st1 g1 where
    c: "CompleteCurrentTunnelDataMessage E (st, g) = Some (st1, g1)" "gw_rel E st1 (dn @ [c], None)" by auto
  then show ?thesis using CreateCurrent_gw [OF c(2), of g1] by auto
qed

lemma PutI2NPMsg_two: "PutI2NPMsg E block = put_body E (put_body E (\<lambda>s. None) block) block"
proof -
  have 0: "PutI2NPMsg_calls 0 E block = (\<lambda>s. None)" by (rule ext) simp
  have 1: "PutI2NPMsg_calls (Suc 0) E block = put_body E (\<lambda>s. None) block" by (rule ext) (simp add: 0)
  show ?thesis by (rule ext) (simp add: PutI2NPMsg_def numeral_2_eq_2 1)
qed

lemma PutI2NPMsg_gw:
  assumes "genv_ok E" and "block_rel block d i data" and "gw_rel E st a" and "put_safe d data a"
  shows "\<exists>st' g'. PutI2NPMsg E block (st, g) = Some (st', g') \<and> gw_rel E st' (abs_put d i data a)"
proof (cases a)
  case (Pair dn cur)
  note two = PutI2NPMsg_two [of E block]
  show ?thesis
  proof (cases cur)
    case None
    then show ?thesis
      using put_body_fresh_gw [OF assms(1,2), of st dn _ g] assms(3) by (simp add: Pair two)
  next
    case (Some c)
    have rel: "gw_rel E st (dn, Some c)" using assms(3) Pair Some by simp
    from assms(2) obtain msg where msg: "bdata block = Some msg" "msg_content msg = Some data"
      "GetMsgID msg = Some i" "moffset msg \<le> mlen msg" "delivery_ok d"
      by (auto simp: block_rel_def)
    note di = delivery_instructions_eq [OF assms(2)]
    have none: "(gCurrent (fst (st, g)) = None) = False" using rel by (auto simp: gw_rel_def)
    have rem: "gRemainingSize st = room (Some c)" using rel by (simp add: gw_rel_def)
    have full: "length (delivery_instructions block) + GetLength msg + 2 = full_len d data"
      by (simp add: di full_len_def msg_content_Some(1) [OF msg(2,4)])
    define full where "full = full_len d data"
    define nonFit where "nonFit = (full + full div 1003 * 7) mod 1003"
    note unf = put_body_def none if_False not_False_eq_True if_True Let_def prod.case msg(1)
      Option.bind.bind_lunit full rem full_def [symmetric] nonFit_def [symmetric]
    have dl: "length (delivery_to d) \<le> 36" using delivery_to_le [OF msg(5)] .
    consider "full \<le> room (Some c)" | "full > room (Some c)" "nonFit = 0 \<or> nonFit > room (Some c)"
      | "full > room (Some c)" "nonFit \<noteq> 0" "nonFit \<le> room (Some c)" "length (delivery_to d) + 7 \<le> room (Some c)"
      | "full > room (Some c)" "nonFit \<noteq> 0" "nonFit \<le> room (Some c)" "\<not> length (delivery_to d) + 7 \<le> room (Some c)"
      by linarith
    then show ?thesis
    proof cases
      case 1
      then have 2: "full_len d data \<le> room (Some c)" by (simp add: full_def)
      from put_whole_gw [OF assms(1) msg(2,4) rel 2 di, of g] 1 show ?thesis
        unfolding Pair Some two unf by (simp add: 2)
    next
      case 2
      obtain st1 g1 where r: "map_option (CreateCurrentTunnelDataMessage E)
          (CompleteCurrentTunnelDataMessage E (st, g)) = Some (st1, g1)" "gw_rel E st1 (dn @ [c], Some [])"
        using renew_gw [OF assms(1) rel, of g] by auto
      have rem1: "gRemainingSize st1 = 1003" using r(2) by (simp add: gw_rel_def room_def)
      have 3: "length (delivery_to d) + 7 \<le> room (Some [])" "room (Some []) - (length (delivery_to d) + 7) \<le> length data"
        using 2(1) assms(4) dl by (auto simp: put_safe_def Pair Some full_def room_def full_len_def)
      have 4: "(length (delivery_instructions block) + 6 \<le> gRemainingSize st1) = True"
        using 3 by (simp add: rem1 di room_def)
      from put_split_gw [OF assms(1) msg(2,3,4) r(2) msg(5) 3 di, of g1] 2 show ?thesis
        unfolding Pair Some two unf
        by (simp add: r(1) 4 [unfolded rem1] rem1 full_def nonFit_def Let_def)
    next
      case 3
      then have 4: "room (Some c) - (length (delivery_to d) + 7) \<le> length data"
        by (simp add: full_def full_len_def)
      from put_split_gw [OF assms(1) msg(2,3,4) rel msg(5) 3(4) 4 di, of g] 3 show ?thesis
        unfolding Pair Some two unf by (simp add: rem di full_def nonFit_def Let_def)
    next
      case 4
      have "gw_rel E (st\<lparr>gRemainingSize := gRemainingSize st\<rparr>) (dn, Some c)" using rel by simp
      from Complete_gw [OF assms(1) this, of g] obtain st1 g1 where
        c: "CompleteCurrentTunnelDataMessage E (st, g) = Some (st1, g1)" "gw_rel E st1 (dn @ [c], None)" by auto
      have 5: "(7 + length (delivery_to d) \<le> gRemainingSize st) = False" using 4(4) by (simp add: rem)
      from put_body_fresh_gw [OF assms(1,2) c(2), of "\<lambda>s. None" g1] 4 show ?thesis
        unfolding Pair Some two put_body_def [of E "put_body E (\<lambda>s. None) block"] unf(2-)
        by (simp add: c(1) di full_def nonFit_def Let_def 5)
    qed
  qed
qed

lemma PutI2NPMsg_short_gw:
  assumes "genv_ok E" and "block_rel block d i data" and "gw_rel E st (dn, Some c)"
    and "room (Some c) < full_len d data" and "full_len d data \<le> 999"
    and "bdata block = Some msg" and "moffset msg + 1003 \<le> length (mbuf msg)"
  shows "\<exists>st' g' x. PutI2NPMsg E block (st, g) = Some (st', g') \<and> length data \<le> length x \<and>
    length (delivery_to d) + 7 + length x = 1003 \<and>
    gw_rel E st' (dn @ [c, [FirstFrag d i x]], None)"
proof -
  from assms(2,6) have msg: "msg_content msg = Some data" "GetMsgID msg = Some i" "moffset msg \<le> mlen msg"
    "delivery_ok d" by (auto simp: block_rel_def)
  note di = delivery_instructions_eq [OF assms(2)]
  define n where "n = 1003 - (length (delivery_to d) + 7)"
  define x where "x = take n (drop (GetBuffer msg) (mbuf msg))"
  have rd: "mem_read (GetBuffer msg) n (mbuf msg) = Some x" and x: "length x = n"
    using assms(7) by (auto simp: mem_read_def x_def n_def GetBuffer_def)
  have dl: "length (delivery_to d) \<le> 36" by (rule delivery_to_le [OF msg(4)])
  have none: "(gCurrent (fst (st, g)) = None) = False" using assms(3) by (auto simp: gw_rel_def)
  have rem: "gRemainingSize st = room (Some c)" using assms(3) by (simp add: gw_rel_def)
  have full: "length (delivery_instructions block) + GetLength msg + 2 = full_len d data"
    by (simp add: di full_len_def msg_content_Some(1) [OF msg(1,3)])
  obtain j where j: "buf32toh (GetHeader msg + 1) (mbuf msg) = Some j" "le_bytes 4 j = be_bytes 4 i"
    by (rule GetMsgID_raw [OF msg(2)])
  obtain st1 g1 where r: "map_option (CreateCurrentTunnelDataMessage E)
      (CompleteCurrentTunnelDataMessage E (st, g)) = Some (st1, g1)" "gw_rel E st1 (dn @ [c], Some [])"
    using renew_gw [OF assms(1,3), of g] by auto
  have rem1: "gRemainingSize st1 = 1003" using r(2) by (simp add: gw_rel_def room_def)
  have fit: "(length (delivery_instructions block) + 6 \<le> gRemainingSize st1) = True"
    using dl by (simp add: rem1 di)
  have sz: "gRemainingSize st1 - length (delivery_instructions block) - 6 = n"
    by (simp add: rem1 di n_def)
  have nonFit: "((full_len d data + full_len d data div 1003 * 7) mod 1003 = 0 \<or>
      (full_len d data + full_len d data div 1003 * 7) mod 1003 > room (Some c)) = True"
    using assms(4,5) by simp
  have gt: "(full_len d data \<le> room (Some c)) = False" using assms(4) by simp
  have le: "length data \<le> n" using assms(5) by (simp add: n_def full_len_def)
  have "length (delivery_to d) + 7 + length x = room (Some [])" using dl x by (simp add: n_def room_def)
  from put_first_gw [OF assms(1) r(2) this di j(2), of g1, unfolded x] obtain st3 g3 where
    f: "do { st2 \<leftarrow> append_current
          ((hd (delivery_instructions block) OR 0x08) # tl (delivery_instructions block) @
             le_bytes 4 j @ be_bytes 2 (of_nat n :: u16) @ x) st1;
           CompleteCurrentTunnelDataMessage E (st2, g1) } = Some (st3, g3)"
      "gw_rel E st3 ((dn @ [c]) @ [[] @ [FirstFrag d i x]], None)" by blast
  have "put_follow_on E msg j 1 n s = Some s" for s
    using le by (subst put_follow_on.simps) (simp add: msg_content_Some(1) [OF msg(1,3)])
  then have "PutI2NPMsg E block (st, g) = Some (st3, g3)"
    unfolding PutI2NPMsg_two put_body_def [of E "put_body E (\<lambda>s. None) block"] none if_False
      not_False_eq_True if_True Let_def prod.case assms(6) Option.bind.bind_lunit full rem gt nonFit r(1)
      fit j(1) sz rd Option.bind_assoc [symmetric] f(1) .
  then show ?thesis using f(2) le x dl by (intro exI [of _ st3] exI [of _ g3] exI [of _ x]) (simp add: n_def)
qed

section \<open>What the gateway promises\<close>

lemma new_gw:
  assumes "genv_ok E"
  shows "gw_rel E (fst (newTunnelGatewayBuffer E tid g)) ([], None)"
proof -
  obtain r g' where r: "genBlock E 1003 g = (r, g')" by (cases "genBlock E 1003 g")
  then have "length r = 1003" using assms by (metis genv_ok_def fst_conv)
  with r show ?thesis by (auto simp: newTunnelGatewayBuffer_def gw_rel_def split: if_splits)
qed

text \<open>A concrete environment and a message for evaluation.\<close>

definition demo_genv :: "unit genv" where
  "demo_genv = \<lparr>gsha = (\<lambda>x. replicate 32 0), genBlock = (\<lambda>n g. (replicate n 1, g)),
     genWord32 = (\<lambda>m g. (0, g)), genMsgID = (\<lambda>g. (7, g)), allocAddr = (\<lambda>g. (0, g)), clock = (\<lambda>g. (0, g))\<rparr>"

definition demo_msg :: "nat \<Rightarrow> I2NPMessage" where
  "demo_msg n = \<lparr>mbuf = replicate 4112 1, mlen = 2 + n, moffset = 2, mmaxLen = 4096, mfrom = None\<rparr>"

definition demo_block :: "nat \<Rightarrow> TunnelMessageBlock" where
  "demo_block n = \<lparr>deliveryType = 0, bhash = [], btunnelID = 0, bdata = Some (demo_msg n)\<rparr>"

lemma demo_genv_ok: "genv_ok demo_genv"
  by (simp add: genv_ok_def demo_genv_def)

lemma of_be_demo: "of_be (replicate 4 1) = (0x01010101 :: u32)"
  by code_simp

lemma demo_block_rel:
  "n \<le> 4000 \<Longrightarrow> block_rel (demo_block n) DLocal 0x01010101 (replicate n 1)"
  using of_be_demo
  by (simp add: block_rel_def demo_block_def demo_msg_def msg_content_def i2np_access mem_read_def)

text \<open>
  C18. \<open>PutI2NPMsg\<close> refines the packing of fragments: from any state of the gateway that represents
  lists of fragments, and for any message for which there is no current tunnel message, or which fits
  the rest of the current one, or which takes more than 999 bytes with its delivery instructions
  (\<open>put_safe\<close>), it never leaves a buffer, terminates, and leaves a state that represents the packing
  \<open>abs_put\<close> of the message. In the excluded case, a message of at most 999 bytes that does not fit the
  rest of the current tunnel message, it does not refine the packing (next theorem). Every completed tunnel message is sealed (tunnel identifier, IV, checksum, nonzero padding, zero byte,
  fragments) and holds exactly the encoded fragments.
\<close>

theorem PutI2NPMsg_refines:
  assumes "genv_ok E" and "block_rel block d i data" and "gw_rel E st a" and "put_safe d data a"
  shows "\<exists>st' g'. PutI2NPMsg E block (st, g) = Some (st', g') \<and> gw_rel E st' (abs_put d i data a)"
  by (rule PutI2NPMsg_gw [OF assms])

theorem PutI2NPMsg_refines_witness:
  "\<exists>st'. PutI2NPMsg demo_genv (demo_block 1500) (fst (newTunnelGatewayBuffer demo_genv 5 ()), ()) = Some (st', ()) \<and>
     gw_rel demo_genv st'
       ([[FirstFrag DLocal 0x01010101 (replicate 996 1)]], Some [FollowOn 0x01010101 1 True (replicate 504 1)])"
proof -
  have 1: "put_safe DLocal (replicate 1500 1) ([], None)" by (simp add: put_safe_def)
  have 2: "abs_put DLocal 0x01010101 (replicate 1500 1) ([], None) =
      ([[FirstFrag DLocal 0x01010101 (replicate 996 1)]], Some [FollowOn 0x01010101 1 True (replicate 504 1)])"
    by (simp add: put_fresh_def put_split_def full_len_def room_def follow_frags.simps [of "0x01010101" "Suc 0"] store_cur_def)
  have "(1500::nat) \<le> 4000" by simp
  from PutI2NPMsg_refines [OF demo_genv_ok demo_block_rel [OF this] new_gw [OF demo_genv_ok] 1, of 5 "()" "()"]
  show ?thesis unfolding 2 by simp
qed

text \<open>
  C35. A message that with its delivery instructions takes at most 999 bytes, so that it would fit an
  empty tunnel message, but does not fit the rest of the current one, is lost: the gateway completes the current message, writes the message as a first fragment that is longer
  than the message itself, and never writes the follow-on fragment that would complete it. The
  fragment also carries bytes that lie behind the message in its buffer.
\<close>

theorem PutI2NPMsg_loses_short_message:
  assumes "genv_ok E" and "block_rel block d i data" and "gw_rel E st (dn, Some c)"
    and "room (Some c) < full_len d data" and "full_len d data \<le> 999"
    and "bdata block = Some msg" and "moffset msg + 1003 \<le> length (mbuf msg)"
  shows "\<exists>st' g' x. PutI2NPMsg E block (st, g) = Some (st', g') \<and> length data \<le> length x \<and>
    length (delivery_to d) + 7 + length x = 1003 \<and>
    gw_rel E st' (dn @ [c, [FirstFrag d i x]], None)"
  by (rule PutI2NPMsg_short_gw [OF assms])

theorem PutI2NPMsg_loses_short_message_witness:
  "\<exists>st st' x. gw_rel demo_genv st ([], Some [Whole DLocal (replicate 995 1)]) \<and>
     PutI2NPMsg demo_genv (demo_block 16) (st, ()) = Some (st', ()) \<and> length x = 996 \<and>
     gw_rel demo_genv st' ([[Whole DLocal (replicate 995 1)], [FirstFrag DLocal 0x01010101 x]], None)"
proof -
  let ?c = "[Whole DLocal (replicate 995 1)]"
  have "put_safe DLocal (replicate 995 1) ([], None)" by (simp add: put_safe_def)
  from PutI2NPMsg_gw [OF demo_genv_ok demo_block_rel [of 995] new_gw [OF demo_genv_ok] this, of 5 "()" "()"]
  obtain st where st: "gw_rel demo_genv st (abs_put DLocal 0x01010101 (replicate 995 1) ([], None))" by auto
  have "abs_put DLocal 0x01010101 (replicate 995 1) ([], None) = ([], Some ?c)"
    by (simp add: put_fresh_def full_len_def store_cur_def)
  with st have rel: "gw_rel demo_genv st ([], Some ?c)" by simp
  have 1: "room (Some ?c) < full_len DLocal (replicate 16 1)" "full_len DLocal (replicate 16 (1::byte)) \<le> 999"
    by (simp_all add: room_def full_len_def)
  have 2: "bdata (demo_block 16) = Some (demo_msg 16)" "moffset (demo_msg 16) + 1003 \<le> length (mbuf (demo_msg 16))"
    by (simp_all add: demo_block_def demo_msg_def)
  have "(16::nat) \<le> 4000" by simp
  from PutI2NPMsg_loses_short_message [OF demo_genv_ok demo_block_rel [OF this] rel 1 2, of "()"] rel
  show ?thesis by auto
qed

end
