(* ===== verification/Tunnel_Endpoint.thy ===== *)
theory Tunnel_Endpoint
  imports Tunnel_Gateway
begin

text \<open>
  The exit of a tunnel: \<open>src/core/tunnel/TunnelEndpoint.cpp\<close>. An endpoint verifies the checksum of a
  decrypted tunnel message, parses its fragments and reassembles fragmented messages; fragments that
  arrive too early wait in a second map. The member functions that reassemble return the blocks they
  pass to \<open>HandleNextMessage\<close>, in order; \<open>HandleDecryptedTunnelDataMsg\<close> runs it on them.
\<close>

record TunnelMessageBlockEx = TunnelMessageBlock +
  nextFragmentNum :: byte

record Fragment =
  fragmentNum :: byte
  fisLast :: bool
  fdata :: I2NPMessage

record TunnelEndpoint =
  m_IncompleteMessages :: "u32 \<rightharpoonup> TunnelMessageBlockEx"
  m_OutOfSequenceFragments :: "u32 \<rightharpoonup> Fragment"
  m_IsInbound :: bool
  m_NumReceivedBytes :: nat

definition newTunnelEndpoint :: "bool \<Rightarrow> TunnelEndpoint" where
  "newTunnelEndpoint isInbound =
     \<lparr>m_IncompleteMessages = Map.empty, m_OutOfSequenceFragments = Map.empty, m_IsInbound = isInbound,
      m_NumReceivedBytes = 0\<rparr>"

text \<open>What \<open>HandleNextMessage\<close> does with a message: the effects on the rest of the router.\<close>

datatype endpoint_action =
    HandleI2NPMessage I2NPMessage
  | SendMessage bytes I2NPMessage
  | DropForeign
  | UnknownDelivery

definition HandleNextMessage ::
    "'g genv \<Rightarrow> bytes \<Rightarrow> bool \<Rightarrow> TunnelMessageBlockEx \<Rightarrow> 'g \<Rightarrow> (endpoint_action \<times> 'g) option" where
  "HandleNextMessage E ourIdent isInbound block g = do {
     msg \<leftarrow> bdata block;
     t \<leftarrow> GetTypeID msg;
     if deliveryType block = eDeliveryTypeLocal then Some (HandleI2NPMessage msg, g)
     else if deliveryType block = eDeliveryTypeTunnel then do {
       let (rnd, g1) = genMsgID E g;
       let (now, g2) = clock E g1;
       m \<leftarrow> CreateTunnelGatewayMsg \<lparr>sha256 = gsha E, rndWord = rnd, nowMs = now\<rparr> (btunnelID block) msg;
       Some (SendMessage (bhash block) m, g2)
     }
     else if deliveryType block = eDeliveryTypeRouter then
       (if bhash block = ourIdent then Some (HandleI2NPMessage msg, g)
        else if \<not> isInbound then Some (SendMessage (bhash block) msg, g)
        else Some (DropForeign, g))
     else Some (UnknownDelivery, g)
   }"

text \<open>Appending a fragment to the message collected so far, with the move to a large buffer.\<close>

definition append_fragment :: "I2NPMessage \<Rightarrow> I2NPMessage \<Rightarrow> I2NPMessage option" where
  "append_fragment msg frag = do {
     let sz = GetLength frag;
     d \<leftarrow> (if mlen msg + sz > mmaxLen msg then assign_msg NewI2NPMessage msg else Some msg);
     bs \<leftarrow> mem_read (GetBuffer frag) sz (mbuf frag);
     d' \<leftarrow> put_bytes (mlen d) bs d;
     Some (add_len sz d')
   }"

definition HandleOutOfSequenceFragment ::
    "u32 \<Rightarrow> TunnelMessageBlockEx \<Rightarrow> TunnelEndpoint \<Rightarrow> (TunnelMessageBlockEx list \<times> TunnelEndpoint) option" where
  "HandleOutOfSequenceFragment msgID msg ep =
     (case m_OutOfSequenceFragments ep msgID of
        None \<Rightarrow> Some ([], ep)
      | Some f \<Rightarrow>
          if fragmentNum f = nextFragmentNum msg then do {
            data \<leftarrow> bdata msg;
            d \<leftarrow> append_fragment data (fdata f);
            let msg1 = msg\<lparr>bdata := Some d\<rparr>;
            let ep1 = ep\<lparr>m_OutOfSequenceFragments := (m_OutOfSequenceFragments ep)(msgID := None)\<rparr>;
            if fisLast f then
              Some ([msg1], ep1\<lparr>m_IncompleteMessages := (m_IncompleteMessages ep1)(msgID := None)\<rparr>)
            else
              Some ([], ep1\<lparr>m_IncompleteMessages :=
                (m_IncompleteMessages ep1)(msgID \<mapsto> msg1\<lparr>nextFragmentNum := nextFragmentNum msg1 + 1\<rparr>)\<rparr>)
          } else Some ([], ep))"

definition AddOutOfSequenceFragment ::
    "u32 \<Rightarrow> byte \<Rightarrow> bool \<Rightarrow> I2NPMessage \<Rightarrow> TunnelEndpoint \<Rightarrow> TunnelEndpoint" where
  "AddOutOfSequenceFragment msgID num isLastFragment data ep =
     (if m_OutOfSequenceFragments ep msgID = None
      then ep\<lparr>m_OutOfSequenceFragments :=
             (m_OutOfSequenceFragments ep)(msgID \<mapsto> \<lparr>fragmentNum = num, fisLast = isLastFragment, fdata = data\<rparr>)\<rparr>
      else ep)"

definition HandleFollowOnFragment ::
    "u32 \<Rightarrow> bool \<Rightarrow> TunnelMessageBlockEx \<Rightarrow> TunnelEndpoint \<Rightarrow>
     (TunnelMessageBlockEx list \<times> TunnelEndpoint) option" where
  "HandleFollowOnFragment msgID isLastFragment m ep = do {
     frag \<leftarrow> bdata m;
     case m_IncompleteMessages ep msgID of
       Some msg \<Rightarrow>
         if nextFragmentNum m = nextFragmentNum msg then do {
           data \<leftarrow> bdata msg;
           if mlen data + GetLength frag < I2NP_MAX_MESSAGE_SIZE then do {
             d \<leftarrow> append_fragment data frag;
             let msg1 = msg\<lparr>bdata := Some d\<rparr>;
             if isLastFragment then
               Some ([msg1], ep\<lparr>m_IncompleteMessages := (m_IncompleteMessages ep)(msgID := None)\<rparr>)
             else
               let msg2 = msg1\<lparr>nextFragmentNum := nextFragmentNum msg1 + 1\<rparr>
               in HandleOutOfSequenceFragment msgID msg2
                    (ep\<lparr>m_IncompleteMessages := (m_IncompleteMessages ep)(msgID \<mapsto> msg2)\<rparr>)
           } else
             Some ([], ep\<lparr>m_IncompleteMessages := (m_IncompleteMessages ep)(msgID := None)\<rparr>)
         } else Some ([], AddOutOfSequenceFragment msgID (nextFragmentNum m) isLastFragment frag ep)
     | None \<Rightarrow> Some ([], AddOutOfSequenceFragment msgID (nextFragmentNum m) isLastFragment frag ep)
   }"

section \<open>Parsing a tunnel message\<close>

text \<open>
  The header of one fragment at position \<open>pos\<close>: its block (delivery fields of a first fragment), the
  message identifier, the fragment number, whether it is a follow-on fragment and whether it is the
  last, its size and the position of its data.
\<close>

record frag_header =
  fhBlock :: TunnelMessageBlockEx
  fhMsgID :: u32
  fhNum :: byte
  fhFollowOn :: bool
  fhLast :: bool
  fhSize :: u16
  fhPos :: nat

definition emptyBlock :: TunnelMessageBlockEx where
  "emptyBlock = \<lparr>deliveryType = 0, bhash = [], btunnelID = 0, bdata = None, nextFragmentNum = 0\<rparr>"

definition parse_delivery :: "byte \<Rightarrow> nat \<Rightarrow> bytes \<Rightarrow> (TunnelMessageBlockEx \<times> nat) option" where
  "parse_delivery flag pos buf = do {
     let t = drop_bit 5 flag AND 0x03;
     if t = eDeliveryTypeTunnel then do {
       tid \<leftarrow> bufbe32toh pos buf;
       h \<leftarrow> mem_read (pos + 4) 32 buf;
       Some (emptyBlock\<lparr>deliveryType := t, btunnelID := tid, bhash := h\<rparr>, pos + 36)
     } else if t = eDeliveryTypeRouter then do {
       h \<leftarrow> mem_read pos 32 buf;
       Some (emptyBlock\<lparr>deliveryType := t, bhash := h\<rparr>, pos + 32)
     } else Some (emptyBlock\<lparr>deliveryType := t\<rparr>, pos)
   }"

definition parse_header :: "nat \<Rightarrow> bytes \<Rightarrow> frag_header option" where
  "parse_header pos buf = do {
     flag \<leftarrow> mem_get pos buf;
     let isFollowOnFragment = (flag AND 0x80 \<noteq> 0);
     (m, msgID, num, isLast, p) \<leftarrow>
       (if \<not> isFollowOnFragment then do {
          (m, p) \<leftarrow> parse_delivery flag (pos + 1) buf;
          if flag AND 0x08 \<noteq> 0 then do {
            msgID \<leftarrow> bufbe32toh p buf;
            Some (m, msgID, 0, False, p + 4)
          } else Some (m, 0, 0, True, p)
        } else do {
          msgID \<leftarrow> bufbe32toh (pos + 1) buf;
          Some (emptyBlock, msgID, drop_bit 1 flag AND 0x3F, flag AND 0x01 \<noteq> 0, pos + 5)
        });
     sz \<leftarrow> bufbe16toh p buf;
     Some \<lparr>fhBlock = m, fhMsgID = msgID, fhNum = num, fhFollowOn = isFollowOnFragment, fhLast = isLast,
           fhSize = sz, fhPos = p + 2\<rparr>
   }"

definition process_fragment ::
    "frag_header \<Rightarrow> I2NPMessage \<Rightarrow> TunnelEndpoint \<Rightarrow> (TunnelMessageBlockEx list \<times> TunnelEndpoint) option" where
  "process_fragment h data ep =
     (let m = (fhBlock h)\<lparr>bdata := Some data\<rparr>
      in if \<not> fhFollowOn h \<and> fhLast h then Some ([m], ep)
         else if fhMsgID h \<noteq> 0 then
           (if \<not> fhFollowOn h then
              let m1 = m\<lparr>nextFragmentNum := 1\<rparr>
              in if m_IncompleteMessages ep (fhMsgID h) = None
                 then HandleOutOfSequenceFragment (fhMsgID h) m1
                   (ep\<lparr>m_IncompleteMessages := (m_IncompleteMessages ep)(fhMsgID h \<mapsto> m1)\<rparr>)
                 else Some ([], ep)
            else HandleFollowOnFragment (fhMsgID h) (fhLast h) (m\<lparr>nextFragmentNum := fhNum h\<rparr>) ep)
         else Some ([], ep))"

text \<open>The loop over the fragments: \<open>stop\<close> is the end of the tunnel message in its buffer.\<close>

definition fragment_data :: "frag_header \<Rightarrow> nat \<Rightarrow> I2NPMessage \<Rightarrow> I2NPMessage option" where
  "fragment_data h stop msg =
     (let msg1 = msg\<lparr>moffset := fhPos h, mlen := fhPos h + unat (fhSize h)\<rparr>
      in if fhPos h + unat (fhSize h) < stop
         then assign_msg
           (NewI2NPShortMessage\<lparr>moffset := moffset NewI2NPShortMessage + TUNNEL_GATEWAY_HEADER_SIZE,
              mlen := mlen NewI2NPShortMessage + TUNNEL_GATEWAY_HEADER_SIZE\<rparr>) msg1
         else Some msg1)"

lemma parse_header_pos: "parse_header pos buf = Some h \<Longrightarrow> pos < fhPos h"
  by (auto simp: parse_header_def parse_delivery_def Let_def split: option.splits if_splits bind_splits)

function process_fragments ::
    "nat \<Rightarrow> nat \<Rightarrow> I2NPMessage \<Rightarrow> TunnelEndpoint \<Rightarrow> (TunnelMessageBlockEx list \<times> TunnelEndpoint) option" where
  "process_fragments stop pos msg ep =
     (if pos < stop then
        (case parse_header pos (mbuf msg) of
           None \<Rightarrow> None
         | Some h \<Rightarrow>
             (case fragment_data h stop msg of
                None \<Rightarrow> None
              | Some data \<Rightarrow>
                  (case process_fragment h data ep of
                     None \<Rightarrow> None
                   | Some (out, ep1) \<Rightarrow>
                       map_option (\<lambda>(outs, ep2). (out @ outs, ep2))
                         (process_fragments stop (fhPos h + unat (fhSize h)) msg ep1))))
      else Some ([], ep))"
  by pat_completeness auto
termination
  by (relation "measure (\<lambda>(stop, pos, msg, ep). stop - pos)")
     (auto dest!: parse_header_pos)

declare process_fragments.simps [simp del]

definition memchr0 :: "nat \<Rightarrow> nat \<Rightarrow> bytes \<Rightarrow> nat option option" where
  "memchr0 i n buf = do {
     region \<leftarrow> mem_read i n buf;
     let k = length (takeWhile (\<lambda>b. b \<noteq> 0) region);
     Some (if k < n then Some (i + k) else None)
   }"

fun handle_all ::
    "'g genv \<Rightarrow> bytes \<Rightarrow> bool \<Rightarrow> TunnelMessageBlockEx list \<Rightarrow> 'g \<Rightarrow> (endpoint_action list \<times> 'g) option" where
  "handle_all E ourIdent inb [] g = Some ([], g)"
| "handle_all E ourIdent inb (b # bs) g = do {
     (a, g1) \<leftarrow> HandleNextMessage E ourIdent inb b g;
     (as, g2) \<leftarrow> handle_all E ourIdent inb bs g1;
     Some (a # as, g2)
   }"

text \<open>
  Receiving a decrypted tunnel message: the blocks it completes, before \<open>HandleNextMessage\<close>. The
  loop runs inside the buffer of the message, into which the IV has been copied behind the payload.
\<close>

definition receive_blocks ::
    "(bytes \<Rightarrow> bytes) \<Rightarrow> I2NPMessage \<Rightarrow> TunnelEndpoint \<Rightarrow> (TunnelMessageBlockEx list \<times> TunnelEndpoint) option" where
  "receive_blocks sha msg ep0 = do {
     let ep = ep0\<lparr>m_NumReceivedBytes := m_NumReceivedBytes ep0 + TUNNEL_DATA_MSG_SIZE\<rparr>;
     let decrypted = GetPayload msg + 20;
     zero \<leftarrow> memchr0 (decrypted + 4) (TUNNEL_DATA_ENCRYPTED_SIZE - 4) (mbuf msg);
     case zero of
       None \<Rightarrow> Some ([], ep)
     | Some z \<Rightarrow> do {
         let frag = z + 1;
         iv \<leftarrow> mem_read (GetPayload msg + 4) 16 (mbuf msg);
         msg1 \<leftarrow> put_bytes (GetPayload msg + TUNNEL_DATA_MSG_SIZE) iv msg;
         hashed \<leftarrow> mem_read frag (TUNNEL_DATA_MSG_SIZE - (frag - GetPayload msg) + 16) (mbuf msg1);
         ck \<leftarrow> mem_read decrypted 4 (mbuf msg1);
         if take 4 (sha hashed) \<noteq> ck then Some ([], ep)
         else process_fragments (decrypted + TUNNEL_DATA_ENCRYPTED_SIZE) frag msg1 ep
       }
   }"

definition HandleDecryptedTunnelDataMsg ::
    "'g genv \<Rightarrow> bytes \<Rightarrow> I2NPMessage \<Rightarrow> TunnelEndpoint \<Rightarrow> 'g \<Rightarrow>
     (endpoint_action list \<times> TunnelEndpoint \<times> 'g) option" where
  "HandleDecryptedTunnelDataMsg E ourIdent msg ep g = do {
     (blocks, ep1) \<leftarrow> receive_blocks (gsha E) msg ep;
     (acts, g1) \<leftarrow> handle_all E ourIdent (m_IsInbound ep) blocks g;
     Some (acts, ep1, g1)
   }"

section \<open>Parsing what the gateway encodes\<close>

fun frag_ok :: "tfrag \<Rightarrow> bool" where
  "frag_ok (Whole d x) = (delivery_ok d \<and> length x < 65536)"
| "frag_ok (FirstFrag d i x) = (delivery_ok d \<and> length x < 65536)"
| "frag_ok (FollowOn i k l x) = (k < 64 \<and> length x < 65536)"

fun frag_bytes :: "tfrag \<Rightarrow> bytes" where
  "frag_bytes (Whole d x) = x"
| "frag_bytes (FirstFrag d i x) = x"
| "frag_bytes (FollowOn i k l x) = x"

definition block_to :: "delivery \<Rightarrow> TunnelMessageBlockEx" where
  "block_to d = emptyBlock\<lparr>deliveryType := delivery_type d,
     btunnelID := (case d of DTunnel t h \<Rightarrow> t | _ \<Rightarrow> 0),
     bhash := (case d of DTunnel t h \<Rightarrow> h | DRouter h \<Rightarrow> h | DLocal \<Rightarrow> [])\<rparr>"

fun header_of :: "tfrag \<Rightarrow> nat \<Rightarrow> frag_header" where
  "header_of (Whole d x) p = \<lparr>fhBlock = block_to d, fhMsgID = 0, fhNum = 0, fhFollowOn = False,
     fhLast = True, fhSize = of_nat (length x), fhPos = p\<rparr>"
| "header_of (FirstFrag d i x) p = \<lparr>fhBlock = block_to d, fhMsgID = i, fhNum = 0, fhFollowOn = False,
     fhLast = False, fhSize = of_nat (length x), fhPos = p\<rparr>"
| "header_of (FollowOn i k l x) p = \<lparr>fhBlock = emptyBlock, fhMsgID = i, fhNum = of_nat k, fhFollowOn = True,
     fhLast = l, fhSize = of_nat (length x), fhPos = p\<rparr>"

lemma follow_flag:
  assumes "k < 64"
  shows "(((0x80 OR push_bit 1 (of_nat k)) OR (if l then 0x01 else 0)) :: byte) AND 0x80 \<noteq> 0"
    and "drop_bit 1 (((0x80 OR push_bit 1 (of_nat k)) OR (if l then 0x01 else 0)) :: byte) AND 0x3F = of_nat k"
    and "(((0x80 OR push_bit 1 (of_nat k)) OR (if l then 0x01 else 0)) :: byte) AND 0x01 \<noteq> 0 \<longleftrightarrow> l"
proof -
  have "k \<in> {..<64}" using assms by simp
  then have "k \<in> set [0..<64]" by simp
  moreover have "\<forall>k \<in> set [0..<64]. \<forall>l.
      (((0x80 OR push_bit 1 (of_nat k)) OR (if l then 0x01 else 0)) :: byte) AND 0x80 \<noteq> 0 \<and>
      drop_bit 1 (((0x80 OR push_bit 1 (of_nat k)) OR (if l then 0x01 else 0)) :: byte) AND 0x3F = of_nat k \<and>
      ((((0x80 OR push_bit 1 (of_nat k)) OR (if l then 0x01 else 0)) :: byte) AND 0x01 \<noteq> 0 \<longleftrightarrow> l)"
    by code_simp
  ultimately show "(((0x80 OR push_bit 1 (of_nat k)) OR (if l then 0x01 else 0)) :: byte) AND 0x80 \<noteq> 0"
    and "drop_bit 1 (((0x80 OR push_bit 1 (of_nat k)) OR (if l then 0x01 else 0)) :: byte) AND 0x3F = of_nat k"
    and "(((0x80 OR push_bit 1 (of_nat k)) OR (if l then 0x01 else 0)) :: byte) AND 0x01 \<noteq> 0 \<longleftrightarrow> l"
    by blast+
qed

lemma parse_delivery_eq:
  assumes "delivery_ok d" and "flag = push_bit 5 (delivery_type d) \<or> flag = push_bit 5 (delivery_type d) OR 0x08"
    and "p = length pre"
  shows "parse_delivery flag p (pre @ delivery_to d @ post) = Some (block_to d, p + length (delivery_to d))"
proof -
  have t: "drop_bit 5 flag AND 3 = delivery_type d" using assms(2) by (cases d) auto
  show ?thesis
  proof (cases d)
    case DLocal
    then show ?thesis using t by (simp add: parse_delivery_def block_to_def emptyBlock_def)
  next
    case (DTunnel tid h)
    then have "mem_read p 4 (pre @ delivery_to d @ post) = Some (be_bytes 4 tid)"
      and "mem_read (p + 4) 32 (pre @ delivery_to d @ post) = Some h"
      using mem_read_append [of p pre 4 "be_bytes 4 tid" "h @ post"]
        mem_read_append [of "p + 4" "pre @ be_bytes 4 tid" 32 h post] assms by auto
    then show ?thesis using t DTunnel assms(1)
      by (simp add: parse_delivery_def block_to_def emptyBlock_def bufbe32toh_eq)
  next
    case (DRouter h)
    then have "mem_read p 32 (pre @ delivery_to d @ post) = Some h"
      using mem_read_append [of p pre 32 h post] assms by auto
    then show ?thesis using t DRouter assms(1)
      by (simp add: parse_delivery_def block_to_def emptyBlock_def)
  qed
qed

lemma first_flag:
  "push_bit 5 (delivery_type d) AND 0x80 = 0" "push_bit 5 (delivery_type d) AND 0x08 = 0"
  "(push_bit 5 (delivery_type d) OR 0x08) AND 0x80 = 0" "(push_bit 5 (delivery_type d) OR 0x08) AND 0x08 \<noteq> 0"
  by (cases d; simp)+

lemma be16_read:
  "p = length pre \<Longrightarrow> bufbe16toh p (pre @ field16 x @ post) = Some (of_nat (length x))"
  using mem_read_append [of p pre 2 "be_bytes 2 (of_nat (length x) :: u16)" "x @ post"]
  by (simp add: bufbe16toh_eq field16_def)

lemma be32_read: "p = length pre \<Longrightarrow> bufbe32toh p (pre @ be_bytes 4 i @ post) = Some i"
  using mem_read_append [of p pre 4 "be_bytes 4 i" post] by (simp add: bufbe32toh_eq)

lemma parse_header_eq:
  assumes "frag_ok f" and "p = length pre"
  shows "parse_header p (pre @ enc_frag f @ post) =
    Some (header_of f (p + (length (enc_frag f) - length (frag_bytes f))))"
proof (cases f)
  case (Whole d x)
  let ?fl = "push_bit 5 (delivery_type d)"
  have 1: "parse_delivery ?fl (p + 1) (pre @ ?fl # delivery_to d @ field16 x @ post) =
      Some (block_to d, p + 1 + length (delivery_to d))"
    using parse_delivery_eq [of d ?fl "p + 1" "pre @ [?fl]" "field16 x @ post"] assms Whole by simp
  have 2: "bufbe16toh (p + 1 + length (delivery_to d)) (pre @ ?fl # delivery_to d @ field16 x @ post) =
      Some (of_nat (length x))"
    using be16_read [of _ "pre @ ?fl # delivery_to d" x post] assms by simp
  have 3: "mem_get p (pre @ ?fl # delivery_to d @ field16 x @ post) = Some ?fl"
    using mem_get_append assms(2) by blast
  show ?thesis
    using 1 2 3 by (simp add: Whole parse_header_def first_flag Let_def)
next
  case (FirstFrag d i x)
  let ?fl = "push_bit 5 (delivery_type d) OR 0x08"
  have 1: "parse_delivery ?fl (p + 1) (pre @ ?fl # delivery_to d @ be_bytes 4 i @ field16 x @ post) =
      Some (block_to d, p + 1 + length (delivery_to d))"
    using parse_delivery_eq [of d ?fl "p + 1" "pre @ [?fl]" "be_bytes 4 i @ field16 x @ post"] assms FirstFrag by simp
  have 2: "bufbe32toh (p + 1 + length (delivery_to d)) (pre @ ?fl # delivery_to d @ be_bytes 4 i @ field16 x @ post) =
      Some i"
    using be32_read [of _ "pre @ ?fl # delivery_to d" i "field16 x @ post"] assms by simp
  have 3: "bufbe16toh (p + 1 + length (delivery_to d) + 4) (pre @ ?fl # delivery_to d @ be_bytes 4 i @ field16 x @ post) =
      Some (of_nat (length x))"
    using be16_read [of "p + 1 + length (delivery_to d) + 4" "pre @ ?fl # delivery_to d @ be_bytes 4 i" x post] assms by simp
  have 4: "mem_get p (pre @ ?fl # delivery_to d @ be_bytes 4 i @ field16 x @ post) = Some ?fl"
    using mem_get_append assms(2) by blast
  show ?thesis
    using 1 2 3 4 by (simp add: FirstFrag parse_header_def first_flag Let_def)
next
  case (FollowOn i k l x)
  let ?fl = "(0x80 OR push_bit 1 (of_nat k)) OR (if l then 0x01 else 0) :: byte"
  have k: "k < 64" using assms(1) FollowOn by simp
  have 2: "bufbe32toh (p + 1) (pre @ ?fl # be_bytes 4 i @ field16 x @ post) = Some i"
    using be32_read [of "p + 1" "pre @ [?fl]" i "field16 x @ post"] assms by simp
  have 3: "bufbe16toh (p + 5) (pre @ ?fl # be_bytes 4 i @ field16 x @ post) = Some (of_nat (length x))"
    using be16_read [of _ "pre @ ?fl # be_bytes 4 i" x post] assms by simp
  have 4: "mem_get p (pre @ ?fl # be_bytes 4 i @ field16 x @ post) = Some ?fl"
    using mem_get_append assms(2) by blast
  define fl where "fl = ?fl"
  note fl = follow_flag [OF k, of l, folded fl_def]
  show ?thesis
    using 2 3 4 fl unfolding FollowOn enc_frag.simps fl_def [symmetric] by (simp add: parse_header_def Let_def)
qed

section \<open>Reassembly as a machine on fragments\<close>

text \<open>
  The abstract endpoint keeps, for each identifier, the delivery, the bytes collected and the next
  fragment number of an incomplete message, and at most one fragment that came too early.
\<close>

type_synonym abs_ep = "(u32 \<rightharpoonup> delivery \<times> bytes \<times> nat) \<times> (u32 \<rightharpoonup> nat \<times> bool \<times> bytes)"

definition abs_early :: "u32 \<Rightarrow> delivery \<Rightarrow> bytes \<Rightarrow> nat \<Rightarrow> abs_ep \<Rightarrow> (delivery \<times> bytes) list \<times> abs_ep" where
  "abs_early i d b n a =
     (case snd a i of
        Some (k, l, x) \<Rightarrow>
          if k = n then
            if l then ([(d, b @ x)], (fst a)(i := None), (snd a)(i := None))
            else ([], (fst a)(i \<mapsto> (d, b @ x, n + 1)), (snd a)(i := None))
          else ([], (fst a)(i \<mapsto> (d, b, n)), snd a)
      | None \<Rightarrow> ([], (fst a)(i \<mapsto> (d, b, n)), snd a))"

definition abs_save :: "u32 \<Rightarrow> nat \<Rightarrow> bool \<Rightarrow> bytes \<Rightarrow> abs_ep \<Rightarrow> abs_ep" where
  "abs_save i k l x a = (if snd a i = None then (fst a, (snd a)(i \<mapsto> (k, l, x))) else a)"

fun abs_recv :: "tfrag \<Rightarrow> abs_ep \<Rightarrow> (delivery \<times> bytes) list \<times> abs_ep" where
  "abs_recv (Whole d x) a = ([(d, x)], a)"
| "abs_recv (FirstFrag d i x) a =
     (if i \<noteq> 0 \<and> fst a i = None then abs_early i d x 1 a else ([], a))"
| "abs_recv (FollowOn i k l x) a =
     (if i = 0 then ([], a)
      else case fst a i of
        Some (d, b, n) \<Rightarrow>
          if k = n then
            if l then ([(d, b @ x)], (fst a)(i := None), snd a)
            else abs_early i d (b @ x) (n + 1) a
          else ([], abs_save i k l x a)
      | None \<Rightarrow> ([], abs_save i k l x a))"

fun abs_recvs :: "tfrag list \<Rightarrow> abs_ep \<Rightarrow> (delivery \<times> bytes) list \<times> abs_ep" where
  "abs_recvs [] a = ([], a)"
| "abs_recvs (f # fs) a =
     (let (o1, a1) = abs_recv f a; (o2, a2) = abs_recvs fs a1 in (o1 @ o2, a2))"

text \<open>Fragments that fit a tunnel message, and messages well below the size limit of I2NP.\<close>

fun recv_fits :: "tfrag \<Rightarrow> abs_ep \<Rightarrow> bool" where
  "recv_fits (Whole d x) a = True"
| "recv_fits (FirstFrag d i x) a = (length x \<le> 1003)"
| "recv_fits (FollowOn i k l x) a =
     (length x \<le> 1003 \<and> (case fst a i of None \<Rightarrow> True | Some (d, b, n) \<Rightarrow> length b \<le> 29000))"

fun recvs_fit :: "tfrag list \<Rightarrow> abs_ep \<Rightarrow> bool" where
  "recvs_fit [] a = True"
| "recvs_fit (f # fs) a = (recv_fits f a \<and> recvs_fit fs (snd (abs_recv f a)))"

definition data_is :: "I2NPMessage \<Rightarrow> bytes \<Rightarrow> bool" where
  "data_is m b \<longleftrightarrow> (\<exists>pre post. mbuf m = pre @ b @ post \<and> length pre = moffset m) \<and>
     mlen m = moffset m + length b \<and> moffset m \<le> 1200 \<and> mmaxLen m = 4096 \<and> 4112 \<le> length (mbuf m)"

definition block_is :: "TunnelMessageBlockEx \<Rightarrow> delivery \<times> bytes \<Rightarrow> bool" where
  "block_is blk db \<longleftrightarrow> delivery_ok (fst db) \<and>
     deliveryType blk = delivery_type (fst db) \<and>
     (case fst db of DLocal \<Rightarrow> True | DTunnel t h \<Rightarrow> btunnelID blk = t \<and> bhash blk = h | DRouter h \<Rightarrow> bhash blk = h) \<and>
     (\<exists>m. bdata blk = Some m \<and> data_is m (snd db))"

definition inc_is :: "TunnelMessageBlockEx \<Rightarrow> delivery \<times> bytes \<times> nat \<Rightarrow> bool" where
  "inc_is blk t \<longleftrightarrow> (case t of (d, b, n) \<Rightarrow> block_is blk (d, b) \<and> nextFragmentNum blk = of_nat n \<and> n \<le> 64)"

definition early_is :: "Fragment \<Rightarrow> nat \<times> bool \<times> bytes \<Rightarrow> bool" where
  "early_is f t \<longleftrightarrow> (case t of (k, l, x) \<Rightarrow>
     fragmentNum f = of_nat k \<and> k < 64 \<and> fisLast f = l \<and> data_is (fdata f) x \<and> length x \<le> 1003)"

definition ep_rel :: "TunnelEndpoint \<Rightarrow> abs_ep \<Rightarrow> bool" where
  "ep_rel ep a \<longleftrightarrow>
     (\<forall>i. rel_option inc_is (m_IncompleteMessages ep i) (fst a i)) \<and>
     (\<forall>i. rel_option early_is (m_OutOfSequenceFragments ep i) (snd a i))"

lemma ep_relD:
  assumes "ep_rel ep a"
  shows "rel_option inc_is (m_IncompleteMessages ep i) (fst a i)"
    and "rel_option early_is (m_OutOfSequenceFragments ep i) (snd a i)"
  using assms by (auto simp: ep_rel_def)

lemma ep_rel_upd:
  assumes "ep_rel ep a"
  shows "inc_is b t \<Longrightarrow> ep_rel (ep\<lparr>m_IncompleteMessages := (m_IncompleteMessages ep)(i \<mapsto> b)\<rparr>) ((fst a)(i \<mapsto> t), snd a)"
    and "ep_rel (ep\<lparr>m_IncompleteMessages := (m_IncompleteMessages ep)(i := None)\<rparr>) ((fst a)(i := None), snd a)"
    and "early_is f e \<Longrightarrow> ep_rel (ep\<lparr>m_OutOfSequenceFragments := (m_OutOfSequenceFragments ep)(i \<mapsto> f)\<rparr>) (fst a, (snd a)(i \<mapsto> e))"
    and "ep_rel (ep\<lparr>m_OutOfSequenceFragments := (m_OutOfSequenceFragments ep)(i := None)\<rparr>) (fst a, (snd a)(i := None))"
  using assms by (simp_all add: ep_rel_def)

lemma data_isE:
  assumes "data_is m b"
  obtains pre post where "mbuf m = pre @ b @ post" "length pre = moffset m" "mlen m = moffset m + length b"
    "moffset m \<le> 1200" "mmaxLen m = 4096" "4112 \<le> length (mbuf m)"
  using assms by (auto simp: data_is_def)

lemma data_is_read:
  assumes "data_is m b"
  shows "GetLength m = length b" and "mem_read (GetBuffer m) (length b) (mbuf m) = Some b"
  using assms by (auto elim!: data_isE simp: GetLength_def GetBuffer_def intro!: mem_read_append)

lemma assign_new_is:
  assumes "data_is m b" and "length b \<le> 32782"
  shows "\<exists>m'. assign_msg NewI2NPMessage m = Some m' \<and> data_is m' b \<and> length (mbuf m') = 32784 \<and> moffset m' = 2"
proof -
  obtain pre post where m: "mbuf m = pre @ b @ post" "length pre = moffset m" "mlen m = moffset m + length b"
    "mmaxLen m = 4096"
    using assms(1) by (rule data_isE)
  have "mem_write 2 b (replicate 32784 0) = Some (replicate 2 0 @ b @ replicate (32782 - length b) 0)"
    using assms(2) by (simp add: mem_write_def)
  then show ?thesis
    using data_is_read [OF assms(1)] assms(2) m
    by (simp add: assign_msg_def NewI2NPMessage_def I2NPMessageBuffer_def data_is_def GetBuffer_def)
       (intro exI [of _ "[0, 0]"] exI [of _ "replicate (32782 - length b) 0"], simp add: numeral_2_eq_2)
qed

lemma append_fragment_is:
  assumes "data_is m b" and "data_is f x" and "length b + length x \<le> 32782"
  shows "\<exists>m'. append_fragment m f = Some m' \<and> data_is m' (b @ x)"
proof -
  have put: "\<exists>m'. put_bytes (mlen d) x d = Some m' \<and> data_is (add_len (length x) m') (b @ x)"
    if d0: "data_is d b" "mlen d + length x \<le> length (mbuf d)" for d
  proof -
    obtain pre post where d: "mbuf d = pre @ b @ post" "length pre = moffset d" "mlen d = moffset d + length b"
      "moffset d \<le> 1200" "mmaxLen d = 4096" "4112 \<le> length (mbuf d)" using d0(1) by (rule data_isE)
    then have "length post = length x + (length post - length x)" using d0(2) by simp
    then obtain old post' where post: "post = old @ post'" "length old = length x"
      unfolding length_eq_add_conv by auto
    have "put_bytes (mlen d) x d = Some (d\<lparr>mbuf := pre @ b @ x @ post'\<rparr>)"
      using mem_write_append [of "mlen d" "pre @ b" x old post'] d post
      by (simp add: put_bytes_def upd_buf_def)
    then show ?thesis using d post by (simp add: data_is_def add_len_def) (intro exI [of _ pre] exI [of _ post'], simp)
  qed
  show ?thesis
  proof (cases "mlen m + length x > mmaxLen m")
    case True
    then obtain d where d: "assign_msg NewI2NPMessage m = Some d" "data_is d b" "length (mbuf d) = 32784" "moffset d = 2"
      using assign_new_is [OF assms(1)] assms(3) by auto
    then have "mlen d + length x \<le> length (mbuf d)" using assms(3) by (simp add: data_is_def)
    from put [OF d(2) this] True d(1) show ?thesis
      by (auto simp: append_fragment_def Let_def data_is_read [OF assms(2)])
  next
    case False
    then have "mlen m + length x \<le> length (mbuf m)" using assms(1) by (simp add: data_is_def)
    from put [OF assms(1) this] False show ?thesis
      by (auto simp: append_fragment_def Let_def data_is_read [OF assms(2)])
  qed
qed

text \<open>Fragment numbers below 256 are represented exactly.\<close>

lemma of_nat_byte_eq: "k \<le> 64 \<Longrightarrow> n \<le> 64 \<Longrightarrow> (of_nat k :: byte) = of_nat n \<longleftrightarrow> k = n"
  by (simp add: word_of_nat_eq_iff take_bit_nat_eq_self)

definition sim :: "(TunnelMessageBlockEx list \<times> TunnelEndpoint) option \<Rightarrow> (delivery \<times> bytes) list \<times> abs_ep \<Rightarrow> bool" where
  "sim r r' \<longleftrightarrow> (\<exists>out ep. r = Some (out, ep) \<and> list_all2 block_is out (fst r') \<and> ep_rel ep (snd r'))"

lemma HandleOutOfSequenceFragment_sim:
  assumes "ep_rel ep a" and "inc_is msg (d, b, n)" and "length b \<le> 31000"
  shows "sim (HandleOutOfSequenceFragment i msg
      (ep\<lparr>m_IncompleteMessages := (m_IncompleteMessages ep)(i \<mapsto> msg)\<rparr>)) (abs_early i d b n a)"
proof -
  let ?ep = "ep\<lparr>m_IncompleteMessages := (m_IncompleteMessages ep)(i \<mapsto> msg)\<rparr>"
  note base = ep_rel_upd(1) [OF assms(1,2), of i]
  show ?thesis
  proof (cases "snd a i")
    case None
    then have "m_OutOfSequenceFragments ep i = None" using ep_relD(2) [OF assms(1), of i] by simp
    then show ?thesis using base
      by (simp add: sim_def HandleOutOfSequenceFragment_def abs_early_def None)
  next
    case (Some t)
    then obtain k l x f where t: "t = (k, l, x)" "m_OutOfSequenceFragments ep i = Some f" "early_is f (k, l, x)"
      using ep_relD(2) [OF assms(1), of i] by (cases t) (auto simp: option_rel_Some2)
    then have f: "fragmentNum f = of_nat k" "k < 64" "fisLast f = l" "data_is (fdata f) x" "length x \<le> 1003"
      by (simp_all add: early_is_def)
    have eq: "fragmentNum f = nextFragmentNum msg \<longleftrightarrow> k = n"
      using assms(2) f by (simp add: inc_is_def of_nat_byte_eq)
    show ?thesis
    proof (cases "k = n")
      case False
      then show ?thesis using base eq
        by (simp add: sim_def HandleOutOfSequenceFragment_def abs_early_def Some t)
    next
      case True
      obtain m where m: "bdata msg = Some m" "data_is m b" "block_is msg (d, b)" "nextFragmentNum msg = of_nat n"
        using assms(2) by (auto simp: inc_is_def block_is_def)
      obtain m' where m': "append_fragment m (fdata f) = Some m'" "data_is m' (b @ x)"
        using append_fragment_is [OF m(2) f(4)] f(5) assms(3) by auto
      have b': "block_is (msg\<lparr>bdata := Some m'\<rparr>) (d, b @ x)"
        using m(3) m'(2) by (auto simp: block_is_def split: delivery.splits)
      then have i': "inc_is (msg\<lparr>bdata := Some m', nextFragmentNum := of_nat (n + 1)\<rparr>) (d, b @ x, n + 1)"
        using True f(2) by (auto simp: inc_is_def block_is_def split: delivery.splits)
      note r = ep_rel_upd(4) [OF assms(1), of i]
      show ?thesis
        using True eq f(3) m(1,4) m'(1) b' ep_rel_upd(2) [OF r, of i] ep_rel_upd(1) [OF r i', of i]
        by (auto simp: sim_def HandleOutOfSequenceFragment_def abs_early_def Some t Let_def add.commute)
    qed
  qed
qed

lemma AddOutOfSequenceFragment_sim:
  assumes "ep_rel ep a" and "data_is m x" and "k < 64" and "length x \<le> 1003"
  shows "ep_rel (AddOutOfSequenceFragment i (of_nat k) l m ep) (abs_save i k l x a)"
proof -
  have "early_is \<lparr>fragmentNum = of_nat k, fisLast = l, fdata = m\<rparr> (k, l, x)"
    using assms by (simp add: early_is_def)
  moreover have "m_OutOfSequenceFragments ep i = None \<longleftrightarrow> snd a i = None"
    using ep_relD(2) [OF assms(1), of i] by (auto simp: option_rel_Some1)
  ultimately show ?thesis
    using ep_rel_upd(3) [OF assms(1)] assms(1) by (auto simp: AddOutOfSequenceFragment_def abs_save_def)
qed

lemma HandleFollowOnFragment_sim:
  assumes "ep_rel ep a" and "bdata blk = Some f" and "data_is f x" and "nextFragmentNum blk = of_nat k"
    and "k < 64" and "recv_fits (FollowOn i k l x) a" and "i \<noteq> 0"
  shows "sim (HandleFollowOnFragment i l blk ep) (abs_recv (FollowOn i k l x) a)"
proof -
  have x: "length x \<le> 1003" using assms(6) by simp
  note save = AddOutOfSequenceFragment_sim [OF assms(1,3,5) x, of i l]
  show ?thesis
  proof (cases "fst a i")
    case None
    then have "m_IncompleteMessages ep i = None" using ep_relD(1) [OF assms(1), of i] by simp
    then show ?thesis using save assms(2,4,7) by (simp add: sim_def HandleFollowOnFragment_def None)
  next
    case (Some t)
    then obtain d b n msg where t: "t = (d, b, n)" "m_IncompleteMessages ep i = Some msg" "inc_is msg (d, b, n)"
      using ep_relD(1) [OF assms(1), of i] by (cases t) (auto simp: option_rel_Some2)
    have eq: "nextFragmentNum blk = nextFragmentNum msg \<longleftrightarrow> k = n"
      using t(3) assms(4,5) by (simp add: inc_is_def of_nat_byte_eq)
    show ?thesis
    proof (cases "k = n")
      case False
      then show ?thesis using save eq assms(2,4,7) t by (simp add: sim_def HandleFollowOnFragment_def Some)
    next
      case True
      have b: "length b \<le> 29000" using assms(6) by (simp add: Some t)
      obtain m where m: "bdata msg = Some m" "data_is m b" "block_is msg (d, b)" "nextFragmentNum msg = of_nat n"
        using t(3) by (auto simp: inc_is_def block_is_def)
      have lim: "mlen m + GetLength f < 32768"
        using m(2) b x data_is_read(1) [OF assms(3)] by (simp add: data_is_def)
      obtain m' where m': "append_fragment m f = Some m'" "data_is m' (b @ x)"
        using append_fragment_is [OF m(2) assms(3)] x b by auto
      have b': "block_is (msg\<lparr>bdata := Some m'\<rparr>) (d, b @ x)"
        using m(3) m'(2) by (auto simp: block_is_def split: delivery.splits)
      have i': "inc_is (msg\<lparr>bdata := Some m', nextFragmentNum := nextFragmentNum msg + 1\<rparr>) (d, b @ x, n + 1)"
        using assms(5) True b' m(4) by (auto simp: inc_is_def block_is_def split: delivery.splits)
      have early: "sim (HandleOutOfSequenceFragment i (msg\<lparr>bdata := Some m', nextFragmentNum := nextFragmentNum msg + 1\<rparr>)
          (ep\<lparr>m_IncompleteMessages := (m_IncompleteMessages ep)
             (i \<mapsto> msg\<lparr>bdata := Some m', nextFragmentNum := nextFragmentNum msg + 1\<rparr>)\<rparr>))
          (abs_early i d (b @ x) (n + 1) a)"
        by (rule HandleOutOfSequenceFragment_sim [OF assms(1) i']) (use b x in simp)
      show ?thesis
        using True eq assms(2,7) m(1) m'(1) lim b' t early ep_rel_upd(2) [OF assms(1), of i]
        by (simp add: sim_def HandleFollowOnFragment_def Some Let_def)
    qed
  qed
qed

lemma process_fragment_sim:
  assumes "ep_rel ep a" and "frag_ok f" and "data_is m (frag_bytes f)" and "recv_fits f a"
  shows "sim (process_fragment (header_of f p) m ep) (abs_recv f a)"
proof (cases f)
  case (Whole d x)
  then show ?thesis using assms
    by (cases d) (simp_all add: sim_def process_fragment_def block_is_def block_to_def)
next
  case (FirstFrag d i x)
  have i: "inc_is ((block_to d)\<lparr>bdata := Some m, nextFragmentNum := 1\<rparr>) (d, x, 1)"
    using assms FirstFrag by (cases d) (simp_all add: inc_is_def block_is_def block_to_def)
  have "length x \<le> 31000" using assms(4) FirstFrag by simp
  from HandleOutOfSequenceFragment_sim [OF assms(1) i this, of i]
  have "sim (HandleOutOfSequenceFragment i ((block_to d)\<lparr>bdata := Some m, nextFragmentNum := 1\<rparr>)
      (ep\<lparr>m_IncompleteMessages := (m_IncompleteMessages ep)
         (i \<mapsto> (block_to d)\<lparr>bdata := Some m, nextFragmentNum := 1\<rparr>)\<rparr>)) (abs_early i d x 1 a)" .
  moreover have "m_IncompleteMessages ep i = None \<longleftrightarrow> fst a i = None"
    using ep_relD(1) [OF assms(1), of i] by (auto simp: option_rel_Some1)
  ultimately show ?thesis using FirstFrag assms(1)
    by (auto simp: process_fragment_def Let_def) (simp_all add: sim_def)
next
  case (FollowOn i k l x)
  show ?thesis
  proof (cases "i = 0")
    case True
    then show ?thesis using FollowOn assms(1) by (simp add: process_fragment_def sim_def)
  next
    case False
    have "sim (HandleFollowOnFragment i l (emptyBlock\<lparr>bdata := Some m, nextFragmentNum := of_nat k\<rparr>) ep)
        (abs_recv (FollowOn i k l x) a)"
      by (rule HandleFollowOnFragment_sim [OF assms(1)]) (use FollowOn assms False in auto)
    then show ?thesis using False FollowOn by (simp add: process_fragment_def Let_def)
  qed
qed

lemma fragment_data_is:
  assumes "mbuf msg = pre @ x @ post" and "length pre = p" and "fhPos h = p" and "unat (fhSize h) = length x"
    and "p + length x \<le> 1200" and "mmaxLen msg = 4096" and "4112 \<le> length (mbuf msg)"
  shows "\<exists>m. fragment_data h stop msg = Some m \<and> data_is m x"
proof -
  let ?m = "msg\<lparr>moffset := p, mlen := p + length x\<rparr>"
  have src: "data_is ?m x" using assms by (auto simp: data_is_def)
  let ?n = "NewI2NPShortMessage\<lparr>moffset := 8, mlen := 24\<rparr>"
  have "mem_write 8 x (mbuf ?n) = Some (replicate 8 0 @ x @ replicate (4104 - length x) 0)"
    using assms(5) by (simp add: mem_write_def NewI2NPShortMessage_def I2NPMessageBuffer_def)
  then have "\<exists>m. assign_msg ?n ?m = Some m \<and> data_is m x"
    using data_is_read [OF src] assms(5,6)
    by (simp add: assign_msg_def data_is_def GetBuffer_def GetLength_def NewI2NPShortMessage_def I2NPMessageBuffer_def)
       (intro exI [of _ "replicate 8 0"] exI [of _ "replicate (4104 - length x) 0"], simp)
  then show ?thesis
    using src assms(3,4) by (simp add: fragment_data_def Let_def NewI2NPShortMessage_def I2NPMessageBuffer_def)
qed

lemma header_of_simps [simp]:
  "fhPos (header_of f p) = p"
  "frag_ok f \<Longrightarrow> unat (fhSize (header_of f p)) = length (frag_bytes f)"
  by (cases f; simp add: unat_of_nat take_bit_nat_eq_self)+

lemma enc_frag_split: "\<exists>h. enc_frag f = h @ frag_bytes f \<and> 0 < length h"
  by (cases f) (auto simp: field16_def)

lemma process_fragments_sim:
  assumes "mbuf msg = pre @ enc_frags fs @ post" and "stop = length pre + length (enc_frags fs)"
    and "stop \<le> 1200" and "mmaxLen msg = 4096" and "4112 \<le> length (mbuf msg)"
    and "ep_rel ep a" and "list_all frag_ok fs" and "recvs_fit fs a"
  shows "sim (process_fragments stop (length pre) msg ep) (abs_recvs fs a)"
  using assms
proof (induction fs arbitrary: pre ep a)
  case Nil
  then show ?case by (subst process_fragments.simps) (simp add: sim_def)
next
  case (Cons f fs)
  obtain hd where hd: "enc_frag f = hd @ frag_bytes f" "0 < length hd" using enc_frag_split by blast
  have buf: "mbuf msg = pre @ enc_frag f @ enc_frags fs @ post" using Cons.prems(1) by simp
  have ok: "frag_ok f" and fits: "recv_fits f a" using Cons.prems(7,8) by simp_all
  let ?h = "header_of f (length pre + length hd)"
  have h: "parse_header (length pre) (mbuf msg) = Some ?h"
    using parse_header_eq [OF ok refl, of pre "enc_frags fs @ post"] by (simp add: buf hd)
  have lt: "length pre < stop" using Cons.prems(2) hd by simp
  obtain m where m: "fragment_data ?h stop msg = Some m" "data_is m (frag_bytes f)"
    using fragment_data_is [of msg "pre @ hd" "frag_bytes f" "enc_frags fs @ post" "length pre + length hd" ?h stop]
      Cons.prems(2-5) ok by (auto simp: buf hd)
  obtain out ep1 o1 a1 where s: "process_fragment ?h m ep = Some (out, ep1)" "abs_recv f a = (o1, a1)"
      "list_all2 block_is out o1" "ep_rel ep1 a1"
    using process_fragment_sim [OF Cons.prems(6) ok m(2) fits, of "length pre + length hd"]
    by (cases "abs_recv f a") (auto simp: sim_def)
  have nxt: "length pre + length hd + unat (fhSize ?h) = length pre + length (enc_frag f)" using ok by (simp add: hd)
  have "sim (process_fragments stop (length (pre @ enc_frag f)) msg ep1) (abs_recvs fs a1)"
    by (rule Cons.IH) (use Cons.prems s in \<open>simp_all add: buf\<close>)
  then show ?case
    using s lt
    by (subst process_fragments.simps)
       (fastforce simp: h m(1) nxt sim_def Let_def split: prod.splits intro!: list_all2_appendI)
qed

lemma sealed_zero:
  assumes "0 \<notin> set pad" and "length pad + length body = 1003" and "length pre = p"
  shows "memchr0 p 1004 (pre @ pad @ 0 # body @ post) = Some (Some (p + length pad))"
proof -
  have "mem_read p 1004 (pre @ (pad @ 0 # body) @ post) = Some (pad @ 0 # body)"
    by (rule mem_read_append) (use assms in auto)
  moreover have "takeWhile (\<lambda>b. b \<noteq> 0) (pad @ 0 # body) = pad"
    using assms(1) by (subst takeWhile_append2) auto
  ultimately show ?thesis using assms(2) by (simp add: memchr0_def)
qed

lemma msg_is_split:
  assumes "msg_is msg 4096 P" and "length P = 1028"
  obtains pre q post where "mbuf msg = pre @ P @ q @ post" "length pre = GetPayload msg" "length q = 16"
    "mmaxLen msg = 4096" "length (mbuf msg) = 4112"
proof -
  have r: "GetPayload msg + 1028 \<le> length (mbuf msg)" "P = take 1028 (drop (GetPayload msg) (mbuf msg))"
    "GetPayloadLength msg = 1028"
    using assms by (auto simp: msg_is_def msg_payload_def mem_read_def split: if_splits)
  then have le: "GetPayload msg + 1044 \<le> length (mbuf msg)"
    using assms(1) by (auto simp: msg_is_def i2np_access size_sub_def split: if_splits)
  obtain pre mid rest where m: "mbuf msg = pre @ mid @ rest" "length pre = GetPayload msg" "length mid = 1028"
    using r(1) by (rule split_at)
  then have "length rest = 16 + (length rest - 16)" using le by simp
  then obtain q post where "rest = q @ post" "length q = 16" unfolding length_eq_add_conv by blast
  then show thesis using that [of pre q post] m r(2) assms(1) by (auto simp: msg_is_def)
qed

lemma receive_blocks_sealed:
  assumes "sealed sha tid body P" and "msg_is msg 4096 P" and "\<And>x. 4 \<le> length (sha x)"
  shows "\<exists>pre post. receive_blocks sha msg ep =
      process_fragments (length pre + length body) (length pre) (msg\<lparr>mbuf := pre @ body @ post\<rparr>)
        (ep\<lparr>m_NumReceivedBytes := m_NumReceivedBytes ep + 1028\<rparr>) \<and>
    length pre + length body = GetPayload msg + 1028 \<and> length (pre @ body @ post) = 4112"
proof -
  from assms(1) obtain iv pad where P: "P = be_bytes 4 tid @ iv @ take 4 (sha (body @ iv)) @ pad @ 0 # body"
    and len: "length iv = 16" "0 \<notin> set pad" "length pad + length body = 1003"
    by (auto simp: sealed_def)
  let ?ck = "take 4 (sha (body @ iv))"
  have ck: "length ?ck = 4" using assms(3) [of "body @ iv"] by simp
  have lP: "length P = 1028" using len ck by (simp add: P)
  from assms(2) lP obtain pre q post' where buf: "mbuf msg = pre @ P @ q @ post'"
    and pre: "length pre = GetPayload msg" and q: "length q = 16" and m: "mmaxLen msg = 4096" "length (mbuf msg) = 4112"
    by (rule msg_is_split)
  let ?p = "GetPayload msg"
  let ?hdr = "pre @ be_bytes 4 tid @ iv @ ?ck"
  let ?buf = "?hdr @ pad @ 0 # body @ iv @ post'"
  let ?z = "?p + 24 + length pad"
  have zero: "memchr0 (?p + 20 + 4) (1008 - 4) (mbuf msg) = Some (Some ?z)"
    using sealed_zero [OF len(2,3), of ?hdr "?p + 24" "q @ post'"] pre len(1) ck by (simp add: buf P add.commute [of 24])
  have iv: "mem_read (?p + 4) 16 (mbuf msg) = Some iv"
    using mem_read_append [of "?p + 4" "pre @ be_bytes 4 tid" 16 iv] pre len(1) by (simp add: buf P)
  have put: "put_bytes (?p + 1028) iv msg = Some (msg\<lparr>mbuf := ?buf\<rparr>)"
    using mem_write_append [of "?p + 1028" "pre @ P" iv q post'] pre lP len(1) q
    by (simp add: put_bytes_def upd_buf_def buf P)
  have hashed: "mem_read (?z + 1) (1028 - (?z + 1 - ?p) + 16) ?buf = Some (body @ iv)"
  proof -
    have "1028 - (?z + 1 - ?p) + 16 = length (body @ iv)" using len by simp
    then show ?thesis
      using mem_read_append [of "?z + 1" "?hdr @ pad @ [0]" _ "body @ iv" post'] pre len(1) ck by simp
  qed
  have cks: "mem_read (?p + 20) 4 ?buf = Some ?ck"
    using mem_read_append [of "?p + 20" "pre @ be_bytes 4 tid @ iv" 4 ?ck] pre len(1) ck by simp
  have z1: "length (?hdr @ pad @ [0]) = ?z + 1" using pre len ck by simp
  have b: "mbuf (msg\<lparr>mbuf := ?buf\<rparr>) = ?buf" by simp
  have stop: "length (?hdr @ pad @ [0]) + length body = ?p + 20 + 1008" using pre len ck by simp
  have "receive_blocks sha msg ep = process_fragments (?p + 20 + 1008) (?z + 1) (msg\<lparr>mbuf := ?buf\<rparr>)
      (ep\<lparr>m_NumReceivedBytes := m_NumReceivedBytes ep + 1028\<rparr>)"
    unfolding receive_blocks_def Let_def zero Option.bind.bind_lunit option.case iv put b hashed cks
    by (simp only: not_True_eq_False if_False simp_thms)
  moreover have "length ?buf = 4112" using m(2) len ck q by (simp add: buf P)
  moreover have "?buf = (?hdr @ pad @ [0]) @ body @ iv @ post'" by simp
  ultimately show ?thesis
    unfolding stop [symmetric] z1 [symmetric] using stop
    by - (rule exI [of _ "?hdr @ pad @ [0]"], rule exI [of _ "iv @ post'"], simp)
qed

lemma receive_blocks_sim:
  assumes "sealed sha tid (enc_frags fs) P" and "msg_is msg 4096 P" and "moffset msg \<le> 100"
    and "\<And>x. 4 \<le> length (sha x)"
    and "ep_rel ep a" and "list_all frag_ok fs" and "recvs_fit fs a"
  shows "sim (receive_blocks sha msg ep) (abs_recvs fs a)"
proof -
  let ?ep = "ep\<lparr>m_NumReceivedBytes := m_NumReceivedBytes ep + 1028\<rparr>"
  obtain pre post where r: "receive_blocks sha msg ep =
      process_fragments (length pre + length (enc_frags fs)) (length pre) (msg\<lparr>mbuf := pre @ enc_frags fs @ post\<rparr>) ?ep"
    "length pre + length (enc_frags fs) = GetPayload msg + 1028" "length (pre @ enc_frags fs @ post) = 4112"
    using receive_blocks_sealed [OF assms(1,2,4)] by blast
  have "ep_rel ?ep a" using assms(5) by (simp add: ep_rel_def)
  then show ?thesis
    unfolding r(1) using r(2,3) assms
    by (intro process_fragments_sim [of _ _ _ post]) (simp_all add: msg_is_def GetPayload_def GetBuffer_def)
qed

section \<open>Reassembly\<close>

lemma abs_recvs_append:
  "abs_recvs (fs @ gs) a =
     (let (o1, a1) = abs_recvs fs a; (o2, a2) = abs_recvs gs a1 in (o1 @ o2, a2))"
  by (induction fs arbitrary: a) (auto simp: Let_def split: prod.splits)

lemma recvs_fit_append:
  "recvs_fit (fs @ gs) a \<longleftrightarrow> recvs_fit fs a \<and> recvs_fit gs (snd (abs_recvs fs a))"
  by (induction fs arbitrary: a) (auto simp: Let_def split: prod.splits)

text \<open>The fragments of one message, as the gateway cuts them.\<close>

definition splits :: "tfrag list \<Rightarrow> delivery \<Rightarrow> u32 \<Rightarrow> bytes \<Rightarrow> bool" where
  "splits fs d i data \<longleftrightarrow> fs = [Whole d data] \<or>
     (\<exists>x y. fs = FirstFrag d i x # follow_frags i 1 y \<and> data = x @ y \<and> y \<noteq> [] \<and> length x \<le> 996)"

lemma follow_frags_recv:
  assumes "y \<noteq> []" and "i \<noteq> 0" and "fst a i = Some (d, b, n)" and "snd a i = None"
  shows "abs_recvs (follow_frags i n y) a = ([(d, b @ y)], (fst a)(i := None), snd a)"
  using assms
proof (induction i n y arbitrary: a b rule: follow_frags.induct)
  case (1 i n y)
  show ?case
  proof (cases "length y \<le> 996")
    case True
    then show ?thesis using 1 by (subst follow_frags.simps) simp
  next
    case False
    let ?a = "((fst a)(i \<mapsto> (d, b @ take 996 y, n + 1)), snd a)"
    have "abs_recvs (follow_frags i (n + 1) (drop 996 y)) ?a =
        ([(d, (b @ take 996 y) @ drop 996 y)], (fst ?a)(i := None), snd ?a)"
      by (rule "1.IH") (use False 1 in auto)
    then show ?thesis using False 1 by (subst follow_frags.simps) (simp add: abs_early_def)
  qed
qed

lemma splits_recv:
  assumes "splits fs d i data" and "i \<noteq> 0" and "fst a i = None" and "snd a i = None"
  shows "abs_recvs fs a = ([(d, data)], a)"
proof -
  consider "fs = [Whole d data]"
    | x y where "fs = FirstFrag d i x # follow_frags i 1 y" "data = x @ y" "y \<noteq> []"
    using assms(1) by (auto simp: splits_def)
  then show ?thesis
  proof cases
    case 1
    then show ?thesis by simp
  next
    case 2
    let ?a = "((fst a)(i \<mapsto> (d, x, 1)), snd a)"
    have "abs_recvs (follow_frags i 1 y) ?a = ([(d, x @ y)], (fst ?a)(i := None), snd ?a)"
      by (rule follow_frags_recv) (use 2 assms in auto)
    moreover have "(fst a)(i := None) = fst a" using assms(3) by auto
    ultimately show ?thesis using 2 assms by (simp add: abs_early_def)
  qed
qed

lemma follow_frags_ok:
  "length y \<le> 996 * m \<Longrightarrow> n + m \<le> 64 \<Longrightarrow> list_all frag_ok (follow_frags i n y)"
proof (induction i n y arbitrary: m rule: follow_frags.induct)
  case (1 i n y)
  show ?case
  proof (cases "y = [] \<or> length y \<le> 996")
    case True
    then show ?thesis using "1.prems" by (cases m) (auto simp: follow_frags.simps [of i n])
  next
    case False
    then obtain m' where m: "m = Suc m'" using "1.prems" by (cases m) auto
    have "list_all frag_ok (follow_frags i (n + 1) (drop 996 y))"
      by (rule "1.IH" [where m = m']) (use False "1.prems" m in auto)
    then show ?thesis using False "1.prems" m by (subst follow_frags.simps) auto
  qed
qed

lemma follow_frags_fit:
  assumes "y \<noteq> []" and "i \<noteq> 0" and "fst a i = Some (d, b, n)" and "snd a i = None"
    and "length b + length y \<le> 29000"
  shows "recvs_fit (follow_frags i n y) a"
  using assms
proof (induction i n y arbitrary: a b rule: follow_frags.induct)
  case (1 i n y)
  show ?case
  proof (cases "length y \<le> 996")
    case True
    then show ?thesis using 1 by (subst follow_frags.simps) simp
  next
    case False
    have "recvs_fit (follow_frags i (n + 1) (drop 996 y)) ((fst a)(i \<mapsto> (d, b @ take 996 y, n + 1)), snd a)"
      by (rule "1.IH" [where b = "b @ take 996 y"]) (use False 1 in auto)
    then show ?thesis using False 1 by (subst follow_frags.simps) (simp add: abs_early_def)
  qed
qed

lemma splits_ok:
  assumes "splits fs d i data" and "delivery_ok d" and "length data \<le> 29000" and "i \<noteq> 0"
    and "fst a i = None" and "snd a i = None"
  shows "list_all frag_ok fs" and "recvs_fit fs a"
proof -
  have "list_all frag_ok fs \<and> recvs_fit fs a"
  proof (cases "fs = [Whole d data]")
    case True
    then show ?thesis using assms by simp
  next
    case False
    then obtain x y where fs: "fs = FirstFrag d i x # follow_frags i 1 y" "data = x @ y" "y \<noteq> []" "length x \<le> 996"
      using assms(1) by (auto simp: splits_def)
    have "list_all frag_ok (follow_frags i 1 y)"
      by (rule follow_frags_ok [where m = 60]) (use fs assms in auto)
    moreover have "recvs_fit (follow_frags i 1 y) ((fst a)(i \<mapsto> (d, x, 1)), snd a)"
      by (rule follow_frags_fit [where b = x]) (use fs assms in auto)
    ultimately show ?thesis using fs assms by (simp add: abs_early_def)
  qed
  then show "list_all frag_ok fs" and "recvs_fit fs a" by simp_all
qed

text \<open>Fragments of other messages do not interfere.\<close>

fun frag_id :: "tfrag \<Rightarrow> u32 option" where
  "frag_id (Whole d x) = None"
| "frag_id (FirstFrag d i x) = Some i"
| "frag_id (FollowOn i k l x) = Some i"

lemma abs_recv_other:
  assumes "frag_id f \<noteq> Some i"
  shows "fst (snd (abs_recv f a)) i = fst a i" and "snd (snd (abs_recv f a)) i = snd a i"
  using assms by (cases f; auto simp: abs_early_def abs_save_def split: option.splits)+

lemma abs_recvs_other:
  assumes "filter (\<lambda>f. frag_id f = Some i) fs = []"
  shows "fst (snd (abs_recvs fs a)) i = fst a i" and "snd (snd (abs_recvs fs a)) i = snd a i"
  using assms
proof (induction fs arbitrary: a)
  case (Cons f fs)
  { case 1 then show ?case using Cons.IH(1) [of "snd (abs_recv f a)"] abs_recv_other [of f i a]
      by (auto simp: Let_def split: prod.splits if_splits) }
  { case 2 then show ?case using Cons.IH(2) [of "snd (abs_recv f a)"] abs_recv_other [of f i a]
      by (auto simp: Let_def split: prod.splits if_splits) }
qed simp_all

definition done_with :: "u32 \<Rightarrow> delivery \<times> bytes \<Rightarrow> (delivery \<times> bytes) list \<times> abs_ep \<Rightarrow> bool" where
  "done_with i db r \<longleftrightarrow> db \<in> set (fst r) \<and> fst (snd r) i = None \<and> snd (snd r) i = None"

lemma done_with_Cons:
  "done_with i db (abs_recvs fs (snd (abs_recv f a))) \<Longrightarrow> done_with i db (abs_recvs (f # fs) a)"
  by (auto simp: done_with_def Let_def split: prod.splits)

lemma follow_frags_interleaved:
  assumes "filter (\<lambda>f. frag_id f = Some i) fs = follow_frags i n y" and "y \<noteq> []" and "i \<noteq> 0"
    and "fst a i = Some (d, b, n)" and "snd a i = None"
  shows "done_with i (d, b @ y) (abs_recvs fs a)"
  using assms
proof (induction fs arbitrary: a b n y)
  case Nil
  then show ?case by (auto simp: follow_frags.simps [of i n] split: if_splits)
next
  case (Cons f fs)
  show ?case
  proof (cases "frag_id f = Some i")
    case False
    then show ?thesis
      using Cons.prems abs_recv_other [of f i a]
      by (intro done_with_Cons Cons.IH) auto
  next
    case True
    show ?thesis
    proof (cases "length y \<le> 996")
      case one: True
      then have f: "f = FollowOn i n True y" "filter (\<lambda>f. frag_id f = Some i) fs = []"
        using Cons.prems True by (auto simp: follow_frags.simps [of i n])
      show ?thesis
        using Cons.prems f(1) abs_recvs_other [OF f(2), of "((fst a)(i := None), snd a)"]
        by (auto simp: done_with_def Let_def split: prod.splits)
    next
      case more: False
      then have f: "f = FollowOn i n False (take 996 y)"
          "filter (\<lambda>f. frag_id f = Some i) fs = follow_frags i (n + 1) (drop 996 y)"
        using Cons.prems True by (auto simp: follow_frags.simps [of i n])
      have "done_with i (d, (b @ take 996 y) @ drop 996 y)
          (abs_recvs fs ((fst a)(i \<mapsto> (d, b @ take 996 y, n + 1)), snd a))"
        by (rule Cons.IH [OF f(2)]) (use Cons.prems more in auto)
      then show ?thesis
        using Cons.prems f(1) by (intro done_with_Cons) (simp add: abs_early_def)
    qed
  qed
qed

lemma splits_interleaved:
  assumes "splits (filter (\<lambda>f. frag_id f = Some i) fs) d i data" and "i \<noteq> 0" and "fst a i = None"
    and "snd a i = None"
  shows "done_with i (d, data) (abs_recvs fs a)"
  using assms
proof (induction fs arbitrary: a)
  case Nil
  then show ?case by (simp add: splits_def)
next
  case (Cons f fs)
  show ?case
  proof (cases "frag_id f = Some i")
    case False
    then show ?thesis
      using Cons.prems abs_recv_other [of f i a] by (intro done_with_Cons Cons.IH) auto
  next
    case True
    then obtain x y where f: "f = FirstFrag d i x" "filter (\<lambda>f. frag_id f = Some i) fs = follow_frags i 1 y"
        "data = x @ y" "y \<noteq> []"
      using Cons.prems(1) by (auto simp: splits_def)
    have "done_with i (d, x @ y) (abs_recvs fs ((fst a)(i \<mapsto> (d, x, 1)), snd a))"
      by (rule follow_frags_interleaved [OF f(2)]) (use f Cons.prems in auto)
    then show ?thesis
      using Cons.prems f by (intro done_with_Cons) (simp add: abs_early_def)
  qed
qed

text \<open>Two consecutive follow-on fragments of a message may arrive in either order.\<close>

lemma abs_recv_swap:
  assumes "i \<noteq> 0" and "fst a i = Some (d, b, n)" and "snd a i = None"
  shows "abs_recvs [FollowOn i (n + 1) l y, FollowOn i n False x] a =
    abs_recvs [FollowOn i n False x, FollowOn i (n + 1) l y] a"
  using assms by (auto simp: abs_early_def abs_save_def)

lemma abs_recv_swap_first:
  assumes "i \<noteq> 0" and "fst a i = None" and "snd a i = None"
  shows "abs_recvs [FollowOn i 1 l y, FirstFrag d i x] a = abs_recvs [FirstFrag d i x, FollowOn i 1 l y] a"
  using assms by (auto simp: abs_early_def abs_save_def)

section \<open>Sequences of tunnel messages\<close>

fun receive_all ::
    "(bytes \<Rightarrow> bytes) \<Rightarrow> I2NPMessage list \<Rightarrow> TunnelEndpoint \<Rightarrow> (TunnelMessageBlockEx list \<times> TunnelEndpoint) option" where
  "receive_all sha [] ep = Some ([], ep)"
| "receive_all sha (m # ms) ep = do {
     (o1, ep1) \<leftarrow> receive_blocks sha m ep;
     (o2, ep2) \<leftarrow> receive_all sha ms ep1;
     Some (o1 @ o2, ep2)
   }"

definition carries :: "(bytes \<Rightarrow> bytes) \<Rightarrow> I2NPMessage \<Rightarrow> tfrag list \<Rightarrow> bool" where
  "carries sha m fs \<longleftrightarrow> moffset m \<le> 100 \<and>
     (\<exists>tid P. sealed sha tid (enc_frags fs) P \<and> msg_is m 4096 P)"

lemma receive_all_sim:
  assumes "\<And>x. 4 \<le> length (sha x)" and "list_all2 (carries sha) ms fss" and "ep_rel ep a"
    and "list_all frag_ok (concat fss)" and "recvs_fit (concat fss) a"
  shows "sim (receive_all sha ms ep) (abs_recvs (concat fss) a)"
  using assms(2-)
proof (induction ms fss arbitrary: ep a rule: list_all2_induct)
  case Nil
  then show ?case by (simp add: sim_def)
next
  case (Cons m ms fs fss)
  have fit: "recvs_fit fs a" "recvs_fit (concat fss) (snd (abs_recvs fs a))"
    using Cons.prems(3) by (simp_all add: recvs_fit_append)
  have "sim (receive_blocks sha m ep) (abs_recvs fs a)"
    using Cons.hyps(1) Cons.prems assms(1) fit by (auto simp: carries_def intro!: receive_blocks_sim)
  then obtain out ep1 where 1: "receive_blocks sha m ep = Some (out, ep1)" "list_all2 block_is out (fst (abs_recvs fs a))"
    "ep_rel ep1 (snd (abs_recvs fs a))" by (auto simp: sim_def)
  have "sim (receive_all sha ms ep1) (abs_recvs (concat fss) (snd (abs_recvs fs a)))"
    by (rule Cons.IH) (use Cons.prems 1 fit in simp_all)
  then show ?case
    using 1 by (fastforce simp: sim_def abs_recvs_append Let_def split: prod.splits intro!: list_all2_appendI)
qed

section \<open>What the endpoint promises\<close>

lemma new_ep: "ep_rel (newTunnelEndpoint inb) (Map.empty, Map.empty)"
  by (simp add: ep_rel_def newTunnelEndpoint_def)

lemma list_all2_mem: "list_all2 R xs ys \<Longrightarrow> y \<in> set ys \<Longrightarrow> \<exists>x \<in> set xs. R x y"
  by (induction rule: list_all2_induct) auto

lemma memchr0_shift:
  "i + n \<le> length P \<Longrightarrow> p = length pre \<Longrightarrow>
     memchr0 (p + i) n (pre @ P @ post) = map_option (map_option ((+) p)) (memchr0 i n P)"
  by (simp add: memchr0_def mem_read_def Let_def add.assoc)

lemma memchr0_bound: "memchr0 i n P = Some (Some z) \<Longrightarrow> i \<le> z \<and> z < i + n"
  by (auto simp: memchr0_def Let_def split: option.splits if_splits bind_splits)

text \<open>Tunnel messages with a given body, for evaluation.\<close>

definition seal_body :: "(bytes \<Rightarrow> bytes) \<Rightarrow> bytes \<Rightarrow> bytes" where
  "seal_body sha body =
     be_bytes 4 (9 :: u32) @ replicate 16 2 @ take 4 (sha (body @ replicate 16 2)) @
     replicate (1003 - length body) 1 @ 0 # body"

definition tunnel_msg :: "bytes \<Rightarrow> I2NPMessage" where
  "tunnel_msg P = \<lparr>mbuf = replicate 18 0 @ P @ replicate (4094 - length P) 0, mlen = 18 + length P,
     moffset = 2, mmaxLen = 4096, mfrom = None\<rparr>"

lemma tunnel_msg_is: "length P = 1028 \<Longrightarrow> msg_is (tunnel_msg P) 4096 P"
  by (simp add: msg_is_def tunnel_msg_def msg_payload_def i2np_access mem_read_def)

lemma seal_body_sealed:
  assumes "length body \<le> 1003" and "\<And>x. 4 \<le> length (sha x)"
  shows "sealed sha 9 body (seal_body sha body)" and "length (seal_body sha body) = 1028"
proof -
  have ck: "length (take 4 (sha (body @ replicate 16 2))) = 4" using assms(2) by simp
  show "sealed sha 9 body (seal_body sha body)"
    unfolding sealed_def seal_body_def
    by (rule exI [of _ "replicate 16 2"], rule exI [of _ "replicate (1003 - length body) 1"]) (use assms in simp)
  show "length (seal_body sha body) = 1028" using ck assms(1) by (simp add: seal_body_def)
qed

lemma tunnel_msg_carries:
  assumes "length (enc_frags fs) \<le> 1003" and "\<And>x. 4 \<le> length (sha x)"
  shows "carries sha (tunnel_msg (seal_body sha (enc_frags fs))) fs"
proof -
  note s = seal_body_sealed [of "enc_frags fs" sha, OF assms]
  have "moffset (tunnel_msg (seal_body sha (enc_frags fs))) \<le> 100" by (simp add: tunnel_msg_def)
  with s(1) tunnel_msg_is [OF s(2)] show ?thesis unfolding carries_def by blast
qed



text \<open>
  A tunnel message is rejected as a whole: when the checksum does not match, or no zero byte ends
  the padding, no fragment is processed and the reassembly state is unchanged.
\<close>

theorem receive_blocks_rejects:
  assumes "msg_is msg 4096 P" and "length P = 1028"
    and "case memchr0 24 1004 P of
           Some (Some z) \<Rightarrow> take 4 (sha (drop (z + 1) P @ take 16 (drop 4 P))) \<noteq> take 4 (drop 20 P)
         | _ \<Rightarrow> True"
  shows "receive_blocks sha msg ep = Some ([], ep\<lparr>m_NumReceivedBytes := m_NumReceivedBytes ep + 1028\<rparr>)"
proof -
  obtain pre q post where buf: "mbuf msg = pre @ P @ q @ post" and pre: "length pre = GetPayload msg"
    and q: "length q = 16" using assms(1,2) by (rule msg_is_split)
  let ?p = "GetPayload msg"
  have m0: "memchr0 (?p + 20 + 4) (1008 - 4) (mbuf msg) = map_option (map_option ((+) ?p)) (memchr0 24 1004 P)"
    using memchr0_shift [of 24 1004 P ?p pre "q @ post"] assms(2) pre by (simp add: buf add.commute [of 24])
  obtain zo where zo: "memchr0 24 1004 P = Some zo" using assms(2) by (simp add: memchr0_def mem_read_def Let_def)
  show ?thesis
  proof (cases zo)
    case None
    then show ?thesis using m0 zo by (simp add: receive_blocks_def Let_def)
  next
    case (Some z)
    have z: "24 \<le> z" "z < 1028" using memchr0_bound [of 24 1004 P z] zo Some by simp_all
    let ?iv = "take 16 (drop 4 P)"
    have m0: "memchr0 (?p + 20 + 4) (1008 - 4) (mbuf msg) = Some (Some (?p + z))" using m0 zo Some by simp
    have iv: "mem_read (?p + 4) 16 (mbuf msg) = Some ?iv"
      using assms(2) pre by (simp add: mem_read_def buf)
    have put: "put_bytes (?p + 1028) ?iv msg = Some (msg\<lparr>mbuf := pre @ P @ ?iv @ post\<rparr>)"
      using mem_write_append [of "?p + 1028" "pre @ P" ?iv q post] assms(2) pre q
      by (simp add: put_bytes_def upd_buf_def buf)
    have hashed: "mem_read (?p + z + 1) (1028 - (?p + z + 1 - ?p) + 16) (pre @ P @ ?iv @ post) =
        Some (drop (z + 1) P @ ?iv)"
      using z assms(2) pre by (simp add: mem_read_def)
    have ck: "mem_read (?p + 20) 4 (pre @ P @ ?iv @ post) = Some (take 4 (drop 20 P))"
      using assms(2) pre by (simp add: mem_read_def)
    have b: "mbuf (msg\<lparr>mbuf := pre @ P @ ?iv @ post\<rparr>) = pre @ P @ ?iv @ post" by simp
    have ne: "(take 4 (sha (drop (z + 1) P @ ?iv)) \<noteq> take 4 (drop 20 P)) = True"
      using assms(3) zo Some by simp
    show ?thesis
      unfolding receive_blocks_def Let_def m0 Option.bind.bind_lunit option.case iv put b hashed ck ne if_True ..
  qed
qed

theorem receive_blocks_rejects_witness:
  "receive_blocks (\<lambda>x. replicate 32 1) (tunnel_msg (replicate 1028 0)) (newTunnelEndpoint True) =
     Some ([], (newTunnelEndpoint True)\<lparr>m_NumReceivedBytes := 1028\<rparr>)"
proof -
  have 1: "length (replicate 1028 (0 :: byte)) = 1028" by simp
  have "memchr0 24 1004 (replicate 1028 0) = Some (Some 24)" by (simp add: memchr0_def mem_read_def numeral_eq_Suc)
  moreover have "take 4 (replicate 32 1) \<noteq> take 4 (drop 20 (replicate 1028 (0 :: byte)))"
    by (simp add: numeral_eq_Suc)
  ultimately have 2: "case memchr0 24 1004 (replicate 1028 0) of
      Some (Some z) \<Rightarrow> take 4 (replicate 32 1) \<noteq> take 4 (drop 20 (replicate 1028 (0 :: byte))) | _ \<Rightarrow> True" by simp
  show ?thesis
    using receive_blocks_rejects [OF tunnel_msg_is [OF 1] 1, of "\<lambda>x. replicate 32 1" "newTunnelEndpoint True"] 2
    by (simp add: newTunnelEndpoint_def)
qed

lemma append_fragment_overflow:
  assumes "data_is m b" and "data_is f x" and "length b \<le> 32782" and "length b + length x > 32782"
  shows "append_fragment m f = None"
proof -
  obtain d where d: "assign_msg NewI2NPMessage m = Some d" "data_is d b" "length (mbuf d) = 32784" "moffset d = 2"
    using assign_new_is [OF assms(1,3)] by auto
  have gt: "mlen m + length x > mmaxLen m" using assms(1,4) by (simp add: data_is_def)
  have "put_bytes (mlen d) x d = None"
    using d assms(4) by (simp add: put_bytes_alt data_is_def)
  then show ?thesis using d(1) gt data_is_read [OF assms(2)]
    by (simp add: append_fragment_def Let_def)
qed

text \<open>
  C36. The size limit is checked for the fragment that arrives but not for the one that waited: when a
  message close to the limit receives a fragment and the next one is already stored, appending the
  stored fragment writes past the end of the large buffer.
\<close>

theorem early_fragment_overflow:
  assumes "m_IncompleteMessages ep i = Some msg" and "bdata msg = Some m" and "data_is m b"
    and "bdata blk = Some f" and "data_is f y" and "nextFragmentNum blk = nextFragmentNum msg"
    and "mlen m + length y < 32768"
    and "m_OutOfSequenceFragments ep i = Some e" and "data_is (fdata e) x"
    and "fragmentNum e = nextFragmentNum msg + 1" and "length b + length y + length x > 32782"
  shows "HandleFollowOnFragment i False blk ep = None"
proof -
  have "length b + length y \<le> 32782" using assms(3,7) by (simp add: data_is_def)
  then obtain m' where m': "append_fragment m f = Some m'" "data_is m' (b @ y)"
    using append_fragment_is [OF assms(3,5)] by auto
  have "append_fragment m' (fdata e) = None"
    by (rule append_fragment_overflow [OF m'(2) assms(9)]) (use assms(11) \<open>length b + length y \<le> 32782\<close> in auto)
  then show ?thesis
    using assms m'(1) data_is_read(1) [OF assms(5)]
    by (simp add: HandleFollowOnFragment_def HandleOutOfSequenceFragment_def Let_def)
qed

definition full_msg :: "nat \<Rightarrow> nat \<Rightarrow> I2NPMessage" where
  "full_msg sz n = \<lparr>mbuf = replicate sz 0, mlen = 2 + n, moffset = 2, mmaxLen = 4096, mfrom = None\<rparr>"

lemma full_msg_is: "2 + n \<le> sz \<Longrightarrow> 4112 \<le> sz \<Longrightarrow> data_is (full_msg sz n) (replicate n 0)"
proof -
  assume "2 + n \<le> sz" "4112 \<le> sz"
  then have "2 + (n + (sz - 2 - n)) = sz" by simp
  then have "replicate sz (0 :: byte) = replicate 2 0 @ replicate n 0 @ replicate (sz - 2 - n) 0"
    by (metis replicate_add)
  then have "\<exists>pre post. replicate sz (0 :: byte) = pre @ replicate n 0 @ post \<and> length pre = 2"
    by (metis length_replicate)
  then show ?thesis using \<open>4112 \<le> sz\<close> by (simp add: data_is_def full_msg_def)
qed

theorem early_fragment_overflow_witness:
  "HandleFollowOnFragment 3 False (emptyBlock\<lparr>bdata := Some (full_msg 4112 700), nextFragmentNum := 9\<rparr>)
     ((newTunnelEndpoint True)
        \<lparr>m_IncompleteMessages := [3 \<mapsto> emptyBlock\<lparr>bdata := Some (full_msg 32784 32000), nextFragmentNum := 9\<rparr>],
         m_OutOfSequenceFragments := [3 \<mapsto> \<lparr>fragmentNum = 10, fisLast = False, fdata = full_msg 4112 700\<rparr>]\<rparr>) = None"
proof -
  have 1: "data_is (full_msg 32784 32000) (replicate 32000 0)" "data_is (full_msg 4112 700) (replicate 700 0)"
    by (rule full_msg_is; simp)+
  have 2: "mlen (full_msg 32784 32000) + length (replicate 700 (0 :: byte)) < 32768" by (simp add: full_msg_def)
  show ?thesis
    by (rule early_fragment_overflow [where x = "replicate 700 0" and
        msg = "emptyBlock\<lparr>bdata := Some (full_msg 32784 32000), nextFragmentNum := 9\<rparr>" and
        e = "\<lparr>fragmentNum = 10, fisLast = False, fdata = full_msg 4112 700\<rparr>", OF _ _ 1(1) _ 1(2) _ 2]) (simp_all add: 1(2) emptyBlock_def)
qed

text \<open>
  The size field of a fragment is not compared with the tunnel message: a fragment whose size
  field exceeds the buffer is passed on as a message that claims to be longer than its buffer.
\<close>

theorem fragment_size_unchecked:
  assumes "sealed sha tid (0 # be_bytes 2 (sz :: u16)) P" and "msg_is msg 4096 P" and "\<And>x. 4 \<le> length (sha x)"
    and "4112 \<le> unat sz"
  shows "\<exists>blk m ep'. receive_blocks sha msg ep = Some ([blk], ep') \<and> bdata blk = Some m \<and>
    length (mbuf m) < mlen m \<and> GetLength m = unat sz"
proof -
  let ?body = "0 # be_bytes 2 sz"
  obtain pre post where r: "receive_blocks sha msg ep =
      process_fragments (length pre + length ?body) (length pre) (msg\<lparr>mbuf := pre @ ?body @ post\<rparr>)
        (ep\<lparr>m_NumReceivedBytes := m_NumReceivedBytes ep + 1028\<rparr>)" "length (pre @ ?body @ post) = 4112"
    using receive_blocks_sealed [OF assms(1-3)] by blast
  have 1: "mem_get (length pre) (pre @ ?body @ post) = Some 0" by (simp add: mem_get_def)
  have "mem_read (length pre + 1) 2 (pre @ ?body @ post) = Some (be_bytes 2 sz)"
    using mem_read_append [of "length pre + 1" "pre @ [0]" 2 "be_bytes 2 sz" post] by simp
  then have 2: "bufbe16toh (length pre + 1) (pre @ ?body @ post) = Some sz" by (simp add: bufbe16toh_eq)
  have h: "parse_header (length pre) (pre @ ?body @ post) =
      Some \<lparr>fhBlock = emptyBlock, fhMsgID = 0, fhNum = 0, fhFollowOn = False, fhLast = True,
            fhSize = sz, fhPos = length pre + 3\<rparr>"
    using 1 2 by (simp add: parse_header_def parse_delivery_def emptyBlock_def)
  let ?m = "msg\<lparr>mbuf := pre @ ?body @ post, moffset := length pre + 3, mlen := length pre + 3 + unat sz\<rparr>"
  have "process_fragments (length pre + length ?body) (length pre + 3 + unat sz) (msg\<lparr>mbuf := pre @ ?body @ post\<rparr>) e =
      Some ([], e)" for e
    by (subst process_fragments.simps) simp
  then have "receive_blocks sha msg ep = Some ([emptyBlock\<lparr>bdata := Some ?m\<rparr>],
      ep\<lparr>m_NumReceivedBytes := m_NumReceivedBytes ep + 1028\<rparr>)"
    unfolding r(1) using h
    by (subst process_fragments.simps) (simp add: fragment_data_def process_fragment_def)
  then show ?thesis using r(2) assms(4) by (auto simp: GetLength_def)
qed

theorem fragment_size_unchecked_witness:
  "\<exists>blk m ep'. receive_blocks (\<lambda>x. replicate 32 0) (tunnel_msg (seal_body (\<lambda>x. replicate 32 0) (0 # be_bytes 2 (0xFFFF :: u16))))
     (newTunnelEndpoint False) = Some ([blk], ep') \<and> bdata blk = Some m \<and> length (mbuf m) < mlen m \<and> GetLength m = 65535"
proof -
  let ?sha = "\<lambda>x :: bytes. replicate 32 (0 :: byte)" and ?b = "0 # be_bytes 2 (0xFFFF :: u16)"
  have s: "4 \<le> length (?sha x)" for x by simp
  have "length ?b \<le> 1003" by simp
  note b = seal_body_sealed [of ?b ?sha, OF this s]
  have u: "4112 \<le> unat (0xFFFF :: u16)" by simp
  from fragment_size_unchecked [OF b(1) tunnel_msg_is [OF b(2)] s u] show ?thesis by simp
qed

text \<open>
  Fragments that overtake each other: two consecutive follow-on fragments of a message, in two
  tunnel messages, lead to the same deliveries and the same reassembly state in either order.
\<close>

theorem consecutive_fragments_swap:
  assumes "\<And>x. 4 \<le> length (sha x)"
    and "carries sha m1 [FollowOn i n False x]" and "carries sha m2 [FollowOn i (n + 1) l y]"
    and "ep_rel ep a" and "i \<noteq> 0" and "fst a i = Some (d, b, n)" and "snd a i = None"
    and "n < 63" and "length b \<le> 27000" and "length x \<le> 1003" and "length y \<le> 1003"
  shows "\<exists>r. sim (receive_all sha [m1, m2] ep) r \<and> sim (receive_all sha [m2, m1] ep) r"
proof -
  let ?f = "FollowOn i n False x" and ?g = "FollowOn i (n + 1) l y"
  have ok: "list_all frag_ok (concat [[?f], [?g]])" "list_all frag_ok (concat [[?g], [?f]])"
    "recvs_fit (concat [[?f], [?g]]) a" "recvs_fit (concat [[?g], [?f]]) a"
    using assms by (auto simp: abs_early_def abs_save_def)
  have c: "list_all2 (carries sha) [m1, m2] [[?f], [?g]]" "list_all2 (carries sha) [m2, m1] [[?g], [?f]]"
    using assms(2,3) by simp_all
  have "sim (receive_all sha [m1, m2] ep) (abs_recvs [?f, ?g] a)"
    using receive_all_sim [OF assms(1) c(1) assms(4) ok(1,3)] by (simp del: abs_recvs.simps receive_all.simps)
  moreover have "sim (receive_all sha [m2, m1] ep) (abs_recvs [?f, ?g] a)"
    using receive_all_sim [OF assms(1) c(2) assms(4) ok(2,4)] abs_recv_swap [OF assms(5-7), of l y x]
    by (simp del: abs_recvs.simps receive_all.simps)
  ultimately show ?thesis by blast
qed

theorem consecutive_fragments_swap_witness:
  "\<exists>ep m1 m2 r. carries (\<lambda>x. replicate 32 0) m1 [FollowOn 3 1 False [4]] \<and>
     carries (\<lambda>x. replicate 32 0) m2 [FollowOn 3 2 True [5]] \<and>
     sim (receive_all (\<lambda>x. replicate 32 0) [m1, m2] ep) r \<and> sim (receive_all (\<lambda>x. replicate 32 0) [m2, m1] ep) r"
proof -
  let ?sha = "\<lambda>x :: bytes. replicate 32 (0 :: byte)"
  let ?m = "\<lambda>f. tunnel_msg (seal_body ?sha (enc_frags [f]))"
  have sha: "4 \<le> length (?sha x)" for x by simp
  have m: "carries ?sha (?m (FollowOn 3 1 False [4])) [FollowOn 3 1 False [4]]"
    "carries ?sha (?m (FollowOn 3 (1 + 1) True [5])) [FollowOn 3 (1 + 1) True [5]]"
    by (rule tunnel_msg_carries; simp)+
  have i: "inc_is (emptyBlock\<lparr>bdata := Some (full_msg 4112 2), nextFragmentNum := 1\<rparr>) (DLocal, replicate 2 0, 1)"
    using full_msg_is [of 2 4112] by (simp add: inc_is_def block_is_def emptyBlock_def)
  note e = ep_rel_upd(1) [OF new_ep [of True] i, of 3]
  have z: "(3 :: u32) \<noteq> 0" "fst ((fst (Map.empty, Map.empty))(3 \<mapsto> (DLocal, replicate 2 0, 1)), snd (Map.empty, Map.empty)) 3 =
      Some (DLocal, replicate 2 0, 1)"
    "snd ((fst (Map.empty, Map.empty))(3 \<mapsto> (DLocal, replicate 2 0, 1)), snd (Map.empty, Map.empty)) 3 = None"
    "(1 :: nat) < 63" "length (replicate 2 (0 :: byte)) \<le> 27000" "length [4 :: byte] \<le> 1003" "length [5 :: byte] \<le> 1003"
    by simp_all
  from consecutive_fragments_swap [where sha = ?sha, OF sha m e z] m show ?thesis
    unfolding one_add_one by blast
qed

end
