(* ===== verification/Tunnel_Messages.thy ===== *)
theory Tunnel_Messages
  imports Tunnel_Endpoint
begin

text \<open>
  From one end of a tunnel to the other: messages put into a gateway come out of the endpoint, in
  order and unchanged. The theorem composes the refinement of the gateway (messages to fragments)
  with that of the endpoint (fragments to messages).
\<close>

type_synonym item = "delivery \<times> u32 \<times> bytes"

fun put_all ::
    "'g genv \<Rightarrow> TunnelMessageBlock list \<Rightarrow> TunnelGatewayBuffer \<times> 'g \<Rightarrow> (TunnelGatewayBuffer \<times> 'g) option" where
  "put_all E [] s = Some s"
| "put_all E (b # bs) s = Option.bind (PutI2NPMsg E b s) (put_all E bs)"

fun abs_puts :: "item list \<Rightarrow> abs_gw \<Rightarrow> abs_gw" where
  "abs_puts [] a = a"
| "abs_puts ((d, i, data) # xs) a = abs_puts xs (abs_put d i data a)"

fun puts_safe :: "item list \<Rightarrow> abs_gw \<Rightarrow> bool" where
  "puts_safe [] a = True"
| "puts_safe ((d, i, data) # xs) a = (put_safe d data a \<and> puts_safe xs (abs_put d i data a))"

definition item_rel :: "TunnelMessageBlock \<Rightarrow> item \<Rightarrow> bool" where
  "item_rel b x \<longleftrightarrow> (case x of (d, i, data) \<Rightarrow> block_rel b d i data \<and> i \<noteq> 0 \<and> length data \<le> 29000)"

definition flat :: "abs_gw \<Rightarrow> tfrag list" where
  "flat a = concat (fst a) @ (case snd a of None \<Rightarrow> [] | Some c \<Rightarrow> c)"

lemma flat_store_cur: "flat (store_cur dn c) = concat dn @ c"
  by (simp add: flat_def store_cur_def)

lemma flat_place: "flat (place dn fs) = concat dn @ fs"
  by (induction dn fs rule: place.induct) (simp_all add: flat_store_cur, simp add: flat_def)

lemma put_split_splits:
  assumes "n = room (Some c) - (length (delivery_to d) + 7)" and "n < length data" and "n \<le> 996"
  shows "\<exists>fs. flat (put_split d i data dn c) = concat dn @ c @ fs \<and> splits fs d i data"
proof -
  let ?fs = "FirstFrag d i (take n data) # follow_frags i 1 (drop n data)"
  have "flat (put_split d i data dn c) = concat dn @ c @ ?fs"
    by (simp add: put_split_def flat_place Let_def assms(1))
  moreover have "splits ?fs d i data"
    unfolding splits_def using assms
    by - (rule disjI2, rule exI [of _ "take n data"], rule exI [of _ "drop n data"], simp)
  ultimately show ?thesis by blast
qed

lemma put_fresh_splits:
  assumes "delivery_ok d"
  shows "\<exists>fs. flat (put_fresh d i data dn) = concat dn @ fs \<and> splits fs d i data"
proof (cases "full_len d data \<le> 1003")
  case True
  then show ?thesis by (simp add: put_fresh_def flat_store_cur splits_def)
next
  case False
  let ?n = "room (Some []) - (length (delivery_to d) + 7)"
  have "?n < length data" "?n \<le> 996"
    using False delivery_to_le [OF assms] by (auto simp: room_def full_len_def)
  from put_split_splits [OF refl this, of i dn] False show ?thesis by (simp add: put_fresh_def)
qed

lemma abs_put_splits:
  assumes "put_safe d data a" and "delivery_ok d"
  shows "\<exists>fs. flat (abs_put d i data a) = flat a @ fs \<and> splits fs d i data"
proof (cases a)
  case (Pair dn cur)
  show ?thesis
  proof (cases cur)
    case None
    then show ?thesis using put_fresh_splits [OF assms(2), of i data dn] by (simp add: Pair flat_def)
  next
    case (Some c)
    let ?full = "full_len d data"
    let ?nonFit = "(?full + ?full div 1003 * 7) mod 1003"
    consider "?full \<le> room (Some c)" | "?full > room (Some c)" "?nonFit = 0 \<or> ?nonFit > room (Some c)"
      | "?full > room (Some c)" "?nonFit \<noteq> 0" "?nonFit \<le> room (Some c)" "length (delivery_to d) + 7 \<le> room (Some c)"
      | "?full > room (Some c)" "?nonFit \<noteq> 0" "?nonFit \<le> room (Some c)" "\<not> length (delivery_to d) + 7 \<le> room (Some c)"
      by linarith
    then show ?thesis
    proof cases
      case 1
      then show ?thesis
        using flat_store_cur [of dn "c @ [Whole d data]"] by (simp add: Pair Some splits_def) (simp add: flat_def)
    next
      case 2
      let ?n = "room (Some []) - (length (delivery_to d) + 7)"
      have "?n < length data" "?n \<le> 996"
        using assms(1) 2 delivery_to_le [OF assms(2)]
        by (auto simp: put_safe_def Pair Some room_def full_len_def)
      from put_split_splits [OF refl this, of i "dn @ [c]"] 2 show ?thesis
        by (simp add: Pair Some flat_def Let_def)
    next
      case 3
      let ?n = "room (Some c) - (length (delivery_to d) + 7)"
      have "?n < length data" "?n \<le> 996"
        using 3 by (auto simp: full_len_def room_def)
      from put_split_splits [OF refl this, of i dn] 3 show ?thesis
        by (simp add: Pair Some flat_def Let_def)
    next
      case 4
      then show ?thesis using put_fresh_splits [OF assms(2), of i data "dn @ [c]"]
        by (simp add: Pair Some flat_def Let_def)
    qed
  qed
qed

text \<open>All fragments that a sequence of messages leaves in the gateway, received in order.\<close>

definition delivered :: "item list \<Rightarrow> (delivery \<times> bytes) list" where
  "delivered xs = map (\<lambda>(d, i, data). (d, data)) xs"

lemma abs_puts_recv:
  assumes "puts_safe xs a" and "list_all (\<lambda>(d, i, data). delivery_ok d \<and> i \<noteq> 0 \<and> length data \<le> 29000) xs"
  shows "\<exists>fs. flat (abs_puts xs a) = flat a @ fs \<and> list_all frag_ok fs \<and>
    recvs_fit fs (Map.empty, Map.empty) \<and>
    abs_recvs fs (Map.empty, Map.empty) = (delivered xs, (Map.empty, Map.empty))"
  using assms
proof (induction xs a rule: abs_puts.induct)
  case (1 a)
  then show ?case by (simp add: delivered_def)
next
  case (2 d i data xs a)
  let ?e = "(Map.empty, Map.empty) :: abs_ep"
  obtain gs where gs: "flat (abs_put d i data a) = flat a @ gs" "splits gs d i data"
    using abs_put_splits [of d data a i] "2.prems" by auto
  obtain fs where fs: "flat (abs_puts xs (abs_put d i data a)) = flat (abs_put d i data a) @ fs"
      "list_all frag_ok fs" "recvs_fit fs ?e" "abs_recvs fs ?e = (delivered xs, ?e)"
    using 2 by auto
  have g: "list_all frag_ok gs" "recvs_fit gs ?e" "abs_recvs gs ?e = ([(d, data)], ?e)"
    using splits_ok [OF gs(2), of ?e] splits_recv [OF gs(2), of ?e] 2 by auto
  show ?case
    using gs fs g by (intro exI [of _ "gs @ fs"])
      (simp add: recvs_fit_append abs_recvs_append delivered_def)
qed

lemma put_all_gw:
  assumes "genv_ok E" and "list_all2 item_rel blocks xs" and "gw_rel E st a" and "puts_safe xs a"
  shows "\<exists>st' g'. put_all E blocks (st, g) = Some (st', g') \<and> gw_rel E st' (abs_puts xs a)"
  using assms(2-)
proof (induction blocks xs arbitrary: st a g rule: list_all2_induct)
  case Nil
  then show ?case by simp
next
  case (Cons b bs x xs)
  obtain d i data where x: "x = (d, i, data)" by (cases x)
  obtain st1 g1 where "PutI2NPMsg E b (st, g) = Some (st1, g1)" "gw_rel E st1 (abs_put d i data a)"
    using PutI2NPMsg_gw [OF assms(1), of b d i data st a g] Cons.hyps(1) Cons.prems
    by (auto simp: item_rel_def x)
  then show ?case using Cons.IH [of st1 "abs_put d i data a" g1] Cons.prems by (simp add: x)
qed

text \<open>Completing the last message leaves all fragments in sealed messages.\<close>

lemma Complete_flat:
  assumes "genv_ok E" and "gw_rel E st a"
  shows "\<exists>st' g' fss. CompleteCurrentTunnelDataMessage E (st, g) = Some (st', g') \<and> concat fss = flat a \<and>
    list_all2 (\<lambda>m fs. \<exists>P tid. sealed (gsha E) tid (enc_frags fs) P \<and> msg_is m 4096 P) (gTunnelDataMsgs st') fss"
proof (cases a)
  case (Pair dn cur)
  have sealed: "list_all2 (\<lambda>m fs. \<exists>P tid. sealed (gsha E) tid (enc_frags fs) P \<and> msg_is m 4096 P)
      (gTunnelDataMsgs s) d" if "gw_rel E s (d, None)" for s d
    using that by (auto simp: gw_rel_def elim!: list_all2_mono)
  show ?thesis
  proof (cases cur)
    case None
    then show ?thesis using assms(2) sealed [of st dn]
      by (intro exI [of _ st] exI [of _ g] exI [of _ dn])
         (auto simp: Pair CompleteCurrentTunnelDataMessage_def gw_rel_def flat_def)
  next
    case (Some c)
    have "gw_rel E (st\<lparr>gRemainingSize := gRemainingSize st\<rparr>) (dn, Some c)" using assms(2) Pair Some by simp
    from Complete_gw [OF assms(1) this, of g] obtain st' g' where
      c: "CompleteCurrentTunnelDataMessage E (st, g) = Some (st', g')" "gw_rel E st' (dn @ [c], None)" by blast
    have "concat (dn @ [c]) = flat a" by (simp add: Pair Some flat_def)
    with c(1) sealed [OF c(2)] show ?thesis by blast
  qed
qed

text \<open>
  A copy of a tunnel message as the endpoint finds it in a fresh buffer: the same payload, near the
  start of a buffer of the short size.
\<close>

definition same_payload :: "I2NPMessage \<Rightarrow> I2NPMessage \<Rightarrow> bool" where
  "same_payload m m' \<longleftrightarrow> moffset m' \<le> 100 \<and> (\<forall>P. msg_is m 4096 P \<longrightarrow> msg_is m' 4096 P)"

lemma same_payload_carries:
  assumes "list_all2 (\<lambda>m fs. \<exists>P tid. sealed sha tid (enc_frags fs) P \<and> msg_is m 4096 P) ms fss"
    and "list_all2 same_payload ms ms'"
  shows "list_all2 (carries sha) ms' fss"
  using assms
proof (induction ms fss arbitrary: ms' rule: list_all2_induct)
  case (Cons m ms fs fss)
  then show ?case
    by (auto simp: list_all2_Cons1 same_payload_def carries_def)
qed simp

text \<open>
  C2. A tunnel delivers, outside the case in which the gateway loses a message: a sequence of messages
  put into a fresh gateway and flushed produces tunnel messages which, received in order by a fresh
  endpoint, make it hand exactly these messages with their delivery instructions to
  \<open>HandleNextMessage\<close>, in order, with nothing left over. Neither end ever accesses memory outside its
  buffers, and both return. The conditions: every message has at most 29000 bytes and a nonzero message
  identifier (\<open>item_rel\<close>); and each message, when it is put, finds no current tunnel message, or fits
  the rest of the current one, or is too long for any single tunnel message (more than 999 bytes with
  its delivery instructions) (\<open>puts_safe\<close>). The remaining case, a message that would fit an empty
  tunnel message but not the rest of the current one, is excluded because the gateway loses it
  (\<open>PutI2NPMsg_loses_short_message\<close>).
\<close>

theorem gateway_endpoint_roundtrip:
  assumes "genv_ok E" and "list_all2 item_rel blocks xs" and "puts_safe xs ([], None)"
  shows "\<exists>st1 g1 st2 g2.
    put_all E blocks (fst (newTunnelGatewayBuffer E tid g0), g) = Some (st1, g1) \<and>
    CompleteCurrentTunnelDataMessage E (st1, g1) = Some (st2, g2) \<and>
    (\<forall>ms. list_all2 same_payload (gTunnelDataMsgs st2) ms \<longrightarrow>
      (\<exists>out ep. receive_all (gsha E) ms (newTunnelEndpoint inb) = Some (out, ep) \<and>
         list_all2 block_is out (delivered xs) \<and>
         m_IncompleteMessages ep = Map.empty \<and> m_OutOfSequenceFragments ep = Map.empty))"
proof -
  obtain st1 g1 where p: "put_all E blocks (fst (newTunnelGatewayBuffer E tid g0), g) = Some (st1, g1)"
      "gw_rel E st1 (abs_puts xs ([], None))"
    using put_all_gw [OF assms(1,2) new_gw [OF assms(1)] assms(3)] by blast
  obtain st2 g2 fss where c: "CompleteCurrentTunnelDataMessage E (st1, g1) = Some (st2, g2)"
      "concat fss = flat (abs_puts xs ([], None))"
      "list_all2 (\<lambda>m fs. \<exists>P tid. sealed (gsha E) tid (enc_frags fs) P \<and> msg_is m 4096 P) (gTunnelDataMsgs st2) fss"
    using Complete_flat [OF assms(1) p(2)] by blast
  have "list_all (\<lambda>(d, i, data). delivery_ok d \<and> i \<noteq> 0 \<and> length data \<le> 29000) xs"
    using assms(2) by (induction rule: list_all2_induct) (auto simp: item_rel_def block_rel_def)
  from abs_puts_recv [OF assms(3) this] have fs: "list_all frag_ok (concat fss)"
      "recvs_fit (concat fss) (Map.empty, Map.empty)"
      "abs_recvs (concat fss) (Map.empty, Map.empty) = (delivered xs, (Map.empty, Map.empty))"
    by (auto simp: c(2) flat_def)
  have sha: "4 \<le> length (gsha E x)" for x using assms(1) by (simp add: genv_ok_def)
  have "\<exists>out ep. receive_all (gsha E) ms (newTunnelEndpoint inb) = Some (out, ep) \<and>
      list_all2 block_is out (delivered xs) \<and>
      m_IncompleteMessages ep = Map.empty \<and> m_OutOfSequenceFragments ep = Map.empty"
    if "list_all2 same_payload (gTunnelDataMsgs st2) ms" for ms
    using receive_all_sim [OF sha same_payload_carries [OF c(3) that] new_ep fs(1,2), of inb]
    by (auto simp: sim_def fs(3) ep_rel_def fun_eq_iff)
  then show ?thesis using p(1) c(1) by blast
qed

theorem gateway_endpoint_roundtrip_witness:
  "\<exists>st1 st2.
    put_all demo_genv [demo_block 1500, demo_block 100] (fst (newTunnelGatewayBuffer demo_genv 5 ()), ()) = Some (st1, ()) \<and>
    CompleteCurrentTunnelDataMessage demo_genv (st1, ()) = Some (st2, ()) \<and>
    (\<forall>ms. list_all2 same_payload (gTunnelDataMsgs st2) ms \<longrightarrow>
      (\<exists>out ep. receive_all (gsha demo_genv) ms (newTunnelEndpoint True) = Some (out, ep) \<and>
         list_all2 block_is out [(DLocal, replicate 1500 1), (DLocal, replicate 100 1)]))"
proof -
  let ?xs = "[(DLocal, 0x01010101, replicate 1500 1), (DLocal, 0x01010101, replicate 100 1)] :: item list"
  have 1: "list_all2 item_rel [demo_block 1500, demo_block 100] ?xs"
    using demo_block_rel [of 1500] demo_block_rel [of 100] by (simp add: item_rel_def)
  have "abs_put DLocal 0x01010101 (replicate 1500 1) ([], None) =
      ([[FirstFrag DLocal 0x01010101 (replicate 996 1)]], Some [FollowOn 0x01010101 1 True (replicate 504 1)])"
    by (simp add: put_fresh_def put_split_def full_len_def room_def follow_frags.simps [of "0x01010101" "Suc 0"] store_cur_def)
  then have 2: "puts_safe ?xs ([], None)" by (simp add: put_safe_def full_len_def room_def)
  from gateway_endpoint_roundtrip [OF demo_genv_ok 1 2, of 5 "()" "()" True] show ?thesis
    by (simp add: delivered_def) blast
qed

end
