(* ===== verification/Tunnel_Crypto.thy ===== *)
theory Tunnel_Crypto
  imports Prelude
begin

text \<open>
  The layer encryption of tunnels: CBC mode of \<open>src/core/crypto/aes.cpp\<close> and the tunnel encryption of
  \<open>src/core/tunnel/TunnelCrypto.cpp\<close>, in the portable version (without AESNI). The AES block cipher
  of Crypto++ is a parameter: two functions of a key and a block, for which \<open>aes_ok\<close> states what the
  code relies on, that on blocks of 16 bytes they are inverse and keep the length.
\<close>

record aes =
  ecb_enc :: "bytes \<Rightarrow> bytes \<Rightarrow> bytes"
  ecb_dec :: "bytes \<Rightarrow> bytes \<Rightarrow> bytes"

definition aes_ok :: "aes \<Rightarrow> bool" where
  "aes_ok A \<longleftrightarrow> (\<forall>k b. length b = 16 \<longrightarrow>
     length (ecb_enc A k b) = 16 \<and> length (ecb_dec A k b) = 16 \<and>
     ecb_dec A k (ecb_enc A k b) = b \<and> ecb_enc A k (ecb_dec A k b) = b)"

section \<open>CBC mode\<close>

text \<open>\<open>CipherBlock::operator^=\<close>.\<close>

definition xor_block :: "bytes \<Rightarrow> bytes \<Rightarrow> bytes" where
  "xor_block a b = map2 (XOR) a b"

record CBCEncryption =
  eKey :: bytes
  m_LastBlock :: bytes

record CBCDecryption =
  dKey :: bytes
  m_IV :: bytes

definition newCBCEncryption :: CBCEncryption where
  "newCBCEncryption = \<lparr>eKey = [], m_LastBlock = replicate 16 0\<rparr>"

definition newCBCDecryption :: CBCDecryption where
  "newCBCDecryption = \<lparr>dKey = [], m_IV = replicate 16 0\<rparr>"

definition CBCEncryption_SetKey :: "bytes \<Rightarrow> CBCEncryption \<Rightarrow> CBCEncryption" where
  "CBCEncryption_SetKey k c = c\<lparr>eKey := k\<rparr>"
definition CBCEncryption_SetIV :: "bytes \<Rightarrow> CBCEncryption \<Rightarrow> CBCEncryption" where
  "CBCEncryption_SetIV iv c = c\<lparr>m_LastBlock := take 16 iv\<rparr>"
definition CBCDecryption_SetKey :: "bytes \<Rightarrow> CBCDecryption \<Rightarrow> CBCDecryption" where
  "CBCDecryption_SetKey k c = c\<lparr>dKey := k\<rparr>"
definition CBCDecryption_SetIV :: "bytes \<Rightarrow> CBCDecryption \<Rightarrow> CBCDecryption" where
  "CBCDecryption_SetIV iv c = c\<lparr>m_IV := take 16 iv\<rparr>"

text \<open>The loops over \<open>n\<close> blocks, on the bytes of the input.\<close>

fun cbc_encrypt :: "aes \<Rightarrow> nat \<Rightarrow> bytes \<Rightarrow> CBCEncryption \<Rightarrow> bytes \<times> CBCEncryption" where
  "cbc_encrypt A 0 bs c = ([], c)"
| "cbc_encrypt A (Suc n) bs c =
     (let b = ecb_enc A (eKey c) (xor_block (m_LastBlock c) (take 16 bs));
          (out, c') = cbc_encrypt A n (drop 16 bs) (c\<lparr>m_LastBlock := b\<rparr>)
      in (b @ out, c'))"

fun cbc_decrypt :: "aes \<Rightarrow> nat \<Rightarrow> bytes \<Rightarrow> CBCDecryption \<Rightarrow> bytes \<times> CBCDecryption" where
  "cbc_decrypt A 0 bs c = ([], c)"
| "cbc_decrypt A (Suc n) bs c =
     (let tmp = take 16 bs;
          b = xor_block (ecb_dec A (dKey c) tmp) (m_IV c);
          (out, c') = cbc_decrypt A n (drop 16 bs) (c\<lparr>m_IV := tmp\<rparr>)
      in (b @ out, c'))"

text \<open>Whole blocks only: \<open>len >> 4\<close> blocks are processed.\<close>

definition CBCEncryption_Encrypt :: "aes \<Rightarrow> bytes \<Rightarrow> CBCEncryption \<Rightarrow> bytes \<times> CBCEncryption" where
  "CBCEncryption_Encrypt A bs c = cbc_encrypt A (length bs div 16) bs c"

definition CBCDecryption_Decrypt :: "aes \<Rightarrow> bytes \<Rightarrow> CBCDecryption \<Rightarrow> bytes \<times> CBCDecryption" where
  "CBCDecryption_Decrypt A bs c = cbc_decrypt A (length bs div 16) bs c"

section \<open>Tunnel layers\<close>

record TunnelEncryption =
  m_LayerEncryption :: CBCEncryption
  m_IVEncryption :: bytes

record TunnelDecryption =
  m_LayerDecryption :: CBCDecryption
  m_IVDecryption :: bytes

definition newTunnelEncryption :: TunnelEncryption where
  "newTunnelEncryption = \<lparr>m_LayerEncryption = newCBCEncryption, m_IVEncryption = []\<rparr>"

definition newTunnelDecryption :: TunnelDecryption where
  "newTunnelDecryption = \<lparr>m_LayerDecryption = newCBCDecryption, m_IVDecryption = []\<rparr>"

definition TunnelEncryption_SetKeys :: "bytes \<Rightarrow> bytes \<Rightarrow> TunnelEncryption \<Rightarrow> TunnelEncryption" where
  "TunnelEncryption_SetKeys layerKey ivKey t =
     t\<lparr>m_LayerEncryption := CBCEncryption_SetKey layerKey (m_LayerEncryption t), m_IVEncryption := ivKey\<rparr>"

definition TunnelDecryption_SetKeys :: "bytes \<Rightarrow> bytes \<Rightarrow> TunnelDecryption \<Rightarrow> TunnelDecryption" where
  "TunnelDecryption_SetKeys layerKey ivKey t =
     t\<lparr>m_LayerDecryption := CBCDecryption_SetKey layerKey (m_LayerDecryption t), m_IVDecryption := ivKey\<rparr>"

text \<open>
  1024 bytes: a block of IV, encrypted twice, and 1008 bytes of data in CBC mode with the IV
  between the two encryptions.
\<close>

definition TunnelEncryption_Encrypt :: "aes \<Rightarrow> bytes \<Rightarrow> TunnelEncryption \<Rightarrow> bytes \<times> TunnelEncryption" where
  "TunnelEncryption_Encrypt A bs t =
     (let iv = ecb_enc A (m_IVEncryption t) (take 16 bs);
          (data, layer) = CBCEncryption_Encrypt A (take 1008 (drop 16 bs))
                            (CBCEncryption_SetIV iv (m_LayerEncryption t));
          iv2 = ecb_enc A (m_IVEncryption t) iv
      in (iv2 @ data, t\<lparr>m_LayerEncryption := layer\<rparr>))"

definition TunnelDecryption_Decrypt :: "aes \<Rightarrow> bytes \<Rightarrow> TunnelDecryption \<Rightarrow> bytes \<times> TunnelDecryption" where
  "TunnelDecryption_Decrypt A bs t =
     (let iv = ecb_dec A (m_IVDecryption t) (take 16 bs);
          (data, layer) = CBCDecryption_Decrypt A (take 1008 (drop 16 bs))
                            (CBCDecryption_SetIV iv (m_LayerDecryption t));
          iv2 = ecb_dec A (m_IVDecryption t) iv
      in (iv2 @ data, t\<lparr>m_LayerDecryption := layer\<rparr>))"

section \<open>Decryption inverts encryption\<close>

lemma length_xor_block [simp, len_simps]: "length (xor_block a b) = min (length a) (length b)"
  by (simp add: xor_block_def)

lemma xor_byte_cancel [simp]:
  "a XOR (b XOR a) = (b :: byte)" "(a XOR b) XOR a = (b :: byte)"
  by (rule bit_word_eqI; auto simp: bit_xor_iff)+

lemma xor_block_cancel [simp]:
  assumes "length a = length b"
  shows "xor_block a (xor_block b a) = b" and "xor_block (xor_block a b) a = b"
  using assms by (auto simp: xor_block_def intro!: nth_equalityI)

lemma cbc_Suc:
  "fst (cbc_encrypt A (Suc n) bs c) =
     (let b = ecb_enc A (eKey c) (xor_block (m_LastBlock c) (take 16 bs))
      in b @ fst (cbc_encrypt A n (drop 16 bs) (c\<lparr>m_LastBlock := b\<rparr>)))"
  "fst (cbc_decrypt A (Suc n) bs d) =
     xor_block (ecb_dec A (dKey d) (take 16 bs)) (m_IV d) @
     fst (cbc_decrypt A n (drop 16 bs) (d\<lparr>m_IV := take 16 bs\<rparr>))"
  by (simp_all add: Let_def case_prod_beta)

lemma aes_okD:
  assumes "aes_ok A" and "length b = 16"
  shows "length (ecb_enc A k b) = 16" and "length (ecb_dec A k b) = 16"
    and "ecb_dec A k (ecb_enc A k b) = b" and "ecb_enc A k (ecb_dec A k b) = b"
  using assms by (auto simp: aes_ok_def)

lemma cbc_decrypt_encrypt:
  assumes "aes_ok A" and "length bs = 16 * n" and "length (m_LastBlock c) = 16"
    and "dKey d = eKey c" and "m_IV d = m_LastBlock c"
  shows "fst (cbc_decrypt A n (fst (cbc_encrypt A n bs c)) d) = bs"
  using assms(2-)
proof (induction n arbitrary: bs c d)
  case 0
  then show ?case by simp
next
  case (Suc n)
  let ?b = "ecb_enc A (eKey c) (xor_block (m_LastBlock c) (take 16 bs))"
  have l: "length (take 16 bs) = 16" using Suc.prems(1) by simp
  have b: "length ?b = 16" using aes_okD(1) [OF assms(1)] l Suc.prems(2) by simp
  have "xor_block (ecb_dec A (eKey c) ?b) (m_LastBlock c) = take 16 bs"
    using aes_okD(3) [OF assms(1)] l Suc.prems(2) by simp
  moreover have "fst (cbc_decrypt A n (fst (cbc_encrypt A n (drop 16 bs) (c\<lparr>m_LastBlock := ?b\<rparr>))) (d\<lparr>m_IV := ?b\<rparr>)) = drop 16 bs"
    by (rule Suc.IH) (use Suc.prems b in auto)
  ultimately show ?case using b Suc.prems by (simp only: cbc_Suc Let_def) simp
qed

lemma cbc_encrypt_decrypt:
  assumes "aes_ok A" and "length bs = 16 * n" and "length (m_LastBlock c) = 16"
    and "dKey d = eKey c" and "m_IV d = m_LastBlock c"
  shows "fst (cbc_encrypt A n (fst (cbc_decrypt A n bs d)) c) = bs"
  using assms(2-)
proof (induction n arbitrary: bs c d)
  case 0
  then show ?case by simp
next
  case (Suc n)
  let ?t = "take 16 bs"
  let ?b = "xor_block (ecb_dec A (dKey d) ?t) (m_IV d)"
  have l: "length ?t = 16" using Suc.prems(1) by simp
  have b: "length ?b = 16" using aes_okD(2) [OF assms(1)] l Suc.prems(2,4) by simp
  have "xor_block (m_LastBlock c) ?b = ecb_dec A (eKey c) ?t"
    using aes_okD(2) [OF assms(1) l] Suc.prems by simp
  then have e: "ecb_enc A (eKey c) (xor_block (m_LastBlock c) ?b) = ?t"
    using aes_okD(4) [OF assms(1) l] by simp
  have "fst (cbc_encrypt A n (fst (cbc_decrypt A n (drop 16 bs) (d\<lparr>m_IV := ?t\<rparr>))) (c\<lparr>m_LastBlock := ?t\<rparr>)) = drop 16 bs"
    by (rule Suc.IH) (use Suc.prems l in auto)
  then show ?case using b e Suc.prems by (simp only: cbc_Suc Let_def) simp
qed

lemma length_cbc:
  assumes "aes_ok A" and "length bs = 16 * n"
  shows "length (m_LastBlock c) = 16 \<Longrightarrow> length (fst (cbc_encrypt A n bs c)) = 16 * n"
    and "length (m_IV d) = 16 \<Longrightarrow> length (fst (cbc_decrypt A n bs d)) = 16 * n"
proof -
  show "length (m_LastBlock c) = 16 \<Longrightarrow> length (fst (cbc_encrypt A n bs c)) = 16 * n"
    using assms(2)
  proof (induction n arbitrary: bs c)
    case (Suc n)
    then show ?case
      using aes_okD(1) [OF assms(1), of "xor_block (m_LastBlock c) (take 16 bs)" "eKey c"]
      by (simp only: cbc_Suc Let_def) simp
  qed simp
  show "length (m_IV d) = 16 \<Longrightarrow> length (fst (cbc_decrypt A n bs d)) = 16 * n"
    using assms(2)
  proof (induction n arbitrary: bs d)
    case (Suc n)
    then show ?case
      using aes_okD(2) [OF assms(1), of "take 16 bs" "dKey d"] by (simp only: cbc_Suc Let_def) simp
  qed simp
qed

section \<open>Layers of a tunnel\<close>

text \<open>
  What a tunnel relies on: a family of transformations of messages, one per key, with inverses. The
  creator of a tunnel applies the inverses of all hops in the reverse order of the hops; the hops
  then apply their transformations one after another, which restores the message. For an inbound
  tunnel the hops act first and the creator removes their layers.
\<close>

locale layers =
  fixes enc dec :: "'k \<Rightarrow> 'm \<Rightarrow> 'm" and good :: "'k \<Rightarrow> bool" and ok :: "'m \<Rightarrow> bool"
  assumes dec_enc: "good k \<Longrightarrow> ok m \<Longrightarrow> dec k (enc k m) = m"
    and enc_dec: "good k \<Longrightarrow> ok m \<Longrightarrow> enc k (dec k m) = m"
    and ok_enc: "good k \<Longrightarrow> ok m \<Longrightarrow> ok (enc k m)"
    and ok_dec: "good k \<Longrightarrow> ok m \<Longrightarrow> ok (dec k m)"
begin

lemma ok_foldr: "list_all good ks \<Longrightarrow> ok m \<Longrightarrow> ok (foldr dec ks m)"
  by (induction ks) (simp_all add: ok_dec)

lemma ok_fold: "list_all good ks \<Longrightarrow> ok m \<Longrightarrow> ok (fold enc ks m)"
  by (induction ks arbitrary: m) (simp_all add: ok_enc)

lemma hops_restore: "list_all good ks \<Longrightarrow> ok m \<Longrightarrow> fold enc ks (foldr dec ks m) = m"
  by (induction ks) (simp_all add: enc_dec ok_foldr)

lemma creator_restores: "list_all good ks \<Longrightarrow> ok m \<Longrightarrow> foldr dec ks (fold enc ks m) = m"
  by (induction ks arbitrary: m) (simp_all add: dec_enc ok_enc)

end

text \<open>The transformations of one hop with its two keys.\<close>

definition layer_enc :: "aes \<Rightarrow> bytes \<times> bytes \<Rightarrow> bytes \<Rightarrow> bytes" where
  "layer_enc A k m =
     fst (TunnelEncryption_Encrypt A m (TunnelEncryption_SetKeys (fst k) (snd k) newTunnelEncryption))"

definition layer_dec :: "aes \<Rightarrow> bytes \<times> bytes \<Rightarrow> bytes \<Rightarrow> bytes" where
  "layer_dec A k m =
     fst (TunnelDecryption_Decrypt A m (TunnelDecryption_SetKeys (fst k) (snd k) newTunnelDecryption))"

lemma TunnelEncryption_Encrypt_fst:
  "fst (TunnelEncryption_Encrypt A m t) =
     ecb_enc A (m_IVEncryption t) (ecb_enc A (m_IVEncryption t) (take 16 m)) @
     fst (cbc_encrypt A (length (take 1008 (drop 16 m)) div 16) (take 1008 (drop 16 m))
        ((m_LayerEncryption t)\<lparr>m_LastBlock := take 16 (ecb_enc A (m_IVEncryption t) (take 16 m))\<rparr>))"
  by (simp add: TunnelEncryption_Encrypt_def Let_def case_prod_beta CBCEncryption_Encrypt_def
      CBCEncryption_SetIV_def)

lemma TunnelDecryption_Decrypt_fst:
  "fst (TunnelDecryption_Decrypt A m t) =
     ecb_dec A (m_IVDecryption t) (ecb_dec A (m_IVDecryption t) (take 16 m)) @
     fst (cbc_decrypt A (length (take 1008 (drop 16 m)) div 16) (take 1008 (drop 16 m))
        ((m_LayerDecryption t)\<lparr>m_IV := take 16 (ecb_dec A (m_IVDecryption t) (take 16 m))\<rparr>))"
  by (simp add: TunnelDecryption_Decrypt_def Let_def case_prod_beta CBCDecryption_Decrypt_def
      CBCDecryption_SetIV_def)

text \<open>The state left by earlier messages does not matter: every message sets the IV anew.\<close>

lemma layer_enc_eq:
  "eKey (m_LayerEncryption t) = fst k \<Longrightarrow> m_IVEncryption t = snd k \<Longrightarrow>
     fst (TunnelEncryption_Encrypt A m t) = layer_enc A k m"
  by (cases "m_LayerEncryption t")
     (simp add: layer_enc_def TunnelEncryption_Encrypt_fst TunnelEncryption_SetKeys_def
       CBCEncryption_SetKey_def newTunnelEncryption_def newCBCEncryption_def)

lemma layer_dec_eq:
  "dKey (m_LayerDecryption t) = fst k \<Longrightarrow> m_IVDecryption t = snd k \<Longrightarrow>
     fst (TunnelDecryption_Decrypt A m t) = layer_dec A k m"
  by (cases "m_LayerDecryption t")
     (simp add: layer_dec_def TunnelDecryption_Decrypt_fst TunnelDecryption_SetKeys_def
       CBCDecryption_SetKey_def newTunnelDecryption_def newCBCDecryption_def)

lemma length_layer:
  assumes "aes_ok A" and "length m = 1024"
  shows "length (layer_enc A k m) = 1024" and "length (layer_dec A k m) = 1024"
proof -
  have t: "length (take 16 m) = 16" and d: "length (take 1008 (drop 16 m)) = 16 * 63" using assms(2) by simp_all
  note e = aes_okD(1) [OF assms(1)] aes_okD(2) [OF assms(1)]
  show "length (layer_enc A k m) = 1024"
    using t d e length_cbc(1) [OF assms(1) d]
    by (simp add: layer_enc_def TunnelEncryption_Encrypt_fst TunnelEncryption_SetKeys_def)
  show "length (layer_dec A k m) = 1024"
    using t d e length_cbc(2) [OF assms(1) d]
    by (simp add: layer_dec_def TunnelDecryption_Decrypt_fst TunnelDecryption_SetKeys_def)
qed

lemma layer_inverse:
  assumes "aes_ok A" and "length m = 1024"
  shows "layer_dec A k (layer_enc A k m) = m" and "layer_enc A k (layer_dec A k m) = m"
proof -
  have t: "length (take 16 m) = 16" and d: "length (take 1008 (drop 16 m)) = 16 * 63" using assms(2) by simp_all
  have m: "take 16 m @ take 1008 (drop 16 m) = m" using assms(2) by simp
  let ?e = "\<lambda>b. ecb_enc A (snd k) b" and ?d = "\<lambda>b. ecb_dec A (snd k) b"
  note e = aes_okD [OF assms(1)]
  let ?c = "\<lambda>iv. \<lparr>eKey = fst k, m_LastBlock = iv\<rparr>" and ?x = "\<lambda>iv. \<lparr>dKey = fst k, m_IV = iv\<rparr>"
  have enc: "layer_enc A k n = ?e (?e (take 16 n)) @ fst (cbc_encrypt A 63 (take 1008 (drop 16 n)) (?c (take 16 (?e (take 16 n)))))"
    if "length n = 1024" for n
    using that by (simp add: layer_enc_def TunnelEncryption_Encrypt_fst TunnelEncryption_SetKeys_def
        CBCEncryption_SetKey_def newTunnelEncryption_def newCBCEncryption_def)
  have dec: "layer_dec A k n = ?d (?d (take 16 n)) @ fst (cbc_decrypt A 63 (take 1008 (drop 16 n)) (?x (take 16 (?d (take 16 n)))))"
    if "length n = 1024" for n
    using that by (simp add: layer_dec_def TunnelDecryption_Decrypt_fst TunnelDecryption_SetKeys_def
        CBCDecryption_SetKey_def newTunnelDecryption_def newCBCDecryption_def)
  have i: "length (?e (take 16 m)) = 16" "length (?d (take 16 m)) = 16" using e t by simp_all
  have c: "length (fst (cbc_encrypt A 63 (take 1008 (drop 16 m)) (?c (?e (take 16 m))))) = 1008"
    "length (fst (cbc_decrypt A 63 (take 1008 (drop 16 m)) (?x (?d (take 16 m))))) = 1008"
    using length_cbc [OF assms(1) d] i by simp_all
  have "fst (cbc_decrypt A 63 (fst (cbc_encrypt A 63 (take 1008 (drop 16 m)) (?c (?e (take 16 m))))) (?x (?e (take 16 m)))) =
      take 1008 (drop 16 m)"
    by (rule cbc_decrypt_encrypt [OF assms(1) d]) (use i in simp_all)
  then show "layer_dec A k (layer_enc A k m) = m"
    unfolding dec [OF length_layer(1) [OF assms, of k]] unfolding enc [OF assms(2)] using i t e c m by simp
  have "fst (cbc_encrypt A 63 (fst (cbc_decrypt A 63 (take 1008 (drop 16 m)) (?x (?d (take 16 m))))) (?c (?d (take 16 m)))) =
      take 1008 (drop 16 m)"
    by (rule cbc_encrypt_decrypt [OF assms(1) d]) (use i in simp_all)
  then show "layer_enc A k (layer_dec A k m) = m"
    unfolding enc [OF length_layer(2) [OF assms, of k]] unfolding dec [OF assms(2)] using i t e c m by simp
qed

text \<open>A key of the interface is a hop: the cipher together with its layer key and IV key.\<close>

interpretation tunnel_layers: layers
  "\<lambda>h. layer_enc (fst h) (snd h)" "\<lambda>h. layer_dec (fst h) (snd h)" "\<lambda>h. aes_ok (fst h)" "\<lambda>m. length m = 1024"
  by unfold_locales (simp_all add: layer_inverse length_layer)

text \<open>
  CBC decryption inverts CBC encryption with the same key and IV, block by block, and leaves the
  length of the data unchanged.
\<close>

theorem cbc_roundtrip:
  assumes "aes_ok A" and "length bs mod 16 = 0" and "length iv = 16"
  shows "fst (CBCDecryption_Decrypt A
       (fst (CBCEncryption_Encrypt A bs (CBCEncryption_SetIV iv (CBCEncryption_SetKey k c))))
       (CBCDecryption_SetIV iv (CBCDecryption_SetKey k d))) = bs"
proof -
  have bs: "length bs = 16 * (length bs div 16)" using assms(2) by (metis mult_div_mod_eq add.right_neutral)
  let ?c = "CBCEncryption_SetIV iv (CBCEncryption_SetKey k c)" and ?d = "CBCDecryption_SetIV iv (CBCDecryption_SetKey k d)"
  have iv: "length (m_LastBlock ?c) = 16" "dKey ?d = eKey ?c" "m_IV ?d = m_LastBlock ?c"
    using assms(3) by (simp_all add: CBCEncryption_SetIV_def CBCEncryption_SetKey_def CBCDecryption_SetIV_def
        CBCDecryption_SetKey_def)
  show ?thesis
    using cbc_decrypt_encrypt [OF assms(1) bs iv] length_cbc(1) [OF assms(1) bs iv(1)] bs
    by (simp add: CBCDecryption_Decrypt_def CBCEncryption_Encrypt_def)
qed

text \<open>A cipher for evaluation: the reversal of blocks.\<close>

definition demo_aes :: aes where
  "demo_aes = \<lparr>ecb_enc = (\<lambda>k b. rev b), ecb_dec = (\<lambda>k b. rev b)\<rparr>"

lemma demo_aes_ok: "aes_ok demo_aes"
  by (simp add: aes_ok_def demo_aes_def)

theorem cbc_roundtrip_witness:
  "fst (CBCDecryption_Decrypt demo_aes
     (fst (CBCEncryption_Encrypt demo_aes (replicate 32 5)
        (CBCEncryption_SetIV (replicate 16 9) (CBCEncryption_SetKey [1] newCBCEncryption))))
     (CBCDecryption_SetIV (replicate 16 9) (CBCDecryption_SetKey [1] newCBCDecryption))) = replicate 32 5"
  by (rule cbc_roundtrip [OF demo_aes_ok]) simp_all

end
