(* ===== verification/ElGamal.thy ===== *)
theory ElGamal
  imports Prelude
begin

text \<open>
  ElGamal encryption of \<open>src/core/crypto/ElGamal.h\<close> over the group of \<open>CryptoConst.cpp\<close>. The big
  integers of Crypto++ are natural numbers, read from and written to big-endian byte strings; SHA-256
  is a parameter, and so are the random exponent and the bytes a stack buffer holds before it is
  written. The group is an argument: \<open>elgp\<close> and \<open>elgg\<close> are the constants of the program.
\<close>

record group =
  gp :: nat
  gg :: nat

fun nat_of_bytes :: "nat \<Rightarrow> bytes \<Rightarrow> nat" where
  "nat_of_bytes n [] = n"
| "nat_of_bytes n (b # bs) = nat_of_bytes (n * 256 + unat b) bs"

text \<open>\<open>Integer::Encode (buf, len)\<close>: the low \<open>len\<close> bytes, most significant first.\<close>

primrec Encode :: "nat \<Rightarrow> nat \<Rightarrow> bytes" where
  "Encode x 0 = []"
| "Encode x (Suc n) = Encode (x div 256) n @ [of_nat (x mod 256)]"

definition Integer :: "bytes \<Rightarrow> nat" where "Integer bs = nat_of_bytes 0 bs"

definition elgp_bytes :: bytes where
  "elgp_bytes = [
    0xFF, 0xFF, 0xFF, 0xFF, 0xFF, 0xFF, 0xFF, 0xFF, 0xC9, 0x0F, 0xDA, 0xA2, 0x21, 0x68, 0xC2, 0x34,
    0xC4, 0xC6, 0x62, 0x8B, 0x80, 0xDC, 0x1C, 0xD1, 0x29, 0x02, 0x4E, 0x08, 0x8A, 0x67, 0xCC, 0x74,
    0x02, 0x0B, 0xBE, 0xA6, 0x3B, 0x13, 0x9B, 0x22, 0x51, 0x4A, 0x08, 0x79, 0x8E, 0x34, 0x04, 0xDD,
    0xEF, 0x95, 0x19, 0xB3, 0xCD, 0x3A, 0x43, 0x1B, 0x30, 0x2B, 0x0A, 0x6D, 0xF2, 0x5F, 0x14, 0x37,
    0x4F, 0xE1, 0x35, 0x6D, 0x6D, 0x51, 0xC2, 0x45, 0xE4, 0x85, 0xB5, 0x76, 0x62, 0x5E, 0x7E, 0xC6,
    0xF4, 0x4C, 0x42, 0xE9, 0xA6, 0x37, 0xED, 0x6B, 0x0B, 0xFF, 0x5C, 0xB6, 0xF4, 0x06, 0xB7, 0xED,
    0xEE, 0x38, 0x6B, 0xFB, 0x5A, 0x89, 0x9F, 0xA5, 0xAE, 0x9F, 0x24, 0x11, 0x7C, 0x4B, 0x1F, 0xE6,
    0x49, 0x28, 0x66, 0x51, 0xEC, 0xE4, 0x5B, 0x3D, 0xC2, 0x00, 0x7C, 0xB8, 0xA1, 0x63, 0xBF, 0x05,
    0x98, 0xDA, 0x48, 0x36, 0x1C, 0x55, 0xD3, 0x9A, 0x69, 0x16, 0x3F, 0xA8, 0xFD, 0x24, 0xCF, 0x5F,
    0x83, 0x65, 0x5D, 0x23, 0xDC, 0xA3, 0xAD, 0x96, 0x1C, 0x62, 0xF3, 0x56, 0x20, 0x85, 0x52, 0xBB,
    0x9E, 0xD5, 0x29, 0x07, 0x70, 0x96, 0x96, 0x6D, 0x67, 0x0C, 0x35, 0x4E, 0x4A, 0xBC, 0x98, 0x04,
    0xF1, 0x74, 0x6C, 0x08, 0xCA, 0x18, 0x21, 0x7C, 0x32, 0x90, 0x5E, 0x46, 0x2E, 0x36, 0xCE, 0x3B,
    0xE3, 0x9E, 0x77, 0x2C, 0x18, 0x0E, 0x86, 0x03, 0x9B, 0x27, 0x83, 0xA2, 0xEC, 0x07, 0xA2, 0x8F,
    0xB5, 0xC5, 0x5D, 0xF0, 0x6F, 0x4C, 0x52, 0xC9, 0xDE, 0x2B, 0xCB, 0xF6, 0x95, 0x58, 0x17, 0x18,
    0x39, 0x95, 0x49, 0x7C, 0xEA, 0x95, 0x6A, 0xE5, 0x15, 0xD2, 0x26, 0x18, 0x98, 0xFA, 0x05, 0x10,
    0x15, 0x72, 0x8E, 0x5A, 0x8A, 0xAC, 0xAA, 0x68, 0xFF, 0xFF, 0xFF, 0xFF, 0xFF, 0xFF, 0xFF, 0xFF]"

definition GetCryptoConstants :: group where
  "GetCryptoConstants = \<lparr>gp = Integer elgp_bytes, gg = 2\<rparr>"

record ElGamalEncryption =
  ea :: nat
  eb1 :: nat

text \<open>The constructor, with the random exponent \<open>k\<close> it draws.\<close>

definition newElGamalEncryption :: "group \<Rightarrow> bytes \<Rightarrow> nat \<Rightarrow> ElGamalEncryption" where
  "newElGamalEncryption G key k =
     \<lparr>ea = gg G ^ k mod gp G, eb1 = Integer (take 256 key) ^ k mod gp G\<rparr>"

definition ElGamalEncrypt ::
    "group \<Rightarrow> (bytes \<Rightarrow> bytes) \<Rightarrow> bytes \<Rightarrow> ElGamalEncryption \<Rightarrow> bytes \<Rightarrow> bool \<Rightarrow> bytes" where
  "ElGamalEncrypt G sha stack e data zeroPadding =
     (let tail = take 222 (data @ drop (33 + length data) stack);
          m = 0xFF # take 32 (sha tail) @ tail;
          b = eb1 e * Integer m mod gp G
      in if zeroPadding then 0 # Encode (ea e) 256 @ 0 # Encode b 256
         else Encode (ea e) 256 @ Encode b 256)"

definition ElGamalDecrypt ::
    "group \<Rightarrow> (bytes \<Rightarrow> bytes) \<Rightarrow> bytes \<Rightarrow> bytes \<Rightarrow> bool \<Rightarrow> bytes option" where
  "ElGamalDecrypt G sha key encrypted zeroPadding =
     (let x = Integer (take 256 key);
          a = Integer (take 256 (if zeroPadding then drop 1 encrypted else encrypted));
          b = Integer (take 256 (if zeroPadding then drop 258 encrypted else drop 256 encrypted));
          m = Encode (b * (a ^ (gp G - x - 1) mod gp G) mod gp G) 255
      in if take 32 (sha (drop 33 m)) \<noteq> take 32 (drop 1 m) then None else Some (drop 33 m))"

definition GenerateElGamalKeyPair :: "group \<Rightarrow> bytes \<Rightarrow> bytes \<times> bytes" where
  "GenerateElGamalKeyPair G rnd = (rnd, Encode (gg G ^ Integer rnd mod gp G) 256)"

section \<open>Integers as byte strings\<close>

lemma length_Encode [simp, len_simps]: "length (Encode x n) = n"
  by (induction n arbitrary: x) simp_all

lemma nat_of_bytes_append: "nat_of_bytes n (as @ bs) = nat_of_bytes (nat_of_bytes n as) bs"
  by (induction as arbitrary: n) simp_all

lemma Integer_Encode: "x < 256 ^ n \<Longrightarrow> Integer (Encode x n) = x"
proof (induction n arbitrary: x)
  case 0
  then show ?case by (simp add: Integer_def)
next
  case (Suc n)
  then have "x div 256 < 256 ^ n" by (simp add: less_mult_imp_div_less mult.commute)
  then have "nat_of_bytes 0 (Encode (x div 256) n) = x div 256" using Suc.IH by (simp add: Integer_def)
  moreover have "unat (of_nat (x mod 256) :: byte) = x mod 256"
    by (simp add: unat_of_nat take_bit_nat_eq_self)
  ultimately show ?case by (simp add: Integer_def nat_of_bytes_append)
qed

lemma Encode_Integer: "Encode (Integer bs) (length bs) = bs"
proof (induction bs rule: rev_induct)
  case (snoc b bs)
  then show ?case by (simp add: Integer_def nat_of_bytes_append)
qed (simp add: Integer_def)

lemma nat_of_bytes_bound: "nat_of_bytes n bs < (n + 1) * 256 ^ length bs"
proof (induction bs arbitrary: n)
  case (Cons b bs)
  have "nat_of_bytes n (b # bs) < (n * 256 + unat b + 1) * 256 ^ length bs" using Cons.IH by simp
  also have "\<dots> \<le> ((n + 1) * 256) * 256 ^ length bs"
  proof -
    have "unat b \<le> 255" using unat_byte_less [of b] by linarith
    then show ?thesis by (intro mult_le_mono1) (simp add: algebra_simps)
  qed
  finally show ?case by (simp add: algebra_simps)
qed simp

lemma Integer_bound: "Integer bs < 256 ^ length bs"
  using nat_of_bytes_bound [of 0 bs] by (simp add: Integer_def)

section \<open>Decryption inverts encryption\<close>

lemma elgamal_arith:
  fixes p g x k M :: nat
  assumes "g ^ (p - 1) mod p = 1" and "x < p" and "M < p"
  shows "((g ^ x mod p) ^ k mod p * M mod p) * ((g ^ k mod p) ^ (p - x - 1) mod p) mod p = M"
proof -
  have e: "x * k + k * (p - x - 1) = (p - 1) * k"
  proof -
    have "p - 1 = x + (p - x - 1)" using assms(2) by simp
    then have "(p - 1) * k = (x + (p - x - 1)) * k" by (simp only:)
    then show ?thesis by (simp add: algebra_simps)
  qed
  have "((g ^ x mod p) ^ k mod p * M mod p) * ((g ^ k mod p) ^ (p - x - 1) mod p) mod p =
      (g ^ (x * k) * M) * g ^ (k * (p - x - 1)) mod p"
    by (simp add: mod_simps power_mod power_mult)
  also have "\<dots> = (g ^ (p - 1)) ^ k * M mod p"
  proof -
    have "g ^ (x * k) * g ^ (k * (p - x - 1)) = (g ^ (p - 1)) ^ k"
      by (simp only: e power_add [symmetric] power_mult [symmetric])
    then show ?thesis by (metis mult.assoc mult.commute)
  qed
  also have "\<dots> = (g ^ (p - 1) mod p) ^ k * M mod p"
    by (metis mod_mult_left_eq power_mod)
  also have "\<dots> = M" using assms(1,3) by simp
  finally show ?thesis .
qed

lemma ElGamalDecrypt_Encrypt:
  assumes "gg G ^ (gp G - 1) mod gp G = 1" and "256 ^ 255 \<le> gp G" and "gp G \<le> 256 ^ 256"
    and "\<And>x. length (sha x) = 32" and "length data = 222"
    and "length rnd = 256" and "Integer rnd < gp G" and "GenerateElGamalKeyPair G rnd = (priv, pub)"
  shows "ElGamalDecrypt G sha priv (ElGamalEncrypt G sha stack (newElGamalEncryption G pub k) data zp) zp = Some data"
proof -
  have pub: "Integer (take 256 pub) = gg G ^ Integer rnd mod gp G" and priv: "priv = rnd"
  proof -
    have "gg G ^ Integer rnd mod gp G < 256 ^ 256" 
      using assms(3,7) by (intro less_le_trans [OF mod_less_divisor]) auto
    then show "Integer (take 256 pub) = gg G ^ Integer rnd mod gp G" "priv = rnd"
      using assms(8) by (auto simp: GenerateElGamalKeyPair_def Integer_Encode)
  qed
  have p0: "0 < gp G" using assms(7) by simp
  define m where "m = 0xFF # take 32 (sha data) @ data"
  have lm: "length m = 255" using assms(4,5) by (simp add: m_def)
  then have "Integer m < 256 ^ 255" using Integer_bound [of m] by simp
  then have Mp: "Integer m < gp G" using assms(2) by (rule less_le_trans)
  define e where "e = newElGamalEncryption G pub k"
  define b where "b = eb1 e * Integer m mod gp G"
  have lt: "ea e < 256 ^ 256" "b < 256 ^ 256"
    using p0 assms(3) by (auto simp: e_def b_def newElGamalEncryption_def intro: less_le_trans mod_less_divisor)
  have tail: "take 222 (data @ drop (33 + length data) stack) = data" using assms(5) by simp
  have enc: "ElGamalEncrypt G sha stack e data zp =
      (if zp then 0 # Encode (ea e) 256 @ 0 # Encode b 256 else Encode (ea e) 256 @ Encode b 256)"
    unfolding ElGamalEncrypt_def Let_def tail m_def [symmetric] b_def [symmetric] ..
  have "b * (ea e ^ (gp G - Integer rnd - 1) mod gp G) mod gp G = Integer m"
    unfolding b_def e_def newElGamalEncryption_def
    using elgamal_arith [OF assms(1,7) Mp, of k] by (simp add: pub)
  then have dec: "Encode (b * (ea e ^ (gp G - Integer rnd - 1) mod gp G) mod gp G) 255 = m"
    using Encode_Integer [of m] lm by simp
  have m33: "drop 33 m = data" "take 32 (drop 1 m) = take 32 (sha data)"
    using assms(4) by (simp_all add: m_def)
  have ab: "Integer (Encode (ea e) 256) = ea e" "Integer (Encode b 256) = b"
    by (rule Integer_Encode [OF lt(1)], rule Integer_Encode [OF lt(2)])
  have parts: "Integer (take 256 (if zp then drop 1 (ElGamalEncrypt G sha stack e data zp) else ElGamalEncrypt G sha stack e data zp)) = ea e"
    "Integer (take 256 (if zp then drop 258 (ElGamalEncrypt G sha stack e data zp) else drop 256 (ElGamalEncrypt G sha stack e data zp))) = b"
    unfolding enc by (cases zp; simp add: ab)+
  show ?thesis
    unfolding ElGamalDecrypt_def Let_def e_def [symmetric] parts priv
    using assms(6) by (simp add: dec [simplified] m33 [simplified])
qed

text \<open>
  C31. ElGamal decryption with the private key recovers the 222 bytes that were encrypted with the
  public key, for every random exponent and in both formats, provided that the generator has order
  dividing \<open>p - 1\<close> modulo \<open>p\<close> (which holds for a prime \<open>p\<close>) and \<open>p\<close> has 256 bytes.
\<close>

theorem elgamal_roundtrip:
  assumes "gg G ^ (gp G - 1) mod gp G = 1" and "256 ^ 255 \<le> gp G" and "gp G \<le> 256 ^ 256"
    and "\<And>x. length (sha x) = 32" and "length data = 222"
    and "length rnd = 256" and "Integer rnd < gp G" and "GenerateElGamalKeyPair G rnd = (priv, pub)"
  shows "ElGamalDecrypt G sha priv (ElGamalEncrypt G sha stack (newElGamalEncryption G pub k) data zp) zp = Some data"
  using assms by (rule ElGamalDecrypt_Encrypt)

text \<open>
  A modulus of the right size for evaluation: 2047 divides \<open>2 ^ 2047 - 2\<close>, so that 2 has an order
  dividing \<open>p - 1\<close> modulo \<open>p = 2 ^ 2047 - 1\<close>.
\<close>

definition demo_group :: group where "demo_group = \<lparr>gp = 2 ^ 2047 - 1, gg = 2\<rparr>"

lemma two_power_mersenne:
  assumes "n dvd 2 ^ n - 2" and "1 < n"
  shows "2 ^ (2 ^ n - 1 - 1) mod (2 ^ n - 1) = (1 :: nat)"
proof -
  from assms(1) obtain q where q: "2 ^ n - 2 = n * q" by (rule dvdE)
  have big: "4 \<le> (2 :: nat) ^ n" using power_increasing [of 2 n "2 :: nat"] assms(2) by simp
  then have "(2 :: nat) ^ n mod (2 ^ n - 1) = (1 + (2 ^ n - 1)) mod (2 ^ n - 1)" by simp
  then have one: "(2 :: nat) ^ n mod (2 ^ n - 1) = 1" using big by (simp only: mod_add_self2) simp
  have "(2 :: nat) ^ (2 ^ n - 1 - 1) = (2 ^ n) ^ q" using q by (simp add: power_mult numeral_2_eq_2)
  then have "(2 :: nat) ^ (2 ^ n - 1 - 1) mod (2 ^ n - 1) = (2 ^ n mod (2 ^ n - 1)) ^ q mod (2 ^ n - 1)"
    by (simp only: power_mod)
  then show ?thesis using one big by simp
qed

lemma demo_group_order: "gg demo_group ^ (gp demo_group - 1) mod gp demo_group = 1"
proof -
  have "(2 :: nat) ^ 2047 = (2 ^ 11) ^ 186 * 2"
    unfolding power_mult [symmetric] power_Suc2 [symmetric] by (rule arg_cong) simp
  then have "(2 :: nat) ^ 2047 mod 2047 = (2 ^ 11 mod 2047) ^ 186 * 2 mod 2047"
    by (metis mod_mult_left_eq power_mod)
  moreover have "(2 :: nat) ^ 11 mod 2047 = 1" by simp
  ultimately have m: "(2 :: nat) ^ 2047 mod 2047 = 2 mod 2047" by (simp only: power_one mult_1)
  have "(2 :: nat) ^ 1 \<le> 2 ^ 2047" by (rule power_increasing) simp_all
  then have "2047 dvd (2 :: nat) ^ 2047 - 2"
    by (intro mod_eq_dvd_iff_nat [THEN iffD1] m) (simp only: power_one_right)
  moreover have "(1 :: nat) < 2047" by simp
  ultimately have "2 ^ (2 ^ 2047 - 1 - 1) mod (2 ^ 2047 - 1) = (1 :: nat)" by (rule two_power_mersenne)
  then show ?thesis unfolding demo_group_def group.select_convs .
qed

lemma demo_group_size: "256 ^ 255 \<le> gp demo_group" "gp demo_group \<le> 256 ^ 256"
proof -
  have b: "(256 :: nat) = 2 ^ 8" by simp
  have p: "(256 :: nat) ^ 255 = 2 ^ 2040" "(256 :: nat) ^ 256 = 2 ^ 2048"
    unfolding b power_mult [symmetric] by (rule arg_cong, simp)+
  have "(2 :: nat) ^ 2040 < 2 ^ 2047" "(2 :: nat) ^ 2047 \<le> 2 ^ 2048"
    by (rule power_strict_increasing, simp, simp) (rule power_increasing, simp, simp)
  then show "256 ^ 255 \<le> gp demo_group" "gp demo_group \<le> 256 ^ 256"
    unfolding p demo_group_def group.select_convs by linarith+
qed

lemma Integer_zero: "Integer (replicate n 0) = 0"
  by (simp add: Integer_def, induction n) simp_all

theorem elgamal_roundtrip_witness:
  "ElGamalDecrypt demo_group (\<lambda>x. replicate 32 0) (fst (GenerateElGamalKeyPair demo_group (replicate 256 0)))
     (ElGamalEncrypt demo_group (\<lambda>x. replicate 32 0) [] 
        (newElGamalEncryption demo_group (snd (GenerateElGamalKeyPair demo_group (replicate 256 0))) 5)
        (replicate 222 7) True) True = Some (replicate 222 7)"
proof -
  have "(0 :: nat) < 256 ^ 255" by (rule zero_less_power) simp
  then have "0 < gp demo_group" using demo_group_size(1) by (rule less_le_trans)
  then have i: "Integer (replicate 256 0) < gp demo_group" by (simp only: Integer_zero)
  show ?thesis
    by (rule elgamal_roundtrip [OF demo_group_order demo_group_size _ _ _ i])
       (simp_all only: length_replicate prod.collapse)
qed

end
