(* ===== verification/Tunnel_Config.thy ===== *)
theory Tunnel_Config
  imports Tunnel_Gateway Tunnel_Crypto ElGamal
begin

text \<open>
  The configuration of a tunnel: \<open>src/core/tunnel/TunnelConfig.h\<close>. The doubly linked list of hops is
  a list in the order of the hops; \<open>next\<close> and \<open>prev\<close> are the neighbours in it. A router is
  represented by its identity hash; a router that is not set yet is \<open>None\<close>.
\<close>

abbreviation TUNNEL_BUILD_RECORD_SIZE :: nat where "TUNNEL_BUILD_RECORD_SIZE \<equiv> 528"
abbreviation BUILD_REQUEST_RECORD_CLEAR_TEXT_SIZE :: nat where "BUILD_REQUEST_RECORD_CLEAR_TEXT_SIZE \<equiv> 222"

record TunnelHopConfig =
  router :: bytes
  nextRouter :: "bytes option"
  tunnelID :: u32
  nextTunnelID :: u32
  layerKey :: bytes
  ivKey :: bytes
  replyKey :: bytes
  replyIV :: bytes
  isGateway :: bool
  isEndpoint :: bool
  decryption :: TunnelDecryption
  recordIndex :: nat

text \<open>
  The constructor draws three keys and an identifier. It does not touch \<open>replyKey\<close>: the field keeps
  whatever the memory held, the argument \<open>mem\<close>.
\<close>

definition newTunnelHopConfig :: "'g genv \<Rightarrow> bytes \<Rightarrow> bytes \<Rightarrow> 'g \<Rightarrow> TunnelHopConfig \<times> 'g" where
  "newTunnelHopConfig E mem r g =
     (let (lk, g1) = genBlock E 32 g;
          (ik, g2) = genBlock E 32 g1;
          (riv, g3) = genBlock E 16 g2;
          (tid, g4) = genMsgID E g3
      in (\<lparr>router = r, nextRouter = None, tunnelID = tid, nextTunnelID = 0, layerKey = lk, ivKey = ik,
           replyKey = mem, replyIV = riv, isGateway = True, isEndpoint = True,
           decryption = newTunnelDecryption, recordIndex = 0\<rparr>, g4))"

definition SetNextRouter :: "'g genv \<Rightarrow> bytes \<Rightarrow> TunnelHopConfig \<times> 'g \<Rightarrow> TunnelHopConfig \<times> 'g" where
  "SetNextRouter E r s =
     (let (tid, g1) = genMsgID E (snd s)
      in ((fst s)\<lparr>nextRouter := Some r, isEndpoint := False, nextTunnelID := tid\<rparr>, g1))"

definition SetReplyHop :: "TunnelHopConfig \<Rightarrow> TunnelHopConfig \<Rightarrow> TunnelHopConfig" where
  "SetReplyHop replyFirstHop h =
     h\<lparr>nextRouter := Some (router replyFirstHop), nextTunnelID := tunnelID replyFirstHop, isEndpoint := True\<rparr>"

text \<open>\<open>SetNext\<close> updates the hop and the one it is linked to.\<close>

definition SetNext :: "TunnelHopConfig \<Rightarrow> TunnelHopConfig \<Rightarrow> TunnelHopConfig \<times> TunnelHopConfig" where
  "SetNext h n =
     (h\<lparr>isEndpoint := False, nextRouter := Some (router n), nextTunnelID := tunnelID n\<rparr>,
      n\<lparr>isGateway := False\<rparr>)"

definition SetPrev :: "TunnelHopConfig \<Rightarrow> TunnelHopConfig \<Rightarrow> TunnelHopConfig \<times> TunnelHopConfig" where
  "SetPrev h p = (p\<lparr>isEndpoint := False\<rparr>, h\<lparr>isGateway := False\<rparr>)"

section \<open>Configurations\<close>

type_synonym TunnelConfig = "TunnelHopConfig list"

text \<open>The loop of the constructor over the peers; \<open>hops\<close> are the hops linked so far.\<close>

fun link_hops :: "'g genv \<Rightarrow> bytes \<Rightarrow> bytes list \<Rightarrow> TunnelConfig \<Rightarrow> 'g \<Rightarrow> TunnelConfig \<times> 'g" where
  "link_hops E mem [] hops g = (hops, g)"
| "link_hops E mem (r # rs) hops g =
     (let (hop, g1) = newTunnelHopConfig E mem r g
      in link_hops E mem rs
           (if hops = [] then [hop]
            else let (p, n) = SetNext (last hops) hop in butlast hops @ [p, n]) g1)"

definition upd_last :: "(TunnelHopConfig \<Rightarrow> TunnelHopConfig) \<Rightarrow> TunnelConfig \<Rightarrow> TunnelConfig" where
  "upd_last f c = butlast c @ [f (last c)]"

definition upd_first :: "(TunnelHopConfig \<Rightarrow> TunnelHopConfig) \<Rightarrow> TunnelConfig \<Rightarrow> TunnelConfig" where
  "upd_first f c = f (hd c) # tl c"

text \<open>Without peers the first hop is not initialised and its use is undefined.\<close>

definition newTunnelConfig ::
    "'g genv \<Rightarrow> bytes \<Rightarrow> bytes \<Rightarrow> bytes list \<Rightarrow> TunnelConfig option \<Rightarrow> 'g \<Rightarrow> (TunnelConfig \<times> 'g) option" where
  "newTunnelConfig E mem self peers replyTunnelConfig g =
     (let (hops, g1) = link_hops E mem peers [] g
      in if hops = [] then None
         else case replyTunnelConfig of
           Some rc \<Rightarrow>
             if rc = [] then None
             else Some (upd_last (SetReplyHop (hd rc)) (upd_first (\<lambda>h. h\<lparr>isGateway := False\<rparr>) hops), g1)
         | None \<Rightarrow>
             let (l, g2) = SetNextRouter E self (last hops, g1) in Some (upd_last (\<lambda>_. l) hops, g2))"

definition GetFirstHop :: "TunnelConfig \<Rightarrow> TunnelHopConfig" where "GetFirstHop c = hd c"
definition GetLastHop :: "TunnelConfig \<Rightarrow> TunnelHopConfig" where "GetLastHop c = last c"
definition GetNumHops :: "TunnelConfig \<Rightarrow> nat" where "GetNumHops c = length c"
definition IsInbound :: "TunnelConfig \<Rightarrow> bool" where "IsInbound c = isGateway (GetFirstHop c)"
definition GetPeers :: "TunnelConfig \<Rightarrow> bytes list" where "GetPeers c = map router c"

definition Invert :: "'g genv \<Rightarrow> bytes \<Rightarrow> bytes \<Rightarrow> TunnelConfig \<Rightarrow> 'g \<Rightarrow> (TunnelConfig \<times> 'g) option" where
  "Invert E mem self c g =
     newTunnelConfig E mem self (rev (GetPeers c)) (if IsInbound c then Some c else None) g"

definition Clone ::
    "'g genv \<Rightarrow> bytes \<Rightarrow> bytes \<Rightarrow> TunnelConfig option \<Rightarrow> TunnelConfig \<Rightarrow> 'g \<Rightarrow> (TunnelConfig \<times> 'g) option" where
  "Clone E mem self reply c g = newTunnelConfig E mem self (GetPeers c) reply g"

text \<open>
  The build request record of a hop: the cleartext is encrypted for the router and preceded by the
  first half of its identity hash. \<open>elg\<close> gives the ElGamal object of a router, \<open>hours\<close> the clock.
\<close>

definition request_clear_text :: "TunnelHopConfig \<Rightarrow> u32 \<Rightarrow> u32 \<Rightarrow> bytes option" where
  "request_clear_text h hours replyMsgID =
     map_option (\<lambda>nr.
       be_bytes 4 (tunnelID h) @ take 32 (router h) @ be_bytes 4 (nextTunnelID h) @ take 32 nr @
       take 32 (layerKey h) @ take 32 (ivKey h) @ take 32 (replyKey h) @ take 16 (replyIV h) @
       [(if isGateway h then 0x80 else 0) OR (if isEndpoint h then 0x40 else 0)] @
       be_bytes 4 hours @ be_bytes 4 replyMsgID @ replicate 29 0) (nextRouter h)"

definition CreateBuildRequestRecord ::
    "group \<Rightarrow> (bytes \<Rightarrow> bytes) \<Rightarrow> (bytes \<Rightarrow> ElGamalEncryption) \<Rightarrow> u32 \<Rightarrow> TunnelHopConfig \<Rightarrow> u32 \<Rightarrow> bytes option" where
  "CreateBuildRequestRecord G sha elg hours h replyMsgID =
     map_option (\<lambda>clearText. take 16 (router h) @ ElGamalEncrypt G sha [] (elg (router h)) clearText False)
       (request_clear_text h hours replyMsgID)"

section \<open>Well-formed configurations\<close>

text \<open>Each hop leads to the next one; only the first hop may be a gateway, only the last an endpoint.\<close>

definition hop_link :: "TunnelHopConfig \<Rightarrow> TunnelHopConfig \<Rightarrow> bool" where
  "hop_link h n \<longleftrightarrow> nextRouter h = Some (router n) \<and> nextTunnelID h = tunnelID n \<and>
     \<not> isEndpoint h \<and> \<not> isGateway n"

fun linked :: "TunnelConfig \<Rightarrow> bool" where
  "linked [] = True"
| "linked [h] = True"
| "linked (h # n # c) = (hop_link h n \<and> linked (n # c))"

lemma linked_append: "linked (c @ [h]) \<Longrightarrow> c \<noteq> [] \<Longrightarrow> linked c \<and> hop_link (last c) h"
  by (induction c rule: linked.induct) auto

lemma linked_snoc: "linked c \<Longrightarrow> (c \<noteq> [] \<Longrightarrow> hop_link (last c) h) \<Longrightarrow> linked (c @ [h])"
  by (induction c rule: linked.induct) auto

text \<open>Changing the last hop keeps the links as long as the fields that name it stay the same.\<close>

lemma linked_upd_last:
  assumes "linked c" and "c \<noteq> []" and "tunnelID (f (last c)) = tunnelID (last c)"
    and "router (f (last c)) = router (last c)" and "isGateway (f (last c)) = isGateway (last c)"
  shows "linked (upd_last f c)"
proof -
  have c: "c = butlast c @ [last c]" using assms(2) by simp
  have "hop_link (last (butlast c)) (f (last c))" if "butlast c \<noteq> []"
    using linked_append [of "butlast c" "last c"] assms c that by (auto simp: hop_link_def)
  moreover have "linked (butlast c)"
    using linked_append [of "butlast c" "last c"] assms(1) c by (cases "butlast c = []") auto
  ultimately show ?thesis unfolding upd_last_def by (intro linked_snoc) auto
qed

lemma newTunnelHopConfig_fields:
  assumes "newTunnelHopConfig E mem r g = (h, g')"
  shows "router h = r" "isGateway h" "isEndpoint h" "replyKey h = mem"
  using assms by (auto simp: newTunnelHopConfig_def Let_def split: prod.splits)

lemma link_hops_linked:
  assumes "linked hops" and "hops \<noteq> [] \<Longrightarrow> isGateway (hd hops) \<and> isEndpoint (last hops)"
    and "\<And>h. h \<in> set hops \<Longrightarrow> replyKey h = mem"
    and "link_hops E mem rs hops g = (c, g')"
  shows "linked c \<and> map router c = map router hops @ rs \<and> (c \<noteq> [] \<longrightarrow> isGateway (hd c) \<and> isEndpoint (last c)) \<and>
    (\<forall>h \<in> set c. replyKey h = mem)"
  using assms
proof (induction rs arbitrary: hops g)
  case Nil
  then show ?case by simp
next
  case (Cons r rs)
  obtain h g1 where h: "newTunnelHopConfig E mem r g = (h, g1)" by (cases "newTunnelHopConfig E mem r g")
  note f = newTunnelHopConfig_fields [OF h]
  show ?case
  proof (cases "hops = []")
    case True
    then show ?thesis using Cons.IH [of "[h]" g1] Cons.prems h f by simp
  next
    case False
    let ?l = "last hops" and ?n = "h\<lparr>isGateway := False\<rparr>"
    let ?p = "?l\<lparr>isEndpoint := False, nextRouter := Some (router h), nextTunnelID := tunnelID h\<rparr>"
    have hops: "hops = butlast hops @ [?l]" using False by simp
    let ?hops = "butlast hops @ [?p, ?n]"
    have "linked (upd_last (\<lambda>_. ?p) hops)" by (rule linked_upd_last) (use Cons.prems False in simp_all)
    then have lk: "linked ?hops"
      using linked_snoc [of "butlast hops @ [?p]" ?n] by (simp add: upd_last_def hop_link_def)
    have fst: "isGateway (hd ?hops)"
      using Cons.prems(2) False by (cases "butlast hops") (auto, metis append_butlast_last_id append_Nil list.sel(1), metis hd_append2 hops list.distinct(1) list.sel(1))
    have rt: "map router ?hops = map router hops @ [r]"
      using f(1) by (subst (2) hops) simp
    have mem: "\<And>x. x \<in> set ?hops \<Longrightarrow> replyKey x = mem"
      using Cons.prems(3) f(4) False by (auto dest: in_set_butlastD)
    have "link_hops E mem rs ?hops g1 = (c, g')"
      using Cons.prems(4) h False by (simp add: SetNext_def)
    from Cons.IH [OF lk _ mem this] show ?thesis
      using fst f rt by simp
  qed
qed

section \<open>What a configuration promises\<close>

lemma upd_simps [simp]:
  "c \<noteq> [] \<Longrightarrow> map router (upd_first f c) = router (f (hd c)) # map router (tl c)"
  "c \<noteq> [] \<Longrightarrow> map router (upd_last f c) = map router (butlast c) @ [router (f (last c))]"
  "upd_last f c \<noteq> []" "upd_first f c \<noteq> []" "last (upd_last f c) = f (last c)" "hd (upd_first f c) = f (hd c)"
  by (simp_all add: upd_first_def upd_last_def)

lemma linked_upd_first:
  assumes "linked c" and "c \<noteq> []"
  shows "linked (upd_first (\<lambda>h. h\<lparr>isGateway := False\<rparr>) c)"
  using assms by (cases c rule: linked.cases) (simp_all add: upd_first_def hop_link_def)

lemma newTunnelConfig_shape:
  assumes "newTunnelConfig E mem self peers reply g = Some (c, g')"
  shows "linked c" and "c \<noteq> []" and "GetPeers c = peers" and "IsInbound c \<longleftrightarrow> reply = None"
    and "isEndpoint (last c) \<longleftrightarrow> reply \<noteq> None"
    and "nextRouter (last c) = Some (case reply of None \<Rightarrow> self | Some rc \<Rightarrow> router (hd rc))"
    and "\<forall>rc. reply = Some rc \<longrightarrow> nextTunnelID (last c) = tunnelID (hd rc)"
    and "\<forall>h \<in> set c. replyKey h = mem"
proof -
  obtain hops g1 where h: "link_hops E mem peers [] g = (hops, g1)" by (cases "link_hops E mem peers [] g")
  have l: "linked hops" "map router hops = peers" "hops \<noteq> [] \<longrightarrow> isGateway (hd hops) \<and> isEndpoint (last hops)"
    "\<forall>h \<in> set hops. replyKey h = mem"
    using link_hops_linked [OF _ _ _ h] by auto
  have ne: "hops \<noteq> []" using assms h by (auto simp: newTunnelConfig_def)
  have pe: "peers \<noteq> []" using l(2) ne by auto
  have "linked c \<and> c \<noteq> [] \<and> GetPeers c = peers \<and> (IsInbound c \<longleftrightarrow> reply = None) \<and>
    (isEndpoint (last c) \<longleftrightarrow> reply \<noteq> None) \<and>
    nextRouter (last c) = Some (case reply of None \<Rightarrow> self | Some rc \<Rightarrow> router (hd rc)) \<and>
    (\<forall>rc. reply = Some rc \<longrightarrow> nextTunnelID (last c) = tunnelID (hd rc)) \<and> (\<forall>h \<in> set c. replyKey h = mem)"
  proof (cases reply)
    case None
    obtain lst g2 where n: "SetNextRouter E self (last hops, g1) = (lst, g2)" by (cases "SetNextRouter E self (last hops, g1)")
    have c: "c = upd_last (\<lambda>_. lst) hops" using assms h ne None n by (simp add: newTunnelConfig_def)
    have f: "router lst = router (last hops)" "tunnelID lst = tunnelID (last hops)" "isGateway lst = isGateway (last hops)"
      "nextRouter lst = Some self" "\<not> isEndpoint lst" "replyKey lst = replyKey (last hops)"
      using n by (auto simp: SetNextRouter_def Let_def split: prod.splits)
    have "isGateway (hd c)"
      using l(3) ne f(3) by (cases hops rule: rev_cases) (auto simp: c upd_last_def hd_append)
    moreover have "map router c = peers"
    proof -
      have "last peers = router (last hops)" using l(2) ne by (metis last_map)
      moreover have "map router (butlast hops) = butlast peers" using l(2) by (simp add: map_butlast)
      ultimately show ?thesis using f(1) append_butlast_last_id [OF pe] ne by (simp add: c)
    qed
    moreover have "linked c" unfolding c by (rule linked_upd_last) (use l ne f in auto)
    ultimately show ?thesis
      using f None l(4) ne by (auto simp: c GetPeers_def IsInbound_def GetFirstHop_def upd_last_def dest: in_set_butlastD)
  next
    case (Some rc)
    let ?hops = "upd_first (\<lambda>h. h\<lparr>isGateway := False\<rparr>) hops"
    have c: "c = upd_last (SetReplyHop (hd rc)) ?hops"
      using assms h ne Some by (simp add: newTunnelConfig_def split: if_splits)
    have "\<not> isGateway (hd c)"
      by (cases "tl hops") (auto simp: c upd_last_def upd_first_def SetReplyHop_def)
    moreover have "map router ?hops = peers"
      using l(2) ne by (cases hops) (simp_all add: upd_first_def)
    then have "map router c = peers"
    proof -
      assume m: "map router ?hops = peers"
      have "last peers = router (last ?hops)" using m by (metis last_map upd_simps(4))
      moreover have "map router (butlast ?hops) = butlast peers" using m by (simp add: map_butlast)
      ultimately show ?thesis using append_butlast_last_id [OF pe] by (simp add: c SetReplyHop_def)
    qed
    moreover have "linked c" unfolding c
      by (rule linked_upd_last) (use linked_upd_first [OF l(1) ne] in \<open>simp_all add: SetReplyHop_def\<close>)
    moreover have "\<forall>h \<in> set ?hops. replyKey h = mem"
      using l(4) ne by (cases hops) (simp_all add: upd_first_def)
    ultimately show ?thesis
      using Some l(4) by (auto simp: c GetPeers_def IsInbound_def GetFirstHop_def SetReplyHop_def upd_last_def dest: in_set_butlastD)
  qed
  then show "linked c" "c \<noteq> []" "GetPeers c = peers" "IsInbound c \<longleftrightarrow> reply = None"
    "isEndpoint (last c) \<longleftrightarrow> reply \<noteq> None"
    "nextRouter (last c) = Some (case reply of None \<Rightarrow> self | Some rc \<Rightarrow> router (hd rc))"
    "\<forall>rc. reply = Some rc \<longrightarrow> nextTunnelID (last c) = tunnelID (hd rc)" "\<forall>h \<in> set c. replyKey h = mem"
    by simp_all
qed

lemma newTunnelConfig_total:
  assumes "peers \<noteq> []" and "reply \<noteq> Some []"
  shows "\<exists>c g'. newTunnelConfig E mem self peers reply g = Some (c, g')"
proof -
  obtain hops g1 where h: "link_hops E mem peers [] g = (hops, g1)" by (cases "link_hops E mem peers [] g")
  have "map router hops = peers" using link_hops_linked [OF _ _ _ h] by auto
  then have "hops \<noteq> []" using assms(1) by auto
  then show ?thesis using h assms(2)
    by (cases reply) (auto simp: newTunnelConfig_def Let_def split: prod.splits)
qed



text \<open>
  Inverting a configuration yields a well-formed tunnel in the other direction through the same
  peers in reverse order, and an inbound tunnel is the reply tunnel of its inverse.
\<close>

theorem Invert_flips:
  assumes "c \<noteq> []"
  shows "\<exists>c' g'. Invert E mem self c g = Some (c', g') \<and> linked c' \<and> GetPeers c' = rev (GetPeers c) \<and>
    (IsInbound c' \<longleftrightarrow> \<not> IsInbound c) \<and>
    (IsInbound c \<longrightarrow> nextRouter (GetLastHop c') = Some (router (GetFirstHop c)) \<and>
                     nextTunnelID (GetLastHop c') = tunnelID (GetFirstHop c))"
proof -
  let ?reply = "if IsInbound c then Some c else None"
  have "rev (GetPeers c) \<noteq> []" "?reply \<noteq> Some []" using assms by (auto simp: GetPeers_def)
  then obtain c' g' where c': "newTunnelConfig E mem self (rev (GetPeers c)) ?reply g = Some (c', g')"
    using newTunnelConfig_total [of "rev (GetPeers c)" ?reply E mem self g] by blast
  note s = newTunnelConfig_shape [OF c']
  show ?thesis
    using c' s(1,3,4,6,7) unfolding Invert_def GetLastHop_def GetFirstHop_def by auto
qed

theorem Invert_flips_witness:
  "\<exists>c'. Invert demo_genv [] [9] [fst (newTunnelHopConfig demo_genv [] [1] ())] () = Some (c', ()) \<and>
     GetPeers c' = [[1]] \<and> \<not> IsInbound c'"
proof -
  let ?h = "fst (newTunnelHopConfig demo_genv [] [1] ())"
  have "router ?h = [1]" "isGateway ?h"
    using newTunnelHopConfig_fields [of demo_genv "[]" "[1]" "()" ?h "()"] by (auto simp: prod_eq_iff)
  moreover have "[?h] \<noteq> []" by simp
  ultimately show ?thesis
    using Invert_flips [of "[?h]" demo_genv "[]" "[9]" "()"]
    by (auto simp: GetPeers_def IsInbound_def GetFirstHop_def)
qed

text \<open>
  The reply key of a hop is never initialised: in every configuration it is whatever the memory
  of the hop held before construction, for all hops and all random inputs.
\<close>

theorem replyKey_uninitialised:
  assumes "newTunnelConfig E mem self peers reply g = Some (c, g')" and "h \<in> set c"
  shows "replyKey h = mem"
  using newTunnelConfig_shape(8) [OF assms(1)] assms(2) by blast

theorem replyKey_uninitialised_witness:
  "\<exists>c. newTunnelConfig demo_genv [7] [9] [[1]] None () = Some (c, ()) \<and> replyKey (hd c) = [7]"
proof -
  have ne: "[[1]] \<noteq> ([] :: bytes list)" "None \<noteq> Some ([] :: TunnelConfig)" by simp_all
  from newTunnelConfig_total [OF ne, of demo_genv "[7]" "[9]" "()"] obtain c where
    c: "newTunnelConfig demo_genv [7] [9] [[1]] None () = Some (c, ())" by auto
  have "hd c \<in> set c" using newTunnelConfig_shape(2) [OF c] by simp
  from replyKey_uninitialised [OF c this] c show ?thesis by blast
qed

end
