(* ===== verification/Tunnel_Path.thy ===== *)
theory Tunnel_Path
  imports Tunnel_Messages Tunnel_Config
begin

text \<open>
  Data through tunnels: the tunnels a router owns (\<open>Tunnel\<close>, \<open>InboundTunnel\<close> and \<open>OutboundTunnel\<close> of
  \<open>src/core/tunnel/Tunnel.cpp\<close>) and the transit tunnels it takes part in
  (\<open>src/core/tunnel/TransitTunnel.cpp\<close>). Messages handed to the transports are results of the
  operations; the mutexes that serialise calls are not modelled.
\<close>

datatype TunnelState =
    eTunnelStatePending
  | eTunnelStateBuildReplyReceived
  | eTunnelStateBuildFailed
  | eTunnelStateEstablished
  | eTunnelStateTestFailed
  | eTunnelStateFailed
  | eTunnelStateExpiring

record Tunnel =
  m_Config :: TunnelConfig
  m_Pool :: "nat option"
  m_State :: TunnelState
  m_IsRecreated :: bool
  m_CreationTime :: u32

record OutboundTunnel = Tunnel +
  m_Gateway :: TunnelGateway

record InboundTunnel = Tunnel +
  m_Endpoint :: TunnelEndpoint

definition IsEstablished :: "'a Tunnel_scheme \<Rightarrow> bool" where
  "IsEstablished t \<longleftrightarrow> m_State t = eTunnelStateEstablished"
definition IsFailed :: "'a Tunnel_scheme \<Rightarrow> bool" where
  "IsFailed t \<longleftrightarrow> m_State t = eTunnelStateFailed"

section \<open>Owned tunnels\<close>

text \<open>
  \<open>Tunnel::EncryptTunnelMsg\<close> removes (or adds in advance) the layers of all hops, from the last to
  the first: the list of hops is reversed. The first step reads the input message, later steps work
  in the output message.
\<close>

fun peel :: "aes \<Rightarrow> TunnelHopConfig list \<Rightarrow> bytes \<Rightarrow> TunnelHopConfig list \<times> bytes" where
  "peel A [] bs = ([], bs)"
| "peel A (h # hs) bs =
     (let (bs1, d) = TunnelDecryption_Decrypt A bs (decryption h); (hs', bs2) = peel A hs bs1
      in (h\<lparr>decryption := d\<rparr> # hs', bs2))"

definition Tunnel_EncryptTunnelMsg ::
    "aes \<Rightarrow> TunnelConfig \<Rightarrow> I2NPMessage \<Rightarrow> I2NPMessage \<Rightarrow> (TunnelConfig \<times> I2NPMessage) option" where
  "Tunnel_EncryptTunnelMsg A c msg out =
     (if c = [] then Some (c, out)
      else do {
        bs \<leftarrow> mem_read (GetPayload msg + 4) 1024 (mbuf msg);
        let (hops, bs') = peel A (rev c) bs;
        out' \<leftarrow> put_bytes (GetPayload out + 4) bs' out;
        Some (rev hops, out')
      })"

definition GetNextTunnelID :: "'a Tunnel_scheme \<Rightarrow> u32" where
  "GetNextTunnelID t = tunnelID (GetFirstHop (m_Config t))"
definition GetNextIdentHash :: "'a Tunnel_scheme \<Rightarrow> bytes" where
  "GetNextIdentHash t = router (GetFirstHop (m_Config t))"
definition InboundTunnel_GetTunnelID :: "InboundTunnel \<Rightarrow> u32" where
  "InboundTunnel_GetTunnelID t = nextTunnelID (GetLastHop (m_Config t))"
definition OutboundTunnel_GetTunnelID :: "OutboundTunnel \<Rightarrow> u32" where
  "OutboundTunnel_GetTunnelID t = GetNextTunnelID t"

text \<open>
  The virtual \<open>EncryptTunnelMsg\<close> that the gateway of an outbound tunnel calls on each message. The
  chaining state it leaves in the decryption objects is set anew by every message.
\<close>

definition outbound_encrypt :: "aes \<Rightarrow> OutboundTunnel \<Rightarrow> I2NPMessage \<Rightarrow> I2NPMessage option" where
  "outbound_encrypt A t m = map_option snd (Tunnel_EncryptTunnelMsg A (m_Config t) m m)"

text \<open>The messages returned are for the router \<open>GetNextIdentHash\<close>.\<close>

definition delivery_block :: "bytes option \<Rightarrow> u32 \<Rightarrow> I2NPMessage option \<Rightarrow> TunnelMessageBlock" where
  "delivery_block gwHash gwTunnel msg =
     (case gwHash of
        Some h \<Rightarrow>
          if gwTunnel \<noteq> 0
          then \<lparr>deliveryType = eDeliveryTypeTunnel, bhash = h, btunnelID = gwTunnel, bdata = msg\<rparr>
          else \<lparr>deliveryType = eDeliveryTypeRouter, bhash = h, btunnelID = 0, bdata = msg\<rparr>
      | None \<Rightarrow> \<lparr>deliveryType = eDeliveryTypeLocal, bhash = [], btunnelID = 0, bdata = msg\<rparr>)"

definition OutboundTunnel_SendTunnelDataMsg ::
    "'g genv \<Rightarrow> aes \<Rightarrow> bytes option \<Rightarrow> u32 \<Rightarrow> I2NPMessage option \<Rightarrow> OutboundTunnel \<times> 'g \<Rightarrow>
     (I2NPMessage list \<times> OutboundTunnel \<times> 'g) option" where
  "OutboundTunnel_SendTunnelDataMsg E A gwHash gwTunnel msg s =
     map_option (\<lambda>(sent, gw, g). (sent, (fst s)\<lparr>m_Gateway := gw\<rparr>, g))
       (SendTunnelDataMsg E (outbound_encrypt A (fst s)) (delivery_block gwHash gwTunnel msg)
          (m_Gateway (fst s), snd s))"

fun put_blocks ::
    "'g genv \<Rightarrow> TunnelMessageBlock list \<Rightarrow> TunnelGateway \<times> 'g \<Rightarrow> (TunnelGateway \<times> 'g) option" where
  "put_blocks E [] s = Some s"
| "put_blocks E (b # bs) s = Option.bind (PutTunnelDataMsg E b s) (put_blocks E bs)"

definition OutboundTunnel_SendTunnelDataMsgs ::
    "'g genv \<Rightarrow> aes \<Rightarrow> TunnelMessageBlock list \<Rightarrow> OutboundTunnel \<times> 'g \<Rightarrow>
     (I2NPMessage list \<times> OutboundTunnel \<times> 'g) option" where
  "OutboundTunnel_SendTunnelDataMsgs E A msgs s = do {
     s1 \<leftarrow> put_blocks E msgs (m_Gateway (fst s), snd s);
     (sent, gw, g) \<leftarrow> SendBuffer E (outbound_encrypt A (fst s)) s1;
     Some (sent, (fst s)\<lparr>m_Gateway := gw\<rparr>, g)
   }"

definition InboundTunnel_HandleTunnelDataMsg ::
    "'g genv \<Rightarrow> aes \<Rightarrow> bytes \<Rightarrow> nat \<Rightarrow> I2NPMessage \<Rightarrow> InboundTunnel \<times> 'g \<Rightarrow>
     (endpoint_action list \<times> InboundTunnel \<times> 'g) option" where
  "InboundTunnel_HandleTunnelDataMsg E A ourIdent this msg s = do {
     let t = (if IsFailed (fst s) then (fst s)\<lparr>m_State := eTunnelStateEstablished\<rparr> else fst s);
     (c, newMsg) \<leftarrow> Tunnel_EncryptTunnelMsg A (m_Config t) msg CreateEmptyTunnelDataMsg;
     (acts, ep, g) \<leftarrow>
       HandleDecryptedTunnelDataMsg E ourIdent (newMsg\<lparr>mfrom := Some this\<rparr>) (m_Endpoint t) (snd s);
     Some (acts, t\<lparr>m_Config := c, m_Endpoint := ep\<rparr>, g)
   }"

section \<open>Transit tunnels\<close>

record TransitTunnel =
  trTunnelID :: u32
  trNextTunnelID :: u32
  trNextIdent :: bytes
  trEncryption :: TunnelEncryption

definition newTransitTunnel :: "u32 \<Rightarrow> bytes \<Rightarrow> u32 \<Rightarrow> bytes \<Rightarrow> bytes \<Rightarrow> TransitTunnel" where
  "newTransitTunnel receiveTunnelID nextIdent nextID lk ik =
     \<lparr>trTunnelID = receiveTunnelID, trNextTunnelID = nextID, trNextIdent = nextIdent,
      trEncryption = TunnelEncryption_SetKeys lk ik newTunnelEncryption\<rparr>"

definition TransitTunnel_EncryptTunnelMsg ::
    "aes \<Rightarrow> TransitTunnel \<Rightarrow> I2NPMessage \<Rightarrow> I2NPMessage \<Rightarrow> (TransitTunnel \<times> I2NPMessage) option" where
  "TransitTunnel_EncryptTunnelMsg A t msg out = do {
     bs \<leftarrow> mem_read (GetPayload msg + 4) 1024 (mbuf msg);
     let (bs', e) = TunnelEncryption_Encrypt A bs (trEncryption t);
     out' \<leftarrow> put_bytes (GetPayload out + 4) bs' out;
     Some (t\<lparr>trEncryption := e\<rparr>, out')
   }"

text \<open>The three kinds of transit tunnels, with the state of each class.\<close>

record TransitTunnelParticipant = TransitTunnel +
  m_NumTransmittedBytes :: nat
  m_TunnelDataMsgs :: "I2NPMessage list"

record TransitTunnelGateway = TransitTunnel +
  trGateway :: TunnelGateway

record TransitTunnelEndpoint = TransitTunnel +
  trEndpoint :: TunnelEndpoint

datatype transit =
    Participant TransitTunnelParticipant
  | Gateway TransitTunnelGateway
  | Endpoint TransitTunnelEndpoint

definition base_of :: "'a TransitTunnel_scheme \<Rightarrow> TransitTunnel" where
  "base_of t = \<lparr>trTunnelID = trTunnelID t, trNextTunnelID = trNextTunnelID t, trNextIdent = trNextIdent t,
     trEncryption = trEncryption t\<rparr>"

definition Participant_HandleTunnelDataMsg ::
    "'g genv \<Rightarrow> aes \<Rightarrow> I2NPMessage \<Rightarrow> TransitTunnelParticipant \<times> 'g \<Rightarrow> (TransitTunnelParticipant \<times> 'g) option" where
  "Participant_HandleTunnelDataMsg E A tunnelMsg s = do {
     let (t, g) = s;
     (b, newMsg) \<leftarrow> TransitTunnel_EncryptTunnelMsg A (base_of t) tunnelMsg CreateEmptyTunnelDataMsg;
     m1 \<leftarrow> upd_buf (htobe32buf (GetPayload newMsg) (trNextTunnelID t)) newMsg;
     let (rnd, g1) = genMsgID E g;
     let (now, g2) = clock E g1;
     m2 \<leftarrow> FillI2NPMessageHeader (gsha E) eI2NPTunnelData 0 rnd now m1;
     Some (t\<lparr>trEncryption := trEncryption b,
             m_NumTransmittedBytes := m_NumTransmittedBytes t + GetLength tunnelMsg,
             m_TunnelDataMsgs := m_TunnelDataMsgs t @ [m2]\<rparr>, g2)
   }"

definition Participant_FlushTunnelDataMsgs ::
    "TransitTunnelParticipant \<Rightarrow> I2NPMessage list \<times> TransitTunnelParticipant" where
  "Participant_FlushTunnelDataMsgs t =
     (if m_TunnelDataMsgs t \<noteq> [] then (m_TunnelDataMsgs t, t\<lparr>m_TunnelDataMsgs := []\<rparr>) else ([], t))"

definition Gateway_SendTunnelDataMsg ::
    "'g genv \<Rightarrow> I2NPMessage \<Rightarrow> TransitTunnelGateway \<times> 'g \<Rightarrow> (TransitTunnelGateway \<times> 'g) option" where
  "Gateway_SendTunnelDataMsg E msg s =
     map_option (\<lambda>(gw, g). ((fst s)\<lparr>trGateway := gw\<rparr>, g))
       (PutTunnelDataMsg E \<lparr>deliveryType = eDeliveryTypeLocal, bhash = [], btunnelID = 0, bdata = Some msg\<rparr>
          (trGateway (fst s), snd s))"

definition Gateway_FlushTunnelDataMsgs ::
    "'g genv \<Rightarrow> aes \<Rightarrow> TransitTunnelGateway \<times> 'g \<Rightarrow> (I2NPMessage list \<times> TransitTunnelGateway \<times> 'g) option" where
  "Gateway_FlushTunnelDataMsgs E A s =
     map_option (\<lambda>(sent, gw, g). (sent, (fst s)\<lparr>trGateway := gw\<rparr>, g))
       (SendBuffer E (\<lambda>m. map_option snd (TransitTunnel_EncryptTunnelMsg A (base_of (fst s)) m m))
          (trGateway (fst s), snd s))"

definition Endpoint_HandleTunnelDataMsg ::
    "'g genv \<Rightarrow> aes \<Rightarrow> bytes \<Rightarrow> I2NPMessage \<Rightarrow> TransitTunnelEndpoint \<times> 'g \<Rightarrow>
     (endpoint_action list \<times> TransitTunnelEndpoint \<times> 'g) option" where
  "Endpoint_HandleTunnelDataMsg E A ourIdent tunnelMsg s = do {
     let (t, g) = s;
     (b, newMsg) \<leftarrow> TransitTunnel_EncryptTunnelMsg A (base_of t) tunnelMsg CreateEmptyTunnelDataMsg;
     (acts, ep, g1) \<leftarrow> HandleDecryptedTunnelDataMsg E ourIdent newMsg (trEndpoint t) g;
     Some (acts, t\<lparr>trEncryption := trEncryption b, trEndpoint := ep\<rparr>, g1)
   }"

text \<open>Operations a kind does not support only write to the log.\<close>

definition TransitTunnel_HandleTunnelDataMsg ::
    "'g genv \<Rightarrow> aes \<Rightarrow> bytes \<Rightarrow> I2NPMessage \<Rightarrow> transit \<times> 'g \<Rightarrow> (endpoint_action list \<times> transit \<times> 'g) option" where
  "TransitTunnel_HandleTunnelDataMsg E A ourIdent msg s =
     (case fst s of
        Participant t \<Rightarrow>
          map_option (\<lambda>(t', g). ([], Participant t', g)) (Participant_HandleTunnelDataMsg E A msg (t, snd s))
      | Endpoint t \<Rightarrow>
          map_option (\<lambda>(acts, t', g). (acts, Endpoint t', g)) (Endpoint_HandleTunnelDataMsg E A ourIdent msg (t, snd s))
      | Gateway t \<Rightarrow> Some ([], s))"

definition TransitTunnel_SendTunnelDataMsg ::
    "'g genv \<Rightarrow> I2NPMessage \<Rightarrow> transit \<times> 'g \<Rightarrow> (transit \<times> 'g) option" where
  "TransitTunnel_SendTunnelDataMsg E msg s =
     (case fst s of
        Gateway t \<Rightarrow> map_option (\<lambda>(t', g). (Gateway t', g)) (Gateway_SendTunnelDataMsg E msg (t, snd s))
      | _ \<Rightarrow> Some s)"

text \<open>The tunnel of a gateway sends on to is the one it is registered for: its buffer carries \<open>nextTunnelID\<close>.\<close>

definition CreateTransitTunnel ::
    "'g genv \<Rightarrow> u32 \<Rightarrow> bytes \<Rightarrow> u32 \<Rightarrow> bytes \<Rightarrow> bytes \<Rightarrow> bool \<Rightarrow> bool \<Rightarrow> 'g \<Rightarrow> transit \<times> 'g" where
  "CreateTransitTunnel E receiveTunnelID nextIdent nextID lk ik isGw isEp g =
     (let t = newTransitTunnel receiveTunnelID nextIdent nextID lk ik
      in if isEp then
           (Endpoint (TransitTunnel.extend t (TransitTunnelEndpoint.fields (newTunnelEndpoint False))), g)
         else if isGw then
           let (b, g1) = newTunnelGatewayBuffer E nextID g
           in (Gateway (TransitTunnel.extend t (TransitTunnelGateway.fields \<lparr>gwBuffer = b, gwNumSentBytes = 0\<rparr>)), g1)
         else (Participant (TransitTunnel.extend t (TransitTunnelParticipant.fields 0 [])), g))"

section \<open>What the endpoint does with a message\<close>

text \<open>The message a tunnel gateway receives: tunnel identifier, length and the message.\<close>

definition gateway_payload :: "u32 \<Rightarrow> bytes \<Rightarrow> bytes" where
  "gateway_payload tid b = be_bytes 4 tid @ be_bytes 2 (of_nat (length b) :: u16) @ b"

lemma CreateTunnelGatewayMsg_in_place:
  assumes "data_is msg b" and "\<And>x. sha256 E x \<noteq> []" and "22 \<le> moffset msg"
  shows "\<exists>m. CreateTunnelGatewayMsg E tid msg = Some m \<and> GetTypeID m = Some eI2NPTunnelGateway \<and>
    msg_payload m = Some (gateway_payload tid b)"
proof -
  obtain pre post where m: "mbuf msg = pre @ b @ post" "length pre = moffset msg" "mlen msg = moffset msg + length b"
    using assms(1) by (rule data_isE)
  have "length pre = (moffset msg - 22) + (16 + (4 + 2))" using assms(3) m(2) by simp
  then obtain p0 p1 p2 p3 where pre: "pre = p0 @ p1 @ p2 @ p3"
      and l: "length p0 = moffset msg - 22" "length p1 = 16" "length p2 = 4" "length p3 = 2"
    unfolding length_eq_add_conv by blast
  let ?len = "be_bytes 2 (of_nat (length b) :: u16)"
  let ?b1 = "p0 @ p1 @ be_bytes 4 tid @ p3 @ b @ post" and ?b2 = "p0 @ p1 @ be_bytes 4 tid @ ?len @ b @ post"
  let ?m = "msg\<lparr>mbuf := ?b2, moffset := moffset msg - 22, mlen := moffset msg + length b\<rparr>"
  have 1: "upd_buf (htobe32buf (GetBuffer msg - 6) tid) msg = Some (msg\<lparr>mbuf := ?b1\<rparr>)"
    using mem_write_append [of "moffset msg - 6" "p0 @ p1" "be_bytes 4 tid" p2 "p3 @ b @ post"] l assms(3)
    by (simp add: i2np_access m(1) pre)
  have 2: "upd_buf (htobe16buf (GetBuffer msg - 6 + 4) (of_nat (GetLength msg))) (msg\<lparr>mbuf := ?b1\<rparr>) = Some (msg\<lparr>mbuf := ?b2\<rparr>)"
    using mem_write_append [of "moffset msg - 2" "p0 @ p1 @ be_bytes 4 tid" ?len p3 "b @ post"] l assms(3)
    by (simp add: i2np_access m(3))
  have c: "CreateTunnelGatewayMsg E tid msg = fillHeader E eI2NPTunnelGateway 0 ?m"
    using assms(3) data_is_read(1) [OF assms(1)] 1 2 by (simp add: CreateTunnelGatewayMsg_def Let_def)
  have "msg_payload ?m = Some (gateway_payload tid b)"
    using l assms(3) by (simp add: msg_payload_def i2np_access gateway_payload_def mem_read_def)
  moreover have "moffset ?m + 16 \<le> mlen ?m" "mlen ?m \<le> length (mbuf ?m)" using l assms(3) by simp_all
  note FillI2NPMessageHeader_fills [where sha = "sha256 E", OF this assms(2),
      of eI2NPTunnelGateway 0 "rndWord E" "nowMs E"]
  ultimately show ?thesis unfolding c fillHeader_def by metis
qed

lemma CreateTunnelGatewayMsg_buf_eq:
  assumes "length b \<le> 32000" and "\<And>x. sha256 E x \<noteq> []"
  shows "\<exists>m. CreateTunnelGatewayMsg_buf E tid b = Some m \<and> GetTypeID m = Some eI2NPTunnelGateway \<and>
    msg_payload m = Some (gateway_payload tid b)"
proof -
  let ?sz = "if length b < 2048 then 4096 else 32768 :: nat"
  let ?P = "[be_bytes 4 tid, be_bytes 2 (of_nat (length b) :: u16), b]"
  have fit: "2 + length (concat ?P) \<le> ?sz" using assms(1) by simp
  have n: "NewI2NPMessage_len (length b) = I2NPMessageBuffer ?sz"
    by (simp add: NewI2NPMessage_len_def NewI2NPShortMessage_def NewI2NPMessage_def)
  have "CreateTunnelGatewayMsg_buf E tid b =
      do { m1 \<leftarrow> put_fields 18 ?P (I2NPMessageBuffer ?sz);
           fillHeader E eI2NPTunnelGateway 0 (add_len (length (concat ?P)) m1) }"
    unfolding CreateTunnelGatewayMsg_buf_def Let_def n
    by (simp add: put_bytes_def i2np_access I2NPMessageBuffer_def map_option_case split: option.splits)
  then have "CreateTunnelGatewayMsg_buf E tid b = Some (wire_msg E ?sz eI2NPTunnelGateway 0 (concat ?P))"
    using wire_msg_fields [OF assms(2) fit, of eI2NPTunnelGateway 0] by simp
  then show ?thesis
    using wire_msg_access [OF assms(2), of ?sz eI2NPTunnelGateway 0 "concat ?P"]
    by (simp add: gateway_payload_def)
qed

lemma CreateTunnelGatewayMsg_is:
  assumes "data_is msg b" and "\<And>x. sha256 E x \<noteq> []" and "length b \<le> 32000"
  shows "\<exists>m. CreateTunnelGatewayMsg E tid msg = Some m \<and> GetTypeID m = Some eI2NPTunnelGateway \<and>
    msg_payload m = Some (gateway_payload tid b)"
proof (cases "22 \<le> moffset msg")
  case True
  then show ?thesis by (rule CreateTunnelGatewayMsg_in_place [OF assms(1,2)])
next
  case False
  then show ?thesis
    using CreateTunnelGatewayMsg_buf_eq [OF assms(3,2)] data_is_read [OF assms(1)]
    by (simp add: CreateTunnelGatewayMsg_def)
qed

text \<open>
  The effect a delivered message must have: local messages are handled here, messages for a tunnel
  are wrapped for its gateway, messages for another router are forwarded by an outbound endpoint and
  dropped by an inbound one.
\<close>

fun action_is :: "bytes \<Rightarrow> bool \<Rightarrow> endpoint_action \<Rightarrow> delivery \<times> bytes \<Rightarrow> bool" where
  "action_is us inb a (DLocal, b) = (\<exists>m. a = HandleI2NPMessage m \<and> msg_content m = Some b)"
| "action_is us inb a (DTunnel t h, b) =
     (\<exists>m. a = SendMessage h m \<and> GetTypeID m = Some eI2NPTunnelGateway \<and> msg_payload m = Some (gateway_payload t b))"
| "action_is us inb a (DRouter h, b) =
     (if h = us then \<exists>m. a = HandleI2NPMessage m \<and> msg_content m = Some b
      else if inb then a = DropForeign
      else \<exists>m. a = SendMessage h m \<and> msg_content m = Some b)"

lemma HandleNextMessage_is:
  assumes "block_is blk (d, b)" and "genv_ok E" and "length b \<le> 32000"
  shows "\<exists>a g'. HandleNextMessage E us inb blk g = Some (a, g') \<and> action_is us inb a (d, b)"
proof -
  obtain msg where b: "bdata blk = Some msg" "data_is msg b" and d: "deliveryType blk = delivery_type d"
    using assms(1) by (auto simp: block_is_def)
  have "moffset msg < length (mbuf msg)" using b(2) by (auto elim!: data_isE)
  then obtain t where t: "GetTypeID msg = Some t" by (simp add: i2np_access mem_get_def)
  have c: "msg_content msg = Some b" using data_is_read [OF b(2)] by (simp add: msg_content_def)
  show ?thesis
  proof (cases d)
    case (DTunnel tid h)
    obtain rnd g1 where r: "genMsgID E g = (rnd, g1)" by (cases "genMsgID E g")
    obtain now g2 where n: "clock E g1 = (now, g2)" by (cases "clock E g1")
    let ?env = "\<lparr>sha256 = gsha E, rndWord = rnd, nowMs = now\<rparr>"
    have "sha256 ?env x \<noteq> []" for x using assms(2) by (auto simp: genv_ok_def dest: spec [of _ x])
    from CreateTunnelGatewayMsg_is [where E = ?env, OF b(2) this assms(3)] obtain m where
      m: "CreateTunnelGatewayMsg ?env tid msg = Some m" "GetTypeID m = Some eI2NPTunnelGateway"
        "msg_payload m = Some (gateway_payload tid b)" by blast
    have "btunnelID blk = tid" "bhash blk = h" using assms(1) DTunnel by (simp_all add: block_is_def)
    then show ?thesis
      using m t by (simp add: HandleNextMessage_def b(1) d DTunnel r n)
  next
    case (DRouter h)
    then show ?thesis using assms(1) t c by (simp add: HandleNextMessage_def b(1) d block_is_def)
  qed (use t c in \<open>simp add: HandleNextMessage_def b(1) d\<close>)
qed

lemma handle_all_is:
  assumes "genv_ok E" and "list_all2 block_is bs xs" and "list_all (\<lambda>(d, b). length b \<le> 32000) xs"
  shows "\<exists>as g'. handle_all E us inb bs g = Some (as, g') \<and> list_all2 (action_is us inb) as xs"
  using assms(2,3)
proof (induction bs xs arbitrary: g rule: list_all2_induct)
  case (Cons b bs x xs)
  obtain d c where x: "x = (d, c)" by (cases x)
  obtain a g1 where a: "HandleNextMessage E us inb b g = Some (a, g1)" "action_is us inb a (d, c)"
    using HandleNextMessage_is [OF _ assms(1), of b d c us inb g] Cons by (auto simp: x)
  obtain as g2 where "handle_all E us inb bs g1 = Some (as, g2)" "list_all2 (action_is us inb) as xs"
    using Cons.IH [of g1] Cons.prems by auto
  with a show ?case by (auto simp: x)
qed simp

end
