(* ===== verification/Tunnel_Delivery.thy ===== *)
theory Tunnel_Delivery
  imports Tunnel_Path
begin

text \<open>
  Messages through whole tunnels: the layers its creator adds or removes and those the hops add cancel,
  so the endpoint of an outbound tunnel and the owner of an inbound tunnel act on exactly the messages
  that were sent.
\<close>

section \<open>Tunnel messages on their way\<close>

text \<open>A message that carries the 1024 encrypted bytes \<open>X\<close> behind a tunnel identifier.\<close>

definition wire :: "I2NPMessage \<Rightarrow> bytes \<Rightarrow> bool" where
  "wire m X \<longleftrightarrow> length X = 1024 \<and> moffset m + 16 \<le> mlen m \<and>
     (\<exists>h. length h = 4 \<and> msg_payload m = Some (h @ X))"

lemma wire_read:
  assumes "wire m X"
  shows "mem_read (GetPayload m + 4) 1024 (mbuf m) = Some X"
proof -
  obtain h where h: "length h = 4" "length X = 1024" "mem_read (GetPayload m) (GetPayloadLength m) (mbuf m) = Some (h @ X)"
    using assms by (auto simp: wire_def msg_payload_def)
  have "GetPayloadLength m = 1028" using mem_read_length [OF h(3)] h by simp
  then show ?thesis using mem_read_sub [OF h(3), of 4 1024] h by simp
qed

lemma wireI: "msg_is m 4096 P \<Longrightarrow> length P = 1028 \<Longrightarrow> wire m (drop 4 P)"
  unfolding wire_def msg_is_def
  by (intro conjI exI [of _ "take 4 P"]) auto

lemma put_in_place:
  assumes "msg_is m 4096 P" and "length P = 1028" and "length Y = 1024"
  shows "\<exists>m'. put_bytes (GetPayload m + 4) Y m = Some m' \<and> msg_is m' 4096 (take 4 P @ Y) \<and>
    moffset m' = moffset m \<and> mfrom m' = mfrom m"
proof -
  from assms(1,2) obtain pre q post where buf: "mbuf m = pre @ P @ q @ post"
    and pre: "length pre = GetPayload m" by (rule msg_is_split)
  have P: "P = take 4 P @ drop 4 P" by simp
  let ?m = "m\<lparr>mbuf := pre @ take 4 P @ Y @ q @ post\<rparr>"
  have "mem_write (GetPayload m + 4) Y ((pre @ take 4 P) @ drop 4 P @ q @ post) = Some ((pre @ take 4 P) @ Y @ q @ post)"
    by (rule mem_write_append) (use assms pre in simp_all)
  moreover have "mbuf m = (pre @ take 4 P) @ drop 4 P @ q @ post" by (simp add: buf)
  ultimately have "put_bytes (GetPayload m + 4) Y m = Some ?m"
    by (simp only: put_bytes_def upd_buf_def) simp
  moreover have "GetPayloadLength m = 1028"
    using assms(1,2) mem_read_length by (fastforce simp: msg_is_def msg_payload_def)
  then have "msg_payload ?m = Some (take 4 P @ Y)"
    using mem_read_append [of "GetPayload m" pre 1028 "take 4 P @ Y" "q @ post"] pre assms
    by (simp add: msg_payload_def i2np_access)
  moreover have "length (mbuf ?m) = length (mbuf m)" using assms by (simp add: buf)
  ultimately show ?thesis using assms(1) by (intro exI [of _ ?m]) (simp add: msg_is_def)
qed

lemma empty_is: "msg_is CreateEmptyTunnelDataMsg 4096 (replicate 1028 0)"
  by (simp add: msg_is_def CreateEmptyTunnelDataMsg_def add_len_def NewI2NPShortMessage_def
      I2NPMessageBuffer_def msg_payload_def i2np_access mem_read_def)

lemma Fill_msg_is:
  assumes "msg_is m 4096 P" and "\<And>x. sha x \<noteq> []"
  shows "\<exists>m'. FillI2NPMessageHeader sha t r rnd now m = Some m' \<and> msg_is m' 4096 P \<and> moffset m' = moffset m"
proof -
  have "moffset m + 16 \<le> mlen m" "mlen m \<le> length (mbuf m)" using assms(1) by (simp_all add: msg_is_def)
  from FillI2NPMessageHeader_fills [where sha = sha, OF this assms(2), of t r rnd now]
  show ?thesis using assms(1) by (auto simp: msg_is_def)
qed

subsection \<open>The owner\<close>

definition hop_keys :: "aes \<Rightarrow> TunnelConfig \<Rightarrow> (aes \<times> bytes \<times> bytes) list" where
  "hop_keys A c = map (\<lambda>h. (A, layerKey h, ivKey h)) c"

text \<open>The keys of every hop are in its decryption object, as a successful build leaves them.\<close>

definition keyed :: "TunnelConfig \<Rightarrow> bool" where
  "keyed c = list_all (\<lambda>h. dKey (m_LayerDecryption (decryption h)) = layerKey h \<and>
     m_IVDecryption (decryption h) = ivKey h) c"

definition add_layers :: "aes \<Rightarrow> TunnelConfig \<Rightarrow> bytes \<Rightarrow> bytes" where
  "add_layers A c X = foldr (\<lambda>h. layer_dec (fst h) (snd h)) (hop_keys A c) X"

lemma add_layers_simps [simp]:
  "add_layers A [] X = X"
  "add_layers A (c @ d) X = add_layers A c (add_layers A d X)"
  "add_layers A [h] X = layer_dec A (layerKey h, ivKey h) X"
  by (simp_all add: add_layers_def hop_keys_def)

lemma length_add_layers: "aes_ok A \<Longrightarrow> length X = 1024 \<Longrightarrow> length (add_layers A c X) = 1024"
  unfolding add_layers_def by (rule tunnel_layers.ok_foldr) (simp_all add: hop_keys_def list_all_length)

lemma peel_eq: "keyed (rev c) \<Longrightarrow> snd (peel A c X) = add_layers A (rev c) X"
proof (induction c arbitrary: X)
  case (Cons h c)
  let ?d = "TunnelDecryption_Decrypt A X (decryption h)"
  have "fst ?d = layer_dec A (layerKey h, ivKey h) X"
    by (rule layer_dec_eq) (use Cons.prems in \<open>simp_all add: keyed_def\<close>)
  moreover have "snd (peel A c (fst ?d)) = add_layers A (rev c) (fst ?d)"
    by (rule Cons.IH) (use Cons.prems in \<open>simp add: keyed_def\<close>)
  ultimately show ?case by (simp add: case_prod_beta Let_def)
qed simp

lemma cbc_decrypt_dKey: "dKey (snd (cbc_decrypt A n bs c)) = dKey c"
  by (induction A n bs c rule: cbc_decrypt.induct) (simp_all add: Let_def case_prod_beta)

lemma Decrypt_keys [simp]:
  "dKey (m_LayerDecryption (snd (TunnelDecryption_Decrypt A bs t))) = dKey (m_LayerDecryption t)"
  "m_IVDecryption (snd (TunnelDecryption_Decrypt A bs t)) = m_IVDecryption t"
  by (simp_all add: TunnelDecryption_Decrypt_def Let_def case_prod_beta CBCDecryption_Decrypt_def
      CBCDecryption_SetIV_def cbc_decrypt_dKey)

lemma peel_keyed: "keyed c \<Longrightarrow> keyed (fst (peel A c X)) \<and> hop_keys A' (fst (peel A c X)) = hop_keys A' c"
proof (induction c arbitrary: X)
  case (Cons h c)
  then show ?case
    using Cons.IH [of "fst (TunnelDecryption_Decrypt A X (decryption h))"]
    by (simp add: case_prod_beta Let_def keyed_def hop_keys_def)
qed (simp add: keyed_def)

lemma keyed_rev: "keyed (rev c) = keyed c"
  by (simp add: keyed_def)

lemma Tunnel_EncryptTunnelMsg_is:
  assumes "keyed c" and "c \<noteq> []" and "aes_ok A" and "wire m X" and "msg_is out 4096 P" and "length P = 1028"
  shows "\<exists>c' m'. Tunnel_EncryptTunnelMsg A c m out = Some (c', m') \<and>
    msg_is m' 4096 (take 4 P @ add_layers A c X) \<and> moffset m' = moffset out \<and> keyed c' \<and> hop_keys A c' = hop_keys A c"
proof -
  let ?p = "peel A (rev c) X"
  have p: "snd ?p = add_layers A c X" using peel_eq [of "rev c" A X] assms(1) by simp
  have k: "keyed (rev (fst ?p))" "hop_keys A (rev (fst ?p)) = hop_keys A c"
    using peel_keyed [of "rev c" A X A] assms(1) by (simp_all add: keyed_rev hop_keys_def rev_map [symmetric])
  have "length (add_layers A c X) = 1024" using length_add_layers [OF assms(3)] assms(4) by (simp add: wire_def)
  from put_in_place [OF assms(5,6) this] show ?thesis
    using wire_read [OF assms(4)] assms(2) k by (auto simp: Tunnel_EncryptTunnelMsg_def case_prod_beta p)
qed

subsection \<open>Sending\<close>

lemma sha_nonempty: "genv_ok E \<Longrightarrow> gsha E x \<noteq> []"
  by (auto simp: genv_ok_def dest: spec [of _ x])

text \<open>What \<open>SendBuffer\<close> makes of the collected messages, for an encryption that acts on the 1024 bytes.\<close>

lemma seal_messages_is:
  assumes "genv_ok E"
    and "\<And>m P. msg_is m 4096 P \<Longrightarrow> length P = 1028 \<Longrightarrow> \<exists>m'. enc m = Some m' \<and> msg_is m' 4096 (take 4 P @ f (drop 4 P)) \<and> length (f (drop 4 P)) = 1024"
    and "list_all2 (\<lambda>m P. msg_is m 4096 P \<and> length P = 1028) ms Ps"
  shows "\<exists>ms' g'. seal_messages E enc ms g = Some (ms', g') \<and> list_all2 (\<lambda>m P. wire m (f (drop 4 P))) ms' Ps"
  using assms(3)
proof (induction ms Ps arbitrary: g rule: list_all2_induct)
  case (Cons m ms P Ps)
  obtain m1 where 1: "enc m = Some m1" "msg_is m1 4096 (take 4 P @ f (drop 4 P))" "length (f (drop 4 P)) = 1024"
    using assms(2) [of m P] Cons.hyps(1) by blast
  obtain rnd g1 where r: "genMsgID E g = (rnd, g1)" by (cases "genMsgID E g")
  obtain now g2 where n: "clock E g1 = (now, g2)" by (cases "clock E g1")
  obtain m2 where 2: "FillI2NPMessageHeader (gsha E) eI2NPTunnelData 0 rnd now m1 = Some m2"
      "msg_is m2 4096 (take 4 P @ f (drop 4 P))"
    using Fill_msg_is [where sha = "gsha E", OF 1(2) sha_nonempty [OF assms(1)]] by blast
  have "wire m2 (f (drop 4 P))" using wireI [OF 2(2)] 1(3) Cons.hyps(1) by simp
  moreover obtain ms' g3 where "seal_messages E enc ms g2 = Some (ms', g3)" "list_all2 (\<lambda>m P. wire m (f (drop 4 P))) ms' Ps"
    using Cons.IH [of g2] by blast
  ultimately show ?case using 1(1) 2(1) by (simp add: r n)
qed simp

lemma sealed_length: "sealed sha tid body P \<Longrightarrow> (\<And>x. 4 \<le> length (sha x)) \<Longrightarrow> length P = 1028"
  by (auto simp: sealed_def)

text \<open>The layers of the owner hide a sealed message; the hops take them off.\<close>

definition seals :: "(bytes \<Rightarrow> bytes) \<Rightarrow> tfrag list \<Rightarrow> bytes \<Rightarrow> bool" where
  "seals sha fs X \<longleftrightarrow> length X = 1024 \<and> (\<forall>tid. sealed sha tid (enc_frags fs) (be_bytes 4 tid @ X))"

lemma sealed_seals:
  assumes "sealed sha tid (enc_frags fs) P" and "\<And>x. 4 \<le> length (sha x)"
  shows "seals sha fs (drop 4 P)"
  using assms sealed_length [OF assms] by (auto simp: seals_def sealed_def) blast

lemma put_blocks_put_all:
  assumes "list_all (\<lambda>b. bdata b \<noteq> None) bs"
  shows "put_blocks E bs (gw, g) = map_option (\<lambda>(st, g'). (gw\<lparr>gwBuffer := st\<rparr>, g')) (put_all E bs (gwBuffer gw, g))"
  using assms
proof (induction bs arbitrary: gw g)
  case (Cons b bs)
  then show ?case
    by (cases "PutI2NPMsg E b (gwBuffer gw, g)")
       (auto simp: PutTunnelDataMsg_def option.map_comp comp_def case_prod_beta)
qed simp

lemma item_rel_data: "list_all2 item_rel bs xs \<Longrightarrow> list_all (\<lambda>b. bdata b \<noteq> None) bs"
  by (induction rule: list_all2_induct) (auto simp: item_rel_def block_rel_def)

text \<open>Messages put into a gateway and sent: the wire carries their fragments under the encryption.\<close>

lemma gateway_sends:
  assumes "genv_ok E" and "list_all2 item_rel blocks xs" and "puts_safe xs ([], None)"
    and "gw_rel E (gwBuffer gw) ([], None)"
    and enc: "\<And>m P. msg_is m 4096 P \<Longrightarrow> length P = 1028 \<Longrightarrow> \<exists>m'. enc m = Some m' \<and> msg_is m' 4096 (take 4 P @ f (drop 4 P)) \<and> length (f (drop 4 P)) = 1024"
  shows "\<exists>gw1 g1 sent gw2 g2 fss Xs. put_blocks E blocks (gw, g) = Some (gw1, g1) \<and>
    SendBuffer E enc (gw1, g1) = Some (sent, gw2, g2) \<and> concat fss = flat (abs_puts xs ([], None)) \<and>
    list_all2 (\<lambda>m X. wire m (f X)) sent Xs \<and> list_all2 (seals (gsha E)) fss Xs"
proof -
  have sha: "4 \<le> length (gsha E x)" for x using assms(1) by (simp add: genv_ok_def)
  obtain st1 g1 where p: "put_all E blocks (gwBuffer gw, g) = Some (st1, g1)"
      "gw_rel E st1 (abs_puts xs ([], None))"
    using put_all_gw [OF assms(1,2,4,3)] by blast
  obtain st2 g2 fss where c: "CompleteCurrentTunnelDataMessage E (st1, g1) = Some (st2, g2)"
      "concat fss = flat (abs_puts xs ([], None))"
      "list_all2 (\<lambda>m fs. \<exists>P tid. sealed (gsha E) tid (enc_frags fs) P \<and> msg_is m 4096 P) (gTunnelDataMsgs st2) fss"
    using Complete_flat [OF assms(1) p(2)] by blast
  obtain Ps where Ps: "list_all2 (\<lambda>m P. msg_is m 4096 P \<and> length P = 1028) (gTunnelDataMsgs st2) Ps"
      "list_all2 (\<lambda>fs P. seals (gsha E) fs (drop 4 P)) fss Ps"
  proof -
    have "\<exists>Ps. list_all2 (\<lambda>m P. msg_is m 4096 P \<and> length P = 1028) ms Ps \<and> list_all2 (\<lambda>fs P. seals (gsha E) fs (drop 4 P)) fss Ps"
      if "list_all2 (\<lambda>m fs. \<exists>P tid. sealed (gsha E) tid (enc_frags fs) P \<and> msg_is m 4096 P) ms fss" for ms
      using that
    proof (induction rule: list_all2_induct)
      case (Cons m ms fs fss)
      then obtain P tid Ps where "sealed (gsha E) tid (enc_frags fs) P" "msg_is m 4096 P"
        "list_all2 (\<lambda>m P. msg_is m 4096 P \<and> length P = 1028) ms Ps" "list_all2 (\<lambda>fs P. seals (gsha E) fs (drop 4 P)) fss Ps" by blast
      then show ?case
        using sealed_seals [of "gsha E" tid fs P] sealed_length [of "gsha E" tid _ P] sha
        by (intro exI [of _ "P # Ps"]) auto
    qed simp
    from this [OF c(3)] that show thesis by blast
  qed
  obtain sent g3 where s: "seal_messages E enc (gTunnelDataMsgs st2) g2 = Some (sent, g3)"
      "list_all2 (\<lambda>m P. wire m (f (drop 4 P))) sent Ps"
    using seal_messages_is [where enc = enc and f = f, OF assms(1) enc Ps(1)] by blast
  have "list_all2 (\<lambda>m X. wire m (f X)) sent (map (drop 4) Ps)" "list_all2 (seals (gsha E)) fss (map (drop 4) Ps)"
    using s(2) Ps(2) by (simp_all add: list_all2_conv_all_nth)
  moreover have "put_blocks E blocks (gw, g) = Some (gw\<lparr>gwBuffer := st1\<rparr>, g1)"
    using p(1) by (simp add: put_blocks_put_all [OF item_rel_data [OF assms(2)]])
  moreover have "\<exists>gw2. SendBuffer E enc (gw\<lparr>gwBuffer := st1\<rparr>, g1) = Some (sent, gw2, g3)"
    using c(1) s(1) by (simp add: SendBuffer_def)
  ultimately show ?thesis using c(2) by blast
qed

subsection \<open>The hops\<close>

definition transit_key :: "'a TransitTunnel_scheme \<Rightarrow> bytes \<times> bytes" where
  "transit_key t = (eKey (m_LayerEncryption (trEncryption t)), m_IVEncryption (trEncryption t))"

lemma cbc_encrypt_eKey: "eKey (snd (cbc_encrypt A n bs c)) = eKey c"
  by (induction A n bs c rule: cbc_encrypt.induct) (simp_all add: Let_def case_prod_beta)

lemma Encrypt_keys [simp]:
  "eKey (m_LayerEncryption (snd (TunnelEncryption_Encrypt A bs t))) = eKey (m_LayerEncryption t)"
  "m_IVEncryption (snd (TunnelEncryption_Encrypt A bs t)) = m_IVEncryption t"
  by (simp_all add: TunnelEncryption_Encrypt_def Let_def case_prod_beta CBCEncryption_Encrypt_def
      CBCEncryption_SetIV_def cbc_encrypt_eKey)

lemma TransitTunnel_EncryptTunnelMsg_is:
  assumes "aes_ok A" and "wire m X" and "msg_is out 4096 P" and "length P = 1028"
  shows "\<exists>t' m'. TransitTunnel_EncryptTunnelMsg A t m out = Some (t', m') \<and>
    msg_is m' 4096 (take 4 P @ layer_enc A (transit_key t) X) \<and> moffset m' = moffset out \<and>
    t' = t\<lparr>trEncryption := trEncryption t'\<rparr> \<and> transit_key t' = transit_key t"
proof -
  let ?e = "TunnelEncryption_Encrypt A X (trEncryption t)"
  have e: "fst ?e = layer_enc A (transit_key t) X" by (rule layer_enc_eq) (simp_all add: transit_key_def)
  have "length (layer_enc A (transit_key t) X) = 1024" using length_layer [OF assms(1)] assms(2) by (simp add: wire_def)
  from put_in_place [OF assms(3,4) this] show ?thesis
    using wire_read [OF assms(2)] by (auto simp: TransitTunnel_EncryptTunnelMsg_def case_prod_beta e transit_key_def)
qed

text \<open>A participant queues the message for the next hop, under its own layer and with the identifier
  of the next tunnel.\<close>

lemma Participant_is:
  assumes "genv_ok E" and "aes_ok A" and "wire m X"
  shows "\<exists>t' g' m'. Participant_HandleTunnelDataMsg E A m (t, g) = Some (t', g') \<and>
    m_TunnelDataMsgs t' = m_TunnelDataMsgs t @ [m'] \<and> wire m' (layer_enc A (transit_key t) X) \<and>
    msg_payload m' = Some (be_bytes 4 (trNextTunnelID t) @ layer_enc A (transit_key t) X) \<and>
    transit_key t' = transit_key t \<and> trNextTunnelID t' = trNextTunnelID t"
proof -
  let ?Y = "layer_enc A (transit_key t) X"
  have Y: "length ?Y = 1024" using length_layer [OF assms(2)] assms(3) by (simp add: wire_def)
  have k: "transit_key (base_of t) = transit_key t" by (simp add: transit_key_def base_of_def)
  obtain b m1 where 1: "TransitTunnel_EncryptTunnelMsg A (base_of t) m CreateEmptyTunnelDataMsg = Some (b, m1)"
      "msg_is m1 4096 (take 4 (replicate 1028 0) @ ?Y)" "transit_key b = transit_key t"
    using TransitTunnel_EncryptTunnelMsg_is [OF assms(2,3) empty_is, of "base_of t"] by (auto simp: k)
  obtain pre q post where buf: "mbuf m1 = pre @ (take 4 (replicate 1028 0) @ ?Y) @ q @ post" "length pre = GetPayload m1"
    using msg_is_split [OF 1(2)] Y by simp metis
  let ?m2 = "m1\<lparr>mbuf := pre @ (be_bytes 4 (trNextTunnelID t) @ ?Y) @ q @ post\<rparr>"
  have 2: "upd_buf (htobe32buf (GetPayload m1) (trNextTunnelID t)) m1 = Some ?m2"
    using mem_write_append [of "GetPayload m1" pre "be_bytes 4 (trNextTunnelID t)" "replicate 4 0" "?Y @ q @ post"] buf
    by (simp add: upd_buf_def htobe32buf_eq)
  have "GetPayloadLength m1 = 1028"
    using 1(2) Y by (auto simp: msg_is_def msg_payload_def dest!: mem_read_length)
  then have "msg_payload ?m2 = Some (be_bytes 4 (trNextTunnelID t) @ ?Y)"
    using mem_read_append [of "GetPayload m1" pre 1028 "be_bytes 4 (trNextTunnelID t) @ ?Y" "q @ post"] buf Y
    by (simp add: msg_payload_def i2np_access)
  then have m2: "msg_is ?m2 4096 (be_bytes 4 (trNextTunnelID t) @ ?Y)" using 1(2) buf by (simp add: msg_is_def)
  obtain rnd g1 where r: "genMsgID E g = (rnd, g1)" by (cases "genMsgID E g")
  obtain now g2 where n: "clock E g1 = (now, g2)" by (cases "clock E g1")
  obtain m3 where 3: "FillI2NPMessageHeader (gsha E) eI2NPTunnelData 0 rnd now ?m2 = Some m3"
      "msg_is m3 4096 (be_bytes 4 (trNextTunnelID t) @ ?Y)"
    using Fill_msg_is [where sha = "gsha E", OF m2 sha_nonempty [OF assms(1)]] by blast
  have "wire m3 ?Y" using wireI [OF 3(2)] Y by simp
  moreover have "Participant_HandleTunnelDataMsg E A m (t, g) =
      Some (t\<lparr>trEncryption := trEncryption b,
             m_NumTransmittedBytes := m_NumTransmittedBytes t + GetLength m,
             m_TunnelDataMsgs := m_TunnelDataMsgs t @ [m3]\<rparr>, g2)"
    using 3(1) by (simp add: Participant_HandleTunnelDataMsg_def 1 2 r n)
  ultimately show ?thesis using 3(2) 1(3) by (simp add: msg_is_def transit_key_def)
qed

fun participant_msgs ::
    "'g genv \<Rightarrow> aes \<Rightarrow> I2NPMessage list \<Rightarrow> TransitTunnelParticipant \<times> 'g \<Rightarrow> (TransitTunnelParticipant \<times> 'g) option" where
  "participant_msgs E A [] s = Some s"
| "participant_msgs E A (m # ms) s = Option.bind (Participant_HandleTunnelDataMsg E A m s) (participant_msgs E A ms)"

lemma participant_msgs_is:
  assumes "genv_ok E" and "aes_ok A" and "list_all2 wire ms Xs"
  shows "\<exists>t' g' out. participant_msgs E A ms (t, g) = Some (t', g') \<and> m_TunnelDataMsgs t' = m_TunnelDataMsgs t @ out \<and>
    list_all2 wire out (map (layer_enc A (transit_key t)) Xs) \<and> transit_key t' = transit_key t"
  using assms(3)
proof (induction ms Xs arbitrary: t g rule: list_all2_induct)
  case (Cons m ms X Xs)
  obtain t1 g1 m1 where 1: "Participant_HandleTunnelDataMsg E A m (t, g) = Some (t1, g1)"
      "m_TunnelDataMsgs t1 = m_TunnelDataMsgs t @ [m1]" "wire m1 (layer_enc A (transit_key t) X)" "transit_key t1 = transit_key t"
    using Participant_is [OF assms(1,2) Cons.hyps(1), of t g] by blast
  obtain t2 g2 out where "participant_msgs E A ms (t1, g1) = Some (t2, g2)" "m_TunnelDataMsgs t2 = m_TunnelDataMsgs t1 @ out"
    "list_all2 wire out (map (layer_enc A (transit_key t1)) Xs)" "transit_key t2 = transit_key t1"
    using Cons.IH [of t1 g1] by blast
  with 1 show ?case by (intro exI [of _ t2] exI [of _ g2] exI [of _ "m1 # out"]) simp
qed simp

text \<open>
  The transports between routers are a function on messages; the theorems need that a message arrives
  with its payload, in a buffer of its own.
\<close>

definition delivers :: "(I2NPMessage \<Rightarrow> I2NPMessage) \<Rightarrow> bool" where
  "delivers T \<longleftrightarrow> (\<forall>m. moffset m + 16 \<le> mlen m \<longrightarrow> msg_payload m \<noteq> None \<longrightarrow>
     msg_payload (T m) = msg_payload m \<and> moffset (T m) + 16 \<le> mlen (T m))"

lemma delivers_wire: "delivers T \<Longrightarrow> list_all2 wire ms Xs \<Longrightarrow> list_all2 wire (map T ms) Xs"
  by (auto simp: list_all2_conv_all_nth delivers_def wire_def)

text \<open>A chain of participants: each handles the messages that arrive and flushes them to the next.\<close>

fun relay ::
    "'g genv \<Rightarrow> aes \<Rightarrow> (I2NPMessage \<Rightarrow> I2NPMessage) \<Rightarrow> TransitTunnelParticipant list \<Rightarrow> I2NPMessage list \<Rightarrow> 'g \<Rightarrow>
     (I2NPMessage list \<times> TransitTunnelParticipant list \<times> 'g) option" where
  "relay E A T [] ms g = Some (ms, [], g)"
| "relay E A T (p # ps) ms g = do {
     (p1, g1) \<leftarrow> participant_msgs E A (map T ms) (p, g);
     let (out, p2) = Participant_FlushTunnelDataMsgs p1;
     (out', ps', g2) \<leftarrow> relay E A T ps out g1;
     Some (out', p2 # ps', g2)
   }"

definition idle :: "TransitTunnelParticipant \<Rightarrow> bool" where
  "idle p \<longleftrightarrow> m_TunnelDataMsgs p = []"

lemma relay_is:
  assumes "genv_ok E" and "aes_ok A" and "delivers T" and "list_all2 wire ms Xs" and "list_all idle ps"
  shows "\<exists>out ps' g'. relay E A T ps ms g = Some (out, ps', g') \<and> list_all idle ps' \<and>
    list_all2 wire out (map (fold (\<lambda>h. layer_enc (fst h) (snd h)) (map (\<lambda>p. (A, transit_key p)) ps)) Xs)"
  using assms(4,5)
proof (induction ps arbitrary: ms Xs g)
  case (Cons p ps)
  obtain p1 g1 out where 1: "participant_msgs E A (map T ms) (p, g) = Some (p1, g1)" "m_TunnelDataMsgs p1 = out"
      "list_all2 wire out (map (layer_enc A (transit_key p)) Xs)"
    using participant_msgs_is [OF assms(1,2) delivers_wire [OF assms(3) Cons.prems(1)], of p g] Cons.prems(2)
    by (auto simp: idle_def)
  obtain out' ps' g2 where 2: "relay E A T ps out g1 = Some (out', ps', g2)" "list_all idle ps'"
      "list_all2 wire out' (map (fold (\<lambda>h. layer_enc (fst h) (snd h)) (map (\<lambda>p. (A, transit_key p)) ps)) (map (layer_enc A (transit_key p)) Xs))"
    using Cons.IH [OF 1(3), of g1] Cons.prems(2) by auto
  show ?case using 1 2 by (auto simp: Participant_FlushTunnelDataMsgs_def comp_def idle_def [of p1] idle_def [of "p1\<lparr>m_TunnelDataMsgs := []\<rparr>"])
qed simp

subsection \<open>The ends of a tunnel\<close>

lemma IsInbound_kept:
  "HandleOutOfSequenceFragment i m ep = Some (out, ep') \<Longrightarrow> m_IsInbound ep' = m_IsInbound ep"
  "HandleFollowOnFragment i l m ep = Some (out, ep') \<Longrightarrow> m_IsInbound ep' = m_IsInbound ep"
  "process_fragment h data ep = Some (out, ep') \<Longrightarrow> m_IsInbound ep' = m_IsInbound ep"
proof -
  show 1: "HandleOutOfSequenceFragment i m ep = Some (out, ep') \<Longrightarrow> m_IsInbound ep' = m_IsInbound ep" for i m ep out ep'
    by (auto simp: HandleOutOfSequenceFragment_def Let_def split: option.splits if_splits bind_splits)
  show 2: "HandleFollowOnFragment i l m ep = Some (out, ep') \<Longrightarrow> m_IsInbound ep' = m_IsInbound ep" for i l m ep out ep'
    by (auto simp: HandleFollowOnFragment_def AddOutOfSequenceFragment_def Let_def dest!: 1
        split: option.splits if_splits bind_splits)
  show "process_fragment h data ep = Some (out, ep') \<Longrightarrow> m_IsInbound ep' = m_IsInbound ep"
    by (auto simp: process_fragment_def Let_def dest!: 1 2 split: if_splits)
qed

lemma process_fragments_IsInbound:
  "process_fragments stop pos msg ep = Some (out, ep') \<Longrightarrow> m_IsInbound ep' = m_IsInbound ep"
proof (induction stop pos msg ep arbitrary: out ep' rule: process_fragments.induct)
  case (1 stop pos msg ep)
  from "1.prems" show ?case
    by (subst (asm) process_fragments.simps)
       (auto dest: "1.IH" IsInbound_kept(3) split: if_splits option.splits)
qed

lemma receive_blocks_IsInbound:
  "receive_blocks sha msg ep = Some (out, ep') \<Longrightarrow> m_IsInbound ep' = m_IsInbound ep"
  by (auto simp: receive_blocks_def Let_def dest!: process_fragments_IsInbound
      split: option.splits if_splits bind_splits)

lemma HandleDecrypted_is:
  assumes "genv_ok E" and "carries (gsha E) m fs" and "ep_rel ep a" and "list_all frag_ok fs" and "recvs_fit fs a"
    and "list_all (\<lambda>(d, b). length b \<le> 32000) (fst (abs_recvs fs a))"
  shows "\<exists>acts ep' g'. HandleDecryptedTunnelDataMsg E us m ep g = Some (acts, ep', g') \<and>
    list_all2 (action_is us (m_IsInbound ep)) acts (fst (abs_recvs fs a)) \<and> ep_rel ep' (snd (abs_recvs fs a)) \<and>
    m_IsInbound ep' = m_IsInbound ep"
proof -
  have sha: "4 \<le> length (gsha E x)" for x using assms(1) by (simp add: genv_ok_def)
  obtain blocks ep' where r: "receive_blocks (gsha E) m ep = Some (blocks, ep')"
      "list_all2 block_is blocks (fst (abs_recvs fs a))" "ep_rel ep' (snd (abs_recvs fs a))"
    using receive_blocks_sim [where sha = "gsha E", OF _ _ _ sha assms(3-5), of _ _ m] assms(2)
    by (auto simp: carries_def sim_def) blast
  obtain acts g' where "handle_all E us (m_IsInbound ep) blocks g = Some (acts, g')"
      "list_all2 (action_is us (m_IsInbound ep)) acts (fst (abs_recvs fs a))"
    using handle_all_is [OF assms(1) r(2) assms(6)] by blast
  with r show ?thesis using receive_blocks_IsInbound [OF r(1)] by (simp add: HandleDecryptedTunnelDataMsg_def)
qed

lemma be_bytes_zero: "be_bytes 4 (0 :: u32) = replicate 4 0"
  by (simp add: le_bytes_def upt_rec numeral_eq_Suc)

lemma seals_carries:
  "seals sha fs X \<Longrightarrow> msg_is m 4096 (take 4 (replicate 1028 0) @ X) \<Longrightarrow> moffset m \<le> 100 \<Longrightarrow> carries sha m fs"
  by (auto simp: carries_def seals_def be_bytes_zero [symmetric])

lemma empty_offset: "moffset CreateEmptyTunnelDataMsg = 2"
  by (simp add: CreateEmptyTunnelDataMsg_def add_len_def NewI2NPShortMessage_def I2NPMessageBuffer_def)

text \<open>
  Receiving a sequence of tunnel messages is the same at both kinds of ends; \<open>h\<close> is the handler, \<open>R\<close>
  the endpoint inside its state.
\<close>

fun handle_msgs :: "(I2NPMessage \<Rightarrow> 's \<times> 'g \<Rightarrow> ('a list \<times> 's \<times> 'g) option) \<Rightarrow> I2NPMessage list \<Rightarrow> 's \<times> 'g \<Rightarrow>
    ('a list \<times> 's \<times> 'g) option" where
  "handle_msgs h [] s = Some ([], s)"
| "handle_msgs h (m # ms) s = do {
     (acts, s1) \<leftarrow> h m s;
     (acts', s2) \<leftarrow> handle_msgs h ms s1;
     Some (acts @ acts', s2)
   }"

lemma handle_msgs_is:
  assumes step: "\<And>m X fs t g a. wire m (f X) \<Longrightarrow> seals sha fs X \<Longrightarrow> R t a \<Longrightarrow> list_all frag_ok fs \<Longrightarrow> recvs_fit fs a \<Longrightarrow>
      list_all (\<lambda>(d, b). length b \<le> 32000) (fst (abs_recvs fs a)) \<Longrightarrow>
      \<exists>acts t' g'. h m (t, g) = Some (acts, t', g') \<and> list_all2 Q acts (fst (abs_recvs fs a)) \<and> R t' (snd (abs_recvs fs a))"
    and "list_all2 (\<lambda>m X. wire m (f X)) ms Xs" and "list_all2 (seals sha) fss Xs" and "R t a"
    and "list_all frag_ok (concat fss)" and "recvs_fit (concat fss) a"
    and "list_all (\<lambda>(d, b). length b \<le> 32000) (fst (abs_recvs (concat fss) a))"
  shows "\<exists>acts t' g'. handle_msgs h ms (t, g) = Some (acts, t', g') \<and>
    list_all2 Q acts (fst (abs_recvs (concat fss) a)) \<and> R t' (snd (abs_recvs (concat fss) a))"
  using assms(2-)
proof (induction ms Xs arbitrary: fss t g a rule: list_all2_induct)
  case Nil
  then show ?case by auto
next
  case (Cons m ms X Xs)
  obtain fs fss' where f: "fss = fs # fss'" "seals sha fs X" "list_all2 (seals sha) fss' Xs"
    using Cons.prems(1) by (auto simp: list_all2_Cons2)
  let ?a = "snd (abs_recvs fs a)"
  have app: "fst (abs_recvs (concat fss) a) = fst (abs_recvs fs a) @ fst (abs_recvs (concat fss') ?a)"
    "snd (abs_recvs (concat fss) a) = snd (abs_recvs (concat fss') ?a)"
    by (simp_all add: f(1) abs_recvs_append Let_def case_prod_beta)
  have p: "list_all frag_ok fs" "list_all frag_ok (concat fss')" "recvs_fit fs a" "recvs_fit (concat fss') ?a"
    using Cons.prems(3,4) by (simp_all add: f(1) recvs_fit_append)
  have l: "list_all (\<lambda>(d, b). length b \<le> 32000) (fst (abs_recvs fs a))"
    "list_all (\<lambda>(d, b). length b \<le> 32000) (fst (abs_recvs (concat fss') ?a))"
    using Cons.prems(5) by (simp_all add: app)
  obtain acts t1 g1 where 1: "h m (t, g) = Some (acts, t1, g1)" "list_all2 Q acts (fst (abs_recvs fs a))" "R t1 ?a"
    using step [OF Cons.hyps(1) f(2) Cons.prems(2) p(1,3) l(1)] by blast
  obtain acts' t2 g2 where 2: "handle_msgs h ms (t1, g1) = Some (acts', t2, g2)"
    "list_all2 Q acts' (fst (abs_recvs (concat fss') ?a))" "R t2 (snd (abs_recvs (concat fss') ?a))"
    using Cons.IH [OF f(3) 1(3) p(2,4) l(2)] by blast
  show ?case using 1 2 by (auto simp: app intro!: list_all2_appendI)
qed

lemma outbound_encrypt_is:
  assumes "keyed (m_Config t)" and "m_Config t \<noteq> []" and "aes_ok A" and "msg_is m 4096 P" and "length P = 1028"
  shows "\<exists>m'. outbound_encrypt A t m = Some m' \<and> msg_is m' 4096 (take 4 P @ add_layers A (m_Config t) (drop 4 P)) \<and>
    length (add_layers A (m_Config t) (drop 4 P)) = 1024"
  using Tunnel_EncryptTunnelMsg_is [OF assms(1-3) wireI [OF assms(4,5)] assms(4,5)]
    length_add_layers [OF assms(3), of "drop 4 P"] assms(5)
  by (auto simp: outbound_encrypt_def)

lemma Endpoint_step:
  assumes "genv_ok E" and "aes_ok A" and "wire m X" and "seals (gsha E) fs (layer_enc A (transit_key t) X)"
    and "ep_rel (trEndpoint t) a" and "list_all frag_ok fs" and "recvs_fit fs a"
    and "list_all (\<lambda>(d, b). length b \<le> 32000) (fst (abs_recvs fs a))"
  shows "\<exists>acts t' g'. Endpoint_HandleTunnelDataMsg E A us m (t, g) = Some (acts, t', g') \<and>
    list_all2 (action_is us (m_IsInbound (trEndpoint t))) acts (fst (abs_recvs fs a)) \<and>
    ep_rel (trEndpoint t') (snd (abs_recvs fs a)) \<and> transit_key t' = transit_key t \<and>
    m_IsInbound (trEndpoint t') = m_IsInbound (trEndpoint t)"
proof -
  have k: "transit_key (base_of t) = transit_key t" by (simp add: transit_key_def base_of_def)
  obtain b m1 where 1: "TransitTunnel_EncryptTunnelMsg A (base_of t) m CreateEmptyTunnelDataMsg = Some (b, m1)"
      "msg_is m1 4096 (take 4 (replicate 1028 0) @ layer_enc A (transit_key t) X)" "moffset m1 = 2"
      "transit_key b = transit_key t"
    using TransitTunnel_EncryptTunnelMsg_is [OF assms(2,3) empty_is, of "base_of t"] by (auto simp: k empty_offset)
  have "carries (gsha E) m1 fs" using seals_carries [OF assms(4) 1(2)] 1(3) by simp
  from HandleDecrypted_is [OF assms(1) this assms(5-8), of us g] 1(4) show ?thesis
    by (auto simp: Endpoint_HandleTunnelDataMsg_def 1(1) transit_key_def)
qed

lemma Inbound_step:
  assumes "genv_ok E" and "aes_ok A" and "wire m X" and "seals (gsha E) fs (add_layers A (m_Config t) X)"
    and "keyed (m_Config t)" and "m_Config t \<noteq> []"
    and "ep_rel (m_Endpoint t) a" and "list_all frag_ok fs" and "recvs_fit fs a"
    and "list_all (\<lambda>(d, b). length b \<le> 32000) (fst (abs_recvs fs a))"
  shows "\<exists>acts t' g'. InboundTunnel_HandleTunnelDataMsg E A us this m (t, g) = Some (acts, t', g') \<and>
    list_all2 (action_is us (m_IsInbound (m_Endpoint t))) acts (fst (abs_recvs fs a)) \<and>
    ep_rel (m_Endpoint t') (snd (abs_recvs fs a)) \<and> keyed (m_Config t') \<and> hop_keys A (m_Config t') = hop_keys A (m_Config t) \<and>
    m_IsInbound (m_Endpoint t') = m_IsInbound (m_Endpoint t)"
proof -
  let ?t = "if IsFailed t then t\<lparr>m_State := eTunnelStateEstablished\<rparr> else t"
  have f: "m_Config ?t = m_Config t" "m_Endpoint ?t = m_Endpoint t" by simp_all
  obtain c m1 where 1: "Tunnel_EncryptTunnelMsg A (m_Config t) m CreateEmptyTunnelDataMsg = Some (c, m1)"
      "msg_is m1 4096 (take 4 (replicate 1028 0) @ add_layers A (m_Config t) X)" "moffset m1 = 2"
      "keyed c" "hop_keys A c = hop_keys A (m_Config t)"
    using Tunnel_EncryptTunnelMsg_is [OF assms(5,6,2,3) empty_is] by (auto simp: empty_offset)
  have "msg_is (m1\<lparr>mfrom := Some this\<rparr>) 4096 (take 4 (replicate 1028 0) @ add_layers A (m_Config t) X)"
    using 1(2) by (auto simp: msg_is_def msg_payload_def i2np_access)
  then have "carries (gsha E) (m1\<lparr>mfrom := Some this\<rparr>) fs" using seals_carries [OF assms(4)] 1(3) by simp
  from HandleDecrypted_is [OF assms(1) this assms(7-10), of us g] 1(4,5) show ?thesis
    unfolding InboundTunnel_HandleTunnelDataMsg_def fst_conv snd_conv Let_def f 1(1) Option.bind.bind_lunit prod.case
    by auto
qed

lemma puts_recv:
  assumes "puts_safe xs ([], None)" and "list_all2 item_rel blocks xs" and "concat fss = flat (abs_puts xs ([], None))"
  shows "list_all frag_ok (concat fss)" and "recvs_fit (concat fss) (Map.empty, Map.empty)"
    and "abs_recvs (concat fss) (Map.empty, Map.empty) = (delivered xs, (Map.empty, Map.empty))"
    and "list_all (\<lambda>(d, b). length b \<le> 32000) (delivered xs)"
proof -
  have ok: "list_all (\<lambda>(d, i, data). delivery_ok d \<and> i \<noteq> 0 \<and> length data \<le> 29000) xs"
    using assms(2) by (induction rule: list_all2_induct) (auto simp: item_rel_def block_rel_def)
  from abs_puts_recv [OF assms(1) ok] show "list_all frag_ok (concat fss)"
      "recvs_fit (concat fss) (Map.empty, Map.empty)"
      "abs_recvs (concat fss) (Map.empty, Map.empty) = (delivered xs, (Map.empty, Map.empty))"
    by (auto simp: assms(3) flat_def)
  show "list_all (\<lambda>(d, b). length b \<le> 32000) (delivered xs)"
    using ok by (auto simp: delivered_def list_all_iff)
qed

text \<open>
  C3. An outbound tunnel delivers end to end, outside the case in which the gateway loses a message: the
  messages its owner sends in one batch, encrypted in advance for every hop, passed on by all
  participants, each adding its layer, and decrypted by the last hop, make that hop do with each
  message, in order, exactly what its delivery instructions say. The conditions: the hops hold the keys
  of the configuration and the transports deliver payloads; the gateway and the endpoint are fresh and
  the participants have nothing waiting; every message has at most 29000 bytes and a nonzero message
  identifier (\<open>item_rel\<close>); and no message would fit an empty tunnel message but not the rest of the
  current one (\<open>puts_safe\<close>), the case in which \<open>PutI2NPMsg_loses_short_message\<close> shows that it is lost.
\<close>

theorem outbound_tunnel_delivers:
  assumes "genv_ok E" and "aes_ok A" and "delivers T"
    and "keyed (m_Config t)" and "map transit_key ps @ [transit_key e] = map (\<lambda>h. (layerKey h, ivKey h)) (m_Config t)"
    and "gwBuffer (m_Gateway t) = fst (newTunnelGatewayBuffer E tid g0)" and "list_all idle ps"
    and "trEndpoint e = newTunnelEndpoint False"
    and "list_all2 item_rel blocks xs" and "puts_safe xs ([], None)"
  shows "\<exists>sent t' g1 out ps' g2 acts e' g3.
    OutboundTunnel_SendTunnelDataMsgs E A blocks (t, g) = Some (sent, t', g1) \<and>
    relay E A T ps sent g1 = Some (out, ps', g2) \<and>
    handle_msgs (Endpoint_HandleTunnelDataMsg E A us) (map T out) (e, g2) = Some (acts, e', g3) \<and>
    list_all2 (action_is us False) acts (delivered xs)"
proof -
  let ?c = "m_Config t"
  let ?enc = "\<lambda>h. layer_enc (fst h) (snd h)"
  let ?hops = "fold ?enc (map (\<lambda>p. (A, transit_key p)) ps)"
  have ne: "?c \<noteq> []" using assms(5) by (auto dest!: arg_cong [where f = length])
  have keys: "hop_keys A ?c = map (\<lambda>p. (A, transit_key p)) ps @ [(A, transit_key e)]"
    using arg_cong [OF assms(5), of "map (\<lambda>k. (A, k))"] by (simp add: hop_keys_def comp_def)
  have gw: "gw_rel E (gwBuffer (m_Gateway t)) ([], None)" unfolding assms(6) by (rule new_gw [OF assms(1)])
  obtain gw1 g1 sent gw2 g2 fss Xs where s: "put_blocks E blocks (m_Gateway t, g) = Some (gw1, g1)"
      "SendBuffer E (outbound_encrypt A t) (gw1, g1) = Some (sent, gw2, g2)" "concat fss = flat (abs_puts xs ([], None))"
      "list_all2 (\<lambda>m X. wire m (add_layers A ?c X)) sent Xs" "list_all2 (seals (gsha E)) fss Xs"
    using gateway_sends [where enc = "outbound_encrypt A t" and f = "add_layers A ?c" and g = g,
        OF assms(1,9,10) gw outbound_encrypt_is [OF assms(4) ne assms(2)]] by blast
  have "list_all2 wire sent (map (add_layers A ?c) Xs)" using s(4) by (simp add: list_all2_conv_all_nth)
  from relay_is [OF assms(1-3) this assms(7), of g2] obtain out ps' g3 where
    r: "relay E A T ps sent g2 = Some (out, ps', g3)" "list_all2 wire out (map ?hops (map (add_layers A ?c) Xs))"
    by blast
  have w: "list_all2 (\<lambda>m X. wire m (?hops (add_layers A ?c X))) (map T out) Xs"
    using delivers_wire [OF assms(3) r(2)] by (simp add: list.rel_map)
  have restore: "layer_enc A (transit_key e) (?hops (add_layers A ?c X)) = X" if "length X = 1024" for X
    using tunnel_layers.hops_restore [of "hop_keys A ?c" X] that assms(2)
    by (simp add: add_layers_def keys list_all_iff)
  note rc = puts_recv [OF assms(10,9) s(3)]
  let ?R = "\<lambda>(e' :: TransitTunnelEndpoint) a. ep_rel (trEndpoint e') a \<and> transit_key e' = transit_key e \<and> \<not> m_IsInbound (trEndpoint e')"
  have "\<exists>acts e' g'. handle_msgs (Endpoint_HandleTunnelDataMsg E A us) (map T out) (e, g3) = Some (acts, e', g') \<and>
      list_all2 (action_is us False) acts (fst (abs_recvs (concat fss) (Map.empty, Map.empty))) \<and>
      ?R e' (snd (abs_recvs (concat fss) (Map.empty, Map.empty)))"
  proof (rule handle_msgs_is [where f = "\<lambda>X. ?hops (add_layers A ?c X)" and sha = "gsha E", OF _ w s(5)])
    show "?R e (Map.empty, Map.empty)" by (simp add: assms(8) new_ep) (simp add: newTunnelEndpoint_def)
    fix m X fs g a and e' :: TransitTunnelEndpoint
    assume a: "wire m (?hops (add_layers A ?c X))" "seals (gsha E) fs X" "?R e' a" "list_all frag_ok fs" "recvs_fit fs a"
      "list_all (\<lambda>(d, b). length b \<le> 32000) (fst (abs_recvs fs a))"
    have "seals (gsha E) fs (layer_enc A (transit_key e') (?hops (add_layers A ?c X)))"
      using a(2,3) restore [of X] by (simp add: seals_def)
    from Endpoint_step [OF assms(1,2) a(1) this _ a(4-6), of us g] a(3)
    show "\<exists>acts t' g'. Endpoint_HandleTunnelDataMsg E A us m (e', g) = Some (acts, t', g') \<and>
        list_all2 (action_is us False) acts (fst (abs_recvs fs a)) \<and> ?R t' (snd (abs_recvs fs a))" by auto
  qed (use rc in simp_all)
  moreover have "OutboundTunnel_SendTunnelDataMsgs E A blocks (t, g) = Some (sent, t\<lparr>m_Gateway := gw2\<rparr>, g2)"
    using s(1,2) by (simp add: OutboundTunnel_SendTunnelDataMsgs_def)
  ultimately show ?thesis using r(1) rc(3) by auto
qed

lemma transit_encrypt_is:
  assumes "aes_ok A" and "msg_is m 4096 P" and "length P = 1028"
  shows "\<exists>m'. map_option snd (TransitTunnel_EncryptTunnelMsg A t m m) = Some m' \<and>
    msg_is m' 4096 (take 4 P @ layer_enc A (transit_key t) (drop 4 P)) \<and> length (layer_enc A (transit_key t) (drop 4 P)) = 1024"
  using TransitTunnel_EncryptTunnelMsg_is [OF assms(1) wireI [OF assms(2,3)] assms(2,3), of t]
    length_layer(1) [OF assms(1), of "drop 4 P"] assms(3)
  by auto

text \<open>A gateway takes one message after another, all for local delivery.\<close>

fun gateway_msgs ::
    "'g genv \<Rightarrow> I2NPMessage list \<Rightarrow> TransitTunnelGateway \<times> 'g \<Rightarrow> (TransitTunnelGateway \<times> 'g) option" where
  "gateway_msgs E [] s = Some s"
| "gateway_msgs E (m # ms) s = Option.bind (Gateway_SendTunnelDataMsg E m s) (gateway_msgs E ms)"

definition local_block :: "I2NPMessage \<Rightarrow> TunnelMessageBlock" where
  "local_block m = \<lparr>deliveryType = eDeliveryTypeLocal, bhash = [], btunnelID = 0, bdata = Some m\<rparr>"

lemma gateway_msgs_eq:
  "gateway_msgs E ms (t, g) = map_option (\<lambda>(gw, g'). (t\<lparr>trGateway := gw\<rparr>, g')) (put_blocks E (map local_block ms) (trGateway t, g))"
proof (induction ms arbitrary: t g)
  case (Cons m ms)
  show ?case
    by (cases "PutTunnelDataMsg E (local_block m) (trGateway t, g)")
       (auto simp: Gateway_SendTunnelDataMsg_def local_block_def [symmetric] Cons.IH option.map_comp comp_def case_prod_beta)
qed simp

text \<open>
  C4. An inbound tunnel delivers end to end, outside the case in which the gateway loses a message:
  messages handed to its gateway, flushed, passed on by all participants and received by the owner, who
  takes off the layers of all hops, are handled there in order and unchanged. The conditions are those
  of the outbound tunnel: the hops hold the keys of the configuration and the transports deliver
  payloads; the gateway and the endpoint are fresh and the participants have nothing waiting; every
  message has at most 29000 bytes and a nonzero message identifier (\<open>item_rel\<close>); and no message would
  fit an empty tunnel message but not the rest of the current one (\<open>puts_safe\<close>), the case in which
  \<open>PutI2NPMsg_loses_short_message\<close> shows that it is lost.
\<close>

theorem inbound_tunnel_delivers:
  assumes "genv_ok E" and "aes_ok A" and "delivers T"
    and "keyed (m_Config t)" and "transit_key gw # map transit_key ps = map (\<lambda>h. (layerKey h, ivKey h)) (m_Config t)"
    and "gwBuffer (trGateway gw) = fst (newTunnelGatewayBuffer E tid g0)" and "list_all idle ps"
    and "m_Endpoint t = newTunnelEndpoint True"
    and "list_all2 (\<lambda>m x. item_rel (local_block m) x) msgs xs" and "puts_safe xs ([], None)"
  shows "\<exists>gw1 g1 sent gw2 g2 out ps' g3 acts t' g4.
    gateway_msgs E msgs (gw, g) = Some (gw1, g1) \<and> Gateway_FlushTunnelDataMsgs E A (gw1, g1) = Some (sent, gw2, g2) \<and>
    relay E A T ps sent g2 = Some (out, ps', g3) \<and>
    handle_msgs (InboundTunnel_HandleTunnelDataMsg E A us this) (map T out) (t, g3) = Some (acts, t', g4) \<and>
    list_all2 (action_is us True) acts (delivered xs)"
proof -
  let ?c = "m_Config t" and ?k = "transit_key gw"
  let ?enc = "\<lambda>h. layer_enc (fst h) (snd h)"
  let ?hops = "fold ?enc (map (\<lambda>p. (A, transit_key p)) ps)"
  have ne: "?c \<noteq> []" using assms(5) by auto
  have keys: "hop_keys A ?c = (A, ?k) # map (\<lambda>p. (A, transit_key p)) ps"
    using arg_cong [OF assms(5), of "map (\<lambda>k. (A, k))"] by (simp add: hop_keys_def comp_def)
  have fresh: "gw_rel E (gwBuffer (trGateway gw)) ([], None)" unfolding assms(6) by (rule new_gw [OF assms(1)])
  have items: "list_all2 item_rel (map local_block msgs) xs" using assms(9) by (simp add: list_all2_conv_all_nth)
  obtain gw1 g1 sent gw2 g2 fss Xs where s: "put_blocks E (map local_block msgs) (trGateway gw, g) = Some (gw1, g1)"
      "SendBuffer E (\<lambda>m. map_option snd (TransitTunnel_EncryptTunnelMsg A (base_of gw) m m)) (gw1, g1) = Some (sent, gw2, g2)"
      "concat fss = flat (abs_puts xs ([], None))"
      "list_all2 (\<lambda>m X. wire m (layer_enc A (transit_key (base_of gw)) X)) sent Xs" "list_all2 (seals (gsha E)) fss Xs"
    using gateway_sends [where enc = "\<lambda>m. map_option snd (TransitTunnel_EncryptTunnelMsg A (base_of gw) m m)" and f = "layer_enc A (transit_key (base_of gw))" and g = g,
        OF assms(1) items assms(10) fresh transit_encrypt_is [OF assms(2)]] by blast
  have k: "transit_key (base_of gw) = ?k" by (simp add: transit_key_def base_of_def)
  have "list_all2 wire sent (map (layer_enc A ?k) Xs)" using s(4) by (simp add: list_all2_conv_all_nth k)
  from relay_is [OF assms(1-3) this assms(7), of g2] obtain out ps' g3 where
    r: "relay E A T ps sent g2 = Some (out, ps', g3)" "list_all2 wire out (map ?hops (map (layer_enc A ?k) Xs))"
    by blast
  have w: "list_all2 (\<lambda>m X. wire m (?hops (layer_enc A ?k X))) (map T out) Xs"
    using delivers_wire [OF assms(3) r(2)] by (simp add: list.rel_map)
  have restore: "foldr (\<lambda>h. layer_dec (fst h) (snd h)) (hop_keys A ?c) (?hops (layer_enc A ?k X)) = X" if "length X = 1024" for X
    using tunnel_layers.creator_restores [of "hop_keys A ?c" X] that assms(2)
    by (simp add: keys list_all_iff)
  note rc = puts_recv [OF assms(10) items s(3)]
  let ?R = "\<lambda>(t' :: InboundTunnel) a. ep_rel (m_Endpoint t') a \<and> keyed (m_Config t') \<and> hop_keys A (m_Config t') = hop_keys A ?c \<and> m_IsInbound (m_Endpoint t')"
  have "\<exists>acts t' g'. handle_msgs (InboundTunnel_HandleTunnelDataMsg E A us this) (map T out) (t, g3) = Some (acts, t', g') \<and>
      list_all2 (action_is us True) acts (fst (abs_recvs (concat fss) (Map.empty, Map.empty))) \<and>
      ?R t' (snd (abs_recvs (concat fss) (Map.empty, Map.empty)))"
  proof (rule handle_msgs_is [where f = "\<lambda>X. ?hops (layer_enc A ?k X)" and sha = "gsha E", OF _ w s(5)])
    show "?R t (Map.empty, Map.empty)" by (simp add: assms(4,8) new_ep) (simp add: newTunnelEndpoint_def)
    fix m X fs g a and t' :: InboundTunnel
    assume a: "wire m (?hops (layer_enc A ?k X))" "seals (gsha E) fs X" "?R t' a" "list_all frag_ok fs" "recvs_fit fs a"
      "list_all (\<lambda>(d, b). length b \<le> 32000) (fst (abs_recvs fs a))"
    have "seals (gsha E) fs (add_layers A (m_Config t') (?hops (layer_enc A ?k X)))"
      using a(2,3) restore [of X] by (simp add: seals_def add_layers_def)
    moreover have "m_Config t' \<noteq> []" using a(3) ne by (auto simp: hop_keys_def)
    ultimately show "\<exists>acts u g'. InboundTunnel_HandleTunnelDataMsg E A us this m (t', g) = Some (acts, u, g') \<and>
        list_all2 (action_is us True) acts (fst (abs_recvs fs a)) \<and> ?R u (snd (abs_recvs fs a))"
      using Inbound_step [OF assms(1,2) a(1), of fs t' a us this g] a(3-6) by auto
  qed (use rc in simp_all)
  moreover have "gateway_msgs E msgs (gw, g) = Some (gw\<lparr>trGateway := gw1\<rparr>, g1)" using s(1) by (simp add: gateway_msgs_eq)
  moreover have "Gateway_FlushTunnelDataMsgs E A (gw\<lparr>trGateway := gw1\<rparr>, g1) = Some (sent, gw\<lparr>trGateway := gw2\<rparr>, g2)"
    using s(2) by (simp add: Gateway_FlushTunnelDataMsgs_def base_of_def)
  ultimately show ?thesis using r(1) rc(3) by auto
qed

text \<open>A tunnel of two hops, for evaluation.\<close>

definition demo_hop :: "byte \<Rightarrow> TunnelHopConfig" where
  "demo_hop k = \<lparr>router = [k], nextRouter = None, tunnelID = 1, nextTunnelID = 2, layerKey = [k], ivKey = [k, k],
     replyKey = [], replyIV = [], isGateway = False, isEndpoint = False,
     decryption = TunnelDecryption_SetKeys [k] [k, k] newTunnelDecryption, recordIndex = 0\<rparr>"

definition demo_outbound :: OutboundTunnel where
  "demo_outbound = \<lparr>m_Config = [demo_hop 1, demo_hop 2], m_Pool = None, m_State = eTunnelStateEstablished,
     m_IsRecreated = False, m_CreationTime = 0,
     m_Gateway = \<lparr>gwBuffer = fst (newTunnelGatewayBuffer demo_genv 1 ()), gwNumSentBytes = 0\<rparr>\<rparr>"

definition demo_inbound :: InboundTunnel where
  "demo_inbound = \<lparr>m_Config = [demo_hop 1, demo_hop 2], m_Pool = None, m_State = eTunnelStateEstablished,
     m_IsRecreated = False, m_CreationTime = 0, m_Endpoint = newTunnelEndpoint True\<rparr>"

definition demo_transit :: "byte \<Rightarrow> TransitTunnel" where
  "demo_transit k = newTransitTunnel 1 [9] 2 [k] [k, k]"

definition demo_participant :: "byte \<Rightarrow> TransitTunnelParticipant" where
  "demo_participant k = TransitTunnel.extend (demo_transit k) (TransitTunnelParticipant.fields 0 [])"

definition demo_endpoint :: "byte \<Rightarrow> TransitTunnelEndpoint" where
  "demo_endpoint k = TransitTunnel.extend (demo_transit k) (TransitTunnelEndpoint.fields (newTunnelEndpoint False))"

definition demo_gateway :: "byte \<Rightarrow> TransitTunnelGateway" where
  "demo_gateway k = TransitTunnel.extend (demo_transit k) (TransitTunnelGateway.fields
     \<lparr>gwBuffer = fst (newTunnelGatewayBuffer demo_genv 1 ()), gwNumSentBytes = 0\<rparr>)"

lemmas demo_tunnel_defs = demo_hop_def demo_outbound_def demo_inbound_def demo_transit_def demo_participant_def
  demo_endpoint_def demo_gateway_def newTransitTunnel_def TunnelDecryption_SetKeys_def TunnelEncryption_SetKeys_def
  CBCDecryption_SetKey_def CBCEncryption_SetKey_def TransitTunnel.defs TransitTunnelParticipant.defs
  TransitTunnelEndpoint.defs TransitTunnelGateway.defs

lemma demo_items:
  "list_all2 item_rel [demo_block 1500] [(DLocal, 0x01010101, replicate 1500 1)]"
  "puts_safe [(DLocal, 0x01010101, replicate 1500 1)] ([], None)"
  using demo_block_rel [of 1500] by (simp_all add: item_rel_def put_safe_def)

lemma delivers_id: "delivers id"
  by (simp add: delivers_def)

theorem outbound_tunnel_delivers_witness:
  "\<exists>sent t' out ps' acts e'.
    OutboundTunnel_SendTunnelDataMsgs demo_genv demo_aes [demo_block 1500] (demo_outbound, ()) = Some (sent, t', ()) \<and>
    relay demo_genv demo_aes id [demo_participant 1] sent () = Some (out, ps', ()) \<and>
    handle_msgs (Endpoint_HandleTunnelDataMsg demo_genv demo_aes [7]) (map id out) (demo_endpoint 2, ()) = Some (acts, e', ()) \<and>
    list_all2 (action_is [7] False) acts [(DLocal, replicate 1500 1)]"
proof -
  have k: "keyed (m_Config demo_outbound)"
    "map transit_key [demo_participant 1] @ [transit_key (demo_endpoint 2)] = map (\<lambda>h. (layerKey h, ivKey h)) (m_Config demo_outbound)"
    "gwBuffer (m_Gateway demo_outbound) = fst (newTunnelGatewayBuffer demo_genv 1 ())"
    "list_all idle [demo_participant 1]" "trEndpoint (demo_endpoint 2) = newTunnelEndpoint False"
    by (simp_all add: demo_tunnel_defs keyed_def transit_key_def idle_def)
  from outbound_tunnel_delivers [OF demo_genv_ok demo_aes_ok delivers_id k demo_items, of "()" "[7]"] show ?thesis
    by (simp add: delivered_def)
qed

lemma demo_block_local: "demo_block n = local_block (demo_msg n)"
  by (simp add: demo_block_def local_block_def)

theorem inbound_tunnel_delivers_witness:
  "\<exists>gw1 sent gw2 out ps' acts t'.
    gateway_msgs demo_genv [demo_msg 1500] (demo_gateway 1, ()) = Some (gw1, ()) \<and>
    Gateway_FlushTunnelDataMsgs demo_genv demo_aes (gw1, ()) = Some (sent, gw2, ()) \<and>
    relay demo_genv demo_aes id [demo_participant 2] sent () = Some (out, ps', ()) \<and>
    handle_msgs (InboundTunnel_HandleTunnelDataMsg demo_genv demo_aes [7] 3) (map id out) (demo_inbound, ()) = Some (acts, t', ()) \<and>
    list_all2 (action_is [7] True) acts [(DLocal, replicate 1500 1)]"
proof -
  have k: "keyed (m_Config demo_inbound)"
    "transit_key (demo_gateway 1) # map transit_key [demo_participant 2] = map (\<lambda>h. (layerKey h, ivKey h)) (m_Config demo_inbound)"
    "gwBuffer (trGateway (demo_gateway 1)) = fst (newTunnelGatewayBuffer demo_genv 1 ())"
    "list_all idle [demo_participant 2]" "m_Endpoint demo_inbound = newTunnelEndpoint True"
    by (simp_all add: demo_tunnel_defs keyed_def transit_key_def idle_def)
  have i: "list_all2 (\<lambda>m x. item_rel (local_block m) x) [demo_msg 1500] [(DLocal, 0x01010101, replicate 1500 1)]"
    using demo_items(1) by (simp add: demo_block_local)
  from inbound_tunnel_delivers [OF demo_genv_ok demo_aes_ok delivers_id k i demo_items(2), of "()" "[7]" 3] show ?thesis
    by (simp add: delivered_def)
qed

end
