(* ===== verification/Tunnel_Build.thy ===== *)
theory Tunnel_Build
  imports Tunnel_Delivery
begin

text \<open>
  Building tunnels: \<open>Tunnel::Build\<close> and \<open>Tunnel::HandleTunnelBuildResponse\<close> of
  \<open>src/core/tunnel/Tunnel.cpp\<close> on the side of the creator, \<open>HandleBuildRequestRecords\<close> of
  \<open>src/core/I2NPProtocol.cpp\<close> on the side of a hop. A build message holds one record of 528 bytes for
  each hop, at a random position; a hop finds its record by the first half of its identity hash,
  writes its answer there and encrypts all records with its reply key. The creator decrypts each
  record in advance with the reply keys of the hops that come before.

  The result of \<open>std::random_shuffle\<close> and the hours since the epoch are arguments.
\<close>

abbreviation BUILD_RESPONSE_RECORD_PADDING_OFFSET :: nat where "BUILD_RESPONSE_RECORD_PADDING_OFFSET \<equiv> 32"
abbreviation BUILD_RESPONSE_RECORD_RET_OFFSET :: nat where "BUILD_RESPONSE_RECORD_RET_OFFSET \<equiv> 527"
abbreviation STANDARD_NUM_RECORDS :: nat where "STANDARD_NUM_RECORDS \<equiv> 5"
abbreviation MAX_NUM_TRANSIT_TUNNELS :: nat where "MAX_NUM_TRANSIT_TUNNELS \<equiv> 2500"

section \<open>The creator\<close>

text \<open>The loop that creates the real records; \<open>idxs\<close> are the shuffled positions.\<close>

definition list_get :: "'a list \<Rightarrow> nat \<Rightarrow> 'a option" where
  "list_get xs i = (if i < length xs then Some (xs ! i) else None)"

fun create_records ::
    "'g genv \<Rightarrow> group \<Rightarrow> (bytes \<Rightarrow> ElGamalEncryption) \<Rightarrow> u32 \<Rightarrow> u32 \<Rightarrow> nat list \<Rightarrow> nat \<Rightarrow> TunnelConfig \<Rightarrow>
     I2NPMessage \<times> 'g \<Rightarrow> (TunnelConfig \<times> I2NPMessage \<times> 'g) option" where
  "create_records E G elg hours replyMsgID idxs i [] s = Some ([], s)"
| "create_records E G elg hours replyMsgID idxs i (h # hs) s = do {
     idx \<leftarrow> list_get idxs i;
     let (m, g) = s;
     let (id, g1) = (if hs \<noteq> [] then genMsgID E g else (replyMsgID, g));
     rec \<leftarrow> CreateBuildRequestRecord G (gsha E) elg hours h id;
     m1 \<leftarrow> put_bytes (GetPayload m + 1 + idx * TUNNEL_BUILD_RECORD_SIZE) rec m;
     (hs', s2) \<leftarrow> create_records E G elg hours replyMsgID idxs (i + 1) hs (m1, g1);
     Some (h\<lparr>recordIndex := idx\<rparr> # hs', s2)
   }"

text \<open>Fake records: random bytes at the positions that are left.\<close>

fun fill_records :: "'g genv \<Rightarrow> nat list \<Rightarrow> I2NPMessage \<times> 'g \<Rightarrow> (I2NPMessage \<times> 'g) option" where
  "fill_records E [] s = Some s"
| "fill_records E (idx # idxs) s = do {
     let (m, g) = s;
     let (rnd, g1) = genBlock E TUNNEL_BUILD_RECORD_SIZE g;
     m1 \<leftarrow> put_bytes (GetPayload m + 1 + idx * TUNNEL_BUILD_RECORD_SIZE) rnd m;
     fill_records E idxs (m1, g1)
   }"

text \<open>Decryption of one record in place, with the reply key and IV of a hop.\<close>

definition decrypt_record ::
    "aes \<Rightarrow> TunnelHopConfig \<Rightarrow> nat \<Rightarrow> bytes \<times> CBCDecryption \<Rightarrow> (bytes \<times> CBCDecryption) option" where
  "decrypt_record A h pos s = do {
     let (mem, d) = s;
     rec \<leftarrow> mem_read pos TUNNEL_BUILD_RECORD_SIZE mem;
     let (rec', d') = CBCDecryption_Decrypt A rec (CBCDecryption_SetIV (replyIV h) d);
     mem' \<leftarrow> mem_write pos rec' mem;
     Some (mem', d')
   }"

fun decrypt_records ::
    "aes \<Rightarrow> nat \<Rightarrow> TunnelHopConfig \<Rightarrow> TunnelHopConfig list \<Rightarrow> bytes \<times> CBCDecryption \<Rightarrow> (bytes \<times> CBCDecryption) option" where
  "decrypt_records A records h [] s = Some s"
| "decrypt_records A records h (h1 # hs) s =
     Option.bind (decrypt_record A h (records + recordIndex h1 * TUNNEL_BUILD_RECORD_SIZE) s)
       (decrypt_records A records h hs)"

text \<open>From the last hop but one to the first, the records of all hops behind it.\<close>

fun decrypt_in_advance ::
    "aes \<Rightarrow> nat \<Rightarrow> TunnelConfig \<Rightarrow> bytes \<times> CBCDecryption \<Rightarrow> (bytes \<times> CBCDecryption) option" where
  "decrypt_in_advance A records [] s = Some s"
| "decrypt_in_advance A records [h] s = Some s"
| "decrypt_in_advance A records (h # h1 # hs) s = do {
     (mem, d) \<leftarrow> decrypt_in_advance A records (h1 # hs) s;
     decrypt_records A records h (h1 # hs) (mem, CBCDecryption_SetKey (replyKey h) d)
   }"

text \<open>The build message and the configuration with the positions of the records.\<close>

definition build_msg ::
    "'g genv \<Rightarrow> aes \<Rightarrow> group \<Rightarrow> (bytes \<Rightarrow> ElGamalEncryption) \<Rightarrow> u32 \<Rightarrow> nat list \<Rightarrow> u32 \<Rightarrow> TunnelConfig \<Rightarrow> 'g \<Rightarrow>
     (TunnelConfig \<times> I2NPMessage \<times> 'g) option" where
  "build_msg E A G elg hours idxs replyMsgID c g = do {
     let numHops = GetNumHops c;
     let numRecords = (if numHops \<le> STANDARD_NUM_RECORDS then STANDARD_NUM_RECORDS else numHops);
     let msg = NewI2NPShortMessage;
     m1 \<leftarrow> upd_buf (mem_set (GetPayload msg) (of_nat numRecords)) msg;
     let m2 = add_len (numRecords * TUNNEL_BUILD_RECORD_SIZE + 1) m1;
     (c', m3, g1) \<leftarrow> create_records E G elg hours replyMsgID idxs 0 c (m2, g);
     (m4, g2) \<leftarrow> fill_records E (drop numHops idxs) (m3, g1);
     (mem, d) \<leftarrow> decrypt_in_advance A (GetPayload msg + 1) c' (mbuf m4, newCBCDecryption);
     let (rnd, g3) = genMsgID E g2;
     let (now, g4) = clock E g3;
     m5 \<leftarrow> FillI2NPMessageHeader (gsha E) eI2NPVariableTunnelBuild 0 rnd now (m4\<lparr>mbuf := mem\<rparr>);
     Some (c', m5, g4)
   }"

text \<open>
  \<open>Build\<close> sends the message, through an outbound tunnel when there is one. The result pairs each batch
  of messages with the router it goes to.
\<close>

definition Tunnel_Build ::
    "'g genv \<Rightarrow> aes \<Rightarrow> group \<Rightarrow> (bytes \<Rightarrow> ElGamalEncryption) \<Rightarrow> u32 \<Rightarrow> nat list \<Rightarrow> u32 \<Rightarrow>
     OutboundTunnel option \<Rightarrow> 'a Tunnel_scheme \<Rightarrow> 'g \<Rightarrow>
     ((bytes \<times> I2NPMessage list) list \<times> OutboundTunnel option \<times> 'a Tunnel_scheme \<times> 'g) option" where
  "Tunnel_Build E A G elg hours idxs replyMsgID outboundTunnel t g = do {
     (c, msg, g1) \<leftarrow> build_msg E A G elg hours idxs replyMsgID (m_Config t) g;
     let t1 = t\<lparr>m_Config := c\<rparr>;
     case outboundTunnel of
       Some ot \<Rightarrow> do {
         (sent, ot', g2) \<leftarrow> OutboundTunnel_SendTunnelDataMsg E A (Some (GetNextIdentHash t1)) 0 (Some msg) (ot, g1);
         Some ([(GetNextIdentHash ot, sent)], Some ot', t1, g2)
       }
     | None \<Rightarrow> Some ([(GetNextIdentHash t1, [msg])], None, t1, g1)
   }"

section \<open>The answer\<close>

text \<open>
  The records of a hop and of the hops before it are decrypted, from the last hop to the first. A
  record whose index is not below the number of records in the message is skipped.
\<close>

fun decrypt_replies ::
    "aes \<Rightarrow> TunnelHopConfig \<Rightarrow> TunnelHopConfig list \<Rightarrow> bytes \<times> CBCDecryption \<Rightarrow> (bytes \<times> CBCDecryption) option" where
  "decrypt_replies A h [] s = Some s"
| "decrypt_replies A h (h1 # hs) s = do {
     n \<leftarrow> mem_get 0 (fst s);
     s1 \<leftarrow> (if recordIndex h1 < unat n
            then decrypt_record A h (1 + recordIndex h1 * TUNNEL_BUILD_RECORD_SIZE) s else Some s);
     decrypt_replies A h hs s1
   }"

text \<open>The hops in reverse order: the current one and those before it.\<close>

fun decrypt_all_replies ::
    "aes \<Rightarrow> TunnelHopConfig list \<Rightarrow> bytes \<times> CBCDecryption \<Rightarrow> (bytes \<times> CBCDecryption) option" where
  "decrypt_all_replies A [] s = Some s"
| "decrypt_all_replies A (h # hs) s =
     Option.bind (decrypt_replies A h (h # hs) (fst s, CBCDecryption_SetKey (replyKey h) (snd s)))
       (decrypt_all_replies A hs)"

fun read_rets :: "bytes \<Rightarrow> TunnelConfig \<Rightarrow> byte list option" where
  "read_rets msg [] = Some []"
| "read_rets msg (h # hs) = do {
     ret \<leftarrow> mem_get (1 + recordIndex h * TUNNEL_BUILD_RECORD_SIZE + BUILD_RESPONSE_RECORD_RET_OFFSET) msg;
     rets \<leftarrow> read_rets msg hs;
     Some (ret # rets)
   }"

text \<open>The result: whether the tunnel is established, and the answers for the profiles of the routers.\<close>

definition HandleTunnelBuildResponse ::
    "aes \<Rightarrow> bytes \<Rightarrow> 'a Tunnel_scheme \<Rightarrow> (bool \<times> (bytes \<times> byte) list \<times> bytes \<times> 'a Tunnel_scheme) option" where
  "HandleTunnelBuildResponse A msg t = do {
     (msg', d) \<leftarrow> decrypt_all_replies A (rev (m_Config t)) (msg, newCBCDecryption);
     rets \<leftarrow> read_rets msg' (m_Config t);
     let established = list_all (\<lambda>r. r = 0) rets;
     let profiles = zip (map router (m_Config t)) rets;
     let t1 = (if established then
                 t\<lparr>m_Config := map (\<lambda>h. h\<lparr>decryption := TunnelDecryption_SetKeys (layerKey h) (ivKey h) (decryption h)\<rparr>) (m_Config t),
                   m_State := eTunnelStateEstablished\<rparr>
               else t);
     Some (established, profiles, msg', t1)
   }"

section \<open>A hop\<close>

text \<open>What a hop knows: its identity hash, its private key, and whether it takes part in tunnels.\<close>

record hop_context =
  ourIdent :: bytes
  encryptionPrivateKey :: bytes
  acceptsTunnels :: bool
  numTransitTunnels :: nat
  bandwidthExceeded :: bool

definition accepts :: "hop_context \<Rightarrow> bool" where
  "accepts C \<longleftrightarrow> acceptsTunnels C \<and> numTransitTunnels C \<le> MAX_NUM_TRANSIT_TUNNELS \<and> \<not> bandwidthExceeded C"

text \<open>The loop that encrypts all records: the key and IV are set anew for each.\<close>

fun encrypt_records :: "aes \<Rightarrow> bytes \<Rightarrow> nat \<Rightarrow> nat \<Rightarrow> nat \<Rightarrow> bytes \<times> CBCEncryption \<Rightarrow> (bytes \<times> CBCEncryption) option" where
  "encrypt_records A clearText records j 0 s = Some s"
| "encrypt_records A clearText records j (Suc n) s = do {
     let (mem, e) = s;
     let e1 = CBCEncryption_SetIV (take 16 (drop 168 clearText)) (CBCEncryption_SetKey (take 32 (drop 136 clearText)) e);
     reply \<leftarrow> mem_read (records + j * TUNNEL_BUILD_RECORD_SIZE) TUNNEL_BUILD_RECORD_SIZE mem;
     let (reply', e2) = CBCEncryption_Encrypt A reply e1;
     mem' \<leftarrow> mem_write (records + j * TUNNEL_BUILD_RECORD_SIZE) reply' mem;
     encrypt_records A clearText records (j + 1) n (mem', e2)
   }"

text \<open>
  Our record at position \<open>pos\<close>: decrypted into \<open>clearText\<close>, which keeps its contents when the checksum
  is wrong (the result of \<open>ElGamalDecrypt\<close> is not looked at), answered, and all records encrypted. The
  transit tunnel created is part of the result.
\<close>

definition handle_our_record ::
    "'g genv \<Rightarrow> aes \<Rightarrow> group \<Rightarrow> hop_context \<Rightarrow> nat \<Rightarrow> nat \<Rightarrow> nat \<Rightarrow> bytes \<times> bytes \<Rightarrow> 'g \<Rightarrow>
     (bytes \<times> bytes \<times> transit option \<times> 'g) option" where
  "handle_our_record E A G C num records pos s g = do {
     let (mem, clear0) = s;
     enc \<leftarrow> mem_read (pos + 16) 512 mem;
     let clearText = (case ElGamalDecrypt G (gsha E) (encryptionPrivateKey C) enc False of Some ct \<Rightarrow> ct | None \<Rightarrow> clear0);
     recvID \<leftarrow> bufbe32toh 0 clearText;
     nextID \<leftarrow> bufbe32toh 36 clearText;
     flag \<leftarrow> mem_get 184 clearText;
     let (tunnel, g1) =
       (if accepts C then
          let (t, g') = CreateTransitTunnel E recvID (take 32 (drop 40 clearText)) nextID
                          (take 32 (drop 72 clearText)) (take 32 (drop 104 clearText))
                          (flag AND 0x80 \<noteq> 0) (flag AND 0x40 \<noteq> 0) g
          in (Some t, g')
        else (None, g));
     mem1 \<leftarrow> mem_set (pos + BUILD_RESPONSE_RECORD_RET_OFFSET) (if accepts C then 0 else 30) mem;
     hashed \<leftarrow> mem_read (pos + BUILD_RESPONSE_RECORD_PADDING_OFFSET) 496 mem1;
     mem2 \<leftarrow> mem_write pos (gsha E hashed) mem1;
     (mem3, e) \<leftarrow> encrypt_records A clearText records 0 num (mem2, newCBCEncryption);
     Some (mem3, clearText, tunnel, g1)
   }"

text \<open>The search for our record among those from \<open>i\<close> on; \<open>n\<close> of them are left.\<close>

fun HandleBuildRequestRecords_from ::
    "'g genv \<Rightarrow> aes \<Rightarrow> group \<Rightarrow> hop_context \<Rightarrow> nat \<Rightarrow> nat \<Rightarrow> nat \<Rightarrow> nat \<Rightarrow> bytes \<times> bytes \<Rightarrow> 'g \<Rightarrow>
     (bool \<times> bytes \<times> bytes \<times> transit option \<times> 'g) option" where
  "HandleBuildRequestRecords_from E A G C num records i 0 s g = Some (False, fst s, snd s, None, g)"
| "HandleBuildRequestRecords_from E A G C num records i (Suc n) s g = do {
     let pos = records + i * TUNNEL_BUILD_RECORD_SIZE;
     peer \<leftarrow> mem_read pos 16 (fst s);
     if peer = take 16 (ourIdent C) then
       map_option (Pair True) (handle_our_record E A G C num records pos s g)
     else HandleBuildRequestRecords_from E A G C num records (i + 1) n s g
   }"

definition HandleBuildRequestRecords ::
    "'g genv \<Rightarrow> aes \<Rightarrow> group \<Rightarrow> hop_context \<Rightarrow> nat \<Rightarrow> nat \<Rightarrow> bytes \<times> bytes \<Rightarrow> 'g \<Rightarrow>
     (bool \<times> bytes \<times> bytes \<times> transit option \<times> 'g) option" where
  "HandleBuildRequestRecords E A G C num records s g =
     HandleBuildRequestRecords_from E A G C num records 0 num s g"

end
