(* ===== verification/Tunnel_Build_Correct.thy ===== *)
theory Tunnel_Build_Correct
  imports Tunnel_Build
begin

text \<open>
  The build protocol is correct: the layers that the creator takes off in advance and those the hops put
  on cancel, so that every hop finds its request and the creator every answer.
\<close>

section \<open>Records\<close>

text \<open>A memory that holds records behind \<open>pre\<close>.\<close>

definition recs_ok :: "bytes list \<Rightarrow> bool" where
  "recs_ok rs = list_all (\<lambda>r. length r = 528) rs"

definition recs_at :: "nat \<Rightarrow> bytes \<Rightarrow> bytes list \<Rightarrow> bool" where
  "recs_at p mem rs \<longleftrightarrow> recs_ok rs \<and> (\<exists>pre post. mem = pre @ concat rs @ post \<and> length pre = p)"

lemma length_concat_recs: "recs_ok rs \<Longrightarrow> length (concat rs) = 528 * length rs"
  by (induction rs) (simp_all add: recs_ok_def)

lemma recs_ok_nth: "recs_ok rs \<Longrightarrow> i < length rs \<Longrightarrow> length (rs ! i) = 528"
  by (simp add: recs_ok_def list_all_length)

lemma recs_ok_update: "recs_ok rs \<Longrightarrow> length r = 528 \<Longrightarrow> recs_ok (rs[i := r])"
  by (auto simp: recs_ok_def list_all_iff dest!: set_update_subset_insert [THEN subsetD])

lemma recs_split:
  assumes "recs_at p mem rs" and "i < length rs"
  obtains pre post where "mem = pre @ rs ! i @ post" and "length pre = p + i * 528"
    and "\<And>r. length r = 528 \<Longrightarrow> recs_at p (pre @ r @ post) (rs[i := r])"
proof -
  obtain pre post where m: "mem = pre @ concat rs @ post" "length pre = p" and ok: "recs_ok rs"
    using assms(1) by (auto simp: recs_at_def)
  let ?pre = "pre @ concat (take i rs)" and ?post = "concat (drop (Suc i) rs) @ post"
  have "rs = take i rs @ rs ! i # drop (Suc i) rs" using assms(2) by (rule id_take_nth_drop)
  then have "concat rs = concat (take i rs) @ rs ! i @ concat (drop (Suc i) rs)"
    by (metis concat.simps(2) concat_append)
  then have 1: "mem = ?pre @ rs ! i @ ?post" by (simp add: m(1))
  have "recs_ok (take i rs)" using ok by (simp add: recs_ok_def list_all_iff) (meson in_set_takeD)
  then have 2: "length ?pre = p + i * 528" using assms(2) m(2) by (simp add: length_concat_recs)
  have 3: "recs_at p (?pre @ r @ ?post) (rs[i := r])" if "length r = 528" for r
    unfolding recs_at_def
  proof (intro conjI exI)
    show "recs_ok (rs[i := r])" by (rule recs_ok_update [OF ok that])
    show "?pre @ r @ ?post = pre @ concat (rs[i := r]) @ post"
      using assms(2) by (simp add: upd_conv_take_nth_drop)
    show "length pre = p" by (rule m(2))
  qed
  show thesis by (rule that [OF 1 2 3])
qed

lemma recs_read:
  assumes "recs_at p mem rs" and "i < length rs"
  shows "mem_read (p + i * 528) 528 mem = Some (rs ! i)"
proof (rule recs_split [OF assms])
  fix pre post
  assume "mem = pre @ rs ! i @ post" and "length pre = p + i * 528"
  moreover have "length (rs ! i) = 528" using assms recs_ok_nth by (auto simp: recs_at_def)
  ultimately show ?thesis by (auto intro!: mem_read_append)
qed

lemma recs_write:
  assumes "recs_at p mem rs" and "i < length rs" and "length r = 528"
  shows "\<exists>mem'. mem_write (p + i * 528) r mem = Some mem' \<and> recs_at p mem' (rs[i := r]) \<and>
    length mem' = length mem \<and> take p mem' = take p mem"
proof -
  obtain pre post where m: "mem = pre @ rs ! i @ post" "length pre = p + i * 528"
    "recs_at p (pre @ r @ post) (rs[i := r])"
    using recs_split [OF assms(1,2)] assms(3) by metis
  have l: "length (rs ! i) = 528" using assms(1,2) recs_ok_nth by (auto simp: recs_at_def)
  have "mem_write (p + i * 528) r mem = Some (pre @ r @ post)"
    unfolding m(1) by (rule mem_write_append) (use m(2) assms(3) l in simp_all)
  then show ?thesis using m assms(3) l by simp
qed

section \<open>The reply layer\<close>

definition reply_dec :: "aes \<Rightarrow> bytes \<times> bytes \<Rightarrow> bytes \<Rightarrow> bytes" where
  "reply_dec A k r = fst (CBCDecryption_Decrypt A r (CBCDecryption_SetIV (snd k) (CBCDecryption_SetKey (fst k) newCBCDecryption)))"

definition reply_enc :: "aes \<Rightarrow> bytes \<times> bytes \<Rightarrow> bytes \<Rightarrow> bytes" where
  "reply_enc A k r = fst (CBCEncryption_Encrypt A r (CBCEncryption_SetIV (snd k) (CBCEncryption_SetKey (fst k) newCBCEncryption)))"

definition reply_key :: "TunnelHopConfig \<Rightarrow> bytes \<times> bytes" where
  "reply_key h = (replyKey h, replyIV h)"

lemma reply_length:
  assumes "aes_ok A" and "length r = 528" and "length (snd k) = 16"
  shows "length (reply_dec A k r) = 528" and "length (reply_enc A k r) = 528"
  using length_cbc [OF assms(1), of r 33] assms
  by (simp_all add: reply_dec_def reply_enc_def CBCDecryption_Decrypt_def CBCEncryption_Encrypt_def
      CBCDecryption_SetIV_def CBCEncryption_SetIV_def)

lemma reply_inverse:
  assumes "aes_ok A" and "length r = 528" and "length (snd k) = 16"
  shows "reply_dec A k (reply_enc A k r) = r" and "reply_enc A k (reply_dec A k r) = r"
proof -
  let ?c = "CBCEncryption_SetIV (snd k) (CBCEncryption_SetKey (fst k) newCBCEncryption)"
  let ?d = "CBCDecryption_SetIV (snd k) (CBCDecryption_SetKey (fst k) newCBCDecryption)"
  have iv: "length (m_LastBlock ?c) = 16" "dKey ?d = eKey ?c" "m_IV ?d = m_LastBlock ?c"
    using assms(3) by (simp_all add: CBCEncryption_SetIV_def CBCEncryption_SetKey_def CBCDecryption_SetIV_def
        CBCDecryption_SetKey_def)
  have r: "length r = 16 * 33" using assms(2) by simp
  note l = reply_length [OF assms]
  show "reply_dec A k (reply_enc A k r) = r"
    using cbc_decrypt_encrypt [OF assms(1) r iv] assms(2) l
    by (simp add: reply_dec_def reply_enc_def CBCDecryption_Decrypt_def CBCEncryption_Encrypt_def)
  show "reply_enc A k (reply_dec A k r) = r"
    using cbc_encrypt_decrypt [OF assms(1) r iv] assms(2) l
    by (simp add: reply_dec_def reply_enc_def CBCDecryption_Decrypt_def CBCEncryption_Encrypt_def)
qed

interpretation reply_layers: layers
  "\<lambda>h. reply_enc (fst h) (snd h)" "\<lambda>h. reply_dec (fst h) (snd h)"
  "\<lambda>h. aes_ok (fst h) \<and> length (snd (snd h)) = 16" "\<lambda>r. length r = 528"
  by unfold_locales (simp_all add: reply_inverse reply_length)

text \<open>Only the key matters of what earlier records left in the objects.\<close>

lemma reply_dec_state:
  "dKey d = fst k \<Longrightarrow> fst (CBCDecryption_Decrypt A r (CBCDecryption_SetIV (snd k) d)) = reply_dec A k r"
  by (cases d) (simp add: reply_dec_def CBCDecryption_SetIV_def CBCDecryption_SetKey_def newCBCDecryption_def)

lemma reply_enc_state:
  "fst (CBCEncryption_Encrypt A r (CBCEncryption_SetIV (snd k) (CBCEncryption_SetKey (fst k) e))) = reply_enc A k r"
  by (cases e) (simp add: reply_enc_def CBCEncryption_SetIV_def CBCEncryption_SetKey_def newCBCEncryption_def)

lemma Decrypt_dKey [simp]: "dKey (snd (CBCDecryption_Decrypt A r d)) = dKey d"
  by (simp add: CBCDecryption_Decrypt_def cbc_decrypt_dKey)

definition hop_ok :: "TunnelHopConfig \<Rightarrow> bool" where
  "hop_ok h \<longleftrightarrow> length (router h) = 32 \<and> length (layerKey h) = 32 \<and> length (ivKey h) = 32 \<and>
     length (replyKey h) = 32 \<and> length (replyIV h) = 16 \<and> (\<exists>r. nextRouter h = Some r \<and> length r = 32)"

lemma decrypt_record_is:
  assumes "aes_ok A" and "recs_at p mem rs" and "i < length rs" and "dKey d = replyKey h" and "length (replyIV h) = 16"
  shows "\<exists>mem' d'. decrypt_record A h (p + i * 528) (mem, d) = Some (mem', d') \<and>
    recs_at p mem' (rs[i := reply_dec A (reply_key h) (rs ! i)]) \<and> dKey d' = replyKey h \<and>
    length mem' = length mem \<and> take p mem' = take p mem"
proof -
  let ?x = "CBCDecryption_Decrypt A (rs ! i) (CBCDecryption_SetIV (replyIV h) d)"
  have x: "fst ?x = reply_dec A (reply_key h) (rs ! i)"
    using reply_dec_state [of d "reply_key h" A "rs ! i"] assms(4) by (simp add: reply_key_def)
  have "length (rs ! i) = 528" using assms(2,3) recs_ok_nth by (auto simp: recs_at_def)
  then have "length (reply_dec A (reply_key h) (rs ! i)) = 528"
    using reply_length(1) [OF assms(1)] assms(5) by (simp add: reply_key_def)
  from recs_write [OF assms(2,3) this] obtain mem' where
    "mem_write (p + i * 528) (fst ?x) mem = Some mem'" "recs_at p mem' (rs[i := reply_dec A (reply_key h) (rs ! i)])"
    "length mem' = length mem" "take p mem' = take p mem" unfolding x by blast
  then show ?thesis
    using recs_read [OF assms(2,3)] assms(4)
    by (simp add: decrypt_record_def case_prod_beta) (simp add: CBCDecryption_SetIV_def)
qed

section \<open>The loops of the creator\<close>

definition on_recs :: "(bytes \<Rightarrow> bytes) \<Rightarrow> nat list \<Rightarrow> bytes list \<Rightarrow> bytes list" where
  "on_recs f is rs = fold (\<lambda>i r. r[i := f (r ! i)]) is rs"

lemma on_recs_simps [simp]:
  "on_recs f [] rs = rs" "on_recs f (i # is) rs = on_recs f is (rs[i := f (rs ! i)])"
  by (simp_all add: on_recs_def)

lemma length_on_recs [simp]: "length (on_recs f is rs) = length rs"
  by (induction "is" arbitrary: rs) simp_all

lemma on_recs_nth:
  "distinct is \<Longrightarrow> i < length rs \<Longrightarrow> on_recs f is rs ! i = (if i \<in> set is then f (rs ! i) else rs ! i)"
proof (induction "is" arbitrary: rs)
  case (Cons a "is")
  then show ?case by (cases "i = a") auto
qed simp

definition same_frame :: "nat \<Rightarrow> bytes \<Rightarrow> bytes \<Rightarrow> bool" where
  "same_frame p mem mem' \<longleftrightarrow> length mem' = length mem \<and> take p mem' = take p mem"

lemma same_frame_trans [trans]: "same_frame p a b \<Longrightarrow> same_frame p b c \<Longrightarrow> same_frame p a c"
  by (simp add: same_frame_def)

lemma decrypt_records_is:
  assumes "aes_ok A" and "length (replyIV h) = 16" and "recs_at p mem rs" and "dKey d = replyKey h"
    and "list_all (\<lambda>h1. recordIndex h1 < length rs) hs"
  shows "\<exists>mem' d'. decrypt_records A p h hs (mem, d) = Some (mem', d') \<and>
    recs_at p mem' (on_recs (reply_dec A (reply_key h)) (map recordIndex hs) rs) \<and> same_frame p mem mem'"
  using assms(3-)
proof (induction hs arbitrary: mem d rs)
  case Nil
  then show ?case by (simp add: same_frame_def)
next
  case (Cons h1 hs)
  let ?rs = "rs[recordIndex h1 := reply_dec A (reply_key h) (rs ! recordIndex h1)]"
  obtain mem1 d1 where 1: "decrypt_record A h (p + recordIndex h1 * 528) (mem, d) = Some (mem1, d1)"
      "recs_at p mem1 ?rs" "dKey d1 = replyKey h" "same_frame p mem mem1"
    using decrypt_record_is [OF assms(1) Cons.prems(1) _ Cons.prems(2) assms(2), of "recordIndex h1"] Cons.prems(3)
    by (auto simp: same_frame_def)
  have "list_all (\<lambda>h1. recordIndex h1 < length ?rs) hs" using Cons.prems(3) by simp
  from Cons.IH [OF 1(2,3) this] 1 show ?case by (auto intro: same_frame_trans)
qed

definition reply_keys :: "aes \<Rightarrow> TunnelConfig \<Rightarrow> (aes \<times> bytes \<times> bytes) list" where
  "reply_keys A c = map (\<lambda>h. (A, reply_key h)) c"

abbreviation undo_replies :: "aes \<Rightarrow> TunnelConfig \<Rightarrow> bytes \<Rightarrow> bytes" where
  "undo_replies A c \<equiv> foldr (\<lambda>h. reply_dec (fst h) (snd h)) (reply_keys A c)"

abbreviation add_replies :: "aes \<Rightarrow> TunnelConfig \<Rightarrow> bytes \<Rightarrow> bytes" where
  "add_replies A c \<equiv> fold (\<lambda>h. reply_enc (fst h) (snd h)) (reply_keys A c)"

text \<open>The positions of the hops in the message.\<close>

definition placed :: "TunnelConfig \<Rightarrow> nat \<Rightarrow> bool" where
  "placed c n \<longleftrightarrow> distinct (map recordIndex c) \<and> list_all (\<lambda>h. recordIndex h < n) c"

lemma decrypt_in_advance_is:
  assumes "aes_ok A" and "list_all hop_ok c" and "recs_at p mem rs" and "placed c (length rs)"
  shows "\<exists>mem' d' rs'. decrypt_in_advance A p c (mem, d) = Some (mem', d') \<and> recs_at p mem' rs' \<and>
    same_frame p mem mem' \<and> length rs' = length rs \<and>
    (\<forall>i<length rs. i \<notin> recordIndex ` set c \<longrightarrow> rs' ! i = rs ! i) \<and>
    (\<forall>j<length c. rs' ! recordIndex (c ! j) = undo_replies A (take j c) (rs ! recordIndex (c ! j)))"
  using assms(2-)
proof (induction c rule: induct_list012)
  case 1
  then show ?case by (auto simp: same_frame_def)
next
  case (2 h)
  then show ?case by (auto simp: same_frame_def reply_keys_def)
next
  case (3 h h1 hs)
  let ?t = "h1 # hs"
  have t: "list_all hop_ok ?t" "placed ?t (length rs)" using "3.prems" by (simp_all add: placed_def)
  obtain mem1 d1 rs1 where 1: "decrypt_in_advance A p ?t (mem, d) = Some (mem1, d1)" "recs_at p mem1 rs1"
      "same_frame p mem mem1" and l: "length rs1 = length rs"
      and keep: "\<And>i. i < length rs \<Longrightarrow> i \<notin> recordIndex ` set ?t \<Longrightarrow> rs1 ! i = rs ! i"
      and new: "\<And>j. j < length ?t \<Longrightarrow> rs1 ! recordIndex (?t ! j) = undo_replies A (take j ?t) (rs ! recordIndex (?t ! j))"
    using "3.IH"(2) [OF t(1) "3.prems"(2) t(2)] by blast
  let ?is = "map recordIndex ?t" and ?rs = "on_recs (reply_dec A (reply_key h)) (map recordIndex ?t) rs1"
  have iv: "length (replyIV h) = 16" using "3.prems"(1) by (simp add: hop_ok_def)
  have idx: "list_all (\<lambda>h1. recordIndex h1 < length rs1) ?t" using t(2) l by (simp add: placed_def)
  have key: "dKey (CBCDecryption_SetKey (replyKey h) d1) = replyKey h" by (simp add: CBCDecryption_SetKey_def)
  obtain mem2 d2 where 2: "decrypt_records A p h ?t (mem1, CBCDecryption_SetKey (replyKey h) d1) = Some (mem2, d2)"
      "recs_at p mem2 ?rs" "same_frame p mem1 mem2"
    using decrypt_records_is [OF assms(1) iv 1(2) key idx] by blast
  have dist: "distinct ?is" "recordIndex h \<notin> set ?is" and lt: "recordIndex h < length rs"
    using "3.prems"(3) by (auto simp: placed_def)
  have nth: "?rs ! i = (if i \<in> set ?is then reply_dec A (reply_key h) (rs1 ! i) else rs1 ! i)" if "i < length rs" for i
    using on_recs_nth [OF dist(1), of i rs1] that l by simp
  have "?rs ! recordIndex ((h # ?t) ! j) = undo_replies A (take j (h # ?t)) (rs ! recordIndex ((h # ?t) ! j))"
    if "j < length (h # ?t)" for j
  proof (cases j)
    case 0
    then show ?thesis using nth [OF lt] dist(2) keep [OF lt] by (auto simp: reply_keys_def)
  next
    case (Suc k)
    then have k: "k < length ?t" using that by simp
    then have "recordIndex (?t ! k) \<in> set ?is" unfolding set_map by (intro imageI nth_mem)
    moreover have "recordIndex (?t ! k) < length rs" using idx l k unfolding list_all_length by metis
    ultimately show ?thesis using nth new [OF k] Suc by (simp add: reply_keys_def)
  qed
  moreover have "?rs ! i = rs ! i" if "i < length rs" "i \<notin> recordIndex ` set (h # ?t)" for i
    using nth [OF that(1)] keep [OF that(1)] that(2) by auto
  moreover have "decrypt_in_advance A p (h # ?t) (mem, d) = Some (mem2, d2)" using 1(1) 2(1) by simp
  moreover have "length ?rs = length rs" using l by simp
  ultimately show ?case using 2(2) same_frame_trans [OF 1(3) 2(3)]
    by - (rule exI [of _ mem2], rule exI [of _ d2], rule exI [of _ ?rs], blast)
qed

section \<open>The records of the creator\<close>

definition request_record ::
    "'g genv \<Rightarrow> group \<Rightarrow> (bytes \<Rightarrow> ElGamalEncryption) \<Rightarrow> u32 \<Rightarrow> TunnelHopConfig \<Rightarrow> u32 \<Rightarrow> bytes" where
  "request_record E G elg hours h i =
     take 16 (router h) @ ElGamalEncrypt G (gsha E) [] (elg (router h)) (the (request_clear_text h hours i)) False"

lemma request_record_is:
  assumes "hop_ok h"
  shows "CreateBuildRequestRecord G (gsha E) elg hours h i = Some (request_record E G elg hours h i)"
    and "length (request_record E G elg hours h i) = 528"
  using assms
  by (auto simp: hop_ok_def CreateBuildRequestRecord_def request_record_def request_clear_text_def ElGamalEncrypt_def Let_def)

lemma recordIndex_hop_ok [simp]: "hop_ok (h\<lparr>recordIndex := i\<rparr>) = hop_ok h"
  by (simp add: hop_ok_def)

definition with_positions :: "nat list \<Rightarrow> TunnelConfig \<Rightarrow> TunnelConfig" where
  "with_positions is c = map2 (\<lambda>h i. h\<lparr>recordIndex := i\<rparr>) c is"

lemma put_record:
  assumes "recs_at p (mbuf m) rs" and "i < length rs" and "length r = 528" and "p = GetPayload m + 1"
  shows "\<exists>m'. put_bytes (GetPayload m + 1 + i * 528) r m = Some m' \<and> recs_at p (mbuf m') (rs[i := r]) \<and>
    same_frame p (mbuf m) (mbuf m') \<and> m' = m\<lparr>mbuf := mbuf m'\<rparr>"
proof -
  obtain mem' where "mem_write (p + i * 528) r (mbuf m) = Some mem'" "recs_at p mem' (rs[i := r])"
      "length mem' = length (mbuf m)" "take p mem' = take p (mbuf m)"
    using recs_write [OF assms(1-3)] by blast
  then show ?thesis unfolding assms(4) [symmetric] by (simp add: put_bytes_def upd_buf_def same_frame_def)
qed

lemma GetPayload_buf [simp]: "GetPayload (m\<lparr>mbuf := b\<rparr>) = GetPayload m"
  by (simp add: GetPayload_def GetBuffer_def)

lemma create_records_is:
  assumes "list_all hop_ok hs" and "recs_at p (mbuf m) rs" and "p = GetPayload m + 1"
    and "i + length hs \<le> length idxs" and "distinct idxs" and "list_all (\<lambda>k. k < length rs) idxs"
  shows "\<exists>ids m' g' rs'. create_records E G elg hours replyMsgID idxs i hs (m, g) =
      Some (with_positions (drop i idxs) hs, m', g') \<and>
    recs_at p (mbuf m') rs' \<and> same_frame p (mbuf m) (mbuf m') \<and> m' = m\<lparr>mbuf := mbuf m'\<rparr> \<and> length rs' = length rs \<and>
    length ids = length hs \<and> (hs \<noteq> [] \<longrightarrow> last ids = replyMsgID) \<and>
    (\<forall>j<length hs. rs' ! (idxs ! (i + j)) = request_record E G elg hours (hs ! j) (ids ! j))  \<and>
    (\<forall>k<length rs. k \<notin> set (drop i idxs) \<longrightarrow> rs' ! k = rs ! k)"
  using assms(1-4,6)
proof (induction hs arbitrary: i m g rs)
  case Nil
  then show ?case by (auto simp: with_positions_def same_frame_def)
next
  case (Cons h hs)
  let ?id = "if hs \<noteq> [] then fst (genMsgID E g) else replyMsgID" and ?g = "if hs \<noteq> [] then snd (genMsgID E g) else g"
  let ?r = "request_record E G elg hours h ?id" and ?idx = "idxs ! i"
  have ih: "i < length idxs" "?idx < length rs" using Cons.prems(4,5) by (simp_all add: list_all_length)
  have r: "length ?r = 528" "CreateBuildRequestRecord G (gsha E) elg hours h ?id = Some ?r"
    using request_record_is [of h] Cons.prems(1) by auto
  obtain m1 where m1: "put_bytes (GetPayload m + 1 + ?idx * 528) ?r m = Some m1" "recs_at p (mbuf m1) (rs[?idx := ?r])"
      "same_frame p (mbuf m) (mbuf m1)" "m1 = m\<lparr>mbuf := mbuf m1\<rparr>"
    using put_record [OF Cons.prems(2) ih(2) r(1) Cons.prems(3)] by blast
  have pay: "p = GetPayload m1 + 1" using m1(4) Cons.prems(3) GetPayload_buf by metis
  obtain ids m' g' rs' where 1: "create_records E G elg hours replyMsgID idxs (i + 1) hs (m1, ?g) =
        Some (with_positions (drop (i + 1) idxs) hs, m', g')"
      "recs_at p (mbuf m') rs'" "same_frame p (mbuf m1) (mbuf m')" "m' = m1\<lparr>mbuf := mbuf m'\<rparr>" "length rs' = length rs"
      "length ids = length hs" "hs \<noteq> [] \<longrightarrow> last ids = replyMsgID"
      and new: "\<And>j. j < length hs \<Longrightarrow> rs' ! (idxs ! (i + 1 + j)) = request_record E G elg hours (hs ! j) (ids ! j)"
      and keep: "\<And>k. k < length rs \<Longrightarrow> k \<notin> set (drop (i + 1) idxs) \<Longrightarrow> rs' ! k = rs[?idx := ?r] ! k"
    using Cons.IH [of m1 "rs[?idx := ?r]" "i + 1" ?g] m1(2) pay Cons.prems by auto
  have drop: "drop i idxs = ?idx # drop (i + 1) idxs" using ih(1) by (simp add: Cons_nth_drop_Suc)
  have "?idx \<notin> set (drop (i + 1) idxs)" using distinct_drop [OF assms(5), of i] by (simp add: drop)
  then have own: "rs' ! ?idx = ?r" using keep [OF ih(2)] ih(2) by simp
  have eq: "create_records E G elg hours replyMsgID idxs i (h # hs) (m, g) = Some (with_positions (drop i idxs) (h # hs), m', g')"
    using 1(1) r(2) m1(1) ih(1)
    by (simp add: list_get_def drop with_positions_def case_prod_beta split: if_splits)
  have all: "rs' ! (idxs ! (i + j)) = request_record E G elg hours ((h # hs) ! j) ((?id # ids) ! j)"
    if "j < length (h # hs)" for j
  proof (cases j)
    case 0
    then show ?thesis using own by simp
  next
    case (Suc k)
    then show ?thesis using new [of k] that by simp
  qed
  have rest: "rs' ! k = rs ! k" if "k < length rs" "k \<notin> set (drop i idxs)" for k
    using keep [OF that(1)] that(2) by (simp add: drop)
  have m': "m' = m\<lparr>mbuf := mbuf m'\<rparr>" using 1(4) m1(4) by (metis I2NPMessage.surjective I2NPMessage.update_convs(1))
  have "last (?id # ids) = replyMsgID" using 1(6,7) by (cases hs) auto
  then show ?case
    using eq 1(2,5,6) same_frame_trans [OF m1(3) 1(3)] m' all rest
    by - (rule exI [of _ "?id # ids"], rule exI [of _ m'], rule exI [of _ g'], rule exI [of _ rs'], simp del: last.simps create_records.simps)
qed

lemma fill_records_is:
  assumes "genv_ok E" and "recs_at p (mbuf m) rs" and "p = GetPayload m + 1" and "list_all (\<lambda>k. k < length rs) idxs"
  shows "\<exists>m' g' rs'. fill_records E idxs (m, g) = Some (m', g') \<and> recs_at p (mbuf m') rs' \<and> same_frame p (mbuf m) (mbuf m') \<and>
    m' = m\<lparr>mbuf := mbuf m'\<rparr> \<and> length rs' = length rs \<and> (\<forall>k<length rs. k \<notin> set idxs \<longrightarrow> rs' ! k = rs ! k)"
  using assms(2-)
proof (induction idxs arbitrary: m g rs)
  case Nil
  then show ?case by (auto simp: same_frame_def)
next
  case (Cons i idxs)
  let ?r = "fst (genBlock E 528 g)"
  have "length ?r = 528" using assms(1) by (simp add: genv_ok_def)
  then obtain m1 where m1: "put_bytes (GetPayload m + 1 + i * 528) ?r m = Some m1" "recs_at p (mbuf m1) (rs[i := ?r])"
      "same_frame p (mbuf m) (mbuf m1)" "m1 = m\<lparr>mbuf := mbuf m1\<rparr>"
    using put_record [OF Cons.prems(1) _ _ Cons.prems(2), of i ?r] Cons.prems(3) by auto
  have pay: "p = GetPayload m1 + 1" using m1(4) Cons.prems(2) GetPayload_buf by metis
  obtain m' g' rs' where 1: "fill_records E idxs (m1, snd (genBlock E 528 g)) = Some (m', g')" "recs_at p (mbuf m') rs'"
      "same_frame p (mbuf m1) (mbuf m')" "m' = m1\<lparr>mbuf := mbuf m'\<rparr>" "length rs' = length rs"
      and keep: "\<And>k. k < length rs \<Longrightarrow> k \<notin> set idxs \<Longrightarrow> rs' ! k = rs[i := ?r] ! k"
    using Cons.IH [OF m1(2) pay, of "snd (genBlock E 528 g)"] Cons.prems(3) by auto
  have m': "m' = m\<lparr>mbuf := mbuf m'\<rparr>" using 1(4) m1(4) by (metis I2NPMessage.surjective I2NPMessage.update_convs(1))
  have "fill_records E (i # idxs) (m, g) = Some (m', g')" using m1(1) 1(1) by (simp add: case_prod_beta)
  then show ?case
    using 1(2,5) same_frame_trans [OF m1(3) 1(3)] m' keep
    by - (rule exI [of _ m'], rule exI [of _ g'], rule exI [of _ rs'], simp)
qed

definition num_records :: "TunnelConfig \<Rightarrow> nat" where
  "num_records c = (if length c \<le> 5 then 5 else length c)"

text \<open>The shuffled positions are a permutation of the record numbers.\<close>

definition shuffled :: "nat list \<Rightarrow> TunnelConfig \<Rightarrow> bool" where
  "shuffled idxs c \<longleftrightarrow> distinct idxs \<and> set idxs = {..<num_records c}"

lemma shuffled_length: "shuffled idxs c \<Longrightarrow> length idxs = num_records c"
  using distinct_card [of idxs] by (simp add: shuffled_def)

lemma with_positions_nth [simp]:
  "j < length c \<Longrightarrow> length c \<le> length idxs \<Longrightarrow> with_positions idxs c ! j = (c ! j)\<lparr>recordIndex := idxs ! j\<rparr>"
  by (simp add: with_positions_def)

lemma length_with_positions [simp]: "length c \<le> length idxs \<Longrightarrow> length (with_positions idxs c) = length c"
  by (simp add: with_positions_def)

lemma map_with_positions:
  assumes "length c \<le> length idxs"
  shows "map recordIndex (with_positions idxs c) = take (length c) idxs"
    and "(\<And>h i. f (h\<lparr>recordIndex := i\<rparr>) = f h) \<Longrightarrow> map f (with_positions idxs c) = map f c"
  using assms by (simp_all add: list_eq_iff_nth_eq)

lemma reply_key_position [simp]: "reply_key (h\<lparr>recordIndex := i\<rparr>) = reply_key h"
  by (simp add: reply_key_def)

lemma reply_keys_positions:
  "length c \<le> length idxs \<Longrightarrow> reply_keys A (take j (with_positions idxs c)) = reply_keys A (take j c)"
  "length c \<le> length idxs \<Longrightarrow> reply_keys A (drop j (with_positions idxs c)) = reply_keys A (drop j c)"
  by (simp_all add: reply_keys_def take_map [symmetric] drop_map [symmetric] map_with_positions(2))

lemma with_positions_placed:
  assumes "shuffled idxs c"
  shows "placed (with_positions idxs c) (num_records c)"
proof -
  have l: "length c \<le> length idxs" using shuffled_length [OF assms] by (simp add: num_records_def)
  have "list_all (\<lambda>i. i < num_records c) (take (length c) idxs)"
    using assms by (auto simp: shuffled_def list_all_iff dest!: in_set_takeD)
  then have "list_all (\<lambda>h. recordIndex h < num_records c) (with_positions idxs c)"
    unfolding map_with_positions(1) [OF l, symmetric] by (simp add: list.pred_map comp_def)
  then show ?thesis using assms by (simp add: placed_def map_with_positions(1) [OF l] shuffled_def)
qed

lemma new_records:
  assumes "n \<le> 7"
  shows "recs_at 19 (replicate 18 0 @ x # replicate 4093 0) (replicate n (replicate 528 0))"
proof -
  have "concat (replicate n (replicate 528 (0 :: byte))) = replicate (n * 528) 0"
    by (induction n) (simp_all add: replicate_add [symmetric])
  moreover have "replicate 4093 (0 :: byte) = replicate (n * 528) 0 @ replicate (4093 - n * 528) 0"
    using assms by (simp add: replicate_add [symmetric])
  ultimately show ?thesis
    unfolding recs_at_def by (intro conjI exI [of _ "replicate 18 0 @ [x]"] exI [of _ "replicate (4093 - n * 528) 0"])
      (simp_all add: recs_ok_def list_all_length)
qed

lemma recs_payload:
  assumes "recs_at p mem rs" and "p = Suc q" and "take p mem = pre @ [x]" and "length pre = q"
  shows "mem_read q (1 + 528 * length rs) mem = Some (x # concat rs)"
proof -
  obtain pre' post where m: "mem = pre' @ concat rs @ post" "length pre' = p" and ok: "recs_ok rs"
    using assms(1) by (auto simp: recs_at_def)
  have "pre' = pre @ [x]" using assms(3) m by simp
  then have "mem = pre @ (x # concat rs) @ post" by (simp add: m(1))
  then show ?thesis using mem_read_append [of q pre "1 + 528 * length rs" "x # concat rs" post] assms(4) length_concat_recs [OF ok] by simp
qed

lemma build_msg_is:
  assumes "genv_ok E" and "aes_ok A" and "length c \<le> 7" and "list_all hop_ok c" and "shuffled idxs c"
  shows "\<exists>ids m g' rs. build_msg E A G elg hours idxs rid c g = Some (with_positions idxs c, m, g') \<and>
    msg_payload m = Some (of_nat (num_records c) # concat rs) \<and> recs_ok rs \<and> length rs = num_records c \<and>
    length ids = length c \<and> (c \<noteq> [] \<longrightarrow> last ids = rid) \<and> GetTypeID m = Some eI2NPVariableTunnelBuild \<and>
    (\<forall>j<length c. rs ! (idxs ! j) = undo_replies A (take j c) (request_record E G elg hours (c ! j) (ids ! j)))"
proof -
  let ?n = "num_records c" and ?x = "of_nat (num_records c) :: byte"
  let ?c = "with_positions idxs c"
  have n: "?n \<le> 7" "length c \<le> ?n" using assms(3) by (simp_all add: num_records_def)
  have l: "length idxs = ?n" by (rule shuffled_length [OF assms(5)])
  have d: "distinct idxs" "list_all (\<lambda>k. k < ?n) idxs" using assms(5) by (auto simp: shuffled_def list_all_iff)
  let ?b1 = "replicate 18 0 @ ?x # replicate 4093 0"
  have new: "replicate 4112 (0 :: byte) = replicate 18 0 @ 0 # replicate 4093 0"
    unfolding replicate_Suc [symmetric] replicate_add [symmetric] by (rule arg_cong2 [of _ _ _ _ replicate]) simp_all
  let ?m2 = "NewI2NPShortMessage\<lparr>mbuf := ?b1, mlen := 18 + (?n * 528 + 1)\<rparr>"
  have pay: "GetPayload NewI2NPShortMessage = 18" "GetPayload ?m2 = 18"
    by (simp_all add: i2np_access NewI2NPShortMessage_def I2NPMessageBuffer_def)
  have 1: "upd_buf (mem_set (GetPayload NewI2NPShortMessage) ?x) NewI2NPShortMessage = Some (NewI2NPShortMessage\<lparr>mbuf := ?b1\<rparr>)"
    using mem_set_append [of 18 "replicate 18 0" ?x 0 "replicate 4093 0"] pay(1)
    by (simp add: upd_buf_def NewI2NPShortMessage_def I2NPMessageBuffer_def new)
  have 2: "add_len (?n * 528 + 1) (NewI2NPShortMessage\<lparr>mbuf := ?b1\<rparr>) = ?m2"
    by (simp add: add_len_def NewI2NPShortMessage_def I2NPMessageBuffer_def)
  have r0: "recs_at 19 (mbuf ?m2) (replicate ?n (replicate 528 0))" using new_records [OF n(1), of ?x] by simp
  have p0: "(19 :: nat) = GetPayload ?m2 + 1" using pay(2) by simp
  obtain ids m3 g1 rs1 where 3: "create_records E G elg hours rid idxs 0 c (?m2, g) = Some (?c, m3, g1)"
      "recs_at 19 (mbuf m3) rs1" "same_frame 19 (mbuf ?m2) (mbuf m3)" "m3 = ?m2\<lparr>mbuf := mbuf m3\<rparr>" "length rs1 = ?n"
      "length ids = length c" "c \<noteq> [] \<longrightarrow> last ids = rid"
      and rec: "\<And>j. j < length c \<Longrightarrow> rs1 ! (idxs ! j) = request_record E G elg hours (c ! j) (ids ! j)"
    using create_records_is [OF assms(4) r0 p0 _ d(1), of 0 E G elg hours rid g] d(2) l n(2) by auto
  have pay3: "(19 :: nat) = GetPayload m3 + 1" using 3(4) pay(2) GetPayload_buf by (metis p0)
  have dl: "list_all (\<lambda>k. k < length rs1) (drop (length c) idxs)"
    using d(2) 3(5) by (auto simp: list_all_iff dest!: in_set_dropD)
  obtain m4 g2 rs2 where 4: "fill_records E (drop (length c) idxs) (m3, g1) = Some (m4, g2)" "recs_at 19 (mbuf m4) rs2"
      "same_frame 19 (mbuf m3) (mbuf m4)" "m4 = m3\<lparr>mbuf := mbuf m4\<rparr>" "length rs2 = ?n"
      and keep: "\<And>k. k < ?n \<Longrightarrow> k \<notin> set (drop (length c) idxs) \<Longrightarrow> rs2 ! k = rs1 ! k"
    using fill_records_is [OF assms(1) 3(2) pay3 dl, of g1] 3(5) by auto
  have rec2: "rs2 ! (idxs ! j) = request_record E G elg hours (c ! j) (ids ! j)" if "j < length c" for j
  proof -
    have "idxs ! j \<in> set (take (length c) idxs)" using that l n(2) by (force simp: in_set_conv_nth)
    then have "idxs ! j \<notin> set (drop (length c) idxs)" using set_take_disj_set_drop_if_distinct [OF d(1), of "length c"] by auto
    moreover have "idxs ! j < ?n" using d(2) that l n(2) by (simp add: list_all_length)
    ultimately show ?thesis using keep rec [OF that] by simp
  qed
  have ok: "list_all hop_ok ?c" using assms(4) l n(2) by (simp add: list_all_length)
  obtain mem dd rs where 5: "decrypt_in_advance A 19 ?c (mbuf m4, newCBCDecryption) = Some (mem, dd)" "recs_at 19 mem rs"
      "same_frame 19 (mbuf m4) mem" "length rs = ?n"
      and adv: "\<And>j. j < length c \<Longrightarrow> rs ! recordIndex (?c ! j) = undo_replies A (take j ?c) (rs2 ! recordIndex (?c ! j))"
    using decrypt_in_advance_is [OF assms(2) ok 4(2), of newCBCDecryption] with_positions_placed [OF assms(5)] 4(5) l n(2) by auto
  have final: "rs ! (idxs ! j) = undo_replies A (take j c) (request_record E G elg hours (c ! j) (ids ! j))" if "j < length c" for j
    using adv [OF that] rec2 [OF that] that l n(2) by (simp add: reply_keys_positions)
  let ?m5 = "m4\<lparr>mbuf := mem\<rparr>"
  have frame: "length mem = 4112" "take 19 mem = replicate 18 0 @ [?x]"
    using 5(3) 4(3) 3(3) by (simp_all add: same_frame_def)
  have m5: "?m5 = ?m2\<lparr>mbuf := mem\<rparr>" by (subst 4(4), subst 3(4)) simp
  have off: "moffset ?m5 = 2" "mlen ?m5 = 18 + (?n * 528 + 1)"
    unfolding m5 by (simp_all add: NewI2NPShortMessage_def I2NPMessageBuffer_def)
  have fit: "moffset ?m5 + 16 \<le> mlen ?m5" "mlen ?m5 \<le> length (mbuf ?m5)" using off frame(1) n(1) by simp_all
  have payload: "msg_payload ?m5 = Some (?x # concat rs)"
    using recs_payload [OF 5(2) _ frame(2), of 18] off 5(4) by (simp add: msg_payload_def i2np_access mult.commute)
  obtain rnd g3 where r: "genMsgID E g2 = (rnd, g3)" by (cases "genMsgID E g2")
  obtain now g4 where w: "clock E g3 = (now, g4)" by (cases "clock E g3")
  obtain m6 where 6: "FillI2NPMessageHeader (gsha E) eI2NPVariableTunnelBuild 0 rnd now ?m5 = Some m6"
      "msg_payload m6 = Some (?x # concat rs)" "GetTypeID m6 = Some eI2NPVariableTunnelBuild"
    using FillI2NPMessageHeader_fills [where sha = "gsha E", OF fit sha_nonempty [OF assms(1)],
        of eI2NPVariableTunnelBuild 0 rnd now] payload by auto
  have nr: "GetNumHops c = length c" "(if length c \<le> 5 then 5 else length c) = ?n"
    by (simp_all add: GetNumHops_def num_records_def)
  have "build_msg E A G elg hours idxs rid c g = Some (?c, m6, g4)"
    unfolding build_msg_def Let_def nr(1) unfolding nr(2) unfolding 1 Option.bind.bind_lunit
    unfolding 2 3(1) Option.bind.bind_lunit prod.case 4(1) pay(1)
    using 5(1) 6(1) by (simp add: r w)
  moreover have "recs_ok rs" using 5(2) by (simp add: recs_at_def)
  ultimately show ?thesis using 6(2,3) 5(4) 3(6,7) final
    by - (rule exI [of _ ids], rule exI [of _ m6], rule exI [of _ g4], rule exI [of _ rs], simp)
qed

section \<open>A hop answers\<close>

lemma clear_text_split:
  assumes "hop_ok h" and "nextRouter h = Some nr"
  shows "the (request_clear_text h hours i) =
    be_bytes 4 (tunnelID h) @ router h @ be_bytes 4 (nextTunnelID h) @ nr @ layerKey h @ ivKey h @ replyKey h @ replyIV h @
    ((if isGateway h then 0x80 else 0) OR (if isEndpoint h then 0x40 else 0)) # be_bytes 4 hours @ be_bytes 4 i @ replicate 29 0"
  using assms by (auto simp: hop_ok_def request_clear_text_def)

lemma clear_text_fields:
  fixes hours i :: u32
  assumes "hop_ok h" and "nextRouter h = Some nr"
  defines "ct \<equiv> the (request_clear_text h hours i)"
  shows "length ct = 222" and "bufbe32toh 0 ct = Some (tunnelID h)" and "bufbe32toh 36 ct = Some (nextTunnelID h)"
    and "mem_get 184 ct = Some ((if isGateway h then 0x80 else 0) OR (if isEndpoint h then 0x40 else 0))"
    and "bufbe32toh 189 ct = Some i"
    and "take 32 (drop 40 ct) = nr" and "take 32 (drop 72 ct) = layerKey h" and "take 32 (drop 104 ct) = ivKey h"
    and "take 32 (drop 136 ct) = replyKey h" and "take 16 (drop 168 ct) = replyIV h"
proof -
  have l: "length (router h) = 32" "length nr = 32" "length (layerKey h) = 32" "length (ivKey h) = 32"
    "length (replyKey h) = 32" "length (replyIV h) = 16"
    using assms(1,2) by (auto simp: hop_ok_def)
  note ct = clear_text_split [OF assms(1,2), of hours i, folded ct_def]
  show "length ct = 222" unfolding ct using l by simp
  show "bufbe32toh 0 ct = Some (tunnelID h)" unfolding ct using l by (simp add: bufbe32toh_eq mem_read_def)
  show "bufbe32toh 36 ct = Some (nextTunnelID h)" unfolding ct using l by (simp add: bufbe32toh_eq mem_read_def)
  show "bufbe32toh 189 ct = Some i" unfolding ct using l by (simp add: bufbe32toh_eq mem_read_def)
  show "mem_get 184 ct = Some ((if isGateway h then 0x80 else 0) OR (if isEndpoint h then 0x40 else 0))"
    unfolding ct using l by (simp add: mem_get_def nth_append)
  show "take 32 (drop 40 ct) = nr" "take 32 (drop 72 ct) = layerKey h" "take 32 (drop 104 ct) = ivKey h"
    "take 32 (drop 136 ct) = replyKey h" "take 16 (drop 168 ct) = replyIV h"
    unfolding ct using l by simp_all
qed

lemma flag_bits:
  "((if a then 0x80 else 0) OR (if b then 0x40 else 0)) AND 0x80 \<noteq> (0 :: byte) \<longleftrightarrow> a"
  "((if a then 0x80 else 0) OR (if b then 0x40 else 0)) AND 0x40 \<noteq> (0 :: byte) \<longleftrightarrow> b"
  by simp_all

definition answer_code :: "hop_context \<Rightarrow> byte" where
  "answer_code C = (if accepts C then 0 else 30)"

definition answer :: "'g genv \<Rightarrow> hop_context \<Rightarrow> bytes \<Rightarrow> bytes" where
  "answer E C R = (let R1 = R[527 := answer_code C] in gsha E (take 496 (drop 32 R1)) @ drop 32 R1)"

lemma answer_is:
  assumes "genv_ok E" and "length R = 528"
  shows "length (answer E C R) = 528" and "answer E C R ! 527 = answer_code C"
  using assms by (simp_all add: answer_def Let_def genv_ok_def nth_append)

lemma encrypt_records_is:
  assumes "aes_ok A" and "take 32 (drop 136 ct) = fst k" and "take 16 (drop 168 ct) = snd k" and "length (snd k) = 16"
    and "recs_at p mem rs" and "j + n \<le> length rs"
  shows "\<exists>mem' e'. encrypt_records A ct p j n (mem, e) = Some (mem', e') \<and>
    recs_at p mem' (on_recs (reply_enc A k) [j..<j + n] rs) \<and> same_frame p mem mem'"
  using assms(5,6)
proof (induction n arbitrary: j mem rs e)
  case 0
  then show ?case by (simp add: same_frame_def)
next
  case (Suc n)
  let ?e = "CBCEncryption_SetIV (snd k) (CBCEncryption_SetKey (fst k) e)"
  let ?x = "CBCEncryption_Encrypt A (rs ! j) ?e"
  have j: "j < length rs" using Suc.prems(2) by simp
  have x: "fst ?x = reply_enc A k (rs ! j)" by (rule reply_enc_state)
  have "length (rs ! j) = 528" using Suc.prems(1) j recs_ok_nth by (auto simp: recs_at_def)
  then have "length (reply_enc A k (rs ! j)) = 528" using reply_length(2) [OF assms(1)] assms(4) by simp
  from recs_write [OF Suc.prems(1) j this] obtain mem1 where 1: "mem_write (p + j * 528) (fst ?x) mem = Some mem1"
      "recs_at p mem1 (rs[j := reply_enc A k (rs ! j)])" "same_frame p mem mem1"
    unfolding x by (auto simp: same_frame_def)
  have "j + 1 + n \<le> length (rs[j := reply_enc A k (rs ! j)])" using Suc.prems(2) by simp
  from Suc.IH [OF 1(2) this, of "snd ?x"] obtain mem2 e2 where 2: "encrypt_records A ct p (j + 1) n (mem1, snd ?x) = Some (mem2, e2)"
      "recs_at p mem2 (on_recs (reply_enc A k) [j + 1..<j + 1 + n] (rs[j := reply_enc A k (rs ! j)]))" "same_frame p mem1 mem2"
    by blast
  have "encrypt_records A ct p j (Suc n) (mem, e) = Some (mem2, e2)"
    using recs_read [OF Suc.prems(1) j] 1(1) 2(1) by (simp add: assms(2,3) case_prod_beta)
  moreover have "[j..<j + Suc n] = j # [j + 1..<j + 1 + n]" by (simp add: upt_conv_Cons)
  ultimately show ?case using 2(2) same_frame_trans [OF 1(3) 2(3)] by simp
qed

lemma on_all_recs: "on_recs f [0..<length rs] rs = map f rs"
  by (rule nth_equalityI) (simp_all add: on_recs_nth)

text \<open>The private key of the hop belongs to the ElGamal object the creator used for it.\<close>

definition key_fits :: "'g genv \<Rightarrow> group \<Rightarrow> (bytes \<Rightarrow> ElGamalEncryption) \<Rightarrow> hop_context \<Rightarrow> bytes \<Rightarrow> bool" where
  "key_fits E G elg C r \<longleftrightarrow> ourIdent C = r \<and>
     (\<forall>ct. length ct = 222 \<longrightarrow>
        ElGamalDecrypt G (gsha E) (encryptionPrivateKey C) (ElGamalEncrypt G (gsha E) [] (elg r) ct False) False = Some ct)"

definition transit_of :: "'g genv \<Rightarrow> TunnelHopConfig \<Rightarrow> 'g \<Rightarrow> transit \<times> 'g" where
  "transit_of E h g = CreateTransitTunnel E (tunnelID h) (the (nextRouter h)) (nextTunnelID h) (layerKey h) (ivKey h)
     (isGateway h) (isEndpoint h) g"

lemma handle_our_record_is:
  assumes "genv_ok E" and "aes_ok A" and "hop_ok h" and "key_fits E G elg C (router h)"
    and "recs_at p mem rs" and "i < length rs" and "rs ! i = request_record E G elg hours h j"
  shows "\<exists>mem'. handle_our_record E A G C (length rs) p (p + i * 528) (mem, clear0) g =
      Some (mem', the (request_clear_text h hours j),
        if accepts C then (Some (fst (transit_of E h g)), snd (transit_of E h g)) else (None, g)) \<and>
    recs_at p mem' (map (reply_enc A (reply_key h)) (rs[i := answer E C (rs ! i)])) \<and> same_frame p mem mem'"
proof -
  obtain nr where nr: "nextRouter h = Some nr" using assms(3) by (auto simp: hop_ok_def)
  let ?ct = "the (request_clear_text h hours j)"
  note f = clear_text_fields [OF assms(3) nr, of hours j]
  have R: "length (rs ! i) = 528" using assms(5,6) recs_ok_nth by (auto simp: recs_at_def)
  have enc: "mem_read (p + i * 528 + 16) 512 mem = Some (ElGamalEncrypt G (gsha E) [] (elg (router h)) ?ct False)"
    using mem_read_sub [OF recs_read [OF assms(5,6)], of 16 512] assms(3)
    by (simp add: assms(7) request_record_def hop_ok_def ElGamalEncrypt_def Let_def)
  have dec: "ElGamalDecrypt G (gsha E) (encryptionPrivateKey C) (ElGamalEncrypt G (gsha E) [] (elg (router h)) ?ct False) False = Some ?ct"
    using assms(4) f(1) by (simp add: key_fits_def)
  obtain pre post where m: "mem = pre @ rs ! i @ post" "length pre = p + i * 528"
      and upd: "\<And>r. length r = 528 \<Longrightarrow> recs_at p (pre @ r @ post) (rs[i := r])"
    using recs_split [OF assms(5,6)] by metis
  let ?R1 = "(rs ! i)[527 := answer_code C]"
  have 1: "mem_set (p + i * 528 + 527) (if accepts C then 0 else 30) mem = Some (pre @ ?R1 @ post)"
    using m(2) R by (simp add: mem_set_def m(1) list_update_append answer_code_def)
  have 2: "mem_read (p + i * 528 + 32) 496 (pre @ ?R1 @ post) = Some (take 496 (drop 32 ?R1))"
    using m(2) R by (simp add: mem_read_def)
  have sha: "length (gsha E (take 496 (drop 32 ?R1))) = 32" using assms(1) by (simp add: genv_ok_def)
  have 3: "mem_write (p + i * 528) (gsha E (take 496 (drop 32 ?R1))) (pre @ ?R1 @ post) = Some (pre @ answer E C (rs ! i) @ post)"
    using m(2) R sha by (simp add: mem_write_def answer_def Let_def)
  have a: "length (answer E C (rs ! i)) = 528" by (rule answer_is(1) [OF assms(1) R])
  note rs = upd [OF a]
  let ?rs = "rs[i := answer E C (rs ! i)]"
  have iv: "length (snd (reply_key h)) = 16" "take 32 (drop 136 ?ct) = fst (reply_key h)" "take 16 (drop 168 ?ct) = snd (reply_key h)"
    using assms(3) f(9,10) by (simp_all add: hop_ok_def reply_key_def)
  obtain mem' e' where 4: "encrypt_records A ?ct p 0 (length rs) (pre @ answer E C (rs ! i) @ post, newCBCEncryption) = Some (mem', e')"
      "recs_at p mem' (map (reply_enc A (reply_key h)) ?rs)" "same_frame p (pre @ answer E C (rs ! i) @ post) mem'"
    using encrypt_records_is [OF assms(2) iv(2,3,1) rs, of 0 "length rs" newCBCEncryption] on_all_recs [of _ ?rs] by auto
  have "same_frame p mem mem'" using 4(3) m a R by (simp add: same_frame_def)
  moreover have "handle_our_record E A G C (length rs) p (p + i * 528) (mem, clear0) g =
      Some (mem', ?ct, if accepts C then (Some (fst (transit_of E h g)), snd (transit_of E h g)) else (None, g))"
    unfolding handle_our_record_def Let_def prod.case enc Option.bind.bind_lunit dec option.case f(2-4) 1 2 3 4(1)
    unfolding flag_bits f(6-8) by (simp add: transit_of_def nr case_prod_beta)
  ultimately show ?thesis using 4(2) by blast
qed

lemma HandleBuildRequestRecords_finds:
  assumes "recs_at p mem rs" and "i < length rs" and "take 16 (rs ! i) = take 16 (ourIdent C)"
    and "\<forall>j<i. take 16 (rs ! j) \<noteq> take 16 (ourIdent C)"
  shows "HandleBuildRequestRecords E A G C (length rs) p (mem, ct) g =
    map_option (Pair True) (handle_our_record E A G C (length rs) p (p + i * 528) (mem, ct) g)"
proof -
  have read: "mem_read (p + j * 528) 16 mem = Some (take 16 (rs ! j))" if "j < length rs" for j
    using mem_read_sub [OF recs_read [OF assms(1) that], of 0 16] by simp
  have "HandleBuildRequestRecords_from E A G C n p k (length rs - k) (mem, ct) g =
      map_option (Pair True) (handle_our_record E A G C n p (p + i * 528) (mem, ct) g)" if "k \<le> i" for k n
    using that
  proof (induction "i - k" arbitrary: k)
    case 0
    then have "k = i" "length rs - k = Suc (length rs - Suc i)" using assms(2) by auto
    then show ?case using read [OF assms(2)] assms(3) by simp
  next
    case (Suc d)
    then have k: "k < i" "k < length rs" "length rs - k = Suc (length rs - Suc k)" using assms(2) by auto
    have "d = i - Suc k" using Suc.hyps(2) by simp
    from Suc.hyps(1) [OF this] k show ?case using read [OF k(2)] assms(4) by simp
  qed
  from this [of 0 "length rs"] show ?thesis by (simp add: HandleBuildRequestRecords_def)
qed

text \<open>
  The build message passes the hops one after another: each handles it and sends it on. The list of
  transit tunnels created is collected.
\<close>

fun build_hops ::
    "'g genv \<Rightarrow> aes \<Rightarrow> group \<Rightarrow> hop_context list \<Rightarrow> bytes \<Rightarrow> 'g \<Rightarrow> (bytes \<times> transit option list \<times> 'g) option" where
  "build_hops E A G [] mem g = Some (mem, [], g)"
| "build_hops E A G (C # Cs) mem g = do {
     n \<leftarrow> mem_get 0 mem;
     (found, mem1, ct, t, g1) \<leftarrow> HandleBuildRequestRecords E A G C (unat n) 1 (mem, replicate 222 0) g;
     if found then do {
       (mem2, ts, g2) \<leftarrow> build_hops E A G Cs mem1 g1;
       Some (mem2, t # ts, g2)
     } else None
   }"

text \<open>
  No record that a hop looks at before its own begins, by accident, with the hop's identity.
\<close>

fun no_clash ::
    "'g genv \<Rightarrow> aes \<Rightarrow> group \<Rightarrow> hop_context list \<Rightarrow> nat list \<Rightarrow> bytes \<Rightarrow> 'g \<Rightarrow> bool" where
  "no_clash E A G (C # Cs) (i # is) mem g =
     ((\<forall>j \<in> {..<i}. take 16 (drop (1 + j * 528) mem) \<noteq> take 16 (ourIdent C)) \<and>
      (case HandleBuildRequestRecords E A G C (unat (hd mem)) 1 (mem, replicate 222 0) g of
         Some (found, mem1, ct, t, g1) \<Rightarrow> no_clash E A G Cs is mem1 g1
       | None \<Rightarrow> True))"
| "no_clash E A G _ _ mem g = True"

definition created :: "'g genv \<Rightarrow> TunnelHopConfig \<times> hop_context \<Rightarrow> transit option \<Rightarrow> bool" where
  "created E hC t \<longleftrightarrow> (\<exists>g. t = (if accepts (snd hC) then Some (fst (transit_of E (fst hC) g)) else None))"

lemma frame_head: "same_frame (Suc 0) mem mem' \<Longrightarrow> mem \<noteq> [] \<Longrightarrow> hd mem' = hd mem \<and> mem' \<noteq> []"
  by (cases mem; cases mem') (auto simp: same_frame_def)

lemma build_hops_is:
  assumes "genv_ok E" and "aes_ok A" and "list_all hop_ok c" and "list_all2 (\<lambda>C h. key_fits E G elg C (router h)) Cs c"
    and "length ids = length c" and "placed c (length rs)"
    and "recs_at 1 mem rs" and "mem \<noteq> []" and "unat (hd mem) = length rs"
    and "\<forall>j<length c. rs ! recordIndex (c ! j) = undo_replies A (take j c) (request_record E G elg hours (c ! j) (ids ! j))"
    and "no_clash E A G Cs (map recordIndex c) mem g"
  shows "\<exists>mem' ts g' rs'. build_hops E A G Cs mem g = Some (mem', ts, g') \<and> recs_at 1 mem' rs' \<and> length rs' = length rs \<and>
    same_frame 1 mem mem' \<and> list_all2 (created E) (zip c Cs) ts \<and>
    (\<forall>i<length rs. i \<notin> recordIndex ` set c \<longrightarrow> rs' ! i = add_replies A c (rs ! i)) \<and>
    (\<forall>j<length c. rs' ! recordIndex (c ! j) =
       add_replies A (drop j c) (answer E (Cs ! j) (request_record E G elg hours (c ! j) (ids ! j))))"
  using assms(4,3,5-)
proof (induction Cs c arbitrary: ids mem g rs rule: list_all2_induct)
  case Nil
  then show ?case by (auto simp: same_frame_def reply_keys_def)
next
  case (Cons C Cs h c)
  note fits = Cons.hyps(1) and prems = Cons.prems
  obtain i ids' where ids: "ids = i # ids'" using prems(2) by (cases ids) auto
  let ?x = "recordIndex h" and ?R = "request_record E G elg hours h i"
  have h: "hop_ok h" "list_all hop_ok c" using prems(1) by simp_all
  have x: "?x < length rs" "?x \<notin> set (map recordIndex c)" using prems(3) by (simp_all add: placed_def)
  have R: "rs ! ?x = ?R" using prems(7) ids by (auto simp: reply_keys_def)
  have ident: "take 16 (rs ! ?x) = take 16 (ourIdent C)"
    using fits h(1) by (simp add: R request_record_def key_fits_def hop_ok_def)
  have rec: "take 16 (drop (1 + j * 528) mem) = take 16 (rs ! j)" if "j < length rs" for j
    using mem_read_sub [OF recs_read [OF prems(4) that], of 0 16] by (simp add: mem_read_def split: if_splits)
  have "\<forall>j<?x. take 16 (rs ! j) \<noteq> take 16 (ourIdent C)" using prems(8) rec x(1) by auto
  note find = HandleBuildRequestRecords_finds [OF prems(4) x(1) ident this]
  let ?rs = "map (reply_enc A (reply_key h)) (rs[?x := answer E C (rs ! ?x)])"
  let ?g = "snd (if accepts C then (Some (fst (transit_of E h g)), snd (transit_of E h g)) else (None, g))"
  let ?t = "if accepts C then Some (fst (transit_of E h g)) else None"
  obtain mem1 where m1: "handle_our_record E A G C (length rs) 1 (1 + ?x * 528) (mem, replicate 222 0) g =
      Some (mem1, the (request_clear_text h hours i), ?t, ?g)"
      "recs_at 1 mem1 ?rs" "same_frame 1 mem mem1"
    using handle_our_record_is [OF assms(1,2) h(1) fits prems(4) x(1) R, of "replicate 222 0" g] by (cases "accepts C") auto
  have head: "hd mem1 = hd mem" "mem1 \<noteq> []" using frame_head m1(3) prems(5) by auto
  have get: "mem_get 0 mem = Some (hd mem)" by (rule mem_get_hd [OF prems(5)])
  have H: "HandleBuildRequestRecords E A G C (unat (hd mem)) 1 (mem, replicate 222 0) g =
      Some (True, mem1, the (request_clear_text h hours i), ?t, ?g)"
    unfolding prems(6) find m1(1) by (simp only: option.map)
  have lr: "length ?rs = length rs" by simp
  have good: "list_all (\<lambda>k. aes_ok (fst k) \<and> length (snd (snd k)) = 16) (reply_keys A c')" if "list_all hop_ok c'" for c'
    using that assms(2) by (auto simp: reply_keys_def list_all_iff hop_ok_def reply_key_def)
  have later: "?rs ! recordIndex (c ! j) = undo_replies A (take j c) (request_record E G elg hours (c ! j) (ids' ! j))"
    if "j < length c" for j
  proof -
    have lt: "recordIndex (c ! j) < length rs" using prems(3) that by (auto simp: placed_def list_all_length)
    have ne: "recordIndex (c ! j) \<noteq> ?x" using x(2) that by (metis length_map nth_map nth_mem)
    let ?r = "undo_replies A (take j c) (request_record E G elg hours (c ! j) (ids' ! j))"
    have hj: "hop_ok (c ! j)" "list_all hop_ok (take j c)" using h(2) that by (auto simp: list_all_length)
    have l: "length ?r = 528" using reply_layers.ok_foldr [OF good [OF hj(2)]] request_record_is(2) [OF hj(1)] by blast
    have "rs ! recordIndex (c ! j) = reply_dec A (reply_key h) ?r"
      using prems(7) that by (auto simp: ids reply_keys_def dest!: spec [of _ "Suc j"])
    then have "?rs ! recordIndex (c ! j) = reply_enc A (reply_key h) (reply_dec A (reply_key h) ?r)" using lt ne by simp
    then show ?thesis using reply_inverse(2) [OF assms(2) l] h(1) by (simp add: hop_ok_def reply_key_def)
  qed
  have clash: "no_clash E A G Cs (map recordIndex c) mem1 ?g" using prems(8) H by simp
  obtain mem2 ts g2 rs2 where 2: "build_hops E A G Cs mem1 ?g = Some (mem2, ts, g2)" "recs_at 1 mem2 rs2" "length rs2 = length ?rs"
      "same_frame 1 mem1 mem2" "list_all2 (created E) (zip c Cs) ts"
      and keep: "\<And>i. i < length ?rs \<Longrightarrow> i \<notin> recordIndex ` set c \<Longrightarrow> rs2 ! i = add_replies A c (?rs ! i)"
      and ans: "\<And>j. j < length c \<Longrightarrow> rs2 ! recordIndex (c ! j) =
        add_replies A (drop j c) (answer E (Cs ! j) (request_record E G elg hours (c ! j) (ids' ! j)))"
    using Cons.IH [OF h(2) _ _ m1(2) head(2) _ _ clash, of ids'] prems(2,3,6) later head(1)
    by (auto simp: ids placed_def)
  have "rs2 ! recordIndex ((h # c) ! j) =
      add_replies A (drop j (h # c)) (answer E ((C # Cs) ! j) (request_record E G elg hours ((h # c) ! j) (ids ! j)))"
    if "j < length (h # c)" for j
  proof (cases j)
    case 0
    then show ?thesis using keep [of ?x] x R by (simp add: ids reply_keys_def)
  next
    case (Suc k)
    then show ?thesis using ans [of k] that by (simp add: ids)
  qed
  moreover have "rs2 ! i = add_replies A (h # c) (rs ! i)" if "i < length rs" "i \<notin> recordIndex ` set (h # c)" for i
    using keep [of i] that by (simp add: reply_keys_def)
  moreover have "build_hops E A G (C # Cs) mem g = Some (mem2, ?t # ts, g2)" using H 2(1) get by simp
  moreover have "list_all2 (created E) (zip (h # c) (C # Cs)) (?t # ts)" using 2(5) by (auto simp: created_def)
  ultimately show ?case using 2(2,3) lr same_frame_trans [OF m1(3) 2(4)]
    by - (rule exI [of _ mem2], rule exI [of _ "?t # ts"], rule exI [of _ g2], rule exI [of _ rs2], auto)
qed

section \<open>The creator reads the answers\<close>

lemma decrypt_replies_is:
  assumes "aes_ok A" and "length (replyIV h) = 16" and "recs_at 1 mem rs" and "dKey d = replyKey h"
    and "mem \<noteq> []" and "unat (hd mem) = length rs" and "list_all (\<lambda>h1. recordIndex h1 < length rs) hs"
  shows "\<exists>mem' d'. decrypt_replies A h hs (mem, d) = Some (mem', d') \<and>
    recs_at 1 mem' (on_recs (reply_dec A (reply_key h)) (map recordIndex hs) rs) \<and> same_frame 1 mem mem'"
  using assms(3-)
proof (induction hs arbitrary: mem d rs)
  case Nil
  then show ?case by (simp add: same_frame_def)
next
  case (Cons h1 hs)
  let ?rs = "rs[recordIndex h1 := reply_dec A (reply_key h) (rs ! recordIndex h1)]"
  obtain mem1 d1 where 1: "decrypt_record A h (1 + recordIndex h1 * 528) (mem, d) = Some (mem1, d1)"
      "recs_at 1 mem1 ?rs" "dKey d1 = replyKey h" "same_frame 1 mem mem1"
    using decrypt_record_is [OF assms(1) Cons.prems(1) _ Cons.prems(2) assms(2), of "recordIndex h1"] Cons.prems(5)
    by (auto simp: same_frame_def)
  have head: "hd mem1 = hd mem" "mem1 \<noteq> []" using frame_head 1(4) Cons.prems(3) by auto
  have "decrypt_replies A h (h1 # hs) (mem, d) = decrypt_replies A h hs (mem1, d1)"
    using mem_get_hd [OF Cons.prems(3)] 1(1) Cons.prems(4,5) by simp
  moreover obtain mem2 d2 where "decrypt_replies A h hs (mem1, d1) = Some (mem2, d2)"
      "recs_at 1 mem2 (on_recs (reply_dec A (reply_key h)) (map recordIndex hs) ?rs)" "same_frame 1 mem1 mem2"
    using Cons.IH [OF 1(2,3) head(2)] head(1) Cons.prems(4,5) by auto
  ultimately show ?case using same_frame_trans [OF 1(4)] by auto
qed

lemma decrypt_all_replies_is:
  assumes "aes_ok A" and "list_all hop_ok hs" and "placed hs (length rs)" and "recs_at 1 mem rs" and "mem \<noteq> []"
    and "unat (hd mem) = length rs"
  shows "\<exists>mem' d' rs'. decrypt_all_replies A hs (mem, d) = Some (mem', d') \<and> recs_at 1 mem' rs' \<and> length rs' = length rs \<and>
    (\<forall>i<length rs. i \<notin> recordIndex ` set hs \<longrightarrow> rs' ! i = rs ! i) \<and>
    (\<forall>j<length hs. rs' ! recordIndex (hs ! j) =
       fold (\<lambda>k. reply_dec (fst k) (snd k)) (reply_keys A (take (Suc j) hs)) (rs ! recordIndex (hs ! j)))"
  using assms(2-)
proof (induction hs arbitrary: mem d rs)
  case Nil
  then show ?case by auto
next
  case (Cons h hs)
  let ?is = "map recordIndex (h # hs)"
  let ?rs = "on_recs (reply_dec A (reply_key h)) ?is rs"
  have iv: "length (replyIV h) = 16" using Cons.prems(1) by (simp add: hop_ok_def)
  have key: "dKey (CBCDecryption_SetKey (replyKey h) d) = replyKey h" by (simp add: CBCDecryption_SetKey_def)
  have lt: "list_all (\<lambda>h1. recordIndex h1 < length rs) (h # hs)" and dist: "distinct ?is" using Cons.prems(2) by (simp_all add: placed_def)
  obtain mem1 d1 where 1: "decrypt_replies A h (h # hs) (mem, CBCDecryption_SetKey (replyKey h) d) = Some (mem1, d1)"
      "recs_at 1 mem1 ?rs" "same_frame 1 mem mem1"
    using decrypt_replies_is [OF assms(1) iv Cons.prems(3) key Cons.prems(4,5) lt] by blast
  have head: "hd mem1 = hd mem" "mem1 \<noteq> []" using frame_head 1(3) Cons.prems(4) by auto
  have hs: "list_all hop_ok hs" "placed hs (length ?rs)" "unat (hd mem1) = length ?rs"
    using Cons.prems(1,2,5) head(1) by (simp_all add: placed_def)
  obtain mem2 d2 rs2 where 2: "decrypt_all_replies A hs (mem1, d1) = Some (mem2, d2)" "recs_at 1 mem2 rs2" "length rs2 = length ?rs"
      and keep: "\<And>i. i < length ?rs \<Longrightarrow> i \<notin> recordIndex ` set hs \<Longrightarrow> rs2 ! i = ?rs ! i"
      and new: "\<And>j. j < length hs \<Longrightarrow> rs2 ! recordIndex (hs ! j) =
        fold (\<lambda>k. reply_dec (fst k) (snd k)) (reply_keys A (take (Suc j) hs)) (?rs ! recordIndex (hs ! j))"
    using Cons.IH [OF hs(1,2) 1(2) head(2) hs(3), of d1] by blast
  have nth: "?rs ! i = (if i \<in> set ?is then reply_dec A (reply_key h) (rs ! i) else rs ! i)" if "i < length rs" for i
    by (rule on_recs_nth [OF dist that])
  have idx: "recordIndex ((h # hs) ! j) < length rs" "recordIndex ((h # hs) ! j) \<in> set ?is" if "j < length (h # hs)" for j
    using lt that unfolding list_all_length by (metis, metis length_map nth_map nth_mem)
  have "rs2 ! recordIndex ((h # hs) ! j) =
      fold (\<lambda>k. reply_dec (fst k) (snd k)) (reply_keys A (take (Suc j) (h # hs))) (rs ! recordIndex ((h # hs) ! j))"
    if "j < length (h # hs)" for j
  proof (cases j)
    case 0
    then show ?thesis using keep [of "recordIndex h"] nth [OF idx(1) [OF that]] idx [OF that] dist by (simp add: reply_keys_def)
  next
    case (Suc k)
    then show ?thesis using new [of k] nth [OF idx(1) [OF that]] idx(2) [OF that] that by (simp add: reply_keys_def)
  qed
  moreover have "rs2 ! i = rs ! i" if "i < length rs" "i \<notin> recordIndex ` set (h # hs)" for i
    using keep [of i] nth [OF that(1)] that by auto
  moreover have "decrypt_all_replies A (h # hs) (mem, d) = Some (mem2, d2)"
    unfolding decrypt_all_replies.simps fst_conv snd_conv 1(1) Option.bind.bind_lunit by (rule 2(1))
  ultimately show ?case using 2(2,3)
    by - (rule exI [of _ mem2], rule exI [of _ d2], rule exI [of _ rs2], auto)
qed

lemma read_rets_is:
  assumes "recs_at 1 mem rs" and "list_all (\<lambda>h. recordIndex h < length rs) c"
  shows "read_rets mem c = Some (map (\<lambda>h. rs ! recordIndex h ! 527) c)"
  using assms(2)
proof (induction c)
  case (Cons h c)
  have "recordIndex h < length rs" using Cons.prems by simp
  then have "mem_get (1 + recordIndex h * 528 + 527) mem = Some (rs ! recordIndex h ! 527)"
    by (intro mem_get_read [OF recs_read [OF assms(1)]]) simp_all
  then show ?case using Cons by simp
qed simp

lemma keyed_established:
  "keyed (map (\<lambda>h. h\<lparr>decryption := TunnelDecryption_SetKeys (layerKey h) (ivKey h) (decryption h)\<rparr>) c)"
  by (simp add: keyed_def list_all_iff TunnelDecryption_SetKeys_def CBCDecryption_SetKey_def)

text \<open>Records under the layers of all hops from their own on, as they come back to the creator.\<close>

lemma HandleTunnelBuildResponse_is:
  assumes "aes_ok A" and "list_all hop_ok (m_Config t)" and "placed (m_Config t) (length rs)" and "recs_at 1 mem rs"
    and "mem \<noteq> []" and "unat (hd mem) = length rs"
    and "\<forall>j<length (m_Config t). rs ! recordIndex (m_Config t ! j) = add_replies A (drop j (m_Config t)) (as ! j)"
    and "list_all (\<lambda>a. length a = 528) as" and "length as = length (m_Config t)"
  shows "\<exists>mem' t'. HandleTunnelBuildResponse A mem t =
      Some (list_all (\<lambda>a. a ! 527 = 0) as, zip (map router (m_Config t)) (map (\<lambda>a. a ! 527) as), mem', t') \<and>
    (if list_all (\<lambda>a. a ! 527 = 0) as then m_State t' = eTunnelStateEstablished \<and> keyed (m_Config t') else t' = t)"
proof -
  let ?c = "m_Config t" and ?dec = "\<lambda>k. reply_dec (fst k) (snd k)"
  have c: "list_all hop_ok (rev ?c)" "placed (rev ?c) (length rs)" using assms(2,3) by (simp_all add: placed_def rev_map [symmetric])
  obtain mem' d' rs' where 1: "decrypt_all_replies A (rev ?c) (mem, newCBCDecryption) = Some (mem', d')" "recs_at 1 mem' rs'"
      "length rs' = length rs"
      and new: "\<And>j. j < length (rev ?c) \<Longrightarrow> rs' ! recordIndex (rev ?c ! j) =
        fold ?dec (reply_keys A (take (Suc j) (rev ?c))) (rs ! recordIndex (rev ?c ! j))"
    using decrypt_all_replies_is [OF assms(1) c assms(4-6), of newCBCDecryption] by blast
  have ans: "rs' ! recordIndex (?c ! j) = as ! j" if "j < length ?c" for j
  proof -
    let ?k = "length ?c - Suc j"
    have k: "?k < length (rev ?c)" "rev ?c ! ?k = ?c ! j" "Suc ?k = length ?c - j" using that by (simp_all add: rev_nth)
    have "take (Suc ?k) (rev ?c) = rev (drop j ?c)" using that by (simp add: take_rev k(3))
    then have "rs' ! recordIndex (?c ! j) = undo_replies A (drop j ?c) (rs ! recordIndex (?c ! j))"
      using new [OF k(1)] k(2) by (simp add: reply_keys_def rev_map [symmetric] foldr_conv_fold)
    also have "\<dots> = undo_replies A (drop j ?c) (add_replies A (drop j ?c) (as ! j))" using assms(7) that by simp
    also have "\<dots> = as ! j"
    proof (rule reply_layers.creator_restores)
      show "list_all (\<lambda>h. aes_ok (fst h) \<and> length (snd (snd h)) = 16) (reply_keys A (drop j ?c))"
        using assms(1,2) by (auto simp: reply_keys_def list_all_iff hop_ok_def reply_key_def dest!: in_set_dropD)
      show "length (as ! j) = 528" using assms(8,9) that by (simp add: list_all_length)
    qed
    finally show ?thesis .
  qed
  have "read_rets mem' ?c = Some (map (\<lambda>h. rs' ! recordIndex h ! 527) ?c)"
    using read_rets_is [OF 1(2)] assms(3) 1(3) by (simp add: placed_def)
  also have "map (\<lambda>h. rs' ! recordIndex h ! 527) ?c = map (\<lambda>a. a ! 527) as"
    by (rule nth_equalityI) (simp_all add: ans assms(9))
  finally have rets: "read_rets mem' ?c = Some (map (\<lambda>a. a ! 527) as)" .
  show ?thesis
    unfolding HandleTunnelBuildResponse_def 1(1) rets Option.bind.bind_lunit prod.case Let_def
    using keyed_established [of ?c] by (simp add: list.pred_map comp_def)
qed

section \<open>Building a tunnel\<close>

lemma request_record_position [simp]: "request_record E G elg hours (h\<lparr>recordIndex := i\<rparr>) = request_record E G elg hours h"
  by (rule ext) (simp add: request_record_def request_clear_text_def)

fun transit_keys :: "transit \<Rightarrow> bytes \<times> bytes" where
  "transit_keys (Participant t) = transit_key t"
| "transit_keys (Gateway t) = transit_key t"
| "transit_keys (Endpoint t) = transit_key t"

lemma transit_of_keys: "transit_keys (fst (transit_of E h g)) = (layerKey h, ivKey h)"
  by (simp add: transit_of_def CreateTransitTunnel_def Let_def case_prod_beta transit_key_def newTransitTunnel_def
      TunnelEncryption_SetKeys_def CBCEncryption_SetKey_def TransitTunnel.defs TransitTunnelEndpoint.defs
      TransitTunnelGateway.defs TransitTunnelParticipant.defs)

text \<open>
  The transit tunnel that a hop of the configuration asks for: its receive tunnel, next tunnel and next router, its
  keys, and its kind, with nothing received or waiting.
\<close>

definition runs_as :: "TunnelHopConfig \<Rightarrow> 'a TransitTunnel_scheme \<Rightarrow> bool" where
  "runs_as h t \<longleftrightarrow> trTunnelID t = tunnelID h \<and> trNextTunnelID t = nextTunnelID h \<and> Some (trNextIdent t) = nextRouter h \<and>
     transit_key t = (layerKey h, ivKey h)"

definition transit_for :: "'g genv \<Rightarrow> TunnelHopConfig \<Rightarrow> transit \<Rightarrow> bool" where
  "transit_for E h x \<longleftrightarrow>
     (case x of
        Endpoint t \<Rightarrow> isEndpoint h \<and> runs_as h t \<and> trEndpoint t = newTunnelEndpoint False
      | Gateway t \<Rightarrow> \<not> isEndpoint h \<and> isGateway h \<and> runs_as h t \<and> gwNumSentBytes (trGateway t) = 0 \<and>
          (\<exists>g. gwBuffer (trGateway t) = fst (newTunnelGatewayBuffer E (nextTunnelID h) g))
      | Participant t \<Rightarrow> \<not> isEndpoint h \<and> \<not> isGateway h \<and> runs_as h t \<and> m_NumTransmittedBytes t = 0 \<and> m_TunnelDataMsgs t = [])"

lemma transit_of_for: "hop_ok h \<Longrightarrow> transit_for E h (fst (transit_of E h g))"
  by (auto simp: transit_of_def CreateTransitTunnel_def Let_def case_prod_beta transit_key_def newTransitTunnel_def transit_for_def
      runs_as_def hop_ok_def TunnelEncryption_SetKeys_def CBCEncryption_SetKey_def TransitTunnel.defs TransitTunnelEndpoint.defs
      TransitTunnelGateway.defs TransitTunnelParticipant.defs)

lemma transit_for_position [simp]: "transit_for E (h\<lparr>recordIndex := i\<rparr>) = transit_for E h"
  by (rule ext) (simp add: transit_for_def runs_as_def split: transit.split)

lemma created_transit:
  assumes "list_all2 (created E) (zip c Cs) ts" and "length Cs = length c" and "list_all hop_ok c"
  shows "list_all2 (\<lambda>(h, C) x. if accepts C then \<exists>y. x = Some y \<and> transit_for E h y else x = None) (zip c Cs) ts"
  using assms transit_of_for by (fastforce simp: list_all2_conv_all_nth list_all_length created_def)

text \<open>
  C8. Building a tunnel of at most seven hops works end to end. The creator writes a build message; every hop finds its own
  record, and when it accepts, creates exactly the transit tunnel that the configuration means for it: with its receive
  tunnel identifier, the next tunnel identifier, the next router, the layer and IV keys, and as endpoint, gateway or
  participant; a hop that declines creates none. The message goes on from hop to hop, and when the answers come back, the
  creator reads exactly the answer of each hop; the tunnel is established, with the layer keys of all hops, if and only if
  all of them accepted. All accesses stay inside the message. Conditions: the hops have keys and a next router of full
  length, the ElGamal keys of the hops fit, the shuffle is a permutation, and no record that
  stands in front of a hop's own starts, by accident, with the 16 bytes that hop looks for (\<open>no_clash\<close>).
\<close>

theorem tunnel_build_correct:
  assumes "genv_ok E" and "aes_ok A" and "m_Config t \<noteq> []" and "length (m_Config t) \<le> 7" and "list_all hop_ok (m_Config t)"
    and "shuffled idxs (m_Config t)" and "list_all2 (\<lambda>C h. key_fits E G elg C (router h)) Cs (m_Config t)"
    and "\<And>c m g1. build_msg E A G elg hours idxs rid (m_Config t) g = Some (c, m, g1) \<Longrightarrow>
      no_clash E A G Cs (map recordIndex c) (the (msg_payload m)) gh"
  shows "\<exists>c m g1 mem ts g2 mem' t'.
    build_msg E A G elg hours idxs rid (m_Config t) g = Some (c, m, g1) \<and>
    build_hops E A G Cs (the (msg_payload m)) gh = Some (mem, ts, g2) \<and>
    HandleTunnelBuildResponse A mem (t\<lparr>m_Config := c\<rparr>) =
      Some (list_all accepts Cs, zip (map router (m_Config t)) (map answer_code Cs), mem', t') \<and>
    list_all2 (\<lambda>(h, C) x. if accepts C then \<exists>y. x = Some y \<and> transit_for E h y else x = None) (zip (m_Config t) Cs) ts \<and>
    (list_all accepts Cs \<longrightarrow> IsEstablished t' \<and> keyed (m_Config t')) \<and>
    (\<not> list_all accepts Cs \<longrightarrow> t' = t\<lparr>m_Config := c\<rparr>)"
proof -
  let ?c = "with_positions idxs (m_Config t)" and ?n = "num_records (m_Config t)"
  have l: "length (m_Config t) \<le> length idxs" using shuffled_length [OF assms(6)] by (simp add: num_records_def)
  have lC: "length Cs = length (m_Config t)" using assms(7) by (rule list_all2_lengthD)
  obtain ids m g1 rs where b: "build_msg E A G elg hours idxs rid (m_Config t) g = Some (?c, m, g1)"
      "msg_payload m = Some (of_nat ?n # concat rs)" "recs_ok rs" "length rs = ?n" "length ids = length (m_Config t)"
      and rec: "\<And>j. j < length (m_Config t) \<Longrightarrow> rs ! (idxs ! j) =
        undo_replies A (take j (m_Config t)) (request_record E G elg hours (m_Config t ! j) (ids ! j))"
    using build_msg_is [OF assms(1,2,4,5,6), of G elg hours rid g] by blast
  let ?mem = "of_nat ?n # concat rs"
  have at: "recs_at 1 ?mem rs" using b(3) unfolding recs_at_def
    by - (rule conjI, assumption, rule exI [of _ "[of_nat ?n]"], rule exI [of _ "[]"], simp)
  have n: "unat (of_nat ?n :: byte) = ?n" using assms(4) by (simp add: unat_of_nat take_bit_nat_eq_self num_records_def)
  have ok: "list_all hop_ok ?c" using assms(5) l by (simp add: list_all_length)
  have fits: "list_all2 (\<lambda>C h. key_fits E G elg C (router h)) Cs ?c"
    using assms(7) l by (simp add: list_all2_conv_all_nth)
  have pl: "placed ?c (length rs)" using with_positions_placed [OF assms(6)] b(4) by simp
  have recs: "\<forall>j<length ?c. rs ! recordIndex (?c ! j) = undo_replies A (take j ?c) (request_record E G elg hours (?c ! j) (ids ! j))"
    using rec l by (simp add: reply_keys_positions)
  have clash: "no_clash E A G Cs (map recordIndex ?c) ?mem gh" using assms(8) [OF b(1)] b(2) by simp
  have ids: "length ids = length ?c" using b(5) l by simp
  obtain mem ts g2 rs' where h: "build_hops E A G Cs ?mem gh = Some (mem, ts, g2)" "recs_at 1 mem rs'" "length rs' = length rs"
      "same_frame 1 ?mem mem" "list_all2 (created E) (zip ?c Cs) ts"
      and ans: "\<And>j. j < length ?c \<Longrightarrow> rs' ! recordIndex (?c ! j) =
         add_replies A (drop j ?c) (answer E (Cs ! j) (request_record E G elg hours (?c ! j) (ids ! j)))"
    using build_hops_is [OF assms(1,2) ok fits ids pl at _ _ recs clash] n b(4) by auto
  let ?as = "map (\<lambda>j. answer E (Cs ! j) (request_record E G elg hours (?c ! j) (ids ! j))) [0..<length ?c]"
  have R: "length (request_record E G elg hours (?c ! j) (ids ! j)) = 528" if "j < length ?c" for j
    using ok that by (intro request_record_is(2)) (simp add: list_all_length)
  have "mem \<noteq> []" "unat (hd mem) = length rs'" using frame_head h(3,4) n b(4) by auto
  moreover have "\<forall>j<length ?c. rs' ! recordIndex (?c ! j) = add_replies A (drop j ?c) (?as ! j)" using ans by simp
  moreover have "list_all (\<lambda>a. length a = 528) ?as" using answer_is(1) [OF assms(1) R] by (simp add: list_all_length)
  ultimately obtain mem' t' where r: "HandleTunnelBuildResponse A mem (t\<lparr>m_Config := ?c\<rparr>) =
        Some (list_all (\<lambda>a. a ! 527 = 0) ?as, zip (map router ?c) (map (\<lambda>a. a ! 527) ?as), mem', t')"
      "if list_all (\<lambda>a. a ! 527 = 0) ?as then m_State t' = eTunnelStateEstablished \<and> keyed (m_Config t') else t' = t\<lparr>m_Config := ?c\<rparr>"
    using HandleTunnelBuildResponse_is [where t = "t\<lparr>m_Config := ?c\<rparr>" and rs = rs' and mem = mem and as = ?as, OF assms(2)] ok pl h(2,3) by auto
  have codes: "map (\<lambda>a. a ! 527) ?as = map answer_code Cs"
    using answer_is(2) [OF assms(1) R] lC l by (intro nth_equalityI) simp_all
  have "list_all (\<lambda>a. a ! 527 = 0) ?as = list_all (\<lambda>x. x = 0) (map (\<lambda>a. a ! 527) ?as)" by (simp only: list.pred_map comp_def)
  also have "\<dots> = list_all accepts Cs"
    unfolding codes list.pred_map comp_def by (rule list_all_cong) (simp_all add: answer_code_def)
  finally have est: "list_all (\<lambda>a. a ! 527 = 0) ?as = list_all accepts Cs" .
  have routers: "map router ?c = map router (m_Config t)"
    using l by (simp add: map_with_positions(2))
  have keys: "list_all2 (\<lambda>(h, C) x. if accepts C then \<exists>y. x = Some y \<and> transit_for E h y else x = None) (zip (m_Config t) Cs) ts"
    using created_transit [OF h(5) _ ok] lC l by (simp add: list_all2_conv_all_nth cong: if_cong)
  show ?thesis
    using b(1,2) h(1) r keys unfolding est codes routers
    by - (rule exI [of _ ?c], rule exI [of _ m], rule exI [of _ g1], rule exI [of _ mem], rule exI [of _ ts], rule exI [of _ g2],
        rule exI [of _ mem'], rule exI [of _ t'], simp add: IsEstablished_def split: if_splits)
qed

text \<open>Two hops for evaluation, the first with its record behind that of the second.\<close>

definition demo_key :: "bytes \<times> bytes" where
  "demo_key = GenerateElGamalKeyPair demo_group (replicate 256 0)"

definition demo_elg :: "bytes \<Rightarrow> ElGamalEncryption" where
  "demo_elg r = newElGamalEncryption demo_group (snd demo_key) 5"

definition demo_build_hop :: "byte \<Rightarrow> TunnelHopConfig" where
  "demo_build_hop k = \<lparr>router = replicate 32 k, nextRouter = Some (replicate 32 9), tunnelID = 1, nextTunnelID = 2,
     layerKey = replicate 32 k, ivKey = replicate 32 k, replyKey = replicate 32 k, replyIV = replicate 16 0,
     isGateway = False, isEndpoint = False, decryption = newTunnelDecryption, recordIndex = 0\<rparr>"

definition demo_context :: "byte \<Rightarrow> hop_context" where
  "demo_context k = \<lparr>ourIdent = replicate 32 k, encryptionPrivateKey = fst demo_key, acceptsTunnels = True,
     numTransitTunnels = 0, bandwidthExceeded = False\<rparr>"

definition demo_pending :: InboundTunnel where
  "demo_pending = demo_inbound\<lparr>m_Config := [demo_build_hop 1, demo_build_hop 2], m_State := eTunnelStatePending\<rparr>"

lemma demo_key_fits: "key_fits demo_genv demo_group demo_elg (demo_context k) (router (demo_build_hop k))"
proof -
  have "(0 :: nat) < 256 ^ 255" by (rule zero_less_power) simp
  then have "0 < gp demo_group" using demo_group_size(1) by (rule less_le_trans)
  then have i: "Integer (replicate 256 0) < gp demo_group" by (simp only: Integer_zero)
  have s: "length (gsha demo_genv x) = 32" for x by (simp add: demo_genv_def)
  have "ElGamalDecrypt demo_group (gsha demo_genv) (fst demo_key) (ElGamalEncrypt demo_group (gsha demo_genv) [] (demo_elg r) ct False) False = Some ct"
    if "length ct = 222" for ct r
    unfolding demo_elg_def
    by (rule ElGamalDecrypt_Encrypt [OF demo_group_order demo_group_size s that _ i])
       (simp_all only: length_replicate demo_key_def prod.collapse)
  then show ?thesis by (simp add: key_fits_def demo_context_def demo_build_hop_def)
qed

lemma reply_dec_first_block:
  assumes "aes_ok A" and "length r = 528" and "length (snd k) = 16"
  shows "take 16 (reply_dec A k r) = xor_block (ecb_dec A (fst k) (take 16 r)) (snd k)"
proof -
  have "length (ecb_dec A (fst k) (take 16 r)) = 16" using aes_okD(2) [OF assms(1)] assms(2) by simp
  moreover have "(528 :: nat) div 16 = Suc 32" by simp
  ultimately show ?thesis
    using assms(2,3) unfolding reply_dec_def CBCDecryption_Decrypt_def assms(2)
    by (simp only: cbc_Suc) (simp add: CBCDecryption_SetIV_def CBCDecryption_SetKey_def)
qed

theorem tunnel_build_correct_witness:
  "\<exists>c m g1 mem ts g2 mem' t'.
    build_msg demo_genv demo_aes demo_group demo_elg 0 [1, 0, 2, 3, 4] 77 (m_Config demo_pending) () = Some (c, m, g1) \<and>
    build_hops demo_genv demo_aes demo_group [demo_context 1, demo_context 2] (the (msg_payload m)) () = Some (mem, ts, g2) \<and>
    HandleTunnelBuildResponse demo_aes mem (demo_pending\<lparr>m_Config := c\<rparr>) =
      Some (True, [(replicate 32 1, 0), (replicate 32 2, 0)], mem', t') \<and> IsEstablished t' \<and>
    (\<exists>x y. ts = [Some x, Some y] \<and> transit_for demo_genv (demo_build_hop 1) x \<and> transit_for demo_genv (demo_build_hop 2) y)"
proof -
  let ?c = "m_Config demo_pending"
  have c: "?c \<noteq> []" "length ?c \<le> 7" "list_all hop_ok ?c"
    by (simp_all add: demo_pending_def demo_build_hop_def hop_ok_def)
  have sh: "shuffled [1, 0, 2, 3, 4] ?c" by (auto simp: shuffled_def demo_pending_def num_records_def)
  have fits: "list_all2 (\<lambda>C h. key_fits demo_genv demo_group demo_elg C (router h)) [demo_context 1, demo_context 2] ?c"
    by (simp add: demo_pending_def demo_key_fits)
  have clash: "no_clash demo_genv demo_aes demo_group [demo_context 1, demo_context 2] (map recordIndex c) (the (msg_payload m)) ()"
    if b: "build_msg demo_genv demo_aes demo_group demo_elg 0 [1, 0, 2, 3, 4] 77 ?c () = Some (c, m, g1)" for c m g1
  proof -
    obtain ids rs where rs: "c = with_positions [1, 0, 2, 3, 4] ?c" "msg_payload m = Some (of_nat (num_records ?c) # concat rs)"
        "recs_ok rs" "length rs = num_records ?c"
        and rec: "rs ! ([1, 0, 2, 3, 4] ! 1) = undo_replies demo_aes (take 1 ?c)
          (request_record demo_genv demo_group demo_elg 0 (?c ! 1) (ids ! 1))"
      using build_msg_is [OF demo_genv_ok demo_aes_ok c(2,3) sh, of demo_group demo_elg 0 77 "()"] b
      by (auto simp: demo_pending_def)
    let ?R = "request_record demo_genv demo_group demo_elg 0 (demo_build_hop 2) (ids ! 1)"
    have R: "length ?R = 528" using request_record_is(2) [of "demo_build_hop 2"] c(3) by (simp add: demo_pending_def)
    have R16: "take 16 ?R = replicate 16 2" by (simp add: request_record_def demo_build_hop_def)
    have "rs ! 0 = reply_dec demo_aes (reply_key (demo_build_hop 1)) ?R"
      using rec by (simp add: demo_pending_def reply_keys_def)
    then have "take 16 (rs ! 0) = xor_block (replicate 16 2) (replicate 16 0)"
      using reply_dec_first_block [OF demo_aes_ok R, of "reply_key (demo_build_hop 1)"] R16
      by (simp add: reply_key_def demo_build_hop_def demo_aes_def)
    also have "\<dots> = replicate 16 2" by (simp add: xor_block_def zip_replicate)
    finally have "take 16 (rs ! 0) \<noteq> take 16 (ourIdent (demo_context 1))" by (simp add: demo_context_def replicate_eq_replicate)
    moreover obtain r0 rs0 where "rs = r0 # rs0" using rs(4) by (cases rs) (simp_all add: num_records_def demo_pending_def)
    moreover have "length r0 = 528" if "rs = r0 # rs0" for r0 rs0 using rs(3) that by (simp add: recs_ok_def)
    ultimately show ?thesis using rs
      by (simp add: with_positions_def demo_pending_def lessThan_Suc split: option.splits)
  qed
  have "accepts (demo_context 1)" "accepts (demo_context 2)" by (simp_all add: accepts_def demo_context_def)
  then have a: "list_all accepts [demo_context 1, demo_context 2]" "answer_code (demo_context 1) = 0" "answer_code (demo_context 2) = 0"
    by (simp_all add: answer_code_def)
  have r: "zip (map router ?c) (map answer_code [demo_context 1, demo_context 2]) = [(replicate 32 1, 0), (replicate 32 2, 0)]"
    using a by (simp add: demo_pending_def demo_build_hop_def)
  have t: "list_all accepts [demo_context 1, demo_context 2] = True" using a(1) by simp
  let ?Cs = "[demo_context 1, demo_context 2]"
  have "\<exists>c m g1 mem ts g2 mem' t'.
      build_msg demo_genv demo_aes demo_group demo_elg 0 [1, 0, 2, 3, 4] 77 ?c () = Some (c, m, g1) \<and>
      build_hops demo_genv demo_aes demo_group ?Cs (the (msg_payload m)) () = Some (mem, ts, g2) \<and>
      HandleTunnelBuildResponse demo_aes mem (demo_pending\<lparr>m_Config := c\<rparr>) =
        Some (list_all accepts ?Cs, zip (map router ?c) (map answer_code ?Cs), mem', t') \<and>
      list_all2 (\<lambda>(h, C) x. if accepts C then \<exists>y. x = Some y \<and> transit_for demo_genv h y else x = None) (zip ?c ?Cs) ts \<and>
      (list_all accepts ?Cs \<longrightarrow> IsEstablished t' \<and> keyed (m_Config t')) \<and>
      (\<not> list_all accepts ?Cs \<longrightarrow> t' = demo_pending\<lparr>m_Config := c\<rparr>)"
    by (rule tunnel_build_correct [OF demo_genv_ok demo_aes_ok c sh fits]) (rule clash)
  moreover have "zip ?c ?Cs = [(demo_build_hop 1, demo_context 1), (demo_build_hop 2, demo_context 2)]"
    by (simp add: demo_pending_def)
  moreover have "accepts (demo_context 1) = True" "accepts (demo_context 2) = True" using a(1) by simp_all
  ultimately show ?thesis
    unfolding r t by (simp only: list_all2_Cons1 list_all2_Nil prod.case if_True) blast
qed

section \<open>Where building goes wrong\<close>

lemma put_bytes_None: "length (mbuf m) < i + length bs \<Longrightarrow> put_bytes i bs m = None"
  by (simp add: put_bytes_def upd_buf_def mem_write_def)

lemma put_bytes_length: "put_bytes i bs m = Some m' \<Longrightarrow> length (mbuf m') = length (mbuf m) \<and> moffset m' = moffset m"
  by (auto simp: put_bytes_def upd_buf_def len_simps)

lemma create_records_overflow:
  assumes "list_all hop_ok hs" and "length (mbuf m) = 4112" and "moffset m = 2"
    and "\<exists>j<length hs. i + j < length idxs \<and> 7 \<le> idxs ! (i + j)"
  shows "create_records E G elg hours rid idxs i hs (m, g) = None"
  using assms
proof (induction hs arbitrary: i m g)
  case Nil
  then show ?case by simp
next
  case (Cons h hs)
  show ?case
  proof (cases "i < length idxs \<and> 7 \<le> idxs ! i")
    case True
    have "length (request_record E G elg hours h k) = 528" for k
      by (rule request_record_is(2)) (use Cons.prems(1) in simp)
    moreover have "4112 < GetPayload m + 1 + idxs ! i * 528 + 528"
      using True Cons.prems(3) by (simp add: i2np_access)
    ultimately have "put_bytes (GetPayload m + 1 + idxs ! i * 528) (request_record E G elg hours h k) m = None" for k
      using Cons.prems(2) by (intro put_bytes_None) simp
    then show ?thesis using True request_record_is(1) [of h G E elg hours] Cons.prems(1) by (simp add: list_get_def case_prod_beta)
  next
    case False
    then obtain j where "j < length hs" "i + 1 + j < length idxs" "7 \<le> idxs ! (i + 1 + j)"
      using Cons.prems(4) by (metis Suc_less_eq add.right_neutral add_Suc_right add_Suc_shift length_Cons Suc_eq_plus1 not0_implies_Suc)
    then have "\<exists>j<length hs. i + 1 + j < length idxs \<and> 7 \<le> idxs ! (i + 1 + j)" by blast
    then have none: "create_records E G elg hours rid idxs (i + 1) hs (m', g') = None" if "length (mbuf m') = 4112" "moffset m' = 2" for m' g'
      using Cons.IH [OF _ that] Cons.prems(1) by simp
    show ?thesis
    proof (rule ccontr)
      assume "create_records E G elg hours rid idxs i (h # hs) (m, g) \<noteq> None"
      then obtain y r g' m1 where "put_bytes (GetPayload m + 1 + y * 528) r m = Some m1"
        "create_records E G elg hours rid idxs (i + 1) hs (m1, g') \<noteq> None"
        by (auto simp: case_prod_beta bind_eq_Some_conv split: if_splits) blast
      then show False using none Cons.prems(2,3) put_bytes_length by metis
    qed
  qed
qed

text \<open>
  A build request for a tunnel of more than seven hops does not fit the buffer of the message it is
  written to: with eight or more hops the creator writes outside the buffer, whatever the shuffle.
\<close>

theorem build_msg_overflow:
  assumes "8 \<le> length c" and "list_all hop_ok c" and "shuffled idxs c"
  shows "build_msg E A G elg hours idxs rid c g = None"
proof -
  have n: "num_records c = length c" and l: "length idxs = length c"
    using assms(1) shuffled_length [OF assms(3)] by (simp_all add: num_records_def)
  have "7 \<in> set idxs" using assms(1,3) n by (auto simp: shuffled_def)
  then obtain j where "j < length c" "idxs ! j = 7" using l by (auto simp: in_set_conv_nth)
  then have j: "\<exists>j<length c. 0 + j < length idxs \<and> 7 \<le> idxs ! (0 + j)" using l by auto
  have "create_records E G elg hours rid idxs 0 c (m, g) = None" if "length (mbuf m) = 4112" "moffset m = 2" for m
    by (rule create_records_overflow [OF assms(2) that j])
  then show ?thesis
    by (auto simp: build_msg_def Let_def bind_eq_None_conv upd_buf_def NewI2NPShortMessage_def I2NPMessageBuffer_def add_len_def
        len_simps)
qed

theorem build_msg_overflow_witness:
  "build_msg demo_genv demo_aes demo_group demo_elg 0 [0..<8] 77 (replicate 8 (demo_build_hop 1)) () = None"
  by (rule build_msg_overflow)
     (auto simp: shuffled_def num_records_def list_all_length demo_build_hop_def hop_ok_def)

lemma decrypt_record_length: "decrypt_record A h p s = Some s' \<Longrightarrow> length (fst s') = length (fst s)"
  by (auto simp: decrypt_record_def case_prod_beta bind_eq_Some_conv len_simps)

lemma decrypt_replies_length: "decrypt_replies A h hs s = Some s' \<Longrightarrow> length (fst s') = length (fst s)"
proof (induction hs arbitrary: s)
  case (Cons h1 hs)
  then show ?case by (fastforce simp: bind_eq_Some_conv dest: decrypt_record_length split: if_splits)
qed simp

lemma decrypt_all_replies_length: "decrypt_all_replies A hs s = Some s' \<Longrightarrow> length (fst s') = length (fst s)"
proof (induction hs arbitrary: s)
  case (Cons h hs)
  then show ?case by (auto simp: bind_eq_Some_conv simp del: decrypt_replies.simps dest!: decrypt_replies_length)
qed simp

lemma read_rets_None:
  "h \<in> set c \<Longrightarrow> length msg \<le> 1 + recordIndex h * 528 + 527 \<Longrightarrow> read_rets msg c = None"
  by (induction c) (auto simp: mem_get_def bind_eq_None_conv)

text \<open>
  The answers of the hops are read without a check of the record index: a build reply that is too
  short to hold the record of some hop makes the creator read behind the end of the message.
\<close>

theorem build_response_overread:
  assumes "h \<in> set (m_Config t)" and "length msg \<le> 1 + recordIndex h * 528 + 527"
  shows "HandleTunnelBuildResponse A msg t = None"
proof (cases "decrypt_all_replies A (rev (m_Config t)) (msg, newCBCDecryption)")
  case None
  then show ?thesis by (simp add: HandleTunnelBuildResponse_def)
next
  case (Some s)
  then have "length (fst s) = length msg" by (auto dest: decrypt_all_replies_length)
  then show ?thesis
    using Some read_rets_None [OF assms(1), of "fst s"] assms(2) by (cases s) (simp add: HandleTunnelBuildResponse_def)
qed

theorem build_response_overread_witness:
  "HandleTunnelBuildResponse demo_aes [0] demo_pending = None"
  by (rule build_response_overread [of "demo_build_hop 1"]) (simp_all add: demo_pending_def demo_build_hop_def)

text \<open>
  A hop does not look at the result of decrypting its record. A record with its identity whose
  checksum is wrong is answered like any other: the hop takes part in a tunnel whose keys and numbers are those of the
  cleared buffer, all zero.
\<close>

theorem bad_record_accepted:
  assumes "genv_ok E" and "aes_ok A" and "accepts C" and "recs_at p mem rs" and "i < length rs"
    and "take 16 (rs ! i) = take 16 (ourIdent C)" and "\<forall>j \<in> {..<i}. take 16 (rs ! j) \<noteq> take 16 (ourIdent C)"
    and "ElGamalDecrypt G (gsha E) (encryptionPrivateKey C) (take 512 (drop 16 (rs ! i))) False = None"
  shows "\<exists>mem' x g'. HandleBuildRequestRecords E A G C (length rs) p (mem, replicate 222 0) g =
      Some (True, mem', replicate 222 0, Some x, g') \<and> transit_keys x = (replicate 32 0, replicate 32 0)"
proof -
  let ?ct = "replicate 222 0 :: bytes"
  have R: "length (rs ! i) = 528" using assms(4,5) recs_ok_nth by (auto simp: recs_at_def)
  have enc: "mem_read (p + i * 528 + 16) 512 mem = Some (take 512 (drop 16 (rs ! i)))"
    using mem_read_sub [OF recs_read [OF assms(4,5)], of 16 512] by simp
  obtain mem1 where 1: "mem_set (p + i * 528 + 527) 0 mem = Some mem1" "recs_at p mem1 (rs[i := (rs ! i)[527 := 0]])"
  proof -
    obtain pre post where "mem = pre @ rs ! i @ post" "length pre = p + i * 528"
        "\<And>r. length r = 528 \<Longrightarrow> recs_at p (pre @ r @ post) (rs[i := r])"
      using recs_split [OF assms(4,5)] by metis
    then show thesis using that [of "pre @ (rs ! i)[527 := 0] @ post"] R by (simp add: mem_set_def list_update_append)
  qed
  have l1: "i < length (rs[i := (rs ! i)[527 := 0]])" using assms(5) by simp
  obtain hashed where 2: "mem_read (p + i * 528 + 32) 496 mem1 = Some hashed"
    using mem_read_sub [OF recs_read [OF 1(2) l1], of 32 496] by auto
  have sha: "length (gsha E hashed) = 32" using assms(1) by (simp add: genv_ok_def)
  obtain mem2 rs2 where 3: "mem_write (p + i * 528) (gsha E hashed) mem1 = Some mem2" "recs_at p mem2 rs2" "length rs2 = length rs"
  proof -
    obtain pre post where m: "mem1 = pre @ (rs ! i)[527 := 0] @ post" "length pre = p + i * 528"
        "\<And>r. length r = 528 \<Longrightarrow> recs_at p (pre @ r @ post) (rs[i := (rs ! i)[527 := 0], i := r])"
      using recs_split [OF 1(2) l1] assms(5) by (metis nth_list_update_eq)
    let ?r = "gsha E hashed @ drop 32 ((rs ! i)[527 := 0])"
    have "mem_write (p + i * 528) (gsha E hashed) mem1 = Some (pre @ ?r @ post)"
      using m(2) R sha by (simp add: m(1) mem_write_def)
    moreover have "length ?r = 528" using R sha by simp
    note m(3) [OF this]
    ultimately show thesis by (rule that) simp
  qed
  have k: "take 32 (drop 136 ?ct) = fst (replicate 32 0, replicate 16 0)" "take 16 (drop 168 ?ct) = snd (replicate 32 0, replicate 16 0)"
    "length (snd (replicate 32 (0 :: byte), replicate 16 (0 :: byte))) = 16" by simp_all
  obtain mem3 e where 4: "encrypt_records A ?ct p 0 (length rs) (mem2, newCBCEncryption) = Some (mem3, e)"
    using encrypt_records_is [OF assms(2) k 3(2), of 0 "length rs" newCBCEncryption] 3(3) by auto
  have ct: "bufbe32toh 0 ?ct = Some (of_be (replicate 4 0))" "bufbe32toh 36 ?ct = Some (of_be (replicate 4 0))" "mem_get 184 ?ct = Some 0"
    by (simp_all add: bufbe32toh_eq mem_read_def mem_get_def)
  have a: "accepts C = True" using assms(3) by simp
  let ?t = "CreateTransitTunnel E (of_be (replicate 4 0)) (replicate 32 0) (of_be (replicate 4 0)) (replicate 32 0) (replicate 32 0) False False g"
  have "handle_our_record E A G C (length rs) p (p + i * 528) (mem, ?ct) g = Some (mem3, ?ct, Some (fst ?t), snd ?t)"
    unfolding handle_our_record_def Let_def prod.case enc Option.bind.bind_lunit assms(8) option.case ct a if_True 1(1) 2 3(1) 4
    by (simp add: case_prod_beta)
  moreover have "transit_keys (fst ?t) = (replicate 32 0, replicate 32 0)"
    by (simp add: CreateTransitTunnel_def Let_def transit_key_def newTransitTunnel_def
        TunnelEncryption_SetKeys_def CBCEncryption_SetKey_def TransitTunnel.defs TransitTunnelParticipant.defs)
  ultimately show ?thesis
    using HandleBuildRequestRecords_finds [OF assms(4-6), of E A G ?ct g] assms(7) by simp
qed

lemma Encode_zero: "Encode 0 n = replicate n 0"
  by (induction n) (simp_all add: replicate_append_same)

theorem bad_record_accepted_witness:
  "\<exists>mem' x g'. HandleBuildRequestRecords (demo_genv\<lparr>gsha := \<lambda>x. replicate 32 1\<rparr>) demo_aes demo_group (demo_context 1) 1 1
      (1 # replicate 16 1 @ replicate 512 0, replicate 222 0) () = Some (True, mem', replicate 222 0, Some x, g') \<and>
    transit_keys x = (replicate 32 0, replicate 32 0)"
proof -
  let ?E = "demo_genv\<lparr>gsha := \<lambda>x. replicate 32 1\<rparr>" and ?r = "replicate 16 1 @ replicate 512 0 :: bytes"
  have ok: "genv_ok ?E" by (simp add: genv_ok_def demo_genv_def)
  have acc: "accepts (demo_context 1)" by (simp add: accepts_def demo_context_def)
  have at: "recs_at 1 (1 # ?r) [?r]" unfolding recs_at_def
    by (rule conjI, simp add: recs_ok_def, rule exI [of _ "[1]"], rule exI [of _ "[]"], simp)
  have "(1 :: nat) < 256 ^ 255" by (rule one_less_power) simp_all
  then have "1 < gp demo_group" using demo_group_size(1) by (rule less_le_trans)
  then have p: "0 < gp demo_group - 0 - 1" by simp
  have key: "Integer (take 256 (fst demo_key)) = 0"
    by (simp add: demo_key_def GenerateElGamalKeyPair_def Integer_zero)
  have zero: "take 512 (drop 16 ?r) = replicate 512 0" by simp
  have "ElGamalDecrypt demo_group (gsha ?E) (encryptionPrivateKey (demo_context 1)) (take 512 (drop 16 ?r)) False = None"
    unfolding zero using p
    by (simp add: ElGamalDecrypt_def demo_context_def key Integer_zero Encode_zero power_0_left)
  then show ?thesis
    using bad_record_accepted [where rs = "[?r]" and i = 0, OF ok demo_aes_ok acc at, of demo_group "()"]
    by (simp add: demo_context_def)
qed

end
