(* ===== verification/Std_Containers.thy ===== *)
theory Std_Containers
  imports Prelude
begin

text \<open>
  The ordered containers of the C++ library as the router uses them: \<open>std::map\<close> is an association list
  in the order of its keys, \<open>std::set\<close> with a comparator a list in the order of the comparator. Both
  orders are those of iteration. An interface for lookup tables collects what the clients rely on.
\<close>

section \<open>\<open>std::map\<close>\<close>

type_synonym ('k, 'v) smap = "('k \<times> 'v) list"

definition map_find :: "'k \<Rightarrow> ('k, 'v) smap \<Rightarrow> 'v option" where
  "map_find k m = map_of m k"

text \<open>\<open>m[k] = v\<close>.\<close>

fun map_put :: "'k::linorder \<Rightarrow> 'v \<Rightarrow> ('k, 'v) smap \<Rightarrow> ('k, 'v) smap" where
  "map_put k v [] = [(k, v)]"
| "map_put k v ((k', v') # m) =
     (if k < k' then (k, v) # (k', v') # m
      else if k = k' then (k, v) # m
      else (k', v') # map_put k v m)"

text \<open>\<open>m.insert\<close> keeps an entry that is there; the result says whether it inserted.\<close>

definition map_insert :: "'k::linorder \<Rightarrow> 'v \<Rightarrow> ('k, 'v) smap \<Rightarrow> bool \<times> ('k, 'v) smap" where
  "map_insert k v m = (if map_find k m = None then (True, map_put k v m) else (False, m))"

definition map_erase :: "'k \<Rightarrow> ('k, 'v) smap \<Rightarrow> ('k, 'v) smap" where
  "map_erase k m = filter (\<lambda>e. fst e \<noteq> k) m"

definition smap_ok :: "('k::linorder, 'v) smap \<Rightarrow> bool" where
  "smap_ok m = sorted_wrt (<) (map fst m)"

section \<open>\<open>std::set\<close> with a comparator\<close>

fun set_insert :: "('a \<Rightarrow> 'a \<Rightarrow> bool) \<Rightarrow> 'a \<Rightarrow> 'a list \<Rightarrow> 'a list" where
  "set_insert lt x [] = [x]"
| "set_insert lt x (y # ys) =
     (if lt x y then x # y # ys else if lt y x then y # set_insert lt x ys else y # ys)"

text \<open>Erasure by key removes the element that is neither below nor above it.\<close>

definition set_erase :: "('a \<Rightarrow> 'a \<Rightarrow> bool) \<Rightarrow> 'a \<Rightarrow> 'a list \<Rightarrow> 'a list" where
  "set_erase lt x ys = filter (\<lambda>y. lt x y \<or> lt y x) ys"

section \<open>Lookup tables\<close>

text \<open>What clients of a table rely on: lookup after each operation, and that the form is kept.\<close>

locale lookup_table =
  fixes ok :: "'t \<Rightarrow> bool"
    and find :: "'k \<Rightarrow> 't \<Rightarrow> 'v option"
    and put :: "'k \<Rightarrow> 'v \<Rightarrow> 't \<Rightarrow> 't"
    and erase :: "'k \<Rightarrow> 't \<Rightarrow> 't"
  assumes ok_put: "ok m \<Longrightarrow> ok (put k v m)"
    and ok_erase: "ok m \<Longrightarrow> ok (erase k m)"
    and find_put: "ok m \<Longrightarrow> find k' (put k v m) = (if k' = k then Some v else find k' m)"
    and find_erase: "ok m \<Longrightarrow> find k' (erase k m) = (if k' = k then None else find k' m)"
begin

lemma ok_erase_all: "ok m \<Longrightarrow> ok (fold erase ks m)"
  by (induction ks arbitrary: m) (simp_all add: ok_erase)

lemma find_erase_all: "ok m \<Longrightarrow> find k (fold erase ks m) = (if k \<in> set ks then None else find k m)"
  by (induction ks arbitrary: m) (auto simp: find_erase ok_erase)

lemma put_twice: "ok m \<Longrightarrow> find k' (put k v (put k w m)) = find k' (put k v m)"
  by (simp add: find_put ok_put)

lemma erase_put: "ok m \<Longrightarrow> find k' (erase k (put k v m)) = find k' (erase k m)"
  by (simp add: find_put find_erase ok_put)

end

lemma smap_ok_distinct: "smap_ok m \<Longrightarrow> distinct (map fst m)"
  by (simp add: smap_ok_def strict_sorted_iff)

lemma smap_ok_Nil [simp]: "smap_ok []"
  by (simp add: smap_ok_def)

lemma set_map_put: "smap_ok m \<Longrightarrow> set (map_put k v m) = insert (k, v) {e \<in> set m. fst e \<noteq> k}"
  by (induction k v m rule: map_put.induct) (auto simp: smap_ok_def)

lemma smap_ok_put: "smap_ok m \<Longrightarrow> smap_ok (map_put k v m)"
proof (induction k v m rule: map_put.induct)
  case (2 k v k' v' m)
  then have m: "smap_ok m" by (simp add: smap_ok_def)
  have "fst e > k'" if "e \<in> set (map_put k v m)" "k' < k" for e
    using that 2(2) by (auto simp: set_map_put [OF m] smap_ok_def)
  with 2 show ?case by (auto simp: smap_ok_def)
qed (simp add: smap_ok_def)

lemma map_find_put: "smap_ok m \<Longrightarrow> map_find k' (map_put k v m) = (if k' = k then Some v else map_find k' m)"
  by (induction k v m rule: map_put.induct) (auto simp: map_find_def smap_ok_def)

lemma smap_ok_filter: "smap_ok m \<Longrightarrow> smap_ok (filter P m)"
  by (auto simp: smap_ok_def sorted_wrt_map intro: sorted_wrt_filter)

lemma map_find_filter: "smap_ok m \<Longrightarrow> map_find k (filter P m) = (case map_find k m of None \<Rightarrow> None | Some v \<Rightarrow> if P (k, v) then Some v else None)"
  by (induction m) (auto simp: map_find_def smap_ok_def dest: weak_map_of_SomeI split: option.splits, (metis map_of_SomeD weak_map_of_SomeI image_eqI fst_conv order_less_irrefl)+)

lemma map_find_Some_iff: "smap_ok m \<Longrightarrow> map_find k m = Some v \<longleftrightarrow> (k, v) \<in> set m"
  by (simp add: map_find_def map_of_eq_Some_iff smap_ok_distinct)

lemma map_find_mem: "map_find k m = Some v \<Longrightarrow> (k, v) \<in> set m"
  by (simp add: map_find_def map_of_SomeD)

lemma map_find_erase: "map_find k' (map_erase k m) = (if k' = k then None else map_find k' m)"
  by (induction m) (auto simp: map_find_def map_erase_def)

lemma smap_ok_erase: "smap_ok m \<Longrightarrow> smap_ok (map_erase k m)"
  by (simp add: map_erase_def smap_ok_filter)

interpretation router_map: lookup_table smap_ok map_find map_put map_erase
  by unfold_locales (simp_all add: smap_ok_put map_find_put map_find_erase smap_ok_erase)

lemma set_map_erase: "set (map_erase k m) = {e \<in> set m. fst e \<noteq> k}"
  by (auto simp: map_erase_def)

section \<open>Sets\<close>

lemma set_set_insert_subset: "set (set_insert lt x ys) \<subseteq> insert x (set ys)"
  by (induction lt x ys rule: set_insert.induct) auto

lemma set_set_erase_subset: "set (set_erase lt x ys) \<subseteq> set ys"
  by (auto simp: set_erase_def)

lemma set_insert_mem: "\<exists>y \<in> set (set_insert lt x ys). y = x \<or> \<not> lt x y \<and> \<not> lt y x"
  by (induction lt x ys rule: set_insert.induct) auto

lemma set_insert_sorted:
  assumes "transp lt" and "sorted_wrt lt ys"
  shows "sorted_wrt lt (set_insert lt x ys)"
  using assms
proof (induction lt x ys rule: set_insert.induct)
  case (2 lt x y ys)
  have "lt x z" if "lt x y" "z \<in> set ys" for z
    using that 2(2,3) by (auto elim: transpE)
  with 2 show ?case using set_set_insert_subset [of lt x ys] by auto
qed simp

lemma set_erase_sorted: "sorted_wrt lt ys \<Longrightarrow> sorted_wrt lt (set_erase lt x ys)"
  by (simp add: set_erase_def sorted_wrt_filter)

end
