(* ===== verification/Msg_Queue.thy ===== *)
theory Msg_Queue
  imports Prelude
begin

text \<open>
  The message queue between threads: \<open>src/core/util/Queue.h\<close>. Elements are pointers; a null pointer is
  \<open>None\<close>, and it is also what an empty queue returns. Every member function holds the mutex of the
  queue, so a run of several threads is a sequence of calls; what other threads put while a call waits
  on the condition variable is an argument of that call.
\<close>

type_synonym 'a queue = "'a option list"

definition Queue_Put :: "'a option \<Rightarrow> 'a queue \<Rightarrow> 'a queue" where
  "Queue_Put e q = q @ [e]"

definition Queue_PutVec :: "'a option list \<Rightarrow> 'a queue \<Rightarrow> 'a queue" where
  "Queue_PutVec vec q = (if vec \<noteq> [] then fold Queue_Put vec q else q)"

definition GetNonThreadSafe :: "bool \<Rightarrow> 'a queue \<Rightarrow> 'a option \<times> 'a queue" where
  "GetNonThreadSafe peek q =
     (case q of
        [] \<Rightarrow> (None, q)
      | el # rest \<Rightarrow> if peek then (el, q) else (el, rest))"

definition Queue_Get :: "'a queue \<Rightarrow> 'a option \<times> 'a queue" where
  "Queue_Get q = GetNonThreadSafe False q"

definition Queue_Peek :: "'a queue \<Rightarrow> 'a option \<times> 'a queue" where
  "Queue_Peek q = GetNonThreadSafe True q"

definition Queue_IsEmpty :: "'a queue \<Rightarrow> bool" where "Queue_IsEmpty q = (q = [])"
definition Queue_GetSize :: "'a queue \<Rightarrow> nat" where "Queue_GetSize q = length q"

text \<open>\<open>arrived\<close> is put by other threads during the wait; it is empty when the wait times out.\<close>

definition GetNextWithTimeout :: "'a option list \<Rightarrow> 'a queue \<Rightarrow> 'a option \<times> 'a queue" where
  "GetNextWithTimeout arrived q =
     (let (el, q1) = GetNonThreadSafe False q
      in if el = None then GetNonThreadSafe False (Queue_PutVec arrived q1) else (el, q1))"

definition GetNext :: "'a option list \<Rightarrow> 'a queue \<Rightarrow> 'a option \<times> 'a queue" where
  "GetNext arrived q =
     (let (el, q1) = GetNonThreadSafe False q
      in if el = None then GetNonThreadSafe False (Queue_PutVec arrived q1) else (el, q1))"

text \<open>The inner loop of \<open>MsgQueue::Run\<close>: process messages until \<open>Get\<close> returns a null pointer.\<close>

function run_messages :: "('a \<Rightarrow> 's \<Rightarrow> 's) \<Rightarrow> 'a queue \<Rightarrow> 's \<Rightarrow> 'a queue \<times> 's" where
  "run_messages process q s =
     (case Queue_Get q of
        (None, q1) \<Rightarrow> (q1, s)
      | (Some m, q1) \<Rightarrow> run_messages process q1 (process m s))"
  by pat_completeness auto
termination
  by (relation "measure (\<lambda>(process, q, s). length q)")
     (auto simp: Queue_Get_def GetNonThreadSafe_def split: list.splits)

declare run_messages.simps [simp del]

section \<open>First in, first out\<close>

text \<open>What users of a queue rely on, for any implementation with an abstract content.\<close>

locale fifo =
  fixes put :: "'a \<Rightarrow> 'q \<Rightarrow> 'q" and get :: "'q \<Rightarrow> 'a option \<times> 'q" and contents :: "'q \<Rightarrow> 'a list" and ok :: "'q \<Rightarrow> bool"
  assumes contents_put: "ok q \<Longrightarrow> contents (put x q) = contents q @ [x]"
    and ok_put: "ok q \<Longrightarrow> ok (put x q)"
    and get_empty: "ok q \<Longrightarrow> contents q = [] \<Longrightarrow> get q = (None, q)"
    and get_first: "ok q \<Longrightarrow> contents q = x # xs \<Longrightarrow> \<exists>q'. get q = (Some x, q') \<and> contents q' = xs \<and> ok q'"
begin

text \<open>Any sequence of calls: \<open>Inl x\<close> puts \<open>x\<close>, \<open>Inr ()\<close> gets.\<close>

fun run :: "('a + unit) list \<Rightarrow> 'q \<Rightarrow> 'a list \<times> 'q" where
  "run [] q = ([], q)"
| "run (Inl x # ops) q = run ops (put x q)"
| "run (Inr u # ops) q =
     (case get q of (None, q1) \<Rightarrow> run ops q1 | (Some x, q1) \<Rightarrow> map_prod (Cons x) id (run ops q1))"

fun inputs :: "('a + unit) list \<Rightarrow> 'a list" where
  "inputs [] = []"
| "inputs (Inl x # ops) = x # inputs ops"
| "inputs (Inr u # ops) = inputs ops"

lemma run_in_order: "ok q \<Longrightarrow> fst (run ops q) @ contents (snd (run ops q)) = contents q @ inputs ops"
proof (induction ops q rule: run.induct)
  case (3 u ops q)
  show ?case
  proof (cases "contents q")
    case Nil
    then show ?thesis using get_empty [OF "3.prems"] 3 by simp
  next
    case (Cons x xs)
    from get_first [OF "3.prems" this] obtain q' where q': "get q = (Some x, q')" "contents q' = xs" "ok q'" by blast
    then show ?thesis using "3.IH"(2) [OF q'(1) [symmetric] refl q'(3)] Cons by simp
  qed
qed (simp_all add: contents_put ok_put)

end

text \<open>The queue of the router, as long as nobody puts a null pointer.\<close>

definition q_put :: "'a \<Rightarrow> 'a queue \<Rightarrow> 'a queue" where "q_put x q = Queue_Put (Some x) q"
definition q_contents :: "'a queue \<Rightarrow> 'a list" where "q_contents q = map the q"
definition q_ok :: "'a queue \<Rightarrow> bool" where "q_ok q = list_all (\<lambda>e. e \<noteq> None) q"

lemma Queue_Get_simps [simp]: "Queue_Get [] = (None, [])" "Queue_Get (e # q) = (e, q)"
  by (simp_all add: Queue_Get_def GetNonThreadSafe_def)

lemma Queue_PutVec_eq [simp]: "Queue_PutVec vec q = q @ vec"
proof -
  have "fold Queue_Put vec q = q @ vec" by (induction vec arbitrary: q) (simp_all add: Queue_Put_def)
  then show ?thesis by (simp add: Queue_PutVec_def)
qed

interpretation router_queue: fifo q_put Queue_Get q_contents q_ok
  by unfold_locales (auto simp: q_put_def Queue_Put_def q_contents_def q_ok_def)

text \<open>One call of a queue by any of the threads.\<close>

datatype 'a qcall = CPut "'a option" | CPutVec "'a option list" | CGet | CPeek | CGetNext "'a option list"

fun call :: "'a qcall \<Rightarrow> 'a queue \<Rightarrow> 'a option \<times> 'a queue" where
  "call (CPut e) q = (None, Queue_Put e q)"
| "call (CPutVec v) q = (None, Queue_PutVec v q)"
| "call CGet q = Queue_Get q"
| "call CPeek q = (None, snd (Queue_Peek q))"
| "call (CGetNext arrived) q = GetNextWithTimeout arrived q"

text \<open>The elements a call adds; the wait of \<open>GetNext\<close> lets others in only when the queue is empty.\<close>

fun added :: "'a qcall \<Rightarrow> 'a queue \<Rightarrow> 'a option list" where
  "added (CPut e) q = [e]"
| "added (CPutVec v) q = v"
| "added (CGetNext arrived) q = (if q = [] then arrived else [])"
| "added _ q = []"

fun calls :: "'a qcall list \<Rightarrow> 'a queue \<Rightarrow> 'a list \<times> 'a option list \<times> 'a queue" where
  "calls [] q = ([], [], q)"
| "calls (c # cs) q =
     (let (e, q1) = call c q; (outs, ins, q2) = calls cs q1
      in (case e of None \<Rightarrow> outs | Some x \<Rightarrow> x # outs, added c q @ ins, q2))"

lemma call_in_order:
  assumes "q_ok q" and "list_all (\<lambda>e. e \<noteq> None) (added c q)"
  shows "case_option [] (\<lambda>x. [x]) (fst (call c q)) @ q_contents (snd (call c q)) = q_contents q @ map the (added c q)"
    and "q_ok (snd (call c q))"
  using assms
  by (cases c; cases q; auto simp: q_contents_def q_ok_def Queue_Put_def Queue_Peek_def GetNextWithTimeout_def
      GetNonThreadSafe_def Let_def split: list.splits)+

text \<open>
  C25. The queue is first in, first out: over any interleaving of the calls of any number of threads, the
  messages taken out, followed by those left in the queue, are the messages put in, in order. None is
  lost and none is delivered twice, as long as no null pointer is put.
\<close>

theorem queue_in_order:
  assumes "q_ok q" and "calls cs q = (outs, ins, q')" and "list_all (\<lambda>e. e \<noteq> None) ins"
  shows "outs @ q_contents q' = q_contents q @ map the ins \<and> q_ok q'"
  using assms
proof (induction cs arbitrary: q outs ins)
  case Nil
  then show ?case by simp
next
  case (Cons c cs)
  obtain e q1 where c: "call c q = (e, q1)" by (cases "call c q")
  obtain outs1 ins1 where cs: "calls cs q1 = (outs1, ins1, q')" using Cons.prems(2) c by (auto split: prod.splits)
  have io: "outs = case_option [] (\<lambda>x. [x]) e @ outs1" "ins = added c q @ ins1"
    using Cons.prems(2) c cs by (auto split: option.splits)
  have nn: "list_all (\<lambda>e. e \<noteq> None) (added c q)" "list_all (\<lambda>e. e \<noteq> None) ins1" using Cons.prems(3) by (simp_all add: io(2))
  note one = call_in_order [OF Cons.prems(1) nn(1), unfolded c, simplified]
  have ih: "outs1 @ q_contents q' = q_contents q1 @ map the ins1" and ok: "q_ok q'"
    using Cons.IH [OF one(2) cs nn(2)] by blast+
  have "outs @ q_contents q' = (case_option [] (\<lambda>x. [x]) e @ q_contents q1) @ map the ins1"
    unfolding io append_assoc ih ..
  also have "\<dots> = q_contents q @ map the ins" unfolding one(1) io by simp
  finally show ?case using ok by blast
qed

theorem queue_in_order_witness:
  "let (outs, ins, q) = calls [CPut (Some 1), CPutVec [Some 2, Some 3], CGet, CGetNext [], CPut (Some 4), CGet] []
   in outs = [1, 2, 3 :: nat] \<and> q_contents q = [4] \<and>
      outs @ q_contents q = map the ins"
proof -
  have c: "calls [CPut (Some 1), CPutVec [Some 2, Some 3], CGet, CGetNext [], CPut (Some 4), CGet] [] =
      ([1, 2, 3 :: nat], [Some 1, Some 2, Some 3, Some 4], [Some 4])"
    by (simp add: Queue_Put_def GetNextWithTimeout_def GetNonThreadSafe_def)
  have "q_ok []" by (simp add: q_ok_def)
  from queue_in_order [OF this c] show ?thesis unfolding c by (simp add: q_contents_def)
qed

text \<open>
  A null pointer in the queue ends a run over it early: the messages behind it stay in the queue
  although the loop has returned.
\<close>

theorem null_ends_run:
  "run_messages process (map Some xs @ None # q) s = (q, fold process xs s)"
  by (induction xs arbitrary: s) (simp_all add: run_messages.simps)

lemma run_all_messages: "run_messages process (map Some xs) s = ([], fold process xs s)"
  by (induction xs arbitrary: s) (simp_all add: run_messages.simps)

end
