(* ===== verification/Router_State.thy ===== *)
theory Router_State
  imports Std_Containers Msg_Queue Tunnel_Build
begin

text \<open>
  The state of the tunnel subsystem of a router, and how tunnels are created: the objects of
  \<open>src/core/tunnel/Tunnel.cpp\<close> and \<open>TunnelPool.cpp\<close> that live behind shared pointers are entries of
  heaps, a pointer is the position of its object. Objects are never freed in the model: a shared
  pointer keeps its object alive. Transit tunnels have one owner, the map that holds them.

  Other components of the router (the network database, the transports, local destinations) are
  seen through what they answer: \<open>renv\<close> has one field for each question asked, and \<open>'g\<close> is the state of
  the world outside the tunnel subsystem, with the random generators and the clock. What the tunnel
  subsystem does to them is recorded in \<open>events\<close>, in order.
\<close>

abbreviation TUNNEL_EXPIRATION_TIMEOUT :: "'a::len word" where "TUNNEL_EXPIRATION_TIMEOUT \<equiv> 660"
abbreviation TUNNEL_EXPIRATION_THRESHOLD :: u64 where "TUNNEL_EXPIRATION_THRESHOLD \<equiv> 60"
abbreviation TUNNEL_RECREATION_THRESHOLD :: u64 where "TUNNEL_RECREATION_THRESHOLD \<equiv> 90"
abbreviation TUNNEL_CREATION_TIMEOUT :: u32 where "TUNNEL_CREATION_TIMEOUT \<equiv> 30"
abbreviation NUM_TUNNEL_BUILD_RECORDS :: nat where "NUM_TUNNEL_BUILD_RECORDS \<equiv> 8"

record 'g renv =
  gen :: "'g genv"
  raes :: aes
  rgroup :: group
  relg :: "bytes \<Rightarrow> ElGamalEncryption" \<comment> \<open>the encryption object of a router\<close>
  self :: bytes \<comment> \<open>our identity hash\<close>
  privateKey :: bytes
  seconds :: "'g \<Rightarrow> u64 \<times> 'g" \<comment> \<open>\<open>GetSecondsSinceEpoch\<close>\<close>
  hours :: "'g \<Rightarrow> u32 \<times> 'g" \<comment> \<open>\<open>GetHoursSinceEpoch\<close>\<close>
  shuffle :: "nat \<Rightarrow> 'g \<Rightarrow> nat list \<times> 'g" \<comment> \<open>\<open>std::random_shuffle\<close> of the numbers below\<close>
  garbage :: "nat \<Rightarrow> 'g \<Rightarrow> bytes \<times> 'g" \<comment> \<open>uninitialised memory\<close>
  ptrLess :: "nat \<Rightarrow> nat \<Rightarrow> bool" \<comment> \<open>the order of pointers\<close>
  randomRouter :: "'g \<Rightarrow> bytes option \<times> 'g" \<comment> \<open>\<open>netdb.GetRandomRouter ()\<close>\<close>
  compatibleRouter :: "bytes \<Rightarrow> 'g \<Rightarrow> bytes option \<times> 'g" \<comment> \<open>\<open>netdb.GetRandomRouter (compatibleWith)\<close>\<close>
  fastRouter :: "bytes \<Rightarrow> 'g \<Rightarrow> bytes option \<times> 'g" \<comment> \<open>\<open>netdb.GetHighBandwidthRandomRouter\<close>\<close>
  findRouter :: "bytes \<Rightarrow> 'g \<Rightarrow> bytes option \<times> 'g" \<comment> \<open>\<open>netdb.FindRouter\<close>\<close>
  numPeers :: "'g \<Rightarrow> nat \<times> 'g" \<comment> \<open>\<open>transports.GetNumPeers\<close>\<close>
  randomPeer :: "'g \<Rightarrow> bytes option \<times> 'g" \<comment> \<open>\<open>transports.GetRandomPeer\<close>\<close>
  isBad :: "bytes \<Rightarrow> 'g \<Rightarrow> bool \<times> 'g" \<comment> \<open>\<open>GetProfile ()->IsBad ()\<close>\<close>
  acceptTunnels :: "'g \<Rightarrow> bool \<times> 'g" \<comment> \<open>\<open>context.AcceptsTunnels\<close>\<close>
  bandwidthUsed :: "'g \<Rightarrow> bool \<times> 'g" \<comment> \<open>\<open>transports.IsBandwidthExceeded\<close>\<close>

text \<open>A local destination is a number; zero is the router itself (\<open>&i2p::context\<close>).\<close>

abbreviation contextDestination :: nat where "contextDestination \<equiv> 0"

datatype event =
    Transport bytes "I2NPMessage list"
  | NetDbPost I2NPMessage
  | GarlicTo nat I2NPMessage
  | DeliveryStatusTo nat I2NPMessage
  | LeaseSetUpdated nat
  | RequestDestination bytes
  | TunnelNonReplied bytes
  | TunnelBuildAnswer bytes byte

record TunnelPool =
  m_LocalDestination :: "nat option"
  m_NumInboundHops :: int
  m_NumOutboundHops :: int
  m_NumInboundTunnels :: int
  m_NumOutboundTunnels :: int
  m_ExplicitPeers :: "bytes list option"
  pInboundTunnels :: "nat list"
  pOutboundTunnels :: "nat list"
  m_Tests :: "(u32, nat option \<times> nat option) smap"
  m_IsActive :: bool

record 'g rstate =
  inHeap :: "InboundTunnel list"
  outHeap :: "OutboundTunnel list"
  poolHeap :: "TunnelPool list"
  m_PendingInboundTunnels :: "(u32, nat) smap"
  m_PendingOutboundTunnels :: "(u32, nat) smap"
  m_InboundTunnels :: "(u32, nat) smap"
  m_OutboundTunnels :: "nat list"
  m_TransitTunnels :: "(u32, transit \<times> u32) smap" \<comment> \<open>with the time of creation\<close>
  m_Pools :: "nat list"
  m_ExploratoryPool :: "nat option"
  m_Queue :: "I2NPMessage queue"
  m_NumSuccesiveTunnelCreations :: int
  m_NumFailedTunnelCreations :: int
  events :: "event list"
  world :: 'g

definition newTunnels :: "'g \<Rightarrow> 'g rstate" where
  "newTunnels g =
     \<lparr>inHeap = [], outHeap = [], poolHeap = [], m_PendingInboundTunnels = [], m_PendingOutboundTunnels = [],
      m_InboundTunnels = [], m_OutboundTunnels = [], m_TransitTunnels = [], m_Pools = [],
      m_ExploratoryPool = None, m_Queue = [], m_NumSuccesiveTunnelCreations = 0,
      m_NumFailedTunnelCreations = 0, events = [], world = g\<rparr>"

section \<open>Access\<close>

definition ask :: "('g \<Rightarrow> 'a \<times> 'g) \<Rightarrow> 'g rstate \<Rightarrow> 'a \<times> 'g rstate" where
  "ask q s = (let (a, g) = q (world s) in (a, s\<lparr>world := g\<rparr>))"

definition emit :: "event \<Rightarrow> 'g rstate \<Rightarrow> 'g rstate" where
  "emit e s = s\<lparr>events := events s @ [e]\<rparr>"

definition upd_in :: "nat \<Rightarrow> (InboundTunnel \<Rightarrow> InboundTunnel) \<Rightarrow> 'g rstate \<Rightarrow> 'g rstate" where
  "upd_in a f s = s\<lparr>inHeap := (inHeap s)[a := f (inHeap s ! a)]\<rparr>"

definition upd_out :: "nat \<Rightarrow> (OutboundTunnel \<Rightarrow> OutboundTunnel) \<Rightarrow> 'g rstate \<Rightarrow> 'g rstate" where
  "upd_out a f s = s\<lparr>outHeap := (outHeap s)[a := f (outHeap s ! a)]\<rparr>"

definition upd_pool :: "nat \<Rightarrow> (TunnelPool \<Rightarrow> TunnelPool) \<Rightarrow> 'g rstate \<Rightarrow> 'g rstate" where
  "upd_pool p f s = s\<lparr>poolHeap := (poolHeap s)[p := f (poolHeap s ! p)]\<rparr>"

definition SetState :: "TunnelState \<Rightarrow> 'a Tunnel_scheme \<Rightarrow> 'a Tunnel_scheme" where
  "SetState st t = t\<lparr>m_State := st\<rparr>"

definition SetTunnelPool :: "nat option \<Rightarrow> 'a Tunnel_scheme \<Rightarrow> 'a Tunnel_scheme" where
  "SetTunnelPool p t = t\<lparr>m_Pool := p\<rparr>"

definition SetIsRecreated :: "'a Tunnel_scheme \<Rightarrow> 'a Tunnel_scheme" where
  "SetIsRecreated t = t\<lparr>m_IsRecreated := True\<rparr>"

section \<open>Selecting tunnels\<close>

definition Tunnels_GetInboundTunnel :: "u32 \<Rightarrow> 'g rstate \<Rightarrow> nat option" where
  "Tunnels_GetInboundTunnel tid s = map_find tid (m_InboundTunnels s)"

definition GetTransitTunnel :: "u32 \<Rightarrow> 'g rstate \<Rightarrow> (transit \<times> u32) option" where
  "GetTransitTunnel tid s = map_find tid (m_TransitTunnels s)"

text \<open>A pending tunnel is handed out once: its state changes to \<open>BuildReplyReceived\<close>.\<close>

definition GetPendingInboundTunnel :: "u32 \<Rightarrow> 'g rstate \<Rightarrow> nat option \<times> 'g rstate" where
  "GetPendingInboundTunnel replyMsgID s =
     (case map_find replyMsgID (m_PendingInboundTunnels s) of
        Some a \<Rightarrow>
          if m_State (inHeap s ! a) = eTunnelStatePending
          then (Some a, upd_in a (SetState eTunnelStateBuildReplyReceived) s) else (None, s)
      | None \<Rightarrow> (None, s))"

definition GetPendingOutboundTunnel :: "u32 \<Rightarrow> 'g rstate \<Rightarrow> nat option \<times> 'g rstate" where
  "GetPendingOutboundTunnel replyMsgID s =
     (case map_find replyMsgID (m_PendingOutboundTunnels s) of
        Some a \<Rightarrow>
          if m_State (outHeap s ! a) = eTunnelStatePending
          then (Some a, upd_out a (SetState eTunnelStateBuildReplyReceived) s) else (None, s)
      | None \<Rightarrow> (None, s))"

text \<open>The inbound tunnel that received least: the loop keeps the best tunnel so far.\<close>

fun least_received :: "'g rstate \<Rightarrow> (u32, nat) smap \<Rightarrow> (nat \<times> nat) option \<Rightarrow> nat option" where
  "least_received s [] best = map_option fst best"
| "least_received s ((k, a) # m) best =
     (let t = inHeap s ! a; n = m_NumReceivedBytes (m_Endpoint t)
      in if \<not> IsEstablished t then least_received s m best
         else if best = None \<or> n < snd (the best) then least_received s m (Some (a, n))
         else least_received s m best)"

definition Tunnels_GetNextInboundTunnel :: "'g rstate \<Rightarrow> nat option" where
  "Tunnels_GetNextInboundTunnel s = least_received s (m_InboundTunnels s) None"

text \<open>
  The loop over tunnels that stops behind a random number of usable ones, and keeps the last usable
  one it saw. It is shared by \<open>Tunnels\<close> and \<open>TunnelPool\<close>.
\<close>

fun pick_tunnel :: "(nat \<Rightarrow> bool) \<Rightarrow> nat \<Rightarrow> nat \<Rightarrow> nat option \<Rightarrow> nat list \<Rightarrow> nat option" where
  "pick_tunnel usable ind i tunnel [] = tunnel"
| "pick_tunnel usable ind i tunnel (t # ts) =
     (let (tunnel', i') = (if usable t then (Some t, i + 1) else (tunnel, i))
      in if i' > ind \<and> tunnel' \<noteq> None then tunnel' else pick_tunnel usable ind i' tunnel' ts)"

text \<open>With no tunnels at all the bound is \<open>(uint32_t)(0 - 1)\<close>.\<close>

definition Tunnels_GetNextOutboundTunnel :: "'g renv \<Rightarrow> 'g rstate \<Rightarrow> nat option \<times> 'g rstate" where
  "Tunnels_GetNextOutboundTunnel E s =
     (let (ind, s1) = ask (genWord32 (gen E) (size_sub (length (m_OutboundTunnels s)) 1 mod 2 ^ 32)) s
      in (pick_tunnel (\<lambda>a. IsEstablished (outHeap s ! a)) ind 0 None (m_OutboundTunnels s), s1))"

section \<open>Creating tunnels\<close>

definition newInboundTunnel :: "TunnelConfig \<Rightarrow> u64 \<Rightarrow> InboundTunnel" where
  "newInboundTunnel c now =
     \<lparr>m_Config = c, m_Pool = None, m_State = eTunnelStatePending, m_IsRecreated = False,
      m_CreationTime = ucast now, m_Endpoint = newTunnelEndpoint True\<rparr>"

definition newOutboundTunnel :: "'g genv \<Rightarrow> TunnelConfig \<Rightarrow> u64 \<Rightarrow> 'g \<Rightarrow> OutboundTunnel \<times> 'g" where
  "newOutboundTunnel E c now g =
     (let (b, g1) = newTunnelGatewayBuffer E (tunnelID (GetFirstHop c)) g
      in (\<lparr>m_Config = c, m_Pool = None, m_State = eTunnelStatePending, m_IsRecreated = False,
           m_CreationTime = ucast now, m_Gateway = \<lparr>gwBuffer = b, gwNumSentBytes = 0\<rparr>\<rparr>, g1))"

definition new_config :: "'g renv \<Rightarrow> bytes list \<Rightarrow> TunnelConfig option \<Rightarrow> 'g rstate \<Rightarrow> (TunnelConfig \<times> 'g rstate) option" where
  "new_config E peers reply s = do {
     let (mem, s1) = ask (garbage E 32) s;
     (c, g) \<leftarrow> newTunnelConfig (gen E) mem (self E) peers reply (world s1);
     Some (c, s1\<lparr>world := g\<rparr>)
   }"

text \<open>
  \<open>Build\<close> on an object of the heap: the tunnel it is sent through is another object. The messages go to
  the transports.
\<close>

definition build_tunnel ::
    "'g renv \<Rightarrow> u32 \<Rightarrow> nat option \<Rightarrow> 'a Tunnel_scheme \<Rightarrow> 'g rstate \<Rightarrow> ('a Tunnel_scheme \<times> 'g rstate) option" where
  "build_tunnel E replyMsgID outboundTunnel t s = do {
     let numHops = GetNumHops (m_Config t);
     let (idxs, s1) = ask (shuffle E (if numHops \<le> STANDARD_NUM_RECORDS then STANDARD_NUM_RECORDS else numHops)) s;
     let (hrs, s2) = ask (hours E) s1;
     (sent, ot, t', g) \<leftarrow> Tunnel_Build (gen E) (raes E) (rgroup E) (relg E) hrs idxs replyMsgID
                            (map_option (\<lambda>a. outHeap s2 ! a) outboundTunnel) t (world s2);
     let s3 = s2\<lparr>world := g, events := events s2 @ map (\<lambda>(to, ms). Transport to ms) sent\<rparr>;
     let s4 = (case (outboundTunnel, ot) of (Some a, Some o') \<Rightarrow> upd_out a (\<lambda>_. o') s3 | _ \<Rightarrow> s3);
     Some (t', s4)
   }"

definition AddPendingInboundTunnel :: "u32 \<Rightarrow> nat \<Rightarrow> 'g rstate \<Rightarrow> 'g rstate" where
  "AddPendingInboundTunnel replyMsgID a s =
     s\<lparr>m_PendingInboundTunnels := map_put replyMsgID a (m_PendingInboundTunnels s)\<rparr>"

definition AddPendingOutboundTunnel :: "u32 \<Rightarrow> nat \<Rightarrow> 'g rstate \<Rightarrow> 'g rstate" where
  "AddPendingOutboundTunnel replyMsgID a s =
     s\<lparr>m_PendingOutboundTunnels := map_put replyMsgID a (m_PendingOutboundTunnels s)\<rparr>"

definition CreateTunnel_In ::
    "'g renv \<Rightarrow> TunnelConfig \<Rightarrow> nat option \<Rightarrow> 'g rstate \<Rightarrow> (nat \<times> 'g rstate) option" where
  "CreateTunnel_In E c outboundTunnel s = do {
     let (now, s1) = ask (seconds E) s;
     let a = length (inHeap s1);
     let s2 = s1\<lparr>inHeap := inHeap s1 @ [newInboundTunnel c now]\<rparr>;
     let (replyMsgID, s3) = ask (genMsgID (gen E)) s2;
     let s4 = AddPendingInboundTunnel replyMsgID a s3;
     (t, s5) \<leftarrow> build_tunnel E replyMsgID outboundTunnel (inHeap s4 ! a) s4;
     Some (a, upd_in a (\<lambda>_. t) s5)
   }"

definition CreateTunnel_Out ::
    "'g renv \<Rightarrow> TunnelConfig \<Rightarrow> nat option \<Rightarrow> 'g rstate \<Rightarrow> (nat \<times> 'g rstate) option" where
  "CreateTunnel_Out E c outboundTunnel s = do {
     let (now, s1) = ask (seconds E) s;
     let a = length (outHeap s1);
     let (t0, s1') = ask (newOutboundTunnel (gen E) c now) s1;
     let s2 = s1'\<lparr>outHeap := outHeap s1' @ [t0]\<rparr>;
     let (replyMsgID, s3) = ask (genMsgID (gen E)) s2;
     let s4 = AddPendingOutboundTunnel replyMsgID a s3;
     (t, s5) \<leftarrow> build_tunnel E replyMsgID outboundTunnel (outHeap s4 ! a) s4;
     Some (a, upd_out a (\<lambda>_. t) s5)
   }"

end
