(* ===== verification/Tunnel_Pool.thy ===== *)
theory Tunnel_Pool
  imports Router_State
begin

text \<open>
  Pools of tunnels of a local destination: \<open>src/core/tunnel/TunnelPool.cpp\<close>. A pool keeps the tunnels
  that were built for it, newest first, replaces those that fail or expire, and tests them: a test
  sends a message out through an outbound tunnel and back through an inbound one.
\<close>

definition newTunnelPool :: "nat option \<Rightarrow> int \<Rightarrow> int \<Rightarrow> int \<Rightarrow> int \<Rightarrow> TunnelPool" where
  "newTunnelPool dest numInHops numOutHops numIn numOut =
     \<lparr>m_LocalDestination = dest, m_NumInboundHops = numInHops, m_NumOutboundHops = numOutHops,
      m_NumInboundTunnels = numIn, m_NumOutboundTunnels = numOut, m_ExplicitPeers = None,
      pInboundTunnels = [], pOutboundTunnels = [], m_Tests = [], m_IsActive = True\<rparr>"

definition SetExplicitPeers :: "bytes list option \<Rightarrow> TunnelPool \<Rightarrow> TunnelPool" where
  "SetExplicitPeers peers p =
     (let p1 = p\<lparr>m_ExplicitPeers := peers\<rparr>
      in case peers of
           None \<Rightarrow> p1
         | Some ps \<Rightarrow>
             let sz = int (length ps);
                 p2 = (if m_NumInboundHops p1 > sz then p1\<lparr>m_NumInboundHops := sz\<rparr> else p1);
                 p3 = (if m_NumOutboundHops p2 > sz then p2\<lparr>m_NumOutboundHops := sz\<rparr> else p2)
             in p3\<lparr>m_NumInboundTunnels := 1, m_NumOutboundTunnels := 1\<rparr>)"

text \<open>\<open>TunnelCreationTimeCmp\<close>: later tunnels first, then by address.\<close>

definition TunnelCreationTimeCmp ::
    "'g renv \<Rightarrow> 'a Tunnel_scheme list \<Rightarrow> nat \<Rightarrow> nat \<Rightarrow> bool" where
  "TunnelCreationTimeCmp E heap t1 t2 =
     (if m_CreationTime (heap ! t1) \<noteq> m_CreationTime (heap ! t2)
      then m_CreationTime (heap ! t1) > m_CreationTime (heap ! t2) else ptrLess E t1 t2)"

definition DetachTunnels :: "nat \<Rightarrow> 'g rstate \<Rightarrow> 'g rstate" where
  "DetachTunnels p s =
     (let s1 = fold (\<lambda>a. upd_in a (SetTunnelPool None)) (pInboundTunnels (poolHeap s ! p)) s;
          s2 = upd_pool p (\<lambda>pl. pl\<lparr>pInboundTunnels := []\<rparr>) s1;
          s3 = fold (\<lambda>a. upd_out a (SetTunnelPool None)) (pOutboundTunnels (poolHeap s2 ! p)) s2;
          s4 = upd_pool p (\<lambda>pl. pl\<lparr>pOutboundTunnels := []\<rparr>) s3
      in upd_pool p (\<lambda>pl. pl\<lparr>m_Tests := []\<rparr>) s4)"

definition TunnelCreated_In :: "'g renv \<Rightarrow> nat \<Rightarrow> nat \<Rightarrow> 'g rstate \<Rightarrow> 'g rstate" where
  "TunnelCreated_In E p a s =
     (if \<not> m_IsActive (poolHeap s ! p) then s
      else
        let s1 = upd_pool p (\<lambda>pl. pl\<lparr>pInboundTunnels :=
                   set_insert (TunnelCreationTimeCmp E (inHeap s)) a (pInboundTunnels pl)\<rparr>) s
        in case m_LocalDestination (poolHeap s1 ! p) of
             Some d \<Rightarrow> emit (LeaseSetUpdated d) s1
           | None \<Rightarrow> s1)"

definition TunnelCreated_Out :: "'g renv \<Rightarrow> nat \<Rightarrow> nat \<Rightarrow> 'g rstate \<Rightarrow> 'g rstate" where
  "TunnelCreated_Out E p a s =
     (if \<not> m_IsActive (poolHeap s ! p) then s
      else upd_pool p (\<lambda>pl. pl\<lparr>pOutboundTunnels :=
             set_insert (TunnelCreationTimeCmp E (outHeap s)) a (pOutboundTunnels pl)\<rparr>) s)"

text \<open>
  The loop over \<open>m_Tests\<close> assigns to a copy of each entry, so the tests keep the expired tunnel.
\<close>

definition TunnelExpired_In :: "'g renv \<Rightarrow> nat \<Rightarrow> nat \<Rightarrow> 'g rstate \<Rightarrow> 'g rstate" where
  "TunnelExpired_In E p a s =
     (let s1 = upd_in a (SetTunnelPool None) s
      in upd_pool p (\<lambda>pl. pl\<lparr>pInboundTunnels :=
           set_erase (TunnelCreationTimeCmp E (inHeap s1)) a (pInboundTunnels pl)\<rparr>) s1)"

definition TunnelExpired_Out :: "'g renv \<Rightarrow> nat \<Rightarrow> nat \<Rightarrow> 'g rstate \<Rightarrow> 'g rstate" where
  "TunnelExpired_Out E p a s =
     (let s1 = upd_out a (SetTunnelPool None) s
      in upd_pool p (\<lambda>pl. pl\<lparr>pOutboundTunnels :=
           set_erase (TunnelCreationTimeCmp E (outHeap s1)) a (pOutboundTunnels pl)\<rparr>) s1)"

section \<open>Selecting tunnels\<close>

definition Pool_GetInboundTunnels :: "nat \<Rightarrow> int \<Rightarrow> 'g rstate \<Rightarrow> nat list" where
  "Pool_GetInboundTunnels p num s =
     take (nat num) (filter (\<lambda>a. IsEstablished (inHeap s ! a)) (pInboundTunnels (poolHeap s ! p)))"

definition GetNextTunnel ::
    "'g renv \<Rightarrow> (nat \<Rightarrow> bool) \<Rightarrow> nat list \<Rightarrow> nat option \<Rightarrow> 'g rstate \<Rightarrow> nat option \<times> 'g rstate" where
  "GetNextTunnel E established tunnels excluded s =
     (if tunnels = [] then (None, s)
      else
        let (ind, s1) = ask (genWord32 (gen E) (length tunnels div 2)) s;
            tunnel = pick_tunnel (\<lambda>t. established t \<and> Some t \<noteq> excluded) ind 0 None tunnels
        in (case (tunnel, excluded) of
              (None, Some x) \<Rightarrow> if established x then Some x else None
            | _ \<Rightarrow> tunnel, s1))"

definition Pool_GetNextOutboundTunnel :: "'g renv \<Rightarrow> nat \<Rightarrow> nat option \<Rightarrow> 'g rstate \<Rightarrow> nat option \<times> 'g rstate" where
  "Pool_GetNextOutboundTunnel E p excluded s =
     GetNextTunnel E (\<lambda>a. IsEstablished (outHeap s ! a)) (pOutboundTunnels (poolHeap s ! p)) excluded s"

definition Pool_GetNextInboundTunnel :: "'g renv \<Rightarrow> nat \<Rightarrow> nat option \<Rightarrow> 'g rstate \<Rightarrow> nat option \<times> 'g rstate" where
  "Pool_GetNextInboundTunnel E p excluded s =
     GetNextTunnel E (\<lambda>a. IsEstablished (inHeap s ! a)) (pInboundTunnels (poolHeap s ! p)) excluded s"

definition GetEndpointRouter :: "'a Tunnel_scheme \<Rightarrow> bytes" where
  "GetEndpointRouter t = TunnelHopConfig.router (GetLastHop (m_Config t))"

definition GetNewOutboundTunnel :: "'g renv \<Rightarrow> nat \<Rightarrow> nat option \<Rightarrow> 'g rstate \<Rightarrow> nat option \<times> 'g rstate" where
  "GetNewOutboundTunnel E p old s =
     (case old of
        Some o' \<Rightarrow>
          if IsEstablished (outHeap s ! o') then (Some o', s)
          else
            (case List.find (\<lambda>a. IsEstablished (outHeap s ! a) \<and>
                       GetEndpointRouter (outHeap s ! o') = GetEndpointRouter (outHeap s ! a))
                    (pOutboundTunnels (poolHeap s ! p)) of
               Some t \<Rightarrow> (Some t, s)
             | None \<Rightarrow> Pool_GetNextOutboundTunnel E p None s)
      | None \<Rightarrow> Pool_GetNextOutboundTunnel E p None s)"

section \<open>Selecting peers\<close>

definition SelectNextHop :: "'g renv \<Rightarrow> nat \<Rightarrow> bytes \<Rightarrow> 'g rstate \<Rightarrow> bytes option \<times> 'g rstate" where
  "SelectNextHop E p prevHop s =
     (let isExploratory = (m_LocalDestination (poolHeap s ! p) = Some contextDestination);
          (hop, s1) = ask ((if isExploratory then compatibleRouter E else fastRouter E) prevHop) s;
          (bad, s2) = (case hop of None \<Rightarrow> (True, s1) | Some h \<Rightarrow> ask (isBad E h) s1)
      in if bad then ask (randomRouter E) s2 else (hop, s2))"

fun select_hops ::
    "'g renv \<Rightarrow> nat \<Rightarrow> nat \<Rightarrow> bytes \<Rightarrow> bytes list \<Rightarrow> 'g rstate \<Rightarrow> (bool \<times> bytes list) \<times> 'g rstate" where
  "select_hops E p 0 prevHop hops s = ((True, hops), s)"
| "select_hops E p (Suc n) prevHop hops s =
     (let (hop, s1) = SelectNextHop E p prevHop s
      in case hop of
           None \<Rightarrow> ((False, hops), s1)
         | Some h \<Rightarrow> select_hops E p n h (hops @ [h]) s1)"

fun find_peers :: "'g renv \<Rightarrow> bytes list \<Rightarrow> bytes list \<Rightarrow> 'g rstate \<Rightarrow> (bool \<times> bytes list) \<times> 'g rstate" where
  "find_peers E [] hops s = ((True, hops), s)"
| "find_peers E (ident # idents) hops s =
     (let (r, s1) = ask (findRouter E ident) s
      in case r of
           Some h \<Rightarrow> find_peers E idents (hops @ [h]) s1
         | None \<Rightarrow> ((False, hops), emit (RequestDestination ident) s1))"

text \<open>More hops than peers are read behind the end of the vector.\<close>

definition SelectExplicitPeers ::
    "'g renv \<Rightarrow> nat \<Rightarrow> bytes list \<Rightarrow> bool \<Rightarrow> 'g rstate \<Rightarrow> ((bool \<times> bytes list) \<times> 'g rstate) option" where
  "SelectExplicitPeers E p peers isInbound s =
     (let (idxs, s1) = ask (shuffle E (length peers)) s;
          pl = poolHeap s1 ! p;
          numHops = nat (if isInbound then m_NumInboundHops pl else m_NumOutboundHops pl)
      in if numHops > length idxs then None
         else Some (find_peers E (map (\<lambda>i. peers ! i) (take numHops idxs)) [] s1))"

definition SelectPeers ::
    "'g renv \<Rightarrow> nat \<Rightarrow> bool \<Rightarrow> 'g rstate \<Rightarrow> ((bool \<times> bytes list) \<times> 'g rstate) option" where
  "SelectPeers E p isInbound s =
     (let pl = poolHeap s ! p
      in case m_ExplicitPeers pl of
           Some peers \<Rightarrow> SelectExplicitPeers E p peers isInbound s
         | None \<Rightarrow>
             let numHops = (if isInbound then m_NumInboundHops pl else m_NumOutboundHops pl);
                 (n, s1) = ask (numPeers E) s;
                 (r, s2) = (if n > 25 then ask (randomPeer E) s1 else (None, s1));
                 (bad, s3) = (case r of None \<Rightarrow> (True, s2) | Some h \<Rightarrow> ask (isBad E h) s2)
             in if bad then Some (select_hops E p (nat numHops) (self E) [] s3)
                else Some (select_hops E p (nat (numHops - 1)) (the r) [the r] s3))"

section \<open>Creating tunnels\<close>

text \<open>The tunnel of the pool, or any tunnel of the router.\<close>

definition next_outbound :: "'g renv \<Rightarrow> nat \<Rightarrow> 'g rstate \<Rightarrow> nat option \<times> 'g rstate" where
  "next_outbound E p s =
     (let (t, s1) = Pool_GetNextOutboundTunnel E p None s
      in if t = None then Tunnels_GetNextOutboundTunnel E s1 else (t, s1))"

definition next_inbound :: "'g renv \<Rightarrow> nat \<Rightarrow> 'g rstate \<Rightarrow> nat option \<times> 'g rstate" where
  "next_inbound E p s =
     (let (t, s1) = Pool_GetNextInboundTunnel E p None s
      in if t = None then (Tunnels_GetNextInboundTunnel s1, s1) else (t, s1))"

definition CreateInboundTunnel :: "'g renv \<Rightarrow> nat \<Rightarrow> 'g rstate \<Rightarrow> 'g rstate option" where
  "CreateInboundTunnel E p s = do {
     let (ot, s1) = next_outbound E p s;
     ((found, hops), s2) \<leftarrow> SelectPeers E p True s1;
     if found then do {
       (c, s3) \<leftarrow> new_config E (rev hops) None s2;
       (a, s4) \<leftarrow> CreateTunnel_In E c ot s3;
       Some (upd_in a (SetTunnelPool (Some p)) s4)
     } else Some s2
   }"

definition RecreateInboundTunnel :: "'g renv \<Rightarrow> nat \<Rightarrow> nat \<Rightarrow> 'g rstate \<Rightarrow> 'g rstate option" where
  "RecreateInboundTunnel E p t s = do {
     let (ot, s1) = next_outbound E p s;
     (c, s2) \<leftarrow> new_config E (GetPeers (m_Config (inHeap s1 ! t))) None s1;
     (a, s3) \<leftarrow> CreateTunnel_In E c ot s2;
     Some (upd_in a (SetTunnelPool (Some p)) s3)
   }"

definition CreateOutboundTunnel :: "'g renv \<Rightarrow> nat \<Rightarrow> 'g rstate \<Rightarrow> 'g rstate option" where
  "CreateOutboundTunnel E p s = do {
     let (it, s1) = next_inbound E p s;
     case it of
       None \<Rightarrow> Some s1
     | Some b \<Rightarrow> do {
         ((found, hops), s2) \<leftarrow> SelectPeers E p False s1;
         if found then do {
           (c, s3) \<leftarrow> new_config E hops (Some (m_Config (inHeap s2 ! b))) s2;
           (a, s4) \<leftarrow> CreateTunnel_Out E c None s3;
           Some (upd_out a (SetTunnelPool (Some p)) s4)
         } else Some s2
       }
   }"

definition RecreateOutboundTunnel :: "'g renv \<Rightarrow> nat \<Rightarrow> nat \<Rightarrow> 'g rstate \<Rightarrow> 'g rstate option" where
  "RecreateOutboundTunnel E p t s = do {
     let (it, s1) = next_inbound E p s;
     case it of
       None \<Rightarrow> Some s1
     | Some b \<Rightarrow> do {
         (c, s2) \<leftarrow> new_config E (GetPeers (m_Config (outHeap s1 ! t))) (Some (m_Config (inHeap s1 ! b))) s1;
         (a, s3) \<leftarrow> CreateTunnel_Out E c None s2;
         Some (upd_out a (SetTunnelPool (Some p)) s3)
       }
   }"

text \<open>\<open>Invert\<close> of an outbound configuration has no reply tunnel.\<close>

definition invert_config :: "'g renv \<Rightarrow> TunnelConfig \<Rightarrow> 'g rstate \<Rightarrow> (TunnelConfig \<times> 'g rstate) option" where
  "invert_config E c s = do {
     let (mem, s1) = ask (garbage E 32) s;
     (c', g) \<leftarrow> Invert (gen E) mem (self E) c (world s1);
     Some (c', s1\<lparr>world := g\<rparr>)
   }"

definition CreatePairedInboundTunnel :: "'g renv \<Rightarrow> nat \<Rightarrow> nat \<Rightarrow> 'g rstate \<Rightarrow> 'g rstate option" where
  "CreatePairedInboundTunnel E p ot s = do {
     (c, s1) \<leftarrow> invert_config E (m_Config (outHeap s ! ot)) s;
     (a, s2) \<leftarrow> CreateTunnel_In E c (Some ot) s1;
     Some (upd_in a (SetTunnelPool (Some p)) s2)
   }"

fun repeat_op :: "nat \<Rightarrow> ('s \<Rightarrow> 's option) \<Rightarrow> 's \<Rightarrow> 's option" where
  "repeat_op 0 f s = Some s"
| "repeat_op (Suc n) f s = Option.bind (f s) (repeat_op n f)"

definition CreateTunnels :: "'g renv \<Rightarrow> nat \<Rightarrow> 'g rstate \<Rightarrow> 'g rstate option" where
  "CreateTunnels E p s = do {
     let num = length (filter (\<lambda>a. IsEstablished (inHeap s ! a)) (pInboundTunnels (poolHeap s ! p)));
     s1 \<leftarrow> repeat_op (nat (m_NumInboundTunnels (poolHeap s ! p) - int num)) (CreateInboundTunnel E p) s;
     let num1 = length (filter (\<lambda>a. IsEstablished (outHeap s1 ! a)) (pOutboundTunnels (poolHeap s1 ! p)));
     repeat_op (nat (m_NumOutboundTunnels (poolHeap s1 ! p) - int num1)) (CreateOutboundTunnel E p) s1
   }"

section \<open>Tests\<close>

text \<open>A tunnel that fails a second test in a row is taken out of the pool.\<close>

definition fail_out :: "'g renv \<Rightarrow> nat \<Rightarrow> nat \<Rightarrow> 'g rstate \<Rightarrow> 'g rstate" where
  "fail_out E p a s =
     (if m_State (outHeap s ! a) = eTunnelStateTestFailed then
        let s1 = upd_out a (SetState eTunnelStateFailed) s
        in upd_pool p (\<lambda>pl. pl\<lparr>pOutboundTunnels :=
             set_erase (TunnelCreationTimeCmp E (outHeap s1)) a (pOutboundTunnels pl)\<rparr>) s1
      else upd_out a (SetState eTunnelStateTestFailed) s)"

definition fail_in :: "'g renv \<Rightarrow> nat \<Rightarrow> nat \<Rightarrow> 'g rstate \<Rightarrow> 'g rstate" where
  "fail_in E p a s =
     (if m_State (inHeap s ! a) = eTunnelStateTestFailed then
        let s1 = upd_in a (SetState eTunnelStateFailed) s;
            s2 = upd_pool p (\<lambda>pl. pl\<lparr>pInboundTunnels :=
                   set_erase (TunnelCreationTimeCmp E (inHeap s1)) a (pInboundTunnels pl)\<rparr>) s1
        in case m_LocalDestination (poolHeap s2 ! p) of
             Some d \<Rightarrow> emit (LeaseSetUpdated d) s2
           | None \<Rightarrow> s2
      else upd_in a (SetState eTunnelStateTestFailed) s)"

fun fail_tests :: "'g renv \<Rightarrow> nat \<Rightarrow> (u32, nat option \<times> nat option) smap \<Rightarrow> 'g rstate \<Rightarrow> 'g rstate" where
  "fail_tests E p [] s = s"
| "fail_tests E p ((k, (ot, it)) # ts) s =
     (let s1 = (case ot of Some a \<Rightarrow> fail_out E p a s | None \<Rightarrow> s);
          s2 = (case it of Some a \<Rightarrow> fail_in E p a s1 | None \<Rightarrow> s1)
      in fail_tests E p ts s2)"

definition send_out :: "'g renv \<Rightarrow> nat \<Rightarrow> bytes option \<Rightarrow> u32 \<Rightarrow> I2NPMessage \<Rightarrow> 'g rstate \<Rightarrow> 'g rstate option" where
  "send_out E a gwHash gwTunnel msg s = do {
     (sent, ot, g) \<leftarrow> OutboundTunnel_SendTunnelDataMsg (gen E) (raes E) gwHash gwTunnel (Some msg) (outHeap s ! a, world s);
     Some (emit (Transport (GetNextIdentHash ot) sent) (upd_out a (\<lambda>_. ot) (s\<lparr>world := g\<rparr>)))
   }"

text \<open>The random numbers and the clock reading of \<open>CreateDeliveryStatusMsg\<close>.\<close>

definition header_env :: "'g genv \<Rightarrow> 'g \<Rightarrow> env \<times> 'g" where
  "header_env E g =
     (let (rnd, g1) = genMsgID E g; (now, g2) = clock E g1 in (\<lparr>sha256 = gsha E, rndWord = rnd, nowMs = now\<rparr>, g2))"

definition delivery_status :: "'g genv \<Rightarrow> u32 \<Rightarrow> 'g \<Rightarrow> (I2NPMessage \<times> 'g) option" where
  "delivery_status E msgID g = do {
     let (rnd, g1) = (if msgID = 0 then genMsgID E g else (0, g));
     let (e, g2) = header_env E g1;
     m \<leftarrow> CreateDeliveryStatusMsg e rnd msgID;
     Some (m, g2)
   }"

text \<open>The new tests pair the tunnels in order and skip failed ones.\<close>

definition start_test :: "'g renv \<Rightarrow> nat \<Rightarrow> nat \<Rightarrow> nat \<Rightarrow> 'g rstate \<Rightarrow> 'g rstate option" where
  "start_test E p ot it s = do {
     let (msgID, s1) = ask (genMsgID (gen E)) s;
     let s2 = upd_pool p (\<lambda>pl. pl\<lparr>m_Tests := map_put msgID (Some ot, Some it) (m_Tests pl)\<rparr>) s1;
     (m, g) \<leftarrow> delivery_status (gen E) msgID (world s2);
     send_out E ot (Some (GetNextIdentHash (inHeap s2 ! it))) (GetNextTunnelID (inHeap s2 ! it)) m (s2\<lparr>world := g\<rparr>)
   }"

fun new_tests :: "'g renv \<Rightarrow> nat \<Rightarrow> nat list \<Rightarrow> nat list \<Rightarrow> 'g rstate \<Rightarrow> 'g rstate option" where
  "new_tests E p (ot # ots) (it # its) s =
     (if IsFailed (outHeap s ! ot) \<and> IsFailed (inHeap s ! it) then new_tests E p ots its s
      else if IsFailed (outHeap s ! ot) then new_tests E p ots (it # its) s
      else if IsFailed (inHeap s ! it) then new_tests E p (ot # ots) its s
      else Option.bind (start_test E p ot it s) (new_tests E p ots its))"
| "new_tests E p _ _ s = Some s"

definition TestTunnels :: "'g renv \<Rightarrow> nat \<Rightarrow> 'g rstate \<Rightarrow> 'g rstate option" where
  "TestTunnels E p s =
     (let s1 = upd_pool p (\<lambda>pl. pl\<lparr>m_Tests := []\<rparr>) (fail_tests E p (m_Tests (poolHeap s ! p)) s)
      in new_tests E p (pOutboundTunnels (poolHeap s1 ! p)) (pInboundTunnels (poolHeap s1 ! p)) s1)"

definition ProcessGarlicMessage :: "nat \<Rightarrow> I2NPMessage \<Rightarrow> 'g rstate \<Rightarrow> 'g rstate" where
  "ProcessGarlicMessage p msg s =
     (case m_LocalDestination (poolHeap s ! p) of Some d \<Rightarrow> emit (GarlicTo d msg) s | None \<Rightarrow> s)"

definition restore_out :: "nat \<Rightarrow> 'g rstate \<Rightarrow> 'g rstate" where
  "restore_out a s =
     (if m_State (outHeap s ! a) = eTunnelStateTestFailed then upd_out a (SetState eTunnelStateEstablished) s else s)"

definition restore_in :: "nat \<Rightarrow> 'g rstate \<Rightarrow> 'g rstate" where
  "restore_in a s =
     (if m_State (inHeap s ! a) = eTunnelStateTestFailed then upd_in a (SetState eTunnelStateEstablished) s else s)"

definition ProcessDeliveryStatus :: "nat \<Rightarrow> I2NPMessage \<Rightarrow> 'g rstate \<Rightarrow> 'g rstate option" where
  "ProcessDeliveryStatus p msg s = do {
     msgID \<leftarrow> bufbe32toh (GetPayload msg) (mbuf msg);
     timestamp \<leftarrow> bufbe64toh (GetPayload msg + 4) (mbuf msg);
     case map_find msgID (m_Tests (poolHeap s ! p)) of
       Some (ot, it) \<Rightarrow> do {
         a \<leftarrow> ot;
         b \<leftarrow> it;
         Some (upd_pool p (\<lambda>pl. pl\<lparr>m_Tests := map_erase msgID (m_Tests pl)\<rparr>) (restore_in b (restore_out a s)))
       }
     | None \<Rightarrow>
         Some (case m_LocalDestination (poolHeap s ! p) of Some d \<Rightarrow> emit (DeliveryStatusTo d msg) s | None \<Rightarrow> s)
   }"

end
