(* ===== verification/Tunnels_Manager.thy ===== *)
theory Tunnels_Manager
  imports Tunnel_Pool
begin

text \<open>
  The manager of all tunnels of a router: class \<open>Tunnels\<close> of \<open>src/core/tunnel/Tunnel.cpp\<close>, without its
  thread. Creation times are 32-bit seconds; times of the managing loops are 64-bit, except in
  \<open>ManageTransitTunnels\<close>. None of the loops over a container changes that container except by the
  erasure it writes out, so each is a recursion over the entries it started with.
\<close>

definition CreateTunnelPool :: "nat option \<Rightarrow> int \<Rightarrow> int \<Rightarrow> int \<Rightarrow> int \<Rightarrow> 'g rstate \<Rightarrow> nat \<times> 'g rstate" where
  "CreateTunnelPool dest numInHops numOutHops numIn numOut s =
     (let p = length (poolHeap s)
      in (p, s\<lparr>poolHeap := poolHeap s @ [newTunnelPool dest numInHops numOutHops numIn numOut],
               m_Pools := m_Pools s @ [p]\<rparr>))"

definition StopTunnelPool :: "nat option \<Rightarrow> 'g rstate \<Rightarrow> 'g rstate" where
  "StopTunnelPool pool s =
     (case pool of
        Some p \<Rightarrow> DetachTunnels p (upd_pool p (\<lambda>pl. pl\<lparr>m_IsActive := False\<rparr>) s)
      | None \<Rightarrow> s)"

definition DeleteTunnelPool :: "nat option \<Rightarrow> 'g rstate \<Rightarrow> 'g rstate" where
  "DeleteTunnelPool pool s =
     (case pool of
        Some p \<Rightarrow> let s1 = StopTunnelPool pool s in s1\<lparr>m_Pools := removeAll p (m_Pools s1)\<rparr>
      | None \<Rightarrow> s)"

definition transit_id :: "transit \<Rightarrow> u32" where
  "transit_id t = (case t of Participant x \<Rightarrow> trTunnelID x | Gateway x \<Rightarrow> trTunnelID x | Endpoint x \<Rightarrow> trTunnelID x)"

text \<open>The constructor of the tunnel has read the clock.\<close>

definition AddTransitTunnel :: "transit \<times> u32 \<Rightarrow> 'g rstate \<Rightarrow> 'g rstate" where
  "AddTransitTunnel tunnel s =
     s\<lparr>m_TransitTunnels := snd (map_insert (transit_id (fst tunnel)) tunnel (m_TransitTunnels s))\<rparr>"

definition PostTunnelData :: "I2NPMessage option \<Rightarrow> 'g rstate \<Rightarrow> 'g rstate" where
  "PostTunnelData msg s = (if msg \<noteq> None then s\<lparr>m_Queue := Queue_Put msg (m_Queue s)\<rparr> else s)"

definition PostTunnelDatas :: "I2NPMessage list \<Rightarrow> 'g rstate \<Rightarrow> 'g rstate" where
  "PostTunnelDatas msgs s = s\<lparr>m_Queue := Queue_PutVec (map Some msgs) (m_Queue s)\<rparr>"

section \<open>Established tunnels\<close>

definition AddOutboundTunnel :: "'g renv \<Rightarrow> nat \<Rightarrow> 'g rstate \<Rightarrow> 'g rstate" where
  "AddOutboundTunnel E a s =
     (let s1 = s\<lparr>m_OutboundTunnels := m_OutboundTunnels s @ [a]\<rparr>
      in case m_Pool (outHeap s1 ! a) of
           Some p \<Rightarrow>
             if m_IsActive (poolHeap s1 ! p) then TunnelCreated_Out E p a s1
             else upd_out a (SetTunnelPool None) s1
         | None \<Rightarrow> upd_out a (SetTunnelPool None) s1)"

definition AddInboundTunnel :: "'g renv \<Rightarrow> nat \<Rightarrow> 'g rstate \<Rightarrow> 'g rstate option" where
  "AddInboundTunnel E a s = do {
     let t = inHeap s ! a;
     let s1 = s\<lparr>m_InboundTunnels := map_put (InboundTunnel_GetTunnelID t) a (m_InboundTunnels s)\<rparr>;
     case m_Pool t of
       None \<Rightarrow> do {
         (c, s2) \<leftarrow> invert_config E (m_Config t) s1;
         let (ot, s3) = Tunnels_GetNextOutboundTunnel E s2;
         (b, s4) \<leftarrow> CreateTunnel_Out E c ot s3;
         Some s4
       }
     | Some p \<Rightarrow>
         Some (if m_IsActive (poolHeap s1 ! p) then TunnelCreated_In E p a s1
               else upd_in a (SetTunnelPool None) s1)
   }"

definition CreateZeroHopsInboundTunnel :: "'g renv \<Rightarrow> 'g rstate \<Rightarrow> 'g rstate option" where
  "CreateZeroHopsInboundTunnel E s = do {
     (c, s1) \<leftarrow> new_config E [self E] None s;
     (a, s2) \<leftarrow> CreateTunnel_In E c None s1;
     Some s2
   }"

section \<open>Managing tunnels\<close>

text \<open>What becomes of a pending tunnel: it stays, its creation failed, or it succeeded.\<close>

datatype pending_fate = Keep | TimedOut | Declined | Succeeded

definition pending_fate :: "u64 \<Rightarrow> 'a Tunnel_scheme \<Rightarrow> pending_fate" where
  "pending_fate ts t =
     (case m_State t of
        eTunnelStatePending \<Rightarrow> if ts > ucast (m_CreationTime t + TUNNEL_CREATION_TIMEOUT) then TimedOut else Keep
      | eTunnelStateBuildFailed \<Rightarrow> Declined
      | eTunnelStateBuildReplyReceived \<Rightarrow> Keep
      | _ \<Rightarrow> Succeeded)"

text \<open>The updates of one entry: profiles of the routers that did not reply, and the counters.\<close>

definition settle_pending :: "pending_fate \<Rightarrow> 'a Tunnel_scheme \<Rightarrow> 'g rstate \<Rightarrow> 'g rstate" where
  "settle_pending f t s =
     (case f of
        Keep \<Rightarrow> s
      | TimedOut \<Rightarrow>
          s\<lparr>events := events s @ map TunnelNonReplied (GetPeers (m_Config t)),
            m_NumFailedTunnelCreations := m_NumFailedTunnelCreations s + 1\<rparr>
      | Declined \<Rightarrow> s\<lparr>m_NumFailedTunnelCreations := m_NumFailedTunnelCreations s + 1\<rparr>
      | Succeeded \<Rightarrow> s\<lparr>m_NumSuccesiveTunnelCreations := m_NumSuccesiveTunnelCreations s + 1\<rparr>)"

fun manage_pending ::
    "u64 \<Rightarrow> (nat \<Rightarrow> 'a Tunnel_scheme) \<Rightarrow> (u32, nat) smap \<Rightarrow> 'g rstate \<Rightarrow> (u32, nat) smap \<times> 'g rstate" where
  "manage_pending ts heap [] s = ([], s)"
| "manage_pending ts heap ((k, a) # m) s =
     (let f = pending_fate ts (heap a); (m', s') = manage_pending ts heap m (settle_pending f (heap a) s)
      in (if f = Keep then (k, a) # m' else m', s'))"

definition ManagePendingTunnels :: "'g renv \<Rightarrow> 'g rstate \<Rightarrow> 'g rstate" where
  "ManagePendingTunnels E s =
     (let (ts, s1) = ask (seconds E) s;
          (mi, s2) = manage_pending ts (\<lambda>a. inHeap s1 ! a) (m_PendingInboundTunnels s1) s1;
          s3 = s2\<lparr>m_PendingInboundTunnels := mi\<rparr>;
          (ts', s4) = ask (seconds E) s3;
          (mo, s5) = manage_pending ts' (\<lambda>a. outHeap s4 ! a) (m_PendingOutboundTunnels s4) s4
      in s5\<lparr>m_PendingOutboundTunnels := mo\<rparr>)"

text \<open>\<open>GetCreationTime () + TUNNEL_EXPIRATION_TIMEOUT\<close> is computed in 32 bits.\<close>

definition expires :: "'a Tunnel_scheme \<Rightarrow> u64" where
  "expires t = ucast (m_CreationTime t + TUNNEL_EXPIRATION_TIMEOUT)"

definition manage_outbound1 :: "'g renv \<Rightarrow> u64 \<Rightarrow> nat \<Rightarrow> 'g rstate \<Rightarrow> 'g rstate option" where
  "manage_outbound1 E ts a s = do {
     let t = outHeap s ! a;
     if ts > expires t then
       Some (case m_Pool t of Some p \<Rightarrow> TunnelExpired_Out E p a s | None \<Rightarrow> s)
     else if IsEstablished t then do {
       s1 \<leftarrow> (if \<not> m_IsRecreated t \<and> ts + TUNNEL_RECREATION_THRESHOLD > expires t then
               let s' = upd_out a SetIsRecreated s
               in case m_Pool t of Some p \<Rightarrow> RecreateOutboundTunnel E p a s' | None \<Rightarrow> Some s'
             else Some s);
       Some (if ts + TUNNEL_EXPIRATION_THRESHOLD > expires t then upd_out a (SetState eTunnelStateExpiring) s1 else s1)
     }
     else Some s
   }"

fun manage_outbound :: "'g renv \<Rightarrow> u64 \<Rightarrow> nat list \<Rightarrow> 'g rstate \<Rightarrow> (nat list \<times> 'g rstate) option" where
  "manage_outbound E ts [] s = Some ([], s)"
| "manage_outbound E ts (a # as) s = do {
     s1 \<leftarrow> manage_outbound1 E ts a s;
     (as', s2) \<leftarrow> manage_outbound E ts as s1;
     Some (if ts > expires (outHeap s ! a) then as' else a # as', s2)
   }"

definition ManageOutboundTunnels :: "'g renv \<Rightarrow> 'g rstate \<Rightarrow> 'g rstate option" where
  "ManageOutboundTunnels E s = do {
     let (ts, s0) = ask (seconds E) s;
     (as, s1) \<leftarrow> manage_outbound E ts (m_OutboundTunnels s0) s0;
     let s2 = s1\<lparr>m_OutboundTunnels := as\<rparr>;
     if length (m_OutboundTunnels s2) < 5 then do {
       let it = Tunnels_GetNextInboundTunnel s2;
       let (r, s3) = ask (randomRouter E) s2;
       case (it, r) of
         (Some b, Some h) \<Rightarrow> do {
           (c, s4) \<leftarrow> new_config E [h] (Some (m_Config (inHeap s3 ! b))) s3;
           (a, s5) \<leftarrow> CreateTunnel_Out E c None s4;
           Some s5
         }
       | _ \<Rightarrow> Some s3
     } else Some s2
   }"

definition manage_inbound1 :: "'g renv \<Rightarrow> u64 \<Rightarrow> nat \<Rightarrow> 'g rstate \<Rightarrow> 'g rstate option" where
  "manage_inbound1 E ts a s = do {
     let t = inHeap s ! a;
     if ts > expires t then
       Some (case m_Pool t of Some p \<Rightarrow> TunnelExpired_In E p a s | None \<Rightarrow> s)
     else if IsEstablished t then do {
       s1 \<leftarrow> (if \<not> m_IsRecreated t \<and> ts + TUNNEL_RECREATION_THRESHOLD > expires t then
               let s' = upd_in a SetIsRecreated s
               in case m_Pool t of Some p \<Rightarrow> RecreateInboundTunnel E p a s' | None \<Rightarrow> Some s'
             else Some s);
       Some (if ts + TUNNEL_EXPIRATION_THRESHOLD > expires t then upd_in a (SetState eTunnelStateExpiring) s1 else s1)
     }
     else Some s
   }"

fun manage_inbound :: "'g renv \<Rightarrow> u64 \<Rightarrow> (u32, nat) smap \<Rightarrow> 'g rstate \<Rightarrow> ((u32, nat) smap \<times> 'g rstate) option" where
  "manage_inbound E ts [] s = Some ([], s)"
| "manage_inbound E ts ((k, a) # m) s = do {
     s1 \<leftarrow> manage_inbound1 E ts a s;
     (m', s2) \<leftarrow> manage_inbound E ts m s1;
     Some (if ts > expires (inHeap s ! a) then m' else (k, a) # m', s2)
   }"

text \<open>Without a router in the database the peer is a null pointer, which \<open>Build\<close> follows.\<close>

definition ManageInboundTunnels :: "'g renv \<Rightarrow> 'g rstate \<Rightarrow> 'g rstate option" where
  "ManageInboundTunnels E s = do {
     let (ts, s0) = ask (seconds E) s;
     (m, s1) \<leftarrow> manage_inbound E ts (m_InboundTunnels s0) s0;
     let s2 = s1\<lparr>m_InboundTunnels := m\<rparr>;
     if m_InboundTunnels s2 = [] then do {
       s3 \<leftarrow> CreateZeroHopsInboundTunnel E s2;
       if m_ExploratoryPool s3 = None then
         let (p, s4) = CreateTunnelPool (Some contextDestination) 2 2 5 5 s3
         in Some (s4\<lparr>m_ExploratoryPool := Some p\<rparr>)
       else Some s3
     }
     else if m_OutboundTunnels s2 = [] \<or> length (m_InboundTunnels s2) < 5 then do {
       let (r, s3) = ask (randomRouter E) s2;
       h \<leftarrow> r;
       (c, s4) \<leftarrow> new_config E [h] None s3;
       (a, s5) \<leftarrow> CreateTunnel_In E c None s4;
       Some s5
     }
     else Some s2
   }"

definition transit_expired :: "u32 \<Rightarrow> transit \<times> u32 \<Rightarrow> bool" where
  "transit_expired ts t \<longleftrightarrow> ts > snd t + TUNNEL_EXPIRATION_TIMEOUT"

definition ManageTransitTunnels :: "'g renv \<Rightarrow> 'g rstate \<Rightarrow> 'g rstate" where
  "ManageTransitTunnels E s =
     (let (ts, s1) = ask (seconds E) s
      in s1\<lparr>m_TransitTunnels := filter (\<lambda>e. \<not> transit_expired (ucast ts) (snd e)) (m_TransitTunnels s1)\<rparr>)"

fun manage_pools :: "'g renv \<Rightarrow> nat list \<Rightarrow> 'g rstate \<Rightarrow> 'g rstate option" where
  "manage_pools E [] s = Some s"
| "manage_pools E (p # ps) s = do {
     s2 \<leftarrow> (if m_IsActive (poolHeap s ! p)
            then Option.bind (CreateTunnels E p s) (TestTunnels E p) else Some s);
     manage_pools E ps s2
   }"

definition ManageTunnelPools :: "'g renv \<Rightarrow> 'g rstate \<Rightarrow> 'g rstate option" where
  "ManageTunnelPools E s = manage_pools E (m_Pools s) s"

definition ManageTunnels :: "'g renv \<Rightarrow> 'g rstate \<Rightarrow> 'g rstate option" where
  "ManageTunnels E s = do {
     s1 \<leftarrow> ManageInboundTunnels E (ManagePendingTunnels E s);
     s2 \<leftarrow> ManageOutboundTunnels E s1;
     ManageTunnelPools E (ManageTransitTunnels E s2)
   }"

text \<open>The result is an \<open>int\<close>: the difference of 32-bit times is read as a signed number.\<close>

definition GetTransitTunnelsExpirationTimeout :: "'g renv \<Rightarrow> 'g rstate \<Rightarrow> int \<times> 'g rstate" where
  "GetTransitTunnelsExpirationTimeout E s =
     (let (now, s1) = ask (seconds E) s; ts = ucast now :: u32
      in (fold (\<lambda>e timeout. max timeout (sint (snd (snd e) + TUNNEL_EXPIRATION_TIMEOUT - ts))) (m_TransitTunnels s1) 0, s1))"

definition GetTunnelCreationSuccessRate :: "'g rstate \<Rightarrow> int" where
  "GetTunnelCreationSuccessRate s =
     (let totalNum = m_NumSuccesiveTunnelCreations s + m_NumFailedTunnelCreations s
      in if totalNum \<noteq> 0 then m_NumSuccesiveTunnelCreations s * 100 div totalNum else 0)"

end
