(* ===== verification/Router_Messages.thy ===== *)
theory Router_Messages
  imports Tunnels_Manager
begin

text \<open>
  What a router does with I2NP messages: the handlers of build requests and replies and the dispatcher
  of \<open>src/core/I2NPProtocol.cpp\<close>, and the loop of the tunnel thread, \<open>Tunnels::Run\<close> of
  \<open>src/core/tunnel/Tunnel.cpp\<close>.
\<close>

section \<open>Build messages\<close>

text \<open>The memory from \<open>buf\<close> to the end of the message buffer; the records start at \<open>records\<close>.\<close>

definition handle_records ::
    "'g renv \<Rightarrow> nat \<Rightarrow> nat \<Rightarrow> bytes \<Rightarrow> bytes \<Rightarrow> 'g rstate \<Rightarrow> (bool \<times> bytes \<times> bytes \<times> 'g rstate) option" where
  "handle_records E num records buf clear0 s = do {
     let (acc, s1) = ask (acceptTunnels E) s;
     let (bw, s2) = ask (bandwidthUsed E) s1;
     let C = \<lparr>ourIdent = self E, encryptionPrivateKey = privateKey E, acceptsTunnels = acc,
              numTransitTunnels = length (m_TransitTunnels s2), bandwidthExceeded = bw\<rparr>;
     (found, buf', clearText, tunnel, g) \<leftarrow>
       HandleBuildRequestRecords (gen E) (raes E) (rgroup E) C num records (buf, clear0) (world s2);
     let s3 = s2\<lparr>world := g\<rparr>;
     let s4 = (case tunnel of
                 None \<Rightarrow> s3
               | Some t \<Rightarrow> let (now, s') = ask (seconds E) s3 in AddTransitTunnel (t, ucast now) s');
     Some (found, buf', clearText, s4)
   }"

text \<open>
  The message goes on to the next router, or at the endpoint of an outbound tunnel into the reply
  tunnel. \<open>len\<close> bytes of the buffer are copied.
\<close>

definition forward_build ::
    "'g renv \<Rightarrow> byte \<Rightarrow> byte \<Rightarrow> bytes \<Rightarrow> nat \<Rightarrow> bytes \<Rightarrow> 'g rstate \<Rightarrow> 'g rstate option" where
  "forward_build E typ replyTyp buf len clearText s = do {
     flag \<leftarrow> mem_get 184 clearText;
     nextTunnel \<leftarrow> bufbe32toh 36 clearText;
     sendMsgID \<leftarrow> bufbe32toh 189 clearText;
     body \<leftarrow> mem_read 0 len buf;
     let nextIdent = take 32 (drop 40 clearText);
     let (e, s1) = ask (header_env (gen E)) s;
     if flag AND 0x40 \<noteq> 0 then do {
       let (rnd, s2) = ask (genMsgID (gen E)) s1;
       m \<leftarrow> CreateTunnelGatewayMsg_type e rnd nextTunnel replyTyp body sendMsgID;
       Some (emit (Transport nextIdent [m]) s2)
     }
     else do {
       m \<leftarrow> CreateI2NPMessage e typ body sendMsgID;
       Some (emit (Transport nextIdent [m]) s1)
     }
   }"

text \<open>The answers to a build request go to the profiles of the routers.\<close>

definition HandleVariableTunnelBuildMsg ::
    "'g renv \<Rightarrow> u32 \<Rightarrow> bytes \<Rightarrow> nat \<Rightarrow> 'g rstate \<Rightarrow> 'g rstate option" where
  "HandleVariableTunnelBuildMsg E replyMsgID buf len s = do {
     num \<leftarrow> mem_get 0 buf;
     let (tunnel, s1) = GetPendingInboundTunnel replyMsgID s;
     case tunnel of
       Some a \<Rightarrow> do {
         (established, profiles, buf', t) \<leftarrow> HandleTunnelBuildResponse (raes E) buf (inHeap s1 ! a);
         let s2 = (upd_in a (\<lambda>_. t) s1)\<lparr>events := events s1 @ map (\<lambda>(r, ret). TunnelBuildAnswer r ret) profiles\<rparr>;
         if established
         then AddInboundTunnel E a (upd_in a (SetState eTunnelStateEstablished) s2)
         else Some (upd_in a (SetState eTunnelStateBuildFailed) s2)
       }
     | None \<Rightarrow> do {
         (found, buf', clearText, s2) \<leftarrow> handle_records E (unat num) 1 buf (replicate 222 0) s1;
         if found
         then forward_build E eI2NPVariableTunnelBuild eI2NPVariableTunnelBuildReply buf' len clearText s2
         else Some s2
       }
   }"

definition HandleTunnelBuildMsg :: "'g renv \<Rightarrow> bytes \<Rightarrow> nat \<Rightarrow> 'g rstate \<Rightarrow> 'g rstate option" where
  "HandleTunnelBuildMsg E buf len s = do {
     let (clear0, s1) = ask (garbage E 222) s;
     (found, buf', clearText, s2) \<leftarrow> handle_records E NUM_TUNNEL_BUILD_RECORDS 0 buf clear0 s1;
     if found then forward_build E eI2NPTunnelBuild eI2NPTunnelBuildReply buf' len clearText s2 else Some s2
   }"

definition HandleVariableTunnelBuildReplyMsg :: "'g renv \<Rightarrow> u32 \<Rightarrow> bytes \<Rightarrow> 'g rstate \<Rightarrow> 'g rstate option" where
  "HandleVariableTunnelBuildReplyMsg E replyMsgID buf s = do {
     let (tunnel, s1) = GetPendingOutboundTunnel replyMsgID s;
     case tunnel of
       Some a \<Rightarrow> do {
         (established, profiles, buf', t) \<leftarrow> HandleTunnelBuildResponse (raes E) buf (outHeap s1 ! a);
         let s2 = (upd_out a (\<lambda>_. t) s1)\<lparr>events := events s1 @ map (\<lambda>(r, ret). TunnelBuildAnswer r ret) profiles\<rparr>;
         Some (if established
               then AddOutboundTunnel E a (upd_out a (SetState eTunnelStateEstablished) s2)
               else upd_out a (SetState eTunnelStateBuildFailed) s2)
       }
     | None \<Rightarrow> Some s1
   }"

section \<open>The dispatcher\<close>

text \<open>The overload for a raw buffer: the body starts behind the header, its size is the header's.\<close>

definition HandleI2NPMessage_buf :: "'g renv \<Rightarrow> bytes \<Rightarrow> 'g rstate \<Rightarrow> 'g rstate option" where
  "HandleI2NPMessage_buf E msg s = do {
     typeID \<leftarrow> mem_get I2NP_HEADER_TYPEID_OFFSET msg;
     msgID \<leftarrow> bufbe32toh I2NP_HEADER_MSGID_OFFSET msg;
     sz \<leftarrow> bufbe16toh I2NP_HEADER_SIZE_OFFSET msg;
     let buf = drop I2NP_HEADER_SIZE msg;
     if typeID = eI2NPVariableTunnelBuild then HandleVariableTunnelBuildMsg E msgID buf (unat sz) s
     else if typeID = eI2NPVariableTunnelBuildReply then HandleVariableTunnelBuildReplyMsg E msgID buf s
     else if typeID = eI2NPTunnelBuild then HandleTunnelBuildMsg E buf (unat sz) s
     else Some s
   }"

definition msg_memory :: "I2NPMessage \<Rightarrow> bytes" where
  "msg_memory m = drop (GetBuffer m) (mbuf m)"

text \<open>The overload for a shared pointer, called by the transports and by the tunnels.\<close>

definition HandleI2NPMessage_ptr :: "'g renv \<Rightarrow> I2NPMessage option \<Rightarrow> 'g rstate \<Rightarrow> 'g rstate option" where
  "HandleI2NPMessage_ptr E msg s =
     (case msg of
        None \<Rightarrow> Some s
      | Some m \<Rightarrow> do {
          typeID \<leftarrow> GetTypeID m;
          pool \<leftarrow> (case mfrom m of None \<Rightarrow> Some None | Some a \<Rightarrow> map_option m_Pool (list_get (inHeap s) a));
          if typeID = eI2NPTunnelData \<or> typeID = eI2NPTunnelGateway then Some (PostTunnelData msg s)
          else if typeID = eI2NPGarlic then
            Some (case mfrom m of
                    Some a \<Rightarrow> (case pool of Some p \<Rightarrow> ProcessGarlicMessage p m s | None \<Rightarrow> s)
                  | None \<Rightarrow> emit (GarlicTo contextDestination m) s)
          else if typeID = eI2NPDatabaseStore \<or> typeID = eI2NPDatabaseSearchReply \<or> typeID = eI2NPDatabaseLookup then
            Some (emit (NetDbPost m) s)
          else if typeID = eI2NPDeliveryStatus then
            (case pool of
               Some p \<Rightarrow> ProcessDeliveryStatus p m s
             | None \<Rightarrow> Some (emit (DeliveryStatusTo contextDestination m) s))
          else if typeID = eI2NPVariableTunnelBuild \<or> typeID = eI2NPVariableTunnelBuildReply \<or>
                  typeID = eI2NPTunnelBuild \<or> typeID = eI2NPTunnelBuildReply then Some (PostTunnelData msg s)
          else HandleI2NPMessage_buf E (msg_memory m) s
        })"

text \<open>The handler a transport session collects messages in.\<close>

record I2NPMessagesHandler =
  m_TunnelMsgs :: "I2NPMessage list"
  m_TunnelGatewayMsgs :: "I2NPMessage list"

definition PutNextMessage ::
    "'g renv \<Rightarrow> I2NPMessage option \<Rightarrow> I2NPMessagesHandler \<times> 'g rstate \<Rightarrow> (I2NPMessagesHandler \<times> 'g rstate) option" where
  "PutNextMessage E msg hs =
     (case msg of
        None \<Rightarrow> Some hs
      | Some m \<Rightarrow> do {
          let (h, s) = hs;
          typeID \<leftarrow> GetTypeID m;
          if typeID = eI2NPTunnelData then Some (h\<lparr>m_TunnelMsgs := m_TunnelMsgs h @ [m]\<rparr>, s)
          else if typeID = eI2NPTunnelGateway then Some (h\<lparr>m_TunnelGatewayMsgs := m_TunnelGatewayMsgs h @ [m]\<rparr>, s)
          else map_option (Pair h) (HandleI2NPMessage_ptr E msg s)
        })"

definition Flush :: "I2NPMessagesHandler \<times> 'g rstate \<Rightarrow> I2NPMessagesHandler \<times> 'g rstate" where
  "Flush hs =
     (let (h, s) = hs;
          (h1, s1) = (if m_TunnelMsgs h \<noteq> [] then (h\<lparr>m_TunnelMsgs := []\<rparr>, PostTunnelDatas (m_TunnelMsgs h) s) else (h, s))
      in if m_TunnelGatewayMsgs h1 \<noteq> []
         then (h1\<lparr>m_TunnelGatewayMsgs := []\<rparr>, PostTunnelDatas (m_TunnelGatewayMsgs h1) s1) else (h1, s1))"

section \<open>The tunnel thread\<close>

text \<open>
  A \<open>TunnelBase *\<close> points to an inbound tunnel or to a transit tunnel; the latter stays in its map while
  messages are handled, under its identifier.
\<close>

datatype tunnel_ref = ToInbound nat | ToTransit u32

fun perform :: "'g renv \<Rightarrow> endpoint_action list \<Rightarrow> 'g rstate \<Rightarrow> 'g rstate option" where
  "perform E [] s = Some s"
| "perform E (act # acts) s = do {
     s1 \<leftarrow> (case act of
              HandleI2NPMessage m \<Rightarrow> HandleI2NPMessage_ptr E (Some m) s
            | SendMessage to m \<Rightarrow> Some (emit (Transport to [m]) s)
            | DropForeign \<Rightarrow> Some s
            | UnknownDelivery \<Rightarrow> Some s);
     perform E acts s1
   }"

definition set_transit :: "u32 \<Rightarrow> transit \<Rightarrow> 'g rstate \<Rightarrow> 'g rstate" where
  "set_transit k t s =
     s\<lparr>m_TransitTunnels := map (\<lambda>e. if fst e = k then (k, (t, snd (snd e))) else e) (m_TransitTunnels s)\<rparr>"

definition ref_HandleTunnelDataMsg :: "'g renv \<Rightarrow> tunnel_ref \<Rightarrow> I2NPMessage \<Rightarrow> 'g rstate \<Rightarrow> 'g rstate option" where
  "ref_HandleTunnelDataMsg E r msg s =
     (case r of
        ToInbound a \<Rightarrow> do {
          (acts, t, g) \<leftarrow> InboundTunnel_HandleTunnelDataMsg (gen E) (raes E) (self E) a msg (inHeap s ! a, world s);
          perform E acts (upd_in a (\<lambda>_. t) (s\<lparr>world := g\<rparr>))
        }
      | ToTransit k \<Rightarrow> do {
          (t, ct) \<leftarrow> GetTransitTunnel k s;
          (acts, t', g) \<leftarrow> TransitTunnel_HandleTunnelDataMsg (gen E) (raes E) (self E) msg (t, world s);
          perform E acts (set_transit k t' (s\<lparr>world := g\<rparr>))
        })"

text \<open>Inbound tunnels, participants and endpoints only log a message they cannot send.\<close>

definition ref_SendTunnelDataMsg :: "'g renv \<Rightarrow> tunnel_ref \<Rightarrow> I2NPMessage \<Rightarrow> 'g rstate \<Rightarrow> 'g rstate option" where
  "ref_SendTunnelDataMsg E r msg s =
     (case r of
        ToInbound a \<Rightarrow> Some s
      | ToTransit k \<Rightarrow> do {
          (t, ct) \<leftarrow> GetTransitTunnel k s;
          (t', g) \<leftarrow> TransitTunnel_SendTunnelDataMsg (gen E) msg (t, world s);
          Some (set_transit k t' (s\<lparr>world := g\<rparr>))
        })"

definition ref_FlushTunnelDataMsgs :: "'g renv \<Rightarrow> tunnel_ref \<Rightarrow> 'g rstate \<Rightarrow> 'g rstate option" where
  "ref_FlushTunnelDataMsgs E r s =
     (case r of
        ToInbound a \<Rightarrow> Some s
      | ToTransit k \<Rightarrow> do {
          (t, ct) \<leftarrow> GetTransitTunnel k s;
          case t of
            Participant p \<Rightarrow>
              let (sent, p') = Participant_FlushTunnelDataMsgs p
              in Some (set_transit k (Participant p')
                   (if sent \<noteq> [] then emit (Transport (trNextIdent p) sent) s else s))
          | Gateway gw \<Rightarrow> do {
              (sent, gw', g) \<leftarrow> Gateway_FlushTunnelDataMsgs (gen E) (raes E) (gw, world s);
              Some (set_transit k (Gateway gw') (emit (Transport (trNextIdent gw) sent) (s\<lparr>world := g\<rparr>)))
            }
          | Endpoint ep \<Rightarrow> Some s
        })"

definition HandleTunnelGatewayMsg :: "'g renv \<Rightarrow> tunnel_ref option \<Rightarrow> I2NPMessage \<Rightarrow> 'g rstate \<Rightarrow> 'g rstate option" where
  "HandleTunnelGatewayMsg E tunnel msg s =
     (case tunnel of
        None \<Rightarrow> Some s
      | Some r \<Rightarrow> do {
          len \<leftarrow> bufbe16toh (GetPayload msg + 4) (mbuf msg);
          let off = moffset msg + I2NP_HEADER_SIZE + TUNNEL_GATEWAY_HEADER_SIZE;
          let m = msg\<lparr>moffset := off, mlen := off + unat len\<rparr>;
          typeID \<leftarrow> GetTypeID m;
          let s1 = (if typeID = eI2NPDatabaseStore \<or> typeID = eI2NPDatabaseSearchReply then emit (NetDbPost m) s else s);
          ref_SendTunnelDataMsg E r m s1
        })"

text \<open>
  One message of a batch. The state of the loop is \<open>prevTunnelID\<close>, \<open>tunnelID\<close> and \<open>prevTunnel\<close>; the result
  has the new \<open>tunnelID\<close> and \<open>tunnel\<close>.
\<close>

definition find_tunnel :: "byte \<Rightarrow> u32 \<Rightarrow> tunnel_ref option \<Rightarrow> 'g rstate \<Rightarrow> tunnel_ref option" where
  "find_tunnel typeID tid tunnel s =
     (let t1 = (if tunnel = None \<and> typeID = eI2NPTunnelData
                then map_option ToInbound (Tunnels_GetInboundTunnel tid s) else tunnel)
      in if t1 = None then map_option (\<lambda>_. ToTransit tid) (GetTransitTunnel tid s) else t1)"

definition run_message ::
    "'g renv \<Rightarrow> u32 \<Rightarrow> u32 \<Rightarrow> tunnel_ref option \<Rightarrow> I2NPMessage \<Rightarrow> 'g rstate \<Rightarrow>
     (u32 \<times> tunnel_ref option \<times> 'g rstate) option" where
  "run_message E prevTunnelID tid0 prevTunnel msg s = do {
     typeID \<leftarrow> GetTypeID msg;
     if typeID = eI2NPTunnelData \<or> typeID = eI2NPTunnelGateway then do {
       tid \<leftarrow> bufbe32toh (GetPayload msg) (mbuf msg);
       s1 \<leftarrow> (if tid = prevTunnelID then Some s
              else case prevTunnel of Some r \<Rightarrow> ref_FlushTunnelDataMsgs E r s | None \<Rightarrow> Some s);
       let tunnel = find_tunnel typeID tid (if tid = prevTunnelID then prevTunnel else None) s1;
       s2 \<leftarrow> (case tunnel of
                Some r \<Rightarrow>
                  if typeID = eI2NPTunnelData then ref_HandleTunnelDataMsg E r msg s1
                  else HandleTunnelGatewayMsg E (Some r) msg s1
              | None \<Rightarrow> Some s1);
       Some (tid, tunnel, s2)
     }
     else if typeID = eI2NPVariableTunnelBuild \<or> typeID = eI2NPVariableTunnelBuildReply \<or>
             typeID = eI2NPTunnelBuild \<or> typeID = eI2NPTunnelBuildReply then do {
       s1 \<leftarrow> HandleI2NPMessage_buf E (msg_memory msg) s;
       Some (tid0, None, s1)
     }
     else Some (tid0, None, s)
   }"

text \<open>
  The batch: messages are taken until the queue is empty. Handling a message may put others, so the
  number of rounds is bounded by \<open>fuel\<close>; \<open>None\<close> is also the result when the fuel is used up.
\<close>

fun run_batch ::
    "nat \<Rightarrow> 'g renv \<Rightarrow> u32 \<Rightarrow> u32 \<Rightarrow> tunnel_ref option \<Rightarrow> I2NPMessage \<Rightarrow> 'g rstate \<Rightarrow> 'g rstate option" where
  "run_batch 0 E prevTunnelID tid prevTunnel msg s = None"
| "run_batch (Suc fuel) E prevTunnelID tid prevTunnel msg s = do {
     (tid1, tunnel, s1) \<leftarrow> run_message E prevTunnelID tid prevTunnel msg s;
     let (next, q) = Queue_Get (m_Queue s1);
     let s2 = s1\<lparr>m_Queue := q\<rparr>;
     case next of
       Some m \<Rightarrow> run_batch fuel E tid1 tid1 tunnel m s2
     | None \<Rightarrow> (case tunnel of Some r \<Rightarrow> ref_FlushTunnelDataMsgs E r s2 | None \<Rightarrow> Some s2)
   }"

text \<open>One round of \<open>Run\<close>; \<open>arrived\<close> is put by other threads while the thread waits for a message.\<close>

definition run_round ::
    "nat \<Rightarrow> 'g renv \<Rightarrow> I2NPMessage option list \<Rightarrow> u64 \<Rightarrow> 'g rstate \<Rightarrow> (u64 \<times> 'g rstate) option" where
  "run_round fuel E arrived lastTs s = do {
     let (msg, q) = GetNextWithTimeout arrived (m_Queue s);
     let s1 = s\<lparr>m_Queue := q\<rparr>;
     s2 \<leftarrow> (case msg of Some m \<Rightarrow> run_batch fuel E 0 0 None m s1 | None \<Rightarrow> Some s1);
     let (ts, s3) = ask (seconds E) s2;
     if ts - lastTs \<ge> 15 then map_option (Pair ts) (ManageTunnels E s3) else Some (lastTs, s3)
   }"

end
