(* ===== verification/Router_Invariant.thy ===== *)
theory Router_Invariant
  imports Router_Messages
begin

text \<open>
The invariant of the tunnel subsystem, how its state develops, and the updates from which every operation is made. \<open>good E s s'\<close> says that \<open>s'\<close> satisfies the invariant and that the tunnels of \<open>s\<close> have only moved forward in their life.
\<close>

section \<open>The life of a tunnel\<close>

text \<open>
  The states in which a tunnel waits for its build reply, was refused, and was built. Built tunnels
  change between established, test failed, failed and expiring, and never go back.
\<close>

fun phase :: "TunnelState \<Rightarrow> nat" where
  "phase eTunnelStatePending = 0"
| "phase eTunnelStateBuildReplyReceived = 1"
| "phase eTunnelStateBuildFailed = 2"
| "phase _ = 3"

definition evolves :: "TunnelState \<Rightarrow> TunnelState \<Rightarrow> bool" where
  "evolves st st' \<longleftrightarrow> phase st \<le> phase st' \<and> (phase st = 2 \<longrightarrow> phase st' = 2)"

definition built :: "'a Tunnel_scheme \<Rightarrow> bool" where
  "built t \<longleftrightarrow> phase (m_State t) = 3"

text \<open>What identifies a hop; building and using a tunnel changes only its keys and record position.\<close>

definition hop_id :: "TunnelHopConfig \<Rightarrow> bytes \<times> u32 \<times> u32" where
  "hop_id h = (TunnelHopConfig.router h, tunnelID h, nextTunnelID h)"

definition tunnel_le :: "'a Tunnel_scheme \<Rightarrow> 'a Tunnel_scheme \<Rightarrow> bool" where
  "tunnel_le t t' \<longleftrightarrow> evolves (m_State t) (m_State t') \<and> map hop_id (m_Config t) = map hop_id (m_Config t') \<and>
     m_CreationTime t = m_CreationTime t'"

definition heap_le :: "'a Tunnel_scheme list \<Rightarrow> 'a Tunnel_scheme list \<Rightarrow> bool" where
  "heap_le h h' \<longleftrightarrow> length h \<le> length h' \<and> (\<forall>a < length h. tunnel_le (h ! a) (h' ! a))"

lemma evolves_refl [simp]: "evolves st st"
  by (simp add: evolves_def)

lemma evolves_trans: "evolves st st' \<Longrightarrow> evolves st' st'' \<Longrightarrow> evolves st st''"
  by (auto simp: evolves_def)

lemma tunnel_le_refl [simp]: "tunnel_le t t"
  by (simp add: tunnel_le_def)

lemma tunnel_le_trans: "tunnel_le t t' \<Longrightarrow> tunnel_le t' t'' \<Longrightarrow> tunnel_le t t''"
  by (auto simp: tunnel_le_def intro: evolves_trans)

lemma heap_le_refl [simp]: "heap_le h h"
  by (simp add: heap_le_def)

lemma heap_le_trans: "heap_le h h' \<Longrightarrow> heap_le h' h'' \<Longrightarrow> heap_le h h''"
  unfolding heap_le_def by (meson order_trans order_less_le_trans tunnel_le_trans)

lemma built_le: "built t \<Longrightarrow> tunnel_le t t' \<Longrightarrow> built t'"
proof -
  have "phase st \<le> 3" for st by (cases st) simp_all
  then show "built t \<Longrightarrow> tunnel_le t t' \<Longrightarrow> built t'"
    by (force simp: built_def tunnel_le_def evolves_def intro: antisym)
qed

lemma heap_le_append [simp]: "heap_le h (h @ ts)"
  by (simp add: heap_le_def nth_append)

lemma heap_le_update:
  assumes "tunnel_le (h ! a) t"
  shows "heap_le h (h[a := t])"
proof -
  have "tunnel_le (h ! b) (h[a := t] ! b)" if "b < length h" for b
    using assms that by (cases "b = a") simp_all
  then show ?thesis by (simp add: heap_le_def)
qed

lemma tunnel_le_config:
  assumes "tunnel_le t t'"
  shows "m_Config t = [] \<longleftrightarrow> m_Config t' = []"
  using assms by (metis tunnel_le_def map_is_Nil_conv)

lemma last_hop_id:
  assumes "map hop_id c = map hop_id c'" and "c \<noteq> []"
  shows "hop_id (last c) = hop_id (last c')"
  using assms by (metis last_map map_is_Nil_conv)

lemma tunnel_le_id:
  assumes "tunnel_le t t'" and "m_Config t \<noteq> []"
  shows "InboundTunnel_GetTunnelID t' = InboundTunnel_GetTunnelID t"
  using last_hop_id [of "m_Config t" "m_Config t'"] assms
  by (simp add: tunnel_le_def InboundTunnel_GetTunnelID_def GetLastHop_def hop_id_def)

section \<open>Parts of the invariant\<close>

text \<open>Pointers lead into the heap; \<open>np\<close> is the number of pools.\<close>

definition heap_ok :: "nat \<Rightarrow> 'a Tunnel_scheme list \<Rightarrow> bool" where
  "heap_ok np h \<longleftrightarrow> (\<forall>t \<in> set h. m_Config t \<noteq> [] \<and> (\<forall>p. m_Pool t = Some p \<longrightarrow> p < np))"

definition listed_ok :: "'a Tunnel_scheme list \<Rightarrow> nat list \<Rightarrow> bool" where
  "listed_ok h as \<longleftrightarrow> (\<forall>a \<in> set as. a < length h \<and> built (h ! a))"

text \<open>The tunnels a pool holds are built, belong to it, and are ordered newest first.\<close>

definition members_ok :: "'g renv \<Rightarrow> 'a Tunnel_scheme list \<Rightarrow> nat \<Rightarrow> nat list \<Rightarrow> bool" where
  "members_ok E h p as \<longleftrightarrow> listed_ok h as \<and> (\<forall>a \<in> set as. m_Pool (h ! a) = Some p) \<and>
     sorted_wrt (TunnelCreationTimeCmp E h) as"

definition pending_ok :: "'a Tunnel_scheme list \<Rightarrow> (u32, nat) smap \<Rightarrow> bool" where
  "pending_ok h m \<longleftrightarrow> smap_ok m \<and> distinct (map snd m) \<and> (\<forall>a \<in> snd ` set m. a < length h)"

definition tests_ok :: "OutboundTunnel list \<Rightarrow> InboundTunnel list \<Rightarrow> (u32, nat option \<times> nat option) smap \<Rightarrow> bool" where
  "tests_ok ho hi m \<longleftrightarrow> smap_ok m \<and>
     (\<forall>e \<in> set m. \<exists>k a b. e = (k, (Some a, Some b)) \<and> listed_ok ho [a] \<and> listed_ok hi [b])"

text \<open>An entry of the table of inbound tunnels is filed under the identifier of its tunnel.\<close>

definition inbound_ok :: "InboundTunnel list \<Rightarrow> (u32, nat) smap \<Rightarrow> bool" where
  "inbound_ok h m \<longleftrightarrow> smap_ok m \<and> listed_ok h (map snd m) \<and>
     (\<forall>e \<in> set m. InboundTunnel_GetTunnelID (h ! snd e) = fst e)"

definition transit_ok :: "(u32, transit \<times> u32) smap \<Rightarrow> bool" where
  "transit_ok m \<longleftrightarrow> smap_ok m \<and> (\<forall>e \<in> set m. transit_id (fst (snd e)) = fst e)"

text \<open>Pointers are strictly ordered.\<close>

definition ptr_order :: "'g renv \<Rightarrow> bool" where
  "ptr_order E \<longleftrightarrow> irreflp (ptrLess E) \<and> transp (ptrLess E)"

lemma Cmp_irrefl: "ptr_order E \<Longrightarrow> \<not> TunnelCreationTimeCmp E h a a"
  by (simp add: TunnelCreationTimeCmp_def ptr_order_def irreflp_def)

lemma Cmp_trans: "ptr_order E \<Longrightarrow> transp (TunnelCreationTimeCmp E h)"
  by (rule transpI) (auto simp: TunnelCreationTimeCmp_def ptr_order_def dest: transpD split: if_splits)

lemma Cmp_le:
  assumes "heap_le h h'" and "a < length h" and "b < length h"
  shows "TunnelCreationTimeCmp E h' a b = TunnelCreationTimeCmp E h a b"
  using assms by (simp add: TunnelCreationTimeCmp_def heap_le_def tunnel_le_def)

lemma listed_ok_le: "listed_ok h as \<Longrightarrow> heap_le h h' \<Longrightarrow> listed_ok h' as"
  unfolding listed_ok_def heap_le_def by (meson built_le order_less_le_trans)

lemma listed_ok_simps [simp]:
  "listed_ok h []"
  "listed_ok h (a # as) \<longleftrightarrow> a < length h \<and> built (h ! a) \<and> listed_ok h as"
  "listed_ok h (as @ bs) \<longleftrightarrow> listed_ok h as \<and> listed_ok h bs"
  by (auto simp: listed_ok_def)

lemma listed_ok_subset: "listed_ok h as \<Longrightarrow> set bs \<subseteq> set as \<Longrightarrow> listed_ok h bs"
  by (auto simp: listed_ok_def)

lemma members_ok_le:
  assumes "members_ok E h p as" and "heap_le h h'" and "\<And>a. a \<in> set as \<Longrightarrow> m_Pool (h' ! a) = m_Pool (h ! a)"
  shows "members_ok E h' p as"
proof -
  have "sorted_wrt (TunnelCreationTimeCmp E h') as"
    by (rule sorted_wrt_mono_rel [of _ "TunnelCreationTimeCmp E h"])
       (use assms in \<open>auto simp: members_ok_def listed_ok_def Cmp_le [OF assms(2)]\<close>)
  with assms show ?thesis by (auto simp: members_ok_def intro: listed_ok_le)
qed

lemma pending_ok_le: "pending_ok h m \<Longrightarrow> heap_le h h' \<Longrightarrow> pending_ok h' m"
  by (auto simp: pending_ok_def heap_le_def)

lemma tests_ok_le: "tests_ok ho hi m \<Longrightarrow> heap_le ho ho' \<Longrightarrow> heap_le hi hi' \<Longrightarrow> tests_ok ho' hi' m"
  unfolding tests_ok_def by (meson listed_ok_le)

lemma inbound_ok_le:
  assumes "inbound_ok h m" and "heap_le h h'" and "\<forall>t \<in> set h. m_Config t \<noteq> []"
  shows "inbound_ok h' m"
proof -
  have "InboundTunnel_GetTunnelID (h' ! snd e) = fst e" if "e \<in> set m" for e
  proof -
    have "snd e < length h" using assms(1) that by (auto simp: inbound_ok_def listed_ok_def)
    then show ?thesis
      using tunnel_le_id [of "h ! snd e" "h' ! snd e"] assms that by (simp add: inbound_ok_def heap_le_def)
  qed
  with assms show ?thesis by (auto simp: inbound_ok_def intro: listed_ok_le)
qed

lemma pending_ok_put:
  assumes "pending_ok h m" and "a < length h" and "a \<notin> snd ` set m"
  shows "pending_ok h (map_put k a m)"
proof -
  have "distinct (map snd (map_put k a m))"
    using assms(1,3)
    by (induction k a m rule: map_put.induct) (auto simp: pending_ok_def smap_ok_def set_map_put)
  then show ?thesis using assms by (auto simp: pending_ok_def smap_ok_put set_map_put)
qed

lemma pending_ok_filter: "pending_ok h m \<Longrightarrow> pending_ok h (filter P m)"
  by (auto simp: pending_ok_def smap_ok_filter distinct_map_filter)

lemma inbound_ok_put:
  assumes "inbound_ok h m" and "a < length h" and "built (h ! a)" and "InboundTunnel_GetTunnelID (h ! a) = k"
  shows "inbound_ok h (map_put k a m)"
  using assms by (auto simp: inbound_ok_def smap_ok_put set_map_put listed_ok_def)

lemma inbound_ok_filter: "inbound_ok h m \<Longrightarrow> inbound_ok h (filter P m)"
  by (auto simp: inbound_ok_def smap_ok_filter listed_ok_def)

lemma members_ok_insert:
  assumes "ptr_order E" and "members_ok E h p as" and "a < length h" and "built (h ! a)" and "m_Pool (h ! a) = Some p"
  shows "members_ok E h p (set_insert (TunnelCreationTimeCmp E h) a as)"
  using assms set_set_insert_subset [of "TunnelCreationTimeCmp E h" a as]
    set_insert_sorted [OF Cmp_trans [OF assms(1)], of h as a]
  unfolding members_ok_def listed_ok_def by blast

lemma members_ok_erase:
  assumes "members_ok E h p as"
  shows "members_ok E h p (set_erase lt a as)"
  using assms by (auto simp: members_ok_def listed_ok_def set_erase_def sorted_wrt_filter)

lemma erase_self: "ptr_order E \<Longrightarrow> a \<notin> set (set_erase (TunnelCreationTimeCmp E h) a as)"
  by (simp add: set_erase_def Cmp_irrefl)

section \<open>The invariant\<close>

definition pools_ok :: "'g renv \<Rightarrow> OutboundTunnel list \<Rightarrow> InboundTunnel list \<Rightarrow> TunnelPool list \<Rightarrow> bool" where
  "pools_ok E ho hi ps \<longleftrightarrow>
     (\<forall>p < length ps. members_ok E hi p (pInboundTunnels (ps ! p)) \<and> members_ok E ho p (pOutboundTunnels (ps ! p)) \<and>
        tests_ok ho hi (m_Tests (ps ! p)))"

definition rinv :: "'g renv \<Rightarrow> 'g rstate \<Rightarrow> bool" where
  "rinv E s \<longleftrightarrow>
     heap_ok (length (poolHeap s)) (inHeap s) \<and> heap_ok (length (poolHeap s)) (outHeap s) \<and>
     pools_ok E (outHeap s) (inHeap s) (poolHeap s) \<and>
     pending_ok (inHeap s) (m_PendingInboundTunnels s) \<and> pending_ok (outHeap s) (m_PendingOutboundTunnels s) \<and>
     inbound_ok (inHeap s) (m_InboundTunnels s) \<and>
     distinct (m_OutboundTunnels s) \<and> listed_ok (outHeap s) (m_OutboundTunnels s) \<and>
     transit_ok (m_TransitTunnels s) \<and>
     distinct (m_Pools s) \<and> (\<forall>p \<in> set (m_Pools s). p < length (poolHeap s)) \<and>
     (\<forall>p. m_ExploratoryPool s = Some p \<longrightarrow> p < length (poolHeap s)) \<and>
     q_ok (m_Queue s)"

text \<open>How the state develops: objects stay, tunnels only move forward in their life.\<close>

definition grows :: "'g rstate \<Rightarrow> 'g rstate \<Rightarrow> bool" where
  "grows s s' \<longleftrightarrow> heap_le (inHeap s) (inHeap s') \<and> heap_le (outHeap s) (outHeap s') \<and>
     length (poolHeap s) \<le> length (poolHeap s')"

definition good :: "'g renv \<Rightarrow> 'g rstate \<Rightarrow> 'g rstate \<Rightarrow> bool" where
  "good E s s' \<longleftrightarrow> rinv E s' \<and> grows s s'"

lemma grows_refl [simp]: "grows s s"
  by (simp add: grows_def)

lemma grows_trans: "grows s s' \<Longrightarrow> grows s' s'' \<Longrightarrow> grows s s''"
  by (auto simp: grows_def intro: heap_le_trans)

lemma rinv_new [simp]: "rinv E (newTunnels g)"
  by (simp add: rinv_def newTunnels_def heap_ok_def pools_ok_def pending_ok_def inbound_ok_def transit_ok_def q_ok_def)

section \<open>Updates that keep the invariant\<close>

lemma good_refl [simp]: "good E s s \<longleftrightarrow> rinv E s"
  by (simp add: good_def)

lemma good_trans: "good E s s' \<Longrightarrow> good E s' s'' \<Longrightarrow> good E s s''"
  by (auto simp: good_def intro: grows_trans)

lemma good_then: "good E s s' \<Longrightarrow> (rinv E s' \<Longrightarrow> good E s' s'') \<Longrightarrow> good E s s''"
  by (auto simp: good_def intro: grows_trans)

lemma good_rinv: "good E s s' \<Longrightarrow> rinv E s'"
  by (simp add: good_def)

text \<open>The outside world, the log of effects and the counters are not constrained.\<close>

lemma rinv_frame [simp]:
  "rinv E (s\<lparr>world := g\<rparr>) = rinv E s"
  "rinv E (s\<lparr>events := ev\<rparr>) = rinv E s"
  "rinv E (s\<lparr>m_NumSuccesiveTunnelCreations := i\<rparr>) = rinv E s"
  "rinv E (s\<lparr>m_NumFailedTunnelCreations := i\<rparr>) = rinv E s"
  by (simp_all add: rinv_def)

lemma grows_frame [simp]:
  "grows s (s'\<lparr>world := g\<rparr>) = grows s s'"
  "grows s (s'\<lparr>events := ev\<rparr>) = grows s s'"
  "grows s (s'\<lparr>m_NumSuccesiveTunnelCreations := i\<rparr>) = grows s s'"
  "grows s (s'\<lparr>m_NumFailedTunnelCreations := i\<rparr>) = grows s s'"
  by (simp_all add: grows_def)

lemma good_frame [simp]:
  "good E s (s'\<lparr>world := g\<rparr>) = good E s s'"
  "good E s (s'\<lparr>events := ev\<rparr>) = good E s s'"
  "good E s (s'\<lparr>m_NumSuccesiveTunnelCreations := i\<rparr>) = good E s s'"
  "good E s (s'\<lparr>m_NumFailedTunnelCreations := i\<rparr>) = good E s s'"
  "good E s (emit e s') = good E s s'"
  by (simp_all add: good_def emit_def)

lemma ask_world: "ask q s = (a, s') \<Longrightarrow> \<exists>g. s' = s\<lparr>world := g\<rparr>"
  by (auto simp: ask_def split: prod.splits)

lemma good_ask: "ask q s = (a, s') \<Longrightarrow> rinv E s \<Longrightarrow> good E s s'"
  by (auto dest!: ask_world)

lemma heap_ok_update: "heap_ok np h \<Longrightarrow> m_Config t \<noteq> [] \<Longrightarrow> (\<And>p. m_Pool t = Some p \<Longrightarrow> p < np) \<Longrightarrow> heap_ok np (h[a := t])"
  by (auto simp: heap_ok_def dest!: set_update_subset_insert [THEN subsetD])

lemma heap_ok_nth: "heap_ok np h \<Longrightarrow> a < length h \<Longrightarrow> m_Config (h ! a) \<noteq> [] \<and> (\<forall>p. m_Pool (h ! a) = Some p \<longrightarrow> p < np)"
  using nth_mem by (auto simp: heap_ok_def)

lemma members_ok_update:
  assumes "members_ok E h p as" and "tunnel_le (h ! a) t" and "m_Pool t = m_Pool (h ! a) \<or> a \<notin> set as"
  shows "members_ok E (h[a := t]) p as"
proof (rule members_ok_le [OF assms(1)])
  show "heap_le h (h[a := t])" by (rule heap_le_update [OF assms(2)])
  fix b assume "b \<in> set as"
  then show "m_Pool (h[a := t] ! b) = m_Pool (h ! b)"
    using assms(1,3) by (cases "b = a") (auto simp: members_ok_def listed_ok_def)
qed

text \<open>Changing a tunnel: its pool may change only when no pool holds it.\<close>

lemma good_upd_in:
  assumes "rinv E s" and a: "a < length (inHeap s)" and le: "tunnel_le (inHeap s ! a) (f (inHeap s ! a))"
    and pool: "m_Pool (f (inHeap s ! a)) = m_Pool (inHeap s ! a) \<or>
        (\<forall>p. m_Pool (f (inHeap s ! a)) = Some p \<longrightarrow> p < length (poolHeap s)) \<and>
        (\<forall>p < length (poolHeap s). a \<notin> set (pInboundTunnels (poolHeap s ! p)))"
  shows "good E s (upd_in a f s)"
proof -
  let ?h = "(inHeap s)[a := f (inHeap s ! a)]"
  have hl: "heap_le (inHeap s) ?h" by (rule heap_le_update [OF le])
  have ho: "heap_ok (length (poolHeap s)) (inHeap s)" using assms(1) by (simp add: rinv_def)
  have "heap_ok (length (poolHeap s)) ?h"
    by (rule heap_ok_update [OF ho]) (use heap_ok_nth [OF ho a] tunnel_le_config [OF le] pool in auto)
  moreover have "pools_ok E (outHeap s) ?h (poolHeap s)"
    using assms(1) pool members_ok_update [OF _ le] tests_ok_le [OF _ heap_le_refl hl]
    unfolding rinv_def pools_ok_def by blast
  moreover have "pending_ok ?h (m_PendingInboundTunnels s)" "inbound_ok ?h (m_InboundTunnels s)"
    using assms(1) ho pending_ok_le [OF _ hl] inbound_ok_le [OF _ hl] by (simp_all add: rinv_def heap_ok_def)
  ultimately show ?thesis using assms(1) hl by (simp add: good_def grows_def upd_in_def rinv_def)
qed

lemma good_upd_out:
  assumes "rinv E s" and a: "a < length (outHeap s)" and le: "tunnel_le (outHeap s ! a) (f (outHeap s ! a))"
    and pool: "m_Pool (f (outHeap s ! a)) = m_Pool (outHeap s ! a) \<or>
        (\<forall>p. m_Pool (f (outHeap s ! a)) = Some p \<longrightarrow> p < length (poolHeap s)) \<and>
        (\<forall>p < length (poolHeap s). a \<notin> set (pOutboundTunnels (poolHeap s ! p)))"
  shows "good E s (upd_out a f s)"
proof -
  let ?h = "(outHeap s)[a := f (outHeap s ! a)]"
  have hl: "heap_le (outHeap s) ?h" by (rule heap_le_update [OF le])
  have ho: "heap_ok (length (poolHeap s)) (outHeap s)" using assms(1) by (simp add: rinv_def)
  have "heap_ok (length (poolHeap s)) ?h"
    by (rule heap_ok_update [OF ho]) (use heap_ok_nth [OF ho a] tunnel_le_config [OF le] pool in auto)
  moreover have "pools_ok E ?h (inHeap s) (poolHeap s)"
    using assms(1) pool members_ok_update [OF _ le] tests_ok_le [OF _ hl heap_le_refl]
    unfolding rinv_def pools_ok_def by blast
  moreover have "pending_ok ?h (m_PendingOutboundTunnels s)" "listed_ok ?h (m_OutboundTunnels s)"
    using assms(1) pending_ok_le [OF _ hl] listed_ok_le [OF _ hl] by (simp_all add: rinv_def)
  ultimately show ?thesis using assms(1) hl by (simp add: good_def grows_def upd_out_def rinv_def)
qed

text \<open>A new tunnel, in no pool and in no table.\<close>

lemma heap_ok_append: "heap_ok np (h @ [t]) \<longleftrightarrow> heap_ok np h \<and> m_Config t \<noteq> [] \<and> (\<forall>p. m_Pool t = Some p \<longrightarrow> p < np)"
  by (auto simp: heap_ok_def)

lemma members_ok_append: "members_ok E h p as \<Longrightarrow> members_ok E (h @ [t]) p as"
  by (rule members_ok_le [where h = h]) (auto simp: members_ok_def listed_ok_def nth_append)

lemma good_new_in:
  assumes "rinv E s" and "m_Config t \<noteq> []" and "m_Pool t = None"
  shows "good E s (s\<lparr>inHeap := inHeap s @ [t]\<rparr>)"
  using assms
  by (auto simp: good_def grows_def rinv_def heap_ok_append pools_ok_def heap_ok_def
      intro: members_ok_append tests_ok_le pending_ok_le inbound_ok_le)

lemma good_new_out:
  assumes "rinv E s" and "m_Config t \<noteq> []" and "m_Pool t = None"
  shows "good E s (s\<lparr>outHeap := outHeap s @ [t]\<rparr>)"
  using assms
  by (auto simp: good_def grows_def rinv_def heap_ok_append pools_ok_def
      intro: members_ok_append tests_ok_le pending_ok_le listed_ok_le)

lemma good_upd_pool:
  assumes "rinv E s"
    and "p < length (poolHeap s) \<Longrightarrow> members_ok E (inHeap s) p (pInboundTunnels (f (poolHeap s ! p)))"
    and "p < length (poolHeap s) \<Longrightarrow> members_ok E (outHeap s) p (pOutboundTunnels (f (poolHeap s ! p)))"
    and "p < length (poolHeap s) \<Longrightarrow> tests_ok (outHeap s) (inHeap s) (m_Tests (f (poolHeap s ! p)))"
  shows "good E s (upd_pool p f s)"
proof -
  have "pools_ok E (outHeap s) (inHeap s) ((poolHeap s)[p := f (poolHeap s ! p)])"
    using assms unfolding rinv_def pools_ok_def by (metis length_list_update nth_list_update nth_list_update_neq)
  then show ?thesis using assms(1) by (simp add: good_def grows_def upd_pool_def rinv_def)
qed

lemma rinv_pool:
  assumes "rinv E s" and "p < length (poolHeap s)"
  shows "members_ok E (inHeap s) p (pInboundTunnels (poolHeap s ! p))"
    and "members_ok E (outHeap s) p (pOutboundTunnels (poolHeap s ! p))"
    and "tests_ok (outHeap s) (inHeap s) (m_Tests (poolHeap s ! p))"
  using assms by (simp_all add: rinv_def pools_ok_def)

lemma member_pool_in:
  assumes "rinv E s" and "q < length (poolHeap s)" and "a \<in> set (pInboundTunnels (poolHeap s ! q))"
  shows "m_Pool (inHeap s ! a) = Some q" and "a < length (inHeap s)" and "built (inHeap s ! a)"
  using rinv_pool(1) [OF assms(1,2)] assms(3) by (auto simp: members_ok_def listed_ok_def)

lemma member_pool_out:
  assumes "rinv E s" and "q < length (poolHeap s)" and "a \<in> set (pOutboundTunnels (poolHeap s ! q))"
  shows "m_Pool (outHeap s ! a) = Some q" and "a < length (outHeap s)" and "built (outHeap s ! a)"
  using rinv_pool(2) [OF assms(1,2)] assms(3) by (auto simp: members_ok_def listed_ok_def)

lemma tunnel_pool_in: "rinv E s \<Longrightarrow> a < length (inHeap s) \<Longrightarrow> m_Pool (inHeap s ! a) = Some p \<Longrightarrow> p < length (poolHeap s)"
  using heap_ok_nth [of "length (poolHeap s)" "inHeap s" a] by (simp add: rinv_def)

lemma tunnel_pool_out: "rinv E s \<Longrightarrow> a < length (outHeap s) \<Longrightarrow> m_Pool (outHeap s ! a) = Some p \<Longrightarrow> p < length (poolHeap s)"
  using heap_ok_nth [of "length (poolHeap s)" "outHeap s" a] by (simp add: rinv_def)

lemma config_in: "rinv E s \<Longrightarrow> a < length (inHeap s) \<Longrightarrow> m_Config (inHeap s ! a) \<noteq> []"
  by (simp add: rinv_def heap_ok_def)

lemma config_out: "rinv E s \<Longrightarrow> a < length (outHeap s) \<Longrightarrow> m_Config (outHeap s ! a) \<noteq> []"
  by (simp add: rinv_def heap_ok_def)

text \<open>State changes of one tunnel.\<close>

lemma tunnel_le_SetState: "evolves (m_State t) st \<Longrightarrow> tunnel_le t (SetState st t)"
  by (simp add: tunnel_le_def SetState_def)

lemma tunnel_le_SetTunnelPool [simp]: "tunnel_le t (SetTunnelPool p t)"
  by (simp add: tunnel_le_def SetTunnelPool_def)

lemma SetTunnelPool_simps [simp]:
  "m_Pool (SetTunnelPool p t) = p" "m_CreationTime (SetTunnelPool p t) = m_CreationTime t" "m_State (SetTunnelPool p t) = m_State t"
  by (simp_all add: SetTunnelPool_def)

lemma SetState_simps [simp]:
  "m_Pool (SetState st t) = m_Pool t" "m_CreationTime (SetState st t) = m_CreationTime t" "m_State (SetState st t) = st"
  by (simp_all add: SetState_def)

lemma built_evolves: "built t \<Longrightarrow> phase st = 3 \<Longrightarrow> evolves (m_State t) st"
  by (simp add: built_def evolves_def)

lemma good_SetState_in:
  assumes "rinv E s" and "a < length (inHeap s)" and "evolves (m_State (inHeap s ! a)) st"
  shows "good E s (upd_in a (SetState st) s)"
  by (rule good_upd_in [OF assms(1,2)]) (simp_all add: tunnel_le_SetState [OF assms(3)])

lemma good_SetState_out:
  assumes "rinv E s" and "a < length (outHeap s)" and "evolves (m_State (outHeap s ! a)) st"
  shows "good E s (upd_out a (SetState st) s)"
  by (rule good_upd_out [OF assms(1,2)]) (simp_all add: tunnel_le_SetState [OF assms(3)])

section \<open>Building and using one tunnel\<close>

lemma hop_id_update [simp]:
  "hop_id (h\<lparr>recordIndex := i\<rparr>) = hop_id h" "hop_id (h\<lparr>decryption := d\<rparr>) = hop_id h"
  by (simp_all add: hop_id_def)

lemma create_records_ids:
  "create_records E G elg hr reply idxs i c s = Some (c', s') \<Longrightarrow> map hop_id c' = map hop_id c"
proof (induction c arbitrary: i s c')
  case (Cons h hs)
  then show ?case by (auto simp: bind_eq_Some_conv Let_def case_prod_beta)
qed simp

lemma build_msg_ids:
  assumes "build_msg E A G elg hr idxs reply c g = Some (c', m, g')"
  shows "map hop_id c' = map hop_id c"
  using assms by (auto simp: build_msg_def bind_eq_Some_conv Let_def case_prod_beta dest!: create_records_ids)

lemma SendTunnelDataMsg_le:
  assumes "OutboundTunnel_SendTunnelDataMsg E A h i m (ot, g) = Some (sent, ot', g')"
  shows "tunnel_le ot ot'" and "m_Pool ot' = m_Pool ot"
  using assms by (auto simp: OutboundTunnel_SendTunnelDataMsg_def tunnel_le_def)

lemma Tunnel_Build_le:
  assumes "Tunnel_Build E A G elg hr idxs reply ot t g = Some (sent, ot', t', g')"
  shows "tunnel_le t t'" and "m_Pool t' = m_Pool t" and "m_State t' = m_State t"
    and "ot = Some x \<Longrightarrow> \<exists>x'. ot' = Some x' \<and> tunnel_le x x' \<and> m_Pool x' = m_Pool x"
    and "ot = None \<Longrightarrow> ot' = None"
proof -
  obtain c m g1 where b: "build_msg E A G elg hr idxs reply (m_Config t) g = Some (c, m, g1)"
    and t': "t' = t\<lparr>m_Config := c\<rparr>"
    and rest: "case ot of
       Some o' \<Rightarrow> \<exists>sent' o'' g2. OutboundTunnel_SendTunnelDataMsg E A (Some (GetNextIdentHash t')) 0 (Some m) (o', g1) = Some (sent', o'', g2) \<and> ot' = Some o''
     | None \<Rightarrow> ot' = None"
    using assms by (cases ot) (auto simp: Tunnel_Build_def Let_def bind_eq_Some_conv)
  show "tunnel_le t t'" using build_msg_ids [OF b] by (simp add: t' tunnel_le_def)
  show "m_Pool t' = m_Pool t" "m_State t' = m_State t" by (simp_all add: t')
  show "ot = Some x \<Longrightarrow> \<exists>x'. ot' = Some x' \<and> tunnel_le x x' \<and> m_Pool x' = m_Pool x"
    using rest by (auto dest: SendTunnelDataMsg_le)
  show "ot = None \<Longrightarrow> ot' = None" using rest by simp
qed

lemma HandleTunnelBuildResponse_le:
  assumes "HandleTunnelBuildResponse A msg t = Some (est, profiles, msg', t')"
  shows "map hop_id (m_Config t') = map hop_id (m_Config t)" and "m_Pool t' = m_Pool t"
    and "m_CreationTime t' = m_CreationTime t"
    and "m_State t' = (if est then eTunnelStateEstablished else m_State t)"
proof -
  have t': "t' = (if est then t\<lparr>m_Config := map (\<lambda>h. h\<lparr>decryption := TunnelDecryption_SetKeys (layerKey h) (ivKey h) (decryption h)\<rparr>) (m_Config t),
      m_State := eTunnelStateEstablished\<rparr> else t)"
    using assms by (auto simp: HandleTunnelBuildResponse_def bind_eq_Some_conv Let_def)
  show "map hop_id (m_Config t') = map hop_id (m_Config t)" "m_Pool t' = m_Pool t" "m_CreationTime t' = m_CreationTime t"
    "m_State t' = (if est then eTunnelStateEstablished else m_State t)"
    by (simp_all add: t' comp_def)
qed

lemma peel_ids: "peel A hs bs = (hs', bs') \<Longrightarrow> map hop_id hs' = map hop_id hs"
  by (induction A hs bs arbitrary: hs' bs' rule: peel.induct) (auto simp: Let_def split: prod.splits)

lemma InboundTunnel_HandleTunnelDataMsg_le:
  assumes "InboundTunnel_HandleTunnelDataMsg E A me this msg (t, g) = Some (acts, t', g')"
  shows "tunnel_le t t'" and "m_Pool t' = m_Pool t"
proof -
  have ids: "map hop_id c' = map hop_id c" if "Tunnel_EncryptTunnelMsg A c m out = Some (c', out')" for c c' m out out'
    using that peel_ids [of A "rev c"]
    by (auto simp: Tunnel_EncryptTunnelMsg_def bind_eq_Some_conv Let_def case_prod_beta rev_map [symmetric] split: if_splits)
       (metis prod.collapse rev_map rev_rev_ident)
  show "tunnel_le t t'" "m_Pool t' = m_Pool t"
    using assms by (auto simp: InboundTunnel_HandleTunnelDataMsg_def bind_eq_Some_conv Let_def tunnel_le_def
        IsFailed_def evolves_def dest!: ids)
qed

section \<open>Creating tunnels\<close>

lemma build_tunnel_good:
  assumes "build_tunnel E reply ot t s = Some (t', s')" and "rinv E s"
    and "\<And>a. ot = Some a \<Longrightarrow> a < length (outHeap s)"
  shows "good E s s'" and "tunnel_le t t'" and "m_Pool t' = m_Pool t" and "m_State t' = m_State t"
    and "inHeap s' = inHeap s" and "poolHeap s' = poolHeap s"
    and "length (outHeap s') = length (outHeap s)" and "\<And>a. Some a \<noteq> ot \<Longrightarrow> outHeap s' ! a = outHeap s ! a"
proof -
  obtain idxs hrs sent o' g g2 where b: "Tunnel_Build (gen E) (raes E) (rgroup E) (relg E) hrs idxs reply
       (map_option (\<lambda>a. outHeap s ! a) ot) t g2 = Some (sent, o', t', g)"
    and s': "s' = (case (ot, o') of (Some a, Some x) \<Rightarrow> upd_out a (\<lambda>_. x) | _ \<Rightarrow> \<lambda>s. s)
        (s\<lparr>world := g, events := events s @ map (\<lambda>(to, ms). Transport to ms) sent\<rparr>)"
    using assms(1) by (auto simp: build_tunnel_def bind_eq_Some_conv Let_def ask_def split: prod.splits option.splits)
  note le = Tunnel_Build_le [OF b]
  show "tunnel_le t t'" "m_Pool t' = m_Pool t" "m_State t' = m_State t" by (rule le)+
  show "good E s s'"
  proof (cases ot)
    case None
    then show ?thesis using assms(2) by (simp add: s')
  next
    case (Some a)
    then obtain x where x: "o' = Some x" "tunnel_le (outHeap s ! a) x" "m_Pool x = m_Pool (outHeap s ! a)"
      using le(4) by auto
    let ?s = "s\<lparr>world := g, events := events s @ map (\<lambda>(to, ms). Transport to ms) sent\<rparr>"
    have "good E ?s (upd_out a (\<lambda>_. x) ?s)"
      by (rule good_upd_out) (use assms(2,3) Some x in simp_all)
    then have "good E s (upd_out a (\<lambda>_. x) ?s)"
      by (rule good_trans [rotated]) (use assms(2) in simp)
    then show ?thesis by (simp add: s' Some x(1))
  qed
  show "inHeap s' = inHeap s" "poolHeap s' = poolHeap s" "length (outHeap s') = length (outHeap s)"
    by (auto simp: s' upd_out_def split: option.splits)
  show "outHeap s' ! a = outHeap s ! a" if "Some a \<noteq> ot" for a
  proof -
    have "(outHeap s)[b := x] ! a = outHeap s ! a" if "ot = Some b" for b x
      using \<open>Some a \<noteq> ot\<close> that by (metis nth_list_update_neq)
    then show ?thesis by (auto simp: s' upd_out_def split: option.splits)
  qed
qed

lemma pending_put_in:
  assumes "rinv E s" and "a < length (inHeap s)" and "a \<notin> snd ` set (m_PendingInboundTunnels s)"
  shows "good E s (AddPendingInboundTunnel k a s)"
  using assms by (auto simp: good_def grows_def rinv_def AddPendingInboundTunnel_def intro: pending_ok_put)

lemma pending_put_out:
  assumes "rinv E s" and "a < length (outHeap s)" and "a \<notin> snd ` set (m_PendingOutboundTunnels s)"
  shows "good E s (AddPendingOutboundTunnel k a s)"
  using assms by (auto simp: good_def grows_def rinv_def AddPendingOutboundTunnel_def intro: pending_ok_put)

lemma fresh_pending:
  "rinv E s \<Longrightarrow> length (inHeap s) \<notin> snd ` set (m_PendingInboundTunnels s)"
  "rinv E s \<Longrightarrow> length (outHeap s) \<notin> snd ` set (m_PendingOutboundTunnels s)"
  by (fastforce simp: rinv_def pending_ok_def)+

lemma fresh_member:
  "rinv E s \<Longrightarrow> p < length (poolHeap s) \<Longrightarrow> length (inHeap s) \<le> a \<Longrightarrow> a \<notin> set (pInboundTunnels (poolHeap s ! p))"
  "rinv E s \<Longrightarrow> p < length (poolHeap s) \<Longrightarrow> length (outHeap s) \<le> a \<Longrightarrow> a \<notin> set (pOutboundTunnels (poolHeap s ! p))"
  by (fastforce dest: member_pool_in member_pool_out)+

lemma CreateTunnel_In_good:
  assumes "CreateTunnel_In E c ot s = Some (a, s')" and "rinv E s" and "c \<noteq> []"
    and "\<And>b. ot = Some b \<Longrightarrow> b < length (outHeap s)"
  shows "good E s s'" and "a = length (inHeap s)" and "a < length (inHeap s')" and "m_Pool (inHeap s' ! a) = None"
    and "m_State (inHeap s' ! a) = eTunnelStatePending" and "poolHeap s' = poolHeap s"
proof -
  define t0 where "t0 = newInboundTunnel c (fst (seconds E (world s)))"
  obtain g1 g2 reply t s5 where a: "a = length (inHeap s)"
    and b: "build_tunnel E reply ot t0 (AddPendingInboundTunnel reply a (s\<lparr>inHeap := inHeap s @ [t0], world := g2\<rparr>)) = Some (t, s5)"
    and s': "s' = upd_in a (\<lambda>_. t) s5"
    using assms(1) by (auto simp: CreateTunnel_In_def t0_def Let_def ask_def case_prod_beta bind_eq_Some_conv
        AddPendingInboundTunnel_def nth_append)
  let ?s2 = "s\<lparr>inHeap := inHeap s @ [t0], world := g2\<rparr>"
  let ?s4 = "AddPendingInboundTunnel reply a ?s2"
  have t0: "m_Config t0 = c" "m_Pool t0 = None" "m_State t0 = eTunnelStatePending"
    by (simp_all add: t0_def newInboundTunnel_def)
  have "good E s (s\<lparr>inHeap := inHeap s @ [t0]\<rparr>)" by (rule good_new_in) (use assms t0 in simp_all)
  then have g2: "good E s ?s2" by simp
  have "good E ?s2 ?s4"
    by (rule pending_put_in) (use fresh_pending(1) [OF assms(2)] good_rinv [OF g2] in \<open>simp_all add: a\<close>)
  with g2 have g4: "good E s ?s4" by (rule good_trans)
  have heap4: "inHeap ?s4 = inHeap s @ [t0]" "poolHeap ?s4 = poolHeap s" by (simp_all add: AddPendingInboundTunnel_def)
  note bt = build_tunnel_good [OF b good_rinv [OF g4]]
  have ot: "\<And>b. ot = Some b \<Longrightarrow> b < length (outHeap ?s4)" using assms(4) by (simp add: AddPendingInboundTunnel_def)
  have g5: "good E s s5" by (rule good_trans [OF g4 bt(1)]) (rule ot)
  have in5: "inHeap s5 = inHeap s @ [t0]" using bt(5) [OF ot] heap4 by simp
  have t: "tunnel_le t0 t" "m_Pool t = m_Pool t0" "m_State t = m_State t0"
    using bt(2) [OF ot] bt(3) [OF ot] bt(4) [OF ot] by simp_all
  have "good E s5 s'" unfolding s'
    by (rule good_upd_in) (use t good_rinv [OF g5] in5 in \<open>simp_all add: a\<close>)
  with g5 show "good E s s'" by (rule good_trans)
  show "a = length (inHeap s)" by (rule a)
  show "a < length (inHeap s')" "m_Pool (inHeap s' ! a) = None" "m_State (inHeap s' ! a) = eTunnelStatePending"
    using t t0 by (simp_all add: s' upd_in_def in5 a)
  show "poolHeap s' = poolHeap s" using bt(6) [OF ot] heap4 by (simp add: s' upd_in_def)
qed

lemma CreateTunnel_Out_good:
  assumes "CreateTunnel_Out E c ot s = Some (a, s')" and "rinv E s" and "c \<noteq> []"
    and "\<And>b. ot = Some b \<Longrightarrow> b < length (outHeap s)"
  shows "good E s s'" and "a = length (outHeap s)" and "a < length (outHeap s')" and "m_Pool (outHeap s' ! a) = None"
    and "m_State (outHeap s' ! a) = eTunnelStatePending" and "poolHeap s' = poolHeap s"
proof -
  define t0 where "t0 = fst (newOutboundTunnel (gen E) c (fst (seconds E (world s))) (snd (seconds E (world s))))"
  have t0: "m_Config t0 = c" "m_Pool t0 = None" "m_State t0 = eTunnelStatePending"
    by (simp_all add: t0_def newOutboundTunnel_def case_prod_beta Let_def)
  obtain g2 reply t s5 where a: "a = length (outHeap s)"
    and b: "build_tunnel E reply ot t0 (AddPendingOutboundTunnel reply a (s\<lparr>outHeap := outHeap s @ [t0], world := g2\<rparr>)) = Some (t, s5)"
    and s': "s' = upd_out a (\<lambda>_. t) s5"
    using assms(1) by (auto simp: CreateTunnel_Out_def t0_def Let_def ask_def case_prod_beta bind_eq_Some_conv
        AddPendingOutboundTunnel_def nth_append)
  let ?s2 = "s\<lparr>outHeap := outHeap s @ [t0], world := g2\<rparr>"
  let ?s4 = "AddPendingOutboundTunnel reply a ?s2"
  have "good E s (s\<lparr>outHeap := outHeap s @ [t0]\<rparr>)" by (rule good_new_out) (use assms t0 in simp_all)
  then have g2: "good E s ?s2" by simp
  have "good E ?s2 ?s4"
    by (rule pending_put_out) (use fresh_pending(2) [OF assms(2)] good_rinv [OF g2] in \<open>simp_all add: a\<close>)
  with g2 have g4: "good E s ?s4" by (rule good_trans)
  have heap4: "outHeap ?s4 = outHeap s @ [t0]" "poolHeap ?s4 = poolHeap s" by (simp_all add: AddPendingOutboundTunnel_def)
  note bt = build_tunnel_good [OF b good_rinv [OF g4]]
  have ot: "\<And>b. ot = Some b \<Longrightarrow> b < length (outHeap ?s4)" using assms(4) heap4 by fastforce
  have g5: "good E s s5" by (rule good_trans [OF g4 bt(1)]) (rule ot)
  have ne: "Some a \<noteq> ot" using assms(4) a by fastforce
  have len5: "length (outHeap s5) = length (outHeap s) + 1" and at5: "outHeap s5 ! a = t0"
    using bt(7) [OF ot] bt(8) [OF ot ne] heap4 a by simp_all
  have t: "tunnel_le t0 t" "m_Pool t = m_Pool t0" "m_State t = m_State t0"
    using bt(2) [OF ot] bt(3) [OF ot] bt(4) [OF ot] by simp_all
  have "good E s5 s'" unfolding s'
    by (rule good_upd_out) (use t good_rinv [OF g5] at5 len5 a in simp_all)
  with g5 show "good E s s'" by (rule good_trans)
  show "a = length (outHeap s)" by (rule a)
  show "a < length (outHeap s')" "m_Pool (outHeap s' ! a) = None" "m_State (outHeap s' ! a) = eTunnelStatePending"
    using t t0 len5 a by (simp_all add: s' upd_out_def)
  show "poolHeap s' = poolHeap s" using bt(6) [OF ot] heap4 by (simp add: s' upd_out_def)
qed

lemma new_config_good:
  assumes "new_config E peers reply s = Some (c, s')"
  shows "\<exists>g. s' = s\<lparr>world := g\<rparr>" and "c \<noteq> []"
  using assms by (auto simp: new_config_def newTunnelConfig_def ask_def Let_def case_prod_beta bind_eq_Some_conv
      upd_last_def upd_first_def split: if_splits option.splits)

lemma invert_config_good:
  assumes "invert_config E c0 s = Some (c, s')"
  shows "\<exists>g. s' = s\<lparr>world := g\<rparr>" and "c \<noteq> []"
  using assms by (auto simp: invert_config_def Invert_def newTunnelConfig_def ask_def Let_def case_prod_beta bind_eq_Some_conv
      upd_last_def upd_first_def split: if_splits option.splits)

text \<open>The loop that picks a tunnel returns a usable one, and finds one when there is one.\<close>

lemma pick_tunnel_usable:
  "pick_tunnel usable ind i tunnel ts = Some t \<Longrightarrow> tunnel = Some t \<or> t \<in> set ts \<and> usable t"
  by (induction usable ind i tunnel ts rule: pick_tunnel.induct) (auto simp: Let_def split: if_splits)

lemma pick_tunnel_finds:
  "pick_tunnel usable ind i tunnel ts = None \<longleftrightarrow> tunnel = None \<and> (\<forall>t \<in> set ts. \<not> usable t)"
  by (induction usable ind i tunnel ts rule: pick_tunnel.induct) (auto simp: Let_def)

lemma Tunnels_GetNextOutboundTunnel_good:
  assumes "Tunnels_GetNextOutboundTunnel E s = (t, s')"
  shows "\<exists>g. s' = s\<lparr>world := g\<rparr>" and "t = Some a \<Longrightarrow> rinv E s \<Longrightarrow> a < length (outHeap s)"
  using assms by (auto simp: Tunnels_GetNextOutboundTunnel_def Let_def case_prod_beta ask_def rinv_def listed_ok_def
      dest!: pick_tunnel_usable)

lemma least_received_mem:
  "least_received s m best = Some a \<Longrightarrow> a \<in> snd ` set m \<or> (\<exists>n. best = Some (a, n))"
  by (induction s m best rule: least_received.induct) (auto simp: Let_def split: if_splits)

lemma Tunnels_GetNextInboundTunnel_good:
  "Tunnels_GetNextInboundTunnel s = Some a \<Longrightarrow> rinv E s \<Longrightarrow> a < length (inHeap s)"
  by (fastforce simp: Tunnels_GetNextInboundTunnel_def rinv_def inbound_ok_def listed_ok_def dest!: least_received_mem)

end
