(* ===== verification/Pool_Invariant.thy ===== *)
theory Pool_Invariant
  imports Router_Invariant
begin

text \<open>
The operations of tunnel pools keep the invariant: selection, creation, expiry and tests.
\<close>

section \<open>Pools\<close>

text \<open>Operations that only ask other components, tell them something, or count.\<close>

definition outside :: "'g rstate \<Rightarrow> 'g rstate \<Rightarrow> bool" where
  "outside s s' \<longleftrightarrow> (\<exists>g ev i j. s' = s\<lparr>world := g, events := ev, m_NumFailedTunnelCreations := i, m_NumSuccesiveTunnelCreations := j\<rparr>)"

lemma outsideI:
  "s' = s\<lparr>world := g, events := ev, m_NumFailedTunnelCreations := i, m_NumSuccesiveTunnelCreations := j\<rparr> \<Longrightarrow> outside s s'"
  unfolding outside_def by blast

lemma outside_refl [simp]: "outside s s"
  by (rule outsideI [where g = "world s" and ev = "events s" and i = "m_NumFailedTunnelCreations s" and j = "m_NumSuccesiveTunnelCreations s"]) simp

lemma outside_trans: "outside s s' \<Longrightarrow> outside s' s'' \<Longrightarrow> outside s s''"
  unfolding outside_def by force

lemma outside_world [simp]: "outside s (s\<lparr>world := g\<rparr>)"
  by (rule outsideI [where g = g and ev = "events s" and i = "m_NumFailedTunnelCreations s" and j = "m_NumSuccesiveTunnelCreations s"]) simp

lemma outside_emit: "outside s s' \<Longrightarrow> outside s (emit e s')"
  by (erule outside_trans, rule outsideI [where g = "world s'" and ev = "events s' @ [e]" and
        i = "m_NumFailedTunnelCreations s'" and j = "m_NumSuccesiveTunnelCreations s'"])
     (simp add: emit_def)

lemma outside_ask: "ask q s = (a, s') \<Longrightarrow> outside s s'"
  by (auto dest!: ask_world)

lemma outside_heaps:
  assumes "outside s s'"
  shows "inHeap s' = inHeap s" and "outHeap s' = outHeap s" and "poolHeap s' = poolHeap s" and "rinv E s' = rinv E s"
    and "m_InboundTunnels s' = m_InboundTunnels s" and "m_OutboundTunnels s' = m_OutboundTunnels s"
  using assms by (auto simp: outside_def)

lemma good_outside: "outside s s' \<Longrightarrow> rinv E s \<Longrightarrow> good E s s'"
  by (auto simp: outside_def)

lemma SelectNextHop_outside: "SelectNextHop E p h s = (r, s') \<Longrightarrow> outside s s'"
  by (auto simp: SelectNextHop_def Let_def ask_def case_prod_beta split: if_splits option.splits)

lemma select_hops_outside: "select_hops E p n h hops s = (r, s') \<Longrightarrow> outside s s'"
proof (induction n arbitrary: h hops s)
  case (Suc n)
  obtain r1 s1 where h: "SelectNextHop E p h s = (r1, s1)" by (cases "SelectNextHop E p h s")
  show ?case using Suc.prems Suc.IH SelectNextHop_outside [OF h]
    by (auto simp: h split: option.splits intro: outside_trans)
qed simp

lemma find_peers_outside: "find_peers E ids hops s = (r, s') \<Longrightarrow> outside s s'"
proof (induction ids arbitrary: hops s)
  case (Cons i ids)
  obtain r1 s1 where h: "ask (findRouter E i) s = (r1, s1)" by (cases "ask (findRouter E i) s")
  show ?case using Cons.prems Cons.IH outside_ask [OF h]
    by (auto simp: h split: option.splits intro: outside_trans outside_emit)
qed simp

lemma SelectPeers_outside:
  assumes "SelectPeers E p inb s = Some (r, s')"
  shows "outside s s'"
proof (cases "m_ExplicitPeers (poolHeap s ! p)")
  case (Some peers)
  obtain idxs s1 where 1: "ask (shuffle E (length peers)) s = (idxs, s1)" by (cases "ask (shuffle E (length peers)) s")
  have "outside s1 s'"
    using assms Some by (auto simp: SelectPeers_def SelectExplicitPeers_def 1 Let_def split: if_splits dest: find_peers_outside)
  with outside_ask [OF 1] show ?thesis by (rule outside_trans)
next
  case None
  obtain n s1 where 1: "ask (numPeers E) s = (n, s1)" by (cases "ask (numPeers E) s")
  obtain rp s2 where 2: "(if n > 25 then ask (randomPeer E) s1 else (None, s1)) = (rp, s2)" by fastforce
  obtain bad s3 where 3: "(case rp of None \<Rightarrow> (True, s2) | Some h \<Rightarrow> ask (isBad E h) s2) = (bad, s3)" by fastforce
  have "outside s s3"
    using outside_ask [OF 1] 2 3 by (auto split: if_splits option.splits dest!: outside_ask intro: outside_trans)
  moreover have "outside s3 s'"
    using assms None by (cases bad) (auto simp: SelectPeers_def 1 2 3 Let_def dest: select_hops_outside)
  ultimately show ?thesis by (rule outside_trans)
qed

lemma GetNextTunnel_good:
  assumes "GetNextTunnel E est ts ex s = (t, s')"
  shows "outside s s'" and "t = Some a \<Longrightarrow> ex = None \<Longrightarrow> a \<in> set ts \<and> est a"
  using assms by (auto simp: GetNextTunnel_def Let_def ask_def case_prod_beta split: if_splits option.splits dest!: pick_tunnel_usable)

lemma next_outbound_good:
  assumes "next_outbound E p s = (t, s')"
  shows "outside s s'" and "t = Some a \<Longrightarrow> rinv E s \<Longrightarrow> p < length (poolHeap s) \<Longrightarrow> a < length (outHeap s)"
proof -
  obtain t1 s1 where 1: "Pool_GetNextOutboundTunnel E p None s = (t1, s1)" by (cases "Pool_GetNextOutboundTunnel E p None s")
  have o1: "outside s s1" using 1 by (auto simp: Pool_GetNextOutboundTunnel_def dest: GetNextTunnel_good)
  show "outside s s'"
    using assms o1 by (auto simp: next_outbound_def 1 split: if_splits dest!: Tunnels_GetNextOutboundTunnel_good(1) intro: outside_trans)
  show "a < length (outHeap s)" if "t = Some a" "rinv E s" "p < length (poolHeap s)"
  proof (cases t1)
    case None
    then show ?thesis
      using assms that outside_heaps [OF o1] by (auto simp: next_outbound_def 1 dest: Tunnels_GetNextOutboundTunnel_good(2))
  next
    case (Some b)
    then show ?thesis
      using assms that 1 by (auto simp: next_outbound_def Pool_GetNextOutboundTunnel_def dest: GetNextTunnel_good(2) member_pool_out)
  qed
qed

lemma next_inbound_good:
  assumes "next_inbound E p s = (t, s')"
  shows "outside s s'" and "t = Some a \<Longrightarrow> rinv E s \<Longrightarrow> p < length (poolHeap s) \<Longrightarrow> a < length (inHeap s)"
proof -
  obtain t1 s1 where 1: "Pool_GetNextInboundTunnel E p None s = (t1, s1)" by (cases "Pool_GetNextInboundTunnel E p None s")
  have o1: "outside s s1" using 1 by (auto simp: Pool_GetNextInboundTunnel_def dest: GetNextTunnel_good)
  show "outside s s'" using assms o1 by (auto simp: next_inbound_def 1 split: if_splits)
  show "a < length (inHeap s)" if "t = Some a" "rinv E s" "p < length (poolHeap s)"
  proof (cases t1)
    case None
    then show ?thesis
      using assms that outside_heaps [OF o1] by (auto simp: next_inbound_def 1 dest: Tunnels_GetNextInboundTunnel_good)
  next
    case (Some b)
    then show ?thesis
      using assms that 1 by (auto simp: next_inbound_def Pool_GetNextInboundTunnel_def dest: GetNextTunnel_good(2) member_pool_in)
  qed
qed

lemma create_attach_in:
  assumes "CreateTunnel_In E c ot s = Some (a, s')" and "rinv E s" and "c \<noteq> []"
    and "\<And>b. ot = Some b \<Longrightarrow> b < length (outHeap s)" and "p < length (poolHeap s)"
  shows "good E s (upd_in a (SetTunnelPool (Some p)) s')"
proof -
  note c = CreateTunnel_In_good [OF assms(1-3)]
  have g: "good E s s'" by (rule c(1)) (rule assms(4))
  have "good E s' (upd_in a (SetTunnelPool (Some p)) s')"
  proof (rule good_upd_in [OF good_rinv [OF g]])
    show "a < length (inHeap s')" by (rule c(3)) (rule assms(4))
    have "a \<notin> set (pInboundTunnels (poolHeap s' ! q))" if "q < length (poolHeap s')" for q
      using fresh_member(1) [OF assms(2), of q a] that c(2,6) assms(4) by fastforce
    moreover have "poolHeap s' = poolHeap s" by (rule c(6)) (rule assms(4))
    ultimately show "m_Pool (SetTunnelPool (Some p) (inHeap s' ! a)) = m_Pool (inHeap s' ! a) \<or>
        (\<forall>pa. m_Pool (SetTunnelPool (Some p) (inHeap s' ! a)) = Some pa \<longrightarrow> pa < length (poolHeap s')) \<and>
        (\<forall>p < length (poolHeap s'). a \<notin> set (pInboundTunnels (poolHeap s' ! p)))"
      using assms(5) by (simp add: SetTunnelPool_def)
  qed simp
  with g show ?thesis by (rule good_trans)
qed

lemma create_attach_out:
  assumes "CreateTunnel_Out E c ot s = Some (a, s')" and "rinv E s" and "c \<noteq> []"
    and "\<And>b. ot = Some b \<Longrightarrow> b < length (outHeap s)" and "p < length (poolHeap s)"
  shows "good E s (upd_out a (SetTunnelPool (Some p)) s')"
proof -
  note c = CreateTunnel_Out_good [OF assms(1-3)]
  have g: "good E s s'" by (rule c(1)) (rule assms(4))
  have "good E s' (upd_out a (SetTunnelPool (Some p)) s')"
  proof (rule good_upd_out [OF good_rinv [OF g]])
    show "a < length (outHeap s')" by (rule c(3)) (rule assms(4))
    have "a \<notin> set (pOutboundTunnels (poolHeap s' ! q))" if "q < length (poolHeap s')" for q
      using fresh_member(2) [OF assms(2), of q a] that c(2,6) assms(4) by fastforce
    moreover have "poolHeap s' = poolHeap s" by (rule c(6)) (rule assms(4))
    ultimately show "m_Pool (SetTunnelPool (Some p) (outHeap s' ! a)) = m_Pool (outHeap s' ! a) \<or>
        (\<forall>pa. m_Pool (SetTunnelPool (Some p) (outHeap s' ! a)) = Some pa \<longrightarrow> pa < length (poolHeap s')) \<and>
        (\<forall>p < length (poolHeap s'). a \<notin> set (pOutboundTunnels (poolHeap s' ! p)))"
      using assms(5) by (simp add: SetTunnelPool_def)
  qed simp
  with g show ?thesis by (rule good_trans)
qed

lemma CreateInboundTunnel_good:
  assumes "CreateInboundTunnel E p s = Some s'" and "rinv E s" and "p < length (poolHeap s)"
  shows "good E s s'"
proof -
  obtain ot s1 where 1: "next_outbound E p s = (ot, s1)" by (cases "next_outbound E p s")
  note o1 = next_outbound_good [OF 1]
  obtain found hops s2 where 2: "SelectPeers E p True s1 = Some ((found, hops), s2)"
    and r: "if found then \<exists>c s3 a s4. new_config E (rev hops) None s2 = Some (c, s3) \<and>
        CreateTunnel_In E c ot s3 = Some (a, s4) \<and> s' = upd_in a (SetTunnelPool (Some p)) s4 else s' = s2"
    using assms(1) by (auto simp: CreateInboundTunnel_def 1 bind_eq_Some_conv split: if_splits)
  have o2: "outside s s2" by (rule outside_trans [OF o1(1) SelectPeers_outside [OF 2]])
  show ?thesis
  proof (cases found)
    case False
    then show ?thesis using r good_outside [OF o2 assms(2)] by simp
  next
    case True
    then obtain c s3 a s4 where 3: "new_config E (rev hops) None s2 = Some (c, s3)"
      and 4: "CreateTunnel_In E c ot s3 = Some (a, s4)" and s': "s' = upd_in a (SetTunnelPool (Some p)) s4"
      using r by auto
    have o3: "outside s s3" using new_config_good [OF 3] o2 by (auto intro: outside_trans)
    note h = outside_heaps [OF o3]
    have "good E s3 s'" unfolding s'
      by (rule create_attach_in [OF 4 _ new_config_good(2) [OF 3]]) (use assms(2,3) o1(2) h in auto)
    with good_outside [OF o3 assms(2)] show ?thesis by (rule good_trans)
  qed
qed

lemma RecreateInboundTunnel_good:
  assumes "RecreateInboundTunnel E p t s = Some s'" and "rinv E s" and "p < length (poolHeap s)"
  shows "good E s s'"
proof -
  obtain ot s1 where 1: "next_outbound E p s = (ot, s1)" by (cases "next_outbound E p s")
  note o1 = next_outbound_good [OF 1]
  obtain c s3 a s4 where 3: "new_config E (GetPeers (m_Config (inHeap s1 ! t))) None s1 = Some (c, s3)"
      and 4: "CreateTunnel_In E c ot s3 = Some (a, s4)" and s': "s' = upd_in a (SetTunnelPool (Some p)) s4"
    using assms(1) by (auto simp: RecreateInboundTunnel_def 1 bind_eq_Some_conv)
  have o3: "outside s s3" using new_config_good [OF 3] o1(1) by (auto intro: outside_trans)
  note h = outside_heaps [OF o3]
  have "good E s3 s'" unfolding s'
    by (rule create_attach_in [OF 4 _ new_config_good(2) [OF 3]]) (use assms(2,3) o1(2) h in auto)
  with good_outside [OF o3 assms(2)] show ?thesis by (rule good_trans)
qed

lemma CreateOutboundTunnel_good:
  assumes "CreateOutboundTunnel E p s = Some s'" and "rinv E s" and "p < length (poolHeap s)"
  shows "good E s s'"
proof -
  obtain it s1 where 1: "next_inbound E p s = (it, s1)" by (cases "next_inbound E p s")
  note o1 = next_inbound_good(1) [OF 1]
  show ?thesis
  proof (cases it)
    case None
    then show ?thesis using assms good_outside [OF o1] by (auto simp: CreateOutboundTunnel_def 1)
  next
    case (Some b)
    obtain found hops s2 where 2: "SelectPeers E p False s1 = Some ((found, hops), s2)"
      and r: "if found then \<exists>c s3 a s4. new_config E hops (Some (m_Config (inHeap s2 ! b))) s2 = Some (c, s3) \<and>
          CreateTunnel_Out E c None s3 = Some (a, s4) \<and> s' = upd_out a (SetTunnelPool (Some p)) s4 else s' = s2"
      using assms(1) by (auto simp: CreateOutboundTunnel_def 1 Some bind_eq_Some_conv split: if_splits)
    have o2: "outside s s2" by (rule outside_trans [OF o1 SelectPeers_outside [OF 2]])
    show ?thesis
    proof (cases found)
      case False
      then show ?thesis using r good_outside [OF o2 assms(2)] by simp
    next
      case True
      then obtain c s3 a s4 where 3: "new_config E hops (Some (m_Config (inHeap s2 ! b))) s2 = Some (c, s3)"
        and 4: "CreateTunnel_Out E c None s3 = Some (a, s4)" and s': "s' = upd_out a (SetTunnelPool (Some p)) s4"
        using r by auto
      have o3: "outside s s3" using new_config_good [OF 3] o2 by (auto intro: outside_trans)
      have "good E s3 s'" unfolding s'
        by (rule create_attach_out [OF 4 _ new_config_good(2) [OF 3]]) (use assms(2,3) outside_heaps [OF o3] in auto)
      with good_outside [OF o3 assms(2)] show ?thesis by (rule good_trans)
    qed
  qed
qed

lemma RecreateOutboundTunnel_good:
  assumes "RecreateOutboundTunnel E p t s = Some s'" and "rinv E s" and "p < length (poolHeap s)"
  shows "good E s s'"
proof -
  obtain it s1 where 1: "next_inbound E p s = (it, s1)" by (cases "next_inbound E p s")
  note o1 = next_inbound_good(1) [OF 1]
  show ?thesis
  proof (cases it)
    case None
    then show ?thesis using assms good_outside [OF o1] by (auto simp: RecreateOutboundTunnel_def 1)
  next
    case (Some b)
    obtain c s3 a s4 where 3: "new_config E (GetPeers (m_Config (outHeap s1 ! t))) (Some (m_Config (inHeap s1 ! b))) s1 = Some (c, s3)"
        and 4: "CreateTunnel_Out E c None s3 = Some (a, s4)" and s': "s' = upd_out a (SetTunnelPool (Some p)) s4"
      using assms(1) by (auto simp: RecreateOutboundTunnel_def 1 Some bind_eq_Some_conv)
    have o3: "outside s s3" using new_config_good [OF 3] o1 by (auto intro: outside_trans)
    have "good E s3 s'" unfolding s'
      by (rule create_attach_out [OF 4 _ new_config_good(2) [OF 3]]) (use assms(2,3) outside_heaps [OF o3] in auto)
    with good_outside [OF o3 assms(2)] show ?thesis by (rule good_trans)
  qed
qed

lemma CreatePairedInboundTunnel_good:
  assumes "CreatePairedInboundTunnel E p ot s = Some s'" and "rinv E s" and "p < length (poolHeap s)" and "ot < length (outHeap s)"
  shows "good E s s'"
proof -
  obtain c s3 a s4 where 3: "invert_config E (m_Config (outHeap s ! ot)) s = Some (c, s3)"
      and 4: "CreateTunnel_In E c (Some ot) s3 = Some (a, s4)" and s': "s' = upd_in a (SetTunnelPool (Some p)) s4"
    using assms(1) by (auto simp: CreatePairedInboundTunnel_def bind_eq_Some_conv)
  have o3: "outside s s3" using invert_config_good [OF 3] by auto
  have "good E s3 s'" unfolding s'
    by (rule create_attach_in [OF 4 _ invert_config_good(2) [OF 3]]) (use assms(2-4) outside_heaps [OF o3] in auto)
  with good_outside [OF o3 assms(2)] show ?thesis by (rule good_trans)
qed

lemma good_pools: "good E s s' \<Longrightarrow> p < length (poolHeap s) \<Longrightarrow> p < length (poolHeap s')"
  by (simp add: good_def grows_def)

lemma repeat_op_good:
  assumes "repeat_op n f s = Some s'" and "rinv E s" and "p < length (poolHeap s)"
    and "\<And>s s'. f s = Some s' \<Longrightarrow> rinv E s \<Longrightarrow> p < length (poolHeap s) \<Longrightarrow> good E s s'"
  shows "good E s s'"
  using assms(1-3)
proof (induction n arbitrary: s)
  case (Suc n)
  then obtain s1 where 1: "f s = Some s1" "repeat_op n f s1 = Some s'" by (auto simp: bind_eq_Some_conv)
  have g: "good E s s1" by (rule assms(4) [OF 1(1) Suc.prems(2,3)])
  then show ?case using Suc.IH [OF 1(2) good_rinv [OF g] good_pools [OF g Suc.prems(3)]] by (rule good_trans)
qed simp

lemma CreateTunnels_good:
  assumes "CreateTunnels E p s = Some s'" and "rinv E s" and "p < length (poolHeap s)"
  shows "good E s s'"
proof -
  obtain n m s1 where 1: "repeat_op n (CreateInboundTunnel E p) s = Some s1"
    and 2: "repeat_op m (CreateOutboundTunnel E p) s1 = Some s'"
    using assms(1) by (auto simp: CreateTunnels_def bind_eq_Some_conv Let_def)
  have g: "good E s s1" by (rule repeat_op_good [OF 1 assms(2,3)]) (rule CreateInboundTunnel_good)
  have "good E s1 s'"
    by (rule repeat_op_good [OF 2 good_rinv [OF g] good_pools [OF g assms(3)]]) (rule CreateOutboundTunnel_good)
  with g show ?thesis by (rule good_trans)
qed

lemma TunnelCreated_In_good:
  assumes "ptr_order E" and "rinv E s" and "p < length (poolHeap s)" and "a < length (inHeap s)"
    and "built (inHeap s ! a)" and "m_Pool (inHeap s ! a) = Some p"
  shows "good E s (TunnelCreated_In E p a s)"
proof -
  have "good E s (upd_pool p (\<lambda>pl. pl\<lparr>pInboundTunnels :=
      set_insert (TunnelCreationTimeCmp E (inHeap s)) a (pInboundTunnels pl)\<rparr>) s)"
    by (rule good_upd_pool) (use assms rinv_pool [OF assms(2,3)] in \<open>simp_all add: members_ok_insert\<close>)
  then show ?thesis using assms(2) by (auto simp: TunnelCreated_In_def Let_def split: option.splits)
qed

lemma TunnelCreated_Out_good:
  assumes "ptr_order E" and "rinv E s" and "p < length (poolHeap s)" and "a < length (outHeap s)"
    and "built (outHeap s ! a)" and "m_Pool (outHeap s ! a) = Some p"
  shows "good E s (TunnelCreated_Out E p a s)"
proof -
  have "good E s (upd_pool p (\<lambda>pl. pl\<lparr>pOutboundTunnels :=
      set_insert (TunnelCreationTimeCmp E (outHeap s)) a (pOutboundTunnels pl)\<rparr>) s)"
    by (rule good_upd_pool) (use assms rinv_pool [OF assms(2,3)] in \<open>simp_all add: members_ok_insert\<close>)
  then show ?thesis using assms(2) by (simp add: TunnelCreated_Out_def)
qed

text \<open>Taking a tunnel out of the set of its pool.\<close>

definition erase_in :: "'g renv \<Rightarrow> nat \<Rightarrow> nat \<Rightarrow> 'g rstate \<Rightarrow> 'g rstate" where
  "erase_in E p a s = upd_pool p (\<lambda>pl. pl\<lparr>pInboundTunnels :=
     set_erase (TunnelCreationTimeCmp E (inHeap s)) a (pInboundTunnels pl)\<rparr>) s"

definition erase_out :: "'g renv \<Rightarrow> nat \<Rightarrow> nat \<Rightarrow> 'g rstate \<Rightarrow> 'g rstate" where
  "erase_out E p a s = upd_pool p (\<lambda>pl. pl\<lparr>pOutboundTunnels :=
     set_erase (TunnelCreationTimeCmp E (outHeap s)) a (pOutboundTunnels pl)\<rparr>) s"

lemma erase_in_good:
  assumes "rinv E s" and "p < length (poolHeap s)"
  shows "good E s (erase_in E p a s)"
  unfolding erase_in_def by (rule good_upd_pool) (use assms rinv_pool [OF assms] in \<open>simp_all add: members_ok_erase\<close>)

lemma erase_out_good:
  assumes "rinv E s" and "p < length (poolHeap s)"
  shows "good E s (erase_out E p a s)"
  unfolding erase_out_def by (rule good_upd_pool) (use assms rinv_pool [OF assms] in \<open>simp_all add: members_ok_erase\<close>)

lemma erase_in_gone:
  assumes "ptr_order E" and "rinv E s" and "a < length (inHeap s)" and "m_Pool (inHeap s ! a) = Some p"
    and "q < length (poolHeap s)"
  shows "a \<notin> set (pInboundTunnels (poolHeap (erase_in E p a s) ! q))"
proof (cases "q = p")
  case True
  then show ?thesis using assms(5) by (simp add: erase_in_def upd_pool_def erase_self [OF assms(1)])
next
  case False
  then show ?thesis using member_pool_in(1) [OF assms(2,5)] assms(4) by (auto simp: erase_in_def upd_pool_def)
qed

lemma erase_out_gone:
  assumes "ptr_order E" and "rinv E s" and "a < length (outHeap s)" and "m_Pool (outHeap s ! a) = Some p"
    and "q < length (poolHeap s)"
  shows "a \<notin> set (pOutboundTunnels (poolHeap (erase_out E p a s) ! q))"
proof (cases "q = p")
  case True
  then show ?thesis using assms(5) by (simp add: erase_out_def upd_pool_def erase_self [OF assms(1)])
next
  case False
  then show ?thesis using member_pool_out(1) [OF assms(2,5)] assms(4) by (auto simp: erase_out_def upd_pool_def)
qed

lemma Cmp_SetTunnelPool: "TunnelCreationTimeCmp E (h[a := SetTunnelPool q (h ! a)]) = TunnelCreationTimeCmp E h"
proof -
  have "m_CreationTime (h[a := SetTunnelPool q (h ! a)] ! b) = m_CreationTime (h ! b)" for b
    by (cases "a < length h"; cases "b = a") (simp_all add: not_less list_update_beyond)
  then show ?thesis by (simp add: TunnelCreationTimeCmp_def fun_eq_iff)
qed

lemma TunnelExpired_In_alt:
  "TunnelExpired_In E p a s = upd_in a (SetTunnelPool None) (erase_in E p a s)"
  by (simp add: TunnelExpired_In_def erase_in_def upd_in_def upd_pool_def Cmp_SetTunnelPool)

lemma TunnelExpired_Out_alt:
  "TunnelExpired_Out E p a s = upd_out a (SetTunnelPool None) (erase_out E p a s)"
  by (simp add: TunnelExpired_Out_def erase_out_def upd_out_def upd_pool_def Cmp_SetTunnelPool)

lemma TunnelExpired_In_good:
  assumes "ptr_order E" and "rinv E s" and "a < length (inHeap s)" and "m_Pool (inHeap s ! a) = Some p"
  shows "good E s (TunnelExpired_In E p a s)"
proof -
  have g: "good E s (erase_in E p a s)" by (rule erase_in_good [OF assms(2) tunnel_pool_in [OF assms(2-4)]])
  have h: "inHeap (erase_in E p a s) = inHeap s" "length (poolHeap (erase_in E p a s)) = length (poolHeap s)"
    by (simp_all add: erase_in_def upd_pool_def)
  have "good E (erase_in E p a s) (TunnelExpired_In E p a s)" unfolding TunnelExpired_In_alt
    by (rule good_upd_in [OF good_rinv [OF g]]) (use assms erase_in_gone [OF assms] h in auto)
  with g show ?thesis by (rule good_trans)
qed

lemma TunnelExpired_Out_good:
  assumes "ptr_order E" and "rinv E s" and "a < length (outHeap s)" and "m_Pool (outHeap s ! a) = Some p"
  shows "good E s (TunnelExpired_Out E p a s)"
proof -
  have g: "good E s (erase_out E p a s)" by (rule erase_out_good [OF assms(2) tunnel_pool_out [OF assms(2-4)]])
  have h: "outHeap (erase_out E p a s) = outHeap s" "length (poolHeap (erase_out E p a s)) = length (poolHeap s)"
    by (simp_all add: erase_out_def upd_pool_def)
  have "good E (erase_out E p a s) (TunnelExpired_Out E p a s)" unfolding TunnelExpired_Out_alt
    by (rule good_upd_out [OF good_rinv [OF g]]) (use assms erase_out_gone [OF assms] h in auto)
  with g show ?thesis by (rule good_trans)
qed

text \<open>Stopping a pool: its sets are emptied and its tunnels forget it.\<close>

lemma detach_in_good:
  assumes "rinv E s" and "\<And>a. a \<in> set as \<Longrightarrow> a < length (inHeap s) \<and> (\<forall>q < length (poolHeap s). a \<notin> set (pInboundTunnels (poolHeap s ! q)))"
  shows "good E s (fold (\<lambda>a. upd_in a (SetTunnelPool None)) as s)"
  using assms
proof (induction as arbitrary: s)
  case (Cons a as)
  have g: "good E s (upd_in a (SetTunnelPool None) s)"
    by (rule good_upd_in [OF Cons.prems(1)]) (use Cons.prems(2) [of a] in auto)
  have "good E (upd_in a (SetTunnelPool None) s) (fold (\<lambda>a. upd_in a (SetTunnelPool None)) as (upd_in a (SetTunnelPool None) s))"
    by (rule Cons.IH [OF good_rinv [OF g]]) (use Cons.prems(2) in \<open>simp add: upd_in_def\<close>)
  with g show ?case by (simp add: good_trans)
qed simp

lemma detach_out_good:
  assumes "rinv E s" and "\<And>a. a \<in> set as \<Longrightarrow> a < length (outHeap s) \<and> (\<forall>q < length (poolHeap s). a \<notin> set (pOutboundTunnels (poolHeap s ! q)))"
  shows "good E s (fold (\<lambda>a. upd_out a (SetTunnelPool None)) as s)"
  using assms
proof (induction as arbitrary: s)
  case (Cons a as)
  have g: "good E s (upd_out a (SetTunnelPool None) s)"
    by (rule good_upd_out [OF Cons.prems(1)]) (use Cons.prems(2) [of a] in auto)
  have "good E (upd_out a (SetTunnelPool None) s) (fold (\<lambda>a. upd_out a (SetTunnelPool None)) as (upd_out a (SetTunnelPool None) s))"
    by (rule Cons.IH [OF good_rinv [OF g]]) (use Cons.prems(2) in \<open>simp add: upd_out_def\<close>)
  with g show ?case by (simp add: good_trans)
qed simp

lemma upd_in_pool: "upd_in a f (upd_pool p g s) = upd_pool p g (upd_in a f s)"
  by (simp add: upd_in_def upd_pool_def)

lemma fold_upd_in_pool:
  "fold (\<lambda>a. upd_in a f) as (upd_pool p g s) = upd_pool p g (fold (\<lambda>a. upd_in a f) as s)"
  by (induction as arbitrary: s) (simp_all add: upd_in_pool)

lemma fold_upd_in_frame:
  "poolHeap (fold (\<lambda>a. upd_in a f) as s) = poolHeap s" "outHeap (fold (\<lambda>a. upd_in a f) as s) = outHeap s"
  by (induction as arbitrary: s) (simp_all add: upd_in_def)

lemma upd_out_pool: "upd_out a f (upd_pool p g s) = upd_pool p g (upd_out a f s)"
  by (simp add: upd_out_def upd_pool_def)

lemma fold_upd_out_pool:
  "fold (\<lambda>a. upd_out a f) as (upd_pool p g s) = upd_pool p g (fold (\<lambda>a. upd_out a f) as s)"
  by (induction as arbitrary: s) (simp_all add: upd_out_pool)

lemma clear_in_good:
  assumes "rinv E s" and "p < length (poolHeap s)"
  shows "good E s (fold (\<lambda>a. upd_in a (SetTunnelPool None)) (pInboundTunnels (poolHeap s ! p))
           (upd_pool p (\<lambda>pl. pl\<lparr>pInboundTunnels := []\<rparr>) s))"
proof -
  let ?s = "upd_pool p (\<lambda>pl. pl\<lparr>pInboundTunnels := []\<rparr>) s"
  have g: "good E s ?s"
    by (rule good_upd_pool [OF assms(1)]) (use rinv_pool [OF assms] in \<open>simp_all add: members_ok_def\<close>)
  have gone: "a \<notin> set (pInboundTunnels (poolHeap ?s ! q))"
    if "q < length (poolHeap s)" "a \<in> set (pInboundTunnels (poolHeap s ! p))" for a q
  proof (cases "q = p")
    case False
    then have "poolHeap ?s ! q = poolHeap s ! q" by (simp add: upd_pool_def)
    then show ?thesis using member_pool_in(1) [OF assms(1) that(1), of a] member_pool_in(1) [OF assms that(2)] False by auto
  qed (use assms(2) in \<open>simp add: upd_pool_def\<close>)
  have "good E ?s (fold (\<lambda>a. upd_in a (SetTunnelPool None)) (pInboundTunnels (poolHeap s ! p)) ?s)"
    by (rule detach_in_good [OF good_rinv [OF g]])
       (use gone member_pool_in(2) [OF assms] in \<open>simp add: upd_pool_def\<close>)
  with g show ?thesis by (rule good_trans)
qed

lemma clear_out_good:
  assumes "rinv E s" and "p < length (poolHeap s)"
  shows "good E s (fold (\<lambda>a. upd_out a (SetTunnelPool None)) (pOutboundTunnels (poolHeap s ! p))
           (upd_pool p (\<lambda>pl. pl\<lparr>pOutboundTunnels := []\<rparr>) s))"
proof -
  let ?s = "upd_pool p (\<lambda>pl. pl\<lparr>pOutboundTunnels := []\<rparr>) s"
  have g: "good E s ?s"
    by (rule good_upd_pool [OF assms(1)]) (use rinv_pool [OF assms] in \<open>simp_all add: members_ok_def\<close>)
  have gone: "a \<notin> set (pOutboundTunnels (poolHeap ?s ! q))"
    if "q < length (poolHeap s)" "a \<in> set (pOutboundTunnels (poolHeap s ! p))" for a q
  proof (cases "q = p")
    case False
    then have "poolHeap ?s ! q = poolHeap s ! q" by (simp add: upd_pool_def)
    then show ?thesis using member_pool_out(1) [OF assms(1) that(1), of a] member_pool_out(1) [OF assms that(2)] False by auto
  qed (use assms(2) in \<open>simp add: upd_pool_def\<close>)
  have "good E ?s (fold (\<lambda>a. upd_out a (SetTunnelPool None)) (pOutboundTunnels (poolHeap s ! p)) ?s)"
    by (rule detach_out_good [OF good_rinv [OF g]])
       (use gone member_pool_out(2) [OF assms] in \<open>simp add: upd_pool_def\<close>)
  with g show ?thesis by (rule good_trans)
qed

lemma clear_tests_good:
  assumes "rinv E s" and "p < length (poolHeap s)"
  shows "good E s (upd_pool p (\<lambda>pl. pl\<lparr>m_Tests := []\<rparr>) s)"
  by (rule good_upd_pool [OF assms(1)]) (use rinv_pool [OF assms] in \<open>simp_all add: tests_ok_def\<close>)

lemma DetachTunnels_good:
  assumes "rinv E s" and p: "p < length (poolHeap s)"
  shows "good E s (DetachTunnels p s)"
proof -
  let ?s1 = "fold (\<lambda>a. upd_in a (SetTunnelPool None)) (pInboundTunnels (poolHeap s ! p)) (upd_pool p (\<lambda>pl. pl\<lparr>pInboundTunnels := []\<rparr>) s)"
  let ?s2 = "fold (\<lambda>a. upd_out a (SetTunnelPool None)) (pOutboundTunnels (poolHeap ?s1 ! p)) (upd_pool p (\<lambda>pl. pl\<lparr>pOutboundTunnels := []\<rparr>) ?s1)"
  have g1: "good E s ?s1" by (rule clear_in_good [OF assms])
  have g2: "good E ?s1 ?s2" by (rule clear_out_good [OF good_rinv [OF g1] good_pools [OF g1 p]])
  have g: "good E s ?s2" by (rule good_trans [OF g1 g2])
  have "good E ?s2 (upd_pool p (\<lambda>pl. pl\<lparr>m_Tests := []\<rparr>) ?s2)"
    by (rule clear_tests_good [OF good_rinv [OF g] good_pools [OF g p]])
  moreover have "DetachTunnels p s = upd_pool p (\<lambda>pl. pl\<lparr>m_Tests := []\<rparr>) ?s2"
    by (simp add: DetachTunnels_def Let_def fold_upd_in_pool fold_upd_out_pool)
  ultimately show ?thesis using good_trans [OF g] by simp
qed

section \<open>Tests of tunnels\<close>

lemma fail_out_good:
  assumes "ptr_order E" and "rinv E s" and "p < length (poolHeap s)" and "listed_ok (outHeap s) [a]"
  shows "good E s (fail_out E p a s)"
proof -
  have a: "a < length (outHeap s)" "built (outHeap s ! a)" using assms(4) by simp_all
  show ?thesis
  proof (cases "m_State (outHeap s ! a) = eTunnelStateTestFailed")
    case True
    have g: "good E s (upd_out a (SetState eTunnelStateFailed) s)"
      by (rule good_SetState_out [OF assms(2) a(1)]) (simp add: True evolves_def)
    have "good E (upd_out a (SetState eTunnelStateFailed) s) (fail_out E p a s)"
      unfolding fail_out_def using True erase_out_good [OF good_rinv [OF g] good_pools [OF g assms(3)]]
      by (simp add: erase_out_def Let_def)
    with g show ?thesis by (rule good_trans)
  next
    case False
    then show ?thesis unfolding fail_out_def
      using good_SetState_out [OF assms(2) a(1) built_evolves [OF a(2)], of eTunnelStateTestFailed] by simp
  qed
qed

lemma fail_in_good:
  assumes "ptr_order E" and "rinv E s" and "p < length (poolHeap s)" and "listed_ok (inHeap s) [a]"
  shows "good E s (fail_in E p a s)"
proof -
  have a: "a < length (inHeap s)" "built (inHeap s ! a)" using assms(4) by simp_all
  show ?thesis
  proof (cases "m_State (inHeap s ! a) = eTunnelStateTestFailed")
    case True
    have g: "good E s (upd_in a (SetState eTunnelStateFailed) s)"
      by (rule good_SetState_in [OF assms(2) a(1)]) (simp add: True evolves_def)
    have "good E (upd_in a (SetState eTunnelStateFailed) s) (fail_in E p a s)"
      unfolding fail_in_def using True erase_in_good [OF good_rinv [OF g] good_pools [OF g assms(3)]]
      by (simp add: erase_in_def Let_def split: option.splits)
    with g show ?thesis by (rule good_trans)
  next
    case False
    then show ?thesis unfolding fail_in_def
      using good_SetState_in [OF assms(2) a(1) built_evolves [OF a(2)], of eTunnelStateTestFailed] by simp
  qed
qed

lemma good_listed:
  "good E s s' \<Longrightarrow> listed_ok (outHeap s) as \<Longrightarrow> listed_ok (outHeap s') as"
  "good E s s' \<Longrightarrow> listed_ok (inHeap s) as \<Longrightarrow> listed_ok (inHeap s') as"
  by (auto simp: good_def grows_def intro: listed_ok_le)

lemma fail_tests_good:
  assumes "ptr_order E" and "rinv E s" and "p < length (poolHeap s)" and "tests_ok (outHeap s) (inHeap s) ts"
  shows "good E s (fail_tests E p ts s)"
  using assms(2-)
proof (induction ts arbitrary: s)
  case (Cons e ts)
  obtain k a b where e: "e = (k, (Some a, Some b))" "listed_ok (outHeap s) [a]" "listed_ok (inHeap s) [b]"
    using Cons.prems(3) by (auto simp: tests_ok_def)
  have g1: "good E s (fail_out E p a s)" by (rule fail_out_good [OF assms(1) Cons.prems(1,2) e(2)])
  have g2: "good E (fail_out E p a s) (fail_in E p b (fail_out E p a s))"
    by (rule fail_in_good [OF assms(1) good_rinv [OF g1] good_pools [OF g1 Cons.prems(2)] good_listed(2) [OF g1 e(3)]])
  have g: "good E s (fail_in E p b (fail_out E p a s))" by (rule good_trans [OF g1 g2])
  have "tests_ok (outHeap s) (inHeap s) ts" using Cons.prems(3) by (auto simp: tests_ok_def smap_ok_def)
  then have ts: "tests_ok (outHeap (fail_in E p b (fail_out E p a s))) (inHeap (fail_in E p b (fail_out E p a s))) ts"
    by (rule tests_ok_le) (use g in \<open>simp_all add: good_def grows_def\<close>)
  show ?case using good_trans [OF g Cons.IH [OF good_rinv [OF g] good_pools [OF g Cons.prems(2)] ts]] by (simp add: e(1))
qed simp

lemma send_out_good:
  assumes "send_out E a h i m s = Some s'" and "rinv E s" and "a < length (outHeap s)"
  shows "good E s s'"
proof -
  obtain sent ot g where 1: "OutboundTunnel_SendTunnelDataMsg (gen E) (raes E) h i (Some m) (outHeap s ! a, world s) = Some (sent, ot, g)"
    and s': "s' = emit (Transport (GetNextIdentHash ot) sent) (upd_out a (\<lambda>_. ot) (s\<lparr>world := g\<rparr>))"
    using assms(1) by (auto simp: send_out_def bind_eq_Some_conv)
  have "good E (s\<lparr>world := g\<rparr>) (upd_out a (\<lambda>_. ot) (s\<lparr>world := g\<rparr>))"
    by (rule good_upd_out) (use assms SendTunnelDataMsg_le [OF 1] in simp_all)
  then show ?thesis using assms(2) good_trans [of E s "s\<lparr>world := g\<rparr>"] by (simp add: s')
qed

lemma start_test_good:
  assumes "start_test E p ot it s = Some s'" and "rinv E s" and "p < length (poolHeap s)"
    and "listed_ok (outHeap s) [ot]" and "listed_ok (inHeap s) [it]"
  shows "good E s s'"
proof -
  obtain msgID g1 m g h i where 2: "send_out E ot h i m
      ((upd_pool p (\<lambda>pl. pl\<lparr>m_Tests := map_put msgID (Some ot, Some it) (m_Tests pl)\<rparr>) (s\<lparr>world := g1\<rparr>))\<lparr>world := g\<rparr>) = Some s'"
    using assms(1) by (auto simp: start_test_def Let_def ask_def case_prod_beta bind_eq_Some_conv)
  let ?s = "upd_pool p (\<lambda>pl. pl\<lparr>m_Tests := map_put msgID (Some ot, Some it) (m_Tests pl)\<rparr>) (s\<lparr>world := g1\<rparr>)"
  have t: "tests_ok (outHeap s) (inHeap s) (map_put msgID (Some ot, Some it) (m_Tests (poolHeap s ! p)))"
    using rinv_pool(3) [OF assms(2,3)] assms(4,5) by (auto simp: tests_ok_def smap_ok_put set_map_put)
  have "good E (s\<lparr>world := g1\<rparr>) ?s"
    by (rule good_upd_pool) (use assms(2,3) rinv_pool [OF assms(2,3)] t in simp_all)
  then have g: "good E s (?s\<lparr>world := g\<rparr>)" using assms(2) good_trans [of E s "s\<lparr>world := g1\<rparr>"] by simp
  have "ot < length (outHeap (?s\<lparr>world := g\<rparr>))" using assms(4) by (simp add: upd_pool_def)
  from good_trans [OF g send_out_good [OF 2 good_rinv [OF g] this]] show ?thesis .
qed

lemma new_tests_good:
  assumes "new_tests E p ots its s = Some s'" and "rinv E s" and "p < length (poolHeap s)"
    and "listed_ok (outHeap s) ots" and "listed_ok (inHeap s) its"
  shows "good E s s'"
  using assms
proof (induction E p ots its s rule: new_tests.induct)
  case (1 E p ot ots it its s)
  show ?case
  proof (cases "IsFailed (outHeap s ! ot) \<or> IsFailed (inHeap s ! it)")
    case True
    then show ?thesis using 1 by (auto split: if_splits)
  next
    case False
    then obtain s1 where s1: "start_test E p ot it s = Some s1" "new_tests E p ots its s1 = Some s'"
      using "1.prems"(1) by (auto simp: bind_eq_Some_conv)
    have g: "good E s s1" by (rule start_test_good [OF s1(1) "1.prems"(2,3)]) (use "1.prems" in simp_all)
    have "good E s1 s'"
      by (rule "1.IH"(4)) (use False s1 g "1.prems" in \<open>auto intro: good_rinv good_pools good_listed\<close>)
    with g show ?thesis by (rule good_trans)
  qed
qed simp_all

lemma TestTunnels_good:
  assumes "ptr_order E" and "TestTunnels E p s = Some s'" and "rinv E s" and p: "p < length (poolHeap s)"
  shows "good E s s'"
proof -
  let ?s = "fail_tests E p (m_Tests (poolHeap s ! p)) s"
  let ?s1 = "upd_pool p (\<lambda>pl. pl\<lparr>m_Tests := []\<rparr>) ?s"
  have g0: "good E s ?s" by (rule fail_tests_good [OF assms(1,3) p rinv_pool(3) [OF assms(3) p]])
  have g: "good E s ?s1"
    by (rule good_trans [OF g0 clear_tests_good [OF good_rinv [OF g0] good_pools [OF g0 p]]])
  have nt: "new_tests E p (pOutboundTunnels (poolHeap ?s1 ! p)) (pInboundTunnels (poolHeap ?s1 ! p)) ?s1 = Some s'"
    using assms(2) by (simp add: TestTunnels_def Let_def)
  note r = good_rinv [OF g] good_pools [OF g p]
  have "good E ?s1 s'"
    by (rule new_tests_good [OF nt r]) (use rinv_pool [OF r] in \<open>simp_all add: members_ok_def\<close>)
  with g show ?thesis by (rule good_trans)
qed

lemma ProcessGarlicMessage_good: "rinv E s \<Longrightarrow> good E s (ProcessGarlicMessage p m s)"
  by (simp add: ProcessGarlicMessage_def split: option.splits)

lemma restore_out_good: "rinv E s \<Longrightarrow> a < length (outHeap s) \<Longrightarrow> good E s (restore_out a s)"
  unfolding restore_out_def by (auto intro: good_SetState_out simp: evolves_def)

lemma restore_in_good: "rinv E s \<Longrightarrow> a < length (inHeap s) \<Longrightarrow> good E s (restore_in a s)"
  unfolding restore_in_def by (auto intro: good_SetState_in simp: evolves_def)

lemma ProcessDeliveryStatus_good:
  assumes "ProcessDeliveryStatus p m s = Some s'" and "rinv E s" and p: "p < length (poolHeap s)"
  shows "good E s s'"
proof -
  obtain msgID ts where ids: "bufbe32toh (GetPayload m) (mbuf m) = Some msgID" "bufbe64toh (GetPayload m + 4) (mbuf m) = Some ts"
    using assms(1) by (auto simp: ProcessDeliveryStatus_def bind_eq_Some_conv)
  show ?thesis
  proof (cases "map_find msgID (m_Tests (poolHeap s ! p))")
    case None
    then show ?thesis using assms by (auto simp: ProcessDeliveryStatus_def ids split: option.splits)
  next
    case (Some e)
    then obtain a b where e: "e = (Some a, Some b)" "a < length (outHeap s)" "b < length (inHeap s)"
      using rinv_pool(3) [OF assms(2) p] map_find_mem [OF Some] by (fastforce simp: tests_ok_def)
    let ?s = "restore_in b (restore_out a s)"
    have g1: "good E s (restore_out a s)" by (rule restore_out_good [OF assms(2) e(2)])
    have "good E (restore_out a s) ?s"
      by (rule restore_in_good [OF good_rinv [OF g1]]) (use e(3) in \<open>simp add: restore_out_def upd_out_def\<close>)
    with g1 have g: "good E s ?s" by (rule good_trans)
    note r = good_rinv [OF g] good_pools [OF g p]
    have "tests_ok (outHeap ?s) (inHeap ?s) (map_erase msgID (m_Tests (poolHeap ?s ! p)))"
      using rinv_pool(3) [OF r] by (auto simp: tests_ok_def smap_ok_erase set_map_erase)
    then have "good E ?s (upd_pool p (\<lambda>pl. pl\<lparr>m_Tests := map_erase msgID (m_Tests pl)\<rparr>) ?s)"
      by - (rule good_upd_pool [OF r(1)], use rinv_pool [OF r] in simp_all)
    then show ?thesis using assms(1) good_trans [OF g] by (simp add: ProcessDeliveryStatus_def ids Some e(1))
  qed
qed

end
