(* ===== verification/Manager_Invariant.thy ===== *)
theory Manager_Invariant
  imports Pool_Invariant
begin

text \<open>
The operations of the tunnel manager keep the invariant; its sweeps remove exactly the tunnels that are due.
\<close>

section \<open>The manager\<close>

lemma CreateTunnelPool_good:
  assumes "CreateTunnelPool d a b c e s = (p, s')" and "rinv E s"
  shows "good E s s'" and "p < length (poolHeap s')"
proof -
  have s': "s' = s\<lparr>poolHeap := poolHeap s @ [newTunnelPool d a b c e], m_Pools := m_Pools s @ [p]\<rparr>" and p: "p = length (poolHeap s)"
    using assms(1) by (auto simp: CreateTunnelPool_def Let_def)
  have "pools_ok E (outHeap s) (inHeap s) (poolHeap s @ [newTunnelPool d a b c e])"
    using assms(2) by (auto simp: rinv_def pools_ok_def nth_append less_Suc_eq newTunnelPool_def members_ok_def tests_ok_def)
  then show "good E s s'" using assms(2)
    by (auto simp: good_def grows_def s' p rinv_def heap_ok_def less_Suc_eq)
  show "p < length (poolHeap s')" by (simp add: s' p)
qed

lemma upd_pool_flags_good:
  assumes "rinv E s" and "p < length (poolHeap s)"
    and "\<And>pl. pInboundTunnels (f pl) = pInboundTunnels pl" "\<And>pl. pOutboundTunnels (f pl) = pOutboundTunnels pl" "\<And>pl. m_Tests (f pl) = m_Tests pl"
  shows "good E s (upd_pool p f s)"
  by (rule good_upd_pool [OF assms(1)]) (use assms(3-) rinv_pool [OF assms(1,2)] in simp_all)

lemma SetExplicitPeers_good: "rinv E s \<Longrightarrow> p < length (poolHeap s) \<Longrightarrow> good E s (upd_pool p (SetExplicitPeers peers) s)"
  by (rule upd_pool_flags_good) (simp_all add: SetExplicitPeers_def Let_def split: option.splits)

lemma StopTunnelPool_good:
  assumes "rinv E s" and "\<And>p. pool = Some p \<Longrightarrow> p < length (poolHeap s)"
  shows "good E s (StopTunnelPool pool s)"
proof (cases pool)
  case (Some p)
  have g: "good E s (upd_pool p (\<lambda>pl. pl\<lparr>m_IsActive := False\<rparr>) s)"
    by (rule upd_pool_flags_good) (use assms Some in simp_all)
  show ?thesis using good_trans [OF g DetachTunnels_good [OF good_rinv [OF g] good_pools [OF g]]] assms(2) Some
    by (simp add: StopTunnelPool_def)
qed (use assms in \<open>simp add: StopTunnelPool_def\<close>)

lemma DeleteTunnelPool_good:
  assumes "rinv E s" and "\<And>p. pool = Some p \<Longrightarrow> p < length (poolHeap s)"
  shows "good E s (DeleteTunnelPool pool s)"
proof -
  have g: "good E s (StopTunnelPool pool s)" by (rule StopTunnelPool_good [OF assms])
  have "good E s (s'\<lparr>m_Pools := removeAll p (m_Pools s')\<rparr>)" if "good E s s'" for s' p
    using that by (auto simp: good_def grows_def rinv_def distinct_removeAll)
  with g show ?thesis using assms(1) by (auto simp: DeleteTunnelPool_def Let_def split: option.splits)
qed

lemma AddTransitTunnel_good: "rinv E s \<Longrightarrow> good E s (AddTransitTunnel t s)"
  by (auto simp: good_def grows_def rinv_def AddTransitTunnel_def map_insert_def transit_ok_def smap_ok_put set_map_put)

lemma PostTunnelData_good: "rinv E s \<Longrightarrow> good E s (PostTunnelData m s)"
  by (auto simp: good_def grows_def rinv_def PostTunnelData_def Queue_Put_def q_ok_def)

lemma PostTunnelDatas_good: "rinv E s \<Longrightarrow> good E s (PostTunnelDatas ms s)"
  by (auto simp: good_def grows_def rinv_def PostTunnelDatas_def q_ok_def list_all_iff)

lemma AddOutboundTunnel_good:
  assumes "ptr_order E" and "rinv E s" and a: "a < length (outHeap s)" "built (outHeap s ! a)" "a \<notin> set (m_OutboundTunnels s)"
    and gone: "\<And>q. q < length (poolHeap s) \<Longrightarrow> a \<notin> set (pOutboundTunnels (poolHeap s ! q))"
  shows "good E s (AddOutboundTunnel E a s)"
proof -
  let ?s = "s\<lparr>m_OutboundTunnels := m_OutboundTunnels s @ [a]\<rparr>"
  have g: "good E s ?s" using assms(2) a by (auto simp: good_def grows_def rinv_def)
  have off: "good E ?s (upd_out a (SetTunnelPool None) ?s)"
    by (rule good_upd_out [OF good_rinv [OF g]]) (use a gone in auto)
  have "good E ?s (TunnelCreated_Out E p a ?s)" if "m_Pool (outHeap s ! a) = Some p" for p
    by (rule TunnelCreated_Out_good [OF assms(1) good_rinv [OF g]]) (use a that tunnel_pool_out [OF assms(2) a(1) that] in simp_all)
  with off have "good E ?s (AddOutboundTunnel E a s)" by (auto simp: AddOutboundTunnel_def Let_def split: option.splits)
  with g show ?thesis by (rule good_trans)
qed

lemma AddInboundTunnel_good:
  assumes "AddInboundTunnel E a s = Some s'" and "ptr_order E" and "rinv E s" and a: "a < length (inHeap s)" "built (inHeap s ! a)"
    and gone: "\<And>q. q < length (poolHeap s) \<Longrightarrow> a \<notin> set (pInboundTunnels (poolHeap s ! q))"
  shows "good E s s'"
proof -
  let ?s = "s\<lparr>m_InboundTunnels := map_put (InboundTunnel_GetTunnelID (inHeap s ! a)) a (m_InboundTunnels s)\<rparr>"
  have "inbound_ok (inHeap s) (map_put (InboundTunnel_GetTunnelID (inHeap s ! a)) a (m_InboundTunnels s))"
    by (rule inbound_ok_put) (use assms(3) a in \<open>simp_all add: rinv_def\<close>)
  then have g: "good E s ?s" using assms(3) by (auto simp: good_def grows_def rinv_def)
  show ?thesis
  proof (cases "m_Pool (inHeap s ! a)")
    case None
    obtain c s2 where 2: "invert_config E (m_Config (inHeap s ! a)) ?s = Some (c, s2)"
      using assms(1) None by (auto simp: AddInboundTunnel_def Let_def bind_eq_Some_conv)
    obtain ot s3 where 3: "Tunnels_GetNextOutboundTunnel E s2 = (ot, s3)" by (cases "Tunnels_GetNextOutboundTunnel E s2")
    obtain b where 4: "CreateTunnel_Out E c ot s3 = Some (b, s')"
      using assms(1) None by (auto simp: AddInboundTunnel_def Let_def bind_eq_Some_conv 2 3)
    have o3: "outside ?s s3"
      using invert_config_good(1) [OF 2] Tunnels_GetNextOutboundTunnel_good(1) [OF 3] by (auto intro: outside_trans)
    have o2: "outside ?s s2" using invert_config_good(1) [OF 2] by auto
    have "b < length (outHeap s3)" if "ot = Some b" for b
      using Tunnels_GetNextOutboundTunnel_good(2) [OF 3 that] outside_heaps [OF o2] outside_heaps [OF o3] good_rinv [OF g] by simp
    then have "good E s3 s'"
      using CreateTunnel_Out_good(1) [OF 4 _ invert_config_good(2) [OF 2]] outside_heaps(4) [OF o3] good_rinv [OF g] by blast
    then show ?thesis using good_trans [OF good_trans [OF g good_outside [OF o3 good_rinv [OF g]]]] by blast
  next
    case (Some p)
    have off: "good E ?s (upd_in a (SetTunnelPool None) ?s)"
      by (rule good_upd_in [OF good_rinv [OF g]]) (use a gone in auto)
    have "good E ?s (TunnelCreated_In E p a ?s)"
      by (rule TunnelCreated_In_good [OF assms(2) good_rinv [OF g]]) (use a Some tunnel_pool_in [OF assms(3) a(1) Some] in simp_all)
    with off have "good E ?s s'" using assms(1) Some by (auto simp: AddInboundTunnel_def Let_def split: if_splits)
    with g show ?thesis by (rule good_trans)
  qed
qed

lemma CreateZeroHopsInboundTunnel_good:
  assumes "CreateZeroHopsInboundTunnel E s = Some s'" and "rinv E s"
  shows "good E s s'"
proof -
  obtain c s1 a where 1: "new_config E [self E] None s = Some (c, s1)" and 2: "CreateTunnel_In E c None s1 = Some (a, s')"
    using assms(1) by (auto simp: CreateZeroHopsInboundTunnel_def bind_eq_Some_conv)
  have o1: "outside s s1" using new_config_good(1) [OF 1] by auto
  have "good E s1 s'" using CreateTunnel_In_good(1) [OF 2 _ new_config_good(2) [OF 1]] assms(2) outside_heaps(4) [OF o1] by blast
  with good_outside [OF o1 assms(2)] show ?thesis by (rule good_trans)
qed

text \<open>Pending tunnels: the sweep keeps exactly those whose fate is open.\<close>

lemma settle_pending_outside: "outside s (settle_pending f t s)"
  by (cases f; rule outsideI [where g = "world s" and ev = "events (settle_pending f t s)" and
        i = "m_NumFailedTunnelCreations (settle_pending f t s)" and j = "m_NumSuccesiveTunnelCreations (settle_pending f t s)"])
     (simp_all add: settle_pending_def)

lemma manage_pending_keeps:
  "fst (manage_pending ts heap m s) = filter (\<lambda>e. pending_fate ts (heap (snd e)) = Keep) m"
  by (induction ts heap m s rule: manage_pending.induct) (auto simp: Let_def case_prod_beta)

lemma manage_pending_outside: "outside s (snd (manage_pending ts heap m s))"
proof (induction ts heap m s rule: manage_pending.induct)
  case (2 ts heap k a m s)
  from outside_trans [OF settle_pending_outside 2 [OF refl]] show ?case by (simp add: Let_def case_prod_beta)
qed simp

lemma ManagePendingTunnels_good:
  assumes "rinv E s"
  shows "good E s (ManagePendingTunnels E s)"
proof -
  obtain ts s1 where 1: "ask (seconds E) s = (ts, s1)" by (cases "ask (seconds E) s")
  obtain mi s2 where 2: "manage_pending ts (\<lambda>a. inHeap s1 ! a) (m_PendingInboundTunnels s1) s1 = (mi, s2)"
    by (cases "manage_pending ts (\<lambda>a. inHeap s1 ! a) (m_PendingInboundTunnels s1) s1")
  have p2: "good E s (s2\<lparr>m_PendingInboundTunnels := mi\<rparr>)"
  proof -
    have o: "outside s s2" using outside_trans [OF outside_ask [OF 1]] manage_pending_outside [of s1 ts _ "m_PendingInboundTunnels s1"] 2
      by (metis snd_conv)
    have mi: "mi = filter (\<lambda>e. pending_fate ts (inHeap s1 ! snd e) = Keep) (m_PendingInboundTunnels s1)"
      using manage_pending_keeps [of ts "\<lambda>a. inHeap s1 ! a" "m_PendingInboundTunnels s1" s1] 2 by simp
    have "m_PendingInboundTunnels s1 = m_PendingInboundTunnels s" using ask_world [OF 1] by auto
    then show ?thesis using assms outside_heaps [OF o] o
      by (auto simp: outside_def good_def grows_def rinv_def mi pending_ok_filter)
  qed
  let ?s3 = "s2\<lparr>m_PendingInboundTunnels := mi\<rparr>"
  obtain ts' s4 where 3: "ask (seconds E) ?s3 = (ts', s4)" by (cases "ask (seconds E) ?s3")
  obtain mo s5 where 4: "manage_pending ts' (\<lambda>a. outHeap s4 ! a) (m_PendingOutboundTunnels s4) s4 = (mo, s5)"
    by (cases "manage_pending ts' (\<lambda>a. outHeap s4 ! a) (m_PendingOutboundTunnels s4) s4")
  have "good E ?s3 (s5\<lparr>m_PendingOutboundTunnels := mo\<rparr>)"
  proof -
    have o: "outside ?s3 s5" using outside_trans [OF outside_ask [OF 3]] manage_pending_outside [of s4 ts' _ "m_PendingOutboundTunnels s4"] 4
      by (metis snd_conv)
    have mo: "mo = filter (\<lambda>e. pending_fate ts' (outHeap s4 ! snd e) = Keep) (m_PendingOutboundTunnels s4)"
      using manage_pending_keeps [of ts' "\<lambda>a. outHeap s4 ! a" "m_PendingOutboundTunnels s4" s4] 4 by simp
    have "m_PendingOutboundTunnels s4 = m_PendingOutboundTunnels ?s3" using ask_world [OF 3] by auto
    then show ?thesis using good_rinv [OF p2] outside_heaps [OF o] o
      by (auto simp: outside_def good_def grows_def rinv_def mo pending_ok_filter)
  qed
  from good_trans [OF p2 this] show ?thesis by (simp add: ManagePendingTunnels_def 1 2 3 4)
qed

text \<open>Established tunnels: the sweeps keep exactly those that have not expired.\<close>

lemma expires_le: "tunnel_le t t' \<Longrightarrow> expires t' = expires t"
  by (simp add: expires_def tunnel_le_def)

lemma tunnel_le_SetIsRecreated [simp]: "tunnel_le t (SetIsRecreated t)"
  by (simp add: tunnel_le_def SetIsRecreated_def)

lemma SetIsRecreated_simps [simp]: "m_Pool (SetIsRecreated t) = m_Pool t" "m_State (SetIsRecreated t) = m_State t"
  by (simp_all add: SetIsRecreated_def)

lemma manage_outbound1_good:
  assumes "manage_outbound1 E ts a s = Some s'" and "ptr_order E" and "rinv E s" and a: "listed_ok (outHeap s) [a]"
  shows "good E s s'"
proof -
  let ?t = "outHeap s ! a"
  let ?s1 = "upd_out a SetIsRecreated s"
  have al: "a < length (outHeap s)" "built ?t" using a by simp_all
  have g1: "good E s ?s1" by (rule good_upd_out [OF assms(3) al(1)]) simp_all
  show ?thesis
  proof (cases "ts > expires ?t")
    case True
    then show ?thesis using assms TunnelExpired_Out_good [OF assms(2,3) al(1)]
      by (auto simp: manage_outbound1_def split: option.splits)
  next
    case False
    show ?thesis
    proof (cases "IsEstablished ?t")
      case True
      obtain s2 where est: "(if \<not> m_IsRecreated ?t \<and> ts + TUNNEL_RECREATION_THRESHOLD > expires ?t
          then case m_Pool ?t of Some p \<Rightarrow> RecreateOutboundTunnel E p a ?s1 | None \<Rightarrow> Some ?s1 else Some s) = Some s2"
        "s' = (if ts + TUNNEL_EXPIRATION_THRESHOLD > expires ?t then upd_out a (SetState eTunnelStateExpiring) s2 else s2)"
        using assms(1) False True unfolding manage_outbound1_def Let_def by (auto simp: bind_eq_Some_conv split del: if_split)
      have g2: "good E s s2"
      proof (cases "\<not> m_IsRecreated ?t \<and> ts + TUNNEL_RECREATION_THRESHOLD > expires ?t")
        case True
        then show ?thesis
          using est(1) g1 good_trans [OF g1 RecreateOutboundTunnel_good [OF _ good_rinv [OF g1]]] tunnel_pool_out [OF assms(3) al(1)]
          by (auto simp: upd_out_def split: option.splits)
      qed (use est(1) assms(3) in auto)
      have "listed_ok (outHeap s2) [a]" by (rule good_listed(1) [OF g2 a])
      then have "good E s2 (upd_out a (SetState eTunnelStateExpiring) s2)"
        by (intro good_SetState_out [OF good_rinv [OF g2]] built_evolves) simp_all
      then show ?thesis using est(2) g2 good_trans [OF g2] by auto
    next
      case False
      then show ?thesis using assms \<open>\<not> ts > expires ?t\<close> by (simp add: manage_outbound1_def)
    qed
  qed
qed

lemma manage_inbound1_good:
  assumes "manage_inbound1 E ts a s = Some s'" and "ptr_order E" and "rinv E s" and a: "listed_ok (inHeap s) [a]"
  shows "good E s s'"
proof -
  let ?t = "inHeap s ! a"
  let ?s1 = "upd_in a SetIsRecreated s"
  have al: "a < length (inHeap s)" "built ?t" using a by simp_all
  have g1: "good E s ?s1" by (rule good_upd_in [OF assms(3) al(1)]) simp_all
  show ?thesis
  proof (cases "ts > expires ?t")
    case True
    then show ?thesis using assms TunnelExpired_In_good [OF assms(2,3) al(1)]
      by (auto simp: manage_inbound1_def split: option.splits)
  next
    case False
    show ?thesis
    proof (cases "IsEstablished ?t")
      case True
      obtain s2 where est: "(if \<not> m_IsRecreated ?t \<and> ts + TUNNEL_RECREATION_THRESHOLD > expires ?t
          then case m_Pool ?t of Some p \<Rightarrow> RecreateInboundTunnel E p a ?s1 | None \<Rightarrow> Some ?s1 else Some s) = Some s2"
        "s' = (if ts + TUNNEL_EXPIRATION_THRESHOLD > expires ?t then upd_in a (SetState eTunnelStateExpiring) s2 else s2)"
        using assms(1) False True unfolding manage_inbound1_def Let_def by (auto simp: bind_eq_Some_conv split del: if_split)
      have g2: "good E s s2"
      proof (cases "\<not> m_IsRecreated ?t \<and> ts + TUNNEL_RECREATION_THRESHOLD > expires ?t")
        case True
        then show ?thesis
          using est(1) g1 good_trans [OF g1 RecreateInboundTunnel_good [OF _ good_rinv [OF g1]]] tunnel_pool_in [OF assms(3) al(1)]
          by (auto simp: upd_in_def split: option.splits)
      qed (use est(1) assms(3) in auto)
      have "listed_ok (inHeap s2) [a]" by (rule good_listed(2) [OF g2 a])
      then have "good E s2 (upd_in a (SetState eTunnelStateExpiring) s2)"
        by (intro good_SetState_in [OF good_rinv [OF g2]] built_evolves) simp_all
      then show ?thesis using est(2) g2 good_trans [OF g2] by auto
    next
      case False
      then show ?thesis using assms \<open>\<not> ts > expires ?t\<close> by (simp add: manage_inbound1_def)
    qed
  qed
qed

lemma good_expires:
  "good E s s' \<Longrightarrow> a < length (outHeap s) \<Longrightarrow> expires (outHeap s' ! a) = expires (outHeap s ! a)"
  "good E s s' \<Longrightarrow> b < length (inHeap s) \<Longrightarrow> expires (inHeap s' ! b) = expires (inHeap s ! b)"
  by (simp_all add: good_def grows_def heap_le_def expires_le)

lemma manage_outbound_good:
  assumes "manage_outbound E ts as s = Some (as', s')" and "ptr_order E" and "rinv E s" and "listed_ok (outHeap s) as"
  shows "good E s s' \<and> as' = filter (\<lambda>a. \<not> ts > expires (outHeap s ! a)) as"
  using assms(1,3,4)
proof (induction as arbitrary: s as')
  case (Cons a as)
  obtain s1 as1 where 1: "manage_outbound1 E ts a s = Some s1" "manage_outbound E ts as s1 = Some (as1, s')"
    and as': "as' = (if ts > expires (outHeap s ! a) then as1 else a # as1)"
    using Cons.prems(1) by (auto simp: bind_eq_Some_conv)
  have g: "good E s s1" by (rule manage_outbound1_good [OF 1(1) assms(2) Cons.prems(2)]) (use Cons.prems(3) in simp)
  have "listed_ok (outHeap s1) as" by (rule good_listed(1) [OF g]) (use Cons.prems(3) in simp)
  from Cons.IH [OF 1(2) good_rinv [OF g] this]
  have ih: "good E s1 s'" "as1 = filter (\<lambda>a. \<not> ts > expires (outHeap s1 ! a)) as" by simp_all
  have "as1 = filter (\<lambda>a. \<not> ts > expires (outHeap s ! a)) as"
    unfolding ih(2) by (rule filter_cong [OF refl]) (use Cons.prems(3) good_expires(1) [OF g] in \<open>auto simp: listed_ok_def\<close>)
  then show ?case using good_trans [OF g ih(1)] by (simp add: as')
qed simp

lemma manage_inbound_good:
  assumes "manage_inbound E ts m s = Some (m', s')" and "ptr_order E" and "rinv E s" and "listed_ok (inHeap s) (map snd m)"
  shows "good E s s' \<and> m' = filter (\<lambda>e. \<not> ts > expires (inHeap s ! snd e)) m"
  using assms(1,3,4)
proof (induction m arbitrary: s m')
  case (Cons e m)
  obtain k a where e: "e = (k, a)" by (cases e)
  obtain s1 m1 where 1: "manage_inbound1 E ts a s = Some s1" "manage_inbound E ts m s1 = Some (m1, s')"
    and m': "m' = (if ts > expires (inHeap s ! a) then m1 else e # m1)"
    using Cons.prems(1) by (auto simp: bind_eq_Some_conv e)
  have g: "good E s s1" by (rule manage_inbound1_good [OF 1(1) assms(2) Cons.prems(2)]) (use Cons.prems(3) e in simp)
  have "listed_ok (inHeap s1) (map snd m)" by (rule good_listed(2) [OF g]) (use Cons.prems(3) in simp)
  from Cons.IH [OF 1(2) good_rinv [OF g] this]
  have ih: "good E s1 s'" "m1 = filter (\<lambda>e. \<not> ts > expires (inHeap s1 ! snd e)) m" by simp_all
  have "m1 = filter (\<lambda>e. \<not> ts > expires (inHeap s ! snd e)) m"
    unfolding ih(2) by (rule filter_cong [OF refl]) (use Cons.prems(3) good_expires(2) [OF g] in \<open>auto simp: listed_ok_def\<close>)
  then show ?case using good_trans [OF g ih(1)] by (simp add: m' e)
qed simp

lemma ManageOutboundTunnels_good:
  assumes "ManageOutboundTunnels E s = Some s'" and "ptr_order E" and "rinv E s"
  shows "good E s s'"
proof -
  obtain ts s0 where 0: "ask (seconds E) s = (ts, s0)" by (cases "ask (seconds E) s")
  have g0: "good E s s0" by (rule good_ask [OF 0 assms(3)])
  obtain as s1 where 1: "manage_outbound E ts (m_OutboundTunnels s0) s0 = Some (as, s1)"
    using assms(1) by (auto simp: ManageOutboundTunnels_def 0 bind_eq_Some_conv)
  have l: "listed_ok (outHeap s0) (m_OutboundTunnels s0)" "distinct (m_OutboundTunnels s0)"
    using good_rinv [OF g0] by (simp_all add: rinv_def)
  note mo = manage_outbound_good [OF 1 assms(2) good_rinv [OF g0] l(1)]
  have g1: "good E s0 s1" using mo by simp
  have as: "as = filter (\<lambda>a. \<not> ts > expires (outHeap s0 ! a)) (m_OutboundTunnels s0)" using mo by simp
  have "listed_ok (outHeap s1) as" by (rule good_listed(1) [OF g1]) (use l as in \<open>auto simp: listed_ok_def\<close>)
  then have g2: "good E s (s1\<lparr>m_OutboundTunnels := as\<rparr>)"
    using good_trans [OF g0 g1] l(2) as by (auto simp: good_def grows_def rinv_def)
  let ?s2 = "s1\<lparr>m_OutboundTunnels := as\<rparr>"
  obtain r s3 where 3: "ask (randomRouter E) ?s2 = (r, s3)" by (cases "ask (randomRouter E) ?s2")
  have g3: "good E s s3" by (rule good_trans [OF g2 good_ask [OF 3 good_rinv [OF g2]]])
  consider "s' = ?s2" | "s' = s3"
    | b h c s4 a where "new_config E [h] (Some (m_Config (inHeap s3 ! b))) s3 = Some (c, s4)" "CreateTunnel_Out E c None s4 = Some (a, s')"
    using assms(1) by (auto simp: ManageOutboundTunnels_def 0 1 3 Let_def bind_eq_Some_conv split: if_splits option.splits)
  then show ?thesis
  proof cases
    case 3
    have o4: "outside s3 s4" using new_config_good(1) [OF 3(1)] by auto
    have "good E s4 s'"
      using CreateTunnel_Out_good(1) [OF 3(2) _ new_config_good(2) [OF 3(1)]] good_rinv [OF g3] outside_heaps(4) [OF o4] by blast
    then show ?thesis using good_trans [OF good_trans [OF g3 good_outside [OF o4 good_rinv [OF g3]]]] by blast
  qed (use g2 g3 in simp_all)
qed

lemma ManageInboundTunnels_good:
  assumes "ManageInboundTunnels E s = Some s'" and "ptr_order E" and "rinv E s"
  shows "good E s s'"
proof -
  obtain ts s0 where 0: "ask (seconds E) s = (ts, s0)" by (cases "ask (seconds E) s")
  have g0: "good E s s0" by (rule good_ask [OF 0 assms(3)])
  obtain m s1 where 1: "manage_inbound E ts (m_InboundTunnels s0) s0 = Some (m, s1)"
    using assms(1) by (auto simp: ManageInboundTunnels_def 0 bind_eq_Some_conv)
  have l: "inbound_ok (inHeap s0) (m_InboundTunnels s0)" "\<forall>t \<in> set (inHeap s0). m_Config t \<noteq> []"
    using good_rinv [OF g0] by (simp_all add: rinv_def heap_ok_def)
  note mi = manage_inbound_good [OF 1 assms(2) good_rinv [OF g0]]
  have g1: "good E s0 s1" using mi l(1) by (simp add: inbound_ok_def)
  have m: "m = filter (\<lambda>e. \<not> ts > expires (inHeap s0 ! snd e)) (m_InboundTunnels s0)" using mi l(1) by (simp add: inbound_ok_def)
  have "inbound_ok (inHeap s1) m"
    unfolding m using l g1 by (intro inbound_ok_filter inbound_ok_le [OF l(1)]) (simp_all add: good_def grows_def)
  then have g2: "good E s (s1\<lparr>m_InboundTunnels := m\<rparr>)"
    using good_trans [OF g0 g1] by (auto simp: good_def grows_def rinv_def)
  let ?s2 = "s1\<lparr>m_InboundTunnels := m\<rparr>"
  obtain r s3 where 3: "ask (randomRouter E) ?s2 = (r, s3)" by (cases "ask (randomRouter E) ?s2")
  have g3: "good E s s3" by (rule good_trans [OF g2 good_ask [OF 3 good_rinv [OF g2]]])
  consider (zero) s4 where "CreateZeroHopsInboundTunnel E ?s2 = Some s4"
      "s' = s4 \<or> s' = (snd (CreateTunnelPool (Some contextDestination) 2 2 5 5 s4))\<lparr>m_ExploratoryPool :=
           Some (fst (CreateTunnelPool (Some contextDestination) 2 2 5 5 s4))\<rparr>"
    | (one) h c s4 a where "new_config E [h] None s3 = Some (c, s4)" "CreateTunnel_In E c None s4 = Some (a, s')"
    | (enough) "s' = ?s2"
    using assms(1) by (auto simp: ManageInboundTunnels_def 0 1 3 bind_eq_Some_conv Let_def case_prod_beta split: if_splits)
  then show ?thesis
  proof cases
    case zero
    have g4: "good E s s4" by (rule good_trans [OF g2 CreateZeroHopsInboundTunnel_good [OF zero(1) good_rinv [OF g2]]])
    obtain p s5 where c: "CreateTunnelPool (Some contextDestination) 2 2 5 5 s4 = (p, s5)" by (cases "CreateTunnelPool (Some contextDestination) 2 2 5 5 s4")
    have g5: "good E s s5" by (rule good_trans [OF g4 CreateTunnelPool_good(1) [OF c good_rinv [OF g4]]])
    then have "good E s (s5\<lparr>m_ExploratoryPool := Some p\<rparr>)"
      using CreateTunnelPool_good(2) [OF c good_rinv [OF g4]] by (auto simp: good_def grows_def rinv_def)
    then show ?thesis using zero(2) g4 c by auto
  next
    case one
    have o4: "outside s3 s4" using new_config_good(1) [OF one(1)] by auto
    have "good E s4 s'"
      using CreateTunnel_In_good(1) [OF one(2) _ new_config_good(2) [OF one(1)]] good_rinv [OF g3] outside_heaps(4) [OF o4] by blast
    then show ?thesis using good_trans [OF good_trans [OF g3 good_outside [OF o4 good_rinv [OF g3]]]] by blast
  qed (use g2 in simp)
qed

lemma ManageTransitTunnels_good:
  assumes "rinv E s"
  shows "good E s (ManageTransitTunnels E s)"
  using assms by (auto simp: ManageTransitTunnels_def ask_def Let_def case_prod_beta good_def grows_def rinv_def transit_ok_def smap_ok_filter)

lemma manage_pools_good:
  assumes "manage_pools E ps s = Some s'" and "ptr_order E" and "rinv E s" and "\<forall>p \<in> set ps. p < length (poolHeap s)"
  shows "good E s s'"
  using assms(1,3,4)
proof (induction ps arbitrary: s)
  case (Cons p ps)
  obtain s2 where 1: "(if m_IsActive (poolHeap s ! p) then Option.bind (CreateTunnels E p s) (TestTunnels E p) else Some s) = Some s2"
    and 2: "manage_pools E ps s2 = Some s'"
    using Cons.prems(1) by (auto simp: bind_eq_Some_conv)
  have p: "p < length (poolHeap s)" using Cons.prems(3) by simp
  have g: "good E s s2"
  proof (cases "m_IsActive (poolHeap s ! p)")
    case True
    then obtain s1 where c: "CreateTunnels E p s = Some s1" "TestTunnels E p s1 = Some s2" using 1 by (auto simp: bind_eq_Some_conv)
    have g1: "good E s s1" by (rule CreateTunnels_good [OF c(1) Cons.prems(2) p])
    from good_trans [OF g1 TestTunnels_good [OF assms(2) c(2) good_rinv [OF g1] good_pools [OF g1 p]]] show ?thesis .
  qed (use 1 Cons.prems(2) in simp)
  have "good E s2 s'" by (rule Cons.IH [OF 2 good_rinv [OF g]]) (use Cons.prems(3) good_pools [OF g] in simp)
  with g show ?case by (rule good_trans)
qed simp

lemma ManageTunnels_good:
  assumes "ManageTunnels E s = Some s'" and "ptr_order E" and "rinv E s"
  shows "good E s s'"
proof -
  obtain s1 s2 where 1: "ManageInboundTunnels E (ManagePendingTunnels E s) = Some s1"
    and 2: "ManageOutboundTunnels E s1 = Some s2"
    and 3: "manage_pools E (m_Pools (ManageTransitTunnels E s2)) (ManageTransitTunnels E s2) = Some s'"
    using assms(1) by (auto simp: ManageTunnels_def ManageTunnelPools_def bind_eq_Some_conv)
  have g0: "good E s (ManagePendingTunnels E s)" by (rule ManagePendingTunnels_good [OF assms(3)])
  have g1: "good E s s1" by (rule good_trans [OF g0 ManageInboundTunnels_good [OF 1 assms(2) good_rinv [OF g0]]])
  have g2: "good E s s2" by (rule good_trans [OF g1 ManageOutboundTunnels_good [OF 2 assms(2) good_rinv [OF g1]]])
  have g3: "good E s (ManageTransitTunnels E s2)" by (rule good_trans [OF g2 ManageTransitTunnels_good [OF good_rinv [OF g2]]])
  have "good E (ManageTransitTunnels E s2) s'"
    by (rule manage_pools_good [OF 3 assms(2) good_rinv [OF g3]]) (use good_rinv [OF g3] in \<open>simp add: rinv_def\<close>)
  with g3 show ?thesis by (rule good_trans)
qed

end
