(* ===== verification/Router_Steps.thy ===== *)
theory Router_Steps
  imports Manager_Invariant
begin

text \<open>
  The handlers of messages, the tunnel thread and the calls of other components keep the invariant: the
  step relation of the router, its reachable states and the life of its tunnels.
\<close>

section \<open>Messages\<close>

lemma good_tunnel_le:
  assumes "good E s s'"
  shows "a < length (inHeap s) \<Longrightarrow> tunnel_le (inHeap s ! a) (inHeap s' ! a)"
    and "a < length (outHeap s) \<Longrightarrow> tunnel_le (outHeap s ! a) (outHeap s' ! a)"
  using assms by (simp_all add: good_def grows_def heap_le_def)

lemma pending_not_member:
  assumes "rinv E s" and "q < length (poolHeap s)"
  shows "\<not> built (inHeap s ! a) \<Longrightarrow> a \<notin> set (pInboundTunnels (poolHeap s ! q))"
    and "\<not> built (outHeap s ! b) \<Longrightarrow> b \<notin> set (pOutboundTunnels (poolHeap s ! q))"
  using member_pool_in(3) [OF assms] member_pool_out(3) [OF assms] by blast+

lemma GetPendingInboundTunnel_good:
  assumes "GetPendingInboundTunnel r s = (t, s1)" and "rinv E s"
  shows "good E s s1" and "t = Some a \<Longrightarrow> a < length (inHeap s) \<and> m_State (inHeap s ! a) = eTunnelStatePending \<and>
      s1 = upd_in a (SetState eTunnelStateBuildReplyReceived) s"
proof -
  have al: "a < length (inHeap s)" if "map_find r (m_PendingInboundTunnels s) = Some a" for a
    using assms(2) map_find_mem [OF that] by (force simp: rinv_def pending_ok_def)
  show "good E s s1" using assms al
    by (auto simp: GetPendingInboundTunnel_def evolves_def split: option.splits if_splits intro!: good_SetState_in)
  show "t = Some a \<Longrightarrow> a < length (inHeap s) \<and> m_State (inHeap s ! a) = eTunnelStatePending \<and>
      s1 = upd_in a (SetState eTunnelStateBuildReplyReceived) s"
    using assms(1) al by (auto simp: GetPendingInboundTunnel_def split: option.splits if_splits)
qed

lemma GetPendingOutboundTunnel_good:
  assumes "GetPendingOutboundTunnel r s = (t, s1)" and "rinv E s"
  shows "good E s s1" and "t = Some a \<Longrightarrow> a < length (outHeap s) \<and> m_State (outHeap s ! a) = eTunnelStatePending \<and>
      s1 = upd_out a (SetState eTunnelStateBuildReplyReceived) s"
proof -
  have al: "a < length (outHeap s)" if "map_find r (m_PendingOutboundTunnels s) = Some a" for a
    using assms(2) map_find_mem [OF that] by (force simp: rinv_def pending_ok_def)
  show "good E s s1" using assms al
    by (auto simp: GetPendingOutboundTunnel_def evolves_def split: option.splits if_splits intro!: good_SetState_out)
  show "t = Some a \<Longrightarrow> a < length (outHeap s) \<and> m_State (outHeap s ! a) = eTunnelStatePending \<and>
      s1 = upd_out a (SetState eTunnelStateBuildReplyReceived) s"
    using assms(1) al by (auto simp: GetPendingOutboundTunnel_def split: option.splits if_splits)
qed

lemma handle_records_good:
  assumes "handle_records E num recs buf cl s = Some (found, buf', ct, s')" and "rinv E s"
  shows "good E s s'"
proof -
  obtain acc s1 where 1: "ask (acceptTunnels E) s = (acc, s1)" by (cases "ask (acceptTunnels E) s")
  obtain bw s2 where 2: "ask (bandwidthUsed E) s1 = (bw, s2)" by (cases "ask (bandwidthUsed E) s1")
  obtain tunnel g where s': "s' = (case tunnel of None \<Rightarrow> s2\<lparr>world := g\<rparr>
      | Some t \<Rightarrow> let (now, s'') = ask (seconds E) (s2\<lparr>world := g\<rparr>) in AddTransitTunnel (t, ucast now) s'')"
    using assms(1) unfolding handle_records_def Let_def by (auto simp: 1 2 bind_eq_Some_conv)
  have o3: "outside s (s2\<lparr>world := g\<rparr>)"
    by (rule outside_trans [OF outside_trans [OF outside_ask [OF 1] outside_ask [OF 2]]]) simp
  obtain now s4 where 4: "ask (seconds E) (s2\<lparr>world := g\<rparr>) = (now, s4)" by (cases "ask (seconds E) (s2\<lparr>world := g\<rparr>)")
  have g4: "good E s s4" by (rule good_outside [OF outside_trans [OF o3 outside_ask [OF 4]] assms(2)])
  show ?thesis
    using good_outside [OF o3 assms(2)] good_trans [OF g4 AddTransitTunnel_good [OF good_rinv [OF g4]]]
    by (cases tunnel) (simp_all add: s' 4)
qed

lemma forward_build_outside: "forward_build E typ rtyp buf len ct s = Some s' \<Longrightarrow> outside s s'"
  by (auto simp: forward_build_def Let_def ask_def case_prod_beta bind_eq_Some_conv split: if_splits
      intro!: outside_emit intro: outside_trans [OF outside_world outside_world])

text \<open>The reply to a build request: the tunnel is established, or given up.\<close>

lemma response_in_good:
  assumes "rinv E s" and "a < length (inHeap s)" and "m_State (inHeap s ! a) = eTunnelStateBuildReplyReceived"
    and "HandleTunnelBuildResponse A buf (inHeap s ! a) = Some (est, profiles, buf', t)"
  shows "good E s ((upd_in a (\<lambda>_. t) s)\<lparr>events := ev\<rparr>)"
  using good_upd_in [OF assms(1,2), of "\<lambda>_. t"] HandleTunnelBuildResponse_le [OF assms(4)] assms(3)
  by (simp add: tunnel_le_def evolves_def)

lemma response_out_good:
  assumes "rinv E s" and "a < length (outHeap s)" and "m_State (outHeap s ! a) = eTunnelStateBuildReplyReceived"
    and "HandleTunnelBuildResponse A buf (outHeap s ! a) = Some (est, profiles, buf', t)"
  shows "good E s ((upd_out a (\<lambda>_. t) s)\<lparr>events := ev\<rparr>)"
  using good_upd_out [OF assms(1,2), of "\<lambda>_. t"] HandleTunnelBuildResponse_le [OF assms(4)] assms(3)
  by (simp add: tunnel_le_def evolves_def)

lemma HandleVariableTunnelBuildMsg_after:
  assumes "HandleVariableTunnelBuildMsg E r buf len s = Some s'" and "ptr_order E" and "rinv E s" and 1: "GetPendingInboundTunnel r s = (tun, s1)"
  shows "good E s1 s'" and "tun = Some a \<Longrightarrow> 2 \<le> phase (m_State (inHeap s' ! a))"
proof -
  note p = GetPendingInboundTunnel_good [OF 1 assms(3)]
  have "good E s1 s' \<and> (\<forall>a. tun = Some a \<longrightarrow> 2 \<le> phase (m_State (inHeap s' ! a)))"
  proof (cases tun)
    case None
    then obtain num found buf' ct s2 where 2: "handle_records E num 1 buf (replicate 222 0) s1 = Some (found, buf', ct, s2)"
      and 3: "if found then forward_build E eI2NPVariableTunnelBuild eI2NPVariableTunnelBuildReply buf' len ct s2 = Some s' else s' = s2"
      using assms(1) by (auto simp: HandleVariableTunnelBuildMsg_def 1 bind_eq_Some_conv split: if_splits)
    have g: "good E s1 s2" by (rule handle_records_good [OF 2 good_rinv [OF p(1)]])
    then show ?thesis using None 3 good_trans [OF g good_outside [OF forward_build_outside good_rinv [OF g]]] by (cases found) auto
  next
    case (Some a)
    then have a: "a < length (inHeap s)" "m_State (inHeap s ! a) = eTunnelStatePending"
      "s1 = upd_in a (SetState eTunnelStateBuildReplyReceived) s" using p(2) by auto
    obtain est profiles buf' t where 2: "HandleTunnelBuildResponse (raes E) buf (inHeap s1 ! a) = Some (est, profiles, buf', t)"
      using assms(1) by (auto simp: HandleVariableTunnelBuildMsg_def 1 Some bind_eq_Some_conv)
    let ?s2 = "(upd_in a (\<lambda>_. t) s1)\<lparr>events := events s1 @ map (\<lambda>(r, ret). TunnelBuildAnswer r ret) profiles\<rparr>"
    have g2: "good E s1 ?s2"
      by (rule response_in_good [OF good_rinv [OF p(1)] _ _ 2]) (use a in \<open>simp_all add: upd_in_def\<close>)
    have al: "a < length (inHeap ?s2)" "inHeap ?s2 ! a = t" using a by (simp_all add: upd_in_def)
    have st: "m_State t = (if est then eTunnelStateEstablished else eTunnelStateBuildReplyReceived)"
      using HandleTunnelBuildResponse_le(4) [OF 2] a by (simp add: upd_in_def)
    show ?thesis
    proof (cases est)
      case True
      let ?s3 = "upd_in a (SetState eTunnelStateEstablished) ?s2"
      have g3: "good E s1 ?s3"
        by (rule good_trans [OF g2 good_SetState_in [OF good_rinv [OF g2] al(1)]]) (use al st True in simp)
      have "AddInboundTunnel E a ?s3 = Some s'"
        using assms(1) True by (auto simp: HandleVariableTunnelBuildMsg_def 1 2 Some bind_eq_Some_conv)
      then have "good E ?s3 s'"
      proof (rule AddInboundTunnel_good [OF _ assms(2) good_rinv [OF g3]])
        show "a < length (inHeap ?s3)" "built (inHeap ?s3 ! a)" using al by (simp_all add: upd_in_def built_def)
        fix q assume "q < length (poolHeap ?s3)"
        then show "a \<notin> set (pInboundTunnels (poolHeap ?s3 ! q))"
          using pending_not_member(1) [OF assms(3), of q a] a by (simp add: upd_in_def built_def)
      qed
      moreover from this have "tunnel_le (inHeap ?s3 ! a) (inHeap s' ! a)"
        by (rule good_tunnel_le(1)) (use al in \<open>simp add: upd_in_def\<close>)
      then have "2 \<le> phase (m_State (inHeap s' ! a))" using al by (simp add: tunnel_le_def evolves_def upd_in_def)
      ultimately show ?thesis using good_trans [OF g3] Some by simp
    next
      case False
      then have "s' = upd_in a (SetState eTunnelStateBuildFailed) ?s2"
        using assms(1) by (auto simp: HandleVariableTunnelBuildMsg_def 1 2 Some bind_eq_Some_conv)
      then show ?thesis using good_trans [OF g2 good_SetState_in [OF good_rinv [OF g2] al(1)]] al st False Some
        by (simp add: evolves_def) (simp add: upd_in_def)
    qed
  qed
  then show "good E s1 s'" and "tun = Some a \<Longrightarrow> 2 \<le> phase (m_State (inHeap s' ! a))" by simp_all
qed

lemma HandleVariableTunnelBuildMsg_good:
  assumes "HandleVariableTunnelBuildMsg E r buf len s = Some s'" and "ptr_order E" and "rinv E s"
  shows "good E s s'"
  using good_trans [OF GetPendingInboundTunnel_good(1) [OF prod.collapse [symmetric] assms(3)]
    HandleVariableTunnelBuildMsg_after(1) [OF assms prod.collapse [symmetric]]] .

lemma HandleTunnelBuildMsg_good:
  assumes "HandleTunnelBuildMsg E buf len s = Some s'" and "rinv E s"
  shows "good E s s'"
proof -
  obtain c0 s1 where 1: "ask (garbage E 222) s = (c0, s1)" by (cases "ask (garbage E 222) s")
  obtain found buf' ct s2 where 2: "handle_records E NUM_TUNNEL_BUILD_RECORDS 0 buf c0 s1 = Some (found, buf', ct, s2)"
    and 3: "if found then forward_build E eI2NPTunnelBuild eI2NPTunnelBuildReply buf' len ct s2 = Some s' else s' = s2"
    using assms(1) by (auto simp: HandleTunnelBuildMsg_def 1 bind_eq_Some_conv split: if_splits)
  have g1: "good E s s1" by (rule good_ask [OF 1 assms(2)])
  have g: "good E s s2" by (rule good_trans [OF g1 handle_records_good [OF 2 good_rinv [OF g1]]])
  then show ?thesis using 3 good_trans [OF g good_outside [OF forward_build_outside good_rinv [OF g]]] by (cases found) auto
qed

lemma HandleVariableTunnelBuildReplyMsg_after:
  assumes "HandleVariableTunnelBuildReplyMsg E r buf s = Some s'" and "ptr_order E" and "rinv E s" and 1: "GetPendingOutboundTunnel r s = (tun, s1)"
  shows "good E s1 s'" and "tun = Some a \<Longrightarrow> 2 \<le> phase (m_State (outHeap s' ! a))"
proof -
  note p = GetPendingOutboundTunnel_good [OF 1 assms(3)]
  have "good E s1 s' \<and> (\<forall>a. tun = Some a \<longrightarrow> 2 \<le> phase (m_State (outHeap s' ! a)))"
  proof (cases tun)
    case None
    then show ?thesis using assms(1) p(1) by (simp add: HandleVariableTunnelBuildReplyMsg_def 1 good_def)
  next
    case (Some a)
    then have a: "a < length (outHeap s)" "m_State (outHeap s ! a) = eTunnelStatePending"
      "s1 = upd_out a (SetState eTunnelStateBuildReplyReceived) s" using p(2) by auto
    obtain est profiles buf' t where 2: "HandleTunnelBuildResponse (raes E) buf (outHeap s1 ! a) = Some (est, profiles, buf', t)"
      using assms(1) by (auto simp: HandleVariableTunnelBuildReplyMsg_def 1 Some bind_eq_Some_conv)
    let ?s2 = "(upd_out a (\<lambda>_. t) s1)\<lparr>events := events s1 @ map (\<lambda>(r, ret). TunnelBuildAnswer r ret) profiles\<rparr>"
    have g2: "good E s1 ?s2"
      by (rule response_out_good [OF good_rinv [OF p(1)] _ _ 2]) (use a in \<open>simp_all add: upd_out_def\<close>)
    have al: "a < length (outHeap ?s2)" "outHeap ?s2 ! a = t" using a by (simp_all add: upd_out_def)
    have st: "m_State t = (if est then eTunnelStateEstablished else eTunnelStateBuildReplyReceived)"
      using HandleTunnelBuildResponse_le(4) [OF 2] a by (simp add: upd_out_def)
    show ?thesis
    proof (cases est)
      case True
      let ?s3 = "upd_out a (SetState eTunnelStateEstablished) ?s2"
      have g3: "good E s1 ?s3"
        by (rule good_trans [OF g2 good_SetState_out [OF good_rinv [OF g2] al(1)]]) (use al st True in simp)
      have s': "s' = AddOutboundTunnel E a ?s3"
        using assms(1) True by (auto simp: HandleVariableTunnelBuildReplyMsg_def 1 2 Some bind_eq_Some_conv)
      have "good E ?s3 s'" unfolding s'
      proof (rule AddOutboundTunnel_good [OF assms(2) good_rinv [OF g3]])
        show "a < length (outHeap ?s3)" "built (outHeap ?s3 ! a)" using al by (simp_all add: upd_out_def built_def)
        show "a \<notin> set (m_OutboundTunnels ?s3)"
          using assms(3) a by (auto simp: upd_out_def rinv_def listed_ok_def built_def)
        fix q assume "q < length (poolHeap ?s3)"
        then show "a \<notin> set (pOutboundTunnels (poolHeap ?s3 ! q))"
          using pending_not_member(2) [OF assms(3), of q a] a by (simp add: upd_out_def built_def)
      qed
      moreover from this have "tunnel_le (outHeap ?s3 ! a) (outHeap s' ! a)"
        by (rule good_tunnel_le(2)) (use al in \<open>simp add: upd_out_def\<close>)
      then have "2 \<le> phase (m_State (outHeap s' ! a))" using al by (simp add: tunnel_le_def evolves_def upd_out_def)
      ultimately show ?thesis using good_trans [OF g3] Some by simp
    next
      case False
      then have "s' = upd_out a (SetState eTunnelStateBuildFailed) ?s2"
        using assms(1) by (auto simp: HandleVariableTunnelBuildReplyMsg_def 1 2 Some bind_eq_Some_conv)
      then show ?thesis using good_trans [OF g2 good_SetState_out [OF good_rinv [OF g2] al(1)]] al st False Some
        by (simp add: evolves_def) (simp add: upd_out_def)
    qed
  qed
  then show "good E s1 s'" and "tun = Some a \<Longrightarrow> 2 \<le> phase (m_State (outHeap s' ! a))" by simp_all
qed

lemma HandleVariableTunnelBuildReplyMsg_good:
  assumes "HandleVariableTunnelBuildReplyMsg E r buf s = Some s'" and "ptr_order E" and "rinv E s"
  shows "good E s s'"
  using good_trans [OF GetPendingOutboundTunnel_good(1) [OF prod.collapse [symmetric] assms(3)]
    HandleVariableTunnelBuildReplyMsg_after(1) [OF assms prod.collapse [symmetric]]] .

lemma HandleI2NPMessage_buf_good:
  assumes "HandleI2NPMessage_buf E msg s = Some s'" and "ptr_order E" and "rinv E s"
  shows "good E s s'"
  using assms HandleVariableTunnelBuildMsg_good [OF _ assms(2,3)] HandleVariableTunnelBuildReplyMsg_good [OF _ assms(2,3)]
    HandleTunnelBuildMsg_good [OF _ assms(3)]
  by (auto simp: HandleI2NPMessage_buf_def bind_eq_Some_conv Let_def split: if_splits)

lemma HandleI2NPMessage_ptr_good:
  assumes "HandleI2NPMessage_ptr E msg s = Some s'" and "ptr_order E" and "rinv E s"
  shows "good E s s'"
proof (cases msg)
  case None
  then show ?thesis using assms by (simp add: HandleI2NPMessage_ptr_def)
next
  case (Some m)
  obtain ty pool where ty: "GetTypeID m = Some ty"
    and pool: "(case mfrom m of None \<Rightarrow> Some None | Some a \<Rightarrow> map_option m_Pool (list_get (inHeap s) a)) = Some pool"
    using assms(1) by (auto simp: HandleI2NPMessage_ptr_def Some bind_eq_Some_conv)
  have p: "p < length (poolHeap s)" if "pool = Some p" for p
    using pool that tunnel_pool_in [OF assms(3)] by (auto simp: list_get_def split: option.splits if_splits)
  show ?thesis
    using assms(1,3) p PostTunnelData_good [OF assms(3)] ProcessGarlicMessage_good [OF assms(3)]
      ProcessDeliveryStatus_good [OF _ assms(3)] HandleI2NPMessage_buf_good [OF _ assms(2,3)]
    by (auto simp: HandleI2NPMessage_ptr_def Some ty pool split: if_splits option.splits)
qed

lemma perform_good:
  assumes "perform E acts s = Some s'" and "ptr_order E" and "rinv E s"
  shows "good E s s'"
  using assms(1,3)
proof (induction acts arbitrary: s)
  case (Cons act acts)
  obtain s1 where 1: "(case act of HandleI2NPMessage m \<Rightarrow> HandleI2NPMessage_ptr E (Some m) s
      | SendMessage to m \<Rightarrow> Some (emit (Transport to [m]) s) | DropForeign \<Rightarrow> Some s | UnknownDelivery \<Rightarrow> Some s) = Some s1"
    and 2: "perform E acts s1 = Some s'"
    using Cons.prems(1) by (auto simp: bind_eq_Some_conv)
  have g: "good E s s1"
    using 1 Cons.prems(2) HandleI2NPMessage_ptr_good [OF _ assms(2) Cons.prems(2)] by (auto split: endpoint_action.splits)
  from good_trans [OF g Cons.IH [OF 2 good_rinv [OF g]]] show ?case .
qed simp

text \<open>Using a transit tunnel does not change the identifier it is filed under.\<close>

lemma Participant_HandleTunnelDataMsg_id:
  "Participant_HandleTunnelDataMsg E A m (t, g) = Some (t', g') \<Longrightarrow> trTunnelID t' = trTunnelID t"
  by (auto simp: Participant_HandleTunnelDataMsg_def Let_def case_prod_beta bind_eq_Some_conv)

lemma Endpoint_HandleTunnelDataMsg_id:
  "Endpoint_HandleTunnelDataMsg E A me m (t, g) = Some (acts, t', g') \<Longrightarrow> trTunnelID t' = trTunnelID t"
  by (auto simp: Endpoint_HandleTunnelDataMsg_def Let_def case_prod_beta bind_eq_Some_conv)

lemma TransitTunnel_HandleTunnelDataMsg_id:
  "TransitTunnel_HandleTunnelDataMsg E A me m (t, g) = Some (acts, t', g') \<Longrightarrow> transit_id t' = transit_id t"
  by (cases t) (auto simp: TransitTunnel_HandleTunnelDataMsg_def transit_id_def
      dest: Participant_HandleTunnelDataMsg_id Endpoint_HandleTunnelDataMsg_id)

lemma TransitTunnel_SendTunnelDataMsg_id:
  "TransitTunnel_SendTunnelDataMsg E m (t, g) = Some (t', g') \<Longrightarrow> transit_id t' = transit_id t"
  by (cases t) (auto simp: TransitTunnel_SendTunnelDataMsg_def Gateway_SendTunnelDataMsg_def transit_id_def)

lemma set_transit_good:
  assumes "rinv E s" and "transit_id t = k"
  shows "good E s (set_transit k t s)"
proof -
  have keys: "map fst (map (\<lambda>e. if fst e = k then (k, (t, snd (snd e))) else e) m) = map fst m" for m :: "(u32, transit \<times> u32) smap"
    by (induction m) auto
  have "transit_ok (map (\<lambda>e. if fst e = k then (k, (t, snd (snd e))) else e) m)" if "transit_ok m" for m
    using that assms(2) unfolding transit_ok_def smap_ok_def keys by auto
  then show ?thesis using assms(1) by (simp add: good_def grows_def rinv_def set_transit_def)
qed

lemma transit_found: "rinv E s \<Longrightarrow> GetTransitTunnel k s = Some (t, ct) \<Longrightarrow> transit_id t = k"
  by (auto simp: GetTransitTunnel_def rinv_def transit_ok_def dest!: map_find_mem)

text \<open>A pointer to a tunnel is valid.\<close>

definition ref_ok :: "'g rstate \<Rightarrow> tunnel_ref \<Rightarrow> bool" where
  "ref_ok s r = (case r of ToInbound a \<Rightarrow> a < length (inHeap s) | ToTransit k \<Rightarrow> True)"

lemma ref_ok_good: "good E s s' \<Longrightarrow> ref_ok s r \<Longrightarrow> ref_ok s' r"
  by (auto simp: ref_ok_def good_def grows_def heap_le_def split: tunnel_ref.splits)

lemma ref_HandleTunnelDataMsg_good:
  assumes "ref_HandleTunnelDataMsg E r m s = Some s'" and "ptr_order E" and "rinv E s" and "ref_ok s r"
  shows "good E s s'"
proof (cases r)
  case (ToInbound a)
  then obtain acts t g where 1: "InboundTunnel_HandleTunnelDataMsg (gen E) (raes E) (self E) a m (inHeap s ! a, world s) = Some (acts, t, g)"
    and 2: "perform E acts (upd_in a (\<lambda>_. t) (s\<lparr>world := g\<rparr>)) = Some s'"
    using assms(1) by (auto simp: ref_HandleTunnelDataMsg_def bind_eq_Some_conv)
  have "good E (s\<lparr>world := g\<rparr>) (upd_in a (\<lambda>_. t) (s\<lparr>world := g\<rparr>))"
    by (rule good_upd_in) (use assms(3,4) ToInbound InboundTunnel_HandleTunnelDataMsg_le [OF 1] in \<open>simp_all add: ref_ok_def\<close>)
  then have g1: "good E s (upd_in a (\<lambda>_. t) (s\<lparr>world := g\<rparr>))"
    by (rule good_trans [rotated]) (use assms(3) in simp)
  from good_trans [OF g1 perform_good [OF 2 assms(2) good_rinv [OF g1]]] show ?thesis .
next
  case (ToTransit k)
  then obtain t ct acts t' g where 1: "GetTransitTunnel k s = Some (t, ct)"
    and 2: "TransitTunnel_HandleTunnelDataMsg (gen E) (raes E) (self E) m (t, world s) = Some (acts, t', g)"
    and 3: "perform E acts (set_transit k t' (s\<lparr>world := g\<rparr>)) = Some s'"
    using assms(1) by (auto simp: ref_HandleTunnelDataMsg_def bind_eq_Some_conv)
  have "good E (s\<lparr>world := g\<rparr>) (set_transit k t' (s\<lparr>world := g\<rparr>))"
    by (rule set_transit_good) (use assms(3) transit_found [OF assms(3) 1] TransitTunnel_HandleTunnelDataMsg_id [OF 2] in simp_all)
  then have g1: "good E s (set_transit k t' (s\<lparr>world := g\<rparr>))"
    by (rule good_trans [rotated]) (use assms(3) in simp)
  from good_trans [OF g1 perform_good [OF 3 assms(2) good_rinv [OF g1]]] show ?thesis .
qed

lemma ref_SendTunnelDataMsg_good:
  assumes "ref_SendTunnelDataMsg E r m s = Some s'" and "rinv E s"
  shows "good E s s'"
proof (cases r)
  case (ToInbound a)
  then show ?thesis using assms by (simp add: ref_SendTunnelDataMsg_def)
next
  case (ToTransit k)
  then obtain t ct t' g where 1: "GetTransitTunnel k s = Some (t, ct)"
    and 2: "TransitTunnel_SendTunnelDataMsg (gen E) m (t, world s) = Some (t', g)" and s': "s' = set_transit k t' (s\<lparr>world := g\<rparr>)"
    using assms(1) by (auto simp: ref_SendTunnelDataMsg_def bind_eq_Some_conv)
  have "good E (s\<lparr>world := g\<rparr>) s'" unfolding s'
    by (rule set_transit_good) (use assms(2) transit_found [OF assms(2) 1] TransitTunnel_SendTunnelDataMsg_id [OF 2] in simp_all)
  then show ?thesis by (rule good_trans [rotated]) (use assms(2) in simp)
qed

lemma set_transit_frame:
  "set_transit k t (s\<lparr>world := g\<rparr>) = (set_transit k t s)\<lparr>world := g\<rparr>" "set_transit k t (emit e s) = emit e (set_transit k t s)"
  by (simp_all add: set_transit_def emit_def)

lemma ref_FlushTunnelDataMsgs_good:
  assumes "ref_FlushTunnelDataMsgs E r s = Some s'" and "rinv E s"
  shows "good E s s'"
proof (cases r)
  case (ToInbound a)
  then show ?thesis using assms by (simp add: ref_FlushTunnelDataMsgs_def)
next
  case (ToTransit k)
  then obtain t ct where 1: "GetTransitTunnel k s = Some (t, ct)"
    using assms(1) by (auto simp: ref_FlushTunnelDataMsgs_def bind_eq_Some_conv)
  note i = transit_found [OF assms(2) 1]
  note st = set_transit_good [OF assms(2)]
  show ?thesis
  proof (cases t)
    case (Participant p)
    obtain sent p' where f: "Participant_FlushTunnelDataMsgs p = (sent, p')" by (cases "Participant_FlushTunnelDataMsgs p")
    have "trTunnelID p' = trTunnelID p" using f by (auto simp: Participant_FlushTunnelDataMsgs_def split: if_splits)
    then have "good E s (set_transit k (Participant p') s)" using st [of "Participant p'" k] i Participant by (simp add: transit_id_def)
    then show ?thesis using assms(1) ToTransit 1 Participant f
      by (auto simp: ref_FlushTunnelDataMsgs_def set_transit_frame split: if_splits)
  next
    case (Gateway gw)
    obtain sent gw' g where f: "Gateway_FlushTunnelDataMsgs (gen E) (raes E) (gw, world s) = Some (sent, gw', g)"
      and s': "s' = set_transit k (Gateway gw') (emit (Transport (trNextIdent gw) sent) (s\<lparr>world := g\<rparr>))"
      using assms(1) ToTransit 1 Gateway by (auto simp: ref_FlushTunnelDataMsgs_def bind_eq_Some_conv)
    have "trTunnelID gw' = trTunnelID gw" using f by (auto simp: Gateway_FlushTunnelDataMsgs_def)
    then have "good E s (set_transit k (Gateway gw') s)" using st [of "Gateway gw'" k] i Gateway by (simp add: transit_id_def)
    then show ?thesis by (simp add: s' set_transit_frame)
  next
    case (Endpoint ep)
    then show ?thesis using assms ToTransit 1 by (simp add: ref_FlushTunnelDataMsgs_def)
  qed
qed

lemma HandleTunnelGatewayMsg_good:
  assumes "HandleTunnelGatewayMsg E r m s = Some s'" and "rinv E s"
  shows "good E s s'"
proof (cases r)
  case None
  then show ?thesis using assms by (simp add: HandleTunnelGatewayMsg_def)
next
  case (Some t)
  then obtain s1 m' where 1: "s1 = s \<or> (\<exists>e. s1 = emit e s)" and 2: "ref_SendTunnelDataMsg E t m' s1 = Some s'"
    using assms(1) by (auto simp: HandleTunnelGatewayMsg_def bind_eq_Some_conv Let_def split: if_splits)
  have g: "good E s s1" using 1 assms(2) by auto
  from good_trans [OF g ref_SendTunnelDataMsg_good [OF 2 good_rinv [OF g]]] show ?thesis .
qed

lemma find_tunnel_ok:
  assumes "find_tunnel ty tid r s = Some r'" and "rinv E s" and "\<And>x. r = Some x \<Longrightarrow> ref_ok s x"
  shows "ref_ok s r'"
proof -
  have "a < length (inHeap s)" if "Tunnels_GetInboundTunnel tid s = Some a" for a
    using that assms(2) by (force simp: Tunnels_GetInboundTunnel_def rinv_def inbound_ok_def listed_ok_def dest!: map_find_mem)
  then show ?thesis using assms(1,3) by (auto simp: find_tunnel_def Let_def ref_ok_def split: if_splits)
qed

lemma run_message_good:
  assumes "run_message E pid tid0 prev m s = Some (tid, r, s')" and "ptr_order E" and "rinv E s" and "\<And>x. prev = Some x \<Longrightarrow> ref_ok s x"
  shows "good E s s'" and "\<And>x. r = Some x \<Longrightarrow> ref_ok s' x"
proof -
  obtain ty where ty: "GetTypeID m = Some ty" using assms(1) by (auto simp: run_message_def bind_eq_Some_conv)
  have "good E s s' \<and> (\<forall>x. r = Some x \<longrightarrow> ref_ok s' x)"
  proof (cases "ty = eI2NPTunnelData \<or> ty = eI2NPTunnelGateway")
    case False
    then show ?thesis using assms(1,3) HandleI2NPMessage_buf_good [OF _ assms(2,3)]
      by (auto simp: run_message_def ty bind_eq_Some_conv split: if_splits)
  next
    case True
    then obtain s1 where 1: "(if tid = pid then Some s else case prev of Some r \<Rightarrow> ref_FlushTunnelDataMsgs E r s | None \<Rightarrow> Some s) = Some s1"
      and r: "r = find_tunnel ty tid (if tid = pid then prev else None) s1"
      and 2: "(case r of Some x \<Rightarrow> if ty = eI2NPTunnelData then ref_HandleTunnelDataMsg E x m s1 else HandleTunnelGatewayMsg E (Some x) m s1
               | None \<Rightarrow> Some s1) = Some s'"
      using assms(1) by (auto simp: run_message_def ty Let_def bind_eq_Some_conv split del: if_split)
    have g1: "good E s s1" using 1 assms(3) ref_FlushTunnelDataMsgs_good [OF _ assms(3)] by (auto split: if_splits option.splits)
    have ok1: "ref_ok s1 x" if "r = Some x" for x
      by (rule find_tunnel_ok [OF _ good_rinv [OF g1]]) (use that r ref_ok_good [OF g1] assms(4) in \<open>auto split: if_splits\<close>)
    have g2: "good E s1 s'"
      using 2 good_rinv [OF g1] ok1 ref_HandleTunnelDataMsg_good [OF _ assms(2) good_rinv [OF g1]] HandleTunnelGatewayMsg_good [OF _ good_rinv [OF g1]]
      by (auto split: option.splits if_splits)
    show ?thesis using good_trans [OF g1 g2] ok1 ref_ok_good [OF g2] by blast
  qed
  then show "good E s s'" "\<And>x. r = Some x \<Longrightarrow> ref_ok s' x" by blast+
qed

lemma queue_tail_good: "rinv E s \<Longrightarrow> Queue_Get (m_Queue s) = (e, q) \<Longrightarrow> good E s (s\<lparr>m_Queue := q\<rparr>)"
  by (cases "m_Queue s") (auto simp: good_def grows_def rinv_def q_ok_def)

lemma run_batch_good:
  assumes "run_batch fuel E pid tid prev m s = Some s'" and "ptr_order E" and "rinv E s" and "\<And>x. prev = Some x \<Longrightarrow> ref_ok s x"
  shows "good E s s'"
  using assms(1,3,4)
proof (induction fuel arbitrary: pid tid prev m s)
  case (Suc fuel)
  obtain tid1 r s1 where 1: "run_message E pid tid prev m s = Some (tid1, r, s1)" using Suc.prems(1) by (auto simp: bind_eq_Some_conv)
  have g1: "good E s s1" by (rule run_message_good(1) [OF 1 assms(2) Suc.prems(2)]) (rule Suc.prems(3))
  have ok1: "\<And>x. r = Some x \<Longrightarrow> ref_ok s1 x" by (rule run_message_good(2) [OF 1 assms(2) Suc.prems(2)]) (rule Suc.prems(3))
  obtain e q where 2: "Queue_Get (m_Queue s1) = (e, q)" by (cases "Queue_Get (m_Queue s1)")
  note g2 = good_trans [OF g1 queue_tail_good [OF good_rinv [OF g1] 2]]
  show ?case
  proof (cases e)
    case None
    then show ?thesis
      using Suc.prems(1) 1 2 g2 good_trans [OF g2 ref_FlushTunnelDataMsgs_good [OF _ good_rinv [OF g2]]]
      by (auto simp: Let_def split: option.splits)
  next
    case (Some m2)
    then have "run_batch fuel E tid1 tid1 r m2 (s1\<lparr>m_Queue := q\<rparr>) = Some s'" using Suc.prems(1) 1 2 by simp
    then have "good E (s1\<lparr>m_Queue := q\<rparr>) s'"
      by (rule Suc.IH [OF _ good_rinv [OF g2]]) (use ok1 in \<open>auto simp: ref_ok_def split: tunnel_ref.splits\<close>)
    with g2 show ?thesis by (rule good_trans)
  qed
qed simp

lemma run_round_good:
  assumes "run_round fuel E arrived lastTs s = Some (ts, s')" and "ptr_order E" and "rinv E s" and "list_all (\<lambda>e. e \<noteq> None) arrived"
  shows "good E s s'"
proof -
  obtain msg q where 1: "GetNextWithTimeout arrived (m_Queue s) = (msg, q)" by (cases "GetNextWithTimeout arrived (m_Queue s)")
  have "q_ok (m_Queue s)" using assms(3) by (simp add: rinv_def)
  then have "q_ok q" using call_in_order(2) [of "m_Queue s" "CGetNext arrived"] assms(4) 1 by simp
  then have g1: "good E s (s\<lparr>m_Queue := q\<rparr>)" using assms(3) by (simp add: good_def grows_def rinv_def)
  obtain s2 where 2: "(case msg of Some m \<Rightarrow> run_batch fuel E 0 0 None m (s\<lparr>m_Queue := q\<rparr>) | None \<Rightarrow> Some (s\<lparr>m_Queue := q\<rparr>)) = Some s2"
    using assms(1) by (auto simp: run_round_def 1 Let_def bind_eq_Some_conv)
  have "good E (s\<lparr>m_Queue := q\<rparr>) s2"
  proof (cases msg)
    case (Some m)
    with 2 have "run_batch fuel E 0 0 None m (s\<lparr>m_Queue := q\<rparr>) = Some s2" by simp
    then show ?thesis by (rule run_batch_good [OF _ assms(2) good_rinv [OF g1]]) simp
  qed (use 2 good_rinv [OF g1] in simp)
  with g1 have g2: "good E s s2" by (rule good_trans)
  obtain now s3 where 3: "ask (seconds E) s2 = (now, s3)" by (cases "ask (seconds E) s2")
  have g3: "good E s s3" by (rule good_trans [OF g2 good_ask [OF 3 good_rinv [OF g2]]])
  show ?thesis
    using assms(1) g3 good_trans [OF g3 ManageTunnels_good [OF _ assms(2) good_rinv [OF g3]]]
    by (auto simp: run_round_def 1 2 3 split: if_splits)
qed

lemma PutNextMessage_good:
  assumes "PutNextMessage E msg (h, s) = Some (h', s')" and "ptr_order E" and "rinv E s"
  shows "good E s s'"
  using assms HandleI2NPMessage_ptr_good [OF _ assms(2,3)]
  by (auto simp: PutNextMessage_def bind_eq_Some_conv split: option.splits if_splits)

lemma Flush_good:
  assumes "Flush (h, s) = (h', s')" and "rinv E s"
  shows "good E s s'"
  using assms PostTunnelDatas_good [OF assms(2)]
    good_trans [OF PostTunnelDatas_good [OF assms(2)] PostTunnelDatas_good [OF good_rinv [OF PostTunnelDatas_good [OF assms(2)]]]]
  by (auto simp: Flush_def Let_def split: if_splits)

section \<open>Runs of the router\<close>

text \<open>
  The steps of the tunnel subsystem: a round of the tunnel thread, what transports and local
  destinations call from their threads, and the passing of time. Each call holds the locks it needs,
  so a run of the router is a sequence of such steps.
\<close>

inductive router_step :: "'g renv \<Rightarrow> 'g rstate \<Rightarrow> 'g rstate \<Rightarrow> bool" for E where
  round: "run_round fuel E arrived lastTs s = Some (ts, s') \<Longrightarrow> list_all (\<lambda>e. e \<noteq> None) arrived \<Longrightarrow> router_step E s s'"
| received: "HandleI2NPMessage_ptr E msg s = Some s' \<Longrightarrow> router_step E s s'"
| put: "PutNextMessage E msg (h, s) = Some (h', s') \<Longrightarrow> router_step E s s'"
| flush: "Flush (h, s) = (h', s') \<Longrightarrow> router_step E s s'"
| posted: "router_step E s (PostTunnelData msg s)"
| posted_all: "router_step E s (PostTunnelDatas msgs s)"
| sent: "send_out E a gwHash gwTunnel msg s = Some s' \<Longrightarrow> a < length (outHeap s) \<Longrightarrow> router_step E s s'"
| new_pool: "CreateTunnelPool dest a b c d s = (p, s') \<Longrightarrow> router_step E s s'"
| explicit: "p < length (poolHeap s) \<Longrightarrow> router_step E s (upd_pool p (SetExplicitPeers peers) s)"
| stop_pool: "p < length (poolHeap s) \<Longrightarrow> router_step E s (StopTunnelPool (Some p) s)"
| delete_pool: "p < length (poolHeap s) \<Longrightarrow> router_step E s (DeleteTunnelPool (Some p) s)"
| paired: "CreatePairedInboundTunnel E p ot s = Some s' \<Longrightarrow> p < length (poolHeap s) \<Longrightarrow> ot < length (outHeap s) \<Longrightarrow> router_step E s s'"
| time: "router_step E s (s\<lparr>world := g\<rparr>)"

inductive_cases router_stepE: "router_step E s s'"

lemma router_step_good:
  assumes "router_step E s s'" and "ptr_order E" and "rinv E s"
  shows "good E s s'"
  using assms
proof (induction rule: router_step.induct)
  case (round fuel arrived lastTs s ts s')
  then show ?case by (auto intro: run_round_good)
next
  case (received msg s s')
  then show ?case by (auto intro: HandleI2NPMessage_ptr_good)
next
  case (put msg h s h' s')
  then show ?case by (auto intro: PutNextMessage_good)
next
  case (stop_pool p s)
  then show ?case by (intro StopTunnelPool_good) auto
next
  case (delete_pool p s)
  then show ?case by (intro DeleteTunnelPool_good) auto
next
  case (paired p ot s s')
  then show ?case by (auto intro: CreatePairedInboundTunnel_good)
qed (auto intro: Flush_good PostTunnelData_good PostTunnelDatas_good send_out_good CreateTunnelPool_good SetExplicitPeers_good)

lemma router_steps_good:
  assumes "(router_step E)\<^sup>*\<^sup>* s s'" and "ptr_order E" and "rinv E s"
  shows "good E s s'"
  using assms
proof (induction rule: rtranclp_induct)
  case (step s1 s2)
  then show ?case using good_trans router_step_good good_rinv by blast
qed simp

text \<open>
  C9. In every reachable state of the router: all pointers lead to objects; the tables of tunnels hold
  only tunnels that were built, filed under their identifiers, none of them twice; a pool holds only
  tunnels that belong to it, newest first; a pending tunnel has one reply identifier; running tests
  name built tunnels; and the message queue has no null pointer.
\<close>

theorem router_invariant:
  assumes "ptr_order E" and "(router_step E)\<^sup>*\<^sup>* (newTunnels g) s"
  shows "rinv E s"
  using router_steps_good [OF assms(2,1)] by (simp add: good_def)

text \<open>
  C15. The life of a tunnel only moves forward, over any run of the router from a state that satisfies
  the invariant: a tunnel that was refused stays refused, one that was built is never pending again,
  and its creation time and its hops (router and tunnel identifiers) do not change.
\<close>

theorem tunnel_life:
  assumes "ptr_order E" and "rinv E s" and "(router_step E)\<^sup>*\<^sup>* s s'"
  shows "(\<forall>a < length (inHeap s). a < length (inHeap s') \<and> tunnel_le (inHeap s ! a) (inHeap s' ! a)) \<and>
         (\<forall>a < length (outHeap s). a < length (outHeap s') \<and> tunnel_le (outHeap s ! a) (outHeap s' ! a))"
  using router_steps_good [OF assms(3,1,2)] by (auto simp: good_def grows_def heap_le_def)

section \<open>Inside a round\<close>

text \<open>
  A round of the tunnel thread is a sequence of parts, between which the state can be observed: messages of
  the batch are handled one by one, and other components act between them.
\<close>

inductive round_part :: "'g renv \<Rightarrow> 'g rstate \<Rightarrow> 'g rstate \<Rightarrow> bool" for E where
  arrived: "GetNextWithTimeout arrived (m_Queue s) = (msg, q) \<Longrightarrow> list_all (\<lambda>e. e \<noteq> None) arrived \<Longrightarrow>
    round_part E s (s\<lparr>m_Queue := q\<rparr>)"
| message: "run_message E pid tid prev m s = Some (tid', r, s') \<Longrightarrow> (\<forall>x. prev = Some x \<longrightarrow> ref_ok s x) \<Longrightarrow> round_part E s s'"
| nextMessage: "Queue_Get (m_Queue s) = (e, q) \<Longrightarrow> round_part E s (s\<lparr>m_Queue := q\<rparr>)"
| flushed: "ref_FlushTunnelDataMsgs E r s = Some s' \<Longrightarrow> round_part E s s'"
| clock: "ask (seconds E) s = (now, s') \<Longrightarrow> round_part E s s'"
| manage: "ManageTunnels E s = Some s' \<Longrightarrow> round_part E s s'"

lemma arrived_good:
  assumes "GetNextWithTimeout arrived (m_Queue s) = (msg, q)" and "list_all (\<lambda>e. e \<noteq> None) arrived" and "rinv E s"
  shows "good E s (s\<lparr>m_Queue := q\<rparr>)"
proof -
  have "q_ok (m_Queue s)" using assms(3) by (simp add: rinv_def)
  then have "q_ok q" using call_in_order(2) [of "m_Queue s" "CGetNext arrived"] assms(1,2) by simp
  then show ?thesis using assms(3) by (simp add: good_def grows_def rinv_def)
qed

lemma round_part_good:
  assumes "round_part E s s'" and "ptr_order E" and "rinv E s"
  shows "good E s s'"
  using assms
proof (induction rule: round_part.induct)
  case (message pid tid prev m s tid' r s')
  then show ?case by (intro run_message_good(1) [OF message.hyps(1)]) auto
qed (auto intro: arrived_good queue_tail_good ref_FlushTunnelDataMsgs_good good_ask ManageTunnels_good)

lemma run_batch_parts:
  assumes "run_batch fuel E pid tid prev m s = Some s'" and "ptr_order E" and "rinv E s" and "\<And>x. prev = Some x \<Longrightarrow> ref_ok s x"
  shows "(round_part E)\<^sup>*\<^sup>* s s'"
  using assms(1,3,4)
proof (induction fuel arbitrary: pid tid prev m s)
  case (Suc fuel)
  obtain tid1 r s1 where 1: "run_message E pid tid prev m s = Some (tid1, r, s1)" using Suc.prems(1) by (auto simp: bind_eq_Some_conv)
  obtain e q where 2: "Queue_Get (m_Queue s1) = (e, q)" by (cases "Queue_Get (m_Queue s1)")
  have p1: "round_part E s s1" by (rule round_part.message [OF 1]) (use Suc.prems(3) in blast)
  have p2: "round_part E s1 (s1\<lparr>m_Queue := q\<rparr>)" by (rule round_part.nextMessage [OF 2])
  note g1 = round_part_good [OF p1 assms(2) Suc.prems(2)]
  note g2 = round_part_good [OF p2 assms(2) good_rinv [OF g1]]
  have ok1: "\<And>x. r = Some x \<Longrightarrow> ref_ok s1 x" by (rule run_message_good(2) [OF 1 assms(2) Suc.prems(2)]) (rule Suc.prems(3))
  have "(round_part E)\<^sup>*\<^sup>* (s1\<lparr>m_Queue := q\<rparr>) s'"
  proof (cases e)
    case None
    then show ?thesis using Suc.prems(1) 1 2 by (auto simp: Let_def intro: round_part.flushed split: option.splits)
  next
    case (Some m2)
    then have "run_batch fuel E tid1 tid1 r m2 (s1\<lparr>m_Queue := q\<rparr>) = Some s'" using Suc.prems(1) 1 2 by simp
    then show ?thesis
      by (rule Suc.IH [OF _ good_rinv [OF g2]]) (use ok1 in \<open>auto simp: ref_ok_def split: tunnel_ref.splits\<close>)
  qed
  then show ?case using p1 p2 by (meson converse_rtranclp_into_rtranclp)
qed simp

lemma run_round_parts:
  assumes "run_round fuel E arrived lastTs s = Some (ts, s')" and "ptr_order E" and "rinv E s" and "list_all (\<lambda>e. e \<noteq> None) arrived"
  shows "(round_part E)\<^sup>*\<^sup>* s s'"
proof -
  obtain msg q where 1: "GetNextWithTimeout arrived (m_Queue s) = (msg, q)" by (cases "GetNextWithTimeout arrived (m_Queue s)")
  have p1: "round_part E s (s\<lparr>m_Queue := q\<rparr>)" by (rule round_part.arrived [OF 1 assms(4)])
  note g1 = round_part_good [OF p1 assms(2,3)]
  obtain s2 where 2: "(case msg of Some m \<Rightarrow> run_batch fuel E 0 0 None m (s\<lparr>m_Queue := q\<rparr>) | None \<Rightarrow> Some (s\<lparr>m_Queue := q\<rparr>)) = Some s2"
    using assms(1) by (auto simp: run_round_def 1 Let_def bind_eq_Some_conv)
  have p2: "(round_part E)\<^sup>*\<^sup>* (s\<lparr>m_Queue := q\<rparr>) s2"
  proof (cases msg)
    case (Some m)
    with 2 have "run_batch fuel E 0 0 None m (s\<lparr>m_Queue := q\<rparr>) = Some s2" by simp
    then show ?thesis by (rule run_batch_parts [OF _ assms(2) good_rinv [OF g1]]) simp
  qed (use 2 in simp)
  obtain now s3 where 3: "ask (seconds E) s2 = (now, s3)" by (cases "ask (seconds E) s2")
  have "s' = s3 \<or> ManageTunnels E s3 = Some s'" using assms(1) by (auto simp: run_round_def 1 2 3 split: if_splits)
  then have "(round_part E)\<^sup>*\<^sup>* s3 s'" using round_part.manage by auto
  then show ?thesis using p1 p2 round_part.clock [OF 3] by (meson converse_rtranclp_into_rtranclp rtranclp_trans)
qed

text \<open>All that can happen to the state, with rounds cut into their parts.\<close>

definition router_moves :: "'g renv \<Rightarrow> 'g rstate \<Rightarrow> 'g rstate \<Rightarrow> bool" where
  "router_moves E = (\<lambda>s s'. router_step E s s' \<or> round_part E s s')\<^sup>*\<^sup>*"

lemma router_moves_good:
  assumes "router_moves E s s'" and "ptr_order E" and "rinv E s"
  shows "good E s s'"
  using assms unfolding router_moves_def
proof (induction rule: rtranclp_induct)
  case (step s1 s2)
  then have g: "good E s s1" by blast
  have "good E s1 s2" using step(2) router_step_good round_part_good assms(2) good_rinv [OF g] by blast
  with g show ?case by (rule good_trans)
qed simp

lemma settled_state: "2 \<le> phase (m_State t) \<Longrightarrow> m_State t \<noteq> eTunnelStatePending \<and> m_State t \<noteq> eTunnelStateBuildReplyReceived"
  by auto

lemma not_pending_again:
  assumes "good E s s'"
  shows "a < length (inHeap s) \<Longrightarrow> 2 \<le> phase (m_State (inHeap s ! a)) \<Longrightarrow> fst (GetPendingInboundTunnel r s') \<noteq> Some a"
    and "a < length (outHeap s) \<Longrightarrow> 2 \<le> phase (m_State (outHeap s ! a)) \<Longrightarrow> fst (GetPendingOutboundTunnel r s') \<noteq> Some a"
  using assms
  by (auto simp: good_def grows_def heap_le_def tunnel_le_def evolves_def GetPendingInboundTunnel_def GetPendingOutboundTunnel_def
      split: option.splits if_splits)

text \<open>
  C16. Build replies are used at most once. When the handler of a build reply gets a pending outbound tunnel, or
  the handler of a build message a pending inbound tunnel of its own, then behind the whole handler the
  tunnel is no longer pending but built or refused, and after whatever the router does next, the rest of the
  same batch included, no reply with any identifier gets this tunnel again.
\<close>

theorem build_reply_once:
  assumes "ptr_order E" and "rinv E s"
  shows "(\<forall>a buf s1 s2 replyMsgID'. fst (GetPendingOutboundTunnel replyMsgID s) = Some a \<and>
        HandleVariableTunnelBuildReplyMsg E replyMsgID buf s = Some s1 \<and> router_moves E s1 s2 \<longrightarrow>
      m_State (outHeap s1 ! a) \<notin> {eTunnelStatePending, eTunnelStateBuildReplyReceived} \<and>
      fst (GetPendingOutboundTunnel replyMsgID' s2) \<noteq> Some a) \<and>
    (\<forall>a buf len s1 s2 replyMsgID'. fst (GetPendingInboundTunnel replyMsgID s) = Some a \<and>
        HandleVariableTunnelBuildMsg E replyMsgID buf len s = Some s1 \<and> router_moves E s1 s2 \<longrightarrow>
      m_State (inHeap s1 ! a) \<notin> {eTunnelStatePending, eTunnelStateBuildReplyReceived} \<and>
      fst (GetPendingInboundTunnel replyMsgID' s2) \<noteq> Some a)"
proof -
  have "m_State (outHeap s1 ! a) \<notin> {eTunnelStatePending, eTunnelStateBuildReplyReceived} \<and> fst (GetPendingOutboundTunnel r' s2) \<noteq> Some a"
    if h: "fst (GetPendingOutboundTunnel replyMsgID s) = Some a" "HandleVariableTunnelBuildReplyMsg E replyMsgID buf s = Some s1"
      "router_moves E s1 s2" for a buf s1 s2 r'
  proof -
    obtain s0 where 0: "GetPendingOutboundTunnel replyMsgID s = (Some a, s0)" using h(1) by (metis prod.collapse)
    note g = HandleVariableTunnelBuildReplyMsg_after [OF h(2) assms 0]
    have "a < length (outHeap s0)" using GetPendingOutboundTunnel_good(2) [OF 0 assms(2), of a] by (simp add: upd_out_def)
    then have "a < length (outHeap s1)" using g(1) by (simp add: good_def grows_def heap_le_def)
    from not_pending_again(2) [OF router_moves_good [OF h(3) assms(1) good_rinv [OF g(1)]] this] show ?thesis using g(2) by (simp add: settled_state)
  qed
  moreover have "m_State (inHeap s1 ! a) \<notin> {eTunnelStatePending, eTunnelStateBuildReplyReceived} \<and> fst (GetPendingInboundTunnel r' s2) \<noteq> Some a"
    if h: "fst (GetPendingInboundTunnel replyMsgID s) = Some a" "HandleVariableTunnelBuildMsg E replyMsgID buf len s = Some s1"
      "router_moves E s1 s2" for a buf len s1 s2 r'
  proof -
    obtain s0 where 0: "GetPendingInboundTunnel replyMsgID s = (Some a, s0)" using h(1) by (metis prod.collapse)
    note g = HandleVariableTunnelBuildMsg_after [OF h(2) assms 0]
    have "a < length (inHeap s0)" using GetPendingInboundTunnel_good(2) [OF 0 assms(2), of a] by (simp add: upd_in_def)
    then have "a < length (inHeap s1)" using g(1) by (simp add: good_def grows_def heap_le_def)
    from not_pending_again(1) [OF router_moves_good [OF h(3) assms(1) good_rinv [OF g(1)]] this] show ?thesis using g(2) by (simp add: settled_state)
  qed
  ultimately show ?thesis by blast
qed

end
