(* ===== verification/Router_Batch.thy ===== *)
theory Router_Batch
  imports Router_Steps
begin

text \<open>
  The batches of the tunnel thread: what happens to the tunnel messages a router forwards as a
  participant. The file ends with a small router on which the theorems are applied.
\<close>

section \<open>Batches of the tunnel thread\<close>

text \<open>Messages waiting in a transit tunnel, in all of them, and messages handed to the transports.\<close>

definition waiting :: "transit \<Rightarrow> nat" where
  "waiting t = (case t of Participant p \<Rightarrow> length (m_TunnelDataMsgs p) | _ \<Rightarrow> 0)"

definition buffered :: "'g rstate \<Rightarrow> nat" where
  "buffered s = sum_list (map (\<lambda>e. waiting (fst (snd e))) (m_TransitTunnels s))"

definition sent_msgs :: "'g rstate \<Rightarrow> nat" where
  "sent_msgs s = sum_list (map (\<lambda>e. case e of Transport to ms \<Rightarrow> length ms | _ \<Rightarrow> 0) (events s))"

text \<open>A tunnel message for a participant of this router.\<close>

definition for_participant :: "'g rstate \<Rightarrow> I2NPMessage \<Rightarrow> bool" where
  "for_participant s m \<longleftrightarrow> GetTypeID m = Some eI2NPTunnelData \<and> (\<exists>X. wire m X) \<and>
     (\<exists>tid. bufbe32toh (GetPayload m) (mbuf m) = Some tid \<and> map_find tid (m_InboundTunnels s) = None \<and>
        (\<exists>p ct. map_find tid (m_TransitTunnels s) = Some (Participant p, ct)))"

text \<open>All tunnels are flushed, except perhaps the one the last message was for.\<close>

definition flushed_but :: "'g rstate \<Rightarrow> tunnel_ref option \<Rightarrow> bool" where
  "flushed_but s r \<longleftrightarrow> (\<forall>e \<in> set (m_TransitTunnels s). waiting (fst (snd e)) = 0 \<or> r = Some (ToTransit (fst e)))"

lemma sum_set_transit:
  assumes "distinct (map fst m)" and "map_of m k = Some (t, c)"
  shows "sum_list (map (\<lambda>e. f (fst (snd e))) (map (\<lambda>e. if fst e = k then (k, (t', snd (snd e))) else e) m)) + f t =
         sum_list (map (\<lambda>e. f (fst (snd e))) m) + (f t' :: nat)"
  using assms
proof (induction m)
  case (Cons e m)
  show ?case
  proof (cases "fst e = k")
    case True
    then have "fst x \<noteq> k" if "x \<in> set m" for x using Cons.prems(1) that by (metis distinct.simps(2) image_eqI list.set_map list.simps(9))
    then have "map (\<lambda>e. if fst e = k then (k, (t', snd (snd e))) else e) m = m" by (simp add: map_idI)
    moreover have "snd e = (t, c)" using Cons.prems(2) True by (cases e) simp
    ultimately show ?thesis using True by (simp add: comp_def)
  next
    case False
    then have "map_of m k = Some (t, c)" using Cons.prems(2) by (cases e) simp
    then show ?thesis using Cons False by simp
  qed
qed simp

lemma buffered_set_transit:
  assumes "smap_ok (m_TransitTunnels s)" and "map_find k (m_TransitTunnels s) = Some (t, c)"
  shows "buffered (set_transit k t' s) + waiting t = buffered s + waiting t'"
  using sum_set_transit [OF smap_ok_distinct [OF assms(1)], of k t c waiting t'] assms(2)
  by (simp add: buffered_def set_transit_def map_find_def)

lemma find_set_transit:
  "map_find k' (m_TransitTunnels (set_transit k t' s)) =
     (if k' = k then map_option (\<lambda>e. (t', snd e)) (map_find k (m_TransitTunnels s)) else map_find k' (m_TransitTunnels s))"
proof -
  have "map_of (map (\<lambda>e. if fst e = k then (k, (t', snd (snd e))) else e) m) k' =
      (if k' = k then map_option (\<lambda>e. (t', snd e)) (map_of m k) else map_of m k')" for m :: "(u32, transit \<times> u32) smap"
    by (induction m) auto
  then show ?thesis by (simp add: set_transit_def map_find_def)
qed

lemma smap_ok_set_transit: "smap_ok (m_TransitTunnels (set_transit k t s)) = smap_ok (m_TransitTunnels s)"
proof -
  have "map fst (map (\<lambda>e. if fst e = k then (k, (t, snd (snd e))) else e) m) = map fst m" for m :: "(u32, transit \<times> u32) smap"
    by (induction m) auto
  then show ?thesis by (simp add: smap_ok_def set_transit_def del: map_map)
qed

lemma set_transit_fields [simp]:
  "events (set_transit k t s) = events s" "m_Queue (set_transit k t s) = m_Queue s" "world (set_transit k t s) = world s"
  "m_InboundTunnels (set_transit k t s) = m_InboundTunnels s"
  by (simp_all add: set_transit_def)

lemma emit_fields [simp]:
  "m_TransitTunnels (emit e s) = m_TransitTunnels s" "m_Queue (emit e s) = m_Queue s" "m_InboundTunnels (emit e s) = m_InboundTunnels s"
  by (simp_all add: emit_def)

lemma sent_msgs_simps [simp]:
  "sent_msgs (set_transit k t s) = sent_msgs s" "sent_msgs (s\<lparr>world := g\<rparr>) = sent_msgs s" "sent_msgs (s\<lparr>m_Queue := q\<rparr>) = sent_msgs s"
  "sent_msgs (emit (Transport to ms) s) = sent_msgs s + length ms"
  by (simp_all add: sent_msgs_def emit_def)

lemma buffered_simps [simp]:
  "buffered (emit e s) = buffered s" "buffered (s\<lparr>world := g\<rparr>) = buffered s" "buffered (s\<lparr>m_Queue := q\<rparr>) = buffered s"
  by (simp_all add: buffered_def)

lemma flushed_but_set_transit:
  assumes "flushed_but s r" and "smap_ok (m_TransitTunnels s)" and "waiting t = 0 \<or> r' = Some (ToTransit k)"
    and "r = None \<or> r = Some (ToTransit k)"
  shows "flushed_but (set_transit k t s) r'"
  using assms by (auto simp: flushed_but_def set_transit_def)

text \<open>What the loop maintains: \<open>n\<close> messages are accounted for.\<close>

definition batch_inv :: "'g rstate \<Rightarrow> u32 \<Rightarrow> tunnel_ref option \<Rightarrow> nat \<Rightarrow> bool" where
  "batch_inv s pid r n \<longleftrightarrow> smap_ok (m_TransitTunnels s) \<and> flushed_but s r \<and> sent_msgs s + buffered s = n \<and>
     (r = None \<or> r = Some (ToTransit pid) \<and> (\<exists>p ct. map_find pid (m_TransitTunnels s) = Some (Participant p, ct)))"

definition same_kinds :: "'g rstate \<Rightarrow> 'g rstate \<Rightarrow> bool" where
  "same_kinds s s' \<longleftrightarrow> m_InboundTunnels s' = m_InboundTunnels s \<and> m_Queue s' = m_Queue s \<and>
     (\<forall>k. (\<exists>p ct. map_find k (m_TransitTunnels s) = Some (Participant p, ct)) \<longrightarrow>
          (\<exists>p ct. map_find k (m_TransitTunnels s') = Some (Participant p, ct)))"

lemma same_kinds_for: "same_kinds s s' \<Longrightarrow> for_participant s m \<Longrightarrow> for_participant s' m"
  by (fastforce simp: same_kinds_def for_participant_def)

lemma same_kinds_trans: "same_kinds s s' \<Longrightarrow> same_kinds s' s'' \<Longrightarrow> same_kinds s s''"
  by (fastforce simp: same_kinds_def)

lemma flush_prev:
  assumes "batch_inv s pid (Some r) n"
  shows "\<exists>s'. ref_FlushTunnelDataMsgs E r s = Some s' \<and> batch_inv s' pid' None n \<and> same_kinds s s'"
proof -
  obtain p ct where r: "r = ToTransit pid" and p: "map_find pid (m_TransitTunnels s) = Some (Participant p, ct)"
    and ok: "smap_ok (m_TransitTunnels s)" and fl: "flushed_but s (Some (ToTransit pid))" and n: "sent_msgs s + buffered s = n"
    using assms by (auto simp: batch_inv_def)
  obtain sent p' where f: "Participant_FlushTunnelDataMsgs p = (sent, p')" by (cases "Participant_FlushTunnelDataMsgs p")
  have fp: "sent = m_TunnelDataMsgs p" "m_TunnelDataMsgs p' = []" using f by (auto simp: Participant_FlushTunnelDataMsgs_def split: if_splits)
  let ?e = "if sent \<noteq> [] then emit (Transport (trNextIdent p) sent) s else s"
  let ?s = "set_transit pid (Participant p') ?e"
  have w: "waiting (Participant p') = 0" "waiting (Participant p) = length sent" by (simp_all add: waiting_def fp)
  have pe: "map_find pid (m_TransitTunnels ?e) = Some (Participant p, ct)" "smap_ok (m_TransitTunnels ?e)" "flushed_but ?e (Some (ToTransit pid))"
    using p ok fl by (simp_all add: flushed_but_def)
  have "ref_FlushTunnelDataMsgs E r s = Some ?s"
    by (simp add: ref_FlushTunnelDataMsgs_def r GetTransitTunnel_def p f)
  moreover have "batch_inv ?s pid' None n"
  proof -
    have "buffered ?s + length sent = buffered s"
      using buffered_set_transit [OF pe(2,1), of "Participant p'"] w by (cases "sent = []") simp_all
    moreover have "sent_msgs ?s = sent_msgs s + length sent" by simp
    moreover have "flushed_but ?s None" by (rule flushed_but_set_transit [OF pe(3,2)]) (simp_all add: w)
    ultimately show ?thesis using n pe(2) by (simp add: batch_inv_def smap_ok_set_transit)
  qed
  moreover have "same_kinds s ?s" by (auto simp: same_kinds_def find_set_transit p)
  ultimately show ?thesis by blast
qed

lemma handle_participant:
  assumes ok: "genv_ok (gen E)" "aes_ok (raes E)" and w: "wire m X"
    and p: "map_find k (m_TransitTunnels s) = Some (Participant p, ct)" and b: "batch_inv s pid r n"
    and r: "r = None \<or> r = Some (ToTransit k)"
  shows "\<exists>s'. ref_HandleTunnelDataMsg E (ToTransit k) m s = Some s' \<and> batch_inv s' k (Some (ToTransit k)) (n + 1) \<and>
    same_kinds s s' \<and> sent_msgs s' = sent_msgs s"
proof -
  obtain p' g' m' where h: "Participant_HandleTunnelDataMsg (gen E) (raes E) m (p, world s) = Some (p', g')"
    and q: "m_TunnelDataMsgs p' = m_TunnelDataMsgs p @ [m']"
    using Participant_is [OF ok w, of p "world s"] by blast
  let ?s = "set_transit k (Participant p') (s\<lparr>world := g'\<rparr>)"
  have "ref_HandleTunnelDataMsg E (ToTransit k) m s = Some ?s"
    by (simp add: ref_HandleTunnelDataMsg_def GetTransitTunnel_def p TransitTunnel_HandleTunnelDataMsg_def h)
  moreover have "batch_inv ?s k (Some (ToTransit k)) (n + 1)"
  proof -
    have i: "smap_ok (m_TransitTunnels s)" "flushed_but s r" "sent_msgs s + buffered s = n" using b by (simp_all add: batch_inv_def)
    have "buffered ?s + waiting (Participant p) = buffered s + waiting (Participant p')"
      using buffered_set_transit [of "s\<lparr>world := g'\<rparr>" k "Participant p" ct "Participant p'"] i(1) p by simp
    then have "buffered ?s = buffered s + 1" by (simp add: waiting_def q)
    moreover have "flushed_but ?s (Some (ToTransit k))"
      by (rule flushed_but_set_transit [of _ r]) (use i r in \<open>simp_all add: flushed_but_def\<close>)
    ultimately show ?thesis using i p by (simp add: batch_inv_def smap_ok_set_transit find_set_transit)
  qed
  moreover have "same_kinds s ?s" using p by (auto simp: same_kinds_def find_set_transit)
  moreover have "sent_msgs ?s = sent_msgs s" by simp
  ultimately show ?thesis by blast
qed

lemma run_message_participant:
  assumes ok: "genv_ok (gen E)" "aes_ok (raes E)" and m: "for_participant s m" and b: "batch_inv s pid r n"
  shows "\<exists>tid s'. run_message E pid tid0 r m s = Some (tid, Some (ToTransit tid), s') \<and>
     batch_inv s' tid (Some (ToTransit tid)) (n + 1) \<and> same_kinds s s' \<and> (r = None \<longrightarrow> sent_msgs s' = sent_msgs s)"
proof -
  obtain X tid where ty: "GetTypeID m = Some eI2NPTunnelData" and w: "wire m X" and tid: "bufbe32toh (GetPayload m) (mbuf m) = Some tid"
    using m by (auto simp: for_participant_def)
  obtain s1 where 1: "(if tid = pid then Some s else case r of Some r \<Rightarrow> ref_FlushTunnelDataMsgs E r s | None \<Rightarrow> Some s) = Some s1"
      "batch_inv s1 pid (if tid = pid then r else None) n" "same_kinds s s1"
  proof (cases "tid = pid \<or> r = None")
    case True
    then show ?thesis using b by (intro that [of s]) (auto simp: same_kinds_def batch_inv_def)
  next
    case False
    then obtain x where "r = Some x" by auto
    then show ?thesis using flush_prev [of s pid x n E pid] b False that by auto
  qed
  have m1: "for_participant s1 m" by (rule same_kinds_for [OF 1(3) m])
  then obtain p ct where p: "map_find tid (m_TransitTunnels s1) = Some (Participant p, ct)" and i: "map_find tid (m_InboundTunnels s1) = None"
    using tid by (auto simp: for_participant_def)
  have r1: "(if tid = pid then r else None) = None \<or> (if tid = pid then r else None) = Some (ToTransit tid)"
    using 1(2) by (auto simp: batch_inv_def)
  then have f: "find_tunnel eI2NPTunnelData tid (if tid = pid then r else None) s1 = Some (ToTransit tid)"
    by (auto simp: find_tunnel_def Let_def Tunnels_GetInboundTunnel_def GetTransitTunnel_def p i)
  have n1: "r = None \<longrightarrow> s1 = s" using 1(1) by (auto split: if_splits)
  obtain s2 where 2: "ref_HandleTunnelDataMsg E (ToTransit tid) m s1 = Some s2" "batch_inv s2 tid (Some (ToTransit tid)) (n + 1)"
      "same_kinds s1 s2" "sent_msgs s2 = sent_msgs s1"
    using handle_participant [OF ok w p 1(2) r1] by blast
  have "run_message E pid tid0 r m s = Some (tid, Some (ToTransit tid), s2)"
    using 1(1) f 2(1) by (simp add: run_message_def ty tid)
  then show ?thesis using 2 n1 same_kinds_trans [OF 1(3)] by blast
qed

lemma run_batch_participants:
  assumes ok: "genv_ok (gen E)" "aes_ok (raes E)"
  shows "for_participant s m \<Longrightarrow> list_all (for_participant s) ms \<Longrightarrow> m_Queue s = map Some ms \<Longrightarrow> batch_inv s pid r n \<Longrightarrow>
    \<exists>s'. run_batch (Suc (length ms)) E pid tid r m s = Some s' \<and> batch_inv s' 0 None (n + 1 + length ms) \<and> m_Queue s' = []"
proof (induction ms arbitrary: s pid r m n tid)
  case Nil
  obtain tid1 s1 where 1: "run_message E pid tid r m s = Some (tid1, Some (ToTransit tid1), s1)"
      "batch_inv s1 tid1 (Some (ToTransit tid1)) (n + 1)" "same_kinds s s1"
    using run_message_participant [OF ok Nil.prems(1,4)] by blast
  have q: "m_Queue s1 = []" using 1(3) Nil.prems(3) by (simp add: same_kinds_def)
  have eq: "s1\<lparr>m_Queue := []\<rparr> = s1" using q by simp
  obtain s2 where 2: "ref_FlushTunnelDataMsgs E (ToTransit tid1) s1 = Some s2" "batch_inv s2 0 None (n + 1)" "same_kinds s1 s2"
    using flush_prev [OF 1(2)] by blast
  then show ?case using q by (simp add: 1(1) eq same_kinds_def)
next
  case (Cons m2 ms)
  obtain tid1 s1 where 1: "run_message E pid tid r m s = Some (tid1, Some (ToTransit tid1), s1)"
      "batch_inv s1 tid1 (Some (ToTransit tid1)) (n + 1)" "same_kinds s s1"
    using run_message_participant [OF ok Cons.prems(1,4)] by blast
  let ?s = "s1\<lparr>m_Queue := map Some ms\<rparr>"
  have q: "m_Queue s1 = Some m2 # map Some ms" using 1(3) Cons.prems(3) by (simp add: same_kinds_def)
  have f: "for_participant ?s x" if "for_participant s x" for x
    using same_kinds_for [OF 1(3) that] by (simp add: for_participant_def)
  have "\<exists>s'. run_batch (Suc (length ms)) E tid1 tid1 (Some (ToTransit tid1)) m2 ?s = Some s' \<and>
      batch_inv s' 0 None (n + 1 + 1 + length ms) \<and> m_Queue s' = []"
    by (rule Cons.IH) (use Cons.prems(2) f 1(2) in \<open>auto simp: list_all_iff batch_inv_def flushed_but_def\<close>)
  then show ?case by (simp add: 1(1) q)
qed

text \<open>
  C17. A batch of tunnel messages for transit tunnels in which this router is a participant, in any
  order and for any number of tunnels, is processed completely: the loop ends after as many rounds as
  there are messages, every message is handed to the transports exactly once, and none stays behind in
  a tunnel.
\<close>

theorem batch_forwards_all:
  assumes "genv_ok (gen E)" and "aes_ok (raes E)" and "smap_ok (m_TransitTunnels s)" and "buffered s = 0"
    and "for_participant s m" and "list_all (for_participant s) ms" and "m_Queue s = map Some ms"
  shows "\<exists>s'. run_batch (Suc (length ms)) E 0 0 None m s = Some s' \<and>
    sent_msgs s' = sent_msgs s + Suc (length ms) \<and> buffered s' = 0 \<and> m_Queue s' = []"
proof -
  have "flushed_but s None" using assms(4) by (simp add: buffered_def flushed_but_def)
  then have b: "batch_inv s 0 None (sent_msgs s)" using assms(3,4) by (simp add: batch_inv_def)
  from run_batch_participants [OF assms(1,2,5-7) b] obtain s' where
    s': "run_batch (Suc (length ms)) E 0 0 None m s = Some s'" "batch_inv s' 0 None (sent_msgs s + 1 + length ms)" "m_Queue s' = []"
    by blast
  have "buffered s' = 0" using s'(2) by (auto simp: batch_inv_def flushed_but_def buffered_def)
  then show ?thesis using s' by (simp add: batch_inv_def)
qed

text \<open>
  C37. A build message, of type \<open>TunnelBuildReply\<close>, behind a tunnel message in the same batch leaves the tunnel message unsent: the
  loop ends without flushing the participant it is for, although nothing else is in the queue.
\<close>

theorem batch_misses_flush:
  assumes "genv_ok (gen E)" and "aes_ok (raes E)" and "smap_ok (m_TransitTunnels s)" and "buffered s = 0"
    and "for_participant s m" and "m_Queue s = [Some b]"
    and "GetTypeID b = Some eI2NPTunnelBuildReply" and "moffset b + 16 \<le> length (mbuf b)"
  shows "\<exists>s'. run_batch 2 E 0 0 None m s = Some s' \<and> sent_msgs s' = sent_msgs s \<and> buffered s' = 1 \<and> m_Queue s' = []"
proof -
  have "flushed_but s None" using assms(4) by (simp add: buffered_def flushed_but_def)
  then have b: "batch_inv s 0 None (sent_msgs s)" using assms(3,4) by (simp add: batch_inv_def)
  obtain tid s1 where 1: "run_message E 0 0 None m s = Some (tid, Some (ToTransit tid), s1)"
      "batch_inv s1 tid (Some (ToTransit tid)) (sent_msgs s + 1)" "same_kinds s s1" and sent: "sent_msgs s1 = sent_msgs s"
    using run_message_participant [OF assms(1,2,5) b] by blast
  have q: "m_Queue s1 = [Some b]" using 1(3) assms(6) by (simp add: same_kinds_def)
  have "HandleI2NPMessage_buf E (msg_memory b) s2 = Some s2" for s2
    using assms(7,8) by (auto simp: HandleI2NPMessage_buf_def msg_memory_def GetBuffer_def GetHeader_def GetTypeID_def
        mem_get_def bufbe32toh_eq bufbe16toh_eq mem_read_def split: if_splits)
  then have "run_message E tid tid (Some (ToTransit tid)) b (s1\<lparr>m_Queue := []\<rparr>) = Some (tid, None, s1\<lparr>m_Queue := []\<rparr>)"
    by (simp add: run_message_def assms(7))
  then show ?thesis using 1 q sent by (simp add: numeral_2_eq_2 batch_inv_def)
qed

section \<open>A small router\<close>

definition demo_renv :: "unit renv" where
  "demo_renv = \<lparr>gen = demo_genv, raes = demo_aes, rgroup = demo_group, relg = (\<lambda>r. newElGamalEncryption demo_group [] 5),
     self = replicate 32 9, privateKey = [], seconds = (\<lambda>g. (1000, g)), hours = (\<lambda>g. (0, g)), shuffle = (\<lambda>n g. ([0..<n], g)),
     garbage = (\<lambda>n g. (replicate n 0, g)), ptrLess = (<), randomRouter = (\<lambda>g. (None, g)), compatibleRouter = (\<lambda>r g. (None, g)),
     fastRouter = (\<lambda>r g. (None, g)), findRouter = (\<lambda>r g. (None, g)), numPeers = (\<lambda>g. (0, g)), randomPeer = (\<lambda>g. (None, g)),
     isBad = (\<lambda>r g. (False, g)), acceptTunnels = (\<lambda>g. (True, g)), bandwidthUsed = (\<lambda>g. (False, g))\<rparr>"

text \<open>One outbound tunnel waits for its reply, and one transit tunnel is served.\<close>

definition demo_router :: "unit rstate" where
  "demo_router = (newTunnels ())\<lparr>outHeap := [demo_outbound\<lparr>m_State := eTunnelStatePending\<rparr>],
     m_PendingOutboundTunnels := [(7, 0)], m_TransitTunnels := [(1, (Participant (demo_participant 3), 0))]\<rparr>"

definition demo_data :: I2NPMessage where
  "demo_data = \<lparr>mbuf = replicate 2 0 @ (18 # replicate 15 0) @ ([0, 0, 0, 1] @ replicate 1024 0) @ replicate 64 0, mlen = 1046, moffset = 2,
     mmaxLen = 1100, mfrom = None\<rparr>"

definition demo_reply :: I2NPMessage where
  "demo_reply = \<lparr>mbuf = replicate 2 0 @ (22 # replicate 15 0), mlen = 18, moffset = 2, mmaxLen = 18, mfrom = None\<rparr>"

lemma demo_reply_type: "GetTypeID demo_reply = Some eI2NPTunnelBuildReply" "moffset demo_reply + 16 \<le> length (mbuf demo_reply)"
  by (simp_all add: demo_reply_def GetTypeID_def GetHeader_def GetBuffer_def mem_get_def nth_append)

lemma demo_ptr_order: "ptr_order demo_renv"
  by (simp add: ptr_order_def demo_renv_def irreflp_def)

lemma demo_rinv: "rinv demo_renv demo_router"
  by (simp add: rinv_def demo_router_def newTunnels_def heap_ok_def pools_ok_def pending_ok_def inbound_ok_def transit_ok_def
      q_ok_def smap_ok_def demo_outbound_def transit_id_def demo_tunnel_defs)

lemma demo_env_ok: "genv_ok (gen demo_renv)" "aes_ok (raes demo_renv)"
  by (simp_all add: demo_renv_def demo_genv_ok demo_aes_ok)

lemma demo_data_for: "for_participant demo_router demo_data"
proof -
  have buf: "mbuf demo_data = (replicate 2 0 @ (18 # replicate 15 0)) @ ([0, 0, 0, 1] @ replicate 1024 0) @ replicate 64 0"
    by (simp only: demo_data_def I2NPMessage.simps append_assoc)
  have "msg_payload demo_data = Some ([0, 0, 0, 1] @ replicate 1024 0)"
    unfolding msg_payload_def GetPayload_def GetBuffer_def buf
    by (rule mem_read_append) (simp_all add: demo_data_def GetPayloadLength_def GetLength_def)
  then have w: "wire demo_data (replicate 1024 0)" by (auto simp: wire_def demo_data_def intro!: exI [of _ "[0, 0, 0, 1]"])
  have t: "bufbe32toh (GetPayload demo_data) (mbuf demo_data) = Some 1"
    by (simp add: bufbe32toh_eq demo_data_def GetPayload_def GetBuffer_def mem_read_def)
  have "GetTypeID demo_data = Some eI2NPTunnelData" by (simp add: GetTypeID_def GetHeader_def GetBuffer_def demo_data_def mem_get_def nth_append)
  with w t show ?thesis by (auto simp: for_participant_def demo_router_def newTunnels_def map_find_def)
qed

theorem router_invariant_witness:
  "rinv demo_renv (PostTunnelData (Some demo_data) (newTunnels ()))"
  by (rule router_invariant [OF demo_ptr_order, of "()"]) (rule r_into_rtranclp, rule router_step.posted)

theorem tunnel_life_witness:
  "tunnel_le (outHeap demo_router ! 0) (outHeap (StopTunnelPool (Some 0) (snd (CreateTunnelPool (Some 1) 2 2 1 1 demo_router))) ! 0)"
proof -
  let ?s = "snd (CreateTunnelPool (Some 1) 2 2 1 1 demo_router)"
  have 1: "router_step demo_renv demo_router ?s" by (rule router_step.new_pool [OF prod.collapse [symmetric]])
  have 2: "router_step demo_renv ?s (StopTunnelPool (Some 0) ?s)" by (rule router_step.stop_pool) (simp add: CreateTunnelPool_def Let_def)
  have "(router_step demo_renv)\<^sup>*\<^sup>* demo_router (StopTunnelPool (Some 0) ?s)"
    using 1 2 by (meson converse_rtranclp_into_rtranclp rtranclp.rtrancl_refl)
  from tunnel_life [OF demo_ptr_order demo_rinv this] show ?thesis by (simp add: demo_router_def)
qed

text \<open>A reply without records to decrypt, in whose memory the answers of both hops are zero.\<close>

lemma demo_build_reply:
  "\<exists>s1. HandleVariableTunnelBuildReplyMsg demo_renv 7 (replicate 529 0) demo_router = Some s1 \<and>
     m_State (outHeap s1 ! 0) = eTunnelStateEstablished \<and> m_OutboundTunnels s1 = [0]"
proof -
  have "mem_get 0 (replicate 529 (0 :: byte)) = Some 0" "mem_get 528 (replicate 529 (0 :: byte)) = Some 0"
    by (simp_all add: mem_get_def)
  then show ?thesis
    by (simp add: HandleVariableTunnelBuildReplyMsg_def GetPendingOutboundTunnel_def demo_router_def newTunnels_def map_find_def
        HandleTunnelBuildResponse_def upd_out_def demo_outbound_def demo_hop_def SetState_def AddOutboundTunnel_def SetTunnelPool_def)
qed

theorem build_reply_once_witness:
  "\<exists>s1. fst (GetPendingOutboundTunnel 7 demo_router) = Some 0 \<and>
    HandleVariableTunnelBuildReplyMsg demo_renv 7 (replicate 529 0) demo_router = Some s1 \<and>
    fst (GetPendingOutboundTunnel 7 (PostTunnelData (Some demo_data) s1)) \<noteq> Some 0"
proof -
  obtain s1 where h: "HandleVariableTunnelBuildReplyMsg demo_renv 7 (replicate 529 0) demo_router = Some s1"
    using demo_build_reply by blast
  have p: "fst (GetPendingOutboundTunnel 7 demo_router) = Some 0"
    by (simp add: GetPendingOutboundTunnel_def demo_router_def map_find_def)
  have "router_moves demo_renv s1 (PostTunnelData (Some demo_data) s1)"
    unfolding router_moves_def by (rule r_into_rtranclp) (simp add: router_step.posted)
  with build_reply_once [OF demo_ptr_order demo_rinv, of 7] p h show ?thesis by blast
qed

theorem batch_forwards_all_witness:
  "\<exists>s'. run_batch 2 demo_renv 0 0 None demo_data (demo_router\<lparr>m_Queue := [Some demo_data]\<rparr>) = Some s' \<and> sent_msgs s' = 2 \<and> buffered s' = 0"
proof -
  let ?s = "demo_router\<lparr>m_Queue := [Some demo_data]\<rparr>"
  have f: "for_participant ?s demo_data" using demo_data_for by (simp add: for_participant_def)
  have "\<exists>s'. run_batch (Suc (length [demo_data])) demo_renv 0 0 None demo_data ?s = Some s' \<and>
      sent_msgs s' = sent_msgs ?s + Suc (length [demo_data]) \<and> buffered s' = 0 \<and> m_Queue s' = []"
    by (rule batch_forwards_all [OF demo_env_ok])
       (use f in \<open>simp_all add: demo_router_def newTunnels_def buffered_def waiting_def smap_ok_def demo_tunnel_defs\<close>)
  moreover have "sent_msgs ?s = 0" by (simp add: sent_msgs_def demo_router_def newTunnels_def)
  moreover have "Suc (length [demo_data]) = 2" by simp
  ultimately show ?thesis by (metis add_0)
qed

theorem batch_misses_flush_witness:
  "\<exists>s'. run_batch 2 demo_renv 0 0 None demo_data (demo_router\<lparr>m_Queue := [Some demo_reply]\<rparr>) = Some s' \<and> sent_msgs s' = 0 \<and> buffered s' = 1"
proof -
  let ?s = "demo_router\<lparr>m_Queue := [Some demo_reply]\<rparr>"
  have f: "for_participant ?s demo_data" using demo_data_for by (simp add: for_participant_def)
  have "\<exists>s'. run_batch 2 demo_renv 0 0 None demo_data ?s = Some s' \<and> sent_msgs s' = sent_msgs ?s \<and> buffered s' = 1 \<and> m_Queue s' = []"
    by (rule batch_misses_flush [OF demo_env_ok _ _ _ _ demo_reply_type])
       (use f in \<open>simp_all add: demo_router_def newTunnels_def buffered_def waiting_def smap_ok_def demo_tunnel_defs\<close>)
  moreover have "sent_msgs ?s = 0" by (simp add: sent_msgs_def demo_router_def newTunnels_def)
  ultimately show ?thesis by metis
qed

end
