(* ===== verification/Router_Properties.thy ===== *)
theory Router_Properties
  imports Router_Batch
begin

text \<open>
  What the manager and the pools guarantee: expiry and settling of tunnels, the choice of tunnels and
  peers, and the inputs on which the code is undefined. The file ends with examples.
\<close>

section \<open>Expiry\<close>

lemma unat_expires:
  assumes "unat (m_CreationTime t) + 660 < 2 ^ 32"
  shows "unat (expires t) = unat (m_CreationTime t) + 660"
proof -
  have "unat (m_CreationTime t + 660) = unat (m_CreationTime t) + 660"
    using assms by (subst unat_add_lem [THEN iffD1]) simp_all
  moreover have "unat (ucast x :: u64) = unat x" for x :: u32
  proof -
    have "unat x < 2 ^ 64" using unsigned_less [of x, where 'a = nat] by simp
    then show ?thesis by (simp add: unsigned_ucast_eq take_bit_nat_eq_self)
  qed
  ultimately show ?thesis by (simp add: expires_def)
qed

text \<open>The pools only lose tunnels in a sweep.\<close>

lemma create_in_pools:
  assumes "CreateTunnel_In E c ot s = Some (a, s')" and "rinv E s" and "c \<noteq> []" and "\<And>b. ot = Some b \<Longrightarrow> b < length (outHeap s)"
  shows "poolHeap (upd_in a f s') = poolHeap s"
  using CreateTunnel_In_good(6) [OF assms(1-3)] assms(4) by (simp add: upd_in_def)

lemma RecreateInboundTunnel_pools:
  assumes "RecreateInboundTunnel E p t s = Some s'" and "rinv E s" and "p < length (poolHeap s)"
  shows "poolHeap s' = poolHeap s"
proof -
  obtain ot s1 where 1: "next_outbound E p s = (ot, s1)" by (cases "next_outbound E p s")
  note o1 = next_outbound_good [OF 1]
  obtain c s3 a s4 where 3: "new_config E (GetPeers (m_Config (inHeap s1 ! t))) None s1 = Some (c, s3)"
      and 4: "CreateTunnel_In E c ot s3 = Some (a, s4)" and s': "s' = upd_in a (SetTunnelPool (Some p)) s4"
    using assms(1) by (auto simp: RecreateInboundTunnel_def 1 bind_eq_Some_conv)
  have o3: "outside s s3" using new_config_good [OF 3] o1(1) by (auto intro: outside_trans)
  note h = outside_heaps [OF o3]
  have "poolHeap s' = poolHeap s3" unfolding s'
    by (rule create_in_pools [OF 4 _ new_config_good(2) [OF 3]]) (use assms(2,3) o1(2) h in auto)
  then show ?thesis using h by simp
qed

lemma TunnelExpired_In_pools:
  "set (pInboundTunnels (poolHeap (TunnelExpired_In E p a s) ! q)) \<subseteq> set (pInboundTunnels (poolHeap s ! q))"
proof (cases "p < length (poolHeap s) \<and> q = p")
  case True
  then show ?thesis using set_set_erase_subset [of _ a "pInboundTunnels (poolHeap s ! p)"]
    by (auto simp: TunnelExpired_In_alt erase_in_def upd_in_def upd_pool_def)
next
  case False
  then show ?thesis
    by (cases "q = p") (auto simp: TunnelExpired_In_alt erase_in_def upd_in_def upd_pool_def not_less list_update_beyond)
qed

lemma manage_inbound1_pools:
  assumes "manage_inbound1 E ts a s = Some s'" and "ptr_order E" and "rinv E s" and a: "a < length (inHeap s)"
  shows "set (pInboundTunnels (poolHeap s' ! q)) \<subseteq> set (pInboundTunnels (poolHeap s ! q))"
    and "ts > expires (inHeap s ! a) \<Longrightarrow> q < length (poolHeap s) \<Longrightarrow> a \<notin> set (pInboundTunnels (poolHeap s' ! q))"
    and "length (poolHeap s') = length (poolHeap s)"
proof -
  let ?t = "inHeap s ! a"
  have g1: "rinv E (upd_in a SetIsRecreated s)" by (rule good_rinv [OF good_upd_in [OF assms(3) a]]) simp_all
  have r: "poolHeap s2 = poolHeap s"
    if "RecreateInboundTunnel E p a (upd_in a SetIsRecreated s) = Some s2" "m_Pool ?t = Some p" for p s2
    using RecreateInboundTunnel_pools [OF that(1) g1] tunnel_pool_in [OF assms(3) a that(2)] by (simp add: upd_in_def)
  have same: "poolHeap s' = poolHeap s" if "\<not> ts > expires ?t"
    using assms(1) that unfolding manage_inbound1_def Let_def
    by (auto simp: bind_eq_Some_conv upd_in_def split: if_splits option.splits dest!: r [unfolded upd_in_def])
  have expired: "s' = s \<or> (\<exists>p. s' = TunnelExpired_In E p a s)" if "ts > expires ?t"
    using assms(1) that by (auto simp: manage_inbound1_def split: option.splits)
  show "set (pInboundTunnels (poolHeap s' ! q)) \<subseteq> set (pInboundTunnels (poolHeap s ! q))"
  proof (cases "ts > expires ?t")
    case True
    from expired [OF True] show ?thesis
    proof
      assume "\<exists>p. s' = TunnelExpired_In E p a s"
      then obtain p where s': "s' = TunnelExpired_In E p a s" ..
      show ?thesis unfolding s' by (rule TunnelExpired_In_pools)
    qed simp
  qed (simp add: same)
  show "length (poolHeap s') = length (poolHeap s)"
    using same expired by (cases "ts > expires ?t") (auto simp: TunnelExpired_In_alt erase_in_def upd_in_def upd_pool_def)
  show "a \<notin> set (pInboundTunnels (poolHeap s' ! q))" if "ts > expires ?t" "q < length (poolHeap s)"
  proof (cases "m_Pool ?t")
    case None
    then show ?thesis using assms(1) that member_pool_in(1) [OF assms(3) that(2), of a] by (auto simp: manage_inbound1_def)
  next
    case (Some p)
    then have "s' = upd_in a (SetTunnelPool None) (erase_in E p a s)" using assms(1) that by (simp add: manage_inbound1_def TunnelExpired_In_alt)
    then show ?thesis using erase_in_gone [OF assms(2,3) a Some that(2)] by (simp add: upd_in_def)
  qed
qed

lemma manage_inbound_pools:
  assumes "manage_inbound E ts m s = Some (m', s')" and "ptr_order E" and "rinv E s" and "listed_ok (inHeap s) (map snd m)"
  shows "set (pInboundTunnels (poolHeap s' ! q)) \<subseteq> set (pInboundTunnels (poolHeap s ! q))"
    and "e \<in> set m \<Longrightarrow> ts > expires (inHeap s ! snd e) \<Longrightarrow> q < length (poolHeap s) \<Longrightarrow> snd e \<notin> set (pInboundTunnels (poolHeap s' ! q))"
    and "length (poolHeap s') = length (poolHeap s)"
proof -
  have "length (poolHeap s') = length (poolHeap s) \<and> set (pInboundTunnels (poolHeap s' ! q)) \<subseteq> set (pInboundTunnels (poolHeap s ! q)) \<and>
      (\<forall>e \<in> set m. ts > expires (inHeap s ! snd e) \<longrightarrow> q < length (poolHeap s) \<longrightarrow> snd e \<notin> set (pInboundTunnels (poolHeap s' ! q)))"
    using assms(1,3,4)
  proof (induction m arbitrary: s m')
    case (Cons x m)
    obtain k a where x: "x = (k, a)" by (cases x)
    obtain s1 m1 where 1: "manage_inbound1 E ts a s = Some s1" "manage_inbound E ts m s1 = Some (m1, s')"
      using Cons.prems(1) by (auto simp: bind_eq_Some_conv x)
    have a: "a < length (inHeap s)" using Cons.prems(3) x by simp
    have g: "good E s s1" by (rule manage_inbound1_good [OF 1(1) assms(2) Cons.prems(2)]) (use Cons.prems(3) x in simp)
    have "listed_ok (inHeap s1) (map snd m)" by (rule good_listed(2) [OF g]) (use Cons.prems(3) in simp)
    note ih = Cons.IH [OF 1(2) good_rinv [OF g] this]
    note p1 = manage_inbound1_pools [OF 1(1) assms(2) Cons.prems(2) a]
    have "snd e < length (inHeap s)" if "e \<in> set m" for e using Cons.prems(3) that by (auto simp: listed_ok_def)
    then have ex: "expires (inHeap s1 ! snd e) = expires (inHeap s ! snd e)" if "e \<in> set m" for e
      using good_expires(2) [OF g] that by blast
    have "snd e \<notin> set (pInboundTunnels (poolHeap s' ! q))"
      if "e \<in> set (x # m)" "ts > expires (inHeap s ! snd e)" "q < length (poolHeap s)" for e
    proof (cases "e \<in> set m")
      case True
      then show ?thesis using ih ex that(2,3) p1(3) by simp
    next
      case False
      then show ?thesis using ih p1(2) that x by auto
    qed
    moreover have "length (poolHeap s') = length (poolHeap s)" using ih p1(3) by simp
    moreover have "set (pInboundTunnels (poolHeap s' ! q)) \<subseteq> set (pInboundTunnels (poolHeap s ! q))"
      using ih p1(1) [of q] by (meson order_trans)
    ultimately show ?case by blast
  qed simp
  then show "set (pInboundTunnels (poolHeap s' ! q)) \<subseteq> set (pInboundTunnels (poolHeap s ! q))"
    "e \<in> set m \<Longrightarrow> ts > expires (inHeap s ! snd e) \<Longrightarrow> q < length (poolHeap s) \<Longrightarrow> snd e \<notin> set (pInboundTunnels (poolHeap s' ! q))"
    "length (poolHeap s') = length (poolHeap s)"
    by blast+
qed

text \<open>
  C26. The sweep over the inbound tunnels removes exactly the tunnels older than eleven minutes from the
  table of the router, takes them out of every pool, and keeps the invariant, as long as the 32-bit
  creation times do not wrap.
\<close>

theorem inbound_expiry_exact:
  assumes "ptr_order E" and "rinv E s" and "manage_inbound E ts (m_InboundTunnels s) s = Some (m, s')"
    and "\<forall>t \<in> set (inHeap s). unat (m_CreationTime t) + 660 < 2 ^ 32"
  shows "rinv E s' \<and>
    m = filter (\<lambda>e. unat ts \<le> unat (m_CreationTime (inHeap s ! snd e)) + 660) (m_InboundTunnels s) \<and>
    (\<forall>e \<in> set (m_InboundTunnels s) - set m. \<forall>pl \<in> set (poolHeap s'). snd e \<notin> set (pInboundTunnels pl))"
proof -
  have l: "listed_ok (inHeap s) (map snd (m_InboundTunnels s))" using assms(2) by (simp add: rinv_def inbound_ok_def)
  have g: "good E s s'" and m: "m = filter (\<lambda>e. \<not> ts > expires (inHeap s ! snd e)) (m_InboundTunnels s)"
    using manage_inbound_good [OF assms(3,1,2) l] by simp_all
  have x: "(\<not> ts > expires (inHeap s ! snd e)) = (unat ts \<le> unat (m_CreationTime (inHeap s ! snd e)) + 660)"
    if "e \<in> set (m_InboundTunnels s)" for e
  proof -
    have "snd e < length (inHeap s)" using l that by (auto simp: listed_ok_def)
    then show ?thesis using assms(4) unat_expires [of "inHeap s ! snd e"] by (simp add: not_less word_le_nat_alt)
  qed
  have m2: "m = filter (\<lambda>e. unat ts \<le> unat (m_CreationTime (inHeap s ! snd e)) + 660) (m_InboundTunnels s)"
    unfolding m by (rule filter_cong [OF refl x])
  have len: "length (poolHeap s') = length (poolHeap s)" by (rule manage_inbound_pools(3) [OF assms(3,1,2) l])
  have "snd e \<notin> set (pInboundTunnels pl)" if "e \<in> set (m_InboundTunnels s) - set m" "pl \<in> set (poolHeap s')" for e pl
    using manage_inbound_pools(2) [OF assms(3,1,2) l, of e] that m len by (auto simp: in_set_conv_nth)
  then show ?thesis using good_rinv [OF g] m2 by blast
qed

text \<open>The sweep over one table, in terms of the fates of its entries.\<close>

definition fate_count :: "u64 \<Rightarrow> (nat \<Rightarrow> 'a Tunnel_scheme) \<Rightarrow> pending_fate set \<Rightarrow> (u32, nat) smap \<Rightarrow> int" where
  "fate_count ts heap F m = int (length (filter (\<lambda>e. pending_fate ts (heap (snd e)) \<in> F) m))"

lemma manage_pending_fates:
  "manage_pending ts heap m s =
     (filter (\<lambda>e. pending_fate ts (heap (snd e)) = Keep) m,
      s\<lparr>events := events s @ concat (map (\<lambda>e. map TunnelNonReplied (GetPeers (m_Config (heap (snd e)))))
                    (filter (\<lambda>e. pending_fate ts (heap (snd e)) = TimedOut) m)),
        m_NumFailedTunnelCreations := m_NumFailedTunnelCreations s + fate_count ts heap {TimedOut, Declined} m,
        m_NumSuccesiveTunnelCreations := m_NumSuccesiveTunnelCreations s + fate_count ts heap {Succeeded} m\<rparr>)"
proof (induction m arbitrary: s)
  case (Cons e m)
  show ?case by (cases e; cases "pending_fate ts (heap (snd e))") (simp_all add: Cons.IH Let_def settle_pending_def fate_count_def)
qed (simp add: fate_count_def)

text \<open>The fates in numbers.\<close>

lemma pending_fate_cases:
  "pending_fate ts t = TimedOut \<longleftrightarrow> m_State t = eTunnelStatePending \<and> unat ts > (unat (m_CreationTime t) + 30) mod 2 ^ 32"
  "pending_fate ts t = Declined \<longleftrightarrow> m_State t = eTunnelStateBuildFailed"
  "pending_fate ts t = Keep \<longleftrightarrow> m_State t = eTunnelStatePending \<and> unat ts \<le> (unat (m_CreationTime t) + 30) mod 2 ^ 32 \<or>
     m_State t = eTunnelStateBuildReplyReceived"
  "pending_fate ts t = Succeeded \<longleftrightarrow> m_State t \<in> {eTunnelStateEstablished, eTunnelStateTestFailed, eTunnelStateFailed, eTunnelStateExpiring}"
proof -
  have "unat (ucast w :: u64) = unat w" for w :: u32
    using unsigned_less [of w, where 'a = nat] by (simp add: unsigned_ucast_eq take_bit_nat_eq_self)
  then have "ts > ucast (m_CreationTime t + 30) \<longleftrightarrow> unat ts > (unat (m_CreationTime t) + 30) mod 2 ^ 32"
    by (simp add: word_less_nat_alt unat_word_ariths)
  then show 
  "pending_fate ts t = TimedOut \<longleftrightarrow> m_State t = eTunnelStatePending \<and> unat ts > (unat (m_CreationTime t) + 30) mod 2 ^ 32"
  "pending_fate ts t = Declined \<longleftrightarrow> m_State t = eTunnelStateBuildFailed"
  "pending_fate ts t = Keep \<longleftrightarrow> m_State t = eTunnelStatePending \<and> unat ts \<le> (unat (m_CreationTime t) + 30) mod 2 ^ 32 \<or>
     m_State t = eTunnelStateBuildReplyReceived"
  "pending_fate ts t = Succeeded \<longleftrightarrow> m_State t \<in> {eTunnelStateEstablished, eTunnelStateTestFailed, eTunnelStateFailed, eTunnelStateExpiring}"
    by (cases "m_State t"; simp add: pending_fate_def not_less)+
qed


lemma manage_pending_states:
  "manage_pending ts heap m s =
     (filter (\<lambda>e. m_State (heap (snd e)) = eTunnelStatePending \<and> unat ts \<le> (unat (m_CreationTime (heap (snd e))) + 30) mod 2 ^ 32 \<or>
        m_State (heap (snd e)) = eTunnelStateBuildReplyReceived) m,
      s\<lparr>events := events s @ concat (map (\<lambda>e. map TunnelNonReplied (GetPeers (m_Config (heap (snd e)))))
           (filter (\<lambda>e. m_State (heap (snd e)) = eTunnelStatePending \<and> unat ts > (unat (m_CreationTime (heap (snd e))) + 30) mod 2 ^ 32) m)),
        m_NumFailedTunnelCreations := m_NumFailedTunnelCreations s + int (length (filter (\<lambda>e.
           (m_State (heap (snd e)) = eTunnelStatePending \<and> unat ts > (unat (m_CreationTime (heap (snd e))) + 30) mod 2 ^ 32) \<or>
           m_State (heap (snd e)) = eTunnelStateBuildFailed) m)),
        m_NumSuccesiveTunnelCreations := m_NumSuccesiveTunnelCreations s + int (length (filter (\<lambda>e.
           m_State (heap (snd e)) \<in> {eTunnelStateEstablished, eTunnelStateTestFailed, eTunnelStateFailed, eTunnelStateExpiring}) m))\<rparr>)"
  by (simp only: manage_pending_fates fate_count_def pending_fate_cases insert_iff empty_iff simp_thms)

text \<open>
  C27. The sweep over the pending tunnels settles each of them exactly once, in both tables. A tunnel whose
  reply has not come stays for 30 seconds after its creation, and one whose reply is being handled stays;
  all others leave their table. Those that waited longer and those a hop declined count as failed, the
  others, established by then, as succeeded, and the routers of exactly those that waited too long are
  reported as not having replied. The 30 seconds are added in 32 bits. Nothing else changes.
\<close>

theorem pending_sweep_settles:
  "let now1 = unat (fst (seconds E (world s))); g1 = snd (seconds E (world s));
       now2 = unat (fst (seconds E g1));
       late = (\<lambda>now st c. st = eTunnelStatePending \<and> now > (unat c + 30) mod 2 ^ 32);
       waits = (\<lambda>now st c. st = eTunnelStatePending \<and> now \<le> (unat c + 30) mod 2 ^ 32 \<or> st = eTunnelStateBuildReplyReceived);
       fails = (\<lambda>now st c. late now st c \<or> st = eTunnelStateBuildFailed);
       settled = (\<lambda>st. st \<in> {eTunnelStateEstablished, eTunnelStateTestFailed, eTunnelStateFailed, eTunnelStateExpiring});
       inb = (\<lambda>P e. P (m_State (inHeap s ! snd e)) (m_CreationTime (inHeap s ! snd e)));
       outb = (\<lambda>P e. P (m_State (outHeap s ! snd e)) (m_CreationTime (outHeap s ! snd e)));
       pin = m_PendingInboundTunnels s; pout = m_PendingOutboundTunnels s
   in ManagePendingTunnels E s = s\<lparr>world := snd (seconds E g1),
        m_PendingInboundTunnels := filter (inb (waits now1)) pin,
        m_PendingOutboundTunnels := filter (outb (waits now2)) pout,
        m_NumFailedTunnelCreations := m_NumFailedTunnelCreations s +
          int (length (filter (inb (fails now1)) pin) + length (filter (outb (fails now2)) pout)),
        m_NumSuccesiveTunnelCreations := m_NumSuccesiveTunnelCreations s +
          int (length (filter (inb (\<lambda>st c. settled st)) pin) + length (filter (outb (\<lambda>st c. settled st)) pout)),
        events := events s @
          concat (map (\<lambda>e. map TunnelNonReplied (GetPeers (m_Config (inHeap s ! snd e)))) (filter (inb (late now1)) pin)) @
          concat (map (\<lambda>e. map TunnelNonReplied (GetPeers (m_Config (outHeap s ! snd e)))) (filter (outb (late now2)) pout))\<rparr>"
  by (simp only: Let_def ManagePendingTunnels_def ask_def case_prod_beta fst_conv snd_conv manage_pending_states) simp

text \<open>
  C28. A transit tunnel is removed by the sweep exactly when it is older than eleven minutes, as long as
  the 32-bit times do not wrap.
\<close>

theorem transit_expiry_exact:
  assumes "transit_ok (m_TransitTunnels s)" and "GetTransitTunnel k s = Some (t, c)"
    and "unat (fst (seconds E (world s))) < 2 ^ 32" and "unat c + 660 < 2 ^ 32"
  shows "GetTransitTunnel k (ManageTransitTunnels E s) =
     (if unat (fst (seconds E (world s))) > unat c + 660 then None else Some (t, c))"
proof -
  let ?now = "fst (seconds E (world s))"
  have c: "unat (c + 660) = unat c + 660" using assms(4) by (subst unat_add_lem [THEN iffD1]) simp_all
  have n: "unat (ucast ?now :: u32) = unat ?now" using assms(3) by (simp add: unsigned_ucast_eq take_bit_nat_eq_self)
  have "transit_expired (ucast ?now) (t, c) \<longleftrightarrow> unat ?now > unat c + 660"
    by (simp add: transit_expired_def word_less_nat_alt c n)
  then show ?thesis
    using assms(1,2) by (simp add: GetTransitTunnel_def ManageTransitTunnels_def ask_def Let_def case_prod_beta transit_ok_def map_find_filter)
qed

text \<open>
  When the expiry time of a transit tunnel does not fit 32 bits the tunnel is removed at the first sweep,
  even in the second it was created in.
\<close>

theorem transit_expiry_wraps:
  assumes "transit_ok (m_TransitTunnels s)" and "GetTransitTunnel k s = Some (t, c)"
    and "2 ^ 32 \<le> unat c + 660" and "unat c \<le> unat (fst (seconds E (world s)))" and "unat (fst (seconds E (world s))) < 2 ^ 32"
  shows "GetTransitTunnel k (ManageTransitTunnels E s) = None"
proof -
  let ?now = "fst (seconds E (world s))"
  have "unat (c + 660) = (unat c + 660) mod 2 ^ 32" by (simp add: unat_word_ariths)
  also have "\<dots> = unat c + 660 - 2 ^ 32" using assms(3) unsigned_less [of c, where 'a = nat] by (simp add: mod_if)
  finally have c: "unat (c + 660) < unat c" using assms(3) by simp
  have n: "unat (ucast ?now :: u32) = unat ?now" using assms(5) by (simp add: unsigned_ucast_eq take_bit_nat_eq_self)
  have "transit_expired (ucast ?now) (t, c)" using c assms(4) by (simp add: transit_expired_def word_less_nat_alt n)
  then show ?thesis
    using assms(1,2) by (simp add: GetTransitTunnel_def ManageTransitTunnels_def ask_def Let_def case_prod_beta transit_ok_def map_find_filter)
qed

section \<open>Choosing tunnels and peers\<close>

text \<open>
  A pool chooses an established tunnel other than the excluded one whenever it has one; it falls back
  to the excluded tunnel when that is established, and returns none otherwise.
\<close>

theorem next_tunnel_chosen:
  "case fst (GetNextTunnel E established tunnels excluded s) of
     Some t \<Rightarrow> established t \<and> (t \<in> set tunnels \<and> Some t \<noteq> excluded \<or>
                 Some t = excluded \<and> (\<forall>x \<in> set tunnels. established x \<longrightarrow> Some x = excluded))
   | None \<Rightarrow> tunnels = [] \<or> (\<forall>x \<in> set tunnels. \<not> established x \<or> Some x = excluded) \<and> (\<forall>x. excluded = Some x \<longrightarrow> \<not> established x)"
proof (cases "tunnels = []")
  case True
  then show ?thesis by (simp add: GetNextTunnel_def)
next
  case False
  let ?u = "\<lambda>t. established t \<and> Some t \<noteq> excluded"
  obtain ind where f: "fst (GetNextTunnel E established tunnels excluded s) =
      (case (pick_tunnel ?u ind 0 None tunnels, excluded) of
         (None, Some x) \<Rightarrow> if established x then Some x else None | _ \<Rightarrow> pick_tunnel ?u ind 0 None tunnels)"
    using False by (auto simp: GetNextTunnel_def Let_def case_prod_beta)
  show ?thesis
  proof (cases "pick_tunnel ?u ind 0 None tunnels")
    case None
    then have "\<forall>t \<in> set tunnels. \<not> ?u t" using pick_tunnel_finds [of ?u ind 0 None tunnels] by simp
    then show ?thesis unfolding f using None by (cases excluded) auto
  next
    case (Some t)
    then show ?thesis unfolding f using pick_tunnel_usable [OF Some] by (cases excluded) auto
  qed
qed

lemma least_received_spec:
  assumes "least_received s m best = r"
  shows "case r of
      None \<Rightarrow> best = None \<and> (\<forall>e \<in> set m. \<not> IsEstablished (inHeap s ! snd e))
    | Some a \<Rightarrow> \<exists>n. (best = Some (a, n) \<or> a \<in> snd ` set m \<and> IsEstablished (inHeap s ! a) \<and> n = m_NumReceivedBytes (m_Endpoint (inHeap s ! a))) \<and>
        (\<forall>b. best = Some b \<longrightarrow> n \<le> snd b) \<and>
        (\<forall>e \<in> set m. IsEstablished (inHeap s ! snd e) \<longrightarrow> n \<le> m_NumReceivedBytes (m_Endpoint (inHeap s ! snd e)))"
  using assms
proof (induction s m best arbitrary: r rule: least_received.induct)
  case (1 s best)
  then show ?case by (cases best) auto
next
  case (2 s k a m best)
  let ?t = "inHeap s ! a"
  let ?n = "m_NumReceivedBytes (m_Endpoint ?t)"
  consider "\<not> IsEstablished ?t" | "IsEstablished ?t" "best = None \<or> ?n < snd (the best)"
    | b where "IsEstablished ?t" "best = Some b" "snd b \<le> ?n" by (cases best) (force simp: not_less)+
  then show ?case
  proof cases
    case 1
    then show ?thesis using 2(1) [OF refl refl 1, of r] 2(4) by (auto split: option.splits)
  next
    case b: 2
    then have "least_received s m (Some (a, ?n)) = r" using 2(4) by simp
    with 2(2) [OF refl refl _ b(2), of r] b(1)
    have "case r of None \<Rightarrow> False | Some c \<Rightarrow> \<exists>n. (Some (a, ?n) = Some (c, n) \<or> c \<in> snd ` set m \<and> IsEstablished (inHeap s ! c) \<and> n = m_NumReceivedBytes (m_Endpoint (inHeap s ! c))) \<and>
        n \<le> ?n \<and> (\<forall>e \<in> set m. IsEstablished (inHeap s ! snd e) \<longrightarrow> n \<le> m_NumReceivedBytes (m_Endpoint (inHeap s ! snd e)))"
      by (auto split: option.splits)
    then obtain c n where r: "r = Some c" "(Some (a, ?n) = Some (c, n) \<or> c \<in> snd ` set m \<and> IsEstablished (inHeap s ! c) \<and> n = m_NumReceivedBytes (m_Endpoint (inHeap s ! c)))"
      "n \<le> ?n" "\<forall>e \<in> set m. IsEstablished (inHeap s ! snd e) \<longrightarrow> n \<le> m_NumReceivedBytes (m_Endpoint (inHeap s ! snd e))"
      by (auto split: option.splits)
    then show ?thesis using b by (auto intro!: exI [of _ n])
  next
    case b: 3
    then have "least_received s m best = r" using 2(4) by (auto simp: not_less)
    with 2(3) [OF refl refl, of r] b show ?thesis by (auto simp: not_less split: option.splits)
  qed
qed

text \<open>
  The router uses the established inbound tunnel that has received least, and none only when no
  inbound tunnel is established.
\<close>

theorem least_used_inbound:
  "case Tunnels_GetNextInboundTunnel s of
     Some a \<Rightarrow> a \<in> snd ` set (m_InboundTunnels s) \<and> IsEstablished (inHeap s ! a) \<and>
       (\<forall>e \<in> set (m_InboundTunnels s). IsEstablished (inHeap s ! snd e) \<longrightarrow>
          m_NumReceivedBytes (m_Endpoint (inHeap s ! a)) \<le> m_NumReceivedBytes (m_Endpoint (inHeap s ! snd e)))
   | None \<Rightarrow> \<forall>e \<in> set (m_InboundTunnels s). \<not> IsEstablished (inHeap s ! snd e)"
  using least_received_spec [where s = s and m = "m_InboundTunnels s" and best = None, OF refl]
  by (auto simp: Tunnels_GetNextInboundTunnel_def split: option.splits)

lemma select_hops_length:
  "select_hops E p n h hops s = ((True, hops'), s') \<Longrightarrow> length hops' = length hops + n"
proof (induction n arbitrary: h hops s)
  case (Suc n)
  obtain r1 s1 where h: "SelectNextHop E p h s = (r1, s1)" by (cases "SelectNextHop E p h s")
  show ?case using Suc by (auto simp: h split: option.splits)
qed simp

text \<open>
  C29. A pool without explicit peers that wants tunnels of at least one hop gets exactly the number of hops
  it wants when the selection succeeds, whether or not a connected peer is taken as one of them.
\<close>

theorem selected_hops_exact:
  assumes "m_ExplicitPeers (poolHeap s ! p) = None"
    and "n = (if isInbound then m_NumInboundHops (poolHeap s ! p) else m_NumOutboundHops (poolHeap s ! p))" and "1 \<le> n"
    and "SelectPeers E p isInbound s = Some ((True, hops), s')"
  shows "int (length hops) = n"
proof -
  obtain c s1 where 1: "ask (numPeers E) s = (c, s1)" by (cases "ask (numPeers E) s")
  obtain r s2 where 2: "(if c > 25 then ask (randomPeer E) s1 else (None, s1)) = (r, s2)" by fastforce
  obtain bad s3 where 3: "(case r of None \<Rightarrow> (True, s2) | Some h \<Rightarrow> ask (isBad E h) s2) = (bad, s3)" by fastforce
  have "if bad then select_hops E p (nat n) (self E) [] s3 = ((True, hops), s')
        else select_hops E p (nat (n - 1)) (the r) [the r] s3 = ((True, hops), s')"
    using assms(4) unfolding SelectPeers_def Let_def assms(1) option.case 1 prod.case 2 3 assms(2) [symmetric] by (cases bad) simp_all
  then show ?thesis using assms(3) by (auto split: if_splits dest!: select_hops_length)
qed

text \<open>
  With no hops wanted and more than 25 connected peers the selection still returns one hop.
\<close>

theorem zero_hops_become_one:
  assumes "m_ExplicitPeers (poolHeap s ! p) = None" and "m_NumInboundHops (poolHeap s ! p) = 0"
    and "\<And>g. fst (numPeers E g) > 25" and "\<And>g. fst (randomPeer E g) = Some h" and "\<And>g. \<not> fst (isBad E h g)"
  shows "\<exists>s'. SelectPeers E p True s = Some ((True, [h]), s')"
  using assms by (auto simp: SelectPeers_def Let_def ask_def case_prod_beta)

section \<open>Undefined behaviour\<close>

text \<open>
  A router with some inbound tunnels, but fewer than five of them or no outbound tunnel, follows a null
  pointer when the network database has no router to offer.
\<close>

theorem no_router_crashes:
  assumes "ask (seconds E) s = (ts, s0)" and "manage_inbound E ts (m_InboundTunnels s0) s0 = Some (m, s1)"
    and "m \<noteq> []" and "m_OutboundTunnels s1 = [] \<or> length m < 5" and "fst (randomRouter E (world s1)) = None"
  shows "ManageInboundTunnels E s = None"
  using assms by (auto simp: ManageInboundTunnels_def ask_def Let_def case_prod_beta)

text \<open>
  A pool whose list of explicit peers is empty cannot create a tunnel: the selection of peers succeeds
  without hops, and the configuration of the tunnel follows an uninitialised pointer.
\<close>

theorem empty_explicit_peers_crash:
  assumes "p < length (poolHeap s)"
  shows "CreateInboundTunnel E p (upd_pool p (SetExplicitPeers (Some [])) s) = None"
proof -
  let ?s = "upd_pool p (SetExplicitPeers (Some [])) s"
  have pl: "poolHeap ?s ! p = SetExplicitPeers (Some []) (poolHeap s ! p)" using assms by (simp add: upd_pool_def)
  obtain ot s1 where 1: "next_outbound E p ?s = (ot, s1)" by (cases "next_outbound E p ?s")
  have "poolHeap s1 = poolHeap ?s" by (rule outside_heaps(3) [OF next_outbound_good(1) [OF 1]])
  then have e: "m_ExplicitPeers (poolHeap s1 ! p) = Some []" "m_NumInboundHops (poolHeap s1 ! p) \<le> 0"
    using pl by (simp_all add: SetExplicitPeers_def Let_def)
  obtain idxs s2 where 2: "ask (shuffle E 0) s1 = (idxs, s2)" by (cases "ask (shuffle E 0) s1")
  have "m_NumInboundHops (poolHeap s2 ! p) \<le> 0" using outside_heaps(3) [OF outside_ask [OF 2]] e(2) by simp
  then have 3: "SelectPeers E p True s1 = Some ((True, []), s2)" by (simp add: SelectPeers_def Let_def e(1) SelectExplicitPeers_def 2)
  have "new_config E [] None s2 = None" by (simp add: new_config_def newTunnelConfig_def ask_def Let_def case_prod_beta)
  then show ?thesis by (simp add: CreateInboundTunnel_def 1 3)
qed

lemma encrypt_records_overrun:
  "records + (j + n) * 528 > length mem \<Longrightarrow> 0 < n \<Longrightarrow> encrypt_records A ct records j n (mem, e) = None"
proof (induction n arbitrary: j mem e)
  case (Suc n)
  show ?case
  proof (cases "encrypt_records A ct records j (Suc n) (mem, e)")
    case (Some r)
    obtain reply mem' e' where rd: "mem_read (records + j * 528) 528 mem = Some reply" and len: "length mem' = length mem"
      and rest: "encrypt_records A ct records (j + 1) n (mem', e') = Some r"
      using Some by (auto simp: bind_eq_Some_conv Let_def case_prod_beta dest: mem_write_length)
    show ?thesis
    proof (cases "n = 0")
      case True
      then show ?thesis using rd Suc.prems(1) by (simp add: mem_read_def split: if_splits)
    next
      case False
      then show ?thesis using Suc.IH [of mem' "j + 1" e'] Suc.prems(1) len rest by simp
    qed
  qed
qed simp

lemma our_record_overrun:
  assumes "records + num * 528 > length mem" and "0 < num"
  shows "handle_our_record E A G C num records pos (mem, cl) g = None"
proof -
  have "encrypt_records A ct records 0 num (mem2, e) = None" if "length mem2 = length mem" for ct mem2 e
    using encrypt_records_overrun [of mem2 records 0 num] assms that by simp
  then have "\<not> (\<exists>r. handle_our_record E A G C num records pos (mem, cl) g = Some r)"
    by (auto simp: handle_our_record_def Let_def case_prod_beta bind_eq_Some_conv dest!: mem_set_length mem_write_length)
  then show ?thesis by (metis not_None_eq)
qed

lemma records_overrun:
  assumes "records + (num - 1) * 528 + 16 > length mem" and "i + n = num" and "0 < n"
  shows "HandleBuildRequestRecords_from E A G C num records i n (mem, cl) g = None"
  using assms(2,3)
proof (induction n arbitrary: i)
  case (Suc n)
  have o: "handle_our_record E A G C num records pos (mem, cl) g = None" for pos
    by (rule our_record_overrun) (use assms(1) Suc.prems in auto)
  show ?case
  proof (cases "n = 0")
    case True
    then have "mem_read (records + i * 528) 16 mem = None" using assms(1) Suc.prems by (auto simp: mem_read_def)
    then show ?thesis by simp
  next
    case False
    then show ?thesis using Suc.IH [of "i + 1"] Suc.prems o by (simp add: Let_def bind_eq_None_conv)
  qed
qed simp

text \<open>
  The number of records in a build request is not compared with its length: a message that announces
  more records than its buffer holds makes the router read, and once it has found its own record also
  write, behind the end of the buffer.
\<close>

theorem build_request_overrun:
  assumes "mem_get 0 buf = Some num" and "num \<noteq> 0" and "length buf < 1 + (unat num - 1) * 528 + 16"
    and "fst (GetPendingInboundTunnel replyMsgID s) = None"
  shows "HandleVariableTunnelBuildMsg E replyMsgID buf len s = None"
proof -
  have n: "0 < unat num" using assms(2) by (simp add: unat_gt_0)
  have "handle_records E (unat num) 1 buf cl s1 = None" for cl s1
    using records_overrun [of buf 1 "unat num" 0 "unat num"] assms(3) n
    by (simp add: handle_records_def HandleBuildRequestRecords_def Let_def case_prod_beta bind_eq_None_conv)
  then show ?thesis using assms(1,4) by (simp add: HandleVariableTunnelBuildMsg_def case_prod_beta)
qed

section \<open>Examples\<close>

text \<open>A router with one inbound tunnel, created at second 900; the clock shows 1000.\<close>

definition demo_inbound_router :: "unit rstate" where
  "demo_inbound_router = (newTunnels ())\<lparr>inHeap := [demo_inbound\<lparr>m_CreationTime := 900\<rparr>], m_InboundTunnels := [(2, 0)],
     poolHeap := [newTunnelPool (Some 1) 3 3 5 5], m_TransitTunnels := [(1, (Participant (demo_participant 3), 300))]\<rparr>"

lemma demo_inbound_rinv: "rinv demo_renv demo_inbound_router"
  by (simp add: rinv_def demo_inbound_router_def newTunnels_def heap_ok_def pools_ok_def pending_ok_def inbound_ok_def transit_ok_def
      q_ok_def smap_ok_def demo_tunnel_defs transit_id_def newTunnelPool_def members_ok_def tests_ok_def built_def
      InboundTunnel_GetTunnelID_def GetLastHop_def)

lemma demo_manage:
  "manage_inbound demo_renv 1000 (m_InboundTunnels demo_inbound_router) demo_inbound_router = Some ([(2, 0)], demo_inbound_router)"
  by (simp add: demo_inbound_router_def newTunnels_def manage_inbound1_def expires_def demo_inbound_def IsEstablished_def)

definition demo_pool_router :: "unit rstate" where
  "demo_pool_router = demo_inbound_router\<lparr>inHeap := [demo_inbound\<lparr>m_CreationTime := 900, m_Pool := Some 0\<rparr>],
     poolHeap := [(newTunnelPool (Some 1) 3 3 5 5)\<lparr>pInboundTunnels := [0]\<rparr>]\<rparr>"

lemma demo_pool_rinv: "rinv demo_renv demo_pool_router"
  by (simp add: rinv_def demo_pool_router_def demo_inbound_router_def newTunnels_def heap_ok_def pools_ok_def pending_ok_def inbound_ok_def transit_ok_def
      q_ok_def smap_ok_def demo_tunnel_defs transit_id_def newTunnelPool_def members_ok_def tests_ok_def built_def
      InboundTunnel_GetTunnelID_def GetLastHop_def)

lemma demo_pool_manage:
  "manage_inbound demo_renv 1561 (m_InboundTunnels demo_pool_router) demo_pool_router =
     Some ([], TunnelExpired_In demo_renv 0 0 demo_pool_router)"
  by (simp add: demo_pool_router_def demo_inbound_router_def newTunnels_def manage_inbound1_def expires_def demo_inbound_def IsEstablished_def)

theorem inbound_expiry_exact_witness:
  "m_InboundTunnels demo_pool_router = [(2, 0)] \<and> rinv demo_renv (TunnelExpired_In demo_renv 0 0 demo_pool_router) \<and>
   list_all (\<lambda>pl. 0 \<notin> set (pInboundTunnels pl)) (poolHeap (TunnelExpired_In demo_renv 0 0 demo_pool_router))"
proof -
  have 1: "\<forall>t \<in> set (inHeap demo_pool_router). unat (m_CreationTime t) + 660 < 2 ^ 32"
    and 2: "m_InboundTunnels demo_pool_router = [(2, 0)]"
    by (simp_all add: demo_pool_router_def demo_inbound_router_def newTunnels_def)
  from inbound_expiry_exact [OF demo_ptr_order demo_pool_rinv demo_pool_manage 1] have
    3: "rinv demo_renv (TunnelExpired_In demo_renv 0 0 demo_pool_router)"
    and 4: "\<forall>e \<in> {(2 :: u32, 0 :: nat)} - {}. \<forall>pl \<in> set (poolHeap (TunnelExpired_In demo_renv 0 0 demo_pool_router)). snd e \<notin> set (pInboundTunnels pl)"
    unfolding 2 list.set by blast+
  show ?thesis using 2 3 bspec [OF 4, of "(2, 0)"] by (simp add: list_all_iff)
qed

theorem transit_expiry_exact_witness:
  "GetTransitTunnel 1 (ManageTransitTunnels demo_renv demo_inbound_router) = None"
proof -
  have g: "GetTransitTunnel 1 demo_inbound_router = Some (Participant (demo_participant 3), 300)"
    by (simp add: GetTransitTunnel_def demo_inbound_router_def map_find_def)
  have ok: "transit_ok (m_TransitTunnels demo_inbound_router)" using demo_inbound_rinv by (simp add: rinv_def)
  from transit_expiry_exact [OF ok g, of demo_renv] show ?thesis by (simp add: demo_renv_def)
qed

theorem transit_expiry_wraps_witness:
  "GetTransitTunnel 1 (ManageTransitTunnels (demo_renv\<lparr>seconds := \<lambda>g. (0xFFFFFF00, g)\<rparr>)
     (demo_inbound_router\<lparr>m_TransitTunnels := [(1, (Participant (demo_participant 3), 0xFFFFFF00))]\<rparr>)) = None"
  by (rule transit_expiry_wraps [where c = "0xFFFFFF00" and t = "Participant (demo_participant 3)"])
     (simp_all add: GetTransitTunnel_def map_find_def transit_ok_def smap_ok_def transit_id_def demo_tunnel_defs)

theorem next_tunnel_chosen_witness:
  "fst (GetNextTunnel demo_renv (\<lambda>t. t \<noteq> 1) [1, 2, 3] (Some 2) demo_router) = Some 3"
  using next_tunnel_chosen [where E = demo_renv and established = "\<lambda>t. t \<noteq> 1" and tunnels = "[1, 2, 3]" and excluded = "Some 2" and s = demo_router]
  by (auto split: option.splits)

theorem least_used_inbound_witness:
  "Tunnels_GetNextInboundTunnel demo_inbound_router = Some 0"
  using least_used_inbound [of demo_inbound_router]
  by (auto simp: demo_inbound_router_def IsEstablished_def demo_inbound_def split: option.splits)

theorem selected_hops_exact_witness:
  "SelectPeers (demo_renv\<lparr>fastRouter := \<lambda>r g. (Some [5], g)\<rparr>) 0 True demo_inbound_router =
     Some ((True, [[5], [5], [5]]), demo_inbound_router) \<and> int (length [[5], [5], [5 :: byte]]) = 3"
proof -
  let ?E = "demo_renv\<lparr>fastRouter := \<lambda>r g. (Some [5], g)\<rparr>"
  have s: "SelectPeers ?E 0 True demo_inbound_router = Some ((True, [[5], [5], [5]]), demo_inbound_router)"
    by (simp add: SelectPeers_def demo_inbound_router_def newTunnelPool_def demo_renv_def ask_def Let_def SelectNextHop_def
        numeral_3_eq_3 newTunnels_def)
  have "int (length [[5], [5], [5 :: byte]]) = 3"
    by (rule selected_hops_exact [OF _ _ _ s]) (simp_all add: demo_inbound_router_def newTunnelPool_def)
  with s show ?thesis by simp
qed

theorem zero_hops_become_one_witness:
  "\<exists>s'. SelectPeers (demo_renv\<lparr>numPeers := \<lambda>g. (26, g), randomPeer := \<lambda>g. (Some [5], g)\<rparr>) 0 True
     (demo_inbound_router\<lparr>poolHeap := [newTunnelPool (Some 1) 0 0 5 5]\<rparr>) = Some ((True, [[5]]), s')"
  by (rule zero_hops_become_one) (simp_all add: newTunnelPool_def demo_renv_def)

theorem no_router_crashes_witness:
  "ManageInboundTunnels demo_renv demo_inbound_router = None"
  by (rule no_router_crashes [OF _ demo_manage]) (simp_all add: ask_def demo_renv_def)

theorem empty_explicit_peers_crash_witness:
  "CreateInboundTunnel demo_renv 0 (upd_pool 0 (SetExplicitPeers (Some [])) demo_inbound_router) = None"
  by (rule empty_explicit_peers_crash) (simp add: demo_inbound_router_def)

theorem build_request_overrun_witness:
  "HandleVariableTunnelBuildMsg demo_renv 7 (8 # replicate 3000 0) 3001 demo_router = None"
  by (rule build_request_overrun [where num = 8]) (simp_all add: mem_get_def GetPendingInboundTunnel_def demo_router_def newTunnels_def map_find_def)

end
