(* ===== verification/Identities.thy ===== *)
theory Identities
  imports Base64 Tunnel_Gateway ElGamal
begin

text \<open>
Identities of routers and destinations: \<open>src/core/Identity.cpp\<close> and \<open>Identity.h\<close>. An identity is an
  encryption key, a signing key and a certificate; a certificate of type key names the signature algorithm and
  holds the part of the signing key that does not fit the 128 bytes of the standard identity. The
  signature algorithms of the crypto library are parameters.
\<close>

section \<open>Standard identities\<close>

text \<open>
  \<open>certLength\<close> is the 16-bit field as it lies in memory; the code reads it with \<open>be16toh\<close>. The
  structures are packed: an \<open>Identity\<close> occupies 387 bytes.
\<close>

record Identity =
  publicKey :: bytes
  signingKey :: bytes
  certType :: byte
  certLength :: u16

record Keys =
  kPrivateKey :: bytes
  kSigningPrivateKey :: bytes
  kPublicKey :: bytes
  kSigningKey :: bytes

abbreviation DEFAULT_IDENTITY_SIZE :: nat where "DEFAULT_IDENTITY_SIZE \<equiv> 387"
abbreviation CERTIFICATE_TYPE_KEY :: byte where "CERTIFICATE_TYPE_KEY \<equiv> 5"

abbreviation SIGNING_KEY_TYPE_DSA_SHA1 :: u16 where "SIGNING_KEY_TYPE_DSA_SHA1 \<equiv> 0"
abbreviation SIGNING_KEY_TYPE_ECDSA_SHA256_P256 :: u16 where "SIGNING_KEY_TYPE_ECDSA_SHA256_P256 \<equiv> 1"
abbreviation SIGNING_KEY_TYPE_ECDSA_SHA384_P384 :: u16 where "SIGNING_KEY_TYPE_ECDSA_SHA384_P384 \<equiv> 2"
abbreviation SIGNING_KEY_TYPE_ECDSA_SHA512_P521 :: u16 where "SIGNING_KEY_TYPE_ECDSA_SHA512_P521 \<equiv> 3"
abbreviation SIGNING_KEY_TYPE_RSA_SHA256_2048 :: u16 where "SIGNING_KEY_TYPE_RSA_SHA256_2048 \<equiv> 4"
abbreviation SIGNING_KEY_TYPE_RSA_SHA384_3072 :: u16 where "SIGNING_KEY_TYPE_RSA_SHA384_3072 \<equiv> 5"
abbreviation SIGNING_KEY_TYPE_RSA_SHA512_4096 :: u16 where "SIGNING_KEY_TYPE_RSA_SHA512_4096 \<equiv> 6"
abbreviation SIGNING_KEY_TYPE_EDDSA_SHA512_ED25519 :: u16 where "SIGNING_KEY_TYPE_EDDSA_SHA512_ED25519 \<equiv> 7"
abbreviation CRYPTO_KEY_TYPE_ELGAMAL :: u16 where "CRYPTO_KEY_TYPE_ELGAMAL \<equiv> 0"

definition Identity_bytes :: "Identity \<Rightarrow> bytes" where
  "Identity_bytes i = publicKey i @ signingKey i @ [certType i] @ le_bytes 2 (certLength i)"

definition Identity_of :: "bytes \<Rightarrow> Identity" where
  "Identity_of bs =
     \<lparr>publicKey = take 256 bs, signingKey = take 128 (drop 256 bs), certType = bs ! 384,
      certLength = of_le (take 2 (drop 385 bs))\<rparr>"

definition Identity_assign_Keys :: "Keys \<Rightarrow> Identity" where
  "Identity_assign_Keys keys =
     \<lparr>publicKey = kPublicKey keys, signingKey = kSigningKey keys, certType = 0, certLength = 0\<rparr>"

definition Identity_FromBuffer :: "nat \<Rightarrow> bytes \<Rightarrow> (nat \<times> Identity) option" where
  "Identity_FromBuffer p mem = do {
     bs \<leftarrow> mem_read p DEFAULT_IDENTITY_SIZE mem;
     Some (DEFAULT_IDENTITY_SIZE, Identity_of bs)
   }"

definition Identity_Hash :: "(bytes \<Rightarrow> bytes) \<Rightarrow> Identity \<Rightarrow> bytes" where
  "Identity_Hash sha i = sha (Identity_bytes i)"

section \<open>Signature algorithms\<close>

text \<open>The lengths that the verifiers of \<open>Signature.h\<close> and \<open>EdDSA25519.h\<close> report, by key type.\<close>

definition PublicKeyLen :: "u16 \<Rightarrow> nat" where
  "PublicKeyLen t =
     (if t = SIGNING_KEY_TYPE_DSA_SHA1 then 128
      else if t = SIGNING_KEY_TYPE_ECDSA_SHA256_P256 then 64
      else if t = SIGNING_KEY_TYPE_ECDSA_SHA384_P384 then 96
      else if t = SIGNING_KEY_TYPE_ECDSA_SHA512_P521 then 132
      else if t = SIGNING_KEY_TYPE_RSA_SHA256_2048 then 256
      else if t = SIGNING_KEY_TYPE_RSA_SHA384_3072 then 384
      else if t = SIGNING_KEY_TYPE_RSA_SHA512_4096 then 512
      else 32)"

definition SignatureLen :: "u16 \<Rightarrow> nat" where
  "SignatureLen t =
     (if t = SIGNING_KEY_TYPE_DSA_SHA1 then 40
      else if t = SIGNING_KEY_TYPE_EDDSA_SHA512_ED25519 then 64
      else PublicKeyLen t)"

definition is_RSA :: "u16 \<Rightarrow> bool" where
  "is_RSA t \<longleftrightarrow> t = SIGNING_KEY_TYPE_RSA_SHA256_2048 \<or> t = SIGNING_KEY_TYPE_RSA_SHA384_3072 \<or>
     t = SIGNING_KEY_TYPE_RSA_SHA512_4096"

definition PrivateKeyLen :: "u16 \<Rightarrow> nat" where
  "PrivateKeyLen t = (if is_RSA t then SignatureLen t * 2 else SignatureLen t div 2)"

section \<open>Extended identities\<close>

text \<open>
  \<open>m_ExtendedBuffer\<close> is null, owns an allocated block, or still points to a block that was deleted.
  Deleting or reading through it in the last case is undefined.
\<close>

datatype ext_ptr = Null | Owned bytes | Freed

text \<open>A verifier is its algorithm and public key.\<close>

record IdentityEx =
  m_StandardIdentity :: Identity
  m_IdentHash :: bytes
  m_Verifier :: "(u16 \<times> bytes) option"
  m_ExtendedLen :: nat
  m_ExtendedBuffer :: ext_ptr

definition ext_delete :: "ext_ptr \<Rightarrow> ext_ptr option" where
  "ext_delete e = (case e of Null \<Rightarrow> Some Null | Owned b \<Rightarrow> Some Freed | Freed \<Rightarrow> None)"

definition ext_read :: "nat \<Rightarrow> nat \<Rightarrow> ext_ptr \<Rightarrow> bytes option" where
  "ext_read p n e = (case e of Owned b \<Rightarrow> mem_read p n b | _ \<Rightarrow> None)"

text \<open>The default constructor leaves the standard identity and the hash as the memory was.\<close>

definition newIdentityEx :: "Identity \<Rightarrow> bytes \<Rightarrow> IdentityEx" where
  "newIdentityEx std h =
     \<lparr>m_StandardIdentity = std, m_IdentHash = h, m_Verifier = None, m_ExtendedLen = 0, m_ExtendedBuffer = Null\<rparr>"

definition GetFullLen :: "IdentityEx \<Rightarrow> nat" where
  "GetFullLen i = m_ExtendedLen i + DEFAULT_IDENTITY_SIZE"

definition GetSigningKeyType :: "IdentityEx \<Rightarrow> u16 option" where
  "GetSigningKeyType i =
     (if certType (m_StandardIdentity i) = CERTIFICATE_TYPE_KEY \<and> m_ExtendedBuffer i \<noteq> Null
      then map_option of_be (ext_read 0 2 (m_ExtendedBuffer i)) else Some SIGNING_KEY_TYPE_DSA_SHA1)"

definition GetCryptoKeyType :: "IdentityEx \<Rightarrow> u16 option" where
  "GetCryptoKeyType i =
     (if certType (m_StandardIdentity i) = CERTIFICATE_TYPE_KEY \<and> m_ExtendedBuffer i \<noteq> Null
      then map_option of_be (ext_read 2 2 (m_ExtendedBuffer i)) else Some CRYPTO_KEY_TYPE_ELGAMAL)"

text \<open>
  \<open>CreateVerifier\<close>: short keys lie at the end of the 128 bytes of the standard identity, long ones
  continue in the extended buffer behind the two key types. Unknown types leave the verifier null.
\<close>

definition make_verifier :: "u16 \<Rightarrow> bytes \<Rightarrow> ext_ptr \<Rightarrow> (u16 \<times> bytes) option option" where
  "make_verifier keyType sk ext =
     (if keyType = SIGNING_KEY_TYPE_DSA_SHA1 then Some (Some (keyType, sk))
      else if keyType = SIGNING_KEY_TYPE_ECDSA_SHA256_P256 \<or> keyType = SIGNING_KEY_TYPE_ECDSA_SHA384_P384 \<or>
              keyType = SIGNING_KEY_TYPE_EDDSA_SHA512_ED25519 then
        Some (Some (keyType, drop (128 - PublicKeyLen keyType) sk))
      else if keyType = SIGNING_KEY_TYPE_ECDSA_SHA512_P521 \<or> is_RSA keyType then
        map_option (\<lambda>excess. Some (keyType, sk @ excess)) (ext_read 4 (PublicKeyLen keyType - 128) ext)
      else Some None)"

definition CreateVerifier :: "IdentityEx \<Rightarrow> IdentityEx option" where
  "CreateVerifier i = do {
     keyType \<leftarrow> GetSigningKeyType i;
     v \<leftarrow> make_verifier keyType (signingKey (m_StandardIdentity i)) (m_ExtendedBuffer i);
     Some (if v = None then i else i\<lparr>m_Verifier := v\<rparr>)
   }"

definition DropVerifier :: "IdentityEx \<Rightarrow> IdentityEx" where
  "DropVerifier i = i\<lparr>m_Verifier := None\<rparr>"

definition with_verifier :: "IdentityEx \<Rightarrow> IdentityEx option" where
  "with_verifier i = (if m_Verifier i = None then CreateVerifier i else Some i)"

definition GetSigningPublicKeyLen :: "IdentityEx \<Rightarrow> (nat \<times> IdentityEx) option" where
  "GetSigningPublicKeyLen i = do {
     i1 \<leftarrow> with_verifier i;
     Some (case m_Verifier i1 of Some (t, k) \<Rightarrow> PublicKeyLen t | None \<Rightarrow> 128, i1)
   }"

definition GetSignatureLen :: "IdentityEx \<Rightarrow> (nat \<times> IdentityEx) option" where
  "GetSignatureLen i = do {
     i1 \<leftarrow> with_verifier i;
     Some (case m_Verifier i1 of Some (t, k) \<Rightarrow> SignatureLen t | None \<Rightarrow> 40, i1)
   }"

definition GetSigningPrivateKeyLen :: "IdentityEx \<Rightarrow> (nat \<times> IdentityEx) option" where
  "GetSigningPrivateKeyLen i = do {
     i1 \<leftarrow> with_verifier i;
     case m_Verifier i1 of
       Some (t, k) \<Rightarrow> Some (PrivateKeyLen t, i1)
     | None \<Rightarrow> map_option (\<lambda>(n, i2). (n div 2, i2)) (GetSignatureLen i1)
   }"

text \<open>
  The signature scheme of the crypto library: \<open>verifyWith t key data signature\<close>. The signature is read
  from memory at \<open>sp\<close>.
\<close>

definition Identity_Verify ::
    "(u16 \<Rightarrow> bytes \<Rightarrow> bytes \<Rightarrow> bytes \<Rightarrow> bool) \<Rightarrow> bytes \<Rightarrow> nat \<Rightarrow> bytes \<Rightarrow> IdentityEx \<Rightarrow> (bool \<times> IdentityEx) option" where
  "Identity_Verify verifyWith data sp smem i = do {
     i1 \<leftarrow> with_verifier i;
     case m_Verifier i1 of
       Some (t, k) \<Rightarrow> map_option (\<lambda>s. (verifyWith t k data s, i1)) (mem_read sp (SignatureLen t) smem)
     | None \<Rightarrow> Some (False, i1)
   }"

section \<open>Reading, writing and copying identities\<close>

definition FromBuffer :: "(bytes \<Rightarrow> bytes) \<Rightarrow> nat \<Rightarrow> nat \<Rightarrow> bytes \<Rightarrow> IdentityEx \<Rightarrow> (nat \<times> IdentityEx) option" where
  "FromBuffer sha p len mem i =
     (if len < DEFAULT_IDENTITY_SIZE then Some (0, i)
      else do {
        bs \<leftarrow> mem_read p DEFAULT_IDENTITY_SIZE mem;
        let std = Identity_of bs;
        e \<leftarrow> ext_delete (m_ExtendedBuffer i);
        if certLength std \<noteq> 0 then do {
          let l = unat (be16toh (certLength std));
          if l + DEFAULT_IDENTITY_SIZE \<le> len then do {
            b \<leftarrow> mem_read (p + DEFAULT_IDENTITY_SIZE) l mem;
            hashed \<leftarrow> mem_read p (l + DEFAULT_IDENTITY_SIZE) mem;
            Some (l + DEFAULT_IDENTITY_SIZE,
              \<lparr>m_StandardIdentity = std, m_IdentHash = sha hashed, m_Verifier = None, m_ExtendedLen = l,
               m_ExtendedBuffer = Owned b\<rparr>)
          }
          else Some (0, i\<lparr>m_StandardIdentity := std, m_ExtendedLen := l, m_ExtendedBuffer := e\<rparr>)
        }
        else Some (DEFAULT_IDENTITY_SIZE,
          \<lparr>m_StandardIdentity = std, m_IdentHash = sha bs, m_Verifier = None, m_ExtendedLen = 0,
           m_ExtendedBuffer = Null\<rparr>)
      })"

definition ToBuffer :: "nat \<Rightarrow> IdentityEx \<Rightarrow> bytes \<Rightarrow> (nat \<times> bytes) option" where
  "ToBuffer p i mem = do {
     m1 \<leftarrow> mem_write p (Identity_bytes (m_StandardIdentity i)) mem;
     m2 \<leftarrow> (if m_ExtendedLen i > 0 \<and> m_ExtendedBuffer i \<noteq> Null then do {
              b \<leftarrow> ext_read 0 (m_ExtendedLen i) (m_ExtendedBuffer i);
              mem_write (p + DEFAULT_IDENTITY_SIZE) b m1
            } else Some m1);
     Some (GetFullLen i, m2)
   }"

definition IdentityEx_assign :: "IdentityEx \<Rightarrow> IdentityEx \<Rightarrow> IdentityEx option" where
  "IdentityEx_assign other i = do {
     e \<leftarrow> ext_delete (m_ExtendedBuffer i);
     e1 \<leftarrow> (if m_ExtendedLen other > 0
            then map_option Owned (ext_read 0 (m_ExtendedLen other) (m_ExtendedBuffer other)) else Some Null);
     Some \<lparr>m_StandardIdentity = m_StandardIdentity other, m_IdentHash = m_IdentHash other, m_Verifier = None,
           m_ExtendedLen = m_ExtendedLen other, m_ExtendedBuffer = e1\<rparr>
   }"

definition IdentityEx_assign_Identity :: "(bytes \<Rightarrow> bytes) \<Rightarrow> Identity \<Rightarrow> IdentityEx \<Rightarrow> IdentityEx option" where
  "IdentityEx_assign_Identity sha std i = do {
     e \<leftarrow> ext_delete (m_ExtendedBuffer i);
     Some \<lparr>m_StandardIdentity = std, m_IdentHash = Identity_Hash sha std, m_Verifier = None, m_ExtendedLen = 0,
           m_ExtendedBuffer = Null\<rparr>
   }"

text \<open>The constructor from a buffer, and the destructor.\<close>

definition newIdentityEx_buf :: "(bytes \<Rightarrow> bytes) \<Rightarrow> Identity \<Rightarrow> bytes \<Rightarrow> nat \<Rightarrow> nat \<Rightarrow> bytes \<Rightarrow> IdentityEx option" where
  "newIdentityEx_buf sha std h p len mem = map_option snd (FromBuffer sha p len mem (newIdentityEx std h))"

definition deleteIdentityEx :: "IdentityEx \<Rightarrow> unit option" where
  "deleteIdentityEx i = map_option (\<lambda>_. ()) (ext_delete (m_ExtendedBuffer i))"

text \<open>
  The constructor from keys. The signing key is read from memory at its start; \<open>stale\<close> is what the
  memory of the new object held.
\<close>

definition fill_signing_key ::
    "'g genv \<Rightarrow> u16 \<Rightarrow> bytes \<Rightarrow> bytes \<Rightarrow> 'g \<Rightarrow> (bytes \<times> bytes \<times> 'g) option" where
  "fill_signing_key E type sk stale g =
     (if type = SIGNING_KEY_TYPE_ECDSA_SHA256_P256 \<or> type = SIGNING_KEY_TYPE_ECDSA_SHA384_P384 \<or>
         type = SIGNING_KEY_TYPE_EDDSA_SHA512_ED25519 then do {
        let (pad, g1) = genBlock E (128 - PublicKeyLen type) g;
        k \<leftarrow> mem_read 0 (PublicKeyLen type) sk;
        Some (pad @ k, [], g1)
      }
      else if type = SIGNING_KEY_TYPE_ECDSA_SHA512_P521 \<or> is_RSA type then do {
        k \<leftarrow> mem_read 0 128 sk;
        excess \<leftarrow> mem_read 128 (PublicKeyLen type - 128) sk;
        Some (k, excess, g)
      }
      else Some (stale, [], g))"

definition newIdentityEx_keys ::
    "'g genv \<Rightarrow> bytes \<Rightarrow> bytes \<Rightarrow> u16 \<Rightarrow> bytes \<Rightarrow> 'g \<Rightarrow> (IdentityEx \<times> 'g) option" where
  "newIdentityEx_keys E pub sk type stale g = do {
     pk \<leftarrow> mem_read 0 256 pub;
     if type \<noteq> SIGNING_KEY_TYPE_DSA_SHA1 then do {
       (k, excess, g1) \<leftarrow> fill_signing_key E type sk stale g;
       let l = 4 + length excess;
       let std = \<lparr>publicKey = pk, signingKey = k, certType = CERTIFICATE_TYPE_KEY, certLength = htobe16 (of_nat l)\<rparr>;
       let b = be_bytes 2 type @ be_bytes 2 CRYPTO_KEY_TYPE_ELGAMAL @ excess;
       i \<leftarrow> CreateVerifier \<lparr>m_StandardIdentity = std, m_IdentHash = gsha E (Identity_bytes std @ b), m_Verifier = None,
              m_ExtendedLen = l, m_ExtendedBuffer = Owned b\<rparr>;
       Some (i, g1)
     }
     else do {
       k \<leftarrow> mem_read 0 128 sk;
       let std = \<lparr>publicKey = pk, signingKey = k, certType = 0, certLength = 0\<rparr>;
       i \<leftarrow> CreateVerifier \<lparr>m_StandardIdentity = std, m_IdentHash = Identity_Hash (gsha E) std, m_Verifier = None,
              m_ExtendedLen = 0, m_ExtendedBuffer = Null\<rparr>;
       Some (i, g)
     }
   }"

text \<open>
  Identities as text: the byte buffer has 1024 bytes, the text buffer 1536. \<open>stack\<close> is what the byte
  buffer held before.
\<close>

definition FromBase64 :: "(bytes \<Rightarrow> bytes) \<Rightarrow> bytes \<Rightarrow> bytes \<Rightarrow> IdentityEx \<Rightarrow> (nat \<times> IdentityEx) option" where
  "FromBase64 sha stack s i = do {
     (len, stores) \<leftarrow> Base64ToByteStream s 1024;
     buf \<leftarrow> mem_write 0 stores stack;
     FromBuffer sha 0 len buf i
   }"

definition ToBase64 :: "bytes \<Rightarrow> IdentityEx \<Rightarrow> bytes option" where
  "ToBase64 stack i = do {
     (l, buf) \<leftarrow> ToBuffer 0 i stack;
     data \<leftarrow> mem_read 0 l buf;
     (_, str) \<leftarrow> ByteStreamToBase64 data 1536;
     Some str
   }"

section \<open>Private keys\<close>

text \<open>
  The signing private key lies in an array of 1024 bytes. A signer is its algorithm and the private key it
  copied. \<open>sigenv\<close> are the operations of the crypto library: key pairs as (private, public).
\<close>

record PrivateKeys =
  m_Public :: IdentityEx
  m_PrivateKey :: bytes
  m_SigningPrivateKey :: bytes
  m_Signer :: "(u16 \<times> bytes) option"

record 'g sigenv =
  verifyWith :: "u16 \<Rightarrow> bytes \<Rightarrow> bytes \<Rightarrow> bytes \<Rightarrow> bool"
  signWith :: "u16 \<Rightarrow> bytes \<Rightarrow> bytes \<Rightarrow> 'g \<Rightarrow> bytes \<times> 'g"
  signingKeyPair :: "u16 \<Rightarrow> 'g \<Rightarrow> (bytes \<times> bytes) \<times> 'g"
  dhKeyPair :: "'g \<Rightarrow> (bytes \<times> bytes) \<times> 'g"

definition CreateSigner :: "PrivateKeys \<Rightarrow> PrivateKeys option" where
  "CreateSigner k = do {
     t \<leftarrow> GetSigningKeyType (m_Public k);
     if t \<le> SIGNING_KEY_TYPE_EDDSA_SHA512_ED25519 then do {
       sk \<leftarrow> mem_read 0 (PrivateKeyLen t) (m_SigningPrivateKey k);
       Some (k\<lparr>m_Signer := Some (t, sk)\<rparr>)
     }
     else Some k
   }"

definition PrivateKeys_Sign :: "'g sigenv \<Rightarrow> bytes \<Rightarrow> PrivateKeys \<Rightarrow> 'g \<Rightarrow> bytes option \<times> 'g" where
  "PrivateKeys_Sign S data k g =
     (case m_Signer k of
        Some (t, sk) \<Rightarrow> let (s, g1) = signWith S t sk data g in (Some s, g1)
      | None \<Rightarrow> (None, g))"

definition PrivateKeys_GetFullLen :: "PrivateKeys \<Rightarrow> (nat \<times> PrivateKeys) option" where
  "PrivateKeys_GetFullLen k = do {
     (n, i) \<leftarrow> GetSigningPrivateKeyLen (m_Public k);
     Some (GetFullLen i + 256 + n, k\<lparr>m_Public := i\<rparr>)
   }"

definition PrivateKeys_FromBuffer ::
    "(bytes \<Rightarrow> bytes) \<Rightarrow> nat \<Rightarrow> nat \<Rightarrow> bytes \<Rightarrow> PrivateKeys \<Rightarrow> (nat \<times> PrivateKeys) option" where
  "PrivateKeys_FromBuffer sha p len mem k = do {
     (ret, i) \<leftarrow> FromBuffer sha p len mem (m_Public k);
     pk \<leftarrow> mem_read (p + ret) 256 mem;
     (n, i1) \<leftarrow> GetSigningPrivateKeyLen i;
     sk \<leftarrow> mem_read (p + ret + 256) n mem;
     arr \<leftarrow> mem_write 0 sk (m_SigningPrivateKey k);
     k1 \<leftarrow> CreateSigner \<lparr>m_Public = i1, m_PrivateKey = pk, m_SigningPrivateKey = arr, m_Signer = None\<rparr>;
     Some (ret + 256 + n, k1)
   }"

definition PrivateKeys_ToBuffer :: "nat \<Rightarrow> PrivateKeys \<Rightarrow> bytes \<Rightarrow> (nat \<times> bytes) option" where
  "PrivateKeys_ToBuffer p k mem = do {
     (ret, m1) \<leftarrow> ToBuffer p (m_Public k) mem;
     m2 \<leftarrow> mem_write (p + ret) (m_PrivateKey k) m1;
     (n, i) \<leftarrow> GetSigningPrivateKeyLen (m_Public k);
     sk \<leftarrow> mem_read 0 n (m_SigningPrivateKey k);
     m3 \<leftarrow> mem_write (p + ret + 256) sk m2;
     Some (ret + 256 + n, m3)
   }"

definition PrivateKeys_assign :: "PrivateKeys \<Rightarrow> PrivateKeys \<Rightarrow> PrivateKeys option" where
  "PrivateKeys_assign other k = do {
     i \<leftarrow> IdentityEx_assign (m_Public other) (m_Public k);
     (n, i1) \<leftarrow> GetSigningPrivateKeyLen i;
     sk \<leftarrow> mem_read 0 n (m_SigningPrivateKey other);
     arr \<leftarrow> mem_write 0 sk (m_SigningPrivateKey k);
     CreateSigner \<lparr>m_Public = i1, m_PrivateKey = m_PrivateKey other, m_SigningPrivateKey = arr, m_Signer = None\<rparr>
   }"

definition PrivateKeys_assign_Keys :: "(bytes \<Rightarrow> bytes) \<Rightarrow> Keys \<Rightarrow> PrivateKeys \<Rightarrow> PrivateKeys option" where
  "PrivateKeys_assign_Keys sha keys k = do {
     i \<leftarrow> IdentityEx_assign_Identity sha (Identity_assign_Keys keys) (m_Public k);
     (n, i1) \<leftarrow> GetSigningPrivateKeyLen i;
     sk \<leftarrow> mem_read 0 n (kSigningPrivateKey keys);
     arr \<leftarrow> mem_write 0 sk (m_SigningPrivateKey k);
     CreateSigner \<lparr>m_Public = i1, m_PrivateKey = kPrivateKey keys, m_SigningPrivateKey = arr, m_Signer = None\<rparr>
   }"

text \<open>Texts of private keys; the buffers are allocated to fit, \<open>heap\<close> is what they held.\<close>

definition PrivateKeys_FromBase64 ::
    "(bytes \<Rightarrow> bytes) \<Rightarrow> (nat \<Rightarrow> bytes) \<Rightarrow> bytes \<Rightarrow> PrivateKeys \<Rightarrow> (nat \<times> PrivateKeys) option" where
  "PrivateKeys_FromBase64 sha heap s k = do {
     (l, stores) \<leftarrow> Base64ToByteStream s (length s);
     buf \<leftarrow> mem_write 0 stores (heap (length s));
     PrivateKeys_FromBuffer sha 0 l buf k
   }"

definition PrivateKeys_ToBase64 :: "(nat \<Rightarrow> bytes) \<Rightarrow> PrivateKeys \<Rightarrow> bytes option" where
  "PrivateKeys_ToBase64 heap k = do {
     (full, k1) \<leftarrow> PrivateKeys_GetFullLen k;
     (l, buf) \<leftarrow> PrivateKeys_ToBuffer 0 k1 (heap full);
     data \<leftarrow> mem_read 0 l buf;
     (l1, str) \<leftarrow> ByteStreamToBase64 data (full * 2);
     if l1 < full * 2 then Some str else None
   }"

text \<open>Random keys; \<open>bits\<close> is the exponent drawn for ElGamal.\<close>

definition CreateRandomKeys :: "'g sigenv \<Rightarrow> 'g genv \<Rightarrow> group \<Rightarrow> 'g \<Rightarrow> Keys \<times> 'g" where
  "CreateRandomKeys S E G g =
     (let (bits, g1) = genBlock E 256 g;
          (priv, pub) = GenerateElGamalKeyPair G bits;
          ((sp, sk), g2) = signingKeyPair S SIGNING_KEY_TYPE_DSA_SHA1 g1
      in (\<lparr>kPrivateKey = priv, kSigningPrivateKey = sp, kPublicKey = pub, kSigningKey = sk\<rparr>, g2))"

definition PrivateKeys_CreateRandomKeys ::
    "'g sigenv \<Rightarrow> 'g genv \<Rightarrow> group \<Rightarrow> u16 \<Rightarrow> PrivateKeys \<Rightarrow> bytes \<Rightarrow> 'g \<Rightarrow> (PrivateKeys \<times> 'g) option" where
  "PrivateKeys_CreateRandomKeys S E G type fresh stale g =
     (if SIGNING_KEY_TYPE_DSA_SHA1 < type \<and> type \<le> SIGNING_KEY_TYPE_RSA_SHA512_4096 then do {
        let ((sp, sk), g1) = signingKeyPair S type g;
        arr \<leftarrow> mem_write 0 sp (m_SigningPrivateKey fresh);
        let ((priv, pub), g2) = dhKeyPair S g1;
        (i, g3) \<leftarrow> newIdentityEx_keys E pub sk type stale g2;
        i1 \<leftarrow> IdentityEx_assign i (m_Public fresh);
        k \<leftarrow> CreateSigner (fresh\<lparr>m_Public := i1, m_PrivateKey := priv, m_SigningPrivateKey := arr\<rparr>);
        Some (k, g3)
      }
      else do {
        let (keys, g1) = CreateRandomKeys S E G g;
        k \<leftarrow> PrivateKeys_assign_Keys (gsha E) keys fresh;
        Some (k, g1)
      })"

section \<open>Routing keys\<close>

text \<open>The civil date of a day number, as \<open>gmtime_r\<close> computes it, and the decimal digits of \<open>sprintf\<close>.\<close>

definition civil_date :: "nat \<Rightarrow> nat \<times> nat \<times> nat" where
  "civil_date day =
     (let z = day + 719468;
          era = z div 146097;
          doe = z mod 146097;
          yoe = (doe - doe div 1460 + doe div 36524 - doe div 146096) div 365;
          doy = doe - (365 * yoe + yoe div 4 - yoe div 100);
          mp = (5 * doy + 2) div 153;
          d = doy - (153 * mp + 2) div 5 + 1;
          m = (if mp < 10 then mp + 3 else mp - 9)
      in (yoe + era * 400 + (if m \<le> 2 then 1 else 0), m, d))"

fun digits :: "nat \<Rightarrow> bytes" where
  "digits n = (if n < 10 then [48 + of_nat n] else digits (n div 10) @ [48 + of_nat (n mod 10)])"

definition zero_padded :: "nat \<Rightarrow> nat \<Rightarrow> bytes" where
  "zero_padded w n = replicate (w - length (digits n)) 48 @ digits n"

definition CreateRoutingKey :: "(bytes \<Rightarrow> bytes) \<Rightarrow> nat \<Rightarrow> bytes \<Rightarrow> bytes option" where
  "CreateRoutingKey sha time ident = do {
     let (y, m, d) = civil_date (time div 86400);
     let text = zero_padded 4 y @ zero_padded 2 m @ zero_padded 2 d;
     buf \<leftarrow> mem_write 0 ident (replicate 41 0);
     buf1 \<leftarrow> mem_write 32 (text @ [0]) buf;
     data \<leftarrow> mem_read 0 40 buf1;
     Some (sha data)
   }"

text \<open>The distance of two hashes, and its order: \<open>memcmp\<close> on the bytes.\<close>

definition XORMetric :: "bytes \<Rightarrow> bytes \<Rightarrow> bytes" where
  "XORMetric key1 key2 = map2 (XOR) key1 key2"

fun metric_less :: "bytes \<Rightarrow> bytes \<Rightarrow> bool" where
  "metric_less (x # xs) (y # ys) = (x < y \<or> x = y \<and> metric_less xs ys)"
| "metric_less _ _ = False"

section \<open>Well-formed identities\<close>

definition identity_ok :: "Identity \<Rightarrow> bool" where
  "identity_ok i \<longleftrightarrow> length (publicKey i) = 256 \<and> length (signingKey i) = 128"

definition ext_bytes :: "ext_ptr \<Rightarrow> bytes" where
  "ext_bytes e = (case e of Owned b \<Rightarrow> b | _ \<Rightarrow> [])"

text \<open>The certificate announces the bytes the extended buffer has.\<close>

definition idex_ok :: "IdentityEx \<Rightarrow> bool" where
  "idex_ok i \<longleftrightarrow> identity_ok (m_StandardIdentity i) \<and>
     m_ExtendedLen i = unat (be16toh (certLength (m_StandardIdentity i))) \<and>
     (case m_ExtendedBuffer i of
        Null \<Rightarrow> m_ExtendedLen i = 0
      | Owned b \<Rightarrow> 0 < m_ExtendedLen i \<and> length b = m_ExtendedLen i
      | Freed \<Rightarrow> False)"

definition idex_bytes :: "IdentityEx \<Rightarrow> bytes" where
  "idex_bytes i = Identity_bytes (m_StandardIdentity i) @ ext_bytes (m_ExtendedBuffer i)"

lemma length_Identity_bytes [simp, len_simps]: "identity_ok i \<Longrightarrow> length (Identity_bytes i) = 387"
  by (simp add: Identity_bytes_def identity_ok_def)

lemma Identity_of_bytes [simp]: "identity_ok i \<Longrightarrow> Identity_of (Identity_bytes i) = i"
  by (simp add: Identity_of_def Identity_bytes_def identity_ok_def nth_append)

lemma identity_ok_of: "length bs = 387 \<Longrightarrow> identity_ok (Identity_of bs)"
  by (simp add: identity_ok_def Identity_of_def)

lemma Identity_bytes_of [simp]:
  assumes "length bs = 387"
  shows "Identity_bytes (Identity_of bs) = bs"
proof -
  have "drop 384 bs = bs ! 384 # drop 385 bs" using Cons_nth_drop_Suc [of 384 bs] assms by simp
  then have "drop 256 bs = take 128 (drop 256 bs) @ bs ! 384 # drop 385 bs"
    using append_take_drop_id [of 128 "drop 256 bs"] by simp
  then show ?thesis
    using append_take_drop_id [of 256 bs] assms by (simp add: Identity_bytes_def Identity_of_def)
qed

lemma be16toh_eq_0 [simp]: "be16toh x = 0 \<longleftrightarrow> x = 0"
proof
  assume "be16toh x = 0"
  then have "bswap (be16toh x) = bswap (0 :: u16)" by simp
  then show "x = 0" by (simp add: be16toh_def bswap_def [of 0] le_bytes_def upt_rec)
qed (simp add: be16toh_def bswap_def le_bytes_def upt_rec)

lemma be16toh_0 [simp]: "be16toh 0 = 0"
  by (simp add: be16toh_eq_0)

lemma idex_eta:
  "i\<lparr>m_IdentHash := h, m_Verifier := v\<rparr> = \<lparr>m_StandardIdentity = m_StandardIdentity i, m_IdentHash = h, m_Verifier = v,
     m_ExtendedLen = m_ExtendedLen i, m_ExtendedBuffer = m_ExtendedBuffer i\<rparr>"
  by (cases i) simp

lemma idex_ok_ext: "idex_ok i \<Longrightarrow> length (ext_bytes (m_ExtendedBuffer i)) = m_ExtendedLen i"
  by (auto simp: idex_ok_def ext_bytes_def split: ext_ptr.splits)

lemma length_idex_bytes [len_simps]: "idex_ok i \<Longrightarrow> length (idex_bytes i) = GetFullLen i"
  by (simp add: idex_bytes_def GetFullLen_def idex_ok_ext idex_ok_def)

lemma mem_read_join:
  "mem_read p a mem = Some xs \<Longrightarrow> mem_read (p + a) b mem = Some ys \<Longrightarrow> mem_read p (a + b) mem = Some (xs @ ys)"
  by (auto simp: mem_read_def take_add add.commute [of a p] split: if_splits)

lemma mem_write_twice:
  "Option.bind (mem_write p xs mem) (mem_write (p + length xs) ys) = mem_write p (xs @ ys) mem"
proof (cases "p + length (xs @ ys) \<le> length mem")
  case True
  then obtain pre mid post where "mem = pre @ mid @ post" "length pre = p" "length mid = length (xs @ ys)"
    using split_at [of p "length (xs @ ys)" mem] by blast
  then show ?thesis
    by (auto simp: mem_write_def)
qed (auto simp: mem_write_def)

lemma ToBuffer_eq:
  assumes "idex_ok i"
  shows "ToBuffer p i mem = map_option (Pair (GetFullLen i)) (mem_write p (idex_bytes i) mem)"
proof (cases "m_ExtendedBuffer i")
  case (Owned b)
  then have b: "length b = m_ExtendedLen i" "0 < m_ExtendedLen i" "identity_ok (m_StandardIdentity i)"
    using assms by (auto simp: idex_ok_def)
  show ?thesis
    using mem_write_twice [of p "Identity_bytes (m_StandardIdentity i)" mem b] b Owned
    by (cases "mem_write p (Identity_bytes (m_StandardIdentity i)) mem")
       (auto simp: ToBuffer_def idex_bytes_def ext_bytes_def ext_read_def mem_read_def map_option_case split: option.splits)
qed (use assms in \<open>auto simp: ToBuffer_def idex_bytes_def ext_bytes_def idex_ok_def map_option_case split: option.splits\<close>)

lemma FromBuffer_eq:
  assumes "idex_ok i" and "mem_read p (GetFullLen i) mem = Some (idex_bytes i)" and "GetFullLen i \<le> len"
    and "m_ExtendedBuffer j \<noteq> Freed"
  shows "FromBuffer sha p len mem j = Some (GetFullLen i, i\<lparr>m_IdentHash := sha (idex_bytes i), m_Verifier := None\<rparr>)"
proof -
  have ok: "identity_ok (m_StandardIdentity i)" using assms(1) by (simp add: idex_ok_def)
  have r1: "mem_read p 387 mem = Some (Identity_bytes (m_StandardIdentity i))"
    using mem_read_sub [OF assms(2), of 0 387] ok by (simp add: GetFullLen_def idex_bytes_def)
  obtain e where e: "ext_delete (m_ExtendedBuffer j) = Some e"
    using assms(4) by (cases "m_ExtendedBuffer j") (auto simp: ext_delete_def)
  have r2: "mem_read (p + 387) (m_ExtendedLen i) mem = Some (ext_bytes (m_ExtendedBuffer i))"
    using mem_read_sub [OF assms(2), of 387 "m_ExtendedLen i"] ok idex_ok_ext [OF assms(1)]
    by (simp add: GetFullLen_def idex_bytes_def)
  have len: "\<not> len < 387" using assms(3) by (simp add: GetFullLen_def)
  show ?thesis
  proof (cases "m_ExtendedBuffer i")
    case Null
    then have n: "m_ExtendedLen i = 0" and "unat (be16toh (certLength (m_StandardIdentity i))) = 0"
      using assms(1) by (simp_all add: idex_ok_def)
    then have "certLength (m_StandardIdentity i) = 0" by (simp add: unat_eq_zero)
    then show ?thesis
      using Null n r1 e ok len
      by (simp add: FromBuffer_def GetFullLen_def idex_bytes_def ext_bytes_def idex_eta Let_def)
  next
    case (Owned b)
    then have n: "unat (be16toh (certLength (m_StandardIdentity i))) = m_ExtendedLen i" and "0 < m_ExtendedLen i"
      using assms(1) by (simp_all add: idex_ok_def)
    then have c: "certLength (m_StandardIdentity i) \<noteq> 0" by (metis be16toh_eq_0 unat_0 less_irrefl)
    show ?thesis
      using assms(2,3) r1 r2 e ok len c Owned
      by (simp add: FromBuffer_def n GetFullLen_def ext_bytes_def idex_eta Let_def)
  qed (use assms(1) in \<open>simp add: idex_ok_def\<close>)
qed

text \<open>What a buffer was read from is what the identity is written to.\<close>

lemma FromBuffer_ok:
  assumes "FromBuffer sha p len mem j = Some (ret, i)" and "ret \<noteq> 0"
  shows "idex_ok i \<and> ret = GetFullLen i \<and> mem_read p ret mem = Some (idex_bytes i) \<and> m_IdentHash i = sha (idex_bytes i) \<and>
    m_Verifier i = None \<and> ret \<le> len"
proof -
  obtain bs e where bs: "mem_read p 387 mem = Some bs" and e: "ext_delete (m_ExtendedBuffer j) = Some e" and len: "\<not> len < 387"
    using assms by (auto simp: FromBuffer_def Let_def split: if_splits bind_splits)
  have l: "length bs = 387" using bs by (rule mem_read_length)
  show ?thesis
  proof (cases "certLength (Identity_of bs) = 0")
    case True
    then show ?thesis
      using assms bs e len l by (auto simp: FromBuffer_def idex_ok_def GetFullLen_def idex_bytes_def ext_bytes_def identity_ok_of)
  next
    case False
    define n where "n = unat (be16toh (certLength (Identity_of bs)))"
    have n0: "0 < n" using False by (simp add: n_def unat_gt_0)
    obtain b where b: "mem_read (p + 387) n mem = Some b" and n: "n + 387 \<le> len"
      using assms bs e len False by (auto simp: FromBuffer_def n_def Let_def split: if_splits bind_splits)
    have full: "mem_read p (n + 387) mem = Some (bs @ b)"
      using mem_read_join [OF bs b] by (simp add: add.commute)
    show ?thesis
      using assms bs e len False b full n n0 l mem_read_length [OF b]
      by (auto simp: FromBuffer_def n_def [symmetric] idex_ok_def GetFullLen_def idex_bytes_def ext_bytes_def identity_ok_of Let_def)
  qed
qed

section \<open>Keys in identities\<close>

lemma key_type_cases:
  assumes "t \<le> (7 :: u16)"
  obtains "t = 0" | "t = 1" | "t = 2" | "t = 3" | "t = 4" | "t = 5" | "t = 6" | "t = 7"
proof -
  have "unat t \<le> 7" using assms by (simp add: word_le_nat_alt)
  then have "unat t = 0 \<or> unat t = 1 \<or> unat t = 2 \<or> unat t = 3 \<or> unat t = 4 \<or> unat t = 5 \<or> unat t = 6 \<or> unat t = 7" by linarith
  moreover have "t = of_nat (unat t)" by simp
  ultimately show thesis
    by (elim disjE; simp; use that in simp)
qed

lemmas key_lens = PublicKeyLen_def SignatureLen_def PrivateKeyLen_def is_RSA_def

text \<open>The verifier depends on the standard identity and the extended buffer only.\<close>

definition verifier_of :: "IdentityEx \<Rightarrow> (u16 \<times> bytes) option option" where
  "verifier_of i = do {
     keyType \<leftarrow> GetSigningKeyType i;
     make_verifier keyType (signingKey (m_StandardIdentity i)) (m_ExtendedBuffer i)
   }"

lemma verifier_of_update [simp]:
  "verifier_of (i\<lparr>m_IdentHash := h\<rparr>) = verifier_of i" "verifier_of (i\<lparr>m_Verifier := v\<rparr>) = verifier_of i"
  by (simp_all add: verifier_of_def GetSigningKeyType_def)

lemma idex_update [simp]:
  "idex_ok (i\<lparr>m_IdentHash := h\<rparr>) = idex_ok i" "idex_ok (i\<lparr>m_Verifier := v\<rparr>) = idex_ok i"
  "idex_bytes (i\<lparr>m_IdentHash := h\<rparr>) = idex_bytes i" "idex_bytes (i\<lparr>m_Verifier := v\<rparr>) = idex_bytes i"
  "GetFullLen (i\<lparr>m_IdentHash := h\<rparr>) = GetFullLen i" "GetFullLen (i\<lparr>m_Verifier := v\<rparr>) = GetFullLen i"
  "GetSigningKeyType (i\<lparr>m_IdentHash := h\<rparr>) = GetSigningKeyType i"
  "GetSigningKeyType (i\<lparr>m_Verifier := v\<rparr>) = GetSigningKeyType i"
  by (simp_all add: idex_ok_def idex_bytes_def GetFullLen_def GetSigningKeyType_def split: ext_ptr.split)

lemma with_verifier_of:
  "m_Verifier i = None \<Longrightarrow> with_verifier i = map_option (\<lambda>v. i\<lparr>m_Verifier := v\<rparr>) (verifier_of i)"
  by (cases "GetSigningKeyType i"; cases "make_verifier (the (GetSigningKeyType i)) (signingKey (m_StandardIdentity i)) (m_ExtendedBuffer i)")
     (auto simp: with_verifier_def verifier_of_def CreateVerifier_def)

lemma fill_signing_key_ok:
  assumes "genv_ok E" and "t \<le> SIGNING_KEY_TYPE_EDDSA_SHA512_ED25519" and "t \<noteq> SIGNING_KEY_TYPE_DSA_SHA1"
    and "PublicKeyLen t \<le> length sk" and "length hd4 = 4"
  shows "\<exists>k excess g'. fill_signing_key E t sk stale g = Some (k, excess, g') \<and> length k = 128 \<and> length excess \<le> 384 \<and>
    make_verifier t k (Owned (hd4 @ excess)) = Some (Some (t, take (PublicKeyLen t) sk))"
proof -
  obtain pad g1 where pad: "genBlock E (128 - PublicKeyLen t) g = (pad, g1)" by (cases "genBlock E (128 - PublicKeyLen t) g")
  then have lpad: "length pad = 128 - PublicKeyLen t" using assms(1) by (metis genv_ok_def fst_conv)
  have split: "take 128 sk @ take n (drop 128 sk) = take (128 + n) sk" for n by (simp add: take_add)
  from assms(2) show ?thesis
    using assms(3-5) pad lpad split [of 4] split [of 128] split [of 256] split [of 384]
    by (cases rule: key_type_cases) (simp_all add: fill_signing_key_def make_verifier_def key_lens mem_read_def ext_read_def)
qed

lemma newIdentityEx_keys_ok:
  assumes "genv_ok E" and "t \<le> SIGNING_KEY_TYPE_EDDSA_SHA512_ED25519" and "length pub = 256" and "PublicKeyLen t \<le> length sk"
  shows "\<exists>i g'. newIdentityEx_keys E pub sk t stale g = Some (i, g') \<and> idex_ok i \<and> publicKey (m_StandardIdentity i) = pub \<and>
    m_IdentHash i = gsha E (idex_bytes i) \<and> GetSigningKeyType i = Some t \<and>
    verifier_of i = Some (Some (t, take (PublicKeyLen t) sk)) \<and> GetFullLen i \<le> 775"
proof (cases "t = SIGNING_KEY_TYPE_DSA_SHA1")
  case True
  then show ?thesis
    using assms(3,4)
    by (simp add: newIdentityEx_keys_def mem_read_def PublicKeyLen_def CreateVerifier_def GetSigningKeyType_def make_verifier_def
        idex_ok_def identity_ok_def idex_bytes_def ext_bytes_def Identity_Hash_def verifier_of_def GetFullLen_def Let_def)
next
  case False
  define hd4 where "hd4 = be_bytes 2 t @ be_bytes 2 CRYPTO_KEY_TYPE_ELGAMAL"
  have "length hd4 = 4" by (simp add: hd4_def)
  from fill_signing_key_ok [OF assms(1,2) False assms(4) this, where stale = stale and g = g]
  obtain k excess g' where f: "fill_signing_key E t sk stale g = Some (k, excess, g')" "length k = 128" "length excess \<le> 384"
      and v: "make_verifier t k (Owned (hd4 @ excess)) = Some (Some (t, take (PublicKeyLen t) sk))"
    by blast
  have "unat (of_nat (4 + length excess) :: u16) = 4 + length excess"
    using f(3) by (simp only: unsigned_of_nat) (simp add: take_bit_nat_eq_self)
  then have l: "unat (4 + of_nat (length excess) :: u16) = 4 + length excess" by simp
  define i where "i = \<lparr>m_StandardIdentity = \<lparr>publicKey = pub, signingKey = k, certType = CERTIFICATE_TYPE_KEY,
      certLength = htobe16 (of_nat (4 + length excess))\<rparr>, m_IdentHash = gsha E (Identity_bytes \<lparr>publicKey = pub, signingKey = k,
      certType = CERTIFICATE_TYPE_KEY, certLength = htobe16 (of_nat (4 + length excess))\<rparr> @ hd4 @ excess),
      m_Verifier = None, m_ExtendedLen = 4 + length excess, m_ExtendedBuffer = Owned (hd4 @ excess)\<rparr>"
  have t: "GetSigningKeyType i = Some t"
    by (simp add: i_def GetSigningKeyType_def ext_read_def mem_read_def hd4_def)
  have "CreateVerifier i = Some (i\<lparr>m_Verifier := Some (t, take (PublicKeyLen t) sk)\<rparr>)"
    using v by (simp add: CreateVerifier_def t) (simp add: i_def)
  then have "newIdentityEx_keys E pub sk t stale g = Some (i\<lparr>m_Verifier := Some (t, take (PublicKeyLen t) sk)\<rparr>, g')"
    using False f assms(3) by (simp add: newIdentityEx_keys_def mem_read_def Let_def i_def hd4_def)
  moreover have "idex_ok i"
    using f assms(3) l by (simp add: i_def idex_ok_def identity_ok_def be16toh_def htobe16_def hd4_def unat_of_nat)
  moreover have "verifier_of i = Some (Some (t, take (PublicKeyLen t) sk))"
    using v by (simp add: verifier_of_def t) (simp add: i_def)
  moreover have "publicKey (m_StandardIdentity i) = pub" "m_IdentHash i = gsha E (idex_bytes i)" "GetFullLen i \<le> 775"
    using f(3) by (simp_all add: i_def idex_bytes_def ext_bytes_def GetFullLen_def)
  ultimately show ?thesis
    using t by (intro exI [of _ "i\<lparr>m_Verifier := Some (t, take (PublicKeyLen t) sk)\<rparr>"] exI [of _ g']) simp
qed

section \<open>Theorems\<close>

text \<open>
  C20. An identity carries its keys to other routers: for each of the eight signature algorithms, the
  identity made from a public and a signing key, written to a buffer and read back by another router,
  has the same hash and encryption key, and verifies signatures with exactly the signing key it was
  made from.
\<close>

theorem identity_carries_key:
  assumes "genv_ok E" and "t \<le> SIGNING_KEY_TYPE_EDDSA_SHA512_ED25519" and "length pub = 256" and "PublicKeyLen t \<le> length sk"
    and "p + 775 \<le> length mem" and "m_ExtendedBuffer j \<noteq> Freed"
  shows "\<exists>i g' mem' i1 i2. newIdentityEx_keys E pub sk t stale g = Some (i, g') \<and>
    ToBuffer p i mem = Some (GetFullLen i, mem') \<and> length mem' = length mem \<and>
    FromBuffer (gsha E) p (length mem - p) mem' j = Some (GetFullLen i, i1) \<and>
    m_IdentHash i1 = m_IdentHash i \<and> publicKey (m_StandardIdentity i1) = pub \<and>
    with_verifier i1 = Some i2 \<and> m_Verifier i2 = Some (t, take (PublicKeyLen t) sk)"
proof -
  obtain i g' where i: "newIdentityEx_keys E pub sk t stale g = Some (i, g')" "idex_ok i" "publicKey (m_StandardIdentity i) = pub"
      "m_IdentHash i = gsha E (idex_bytes i)" "verifier_of i = Some (Some (t, take (PublicKeyLen t) sk))" "GetFullLen i \<le> 775"
    using newIdentityEx_keys_ok [OF assms(1-4)] by blast
  obtain mem' where w: "mem_write p (idex_bytes i) mem = Some mem'"
    using i(2,6) assms(5) by (auto simp: mem_write_def length_idex_bytes)
  have "mem_read p (GetFullLen i) mem' = Some (idex_bytes i)"
    using mem_read_write_same [OF w] i(2) by (simp add: length_idex_bytes)
  then have "FromBuffer (gsha E) p (length mem - p) mem' j =
      Some (GetFullLen i, i\<lparr>m_IdentHash := gsha E (idex_bytes i), m_Verifier := None\<rparr>)"
    using i(2,6) assms(5,6) by (intro FromBuffer_eq) auto
  then show ?thesis
    using i w mem_write_length [OF w] with_verifier_of [of "i\<lparr>m_IdentHash := gsha E (idex_bytes i), m_Verifier := None\<rparr>"]
    by (simp add: ToBuffer_eq)
qed

text \<open>
  C32. What is read as an identity is well formed and covers exactly the bytes that were consumed: writing
  it again gives the same bytes, and its hash is the hash of these bytes.
\<close>

theorem identity_read_wellformed:
  assumes "FromBuffer sha p len mem j = Some (ret, i)" and "ret \<noteq> 0"
  shows "idex_ok i \<and> ret \<le> len \<and> mem_read p ret mem = Some (idex_bytes i) \<and> m_IdentHash i = sha (idex_bytes i) \<and>
    ToBuffer p i mem = Some (ret, mem)"
proof -
  note ok = FromBuffer_ok [OF assms]
  then have "mem_write p (idex_bytes i) mem = Some mem"
    by (auto simp: mem_read_Some_iff mem_write_def length_idex_bytes)
      (metis add.commute append_take_drop_id drop_drop)
  with ok show ?thesis by (auto simp: ToBuffer_eq)
qed

text \<open>
  A certificate longer than the buffer leaves an identity that had one before with a pointer to memory
  it has given back: reading another identity into it, copying to it or destroying it frees that memory a
  second time.
\<close>

theorem failed_read_double_free:
  assumes "m_ExtendedBuffer i = Owned b" and "387 \<le> len" and "mem_read p 387 mem = Some bs"
    and "len < unat (be16toh (certLength (Identity_of bs))) + 387"
  shows "\<exists>i1. FromBuffer sha p len mem i = Some (0, i1) \<and> deleteIdentityEx i1 = None \<and>
    (\<forall>p' mem'. p' + 387 \<le> length mem' \<longrightarrow> FromBuffer sha p' 387 mem' i1 = None) \<and> IdentityEx_assign other i1 = None"
proof -
  have "certLength (Identity_of bs) \<noteq> 0" using assms(2,4) by auto
  then have "FromBuffer sha p len mem i = Some (0, i\<lparr>m_StandardIdentity := Identity_of bs,
      m_ExtendedLen := unat (be16toh (certLength (Identity_of bs))), m_ExtendedBuffer := Freed\<rparr>)"
    using assms by (simp add: FromBuffer_def ext_delete_def Let_def)
  then show ?thesis
    by (auto simp: deleteIdentityEx_def ext_delete_def IdentityEx_assign_def FromBuffer_def Let_def mem_read_def)
qed

text \<open>
  Writing an identity as text is safe exactly up to 1024 bytes: shorter ones are read back from the
  text by another router, longer ones (a certificate has up to 65535 bytes) overflow the buffer on the stack.
\<close>

theorem identity_text_bounds:
  assumes "idex_ok i" and "length stack = 1024" and "length stack' = 1024" and "m_ExtendedBuffer j \<noteq> Freed"
  shows "if GetFullLen i \<le> 1024
    then \<exists>s. ToBase64 stack i = Some s \<and> FromBase64 sha stack' s j =
           Some (GetFullLen i, i\<lparr>m_IdentHash := sha (idex_bytes i), m_Verifier := None\<rparr>)
    else ToBase64 stack i = None"
proof (cases "GetFullLen i \<le> 1024")
  case True
  define xs where "xs = idex_bytes i"
  have len: "length xs = GetFullLen i" using assms(1) by (simp add: xs_def length_idex_bytes)
  then have ne: "xs \<noteq> []" by (auto simp: GetFullLen_def)
  have "ToBase64 stack i = Some (enc64 xs)"
    using True assms(1,2) len base64_inverse [OF ne, of 1536 1024]
    by (simp add: ToBase64_def ToBuffer_eq xs_def [symmetric] mem_write_def mem_read_def)
  moreover have "FromBase64 sha stack' (enc64 xs) j =
      Some (GetFullLen i, i\<lparr>m_IdentHash := sha (idex_bytes i), m_Verifier := None\<rparr>)"
    using True assms(3,4) len base64_inverse [OF ne, of 1536 1024]
    by (simp add: FromBase64_def mem_write_def) (intro FromBuffer_eq, simp_all add: assms(1) mem_read_def xs_def)
  ultimately show ?thesis using True by simp
next
  case False
  then show ?thesis
    using assms(1,2) by (simp add: ToBase64_def ToBuffer_eq mem_write_def length_idex_bytes)
qed

text \<open>Private keys of a known type, with a public part that has a verifier.\<close>

definition keys_ok :: "u16 \<Rightarrow> PrivateKeys \<Rightarrow> bool" where
  "keys_ok t k \<longleftrightarrow> idex_ok (m_Public k) \<and> GetSigningKeyType (m_Public k) = Some t \<and> t \<le> SIGNING_KEY_TYPE_EDDSA_SHA512_ED25519 \<and>
     (\<exists>key. verifier_of (m_Public k) = Some (Some (t, key)) \<and> m_Verifier (m_Public k) \<in> {None, Some (t, key)}) \<and>
     length (m_PrivateKey k) = 256 \<and> length (m_SigningPrivateKey k) = 1024"

lemma PrivateKeyLen_le: "t \<le> SIGNING_KEY_TYPE_EDDSA_SHA512_ED25519 \<Longrightarrow> PrivateKeyLen t \<le> 1024"
  by (erule key_type_cases) (simp_all add: key_lens)

lemma keys_private_len:
  assumes "verifier_of i = Some (Some (t, key))" and "m_Verifier i \<in> {None, Some (t, key)}"
  shows "GetSigningPrivateKeyLen i = Some (PrivateKeyLen t, i\<lparr>m_Verifier := Some (t, key)\<rparr>)"
proof (cases "m_Verifier i")
  case None
  then show ?thesis using assms by (simp add: GetSigningPrivateKeyLen_def with_verifier_of)
next
  case (Some v)
  then show ?thesis using assms by (cases i) (simp add: GetSigningPrivateKeyLen_def with_verifier_def)
qed

text \<open>
  C21. Private keys survive being written and read back: for every signature algorithm the reader gets the
  same identity, the same encryption key, and a signer with the same signing key.
\<close>

theorem private_keys_roundtrip:
  assumes "keys_ok t k" and "p + GetFullLen (m_Public k) + 256 + PrivateKeyLen t \<le> length mem"
    and "m_ExtendedBuffer (m_Public k0) \<noteq> Freed" and "length (m_SigningPrivateKey k0) = 1024"
  shows "\<exists>n mem' k1. PrivateKeys_ToBuffer p k mem = Some (n, mem') \<and> PrivateKeys_FromBuffer sha p n mem' k0 = Some (n, k1) \<and>
    n = GetFullLen (m_Public k) + 256 + PrivateKeyLen t \<and> idex_bytes (m_Public k1) = idex_bytes (m_Public k) \<and>
    m_PrivateKey k1 = m_PrivateKey k \<and> m_Signer k1 = Some (t, take (PrivateKeyLen t) (m_SigningPrivateKey k))"
proof -
  let ?L = "GetFullLen (m_Public k)" and ?N = "PrivateKeyLen t"
  obtain key where v: "verifier_of (m_Public k) = Some (Some (t, key))" "m_Verifier (m_Public k) \<in> {None, Some (t, key)}"
    using assms(1) by (auto simp: keys_ok_def)
  have ok: "idex_ok (m_Public k)" "GetSigningKeyType (m_Public k) = Some t" "t \<le> 7" "length (m_PrivateKey k) = 256"
      "length (m_SigningPrivateKey k) = 1024" "?N \<le> 1024"
    using assms(1) PrivateKeyLen_le by (auto simp: keys_ok_def)
  let ?a = "idex_bytes (m_Public k)" and ?b = "m_PrivateKey k" and ?c = "take ?N (m_SigningPrivateKey k)"
  obtain pre old post where mem: "mem = pre @ old @ post" "length pre = p" "length old = ?L + 256 + ?N"
    using split_at [of p "?L + 256 + ?N" mem] assms(2) by (metis add.assoc)
  obtain o12 o3 where o: "old = o12 @ o3" "length o12 = ?L + 256" "length o3 = ?N"
    using mem(3) unfolding length_eq_add_conv [of old "?L + 256"] by blast
  then obtain o1 o2 where old: "old = o1 @ o2 @ o3" "length o1 = ?L" "length o2 = 256" "length o3 = ?N"
    unfolding length_eq_add_conv [of o12] by auto
  define mem' where "mem' = pre @ ?a @ ?b @ ?c @ post"
  have la: "length ?a = ?L" using ok(1) by (simp add: length_idex_bytes)
  have w1: "mem_write p ?a mem = Some (pre @ ?a @ o2 @ o3 @ post)"
    using mem old la by (simp add: mem_write_def)
  have w2: "mem_write (p + ?L) ?b (pre @ ?a @ o2 @ o3 @ post) = Some (pre @ ?a @ ?b @ o3 @ post)"
    using mem old la ok by (simp add: mem_write_def)
  have w3: "mem_write (p + ?L + 256) ?c (pre @ ?a @ ?b @ o3 @ post) = Some mem'"
    using mem old la ok by (simp add: mem_write_def mem'_def)
  have "PrivateKeys_ToBuffer p k mem = Some (?L + 256 + ?N, mem')"
    using ok w1 w2 w3 by (simp add: PrivateKeys_ToBuffer_def ToBuffer_eq keys_private_len [OF v] mem_read_def)
  moreover have r: "mem_read p ?L mem' = Some ?a" "mem_read (p + ?L) 256 mem' = Some ?b" "mem_read (p + ?L + 256) ?N mem' = Some ?c"
    using mem la ok by (simp_all add: mem'_def mem_read_def)
  then have f: "FromBuffer sha p (?L + 256 + ?N) mem' (m_Public k0) = Some (?L, (m_Public k)\<lparr>m_IdentHash := sha ?a, m_Verifier := None\<rparr>)"
    using ok assms(3) by (intro FromBuffer_eq) auto
  have "PrivateKeys_FromBuffer sha p (?L + 256 + ?N) mem' k0 = Some (?L + 256 + ?N,
      \<lparr>m_Public = (m_Public k)\<lparr>m_IdentHash := sha ?a, m_Verifier := Some (t, key)\<rparr>, m_PrivateKey = ?b,
       m_SigningPrivateKey = ?c @ drop ?N (m_SigningPrivateKey k0), m_Signer = Some (t, ?c)\<rparr>)"
    using ok assms(4) r v keys_private_len [of "(m_Public k)\<lparr>m_IdentHash := sha ?a, m_Verifier := None\<rparr>" t key]
    by (simp add: PrivateKeys_FromBuffer_def f CreateSigner_def mem_write_def mem_read_def)
  ultimately show ?thesis by simp
qed

section \<open>Examples\<close>

definition demo_identity :: Identity where
  "demo_identity = \<lparr>publicKey = replicate 256 1, signingKey = replicate 128 2, certType = 0, certLength = 0\<rparr>"

definition demo_idex :: IdentityEx where
  "demo_idex = newIdentityEx demo_identity []"

definition demo_keys :: PrivateKeys where
  "demo_keys = \<lparr>m_Public = demo_idex, m_PrivateKey = replicate 256 3, m_SigningPrivateKey = replicate 1024 4, m_Signer = None\<rparr>"

text \<open>A certificate of four bytes announced by a buffer that ends behind the standard identity.\<close>

definition demo_short :: bytes where
  "demo_short = Identity_bytes (demo_identity\<lparr>certType := 5, certLength := htobe16 4\<rparr>)"

lemma demo_idex_ok: "idex_ok demo_idex"
  by (simp add: demo_idex_def newIdentityEx_def demo_identity_def idex_ok_def identity_ok_def)

lemma demo_full [simp]: "GetFullLen demo_idex = 387"
  by (simp add: demo_idex_def newIdentityEx_def GetFullLen_def)

lemma demo_ext [simp]: "m_ExtendedBuffer demo_idex = Null"
  by (simp add: demo_idex_def newIdentityEx_def)

lemma demo_no_verifier [simp]: "demo_idex\<lparr>m_IdentHash := h, m_Verifier := None\<rparr> = demo_idex\<lparr>m_IdentHash := h\<rparr>"
  by (simp add: demo_idex_def newIdentityEx_def)

theorem identity_carries_key_witness:
  "\<exists>i g' mem' i1 i2. newIdentityEx_keys demo_genv (replicate 256 1) (replicate 512 2) 6 [] () = Some (i, g') \<and>
    ToBuffer 0 i (replicate 800 0) = Some (GetFullLen i, mem') \<and>
    FromBuffer (gsha demo_genv) 0 800 mem' demo_idex = Some (GetFullLen i, i1) \<and>
    with_verifier i1 = Some i2 \<and> m_Verifier i2 = Some (6, replicate 512 2)"
proof -
  have "PublicKeyLen 6 = 512" by (simp add: PublicKeyLen_def)
  then show ?thesis
    using identity_carries_key [OF demo_genv_ok, of 6 "replicate 256 1" "replicate 512 2" 0 "replicate 800 0" demo_idex "[]" "()"]
    by (fastforce simp: word_le_nat_alt)
qed

theorem identity_read_wellformed_witness:
  "idex_ok demo_idex \<and> ToBuffer 0 (demo_idex\<lparr>m_IdentHash := [7]\<rparr>) (idex_bytes demo_idex) = Some (387, idex_bytes demo_idex)"
proof -
  have "mem_read 0 387 (idex_bytes demo_idex) = Some (idex_bytes demo_idex)"
    using length_idex_bytes [OF demo_idex_ok] by (simp add: mem_read_def)
  then have "FromBuffer (\<lambda>_. [7]) 0 387 (idex_bytes demo_idex) demo_idex = Some (387, demo_idex\<lparr>m_IdentHash := [7], m_Verifier := None\<rparr>)"
    using FromBuffer_eq [OF demo_idex_ok, of 0 "idex_bytes demo_idex" 387 demo_idex "\<lambda>_. [7]"] by simp
  from identity_read_wellformed [OF this] show ?thesis
    by simp
qed

theorem failed_read_double_free_witness:
  "\<exists>i1. FromBuffer (\<lambda>_. []) 0 387 demo_short (demo_idex\<lparr>m_ExtendedBuffer := Owned [0, 1, 2, 3]\<rparr>) = Some (0, i1) \<and>
    deleteIdentityEx i1 = None"
proof -
  have ok: "identity_ok (demo_identity\<lparr>certType := 5, certLength := htobe16 4\<rparr>)" by (simp add: identity_ok_def demo_identity_def)
  then have r: "mem_read 0 387 demo_short = Some demo_short"
    by (simp add: mem_read_def demo_short_def)
  have "387 < unat (be16toh (certLength (Identity_of demo_short))) + 387"
    unfolding demo_short_def Identity_of_bytes [OF ok] by (simp add: be16toh_def htobe16_def)
  from failed_read_double_free [OF _ order_refl r this, of "demo_idex\<lparr>m_ExtendedBuffer := Owned [0, 1, 2, 3]\<rparr>" "[0, 1, 2, 3]" "\<lambda>_. []" demo_idex]
  show ?thesis by auto
qed

theorem identity_text_bounds_witness:
  "\<exists>s. ToBase64 (replicate 1024 0) demo_idex = Some s \<and> FromBase64 (\<lambda>_. [7]) (replicate 1024 9) s demo_idex =
     Some (387, demo_idex\<lparr>m_IdentHash := [7]\<rparr>)"
  using identity_text_bounds [OF demo_idex_ok, of "replicate 1024 0" "replicate 1024 9" demo_idex "\<lambda>_. [7]"]
  by simp

theorem private_keys_roundtrip_witness:
  "\<exists>n mem' k1. PrivateKeys_ToBuffer 0 demo_keys (replicate 663 0) = Some (n, mem') \<and>
    PrivateKeys_FromBuffer (\<lambda>_. [7]) 0 n mem' demo_keys = Some (n, k1) \<and> n = 663 \<and>
    m_PrivateKey k1 = replicate 256 3 \<and> m_Signer k1 = Some (0, replicate 20 4)"
proof -
  have len: "PrivateKeyLen 0 = 20" by (simp add: key_lens)
  have "keys_ok 0 demo_keys"
    using demo_idex_ok by (simp add: keys_ok_def demo_keys_def GetSigningKeyType_def verifier_of_def make_verifier_def
        demo_idex_def newIdentityEx_def)
  from private_keys_roundtrip [OF this, of 0 "replicate 663 0" demo_keys "\<lambda>_. [7]"] show ?thesis
    by (auto simp: len demo_keys_def min_def)
qed

end
