(* ===== verification/Lease_Set.thy ===== *)
theory Lease_Set
  imports Identities Router_Batch
begin

text \<open>
  Lease sets: \<open>src/core/LeaseSet.cpp\<close> and \<open>LeaseSet.h\<close>. A destination publishes the gateways of its inbound
  tunnels in a signed lease set; other routers read and verify it. The network database that looks up and
  requests routers, and the keys of local destinations, are seen through their answers.
\<close>

section \<open>Lease sets\<close>

abbreviation MAX_LS_BUFFER_SIZE :: nat where "MAX_LS_BUFFER_SIZE \<equiv> 3072"

record Lease =
  tunnelGateway :: bytes
  leaseTunnelID :: u32
  endDate :: u64

text \<open>\<open>Lease::operator<\<close>: later leases first.\<close>

definition lease_less :: "Lease \<Rightarrow> Lease \<Rightarrow> bool" where
  "lease_less a b = (if endDate a \<noteq> endDate b then endDate a > endDate b else leaseTunnelID a < leaseTunnelID b)"

text \<open>\<open>lsBuffer\<close> is the allocated memory; \<open>m_BufferLen\<close> bytes of it are in use.\<close>

record LeaseSet =
  m_IsValid :: bool
  m_Leases :: "Lease list"
  m_Identity :: IdentityEx
  m_EncryptionKey :: bytes
  lsBuffer :: bytes
  m_BufferLen :: nat

text \<open>
  The leases of a buffer from position \<open>p\<close>: gateways that the network database does not know are
  requested.
\<close>

fun read_leases :: "'g renv \<Rightarrow> nat \<Rightarrow> nat \<Rightarrow> bytes \<Rightarrow> 'g rstate \<Rightarrow> (Lease list \<times> nat \<times> 'g rstate) option" where
  "read_leases E 0 p mem s = Some ([], p, s)"
| "read_leases E (Suc n) p mem s = do {
     gw \<leftarrow> mem_read p 32 mem;
     tid \<leftarrow> bufbe32toh (p + 32) mem;
     ed \<leftarrow> bufbe64toh (p + 36) mem;
     let (r, s1) = ask (findRouter E gw) s;
     let s2 = (if r = None then emit (RequestDestination gw) s1 else s1);
     (ls, p1, s3) \<leftarrow> read_leases E n (p + 44) mem s2;
     Some (\<lparr>tunnelGateway = gw, leaseTunnelID = tid, endDate = ed\<rparr> # ls, p1, s3)
   }"

definition ReadFromBuffer :: "'g sigenv \<Rightarrow> 'g renv \<Rightarrow> LeaseSet \<Rightarrow> 'g rstate \<Rightarrow> (LeaseSet \<times> 'g rstate) option" where
  "ReadFromBuffer S E ls s = do {
     let mem = lsBuffer ls;
     (size0, i0) \<leftarrow> FromBuffer (gsha (gen E)) 0 (m_BufferLen ls) mem (m_Identity ls);
     ek \<leftarrow> mem_read size0 256 mem;
     (n, i1) \<leftarrow> GetSigningPublicKeyLen i0;
     let size1 = size0 + 256 + n;
     num \<leftarrow> mem_get size1 mem;
     (leases, p, s1) \<leftarrow> read_leases E (unat num) (size1 + 1) mem s;
     data \<leftarrow> mem_read 0 p mem;
     (verified, i2) \<leftarrow> Identity_Verify (verifyWith S) data p mem i1;
     Some (ls\<lparr>m_IsValid := m_IsValid ls \<and> num \<noteq> 0 \<and> verified, m_Leases := m_Leases ls @ leases, m_Identity := i2,
              m_EncryptionKey := ek\<rparr>, s1)
   }"

text \<open>A lease set received from the network; \<open>fresh\<close> is the memory of the new object.\<close>

definition newLeaseSet :: "'g sigenv \<Rightarrow> 'g renv \<Rightarrow> IdentityEx \<Rightarrow> nat \<Rightarrow> bytes \<Rightarrow> 'g rstate \<Rightarrow> (LeaseSet \<times> 'g rstate) option" where
  "newLeaseSet S E fresh len buf s = do {
     bs \<leftarrow> mem_read 0 len buf;
     ReadFromBuffer S E \<lparr>m_IsValid = True, m_Leases = [], m_Identity = fresh, m_EncryptionKey = [], lsBuffer = bs,
       m_BufferLen = len\<rparr> s
   }"

definition Update :: "'g sigenv \<Rightarrow> 'g renv \<Rightarrow> nat \<Rightarrow> bytes \<Rightarrow> LeaseSet \<Rightarrow> 'g rstate \<Rightarrow> (LeaseSet \<times> 'g rstate) option" where
  "Update S E len buf ls s = do {
     bs \<leftarrow> mem_read 0 len buf;
     mem \<leftarrow> (if len > m_BufferLen ls then Some bs else mem_write 0 bs (lsBuffer ls));
     ReadFromBuffer S E (ls\<lparr>m_Leases := [], lsBuffer := mem, m_BufferLen := len\<rparr>) s
   }"

section \<open>The lease set of a local destination\<close>

text \<open>A lease ends a minute before its tunnel; the sum is taken in 32 bits before it becomes milliseconds.\<close>

definition lease_end :: "u32 \<Rightarrow> nat \<Rightarrow> u64" where
  "lease_end creation rnd = ucast (creation + 660 - 60) * 1000 + of_nat rnd"

fun write_leases :: "'g renv \<Rightarrow> nat list \<Rightarrow> nat \<Rightarrow> bytes \<Rightarrow> 'g rstate \<Rightarrow> (nat \<times> bytes \<times> 'g rstate) option" where
  "write_leases E [] p mem s = Some (p, mem, s)"
| "write_leases E (a # as) p mem s = do {
     let t = inHeap s ! a;
     m1 \<leftarrow> mem_write p (GetNextIdentHash t) mem;
     m2 \<leftarrow> htobe32buf (p + 32) (GetNextTunnelID t) m1;
     let (rnd, s1) = ask (genWord32 (gen E) 5) s;
     m3 \<leftarrow> htobe64buf (p + 36) (lease_end (m_CreationTime t) rnd) m2;
     write_leases E as (p + 44) m3 s1
   }"

text \<open>
  The constructor from a pool. \<open>dest\<close> gives the keys of a local destination: its private keys and its
  encryption public key.
\<close>

definition newLeaseSet_pool ::
    "'g sigenv \<Rightarrow> 'g renv \<Rightarrow> (nat \<Rightarrow> PrivateKeys \<times> bytes) \<Rightarrow> IdentityEx \<Rightarrow> nat \<Rightarrow> 'g rstate \<Rightarrow> (LeaseSet \<times> 'g rstate) option" where
  "newLeaseSet_pool S E dest fresh p s =
     (case m_LocalDestination (poolHeap s ! p) of
        None \<Rightarrow> Some (\<lparr>m_IsValid = False, m_Leases = [], m_Identity = fresh, m_EncryptionKey = [], lsBuffer = [],
                       m_BufferLen = 0\<rparr>, s)
      | Some d \<Rightarrow> do {
          let (keys, pub) = dest d;
          let (mem, s1) = ask (garbage E MAX_LS_BUFFER_SIZE) s;
          (l, m1) \<leftarrow> ToBuffer 0 (m_Public keys) mem;
          m2 \<leftarrow> mem_write l pub m1;
          (n, i1) \<leftarrow> GetSigningPublicKeyLen (m_Public keys);
          m3 \<leftarrow> mem_write (l + 256) (replicate n 0) m2;
          let tunnels = Pool_GetInboundTunnels p 5 s1;
          m4 \<leftarrow> mem_set (l + 256 + n) (of_nat (length tunnels)) m3;
          (q, m5, s2) \<leftarrow> write_leases E tunnels (l + 256 + n + 1) m4 s1;
          data \<leftarrow> mem_read 0 q m5;
          let (sig, g) = PrivateKeys_Sign S data keys (world s2);
          m6 \<leftarrow> (case sig of Some bs \<Rightarrow> mem_write q bs m5 | None \<Rightarrow> Some m5);
          (k, i2) \<leftarrow> GetSignatureLen i1;
          ReadFromBuffer S E \<lparr>m_IsValid = True, m_Leases = [], m_Identity = fresh, m_EncryptionKey = [], lsBuffer = m6,
            m_BufferLen = q + k\<rparr> (s2\<lparr>world := g\<rparr>)
        })"

section \<open>Expiry\<close>

definition lease_alive :: "bool \<Rightarrow> u64 \<Rightarrow> Lease \<Rightarrow> bool" where
  "lease_alive withThreshold ts l \<longleftrightarrow> ts < (if withThreshold then endDate l else endDate l - 60 * 1000)"

definition GetNonExpiredLeases :: "bool \<Rightarrow> u64 \<Rightarrow> LeaseSet \<Rightarrow> Lease list" where
  "GetNonExpiredLeases withThreshold ts ls = filter (lease_alive withThreshold ts) (m_Leases ls)"

definition HasExpiredLeases :: "u64 \<Rightarrow> LeaseSet \<Rightarrow> bool" where
  "HasExpiredLeases ts ls \<longleftrightarrow> list_ex (\<lambda>l. ts \<ge> endDate l) (m_Leases ls)"

definition HasNonExpiredLeases :: "u64 \<Rightarrow> LeaseSet \<Rightarrow> bool" where
  "HasNonExpiredLeases ts ls \<longleftrightarrow> list_ex (\<lambda>l. ts < endDate l) (m_Leases ls)"

section \<open>Layout\<close>

definition lease_bytes :: "Lease \<Rightarrow> bytes" where
  "lease_bytes l = tunnelGateway l @ be_bytes 4 (leaseTunnelID l) @ be_bytes 8 (endDate l)"

definition leases_ok :: "Lease list \<Rightarrow> bool" where
  "leases_ok ls \<longleftrightarrow> list_all (\<lambda>l. length (tunnelGateway l) = 32) ls"

lemma length_leases: "leases_ok ls \<Longrightarrow> length (concat (map lease_bytes ls)) = 44 * length ls"
  by (induction ls) (simp_all add: leases_ok_def lease_bytes_def)

text \<open>Reading asks the network database and requests what it does not know; the tunnels do not change.\<close>

lemma read_leases_layout:
  assumes "leases_ok ls" and "mem = pre @ concat (map lease_bytes ls) @ post" and "p = length pre"
  shows "\<exists>s'. read_leases E (length ls) p mem s = Some (ls, p + 44 * length ls, s')"
  using assms
proof (induction ls arbitrary: p pre s)
  case (Cons l ls)
  have ll: "length (tunnelGateway l) = 32" "leases_ok ls" using Cons.prems(1) by (simp_all add: leases_ok_def)
  have mem: "mem = pre @ tunnelGateway l @ be_bytes 4 (leaseTunnelID l) @ be_bytes 8 (endDate l) @ concat (map lease_bytes ls) @ post"
    using Cons.prems(2) by (simp add: lease_bytes_def [of l])
  have r: "mem_read p 32 mem = Some (tunnelGateway l)" "bufbe32toh (p + 32) mem = Some (leaseTunnelID l)"
      "bufbe64toh (p + 36) mem = Some (endDate l)"
    using ll(1) Cons.prems(3) by (simp_all add: mem mem_simps mem_read_def)
  obtain a s1 where a: "ask (findRouter E (tunnelGateway l)) s = (a, s1)" by (cases "ask (findRouter E (tunnelGateway l)) s")
  let ?s2 = "if a = None then emit (RequestDestination (tunnelGateway l)) s1 else s1"
  have "mem = (pre @ lease_bytes l) @ concat (map lease_bytes ls) @ post" "p + 44 = length (pre @ lease_bytes l)"
    using Cons.prems(3) ll(1) by (simp_all add: mem lease_bytes_def [of l])
  from Cons.IH [OF ll(2) this, of ?s2] obtain s' where "read_leases E (length ls) (p + 44) mem ?s2 = Some (ls, p + 44 + 44 * length ls, s')"
    by blast
  then show ?case using r a by simp
qed simp

text \<open>The lease of a tunnel.\<close>

definition lease_for :: "InboundTunnel \<Rightarrow> Lease \<Rightarrow> bool" where
  "lease_for t l \<longleftrightarrow> tunnelGateway l = GetNextIdentHash t \<and> leaseTunnelID l = GetNextTunnelID t \<and>
     (\<exists>r \<le> 5. endDate l = lease_end (m_CreationTime t) r)"

lemma ask_inHeap [simp]: "inHeap (snd (ask q s)) = inHeap s" "poolHeap (snd (ask q s)) = poolHeap s"
  by (simp_all add: ask_def case_prod_beta)

lemma write_leases_layout:
  assumes "genv_ok (gen E)" and "\<forall>a \<in> set as. length (GetNextIdentHash (inHeap s ! a)) = 32"
    and "length old = 44 * length as" and "p = length pre"
  shows "\<exists>ls s'. write_leases E as p (pre @ old @ post) s = Some (p + 44 * length as, pre @ concat (map lease_bytes ls) @ post, s') \<and>
    leases_ok ls \<and> list_all2 (\<lambda>a. lease_for (inHeap s ! a)) as ls"
  using assms(2-4)
proof (induction as arbitrary: p pre old s)
  case (Cons a as)
  define t where "t = inHeap s ! a"
  obtain o1 o2 o3 o4 where o: "old = o1 @ o2 @ o3 @ o4" "length o1 = 32" "length o2 = 4" "length o3 = 8" "length o4 = 44 * length as"
  proof
    show "old = take 32 old @ take 4 (drop 32 old) @ take 8 (drop 36 old) @ drop 44 old"
      using append_take_drop_id [of 32 old] append_take_drop_id [of 4 "drop 32 old"] append_take_drop_id [of 8 "drop 36 old"]
      by simp
  qed (use Cons.prems(2) in simp_all)
  obtain r s1 where r: "ask (genWord32 (gen E) 5) s = (r, s1)" by (cases "ask (genWord32 (gen E) 5) s")
  have r5: "r \<le> 5" using r assms(1) by (auto simp: ask_def genv_ok_def case_prod_beta)
  have h: "inHeap s1 = inHeap s" using ask_inHeap(1) [of "genWord32 (gen E) 5" s] r by simp
  let ?l = "\<lparr>tunnelGateway = GetNextIdentHash t, leaseTunnelID = GetNextTunnelID t, endDate = lease_end (m_CreationTime t) r\<rparr>"
  have gw: "length (GetNextIdentHash t) = 32" using Cons.prems(1) by (simp add: t_def)
  have w: "mem_write p (GetNextIdentHash t) (pre @ old @ post) = Some (pre @ GetNextIdentHash t @ o2 @ o3 @ o4 @ post)"
      "htobe32buf (p + 32) (GetNextTunnelID t) (pre @ GetNextIdentHash t @ o2 @ o3 @ o4 @ post) =
        Some (pre @ GetNextIdentHash t @ be_bytes 4 (GetNextTunnelID t) @ o3 @ o4 @ post)"
      "htobe64buf (p + 36) (lease_end (m_CreationTime t) r) (pre @ GetNextIdentHash t @ be_bytes 4 (GetNextTunnelID t) @ o3 @ o4 @ post) =
        Some ((pre @ lease_bytes ?l) @ o4 @ post)"
    using Cons.prems(3) gw o by (simp_all add: mem_simps mem_write_def lease_bytes_def)
  have "\<forall>a \<in> set as. length (GetNextIdentHash (inHeap s1 ! a)) = 32" using Cons.prems(1) h by simp
  moreover have "p + 44 = length (pre @ lease_bytes ?l)" using Cons.prems(3) gw by (simp add: lease_bytes_def)
  ultimately obtain ls s' where ls: "write_leases E as (p + 44) ((pre @ lease_bytes ?l) @ o4 @ post) s1 =
        Some (p + 44 + 44 * length as, (pre @ lease_bytes ?l) @ concat (map lease_bytes ls) @ post, s')"
      "leases_ok ls" "list_all2 (\<lambda>a. lease_for (inHeap s1 ! a)) as ls"
    using Cons.IH [of s1 o4 "p + 44" "pre @ lease_bytes ?l"] o(5) by blast
  have "lease_for t ?l" using r5 by (auto simp: lease_for_def)
  then have "write_leases E (a # as) p (pre @ old @ post) s =
      Some (p + 44 * length (a # as), pre @ concat (map lease_bytes (?l # ls)) @ post, s') \<and> leases_ok (?l # ls) \<and>
      list_all2 (\<lambda>a. lease_for (inHeap s ! a)) (a # as) (?l # ls)"
    using w r ls h gw by (simp add: t_def [symmetric] leases_ok_def Let_def)
  then show ?case by blast
qed (simp add: leases_ok_def)

text \<open>A buffer with the fields of a lease set at their places.\<close>

definition ls_layout :: "IdentityEx \<Rightarrow> u16 \<Rightarrow> bytes \<Rightarrow> Lease list \<Rightarrow> bytes" where
  "ls_layout i t pub ls = idex_bytes i @ pub @ replicate (PublicKeyLen t) 0 @ [of_nat (length ls)] @ concat (map lease_bytes ls)"

lemma ReadFromBuffer_layout:
  assumes i: "idex_ok i" "verifier_of i = Some (Some (t, pk))" and "length pub = 256" and "leases_ok ls" and "length ls < 256"
    and "lsBuffer L = ls_layout i t pub ls @ sig @ post" and "length sig = SignatureLen t"
    and "m_BufferLen L = length (ls_layout i t pub ls @ sig)" and "m_ExtendedBuffer (m_Identity L) \<noteq> Freed" and "m_Leases L = []"
  shows "\<exists>s' i2. ReadFromBuffer S E L s = Some (L\<lparr>m_IsValid := m_IsValid L \<and> ls \<noteq> [] \<and> verifyWith S t pk (ls_layout i t pub ls) sig,
      m_Leases := ls, m_Identity := i2, m_EncryptionKey := pub\<rparr>, s') \<and> m_IdentHash i2 = gsha (gen E) (idex_bytes i)"
proof -
  let ?a = "idex_bytes i" and ?n = "PublicKeyLen t" and ?M = "lsBuffer L"
  let ?p = "GetFullLen i + 256 + ?n"
  define i0 where "i0 = i\<lparr>m_IdentHash := gsha (gen E) ?a, m_Verifier := None\<rparr>"
  have la: "length ?a = GetFullLen i" using i(1) by (simp add: length_idex_bytes)
  have f: "FromBuffer (gsha (gen E)) 0 (m_BufferLen L) ?M (m_Identity L) = Some (GetFullLen i, i0)"
    unfolding i0_def using assms(6,8,9) i(1) la
    by (intro FromBuffer_eq) (simp_all add: ls_layout_def mem_read_def)
  have v: "with_verifier i0 = Some (i0\<lparr>m_Verifier := Some (t, pk)\<rparr>)"
    using i(2) with_verifier_of [of i0] by (simp add: i0_def)
  have ek: "mem_read (GetFullLen i) 256 ?M = Some pub" and num: "mem_get ?p ?M = Some (of_nat (length ls))"
    using assms(3,6) la by (simp_all add: ls_layout_def mem_read_def mem_get_def nth_append)
  have n: "unat (of_nat (length ls) :: byte) = length ls"
    using assms(5) by (simp add: unat_of_nat take_bit_nat_eq_self)
  have M: "?M = (?a @ pub @ replicate ?n 0 @ [of_nat (length ls)]) @ concat (map lease_bytes ls) @ sig @ post"
    using assms(6) by (simp add: ls_layout_def)
  obtain s' where r: "read_leases E (length ls) (?p + 1) ?M s = Some (ls, ?p + 1 + 44 * length ls, s')"
    using read_leases_layout [OF assms(4) M, of "?p + 1" E s] la assms(3) by auto
  have ll: "length (ls_layout i t pub ls) = ?p + 1 + 44 * length ls"
    using la assms(3,4) by (simp add: ls_layout_def length_leases)
  have d: "mem_read 0 (?p + 1 + 44 * length ls) ?M = Some (ls_layout i t pub ls)"
      "mem_read (?p + 1 + 44 * length ls) (SignatureLen t) ?M = Some sig"
    using assms(6,7) ll by (simp_all add: mem_read_def)
  have "of_nat (length ls) \<noteq> (0 :: byte) \<longleftrightarrow> ls \<noteq> []" using n by (auto simp flip: unat_eq_zero)
  then show ?thesis
    using f ek v num n r d assms(10)
    by (intro exI [of _ s'] exI [of _ "i0\<lparr>m_Verifier := Some (t, pk)\<rparr>"], simp add: ReadFromBuffer_def GetSigningPublicKeyLen_def Identity_Verify_def with_verifier_def [of "i0\<lparr>m_Verifier := Some (t, pk)\<rparr>"],
        simp add: i0_def)
qed

section \<open>Theorems\<close>

text \<open>What is expected of the signature scheme: signatures have their length and verify with the key of the pair.\<close>

definition sig_pair :: "'g sigenv \<Rightarrow> u16 \<Rightarrow> bytes \<Rightarrow> bytes \<Rightarrow> bool" where
  "sig_pair S t sk pk \<longleftrightarrow>
     (\<forall>data g. length (fst (signWith S t sk data g)) = SignatureLen t \<and> verifyWith S t pk data (fst (signWith S t sk data g)))"

text \<open>The keys of a destination: a key pair of one algorithm, and the encryption key it publishes.\<close>

definition dest_ok :: "'g sigenv \<Rightarrow> u16 \<Rightarrow> PrivateKeys \<times> bytes \<Rightarrow> bool" where
  "dest_ok S t d \<longleftrightarrow> t \<le> SIGNING_KEY_TYPE_EDDSA_SHA512_ED25519 \<and> idex_ok (m_Public (fst d)) \<and> GetFullLen (m_Public (fst d)) \<le> 775 \<and>
     m_Verifier (m_Public (fst d)) = None \<and> length (snd d) = 256 \<and>
     (\<exists>sk pk. m_Signer (fst d) = Some (t, sk) \<and> verifier_of (m_Public (fst d)) = Some (Some (t, pk)) \<and> sig_pair S t sk pk)"

lemma key_len_bounds: "t \<le> 7 \<Longrightarrow> PublicKeyLen t \<le> 512" "t \<le> 7 \<Longrightarrow> SignatureLen t \<le> 512"
  by (erule key_type_cases; simp add: key_lens)+

lemma build_lease_set:
  assumes "genv_ok (gen E)" and "\<And>n g. length (fst (garbage E n g)) = n" and "dest_ok S t (keys, pub)"
    and "m_LocalDestination (poolHeap s ! p) = Some d" and "dest d = (keys, pub)" and "m_ExtendedBuffer fresh \<noteq> Freed"
    and "\<forall>a \<in> set (Pool_GetInboundTunnels p 5 s). length (GetNextIdentHash (inHeap s ! a)) = 32"
  shows "\<exists>ls sig post L s'. newLeaseSet_pool S E dest fresh p s = Some (L, s') \<and> leases_ok ls \<and> m_Leases L = ls \<and>
    lsBuffer L = ls_layout (m_Public keys) t pub ls @ sig @ post \<and> length sig = SignatureLen t \<and>
    m_BufferLen L = length (ls_layout (m_Public keys) t pub ls @ sig) \<and> length ls \<le> 5 \<and>
    list_all2 (\<lambda>a. lease_for (inHeap s ! a)) (Pool_GetInboundTunnels p 5 s) ls \<and> (m_IsValid L \<longleftrightarrow> ls \<noteq> []) \<and>
    (\<forall>pk. verifier_of (m_Public keys) = Some (Some (t, pk)) \<longrightarrow> verifyWith S t pk (ls_layout (m_Public keys) t pub ls) sig)"
proof -
  let ?i = "m_Public keys" let ?L = "GetFullLen ?i" and ?n = "PublicKeyLen t"
  obtain sk pk where k: "m_Signer keys = Some (t, sk)" "verifier_of ?i = Some (Some (t, pk))" "sig_pair S t sk pk"
      and ok: "t \<le> 7" "idex_ok ?i" "?L \<le> 775" "m_Verifier ?i = None" "length pub = 256"
    using assms(3) by (auto simp: dest_ok_def)
  obtain mem s1 where ask: "ask (garbage E 3072) s = (mem, s1)" by (cases "ask (garbage E 3072) s")
  then have lm: "length mem = 3072" and heap: "inHeap s1 = inHeap s" "poolHeap s1 = poolHeap s"
    using assms(2) ask_inHeap [of "garbage E 3072" s] by (auto simp: ask_def case_prod_beta)
  define ts where "ts = Pool_GetInboundTunnels p 5 s"
  have ts1: "Pool_GetInboundTunnels p 5 s1 = ts" by (simp add: ts_def Pool_GetInboundTunnels_def heap)
  have lts: "length ts \<le> 5" by (simp add: ts_def Pool_GetInboundTunnels_def)
  have la: "length (idex_bytes ?i) = ?L" using ok(2) by (simp add: length_idex_bytes)
  define q where "q = ?L + 256 + ?n"
  have q: "q + 1 + 44 * length ts + SignatureLen t \<le> 3072"
    using ok(1,3) lts key_len_bounds [of t] by (simp add: q_def)
  define hd where "hd = idex_bytes ?i @ pub @ replicate ?n 0"
  have lh: "length hd = q" using la ok(5) by (simp add: hd_def q_def)
  define r1 where "r1 = drop q mem"
  have "length r1 = 3072 - q" using lm by (simp add: r1_def)
  obtain x rest where r1: "r1 = x # rest" "length rest = 3071 - q"
    using \<open>length r1 = 3072 - q\<close> q by (cases r1) auto
  have m1: "ToBuffer 0 ?i mem = Some (?L, idex_bytes ?i @ drop ?L mem)"
    using ok(2) la lm q by (simp add: ToBuffer_eq mem_write_def q_def)
  have m2: "mem_write ?L pub (idex_bytes ?i @ drop ?L mem) = Some (idex_bytes ?i @ pub @ drop (?L + 256) mem)"
    using la lm q ok(5) by (simp add: mem_write_def q_def add.commute)
  have m3: "mem_write (?L + 256) (replicate ?n 0) (idex_bytes ?i @ pub @ drop (?L + 256) mem) = Some (hd @ r1)"
    using la lm q ok(5) by (simp add: mem_write_def q_def hd_def r1_def add.commute add.left_commute)
  have m4: "mem_set q (of_nat (length ts)) (hd @ r1) = Some (hd @ of_nat (length ts) # rest)"
    using lh by (simp add: mem_set_def r1 list_update_append)
  let ?old = "take (44 * length ts) rest" and ?post = "drop (44 * length ts) rest"
  have lold: "length ?old = 44 * length ts" using r1(2) q by simp
  obtain ls s2 where w: "write_leases E ts (q + 1) ((hd @ [of_nat (length ts)]) @ ?old @ ?post) s1 =
        Some (q + 1 + 44 * length ts, (hd @ [of_nat (length ts)]) @ concat (map lease_bytes ls) @ ?post, s2)"
      and ls: "leases_ok ls" "list_all2 (\<lambda>a. lease_for (inHeap s1 ! a)) ts ls"
    using write_leases_layout [OF assms(1) _ lold, of s1 "q + 1" "hd @ [of_nat (length ts)]" ?post] assms(7) lh
    by (auto simp: ts_def heap)
  have lls: "length ls = length ts" using ls(2) by (simp add: list_all2_lengthD)
  let ?D = "ls_layout ?i t pub ls"
  have D: "(hd @ [of_nat (length ts)]) @ concat (map lease_bytes ls) = ?D" by (simp add: ls_layout_def hd_def lls)
  have lD: "length ?D = q + 1 + 44 * length ts" using ls(1) lls lh by (simp add: length_leases flip: D)
  obtain sig g where sig: "signWith S t sk ?D (world s2) = (sig, g)" by (cases "signWith S t sk ?D (world s2)")
  have lsig: "length sig = SignatureLen t" and ver: "verifyWith S t pk ?D sig"
    using k(3) sig by (metis sig_pair_def fst_conv)+
  have lpost: "length ?post = 3071 - q - 44 * length ts" using r1(2) by simp
  have m6: "mem_write (q + 1 + 44 * length ts) sig (?D @ ?post) = Some (?D @ sig @ drop (SignatureLen t) ?post)"
    using lD lsig lpost q by (simp add: mem_write_def)
  let ?LS = "\<lparr>m_IsValid = True, m_Leases = [], m_Identity = fresh, m_EncryptionKey = [],
      lsBuffer = ?D @ sig @ drop (SignatureLen t) ?post, m_BufferLen = q + 1 + 44 * length ts + SignatureLen t\<rparr>"
  obtain s3 i3 where R: "ReadFromBuffer S E ?LS (s2\<lparr>world := g\<rparr>) =
      Some (?LS\<lparr>m_IsValid := ls \<noteq> [] \<and> verifyWith S t pk ?D sig, m_Leases := ls, m_Identity := i3, m_EncryptionKey := pub\<rparr>, s3)"
    using ReadFromBuffer_layout [OF ok(2) k(2) ok(5) ls(1), of ?LS sig "drop (SignatureLen t) ?post" S E "s2\<lparr>world := g\<rparr>"]
      lls lts lsig lD assms(6) by auto
  have v: "GetSigningPublicKeyLen ?i = Some (?n, ?i\<lparr>m_Verifier := Some (t, pk)\<rparr>)"
      "GetSignatureLen (?i\<lparr>m_Verifier := Some (t, pk)\<rparr>) = Some (SignatureLen t, ?i\<lparr>m_Verifier := Some (t, pk)\<rparr>)"
    using with_verifier_of [OF ok(4)] k(2) by (simp_all add: GetSigningPublicKeyLen_def GetSignatureLen_def)
      (simp add: with_verifier_def)
  have rest: "hd @ of_nat (length ts) # rest = (hd @ [of_nat (length ts)]) @ ?old @ ?post" by simp
  have w': "write_leases E ts (q + 1) (hd @ of_nat (length ts) # rest) s1 = Some (q + 1 + 44 * length ts, ?D @ ?post, s2)"
    using w unfolding rest by (simp add: D [symmetric])
  have q1: "257 + (?L + ?n) = Suc q" by (simp add: q_def)
  have d: "mem_read 0 (q + 1 + 44 * length ts) (?D @ ?post) = Some ?D" using lD by (simp add: mem_read_def)
  have "newLeaseSet_pool S E dest fresh p s = Some (?LS\<lparr>m_IsValid := ls \<noteq> [] \<and> verifyWith S t pk ?D sig, m_Leases := ls,
      m_Identity := i3, m_EncryptionKey := pub\<rparr>, s3)"
    using m1 m2 m3 m4 w' d m6 R sig v ts1
    by (simp add: newLeaseSet_pool_def assms(4,5) ask PrivateKeys_Sign_def k(1) q_def [symmetric] q1 Let_def)
  then show ?thesis
    using ls lls lts lsig lD ver k(2) heap(1)
    by (intro exI [of _ ls] exI [of _ sig] exI [of _ "drop (SignatureLen t) ?post"] exI) (auto simp: ts_def [symmetric])
qed

text \<open>The end of a lease as a number: the seconds wrap at 32 bits, the milliseconds do not wrap.\<close>

lemma unat_lease_end:
  assumes "r \<le> 5"
  shows "unat (lease_end c r) = (unat c + 600) mod 2 ^ 32 * 1000 + r"
proof -
  define w where "w = c + 600"
  have w: "unat w < 2 ^ 32" using unsigned_less [of w] by simp
  then have "unat (ucast w :: u64) = unat w" by (simp add: unsigned_ucast_eq take_bit_nat_eq_self)
  then have "unat ((ucast w :: u64) * 1000) = unat w * 1000"
    using w by (subst unat_mult_lem [THEN iffD1]) simp_all
  then have "unat ((ucast w :: u64) * 1000 + of_nat r) = unat w * 1000 + r"
    using w assms by (subst unat_add_lem [THEN iffD1]) (simp_all add: unat_of_nat)
  moreover have "lease_end c r = ucast w * 1000 + of_nat r" by (simp add: lease_end_def w_def add.commute)
  moreover have "unat w = (unat c + 600) mod 2 ^ 32" by (simp add: w_def unat_word_ariths)
  ultimately show ?thesis by simp
qed

text \<open>
  C19. The lease set that a destination publishes for its tunnel pool is understood by every other router:
  it is valid exactly when the pool has an established inbound tunnel, and it has one lease for each of
  the up to five tunnels chosen, with the gateway, the tunnel identifier and an end that is the creation
  time of the tunnel plus 600 seconds, which is one minute before the expiry after 660 seconds, in
  milliseconds and plus at most five of them. The seconds are a 32-bit sum, so they wrap for creation
  times in the last ten minutes of 32 bits. The receiver reads the same leases, the encryption key and
  the identity of the destination.
\<close>

theorem lease_set_published:
  assumes "genv_ok (gen E)" and "\<And>n g. length (fst (garbage E n g)) = n" and "dest_ok S t (dest d)"
    and "m_LocalDestination (poolHeap s ! p) = Some d" and "m_ExtendedBuffer fresh \<noteq> Freed" and "m_ExtendedBuffer fresh' \<noteq> Freed"
    and "\<forall>a \<in> set (Pool_GetInboundTunnels p 5 s). length (GetNextIdentHash (inHeap s ! a)) = 32"
  shows "\<exists>L s1 L' s3. newLeaseSet_pool S E dest fresh p s = Some (L, s1) \<and>
    (m_IsValid L \<longleftrightarrow> Pool_GetInboundTunnels p 5 s \<noteq> []) \<and>
    list_all2 (\<lambda>a l. tunnelGateway l = GetNextIdentHash (inHeap s ! a) \<and> leaseTunnelID l = GetNextTunnelID (inHeap s ! a) \<and>
      (\<exists>r \<le> 5. unat (endDate l) = (unat (m_CreationTime (inHeap s ! a)) + 600) mod 2 ^ 32 * 1000 + r))
      (Pool_GetInboundTunnels p 5 s) (m_Leases L) \<and>
    newLeaseSet S E fresh' (m_BufferLen L) (lsBuffer L) s2 = Some (L', s3) \<and> m_IsValid L' = m_IsValid L \<and>
    m_Leases L' = m_Leases L \<and> m_EncryptionKey L' = snd (dest d) \<and>
    m_IdentHash (m_Identity L') = gsha (gen E) (idex_bytes (m_Public (fst (dest d))))"
proof -
  obtain keys pub where dd: "dest d = (keys, pub)" by (cases "dest d")
  have ok: "dest_ok S t (keys, pub)" using assms(3) dd by simp
  obtain pk where k: "idex_ok (m_Public keys)" "verifier_of (m_Public keys) = Some (Some (t, pk))" "length pub = 256"
    using ok by (auto simp: dest_ok_def)
  obtain ls sig post L s1 where L: "newLeaseSet_pool S E dest fresh p s = Some (L, s1)" "leases_ok ls" "m_Leases L = ls"
      "lsBuffer L = ls_layout (m_Public keys) t pub ls @ sig @ post" "length sig = SignatureLen t"
      "m_BufferLen L = length (ls_layout (m_Public keys) t pub ls @ sig)" "length ls \<le> 5"
      "list_all2 (\<lambda>a. lease_for (inHeap s ! a)) (Pool_GetInboundTunnels p 5 s) ls" "m_IsValid L \<longleftrightarrow> ls \<noteq> []"
      and v: "\<forall>pk. verifier_of (m_Public keys) = Some (Some (t, pk)) \<longrightarrow> verifyWith S t pk (ls_layout (m_Public keys) t pub ls) sig"
    using build_lease_set [where dest = dest, OF assms(1,2) ok assms(4) dd assms(5,7)] by (elim exE conjE) (rule that)
  let ?M = "\<lparr>m_IsValid = True, m_Leases = [], m_Identity = fresh', m_EncryptionKey = [],
      lsBuffer = ls_layout (m_Public keys) t pub ls @ sig, m_BufferLen = m_BufferLen L\<rparr>"
  obtain s3 i3 where R: "ReadFromBuffer S E ?M s2 = Some (?M\<lparr>m_IsValid := ls \<noteq> [], m_Leases := ls, m_Identity := i3, m_EncryptionKey := pub\<rparr>, s3)"
      "m_IdentHash i3 = gsha (gen E) (idex_bytes (m_Public keys))"
    using ReadFromBuffer_layout [OF k(1,2,3) L(2), of ?M sig "[]" S E s2] L(5-7) v k(2) assms(6) by auto
  have "newLeaseSet S E fresh' (m_BufferLen L) (lsBuffer L) s2 = ReadFromBuffer S E ?M s2"
    using L(4,6) by (simp add: newLeaseSet_def mem_read_def)
  moreover have "ls = [] \<longleftrightarrow> Pool_GetInboundTunnels p 5 s = []" using L(8) by (auto dest: list_all2_lengthD)
  moreover have "list_all2 (\<lambda>a l. tunnelGateway l = GetNextIdentHash (inHeap s ! a) \<and> leaseTunnelID l = GetNextTunnelID (inHeap s ! a) \<and>
      (\<exists>r \<le> 5. unat (endDate l) = (unat (m_CreationTime (inHeap s ! a)) + 600) mod 2 ^ 32 * 1000 + r))
      (Pool_GetInboundTunnels p 5 s) ls"
    by (rule list_all2_mono [OF L(8)]) (auto simp: lease_for_def unat_lease_end)
  ultimately show ?thesis
    using L R dd by auto
qed

text \<open>
  The threshold that makes a lease unusable a minute before its end is subtracted in unsigned
  arithmetic: leases are dropped a minute early exactly when their end is later than one minute after the
  epoch, and a lease that ended in that first minute counts as valid at every time up to the end of the epoch.
\<close>

theorem lease_threshold_exact:
  "(l \<in> set (GetNonExpiredLeases False ts ls) \<longleftrightarrow> l \<in> set (m_Leases ls) \<and>
     (if 60000 \<le> unat (endDate l) then unat ts + 60000 < unat (endDate l) else unat ts + 60000 < 2 ^ 64 + unat (endDate l))) \<and>
   (l \<in> set (GetNonExpiredLeases True ts ls) \<longleftrightarrow> l \<in> set (m_Leases ls) \<and> unat ts < unat (endDate l))"
proof -
  have "unat (endDate l - 60000) = (if 60000 \<le> unat (endDate l) then unat (endDate l) - 60000 else 2 ^ 64 + unat (endDate l) - 60000)"
    using unat_sub_if' [of "endDate l" 60000] by (simp add: word_le_nat_alt)
  moreover have "unat ts < 2 ^ 64" using unsigned_less [of ts] by simp
  ultimately show ?thesis
    by (auto simp: GetNonExpiredLeases_def lease_alive_def word_less_nat_alt)
qed

lemma read_leases_end:
  assumes "length mem < p + 44 * n" and "p \<le> length mem"
  shows "read_leases E n p mem s = None"
  using assms
proof (induction n arbitrary: p s)
  case (Suc n)
  show ?case
  proof (cases "p + 44 \<le> length mem")
    case True
    then have "read_leases E n (p + 44) mem s' = None" for s' using Suc.prems(1) by (intro Suc.IH) simp_all
    then show ?thesis by (auto simp: Let_def case_prod_beta split: bind_splits)
  next
    case False
    then show ?thesis
      by (auto simp: mem_simps mem_read_def split: bind_splits)
  qed
qed simp
text \<open>
  The number of leases is not compared with the length of the lease set: a buffer that announces more
  leases than it holds is read behind its end.
\<close>

theorem lease_count_unchecked:
  assumes "FromBuffer (gsha (gen E)) 0 len buf fresh = Some (n0, i0)" and "GetSigningPublicKeyLen i0 = Some (n, i1)"
    and "length buf = len" and "mem_get (n0 + 256 + n) buf = Some num" and "len < n0 + 256 + n + 1 + 44 * unat num"
  shows "newLeaseSet S E fresh len buf s = None"
proof -
  have "read_leases E (unat num) (n0 + 256 + n + 1) buf s' = None" for s'
    using assms(3-5) by (intro read_leases_end) (auto simp: mem_get_def split: if_splits)
  then show ?thesis
    using assms(1-4) by (cases "mem_read n0 256 buf") (simp_all add: newLeaseSet_def ReadFromBuffer_def mem_read_def [of 0] mem_get_def split: if_splits)
qed

section \<open>Examples\<close>

definition demo_sigenv :: "unit sigenv" where
  "demo_sigenv = \<lparr>verifyWith = (\<lambda>t k d s. s = replicate (SignatureLen t) 0), signWith = (\<lambda>t k d g. (replicate (SignatureLen t) 0, g)),
     signingKeyPair = (\<lambda>t g. ((replicate (PrivateKeyLen t) 1, replicate (PublicKeyLen t) 1), g)),
     dhKeyPair = (\<lambda>g. ((replicate 256 1, replicate 256 1), g))\<rparr>"

definition demo_dest :: "nat \<Rightarrow> PrivateKeys \<times> bytes" where
  "demo_dest d = (demo_keys\<lparr>m_Signer := Some (0, replicate 20 4)\<rparr>, replicate 256 1)"

definition demo_lease_router :: "unit rstate" where
  "demo_lease_router = (newTunnels ())\<lparr>inHeap := [demo_inbound\<lparr>m_CreationTime := 900,
       m_Config := [(hd (m_Config demo_inbound))\<lparr>TunnelHopConfig.router := replicate 32 1\<rparr>]\<rparr>],
     poolHeap := [(newTunnelPool (Some 1) 3 3 5 5)\<lparr>pInboundTunnels := [0]\<rparr>]\<rparr>"

lemma demo_dest_ok: "dest_ok demo_sigenv 0 (demo_dest 1)"
  using demo_idex_ok
  by (simp add: dest_ok_def demo_dest_def demo_keys_def sig_pair_def demo_sigenv_def)
     (simp add: demo_idex_def newIdentityEx_def verifier_of_def make_verifier_def GetSigningKeyType_def)

theorem lease_set_published_witness:
  "\<exists>L s1 L' s3. newLeaseSet_pool demo_sigenv demo_renv demo_dest demo_idex 0 demo_lease_router = Some (L, s1) \<and> m_IsValid L \<and>
    (\<exists>l. m_Leases L = [l] \<and> tunnelGateway l = replicate 32 1 \<and> 1500000 \<le> unat (endDate l) \<and> unat (endDate l) \<le> 1500005) \<and>
    newLeaseSet demo_sigenv demo_renv demo_idex (m_BufferLen L) (lsBuffer L) demo_lease_router = Some (L', s3) \<and> m_Leases L' = m_Leases L"
proof -
  have g: "genv_ok (gen demo_renv)" "\<And>n g. length (fst (garbage demo_renv n g)) = n"
    using demo_genv_ok by (simp_all add: demo_renv_def)
  have p: "Pool_GetInboundTunnels 0 5 demo_lease_router = [0]"
    by (simp add: Pool_GetInboundTunnels_def demo_lease_router_def newTunnels_def newTunnelPool_def demo_inbound_def IsEstablished_def)
  have l: "m_LocalDestination (poolHeap demo_lease_router ! 0) = Some 1" "length (GetNextIdentHash (inHeap demo_lease_router ! 0)) = 32"
    by (simp_all add: demo_lease_router_def newTunnels_def newTunnelPool_def GetNextIdentHash_def GetFirstHop_def)
  have c: "unat (m_CreationTime (inHeap demo_lease_router ! 0)) = 900" "GetNextIdentHash (inHeap demo_lease_router ! 0) = replicate 32 1"
    by (simp_all add: demo_lease_router_def newTunnels_def newTunnelPool_def GetNextIdentHash_def GetFirstHop_def)
  show ?thesis
    using lease_set_published [where dest = demo_dest, OF g demo_dest_ok l(1), of demo_idex demo_idex demo_lease_router] p l(2) c
    by (fastforce simp: list_all2_Cons1)
qed

theorem lease_count_unchecked_witness:
  "newLeaseSet demo_sigenv demo_renv demo_idex 772 (idex_bytes demo_idex @ replicate 385 1) demo_lease_router = None"
proof -
  have r: "mem_read 0 387 (idex_bytes demo_idex @ replicate 385 1) = Some (idex_bytes demo_idex)"
    using length_idex_bytes [OF demo_idex_ok] by (simp add: mem_read_def)
  have f: "FromBuffer (gsha (gen demo_renv)) 0 772 (idex_bytes demo_idex @ replicate 385 1) demo_idex =
      Some (387, demo_idex\<lparr>m_IdentHash := gsha (gen demo_renv) (idex_bytes demo_idex)\<rparr>)"
    using FromBuffer_eq [OF demo_idex_ok, of 0 "idex_bytes demo_idex @ replicate 385 1" 772 demo_idex "gsha (gen demo_renv)"] r by simp
  have v: "GetSigningPublicKeyLen (demo_idex\<lparr>m_IdentHash := h\<rparr>) =
      Some (128, demo_idex\<lparr>m_IdentHash := h, m_Verifier := Some (0, replicate 128 2)\<rparr>)" for h
    by (simp add: demo_idex_def newIdentityEx_def GetSigningPublicKeyLen_def with_verifier_def CreateVerifier_def GetSigningKeyType_def
        make_verifier_def demo_identity_def PublicKeyLen_def)
  show ?thesis
    using length_idex_bytes [OF demo_idex_ok] by (intro lease_count_unchecked [OF f v, where num = 1]) (simp_all add: mem_get_def nth_append)
qed

end
