(* ===== verification/Stream_Packets.thy ===== *)
theory Stream_Packets
  imports Lease_Set
begin

text \<open>
  Streams: the packets, the state of a stream and the way packets go through tunnels, after \<open>src/core/Streaming.cpp\<close> and
  \<open>Streaming.h\<close>. The garlic session, the lookup of lease sets and the compression are seen through their answers.
\<close>

section \<open>Packets\<close>

abbreviation PACKET_FLAG_SYNCHRONIZE :: u16 where "PACKET_FLAG_SYNCHRONIZE \<equiv> 0x0001"
abbreviation PACKET_FLAG_CLOSE :: u16 where "PACKET_FLAG_CLOSE \<equiv> 0x0002"
abbreviation PACKET_FLAG_RESET :: u16 where "PACKET_FLAG_RESET \<equiv> 0x0004"
abbreviation PACKET_FLAG_SIGNATURE_INCLUDED :: u16 where "PACKET_FLAG_SIGNATURE_INCLUDED \<equiv> 0x0008"
abbreviation PACKET_FLAG_FROM_INCLUDED :: u16 where "PACKET_FLAG_FROM_INCLUDED \<equiv> 0x0020"
abbreviation PACKET_FLAG_DELAY_REQUESTED :: u16 where "PACKET_FLAG_DELAY_REQUESTED \<equiv> 0x0040"
abbreviation PACKET_FLAG_MAX_PACKET_SIZE_INCLUDED :: u16 where "PACKET_FLAG_MAX_PACKET_SIZE_INCLUDED \<equiv> 0x0080"
abbreviation PACKET_FLAG_NO_ACK :: u16 where "PACKET_FLAG_NO_ACK \<equiv> 0x0400"

abbreviation STREAMING_MTU :: nat where "STREAMING_MTU \<equiv> 1730"
abbreviation MAX_PACKET_SIZE :: nat where "MAX_PACKET_SIZE \<equiv> 4096"
abbreviation COMPRESSION_THRESHOLD_SIZE :: nat where "COMPRESSION_THRESHOLD_SIZE \<equiv> 66"
abbreviation MAX_NUM_RESEND_ATTEMPTS :: int where "MAX_NUM_RESEND_ATTEMPTS \<equiv> 6"
abbreviation WINDOW_SIZE :: int where "WINDOW_SIZE \<equiv> 6"
abbreviation MIN_WINDOW_SIZE :: int where "MIN_WINDOW_SIZE \<equiv> 1"
abbreviation MAX_WINDOW_SIZE :: int where "MAX_WINDOW_SIZE \<equiv> 128"
abbreviation INITIAL_RTT :: int where "INITIAL_RTT \<equiv> 8000"
abbreviation INITIAL_RTO :: int where "INITIAL_RTO \<equiv> 9000"

text \<open>The array \<open>pbuf\<close> has \<open>MAX_PACKET_SIZE\<close> bytes; what is not written keeps its old contents.\<close>

record Packet =
  plen :: nat
  poffset :: nat
  pbuf :: bytes
  sendTime :: u64

definition newPacket :: "bytes \<Rightarrow> Packet" where
  "newPacket mem = \<lparr>plen = 0, poffset = 0, pbuf = mem, sendTime = 0\<rparr>"

definition Packet_GetLength :: "Packet \<Rightarrow> nat" where
  "Packet_GetLength p = size_sub (plen p) (poffset p)"

definition GetSendStreamID :: "Packet \<Rightarrow> u32 option" where "GetSendStreamID p = bufbe32toh 0 (pbuf p)"
definition GetReceiveStreamID :: "Packet \<Rightarrow> u32 option" where "GetReceiveStreamID p = bufbe32toh 4 (pbuf p)"
definition GetSeqn :: "Packet \<Rightarrow> u32 option" where "GetSeqn p = bufbe32toh 8 (pbuf p)"
definition GetAckThrough :: "Packet \<Rightarrow> u32 option" where "GetAckThrough p = bufbe32toh 12 (pbuf p)"
definition GetNACKCount :: "Packet \<Rightarrow> byte option" where "GetNACKCount p = mem_get 16 (pbuf p)"
definition GetNACK :: "nat \<Rightarrow> Packet \<Rightarrow> u32 option" where "GetNACK i p = bufbe32toh (17 + 4 * i) (pbuf p)"

definition GetOption :: "Packet \<Rightarrow> nat option" where
  "GetOption p = map_option (\<lambda>n. 17 + unat n * 4 + 3) (GetNACKCount p)"

definition GetFlags :: "Packet \<Rightarrow> u16 option" where
  "GetFlags p = do { o' \<leftarrow> GetOption p; bufbe16toh (o' - 2) (pbuf p) }"

definition GetOptionSize :: "Packet \<Rightarrow> u16 option" where
  "GetOptionSize p = do { o' \<leftarrow> GetOption p; bufbe16toh o' (pbuf p) }"

definition GetOptionData :: "Packet \<Rightarrow> nat option" where
  "GetOptionData p = map_option (\<lambda>o'. o' + 2) (GetOption p)"

definition Packet_GetPayload :: "Packet \<Rightarrow> nat option" where
  "Packet_GetPayload p = do { d \<leftarrow> GetOptionData p; n \<leftarrow> GetOptionSize p; Some (d + unat n) }"

definition IsSYN :: "Packet \<Rightarrow> bool option" where
  "IsSYN p = map_option (\<lambda>f. f AND PACKET_FLAG_SYNCHRONIZE \<noteq> 0) (GetFlags p)"

definition IsNoAck :: "Packet \<Rightarrow> bool option" where
  "IsNoAck p = map_option (\<lambda>f. f AND PACKET_FLAG_NO_ACK \<noteq> 0) (GetFlags p)"

text \<open>\<open>std::set<Packet *, PacketCmp>\<close>: ordered by sequence number; inserting a number that is there does nothing.\<close>

definition packet_insert :: "Packet \<Rightarrow> (u32, Packet) smap \<Rightarrow> (u32, Packet) smap option" where
  "packet_insert p m = map_option (\<lambda>k. snd (map_insert k p m)) (GetSeqn p)"

section \<open>Streams\<close>

datatype StreamStatus =
    eStreamStatusNew
  | eStreamStatusOpen
  | eStreamStatusReset
  | eStreamStatusClosing
  | eStreamStatusClosed

text \<open>
  \<open>m_LastReceivedSequenceNumber\<close> is an \<open>int32_t\<close>: the word read with \<open>sint\<close>, initially \<open>-1\<close>. The string
  stream \<open>m_SendBuffer\<close> is its unread data and its end-of-file flag; \<open>read\<close> sets the fail flag
  together with it and \<open>clear\<close> resets both. A send handler is a number.
\<close>

record Stream =
  m_SendStreamID :: u32
  m_RecvStreamID :: u32
  m_SequenceNumber :: u32
  m_LastReceivedSequenceNumber :: u32
  m_Status :: StreamStatus
  m_IsAckSendScheduled :: bool
  m_RemoteIdentity :: IdentityEx
  m_RemoteLeaseSet :: "nat option"
  m_RoutingSession :: "nat option"
  m_CurrentRemoteLease :: Lease
  m_CurrentOutboundTunnel :: "nat option"
  m_ReceiveQueue :: "Packet list"
  m_SavedPackets :: "(u32, Packet) smap"
  m_SentPackets :: "(u32, Packet) smap"
  strNumSentBytes :: nat
  strNumReceivedBytes :: nat
  m_Port :: u16
  m_SendBuffer :: bytes
  m_SendEof :: bool
  m_WindowSize :: int
  m_RTT :: int
  m_RTO :: int
  m_LastWindowSizeIncreaseTime :: u64
  m_NumResendAttempts :: int
  m_SendHandler :: "nat option"

text \<open>Work posted to the service of the destination, and what streams tell their users. Handlers and the
  acceptor are recorded with what they are told, not run; a timer is the call of its handler.\<close>

datatype stask = TSendBuffer nat | TSendPacket nat Packet

datatype send_result = SendSuccess | SendAborted | SendInProgress

datatype sevent = SendHandlerCalled nat send_result | Accepted nat | AcceptorReleased

record 'g sdest =
  streamHeap :: "Stream list"
  m_Streams :: "(u32, nat) smap"
  m_Acceptor :: bool
  tasks :: "stask list"
  sevents :: "sevent list"
  rs :: "'g rstate"

text \<open>
  Other components: the router, the signatures, the keys and the tunnel pool of the owner, lease sets and
  garlic sessions by number, and the compression of the library (\<open>gunzip\<close> may throw).
\<close>

record 'g senv =
  rtr :: "'g renv"
  sigs :: "'g sigenv"
  ownKeys :: PrivateKeys
  ownPool :: nat
  m_LocalPort :: u16
  findLeaseSet :: "bytes \<Rightarrow> 'g \<Rightarrow> nat option \<times> 'g"
  leaseSetAt :: "nat \<Rightarrow> 'g \<Rightarrow> LeaseSet \<times> 'g"
  routingSession :: "nat \<Rightarrow> 'g \<Rightarrow> nat \<times> 'g"
  wrapSingleMessage :: "nat \<Rightarrow> I2NPMessage \<Rightarrow> 'g \<Rightarrow> I2NPMessage \<times> 'g"
  gzip :: "bool \<Rightarrow> bytes \<Rightarrow> bytes"
  gunzip :: "bytes \<Rightarrow> bytes option"

definition sask :: "('g \<Rightarrow> 'a \<times> 'g) \<Rightarrow> 'g sdest \<Rightarrow> 'a \<times> 'g sdest" where
  "sask q d = (let (a, s) = ask q (rs d) in (a, d\<lparr>rs := s\<rparr>))"

definition now_ms :: "'g senv \<Rightarrow> 'g sdest \<Rightarrow> u64 \<times> 'g sdest" where
  "now_ms E = sask (clock (gen (rtr E)))"

definition new_packet :: "'g senv \<Rightarrow> 'g sdest \<Rightarrow> Packet \<times> 'g sdest" where
  "new_packet E d = (let (g, d1) = sask (garbage (rtr E) MAX_PACKET_SIZE) d in (newPacket g, d1))"

text \<open>Integer division of C truncates; a 64-bit value assigned to an \<open>int\<close> keeps its low half.\<close>

definition tdiv :: "int \<Rightarrow> int \<Rightarrow> int" where
  "tdiv a b = sgn a * sgn b * (\<bar>a\<bar> div \<bar>b\<bar>)"

definition to_int :: "u64 \<Rightarrow> int" where
  "to_int x = sint (ucast x :: u32)"

text \<open>Constructors; \<open>i\<close> and \<open>l\<close> are what the memory of the identity and of the lease held.\<close>

definition newStream :: "u32 \<Rightarrow> u16 \<Rightarrow> nat option \<Rightarrow> IdentityEx \<Rightarrow> Lease \<Rightarrow> Stream" where
  "newStream recvID port remote i l =
     \<lparr>m_SendStreamID = 0, m_RecvStreamID = recvID, m_SequenceNumber = 0, m_LastReceivedSequenceNumber = - 1,
      m_Status = eStreamStatusNew, m_IsAckSendScheduled = False, m_RemoteIdentity = i, m_RemoteLeaseSet = remote,
      m_RoutingSession = None, m_CurrentRemoteLease = l, m_CurrentOutboundTunnel = None, m_ReceiveQueue = [],
      m_SavedPackets = [], m_SentPackets = [], strNumSentBytes = 0, strNumReceivedBytes = 0, m_Port = port,
      m_SendBuffer = [], m_SendEof = False, m_WindowSize = MIN_WINDOW_SIZE, m_RTT = INITIAL_RTT, m_RTO = INITIAL_RTO,
      m_LastWindowSizeIncreaseTime = 0, m_NumResendAttempts = 0, m_SendHandler = None\<rparr>"

definition Stream_IsOpen :: "Stream \<Rightarrow> bool" where "Stream_IsOpen st \<longleftrightarrow> m_Status st = eStreamStatusOpen"
definition Stream_IsEstablished :: "Stream \<Rightarrow> bool" where "Stream_IsEstablished st \<longleftrightarrow> m_SendStreamID st \<noteq> 0"

section \<open>Sending through tunnels\<close>

definition UpdateCurrentRemoteLease :: "'g senv \<Rightarrow> bool \<Rightarrow> Stream \<times> 'g sdest \<Rightarrow> Stream \<times> 'g sdest" where
  "UpdateCurrentRemoteLease E expired = (\<lambda>(st, d).
     let h = m_IdentHash (m_RemoteIdentity st);
         (remote, d1) = (case m_RemoteLeaseSet st of Some l \<Rightarrow> (Some l, d) | None \<Rightarrow> sask (findLeaseSet E h) d);
         st1 = st\<lparr>m_RemoteLeaseSet := remote\<rparr>
     in case remote of
          None \<Rightarrow> (st1\<lparr>m_CurrentRemoteLease := (m_CurrentRemoteLease st1)\<lparr>endDate := 0\<rparr>\<rparr>, d1)
        | Some l \<Rightarrow>
            let (session, d2) = (case m_RoutingSession st1 of Some x \<Rightarrow> (x, d1) | None \<Rightarrow> sask (routingSession E l) d1);
                st2 = st1\<lparr>m_RoutingSession := Some session\<rparr>;
                (ls, d3) = sask (leaseSetAt E l) d2;
                (ts, d4) = now_ms E d3;
                leases0 = GetNonExpiredLeases False ts ls;
                (leases, expired, d5) =
                  (if leases0 \<noteq> [] then (leases0, expired, d4)
                   else let (ts2, d') = now_ms E (d4\<lparr>rs := emit (RequestDestination h) (rs d4)\<rparr>)
                        in (GetNonExpiredLeases True ts2 ls, False, d'));
                cur = m_CurrentRemoteLease st2
            in if leases = [] then
                 (st2\<lparr>m_RemoteLeaseSet := None, m_CurrentRemoteLease := cur\<lparr>endDate := 0\<rparr>\<rparr>, d5)
               else
                 (case if expired then List.find (\<lambda>it. tunnelGateway it = tunnelGateway cur \<and> leaseTunnelID it \<noteq> leaseTunnelID cur) leases
                       else None of
                    Some it \<Rightarrow> (st2\<lparr>m_CurrentRemoteLease := it\<rparr>, d5)
                  | None \<Rightarrow>
                      let (i, d6) = sask (genWord32 (gen (rtr E)) (length leases - 1)) d5;
                          j = (if endDate cur \<noteq> 0 \<and> leaseTunnelID (leases ! i) = leaseTunnelID cur then (i + 1) mod length leases else i)
                      in (st2\<lparr>m_CurrentRemoteLease := leases ! j\<rparr>, d6)))"

definition CreateDataMessage :: "'g senv \<Rightarrow> u16 \<Rightarrow> bytes \<Rightarrow> 'g \<Rightarrow> (I2NPMessage \<times> 'g) option" where
  "CreateDataMessage E port payload g = do {
     let msg = NewI2NPShortMessage;
     let z = gzip E (length payload \<le> COMPRESSION_THRESHOLD_SIZE) payload;
     let buf = GetPayload msg + 4;
     m1 \<leftarrow> upd_buf (htobe32buf (GetPayload msg) (of_nat (length z))) msg;
     m2 \<leftarrow> put_bytes buf z m1;
     m3 \<leftarrow> upd_buf (htobe16buf (buf + 4) (m_LocalPort E)) m2;
     m4 \<leftarrow> upd_buf (htobe16buf (buf + 6) port) m3;
     m5 \<leftarrow> upd_buf (mem_set (buf + 9) 6) m4;
     let (rnd, g1) = genMsgID (gen (rtr E)) g;
     let (now, g2) = clock (gen (rtr E)) g1;
     m6 \<leftarrow> FillI2NPMessageHeader (gsha (gen (rtr E))) 20 0 rnd now (add_len (length z + 4) m5);
     Some (m6, g2)
   }"

fun wrap_packets ::
    "'g senv \<Rightarrow> Stream \<Rightarrow> nat \<Rightarrow> Packet list \<Rightarrow> 'g \<Rightarrow> (TunnelMessageBlock list \<times> 'g) option" where
  "wrap_packets E st session [] g = Some ([], g)"
| "wrap_packets E st session (p # ps) g = do {
     data \<leftarrow> mem_read (poffset p) (Packet_GetLength p) (pbuf p);
     (msg, g1) \<leftarrow> CreateDataMessage E (m_Port st) data g;
     let (garlic, g2) = wrapSingleMessage E session msg g1;
     (blocks, g3) \<leftarrow> wrap_packets E st session ps g2;
     Some (\<lparr>deliveryType = eDeliveryTypeTunnel, bhash = tunnelGateway (m_CurrentRemoteLease st),
             btunnelID = leaseTunnelID (m_CurrentRemoteLease st), bdata = Some garlic\<rparr> # blocks, g3)
   }"

text \<open>\<open>SendTunnelDataMsg (msgs)\<close> on an outbound tunnel of the router.\<close>

definition send_blocks :: "'g renv \<Rightarrow> nat \<Rightarrow> TunnelMessageBlock list \<Rightarrow> 'g rstate \<Rightarrow> 'g rstate option" where
  "send_blocks E a msgs s = do {
     (sent, ot, g) \<leftarrow> OutboundTunnel_SendTunnelDataMsgs (gen E) (raes E) msgs (outHeap s ! a, world s);
     Some (emit (Transport (GetNextIdentHash ot) sent) (upd_out a (\<lambda>_. ot) (s\<lparr>world := g\<rparr>)))
   }"

definition Stream_SendPackets :: "'g senv \<Rightarrow> Packet list \<Rightarrow> Stream \<times> 'g sdest \<Rightarrow> (Stream \<times> 'g sdest) option" where
  "Stream_SendPackets E packets s0 =
     (let (st1, d1) = (if m_RemoteLeaseSet (fst s0) = None then UpdateCurrentRemoteLease E False s0 else s0)
      in if m_RemoteLeaseSet st1 = None then Some (st1, d1)
         else
           let (tunnel, r) =
                 (case m_CurrentOutboundTunnel st1 of
                    Some a \<Rightarrow> if IsEstablished (outHeap (rs d1) ! a) then (Some a, rs d1)
                              else GetNewOutboundTunnel (rtr E) (ownPool E) (Some a) (rs d1)
                  | None \<Rightarrow> GetNewOutboundTunnel (rtr E) (ownPool E) None (rs d1));
               st2 = st1\<lparr>m_CurrentOutboundTunnel := tunnel\<rparr>;
               d2 = d1\<lparr>rs := r\<rparr>
           in case tunnel of
                None \<Rightarrow> Some (st2, d2)
              | Some a \<Rightarrow>
                  let (ts, d3) = now_ms E d2;
                      (st3, d4) = (if endDate (m_CurrentRemoteLease st2) = 0 \<or> ts \<ge> endDate (m_CurrentRemoteLease st2) - 60 * 1000
                                   then UpdateCurrentRemoteLease E True (st2, d3) else (st2, d3))
                  in if ts < endDate (m_CurrentRemoteLease st3) then do {
                       session \<leftarrow> m_RoutingSession st3;
                       (blocks, g) \<leftarrow> wrap_packets E st3 session packets (world (rs d4));
                       r2 \<leftarrow> send_blocks (rtr E) a blocks ((rs d4)\<lparr>world := g\<rparr>);
                       Some (st3\<lparr>strNumSentBytes := strNumSentBytes st3 + sum_list (map Packet_GetLength packets)\<rparr>, d4\<lparr>rs := r2\<rparr>)
                     }
                     else Some (st3, d4))"

end
