(* ===== verification/Streaming.thy ===== *)
theory Streaming
  imports Stream_Packets
begin

text \<open>
  The operations of streams and of streaming destinations: sending, acknowledgements, receiving, closing, timers
  and the dispatch of packets, after \<open>src/core/Streaming.cpp\<close> and \<open>Streaming.h\<close>.
\<close>

section \<open>Building packets\<close>

text \<open>\<open>m_SendBuffer.read\<close>: fewer bytes than wanted set the end-of-file flag; at end of file nothing is read.\<close>

definition ss_read :: "nat \<Rightarrow> Stream \<Rightarrow> bytes \<times> Stream" where
  "ss_read n st =
     (if m_SendEof st then ([], st)
      else (take n (m_SendBuffer st), st\<lparr>m_SendBuffer := drop n (m_SendBuffer st), m_SendEof := length (m_SendBuffer st) < n\<rparr>))"

text \<open>The first 18 bytes of a packet with data.\<close>

definition packet_head :: "bool \<Rightarrow> Stream \<Rightarrow> bytes" where
  "packet_head isNoAck st =
     be_bytes 4 (m_SendStreamID st) @ be_bytes 4 (m_RecvStreamID st) @ be_bytes 4 (m_SequenceNumber st) @
     (if isNoAck then be_bytes 4 (m_LastReceivedSequenceNumber st) else le_bytes 4 (0 :: u32)) @
     [0, of_int (tdiv (m_RTO st) 1000)]"

text \<open>The initial packet, signed over its contents with zeroes in place of the signature.\<close>

definition syn_packet :: "'g senv \<Rightarrow> bool \<Rightarrow> Packet \<Rightarrow> Stream \<times> 'g sdest \<Rightarrow> (Packet \<times> Stream \<times> 'g sdest) option" where
  "syn_packet E isNoAck p = (\<lambda>(st, d). do {
     let keys = ownKeys E;
     let identityLen = GetFullLen (m_Public keys);
     (signatureLen, i) \<leftarrow> GetSignatureLen (m_Public keys);
     let flags = PACKET_FLAG_SYNCHRONIZE OR PACKET_FLAG_FROM_INCLUDED OR PACKET_FLAG_SIGNATURE_INCLUDED OR
           PACKET_FLAG_MAX_PACKET_SIZE_INCLUDED OR (if isNoAck then PACKET_FLAG_NO_ACK else 0);
     b1 \<leftarrow> mem_write 0 (packet_head isNoAck st @ be_bytes 2 flags @ be_bytes 2 (of_nat (identityLen + signatureLen + 2) :: u16)) (pbuf p);
     (l, b2) \<leftarrow> ToBuffer 22 (m_Public keys) b1;
     let sp = 22 + identityLen + 2;
     b3 \<leftarrow> mem_write (22 + identityLen) (be_bytes 2 (of_nat STREAMING_MTU :: u16) @ replicate signatureLen 0) b2;
     let size0 = sp + signatureLen;
     let (data, st1) = ss_read (size_sub STREAMING_MTU size0) st;
     b4 \<leftarrow> mem_write size0 data b3;
     let size1 = size0 + length data;
     signed \<leftarrow> mem_read 0 size1 b4;
     let (sig, d1) = sask (PrivateKeys_Sign (sigs E) signed keys) d;
     b5 \<leftarrow> (case sig of Some bs \<Rightarrow> mem_write sp bs b4 | None \<Rightarrow> Some b4);
     Some (p\<lparr>pbuf := b5, plen := size1\<rparr>, st1\<lparr>m_Status := eStreamStatusOpen\<rparr>, d1)
   })"

definition data_packet :: "bool \<Rightarrow> Packet \<Rightarrow> Stream \<Rightarrow> (Packet \<times> Stream) option" where
  "data_packet isNoAck p st = do {
     b1 \<leftarrow> mem_write 0 (packet_head isNoAck st @ le_bytes 2 (0 :: u16) @ le_bytes 2 (0 :: u16)) (pbuf p);
     let (data, st1) = ss_read (STREAMING_MTU - 22) st;
     b2 \<leftarrow> mem_write 22 data b1;
     Some (p\<lparr>pbuf := b2, plen := 22 + length data\<rparr>, st1)
   }"

text \<open>
  The loop of \<open>SendBuffer\<close>; \<open>n\<close> is \<open>numMsgs\<close>. A new stream always sends its initial packet, and is not new
  after that, so the loop ends with the window.
\<close>

fun send_loop :: "'g senv \<Rightarrow> bool \<Rightarrow> nat \<Rightarrow> Stream \<times> 'g sdest \<Rightarrow> (Packet list \<times> Stream \<times> 'g sdest) option" where
  "send_loop E isNoAck 0 s = Some ([], s)"
| "send_loop E isNoAck (Suc n) (st, d) =
     (if m_Status st = eStreamStatusNew \<or> Stream_IsEstablished st \<and> \<not> m_SendEof st then do {
        let (p, d1) = new_packet E d;
        (p1, st1, d2) \<leftarrow> (if m_Status st = eStreamStatusNew then syn_packet E isNoAck p (st, d1)
                          else map_option (\<lambda>(q, st'). (q, st', d1)) (data_packet isNoAck p st));
        (ps, s3) \<leftarrow> send_loop E isNoAck n (st1\<lparr>m_SequenceNumber := m_SequenceNumber st1 + 1\<rparr>, d2);
        Some (p1 # ps, s3)
      }
      else Some ([], (st, d)))"

fun insert_all :: "Packet list \<Rightarrow> (u32, Packet) smap \<Rightarrow> (u32, Packet) smap option" where
  "insert_all [] m = Some m"
| "insert_all (p # ps) m = Option.bind (packet_insert p m) (insert_all ps)"

section \<open>Closing\<close>

definition SendClose :: "'g senv \<Rightarrow> nat \<Rightarrow> Stream \<times> 'g sdest \<Rightarrow> (Stream \<times> 'g sdest) option" where
  "SendClose E a = (\<lambda>(st, d). do {
     let (p, d1) = new_packet E d;
     (signatureLen, i) \<leftarrow> GetSignatureLen (m_Public (ownKeys E));
     b1 \<leftarrow> mem_write 0 (be_bytes 4 (m_SendStreamID st) @ be_bytes 4 (m_RecvStreamID st) @ be_bytes 4 (m_SequenceNumber st) @
             be_bytes 4 (m_LastReceivedSequenceNumber st) @ [0]) (pbuf p);
     b2 \<leftarrow> mem_write 18 (be_bytes 2 (PACKET_FLAG_CLOSE OR PACKET_FLAG_SIGNATURE_INCLUDED) @ be_bytes 2 (of_nat signatureLen :: u16) @
             replicate signatureLen 0) b1;
     let size = 22 + signatureLen;
     signed \<leftarrow> mem_read 0 size b2;
     let (sig, d2) = sask (PrivateKeys_Sign (sigs E) signed (ownKeys E)) d1;
     b3 \<leftarrow> (case sig of Some bs \<Rightarrow> mem_write 22 bs b2 | None \<Rightarrow> Some b2);
     Some (st\<lparr>m_SequenceNumber := m_SequenceNumber st + 1\<rparr>, d2\<lparr>tasks := tasks d2 @ [TSendPacket a (p\<lparr>pbuf := b3, plen := size\<rparr>)]\<rparr>)
   })"

definition Terminate :: "Stream \<times> 'g sdest \<Rightarrow> Stream \<times> 'g sdest" where
  "Terminate = (\<lambda>(st, d).
     case m_SendHandler st of
       Some h \<Rightarrow> (st\<lparr>m_SendHandler := None\<rparr>, d\<lparr>sevents := sevents d @ [SendHandlerCalled h SendAborted]\<rparr>)
     | None \<Rightarrow> (st, d))"

definition DeleteStream :: "Stream \<Rightarrow> 'g sdest \<Rightarrow> 'g sdest" where
  "DeleteStream st d = d\<lparr>m_Streams := map_erase (m_RecvStreamID st) (m_Streams d)\<rparr>"

definition end_stream :: "Stream \<times> 'g sdest \<Rightarrow> Stream \<times> 'g sdest" where
  "end_stream s = (let (st, d) = Terminate s in (st, DeleteStream st d))"

definition Close_closing :: "'g senv \<Rightarrow> nat \<Rightarrow> Stream \<times> 'g sdest \<Rightarrow> (Stream \<times> 'g sdest) option" where
  "Close_closing E a = (\<lambda>(st, d).
     if m_SentPackets st = [] \<and> m_SendEof st
     then map_option end_stream (SendClose E a (st\<lparr>m_Status := eStreamStatusClosed\<rparr>, d))
     else Some (st, d))"

definition Stream_Close :: "'g senv \<Rightarrow> nat \<Rightarrow> Stream \<times> 'g sdest \<Rightarrow> (Stream \<times> 'g sdest) option" where
  "Stream_Close E a = (\<lambda>(st, d).
     case m_Status st of
       eStreamStatusOpen \<Rightarrow> Close_closing E a (st\<lparr>m_Status := eStreamStatusClosing\<rparr>, d)
     | eStreamStatusReset \<Rightarrow> map_option end_stream (SendClose E a (st, d))
     | eStreamStatusClosing \<Rightarrow> Close_closing E a (st, d)
     | eStreamStatusClosed \<Rightarrow> Some (end_stream (st, d))
     | eStreamStatusNew \<Rightarrow> Some (st, d))"

section \<open>Sending\<close>

definition Stream_SendBuffer :: "'g senv \<Rightarrow> nat \<Rightarrow> Stream \<times> 'g sdest \<Rightarrow> (Stream \<times> 'g sdest) option" where
  "Stream_SendBuffer E a = (\<lambda>(st, d).
     let numMsgs = m_WindowSize st - int (length (m_SentPackets st))
     in if numMsgs \<le> 0 then Some (st, d)
        else do {
          let isNoAck = (sint (m_LastReceivedSequenceNumber st) < 0);
          (packets, st1, d1) \<leftarrow> send_loop E isNoAck (nat numMsgs) (st, d);
          let (st2, d2) =
                (case m_SendHandler st1 of
                   Some h \<Rightarrow> if m_SendEof st1
                     then (st1\<lparr>m_SendHandler := None\<rparr>, d1\<lparr>sevents := sevents d1 @ [SendHandlerCalled h SendSuccess]\<rparr>) else (st1, d1)
                 | None \<Rightarrow> (st1, d1));
          if packets = [] then Some (st2, d2)
          else do {
            let (ts, d3) = now_ms E d2;
            let packets1 = map (\<lambda>p. p\<lparr>sendTime := ts\<rparr>) packets;
            sent \<leftarrow> insert_all packets1 (m_SentPackets st2);
            (st4, d4) \<leftarrow> Stream_SendPackets E packets1 (st2\<lparr>m_IsAckSendScheduled := False, m_SentPackets := sent\<rparr>, d3);
            if m_Status st4 = eStreamStatusClosing \<and> m_SendEof st4 then SendClose E a (st4, d4) else Some (st4, d4)
          }
        })"

definition Stream_SendPacket :: "'g senv \<Rightarrow> Packet \<Rightarrow> Stream \<times> 'g sdest \<Rightarrow> (Stream \<times> 'g sdest) option" where
  "Stream_SendPacket E p = (\<lambda>(st, d). do {
     (st1, d1) \<leftarrow> Stream_SendPackets E [p] (st\<lparr>m_IsAckSendScheduled := False\<rparr>, d);
     if m_Status st1 = eStreamStatusOpen then do {
       sent \<leftarrow> packet_insert p (m_SentPackets st1);
       Some (st1\<lparr>m_SentPackets := sent\<rparr>, d1)
     }
     else Some (st1, d1)
   })"

definition Stream_Send :: "nat \<Rightarrow> bytes \<Rightarrow> Stream \<times> 'g sdest \<Rightarrow> Stream \<times> 'g sdest" where
  "Stream_Send a buf = (\<lambda>(st, d).
     (if buf \<noteq> [] then st\<lparr>m_SendBuffer := m_SendBuffer st @ buf, m_SendEof := False\<rparr> else st,
      d\<lparr>tasks := tasks d @ [TSendBuffer a]\<rparr>))"

definition AsyncSend :: "nat \<Rightarrow> bytes \<Rightarrow> nat \<Rightarrow> Stream \<times> 'g sdest \<Rightarrow> Stream \<times> 'g sdest" where
  "AsyncSend a buf handler = (\<lambda>(st, d).
     case m_SendHandler st of
       Some h \<Rightarrow> Stream_Send a buf (st, d\<lparr>sevents := sevents d @ [SendHandlerCalled handler SendInProgress]\<rparr>)
     | None \<Rightarrow> Stream_Send a buf (st\<lparr>m_SendHandler := Some handler\<rparr>, d))"

section \<open>Acknowledgements\<close>

text \<open>
  The numbers of missing packets between the saved ones. When they would be 256 or more the list ends, and
  the number the packet acknowledges is changed to the next expected one.
\<close>

definition seqn_range :: "u32 \<Rightarrow> u32 \<Rightarrow> u32 list" where
  "seqn_range i j = (if i \<le> j then map (\<lambda>k. i + of_nat k) [0..<unat (j - i)] else [])"

fun fill_nacks :: "(u32, Packet) smap \<Rightarrow> u32 \<Rightarrow> u32 list \<Rightarrow> u32 list \<times> u32 option" where
  "fill_nacks [] nextSeqn nacks = (nacks, None)"
| "fill_nacks ((seqn, p) # ps) nextSeqn nacks =
     (if of_nat (length nacks) + (seqn - nextSeqn) \<ge> 256 then (nacks, Some nextSeqn)
      else fill_nacks ps (seqn + 1) (nacks @ seqn_range nextSeqn seqn))"

definition last_seen :: "Stream \<Rightarrow> u32" where
  "last_seen st =
     (if m_SavedPackets st \<noteq> [] \<and> sint (fst (last (m_SavedPackets st))) > sint (m_LastReceivedSequenceNumber st)
      then fst (last (m_SavedPackets st)) else m_LastReceivedSequenceNumber st)"

definition ack_packet :: "Packet \<Rightarrow> Stream \<Rightarrow> Packet option" where
  "ack_packet p st = do {
     let seqn = last_seen st;
     let (nacks, changed) =
           (if sint seqn > sint (m_LastReceivedSequenceNumber st)
            then fill_nacks (m_SavedPackets st) (m_LastReceivedSequenceNumber st + 1) [] else ([], None));
     b1 \<leftarrow> mem_write 0 (be_bytes 4 (m_SendStreamID st) @ be_bytes 4 (m_RecvStreamID st) @ le_bytes 4 (0 :: u32) @
             be_bytes 4 (case changed of Some n \<Rightarrow> n | None \<Rightarrow> seqn) @ [of_nat (length nacks)] @ concat (map (be_bytes 4) nacks)) (pbuf p);
     let size = 17 + 4 * length nacks + 1;
     b2 \<leftarrow> mem_write size (le_bytes 2 (0 :: u16) @ le_bytes 2 (0 :: u16)) b1;
     Some (p\<lparr>pbuf := b2, plen := size + 4\<rparr>)
   }"

definition SendQuickAck :: "'g senv \<Rightarrow> Stream \<times> 'g sdest \<Rightarrow> (Stream \<times> 'g sdest) option" where
  "SendQuickAck E = (\<lambda>(st, d).
     if sint (last_seen st) < 0 then Some (st, d)
     else do {
       let (p, d1) = new_packet E d;
       p1 \<leftarrow> ack_packet p st;
       Stream_SendPackets E [p1] (st, d1)
     })"

text \<open>The numbers an acknowledgement excludes.\<close>

fun get_nacks :: "Packet \<Rightarrow> nat \<Rightarrow> nat \<Rightarrow> u32 list option" where
  "get_nacks p i 0 = Some []"
| "get_nacks p i (Suc n) = do { x \<leftarrow> GetNACK i p; xs \<leftarrow> get_nacks p (i + 1) n; Some (x # xs) }"

text \<open>
  One acknowledged packet: the round trip time is a mean over sequence numbers, in the mixed arithmetic of
  the code (32 bits, then 64, then an \<open>int\<close>), and the window grows.
\<close>

definition acked :: "u64 \<Rightarrow> u32 \<Rightarrow> Packet \<Rightarrow> Stream \<Rightarrow> Stream option" where
  "acked ts seqn p st =
     (if seqn + 1 = 0 then None
      else
        let rtt = ts - sendTime p;
            m = to_int ((ucast (of_int (m_RTT st) * seqn :: u32) + rtt) div ucast (seqn + 1));
            st1 = st\<lparr>m_RTT := m, m_RTO := tdiv (m * 3) 2\<rparr>
        in Some (if m_WindowSize st1 < WINDOW_SIZE then st1\<lparr>m_WindowSize := m_WindowSize st1 + 1\<rparr>
                 else if ts > m_LastWindowSizeIncreaseTime st1 + of_int m
                 then st1\<lparr>m_WindowSize := min (m_WindowSize st1 + 1) MAX_WINDOW_SIZE, m_LastWindowSizeIncreaseTime := ts\<rparr>
                 else st1))"

fun ack_loop ::
    "u64 \<Rightarrow> u32 \<Rightarrow> u32 list \<Rightarrow> (u32, Packet) smap \<Rightarrow> Stream \<Rightarrow> (bool \<times> (u32, Packet) smap \<times> Stream) option" where
  "ack_loop ts ackThrough nacks [] st = Some (False, [], st)"
| "ack_loop ts ackThrough nacks ((seqn, p) # ps) st =
     (if seqn \<le> ackThrough then
        if seqn \<in> set nacks then
          map_option (\<lambda>(b, ps', st'). (b, (seqn, p) # ps', st')) (ack_loop ts ackThrough nacks ps st)
        else do {
          st1 \<leftarrow> acked ts seqn p st;
          (b, ps', st2) \<leftarrow> ack_loop ts ackThrough nacks ps st1;
          Some (True, ps', st2)
        }
      else Some (False, (seqn, p) # ps, st))"

definition ProcessAck :: "'g senv \<Rightarrow> nat \<Rightarrow> Packet \<Rightarrow> Stream \<times> 'g sdest \<Rightarrow> (Stream \<times> 'g sdest) option" where
  "ProcessAck E a p = (\<lambda>(st, d). do {
     let (ts, d1) = now_ms E d;
     ackThrough \<leftarrow> GetAckThrough p;
     nackCount \<leftarrow> GetNACKCount p;
     nacks \<leftarrow> get_nacks p 0 (unat nackCount);
     (acknowledged, sent, st1) \<leftarrow> ack_loop ts ackThrough nacks (m_SentPackets st) st;
     let st2 = st1\<lparr>m_SentPackets := sent\<rparr>;
     (st3, d3) \<leftarrow> (if acknowledged then Stream_SendBuffer E a (st2\<lparr>m_NumResendAttempts := 0\<rparr>, d1) else Some (st2, d1));
     if m_Status st3 = eStreamStatusClosing then Stream_Close E a (st3, d3) else Some (st3, d3)
   })"

section \<open>Receiving\<close>

definition process_signature ::
    "'g senv \<Rightarrow> nat \<Rightarrow> nat \<Rightarrow> Packet \<Rightarrow> Stream \<times> 'g sdest \<Rightarrow> (bool \<times> Stream \<times> 'g sdest) option" where
  "process_signature E a od p = (\<lambda>(st, d). do {
     (signatureLen, i) \<leftarrow> GetSignatureLen (m_RemoteIdentity st);
     sig \<leftarrow> mem_read od signatureLen (pbuf p);
     stack \<leftarrow> mem_write 0 sig (replicate 256 0);
     zeroed \<leftarrow> mem_write od (replicate signatureLen 0) (pbuf p);
     data \<leftarrow> mem_read (poffset p) (Packet_GetLength p) zeroed;
     (verified, i1) \<leftarrow> Identity_Verify (verifyWith (sigs E)) data 0 stack i;
     let st1 = st\<lparr>m_RemoteIdentity := i1\<rparr>;
     if verified then Some (True, st1, d)
     else map_option (Pair False) (Stream_Close E a (st1, d))
   })"

text \<open>The options of a packet; the result is false where the code adds the close flag.\<close>

definition process_options ::
    "'g senv \<Rightarrow> nat \<Rightarrow> u16 \<Rightarrow> Packet \<Rightarrow> Stream \<times> 'g sdest \<Rightarrow> (bool \<times> Stream \<times> 'g sdest) option" where
  "process_options E a flags p = (\<lambda>(st, d). do {
     od0 \<leftarrow> GetOptionData p;
     let od1 = (if flags AND PACKET_FLAG_DELAY_REQUESTED \<noteq> 0 then od0 + 2 else od0);
     (od2, st1) \<leftarrow>
       (if flags AND PACKET_FLAG_FROM_INCLUDED \<noteq> 0 then do {
          n \<leftarrow> GetOptionSize p;
          (l, i) \<leftarrow> FromBuffer (gsha (gen (rtr E))) od1 (unat n) (pbuf p) (m_RemoteIdentity st);
          Some (od1 + l, st\<lparr>m_RemoteIdentity := i\<rparr>)
        } else Some (od1, st));
     od3 \<leftarrow> (if flags AND PACKET_FLAG_MAX_PACKET_SIZE_INCLUDED \<noteq> 0
             then map_option (\<lambda>_. od2 + 2) (bufbe16toh od2 (pbuf p)) else Some od2);
     if flags AND PACKET_FLAG_SIGNATURE_INCLUDED \<noteq> 0 then process_signature E a od3 p (st1, d) else Some (True, st1, d)
   })"

definition ProcessPacket :: "'g senv \<Rightarrow> nat \<Rightarrow> Packet \<Rightarrow> Stream \<times> 'g sdest \<Rightarrow> (Stream \<times> 'g sdest) option" where
  "ProcessPacket E a p s = do {
     seqn \<leftarrow> GetSeqn p;
     flags \<leftarrow> GetFlags p;
     (ok, st2, d2) \<leftarrow> process_options E a flags p s;
     payload \<leftarrow> Packet_GetPayload p;
     let p1 = p\<lparr>poffset := payload\<rparr>;
     let st3 = (if Packet_GetLength p1 > 0 then st2\<lparr>m_ReceiveQueue := m_ReceiveQueue st2 @ [p1]\<rparr> else st2);
     let st4 = st3\<lparr>m_LastReceivedSequenceNumber := seqn\<rparr>;
     if \<not> ok \<or> flags AND (PACKET_FLAG_CLOSE OR PACKET_FLAG_RESET) \<noteq> 0
     then Stream_Close E a (st4\<lparr>m_Status := eStreamStatusReset\<rparr>, d2)
     else Some (st4, d2)
   }"

fun process_saved :: "'g senv \<Rightarrow> nat \<Rightarrow> (u32, Packet) smap \<Rightarrow> Stream \<times> 'g sdest \<Rightarrow> (Stream \<times> 'g sdest) option" where
  "process_saved E a [] s = Some s"
| "process_saved E a ((seqn, p) # ps) (st, d) =
     (if seqn = m_LastReceivedSequenceNumber st + 1
      then Option.bind (ProcessPacket E a p (st\<lparr>m_SavedPackets := ps\<rparr>, d)) (process_saved E a ps)
      else Some (st, d))"

definition SavePacket :: "Packet \<Rightarrow> Stream \<Rightarrow> Stream option" where
  "SavePacket p st = map_option (\<lambda>m. st\<lparr>m_SavedPackets := m\<rparr>) (packet_insert p (m_SavedPackets st))"

definition Stream_HandleNextPacket :: "'g senv \<Rightarrow> nat \<Rightarrow> Packet \<Rightarrow> Stream \<times> 'g sdest \<Rightarrow> (Stream \<times> 'g sdest) option" where
  "Stream_HandleNextPacket E a p = (\<lambda>(st, d). do {
     rid \<leftarrow> GetReceiveStreamID p;
     let st1 = st\<lparr>strNumReceivedBytes := strNumReceivedBytes st + Packet_GetLength p,
                  m_SendStreamID := (if m_SendStreamID st = 0 then rid else m_SendStreamID st)\<rparr>;
     noAck \<leftarrow> IsNoAck p;
     (st2, d2) \<leftarrow> (if noAck then Some (st1, d) else ProcessAck E a p (st1, d));
     seqn \<leftarrow> GetSeqn p;
     isSyn \<leftarrow> IsSYN p;
     if seqn = 0 \<and> \<not> isSyn then Some (st2, d2)
     else if isSyn \<or> seqn = m_LastReceivedSequenceNumber st2 + 1 then do {
       (st3, d3) \<leftarrow> ProcessPacket E a p (st2, d2);
       (st4, d4) \<leftarrow> process_saved E a (m_SavedPackets st3) (st3, d3);
       if m_Status st4 = eStreamStatusOpen then Some (st4\<lparr>m_IsAckSendScheduled := True\<rparr>, d4)
       else if isSyn then Stream_SendBuffer E a (st4, d4)
       else Some (st4, d4)
     }
     else if sint seqn \<le> sint (m_LastReceivedSequenceNumber st2) then SendQuickAck E (st2, d2)
     else do {
       st3 \<leftarrow> SavePacket p st2;
       if sint (m_LastReceivedSequenceNumber st3) \<ge> 0 then SendQuickAck E (st3\<lparr>m_IsAckSendScheduled := False\<rparr>, d2)
       else Some (st3\<lparr>m_IsAckSendScheduled := True\<rparr>, d2)
     }
   })"

fun ConcatenatePackets :: "nat \<Rightarrow> Packet list \<Rightarrow> (bytes \<times> Packet list) option" where
  "ConcatenatePackets len [] = Some ([], [])"
| "ConcatenatePackets len (p # ps) =
     (if len = 0 then Some ([], p # ps)
      else do {
        let l = min (Packet_GetLength p) len;
        bs \<leftarrow> mem_read (poffset p) l (pbuf p);
        let p1 = p\<lparr>poffset := poffset p + l\<rparr>;
        if Packet_GetLength p1 = 0 then map_option (\<lambda>(cs, qs). (bs @ cs, qs)) (ConcatenatePackets (len - l) ps)
        else Some (bs, p1 # ps)
      })"

definition ReadSome :: "nat \<Rightarrow> Stream \<Rightarrow> (bytes \<times> Stream) option" where
  "ReadSome len st = map_option (\<lambda>(bs, q). (bs, st\<lparr>m_ReceiveQueue := q\<rparr>)) (ConcatenatePackets len (m_ReceiveQueue st))"

datatype receive_result = Received bytes | ConnectionReset | OperationAborted | TimedOut

definition HandleReceiveTimer :: "bool \<Rightarrow> nat \<Rightarrow> Stream \<Rightarrow> (receive_result \<times> Stream) option" where
  "HandleReceiveTimer aborted len st = do {
     (bs, st1) \<leftarrow> ReadSome len st;
     Some (if bs \<noteq> [] then Received bs
           else if aborted then (if m_Status st1 = eStreamStatusReset then ConnectionReset else OperationAborted)
           else TimedOut, st1)
   }"

definition AsyncReceive :: "nat \<Rightarrow> Stream \<Rightarrow> ((receive_result \<times> Stream) option) option" where
  "AsyncReceive len st =
     (if m_ReceiveQueue st \<noteq> [] \<or> m_Status st = eStreamStatusReset then Some (HandleReceiveTimer True len st) else None)"

section \<open>Timers\<close>

definition due_packets :: "u64 \<Rightarrow> int \<Rightarrow> (u32, Packet) smap \<Rightarrow> (u32, Packet) smap \<times> Packet list" where
  "due_packets ts rto sent =
     (let due = (\<lambda>p. ts \<ge> sendTime p + of_int rto)
      in (map (\<lambda>(k, p). (k, if due p then p\<lparr>sendTime := ts\<rparr> else p)) sent,
          map (\<lambda>(k, p). p\<lparr>sendTime := ts\<rparr>) (filter (\<lambda>(k, p). due p) sent)))"

text \<open>What a failed transmission changes: the window first, then the lease, then the tunnel, then the lease again.\<close>

definition change_route :: "'g senv \<Rightarrow> Stream \<times> 'g sdest \<Rightarrow> Stream \<times> 'g sdest" where
  "change_route E = (\<lambda>(st, d).
     let n = m_NumResendAttempts st
     in if n = 1 then (st\<lparr>m_WindowSize := max (tdiv (m_WindowSize st) 2) MIN_WINDOW_SIZE\<rparr>, d)
        else if n = 2 then UpdateCurrentRemoteLease E False (st\<lparr>m_RTO := INITIAL_RTO\<rparr>, d)
        else if n = 4 then UpdateCurrentRemoteLease E False (st, d)
        else if n = 3 then
          let (t, r) = Pool_GetNextOutboundTunnel (rtr E) (ownPool E) (m_CurrentOutboundTunnel st) (rs d)
          in (st\<lparr>m_CurrentOutboundTunnel := t\<rparr>, d\<lparr>rs := r\<rparr>)
        else (st, d))"

definition HandleResendTimer :: "'g senv \<Rightarrow> nat \<Rightarrow> bool \<Rightarrow> Stream \<times> 'g sdest \<Rightarrow> (Stream \<times> 'g sdest) option" where
  "HandleResendTimer E a aborted = (\<lambda>(st, d).
     if aborted then Some (st, d)
     else if m_NumResendAttempts st \<ge> MAX_NUM_RESEND_ATTEMPTS then Stream_Close E a (st\<lparr>m_Status := eStreamStatusReset\<rparr>, d)
     else
       let (ts, d1) = now_ms E d;
           (sent, packets) = due_packets ts (m_RTO st) (m_SentPackets st);
           st1 = st\<lparr>m_SentPackets := sent\<rparr>
       in if packets = [] then Some (st1, d1)
          else Stream_SendPackets E packets
                 (change_route E (st1\<lparr>m_NumResendAttempts := m_NumResendAttempts st1 + 1, m_RTO := m_RTO st1 * 2\<rparr>, d1)))"

definition HandleAckSendTimer :: "'g senv \<Rightarrow> nat \<Rightarrow> Stream \<times> 'g sdest \<Rightarrow> (Stream \<times> 'g sdest) option" where
  "HandleAckSendTimer E a = (\<lambda>(st, d).
     if m_IsAckSendScheduled st then
       if sint (m_LastReceivedSequenceNumber st) < 0 then Stream_Close E a (st\<lparr>m_Status := eStreamStatusReset\<rparr>, d)
       else map_option (\<lambda>(st1, d1). (st1\<lparr>m_IsAckSendScheduled := False\<rparr>, d1))
              (if m_Status st = eStreamStatusOpen then SendQuickAck E (st, d) else Some (st, d))
     else Some (st, d))"

section \<open>Destinations\<close>

definition newStreamingDestination :: "'g rstate \<Rightarrow> 'g sdest" where
  "newStreamingDestination s = \<lparr>streamHeap = [], m_Streams = [], m_Acceptor = False, tasks = [], sevents = [], rs = s\<rparr>"

definition on_stream ::
    "(Stream \<times> 'g sdest \<Rightarrow> (Stream \<times> 'g sdest) option) \<Rightarrow> nat \<Rightarrow> 'g sdest \<Rightarrow> 'g sdest option" where
  "on_stream f a d = map_option (\<lambda>(st, d1). d1\<lparr>streamHeap := (streamHeap d1)[a := st]\<rparr>) (f (streamHeap d ! a, d))"

definition add_stream :: "Stream \<Rightarrow> 'g sdest \<Rightarrow> nat \<times> 'g sdest" where
  "add_stream st d =
     (let a = length (streamHeap d)
      in (a, d\<lparr>streamHeap := streamHeap d @ [st], m_Streams := map_put (m_RecvStreamID st) a (m_Streams d)\<rparr>))"

definition CreateNewOutgoingStream ::
    "'g senv \<Rightarrow> nat \<Rightarrow> u16 \<Rightarrow> IdentityEx \<Rightarrow> Lease \<Rightarrow> 'g sdest \<Rightarrow> (nat \<times> 'g sdest) option" where
  "CreateNewOutgoingStream E remote port fresh l d = do {
     let (rid, d1) = sask (genMsgID (gen (rtr E))) d;
     let (ls, d2) = sask (leaseSetAt E remote) d1;
     i \<leftarrow> IdentityEx_assign (m_Identity ls) fresh;
     Some (add_stream (newStream rid port (Some remote) i (l\<lparr>endDate := 0\<rparr>)) d2)
   }"

definition CreateNewIncomingStream :: "'g senv \<Rightarrow> IdentityEx \<Rightarrow> Lease \<Rightarrow> 'g sdest \<Rightarrow> nat \<times> 'g sdest" where
  "CreateNewIncomingStream E fresh l d =
     (let (rid, d1) = sask (genMsgID (gen (rtr E))) d in add_stream (newStream rid 0 None fresh l) d1)"

definition SetAcceptor :: "'g sdest \<Rightarrow> 'g sdest" where "SetAcceptor d = d\<lparr>m_Acceptor := True\<rparr>"

definition ResetAcceptor :: "'g sdest \<Rightarrow> 'g sdest" where
  "ResetAcceptor d =
     d\<lparr>sevents := (if m_Acceptor d then sevents d @ [AcceptorReleased] else sevents d), m_Acceptor := False\<rparr>"

definition Dest_Stop :: "'g sdest \<Rightarrow> 'g sdest" where
  "Dest_Stop d = (ResetAcceptor d)\<lparr>m_Streams := []\<rparr>"

text \<open>
  \<open>fresh\<close> and \<open>l\<close> are the memory of the identity and the lease of a new stream. The acceptor of the
  destination is told about the stream after its first packet was handled.
\<close>

definition Dest_HandleNextPacket ::
    "'g senv \<Rightarrow> IdentityEx \<Rightarrow> Lease \<Rightarrow> Packet \<Rightarrow> 'g sdest \<Rightarrow> 'g sdest option" where
  "Dest_HandleNextPacket E fresh l p d = do {
     sendStreamID \<leftarrow> GetSendStreamID p;
     if sendStreamID \<noteq> 0 then
       (case map_find sendStreamID (m_Streams d) of
          Some a \<Rightarrow> on_stream (Stream_HandleNextPacket E a p) a d
        | None \<Rightarrow> Some d)
     else do {
       isSyn \<leftarrow> IsSYN p;
       seqn \<leftarrow> GetSeqn p;
       if isSyn \<and> seqn = 0 then do {
         let (a, d1) = CreateNewIncomingStream E fresh l d;
         d2 \<leftarrow> on_stream (Stream_HandleNextPacket E a p) a d1;
         Some (if m_Acceptor d2 then d2\<lparr>sevents := sevents d2 @ [Accepted a]\<rparr> else DeleteStream (streamHeap d2 ! a) d2)
       }
       else do {
         receiveStreamID \<leftarrow> GetReceiveStreamID p;
         case List.find (\<lambda>(k, a). m_SendStreamID (streamHeap d ! a) = receiveStreamID) (m_Streams d) of
           Some (k, a) \<Rightarrow> on_stream (Stream_HandleNextPacket E a p) a d
         | None \<Rightarrow> Some d
       }
     }
   }"

text \<open>A message of the streaming protocol: \<open>None\<close> inside is an exception of the decompressor.\<close>

definition HandleDataMessagePayload ::
    "'g senv \<Rightarrow> IdentityEx \<Rightarrow> Lease \<Rightarrow> bytes \<Rightarrow> 'g sdest \<Rightarrow> 'g sdest option" where
  "HandleDataMessagePayload E fresh l buf d =
     (case gunzip E buf of
        None \<Rightarrow> Some d
      | Some data \<Rightarrow>
          let (p, d1) = new_packet E d
          in if length data \<le> MAX_PACKET_SIZE then do {
               b \<leftarrow> mem_write 0 data (pbuf p);
               Dest_HandleNextPacket E fresh l (p\<lparr>pbuf := b, plen := length data\<rparr>) d1
             }
             else Some d1)"

text \<open>Work posted by the streams.\<close>

definition run_task :: "'g senv \<Rightarrow> stask \<Rightarrow> 'g sdest \<Rightarrow> 'g sdest option" where
  "run_task E t d =
     (case t of
        TSendBuffer a \<Rightarrow> on_stream (Stream_SendBuffer E a) a d
      | TSendPacket a p \<Rightarrow> on_stream (Stream_SendPacket E p) a d)"

end
