(* ===== verification/Stream_Frames.thy ===== *)
theory Stream_Frames
  imports Streaming
begin

text \<open>
  What each operation of a stream leaves alone. Sending touches the route of a stream and the router; only the
  processing of packets and reading touch the receiving half.
\<close>

section \<open>What the operations leave alone\<close>

text \<open>Sending packets changes the route of a stream and counts bytes; the router changes, not the destination.\<close>

definition route_only :: "Stream \<Rightarrow> Stream \<Rightarrow> bool" where
  "route_only st st' \<longleftrightarrow>
     (\<exists>r s l t n. st' = st\<lparr>m_RemoteLeaseSet := r, m_RoutingSession := s, m_CurrentRemoteLease := l, m_CurrentOutboundTunnel := t,
        strNumSentBytes := n\<rparr>)"

definition router_only :: "'g sdest \<Rightarrow> 'g sdest \<Rightarrow> bool" where
  "router_only d d' \<longleftrightarrow> (\<exists>r. d' = d\<lparr>rs := r\<rparr>)"

lemma route_only_refl [simp, intro]: "route_only st st"
  unfolding route_only_def by (intro exI [of _ "m_RemoteLeaseSet st"] exI [of _ "m_RoutingSession st"] exI [of _ "m_CurrentRemoteLease st"]
      exI [of _ "m_CurrentOutboundTunnel st"] exI [of _ "strNumSentBytes st"]) simp

lemma route_only_trans [trans]: "route_only st st' \<Longrightarrow> route_only st' st'' \<Longrightarrow> route_only st st''"
  unfolding route_only_def by (elim exE) (simp, blast)

lemma route_only_updates [simp]:
  "route_only st (st'\<lparr>m_RemoteLeaseSet := r\<rparr>) = route_only st st'" "route_only st (st'\<lparr>m_RoutingSession := s\<rparr>) = route_only st st'"
  "route_only st (st'\<lparr>m_CurrentRemoteLease := l\<rparr>) = route_only st st'" "route_only st (st'\<lparr>m_CurrentOutboundTunnel := t\<rparr>) = route_only st st'"
  "route_only st (st'\<lparr>strNumSentBytes := n\<rparr>) = route_only st st'"
  unfolding route_only_def
  subgoal by (cases st'; cases st) (simp; metis)
  subgoal by (cases st'; cases st) (simp; metis)
  subgoal by (cases st'; cases st) (simp; metis)
  subgoal by (cases st'; cases st) (simp; metis)
  subgoal by (cases st'; cases st) (simp; metis)
  done

lemma route_onlyD:
  assumes "route_only st st'"
  shows "m_SendStreamID st' = m_SendStreamID st" "m_RecvStreamID st' = m_RecvStreamID st" "m_SequenceNumber st' = m_SequenceNumber st"
    "m_LastReceivedSequenceNumber st' = m_LastReceivedSequenceNumber st" "m_Status st' = m_Status st"
    "m_ReceiveQueue st' = m_ReceiveQueue st" "m_SavedPackets st' = m_SavedPackets st" "m_SentPackets st' = m_SentPackets st"
    "m_SendBuffer st' = m_SendBuffer st" "m_SendEof st' = m_SendEof st" "m_WindowSize st' = m_WindowSize st"
    "m_NumResendAttempts st' = m_NumResendAttempts st" "m_RemoteIdentity st' = m_RemoteIdentity st"
  using assms by (auto simp: route_only_def)

lemma router_only_refl [simp, intro]: "router_only d d"
  unfolding router_only_def by (rule exI [of _ "rs d"]) simp

lemma router_only_trans [trans]: "router_only d d' \<Longrightarrow> router_only d' d'' \<Longrightarrow> router_only d d''"
  unfolding router_only_def by (elim exE) (simp, blast)

lemma router_only_update [simp]: "router_only d (d'\<lparr>rs := r\<rparr>) = router_only d d'"
  unfolding router_only_def by (cases d'; cases d) simp

lemma router_onlyD: "router_only d d' \<Longrightarrow> tasks d' = tasks d \<and> streamHeap d' = streamHeap d \<and> m_Streams d' = m_Streams d"
  by (auto simp: router_only_def)

lemma sask_router_only [simp]: "router_only d (snd (sask q d'))= router_only d d'"
  by (simp add: sask_def case_prod_beta Let_def)

lemma now_ms_router_only [simp]: "router_only d (snd (now_ms E d')) = router_only d d'"
  by (simp add: now_ms_def)

lemma new_packet_router_only [simp]: "router_only d (snd (new_packet E d')) = router_only d d'"
  by (simp add: new_packet_def case_prod_beta Let_def)

lemma UpdateCurrentRemoteLease_frame [simp]:
  "route_only st (fst (UpdateCurrentRemoteLease E b (st', d'))) = route_only st st'"
  "router_only d (snd (UpdateCurrentRemoteLease E b (st', d'))) = router_only d d'"
  unfolding UpdateCurrentRemoteLease_def
  by (simp_all add: Let_def case_prod_beta split: option.split if_split)

lemma bind_SomeE:
  assumes "Option.bind x f = Some y"
  obtains z where "x = Some z" and "f z = Some y"
  using assms by (cases x) simp_all

lemma UpdateCurrentRemoteLease_frames:
  assumes "UpdateCurrentRemoteLease E b (st, d) = (st', d')"
  shows "(\<forall>x. route_only x st' = route_only x st) \<and> (\<forall>x. router_only x d' = router_only x d)"
  using UpdateCurrentRemoteLease_frame(1) [of _ E b st d] UpdateCurrentRemoteLease_frame(2) [of _ E b st d] assms by simp

lemma Stream_SendPackets_frame:
  assumes "Stream_SendPackets E ps (st, d) = Some (st', d')"
  shows "route_only st st' \<and> router_only d d'"
proof -
  obtain st1 d1 where 1: "(if m_RemoteLeaseSet st = None then UpdateCurrentRemoteLease E False (st, d) else (st, d)) = (st1, d1)"
    by fastforce
  have f1: "route_only st st1" "router_only d d1"
    using 1 UpdateCurrentRemoteLease_frames [of E False st d st1 d1] by (auto split: if_splits)
  show ?thesis
    using assms f1
    by (auto simp: Stream_SendPackets_def 1 Let_def case_prod_beta dest!: UpdateCurrentRemoteLease_frames split: if_splits option.splits bind_splits)
qed

text \<open>The receiving half of a stream: what has been queued, how far, and what waits for missing packets.\<close>

definition rx :: "Stream \<Rightarrow> Packet list \<times> u32 \<times> (u32, Packet) smap" where
  "rx st = (m_ReceiveQueue st, m_LastReceivedSequenceNumber st, m_SavedPackets st)"

lemma rx_updates [simp]:
  "rx (st\<lparr>m_SendStreamID := a\<rparr>) = rx st" "rx (st\<lparr>m_SequenceNumber := b\<rparr>) = rx st" "rx (st\<lparr>m_Status := c\<rparr>) = rx st"
  "rx (st\<lparr>m_IsAckSendScheduled := e\<rparr>) = rx st" "rx (st\<lparr>m_RemoteIdentity := f\<rparr>) = rx st" "rx (st\<lparr>m_SentPackets := g\<rparr>) = rx st"
  "rx (st\<lparr>strNumReceivedBytes := h\<rparr>) = rx st" "rx (st\<lparr>m_SendBuffer := i\<rparr>) = rx st" "rx (st\<lparr>m_SendEof := j\<rparr>) = rx st"
  "rx (st\<lparr>m_WindowSize := k\<rparr>) = rx st" "rx (st\<lparr>m_RTT := l\<rparr>) = rx st" "rx (st\<lparr>m_RTO := m\<rparr>) = rx st"
  "rx (st\<lparr>m_LastWindowSizeIncreaseTime := n\<rparr>) = rx st" "rx (st\<lparr>m_NumResendAttempts := o'\<rparr>) = rx st"
  "rx (st\<lparr>m_SendHandler := p\<rparr>) = rx st" "rx (st\<lparr>m_CurrentOutboundTunnel := q\<rparr>) = rx st"
  by (simp_all add: rx_def)

named_theorems rx_frame "operations that leave the receiving half alone"

lemma rx_route: "route_only st st' \<Longrightarrow> rx st' = rx st"
  by (simp add: rx_def route_onlyD)

lemma Stream_SendPackets_rx [rx_frame]: "Stream_SendPackets E ps s = Some s' \<Longrightarrow> rx (fst s') = rx (fst s)"
  by (cases s; cases s') (auto dest!: Stream_SendPackets_frame rx_route)

lemma SendClose_rx [rx_frame]: "SendClose E a s = Some s' \<Longrightarrow> rx (fst s') = rx (fst s)"
  by (auto simp: SendClose_def Let_def case_prod_beta split: bind_splits)

lemma Terminate_rx [simp]: "rx (fst (Terminate s)) = rx (fst s)"
  by (simp add: Terminate_def case_prod_beta split: option.split)

lemma end_stream_rx [simp]: "rx (fst (end_stream s)) = rx (fst s)"
  by (simp add: end_stream_def case_prod_beta Let_def)

lemma Close_closing_rx [rx_frame]: "Close_closing E a s = Some s' \<Longrightarrow> rx (fst s') = rx (fst s)"
  by (auto simp: Close_closing_def case_prod_beta dest!: SendClose_rx split: if_splits)

lemma Stream_Close_rx [rx_frame]: "Stream_Close E a s = Some s' \<Longrightarrow> rx (fst s') = rx (fst s)"
  by (auto simp: Stream_Close_def case_prod_beta dest!: SendClose_rx Close_closing_rx split: StreamStatus.splits)

lemma ss_read_rx [simp]: "rx (snd (ss_read n st)) = rx st"
  by (simp add: ss_read_def)

lemma syn_packet_rx: "syn_packet E b p s = Some (q, s') \<Longrightarrow> rx (fst s') = rx (fst s)"
  by (auto simp: syn_packet_def Let_def case_prod_beta split: bind_splits)

lemma data_packet_rx: "data_packet b p st = Some (q, st') \<Longrightarrow> rx st' = rx st"
  by (auto simp: data_packet_def Let_def case_prod_beta split: bind_splits)

lemma send_loop_step:
  assumes "send_loop E b (Suc n) (st, d) = Some (ps, s')" and "ps \<noteq> []"
  obtains d1 q st1 d2 qs where
      "m_Status st = eStreamStatusNew \<or> m_Status st \<noteq> eStreamStatusNew \<and> Stream_IsEstablished st \<and> \<not> m_SendEof st"
      "router_only d d1" "ps = q # qs" "send_loop E b n (st1\<lparr>m_SequenceNumber := m_SequenceNumber st1 + 1\<rparr>, d2) = Some (qs, s')"
      "if m_Status st = eStreamStatusNew then syn_packet E b (fst (new_packet E d)) (st, d1) = Some (q, st1, d2)
       else data_packet b (fst (new_packet E d)) st = Some (q, st1) \<and> d2 = d1"
proof -
  let ?d1 = "snd (new_packet E d)"
  have "router_only d ?d1" by simp
  then show ?thesis
    using assms that [of ?d1] by (auto simp: Let_def case_prod_beta split: if_splits bind_splits)
qed

lemma send_loop_none: "send_loop E b n s = Some ([], s') \<Longrightarrow> s' = s"
  by (cases n; cases s) (auto simp: Let_def case_prod_beta split: if_splits bind_splits)

lemma send_loop_rx: "send_loop E b n s = Some (ps, s') \<Longrightarrow> rx (fst s') = rx (fst s)"
proof (induction n arbitrary: s ps)
  case (Suc n)
  obtain st d where s: "s = (st, d)" by (cases s)
  show ?case
  proof (cases "ps = []")
    case False
    from Suc.prems [unfolded s] False show ?thesis
      by (rule send_loop_step) (auto simp: s dest!: Suc.IH syn_packet_rx data_packet_rx split: if_splits)
  qed (use Suc.prems send_loop_none in fastforce)
qed simp

lemma Stream_SendBuffer_rx [rx_frame]: "Stream_SendBuffer E a s = Some s' \<Longrightarrow> rx (fst s') = rx (fst s)"
  by (auto simp: Stream_SendBuffer_def Let_def case_prod_beta split: if_splits bind_splits option.splits
      dest!: send_loop_rx Stream_SendPackets_rx SendClose_rx)

lemma acked_rx: "acked ts k p st = Some st' \<Longrightarrow> rx st' = rx st"
  by (auto simp: acked_def Let_def split: if_splits)

lemma ack_loop_rx: "ack_loop ts t ns m st = Some (b, m', st') \<Longrightarrow> rx st' = rx st"
  by (induction m arbitrary: st b m') (fastforce split: if_splits bind_splits dest: acked_rx)+

lemma ProcessAck_rx [rx_frame]: "ProcessAck E a p s = Some s' \<Longrightarrow> rx (fst s') = rx (fst s)"
  by (auto simp: ProcessAck_def Let_def case_prod_beta split: if_splits bind_splits dest!: ack_loop_rx Stream_SendBuffer_rx Stream_Close_rx)

lemma SendQuickAck_rx [rx_frame]: "SendQuickAck E s = Some s' \<Longrightarrow> rx (fst s') = rx (fst s)"
  by (auto simp: SendQuickAck_def Let_def case_prod_beta split: if_splits bind_splits dest!: Stream_SendPackets_rx)

lemma Stream_SendPacket_rx [rx_frame]: "Stream_SendPacket E p s = Some s' \<Longrightarrow> rx (fst s') = rx (fst s)"
  by (auto simp: Stream_SendPacket_def case_prod_beta split: if_splits bind_splits dest!: Stream_SendPackets_rx)

lemma Stream_Send_rx [simp]: "rx (fst (Stream_Send a buf s)) = rx (fst s)"
  by (simp add: Stream_Send_def case_prod_beta)

lemma AsyncSend_rx [simp]: "rx (fst (AsyncSend a buf h s)) = rx (fst s)"
  by (simp add: AsyncSend_def case_prod_beta split: option.split)

lemma UpdateCurrentRemoteLease_rx [simp]: "rx (fst (UpdateCurrentRemoteLease E b (st, d))) = rx st"
  by (rule rx_route) simp

lemma change_route_rx [simp]: "rx (fst (change_route E s)) = rx (fst s)"
  by (cases s) (simp add: change_route_def Let_def case_prod_beta)

lemma HandleResendTimer_rx [rx_frame]: "HandleResendTimer E a b s = Some s' \<Longrightarrow> rx (fst s') = rx (fst s)"
  by (auto simp: HandleResendTimer_def Let_def case_prod_beta split: if_splits bind_splits dest!: Stream_SendPackets_rx Stream_Close_rx)

lemma HandleAckSendTimer_rx [rx_frame]: "HandleAckSendTimer E a s = Some s' \<Longrightarrow> rx (fst s') = rx (fst s)"
  by (auto simp: HandleAckSendTimer_def case_prod_beta split: if_splits dest!: SendQuickAck_rx Stream_Close_rx)

end
