(* ===== verification/Stream_Receive.thy ===== *)
theory Stream_Receive
  imports Stream_Frames
begin

text \<open>
  The receiving half of a stream: reading, the reassembly of packets, and runs of a stream in which anything
  may happen in any order.
\<close>

section \<open>Reading\<close>

text \<open>What a packet in the receive queue still holds.\<close>

definition view :: "Packet \<Rightarrow> bytes" where
  "view p = take (plen p - poffset p) (drop (poffset p) (pbuf p))"

definition queued_ok :: "Packet \<Rightarrow> bool" where
  "queued_ok p \<longleftrightarrow> poffset p < plen p \<and> plen p \<le> length (pbuf p)"

lemma length_view: "queued_ok p \<Longrightarrow> length (view p) = plen p - poffset p"
  by (auto simp: view_def queued_ok_def)

lemma ConcatenatePackets_eq:
  assumes "\<forall>p \<in> set q. queued_ok p"
  shows "\<exists>q'. ConcatenatePackets len q = Some (take len (concat (map view q)), q') \<and>
    concat (map view q') = drop len (concat (map view q)) \<and> (\<forall>p \<in> set q'. queued_ok p)"
  using assms
proof (induction len q rule: ConcatenatePackets.induct)
  case (2 len p ps)
  have ok: "poffset p < plen p" "plen p \<le> length (pbuf p)" "length (view p) = plen p - poffset p"
    using 2(2) length_view by (simp_all add: queued_ok_def)
  have l: "Packet_GetLength p = plen p - poffset p" using ok by (simp add: Packet_GetLength_def)
  show ?case
  proof (cases "plen p - poffset p \<le> len")
    case True
    then have "mem_read (poffset p) (min (Packet_GetLength p) len) (pbuf p) = Some (view p)"
      using ok by (simp add: mem_read_def l view_def)
    then show ?thesis
      using 2 True ok by (auto simp: l Packet_GetLength_def min_def)
  next
    case False
    let ?p1 = "p\<lparr>poffset := poffset p + len\<rparr>"
    have r: "mem_read (poffset p) (min (Packet_GetLength p) len) (pbuf p) = Some (take len (view p))"
      using ok False by (simp add: mem_read_def l view_def min_def)
    have v: "view ?p1 = drop len (view p)" "Packet_GetLength ?p1 = plen p - poffset p - len" "queued_ok ?p1"
      using ok False by (simp_all add: view_def Packet_GetLength_def queued_ok_def drop_take add.commute)
    show ?thesis using 2(2) False ok r v by (auto simp: l min_def)
  qed
qed simp

lemma ReadSome_eq:
  assumes "\<forall>p \<in> set (m_ReceiveQueue st). queued_ok p"
  shows "\<exists>q'. ReadSome len st = Some (take len (concat (map view (m_ReceiveQueue st))), st\<lparr>m_ReceiveQueue := q'\<rparr>) \<and>
    concat (map view q') = drop len (concat (map view (m_ReceiveQueue st))) \<and> (\<forall>p \<in> set q'. queued_ok p)"
  using ConcatenatePackets_eq [OF assms, of len] by (auto simp: ReadSome_def)

section \<open>Processing packets\<close>

definition enqueue :: "nat \<Rightarrow> Packet \<Rightarrow> Packet list \<Rightarrow> Packet list" where
  "enqueue o' p q = (if Packet_GetLength (p\<lparr>poffset := o'\<rparr>) > 0 then q @ [p\<lparr>poffset := o'\<rparr>] else q)"

lemma process_signature_rx: "process_signature E a od p s = Some (b, s') \<Longrightarrow> rx (fst s') = rx (fst s)"
  by (auto simp: process_signature_def Let_def case_prod_beta split: bind_splits if_splits dest!: Stream_Close_rx)

lemma process_options_rx: "process_options E a f p s = Some (b, s') \<Longrightarrow> rx (fst s') = rx (fst s)"
  by (cases s) (auto simp: process_options_def Let_def split: bind_splits if_splits dest!: process_signature_rx)

lemma ProcessPacket_parts:
  assumes "ProcessPacket E a p s = Some (st', d')"
  obtains seqn flags ok st2 d2 o' where "GetSeqn p = Some seqn" "Packet_GetPayload p = Some o'"
      "process_options E a flags p s = Some (ok, st2, d2)"
      "(if \<not> ok \<or> flags AND (PACKET_FLAG_CLOSE OR PACKET_FLAG_RESET) \<noteq> 0
        then Stream_Close E a (st2\<lparr>m_ReceiveQueue := enqueue o' p (m_ReceiveQueue st2), m_LastReceivedSequenceNumber := seqn,
          m_Status := eStreamStatusReset\<rparr>, d2)
        else Some (st2\<lparr>m_ReceiveQueue := enqueue o' p (m_ReceiveQueue st2), m_LastReceivedSequenceNumber := seqn\<rparr>, d2)) = Some (st', d')"
proof -
  obtain seqn flags r o' where g: "GetSeqn p = Some seqn" "GetFlags p = Some flags" "process_options E a flags p s = Some r"
      "Packet_GetPayload p = Some o'"
    using assms by (auto simp: ProcessPacket_def case_prod_beta split: bind_splits)
  obtain ok st2 d2 where r: "r = (ok, st2, d2)" by (cases r)
  show ?thesis
    by (rule that [OF g(1,4) g(3) [unfolded r]]) (use assms in \<open>auto simp: ProcessPacket_def g r Let_def enqueue_def split: if_split_asm\<close>)
qed

lemma ProcessPacket_rx:
  assumes "ProcessPacket E a p (st, d) = Some (st', d')"
  shows "\<exists>seqn o'. GetSeqn p = Some seqn \<and> Packet_GetPayload p = Some o' \<and>
    rx st' = (enqueue o' p (m_ReceiveQueue st), seqn, m_SavedPackets st)"
proof -
  obtain seqn flags ok st2 d2 o' where g: "GetSeqn p = Some seqn" "Packet_GetPayload p = Some o'"
      and s: "process_options E a flags p (st, d) = Some (ok, st2, d2)"
      and f: "(if \<not> ok \<or> flags AND (PACKET_FLAG_CLOSE OR PACKET_FLAG_RESET) \<noteq> 0
           then Stream_Close E a (st2\<lparr>m_ReceiveQueue := enqueue o' p (m_ReceiveQueue st2), m_LastReceivedSequenceNumber := seqn,
             m_Status := eStreamStatusReset\<rparr>, d2)
           else Some (st2\<lparr>m_ReceiveQueue := enqueue o' p (m_ReceiveQueue st2), m_LastReceivedSequenceNumber := seqn\<rparr>, d2)) = Some (st', d')"
    using assms by (rule ProcessPacket_parts)
  have "rx st2 = rx st" using process_options_rx [OF s] by simp
  then show ?thesis
    using f g by (auto simp: rx_def split: if_splits dest!: Stream_Close_rx)
qed

section \<open>Reassembly\<close>

text \<open>Packet \<open>p\<close> has number \<open>n\<close> and payload \<open>bs\<close>; number 0 is the one that synchronises.\<close>

definition carries :: "Packet \<Rightarrow> nat \<Rightarrow> bytes \<Rightarrow> bool" where
  "carries p n bs \<longleftrightarrow> GetSeqn p = Some (of_nat n) \<and> IsSYN p = Some (n = 0) \<and> plen p \<le> length (pbuf p) \<and> plen p < 2 ^ 64 \<and>
     (\<exists>o'. Packet_GetPayload p = Some o' \<and> o' \<le> plen p \<and> take (plen p - o') (drop o' (pbuf p)) = bs)"

text \<open>
  After the packets \<open>A\<close> have arrived, the first \<open>n\<close> have been queued and the later ones are saved; \<open>out\<close> is
  what the user has read.
\<close>

abbreviation max_seqn :: nat where "max_seqn \<equiv> 2 ^ 31 - 1"

definition receiving :: "(nat \<Rightarrow> bytes) \<Rightarrow> nat set \<Rightarrow> nat set \<Rightarrow> nat \<Rightarrow> bytes \<Rightarrow> Stream \<Rightarrow> bool" where
  "receiving pay A S n out st \<longleftrightarrow>
     m_LastReceivedSequenceNumber st = of_nat n - 1 \<and> {0..<n} \<subseteq> A \<and> S \<subseteq> A \<and> (\<forall>m \<in> A. m < max_seqn) \<and>
     smap_ok (m_SavedPackets st) \<and> fst ` set (m_SavedPackets st) = of_nat ` S \<and>
     (\<forall>(k, p) \<in> set (m_SavedPackets st). \<exists>m. k = of_nat m \<and> m < max_seqn \<and> carries p m (pay m)) \<and>
     (\<forall>p \<in> set (m_ReceiveQueue st). queued_ok p) \<and> out @ concat (map view (m_ReceiveQueue st)) = concat (map pay [0..<n])"

lemma of_nat_seqn:
  "m \<le> max_seqn \<Longrightarrow> unat (of_nat m :: u32) = m"
  "m \<le> max_seqn \<Longrightarrow> sint (of_nat m :: u32) = int m"
  by (simp_all add: unsigned_of_nat take_bit_nat_eq_self signed_of_nat signed_take_bit_int_eq_self)

lemma of_nat_seqn_inject: "m \<le> max_seqn \<Longrightarrow> n \<le> max_seqn \<Longrightarrow> (of_nat m :: u32) = of_nat n \<longleftrightarrow> m = n"
  using of_nat_seqn(1) by metis

lemma sint_last: "n \<le> max_seqn \<Longrightarrow> sint (of_nat n - 1 :: u32) = int n - 1"
proof (cases n)
  case (Suc k)
  then show "n \<le> max_seqn \<Longrightarrow> ?thesis" using of_nat_seqn(2) [of k] by simp
qed simp

lemma receiving_bound:
  assumes "receiving pay A S n out st"
  shows "n \<le> max_seqn"
proof (cases n)
  case (Suc k)
  then have "k \<in> A" "\<forall>m \<in> A. m < max_seqn" using assms by (auto simp: receiving_def)
  then show ?thesis using Suc by auto
qed simp

lemma receiving_rx: "rx st' = rx st \<Longrightarrow> receiving pay A S n out st' = receiving pay A S n out st"
  by (simp add: receiving_def rx_def)

lemma enqueue_ok:
  assumes "carries p n bs" and "Packet_GetPayload p = Some o'" and "\<forall>p \<in> set q. queued_ok p"
  shows "(\<forall>p \<in> set (enqueue o' p q). queued_ok p) \<and> concat (map view (enqueue o' p q)) = concat (map view q) @ bs"
  using assms by (auto simp: enqueue_def carries_def queued_ok_def Packet_GetLength_def view_def)

lemma process_next:
  assumes "receiving pay A S n out st" and "n < max_seqn" and "carries p n (pay n)" and "ProcessPacket E a p (st, d) = Some (st', d')"
  shows "receiving pay (insert n A) S (Suc n) out st'" "m_SavedPackets st' = m_SavedPackets st"
proof -
  obtain o' where o: "Packet_GetPayload p = Some o'" "rx st' = (enqueue o' p (m_ReceiveQueue st), of_nat n, m_SavedPackets st)"
    using ProcessPacket_rx [OF assms(4)] assms(3) by (auto simp: carries_def)
  then show "m_SavedPackets st' = m_SavedPackets st" by (simp add: rx_def)
  show "receiving pay (insert n A) S (Suc n) out st'"
    using assms(1,2) o enqueue_ok [OF assms(3) o(1), of "m_ReceiveQueue st"]
    by (auto simp: receiving_def rx_def atLeast0_lessThan_Suc simp flip: append_assoc)
qed

lemma process_saved_ok:
  assumes "receiving pay A {m \<in> A. n \<le> m} n out st" and "m_SavedPackets st = ps" and "process_saved E a ps (st, d) = Some (st', d')"
  shows "\<exists>n'. n \<le> n' \<and> receiving pay A {m \<in> A. n' < m} n' out st' \<and> n' \<notin> A"
  using assms
proof (induction ps arbitrary: n st d)
  case Nil
  then have "{m \<in> A. n \<le> m} = {}" by (auto simp: receiving_def)
  moreover then have "{m \<in> A. n < m} = {m \<in> A. n \<le> m}" "n \<notin> A" by auto
  ultimately show ?case using Nil by (intro exI [of _ n]) simp
next
  case (Cons e ps)
  obtain k p where e: "e = (k, p)" by (cases e)
  note R = Cons.prems(1) [unfolded receiving_def Cons.prems(2) e]
  have n: "n \<le> max_seqn" using receiving_bound [OF Cons.prems(1)] .
  have "insert k (fst ` set ps) = of_nat ` {m \<in> A. n \<le> m}" using R by simp
  then have "k \<in> of_nat ` {m \<in> A. n \<le> m}" by blast
  then obtain m where m: "k = of_nat m" "m \<in> A" "n \<le> m" by blast
  have mb: "m < max_seqn" using R m by auto
  show ?case
  proof (cases "k = m_LastReceivedSequenceNumber st + 1")
    case True
    then have "m = n" using m(1) mb n R of_nat_seqn_inject [of m n] by simp
    obtain m' where m': "k = of_nat m'" "m' < max_seqn" "carries p m' (pay m')" using R by auto
    then have "m' = n" using m(1) mb \<open>m = n\<close> of_nat_seqn_inject [of m' n] by simp
    then have c: "carries p n (pay n)" "n \<in> A" using m'(3) m(2) \<open>m = n\<close> by simp_all
    obtain st1 d1 where P: "ProcessPacket E a p (st\<lparr>m_SavedPackets := ps\<rparr>, d) = Some (st1, d1)"
        and rest: "process_saved E a ps (st1, d1) = Some (st', d')"
      using Cons.prems(3) True by (auto simp: e split: bind_splits)
    have inj: "of_nat ` {m \<in> A. n \<le> m} - {of_nat n} = (of_nat ` {m \<in> A. n < m} :: u32 set)"
    proof -
      have "inj_on (of_nat :: nat \<Rightarrow> u32) {m. m \<le> max_seqn}" by (rule inj_on_inverseI [of _ unat]) (simp add: of_nat_seqn)
      then have "(of_nat ` ({m \<in> A. n \<le> m} - {n}) :: u32 set) = of_nat ` {m \<in> A. n \<le> m} - of_nat ` {n}"
        by (rule inj_on_image_set_diff) (use R n in auto)
      moreover have "{m \<in> A. n \<le> m} - {n} = {m \<in> A. n < m}" by auto
      ultimately show ?thesis by simp
    qed
    have "k \<notin> fst ` set ps" using R by (auto simp: smap_ok_def)
    then have "fst ` set ps = fst ` set (m_SavedPackets st) - {k}" using Cons.prems(2) by (auto simp: e)
    also have "\<dots> = of_nat ` {m \<in> A. n < m}"
      using R m(1) \<open>m = n\<close> Cons.prems(2) e n inj by (simp add: le_less)
    finally have "receiving pay A {m \<in> A. n < m} n out (st\<lparr>m_SavedPackets := ps\<rparr>)"
      using R Cons.prems(2) by (auto simp: receiving_def e smap_ok_def)
    from process_next [OF this _ c(1) P] mb \<open>m = n\<close> c(2) have
      "receiving pay A {m \<in> A. Suc n \<le> m} (Suc n) out st1" "m_SavedPackets st1 = ps" by (auto simp: insert_absorb Suc_le_eq)
    from Cons.IH [OF this rest] show ?thesis by (auto intro: Suc_leD)
  next
    case False
    have "n \<notin> A"
    proof
      assume "n \<in> A"
      then have "of_nat n \<in> fst ` set ((k, p) # ps)" using R by auto
      moreover have "k \<noteq> of_nat n" using False R by simp
      ultimately have "k < of_nat n" using R by (auto simp: smap_ok_def)
      then show False using m n mb by (simp add: word_less_nat_alt of_nat_seqn)
    qed
    then have "{m \<in> A. n \<le> m} = {m \<in> A. n < m}" by (auto simp: le_less)
    then show ?thesis using Cons.prems False \<open>n \<notin> A\<close> by (intro exI [of _ n]) (simp add: e)
  qed
qed

lemma SavePacket_rx:
  assumes "SavePacket p st = Some st'"
  obtains k where "GetSeqn p = Some k" "rx st' = (m_ReceiveQueue st, m_LastReceivedSequenceNumber st, snd (map_insert k p (m_SavedPackets st)))"
  using assms by (auto simp: SavePacket_def packet_insert_def rx_def)

text \<open>The cases of \<open>HandleNextPacket\<close>, for the receiving half.\<close>

lemma HandleNextPacket_cases:
  assumes "Stream_HandleNextPacket E a p (st, d) = Some (st', d')"
  obtains (plain) "GetSeqn p = Some 0" "IsSYN p = Some False" "rx st' = rx st"
  | (inorder) seqn syn st2 d2 st3 d3 st4 d4 where "GetSeqn p = Some seqn" "IsSYN p = Some syn" "syn \<or> seqn = m_LastReceivedSequenceNumber st + 1"
      "rx st2 = rx st" "ProcessPacket E a p (st2, d2) = Some (st3, d3)" "process_saved E a (m_SavedPackets st3) (st3, d3) = Some (st4, d4)"
      "rx st' = rx st4"
  | (duplicate) seqn where "GetSeqn p = Some seqn" "IsSYN p = Some False" "sint seqn \<le> sint (m_LastReceivedSequenceNumber st)" "rx st' = rx st"
  | (later) seqn where "GetSeqn p = Some seqn" "IsSYN p = Some False" "seqn \<noteq> m_LastReceivedSequenceNumber st + 1"
      "sint seqn > sint (m_LastReceivedSequenceNumber st)"
      "rx st' = (m_ReceiveQueue st, m_LastReceivedSequenceNumber st, snd (map_insert seqn p (m_SavedPackets st)))"
proof -
  obtain rid noAck where g1: "GetReceiveStreamID p = Some rid" "IsNoAck p = Some noAck"
    using assms by (auto simp: Stream_HandleNextPacket_def Let_def split: bind_splits)
  let ?st1 = "st\<lparr>strNumReceivedBytes := strNumReceivedBytes st + Packet_GetLength p,
          m_SendStreamID := (if m_SendStreamID st = 0 then rid else m_SendStreamID st)\<rparr>"
  obtain z where A0: "(if noAck then Some (?st1, d) else ProcessAck E a p (?st1, d)) = Some z"
    using assms by (cases "if noAck then Some (?st1, d) else ProcessAck E a p (?st1, d)")
      (simp_all add: Stream_HandleNextPacket_def Let_def g1 split del: if_split)
  obtain st2 d2 where z: "z = (st2, d2)" by (cases z)
  note A = A0 [unfolded z]
  obtain seqn syn where g: "GetSeqn p = Some seqn" "IsSYN p = Some syn"
    using assms by (simp add: Stream_HandleNextPacket_def Let_def g1 A split: bind_splits split del: if_split)
  have r2: "rx st2 = rx st" using A by (auto split: if_splits dest!: ProcessAck_rx)
  then have eq: "m_LastReceivedSequenceNumber st2 = m_LastReceivedSequenceNumber st" "m_ReceiveQueue st2 = m_ReceiveQueue st" "m_SavedPackets st2 = m_SavedPackets st"
    by (simp_all add: rx_def)
  have H: "(if seqn = 0 \<and> \<not> syn then Some (st2, d2)
     else if syn \<or> seqn = m_LastReceivedSequenceNumber st2 + 1 then do {
       (st3, d3) \<leftarrow> ProcessPacket E a p (st2, d2);
       (st4, d4) \<leftarrow> process_saved E a (m_SavedPackets st3) (st3, d3);
       if m_Status st4 = eStreamStatusOpen then Some (st4\<lparr>m_IsAckSendScheduled := True\<rparr>, d4)
       else if syn then Stream_SendBuffer E a (st4, d4)
       else Some (st4, d4)
     }
     else if sint seqn \<le> sint (m_LastReceivedSequenceNumber st2) then SendQuickAck E (st2, d2)
     else do {
       st3 \<leftarrow> SavePacket p st2;
       if sint (m_LastReceivedSequenceNumber st3) \<ge> 0 then SendQuickAck E (st3\<lparr>m_IsAckSendScheduled := False\<rparr>, d2)
       else Some (st3\<lparr>m_IsAckSendScheduled := True\<rparr>, d2)
     }) = Some (st', d')"
    using assms by (simp add: Stream_HandleNextPacket_def Let_def g1 A g split del: if_split)
  show ?thesis
  proof (cases "seqn = 0 \<and> \<not> syn")
    case True
    then show ?thesis using H g r2 by (intro plain) (simp_all split: if_splits)
  next
    case False
    note F = False
    show ?thesis
    proof (cases "syn \<or> seqn = m_LastReceivedSequenceNumber st2 + 1")
      case True
      then obtain st3 d3 st4 d4 where P: "ProcessPacket E a p (st2, d2) = Some (st3, d3)"
          "process_saved E a (m_SavedPackets st3) (st3, d3) = Some (st4, d4)"
          and R: "(if m_Status st4 = eStreamStatusOpen then Some (st4\<lparr>m_IsAckSendScheduled := True\<rparr>, d4)
             else if syn then Stream_SendBuffer E a (st4, d4) else Some (st4, d4)) = Some (st', d')"
        using H F by (auto split: bind_splits simp: g)
      have "rx st' = rx st4" using R by (auto split: if_splits dest!: Stream_SendBuffer_rx)
      then show ?thesis using inorder g P r2 True eq by metis
    next
      case N: False
      show ?thesis
      proof (cases "sint seqn \<le> sint (m_LastReceivedSequenceNumber st2)")
        case True
        then show ?thesis using H F N g r2 eq by (intro duplicate [of seqn]) (auto split: if_splits dest!: SendQuickAck_rx)
      next
        case False
        then obtain st3 where S: "SavePacket p st2 = Some st3" and
            R: "(if sint (m_LastReceivedSequenceNumber st3) \<ge> 0 then SendQuickAck E (st3\<lparr>m_IsAckSendScheduled := False\<rparr>, d2)
               else Some (st3\<lparr>m_IsAckSendScheduled := True\<rparr>, d2)) = Some (st', d')"
          using H F N g by (auto split: if_splits bind_splits)
        have "rx st' = rx st3" using R by (auto split: if_splits dest!: SendQuickAck_rx)
        moreover have "rx st3 = (m_ReceiveQueue st2, m_LastReceivedSequenceNumber st2, snd (map_insert seqn p (m_SavedPackets st2)))"
          using S by (rule SavePacket_rx) (simp add: g)
        ultimately show ?thesis using later [of seqn] False N g eq by simp
      qed
    qed
  qed
qed

text \<open>A packet of the peer: one that carries its part of the data, or a plain acknowledgement.\<close>

definition plain_ack :: "Packet \<Rightarrow> bool" where
  "plain_ack p \<longleftrightarrow> GetSeqn p = Some 0 \<and> IsSYN p = Some False"

lemma arrive_plain:
  assumes "plain_ack p" and "Stream_HandleNextPacket E a p (st, d) = Some (st', d')"
  shows "rx st' = rx st"
  using assms by (auto simp: Stream_HandleNextPacket_def plain_ack_def Let_def split: bind_splits if_splits dest!: ProcessAck_rx)

lemma receiving_later:
  assumes R: "receiving pay A {k \<in> A. n < k} n out st" and m: "n < m" "m < max_seqn" and c: "carries p m (pay m)"
    and rx: "rx st' = (m_ReceiveQueue st, m_LastReceivedSequenceNumber st, snd (map_insert (of_nat m) p (m_SavedPackets st)))"
  shows "receiving pay (insert m A) {k \<in> insert m A. n < k} n out st'"
proof (cases "map_find (of_nat m) (m_SavedPackets st)")
  case (Some q)
  then have "of_nat m \<in> fst ` set (m_SavedPackets st)" by (force dest: map_find_mem)
  then obtain k where k: "of_nat m = (of_nat k :: u32)" "k \<in> A" "k < max_seqn" using R by (auto simp: receiving_def)
  then have "m \<in> A" using m of_nat_seqn_inject [of m k] by simp
  moreover have r: "rx st' = rx st" using rx Some by (simp add: map_insert_def rx_def)
  ultimately show ?thesis using R by (simp add: receiving_rx [OF r] insert_absorb)
next
  case None
  then have sv: "m_SavedPackets st' = map_put (of_nat m) p (m_SavedPackets st)"
    and eq: "m_ReceiveQueue st' = m_ReceiveQueue st" "m_LastReceivedSequenceNumber st' = m_LastReceivedSequenceNumber st"
    using rx by (simp_all add: map_insert_def rx_def)
  have ok: "smap_ok (m_SavedPackets st)" using R by (simp add: receiving_def)
  have new: "{e \<in> set (m_SavedPackets st). fst e \<noteq> of_nat m} = set (m_SavedPackets st)"
    using None by (force simp: map_find_def map_of_eq_None_iff)
  have st: "set (m_SavedPackets st') = insert (of_nat m, p) (set (m_SavedPackets st))"
    using set_map_put [OF ok, of "of_nat m" p] unfolding sv new by simp
  show ?thesis
    using R m c smap_ok_put [OF ok] unfolding receiving_def st eq by (auto simp: sv)
qed

lemma arrive_ok:
  assumes R: "receiving pay A {k \<in> A. n < k} n out st" and n: "n \<notin> A"
    and c: "carries p m (pay m)" "m < max_seqn" and syn: "m = 0 \<longrightarrow> 0 \<notin> A"
    and h: "Stream_HandleNextPacket E a p (st, d) = Some (st', d')"
  shows "\<exists>n'. receiving pay (insert m A) {k \<in> insert m A. n' < k} n' out st' \<and> n' \<notin> insert m A"
proof -
  have nb: "n \<le> max_seqn" using receiving_bound [OF R] .
  have last: "m_LastReceivedSequenceNumber st = of_nat n - 1" and nA: "{0..<n} \<subseteq> A" using R by (simp_all add: receiving_def)
  have s: "GetSeqn p = Some (of_nat m)" "IsSYN p = Some (m = 0)" using c by (simp_all add: carries_def)
  have mi: "sint (of_nat m :: u32) = int m" "sint (m_LastReceivedSequenceNumber st) = int n - 1"
    using c(2) nb by (simp_all add: last of_nat_seqn sint_last)
  have m0: "m = 0 \<longleftrightarrow> of_nat m = (0 :: u32)" using of_nat_seqn_inject [of m 0] c(2) by simp
  show ?thesis
    using h
  proof (cases rule: HandleNextPacket_cases)
    case plain
    then show ?thesis using s m0 by simp
  next
    case (inorder seqn sy st2 d2 st3 d3 st4 d4)
    have "m = n"
    proof (cases "m = 0")
      case True
      then show ?thesis using syn nA by (metis atLeastLessThan_iff gr0I le0 subsetD)
    next
      case False
      then show ?thesis using inorder(1-3) s last of_nat_seqn_inject [of m n] c(2) nb by simp
    qed
    have R2: "receiving pay A {k \<in> A. n < k} n out st2" using R by (simp add: receiving_rx [OF inorder(4)])
    have e: "{k \<in> insert n A. Suc n \<le> k} = {k \<in> A. n < k}" by auto
    have "receiving pay (insert n A) {k \<in> insert n A. Suc n \<le> k} (Suc n) out st3"
      using process_next(1) [OF R2 _ _ inorder(5)] c \<open>m = n\<close> e by simp
    from process_saved_ok [OF this refl inorder(6)] show ?thesis
      using \<open>m = n\<close> by (auto simp: receiving_rx [OF inorder(7)])
  next
    case (duplicate seqn)
    then have "m < n" using s mi by simp
    then have "m \<in> A" using nA by auto
    then show ?thesis using R n by (auto simp: receiving_rx [OF duplicate(4)] insert_absorb)
  next
    case (later seqn)
    then have "n \<le> m" "m \<noteq> n" using s mi last by auto
    then have "receiving pay (insert m A) {k \<in> insert m A. n < k} n out st'"
      using receiving_later [OF R _ c(2,1)] later(1,5) s by simp
    then show ?thesis using n \<open>m \<noteq> n\<close> by (intro exI [of _ n]) simp
  qed
qed

section \<open>Runs of a stream\<close>

text \<open>Everything that can happen to a stream: packets arrive, the user reads, sends or closes, timers fire, and work posted
  for stream \<open>a\<close> runs in any order.\<close>

datatype sop =
    Arrive Packet
  | Read nat
  | Write bytes
  | WriteAsync bytes nat
  | Close
  | RunPosted nat
  | ResendTimer bool
  | AckTimer

definition run_posted :: "'g senv \<Rightarrow> nat \<Rightarrow> nat \<Rightarrow> Stream \<times> 'g sdest \<Rightarrow> (Stream \<times> 'g sdest) option" where
  "run_posted E a i = (\<lambda>(st, d).
     let d1 = d\<lparr>tasks := take i (tasks d) @ drop (Suc i) (tasks d)\<rparr>
     in if i < length (tasks d) then
          (case tasks d ! i of
             TSendBuffer b \<Rightarrow> if b = a then Stream_SendBuffer E a (st, d1) else Some (st, d)
           | TSendPacket b p \<Rightarrow> if b = a then Stream_SendPacket E p (st, d1) else Some (st, d))
        else Some (st, d))"

fun stream_op :: "'g senv \<Rightarrow> nat \<Rightarrow> sop \<Rightarrow> Stream \<times> 'g sdest \<Rightarrow> (bytes \<times> Stream \<times> 'g sdest) option" where
  "stream_op E a (Arrive p) s = map_option (Pair []) (Stream_HandleNextPacket E a p s)"
| "stream_op E a (Read len) (st, d) = map_option (\<lambda>(bs, st'). (bs, st', d)) (ReadSome len st)"
| "stream_op E a (Write buf) s = Some ([], Stream_Send a buf s)"
| "stream_op E a (WriteAsync buf h) s = Some ([], AsyncSend a buf h s)"
| "stream_op E a Close s = map_option (Pair []) (Stream_Close E a s)"
| "stream_op E a (RunPosted i) s = map_option (Pair []) (run_posted E a i s)"
| "stream_op E a (ResendTimer aborted) s = map_option (Pair []) (HandleResendTimer E a aborted s)"
| "stream_op E a AckTimer s = map_option (Pair []) (HandleAckSendTimer E a s)"

fun stream_run :: "'g senv \<Rightarrow> nat \<Rightarrow> sop list \<Rightarrow> Stream \<times> 'g sdest \<Rightarrow> (bytes \<times> Stream \<times> 'g sdest) option" where
  "stream_run E a [] s = Some ([], s)"
| "stream_run E a (op # ops) s = do {
     (out, s1) \<leftarrow> stream_op E a op s;
     (outs, s2) \<leftarrow> stream_run E a ops s1;
     Some (out @ outs, s2)
   }"

text \<open>The numbers of the packets that arrived, and the number of times the stream was synchronised.\<close>

fun arrivals :: "sop list \<Rightarrow> Packet list" where
  "arrivals (Arrive p # ops) = p # arrivals ops"
| "arrivals (op # ops) = arrivals ops"
| "arrivals [] = []"

definition arrived :: "Packet list \<Rightarrow> nat set" where
  "arrived ps = {unat k |k p. p \<in> set ps \<and> \<not> plain_ack p \<and> GetSeqn p = Some k}"

definition syns :: "Packet list \<Rightarrow> nat" where
  "syns ps = length (filter (\<lambda>p. IsSYN p = Some True) ps)"

definition from_peer :: "(nat \<Rightarrow> bytes) \<Rightarrow> Packet \<Rightarrow> bool" where
  "from_peer pay p \<longleftrightarrow> plain_ack p \<or> (\<exists>m < max_seqn. carries p m (pay m))"

lemma run_posted_rx [rx_frame]: "run_posted E a i s = Some s' \<Longrightarrow> rx (fst s') = rx (fst s)"
  by (auto simp: run_posted_def Let_def case_prod_beta split: if_splits stask.splits dest: rx_frame)

lemma stream_op_keeps:
  assumes "stream_op E a op (st, d) = Some (out, st', d')" and "\<And>p. op \<noteq> Arrive p" and "\<And>n. op \<noteq> Read n"
  shows "rx st' = rx st \<and> out = []"
  using assms
proof (cases op)
  case (Write bs)
  then show ?thesis using assms Stream_Send_rx [of a bs "(st, d)"] by simp
next
  case (WriteAsync bs h)
  then show ?thesis using assms AsyncSend_rx [of a bs h "(st, d)"] by simp
qed (auto dest: rx_frame)

lemma arrived_Cons: "arrived (p # ps) = (if plain_ack p then {} else unat ` set_option (GetSeqn p)) \<union> arrived ps"
  by (cases "GetSeqn p") (auto simp: arrived_def)

lemma receive_run:
  assumes "receiving pay A {k \<in> A. n < k} n out st" and "n \<notin> A" and "stream_run E a ops (st, d) = Some (outs, st', d')"
    and "\<forall>p \<in> set (arrivals ops). from_peer pay p" and "syns (arrivals ops) + (if 0 \<in> A then 1 else 0) \<le> 1"
  shows "\<exists>n'. receiving pay (A \<union> arrived (arrivals ops)) {k \<in> A \<union> arrived (arrivals ops). n' < k} n' (out @ outs) st' \<and>
    n' \<notin> A \<union> arrived (arrivals ops)"
  using assms
proof (induction ops arbitrary: A n out st d outs)
  case Nil
  then show ?case by (auto simp: arrived_def)
next
  case (Cons op ops)
  obtain o1 st1 d1 o2 where op: "stream_op E a op (st, d) = Some (o1, st1, d1)"
      and run: "stream_run E a ops (st1, d1) = Some (o2, st', d')" "outs = o1 @ o2"
    using Cons.prems(3) by (auto split: bind_splits)
  consider (arrive) p where "op = Arrive p" | (read) len where "op = Read len" | (other) "\<And>p. op \<noteq> Arrive p" "\<And>n. op \<noteq> Read n"
    by blast
  then show ?case
  proof cases
    case arrive
    then have h: "Stream_HandleNextPacket E a p (st, d) = Some (st1, d1)" "o1 = []" using op by auto
    have prem: "\<forall>p \<in> set (arrivals ops). from_peer pay p" using Cons.prems(4) arrive by simp
    show ?thesis
    proof (cases "plain_ack p")
      case True
      have "receiving pay A {k \<in> A. n < k} n out st1" using Cons.prems(1) by (simp add: receiving_rx [OF arrive_plain [OF True h(1)]])
      from Cons.IH [OF this Cons.prems(2) run(1) prem] show ?thesis
        using Cons.prems(5) arrive True run(2) h(2) by (auto simp: arrived_Cons syns_def split: if_splits)
    next
      case False
      then obtain m where m: "carries p m (pay m)" "m < max_seqn" using Cons.prems(4) arrive by (auto simp: from_peer_def)
      have s: "GetSeqn p = Some (of_nat m)" "IsSYN p = Some (m = 0)" "unat (of_nat m :: u32) = m"
        using m of_nat_seqn(1) [of m] by (simp_all add: carries_def)
      obtain n1 where n1: "receiving pay (insert m A) {k \<in> insert m A. n1 < k} n1 out st1" "n1 \<notin> insert m A"
        using arrive_ok [OF Cons.prems(1,2) m _ h(1)] Cons.prems(5) arrive s by (auto simp: syns_def split: if_splits)
      have sy: "syns (arrivals ops) + (if 0 \<in> insert m A then 1 else 0) \<le> 1"
        using Cons.prems(5) arrive s by (auto simp: syns_def split: if_splits)
      from Cons.IH [OF n1 run(1) prem sy] show ?thesis
        using run(2) h(2) arrive False s by (simp add: arrived_Cons)
    qed
  next
    case read
    have q: "\<forall>p \<in> set (m_ReceiveQueue st). queued_ok p" using Cons.prems(1) by (simp add: receiving_def)
    obtain q' where q': "o1 = take len (concat (map view (m_ReceiveQueue st)))" "st1 = st\<lparr>m_ReceiveQueue := q'\<rparr>"
        "concat (map view q') = drop len (concat (map view (m_ReceiveQueue st)))" "\<forall>p \<in> set q'. queued_ok p"
      using ReadSome_eq [OF q, of len] op read by auto
    have "receiving pay A {k \<in> A. n < k} n (out @ o1) st1"
      using Cons.prems(1) q' by (simp add: receiving_def)
    from Cons.IH [OF this Cons.prems(2) run(1)] show ?thesis
      using Cons.prems(4,5) read run(2) by simp
  next
    case other
    note k = stream_op_keeps [OF op other]
    have arr: "arrivals (op # ops) = arrivals ops" using other(1) by (cases op) auto
    have "receiving pay A {k \<in> A. n < k} n out st1" using Cons.prems(1) k by (metis receiving_rx)
    from Cons.IH [OF this Cons.prems(2) run(1)] show ?thesis
      using Cons.prems(4,5) run(2) k arr by simp
  qed
qed

text \<open>
  C10. A stream delivers the data of its peer in order, whatever the network does: packets may arrive in any
  order, repeatedly or not at all (except that the initial packet comes once), and the
  user may read, write and close and timers fire in between. If \<open>n\<close> is the first number that has not
  arrived, then what was read followed by what is queued is exactly the data of the packets before \<open>n\<close>.
\<close>

theorem stream_in_order:
  assumes "stream_run E a ops (st, d) = Some (out, st', d')" and "rx st = ([], - 1, [])"
    and "\<forall>p \<in> set (arrivals ops). from_peer pay p" and "syns (arrivals ops) \<le> 1"
  shows "\<exists>n. {0..<n} \<subseteq> arrived (arrivals ops) \<and> n \<notin> arrived (arrivals ops) \<and>
    out @ concat (map view (m_ReceiveQueue st')) = concat (map pay [0..<n]) \<and>
    fst ` set (m_SavedPackets st') = of_nat ` {k \<in> arrived (arrivals ops). n < k}"
proof -
  have "receiving pay {} {k \<in> {}. 0 < k} 0 [] st" using assms(2) by (simp add: receiving_def rx_def)
  from receive_run [OF this _ assms(1,3)] show ?thesis using assms(4) by (auto simp: receiving_def)
qed

end
