(* ===== verification/Stream_History.thy ===== *)
theory Stream_History
  imports Stream_Receive
begin

text \<open>
  A history of what a stream hands to the network. The operations that reach \<open>SendPackets\<close> are written once more
  with the list of the packets they hand to it as an additional result; erasing the list gives back the
  operations of the code, which is proved for each of them. A run then has a history: all packets it ever handed
  over, first transmissions, repetitions and acknowledgements, in order.
\<close>

section \<open>Operations with a history\<close>

type_synonym 'g logged = "(Packet list \<times> Stream \<times> 'g sdest) option"

definition silent :: "(Stream \<times> 'g sdest) option \<Rightarrow> 'g logged" where
  "silent r = map_option (Pair []) r"

definition SendPackets_log :: "'g senv \<Rightarrow> Packet list \<Rightarrow> Stream \<times> 'g sdest \<Rightarrow> 'g logged" where
  "SendPackets_log E ps s = map_option (Pair ps) (Stream_SendPackets E ps s)"

definition SendBuffer_log :: "'g senv \<Rightarrow> nat \<Rightarrow> Stream \<times> 'g sdest \<Rightarrow> 'g logged" where
  "SendBuffer_log E a = (\<lambda>(st, d).
     let numMsgs = m_WindowSize st - int (length (m_SentPackets st))
     in if numMsgs \<le> 0 then Some ([], st, d)
        else do {
          let isNoAck = (sint (m_LastReceivedSequenceNumber st) < 0);
          (packets, st1, d1) \<leftarrow> send_loop E isNoAck (nat numMsgs) (st, d);
          let (st2, d2) =
                (case m_SendHandler st1 of
                   Some h \<Rightarrow> if m_SendEof st1
                     then (st1\<lparr>m_SendHandler := None\<rparr>, d1\<lparr>sevents := sevents d1 @ [SendHandlerCalled h SendSuccess]\<rparr>) else (st1, d1)
                 | None \<Rightarrow> (st1, d1));
          if packets = [] then Some ([], st2, d2)
          else do {
            let (ts, d3) = now_ms E d2;
            let packets1 = map (\<lambda>p. p\<lparr>sendTime := ts\<rparr>) packets;
            sent \<leftarrow> insert_all packets1 (m_SentPackets st2);
            (l, st4, d4) \<leftarrow> SendPackets_log E packets1 (st2\<lparr>m_IsAckSendScheduled := False, m_SentPackets := sent\<rparr>, d3);
            if m_Status st4 = eStreamStatusClosing \<and> m_SendEof st4 then map_option (Pair l) (SendClose E a (st4, d4)) else Some (l, st4, d4)
          }
        })"

definition SendPacket_log :: "'g senv \<Rightarrow> Packet \<Rightarrow> Stream \<times> 'g sdest \<Rightarrow> 'g logged" where
  "SendPacket_log E p = (\<lambda>(st, d). do {
     (l, st1, d1) \<leftarrow> SendPackets_log E [p] (st\<lparr>m_IsAckSendScheduled := False\<rparr>, d);
     if m_Status st1 = eStreamStatusOpen then do {
       sent \<leftarrow> packet_insert p (m_SentPackets st1);
       Some (l, st1\<lparr>m_SentPackets := sent\<rparr>, d1)
     }
     else Some (l, st1, d1)
   })"

definition SendQuickAck_log :: "'g senv \<Rightarrow> Stream \<times> 'g sdest \<Rightarrow> 'g logged" where
  "SendQuickAck_log E = (\<lambda>(st, d).
     if sint (last_seen st) < 0 then Some ([], st, d)
     else do {
       let (p, d1) = new_packet E d;
       p1 \<leftarrow> ack_packet p st;
       SendPackets_log E [p1] (st, d1)
     })"

definition ProcessAck_log :: "'g senv \<Rightarrow> nat \<Rightarrow> Packet \<Rightarrow> Stream \<times> 'g sdest \<Rightarrow> 'g logged" where
  "ProcessAck_log E a p = (\<lambda>(st, d). do {
     let (ts, d1) = now_ms E d;
     ackThrough \<leftarrow> GetAckThrough p;
     nackCount \<leftarrow> GetNACKCount p;
     nacks \<leftarrow> get_nacks p 0 (unat nackCount);
     (acknowledged, sent, st1) \<leftarrow> ack_loop ts ackThrough nacks (m_SentPackets st) st;
     let st2 = st1\<lparr>m_SentPackets := sent\<rparr>;
     (l, st3, d3) \<leftarrow> (if acknowledged then SendBuffer_log E a (st2\<lparr>m_NumResendAttempts := 0\<rparr>, d1) else Some ([], st2, d1));
     if m_Status st3 = eStreamStatusClosing then map_option (Pair l) (Stream_Close E a (st3, d3)) else Some (l, st3, d3)
   })"

definition HandleNextPacket_log :: "'g senv \<Rightarrow> nat \<Rightarrow> Packet \<Rightarrow> Stream \<times> 'g sdest \<Rightarrow> 'g logged" where
  "HandleNextPacket_log E a p = (\<lambda>(st, d). do {
     rid \<leftarrow> GetReceiveStreamID p;
     let st1 = st\<lparr>strNumReceivedBytes := strNumReceivedBytes st + Packet_GetLength p,
                  m_SendStreamID := (if m_SendStreamID st = 0 then rid else m_SendStreamID st)\<rparr>;
     noAck \<leftarrow> IsNoAck p;
     (l, st2, d2) \<leftarrow> (if noAck then Some ([], st1, d) else ProcessAck_log E a p (st1, d));
     seqn \<leftarrow> GetSeqn p;
     isSyn \<leftarrow> IsSYN p;
     map_option (\<lambda>(l', s'). (l @ l', s')) (
       if seqn = 0 \<and> \<not> isSyn then Some ([], st2, d2)
       else if isSyn \<or> seqn = m_LastReceivedSequenceNumber st2 + 1 then do {
         (st3, d3) \<leftarrow> ProcessPacket E a p (st2, d2);
         (st4, d4) \<leftarrow> process_saved E a (m_SavedPackets st3) (st3, d3);
         if m_Status st4 = eStreamStatusOpen then Some ([], st4\<lparr>m_IsAckSendScheduled := True\<rparr>, d4)
         else if isSyn then SendBuffer_log E a (st4, d4)
         else Some ([], st4, d4)
       }
       else if sint seqn \<le> sint (m_LastReceivedSequenceNumber st2) then SendQuickAck_log E (st2, d2)
       else do {
         st3 \<leftarrow> SavePacket p st2;
         if sint (m_LastReceivedSequenceNumber st3) \<ge> 0 then SendQuickAck_log E (st3\<lparr>m_IsAckSendScheduled := False\<rparr>, d2)
         else Some ([], st3\<lparr>m_IsAckSendScheduled := True\<rparr>, d2)
       })
   })"

definition HandleResendTimer_log :: "'g senv \<Rightarrow> nat \<Rightarrow> bool \<Rightarrow> Stream \<times> 'g sdest \<Rightarrow> 'g logged" where
  "HandleResendTimer_log E a aborted = (\<lambda>(st, d).
     if aborted then Some ([], st, d)
     else if m_NumResendAttempts st \<ge> MAX_NUM_RESEND_ATTEMPTS then silent (Stream_Close E a (st\<lparr>m_Status := eStreamStatusReset\<rparr>, d))
     else
       let (ts, d1) = now_ms E d;
           (sent, packets) = due_packets ts (m_RTO st) (m_SentPackets st);
           st1 = st\<lparr>m_SentPackets := sent\<rparr>
       in if packets = [] then Some ([], st1, d1)
          else SendPackets_log E packets
                 (change_route E (st1\<lparr>m_NumResendAttempts := m_NumResendAttempts st1 + 1, m_RTO := m_RTO st1 * 2\<rparr>, d1)))"

definition HandleAckSendTimer_log :: "'g senv \<Rightarrow> nat \<Rightarrow> Stream \<times> 'g sdest \<Rightarrow> 'g logged" where
  "HandleAckSendTimer_log E a = (\<lambda>(st, d).
     if m_IsAckSendScheduled st then
       if sint (m_LastReceivedSequenceNumber st) < 0 then silent (Stream_Close E a (st\<lparr>m_Status := eStreamStatusReset\<rparr>, d))
       else map_option (\<lambda>(l, st1, d1). (l, st1\<lparr>m_IsAckSendScheduled := False\<rparr>, d1))
              (if m_Status st = eStreamStatusOpen then SendQuickAck_log E (st, d) else Some ([], st, d))
     else Some ([], st, d))"

definition run_posted_log :: "'g senv \<Rightarrow> nat \<Rightarrow> nat \<Rightarrow> Stream \<times> 'g sdest \<Rightarrow> 'g logged" where
  "run_posted_log E a i = (\<lambda>(st, d).
     let d1 = d\<lparr>tasks := take i (tasks d) @ drop (Suc i) (tasks d)\<rparr>
     in if i < length (tasks d) then
          (case tasks d ! i of
             TSendBuffer b \<Rightarrow> if b = a then SendBuffer_log E a (st, d1) else Some ([], st, d)
           | TSendPacket b p \<Rightarrow> if b = a then SendPacket_log E p (st, d1) else Some ([], st, d))
        else Some ([], st, d))"

text \<open>An operation yields its history, what the user reads, and the new state.\<close>

fun stream_op_log :: "'g senv \<Rightarrow> nat \<Rightarrow> sop \<Rightarrow> Stream \<times> 'g sdest \<Rightarrow> (Packet list \<times> bytes \<times> Stream \<times> 'g sdest) option" where
  "stream_op_log E a (Arrive p) s = map_option (\<lambda>(l, s'). (l, [], s')) (HandleNextPacket_log E a p s)"
| "stream_op_log E a (Read len) s = map_option (Pair []) (stream_op E a (Read len) s)"
| "stream_op_log E a (Write buf) s = map_option (Pair []) (stream_op E a (Write buf) s)"
| "stream_op_log E a (WriteAsync buf h) s = map_option (Pair []) (stream_op E a (WriteAsync buf h) s)"
| "stream_op_log E a Close s = map_option (Pair []) (stream_op E a Close s)"
| "stream_op_log E a (RunPosted i) s = map_option (\<lambda>(l, s'). (l, [], s')) (run_posted_log E a i s)"
| "stream_op_log E a (ResendTimer aborted) s = map_option (\<lambda>(l, s'). (l, [], s')) (HandleResendTimer_log E a aborted s)"
| "stream_op_log E a AckTimer s = map_option (\<lambda>(l, s'). (l, [], s')) (HandleAckSendTimer_log E a s)"

fun stream_run_log :: "'g senv \<Rightarrow> nat \<Rightarrow> sop list \<Rightarrow> Stream \<times> 'g sdest \<Rightarrow> (Packet list \<times> bytes \<times> Stream \<times> 'g sdest) option" where
  "stream_run_log E a [] s = Some ([], [], s)"
| "stream_run_log E a (op # ops) s = do {
     (l, out, s1) \<leftarrow> stream_op_log E a op s;
     (ls, outs, s2) \<leftarrow> stream_run_log E a ops s1;
     Some (l @ ls, out @ outs, s2)
   }"

section \<open>Erasing the history\<close>

lemma silent_erase [simp]: "map_option snd (silent r) = r"
  by (cases r) (simp_all add: silent_def)

lemma SendPackets_erase: "map_option snd (SendPackets_log E ps s) = Stream_SendPackets E ps s"
  by (cases "Stream_SendPackets E ps s") (simp_all add: SendPackets_log_def)

lemma erase_pair [simp]: "map_option snd (map_option (Pair l) r) = r"
  by (cases r) simp_all

lemma erase_append [simp]: "map_option snd (map_option (\<lambda>p. (l @ fst p, snd p)) r) = map_option snd r"
  by (cases r) simp_all

lemma erase_if: "map_option snd (if b then x else y) = (if b then map_option snd x else map_option snd y)"
  by simp

lemma erase_bind: "map_option snd (Option.bind x f) = Option.bind x (\<lambda>y. map_option snd (f y))"
  by (cases x) simp_all

lemma erase_logged:
  assumes "map_option snd x = y" and "\<And>l s. f (l, s) = g s"
  shows "Option.bind x f = Option.bind y g"
  using assms by (cases x) auto

named_theorems erase "operations with a history are the operations of the code"

lemma SendBuffer_erase [erase]: "map_option snd (SendBuffer_log E a s) = Stream_SendBuffer E a s"
proof (cases s)
  case (Pair st d)
  have 1: "Option.bind (SendPackets_log E ps x) (\<lambda>y. if m_Status (fst (snd y)) = c \<and> m_SendEof (fst (snd y)) then SendClose E a (snd y) else Some (snd y)) =
      Option.bind (Stream_SendPackets E ps x) (\<lambda>p. if m_Status (fst p) = c \<and> m_SendEof (fst p) then SendClose E a p else Some p)"
    for ps x c
    by (rule erase_logged [OF SendPackets_erase]) simp
  show ?thesis
    by (simp add: Pair SendBuffer_log_def Stream_SendBuffer_def Let_def case_prod_unfold erase_bind erase_if 1 cong: if_cong)
qed

lemma SendPacket_erase [erase]: "map_option snd (SendPacket_log E p s) = Stream_SendPacket E p s"
  by (cases s; cases "Stream_SendPackets E [p] ((fst s)\<lparr>m_IsAckSendScheduled := False\<rparr>, snd s)")
    (auto simp: SendPacket_log_def Stream_SendPacket_def SendPackets_log_def erase_bind)

lemma SendQuickAck_erase [erase]: "map_option snd (SendQuickAck_log E s) = SendQuickAck E s"
  by (cases s) (simp add: SendQuickAck_log_def SendQuickAck_def Let_def case_prod_beta SendPackets_log_def erase_bind erase_if cong: if_cong)

lemma ProcessAck_erase [erase]: "map_option snd (ProcessAck_log E a p s) = ProcessAck E a p s"
proof (cases s)
  case (Pair st d)
  have 1: "map_option snd (if b then SendBuffer_log E a x else Some ([], y)) = (if b then Stream_SendBuffer E a x else Some y)" for b x y
    by (simp add: erase)
  show ?thesis
    unfolding Pair ProcessAck_log_def ProcessAck_def prod.case Let_def case_prod_beta erase_bind
    by (intro arg_cong2 [where f = Option.bind] refl ext erase_logged [OF 1]) (simp add: erase_if)
qed

lemma HandleNextPacket_erase [erase]: "map_option snd (HandleNextPacket_log E a p s) = Stream_HandleNextPacket E a p s"
proof (cases s)
  case (Pair st d)
  have 1: "map_option snd (if b then Some ([], x) else ProcessAck_log E a p y) = (if b then Some x else ProcessAck E a p y)" for b x y
    by (simp add: erase)
  show ?thesis
    unfolding Pair HandleNextPacket_log_def Stream_HandleNextPacket_def prod.case Let_def case_prod_beta erase_bind
    by (intro arg_cong2 [where f = Option.bind] refl ext erase_logged [OF 1]) (simp add: erase_bind erase_if erase cong: if_cong)
qed

lemma HandleResendTimer_erase [erase]: "map_option snd (HandleResendTimer_log E a b s) = HandleResendTimer E a b s"
  by (cases s) (simp add: HandleResendTimer_log_def HandleResendTimer_def Let_def case_prod_beta SendPackets_log_def erase_if)

lemma HandleAckSendTimer_erase [erase]: "map_option snd (HandleAckSendTimer_log E a s) = HandleAckSendTimer E a s"
proof -
  have "map_option snd (map_option (\<lambda>(l, st1, d1). (l, st1\<lparr>m_IsAckSendScheduled := False\<rparr>, d1)) r) =
      map_option (\<lambda>(st1, d1). (st1\<lparr>m_IsAckSendScheduled := False\<rparr>, d1)) (map_option snd r)" for r :: "'a logged"
    by (cases r) auto
  then show ?thesis
    by (cases s) (simp add: HandleAckSendTimer_log_def HandleAckSendTimer_def erase_if erase)
qed

lemma run_posted_erase [erase]: "map_option snd (run_posted_log E a i s) = run_posted E a i s"
  by (cases s) (simp add: run_posted_log_def run_posted_def Let_def case_prod_beta erase_if erase split: stask.split)

lemma stream_op_erase [erase]: "map_option snd (stream_op_log E a op s) = stream_op E a op s"
proof -
  have p: "map_option snd (map_option (\<lambda>(l, s'). (l, out, s')) r) = map_option (Pair out) (map_option snd r)" for r :: "'a logged" and out :: bytes
    by (cases r) auto
  show ?thesis by (cases op) (simp_all add: p erase)
qed

text \<open>A run with a history is a run of the code, and every run of the code has one.\<close>

lemma stream_run_erase: "map_option snd (stream_run_log E a ops s) = stream_run E a ops s"
proof (induction ops arbitrary: s)
  case (Cons op ops)
  show ?case
  proof (cases "stream_op_log E a op s")
    case None
    then have "stream_op E a op s = None" using stream_op_erase [of E a op s] by simp
    then show ?thesis using None by simp
  next
    case (Some r)
    obtain l out s1 where r: "r = (l, out, s1)" by (cases r)
    have 1: "stream_op E a op s = Some (out, s1)" using stream_op_erase [of E a op s] Some r by simp
    show ?thesis using Some Cons.IH [of s1, symmetric] by (cases "stream_run_log E a ops s1") (auto simp: r 1)
  qed
qed simp

end
