(* ===== verification/Stream_Send.thy ===== *)
theory Stream_Send
  imports Stream_History
begin

text \<open>
  The sending half of a stream: the layout of the packets it makes, and the invariant that the payloads of the
  packets numbered so far and the send buffer are what the user wrote, kept by every operation.
\<close>

section \<open>The packets of a sender\<close>

lemma packet_fields:
  assumes "pbuf p = be_bytes 4 (s :: u32) @ be_bytes 4 (r :: u32) @ be_bytes 4 n @ x @ [0, y] @ be_bytes 2 f @ be_bytes 2 o' @ rest" and "length x = 4"
  shows "GetSendStreamID p = Some s" "GetReceiveStreamID p = Some r" "GetSeqn p = Some n" "GetAckThrough p = Some (of_be x)" "GetNACKCount p = Some 0"
    "GetFlags p = Some f" "GetOptionSize p = Some o'" "GetOptionData p = Some 22" "Packet_GetPayload p = Some (22 + unat o')"
    "IsSYN p = Some (f AND PACKET_FLAG_SYNCHRONIZE \<noteq> 0)" "IsNoAck p = Some (f AND PACKET_FLAG_NO_ACK \<noteq> 0)"
proof -
  show c: "GetNACKCount p = Some 0" using assms by (simp add: GetNACKCount_def mem_get_def nth_append)
  have o: "GetOption p = Some 20" using c by (simp add: GetOption_def)
  show f: "GetFlags p = Some f" "GetOptionSize p = Some o'"
    using assms by (simp_all add: GetFlags_def GetOptionSize_def o mem_simps mem_read_def)
  show "GetOptionData p = Some 22" by (simp add: GetOptionData_def o)
  then show "Packet_GetPayload p = Some (22 + unat o')" by (simp add: Packet_GetPayload_def f)
  show "IsSYN p = Some (f AND PACKET_FLAG_SYNCHRONIZE \<noteq> 0)" "IsNoAck p = Some (f AND PACKET_FLAG_NO_ACK \<noteq> 0)"
    by (simp_all add: IsSYN_def IsNoAck_def f)
  show "GetSendStreamID p = Some s" "GetReceiveStreamID p = Some r" "GetSeqn p = Some n" "GetAckThrough p = Some (of_be x)"
    using assms by (simp_all add: GetSendStreamID_def GetReceiveStreamID_def GetSeqn_def GetAckThrough_def mem_simps mem_read_def)
qed

lemma carriesI:
  assumes "pbuf p = be_bytes 4 (s :: u32) @ be_bytes 4 (r :: u32) @ be_bytes 4 (of_nat n :: u32) @ x @ [0, y] @ be_bytes 2 f @ be_bytes 2 (o' :: u16) @ opts @ bs @ rest"
    and "length x = 4" and "length opts = unat o'" and "plen p = 22 + unat o' + length bs" and "length (pbuf p) < 2 ^ 64"
    and "f AND PACKET_FLAG_SYNCHRONIZE \<noteq> 0 \<longleftrightarrow> n = 0"
  shows "carries p n bs"
proof -
  let ?hd = "be_bytes 4 s @ be_bytes 4 r @ be_bytes 4 (of_nat n :: u32) @ x @ [0, y] @ be_bytes 2 f @ be_bytes 2 o' @ opts"
  obtain hd where "pbuf p = hd @ bs @ rest" "length hd = 22 + unat o'" using that [of ?hd] assms(1-3) by simp
  then have "take (plen p - (22 + unat o')) (drop (22 + unat o') (pbuf p)) = bs" "plen p \<le> length (pbuf p)" using assms(4) by simp_all
  then show ?thesis using assms(4-6) packet_fields [OF assms(1,2)] by (simp add: carries_def)
qed

text \<open>What is expected of the owner of a destination: a key pair, and that memory has the size asked for.\<close>

definition owner_ok :: "'g senv \<Rightarrow> bool" where
  "owner_ok E \<longleftrightarrow> (\<exists>t pub. dest_ok (sigs E) t (ownKeys E, pub)) \<and> (\<forall>n g. length (fst (garbage (rtr E) n g)) = n)"

lemma owner_keys:
  assumes "owner_ok E"
  obtains t sk pk i where "t \<le> 7" "idex_ok (m_Public (ownKeys E))" "GetFullLen (m_Public (ownKeys E)) \<le> 775" "SignatureLen t \<le> 512"
    "GetSignatureLen (m_Public (ownKeys E)) = Some (SignatureLen t, i)" "m_Signer (ownKeys E) = Some (t, sk)"
    "verifier_of (m_Public (ownKeys E)) = Some (Some (t, pk))" "sig_pair (sigs E) t sk pk"
proof -
  obtain t pub sk pk where d: "dest_ok (sigs E) t (ownKeys E, pub)" "m_Signer (ownKeys E) = Some (t, sk)"
      "verifier_of (m_Public (ownKeys E)) = Some (Some (t, pk))" "sig_pair (sigs E) t sk pk"
    using assms by (auto simp: owner_ok_def dest_ok_def)
  have "GetSignatureLen (m_Public (ownKeys E)) = Some (SignatureLen t, (m_Public (ownKeys E))\<lparr>m_Verifier := Some (t, pk)\<rparr>)"
    using d with_verifier_of [of "m_Public (ownKeys E)"] by (simp add: dest_ok_def GetSignatureLen_def)
  with d show ?thesis using that key_len_bounds(2) by (auto simp: dest_ok_def)
qed

lemma new_packet_ok: "owner_ok E \<Longrightarrow> length (pbuf (fst (new_packet E d))) = 4096 \<and> poffset (fst (new_packet E d)) = 0"
  by (simp add: new_packet_def newPacket_def sask_def ask_def owner_ok_def case_prod_beta Let_def)

lemma sign_ok:
  assumes "m_Signer (ownKeys E) = Some (t, sk)" and "sig_pair (sigs E) t sk pk" and "sask (PrivateKeys_Sign (sigs E) data (ownKeys E)) d = (r, d')"
  obtains sig where "r = Some sig" "length sig = SignatureLen t" "verifyWith (sigs E) t pk data sig" "router_only d d'"
proof -
  obtain sig g where s: "signWith (sigs E) t sk data (world (rs d)) = (sig, g)" by (cases "signWith (sigs E) t sk data (world (rs d))")
  have "length sig = SignatureLen t" "verifyWith (sigs E) t pk data sig" using assms(2) s by (metis sig_pair_def fst_conv)+
  moreover have "router_only d d'" using assms(3) sask_router_only by (metis router_only_refl snd_conv)
  ultimately show ?thesis using that assms(1,3) s by (auto simp: sask_def ask_def PrivateKeys_Sign_def case_prod_beta Let_def)
qed

lemma packet_head_eq:
  obtains x y where "packet_head b st = be_bytes 4 (m_SendStreamID st) @ be_bytes 4 (m_RecvStreamID st) @ be_bytes 4 (m_SequenceNumber st) @ x @ [0, y]"
    and "length x = 4"
  by (auto simp: packet_head_def intro: that)

lemma length_packet_head [simp]: "length (packet_head b st) = 18"
  by (simp add: packet_head_def)

lemma length_ss_read: "length (fst (ss_read n st)) \<le> n"
  by (simp add: ss_read_def)

lemma be_bytes_0: "be_bytes n (0 :: 'a::len word) = le_bytes n (0 :: 'a::len word)"
  by (simp add: le_bytes_def rev_map [symmetric] map_replicate_const)

lemma data_packet_layout:
  assumes "data_packet b p st = Some (q, st')"
  shows "\<exists>rest. pbuf q = packet_head b st @ be_bytes 2 (0 :: u16) @ be_bytes 2 (0 :: u16) @ fst (ss_read 1708 st) @ rest"
    "plen q = 22 + length (fst (ss_read 1708 st))" "length (pbuf q) = length (pbuf p)" "st' = snd (ss_read 1708 st)" "poffset q = poffset p"
  using assms
  by (auto simp: data_packet_def case_prod_beta Let_def mem_write_Some_iff be_bytes_0 split: bind_splits)

lemma data_packet_carries:
  assumes "data_packet b p st = Some (q, st')" and "length (pbuf p) = 4096" and "m_SequenceNumber st = of_nat n" and "n \<noteq> 0"
  shows "carries q n (fst (ss_read 1708 st))"
proof -
  note l = data_packet_layout [OF assms(1)]
  obtain x y where h: "packet_head b st = be_bytes 4 (m_SendStreamID st) @ be_bytes 4 (m_RecvStreamID st) @ be_bytes 4 (m_SequenceNumber st) @ x @ [0, y]"
    "length x = 4" by (rule packet_head_eq)
  obtain rest where "pbuf q = packet_head b st @ be_bytes 2 (0 :: u16) @ be_bytes 2 (0 :: u16) @ fst (ss_read 1708 st) @ rest" using l(1) by blast
  then have "pbuf q = be_bytes 4 (m_SendStreamID st) @ be_bytes 4 (m_RecvStreamID st) @ be_bytes 4 (of_nat n :: u32) @ x @ [0, y] @
      be_bytes 2 (0 :: u16) @ be_bytes 2 (0 :: u16) @ [] @ fst (ss_read 1708 st) @ rest" using h assms(3) by simp
  then show ?thesis by (rule carriesI) (use h l(2,3) assms(2,4) in simp_all)
qed

lemma SendClose_layout:
  assumes "owner_ok E" and "SendClose E a (st, d) = Some (st', d')"
  obtains q x y t sig rest d2 where "st' = st\<lparr>m_SequenceNumber := m_SequenceNumber st + 1\<rparr>" "router_only d d2"
    "d' = d2\<lparr>tasks := tasks d @ [TSendPacket a q]\<rparr>" "t \<le> 7" "length sig = SignatureLen t" "length x = 4"
    "pbuf q = be_bytes 4 (m_SendStreamID st) @ be_bytes 4 (m_RecvStreamID st) @ be_bytes 4 (m_SequenceNumber st) @ x @ [0, y] @
      be_bytes 2 (PACKET_FLAG_CLOSE OR PACKET_FLAG_SIGNATURE_INCLUDED) @ be_bytes 2 (of_nat (SignatureLen t) :: u16) @ sig @ [] @ rest"
    "plen q = 22 + SignatureLen t" "length (pbuf q) = 4096" "poffset q = 0"
proof -
  from assms(1) obtain t sk pk i where k: "t \<le> 7" "SignatureLen t \<le> 512" "GetSignatureLen (m_Public (ownKeys E)) = Some (SignatureLen t, i)"
      "m_Signer (ownKeys E) = Some (t, sk)" "sig_pair (sigs E) t sk pk" by (rule owner_keys)
  let ?L = "SignatureLen t"
  obtain p d1 where p: "new_packet E d = (p, d1)" by (cases "new_packet E d")
  have lp: "length (pbuf p) = 4096" "poffset p = 0" "router_only d d1"
    using new_packet_ok [OF assms(1), of d] new_packet_router_only [of d E d] p by simp_all
  define A where "A = be_bytes 4 (m_SendStreamID st) @ be_bytes 4 (m_RecvStreamID st) @ be_bytes 4 (m_SequenceNumber st) @
             be_bytes 4 (m_LastReceivedSequenceNumber st) @ [0]"
  define B where "B = be_bytes 2 (PACKET_FLAG_CLOSE OR PACKET_FLAG_SIGNATURE_INCLUDED) @ be_bytes 2 (of_nat ?L :: u16)"
  have lA: "length A = 17" and lB: "length B = 4" by (simp_all add: A_def B_def)
  obtain y rest where y: "drop 17 (pbuf p) = y # take (4 + ?L) (drop 18 (pbuf p)) @ rest" "length rest = 4096 - 22 - ?L"
  proof
    show "drop 17 (pbuf p) = pbuf p ! 17 # take (4 + ?L) (drop 18 (pbuf p)) @ drop (4 + ?L) (drop 18 (pbuf p))"
      using Cons_nth_drop_Suc [of 17 "pbuf p"] lp(1) by (simp only: append_take_drop_id) simp
    show "length (drop (4 + ?L) (drop 18 (pbuf p))) = 4096 - 22 - ?L" using lp(1) by simp
  qed
  have w1: "mem_write 0 A (pbuf p) = Some ((A @ [y]) @ take (4 + ?L) (drop 18 (pbuf p)) @ rest)"
    using lp(1) lA y by (simp add: mem_write_def)
  have w2: "mem_write 18 (B @ replicate ?L 0) ((A @ [y]) @ take (4 + ?L) (drop 18 (pbuf p)) @ rest) = Some ((A @ [y]) @ (B @ replicate ?L 0) @ rest)"
    by (rule mem_write_append) (use lp(1) lA lB k(2) in simp_all)
  have r: "mem_read 0 (22 + ?L) ((A @ [y]) @ (B @ replicate ?L 0) @ rest) = Some (A @ [y] @ B @ replicate ?L 0)"
    using lA lB mem_read_prefix [of "22 + ?L" "A @ [y] @ B @ replicate ?L 0" rest] by simp
  obtain sg d2 where s: "sask (PrivateKeys_Sign (sigs E) (A @ [y] @ B @ replicate ?L 0) (ownKeys E)) d1 = (sg, d2)"
    by (cases "sask (PrivateKeys_Sign (sigs E) (A @ [y] @ B @ replicate ?L 0) (ownKeys E)) d1")
  from sign_ok [OF k(4,5) s] obtain sig where sig: "sg = Some sig" "length sig = ?L" "router_only d1 d2" .
  have w3: "mem_write 22 sig ((A @ [y]) @ (B @ replicate ?L 0) @ rest) = Some ((A @ [y] @ B) @ sig @ rest)"
    using mem_write_append [of 22 "A @ [y] @ B" sig "replicate ?L 0" rest] lA lB sig(2) by simp
  have f: "SendClose E a (st, d) = do {
      b1 \<leftarrow> mem_write 0 A (pbuf p);
      b2 \<leftarrow> mem_write 18 (B @ replicate ?L 0) b1;
      signed \<leftarrow> mem_read 0 (22 + ?L) b2;
      let (sig, d2) = sask (PrivateKeys_Sign (sigs E) signed (ownKeys E)) d1;
      b3 \<leftarrow> (case sig of Some bs \<Rightarrow> mem_write 22 bs b2 | None \<Rightarrow> Some b2);
      Some (st\<lparr>m_SequenceNumber := m_SequenceNumber st + 1\<rparr>, d2\<lparr>tasks := tasks d2 @ [TSendPacket a (p\<lparr>pbuf := b3, plen := 22 + ?L\<rparr>)]\<rparr>)
    }"
    by (simp add: SendClose_def p k(3) A_def B_def Let_def)
  have e: "(st', d') = (st\<lparr>m_SequenceNumber := m_SequenceNumber st + 1\<rparr>,
      d2\<lparr>tasks := tasks d2 @ [TSendPacket a (p\<lparr>pbuf := (A @ [y] @ B) @ sig @ rest, plen := 22 + ?L\<rparr>)]\<rparr>)"
    using assms(2) unfolding f by (simp add: w1 w2 [simplified] r [simplified] s [simplified] sig(1) w3 [simplified])
  show ?thesis
    by (rule that [of d2 "p\<lparr>pbuf := (A @ [y] @ B) @ sig @ rest, plen := 22 + ?L\<rparr>" t sig _ y rest])
       (use e k lp sig y(2) lA lB router_only_trans [OF lp(3) sig(3)] router_onlyD [OF router_only_trans [OF lp(3) sig(3)]]
        in \<open>simp_all add: A_def B_def\<close>)
qed

abbreviation syn_flags :: "bool \<Rightarrow> u16" where
  "syn_flags isNoAck \<equiv> PACKET_FLAG_SYNCHRONIZE OR PACKET_FLAG_FROM_INCLUDED OR PACKET_FLAG_SIGNATURE_INCLUDED OR
     PACKET_FLAG_MAX_PACKET_SIZE_INCLUDED OR (if isNoAck then PACKET_FLAG_NO_ACK else 0)"

lemma syn_packet_layout:
  assumes "owner_ok E" and "length (pbuf p) = 4096"
  obtains q st' d' t sk pk sig opt n rest where "syn_packet E b p (st, d) = Some (q, st', d')"
    "m_Signer (ownKeys E) = Some (t, sk)" "t \<le> 7" "verifier_of (m_Public (ownKeys E)) = Some (Some (t, pk))" "length sig = SignatureLen t"
    "opt = be_bytes 2 (of_nat (GetFullLen (m_Public (ownKeys E)) + SignatureLen t + 2) :: u16)" "n \<le> 1706"
    "pbuf q = packet_head b st @ be_bytes 2 (syn_flags b) @ opt @ (idex_bytes (m_Public (ownKeys E)) @ be_bytes 2 (1730 :: u16) @ sig) @
      fst (ss_read n st) @ rest"
    "verifyWith (sigs E) t pk (packet_head b st @ be_bytes 2 (syn_flags b) @ opt @ idex_bytes (m_Public (ownKeys E)) @ be_bytes 2 (1730 :: u16) @
      replicate (SignatureLen t) 0 @ fst (ss_read n st)) sig"
    "plen q = 24 + GetFullLen (m_Public (ownKeys E)) + SignatureLen t + length (fst (ss_read n st))" "length (pbuf q) = 4096" "poffset q = poffset p"
    "st' = (snd (ss_read n st))\<lparr>m_Status := eStreamStatusOpen\<rparr>" "router_only d d'"
proof -
  let ?i = "m_Public (ownKeys E)"
  from assms(1) obtain t sk pk i where k: "t \<le> 7" "idex_ok ?i" "GetFullLen ?i \<le> 775" "SignatureLen t \<le> 512"
      "GetSignatureLen ?i = Some (SignatureLen t, i)" "m_Signer (ownKeys E) = Some (t, sk)" "verifier_of ?i = Some (Some (t, pk))" "sig_pair (sigs E) t sk pk"
    by (rule owner_keys)
  define L G where "L = SignatureLen t" and "G = GetFullLen ?i"
  have LG: "L \<le> 512" "G \<le> 775" using k by (simp_all add: L_def G_def)
  define opt where "opt = be_bytes 2 (of_nat (G + L + 2) :: u16)"
  define H where "H = packet_head b st @ be_bytes 2 (syn_flags b) @ opt"
  define I M where "I = idex_bytes ?i" and "M = be_bytes 2 (1730 :: u16)"
  define n where "n = 1730 - (24 + G + L)"
  define data st1 where "data = fst (ss_read n st)" and "st1 = snd (ss_read n st)"
  have l: "length H = 22" "length I = G" "length M = 2" "length data \<le> n"
    using length_idex_bytes [OF k(2)] length_ss_read [of n st] by (simp_all add: H_def I_def M_def opt_def G_def data_def)
  have nb: "n \<le> 1706" "24 + G + L + n = 1730" using LG by (simp_all add: n_def)
  define mem where "mem = pbuf p"
  have lm: "length mem = 4096" using assms(2) by (simp add: mem_def)
  have ss: "ss_read (size_sub STREAMING_MTU (22 + G + 2 + L)) st = (data, st1)"
    using LG by (simp add: data_def st1_def n_def size_sub_def)
  have f: "syn_packet E b p (st, d) = do {
      b1 \<leftarrow> mem_write 0 H mem;
      (l, b2) \<leftarrow> map_option (Pair G) (mem_write 22 I b1);
      b3 \<leftarrow> mem_write (22 + G) (M @ replicate L 0) b2;
      b4 \<leftarrow> mem_write (22 + G + 2 + L) data b3;
      signed \<leftarrow> mem_read 0 (22 + G + 2 + L + length data) b4;
      let (sig, d1) = sask (PrivateKeys_Sign (sigs E) signed (ownKeys E)) d;
      b5 \<leftarrow> (case sig of Some bs \<Rightarrow> mem_write (22 + G + 2) bs b4 | None \<Rightarrow> Some b4);
      Some (p\<lparr>pbuf := b5, plen := 22 + G + 2 + L + length data\<rparr>, st1\<lparr>m_Status := eStreamStatusOpen\<rparr>, d1)
    }"
    unfolding syn_packet_def prod.case Let_def k(5) L_def [symmetric] G_def [symmetric] ToBuffer_eq [OF k(2)] bind.bind_lunit ss
      mem_def [symmetric] I_def [symmetric]
    by (simp add: H_def M_def opt_def)
  have w1: "mem_write 0 H mem = Some (H @ drop 22 mem)" using l lm by (simp add: mem_write_def)
  have w2: "mem_write 22 I (H @ drop 22 mem) = Some (H @ I @ drop (22 + G) mem)"
    using l lm LG by (simp add: mem_write_def add.commute)
  have w3: "mem_write (22 + G) (M @ replicate L 0) (H @ I @ drop (22 + G) mem) = Some (H @ I @ M @ replicate L 0 @ drop (24 + G + L) mem)"
    using l lm LG by (simp add: mem_write_def add.commute add.left_commute)
  have w4: "mem_write (22 + G + 2 + L) data (H @ I @ M @ replicate L 0 @ drop (24 + G + L) mem) =
      Some (H @ I @ M @ replicate L 0 @ data @ drop (24 + G + L + length data) mem)"
    using l lm nb by (simp add: mem_write_def add.commute add.left_commute)
  let ?S = "H @ I @ M @ replicate L 0 @ data" let ?rest = "drop (24 + G + L + length data) mem"
  have r: "mem_read 0 (22 + G + 2 + L + length data) (H @ I @ M @ replicate L 0 @ data @ ?rest) = Some ?S"
    using mem_read_prefix [of "22 + G + 2 + L + length data" ?S ?rest] l by simp
  obtain sg d2 where s: "sask (PrivateKeys_Sign (sigs E) ?S (ownKeys E)) d = (sg, d2)" by (cases "sask (PrivateKeys_Sign (sigs E) ?S (ownKeys E)) d")
  from sign_ok [OF k(6,8) s] obtain sig where sig: "sg = Some sig" "length sig = L" "verifyWith (sigs E) t pk ?S sig" "router_only d d2"
    unfolding L_def .
  have w5: "mem_write (22 + G + 2) sig (H @ I @ M @ replicate L 0 @ data @ ?rest) = Some (H @ I @ M @ sig @ data @ ?rest)"
    using mem_write_append [of "22 + G + 2" "H @ I @ M" sig "replicate L 0" "data @ ?rest"] l sig(2) by simp
  let ?q = "p\<lparr>pbuf := H @ I @ M @ sig @ data @ ?rest, plen := 22 + G + 2 + L + length data\<rparr>"
  have e: "syn_packet E b p (st, d) = Some (?q, st1\<lparr>m_Status := eStreamStatusOpen\<rparr>, d2)"
    unfolding f w1 bind.bind_lunit w2 option.map prod.case w3 w4 r Let_def s sig(1) option.case w5 by (rule refl)
  show ?thesis
    by (rule that [of ?q "st1\<lparr>m_Status := eStreamStatusOpen\<rparr>" d2 t sk pk sig opt n ?rest])
       (use e k(1,6,7) sig nb l lm LG in \<open>simp_all add: L_def G_def opt_def H_def I_def M_def data_def st1_def\<close>)
qed

lemma unat_u16: "n < 65536 \<Longrightarrow> unat (of_nat n :: u16) = n"
  by (simp add: unsigned_of_nat take_bit_nat_eq_self)

lemma syn_packet_carries:
  assumes "owner_ok E" and "length (pbuf p) = 4096" and "poffset p = 0" and "syn_packet E b p (st, d) = Some (q, st', d')" and "m_SequenceNumber st = 0"
  obtains n where "carries q 0 (fst (ss_read n st))" "poffset q = 0" "st' = (snd (ss_read n st))\<lparr>m_Status := eStreamStatusOpen\<rparr>" "router_only d d'"
proof -
  from assms(1,2) obtain q1 st1 d1 t sk pk sig opt n rest where e: "syn_packet E b p (st, d) = Some (q1, st1, d1)" and l0: "t \<le> 7" "length sig = SignatureLen t"
    "opt = be_bytes 2 (of_nat (GetFullLen (m_Public (ownKeys E)) + SignatureLen t + 2) :: u16)" "n \<le> 1706"
    "pbuf q1 = packet_head b st @ be_bytes 2 (syn_flags b) @ opt @ (idex_bytes (m_Public (ownKeys E)) @ be_bytes 2 (1730 :: u16) @ sig) @
      fst (ss_read n st) @ rest"
    "plen q1 = 24 + GetFullLen (m_Public (ownKeys E)) + SignatureLen t + length (fst (ss_read n st))" "length (pbuf q1) = 4096" "poffset q1 = poffset p"
    "st1 = (snd (ss_read n st))\<lparr>m_Status := eStreamStatusOpen\<rparr>" "router_only d d1"
    by (rule syn_packet_layout)
  have "q1 = q" "st1 = st'" "d1 = d'" using e assms(4) by simp_all
  note l = l0 [unfolded this]
  let ?G = "GetFullLen (m_Public (ownKeys E))" and ?L = "SignatureLen t"
  have GL: "?G \<le> 775" "length (idex_bytes (m_Public (ownKeys E))) = ?G" "?L \<le> 512"
    using assms(1) length_idex_bytes l(1) key_len_bounds(2) by (auto simp: owner_ok_def dest_ok_def)
  obtain o' :: u16 where o': "opt = be_bytes 2 o'" "unat o' = ?G + ?L + 2"
    using that [of "of_nat (?G + ?L + 2)"] l(3) unat_u16 [of "?G + ?L + 2"] GL by simp
  obtain x y where h: "packet_head b st = be_bytes 4 (m_SendStreamID st) @ be_bytes 4 (m_RecvStreamID st) @ be_bytes 4 (m_SequenceNumber st) @ x @ [0, y]"
    "length x = 4" by (rule packet_head_eq)
  have "pbuf q = be_bytes 4 (m_SendStreamID st) @ be_bytes 4 (m_RecvStreamID st) @ be_bytes 4 (of_nat 0 :: u32) @ x @ [0, y] @
      be_bytes 2 (syn_flags b) @ be_bytes 2 o' @ (idex_bytes (m_Public (ownKeys E)) @ be_bytes 2 (1730 :: u16) @ sig) @
      fst (ss_read n st) @ rest" using h l(5) o'(1) assms(5) by simp
  then have "carries q 0 (fst (ss_read n st))"
    by (rule carriesI) (use h GL o'(2) l(2,6,7) in \<open>simp_all\<close>)
  then show ?thesis using that l(8-10) assms(3) by simp
qed

section \<open>The packets that acknowledge\<close>

lemma get_nacks_layout:
  assumes "pbuf q = pre @ concat (map (be_bytes 4) ns) @ rest" and "length pre = 17 + 4 * i"
  shows "get_nacks q i (length ns) = Some ns"
  using assms
proof (induction ns arbitrary: i pre)
  case (Cons k ns)
  have "GetNACK i q = Some k" using Cons.prems by (simp add: GetNACK_def mem_simps mem_read_def)
  moreover have "get_nacks q (i + 1) (length ns) = Some ns" using Cons.prems by (intro Cons.IH [of "pre @ be_bytes 4 k"]) simp_all
  ultimately show ?case by simp
qed simp

text \<open>What an acknowledgement says: the number it acknowledges and the numbers it excludes.\<close>

definition ack_says :: "Packet \<Rightarrow> u32 \<Rightarrow> u32 list \<Rightarrow> bool" where
  "ack_says q t ns \<longleftrightarrow> GetAckThrough q = Some t \<and> (\<exists>c. GetNACKCount q = Some c \<and> get_nacks q 0 (unat c) = Some ns)"

lemma ack_packet_layout:
  assumes "length (pbuf p) = 4096" and "length ns < 256"
    and "(if sint (last_seen st) > sint (m_LastReceivedSequenceNumber st)
            then fill_nacks (m_SavedPackets st) (m_LastReceivedSequenceNumber st + 1) [] else ([], None)) = (ns, changed)"
  shows "\<exists>q. ack_packet p st = Some q \<and> ack_says q (case changed of Some n \<Rightarrow> n | None \<Rightarrow> last_seen st) ns \<and> plain_ack q \<and> length (pbuf q) = 4096"
proof -
  let ?t = "case changed of Some n \<Rightarrow> n | None \<Rightarrow> last_seen st" and ?n = "length ns"
  let ?A = "be_bytes 4 (m_SendStreamID st) @ be_bytes 4 (m_RecvStreamID st) @ le_bytes 4 (0 :: u32) @ be_bytes 4 ?t @ [of_nat ?n] @ concat (map (be_bytes 4) ns)"
  have lc: "length (concat (map (be_bytes 4) ms)) = 4 * length ms" for ms :: "u32 list" by (induction ms) simp_all
  have lA: "length ?A = 17 + 4 * ?n" using lc [of ns] by simp
  have w1: "mem_write 0 ?A (pbuf p) = Some (?A @ drop (17 + 4 * ?n) (pbuf p))" using lA assms(1,2) by (simp add: mem_write_def)
  obtain y rest where y: "drop (17 + 4 * ?n) (pbuf p) = y # take 4 (drop (18 + 4 * ?n) (pbuf p)) @ rest" "length rest = 4074 - 4 * ?n"
  proof
    show "drop (17 + 4 * ?n) (pbuf p) = pbuf p ! (17 + 4 * ?n) # take 4 (drop (18 + 4 * ?n) (pbuf p)) @ drop 4 (drop (18 + 4 * ?n) (pbuf p))"
      using Cons_nth_drop_Suc [of "17 + 4 * ?n" "pbuf p"] assms(1,2) by (simp only: append_take_drop_id) simp
    show "length (drop 4 (drop (18 + 4 * ?n) (pbuf p))) = 4074 - 4 * ?n" using assms(1) by simp
  qed
  let ?Z = "le_bytes 2 (0 :: u16) @ le_bytes 2 (0 :: u16)"
  have w2: "mem_write (18 + 4 * ?n) ?Z (?A @ drop (17 + 4 * ?n) (pbuf p)) = Some ((?A @ [y]) @ ?Z @ rest)"
    unfolding y(1) using mem_write_append [of "18 + 4 * ?n" "?A @ [y]" ?Z "take 4 (drop (18 + 4 * ?n) (pbuf p))" rest] lA assms(1,2) by simp
  define q where "q = p\<lparr>pbuf := (?A @ [y]) @ ?Z @ rest, plen := 22 + 4 * ?n\<rparr>"
  have e: "ack_packet p st = Some q"
    using assms(3) w1 w2 by (simp add: ack_packet_def Let_def q_def split del: if_split)
  have pq: "pbuf q = (be_bytes 4 (m_SendStreamID st) @ be_bytes 4 (m_RecvStreamID st) @ le_bytes 4 (0 :: u32) @ be_bytes 4 ?t @ [of_nat ?n]) @
      concat (map (be_bytes 4) ns) @ [y] @ ?Z @ rest" by (simp add: q_def)
  have c: "GetNACKCount q = Some (of_nat ?n)" by (simp add: pq GetNACKCount_def mem_get_def nth_append)
  have un: "unat (of_nat ?n :: byte) = ?n" using assms(2) by (simp add: unsigned_of_nat take_bit_nat_eq_self)
  have nk: "get_nacks q 0 ?n = Some ns" by (rule get_nacks_layout [OF pq]) simp
  have o: "GetOption q = Some (20 + 4 * ?n)" by (simp add: GetOption_def c un)
  have "mem_read (18 + 4 * ?n) 2 (pbuf q) = Some (be_bytes 2 (0 :: u16))"
    using mem_read_append [of "18 + 4 * ?n" "?A @ [y]" 2 "le_bytes 2 (0 :: u16)" "le_bytes 2 (0 :: u16) @ rest"] lA by (simp add: pq be_bytes_0)
  then have f: "GetFlags q = Some 0" by (simp add: GetFlags_def o mem_simps)
  have "mem_read 8 4 (pbuf q) = Some (be_bytes 4 (0 :: u32))" by (simp add: pq mem_read_def be_bytes_0)
  then have s0: "GetSeqn q = Some 0" by (simp add: GetSeqn_def mem_simps)
  have t: "GetAckThrough q = Some ?t" by (simp add: pq GetAckThrough_def mem_simps mem_read_def)
  show ?thesis
  proof (intro exI conjI)
    show "ack_packet p st = Some q" by (rule e)
    show "ack_says q ?t ns" using c un nk t by (simp add: ack_says_def)
    show "plain_ack q" using f s0 by (simp add: plain_ack_def IsSYN_def)
    show "length (pbuf q) = 4096" using y(2) assms(2) lc [of ns] by (simp add: pq)
  qed
qed

lemma fill_nacks_length:
  "length ns < 256 \<or> 2 ^ 31 \<le> length ns \<Longrightarrow> length (fst (fill_nacks ps m ns)) < 256 \<or> 2 ^ 31 \<le> length (fst (fill_nacks ps m ns))"
proof (induction ps arbitrary: m ns)
  case (Cons e ps)
  obtain k p where e: "e = (k, p)" by (cases e)
  let ?d = "unat (k - m)"
  show ?case
  proof (cases "of_nat (length ns) + (k - m) \<ge> (256 :: u32)")
    case True
    then show ?thesis using Cons.prems by (simp add: e)
  next
    case False
    have "(length ns + ?d) mod 2 ^ 32 < 256" if "length ns < 256"
    proof -
      have "unat (of_nat (length ns) + (k - m) :: u32) = (length ns + ?d) mod 2 ^ 32" using that by (simp add: unat_word_ariths unsigned_of_nat take_bit_nat_eq_self)
      then show ?thesis using False by (simp add: word_le_nat_alt)
    qed
    then have "length ns + ?d < 256 \<or> 2 ^ 31 \<le> length ns + ?d" using Cons.prems by (cases "length ns + ?d < 2 ^ 32") auto
    then have "length (ns @ seqn_range m k) < 256 \<or> 2 ^ 31 \<le> length (ns @ seqn_range m k)"
      using Cons.prems by (auto simp: seqn_range_def)
    from Cons.IH [OF this] False show ?thesis by (simp add: e)
  qed
qed simp

text \<open>An acknowledgement that fits its packet has number 0 and does not synchronise.\<close>

lemma ack_packet_plain:
  assumes "ack_packet p st = Some q" and "length (pbuf p) = 4096"
  shows "plain_ack q"
proof -
  obtain ns changed where n: "(if sint (last_seen st) > sint (m_LastReceivedSequenceNumber st)
            then fill_nacks (m_SavedPackets st) (m_LastReceivedSequenceNumber st + 1) [] else ([], None)) = (ns, changed)"
    by fastforce
  have "length ns < 256 \<or> 2 ^ 31 \<le> length ns"
    using n fill_nacks_length [of "[]" "m_SavedPackets st" "m_LastReceivedSequenceNumber st + 1"] by (auto split: if_splits)
  moreover have "length ns < 2 ^ 31"
  proof -
    obtain b1 where "mem_write 0 (be_bytes 4 (m_SendStreamID st) @ be_bytes 4 (m_RecvStreamID st) @ le_bytes 4 (0 :: u32) @
        be_bytes 4 (case changed of Some n \<Rightarrow> n | None \<Rightarrow> last_seen st) @ [of_nat (length ns)] @ concat (map (be_bytes 4) ns)) (pbuf p) = Some b1"
      using assms(1) n by (auto simp: ack_packet_def Let_def split: bind_splits split del: if_split)
    then have "length (concat (map (be_bytes 4) ns)) \<le> 4096" using assms(2) by (auto simp: mem_write_def split: if_splits)
    moreover have "length (concat (map (be_bytes 4) ms)) = 4 * length ms" for ms :: "u32 list" by (induction ms) simp_all
    ultimately show ?thesis by simp
  qed
  ultimately show ?thesis using ack_packet_layout [OF assms(2) _ n] assms(1) by auto
qed

section \<open>The sending half\<close>

definition sends :: "Packet \<Rightarrow> nat \<Rightarrow> bytes \<Rightarrow> bool" where
  "sends p n bs \<longleftrightarrow> poffset p = 0 \<and>
     (carries p n bs \<or> n = 0 \<and> bs = [] \<and> plain_ack p \<and> (\<exists>o'. Packet_GetPayload p = Some o' \<and> o' \<le> plen p \<and> plen p \<le> length (pbuf p)))"

text \<open>A packet that closes a stream before it was synchronised has number 0 and looks like a plain acknowledgement.\<close>

text \<open>
  \<open>chunks\<close> are the payloads of the packets numbered so far; together with what waits in the send buffer they
  are all the data the user wrote. Unacknowledged packets and packets posted for sending carry their chunk.
\<close>

definition sending :: "nat \<Rightarrow> bytes \<Rightarrow> bytes list \<Rightarrow> Stream \<times> 'g sdest \<Rightarrow> bool" where
  "sending a written chunks = (\<lambda>(st, d).
     m_SequenceNumber st = of_nat (length chunks) \<and> concat chunks @ m_SendBuffer st = written \<and>
     (m_SendEof st \<longrightarrow> m_SendBuffer st = []) \<and> smap_ok (m_SentPackets st) \<and>
     (\<forall>(k, p) \<in> set (m_SentPackets st). \<exists>n < length chunks. k = of_nat n \<and> GetSeqn p = Some k \<and> sends p n (chunks ! n)) \<and>
     (\<forall>p. TSendPacket a p \<in> set (tasks d) \<longrightarrow> (\<exists>n < length chunks. GetSeqn p = Some (of_nat n) \<and> sends p n (chunks ! n))))"

definition started :: "bytes list \<Rightarrow> Stream \<times> 'g sdest \<Rightarrow> bool" where
  "started chunks s \<longleftrightarrow> (m_Status (fst s) = eStreamStatusNew \<longleftrightarrow> chunks = [])"

text \<open>
  A packet of the history is explained by the chunks when it only acknowledges or carries one of them under its
  number. A step in which the user writes \<open>new\<close> keeps the invariant with more chunks, its history \<open>l\<close> is explained by them, each new chunk was handed
  over or waits to be, and what was waiting still waits or was handed over.
\<close>

definition explains :: "bytes list \<Rightarrow> Packet \<Rightarrow> bool" where
  "explains chunks p \<longleftrightarrow> plain_ack p \<or> (\<exists>n < length chunks. sends p n (chunks ! n))"

definition handed :: "nat \<Rightarrow> Packet list \<Rightarrow> Stream \<times> 'g sdest \<Rightarrow> nat \<Rightarrow> bytes \<Rightarrow> bool" where
  "handed a l s n bs \<longleftrightarrow> (\<exists>p. (p \<in> set l \<or> TSendPacket a p \<in> set (tasks (snd s))) \<and> sends p n bs)"

definition waits_on :: "nat \<Rightarrow> Packet list \<Rightarrow> Stream \<times> 'g sdest \<Rightarrow> Stream \<times> 'g sdest \<Rightarrow> bool" where
  "waits_on a l s s' \<longleftrightarrow> (\<forall>p. TSendPacket a p \<in> set (tasks (snd s)) \<longrightarrow> p \<in> set l \<or> TSendPacket a p \<in> set (tasks (snd s')))"

definition run_step :: "nat \<Rightarrow> Packet list \<Rightarrow> bytes \<Rightarrow> Stream \<times> 'g sdest \<Rightarrow> Stream \<times> 'g sdest \<Rightarrow> bool" where
  "run_step a l new s s' \<longleftrightarrow> waits_on a l s s' \<and> (\<forall>written chunks. sending a written chunks s \<and> started chunks s \<longrightarrow>
     (\<exists>cs. sending a (written @ new) (chunks @ cs) s' \<and> started (chunks @ cs) s' \<and> (\<forall>p \<in> set l. explains (chunks @ cs) p) \<and>
        (\<forall>i < length cs. handed a l s' (length chunks + i) (cs ! i))))"

definition tx_step :: "nat \<Rightarrow> Packet list \<Rightarrow> Stream \<times> 'g sdest \<Rightarrow> Stream \<times> 'g sdest \<Rightarrow> bool" where
  "tx_step a l s s' \<longleftrightarrow> run_step a l [] s s'"

lemma explains_append: "explains chunks p \<Longrightarrow> explains (chunks @ cs) p"
  unfolding explains_def by (metis length_append nth_append trans_less_add1)

lemma handed_on: "handed a l s n bs \<Longrightarrow> waits_on a l' s s' \<Longrightarrow> handed a (l @ l') s' n bs"
  unfolding handed_def waits_on_def by auto

lemma handed_later: "handed a l' s n bs \<Longrightarrow> handed a (l @ l') s n bs"
  unfolding handed_def by auto

lemma tx_stepI:
  assumes "waits_on a l s s'"
    and "\<And>w chunks. sending a w chunks s \<Longrightarrow> started chunks s \<Longrightarrow>
      \<exists>cs. sending a w (chunks @ cs) s' \<and> started (chunks @ cs) s' \<and> (\<forall>p \<in> set l. explains (chunks @ cs) p) \<and>
        (\<forall>i < length cs. handed a l s' (length chunks + i) (cs ! i))"
  shows "tx_step a l s s'"
  using assms unfolding tx_step_def run_step_def by simp

text \<open>Steps that number no packet.\<close>

lemma tx_step_same:
  assumes "waits_on a l s s'"
    and "\<And>w chunks. sending a w chunks s \<Longrightarrow> started chunks s \<Longrightarrow>
      sending a w chunks s' \<and> started chunks s' \<and> (\<forall>p \<in> set l. explains chunks p)"
  shows "tx_step a l s s'"
  using assms(1)
proof (rule tx_stepI)
  fix w chunks assume "sending a w chunks s" "started chunks s"
  from assms(2) [OF this] show "\<exists>cs. sending a w (chunks @ cs) s' \<and> started (chunks @ cs) s' \<and> (\<forall>p \<in> set l. explains (chunks @ cs) p) \<and>
        (\<forall>i < length cs. handed a l s' (length chunks + i) (cs ! i))"
    by (intro exI [of _ "[]"]) simp
qed

lemma tx_step_refl [simp, intro]: "tx_step a [] s s"
  by (rule tx_step_same) (simp_all add: waits_on_def)

lemma run_step_trans:
  assumes "run_step a l v s s1" and "run_step a l' v' s1 s'"
  shows "run_step a (l @ l') (v @ v') s s'"
proof -
  have w: "waits_on a l s s1" "waits_on a l' s1 s'" using assms by (simp_all add: run_step_def)
  then have "waits_on a (l @ l') s s'" by (auto simp: waits_on_def)
  moreover have "\<exists>cs. sending a (w' @ v @ v') (chunks @ cs) s' \<and> started (chunks @ cs) s' \<and> (\<forall>p \<in> set (l @ l'). explains (chunks @ cs) p) \<and>
        (\<forall>i < length cs. handed a (l @ l') s' (length chunks + i) (cs ! i))"
    if "sending a w' chunks s" "started chunks s" for w' chunks
  proof -
    from assms(1) that obtain cs where cs: "sending a (w' @ v) (chunks @ cs) s1" "started (chunks @ cs) s1"
      "\<forall>p \<in> set l. explains (chunks @ cs) p" "\<forall>i < length cs. handed a l s1 (length chunks + i) (cs ! i)" unfolding run_step_def by blast
    from assms(2) cs(1,2) obtain ds where ds: "sending a ((w' @ v) @ v') ((chunks @ cs) @ ds) s'" "started ((chunks @ cs) @ ds) s'"
      "\<forall>p \<in> set l'. explains ((chunks @ cs) @ ds) p" "\<forall>i < length ds. handed a l' s' (length (chunks @ cs) + i) (ds ! i)"
      unfolding run_step_def by blast
    have "handed a (l @ l') s' (length chunks + i) ((cs @ ds) ! i)" if "i < length (cs @ ds)" for i
    proof (cases "i < length cs")
      case True
      then show ?thesis using handed_on [OF _ w(2)] cs(4) by (simp add: nth_append)
    next
      case False
      then show ?thesis using handed_later [of a l' s' "length chunks + i" "ds ! (i - length cs)" l] ds(4) that
        by (simp add: nth_append) (metis add.assoc add_diff_inverse_nat diff_add_inverse nat_add_left_cancel_less)
    qed
    moreover have "\<forall>p \<in> set (l @ l'). explains (chunks @ cs @ ds) p" using cs(3) ds(3) explains_append [of "chunks @ cs" _ ds] by auto
    ultimately show ?thesis using ds(1,2) by (intro exI [of _ "cs @ ds"]) simp
  qed
  ultimately show ?thesis by (simp add: run_step_def)
qed

lemma tx_step_trans [trans]: "tx_step a l s s1 \<Longrightarrow> tx_step a l' s1 s' \<Longrightarrow> tx_step a (l @ l') s s'"
  using run_step_trans [of a l "[]" s s1 l' "[]" s'] by (simp add: tx_step_def)

lemma tx_step_quiet [trans]: "tx_step a [] s s1 \<Longrightarrow> tx_step a l s1 s' \<Longrightarrow> tx_step a l s s'"
  using tx_step_trans [of a "[]" s s1 l s'] by simp

lemma tx_step_then_quiet: "tx_step a l s s1 \<Longrightarrow> tx_step a [] s1 s' \<Longrightarrow> tx_step a l s s'"
  using tx_step_trans [of a l s s1 "[]" s'] by simp

text \<open>The fields the sending half depends on.\<close>

definition tx :: "Stream \<times> 'g sdest \<Rightarrow> u32 \<times> bytes \<times> bool \<times> StreamStatus \<times> (u32, Packet) smap \<times> stask list" where
  "tx = (\<lambda>(st, d). (m_SequenceNumber st, m_SendBuffer st, m_SendEof st, m_Status st, m_SentPackets st, tasks d))"

lemma tx_sending: "tx s' = tx s \<Longrightarrow> sending a w cs s' = sending a w cs s \<and> started cs s' = started cs s"
  by (cases s; cases s') (auto simp: sending_def started_def tx_def)

lemma tx_waits: "tx s' = tx s \<Longrightarrow> waits_on a l s s'"
  by (cases s; cases s') (auto simp: waits_on_def tx_def)

lemma tx_step_log:
  assumes "tx s' = tx s" and "\<And>w chunks p. sending a w chunks s \<Longrightarrow> p \<in> set l \<Longrightarrow> explains chunks p"
  shows "tx_step a l s s'"
  by (rule tx_step_same [OF tx_waits [OF assms(1)]]) (use tx_sending [OF assms(1)] assms(2) in blast)

lemma tx_step_eq: "tx s' = tx s \<Longrightarrow> tx_step a [] s s'"
  by (rule tx_step_log) simp_all

lemma sends_append: "n < length chunks \<Longrightarrow> sends p n ((chunks @ cs) ! n) = sends p n (chunks ! n)"
  by (simp add: nth_append)

lemma sends_sendTime [simp]: "sends (p\<lparr>sendTime := t\<rparr>) n bs = sends p n bs" "GetSeqn (p\<lparr>sendTime := t\<rparr>) = GetSeqn p"
  by (simp_all add: sends_def carries_def plain_ack_def GetSeqn_def IsSYN_def Packet_GetPayload_def GetFlags_def GetOption_def GetNACKCount_def
      GetOptionData_def GetOptionSize_def)

lemma ss_read_fields [simp]:
  "m_SequenceNumber (snd (ss_read n st)) = m_SequenceNumber st" "m_Status (snd (ss_read n st)) = m_Status st"
  "m_SentPackets (snd (ss_read n st)) = m_SentPackets st" "m_SendStreamID (snd (ss_read n st)) = m_SendStreamID st"
  "m_SendHandler (snd (ss_read n st)) = m_SendHandler st" "m_WindowSize (snd (ss_read n st)) = m_WindowSize st"
  by (simp_all add: ss_read_def)

lemma ss_read_data:
  "m_SendEof st \<longrightarrow> m_SendBuffer st = [] \<Longrightarrow> fst (ss_read n st) @ m_SendBuffer (snd (ss_read n st)) = m_SendBuffer st"
  "m_SendEof st \<longrightarrow> m_SendBuffer st = [] \<Longrightarrow> m_SendEof (snd (ss_read n st)) \<longrightarrow> m_SendBuffer (snd (ss_read n st)) = []"
  by (auto simp: ss_read_def)

lemma more_chunks:
  assumes "\<forall>(k, p) \<in> set m. \<exists>n < length chunks. k = of_nat n \<and> GetSeqn p = Some k \<and> sends p n (chunks ! n)"
    and "\<forall>p. TSendPacket a p \<in> set ts \<longrightarrow> (\<exists>n < length chunks. GetSeqn p = Some (of_nat n) \<and> sends p n (chunks ! n))"
  shows "\<forall>(k, p) \<in> set m. \<exists>n < length (chunks @ cs). k = of_nat n \<and> GetSeqn p = Some k \<and> sends p n ((chunks @ cs) ! n)"
    "\<forall>p. TSendPacket a p \<in> set ts \<longrightarrow> (\<exists>n < length (chunks @ cs). GetSeqn p = Some (of_nat n) \<and> sends p n ((chunks @ cs) ! n))"
proof -
  have m: "\<exists>n < length (chunks @ cs). Q n ((chunks @ cs) ! n)" if "\<exists>n < length chunks. Q n (chunks ! n)" for Q
    using that by (metis length_append nth_append trans_less_add1)
  show "\<forall>(k, p) \<in> set m. \<exists>n < length (chunks @ cs). k = of_nat n \<and> GetSeqn p = Some k \<and> sends p n ((chunks @ cs) ! n)"
    using assms(1) m [of "\<lambda>n c. k = of_nat n \<and> GetSeqn p = Some k \<and> sends p n c" for k p] by fast
  show "\<forall>p. TSendPacket a p \<in> set ts \<longrightarrow> (\<exists>n < length (chunks @ cs). GetSeqn p = Some (of_nat n) \<and> sends p n ((chunks @ cs) ! n))"
    using assms(2) m [of "\<lambda>n c. GetSeqn p = Some (of_nat n) \<and> sends p n c" for p] by fast
qed

lemma sending_chunk:
  assumes "sending a w chunks (st, d)" and "router_only d d'"
  shows "sending a w (chunks @ [fst (ss_read n st)])
    ((snd (ss_read n st))\<lparr>m_Status := c, m_SequenceNumber := m_SequenceNumber st + 1\<rparr>, d')"
proof -
  have S: "m_SequenceNumber st = of_nat (length chunks)" "concat chunks @ m_SendBuffer st = w" "m_SendEof st \<longrightarrow> m_SendBuffer st = []"
      "smap_ok (m_SentPackets st)"
    and sent: "\<forall>(k, p) \<in> set (m_SentPackets st). \<exists>n < length chunks. k = of_nat n \<and> GetSeqn p = Some k \<and> sends p n (chunks ! n)"
    and posted: "\<forall>p. TSendPacket a p \<in> set (tasks d) \<longrightarrow> (\<exists>n < length chunks. GetSeqn p = Some (of_nat n) \<and> sends p n (chunks ! n))"
    using assms(1) by (auto simp: sending_def)
  have t: "tasks d' = tasks d" using router_onlyD [OF assms(2)] by simp
  have w: "concat (chunks @ [fst (ss_read n st)]) @ m_SendBuffer (snd (ss_read n st)) = w" using ss_read_data(1) [OF S(3), of n] S(2) by simp
  show ?thesis
    unfolding sending_def prod.case
    using S w ss_read_data(2) [OF S(3), of n] more_chunks [OF sent posted, of "[fst (ss_read n st)]"] by (simp add: t)
qed

lemma send_loop_sending:
  assumes "owner_ok E" and "send_loop E b n (st, d) = Some (ps, st', d')" and "sending a w chunks (st, d)" and "started chunks (st, d)"
  shows "\<exists>cs. length cs = length ps \<and> (\<forall>i < length ps. sends (ps ! i) (length chunks + i) (cs ! i) \<and> GetSeqn (ps ! i) = Some (of_nat (length chunks + i))) \<and>
    sending a w (chunks @ cs) (st', d') \<and> started (chunks @ cs) (st', d') \<and> router_only d d' \<and> m_SentPackets st' = m_SentPackets st"
  using assms(2-)
proof (induction n arbitrary: st d ps chunks)
  case 0
  then show ?case by auto
next
  case (Suc n)
  show ?case
  proof (cases "ps = []")
    case True
    then show ?thesis using Suc.prems send_loop_none [of E b "Suc n" "(st, d)" "(st', d')"] by auto
  next
    case False
    from Suc.prems(1) False obtain d1 q st1 d2 qs where
        d1: "router_only d d1" and ps: "ps = q # qs" and rest: "send_loop E b n (st1\<lparr>m_SequenceNumber := m_SequenceNumber st1 + 1\<rparr>, d2) = Some (qs, st', d')"
        and p: "if m_Status st = eStreamStatusNew then syn_packet E b (fst (new_packet E d)) (st, d1) = Some (q, st1, d2)
             else data_packet b (fst (new_packet E d)) st = Some (q, st1) \<and> d2 = d1"
      by (rule send_loop_step)
    note np = new_packet_ok [OF assms(1), of d]
    have sq: "m_SequenceNumber st = of_nat (length chunks)" using Suc.prems(2) by (simp add: sending_def)
    have "\<exists>k c. sends q (length chunks) (fst (ss_read k st)) \<and> GetSeqn q = Some (of_nat (length chunks)) \<and>
        st1 = (snd (ss_read k st))\<lparr>m_Status := c\<rparr> \<and> c \<noteq> eStreamStatusNew \<and> router_only d d2"
    proof (cases "m_Status st = eStreamStatusNew")
      case True
      then have ch: "chunks = []" using Suc.prems(3) by (simp add: started_def)
      have "syn_packet E b (fst (new_packet E d)) (st, d1) = Some (q, st1, d2)" using p True by simp
      from syn_packet_carries [OF assms(1) np [THEN conjunct1] np [THEN conjunct2] this] sq ch obtain k where
        "carries q 0 (fst (ss_read k st))" "poffset q = 0" "st1 = (snd (ss_read k st))\<lparr>m_Status := eStreamStatusOpen\<rparr>" "router_only d1 d2"
        by auto
      then show ?thesis using ch router_only_trans [OF d1] by (auto simp: sends_def carries_def)
    next
      case False
      then have dp: "data_packet b (fst (new_packet E d)) st = Some (q, st1)" "d2 = d1" using p by simp_all
      have "carries q (length chunks) (fst (ss_read 1708 st))"
        using data_packet_carries [OF dp(1) np [THEN conjunct1] sq] False Suc.prems(3) by (simp add: started_def)
      moreover have "st1 = (snd (ss_read 1708 st))\<lparr>m_Status := m_Status st\<rparr>" using data_packet_layout(4) [OF dp(1)] by simp
      ultimately show ?thesis
        using False d1 dp(2) data_packet_layout(5) [OF dp(1)] np
        by (intro exI [of _ 1708] exI [of _ "m_Status st"]) (simp add: sends_def carries_def)
    qed
    then obtain k c where k: "sends q (length chunks) (fst (ss_read k st))" "GetSeqn q = Some (of_nat (length chunks))"
        "st1 = (snd (ss_read k st))\<lparr>m_Status := c\<rparr>" "c \<noteq> eStreamStatusNew" "router_only d d2" by blast
    let ?c = "fst (ss_read k st)"
    have s1: "sending a w (chunks @ [?c]) (st1\<lparr>m_SequenceNumber := m_SequenceNumber st1 + 1\<rparr>, d2)"
      using sending_chunk [OF Suc.prems(2) k(5), of k c] by (simp add: k(3))
    have "started (chunks @ [?c]) (st1\<lparr>m_SequenceNumber := m_SequenceNumber st1 + 1\<rparr>, d2)" using k(3,4) by (simp add: started_def)
    from Suc.IH [OF rest s1 this] obtain cs where cs: "length cs = length qs"
        "\<forall>i < length qs. sends (qs ! i) (length (chunks @ [?c]) + i) (cs ! i) \<and> GetSeqn (qs ! i) = Some (of_nat (length (chunks @ [?c]) + i))"
        "sending a w ((chunks @ [?c]) @ cs) (st', d')" "started ((chunks @ [?c]) @ cs) (st', d')" "router_only d2 d'"
        "m_SentPackets st' = m_SentPackets (st1\<lparr>m_SequenceNumber := m_SequenceNumber st1 + 1\<rparr>)" by blast
    have "\<forall>i < length ps. sends (ps ! i) (length chunks + i) ((?c # cs) ! i) \<and> GetSeqn (ps ! i) = Some (of_nat (length chunks + i))"
    proof (intro allI impI)
      fix i assume "i < length ps"
      then show "sends (ps ! i) (length chunks + i) ((?c # cs) ! i) \<and> GetSeqn (ps ! i) = Some (of_nat (length chunks + i))"
        using cs(2) k(1,2) by (cases i) (simp_all add: ps)
    qed
    then show ?thesis
      using cs(1,3-6) k(3) router_only_trans [OF k(5) cs(5)] ps by (intro exI [of _ "?c # cs"]) simp
  qed
qed

lemma plain_or_carries:
  assumes "pbuf p = be_bytes 4 (s :: u32) @ be_bytes 4 (r :: u32) @ be_bytes 4 (of_nat n :: u32) @ x @ [0, y] @ be_bytes 2 f @ be_bytes 2 (o' :: u16) @ opts @ [] @ rest"
    and "length x = 4" and "length opts = unat o'" and "plen p = 22 + unat o'" and "length (pbuf p) < 2 ^ 64"
    and "f AND PACKET_FLAG_SYNCHRONIZE = 0" and "poffset p = 0"
  shows "sends p n [] \<and> GetSeqn p = Some (of_nat n)"
proof (cases "n = 0")
  case True
  have "plen p \<le> length (pbuf p)" using assms(2-4) unfolding assms(1) by simp
  then show ?thesis using packet_fields [OF assms(1,2)] assms(4,6,7) True by (simp add: sends_def plain_ack_def)
next
  case False
  have "carries p n []" by (rule carriesI [OF assms(1-3)]) (use assms(4-6) False in simp_all)
  then show ?thesis using assms(7) by (simp add: sends_def carries_def)
qed

lemma SendClose_sending:
  assumes "owner_ok E" and "SendClose E a (st, d) = Some (st', d')" and "sending a w chunks (st, d)"
  shows "sending a w (chunks @ [[]]) (st', d') \<and> m_Status st' = m_Status st \<and> handed a [] (st', d') (length chunks) [] \<and>
    waits_on a [] (st, d) (st', d')"
proof -
  from assms(1,2) obtain q x y t sig rest d2 where l: "st' = st\<lparr>m_SequenceNumber := m_SequenceNumber st + 1\<rparr>" "router_only d d2"
    "d' = d2\<lparr>tasks := tasks d @ [TSendPacket a q]\<rparr>" "t \<le> 7" "length sig = SignatureLen t" "length x = 4"
    "pbuf q = be_bytes 4 (m_SendStreamID st) @ be_bytes 4 (m_RecvStreamID st) @ be_bytes 4 (m_SequenceNumber st) @ x @ [0, y] @
      be_bytes 2 (PACKET_FLAG_CLOSE OR PACKET_FLAG_SIGNATURE_INCLUDED) @ be_bytes 2 (of_nat (SignatureLen t) :: u16) @ sig @ [] @ rest"
    "plen q = 22 + SignatureLen t" "length (pbuf q) = 4096" "poffset q = 0" by (rule SendClose_layout)
  have S: "m_SequenceNumber st = of_nat (length chunks)" "concat chunks @ m_SendBuffer st = w" "m_SendEof st \<longrightarrow> m_SendBuffer st = []"
      "smap_ok (m_SentPackets st)"
    and sent: "\<forall>(k, p) \<in> set (m_SentPackets st). \<exists>n < length chunks. k = of_nat n \<and> GetSeqn p = Some k \<and> sends p n (chunks ! n)"
    and posted: "\<forall>p. TSendPacket a p \<in> set (tasks d) \<longrightarrow> (\<exists>n < length chunks. GetSeqn p = Some (of_nat n) \<and> sends p n (chunks ! n))"
    using assms(3) by (auto simp: sending_def)
  have u: "unat (of_nat (SignatureLen t) :: u16) = SignatureLen t" using key_len_bounds(2) [OF l(4)] by (intro unat_u16) simp
  have q: "sends q (length chunks) [] \<and> GetSeqn q = Some (of_nat (length chunks))"
    by (rule plain_or_carries [OF l(7) [unfolded S(1)] l(6)]) (use l(5,8-10) u in simp_all)
  then have "\<exists>n < length (chunks @ [[]]). GetSeqn q = Some (of_nat n) \<and> sends q n ((chunks @ [[]]) ! n)"
    by (intro exI [of _ "length chunks"]) simp
  then have "sending a w (chunks @ [[]]) (st', d')"
    unfolding sending_def prod.case
    using S more_chunks [OF sent posted, of "[[]]"] by (auto simp: l(1,3))
  moreover have "handed a [] (st', d') (length chunks) []" using q by (auto simp: handed_def l(3))
  ultimately show ?thesis by (simp add: l(1,3) waits_on_def)
qed

lemma end_stream_tx [simp]: "tx (end_stream s) = tx s"
  by (simp add: end_stream_def Terminate_def DeleteStream_def tx_def case_prod_beta Let_def split: option.split)

lemma SendClose_step:
  assumes "owner_ok E" and "SendClose E a s = Some s'" and "m_Status (fst s) \<noteq> eStreamStatusNew"
  shows "tx_step a [] s s'"
proof (rule tx_stepI)
  obtain st d st' d' where sd: "s = (st, d)" "s' = (st', d')" by (cases s; cases s')
  note c = SendClose_sending [OF assms(1), of a st d st' d']
  show "waits_on a [] s s'" by (rule SendClose_layout [OF assms(1,2) [unfolded sd]]) (simp add: waits_on_def sd)
  fix w chunks assume "sending a w chunks s" "started chunks s"
  then show "\<exists>cs. sending a w (chunks @ cs) s' \<and> started (chunks @ cs) s' \<and> (\<forall>p \<in> set []. explains (chunks @ cs) p) \<and>
      (\<forall>i < length cs. handed a [] s' (length chunks + i) (cs ! i))"
    using c [of w chunks] assms(2,3) by (intro exI [of _ "[[]]"]) (auto simp: started_def sd)
qed

text \<open>A stream that is reset numbers its close packet even when it has sent nothing.\<close>

lemma reset_close_step:
  assumes "owner_ok E" and "Stream_Close E a (st\<lparr>m_Status := eStreamStatusReset\<rparr>, d) = Some s'"
  shows "tx_step a [] (st, d) s'"
proof (rule tx_stepI)
  obtain st1 d1 where c: "SendClose E a (st\<lparr>m_Status := eStreamStatusReset\<rparr>, d) = Some (st1, d1)" "s' = end_stream (st1, d1)"
    using assms(2) by (auto simp: Stream_Close_def)
  have tx: "tx s' = tx (st1, d1)" by (simp add: c(2))
  then have t: "tasks (snd s') = tasks d1" by (cases s') (simp add: tx_def)
  show "waits_on a [] (st, d) s'" by (rule SendClose_layout [OF assms(1) c(1)]) (simp add: waits_on_def t)
  fix w chunks assume "sending a w chunks (st, d)" "started chunks (st, d)"
  then have "sending a w chunks (st\<lparr>m_Status := eStreamStatusReset\<rparr>, d)" by (simp add: sending_def)
  from SendClose_sending [OF assms(1) c(1) this] have s: "sending a w (chunks @ [[]]) (st1, d1)" "started (chunks @ [[]]) (st1, d1)"
      "handed a [] s' (length chunks) []"
    by (simp_all add: started_def handed_def t)
  then show "\<exists>cs. sending a w (chunks @ cs) s' \<and> started (chunks @ cs) s' \<and> (\<forall>p \<in> set []. explains (chunks @ cs) p) \<and>
      (\<forall>i < length cs. handed a [] s' (length chunks + i) (cs ! i))"
    using tx_sending [OF tx] by (intro exI [of _ "[[]]"]) simp
qed

lemma status_step:
  assumes "m_Status st \<noteq> eStreamStatusNew" and "c \<noteq> eStreamStatusNew"
  shows "tx_step a [] (st, d) (st\<lparr>m_Status := c\<rparr>, d)"
  by (rule tx_step_same) (use assms in \<open>auto simp: sending_def started_def waits_on_def\<close>)

lemma Close_closing_step:
  assumes "owner_ok E" and "Close_closing E a s = Some s'" and "m_Status (fst s) \<noteq> eStreamStatusNew"
  shows "tx_step a [] s s'"
proof (cases "m_SentPackets (fst s) = [] \<and> m_SendEof (fst s)")
  case True
  then obtain s1 where s1: "SendClose E a ((fst s)\<lparr>m_Status := eStreamStatusClosed\<rparr>, snd s) = Some s1" "s' = end_stream s1"
    using assms(2) by (auto simp: Close_closing_def case_prod_beta)
  have "tx_step a [] s ((fst s)\<lparr>m_Status := eStreamStatusClosed\<rparr>, snd s)" using status_step [OF assms(3)] by (metis StreamStatus.distinct(7) prod.collapse)
  also have "tx_step a [] \<dots> s1" using SendClose_step [OF assms(1) s1(1)] by simp
  also have "tx_step a [] s1 s'" by (rule tx_step_eq) (simp add: s1(2))
  finally show ?thesis .
next
  case False
  then show ?thesis using assms(2) by (cases s) (auto simp: Close_closing_def)
qed

lemma Stream_Close_step:
  assumes "owner_ok E" and "Stream_Close E a s = Some s'"
  shows "tx_step a [] s s'"
proof (cases "m_Status (fst s)")
  case eStreamStatusNew
  then show ?thesis using assms(2) by (cases s) (simp add: Stream_Close_def)
next
  case eStreamStatusOpen
  then have c: "Close_closing E a ((fst s)\<lparr>m_Status := eStreamStatusClosing\<rparr>, snd s) = Some s'" using assms(2) by (simp add: Stream_Close_def case_prod_beta)
  have "tx_step a [] s ((fst s)\<lparr>m_Status := eStreamStatusClosing\<rparr>, snd s)"
    using status_step [of "fst s" eStreamStatusClosing a "snd s"] eStreamStatusOpen by simp
  also have "tx_step a [] \<dots> s'" by (rule Close_closing_step [OF assms(1) c]) simp
  finally show ?thesis .
next
  case eStreamStatusReset
  then obtain s1 where s1: "SendClose E a s = Some s1" "s' = end_stream s1" using assms(2) by (cases s) (auto simp: Stream_Close_def)
  have "tx_step a [] s s1" using SendClose_step [OF assms(1) s1(1)] eStreamStatusReset by simp
  also have "tx_step a [] s1 s'" by (rule tx_step_eq) (simp add: s1(2))
  finally show ?thesis .
next
  case eStreamStatusClosing
  then show ?thesis using assms Close_closing_step [OF assms(1), of a s s'] by (cases s) (simp add: Stream_Close_def)
next
  case eStreamStatusClosed
  then have "s' = end_stream s" using assms(2) by (cases s) (simp add: Stream_Close_def)
  then show ?thesis by (intro tx_step_eq) simp
qed

lemma route_tx: "route_only st st' \<Longrightarrow> router_only d d' \<Longrightarrow> tx (st', d') = tx (st, d)"
  by (simp add: tx_def route_onlyD router_onlyD)

lemma Stream_SendPackets_tx: "Stream_SendPackets E ps s = Some s' \<Longrightarrow> tx s' = tx s"
  by (cases s; cases s') (auto dest!: Stream_SendPackets_frame intro: route_tx)

lemma packet_insert_ok:
  assumes "packet_insert p m = Some m'" and "smap_ok m"
  shows "smap_ok m' \<and> (\<forall>e \<in> set m'. e \<in> set m \<or> snd e = p \<and> GetSeqn p = Some (fst e))"
  using assms by (auto simp: packet_insert_def map_insert_def smap_ok_put set_map_put split: if_splits)

lemma insert_all_ok:
  assumes "insert_all ps m = Some m'" and "smap_ok m"
  shows "smap_ok m' \<and> (\<forall>e \<in> set m'. e \<in> set m \<or> snd e \<in> set ps \<and> GetSeqn (snd e) = Some (fst e))"
  using assms
proof (induction ps arbitrary: m)
  case (Cons p ps)
  then obtain m1 where m1: "packet_insert p m = Some m1" "insert_all ps m1 = Some m'" by (auto split: bind_splits)
  note ok = packet_insert_ok [OF m1(1) Cons.prems(2)]
  from Cons.IH [OF m1(2) ok [THEN conjunct1]] ok show ?case by fastforce
qed simp

lemma sending_sent:
  assumes "sending a w chunks (st, d)" and "smap_ok m"
    and "\<forall>(k, p) \<in> set m. \<exists>n < length chunks. k = of_nat n \<and> GetSeqn p = Some k \<and> sends p n (chunks ! n)"
  shows "sending a w chunks (st\<lparr>m_SentPackets := m\<rparr>, d)"
  using assms by (simp add: sending_def)

lemma SendPackets_logD: "SendPackets_log E ps s = Some (l, s') \<Longrightarrow> l = ps \<and> Stream_SendPackets E ps s = Some s'"
  by (auto simp: SendPackets_log_def)

lemma syn_packet_tasks: "syn_packet E b p (st, d) = Some (q, st', d') \<Longrightarrow> tasks d' = tasks d"
  by (auto simp: syn_packet_def Let_def case_prod_beta split: bind_splits) (metis router_onlyD router_only_refl sask_router_only)

lemma send_loop_tasks: "send_loop E b n (st, d) = Some (ps, st', d') \<Longrightarrow> tasks d' = tasks d"
proof (induction n arbitrary: st d ps)
  case (Suc n)
  show ?case
  proof (cases "ps = []")
    case False
    from Suc.prems False show ?thesis
      by (rule send_loop_step) (auto dest!: Suc.IH syn_packet_tasks router_onlyD split: if_splits)
  qed (use Suc.prems send_loop_none in fastforce)
qed simp

lemma SendBuffer_step:
  assumes "owner_ok E" and "SendBuffer_log E a s = Some (l, s')"
  shows "tx_step a l s s'"
proof -
  obtain st d where sd: "s = (st, d)" by (cases s)
  let ?n = "m_WindowSize st - int (length (m_SentPackets st))"
  show ?thesis
  proof (cases "?n \<le> 0")
    case True
    then show ?thesis using assms(2) by (simp add: SendBuffer_log_def sd)
  next
    case False
    obtain ps st1 d1 where loop: "send_loop E (sint (m_LastReceivedSequenceNumber st) < 0) (nat ?n) (st, d) = Some (ps, st1, d1)"
      using assms(2) False by (auto simp: SendBuffer_log_def sd split: bind_splits)
    obtain st2 d2 where h: "(case m_SendHandler st1 of
                   Some h \<Rightarrow> if m_SendEof st1
                     then (st1\<lparr>m_SendHandler := None\<rparr>, d1\<lparr>sevents := sevents d1 @ [SendHandlerCalled h SendSuccess]\<rparr>) else (st1, d1)
                 | None \<Rightarrow> (st1, d1)) = (st2, d2)" by fastforce
    then have tx2: "tx (st2, d2) = tx (st1, d1)" by (auto simp: tx_def split: option.splits if_splits)
    have new: "\<exists>cs. length cs = length ps \<and>
        (\<forall>i < length ps. sends (ps ! i) (length chunks + i) (cs ! i) \<and> GetSeqn (ps ! i) = Some (of_nat (length chunks + i))) \<and>
        sending a w (chunks @ cs) (st2, d2) \<and> started (chunks @ cs) (st2, d2) \<and> tasks d2 = tasks d"
      if "sending a w chunks s" "started chunks s" for w chunks
    proof -
      from send_loop_sending [OF assms(1) loop that [unfolded sd]] obtain cs where cs: "length cs = length ps"
        "\<forall>i < length ps. sends (ps ! i) (length chunks + i) (cs ! i) \<and> GetSeqn (ps ! i) = Some (of_nat (length chunks + i))"
        "sending a w (chunks @ cs) (st1, d1)" "started (chunks @ cs) (st1, d1)" "router_only d d1" by blast
      then show ?thesis using tx_sending [OF tx2] tx2 router_onlyD [OF cs(5)] by (intro exI [of _ cs]) (simp add: tx_def)
    qed
    show ?thesis
    proof (cases "ps = []")
      case True
      then have e: "l = []" "s' = (st2, d2)" using assms(2) False by (simp_all add: SendBuffer_log_def sd loop h)
      have "tasks d2 = tasks d" using send_loop_tasks [OF loop] tx2 by (simp add: tx_def)
      then show ?thesis using new True by (intro tx_step_same) (auto simp: e waits_on_def sd)
    next
      case ne: False
      obtain ts d3 where t: "now_ms E d2 = (ts, d3)" by (cases "now_ms E d2")
      have d3: "tasks d3 = tasks d2" using now_ms_router_only [of d2 E d2] t router_onlyD by fastforce
      let ?ps = "map (\<lambda>p. p\<lparr>sendTime := ts\<rparr>) ps"
      obtain sent st4 d4 where sent: "insert_all ?ps (m_SentPackets st2) = Some sent"
          and snd: "Stream_SendPackets E ?ps (st2\<lparr>m_IsAckSendScheduled := False, m_SentPackets := sent\<rparr>, d3) = Some (st4, d4)"
          and l: "l = ?ps"
          and fin: "(if m_Status st4 = eStreamStatusClosing \<and> m_SendEof st4 then SendClose E a (st4, d4) else Some (st4, d4)) = Some s'"
      proof -
        have H: "Option.bind (insert_all ?ps (m_SentPackets st2)) (\<lambda>sent.
            Option.bind (SendPackets_log E ?ps (st2\<lparr>m_IsAckSendScheduled := False, m_SentPackets := sent\<rparr>, d3)) (\<lambda>(l, st4, d4).
              if m_Status st4 = eStreamStatusClosing \<and> m_SendEof st4 then map_option (Pair l) (SendClose E a (st4, d4)) else Some (l, st4, d4))) =
            Some (l, s')"
          using assms(2) False ne by (simp add: SendBuffer_log_def sd loop h t Let_def)
        obtain sent where 1: "insert_all ?ps (m_SentPackets st2) = Some sent" using H by (cases "insert_all ?ps (m_SentPackets st2)") simp_all
        obtain st4 d4 where 2: "Stream_SendPackets E ?ps (st2\<lparr>m_IsAckSendScheduled := False, m_SentPackets := sent\<rparr>, d3) = Some (st4, d4)"
          using H 1 by (cases "Stream_SendPackets E ?ps (st2\<lparr>m_IsAckSendScheduled := False, m_SentPackets := sent\<rparr>, d3)")
            (auto simp: SendPackets_log_def)
        have "l = ?ps \<and> (if m_Status st4 = eStreamStatusClosing \<and> m_SendEof st4 then SendClose E a (st4, d4) else Some (st4, d4)) = Some s'"
          using H 1 2 by (cases "m_Status st4 = eStreamStatusClosing \<and> m_SendEof st4") (auto simp: SendPackets_log_def)
        with 1 2 show thesis using that by blast
      qed
      have t4: "tasks d4 = tasks d2" using Stream_SendPackets_tx [OF snd] d3 by (simp add: tx_def)
      have "tx_step a l s (st4, d4)"
      proof (rule tx_stepI)
        have "tasks d2 = tasks d" using send_loop_tasks [OF loop] tx2 by (simp add: tx_def)
        then show "waits_on a l s (st4, d4)" by (simp add: waits_on_def sd t4)
        fix w chunks assume s: "sending a w chunks s" "started chunks s"
        from new [OF this] obtain cs where cs: "length cs = length ps"
          "\<forall>i < length ps. sends (ps ! i) (length chunks + i) (cs ! i) \<and> GetSeqn (ps ! i) = Some (of_nat (length chunks + i))"
          and s2: "sending a w (chunks @ cs) (st2, d2)" "started (chunks @ cs) (st2, d2)" by blast
        have ok2: "smap_ok (m_SentPackets st2)" using s2(1) by (simp add: sending_def)
        have all: "\<forall>(k, p) \<in> set sent. \<exists>n < length (chunks @ cs). k = of_nat n \<and> GetSeqn p = Some k \<and> sends p n ((chunks @ cs) ! n)"
        proof (clarify)
          fix k p assume kp: "(k, p) \<in> set sent"
          then consider "(k, p) \<in> set (m_SentPackets st2)" | "p \<in> set ?ps" "GetSeqn p = Some k"
            using insert_all_ok [OF sent ok2] by fastforce
          then show "\<exists>n < length (chunks @ cs). k = of_nat n \<and> GetSeqn p = Some k \<and> sends p n ((chunks @ cs) ! n)"
          proof cases
            case 1
            then show ?thesis using s2(1) by (auto simp: sending_def)
          next
            case 2
            then obtain i where i: "i < length ps" "p = (ps ! i)\<lparr>sendTime := ts\<rparr>" by (auto simp: in_set_conv_nth)
            then show ?thesis using 2(2) cs(1,2) by (intro exI [of _ "length chunks + i"]) auto
          qed
        qed
        have "sending a w (chunks @ cs) (st2\<lparr>m_IsAckSendScheduled := False, m_SentPackets := sent\<rparr>, d3)"
          using sending_sent [OF s2(1) _ all] insert_all_ok [OF sent ok2] d3 by (simp add: sending_def)
        moreover have "started (chunks @ cs) (st2\<lparr>m_IsAckSendScheduled := False, m_SentPackets := sent\<rparr>, d3)" using s2(2) by (simp add: started_def)
        ultimately have s4: "sending a w (chunks @ cs) (st4, d4)" "started (chunks @ cs) (st4, d4)"
          using tx_sending [OF Stream_SendPackets_tx [OF snd]] by blast+
        have "explains (chunks @ cs) p" if p: "p \<in> set l" for p
        proof -
          obtain i where "i < length ps" "p = (ps ! i)\<lparr>sendTime := ts\<rparr>" using p by (auto simp: l in_set_conv_nth)
          then show ?thesis using cs unfolding explains_def by (intro disjI2 exI [of _ "length chunks + i"]) simp
        qed
        moreover have "handed a l (st4, d4) (length chunks + i) (cs ! i)" if "i < length cs" for i
          unfolding handed_def using that cs by (intro exI [of _ "(ps ! i)\<lparr>sendTime := ts\<rparr>"]) (simp add: l)
        ultimately show "\<exists>cs. sending a w (chunks @ cs) (st4, d4) \<and> started (chunks @ cs) (st4, d4) \<and> (\<forall>p \<in> set l. explains (chunks @ cs) p) \<and>
            (\<forall>i < length cs. handed a l (st4, d4) (length chunks + i) (cs ! i))"
          using s4 by blast
      qed
      then show ?thesis
        by (rule tx_step_then_quiet) (use fin SendClose_step [OF assms(1), of a "(st4, d4)" s'] in \<open>auto split: if_splits\<close>)
    qed
  qed
qed

section \<open>Acknowledged packets\<close>

lemma acked_tx: "acked ts k p st = Some st' \<Longrightarrow> tx (st', d) = tx (st, d)"
  by (auto simp: acked_def tx_def Let_def split: if_splits)

text \<open>Exactly the packets up to the acknowledged number that are not listed as missing are forgotten.\<close>

lemma ack_loop_exact:
  assumes "ack_loop ts t ns m st = Some (b, m', st')" and "smap_ok m"
  shows "m' = filter (\<lambda>(k, p). t < k \<or> k \<in> set ns) m \<and> (b \<longleftrightarrow> (\<exists>(k, p) \<in> set m. k \<le> t \<and> k \<notin> set ns)) \<and> tx (st', d) = tx (st, d)"
  using assms
proof (induction m arbitrary: st b m')
  case (Cons e m)
  obtain k p where e: "e = (k, p)" by (cases e)
  have ok: "smap_ok m" "\<forall>(k', p') \<in> set m. k < k'" using Cons.prems(2) by (auto simp: e smap_ok_def)
  consider (later) "t < k" | (missing) "k \<le> t" "k \<in> set ns" | (acked) "k \<le> t" "k \<notin> set ns" by force
  then show ?case
  proof cases
    case later
    then have a: "\<forall>(k', p') \<in> set m. t < k' \<and> \<not> k' \<le> t" using ok(2) by (auto simp: not_le)
    then have "filter (\<lambda>(k, p). t < k \<or> k \<in> set ns) m = m" by (intro filter_True) auto
    moreover have "\<not> k \<le> t" using later by (simp add: not_le)
    ultimately show ?thesis using Cons.prems(1) later a by (auto simp: e)
  next
    case missing
    then obtain m1 where m1: "ack_loop ts t ns m st = Some (b, m1, st')" "m' = (k, p) # m1" using Cons.prems(1) by (auto simp: e)
    show ?thesis using Cons.IH [OF m1(1) ok(1)] missing m1(2) by (simp add: e)
  next
    case acked
    obtain st1 b1 where 1: "acked ts k p st = Some st1" "ack_loop ts t ns m st1 = Some (b1, m', st')" "b"
      using Cons.prems(1) acked by (auto simp: e split: bind_splits)
    show ?thesis using Cons.IH [OF 1(2) ok(1)] acked_tx [OF 1(1), of d] 1(3) acked by (auto simp: e)
  qed
qed simp

lemma ProcessAck_step:
  assumes "owner_ok E" and "ProcessAck_log E a p s = Some (l, s')"
  shows "tx_step a l s s'"
proof -
  obtain st d where sd: "s = (st, d)" by (cases s)
  obtain ts d1 where t: "now_ms E d = (ts, d1)" by (cases "now_ms E d")
  have d1: "tasks d1 = tasks d" using now_ms_router_only [of d E d] t router_onlyD by fastforce
  obtain at nc ns b sent st1 st3 d3 where al: "ack_loop ts at ns (m_SentPackets st) st = Some (b, sent, st1)"
      and 3: "(if b then SendBuffer_log E a (st1\<lparr>m_SentPackets := sent, m_NumResendAttempts := 0\<rparr>, d1)
                      else Some ([], st1\<lparr>m_SentPackets := sent\<rparr>, d1)) = Some (l, st3, d3)"
      and f: "(if m_Status st3 = eStreamStatusClosing then Stream_Close E a (st3, d3) else Some (st3, d3)) = Some s'"
    using assms(2) by (auto simp: ProcessAck_log_def sd t Let_def split: bind_splits if_splits)
  have 1: "tx_step a [] s (st1\<lparr>m_SentPackets := sent, m_NumResendAttempts := n\<rparr>, d1)" for n
  proof (rule tx_step_same)
    show "waits_on a [] s (st1\<lparr>m_SentPackets := sent, m_NumResendAttempts := n\<rparr>, d1)" by (simp add: waits_on_def sd d1)
    fix w chunks assume s: "sending a w chunks s" "started chunks s"
    then have ok: "smap_ok (m_SentPackets st)" by (simp add: sending_def sd)
    have x: "sent = filter (\<lambda>(k, p). at < k \<or> k \<in> set ns) (m_SentPackets st)" "tx (st1, d1) = tx (st, d)"
      using ack_loop_exact [OF al ok, of d1] d1 by (auto simp: tx_def)
    from tx_sending [OF x(2)] s sd have s1: "sending a w chunks (st1, d1)" "started chunks (st1, d1)" by blast+
    have "sending a w chunks (st1\<lparr>m_SentPackets := sent\<rparr>, d1)"
      by (rule sending_sent [OF s1(1)]) (use x(1) s sd smap_ok_filter [OF ok] in \<open>auto simp: sending_def\<close>)
    then show "sending a w chunks (st1\<lparr>m_SentPackets := sent, m_NumResendAttempts := n\<rparr>, d1) \<and>
        started chunks (st1\<lparr>m_SentPackets := sent, m_NumResendAttempts := n\<rparr>, d1) \<and> (\<forall>p \<in> set []. explains chunks p)"
      using s1(2) by (simp add: sending_def started_def)
  qed
  have "tx_step a l s (st3, d3)"
  proof (cases b)
    case True
    then have "SendBuffer_log E a (st1\<lparr>m_SentPackets := sent, m_NumResendAttempts := 0\<rparr>, d1) = Some (l, st3, d3)" using 3 by simp
    from tx_step_quiet [OF 1 SendBuffer_step [OF assms(1) this]] show ?thesis .
  next
    case False
    have "st1\<lparr>m_SentPackets := sent, m_NumResendAttempts := m_NumResendAttempts st1\<rparr> = st1\<lparr>m_SentPackets := sent\<rparr>" by simp
    then show ?thesis using 3 False 1 [of "m_NumResendAttempts st1"] by (auto simp del: Stream.simps)
  qed
  then show ?thesis
    by (rule tx_step_then_quiet) (use f Stream_Close_step [OF assms(1), of a "(st3, d3)" s'] in \<open>auto split: if_splits\<close>)
qed

section \<open>The other operations\<close>

lemma rx_only_tx [simp]: "tx (st\<lparr>m_ReceiveQueue := q\<rparr>, d) = tx (st, d)" "tx (st\<lparr>m_LastReceivedSequenceNumber := n\<rparr>, d) = tx (st, d)"
  "tx (st\<lparr>m_SavedPackets := m\<rparr>, d) = tx (st, d)" "tx (st\<lparr>m_IsAckSendScheduled := b\<rparr>, d) = tx (st, d)" "tx (st\<lparr>m_RemoteIdentity := i\<rparr>, d) = tx (st, d)"
  "tx (st\<lparr>strNumReceivedBytes := k\<rparr>, d) = tx (st, d)" "tx (st\<lparr>m_SendStreamID := j\<rparr>, d) = tx (st, d)" "tx (st\<lparr>m_RTO := r\<rparr>, d) = tx (st, d)"
  "tx (st\<lparr>m_NumResendAttempts := l\<rparr>, d) = tx (st, d)" "tx (st\<lparr>m_WindowSize := wn\<rparr>, d) = tx (st, d)" "tx (st\<lparr>m_CurrentOutboundTunnel := o'\<rparr>, d) = tx (st, d)"
  by (simp_all add: tx_def)

lemma tx_step_tx: "tx s1 = tx s \<Longrightarrow> tx_step a l s1 s' \<Longrightarrow> tx_step a l s s'"
  using tx_step_eq tx_step_quiet by blast

lemma process_signature_step:
  assumes "owner_ok E" and "process_signature E a od p s = Some (b, s')"
  shows "tx_step a [] s s'"
proof -
  obtain i where "b \<and> s' = ((fst s)\<lparr>m_RemoteIdentity := i\<rparr>, snd s) \<or> Stream_Close E a ((fst s)\<lparr>m_RemoteIdentity := i\<rparr>, snd s) = Some s'"
    using assms(2) by (auto simp: process_signature_def Let_def case_prod_beta split: bind_splits if_splits)
  then show ?thesis
  proof
    assume "Stream_Close E a ((fst s)\<lparr>m_RemoteIdentity := i\<rparr>, snd s) = Some s'"
    from Stream_Close_step [OF assms(1) this] show ?thesis by (rule tx_step_tx [rotated]) simp
  qed (simp add: tx_step_eq)
qed

lemma process_options_step:
  assumes "owner_ok E" and "process_options E a f p s = Some (b, s')"
  shows "tx_step a [] s s'"
proof -
  obtain st d where sd: "s = (st, d)" by (cases s)
  obtain od0 where od0: "GetOptionData p = Some od0" using assms(2) by (auto simp: process_options_def sd split: bind_splits)
  let ?od1 = "if f AND PACKET_FLAG_DELAY_REQUESTED \<noteq> 0 then od0 + 2 else od0"
  let ?from = "if f AND PACKET_FLAG_FROM_INCLUDED \<noteq> 0 then do {
          n \<leftarrow> GetOptionSize p;
          (l, i) \<leftarrow> FromBuffer (gsha (gen (rtr E))) ?od1 (unat n) (pbuf p) (m_RemoteIdentity st);
          Some (?od1 + l, st\<lparr>m_RemoteIdentity := i\<rparr>)
        } else Some (?od1, st)"
  obtain r where r: "?from = Some r"
    using assms(2) by (cases ?from) (simp_all add: process_options_def sd od0 Let_def split del: if_split)
  obtain od2 st1 where r1: "r = (od2, st1)" by (cases r)
  have t: "tx (st1, d) = tx s" using r r1 sd by (auto split: if_splits bind_splits)
  obtain od3 where "(if f AND PACKET_FLAG_SIGNATURE_INCLUDED \<noteq> 0 then process_signature E a od3 p (st1, d) else Some (True, st1, d)) = Some (b, s')"
    using assms(2) by (simp add: process_options_def sd od0 Let_def r [unfolded r1] split: bind_splits split del: if_split)
  then have "tx_step a [] (st1, d) s'" using process_signature_step [OF assms(1), of a od3 p "(st1, d)" b s'] by (auto split: if_splits)
  then show ?thesis by (rule tx_step_tx [OF t])
qed

lemma ProcessPacket_step:
  assumes "owner_ok E" and "ProcessPacket E a p s = Some s'"
  shows "tx_step a [] s s'"
proof -
  obtain st' d' where s': "s' = (st', d')" by (cases s')
  from assms(2) [unfolded s'] obtain seqn flags ok st2 d2 o' where o: "process_options E a flags p s = Some (ok, st2, d2)"
      and f: "(if \<not> ok \<or> flags AND (PACKET_FLAG_CLOSE OR PACKET_FLAG_RESET) \<noteq> 0
        then Stream_Close E a (st2\<lparr>m_ReceiveQueue := enqueue o' p (m_ReceiveQueue st2), m_LastReceivedSequenceNumber := seqn,
          m_Status := eStreamStatusReset\<rparr>, d2)
        else Some (st2\<lparr>m_ReceiveQueue := enqueue o' p (m_ReceiveQueue st2), m_LastReceivedSequenceNumber := seqn\<rparr>, d2)) = Some (st', d')"
    by (rule ProcessPacket_parts)
  let ?st3 = "st2\<lparr>m_ReceiveQueue := enqueue o' p (m_ReceiveQueue st2), m_LastReceivedSequenceNumber := seqn\<rparr>"
  have "tx_step a [] s (st2, d2)" by (rule process_options_step [OF assms(1) o])
  also have "tx_step a [] (st2, d2) (?st3, d2)" by (rule tx_step_eq) simp
  also have "tx_step a [] (?st3, d2) s'" using f reset_close_step [OF assms(1), of a ?st3 d2 s'] s' by (auto split: if_splits)
  finally show ?thesis .
qed

lemma process_saved_step:
  assumes "owner_ok E" and "process_saved E a ps s = Some s'"
  shows "tx_step a [] s s'"
  using assms(2)
proof (induction ps arbitrary: s)
  case (Cons e ps)
  obtain st d k p where sd: "s = (st, d)" "e = (k, p)" by (cases s; cases e)
  show ?case
  proof (cases "k = m_LastReceivedSequenceNumber st + 1")
    case True
    then obtain s1 where s1: "ProcessPacket E a p (st\<lparr>m_SavedPackets := ps\<rparr>, d) = Some s1" "process_saved E a ps s1 = Some s'"
      using Cons.prems by (auto simp: sd split: bind_splits)
    have "tx_step a [] s s1" using ProcessPacket_step [OF assms(1) s1(1)] by (rule tx_step_tx [rotated]) (simp add: sd)
    then show ?thesis using Cons.IH [OF s1(2)] by (rule tx_step_quiet)
  qed (use Cons.prems in \<open>simp add: sd\<close>)
qed simp

lemma SendQuickAck_step:
  assumes "owner_ok E" and "SendQuickAck_log E s = Some (l, s')"
  shows "tx_step a l s s'"
proof -
  obtain st d where sd: "s = (st, d)" by (cases s)
  show ?thesis
  proof (cases "sint (last_seen st) < 0")
    case True
    then show ?thesis using assms(2) by (simp add: SendQuickAck_log_def sd)
  next
    case False
    then obtain q where q: "ack_packet (fst (new_packet E d)) st = Some q" "l = [q]" "Stream_SendPackets E [q] (st, snd (new_packet E d)) = Some s'"
      using assms(2) by (auto simp: SendQuickAck_log_def sd Let_def case_prod_beta split: bind_splits dest!: SendPackets_logD)
    have "tx (st, snd (new_packet E d)) = tx (st, d)" using new_packet_router_only [of d E d] by (intro route_tx) auto
    then have "tx s' = tx s" using Stream_SendPackets_tx [OF q(3)] sd by simp
    moreover have "plain_ack q" using ack_packet_plain [OF q(1)] new_packet_ok [OF assms(1), of d] by simp
    ultimately show ?thesis by (intro tx_step_log) (simp_all add: q(2) explains_def)
  qed
qed

lemma HandleNextPacket_step:
  assumes "owner_ok E" and "HandleNextPacket_log E a p s = Some (l, s')"
  shows "tx_step a l s s'"
proof -
  obtain st d where sd: "s = (st, d)" by (cases s)
  obtain rid noAck where g1: "GetReceiveStreamID p = Some rid" "IsNoAck p = Some noAck"
    using assms(2) by (auto simp: HandleNextPacket_log_def sd Let_def split: bind_splits)
  let ?st1 = "st\<lparr>strNumReceivedBytes := strNumReceivedBytes st + Packet_GetLength p,
          m_SendStreamID := (if m_SendStreamID st = 0 then rid else m_SendStreamID st)\<rparr>"
  let ?r = "if noAck then Some ([], ?st1, d) else ProcessAck_log E a p (?st1, d)"
  obtain l1 st2 d2 where s2: "?r = Some (l1, st2, d2)"
    using assms(2) by (cases ?r) (auto simp: HandleNextPacket_log_def sd Let_def g1 split del: if_split)
  have 1: "tx_step a l1 s (st2, d2)"
    using s2 ProcessAck_step [OF assms(1), of a p "(?st1, d)" l1 "(st2, d2)"]
    by (intro tx_step_tx [of "(?st1, d)" s]) (auto simp: sd split: if_splits)
  note H = assms(2) [unfolded HandleNextPacket_log_def sd prod.case Let_def g1 bind.bind_lunit s2]
  have sv: "tx (st3, d2) = tx (st2, d2)" if "SavePacket p st2 = Some st3" for st3 using that by (auto simp: SavePacket_def)
  have Q: "tx_step a l2 (st2, d2) s'" if "SendQuickAck_log E (st3, d2) = Some (l2, s')" "tx (st3, d2) = tx (st2, d2)" for st3 l2
    using tx_step_tx [OF that(2) SendQuickAck_step [OF assms(1) that(1)]] .
  obtain l2 where l2: "l = l1 @ l2" "tx_step a l2 (st2, d2) s'"
  proof -
    consider "l = l1" "tx s' = tx (st2, d2)"
      | l2 st3 where "l = l1 @ l2" "SendQuickAck_log E (st3, d2) = Some (l2, s')" "tx (st3, d2) = tx (st2, d2)"
      | l2 s3 s4 where "ProcessPacket E a p (st2, d2) = Some s3" "process_saved E a (m_SavedPackets (fst s3)) s3 = Some s4"
          "l = l1 @ l2" "l2 = [] \<and> tx s' = tx s4 \<or> SendBuffer_log E a s4 = Some (l2, s')"
      using H by (auto split: bind_splits if_splits dest!: sv)
    then show ?thesis
    proof cases
      case 1
      show ?thesis by (rule that [of "[]"]) (use 1 tx_step_eq [OF 1(2)] in simp_all)
    next
      case (2 l2 st3)
      then show ?thesis using that Q by blast
    next
      case (3 l2 s3 s4)
      have "tx_step a [] (st2, d2) s3" by (rule ProcessPacket_step [OF assms(1) 3(1)])
      also have "tx_step a [] s3 s4" by (rule process_saved_step [OF assms(1) 3(2)])
      also have "tx_step a l2 s4 s'" using 3(4) SendBuffer_step [OF assms(1)] tx_step_eq by blast
      finally show ?thesis using that 3(3) by blast
    qed
  qed
  show ?thesis unfolding l2(1) by (rule tx_step_trans [OF 1 l2(2)])
qed

lemma SendPacket_step:
  assumes "SendPacket_log E p (st, d) = Some (l, s')" and "sending a w chunks (st, d)" and "started chunks (st, d)"
    and "\<exists>n < length chunks. GetSeqn p = Some (of_nat n) \<and> sends p n (chunks ! n)"
  shows "sending a w chunks s' \<and> started chunks s'"
proof -
  obtain st1 d1 where 1: "Stream_SendPackets E [p] (st\<lparr>m_IsAckSendScheduled := False\<rparr>, d) = Some (st1, d1)"
      and f: "(if m_Status st1 = eStreamStatusOpen then do { sent \<leftarrow> packet_insert p (m_SentPackets st1); Some (st1\<lparr>m_SentPackets := sent\<rparr>, d1) }
        else Some (st1, d1)) = Some s'"
    using assms(1) by (auto simp: SendPacket_log_def split: bind_splits if_splits dest!: SendPackets_logD)
  have "tx (st1, d1) = tx (st, d)" using Stream_SendPackets_tx [OF 1] by simp
  from tx_sending [OF this] assms(2,3) have s1: "sending a w chunks (st1, d1)" "started chunks (st1, d1)" by blast+
  show ?thesis
  proof (cases "m_Status st1 = eStreamStatusOpen")
    case True
    then obtain sent where sent: "packet_insert p (m_SentPackets st1) = Some sent" "s' = (st1\<lparr>m_SentPackets := sent\<rparr>, d1)"
      using f by (auto split: bind_splits)
    note ok = packet_insert_ok [OF sent(1)]
    have "sending a w chunks (st1\<lparr>m_SentPackets := sent\<rparr>, d1)"
      by (rule sending_sent [OF s1(1)]) (use ok s1(1) assms(4) in \<open>fastforce simp: sending_def\<close>)+
    then show ?thesis using s1(2) sent(2) by (simp add: started_def)
  next
    case False
    then show ?thesis using f s1 by simp
  qed
qed

lemma SendPacket_tasks:
  assumes "SendPacket_log E p (st, d) = Some (l, s')"
  shows "l = [p] \<and> tasks (snd s') = tasks d"
proof -
  obtain st1 d1 where 1: "l = [p]" "Stream_SendPackets E [p] (st\<lparr>m_IsAckSendScheduled := False\<rparr>, d) = Some (st1, d1)" "snd s' = d1"
    using assms by (auto simp: SendPacket_log_def split: bind_splits if_splits dest!: SendPackets_logD)
  then show ?thesis using Stream_SendPackets_tx [OF 1(2)] by (simp add: tx_def)
qed

lemma run_posted_step:
  assumes "owner_ok E" and "run_posted_log E a i s = Some (l, s')"
  shows "tx_step a l s s'"
proof -
  obtain st d where sd: "s = (st, d)" by (cases s)
  let ?d1 = "d\<lparr>tasks := take i (tasks d) @ drop (Suc i) (tasks d)\<rparr>"
  have sub: "set (tasks ?d1) \<subseteq> set (tasks d)" using set_take_subset set_drop_subset by fastforce
  have rest: "t = tasks d ! i \<or> t \<in> set (tasks ?d1)" if "i < length (tasks d)" "t \<in> set (tasks d)" for t
    using that(2) arg_cong [OF id_take_nth_drop [OF that(1)], of set] by auto
  have del: "sending a w chunks (st, ?d1)" if "sending a w chunks (st, d)" for w chunks
    using that sub unfolding sending_def by auto
  note H = assms(2) [unfolded run_posted_log_def sd prod.case Let_def]
  consider "l = []" "s' = s" | "i < length (tasks d)" "tasks d ! i = TSendBuffer a" "SendBuffer_log E a (st, ?d1) = Some (l, s')"
    | p where "i < length (tasks d)" "tasks d ! i = TSendPacket a p" "SendPacket_log E p (st, ?d1) = Some (l, s')"
  proof (cases "i < length (tasks d)")
    case True
    show ?thesis
    proof (cases "tasks d ! i")
      case (TSendBuffer b)
      show ?thesis
        by (cases "b = a") (use True H TSendBuffer that(1,2) sd in simp_all)
    next
      case (TSendPacket b p)
      show ?thesis
        by (cases "b = a") (use True H TSendPacket that(1) that(3) [of p] sd in simp_all)
    qed
  next
    case False
    show ?thesis by (rule that(1)) (use False H sd in simp_all)
  qed
  then show ?thesis
  proof cases
    case 2
    have "tx_step a [] s (st, ?d1)"
      by (rule tx_step_same) (use del rest [OF 2(1)] 2(2) in \<open>fastforce simp: sd started_def waits_on_def\<close>)+
    then show ?thesis using SendBuffer_step [OF assms(1) 2(3)] by (rule tx_step_quiet)
  next
    case (3 p)
    note t = SendPacket_tasks [OF 3(3)]
    show ?thesis
    proof (rule tx_step_same)
      show "waits_on a l s s'" unfolding waits_on_def using rest [OF 3(1)] 3(2) t by (fastforce simp: sd)
      fix w chunks assume s: "sending a w chunks s" "started chunks s"
      have p: "\<exists>n < length chunks. GetSeqn p = Some (of_nat n) \<and> sends p n (chunks ! n)"
        using s(1) nth_mem [OF 3(1)] 3(2) by (auto simp: sending_def sd)
      have "started chunks (st, ?d1)" "sending a w chunks (st, ?d1)" using s del by (simp_all add: started_def sd)
      from SendPacket_step [OF 3(3) this(2,1) p] p t
      show "sending a w chunks s' \<and> started chunks s' \<and> (\<forall>p \<in> set l. explains chunks p)" by (auto simp: explains_def)
    qed
  qed simp
qed

lemma due_packets_sending:
  assumes "sending a w chunks (st, d)" and "due_packets ts rto (m_SentPackets st) = (sent, ps)"
  shows "sending a w chunks (st\<lparr>m_SentPackets := sent\<rparr>, d)"
proof (rule sending_sent [OF assms(1)])
  have s: "sent = map (\<lambda>(k, p). (k, if ts \<ge> sendTime p + of_int rto then p\<lparr>sendTime := ts\<rparr> else p)) (m_SentPackets st)"
    using assms(2) by (simp add: due_packets_def Let_def)
  have "map fst sent = map fst (m_SentPackets st)" by (simp add: s case_prod_beta)
  then show "smap_ok sent" using assms(1) by (simp add: smap_ok_def sending_def)
  show "\<forall>(k, p) \<in> set sent. \<exists>n < length chunks. k = of_nat n \<and> GetSeqn p = Some k \<and> sends p n (chunks ! n)"
    using assms(1) by (auto simp: s sending_def)
qed

lemma due_packets_explained:
  assumes "sending a w chunks (st, d)" and "due_packets ts rto (m_SentPackets st) = (sent, ps)" and "p \<in> set ps"
  shows "explains chunks p"
proof -
  have "ps = map (\<lambda>(k, p). p\<lparr>sendTime := ts\<rparr>) (filter (\<lambda>(k, p). ts \<ge> sendTime p + of_int rto) (m_SentPackets st))"
    using assms(2) by (simp add: due_packets_def Let_def)
  then obtain k q where q: "(k, q) \<in> set (m_SentPackets st)" "p = q\<lparr>sendTime := ts\<rparr>" using assms(3) by auto
  then show ?thesis using assms(1) by (auto simp: sending_def explains_def)
qed

lemma change_route_tx: "tx (change_route E s) = tx s"
proof -
  have u: "tx (UpdateCurrentRemoteLease E False (st', d')) = tx (st', d')" for st' d'
    using UpdateCurrentRemoteLease_frame(1) [of st' E False st' d'] UpdateCurrentRemoteLease_frame(2) [of d' E False st' d']
    by (cases "UpdateCurrentRemoteLease E False (st', d')") (simp add: route_tx)
  have r: "tx (st', d'\<lparr>rs := x\<rparr>) = tx (st', d')" for st' and d' :: "'a sdest" and x by (simp add: tx_def)
  show ?thesis by (cases s) (simp add: change_route_def u r case_prod_beta Let_def)
qed

lemma HandleResendTimer_step:
  assumes "owner_ok E" and "HandleResendTimer_log E a b s = Some (l, s')"
  shows "tx_step a l s s'"
proof -
  obtain st d where sd: "s = (st, d)" by (cases s)
  obtain ts d1 where t: "now_ms E d = (ts, d1)" by (cases "now_ms E d")
  have d1: "tasks d1 = tasks d" using now_ms_router_only [of d E d] t router_onlyD by fastforce
  obtain sent ps where due: "due_packets ts (m_RTO st) (m_SentPackets st) = (sent, ps)" by fastforce
  have 1: "tx_step a l s (st\<lparr>m_SentPackets := sent\<rparr>, d1)" if "set l \<subseteq> set ps"
  proof (rule tx_step_same)
    show "waits_on a l s (st\<lparr>m_SentPackets := sent\<rparr>, d1)" by (simp add: waits_on_def sd d1)
    fix w chunks assume s: "sending a w chunks s" "started chunks s"
    have "sending a w chunks (st\<lparr>m_SentPackets := sent\<rparr>, d1)"
      using due_packets_sending [OF s(1) [unfolded sd] due] d1 by (simp add: sending_def)
    then show "sending a w chunks (st\<lparr>m_SentPackets := sent\<rparr>, d1) \<and> started chunks (st\<lparr>m_SentPackets := sent\<rparr>, d1) \<and>
        (\<forall>p \<in> set l. explains chunks p)"
      using s(2) that due_packets_explained [OF s(1) [unfolded sd] due] by (auto simp: started_def sd)
  qed
  let ?s3 = "change_route E (st\<lparr>m_SentPackets := sent, m_NumResendAttempts := m_NumResendAttempts st + 1, m_RTO := m_RTO st * 2\<rparr>, d1)"
  note H = assms(2) [unfolded HandleResendTimer_log_def sd prod.case t due Let_def]
  consider "b" | "\<not> b" "m_NumResendAttempts st \<ge> MAX_NUM_RESEND_ATTEMPTS" | "\<not> b" "\<not> m_NumResendAttempts st \<ge> MAX_NUM_RESEND_ATTEMPTS" "ps = []"
    | "\<not> b" "\<not> m_NumResendAttempts st \<ge> MAX_NUM_RESEND_ATTEMPTS" "ps \<noteq> []" by blast
  then show ?thesis
  proof cases
    case 1
    then show ?thesis using H sd by simp
  next
    case 2
    then show ?thesis using H reset_close_step [OF assms(1), of a st d s'] sd by (auto simp: silent_def)
  next
    case 3
    then have "l = []" "s' = (st\<lparr>m_SentPackets := sent\<rparr>, d1)" using H by simp_all
    then show ?thesis using 1 by simp
  next
    case 4
    then have s3: "l = ps" "Stream_SendPackets E ps ?s3 = Some s'" using H by (auto dest!: SendPackets_logD)
    have "tx s' = tx (st\<lparr>m_SentPackets := sent\<rparr>, d1)" using Stream_SendPackets_tx [OF s3(2)] by (simp add: change_route_tx)
    from tx_step_then_quiet [OF 1 tx_step_eq [OF this]] s3(1) show ?thesis by simp
  qed
qed

lemma HandleAckSendTimer_step:
  assumes "owner_ok E" and "HandleAckSendTimer_log E a s = Some (l, s')"
  shows "tx_step a l s s'"
proof -
  obtain st d where sd: "s = (st, d)" by (cases s)
  consider "l = []" "Stream_Close E a (st\<lparr>m_Status := eStreamStatusReset\<rparr>, d) = Some s'" | "l = []" "tx s' = tx s"
    | st1 d1 where "SendQuickAck_log E s = Some (l, st1, d1)" "s' = (st1\<lparr>m_IsAckSendScheduled := False\<rparr>, d1)"
    using assms(2) by (auto simp: HandleAckSendTimer_log_def sd silent_def split: if_splits)
  then show ?thesis
  proof cases
    case 1
    then show ?thesis using reset_close_step [OF assms(1)] sd by simp
  next
    case 2
    then show ?thesis using tx_step_eq by simp
  next
    case (3 st1 d1)
    from SendQuickAck_step [OF assms(1) 3(1)] show ?thesis by (rule tx_step_then_quiet) (simp add: 3(2) tx_step_eq)
  qed
qed

section \<open>Sending, for all runs\<close>

fun written_by :: "sop \<Rightarrow> bytes" where
  "written_by (Write buf) = buf"
| "written_by (WriteAsync buf h) = buf"
| "written_by _ = []"

lemma Stream_Send_sending:
  assumes "sending a w chunks s" and "started chunks s"
  shows "sending a (w @ buf) chunks (Stream_Send a buf s) \<and> started chunks (Stream_Send a buf s)"
  using assms by (cases s) (auto simp: sending_def started_def Stream_Send_def)

lemma AsyncSend_tx:
  obtains s1 where "AsyncSend a buf h s = Stream_Send a buf s1" "tx s1 = tx s"
  by (cases s; cases "m_SendHandler (fst s)") (auto simp: AsyncSend_def tx_def)

lemma AsyncSend_sending:
  assumes "sending a w chunks s" and "started chunks s"
  shows "sending a (w @ buf) chunks (AsyncSend a buf h s) \<and> started chunks (AsyncSend a buf h s)"
proof -
  obtain s1 where s1: "AsyncSend a buf h s = Stream_Send a buf s1" "tx s1 = tx s" by (rule AsyncSend_tx)
  from tx_sending [OF s1(2)] assms have "sending a w chunks s1" "started chunks s1" by blast+
  then show ?thesis unfolding s1(1) by (rule Stream_Send_sending)
qed

lemma Stream_Send_waits: "waits_on a l s (Stream_Send a buf s)"
  by (cases s) (auto simp: waits_on_def Stream_Send_def)

lemma AsyncSend_waits: "waits_on a l s (AsyncSend a buf h s)"
proof -
  obtain s1 where s1: "AsyncSend a buf h s = Stream_Send a buf s1" "tx s1 = tx s" by (rule AsyncSend_tx)
  show ?thesis using Stream_Send_waits [of a l s1 buf] tx_waits [OF s1(2), of a l] by (auto simp: s1(1) waits_on_def)
qed

lemma run_step_new:
  assumes "waits_on a [] s s'" and "\<And>w chunks. sending a w chunks s \<Longrightarrow> started chunks s \<Longrightarrow> sending a (w @ new) chunks s' \<and> started chunks s'"
  shows "run_step a [] new s s'"
  unfolding run_step_def using assms by (auto intro!: exI [of _ "[]"])

lemma stream_op_step:
  assumes "owner_ok E" and "stream_op_log E a op s = Some (l, out, s')"
  shows "run_step a l (written_by op) s s'"
proof (cases op)
  case (Arrive p)
  then show ?thesis using assms(2) HandleNextPacket_step [OF assms(1), of a p s] by (auto simp: tx_step_def)
next
  case (Read n)
  then have "l = []" "tx s' = tx s" using assms(2) by (cases s, auto simp: ReadSome_def)+
  then show ?thesis using Read tx_step_eq by (simp add: tx_step_def [symmetric])
next
  case (Write buf)
  then show ?thesis using assms(2) by (auto intro!: run_step_new Stream_Send_waits simp: Stream_Send_sending)
next
  case (WriteAsync buf h)
  then show ?thesis using assms(2) by (auto intro!: run_step_new AsyncSend_waits simp: AsyncSend_sending)
next
  case Close
  then show ?thesis using assms(2) Stream_Close_step [OF assms(1), of a s] by (auto simp: tx_step_def)
next
  case (RunPosted i)
  then show ?thesis using assms(2) run_posted_step [OF assms(1), of a i s] by (auto simp: tx_step_def)
next
  case (ResendTimer b)
  then show ?thesis using assms(2) HandleResendTimer_step [OF assms(1), of a b s] by (auto simp: tx_step_def)
next
  case AckTimer
  then show ?thesis using assms(2) HandleAckSendTimer_step [OF assms(1), of a s] by (auto simp: tx_step_def)
qed

lemma stream_op_sending:
  assumes "owner_ok E" and "stream_op E a op s = Some (out, s')" and "sending a w chunks s" and "started chunks s"
  shows "\<exists>cs. sending a (w @ written_by op) (chunks @ cs) s' \<and> started (chunks @ cs) s'"
proof -
  obtain l where "stream_op_log E a op s = Some (l, out, s')" using assms(2) stream_op_erase [of E a op s] by auto
  from stream_op_step [OF assms(1) this] assms(3,4) show ?thesis unfolding run_step_def by blast
qed

text \<open>The packets that a stream may still put on the wire: those not acknowledged and those posted.\<close>

definition outgoing :: "nat \<Rightarrow> Stream \<times> 'g sdest \<Rightarrow> Packet set" where
  "outgoing a = (\<lambda>(st, d). snd ` set (m_SentPackets st) \<union> {p. TSendPacket a p \<in> set (tasks d)})"

lemma outgoing_sends: "sending a w chunks s \<Longrightarrow> p \<in> outgoing a s \<Longrightarrow> \<exists>n < length chunks. sends p n (chunks ! n)"
  by (cases s) (force simp: sending_def outgoing_def)

lemma stream_run_step:
  assumes "owner_ok E" and "stream_run_log E a ops s = Some (hist, out, s')"
  shows "run_step a hist (concat (map written_by ops)) s s'"
  using assms(2)
proof (induction ops arbitrary: s hist out)
  case (Cons op ops)
  obtain l o1 s1 ls o2 where op: "stream_op_log E a op s = Some (l, o1, s1)" "stream_run_log E a ops s1 = Some (ls, o2, s')" "hist = l @ ls"
    using Cons.prems by (auto split: bind_splits)
  from run_step_trans [OF stream_op_step [OF assms(1) op(1)] Cons.IH [OF op(2)]] show ?case by (simp add: op(3))
qed (simp add: tx_step_refl [unfolded tx_step_def])

text \<open>
  C11. What the user writes leaves a stream in numbered packets, in order and exactly once, whatever happens in
  between: the payloads of the packets numbered so far followed by the send buffer are the data written, and the next
  number is the number of packets. The history of the run, of which \<open>stream_run_erase\<close> shows that it is the run of the
  code with the packets handed to \<open>SendPackets\<close> as an additional result, holds every packet that was ever handed over:
  each of them, a resent one too, only acknowledges or carries the payload of its number, each number was handed over
  unless its packet (which closes the stream) is still posted, and so does every packet that is not acknowledged
  or is posted.
\<close>

theorem stream_sends_in_order:
  assumes "owner_ok E" and "stream_run_log E a ops (newStream rid port remote i l, d) = Some (hist, out, st', d')"
    and "\<forall>p. TSendPacket a p \<notin> set (tasks d)"
  shows "\<exists>chunks. concat chunks @ m_SendBuffer st' = concat (map written_by ops) \<and> m_SequenceNumber st' = of_nat (length chunks) \<and>
    (\<forall>p \<in> set hist. plain_ack p \<or> (\<exists>n < length chunks. sends p n (chunks ! n))) \<and>
    (\<forall>n < length chunks. \<exists>p. (p \<in> set hist \<or> TSendPacket a p \<in> set (tasks d')) \<and> sends p n (chunks ! n)) \<and>
    (\<forall>p \<in> outgoing a (st', d'). \<exists>n < length chunks. sends p n (chunks ! n))"
proof -
  have "sending a [] [] (newStream rid port remote i l, d)" "started [] (newStream rid port remote i l, d)"
    using assms(3) by (simp_all add: sending_def started_def newStream_def)
  with stream_run_step [OF assms(1,2)] obtain chunks where
    s: "sending a (concat (map written_by ops)) chunks (st', d')" "\<forall>p \<in> set hist. explains chunks p"
      "\<forall>n < length chunks. handed a hist (st', d') n (chunks ! n)"
    unfolding run_step_def by fastforce
  then show ?thesis using outgoing_sends [OF s(1)] by (auto simp: sending_def explains_def handed_def)
qed

end
