(* ===== verification/Stream_Link.thy ===== *)
theory Stream_Link
  imports Stream_Send
begin

text \<open>
  A sender and a receiver joined by a network that reorders, repeats and loses packets.
\<close>

section \<open>Two ends of a stream\<close>

text \<open>A packet as it comes out of the network: the bytes are those that were sent, the rest of the array is not.\<close>

definition copy_of :: "Packet \<Rightarrow> Packet \<Rightarrow> bool" where
  "copy_of p q \<longleftrightarrow> plen q = plen p \<and> poffset q = 0 \<and> length (pbuf q) = MAX_PACKET_SIZE \<and> plen p \<le> MAX_PACKET_SIZE \<and>
     take (plen p) (pbuf q) = take (plen p) (pbuf p)"

lemma mem_read_copy:
  assumes "take m b = take m b'" and "i + n \<le> m" and "m \<le> length b" and "m \<le> length b'"
  shows "mem_read i n b = mem_read i n b'"
proof -
  have "take n (drop i b) = take n (drop i (take m b))" using assms(2) by (simp add: drop_take min_def)
  also have "\<dots> = take n (drop i b')" using assms(2) by (simp add: assms(1) drop_take min_def)
  finally show ?thesis using assms(2-4) by (simp add: mem_read_def)
qed

lemma mem_get_copy: "take m b = take m b' \<Longrightarrow> i < m \<Longrightarrow> m \<le> length b \<Longrightarrow> m \<le> length b' \<Longrightarrow> mem_get i b = mem_get i b'"
  by (auto simp: mem_get_def dest: arg_cong [where f = "\<lambda>xs. xs ! i"])

lemma copy_fields:
  assumes c: "copy_of p q" and o: "Packet_GetPayload p = Some o'" "o' \<le> plen p" and l: "plen p \<le> length (pbuf p)"
  shows "GetSeqn q = GetSeqn p" "IsSYN q = IsSYN p" "Packet_GetPayload q = Some o'"
proof -
  obtain n w where n: "GetNACKCount p = Some n" "GetOptionSize p = Some w" "o' = 22 + 4 * unat n + unat w"
    using o(1) by (auto simp: Packet_GetPayload_def GetOptionData_def GetOption_def split: bind_splits)
  have b: "take (plen p) (pbuf q) = take (plen p) (pbuf p)" "plen p \<le> length (pbuf q)" using c by (simp_all add: copy_of_def)
  note r = mem_read_copy [OF b(1) _ b(2) l] and g = mem_get_copy [OF b(1) _ b(2) l]
  have nq: "GetNACKCount q = Some n" using n(1,3) o(2) g [of 16] by (simp add: GetNACKCount_def)
  have oq: "GetOption q = GetOption p" "GetOption p = Some (20 + 4 * unat n)" by (simp_all add: GetOption_def n(1) nq)
  have f: "GetFlags q = GetFlags p" "GetOptionSize q = GetOptionSize p"
    using r [of "18 + 4 * unat n" 2] r [of "20 + 4 * unat n" 2] n(3) o(2) by (simp_all add: GetFlags_def GetOptionSize_def oq mem_simps)
  show "GetSeqn q = GetSeqn p" using r [of 8 4] n(3) o(2) by (simp add: GetSeqn_def mem_simps)
  show "IsSYN q = IsSYN p" by (simp add: IsSYN_def f)
  show "Packet_GetPayload q = Some o'" using o(1) by (simp add: Packet_GetPayload_def GetOptionData_def oq f)
qed

lemma copy_sends:
  assumes "sends p n bs" and "copy_of p q"
  shows "plain_ack q \<or> carries q n bs"
proof -
  obtain o' where o: "Packet_GetPayload p = Some o'" "o' \<le> plen p" "plen p \<le> length (pbuf p)" using assms(1) by (auto simp: sends_def carries_def)
  show ?thesis
  proof (cases "carries p n bs")
    case True
    note f = copy_fields [OF assms(2) o]
    have t: "take (plen p - o') (drop o' (pbuf q)) = take (plen p - o') (drop o' (pbuf p))"
      using assms(2) by (simp add: copy_of_def flip: drop_take)
    then show ?thesis using True o(1) assms(2) by (auto simp: carries_def f copy_of_def)
  next
    case False
    then show ?thesis using assms(1) copy_fields [OF assms(2) o] by (auto simp: sends_def plain_ack_def)
  qed
qed

text \<open>
  A sender and a receiver and what may happen: the sender runs, and what it may send is added to the wire; the
  receiver runs; a copy of a packet from the wire or a plain acknowledgement reaches the receiver. The
  initial packet reaches it only while it is not synchronised.
\<close>

inductive link ::
  "'g senv \<Rightarrow> nat \<Rightarrow> 'h senv \<Rightarrow> nat \<Rightarrow> Stream \<times> 'g sdest \<Rightarrow> Stream \<times> 'h sdest \<Rightarrow> Packet set \<Rightarrow> bytes \<Rightarrow> bytes \<Rightarrow> bool"
  for E a F b where
  start: "\<forall>p. TSendPacket a p \<notin> set (tasks d) \<Longrightarrow>
    link E a F b (newStream rid port remote i l, d) (newStream rid' port' remote' i' l', d') {} [] []"
| send: "link E a F b s r W w out \<Longrightarrow> stream_op E a op s = Some (bs, s') \<Longrightarrow>
    link E a F b s' r (W \<union> outgoing a s') (w @ written_by op) out"
| receive: "link E a F b s r W w out \<Longrightarrow> stream_op F b op r = Some (bs, r') \<Longrightarrow> \<forall>p. op \<noteq> Arrive p \<Longrightarrow>
    link E a F b s r' W w (out @ bs)"
| deliver: "link E a F b s r W w out \<Longrightarrow> p \<in> W \<and> copy_of p q \<or> plain_ack q \<Longrightarrow>
    IsSYN q = Some True \<longrightarrow> m_LastReceivedSequenceNumber (fst r) = - 1 \<Longrightarrow> stream_op F b (Arrive q) r = Some (bs, r') \<Longrightarrow>
    link E a F b s r' W w out"

definition chunk :: "bytes list \<Rightarrow> nat \<Rightarrow> bytes" where
  "chunk chunks n = (if n < length chunks then chunks ! n else [])"

lemma concat_chunks: "n \<le> length chunks \<Longrightarrow> concat (map (chunk chunks) [0..<n]) = concat (take n chunks)"
proof -
  assume "n \<le> length chunks"
  then have "map (chunk chunks) [0..<n] = take n chunks" by (auto simp: chunk_def list_eq_iff_nth_eq)
  then show ?thesis by simp
qed

text \<open>A numbering of the data written: the payloads of all packets numbered so far, as the packets on the wire show it.\<close>

definition numbered :: "Stream \<Rightarrow> Packet set \<Rightarrow> bytes \<Rightarrow> bytes list \<Rightarrow> bool" where
  "numbered st W w chunks \<longleftrightarrow> m_SequenceNumber st = of_nat (length chunks) \<and> concat chunks @ m_SendBuffer st = w \<and>
     (\<forall>p \<in> W. \<exists>n < length chunks. sends p n (chunks ! n))"

lemma link_numbered:
  assumes "link E a F b s r W w out" and "owner_ok E"
  shows "\<exists>chunks. sending a w chunks s \<and> started chunks s \<and> (\<forall>p \<in> W. \<exists>n < length chunks. sends p n (chunks ! n))"
  using assms(1)
proof (induction rule: link.induct)
  case (start d rid port remote i l rid' port' remote' i' l' d')
  then show ?case by (intro exI [of _ "[]"]) (simp add: sending_def started_def newStream_def)
next
  case (send s r W w out op bs s')
  then obtain chunks where I: "sending a w chunks s" "started chunks s" "\<forall>p \<in> W. \<exists>n < length chunks. sends p n (chunks ! n)" by blast
  obtain cs where cs: "sending a (w @ written_by op) (chunks @ cs) s'" "started (chunks @ cs) s'"
    using stream_op_sending [OF assms(2) send.hyps(2) I(1,2)] by blast
  have "\<exists>n < length (chunks @ cs). sends p n ((chunks @ cs) ! n)" if "p \<in> W" for p
    using that I(3) by (metis (no_types, lifting) length_append nth_append trans_less_add1)
  then show ?case using cs outgoing_sends [OF cs(1)] by (intro exI [of _ "chunks @ cs"]) blast
qed blast+

lemma link_received:
  assumes "link E a F b s r W w out" and "\<forall>p \<in> W. \<exists>n < N. sends p n (pay n)" and "N < max_seqn"
  shows "\<exists>A n. A \<subseteq> {0..<N} \<and> n \<notin> A \<and> receiving pay A {k \<in> A. n < k} n out (fst r)"
  using assms(1,2)
proof (induction rule: link.induct)
  case (start d rid port remote i l rid' port' remote' i' l' d')
  show ?case by (intro exI [of _ "{}"] exI [of _ 0]) (simp add: receiving_def newStream_def)
next
  case (receive s r W w out op bs r')
  then obtain A n where A: "A \<subseteq> {0..<N}" "n \<notin> A" "receiving pay A {k \<in> A. n < k} n out (fst r)" by blast
  have z: "arrivals [op] = []" using receive.hyps(3) by (cases op) auto
  have "stream_run F b [op] (fst r, snd r) = Some (bs, fst r', snd r')" using receive.hyps(2) by simp
  from receive_run [OF A(3,2) this] have "\<exists>n'. receiving pay A {k \<in> A. n' < k} n' (out @ bs) (fst r') \<and> n' \<notin> A"
    by (simp add: z arrived_def syns_def)
  then show ?case using A(1) by blast
next
  case (deliver s r W w out p q bs r')
  then obtain A n where A: "A \<subseteq> {0..<N}" "n \<notin> A" "receiving pay A {k \<in> A. n < k} n out (fst r)" by blast
  have h: "Stream_HandleNextPacket F b q (fst r, snd r) = Some (fst r', snd r')" using deliver.hyps(4) by auto
  show ?case
  proof (cases "plain_ack q")
    case True
    then show ?thesis using A by (auto simp: receiving_rx [OF arrive_plain [OF True h]])
  next
    case False
    then obtain m where m: "m < N" "sends p m (pay m)" "copy_of p q" using deliver.hyps(2) deliver.prems by blast
    then have c: "carries q m (pay m)" "m < max_seqn" using copy_sends [OF m(2,3)] False assms(3) by auto
    have "m = 0 \<longrightarrow> 0 \<notin> A"
    proof
      assume "m = 0"
      then have "m_LastReceivedSequenceNumber (fst r) = - 1" using c(1) deliver.hyps(3) by (simp add: carries_def)
      then have "(of_nat n :: u32) = 0" using A(3) by (simp add: receiving_def)
      then show "0 \<notin> A" using A(2) of_nat_seqn_inject [of n 0] receiving_bound [OF A(3)] by simp
    qed
    from arrive_ok [OF A(3,2) c this h] A(1) m(1) show ?thesis by (metis atLeastLessThan_iff insert_subset le0)
  qed
qed blast

text \<open>
  C1. End to end: for every sequence of events at the sender, at the receiver and in the network (which may
  reorder, repeat and lose packets), what the user of the receiver has read and can read is a beginning of what the user
  of the sender wrote; and once the receiver has got as far as the sender has numbered, only what still
  waits in the send buffer is missing.
\<close>

theorem stream_end_to_end:
  assumes "link E a F b s r W w out" and "owner_ok E"
  shows "(\<exists>chunks. numbered (fst s) W w chunks) \<and>
    (\<forall>chunks. numbered (fst s) W w chunks \<and> length chunks < 2 ^ 31 - 1 \<longrightarrow>
       (\<exists>rest. out @ concat (map view (m_ReceiveQueue (fst r))) @ rest = w) \<and>
       (m_LastReceivedSequenceNumber (fst r) + 1 = m_SequenceNumber (fst s) \<longrightarrow>
          out @ concat (map view (m_ReceiveQueue (fst r))) @ m_SendBuffer (fst s) = w))"
proof (intro conjI allI impI)
  show "\<exists>chunks. numbered (fst s) W w chunks"
    using link_numbered [OF assms] by (cases s) (fastforce simp: numbered_def sending_def)
next
  fix chunks assume "numbered (fst s) W w chunks \<and> length chunks < 2 ^ 31 - 1"
  then have n: "m_SequenceNumber (fst s) = of_nat (length chunks)" "concat chunks @ m_SendBuffer (fst s) = w"
      "\<forall>p \<in> W. \<exists>n < length chunks. sends p n (chunk chunks n)" "length chunks < max_seqn"
    by (auto simp: numbered_def chunk_def)
  from link_received [OF assms(1) n(3,4)] obtain A k where A: "A \<subseteq> {0..<length chunks}" "receiving (chunk chunks) A {m \<in> A. k < m} k out (fst r)"
    by blast
  let ?got = "out @ concat (map view (m_ReceiveQueue (fst r)))"
  have "{0..<k} \<subseteq> A" using A(2) by (simp add: receiving_def)
  then have "{0..<k} \<subseteq> {0..<length chunks}" using A(1) by blast
  then have kl: "k \<le> length chunks" by (cases "k = 0") auto
  have "m_LastReceivedSequenceNumber (fst r) + 1 = of_nat k" "?got = concat (map (chunk chunks) [0..<k])"
    using A(2) by (simp_all add: receiving_def)
  then have k: "k \<le> length chunks" "m_LastReceivedSequenceNumber (fst r) + 1 = of_nat k" "?got = concat (take k chunks)"
    using concat_chunks [OF kl] kl by simp_all
  have "?got @ concat (drop k chunks) @ m_SendBuffer (fst s) = w"
    using n(2) k(3) by (metis append.assoc append_take_drop_id concat_append)
  then show "\<exists>rest. out @ concat (map view (m_ReceiveQueue (fst r))) @ rest = w" by auto
  show "out @ concat (map view (m_ReceiveQueue (fst r))) @ m_SendBuffer (fst s) = w"
    if "m_LastReceivedSequenceNumber (fst r) + 1 = m_SequenceNumber (fst s)"
  proof -
    have "k = length chunks" using that k(1,2) n(1,4) of_nat_seqn_inject [of k "length chunks"] by simp
    then show ?thesis using k(3) n(2) by (simp flip: append_assoc)
  qed
qed

end
