(* ===== verification/Stream_Syn.thy ===== *)
theory Stream_Syn
  imports Stream_Link
begin

text \<open>
  The initial packet of a stream at the other end: the identity it carries, its signature, and the array on the
  stack that is too short for some signatures.
\<close>

section \<open>The initial packet\<close>

text \<open>The initial packet of the owner of \<open>E\<close>, as it arrives: its identity, a signature of length \<open>L\<close> and the payload.\<close>

lemma syn_arrives:
  assumes "owner_ok E" and "length (pbuf p) = 4096" and "poffset p = 0" and "syn_packet E b p (st, d) = Some (q, st1, d1)"
    and "m_SequenceNumber st = 0" and "copy_of q q'" and "m_Signer (ownKeys E) = Some (t, sk)"
  obtains pk x y G o' sig bs rest where "length x = 4" "unat o' = G + SignatureLen t + 2" "length sig = SignatureLen t"
    "verifier_of (m_Public (ownKeys E)) = Some (Some (t, pk))" "G = GetFullLen (m_Public (ownKeys E))" "G \<le> 775"
    "pbuf q' = (be_bytes 4 (m_SendStreamID st) @ be_bytes 4 (m_RecvStreamID st) @ be_bytes 4 (0 :: u32) @ x @ [0, y] @
       be_bytes 2 (syn_flags b) @ be_bytes 2 (o' :: u16) @ idex_bytes (m_Public (ownKeys E)) @ be_bytes 2 (1730 :: u16)) @ sig @ bs @ rest"
    "verifyWith (sigs E) t pk ((be_bytes 4 (m_SendStreamID st) @ be_bytes 4 (m_RecvStreamID st) @ be_bytes 4 (0 :: u32) @ x @ [0, y] @
       be_bytes 2 (syn_flags b) @ be_bytes 2 o' @ idex_bytes (m_Public (ownKeys E)) @ be_bytes 2 (1730 :: u16)) @ replicate (SignatureLen t) 0 @ bs) sig"
    "plen q' = 24 + G + SignatureLen t + length bs" "poffset q' = 0" "bs @ m_SendBuffer st1 = m_SendBuffer st \<or> m_SendEof st"
proof -
  from assms(1,2) obtain q1 st' d' t' sk' pk sig opt n rest where e: "syn_packet E b p (st, d) = Some (q1, st', d')" "m_Signer (ownKeys E) = Some (t', sk')"
    and l0: "t' \<le> 7" "verifier_of (m_Public (ownKeys E)) = Some (Some (t', pk))" "length sig = SignatureLen t'"
    "opt = be_bytes 2 (of_nat (GetFullLen (m_Public (ownKeys E)) + SignatureLen t' + 2) :: u16)"
    "pbuf q1 = packet_head b st @ be_bytes 2 (syn_flags b) @ opt @ (idex_bytes (m_Public (ownKeys E)) @ be_bytes 2 (1730 :: u16) @ sig) @
      fst (ss_read n st) @ rest"
    "verifyWith (sigs E) t' pk (packet_head b st @ be_bytes 2 (syn_flags b) @ opt @ idex_bytes (m_Public (ownKeys E)) @ be_bytes 2 (1730 :: u16) @
      replicate (SignatureLen t') 0 @ fst (ss_read n st)) sig"
    "plen q1 = 24 + GetFullLen (m_Public (ownKeys E)) + SignatureLen t' + length (fst (ss_read n st))"
    "st' = (snd (ss_read n st))\<lparr>m_Status := eStreamStatusOpen\<rparr>"
    by (rule syn_packet_layout)
  have "q1 = q" "st' = st1" "t' = t" using e assms(4,7) by simp_all
  note l = l0 [unfolded this]
  let ?G = "GetFullLen (m_Public (ownKeys E))" and ?L = "SignatureLen t" and ?I = "idex_bytes (m_Public (ownKeys E))" and ?bs = "fst (ss_read n st)"
  have GL: "?G \<le> 775" "length ?I = ?G" "?L \<le> 512"
    using assms(1) length_idex_bytes l(1) key_len_bounds(2) by (auto simp: owner_ok_def dest_ok_def)
  obtain o' :: u16 where o': "opt = be_bytes 2 o'" "unat o' = ?G + ?L + 2"
    using that [of "of_nat (?G + ?L + 2)"] l(4) unat_u16 [of "?G + ?L + 2"] GL by simp
  obtain x y where h: "packet_head b st = be_bytes 4 (m_SendStreamID st) @ be_bytes 4 (m_RecvStreamID st) @ be_bytes 4 (0 :: u32) @ x @ [0, y]"
    "length x = 4" using packet_head_eq [of b st] assms(5) by metis
  let ?X = "packet_head b st @ be_bytes 2 (syn_flags b) @ opt @ (?I @ be_bytes 2 (1730 :: u16) @ sig) @ ?bs"
  have lX: "length ?X = plen q" using l(3,7) GL o'(1) by simp
  have q': "plen q' = plen q" "poffset q' = 0" "take (plen q) (pbuf q') = take (plen q) (pbuf q)" using assms(6) by (simp_all add: copy_of_def)
  have "take (plen q) (pbuf q) = ?X" using l(5) lX by (simp flip: lX)
  then have "pbuf q' = ?X @ drop (plen q) (pbuf q')" using q'(3) by (metis append_take_drop_id)
  moreover have "?bs @ m_SendBuffer st1 = m_SendBuffer st \<or> m_SendEof st" using l(8) by (auto simp: ss_read_def)
  ultimately show ?thesis
    using that [of x o' ?G sig pk y ?bs "drop (plen q) (pbuf q')"] l h o' GL q'(1,2) by simp
qed

lemma syn_flags_set:
  "syn_flags b AND PACKET_FLAG_DELAY_REQUESTED = 0" "syn_flags b AND PACKET_FLAG_FROM_INCLUDED \<noteq> 0"
  "syn_flags b AND PACKET_FLAG_MAX_PACKET_SIZE_INCLUDED \<noteq> 0" "syn_flags b AND PACKET_FLAG_SIGNATURE_INCLUDED \<noteq> 0"
  "syn_flags b AND (PACKET_FLAG_CLOSE OR PACKET_FLAG_RESET) = 0"
  by (cases b; simp)+

text \<open>The receiver reads the identity and comes to the signature.\<close>

lemma syn_signature:
  assumes lay: "pbuf q = (be_bytes 4 (s :: u32) @ be_bytes 4 (r :: u32) @ be_bytes 4 (0 :: u32) @ x @ [0, y] @ be_bytes 2 (syn_flags b) @
       be_bytes 2 (o' :: u16) @ idex_bytes i @ be_bytes 2 (1730 :: u16)) @ sig @ bs @ rest"
    and x: "length x = 4" and i: "idex_ok i" and G: "unat o' = GetFullLen i + length sig + 2"
    and e: "m_ExtendedBuffer (m_RemoteIdentity st) \<noteq> Freed"
  shows "process_options F a (syn_flags b) q (st, d) = process_signature F a (24 + GetFullLen i) q
      (st\<lparr>m_RemoteIdentity := i\<lparr>m_IdentHash := gsha (gen (rtr F)) (idex_bytes i), m_Verifier := None\<rparr>\<rparr>, d)"
    "GetSeqn q = Some 0" "GetFlags q = Some (syn_flags b)" "Packet_GetPayload q = Some (24 + GetFullLen i + length sig)"
proof -
  let ?rest = "idex_bytes i @ be_bytes 2 (1730 :: u16) @ sig @ bs @ rest"
  have p: "pbuf q = be_bytes 4 s @ be_bytes 4 r @ be_bytes 4 (0 :: u32) @ x @ [0, y] @ be_bytes 2 (syn_flags b) @ be_bytes 2 o' @ ?rest"
    using lay by simp
  note f = packet_fields [OF p x]
  show "GetSeqn q = Some 0" "GetFlags q = Some (syn_flags b)" "Packet_GetPayload q = Some (24 + GetFullLen i + length sig)"
    using f G by simp_all
  have li: "length (idex_bytes i) = GetFullLen i" by (rule length_idex_bytes [OF i])
  obtain hd where hd: "pbuf q = hd @ idex_bytes i @ be_bytes 2 (1730 :: u16) @ sig @ bs @ rest" "length hd = 22"
    using that [of "be_bytes 4 s @ be_bytes 4 r @ be_bytes 4 (0 :: u32) @ x @ [0, y] @ be_bytes 2 (syn_flags b) @ be_bytes 2 o'"] p x by simp
  have r1: "mem_read 22 (GetFullLen i) (pbuf q) = Some (idex_bytes i)" using hd li by (simp add: mem_read_def)
  have r2: "bufbe16toh (22 + GetFullLen i) (pbuf q) = Some 1730" using hd li by (simp add: mem_simps mem_read_def)
  have "FromBuffer (gsha (gen (rtr F))) 22 (unat o') (pbuf q) (m_RemoteIdentity st) =
      Some (GetFullLen i, i\<lparr>m_IdentHash := gsha (gen (rtr F)) (idex_bytes i), m_Verifier := None\<rparr>)"
    by (rule FromBuffer_eq [OF i r1 _ e]) (use G in simp)
  then show "process_options F a (syn_flags b) q (st, d) = process_signature F a (24 + GetFullLen i) q
      (st\<lparr>m_RemoteIdentity := i\<lparr>m_IdentHash := gsha (gen (rtr F)) (idex_bytes i), m_Verifier := None\<rparr>\<rparr>, d)"
    unfolding process_options_def prod.case f(7,8) bind.bind_lunit Let_def
    by (simp only: syn_flags_set not_False_eq_True if_True if_False simp_thms bind.bind_lunit prod.case r2 option.map) simp
qed

text \<open>
  C23. The initial packet of a destination whose signatures have at most 256 bytes opens the stream at the other end: the
  receiver learns the identity, the signature that covers the whole packet with zeroes in its place verifies, and exactly
  the payload is queued. For longer signatures (RSA with 3072 and 4096 bits) the receiver leaves its array of 256 bytes
  (\<open>syn_signature_overflow\<close>).
\<close>

theorem syn_accepted:
  assumes "owner_ok E" and "length (pbuf p) = 4096" and "poffset p = 0" and "syn_packet E b p (st, d) = Some (q, st1, d1)"
    and "m_SequenceNumber st = 0" and "m_SendEof st = False" and "copy_of q q'" and "m_Signer (ownKeys E) = Some (t, sk)" and "SignatureLen t \<le> 256"
    and "verifyWith (sigs F) = verifyWith (sigs E)" and "m_ExtendedBuffer (m_RemoteIdentity rst) \<noteq> Freed"
  shows "\<exists>i o' bs. ProcessPacket F a q' (rst, rd) =
      Some (rst\<lparr>m_RemoteIdentity := i, m_ReceiveQueue := enqueue o' q' (m_ReceiveQueue rst), m_LastReceivedSequenceNumber := 0\<rparr>, rd) \<and>
    idex_bytes i = idex_bytes (m_Public (ownKeys E)) \<and> m_IdentHash i = gsha (gen (rtr F)) (idex_bytes i) \<and>
    view (q'\<lparr>poffset := o'\<rparr>) = bs \<and> bs @ m_SendBuffer st1 = m_SendBuffer st"
proof -
  let ?i = "m_Public (ownKeys E)" and ?L = "SignatureLen t"
  from assms(1-5,7,8) obtain pk x y G o' sig bs rest where l: "length x = 4" "unat o' = G + ?L + 2" "length sig = ?L"
    "verifier_of ?i = Some (Some (t, pk))" "G = GetFullLen ?i" "G \<le> 775"
    and lay: "pbuf q' = (be_bytes 4 (m_SendStreamID st) @ be_bytes 4 (m_RecvStreamID st) @ be_bytes 4 (0 :: u32) @ x @ [0, y] @
       be_bytes 2 (syn_flags b) @ be_bytes 2 (o' :: u16) @ idex_bytes ?i @ be_bytes 2 (1730 :: u16)) @ sig @ bs @ rest"
    and v: "verifyWith (sigs E) t pk ((be_bytes 4 (m_SendStreamID st) @ be_bytes 4 (m_RecvStreamID st) @ be_bytes 4 (0 :: u32) @ x @ [0, y] @
       be_bytes 2 (syn_flags b) @ be_bytes 2 o' @ idex_bytes ?i @ be_bytes 2 (1730 :: u16)) @ replicate ?L 0 @ bs) sig"
    and pl: "plen q' = 24 + G + ?L + length bs" "poffset q' = 0" "bs @ m_SendBuffer st1 = m_SendBuffer st \<or> m_SendEof st"
    by (rule syn_arrives)
  have i: "idex_ok ?i" "m_Verifier ?i = None" using assms(1) by (auto simp: owner_ok_def dest_ok_def)
  have G': "unat o' = GetFullLen ?i + length sig + 2" using l by simp
  note s = syn_signature(1) [OF lay l(1) i(1) G' assms(11), of F a rd] syn_signature(2-4) [OF lay l(1) i(1) G' assms(11)]
  define H where "H = be_bytes 4 (m_SendStreamID st) @ be_bytes 4 (m_RecvStreamID st) @ be_bytes 4 (0 :: u32) @ x @ [0, y] @
       be_bytes 2 (syn_flags b) @ be_bytes 2 o' @ idex_bytes ?i @ be_bytes 2 (1730 :: u16)"
  have H: "pbuf q' = H @ sig @ bs @ rest" "length H = 24 + G" using lay l(1,5) length_idex_bytes [OF i(1)] by (simp_all add: H_def)
  let ?J = "?i\<lparr>m_IdentHash := gsha (gen (rtr F)) (idex_bytes ?i), m_Verifier := None\<rparr>" and ?K = "?i\<lparr>m_IdentHash := gsha (gen (rtr F)) (idex_bytes ?i), m_Verifier := Some (t, pk)\<rparr>"
  have w: "with_verifier ?J = Some ?K" "with_verifier ?K = Some ?K" using with_verifier_of [of ?J] l(4) by (simp_all add: with_verifier_def)
  have "process_signature F a (24 + G) q' (rst\<lparr>m_RemoteIdentity := ?J\<rparr>, rd) = Some (True, rst\<lparr>m_RemoteIdentity := ?K\<rparr>, rd)"
  proof -
    have g: "GetSignatureLen ?J = Some (?L, ?K)" by (simp add: GetSignatureLen_def w(1))
    have r: "mem_read (24 + G) ?L (pbuf q') = Some sig" unfolding H(1) by (rule mem_read_append) (use H(2) l(3) in simp_all)
    have st: "mem_write 0 sig (replicate 256 0) = Some (sig @ replicate (256 - ?L) 0)" using assms(9) l(3) by (simp add: mem_write_def)
    have z: "mem_write (24 + G) (replicate ?L 0) (pbuf q') = Some (H @ replicate ?L 0 @ bs @ rest)"
      unfolding H(1) by (rule mem_write_append) (use H(2) l(3) in simp_all)
    have dt: "mem_read (poffset q') (Packet_GetLength q') (H @ replicate ?L 0 @ bs @ rest) = Some (H @ replicate ?L 0 @ bs)"
      using H(2) pl(1,2) mem_read_prefix [of "plen q'" "H @ replicate ?L 0 @ bs" rest] by (simp add: Packet_GetLength_def)
    have ver: "Identity_Verify (verifyWith (sigs F)) (H @ replicate ?L 0 @ bs) 0 (sig @ replicate (256 - ?L) 0) ?K = Some (True, ?K)"
      using v l(3) mem_read_prefix [of ?L sig] by (simp add: Identity_Verify_def w(2) assms(10) H_def)
    show ?thesis
      by (simp add: process_signature_def g r st z dt ver)
  qed
  then have "process_options F a (syn_flags b) q' (rst, rd) = Some (True, rst\<lparr>m_RemoteIdentity := ?K\<rparr>, rd)"
    using s(1) l(5) by simp
  then have P: "ProcessPacket F a q' (rst, rd) =
      Some (rst\<lparr>m_RemoteIdentity := ?K, m_ReceiveQueue := enqueue (24 + G + ?L) q' (m_ReceiveQueue rst), m_LastReceivedSequenceNumber := 0\<rparr>, rd)"
    using syn_flags_set(5) [of b] l(3,5) by (simp add: ProcessPacket_def s(2-4) enqueue_def Let_def)
  have "view (q'\<lparr>poffset := 24 + G + ?L\<rparr>) = bs"
    using H pl(1) l(3) by (simp add: view_def)
  then show ?thesis using P pl(3) assms(6)
    by (intro exI [of _ ?K] exI [of _ "24 + G + ?L"] exI [of _ bs]) simp
qed

text \<open>
  The signature of an incoming packet is copied to an array of 256 bytes on the stack: the initial packet
  of a peer with an RSA key of 3072 or 4096 bits, which identities allow, is written behind its end.
\<close>

theorem syn_signature_overflow:
  assumes "owner_ok E" and "length (pbuf p) = 4096" and "poffset p = 0" and "syn_packet E b p (st, d) = Some (q, st1, d1)"
    and "m_SequenceNumber st = 0" and "copy_of q q'" and "m_Signer (ownKeys E) = Some (t, sk)"
    and "t = SIGNING_KEY_TYPE_RSA_SHA384_3072 \<or> t = SIGNING_KEY_TYPE_RSA_SHA512_4096" and "m_ExtendedBuffer (m_RemoteIdentity rst) \<noteq> Freed"
  shows "ProcessPacket F a q' (rst, rd) = None"
proof -
  let ?i = "m_Public (ownKeys E)" and ?L = "SignatureLen t"
  from assms(1-7) obtain pk x y G o' sig bs rest where l: "length x = 4" "unat o' = G + ?L + 2" "length sig = ?L"
    "verifier_of ?i = Some (Some (t, pk))" "G = GetFullLen ?i" "G \<le> 775"
    and lay: "pbuf q' = (be_bytes 4 (m_SendStreamID st) @ be_bytes 4 (m_RecvStreamID st) @ be_bytes 4 (0 :: u32) @ x @ [0, y] @
       be_bytes 2 (syn_flags b) @ be_bytes 2 (o' :: u16) @ idex_bytes ?i @ be_bytes 2 (1730 :: u16)) @ sig @ bs @ rest"
    by (rule syn_arrives)
  have i: "idex_ok ?i" using assms(1) by (auto simp: owner_ok_def dest_ok_def)
  have G': "unat o' = GetFullLen ?i + length sig + 2" using l by simp
  note s = syn_signature(1) [OF lay l(1) i G' assms(9), of F a rd] syn_signature(2-4) [OF lay l(1) i G' assms(9)]
  have L: "?L > 256" using assms(8) by (auto simp: key_lens)
  have w: "with_verifier (?i\<lparr>m_IdentHash := h, m_Verifier := None\<rparr>) = Some (?i\<lparr>m_IdentHash := h, m_Verifier := Some (t, pk)\<rparr>)" for h
    using with_verifier_of [of "?i\<lparr>m_IdentHash := h, m_Verifier := None\<rparr>"] l(4) by simp
  have "process_options F a (syn_flags b) q' (rst, rd) = None"
    using L by (auto simp: s(1) process_signature_def GetSignatureLen_def w mem_write_def mem_read_def split: bind_splits)
  then show ?thesis by (simp add: ProcessPacket_def s(2,3))
qed

end
