(* ===== verification/Stream_Acks.thy ===== *)
theory Stream_Acks
  imports Stream_Link
begin

text \<open>
  Acknowledgements: which packets the receiver reports, which the sender forgets, and where both are wrong.
\<close>

section \<open>Acknowledgements\<close>

text \<open>The numbers from \<open>m\<close> on that are not among \<open>ks\<close>, up to the last of them.\<close>

fun missing :: "nat \<Rightarrow> nat list \<Rightarrow> nat list" where
  "missing m [] = []"
| "missing m (k # ks) = [m..<k] @ missing (Suc k) ks"

lemma set_missing:
  "sorted_wrt (<) ks \<Longrightarrow> \<forall>k \<in> set ks. m \<le> k \<Longrightarrow> set (missing m ks) = {j. m \<le> j \<and> (\<exists>k \<in> set ks. j < k) \<and> j \<notin> set ks}"
proof (induction ks arbitrary: m)
  case (Cons k ks)
  then have s: "sorted_wrt (<) ks" "\<forall>j \<in> set ks. k < j" "m \<le> k" by auto
  have "set (missing (Suc k) ks) = {j. Suc k \<le> j \<and> (\<exists>k \<in> set ks. j < k) \<and> j \<notin> set ks}" using s by (intro Cons.IH) auto
  then have "set (missing m (k # ks)) = {j. m \<le> j \<and> j < k \<or> Suc k \<le> j \<and> (\<exists>x \<in> set ks. j < x) \<and> j \<notin> set ks}"
    by (simp add: set_eq_iff)
  also have "\<dots> = {j. m \<le> j \<and> (\<exists>x \<in> set (k # ks). j < x) \<and> j \<notin> set (k # ks)}"
    using s by (intro Collect_cong) (auto simp: Suc_le_eq)
  finally show ?case .
qed simp

lemma distinct_missing: "sorted_wrt (<) ks \<Longrightarrow> \<forall>k \<in> set ks. m \<le> k \<Longrightarrow> distinct (missing m ks)"
proof (induction ks arbitrary: m)
  case (Cons k ks)
  then have "set (missing (Suc k) ks) = {j. Suc k \<le> j \<and> (\<exists>k \<in> set ks. j < k) \<and> j \<notin> set ks}" by (intro set_missing) (auto simp: Suc_le_eq)
  with Cons show ?case by (auto simp: Suc_le_eq)
qed simp

lemma seqn_range_eq: "m \<le> k \<Longrightarrow> k < max_seqn \<Longrightarrow> seqn_range (of_nat m) (of_nat k) = map of_nat [m..<k]"
proof -
  assume a: "m \<le> k" "k < max_seqn"
  have "unat (of_nat k - of_nat m :: u32) = k - m" using a by (simp add: unat_sub_if' of_nat_seqn)
  moreover have "(of_nat m :: u32) \<le> of_nat k" using a by (simp add: word_le_nat_alt of_nat_seqn)
  moreover have "map (\<lambda>j. of_nat m + of_nat j) [0..<k - m] = map (of_nat :: nat \<Rightarrow> u32) [m..<k]"
    using a(1) by (simp add: list_eq_iff_nth_eq)
  ultimately show ?thesis by (simp add: seqn_range_def)
qed

lemma fill_nacks_eq:
  assumes "map fst ps = map of_nat ks" and "sorted_wrt (<) ks" and "\<forall>k \<in> set ks. m \<le> k \<and> k < max_seqn"
    and "length ns + length (missing m ks) < 256"
  shows "fill_nacks ps (of_nat m) ns = (ns @ map of_nat (missing m ks), None)"
  using assms
proof (induction ks arbitrary: ps m ns)
  case (Cons k ks)
  obtain p ps' where ps: "ps = (of_nat k, p) # ps'" "map fst ps' = map of_nat ks" using Cons.prems(1) by (cases ps) auto
  have k: "m \<le> k" "k < max_seqn" "length ns + (k - m) < 256" using Cons.prems(3,4) by auto
  have "unat (of_nat k - of_nat m :: u32) = k - m" using k by (simp add: unat_sub_if' of_nat_seqn)
  then have "unat (of_nat (length ns) + (of_nat k - of_nat m) :: u32) = length ns + (k - m)"
    using k(3) by (simp add: unat_add_lem [THEN iffD1] unsigned_of_nat take_bit_nat_eq_self)
  then have "\<not> (256 :: u32) \<le> of_nat (length ns) + (of_nat k - of_nat m)" using k(3) by (simp add: word_le_nat_alt)
  moreover have "fill_nacks ps' (of_nat (Suc k)) (ns @ map of_nat [m..<k]) = ((ns @ map of_nat [m..<k]) @ map of_nat (missing (Suc k) ks), None)"
    using Cons.prems k by (intro Cons.IH [OF ps(2)]) (auto simp: Suc_le_eq)
  ultimately show ?case using k by (simp add: ps(1) seqn_range_eq add.commute)
qed simp

definition acks :: "u32 \<Rightarrow> u32 list \<Rightarrow> nat set" where
  "acks t ns = {k. k < max_seqn \<and> of_nat k \<le> t \<and> of_nat k \<notin> set ns}"

lemma acks_eq:
  assumes "\<forall>j \<in> set ms. j < max_seqn" and "t < max_seqn"
  shows "acks (of_nat t) (map of_nat ms) = {k. k \<le> t \<and> k \<notin> set ms}"
proof -
  have "of_nat k \<le> (of_nat t :: u32) \<and> (of_nat k :: u32) \<notin> of_nat ` set ms \<longleftrightarrow> k \<le> t \<and> k \<notin> set ms" if k: "k < max_seqn" for k
  proof -
    have "of_nat k \<le> (of_nat t :: u32) \<longleftrightarrow> k \<le> t" using k assms(2) by (simp add: word_le_nat_alt of_nat_seqn)
    moreover have "(of_nat k :: u32) \<in> of_nat ` set ms \<longleftrightarrow> k \<in> set ms"
    proof
      assume "(of_nat k :: u32) \<in> of_nat ` set ms"
      then obtain j where "(of_nat k :: u32) = of_nat j" "j \<in> set ms" by blast
      moreover from this assms(1) have "j < max_seqn" by blast
      ultimately show "k \<in> set ms" using of_nat_seqn_inject [of k j] k by simp
    qed simp
    ultimately show ?thesis by blast
  qed
  note eq = this
  show ?thesis
  proof (rule set_eqI)
    fix k
    show "k \<in> acks (of_nat t) (map of_nat ms) \<longleftrightarrow> k \<in> {k. k \<le> t \<and> k \<notin> set ms}"
      using eq [of k] assms(2) by (cases "k < max_seqn") (simp_all add: acks_def)
  qed
qed

text \<open>The numbers of the saved packets, in order.\<close>

lemma saved_numbers:
  assumes "receiving pay A S n out st"
  obtains ks where "map fst (m_SavedPackets st) = map of_nat ks" "sorted_wrt (<) ks" "set ks = S"
proof
  let ?ks = "map (unat \<circ> fst) (m_SavedPackets st)"
  show "map fst (m_SavedPackets st) = map of_nat ?ks" by simp
  have "sorted_wrt (<) (map fst (m_SavedPackets st))" using assms by (simp add: receiving_def smap_ok_def)
  then show "sorted_wrt (<) ?ks" by (simp add: sorted_wrt_map word_less_nat_alt)
  have "fst ` set (m_SavedPackets st) = of_nat ` S" using assms by (simp add: receiving_def)
  then have "set ?ks = unat ` (of_nat ` S :: u32 set)" by (metis image_comp list.set_map)
  also have "\<dots> = S"
  proof -
    have "unat (of_nat m :: u32) = m" if "m \<in> S" for m using assms that by (intro of_nat_seqn) (force simp: receiving_def)
    then show ?thesis by (simp add: image_image)
  qed
  finally show "set ?ks = S" .
qed

lemma last_strict_sorted: "sorted_wrt (<) ks \<Longrightarrow> ks \<noteq> [] \<Longrightarrow> (\<forall>k \<in> set ks. k \<le> last ks) \<and> last ks \<in> set ks" for ks :: "nat list"
  by (induction ks) (auto intro: less_imp_le)

lemma ack_exact:
  assumes R: "receiving pay A {k \<in> A. n < k} n out st" and n: "n \<notin> A" and ne: "A \<noteq> {}" and few: "card ({0..<Max A} - A) < 256"
    and p: "length (pbuf p) = 4096"
  shows "\<exists>q t ns. ack_packet p st = Some q \<and> ack_says q t ns \<and> acks t ns = A \<and> plain_ack q"
proof -
  have A: "{0..<n} \<subseteq> A" "\<forall>m \<in> A. m < max_seqn" "m_LastReceivedSequenceNumber st = of_nat n - 1" using R by (simp_all add: receiving_def)
  have nb: "n \<le> max_seqn" using receiving_bound [OF R] .
  obtain ks where ks: "map fst (m_SavedPackets st) = map of_nat ks" "sorted_wrt (<) ks" "set ks = {k \<in> A. n < k}" by (rule saved_numbers [OF R])
  have sl: "sint (m_LastReceivedSequenceNumber st) = int n - 1" using A(3) nb by (simp add: sint_last)
  show ?thesis
  proof (cases "ks = []")
    case True
    then have "m_SavedPackets st = []" "{k \<in> A. n < k} = {}" using ks(1,3) by simp_all
    then have ls: "last_seen st = m_LastReceivedSequenceNumber st" and no: "\<not> n < k" if "k \<in> A" for k
      using that by (auto simp: last_seen_def)
    have An: "A = {k. k < n}"
    proof (rule set_eqI)
      fix k show "k \<in> A \<longleftrightarrow> k \<in> {k. k < n}" using A(1) n no [of k] by (cases k n rule: linorder_cases) auto
    qed
    then obtain j where j: "n = Suc j" "j < max_seqn" using ne A(2) by (cases n) auto
    have ls: "last_seen st = m_LastReceivedSequenceNumber st" using ne ls by blast
    have t: "last_seen st = of_nat j" using ls A(3) j by simp
    obtain q where "ack_packet p st = Some q" "ack_says q (of_nat j) []" "plain_ack q"
      using ack_packet_layout [OF p, of "[]" st None] ls t by auto
    moreover have "acks (of_nat j) [] = A" using acks_eq [of "[]" j] j by (simp add: An less_Suc_eq_le)
    ultimately show ?thesis by blast
  next
    case False
    let ?M = "last ks"
    have M: "?M \<in> A" "n < ?M" "\<forall>k \<in> set ks. k \<le> ?M" "?M < max_seqn" using last_strict_sorted [OF ks(2) False] ks(3) A(2) by auto
    have le: "\<forall>k \<in> A. k \<le> ?M"
    proof
      fix k assume "k \<in> A"
      then show "k \<le> ?M" using M(2,3) ks(3) by (cases "n < k") auto
    qed
    have fin: "finite A" unfolding finite_nat_set_iff_bounded_le using le by blast
    have Mx: "Max A = ?M" using M(1) le fin by (intro Max_eqI) auto
    have ne': "m_SavedPackets st \<noteq> []" using False ks(1) by auto
    have "fst (last (m_SavedPackets st)) = last (map fst (m_SavedPackets st))" using ne' by (simp add: last_map)
    then have t: "last_seen st = of_nat ?M" using ks(1) False ne' sl M(2,4) by (simp add: last_seen_def last_map of_nat_seqn)
    have ms: "set (missing n ks) = {0..<?M} - A"
    proof -
      have "set (missing n ks) = {j. n \<le> j \<and> (\<exists>k \<in> set ks. j < k) \<and> j \<notin> set ks}" using ks(2,3) by (intro set_missing) auto
      also have "\<dots> = {0..<?M} - A"
      proof (intro set_eqI iffI)
        fix j assume "j \<in> {0..<?M} - A"
        then have j: "j < ?M" "j \<notin> A" by simp_all
        have "n \<le> j"
        proof (rule ccontr)
          assume "\<not> n \<le> j"
          then have "j \<in> {0..<n}" by simp
          then show False using A(1) j(2) by blast
        qed
        moreover have "?M \<in> set ks" "j \<notin> set ks" using j(2) M(1,2) ks(3) by simp_all
        ultimately show "j \<in> {j. n \<le> j \<and> (\<exists>k \<in> set ks. j < k) \<and> j \<notin> set ks}" using j(1) by blast
      next
        fix j assume "j \<in> {j. n \<le> j \<and> (\<exists>k \<in> set ks. j < k) \<and> j \<notin> set ks}"
        then obtain k where j: "n \<le> j" "j < k" "k \<in> set ks" "j \<notin> set ks" by blast
        have "j < ?M" using j(2,3) M(3) by (meson less_le_trans)
        moreover have "j \<notin> A" using j(1,4) ks(3) n by (cases "j = n") auto
        ultimately show "j \<in> {0..<?M} - A" by simp
      qed
      finally show ?thesis .
    qed
    have "distinct (missing n ks)" using ks(2,3) by (intro distinct_missing) auto
    from distinct_card [OF this] have len: "length (missing n ks) < 256" using few by (simp add: ms Mx)
    have "fill_nacks (m_SavedPackets st) (of_nat n) [] = ([] @ map of_nat (missing n ks), None)"
      using ks len A(2) by (intro fill_nacks_eq) auto
    then have f: "(if sint (last_seen st) > sint (m_LastReceivedSequenceNumber st)
        then fill_nacks (m_SavedPackets st) (m_LastReceivedSequenceNumber st + 1) [] else ([], None)) = (map of_nat (missing n ks), None)"
      using t sl M(2,4) A(3) by (simp add: of_nat_seqn)
    obtain q where q: "ack_packet p st = Some q" "ack_says q (of_nat ?M) (map of_nat (missing n ks))" "plain_ack q"
      using ack_packet_layout [OF p _ f] len unfolding t by auto
    have "acks (of_nat ?M) (map of_nat (missing n ks)) = {k. k \<le> ?M \<and> k \<notin> set (missing n ks)}"
      using ms M(4) by (intro acks_eq) auto
    also have "\<dots> = A" unfolding ms using M(1) le by (auto simp: le_less)
    finally have "acks (of_nat ?M) (map of_nat (missing n ks)) = A" .
    with q show ?thesis by blast
  qed
qed

lemma ack_loop_acks:
  assumes "ack_loop ts t ns m st = Some (b, m', st')" and "smap_ok m" and "\<forall>(k, p) \<in> set m. unat k < max_seqn"
  shows "m' = filter (\<lambda>(k, p). unat k \<notin> acks t ns) m"
proof -
  have "m' = filter (\<lambda>(k, p). t < k \<or> k \<in> set ns) m" using ack_loop_exact [OF assms(1,2), of undefined] by blast
  also have "\<dots> = filter (\<lambda>(k, p). unat k \<notin> acks t ns) m" using assms(3) by (intro filter_cong) (auto simp: acks_def not_le)
  finally show ?thesis .
qed

text \<open>
  C22. Acknowledgements are exact: after any run in which fewer than 256 packets are missing, the
  acknowledgement that the receiver sends covers exactly the packets that have arrived, and a sender that
  handles it forgets exactly those of its unacknowledged packets.
\<close>

theorem quick_ack_exact:
  assumes "stream_run E a ops (st, d) = Some (out, st', d')" and "rx st = ([], - 1, [])"
    and "\<forall>p \<in> set (arrivals ops). from_peer pay p" and "syns (arrivals ops) \<le> 1"
    and "arrived (arrivals ops) \<noteq> {}" and "card ({0..<Max (arrived (arrivals ops))} - arrived (arrivals ops)) < 256" and "length (pbuf p) = 4096"
  shows "\<exists>q t ns. ack_packet p st' = Some q \<and> ack_says q t ns \<and> acks t ns = arrived (arrivals ops) \<and>
    (\<forall>ts sent sst b sent' sst'. ack_loop ts t ns sent sst = Some (b, sent', sst') \<and> smap_ok sent \<and> (\<forall>(k, p) \<in> set sent. unat k < 2 ^ 31 - 1) \<longrightarrow>
       sent' = filter (\<lambda>(k, p). unat k \<notin> arrived (arrivals ops)) sent)"
proof -
  have "receiving pay {} {k \<in> {}. 0 < k} 0 [] st" using assms(2) by (simp add: receiving_def rx_def)
  from receive_run [OF this _ assms(1,3)] assms(4) obtain n where
    "receiving pay (arrived (arrivals ops)) {k \<in> arrived (arrivals ops). n < k} n out st'" "n \<notin> arrived (arrivals ops)" by auto
  from ack_exact [OF this assms(5-7)] obtain q t ns where
    q: "ack_packet p st' = Some q" "ack_says q t ns" "acks t ns = arrived (arrivals ops)" by blast
  then show ?thesis using ack_loop_acks [of _ t ns] by (intro exI [of _ q] exI [of _ t] exI [of _ ns]) auto
qed

text \<open>
  With 256 or more packets missing at once the receiver acknowledges a packet it never got: when the first
  packet behind the gap is 256 or more numbers away, the acknowledgement covers the first missing number, and a
  sender that handles it drops that packet for good.
\<close>

theorem long_gap_acknowledged:
  assumes "stream_run E a ops (st, d) = Some (out, st', d')" and "rx st = ([], - 1, [])"
    and "\<forall>p \<in> set (arrivals ops). from_peer pay p" and "syns (arrivals ops) \<le> 1"
    and "{0..<n} \<subseteq> arrived (arrivals ops)" and "n \<notin> arrived (arrivals ops)"
    and "\<exists>k \<in> arrived (arrivals ops). n < k" and "\<forall>k \<in> arrived (arrivals ops). n < k \<longrightarrow> n + 256 \<le> k" and "length (pbuf p) = 4096"
  shows "\<exists>q. ack_packet p st' = Some q \<and> ack_says q (of_nat n) [] \<and> n \<in> acks (of_nat n) []"
proof -
  have "receiving pay {} {k \<in> {}. 0 < k} 0 [] st" using assms(2) by (simp add: receiving_def rx_def)
  from receive_run [OF this _ assms(1,3)] assms(4) obtain n' where
    R0: "receiving pay (arrived (arrivals ops)) {k \<in> arrived (arrivals ops). n' < k} n' out st'" "n' \<notin> arrived (arrivals ops)" by auto
  have "{0..<n'} \<subseteq> arrived (arrivals ops)" using R0(1) by (simp add: receiving_def)
  then have nn: "n' = n" using assms(5,6) R0(2) by (metis atLeastLessThan_iff le0 linorder_neqE_nat subsetD)
  let ?A = "arrived (arrivals ops)"
  have R: "receiving pay ?A {k \<in> ?A. n < k} n out st'" using R0(1) nn by simp
  have A: "\<forall>m \<in> ?A. m < max_seqn" "m_LastReceivedSequenceNumber st' = of_nat n - 1" using R by (simp_all add: receiving_def)
  have nb: "n \<le> max_seqn" using receiving_bound [OF R] .
  obtain ks where ks: "map fst (m_SavedPackets st') = map of_nat ks" "sorted_wrt (<) ks" "set ks = {k \<in> ?A. n < k}" by (rule saved_numbers [OF R])
  have ne: "ks \<noteq> []"
  proof
    assume "ks = []"
    then have "{k \<in> ?A. n < k} = {}" using ks(3) by simp
    then show False using assms(7) by blast
  qed
  then obtain k ks' where kk: "ks = k # ks'" by (cases ks) auto
  then have "k \<in> ?A" "n < k" using ks(3) by auto
  with kk assms(8) A(1) have k: "ks = k # ks'" "n + 256 \<le> k" "k < max_seqn" by blast+
  obtain q0 m where m: "m_SavedPackets st' = (of_nat k, q0) # m" using ks(1) k(1) by (cases "m_SavedPackets st'") auto
  have M: "last ks \<in> ?A" "n < last ks" "last ks < max_seqn" using last_strict_sorted [OF ks(2) ne] ks(3) A(1) by auto
  have sl: "sint (m_LastReceivedSequenceNumber st') = int n - 1" using A(2) nb by (simp add: sint_last)
  have "fst (last (m_SavedPackets st')) = last (map fst (m_SavedPackets st'))" by (simp add: last_map m)
  also have "\<dots> = of_nat (last ks)" using ks(1) ne by (simp add: last_map)
  finally have t: "sint (last_seen st') > sint (m_LastReceivedSequenceNumber st')"
    using M sl m by (simp add: last_seen_def of_nat_seqn)
  have "unat (of_nat k - of_nat n :: u32) = k - n" using k nb by (simp add: unat_sub_if' of_nat_seqn)
  then have "(256 :: u32) \<le> of_nat k - of_nat n" using k(2) by (simp add: word_le_nat_alt)
  then have "(if sint (last_seen st') > sint (m_LastReceivedSequenceNumber st')
        then fill_nacks (m_SavedPackets st') (m_LastReceivedSequenceNumber st' + 1) [] else ([], None)) = ([], Some (of_nat n))"
    using t A(2) by (simp add: m)
  from ack_packet_layout [OF assms(9) _ this] obtain q where "ack_packet p st' = Some q" "ack_says q (of_nat n) []" by auto
  moreover have "n \<in> acks (of_nat n) []" using k(2,3) by (simp add: acks_def)
  ultimately show ?thesis by blast
qed

text \<open>
  A repeated initial packet is processed again: its payload is queued a second time behind what was
  delivered, and the stream forgets how far it had got.
\<close>

theorem duplicate_syn_delivered_twice:
  assumes "stream_run E a ops (st, d) = Some (out, st', d')" and "rx st = ([], - 1, [])"
    and "\<forall>p \<in> set (arrivals ops). from_peer pay p" and "syns (arrivals ops) \<le> 1"
    and "0 \<in> arrived (arrivals ops)" and "carries q 0 (pay 0)" and "Stream_HandleNextPacket E a q (st', d') = Some (st'', d'')"
  shows "\<exists>n > 0. out @ concat (map view (m_ReceiveQueue st')) = concat (map pay [0..<n]) \<and> m_LastReceivedSequenceNumber st' = of_nat n - 1 \<and>
    out @ concat (map view (m_ReceiveQueue st'')) = concat (map pay [0..<n]) @ pay 0 \<and> m_LastReceivedSequenceNumber st'' = 0"
proof -
  have "receiving pay {} {k \<in> {}. 0 < k} 0 [] st" using assms(2) by (simp add: receiving_def rx_def)
  from receive_run [OF this _ assms(1,3)] assms(4) obtain n where
    R: "receiving pay (arrived (arrivals ops)) {k \<in> arrived (arrivals ops). n < k} n out st'" and n: "n \<notin> arrived (arrivals ops)" by auto
  have n0: "n > 0" using n assms(5) by (cases n) auto
  have got: "out @ concat (map view (m_ReceiveQueue st')) = concat (map pay [0..<n])" "m_LastReceivedSequenceNumber st' = of_nat n - 1"
    using R by (simp_all add: receiving_def)
  from assms(7) show ?thesis
  proof (cases rule: HandleNextPacket_cases)
    case (inorder seqn sy st2 d2 st3 d3 st4 d4)
    obtain o' where o: "Packet_GetPayload q = Some o'" "rx st3 = (enqueue o' q (m_ReceiveQueue st2), 0, m_SavedPackets st2)"
      using ProcessPacket_rx [OF inorder(5)] assms(6) by (auto simp: carries_def)
    have eq: "m_ReceiveQueue st2 = m_ReceiveQueue st'" "m_SavedPackets st2 = m_SavedPackets st'" using inorder(4) by (simp_all add: rx_def)
    obtain ks where ks: "map fst (m_SavedPackets st') = map of_nat ks" "set ks = {k \<in> arrived (arrivals ops). n < k}"
      using saved_numbers [OF R] by metis
    have "process_saved E a (m_SavedPackets st3) (st3, d3) = Some (st3, d3)"
    proof (cases "m_SavedPackets st'")
      case Nil
      then show ?thesis using o(2) eq(2) by (simp add: rx_def)
    next
      case (Cons e m)
      then obtain k where k: "k \<in> set ks" "fst e = of_nat k" using ks(1) by (cases ks) auto
      then have "1 < k" "k < max_seqn" using ks(2) n0 R by (auto simp: receiving_def)
      then have "(of_nat k :: u32) \<noteq> of_nat 1" using of_nat_seqn_inject [of k 1] by simp
      then show ?thesis using o(2) eq(2) Cons k(2) by (cases e) (simp add: rx_def)
    qed
    then have "rx st'' = rx st3" using inorder(6,7) by simp
    then have r: "m_ReceiveQueue st'' = enqueue o' q (m_ReceiveQueue st')" "m_LastReceivedSequenceNumber st'' = 0" using o(2) eq(1) by (simp_all add: rx_def)
    have "concat (map view (m_ReceiveQueue st'')) = concat (map view (m_ReceiveQueue st')) @ pay 0"
      using enqueue_ok [OF assms(6) o(1), of "m_ReceiveQueue st'"] R r(1) by (simp add: receiving_def)
    then show ?thesis using got n0 r(2) by (intro exI [of _ n]) (simp flip: append_assoc)
  qed (use assms(6) in \<open>simp_all add: carries_def\<close>)
qed

end
