(* ===== verification/Stream_Properties.thy ===== *)
theory Stream_Properties
  imports Stream_Syn Stream_Acks
begin

text \<open>
  Concrete streams on which the theorems about streams apply, and a read behind the end of a packet.
\<close>

section \<open>Examples\<close>

text \<open>A destination whose peers have no lease set: what it sends waits.\<close>

definition demo_senv :: "unit senv" where
  "demo_senv = \<lparr>rtr = demo_renv, sigs = demo_sigenv, ownKeys = fst (demo_dest 1), ownPool = 0, m_LocalPort = 0,
     findLeaseSet = (\<lambda>h g. (None, g)), leaseSetAt = (\<lambda>n g. (undefined, g)), routingSession = (\<lambda>n g. (0, g)),
     wrapSingleMessage = (\<lambda>n m g. (m, g)), gzip = (\<lambda>b z. z), gunzip = Some\<rparr>"

definition demo_stream :: "StreamStatus \<Rightarrow> Stream" where
  "demo_stream c = (newStream 7 0 None demo_idex \<lparr>tunnelGateway = [], leaseTunnelID = 0, endDate = 0\<rparr>)\<lparr>m_Status := c\<rparr>"

definition demo_streams :: "unit sdest" where
  "demo_streams = newStreamingDestination demo_router"

text \<open>Packets without acknowledgement; the first synchronises.\<close>

definition demo_packet :: "nat \<Rightarrow> bytes \<Rightarrow> Packet" where
  "demo_packet n bs = \<lparr>plen = 22 + length bs, poffset = 0,
     pbuf = be_bytes 4 (7 :: u32) @ be_bytes 4 (9 :: u32) @ be_bytes 4 (of_nat n :: u32) @ be_bytes 4 (0 :: u32) @ [0, 0] @
       be_bytes 2 (if n = 0 then PACKET_FLAG_NO_ACK OR PACKET_FLAG_SYNCHRONIZE else PACKET_FLAG_NO_ACK) @ be_bytes 2 (0 :: u16) @ [] @ bs @ [], sendTime = 0\<rparr>"

lemma demo_pbuf:
  "pbuf (demo_packet n bs) = be_bytes 4 (7 :: u32) @ be_bytes 4 (9 :: u32) @ be_bytes 4 (of_nat n :: u32) @ be_bytes 4 (0 :: u32) @ [0, 0] @
     be_bytes 2 (if n = 0 then PACKET_FLAG_NO_ACK OR PACKET_FLAG_SYNCHRONIZE else PACKET_FLAG_NO_ACK) @ be_bytes 2 (0 :: u16) @ [] @ bs @ []"
  by (simp add: demo_packet_def)

lemma demo_carries: "length bs < 1000 \<Longrightarrow> carries (demo_packet n bs) n bs"
  by (rule carriesI [OF demo_pbuf length_be_bytes]) (simp_all add: demo_packet_def)

lemma demo_packet_fields:
  "GetReceiveStreamID (demo_packet n bs) = Some 9" "IsNoAck (demo_packet n bs) = Some True" "IsSYN (demo_packet n bs) = Some (n = 0)"
  "GetSeqn (demo_packet n bs) = Some (of_nat n)" "Packet_GetPayload (demo_packet n bs) = Some 22" "GetOptionData (demo_packet n bs) = Some 22"
  "GetFlags (demo_packet n bs) = Some (if n = 0 then PACKET_FLAG_NO_ACK OR PACKET_FLAG_SYNCHRONIZE else PACKET_FLAG_NO_ACK)"
proof -
  note f = packet_fields [OF demo_pbuf [of n bs] length_be_bytes]
  show "GetReceiveStreamID (demo_packet n bs) = Some 9" "GetSeqn (demo_packet n bs) = Some (of_nat n)" "GetOptionData (demo_packet n bs) = Some 22"
    "GetFlags (demo_packet n bs) = Some (if n = 0 then PACKET_FLAG_NO_ACK OR PACKET_FLAG_SYNCHRONIZE else PACKET_FLAG_NO_ACK)"
    by (rule f)+
  show "IsNoAck (demo_packet n bs) = Some True" "IsSYN (demo_packet n bs) = Some (n = 0)" "Packet_GetPayload (demo_packet n bs) = Some 22"
    using f(9-11) by simp_all
qed

lemma demo_process:
  "ProcessPacket demo_senv 0 (demo_packet n bs) (st, d) =
     Some (st\<lparr>m_ReceiveQueue := enqueue 22 (demo_packet n bs) (m_ReceiveQueue st), m_LastReceivedSequenceNumber := of_nat n\<rparr>, d)"
  by (simp add: ProcessPacket_def process_options_def demo_packet_fields Let_def enqueue_def)

lemma demo_later:
  assumes "n \<noteq> 0" and "n < max_seqn" and "m_LastReceivedSequenceNumber st = - 1"
  shows "\<exists>st'. Stream_HandleNextPacket demo_senv 0 (demo_packet n bs) (st, d) = Some (st', d) \<and> m_Status st' = m_Status st \<and>
    rx st' = (m_ReceiveQueue st, - 1, snd (map_insert (of_nat n) (demo_packet n bs) (m_SavedPackets st)))"
proof -
  have "(of_nat n :: u32) \<noteq> 0" "sint (of_nat n :: u32) = int n" using assms(1,2) of_nat_seqn_inject [of n 0] of_nat_seqn(2) [of n] by simp_all
  then show ?thesis
    using assms by (simp add: Stream_HandleNextPacket_def demo_packet_fields Let_def SavePacket_def packet_insert_def rx_def)
qed

lemma demo_syn:
  assumes "m_Status st = eStreamStatusOpen" and "m_SavedPackets st = map (\<lambda>(n, bs). (of_nat n, demo_packet n bs)) ks"
    and "ks = [] \<or> (\<exists>bs1. ks = [(1, bs1)])"
  shows "\<exists>st'. Stream_HandleNextPacket demo_senv 0 (demo_packet 0 bs) (st, d) = Some (st', d) \<and> m_Status st' = eStreamStatusOpen \<and>
    m_SavedPackets st' = []"
  using assms(3)
proof
  assume "ks = []"
  then show ?thesis using assms by (simp add: Stream_HandleNextPacket_def demo_packet_fields demo_process Let_def)
next
  assume "\<exists>bs1. ks = [(1, bs1)]"
  then obtain bs1 where "m_SavedPackets st = [(1, demo_packet 1 bs1)]" using assms(2) by auto
  then show ?thesis using assms(1) demo_process [of 1 bs1] by (simp add: Stream_HandleNextPacket_def demo_packet_fields demo_process Let_def)
qed

abbreviation demo_pay :: "nat \<Rightarrow> bytes" where "demo_pay \<equiv> \<lambda>n. [of_nat n, 1]"

lemma demo_from_peer: "n < max_seqn \<Longrightarrow> from_peer demo_pay (demo_packet n (demo_pay n))"
  using demo_carries [of "demo_pay n" n] by (auto simp: from_peer_def)

lemma demo_not_plain: "n < max_seqn \<Longrightarrow> \<not> plain_ack (demo_packet n bs)"
  using of_nat_seqn_inject [of n 0] by (cases n) (simp_all add: plain_ack_def demo_packet_fields)

lemma demo_arrived: "n < max_seqn \<Longrightarrow> arrived (demo_packet n bs # ps) = insert n (arrived ps)"
  by (simp add: arrived_Cons demo_not_plain demo_packet_fields of_nat_seqn)

lemma demo_rx: "rx (demo_stream c) = ([], - 1, [])" "m_Status (demo_stream c) = c"
  by (simp_all add: demo_stream_def newStream_def rx_def)

lemma demo_run:
  obtains st1 where "stream_run demo_senv 0 [Arrive (demo_packet 1 (demo_pay 1)), Arrive (demo_packet 0 (demo_pay 0))]
    (demo_stream eStreamStatusOpen, demo_streams) = Some ([], st1, demo_streams)"
proof -
  let ?s = "demo_stream eStreamStatusOpen" and ?p = "demo_packet 1 (demo_pay 1)"
  obtain st1 where 1: "Stream_HandleNextPacket demo_senv 0 ?p (?s, demo_streams) = Some (st1, demo_streams)" "m_Status st1 = eStreamStatusOpen"
      "rx st1 = (m_ReceiveQueue ?s, - 1, snd (map_insert (of_nat 1) ?p (m_SavedPackets ?s)))"
    using demo_later [of 1 ?s "demo_pay 1" demo_streams] demo_rx(1) [of eStreamStatusOpen] by (auto simp: demo_rx(2)) (auto simp: rx_def)
  then have "m_SavedPackets st1 = map (\<lambda>(n, bs). (of_nat n, demo_packet n bs)) [(1, demo_pay 1)]"
    using demo_rx(1) [of eStreamStatusOpen] by (simp add: rx_def map_insert_def map_find_def)
  from demo_syn [OF 1(2) this, of "demo_pay 0" demo_streams] 1(1) show ?thesis by (auto intro: that)
qed

lemma demo_late_run:
  assumes "n \<noteq> 0" and "n < max_seqn"
  obtains st1 where "stream_run demo_senv 0 [Arrive (demo_packet n (demo_pay n))] (demo_stream c, demo_streams) = Some ([], st1, demo_streams)"
proof -
  have "m_LastReceivedSequenceNumber (demo_stream c) = - 1" using demo_rx(1) [of c] by (simp add: rx_def)
  from demo_later [OF assms this, of "demo_pay n" demo_streams] show ?thesis by (auto intro: that)
qed

theorem stream_in_order_witness:
  "\<exists>st1 n. stream_run demo_senv 0 [Arrive (demo_packet 1 (demo_pay 1)), Arrive (demo_packet 0 (demo_pay 0))]
     (demo_stream eStreamStatusOpen, demo_streams) = Some ([], st1, demo_streams) \<and>
     {0..<n} \<subseteq> {0, 1} \<and> n \<notin> {0, 1} \<and> concat (map view (m_ReceiveQueue st1)) = concat (map demo_pay [0..<n])"
proof -
  obtain st1 where r: "stream_run demo_senv 0 [Arrive (demo_packet 1 (demo_pay 1)), Arrive (demo_packet 0 (demo_pay 0))]
    (demo_stream eStreamStatusOpen, demo_streams) = Some ([], st1, demo_streams)" by (rule demo_run)
  have f: "from_peer demo_pay (demo_packet 1 (demo_pay 1))" "from_peer demo_pay (demo_packet 0 (demo_pay 0))" by (intro demo_from_peer; simp)+
  have a: "arrived [demo_packet 1 (demo_pay 1), demo_packet 0 (demo_pay 0)] = {0, 1}" using demo_arrived [of 1] demo_arrived [of 0] by (auto simp: arrived_def [of "[]"])
  show ?thesis
    using stream_in_order [OF r demo_rx(1), of demo_pay] f a r by (auto simp: syns_def demo_packet_fields)
qed

theorem quick_ack_exact_witness:
  "\<exists>st1 q t ns. stream_run demo_senv 0 [Arrive (demo_packet 5 (demo_pay 5))] (demo_stream eStreamStatusOpen, demo_streams) = Some ([], st1, demo_streams) \<and>
     ack_packet (newPacket (replicate 4096 0)) st1 = Some q \<and> ack_says q t ns \<and> acks t ns = {5}"
proof -
  obtain st1 where r: "stream_run demo_senv 0 [Arrive (demo_packet 5 (demo_pay 5))] (demo_stream eStreamStatusOpen, demo_streams) = Some ([], st1, demo_streams)"
    using demo_late_run [of 5] by auto
  have a: "arrived (arrivals [Arrive (demo_packet 5 (demo_pay 5))]) = {5}" using demo_arrived [of 5] by (simp add: arrived_def [of "[]"])
  have f: "\<forall>p \<in> set (arrivals [Arrive (demo_packet 5 (demo_pay 5))]). from_peer demo_pay p" using demo_from_peer [of 5] by simp
  show ?thesis
    using quick_ack_exact [OF r demo_rx(1) f, of "newPacket (replicate 4096 0)"] a r by (auto simp: syns_def demo_packet_fields newPacket_def)
qed

theorem long_gap_acknowledged_witness:
  "\<exists>st1 q. stream_run demo_senv 0 [Arrive (demo_packet 300 (demo_pay 300))] (demo_stream eStreamStatusOpen, demo_streams) = Some ([], st1, demo_streams) \<and>
     ack_packet (newPacket (replicate 4096 0)) st1 = Some q \<and> ack_says q 0 [] \<and> 0 \<in> acks 0 []"
proof -
  obtain st1 where r: "stream_run demo_senv 0 [Arrive (demo_packet 300 (demo_pay 300))] (demo_stream eStreamStatusOpen, demo_streams) = Some ([], st1, demo_streams)"
    using demo_late_run [of 300] by auto
  have a: "arrived (arrivals [Arrive (demo_packet 300 (demo_pay 300))]) = {300}" using demo_arrived [of 300] by (simp add: arrived_def [of "[]"])
  have f: "\<forall>p \<in> set (arrivals [Arrive (demo_packet 300 (demo_pay 300))]). from_peer demo_pay p" using demo_from_peer [of 300] by simp
  show ?thesis
    using long_gap_acknowledged [OF r demo_rx(1) f, of 0 "newPacket (replicate 4096 0)"] a r by (auto simp: syns_def demo_packet_fields newPacket_def)
qed

theorem duplicate_syn_delivered_twice_witness:
  "\<exists>st1 st2 n. stream_run demo_senv 0 [Arrive (demo_packet 0 (demo_pay 0))] (demo_stream eStreamStatusOpen, demo_streams) = Some ([], st1, demo_streams) \<and>
     Stream_HandleNextPacket demo_senv 0 (demo_packet 0 (demo_pay 0)) (st1, demo_streams) = Some (st2, demo_streams) \<and>
     concat (map view (m_ReceiveQueue st2)) = concat (map demo_pay [0..<n]) @ demo_pay 0 \<and> 0 < n"
proof -
  let ?p = "demo_packet 0 (demo_pay 0)"
  obtain st1 where 1: "Stream_HandleNextPacket demo_senv 0 ?p (demo_stream eStreamStatusOpen, demo_streams) = Some (st1, demo_streams)" "m_Status st1 = eStreamStatusOpen"
      "m_SavedPackets st1 = []"
    using demo_syn [of "demo_stream eStreamStatusOpen" "[]" "demo_pay 0" demo_streams] demo_rx(1) [of eStreamStatusOpen] by (auto simp: demo_rx(2) rx_def)
  have r: "stream_run demo_senv 0 [Arrive ?p] (demo_stream eStreamStatusOpen, demo_streams) = Some ([], st1, demo_streams)" using 1(1) by simp
  have a: "arrived (arrivals [Arrive ?p]) = {0}" using demo_arrived [of 0] by (simp add: arrived_def [of "[]"])
  have f: "\<forall>p \<in> set (arrivals [Arrive ?p]). from_peer demo_pay p" using demo_from_peer [of 0] by simp
  obtain st2 where 2: "Stream_HandleNextPacket demo_senv 0 ?p (st1, demo_streams) = Some (st2, demo_streams)"
    using 1(3) demo_syn [OF 1(2), of "[]" "demo_pay 0" demo_streams] by auto
  show ?thesis
    using duplicate_syn_delivered_twice [OF r demo_rx(1) f _ _ demo_carries 2] a r 2 by (auto simp: syns_def demo_packet_fields)
qed

lemma demo_owner: "owner_ok demo_senv"
  using demo_dest_ok by (auto simp: owner_ok_def demo_senv_def demo_renv_def demo_dest_def)

lemma demo_tasks: "\<forall>p. TSendPacket 0 p \<notin> set (tasks demo_streams)"
  by (simp add: demo_streams_def newStreamingDestination_def)

lemma demo_no_lease: "m_RemoteLeaseSet st = None \<Longrightarrow> \<exists>st' d'. Stream_SendPackets demo_senv ps (st, d) = Some (st', d')"
  by (simp add: Stream_SendPackets_def UpdateCurrentRemoteLease_def demo_senv_def sask_def ask_def Let_def case_prod_beta)

lemma syn_packet_some:
  assumes "owner_ok E" and "length (pbuf p) = 4096" and "poffset p = 0" and "m_SequenceNumber st = 0"
  obtains q st' d' n where "syn_packet E b p (st, d) = Some (q, st', d')" "copy_of q q" "carries q 0 (fst (ss_read n st))"
    "st' = (snd (ss_read n st))\<lparr>m_Status := eStreamStatusOpen\<rparr>"
proof -
  from assms(1,2) obtain q st' d' t sk pk sig opt n rest where l: "syn_packet E b p (st, d) = Some (q, st', d')" "t \<le> 7" "n \<le> 1706"
    "plen q = 24 + GetFullLen (m_Public (ownKeys E)) + SignatureLen t + length (fst (ss_read n st))" "length (pbuf q) = 4096" "poffset q = poffset p"
    by (rule syn_packet_layout)
  have "GetFullLen (m_Public (ownKeys E)) \<le> 775" "SignatureLen t \<le> 512" "length (fst (ss_read n st)) \<le> 1706"
    using assms(1) l(2,3) key_len_bounds(2) [of t] length_ss_read [of n st] by (auto simp: owner_ok_def dest_ok_def)
  then have "copy_of q q" using l(4-6) assms(3) by (simp add: copy_of_def)
  moreover obtain n' where "carries q 0 (fst (ss_read n' st))" "st' = (snd (ss_read n' st))\<lparr>m_Status := eStreamStatusOpen\<rparr>"
    using syn_packet_carries [OF assms(1-3) l(1) assms(4)] by metis
  ultimately show ?thesis using that l(1) by blast
qed

lemma demo_first_packet:
  assumes "bs \<noteq> []"
  obtains q st' d' cs where "stream_run demo_senv 0 [Write bs, RunPosted 0] (demo_stream eStreamStatusNew, demo_streams) = Some ([], st', d')"
    "q \<in> outgoing 0 (st', d')" "carries q 0 cs" "rx st' = ([], - 1, [])" "m_Status st' = eStreamStatusOpen" "m_RemoteIdentity st' = demo_idex"
    "\<exists>p st d q0 st1 d1. length (pbuf p) = 4096 \<and> poffset p = 0 \<and> m_SequenceNumber st = 0 \<and> m_SendEof st = False \<and>
       syn_packet demo_senv True p (st, d) = Some (q0, st1, d1) \<and> copy_of q0 q"
proof -
  let ?st = "(demo_stream eStreamStatusNew)\<lparr>m_SendBuffer := bs, m_SendEof := False\<rparr>"
  define dw where "dw = demo_streams\<lparr>tasks := []\<rparr>"
  obtain p d1 where p: "new_packet demo_senv dw = (p, d1)" by (cases "new_packet demo_senv dw")
  have pl: "length (pbuf p) = 4096" "poffset p = 0" using new_packet_ok [OF demo_owner, of dw] p by simp_all
  have f: "m_SequenceNumber ?st = 0" "m_Status ?st = eStreamStatusNew" "m_WindowSize ?st = 1" "m_SentPackets ?st = []"
      "m_LastReceivedSequenceNumber ?st = - 1" "m_SendHandler ?st = None" "m_RemoteLeaseSet ?st = None" by (simp_all add: demo_stream_def newStream_def)
  from syn_packet_some [OF demo_owner pl f(1), of True d1] obtain q st1 d2 n where
    q: "syn_packet demo_senv True p (?st, d1) = Some (q, st1, d2)" "copy_of q q" "carries q 0 (fst (ss_read n ?st))"
      "st1 = (snd (ss_read n ?st))\<lparr>m_Status := eStreamStatusOpen\<rparr>" .
  have s1: "m_SendHandler st1 = None" "m_SentPackets st1 = []" "m_RemoteLeaseSet st1 = None" "m_Status st1 = eStreamStatusOpen"
    using f by (simp_all add: q(4) ss_read_def)
  have eof: "m_SendEof ?st = False" by simp
  obtain ts d3 where t: "now_ms demo_senv d2 = (ts, d3)" by (cases "now_ms demo_senv d2")
  let ?q = "q\<lparr>sendTime := ts\<rparr>"
  have gq: "GetSeqn q = Some 0" using q(3) by (simp add: carries_def)
  let ?st2 = "st1\<lparr>m_SequenceNumber := m_SequenceNumber st1 + 1, m_IsAckSendScheduled := False, m_SentPackets := [(0, ?q)]\<rparr>"
  obtain st4 d4 where 4: "Stream_SendPackets demo_senv [?q] (?st2, d3) = Some (st4, d4)"
    using demo_no_lease [of ?st2 "[?q]" d3] s1(3) by auto
  have e4: "m_SentPackets st4 = [(0, ?q)]" "m_Status st4 = eStreamStatusOpen" using Stream_SendPackets_frame [OF 4] s1(4) route_onlyD(5,8) by fastforce+
  have "Stream_SendBuffer demo_senv 0 (?st, dw) = Some (st4, d4)"
    using f(2-6) p q(1) s1 t gq 4 e4(2)
    by (simp add: Stream_SendBuffer_def Let_def packet_insert_def map_insert_def map_find_def)
  moreover have "Stream_Send 0 bs (demo_stream eStreamStatusNew, demo_streams) = (?st, demo_streams\<lparr>tasks := [TSendBuffer 0]\<rparr>)"
    using assms by (simp add: Stream_Send_def demo_stream_def newStream_def demo_streams_def newStreamingDestination_def)
  ultimately have "stream_run demo_senv 0 [Write bs, RunPosted 0] (demo_stream eStreamStatusNew, demo_streams) = Some ([], st4, d4)"
    by (simp add: run_posted_def Let_def dw_def)
  moreover have "?q \<in> outgoing 0 (st4, d4)" by (simp add: outgoing_def e4(1))
  moreover have "copy_of q ?q" using q(2) by (simp add: copy_of_def)
  moreover have "rx st4 = ([], - 1, [])"
    using Stream_SendPackets_rx [OF 4] demo_rx(1) [of eStreamStatusNew] by (simp add: q(4))
  moreover have "m_RemoteIdentity st4 = demo_idex"
    using Stream_SendPackets_frame [OF 4] route_onlyD(13) [of ?st2 st4] by (simp add: q(4) ss_read_def demo_stream_def newStream_def)
  moreover have "carries ?q 0 (fst (ss_read n ?st))" using q(3)
    by (simp add: carries_def GetSeqn_def IsSYN_def GetFlags_def GetOption_def GetNACKCount_def Packet_GetPayload_def GetOptionData_def GetOptionSize_def)
  ultimately show ?thesis using that [of st4 d4 ?q] pl f(1) q(1) e4(2) eof by blast
qed

theorem stream_sends_in_order_witness:
  "\<exists>hist st' d' chunks. stream_run_log demo_senv 0 [Write [1, 2, 3], RunPosted 0] (demo_stream eStreamStatusNew, demo_streams) = Some (hist, [], st', d') \<and>
     concat chunks @ m_SendBuffer st' = [1, 2, 3] \<and> outgoing 0 (st', d') \<noteq> {} \<and>
     list_all (explains chunks) hist"
proof -
  obtain q st' d' where r: "stream_run demo_senv 0 [Write [1, 2, 3], RunPosted 0] (demo_stream eStreamStatusNew, demo_streams) = Some ([], st', d')"
    "q \<in> outgoing 0 (st', d')" using demo_first_packet [of "[1, 2, 3]"] by (metis list.distinct(1))
  obtain hist where h: "stream_run_log demo_senv 0 [Write [1, 2, 3], RunPosted 0] (demo_stream eStreamStatusNew, demo_streams) = Some (hist, [], st', d')"
    using r(1) [folded stream_run_erase] by auto
  have s: "demo_stream eStreamStatusNew = newStream 7 0 None demo_idex \<lparr>tunnelGateway = [], leaseTunnelID = 0, endDate = 0\<rparr>"
    by (simp add: demo_stream_def newStream_def)
  from stream_sends_in_order [OF demo_owner h [unfolded s] demo_tasks] obtain chunks where
    "concat chunks @ m_SendBuffer st' = concat (map written_by [Write [1, 2, 3], RunPosted 0])"
    "\<forall>p \<in> set hist. plain_ack p \<or> (\<exists>n < length chunks. sends p n (chunks ! n))" by blast
  then show ?thesis using r(2) h by (auto simp: list_all_iff explains_def)
qed

lemma demo_deliver:
  assumes "length (pbuf p) = 4096" "poffset p = 0" "m_SequenceNumber st = 0" "m_SendEof st = False"
    "syn_packet demo_senv True p (st, d) = Some (q0, st1, d1)" "copy_of q0 q"
    and "rx r = ([], - 1, [])" and "m_Status r = eStreamStatusOpen" and "m_RemoteIdentity r = demo_idex"
  shows "\<exists>r'. Stream_HandleNextPacket demo_senv 0 q (r, rd) = Some (r', rd) \<and> m_LastReceivedSequenceNumber r' = 0"
proof -
  have k: "m_Signer (ownKeys demo_senv) = Some (0, replicate 20 4)" "SignatureLen 0 \<le> 256" by (simp_all add: demo_senv_def demo_dest_def demo_keys_def key_lens)
  from demo_owner assms(1,2,5,3,6) k(1) obtain x y G o' sig bs rest where l: "length x = 4"
    and lay: "pbuf q = (be_bytes 4 (m_SendStreamID st) @ be_bytes 4 (m_RecvStreamID st) @ be_bytes 4 (0 :: u32) @ x @ [0, y] @
       be_bytes 2 (syn_flags True) @ be_bytes 2 (o' :: u16) @ idex_bytes (m_Public (ownKeys demo_senv)) @ be_bytes 2 (1730 :: u16)) @ sig @ bs @ rest"
    by (rule syn_arrives)
  from lay have "pbuf q = be_bytes 4 (m_SendStreamID st) @ be_bytes 4 (m_RecvStreamID st) @ be_bytes 4 (0 :: u32) @ x @ [0, y] @
      be_bytes 2 (syn_flags True) @ be_bytes 2 o' @ (idex_bytes (m_Public (ownKeys demo_senv)) @ be_bytes 2 (1730 :: u16) @ sig @ bs @ rest)" by simp
  note f = packet_fields [OF this l]
  let ?r = "r\<lparr>strNumReceivedBytes := strNumReceivedBytes r + Packet_GetLength q,
      m_SendStreamID := (if m_SendStreamID r = 0 then m_RecvStreamID st else m_SendStreamID r)\<rparr>"
  have e: "m_ExtendedBuffer (m_RemoteIdentity ?r) \<noteq> Freed" using assms(9) by simp
  from syn_accepted [OF demo_owner assms(1,2,5,3,4,6) k refl e, of 0 rd] obtain i o2 where
    P: "ProcessPacket demo_senv 0 q (?r, rd) = Some (?r\<lparr>m_RemoteIdentity := i, m_ReceiveQueue := enqueue o2 q (m_ReceiveQueue ?r),
      m_LastReceivedSequenceNumber := 0\<rparr>, rd)" by blast
  have sv: "m_SavedPackets r = []" using assms(7) by (simp add: rx_def)
  show ?thesis using f(2,3,10,11) P sv assms(8) by (simp add: Stream_HandleNextPacket_def Let_def)
qed

theorem stream_end_to_end_witness:
  "\<exists>s r W chunks. link demo_senv 0 demo_senv 0 s r W [1, 2, 3] [] \<and> m_LastReceivedSequenceNumber (fst r) = 0 \<and>
     numbered (fst s) W [1, 2, 3] chunks"
proof -
  let ?S = "(demo_stream eStreamStatusNew, demo_streams)"
  obtain q st' d' cs where r: "stream_run demo_senv 0 [Write [1, 2, 3], RunPosted 0] ?S = Some ([], st', d')"
      "q \<in> outgoing 0 (st', d')" "carries q 0 cs" and st: "rx st' = ([], - 1, [])" "m_Status st' = eStreamStatusOpen" "m_RemoteIdentity st' = demo_idex"
      and syn: "\<exists>p st d q0 st1 d1. length (pbuf p) = 4096 \<and> poffset p = 0 \<and> m_SequenceNumber st = 0 \<and> m_SendEof st = False \<and>
       syn_packet demo_senv True p (st, d) = Some (q0, st1, d1) \<and> copy_of q0 q"
    using demo_first_packet [of "[1, 2, 3]"] by (metis list.distinct(1))
  obtain s1 o2 where ops: "stream_op demo_senv 0 (Write [1, 2, 3]) ?S = Some ([], s1)" "stream_op demo_senv 0 (RunPosted 0) s1 = Some (o2, st', d')" "o2 = []"
    using r(1) by (auto split: bind_splits)
  obtain r' where dl: "Stream_HandleNextPacket demo_senv 0 q (st', d') = Some (r', d')" "m_LastReceivedSequenceNumber r' = 0"
    using syn demo_deliver st by meson
  have "link demo_senv 0 demo_senv 0 ?S ?S {} [] []"
  proof -
    have "?S = (newStream 7 0 None demo_idex \<lparr>tunnelGateway = [], leaseTunnelID = 0, endDate = 0\<rparr>, demo_streams)"
      by (simp add: demo_stream_def newStream_def)
    then show ?thesis by (metis link.start [of 0 demo_streams demo_senv demo_senv 0] demo_tasks)
  qed
  from link.send [OF this ops(1)] have "link demo_senv 0 demo_senv 0 s1 ?S (outgoing 0 s1) [1, 2, 3] []" by simp
  from link.send [OF this ops(2)] have "link demo_senv 0 demo_senv 0 (st', d') ?S (outgoing 0 s1 \<union> outgoing 0 (st', d')) [1, 2, 3] []" by simp
  from link.receive [OF this ops(1)] have "link demo_senv 0 demo_senv 0 (st', d') s1 (outgoing 0 s1 \<union> outgoing 0 (st', d')) [1, 2, 3] []" by simp
  from link.receive [OF this ops(2)] ops(3) have
    L: "link demo_senv 0 demo_senv 0 (st', d') (st', d') (outgoing 0 s1 \<union> outgoing 0 (st', d')) [1, 2, 3] []" by simp
  have c: "copy_of q q" using syn by (auto simp: copy_of_def)
  have "link demo_senv 0 demo_senv 0 (st', d') (r', d') (outgoing 0 s1 \<union> outgoing 0 (st', d')) [1, 2, 3] []"
    by (rule link.deliver [OF L, of q q "[]"]) (use r(2) c st(1) dl(1) in \<open>simp_all add: rx_def\<close>)
  from this stream_end_to_end [OF this demo_owner] dl(2) show ?thesis by fastforce
qed

theorem syn_accepted_witness:
  "\<exists>q st1 d1 i o' bs. syn_packet demo_senv True (newPacket (replicate 4096 0)) (demo_stream eStreamStatusNew, demo_streams) = Some (q, st1, d1) \<and>
     ProcessPacket demo_senv 0 q (demo_stream eStreamStatusOpen, demo_streams) = Some ((demo_stream eStreamStatusOpen)\<lparr>m_RemoteIdentity := i,
       m_ReceiveQueue := enqueue o' q [], m_LastReceivedSequenceNumber := 0\<rparr>, demo_streams) \<and> idex_bytes i = idex_bytes demo_idex \<and>
     view (q\<lparr>poffset := o'\<rparr>) = bs \<and> bs @ m_SendBuffer st1 = []"
proof -
  let ?p = "newPacket (replicate 4096 0)" and ?s = "demo_stream eStreamStatusNew" and ?r = "demo_stream eStreamStatusOpen"
  have p: "length (pbuf ?p) = 4096" "poffset ?p = 0" by (simp_all add: newPacket_def)
  have s: "m_SequenceNumber ?s = 0" "m_SendEof ?s = False" "m_SendBuffer ?s = []" "m_RemoteIdentity ?r = demo_idex" "m_ReceiveQueue ?r = []"
    by (simp_all add: demo_stream_def newStream_def)
  have k: "m_Signer (ownKeys demo_senv) = Some (0, replicate 20 4)" "SignatureLen 0 \<le> 256" "m_Public (ownKeys demo_senv) = demo_idex"
    by (simp_all add: demo_senv_def demo_dest_def demo_keys_def key_lens)
  from syn_packet_some [OF demo_owner p s(1), of True demo_streams] obtain q st1 d1 where
    q: "syn_packet demo_senv True ?p (?s, demo_streams) = Some (q, st1, d1)" "copy_of q q" by metis
  have "m_ExtendedBuffer (m_RemoteIdentity ?r) \<noteq> Freed" using s(4) by simp
  from syn_accepted [OF demo_owner p q(1) s(1,2) q(2) k(1,2) refl this, of 0 demo_streams] show ?thesis
    using q(1) s(3,5) k(3) by fastforce
qed

theorem syn_signature_overflow_witness:
  "\<exists>keys q. owner_ok (demo_senv\<lparr>ownKeys := keys\<rparr>) \<and>
     ProcessPacket demo_senv 0 q (demo_stream eStreamStatusOpen, demo_streams) = None \<and> plen q \<le> 4096 \<and> length (pbuf q) = 4096"
proof -
  let ?t = "SIGNING_KEY_TYPE_RSA_SHA384_3072" and ?p = "newPacket (replicate 4096 0)" and ?s = "demo_stream eStreamStatusNew"
  obtain i0 where i0: "idex_ok i0" "verifier_of i0 = Some (Some (?t, take (PublicKeyLen ?t) (replicate 384 1)))" "GetFullLen i0 \<le> 775"
    using newIdentityEx_keys_ok [of demo_genv ?t "replicate 256 1" "replicate 384 1"] demo_genv_ok by (auto simp: key_lens)
  let ?i = "i0\<lparr>m_Verifier := None\<rparr>"
  define keys where "keys = demo_keys\<lparr>m_Public := ?i, m_Signer := Some (?t, [])\<rparr>"
  let ?E = "demo_senv\<lparr>ownKeys := keys\<rparr>"
  have "dest_ok demo_sigenv ?t (keys, replicate 256 1)"
    using i0 by (simp add: dest_ok_def keys_def sig_pair_def demo_sigenv_def)
  then have o: "owner_ok ?E" using demo_owner by (auto simp: owner_ok_def demo_senv_def)
  have p: "length (pbuf ?p) = 4096" "poffset ?p = 0" by (simp_all add: newPacket_def)
  have s: "m_SequenceNumber ?s = 0" "m_RemoteIdentity (demo_stream eStreamStatusOpen) = demo_idex" by (simp_all add: demo_stream_def newStream_def)
  have k: "m_Signer (ownKeys ?E) = Some (?t, [])" by (simp add: keys_def)
  from syn_packet_some [OF o p s(1), of True demo_streams] obtain q st1 d1 where
    q: "syn_packet ?E True ?p (?s, demo_streams) = Some (q, st1, d1)" "copy_of q q" by metis
  have e: "m_ExtendedBuffer (m_RemoteIdentity (demo_stream eStreamStatusOpen)) \<noteq> Freed" using s(2) by simp
  have "ProcessPacket demo_senv 0 q (demo_stream eStreamStatusOpen, demo_streams) = None"
    by (rule syn_signature_overflow [OF o p q(1) s(1) q(2) k _ e]) simp
  then show ?thesis using o q(2) by (auto simp: copy_of_def)
qed

text \<open>
  The size of the options of a packet is not compared with the length of the packet: a packet whose
  options announce more than it holds is queued with a wrapped length, and the next read copies memory from
  behind the packet.
\<close>

theorem option_size_unchecked:
  assumes "ProcessPacket E a p (st, d) = Some (st', d')" and "m_ReceiveQueue st = []" and "Packet_GetPayload p = Some o'" and "plen p < o'"
    and "length (pbuf p) = MAX_PACKET_SIZE" and "MAX_PACKET_SIZE \<le> len" and "len < 2 ^ 32"
  shows "ReadSome len st' = None"
proof -
  have o: "o' < 2 ^ 17"
  proof -
    obtain n w where "o' = 22 + unat (n :: byte) * 4 + unat (w :: u16)"
      using assms(3) by (auto simp: Packet_GetPayload_def GetOptionData_def GetOption_def split: bind_splits intro: that)
    moreover have "unat w < 65536" using unsigned_less [of w] by simp
    then have "unat n * 4 + unat w < 131050" using unat_byte_less [of n] by linarith
    ultimately show ?thesis by simp
  qed
  have l: "Packet_GetLength (p\<lparr>poffset := o'\<rparr>) = 2 ^ 64 + plen p - o'" using assms(4) by (simp add: Packet_GetLength_def size_sub_def)
  have "m_ReceiveQueue st' = [p\<lparr>poffset := o'\<rparr>]"
    using ProcessPacket_rx [OF assms(1)] assms(2,3) o by (auto simp: rx_def enqueue_def l)
  moreover have "min (2 ^ 64 + plen p - o') len = len" using o assms(7) by simp
  ultimately show ?thesis using assms(4-6) by (simp add: ReadSome_def l mem_read_def)
qed

definition demo_bad_packet :: Packet where
  "demo_bad_packet = \<lparr>plen = 22, poffset = 0,
     pbuf = be_bytes 4 (7 :: u32) @ be_bytes 4 (9 :: u32) @ be_bytes 4 (1 :: u32) @ be_bytes 4 (0 :: u32) @ [0, 0] @
       be_bytes 2 PACKET_FLAG_NO_ACK @ be_bytes 2 (5 :: u16) @ replicate 4074 0, sendTime = 0\<rparr>"

theorem option_size_unchecked_witness:
  "\<exists>st'. ProcessPacket demo_senv 0 demo_bad_packet (demo_stream eStreamStatusOpen, demo_streams) = Some (st', demo_streams) \<and> ReadSome 4096 st' = None"
proof -
  have "pbuf demo_bad_packet = be_bytes 4 (7 :: u32) @ be_bytes 4 (9 :: u32) @ be_bytes 4 (1 :: u32) @ be_bytes 4 (0 :: u32) @ [0, 0] @
       be_bytes 2 PACKET_FLAG_NO_ACK @ be_bytes 2 (5 :: u16) @ replicate 4074 0" by (simp add: demo_bad_packet_def)
  note f = packet_fields [OF this length_be_bytes]
  obtain st' where p: "ProcessPacket demo_senv 0 demo_bad_packet (demo_stream eStreamStatusOpen, demo_streams) = Some (st', demo_streams)"
    by (simp add: ProcessPacket_def process_options_def f Let_def)
  have "m_ReceiveQueue (demo_stream eStreamStatusOpen) = []" using demo_rx(1) [of eStreamStatusOpen] by (simp add: rx_def)
  from option_size_unchecked [OF p this f(9), of 4096] p show ?thesis by (simp add: demo_bad_packet_def)
qed

end
