(* ===== verification/SSU_Packets.thy ===== *)
theory SSU_Packets
  imports Identities Tunnel_Crypto Std_Containers "HOL-Library.List_Lexorder" "HOL-Library.Product_Lexorder"
begin

text \<open>
  Packets of SSU, the transport over UDP: the message authentication of \<open>src/core/crypto/hmac.h\<close>, the state of a session and
  how packets are sealed and opened, after \<open>src/core/transport/SSUSession.cpp\<close> and \<open>SSUSession.h\<close>. What is sealed
  with the keys of a session is validated and opened with the same keys.
\<close>

section \<open>Message authentication\<close>

text \<open>\<open>HMACMD5Digest\<close> works in a buffer of 256 words of 64 bits on the stack; the hash function is a parameter.\<close>

definition hmac_pad :: "byte \<Rightarrow> bytes \<Rightarrow> bytes" where
  "hmac_pad c key = map (\<lambda>b. b XOR c) key @ replicate 32 c"

definition HMACMD5Digest :: "(bytes \<Rightarrow> bytes) \<Rightarrow> bytes \<Rightarrow> bytes \<Rightarrow> bytes option" where
  "HMACMD5Digest md msg key =
     (if 64 + length msg \<le> 2048
      then Some (md (hmac_pad 0x5C key @ md (hmac_pad 0x36 key @ msg) @ replicate 16 0))
      else None)"

section \<open>State of a session\<close>

abbreviation SSU_MTU_V4 :: nat where "SSU_MTU_V4 \<equiv> 1484"
abbreviation SSU_V4_MAX_PACKET_SIZE :: nat where "SSU_V4_MAX_PACKET_SIZE \<equiv> 1456"
abbreviation SSU_V6_MAX_PACKET_SIZE :: nat where "SSU_V6_MAX_PACKET_SIZE \<equiv> 1424"
abbreviation IPV4_HEADER_SIZE :: int where "IPV4_HEADER_SIZE \<equiv> 20"
abbreviation IPV6_HEADER_SIZE :: int where "IPV6_HEADER_SIZE \<equiv> 40"
abbreviation UDP_HEADER_SIZE :: int where "UDP_HEADER_SIZE \<equiv> 8"
abbreviation RESEND_INTERVAL :: u32 where "RESEND_INTERVAL \<equiv> 3"
abbreviation MAX_NUM_RESENDS :: nat where "MAX_NUM_RESENDS \<equiv> 5"
abbreviation MAX_NUM_RECEIVED_MESSAGES :: nat where "MAX_NUM_RECEIVED_MESSAGES \<equiv> 1000"
abbreviation INCOMPLETE_MESSAGES_CLEANUP_TIMEOUT :: u32 where "INCOMPLETE_MESSAGES_CLEANUP_TIMEOUT \<equiv> 30"
abbreviation DATA_FLAG_EXTENDED_DATA_INCLUDED :: byte where "DATA_FLAG_EXTENDED_DATA_INCLUDED \<equiv> 0x02"
abbreviation DATA_FLAG_WANT_REPLY :: byte where "DATA_FLAG_WANT_REPLY \<equiv> 0x04"
abbreviation DATA_FLAG_ACK_BITFIELDS_INCLUDED :: byte where "DATA_FLAG_ACK_BITFIELDS_INCLUDED \<equiv> 0x40"
abbreviation DATA_FLAG_EXPLICIT_ACKS_INCLUDED :: byte where "DATA_FLAG_EXPLICIT_ACKS_INCLUDED \<equiv> 0x80"

abbreviation PAYLOAD_TYPE_SESSION_REQUEST :: byte where "PAYLOAD_TYPE_SESSION_REQUEST \<equiv> 0"
abbreviation PAYLOAD_TYPE_SESSION_CREATED :: byte where "PAYLOAD_TYPE_SESSION_CREATED \<equiv> 1"
abbreviation PAYLOAD_TYPE_SESSION_CONFIRMED :: byte where "PAYLOAD_TYPE_SESSION_CONFIRMED \<equiv> 2"
abbreviation PAYLOAD_TYPE_RELAY_REQUEST :: byte where "PAYLOAD_TYPE_RELAY_REQUEST \<equiv> 3"
abbreviation PAYLOAD_TYPE_RELAY_RESPONSE :: byte where "PAYLOAD_TYPE_RELAY_RESPONSE \<equiv> 4"
abbreviation PAYLOAD_TYPE_RELAY_INTRO :: byte where "PAYLOAD_TYPE_RELAY_INTRO \<equiv> 5"
abbreviation PAYLOAD_TYPE_DATA :: byte where "PAYLOAD_TYPE_DATA \<equiv> 6"
abbreviation PAYLOAD_TYPE_PEER_TEST :: byte where "PAYLOAD_TYPE_PEER_TEST \<equiv> 7"
abbreviation PAYLOAD_TYPE_SESSION_DESTROYED :: byte where "PAYLOAD_TYPE_SESSION_DESTROYED \<equiv> 8"

text \<open>The header: mac (16), iv (16), flag (1), time (4).\<close>

abbreviation SSUHeader_size :: nat where "SSUHeader_size \<equiv> 37"

datatype SessionState = eSessionStateUnknown | eSessionStateIntroduced | eSessionStateEstablished
  | eSessionStateClosed | eSessionStateFailed

datatype PeerTestParticipant = ePeerTestParticipantUnknown | ePeerTestParticipantAlice1 | ePeerTestParticipantAlice2
  | ePeerTestParticipantBob | ePeerTestParticipantCharlie

text \<open>A fragment has a buffer of \<open>SSU_V4_MAX_PACKET_SIZE + 18\<close> bytes.\<close>

record SSUFragment =
  sfNum :: nat
  sfLen :: nat
  sfIsLast :: bool
  sfBuf :: bytes

record IncompleteMessage =
  incMsg :: I2NPMessage
  incNext :: nat
  lastFragmentInsertTime :: u32
  savedFragments :: "SSUFragment list"

text \<open>A fragment that is acknowledged is a null pointer.\<close>

record SentMessage =
  fragments :: "SSUFragment option list"
  nextResendTime :: u32
  numResends :: nat

record SSUData =
  ssuIncomplete :: "(u32, IncompleteMessage) smap"
  ssuSent :: "(u32, SentMessage) smap"
  ssuReceived :: "u32 set"
  m_MaxPacketSize :: int
  m_PacketSize :: int
  m_TunnelMsgs :: "I2NPMessage list"
  m_TunnelGatewayMsgs :: "I2NPMessage list"

text \<open>
  An address has 4 or 16 bytes. Endpoints are ordered as \<open>boost\<close> orders them: addresses of version 4 first, then by address,
  then by port.
\<close>

datatype endpoint = UdpEndpoint (epIP: bytes) (epPort: u16)

definition endpoint_key :: "endpoint \<Rightarrow> nat \<times> bytes \<times> u16" where
  "endpoint_key e = (length (epIP e), epIP e, epPort e)"

lemma endpoint_key_inject [simp]: "endpoint_key a = endpoint_key b \<longleftrightarrow> a = b"
  by (cases a; cases b) (auto simp: endpoint_key_def)

instantiation endpoint :: linorder
begin

definition less_endpoint :: "endpoint \<Rightarrow> endpoint \<Rightarrow> bool" where
  "less_endpoint a b \<longleftrightarrow> endpoint_key a < endpoint_key b"

definition less_eq_endpoint :: "endpoint \<Rightarrow> endpoint \<Rightarrow> bool" where
  "less_eq_endpoint a b \<longleftrightarrow> endpoint_key a \<le> endpoint_key b"

instance
proof
  fix x y z :: endpoint
  show "x < y \<longleftrightarrow> x \<le> y \<and> \<not> y \<le> x" by (simp only: less_endpoint_def less_eq_endpoint_def less_le_not_le)
  show "x \<le> x" by (simp only: less_eq_endpoint_def order_refl)
  show "x \<le> y \<Longrightarrow> y \<le> z \<Longrightarrow> x \<le> z" unfolding less_eq_endpoint_def by (rule order_trans)
  show "x \<le> y \<Longrightarrow> y \<le> x \<Longrightarrow> x = y" unfolding less_eq_endpoint_def endpoint_key_inject [symmetric] by (rule antisym)
  show "x \<le> y \<or> y \<le> x" unfolding less_eq_endpoint_def by (rule linear)
qed

end

definition is_v4 :: "bytes \<Rightarrow> bool" where "is_v4 ip \<longleftrightarrow> length ip = 4"

record ssu_introducer =
  iHost :: bytes
  iPort :: u16
  iTag :: u32
  iKey :: bytes

record ssu_address =
  aHost :: bytes
  aPort :: u16
  aKey :: bytes
  aMtu :: int
  introducers :: "ssu_introducer list"

text \<open>What a session asks of the record of a router.\<close>

record ssu_router =
  rtIdentity :: IdentityEx
  rtAddress :: "ssu_address option" \<comment> \<open>\<open>GetSSUAddress ()\<close>\<close>
  rtAddressV4 :: "ssu_address option"
  rtAddressV6 :: "ssu_address option"
  rtPeerTesting :: bool
  rtUsesIntroducer :: bool

datatype ssu_timer = ConnectTimer | TerminationTimer

record SSUSession =
  m_RemoteRouter :: "ssu_router option"
  m_RemoteIdent :: IdentityEx
  m_DHKeysPair :: "(bytes \<times> bytes) option" \<comment> \<open>public and private key\<close>
  ssuNumSent :: nat
  ssuNumReceived :: nat
  m_RemoteEndpoint :: endpoint
  m_PeerTest :: bool
  ssuState :: SessionState
  m_IsSessionKey :: bool
  m_RelayTag :: u32
  m_SessionKeyEncryption :: CBCEncryption
  m_SessionKeyDecryption :: CBCDecryption
  m_SessionKey :: bytes
  m_MacKey :: bytes
  m_CreationTime :: u32
  m_Data :: SSUData
  m_IsDataReceived :: bool
  ssuTimer :: "ssu_timer option" \<comment> \<open>what \<open>m_Timer\<close> waits for\<close>

text \<open>What sessions do to the rest of the router.\<close>

datatype ssu_event =
    SentTo bytes endpoint
  | SSUHandled I2NPMessage
  | SSUPosted "I2NPMessage list"
  | PeerConnected
  | PeerDisconnected
  | UpdateAddress bytes
  | SetUnreachable
  | RemoveIntroducer endpoint

datatype RouterStatus = eRouterStatusOK | eRouterStatusTesting | eRouterStatusFirewalled

text \<open>The session of a peer test is the number of an object.\<close>

record PeerTest =
  ptCreationTime :: u64
  ptRole :: PeerTestParticipant
  ptSession :: "nat option"

text \<open>What sessions share: the status in the router context, the relays and the peer tests of the server.\<close>

record 'g ssunet =
  ssuWorld :: 'g
  ssuEvents :: "ssu_event list"
  ssuStatus :: RouterStatus
  m_Relays :: "(u32, endpoint) smap"
  m_PeerTests :: "(u32, PeerTest) smap"

text \<open>
  The environment: the crypto library, the clock, the random numbers, memory that is not initialised and the answers of
  the router context, the network database and the transports.
\<close>

record 'g ssuenv =
  tgen :: "'g genv"
  taes :: aes
  tsig :: "'g sigenv"
  md5 :: "bytes \<Rightarrow> bytes"
  dhAgree :: "bytes \<Rightarrow> bytes \<Rightarrow> bytes option" \<comment> \<open>private key, public key\<close>
  tseconds :: "'g \<Rightarrow> u64 \<times> 'g"
  tgarbage :: "nat \<Rightarrow> 'g \<Rightarrow> bytes \<times> 'g"
  nextDHKeysPair :: "'g \<Rightarrow> (bytes \<times> bytes) \<times> 'g"
  contextKeys :: PrivateKeys
  contextSSU :: "'g \<Rightarrow> ssu_address option \<times> 'g" \<comment> \<open>\<open>GetRouterInfo ().GetSSUAddress ()\<close>\<close>
  contextSSUV4 :: "'g \<Rightarrow> ssu_address option \<times> 'g"
  contextSSUV6 :: "'g \<Rightarrow> ssu_address option \<times> 'g"
  contextIntroducer :: "'g \<Rightarrow> bool \<times> 'g"
  ownRouterInfoMsg :: "'g \<Rightarrow> I2NPMessage \<times> 'g" \<comment> \<open>\<open>CreateDatabaseStoreMsg ()\<close>\<close>
  contextUsesIntroducer :: "'g \<Rightarrow> bool \<times> 'g"
  contextUnreachable :: "'g \<Rightarrow> bool \<times> 'g"
  contextAddIntroducer :: "ssu_router \<Rightarrow> u32 \<Rightarrow> 'g \<Rightarrow> bool \<times> 'g"
  supportsV6 :: bool
  netdbFind :: "bytes \<Rightarrow> 'g \<Rightarrow> ssu_router option \<times> 'g"
  netdbRandomIntroducer :: "'g \<Rightarrow> ssu_router option \<times> 'g"

definition task :: "('g \<Rightarrow> 'a \<times> 'g) \<Rightarrow> 'g ssunet \<Rightarrow> 'a \<times> 'g ssunet" where
  "task q n = (let (a, w) = q (ssuWorld n) in (a, n\<lparr>ssuWorld := w\<rparr>))"

definition emit :: "ssu_event \<Rightarrow> 'g ssunet \<Rightarrow> 'g ssunet" where
  "emit e n = n\<lparr>ssuEvents := ssuEvents n @ [e]\<rparr>"

text \<open>The maps of the server that sessions use.\<close>

definition AddRelay :: "u32 \<Rightarrow> endpoint \<Rightarrow> 'g ssunet \<Rightarrow> 'g ssunet" where
  "AddRelay tag relay n = n\<lparr>m_Relays := map_put tag relay (m_Relays n)\<rparr>"

definition NewPeerTest :: "'g ssuenv \<Rightarrow> u32 \<Rightarrow> PeerTestParticipant \<Rightarrow> nat option \<Rightarrow> 'g ssunet \<Rightarrow> 'g ssunet" where
  "NewPeerTest E nonce role session n =
     (let (ts, n1) = task (clock (tgen E)) n
      in n1\<lparr>m_PeerTests := map_put nonce \<lparr>ptCreationTime = ts, ptRole = role, ptSession = session\<rparr> (m_PeerTests n1)\<rparr>)"

definition GetPeerTestParticipant :: "u32 \<Rightarrow> 'g ssunet \<Rightarrow> PeerTestParticipant" where
  "GetPeerTestParticipant nonce n =
     (case map_find nonce (m_PeerTests n) of Some t \<Rightarrow> ptRole t | None \<Rightarrow> ePeerTestParticipantUnknown)"

definition GetPeerTestSession :: "u32 \<Rightarrow> 'g ssunet \<Rightarrow> nat option" where
  "GetPeerTestSession nonce n = Option.bind (map_find nonce (m_PeerTests n)) ptSession"

definition UpdatePeerTest :: "u32 \<Rightarrow> PeerTestParticipant \<Rightarrow> 'g ssunet \<Rightarrow> 'g ssunet" where
  "UpdatePeerTest nonce role n =
     (case map_find nonce (m_PeerTests n) of
        Some t \<Rightarrow> n\<lparr>m_PeerTests := map_put nonce (t\<lparr>ptRole := role\<rparr>) (m_PeerTests n)\<rparr>
      | None \<Rightarrow> n)"

definition RemovePeerTest :: "u32 \<Rightarrow> 'g ssunet \<Rightarrow> 'g ssunet" where
  "RemovePeerTest nonce n = n\<lparr>m_PeerTests := map_erase nonce (m_PeerTests n)\<rparr>"

section \<open>Session keys\<close>

text \<open>The position of the first byte that is not zero, from 1 on; after position 32 the search gives up.\<close>

function find_nonzero :: "bytes \<Rightarrow> nat \<Rightarrow> nat option" where
  "find_nonzero k n = (if k ! n \<noteq> 0 then Some n else if 32 < Suc n then None else find_nonzero k (Suc n))"
  by pat_completeness auto
termination by (relation "measure (\<lambda>(k, n). 33 - n)") auto

definition derive_keys :: "(bytes \<Rightarrow> bytes) \<Rightarrow> bytes \<Rightarrow> (bytes \<times> bytes) option" where
  "derive_keys sha sharedKey =
     (if sharedKey ! 0 AND 0x80 \<noteq> 0 then Some (0 # take 31 sharedKey, take 32 (drop 31 sharedKey))
      else if sharedKey ! 0 \<noteq> 0 then Some (take 32 sharedKey, take 32 (drop 32 sharedKey))
      else map_option (\<lambda>n. (take 32 (drop n sharedKey), sha (take (64 - n) (drop n sharedKey)))) (find_nonzero sharedKey 1))"

definition CreateAESandMacKey :: "'g ssuenv \<Rightarrow> bytes \<Rightarrow> SSUSession \<Rightarrow> SSUSession option" where
  "CreateAESandMacKey E pubKey s = do {
     (pub, priv) \<leftarrow> m_DHKeysPair s;
     case dhAgree E priv pubKey of
       None \<Rightarrow> Some s
     | Some sharedKey \<Rightarrow>
         (case derive_keys (gsha (tgen E)) sharedKey of
            None \<Rightarrow> Some s
          | Some (k, mk) \<Rightarrow>
              Some (s\<lparr>m_SessionKey := k, m_MacKey := mk, m_IsSessionKey := True,
                m_SessionKeyEncryption := CBCEncryption_SetKey k (m_SessionKeyEncryption s),
                m_SessionKeyDecryption := CBCDecryption_SetKey k (m_SessionKeyDecryption s)\<rparr>))
   }"

section \<open>Packets\<close>

text \<open>
  \<open>FillHeaderAndEncrypt\<close> with given keys. The length of the encrypted part is kept in 16 bits, the padding that
  the mac covers is written behind the packet.
\<close>

definition seal :: "'g ssuenv \<Rightarrow> byte \<Rightarrow> nat \<Rightarrow> bytes \<Rightarrow> CBCEncryption \<Rightarrow> bytes \<Rightarrow> bytes \<Rightarrow> 'g ssunet \<Rightarrow>
    (bytes \<times> CBCEncryption \<times> 'g ssunet) option" where
  "seal E payloadType len iv enc macKey buf n = do {
     b1 \<leftarrow> mem_write 16 iv buf;
     b2 \<leftarrow> mem_set 32 (push_bit 4 payloadType) b1;
     let (ts, n1) = task (tseconds E) n;
     b3 \<leftarrow> htobe32buf 33 (ucast ts) b2;
     let encryptedLen = (len - 32) mod 65536;
     plain \<leftarrow> mem_read 32 encryptedLen b3;
     let (c, enc1) = CBCEncryption_Encrypt (taes E) plain (CBCEncryption_SetIV iv enc);
     b4 \<leftarrow> mem_write 32 c b3;
     b5 \<leftarrow> mem_write len iv b4;
     b6 \<leftarrow> htobe16buf (len + 16) (of_nat encryptedLen) b5;
     signed \<leftarrow> mem_read 32 (encryptedLen + 18) b6;
     mac \<leftarrow> HMACMD5Digest (md5 E) signed macKey;
     b7 \<leftarrow> mem_write 0 mac b6;
     Some (b7, enc1, n1)
   }"

definition FillHeaderAndEncrypt_keys ::
    "'g ssuenv \<Rightarrow> byte \<Rightarrow> bytes \<Rightarrow> nat \<Rightarrow> bytes \<Rightarrow> bytes \<Rightarrow> bytes \<Rightarrow> 'g ssunet \<Rightarrow> (bytes \<times> 'g ssunet) option" where
  "FillHeaderAndEncrypt_keys E payloadType buf len aesKey iv macKey n =
     (if len < SSUHeader_size then Some (buf, n)
      else do {
        (b, enc, n1) \<leftarrow> seal E payloadType len iv (CBCEncryption_SetKey aesKey newCBCEncryption) macKey buf n;
        Some (b, n1)
      })"

definition FillHeaderAndEncrypt ::
    "'g ssuenv \<Rightarrow> byte \<Rightarrow> bytes \<Rightarrow> nat \<Rightarrow> SSUSession \<times> 'g ssunet \<Rightarrow> (bytes \<times> SSUSession \<times> 'g ssunet) option" where
  "FillHeaderAndEncrypt E payloadType buf len = (\<lambda>(s, n).
     if len < SSUHeader_size then Some (buf, s, n)
     else do {
       let (iv, n1) = task (genBlock (tgen E) 16) n;
       (b, enc, n2) \<leftarrow> seal E payloadType len iv (m_SessionKeyEncryption s) (m_MacKey s) buf n1;
       Some (b, s\<lparr>m_SessionKeyEncryption := enc\<rparr>, n2)
     })"

definition Decrypt :: "'g ssuenv \<Rightarrow> bytes \<Rightarrow> nat \<Rightarrow> bytes \<Rightarrow> bytes option" where
  "Decrypt E buf len aesKey =
     (if len < SSUHeader_size then Some buf
      else do {
        iv \<leftarrow> mem_read 16 16 buf;
        encrypted \<leftarrow> mem_read 32 ((len - 32) mod 65536) buf;
        mem_write 32 (fst (CBCDecryption_Decrypt (taes E) encrypted
          (CBCDecryption_SetIV iv (CBCDecryption_SetKey aesKey newCBCDecryption)))) buf
      })"

definition DecryptSessionKey :: "'g ssuenv \<Rightarrow> bytes \<Rightarrow> nat \<Rightarrow> SSUSession \<Rightarrow> (bytes \<times> SSUSession) option" where
  "DecryptSessionKey E buf len s =
     (if len < SSUHeader_size \<or> (len - 32) mod 65536 = 0 then Some (buf, s)
      else do {
        iv \<leftarrow> mem_read 16 16 buf;
        encrypted \<leftarrow> mem_read 32 ((len - 32) mod 65536) buf;
        let (plain, dec) = CBCDecryption_Decrypt (taes E) encrypted (CBCDecryption_SetIV iv (m_SessionKeyDecryption s));
        b \<leftarrow> mem_write 32 plain buf;
        Some (b, s\<lparr>m_SessionKeyDecryption := dec\<rparr>)
      })"

text \<open>\<open>Validate\<close> writes the padding behind the packet too; the result is the verdict and the buffer.\<close>

definition Validate :: "'g ssuenv \<Rightarrow> bytes \<Rightarrow> nat \<Rightarrow> bytes \<Rightarrow> (bool \<times> bytes) option" where
  "Validate E buf len macKey =
     (if len < SSUHeader_size then Some (False, buf)
      else do {
        let encryptedLen = (len - 32) mod 65536;
        iv \<leftarrow> mem_read 16 16 buf;
        b1 \<leftarrow> mem_write len iv buf;
        b2 \<leftarrow> htobe16buf (len + 16) (of_nat encryptedLen) b1;
        signed \<leftarrow> mem_read 32 (encryptedLen + 18) b2;
        digest \<leftarrow> HMACMD5Digest (md5 E) signed macKey;
        mac \<leftarrow> mem_read 0 16 b2;
        Some (mac = digest, b2)
      })"

text \<open>\<open>Send (buf, size)\<close>: the packet goes to the remote endpoint.\<close>

definition Session_Send :: "bytes \<Rightarrow> nat \<Rightarrow> SSUSession \<times> 'g ssunet \<Rightarrow> (SSUSession \<times> 'g ssunet) option" where
  "Session_Send buf size' = (\<lambda>(s, n). do {
     data \<leftarrow> mem_read 0 size' buf;
     Some (s\<lparr>ssuNumSent := ssuNumSent s + size'\<rparr>, emit (SentTo data (m_RemoteEndpoint s)) n)
   })"

section \<open>Opening sealed packets\<close>

text \<open>What the code relies on: lengths of digests, blocks and allocations, and a block cipher.\<close>

definition ssuenv_ok :: "'g ssuenv \<Rightarrow> bool" where
  "ssuenv_ok E \<longleftrightarrow> genv_ok (tgen E) \<and> aes_ok (taes E) \<and> (\<forall>x. length (md5 E x) = 16) \<and>
     (\<forall>n g. length (fst (tgarbage E n g)) = n)"

lemma task_eq: "task q n = (fst (q (ssuWorld n)), n\<lparr>ssuWorld := snd (q (ssuWorld n))\<rparr>)"
  by (simp add: task_def case_prod_beta)

lemma cbc_encrypt_key: "eKey (snd (cbc_encrypt A n bs c)) = eKey c"
  by (induction n arbitrary: bs c) (simp_all add: Let_def case_prod_beta)

lemma cbc_decrypt_key: "dKey (snd (cbc_decrypt A n bs c)) = dKey c"
  by (induction n arbitrary: bs c) (simp_all add: Let_def case_prod_beta)

text \<open>Whole blocks are encrypted, what is left at the end stays as it is.\<close>

definition cbc_seal :: "aes \<Rightarrow> bytes \<Rightarrow> bytes \<Rightarrow> bytes \<Rightarrow> bytes" where
  "cbc_seal A key iv plain =
     (let n = length plain div 16
      in fst (cbc_encrypt A n plain \<lparr>eKey = key, m_LastBlock = iv\<rparr>) @ drop (16 * n) plain)"

lemma cbc_encrypt_take: "cbc_encrypt A n bs c = cbc_encrypt A n (take (16 * n) bs) c"
proof (induction n arbitrary: bs c)
  case (Suc n)
  have t: "take 16 (take (16 * Suc n) bs) = take 16 bs" "drop 16 (take (16 * Suc n) bs) = take (16 * n) (drop 16 bs)"
    by (simp_all add: drop_take)
  show ?case unfolding cbc_encrypt.simps(2) t by (subst Suc.IH) (rule refl)
qed simp

lemma cbc_decrypt_take: "cbc_decrypt A n bs c = cbc_decrypt A n (take (16 * n) bs) c"
proof (induction n arbitrary: bs c)
  case (Suc n)
  have t: "take 16 (take (16 * Suc n) bs) = take 16 bs" "drop 16 (take (16 * Suc n) bs) = take (16 * n) (drop 16 bs)"
    by (simp_all add: drop_take)
  show ?case unfolding cbc_decrypt.simps(2) t by (subst Suc.IH) (rule refl)
qed simp

lemma blocks_of: "16 * (length bs div 16) \<le> length (bs :: 'a list)"
  by (simp add: times_div_less_eq_dividend)

lemma length_cbc_encrypt:
  assumes "aes_ok A" and "length iv = 16"
  shows "length (fst (cbc_encrypt A (length plain div 16) plain \<lparr>eKey = k, m_LastBlock = iv\<rparr>)) = 16 * (length plain div 16)"
  using length_cbc(1) [OF assms(1), of "take (16 * (length plain div 16)) plain" "length plain div 16" "\<lparr>eKey = k, m_LastBlock = iv\<rparr>"]
    assms(2) blocks_of [of plain] by (subst cbc_encrypt_take) simp

lemma length_cbc_seal: "aes_ok A \<Longrightarrow> length iv = 16 \<Longrightarrow> length (cbc_seal A key iv plain) = length plain"
  using blocks_of [of plain] by (simp add: cbc_seal_def Let_def length_cbc_encrypt)

text \<open>The bytes of a sealed packet of \<open>len\<close> bytes and the padding behind it.\<close>

definition sealed_packet :: "'g ssuenv \<Rightarrow> bytes \<Rightarrow> bytes \<Rightarrow> bytes \<Rightarrow> bytes \<Rightarrow> bytes" where
  "sealed_packet E iv key macKey plain =
     (let c = cbc_seal (taes E) key iv plain;
          pad = iv @ be_bytes 2 (of_nat (length plain) :: u16)
      in md5 E (hmac_pad 0x5C macKey @ md5 E (hmac_pad 0x36 macKey @ c @ pad) @ replicate 16 0) @ iv @ c)"

lemma length_sealed_packet:
  assumes "ssuenv_ok E" and "length iv = 16"
  shows "length (sealed_packet E iv key macKey plain) = 32 + length plain"
  using assms by (simp add: sealed_packet_def Let_def length_cbc_seal ssuenv_ok_def)

lemma mem_write_prefix:
  "length pre = i \<Longrightarrow> length c \<le> length ys \<Longrightarrow> mem_write i c (pre @ ys @ t) = Some (pre @ (c @ drop (length c) ys) @ t)"
  by (simp add: mem_write_def)

lemma seal_eq:
  assumes ok: "ssuenv_ok E" and iv: "length iv = 16" and h: "length h = 32" and p: "length p + 32 = len" "37 \<le> len" "len \<le> 1998"
    and t: "18 \<le> length t"
  shows "\<exists>enc1. seal E payloadType len iv enc macKey (h @ p @ t) n =
      Some (sealed_packet E iv (eKey enc) macKey (push_bit 4 payloadType # be_bytes 4 (ucast (fst (tseconds E (ssuWorld n))) :: u32) @ drop 5 p) @
        iv @ be_bytes 2 (of_nat (length p) :: u16) @ drop 18 t, enc1, snd (task (tseconds E) n)) \<and> eKey enc1 = eKey enc"
proof -
  obtain h1 h2 where h': "h = h1 @ h2" "length h1 = 16" "length h2 = 16"
    using h by (intro that [of "take 16 h" "drop 16 h"]) simp_all
  obtain p0 p1 p2 where p': "p = p0 # p1 @ p2" "length p1 = 4"
    using p by (intro that [of "hd p" "take 4 (tl p)" "drop 4 (tl p)"]) (cases p; simp)+
  obtain t1 t2 t3 where t': "t = t1 @ t2 @ t3" "length t1 = 16" "length t2 = 2"
    using t by (intro that [of "take 16 t" "take 2 (drop 16 t)" "drop 2 (drop 16 t)"]) (simp_all only: append_take_drop_id, simp_all)
  let ?ts = "ucast (fst (tseconds E (ssuWorld n))) :: u32"
  let ?plain = "push_bit 4 payloadType # be_bytes 4 ?ts @ p2"
  have lp: "length ?plain = length p" using p' by simp
  let ?e = "CBCEncryption_SetIV iv enc"
  have e: "?e = \<lparr>eKey = eKey enc, m_LastBlock = iv\<rparr>" using iv by (simp add: CBCEncryption_SetIV_def)
  obtain c enc1 where c: "CBCEncryption_Encrypt (taes E) ?plain ?e = (c, enc1)" by (cases "CBCEncryption_Encrypt (taes E) ?plain ?e")
  then have c1: "c = fst (cbc_encrypt (taes E) (length ?plain div 16) ?plain \<lparr>eKey = eKey enc, m_LastBlock = iv\<rparr>)"
      "eKey enc1 = eKey enc"
    unfolding CBCEncryption_Encrypt_def e using cbc_encrypt_key [of "taes E" "length ?plain div 16" ?plain "\<lparr>eKey = eKey enc, m_LastBlock = iv\<rparr>"]
    by simp_all
  have lc: "length c = 16 * (length ?plain div 16)"
    unfolding c1(1) using ok iv by (intro length_cbc_encrypt) (simp_all add: ssuenv_ok_def)
  define C where "C = c @ drop (length c) ?plain"
  have C: "C = cbc_seal (taes E) (eKey enc) iv ?plain" by (simp only: C_def lc cbc_seal_def Let_def c1(1) [symmetric])
  have lcp: "length c \<le> length ?plain" unfolding lc by (rule blocks_of)
  have lC: "length C = length p" using lcp unfolding C_def lp [symmetric] by simp
  have m: "(len - 32) mod 65536 = length p" using p by simp
  have w1: "mem_write 16 iv (h @ p @ t) = Some (h1 @ iv @ p @ t)"
    using mem_write_append [of 16 h1 iv h2 "p @ t"] h' iv by simp
  have w2: "mem_set 32 (push_bit 4 payloadType) (h1 @ iv @ p @ t) = Some (h1 @ iv @ push_bit 4 payloadType # p1 @ p2 @ t)"
    using mem_set_append [of 32 "h1 @ iv" _ p0 "p1 @ p2 @ t"] h' iv p' by simp
  have w3: "mem_write 33 (be_bytes 4 ?ts) (h1 @ iv @ push_bit 4 payloadType # p1 @ p2 @ t) = Some (h1 @ iv @ ?plain @ t)"
    using mem_write_append [of 33 "h1 @ iv @ [push_bit 4 payloadType]" "be_bytes 4 ?ts" p1 "p2 @ t"] h' iv p' by simp
  have r1: "mem_read 32 (length p) (h1 @ iv @ ?plain @ t) = Some ?plain"
    using mem_read_append [of 32 "h1 @ iv" "length p" ?plain t] h' iv lp by simp
  have w4: "mem_write 32 c (h1 @ iv @ ?plain @ t) = Some (h1 @ iv @ C @ t)"
  proof -
    have "mem_write 32 c ((h1 @ iv) @ ?plain @ t) = Some ((h1 @ iv) @ C @ t)"
      unfolding C_def by (rule mem_write_prefix) (use lcp h' iv in simp_all)
    then show ?thesis by (simp only: append_assoc)
  qed
  have w5: "mem_write len iv (h1 @ iv @ C @ t) = Some (h1 @ iv @ C @ iv @ t2 @ t3)"
    using mem_write_append [of len "h1 @ iv @ C" iv t1 "t2 @ t3"] h' iv lC p(1) t' by simp
  let ?l = "be_bytes 2 (of_nat (length p) :: u16)"
  have w6: "mem_write (len + 16) ?l (h1 @ iv @ C @ iv @ t2 @ t3) = Some (h1 @ iv @ C @ iv @ ?l @ t3)"
    using mem_write_append [of "len + 16" "h1 @ iv @ C @ iv" ?l t2 t3] h' iv lC p(1) t' by simp
  have r2: "mem_read 32 (length p + 18) (h1 @ iv @ C @ iv @ ?l @ t3) = Some (C @ iv @ ?l)"
    using mem_read_append [of 32 "h1 @ iv" "length p + 18" "C @ iv @ ?l" t3] h' iv lC by simp
  let ?mac = "md5 E (hmac_pad 0x5C macKey @ md5 E (hmac_pad 0x36 macKey @ C @ iv @ ?l) @ replicate 16 0)"
  have m1: "HMACMD5Digest (md5 E) (C @ iv @ ?l) macKey = Some ?mac"
    using lC iv p by (simp add: HMACMD5Digest_def)
  have w7: "mem_write 0 ?mac (h1 @ iv @ C @ iv @ ?l @ t3) = Some (?mac @ iv @ C @ iv @ ?l @ t3)"
    using mem_write_append [of 0 "[]" ?mac h1 "iv @ C @ iv @ ?l @ t3"] h' ok by (simp add: ssuenv_ok_def)
  have "sealed_packet E iv (eKey enc) macKey ?plain = ?mac @ iv @ C"
    by (simp only: sealed_packet_def Let_def lp C [symmetric])
  moreover have "drop 5 p = p2" "drop 18 t = t3" using p' t' by simp_all
  ultimately show ?thesis
    using c1(2) unfolding seal_def task_eq m Let_def htobe32buf_eq htobe16buf_eq prod.case
    by (simp only: w1 w2 w3 [unfolded append_Cons append_assoc] r1 [unfolded append_Cons append_assoc] c w4 [unfolded append_Cons append_assoc] w5 w6 r2 m1 w7 bind.bind_lunit prod.case task_eq fst_conv snd_conv append_Cons append_assoc) simp
qed

text \<open>The receiver: the mac of a sealed packet is right for the key it was made with, and it opens to what was sealed.\<close>

lemma Validate_any:
  assumes "ssuenv_ok E" and "md5 F = md5 E" and "length iv = 16" and "5 \<le> length plain" "length plain \<le> 1966"
    and "18 \<le> length rest"
  shows "Validate F (sealed_packet E iv key macKey plain @ rest) (32 + length plain) mk =
    Some (sealed_packet E iv key macKey plain = sealed_packet E iv key mk plain,
      sealed_packet E iv key macKey plain @ iv @ be_bytes 2 (of_nat (length plain) :: u16) @ drop 18 rest)"
proof -
  obtain r1 r2 r3 where r: "rest = r1 @ r2 @ r3" "length r1 = 16" "length r2 = 2"
    using assms(6) by (intro that [of "take 16 rest" "take 2 (drop 16 rest)" "drop 2 (drop 16 rest)"])
      (simp_all only: append_take_drop_id, simp_all)
  let ?l = "be_bytes 2 (of_nat (length plain) :: u16)"
  define c where "c = cbc_seal (taes E) key iv plain"
  define mac where "mac = (\<lambda>k. md5 E (hmac_pad 0x5C k @ md5 E (hmac_pad 0x36 k @ c @ iv @ ?l) @ replicate 16 0))"
  have s: "sealed_packet E iv key k plain = mac k @ iv @ c" for k
    by (simp add: sealed_packet_def Let_def c_def mac_def)
  have lc: "length c = length plain" using assms by (simp add: c_def length_cbc_seal ssuenv_ok_def)
  have lm: "length (mac k) = 16" for k using assms(1) by (simp add: mac_def ssuenv_ok_def)
  have m: "(32 + length plain - 32) mod 65536 = length plain" using assms(5) by simp
  have f1: "mem_read 16 16 ((mac macKey @ iv @ c) @ rest) = Some iv"
    unfolding append_assoc by (rule mem_read_append) (simp_all only: lm assms(3))
  have f2: "mem_write (32 + length plain) iv ((mac macKey @ iv @ c) @ rest) = Some (mac macKey @ iv @ c @ iv @ r2 @ r3)"
    using mem_write_append [of "32 + length plain" "mac macKey @ iv @ c" iv r1 "r2 @ r3"] r(2)
    by (simp add: lm lc assms(3) r(1))
  have f3: "mem_write (32 + length plain + 16) ?l (mac macKey @ iv @ c @ iv @ r2 @ r3) = Some (mac macKey @ iv @ c @ iv @ ?l @ r3)"
    using mem_write_append [of "32 + length plain + 16" "mac macKey @ iv @ c @ iv" ?l r2 r3] r(3)
    by (simp add: lm lc assms(3))
  have f4: "mem_read 32 (length plain + 18) (mac macKey @ iv @ c @ iv @ ?l @ r3) = Some (c @ iv @ ?l)"
    using mem_read_append [of 32 "mac macKey @ iv" "length plain + 18" "c @ iv @ ?l" r3]
    by (simp add: lm lc assms(3))
  have f5: "HMACMD5Digest (md5 F) (c @ iv @ ?l) mk = Some (mac mk)"
    using lc assms(2,3,5) by (simp add: HMACMD5Digest_def mac_def)
  have f6: "mem_read 0 16 (mac macKey @ iv @ c @ iv @ ?l @ r3) = Some (mac macKey)"
    using mem_read_append [of 0 "[]" 16 "mac macKey"] by (simp add: lm)
  have "drop 18 rest = r3" using r by simp
  then show ?thesis
    using assms(4) unfolding Validate_def s m Let_def htobe16buf_eq
    by (simp only: f1 f2 f3 f4 f5 f6 bind.bind_lunit) simp
qed

lemma Validate_sealed:
  assumes "ssuenv_ok E" and "md5 F = md5 E" and "length iv = 16" and "5 \<le> length plain" "length plain \<le> 1966"
    and "18 \<le> length rest"
  shows "Validate F (sealed_packet E iv key macKey plain @ rest) (32 + length plain) macKey =
    Some (True, sealed_packet E iv key macKey plain @ iv @ be_bytes 2 (of_nat (length plain) :: u16) @ drop 18 rest)"
  using Validate_any [OF assms] by simp

text \<open>The last step of both ways to decrypt.\<close>

lemma open_sealed:
  assumes "ssuenv_ok E" and "taes F = taes E" and "length iv = 16" and "dKey d = key"
  shows "fst (CBCDecryption_Decrypt (taes F) (drop 32 (sealed_packet E iv key macKey plain)) (CBCDecryption_SetIV iv d)) =
    take (16 * (length plain div 16)) plain"
proof -
  let ?n = "length plain div 16"
  have a: "aes_ok (taes E)" using assms(1) by (simp add: ssuenv_ok_def)
  let ?c = "fst (cbc_encrypt (taes E) ?n plain \<lparr>eKey = key, m_LastBlock = iv\<rparr>)"
  have d: "drop 32 (sealed_packet E iv key macKey plain) = ?c @ drop (16 * ?n) plain"
    using assms(1,3) by (simp add: sealed_packet_def Let_def ssuenv_ok_def cbc_seal_def)
  have lc: "length ?c = 16 * ?n" by (rule length_cbc_encrypt [OF a assms(3)])
  have "fst (cbc_decrypt (taes E) ?n ?c (CBCDecryption_SetIV iv d)) = take (16 * ?n) plain"
    using assms(3,4) blocks_of [of plain]
    by (subst cbc_encrypt_take, intro cbc_decrypt_encrypt [OF a]) (auto simp: CBCDecryption_SetIV_def)
  moreover have "length (?c @ drop (16 * ?n) plain) div 16 = ?n"
    using lc blocks_of [of plain] by simp
  moreover have "cbc_decrypt (taes E) ?n (?c @ drop (16 * ?n) plain) (CBCDecryption_SetIV iv d) = cbc_decrypt (taes E) ?n ?c (CBCDecryption_SetIV iv d)"
    by (subst cbc_decrypt_take) (simp add: lc)
  ultimately show ?thesis by (simp add: CBCDecryption_Decrypt_def assms(2) d)
qed

lemma opened_reads:
  fixes key macKey plain :: bytes
  assumes "ssuenv_ok E" and "length iv = 16"
  defines "P \<equiv> sealed_packet E iv key macKey plain"
  shows "mem_read 16 16 (P @ rest) = Some iv" and "mem_read 32 (length plain) (P @ rest) = Some (drop 32 P)"
    and "mem_write 32 (take (16 * (length plain div 16)) plain) (P @ rest) = Some (take 32 P @ plain @ rest)"
proof -
  let ?n = "16 * (length plain div 16)"
  have a: "aes_ok (taes E)" using assms(1) by (simp add: ssuenv_ok_def)
  have l: "length P = 32 + length plain" using length_sealed_packet [OF assms(1,2)] by (simp add: P_def)
  have i: "take 16 (drop 16 P) = iv" using assms(1,2) by (simp add: P_def sealed_packet_def Let_def ssuenv_ok_def)
  show "mem_read 16 16 (P @ rest) = Some iv" using l i by (simp add: mem_read_def)
  show "mem_read 32 (length plain) (P @ rest) = Some (drop 32 P)" using l by (simp add: mem_read_def)
  have d: "drop 32 P = fst (cbc_encrypt (taes E) (length plain div 16) plain \<lparr>eKey = key, m_LastBlock = iv\<rparr>) @ drop ?n plain"
    using assms(1,2) by (simp add: P_def sealed_packet_def Let_def ssuenv_ok_def cbc_seal_def)
  have "drop ?n (drop 32 P) = drop ?n plain"
    unfolding d by (simp add: length_cbc_encrypt [OF a assms(2)])
  then have e: "take ?n plain @ drop (length (take ?n plain)) (drop 32 P) = plain"
    using blocks_of [of plain] by (simp add: min_absorb2)
  have "mem_write 32 (take ?n plain) (take 32 P @ drop 32 P @ rest) = Some (take 32 P @ plain @ rest)"
    using mem_write_prefix [of "take 32 P" 32 "take ?n plain" "drop 32 P" rest] l blocks_of [of plain] unfolding e by simp
  then show "mem_write 32 (take ?n plain) (P @ rest) = Some (take 32 P @ plain @ rest)"
    by (simp only: append_assoc [symmetric] append_take_drop_id)
qed

lemma DecryptSessionKey_sealed:
  assumes "ssuenv_ok E" and "taes F = taes E" and "length iv = 16" and "5 \<le> length plain" "length plain \<le> 1966"
    and "dKey (m_SessionKeyDecryption s) = key"
  shows "\<exists>dec. DecryptSessionKey F (sealed_packet E iv key macKey plain @ rest) (32 + length plain) s =
    Some (take 32 (sealed_packet E iv key macKey plain) @ plain @ rest, s\<lparr>m_SessionKeyDecryption := dec\<rparr>) \<and> dKey dec = key"
proof -
  let ?P = "sealed_packet E iv key macKey plain"
  note r = opened_reads [OF assms(1,3), where key = key and macKey = macKey and plain = plain and rest = rest]
  have m: "(32 + length plain - 32) mod 65536 = length plain" using assms(5) by simp
  obtain p dec where d: "CBCDecryption_Decrypt (taes F) (drop 32 ?P) (CBCDecryption_SetIV iv (m_SessionKeyDecryption s)) = (p, dec)"
    by (cases "CBCDecryption_Decrypt (taes F) (drop 32 ?P) (CBCDecryption_SetIV iv (m_SessionKeyDecryption s))")
  have p: "p = take (16 * (length plain div 16)) plain" using open_sealed [OF assms(1-3,6), of macKey plain] d by simp
  have "dKey dec = key"
    using d cbc_decrypt_key [of "taes F" "length (drop 32 ?P) div 16" "drop 32 ?P" "CBCDecryption_SetIV iv (m_SessionKeyDecryption s)"] assms(6)
    by (simp add: CBCDecryption_Decrypt_def CBCDecryption_SetIV_def)
  then show ?thesis
    using assms(4) unfolding DecryptSessionKey_def m Let_def
    by (intro exI [of _ dec]) (auto simp: r d p)
qed

lemma Decrypt_sealed:
  assumes "ssuenv_ok E" and "taes F = taes E" and "length iv = 16" and "5 \<le> length plain" "length plain \<le> 1966"
  shows "Decrypt F (sealed_packet E iv key macKey plain @ rest) (32 + length plain) key =
    Some (take 32 (sealed_packet E iv key macKey plain) @ plain @ rest)"
proof -
  note r = opened_reads [OF assms(1,3), where key = key and macKey = macKey and plain = plain and rest = rest]
  have m: "(32 + length plain - 32) mod 65536 = length plain" using assms(5) by simp
  have "fst (CBCDecryption_Decrypt (taes F) (drop 32 (sealed_packet E iv key macKey plain))
      (CBCDecryption_SetIV iv (CBCDecryption_SetKey key newCBCDecryption))) = take (16 * (length plain div 16)) plain"
    using assms by (intro open_sealed) (simp_all add: CBCDecryption_SetKey_def)
  then show ?thesis
    using assms(4) unfolding Decrypt_def m Let_def by (simp add: r)
qed

text \<open>With given keys, and room behind the packet.\<close>

lemma FillHeaderAndEncrypt_keys_eq:
  assumes "ssuenv_ok E" and "length iv = 16" and "37 \<le> len" "len \<le> 1998" "len + 18 \<le> length buf"
  shows "\<exists>ts n1. FillHeaderAndEncrypt_keys E payloadType buf len key iv macKey n =
      Some (sealed_packet E iv key macKey (push_bit 4 payloadType # be_bytes 4 (ts :: u32) @ drop 5 (take (len - 32) (drop 32 buf))) @
        iv @ be_bytes 2 (of_nat (len - 32) :: u16) @ drop (len + 18) buf, n1) \<and> n1 = snd (task (tseconds E) n)"
proof -
  let ?p = "take (len - 32) (drop 32 buf)"
  have "drop len buf = drop (len - 32) (drop 32 buf)" using assms(3) by simp
  then have b: "buf = take 32 buf @ ?p @ drop len buf" by (metis append_take_drop_id)
  have l: "length ?p + 32 = len" "length (take 32 buf) = 32" "18 \<le> length (drop len buf)" "length ?p = len - 32" using assms(3-) by simp_all
  from seal_eq [OF assms(1,2) l(2,1) assms(3,4) l(3), of payloadType "CBCEncryption_SetKey key newCBCEncryption" macKey n]
  show ?thesis unfolding b [symmetric] FillHeaderAndEncrypt_keys_def using assms(3) l(4) by (auto simp: CBCEncryption_SetKey_def add.commute)
qed

text \<open>The session version of \<open>FillHeaderAndEncrypt\<close>, on a buffer with room behind the packet.\<close>

lemma FillHeaderAndEncrypt_eq:
  assumes "ssuenv_ok E" and "length p + 32 = len" "37 \<le> len" "len \<le> 1998" "length h = 32" "18 \<le> length t"
  shows "\<exists>iv ts enc n1. FillHeaderAndEncrypt E payloadType (h @ p @ t) len (s, n) =
      Some (sealed_packet E iv (eKey (m_SessionKeyEncryption s)) (m_MacKey s) (push_bit 4 payloadType # be_bytes 4 (ts :: u32) @ drop 5 p) @
        iv @ be_bytes 2 (of_nat (length p) :: u16) @ drop 18 t, s\<lparr>m_SessionKeyEncryption := enc\<rparr>, n1) \<and>
    length iv = 16 \<and> eKey enc = eKey (m_SessionKeyEncryption s) \<and> ssuEvents n1 = ssuEvents n"
proof -
  let ?iv = "fst (genBlock (tgen E) 16 (ssuWorld n))" and ?n = "n\<lparr>ssuWorld := snd (genBlock (tgen E) 16 (ssuWorld n))\<rparr>"
  have iv: "length ?iv = 16" using assms(1) by (simp add: ssuenv_ok_def genv_ok_def)
  from seal_eq [OF assms(1) iv assms(5,2-4,6), of payloadType "m_SessionKeyEncryption s" "m_MacKey s" ?n] obtain enc1 where
    s: "seal E payloadType len ?iv (m_SessionKeyEncryption s) (m_MacKey s) (h @ p @ t) ?n =
      Some (sealed_packet E ?iv (eKey (m_SessionKeyEncryption s)) (m_MacKey s) (push_bit 4 payloadType #
        be_bytes 4 (ucast (fst (tseconds E (ssuWorld ?n))) :: u32) @ drop 5 p) @
        ?iv @ be_bytes 2 (of_nat (length p) :: u16) @ drop 18 t, enc1, snd (task (tseconds E) ?n))" "eKey enc1 = eKey (m_SessionKeyEncryption s)"
    by blast
  show ?thesis
    unfolding FillHeaderAndEncrypt_def prod.case task_eq [of "genBlock (tgen E) 16"] Let_def s(1)
    using assms(3) s(2) iv by (simp add: task_eq) blast
qed

end
