(* ===== verification/SSU_Data.thy ===== *)
theory SSU_Data
  imports SSU_Packets
begin

text \<open>
  The data packets of SSU: \<open>src/core/transport/SSUData.cpp\<close> and \<open>SSUData.h\<close>. Messages are cut into fragments, acknowledged
  as a whole or by bits, resent, and put together again. Timers are calls of their handlers.
\<close>

section \<open>Packet sizes\<close>

definition AdjustPacketSize :: "bool \<Rightarrow> ssu_router \<Rightarrow> SSUData \<Rightarrow> SSUData" where
  "AdjustPacketSize isV6 router d =
     (case rtAddress router of
        None \<Rightarrow> d
      | Some a \<Rightarrow>
          if aMtu a = 0 then d
          else let size = aMtu a - (if isV6 then IPV6_HEADER_SIZE else IPV4_HEADER_SIZE) - UDP_HEADER_SIZE in
            if size > 0 then d\<lparr>m_PacketSize := min (size div 16 * 16) (m_MaxPacketSize d)\<rparr>
            else d\<lparr>m_PacketSize := m_MaxPacketSize d\<rparr>)"

definition newSSUData :: "bool \<Rightarrow> ssu_router option \<Rightarrow> SSUData" where
  "newSSUData isV6 router =
     (let size = (if isV6 then int SSU_V6_MAX_PACKET_SIZE else int SSU_V4_MAX_PACKET_SIZE);
          d = \<lparr>ssuIncomplete = [], ssuSent = [], ssuReceived = {}, m_MaxPacketSize = size, m_PacketSize = size,
            m_TunnelMsgs = [], m_TunnelGatewayMsgs = []\<rparr>
      in case router of None \<Rightarrow> d | Some r \<Rightarrow> AdjustPacketSize isV6 r d)"

definition IsV6 :: "SSUSession \<Rightarrow> bool" where "IsV6 s \<longleftrightarrow> \<not> is_v4 (epIP (m_RemoteEndpoint s))"

definition on_data :: "(SSUData \<Rightarrow> SSUData) \<Rightarrow> SSUSession \<Rightarrow> SSUSession" where
  "on_data f s = s\<lparr>m_Data := f (m_Data s)\<rparr>"

definition UpdatePacketSize :: "'g ssuenv \<Rightarrow> bytes \<Rightarrow> SSUSession \<times> 'g ssunet \<Rightarrow> SSUSession \<times> 'g ssunet" where
  "UpdatePacketSize E remoteIdent = (\<lambda>(s, n).
     let (r, n1) = task (netdbFind E remoteIdent) n
     in (case r of None \<Rightarrow> s | Some router \<Rightarrow> on_data (AdjustPacketSize (IsV6 s) router) s, n1))"

section \<open>Sending\<close>

text \<open>
  The fragment information: number, a bit for the last fragment, size; three bytes of it are sent.
\<close>

definition fragment_info :: "nat \<Rightarrow> bool \<Rightarrow> nat \<Rightarrow> u32" where
  "fragment_info num isLast size' = push_bit 17 (of_nat num) OR (if isLast then 0x010000 else 0) OR of_nat size'"

text \<open>
  The loop of \<open>Send\<close>: \<open>pos\<close> is \<open>msgBuf\<close>. With a payload size of zero it would not end. The member
  \<open>isLast\<close> of a sent fragment is not written and not read.
\<close>

function send_fragments :: "'g ssuenv \<Rightarrow> u32 \<Rightarrow> nat \<Rightarrow> bytes \<Rightarrow> nat \<Rightarrow> nat \<Rightarrow> nat \<Rightarrow> SSUSession \<times> 'g ssunet \<Rightarrow>
    (SSUFragment option list \<times> SSUSession \<times> 'g ssunet) option" where
  "send_fragments E msgID payloadSize mem num pos len s =
     (if len = 0 then Some ([], s)
      else if payloadSize = 0 then None
      else do {
        let isLast = (len \<le> payloadSize);
        let size' = (if isLast then len else payloadSize);
        let (buf, n1) = task (tgarbage E (SSU_V4_MAX_PACKET_SIZE + 18)) (snd s);
        chunk \<leftarrow> mem_read pos size' mem;
        b1 \<leftarrow> mem_write SSUHeader_size ([DATA_FLAG_WANT_REPLY, 1] @ be_bytes 4 msgID @
          drop 1 (be_bytes 4 (fragment_info num isLast size')) @ chunk) buf;
        let size1 = size' + 46;
        let size2 = (if size1 mod 16 \<noteq> 0 then (size1 div 16 + 1) * 16 else size1);
        (b2, s1) \<leftarrow> FillHeaderAndEncrypt E PAYLOAD_TYPE_DATA b1 size2 (fst s, n1);
        s2 \<leftarrow> Session_Send b2 size2 s1;
        (fs, s3) \<leftarrow> send_fragments E msgID payloadSize mem (num + 1) (pos + payloadSize) (if isLast then 0 else len - payloadSize) s2;
        Some (Some \<lparr>sfNum = num, sfLen = size2, sfIsLast = False, sfBuf = b2\<rparr> # fs, s3)
      })"
  by pat_completeness auto
termination by (relation "measure (\<lambda>(E, msgID, payloadSize, mem, num, pos, len, s). len)") auto

declare send_fragments.simps [simp del]

definition SSUData_Send :: "'g ssuenv \<Rightarrow> I2NPMessage \<Rightarrow> SSUSession \<times> 'g ssunet \<Rightarrow> (SSUSession \<times> 'g ssunet) option" where
  "SSUData_Send E msg = (\<lambda>(s, n). do {
     (msgID, m) \<leftarrow> ToSSU msg;
     if map_find msgID (ssuSent (m_Data s)) \<noteq> None then Some (s, n)
     else do {
       let (ts, n1) = task (tseconds E) n;
       let payloadSize = nat ((m_PacketSize (m_Data s) - 46) mod 2 ^ 64);
       (fs, s1, n2) \<leftarrow> send_fragments E msgID payloadSize (mbuf m) 0 (GetSSUHeader m) (GetLength m) (s, n1);
       Some (on_data (\<lambda>d. d\<lparr>ssuSent := map_put msgID
         \<lparr>fragments = fs, nextResendTime = ucast ts + RESEND_INTERVAL, numResends = 0\<rparr> (ssuSent d)\<rparr>) s1, n2)
     }
   })"

section \<open>Acknowledgements\<close>

definition SendMsgAck :: "'g ssuenv \<Rightarrow> u32 \<Rightarrow> SSUSession \<times> 'g ssunet \<Rightarrow> (SSUSession \<times> 'g ssunet) option" where
  "SendMsgAck E msgID = (\<lambda>(s, n). do {
     let (buf, n1) = task (tgarbage E (48 + 18)) n;
     b1 \<leftarrow> mem_write SSUHeader_size ([DATA_FLAG_EXPLICIT_ACKS_INCLUDED, 1] @ be_bytes 4 msgID @ [0]) buf;
     (b2, s1) \<leftarrow> FillHeaderAndEncrypt E PAYLOAD_TYPE_DATA b1 48 (s, n1);
     Session_Send b2 48 s1
   })"

definition fragment_ack :: "u32 \<Rightarrow> nat \<Rightarrow> bytes" where
  "fragment_ack msgID fragmentNum =
     [DATA_FLAG_ACK_BITFIELDS_INCLUDED, 1] @ be_bytes 4 msgID @ replicate (fragmentNum div 7) 0x80 @
     [push_bit (fragmentNum mod 7) 1, 0]"

definition SendFragmentAck :: "'g ssuenv \<Rightarrow> u32 \<Rightarrow> nat \<Rightarrow> SSUSession \<times> 'g ssunet \<Rightarrow> (SSUSession \<times> 'g ssunet) option" where
  "SendFragmentAck E msgID fragmentNum = (\<lambda>(s, n).
     if fragmentNum > 64 then Some (s, n)
     else do {
       let (buf, n1) = task (tgarbage E (64 + 18)) n;
       b1 \<leftarrow> mem_write SSUHeader_size (fragment_ack msgID fragmentNum) buf;
       let len = (if fragmentNum div 7 < 4 then 48 else 64);
       (b2, s1) \<leftarrow> FillHeaderAndEncrypt E PAYLOAD_TYPE_DATA b1 len (s, n1);
       Session_Send b2 len s1
     })"

definition ProcessSentMessageAck :: "u32 \<Rightarrow> SSUData \<Rightarrow> SSUData" where
  "ProcessSentMessageAck msgID d = d\<lparr>ssuSent := map_erase msgID (ssuSent d)\<rparr>"

fun explicit_acks :: "nat \<Rightarrow> nat \<Rightarrow> bytes \<Rightarrow> SSUData \<Rightarrow> SSUData option" where
  "explicit_acks 0 pos mem d = Some d"
| "explicit_acks (Suc k) pos mem d = do {
     msgID \<leftarrow> bufbe32toh pos mem;
     explicit_acks k (pos + 4) mem (ProcessSentMessageAck msgID d)
   }"

text \<open>The seven bits of a bitfield: each clears the pointer of a fragment that exists.\<close>

definition clear_fragments :: "byte \<Rightarrow> nat \<Rightarrow> SSUFragment option list \<Rightarrow> SSUFragment option list" where
  "clear_fragments bitfield fragment fs =
     fold (\<lambda>j fs. if bit bitfield j \<and> fragment + j < length fs then fs[fragment + j := None] else fs) [0..<7] fs"

text \<open>
  The bitfields of one message: \<open>fragment\<close> only moves on when a bit is set and the message is still
  known. The result is the position behind the last bitfield and the fragments.
\<close>

function ack_bitfields :: "nat \<Rightarrow> nat \<Rightarrow> bytes \<Rightarrow> SSUFragment option list option \<Rightarrow> (nat \<times> SSUFragment option list option) option" where
  "ack_bitfields pos fragment mem fs =
     (if pos < length mem then
        let b = mem ! pos;
            bitfield = b AND 0x7F;
            (fragment1, fs1) = (case fs of
                Some f \<Rightarrow> if bitfield \<noteq> 0 then (fragment + 7, Some (clear_fragments bitfield fragment f)) else (fragment, fs)
              | None \<Rightarrow> (fragment, fs))
        in if b AND 0x80 \<noteq> 0 then ack_bitfields (pos + 1) fragment1 mem fs1 else Some (pos + 1, fs1)
      else None)"
  by pat_completeness auto
termination by (relation "measure (\<lambda>(pos, fragment, mem, fs). length mem - pos)") auto

declare ack_bitfields.simps [simp del]

fun bitfield_acks :: "nat \<Rightarrow> nat \<Rightarrow> bytes \<Rightarrow> SSUData \<Rightarrow> (nat \<times> SSUData) option" where
  "bitfield_acks 0 pos mem d = Some (pos, d)"
| "bitfield_acks (Suc k) pos mem d = do {
     msgID \<leftarrow> bufbe32toh pos mem;
     let it = map_find msgID (ssuSent d);
     (pos1, fs) \<leftarrow> ack_bitfields (pos + 4) 0 mem (map_option fragments it);
     let d1 = (case (it, fs) of
         (Some sm, Some f) \<Rightarrow> d\<lparr>ssuSent := map_put msgID (sm\<lparr>fragments := f\<rparr>) (ssuSent d)\<rparr>
       | _ \<Rightarrow> d);
     bitfield_acks k pos1 mem d1
   }"

definition ProcessAcks :: "nat \<Rightarrow> byte \<Rightarrow> bytes \<Rightarrow> SSUData \<Rightarrow> (nat \<times> SSUData) option" where
  "ProcessAcks pos flag mem d = do {
     (pos1, d1) \<leftarrow> (if flag AND DATA_FLAG_EXPLICIT_ACKS_INCLUDED \<noteq> 0 then do {
         numAcks \<leftarrow> mem_get pos mem;
         d1 \<leftarrow> explicit_acks (unat numAcks) (pos + 1) mem d;
         Some (pos + 1 + unat numAcks * 4, d1)
       } else Some (pos, d));
     if flag AND DATA_FLAG_ACK_BITFIELDS_INCLUDED \<noteq> 0 then do {
       numBitfields \<leftarrow> mem_get pos1 mem;
       bitfield_acks (unat numBitfields) (pos1 + 1) mem d1
     } else Some (pos1, d1)
   }"

section \<open>An established session\<close>

text \<open>
  \<open>SendPeerTest\<close> with its arguments: nonce, address, port and key; \<open>toAddress\<close> chooses our own key and the endpoint
  given by the address.
\<close>

definition SendPeerTest_args :: "'g ssuenv \<Rightarrow> u32 \<Rightarrow> u32 \<Rightarrow> u16 \<Rightarrow> bytes \<Rightarrow> bool \<Rightarrow> bool \<Rightarrow> SSUSession \<times> 'g ssunet \<Rightarrow>
    (SSUSession \<times> 'g ssunet) option" where
  "SendPeerTest_args E nonce address port introKey toAddress sendAddress = (\<lambda>(s, n). do {
     let (addr, n1) = (if toAddress then task (contextSSU E) n else (None, n));
     let key = (if toAddress then (case addr of Some a \<Rightarrow> aKey a | None \<Rightarrow> []) else introKey);
     b1 \<leftarrow> mem_write SSUHeader_size (be_bytes 4 nonce @ (if sendAddress \<and> address \<noteq> 0 then 4 # be_bytes 4 address else [0]) @
       be_bytes 2 port @ key) (replicate (80 + 18) 0);
     let (iv, n2) = task (genBlock (tgen E) 16) n1;
     if toAddress then do {
       (b2, n3) \<leftarrow> FillHeaderAndEncrypt_keys E PAYLOAD_TYPE_PEER_TEST b1 80 introKey iv introKey n2;
       data \<leftarrow> mem_read 0 80 b2;
       Some (s, emit (SentTo data (UdpEndpoint (be_bytes 4 address) port)) n3)
     } else do {
       (b2, s1) \<leftarrow> FillHeaderAndEncrypt E PAYLOAD_TYPE_PEER_TEST b1 80 (s, n2);
       Session_Send b2 80 s1
     }
   })"

definition SendPeerTest :: "'g ssuenv \<Rightarrow> SSUSession \<times> 'g ssunet \<Rightarrow> (SSUSession \<times> 'g ssunet) option" where
  "SendPeerTest E = (\<lambda>(s, n).
     let (address, n1) = task (contextSSU E) n
     in case address of
          None \<Rightarrow> Some (s, n1)
        | Some a \<Rightarrow>
            let (w, n2) = task (genMsgID (tgen E)) n1;
                nonce = (if w = 0 then 1 else w)
            in SendPeerTest_args E nonce 0 0 (aKey a) False False
                 (s\<lparr>m_PeerTest := False\<rparr>, NewPeerTest E nonce ePeerTestParticipantAlice1 None n2))"

definition ScheduleTermination :: "SSUSession \<Rightarrow> SSUSession" where
  "ScheduleTermination s = s\<lparr>ssuTimer := Some TerminationTimer\<rparr>"

definition Established :: "'g ssuenv \<Rightarrow> SSUSession \<times> 'g ssunet \<Rightarrow> (SSUSession \<times> 'g ssunet) option" where
  "Established E = (\<lambda>(s, n). do {
     let (msg, n1) = task (ownRouterInfoMsg E) n;
     (s1, n2) \<leftarrow> SSUData_Send E msg (s\<lparr>ssuState := eSessionStateEstablished, m_DHKeysPair := None\<rparr>, n1);
     let n3 = emit PeerConnected n2;
     (s2, n4) \<leftarrow> (if m_PeerTest s1 \<and> (case m_RemoteRouter s1 of Some r \<Rightarrow> rtPeerTesting r | None \<Rightarrow> False)
       then SendPeerTest E (s1, n3) else Some (s1, n3));
     Some (ScheduleTermination s2, n4)
   })"

section \<open>Receiving fragments\<close>

definition newIncompleteMessage :: IncompleteMessage where
  "newIncompleteMessage =
     \<lparr>incMsg = NewI2NPShortMessage\<lparr>mlen := mlen NewI2NPShortMessage - I2NP_SHORT_HEADER_SIZE\<rparr>, incNext = 0,
      lastFragmentInsertTime = 0, savedFragments = []\<rparr>"

definition AttachNextFragment :: "bytes \<Rightarrow> IncompleteMessage \<Rightarrow> IncompleteMessage option" where
  "AttachNextFragment fragment im = do {
     let size' = length fragment;
     m \<leftarrow> (if mlen (incMsg im) + size' > mmaxLen (incMsg im) then assign_msg NewI2NPMessage (incMsg im) else Some (incMsg im));
     m1 \<leftarrow> put_bytes (mlen m) fragment m;
     Some (im\<lparr>incMsg := add_len size' m1, incNext := incNext im + 1\<rparr>)
   }"

fun attach_saved :: "SSUFragment list \<Rightarrow> bool \<Rightarrow> IncompleteMessage \<Rightarrow> (bool \<times> IncompleteMessage) option" where
  "attach_saved [] isLast im = Some (isLast, im\<lparr>savedFragments := []\<rparr>)"
| "attach_saved (f # fs) isLast im =
     (if sfNum f = incNext im then do {
        data \<leftarrow> mem_read 0 (sfLen f) (sfBuf f);
        im1 \<leftarrow> AttachNextFragment data im;
        attach_saved fs (sfIsLast f) im1
      } else Some (isLast, im\<lparr>savedFragments := f # fs\<rparr>))"

text \<open>A saved fragment is a copy; what its buffer holds behind the data is not read.\<close>

definition saved_fragment :: "nat \<Rightarrow> bytes \<Rightarrow> bool \<Rightarrow> SSUFragment" where
  "saved_fragment num data isLast = \<lparr>sfNum = num, sfLen = length data, sfIsLast = isLast,
     sfBuf = data @ replicate (SSU_V4_MAX_PACKET_SIZE + 18 - length data) 0\<rparr>"

definition SSUFragment_less :: "SSUFragment \<Rightarrow> SSUFragment \<Rightarrow> bool" where
  "SSUFragment_less a b \<longleftrightarrow> sfNum a < sfNum b"

text \<open>What one fragment does to the message it belongs to: whether it is complete, and the message.\<close>

definition handle_fragment :: "'g ssuenv \<Rightarrow> nat \<Rightarrow> bool \<Rightarrow> bytes \<Rightarrow> IncompleteMessage \<Rightarrow> 'g ssunet \<Rightarrow>
    (bool \<times> IncompleteMessage \<times> 'g ssunet) option" where
  "handle_fragment E num isLast data im n =
     (if num = incNext im then do {
        im1 \<leftarrow> AttachNextFragment data im;
        (last1, im2) \<leftarrow> (if \<not> isLast \<and> savedFragments im1 \<noteq> [] then attach_saved (savedFragments im1) isLast im1
          else Some (isLast, im1));
        Some (last1, im2, n)
      }
      else if num < incNext im \<or> num \<in> sfNum ` set (savedFragments im) then Some (False, im, n)
      else
        let (ts, n1) = task (tseconds E) n
        in Some (False, im\<lparr>savedFragments := set_insert SSUFragment_less (saved_fragment num data isLast) (savedFragments im),
             lastFragmentInsertTime := ucast ts\<rparr>, n1))"

definition ssu_PutNextMessage :: "I2NPMessage \<Rightarrow> SSUSession \<times> 'g ssunet \<Rightarrow> (SSUSession \<times> 'g ssunet) option" where
  "ssu_PutNextMessage msg = (\<lambda>(s, n). do {
     t \<leftarrow> GetTypeID msg;
     Some (if t = eI2NPTunnelData then (on_data (\<lambda>d. d\<lparr>m_TunnelMsgs := m_TunnelMsgs d @ [msg]\<rparr>) s, n)
       else if t = eI2NPTunnelGateway then (on_data (\<lambda>d. d\<lparr>m_TunnelGatewayMsgs := m_TunnelGatewayMsgs d @ [msg]\<rparr>) s, n)
       else (s, emit (SSUHandled msg) n))
   })"

definition FlushReceivedMessage :: "SSUSession \<times> 'g ssunet \<Rightarrow> SSUSession \<times> 'g ssunet" where
  "FlushReceivedMessage = (\<lambda>(s, n).
     let n1 = (if m_TunnelMsgs (m_Data s) \<noteq> [] then emit (SSUPosted (m_TunnelMsgs (m_Data s))) n else n);
         n2 = (if m_TunnelGatewayMsgs (m_Data s) \<noteq> [] then emit (SSUPosted (m_TunnelGatewayMsgs (m_Data s))) n1 else n1)
     in (on_data (\<lambda>d. d\<lparr>m_TunnelMsgs := [], m_TunnelGatewayMsgs := []\<rparr>) s, n2))"

text \<open>A complete message: acknowledged, converted and handed on, once.\<close>

definition complete_message :: "'g ssuenv \<Rightarrow> u32 \<Rightarrow> I2NPMessage \<Rightarrow> SSUSession \<times> 'g ssunet \<Rightarrow> (SSUSession \<times> 'g ssunet) option" where
  "complete_message E msgID m = (\<lambda>(s, n). do {
     (s1, n1) \<leftarrow> SendMsgAck E msgID (on_data (\<lambda>d. d\<lparr>ssuIncomplete := map_erase msgID (ssuIncomplete d)\<rparr>) s, n);
     msg \<leftarrow> FromSSU msgID m;
     if ssuState s1 = eSessionStateEstablished then
       (if msgID \<notin> ssuReceived (m_Data s1) then
          ssu_PutNextMessage msg (on_data (\<lambda>d. d\<lparr>ssuReceived := insert msgID
            (if card (ssuReceived d) > MAX_NUM_RECEIVED_MESSAGES then {} else ssuReceived d)\<rparr>) s1, n1)
        else Some (s1, n1))
     else do {
       t \<leftarrow> GetTypeID msg;
       if t = eI2NPDeliveryStatus then Established E (s1, n1) else Some (s1, n1)
     }
   })"

text \<open>\<open>frag[0] = 0\<close> and three bytes of the packet, as a word in network order.\<close>

definition read_fragment_info :: "nat \<Rightarrow> bytes \<Rightarrow> (nat \<times> bool \<times> nat) option" where
  "read_fragment_info pos mem = do {
     frag \<leftarrow> mem_read pos 3 mem;
     let fragmentInfo = (of_be (0 # frag) :: u32);
     Some (unat (ucast (drop_bit 17 fragmentInfo) :: byte), fragmentInfo AND 0x010000 \<noteq> 0, unat (ucast (fragmentInfo AND 0x1FFF) :: u16))
   }"

fun process_ssu_fragments :: "'g ssuenv \<Rightarrow> nat \<Rightarrow> nat \<Rightarrow> bytes \<Rightarrow> SSUSession \<times> 'g ssunet \<Rightarrow> (SSUSession \<times> 'g ssunet) option" where
  "process_ssu_fragments E 0 pos mem s = Some s"
| "process_ssu_fragments E (Suc k) pos mem (s, n) = do {
     msgID \<leftarrow> bufbe32toh pos mem;
     (fragmentNum, isLast, fragmentSize) \<leftarrow> read_fragment_info (pos + 4) mem;
     if fragmentSize \<ge> SSU_V4_MAX_PACKET_SIZE then Some (s, n)
     else do {
       data \<leftarrow> mem_read (pos + 7) fragmentSize mem;
       let im = (case map_find msgID (ssuIncomplete (m_Data s)) of Some im \<Rightarrow> im | None \<Rightarrow> newIncompleteMessage);
       (complete, im1, n1) \<leftarrow> handle_fragment E fragmentNum isLast data im n;
       let s1 = on_data (\<lambda>d. d\<lparr>ssuIncomplete := map_put msgID im1 (ssuIncomplete d)\<rparr>) s;
       s2 \<leftarrow> (if complete then complete_message E msgID (incMsg im1) (s1, n1) else SendFragmentAck E msgID fragmentNum (s1, n1));
       process_ssu_fragments E k (pos + 7 + fragmentSize) mem s2
     }
   }"

definition ProcessFragments :: "'g ssuenv \<Rightarrow> nat \<Rightarrow> bytes \<Rightarrow> SSUSession \<times> 'g ssunet \<Rightarrow> (SSUSession \<times> 'g ssunet) option" where
  "ProcessFragments E pos mem s = do {
     numFragments \<leftarrow> mem_get pos mem;
     process_ssu_fragments E (unat numFragments) (pos + 1) mem s
   }"

definition SSUData_ProcessMessage :: "'g ssuenv \<Rightarrow> nat \<Rightarrow> bytes \<Rightarrow> SSUSession \<times> 'g ssunet \<Rightarrow> (SSUSession \<times> 'g ssunet) option" where
  "SSUData_ProcessMessage E pos mem = (\<lambda>(s, n). do {
     flag \<leftarrow> mem_get pos mem;
     (pos1, d1) \<leftarrow> (if flag AND (DATA_FLAG_ACK_BITFIELDS_INCLUDED OR DATA_FLAG_EXPLICIT_ACKS_INCLUDED) \<noteq> 0
       then ProcessAcks (pos + 1) flag mem (m_Data s) else Some (pos + 1, m_Data s));
     pos2 \<leftarrow> (if flag AND DATA_FLAG_EXTENDED_DATA_INCLUDED \<noteq> 0
       then map_option (\<lambda>size'. pos1 + 1 + unat size') (mem_get pos1 mem) else Some pos1);
     ProcessFragments E pos2 mem (s\<lparr>m_Data := d1\<rparr>, n)
   })"

section \<open>Timers\<close>

fun resend_fragments :: "SSUFragment option list \<Rightarrow> SSUSession \<times> 'g ssunet \<Rightarrow> (SSUSession \<times> 'g ssunet) option" where
  "resend_fragments [] s = Some s"
| "resend_fragments (None # fs) s = resend_fragments fs s"
| "resend_fragments (Some f # fs) s = do { s1 \<leftarrow> Session_Send (sfBuf f) (sfLen f) s; resend_fragments fs s1 }"

text \<open>The loop over the sent messages: which of them are kept.\<close>

fun resend_messages :: "u32 \<Rightarrow> (u32, SentMessage) smap \<Rightarrow> SSUSession \<times> 'g ssunet \<Rightarrow>
    ((u32, SentMessage) smap \<times> SSUSession \<times> 'g ssunet) option" where
  "resend_messages ts [] s = Some ([], s)"
| "resend_messages ts ((msgID, sm) # m) s =
     (if ts \<ge> nextResendTime sm then
        (if numResends sm < MAX_NUM_RESENDS then do {
           s1 \<leftarrow> resend_fragments (fragments sm) s;
           (m1, s2) \<leftarrow> resend_messages ts m s1;
           Some ((msgID, sm\<lparr>numResends := numResends sm + 1,
             nextResendTime := nextResendTime sm + of_nat (numResends sm + 1) * RESEND_INTERVAL\<rparr>) # m1, s2)
         } else resend_messages ts m s)
      else do {
        (m1, s1) \<leftarrow> resend_messages ts m s;
        Some ((msgID, sm) # m1, s1)
      })"

definition ssu_HandleResendTimer :: "'g ssuenv \<Rightarrow> SSUSession \<times> 'g ssunet \<Rightarrow> (SSUSession \<times> 'g ssunet) option" where
  "ssu_HandleResendTimer E = (\<lambda>(s, n). do {
     let (ts, n1) = task (tseconds E) n;
     (m, s1, n2) \<leftarrow> resend_messages (ucast ts) (ssuSent (m_Data s)) (s, n1);
     Some (on_data (\<lambda>d. d\<lparr>ssuSent := m\<rparr>) s1, n2)
   })"

definition HandleDecayTimer :: "SSUSession \<Rightarrow> SSUSession" where
  "HandleDecayTimer = on_data (\<lambda>d. d\<lparr>ssuReceived := {}\<rparr>)"

definition HandleIncompleteMessagesCleanupTimer :: "'g ssuenv \<Rightarrow> SSUSession \<times> 'g ssunet \<Rightarrow> SSUSession \<times> 'g ssunet" where
  "HandleIncompleteMessagesCleanupTimer E = (\<lambda>(s, n).
     let (ts, n1) = task (tseconds E) n
     in (on_data (\<lambda>d. d\<lparr>ssuIncomplete := filter (\<lambda>(msgID, im).
           \<not> ucast ts > lastFragmentInsertTime im + INCOMPLETE_MESSAGES_CLEANUP_TIMEOUT) (ssuIncomplete d)\<rparr>) s, n1))"

end
