(* ===== verification/SSU_Receive.thy ===== *)
theory SSU_Receive
  imports SSU_Data "HOL-Library.Multiset"
begin

text \<open>
  Receiving over SSU refines an abstract receiver that collects the numbers of the fragments of every message: a message is
  handed on when all its fragments have arrived, in whatever order.
\<close>

section \<open>The information of a fragment\<close>

lemma nat_bit_less:
  assumes "x < 2 ^ m" and "m \<le> i"
  shows "\<not> bit (x :: nat) i"
proof -
  have "x < 2 ^ i" using assms by (meson less_le_trans one_le_numeral power_increasing)
  then show ?thesis by (simp add: bit_iff_odd)
qed

lemma bit_65536: "bit (0x010000 :: u32) i \<longleftrightarrow> i = 16"
proof -
  have "(0x010000 :: u32) = push_bit 16 1" by simp
  then show ?thesis by (simp only: bit_push_bit_iff bit_1_iff) auto
qed

lemma fragment_info_bits:
  assumes "k < 128" and "size' < 8192"
  shows "bit (fragment_info k l size') i \<longleftrightarrow>
    (17 \<le> i \<and> i < 24 \<and> bit k (i - 17)) \<or> (i = 16 \<and> l) \<or> (i < 13 \<and> bit size' i)"
proof -
  have 1: "bit size' i \<Longrightarrow> i < 13" using nat_bit_less [of size' 13 i] assms(2) by (cases "i < 13") simp_all
  have 2: "bit k (i - 17) \<Longrightarrow> 17 \<le> i \<Longrightarrow> i < 24" using nat_bit_less [of k 7 "i - 17"] assms(1) by (cases "i < 24") simp_all
  have "bit (fragment_info k l size') i \<longleftrightarrow>
      (17 \<le> i \<and> i < 32 \<and> bit k (i - 17)) \<or> (i = 16 \<and> l) \<or> (i < 32 \<and> bit size' i)"
    by (cases l) (simp_all only: fragment_info_def if_True if_False bit_or_iff bit_65536 bit_push_bit_iff bit_0_eq bot_apply, auto simp: bit_of_nat_iff)
  with 1 2 show ?thesis by linarith
qed

lemma fragment_info_fields:
  assumes "k < 128" and "size' < 8192"
  shows "unat (ucast (drop_bit 17 (fragment_info k l size')) :: byte) = k"
    and "fragment_info k l size' AND 0x010000 \<noteq> 0 \<longleftrightarrow> l"
    and "unat (ucast (fragment_info k l size' AND 0x1FFF) :: u16) = size'"
proof -
  note b = fragment_info_bits [OF assms]
  have "(ucast (drop_bit 17 (fragment_info k l size')) :: byte) = of_nat k"
    using nat_bit_less [of k 7] assms(1) by (intro bit_word_eqI) (auto simp: bit_simps b bit_of_nat_iff not_le [symmetric])
  then show "unat (ucast (drop_bit 17 (fragment_info k l size')) :: byte) = k"
    using assms(1) by (simp add: unat_of_nat)
  have "fragment_info k l size' AND 0x010000 = (if l then 0x010000 else 0)"
    by (rule bit_word_eqI, cases l) (simp_all only: bit_and_iff bit_65536 b if_True if_False bit_0_eq bot_apply, auto)
  then show "fragment_info k l size' AND 0x010000 \<noteq> 0 \<longleftrightarrow> l" by simp
  have m: "(0x1FFF :: u32) = mask 13" by (simp add: mask_eq_decr_exp)
  have "(ucast (fragment_info k l size' AND 0x1FFF) :: u16) = of_nat size'"
    unfolding m using nat_bit_less [of size' 13] assms(2)
    by (intro bit_word_eqI) (auto simp: bit_simps b bit_of_nat_iff not_le [symmetric])
  then show "unat (ucast (fragment_info k l size' AND 0x1FFF) :: u16) = size'"
    using assms(2) by (simp add: unat_of_nat)
qed

lemma fragment_info_bytes:
  assumes "k < 128" and "size' < 8192"
  shows "be_bytes 4 (fragment_info k l size') = 0 # drop 1 (be_bytes 4 (fragment_info k l size'))"
proof -
  have "(ucast (drop_bit 24 (fragment_info k l size')) :: byte) = 0"
    by (rule bit_word_eqI) (auto simp: bit_simps fragment_info_bits [OF assms])
  then show ?thesis by (simp add: le_bytes_def upt_rec [of 0] upt_rec [of 1] upt_rec [of 2] upt_rec [of 3] numeral_eq_Suc)
qed

text \<open>The wire form of a data packet with one fragment, as \<open>Send\<close> writes it.\<close>

definition fragment_payload :: "u32 \<Rightarrow> nat \<Rightarrow> bool \<Rightarrow> bytes \<Rightarrow> bytes" where
  "fragment_payload msgID k l chunk =
     [DATA_FLAG_WANT_REPLY, 1] @ be_bytes 4 msgID @ drop 1 (be_bytes 4 (fragment_info k l (length chunk))) @ chunk"

lemma read_fragment_info_eq:
  assumes "k < 128" and "length chunk < 8192"
    and "mem_read pos 3 mem = Some (drop 1 (be_bytes 4 (fragment_info k l (length chunk))))"
  shows "read_fragment_info pos mem = Some (k, l, length chunk)"
proof -
  have "(of_be (0 # drop 1 (be_bytes 4 (fragment_info k l (length chunk)))) :: u32) = fragment_info k l (length chunk)"
    unfolding fragment_info_bytes [OF assms(1,2), symmetric] rev_rev_ident by (rule of_le_le_bytes) simp
  then show ?thesis
    using fragment_info_fields [OF assms(1,2), of l] by (simp only: read_fragment_info_def assms(3) bind.bind_lunit Let_def)
qed

section \<open>Collecting the fragments of a message\<close>

text \<open>The message buffer after the first \<open>n\<close> fragments of \<open>cs\<close>.\<close>

definition holds :: "bytes list \<Rightarrow> nat \<Rightarrow> I2NPMessage \<Rightarrow> bool" where
  "holds cs n m \<longleftrightarrow> moffset m = 2 \<and> mmaxLen m = 4096 \<and> length (mbuf m) \<in> {4112, 32784} \<and>
     mlen m = 13 + length (concat (take n cs)) \<and>
     mem_read 13 (length (concat (take n cs))) (mbuf m) = Some (concat (take n cs))"

definition saved_ok :: "bytes list \<Rightarrow> SSUFragment \<Rightarrow> bool" where
  "saved_ok cs f \<longleftrightarrow> sfNum f < length cs \<and> mem_read 0 (sfLen f) (sfBuf f) = Some (cs ! sfNum f) \<and>
     (sfIsLast f \<longleftrightarrow> Suc (sfNum f) = length cs)"

definition collects :: "bytes list \<Rightarrow> IncompleteMessage \<Rightarrow> bool" where
  "collects cs im \<longleftrightarrow> incNext im < length cs \<and> holds cs (incNext im) (incMsg im) \<and>
     sorted_wrt SSUFragment_less (savedFragments im) \<and> (\<forall>f \<in> set (savedFragments im). incNext im < sfNum f \<and> saved_ok cs f)"

definition arrived_fragments :: "IncompleteMessage \<Rightarrow> nat set" where
  "arrived_fragments im = {0..<incNext im} \<union> sfNum ` set (savedFragments im)"

lemma collects_new: "cs \<noteq> [] \<Longrightarrow> collects cs newIncompleteMessage"
  by (simp add: collects_def newIncompleteMessage_def holds_def NewI2NPShortMessage_def I2NPMessageBuffer_def mem_read_def)

lemma arrived_new [simp]: "arrived_fragments newIncompleteMessage = {}"
  by (simp add: arrived_fragments_def newIncompleteMessage_def)

lemma length_concat_take: "length (concat (take n cs)) \<le> length (concat cs)"
  by (metis append_take_drop_id concat_append le_add1 length_append)

lemma put_appended:
  assumes "mem_read 13 (length xs) b = Some xs" and "13 + length xs + length ys \<le> length b"
  shows "\<exists>b1. mem_write (13 + length xs) ys b = Some b1 \<and> length b1 = length b \<and> mem_read 13 (length (xs @ ys)) b1 = Some (xs @ ys)"
proof -
  let ?b1 = "take (13 + length xs) b @ ys @ drop (13 + length xs + length ys) b"
  have x: "take (length xs) (drop 13 b) = xs" using assms(1) by (simp add: mem_read_Some_iff)
  have "take (13 + length xs) b = take 13 b @ xs"
    using x by (metis add.commute take_add)
  then have "mem_read 13 (length (xs @ ys)) ?b1 = Some (xs @ ys)"
    using assms(2) by (simp add: mem_read_def)
  moreover have "mem_write (13 + length xs) ys b = Some ?b1" using assms(2) by (simp add: mem_write_def)
  ultimately show ?thesis using mem_write_length by blast
qed

lemma AttachNextFragment_holds:
  assumes h: "holds cs (incNext im) (incMsg im)" and n: "incNext im < length cs" and t: "length (concat cs) \<le> 32771"
  shows "\<exists>m. AttachNextFragment (cs ! incNext im) im = Some (im\<lparr>incMsg := m, incNext := Suc (incNext im)\<rparr>) \<and>
    holds cs (Suc (incNext im)) m"
proof -
  let ?m = "incMsg im" and ?d = "cs ! incNext im" and ?xs = "concat (take (incNext im) cs)"
  have tk: "concat (take (Suc (incNext im)) cs) = ?xs @ ?d" using n by (simp add: take_Suc_conv_app_nth)
  have le: "length ?xs + length ?d \<le> 32771" using length_concat_take [of "Suc (incNext im)" cs] t unfolding tk by simp
  obtain m1 where m1: "(if mlen ?m + length ?d > mmaxLen ?m then assign_msg NewI2NPMessage ?m else Some ?m) = Some m1"
      "moffset m1 = 2" "mmaxLen m1 = 4096" "length (mbuf m1) \<in> {4112, 32784}" "mlen m1 = 13 + length ?xs"
      "mem_read 13 (length ?xs) (mbuf m1) = Some ?xs" "13 + length ?xs + length ?d \<le> length (mbuf m1)"
  proof (cases "mlen ?m + length ?d > mmaxLen ?m")
    case False
    then show ?thesis using h that [of ?m] by (auto simp: holds_def)
  next
    case True
    let ?l = "11 + length ?xs" and ?N = "mbuf NewI2NPMessage"
    have N: "length ?N = 32784" "moffset NewI2NPMessage = 2" by (simp_all add: NewI2NPMessage_def I2NPMessageBuffer_def)
    have len: "13 + length ?xs \<le> length (mbuf ?m)" using h by (auto simp: holds_def mem_read_def split: if_splits)
    then have r: "mem_read 2 ?l (mbuf ?m) = Some (take ?l (drop 2 (mbuf ?m)))" by (simp add: mem_read_def)
    let ?b = "take ?l (drop 2 (mbuf ?m))"
    have lb: "length ?b = ?l" using len by simp
    have w: "mem_write 2 ?b ?N = Some (take 2 ?N @ ?b @ drop (2 + ?l) ?N)"
      using lb N(1) le by (simp add: mem_write_def)
    let ?b1 = "take 2 ?N @ ?b @ drop (2 + ?l) ?N"
    have g: "GetLength ?m = ?l" using h by (simp add: holds_def GetLength_def)
    have a: "assign_msg NewI2NPMessage ?m =
        Some (NewI2NPMessage\<lparr>mbuf := ?b1, mlen := 2 + ?l, mfrom := mfrom ?m, mmaxLen := mmaxLen ?m\<rparr>)"
      unfolding assign_msg_def using h r w by (simp add: holds_def g N)
    have "drop 11 ?b = take (length ?xs) (drop 13 (mbuf ?m))" by (simp add: drop_take)
    also have "\<dots> = ?xs" using h by (simp add: holds_def mem_read_Some_iff)
    finally have x: "drop 11 ?b = ?xs" .
    have "drop 13 ?b1 = ?xs @ drop (2 + ?l) ?N" using x lb N(1) by simp
    then have "mem_read 13 (length ?xs) ?b1 = Some ?xs"
      using lb N(1) le by (simp add: mem_read_def)
    then show ?thesis
      using that [of "NewI2NPMessage\<lparr>mbuf := ?b1, mlen := 2 + ?l, mfrom := mfrom ?m, mmaxLen := mmaxLen ?m\<rparr>"] True a h lb N le
      by (simp add: holds_def)
  qed
  obtain b1 where b1: "mem_write (13 + length ?xs) ?d (mbuf m1) = Some b1" "length b1 = length (mbuf m1)"
      "mem_read 13 (length (?xs @ ?d)) b1 = Some (?xs @ ?d)"
    using put_appended [OF m1(6,7)] by blast
  have "AttachNextFragment ?d im = Some (im\<lparr>incMsg := add_len (length ?d) (m1\<lparr>mbuf := b1\<rparr>), incNext := Suc (incNext im)\<rparr>)"
    unfolding AttachNextFragment_def Let_def m1(1) by (simp add: put_bytes_def upd_buf_def m1(5) b1(1))
  moreover have "holds cs (Suc (incNext im)) (add_len (length ?d) (m1\<lparr>mbuf := b1\<rparr>))"
    using m1 b1 tk by (simp add: holds_def add_len_def)
  ultimately show ?thesis by blast
qed

lemma attach_saved_holds:
  assumes "length (concat cs) \<le> 32771" and "holds cs (incNext im) (incMsg im)" and "isLast \<longleftrightarrow> incNext im = length cs"
    and "sorted_wrt SSUFragment_less fs" and "\<forall>f \<in> set fs. incNext im \<le> sfNum f \<and> saved_ok cs f" and "incNext im \<le> length cs"
  shows "\<exists>l im'. attach_saved fs isLast im = Some (l, im') \<and> (l \<longleftrightarrow> incNext im' = length cs) \<and>
    holds cs (incNext im') (incMsg im') \<and> incNext im' \<le> length cs \<and> sorted_wrt SSUFragment_less (savedFragments im') \<and>
    (\<forall>f \<in> set (savedFragments im'). incNext im' < sfNum f \<and> saved_ok cs f) \<and>
    {0..<incNext im'} \<union> sfNum ` set (savedFragments im') = {0..<incNext im} \<union> sfNum ` set fs"
  using assms(2-)
proof (induction fs arbitrary: isLast im)
  case Nil
  then show ?case by simp
next
  case (Cons f fs)
  have less: "\<forall>g \<in> set fs. sfNum f < sfNum g" using Cons.prems(3) by (auto simp: SSUFragment_less_def)
  show ?case
  proof (cases "sfNum f = incNext im")
    case False
    then have "\<forall>g \<in> set (f # fs). incNext im < sfNum g" using Cons.prems(4) less by (auto simp: le_neq_implies_less less_trans)
    then show ?thesis using False Cons.prems by auto
  next
    case True
    have f: "mem_read 0 (sfLen f) (sfBuf f) = Some (cs ! incNext im)" "incNext im < length cs" "sfIsLast f \<longleftrightarrow> Suc (incNext im) = length cs"
      using Cons.prems(4) True by (simp_all add: saved_ok_def)
    obtain m where m: "AttachNextFragment (cs ! incNext im) im = Some (im\<lparr>incMsg := m, incNext := Suc (incNext im)\<rparr>)"
        "holds cs (Suc (incNext im)) m"
      using AttachNextFragment_holds [OF Cons.prems(1) f(2) assms(1)] by blast
    let ?im = "im\<lparr>incMsg := m, incNext := Suc (incNext im)\<rparr>"
    have "\<exists>l im'. attach_saved fs (sfIsLast f) ?im = Some (l, im') \<and> (l \<longleftrightarrow> incNext im' = length cs) \<and>
      holds cs (incNext im') (incMsg im') \<and> incNext im' \<le> length cs \<and> sorted_wrt SSUFragment_less (savedFragments im') \<and>
      (\<forall>f \<in> set (savedFragments im'). incNext im' < sfNum f \<and> saved_ok cs f) \<and>
      {0..<incNext im'} \<union> sfNum ` set (savedFragments im') = {0..<incNext ?im} \<union> sfNum ` set fs"
      using Cons.prems f m less True by (intro Cons.IH) (auto simp: Suc_le_eq)
    moreover have "{0..<incNext ?im} \<union> sfNum ` set fs = {0..<incNext im} \<union> sfNum ` set (f # fs)" using True by auto
    ultimately show ?thesis using True f m by auto
  qed
qed

lemma SSUFragment_transp: "transp SSUFragment_less" by (auto simp: transp_def SSUFragment_less_def)

lemma saved_fragment_ok: "k < length cs \<Longrightarrow> length (cs ! k) \<le> 1456 \<Longrightarrow> saved_ok cs (saved_fragment k (cs ! k) (Suc k = length cs))"
  by (simp add: saved_ok_def saved_fragment_def mem_read_def)

lemma set_insert_fragment:
  "sfNum f \<notin> sfNum ` set fs \<Longrightarrow> set (set_insert SSUFragment_less f fs) = insert f (set fs)"
  by (induction SSUFragment_less f fs rule: set_insert.induct) (auto simp: SSUFragment_less_def)

text \<open>One fragment: the message is complete exactly when all fragments have arrived.\<close>

lemma handle_fragment_collects:
  assumes c: "collects cs im" and k: "k < length cs" "length (cs ! k) \<le> 1456" and t: "length (concat cs) \<le> 32771"
  shows "\<exists>l im' n'. handle_fragment E k (Suc k = length cs) (cs ! k) im n = Some (l, im', n') \<and> ssuEvents n' = ssuEvents n \<and>
    (l \<longleftrightarrow> insert k (arrived_fragments im) = {0..<length cs}) \<and> (l \<longrightarrow> holds cs (length cs) (incMsg im')) \<and>
    (\<not> l \<longrightarrow> collects cs im' \<and> arrived_fragments im' = insert k (arrived_fragments im))"
proof (cases "k = incNext im")
  case True
  obtain m where m: "AttachNextFragment (cs ! incNext im) im = Some (im\<lparr>incMsg := m, incNext := Suc (incNext im)\<rparr>)"
      "holds cs (Suc (incNext im)) m"
    using AttachNextFragment_holds [of cs im] c t by (auto simp: collects_def)
  let ?im = "im\<lparr>incMsg := m, incNext := Suc (incNext im)\<rparr>"
  have ins: "insert k (arrived_fragments im) = {0..<Suc (incNext im)} \<union> sfNum ` set (savedFragments im)"
    using True by (auto simp: arrived_fragments_def)
  show ?thesis
  proof (cases "Suc k \<noteq> length cs \<and> savedFragments im \<noteq> []")
    case False
    have a: "insert k (arrived_fragments im) = {0..<length cs} \<longleftrightarrow> Suc k = length cs"
    proof
      assume "Suc k = length cs"
      then show "insert k (arrived_fragments im) = {0..<length cs}"
        using c True unfolding ins by (force simp: collects_def saved_ok_def)
    next
      assume "insert k (arrived_fragments im) = {0..<length cs}"
      then show "Suc k = length cs" using False True k unfolding ins
        by (metis Un_empty_right atLeastLessThan_inj(2) image_empty list.set(1) zero_less_Suc gr_implies_not0 not_gr_zero)
    qed
    have "handle_fragment E k (Suc k = length cs) (cs ! k) im n = Some (Suc k = length cs, ?im, n)"
      using True m False by (auto simp: handle_fragment_def)
    then show ?thesis
      using a m c True False k ins by (auto simp: collects_def arrived_fragments_def)
  next
    case saved: True
    have pre: "\<forall>f \<in> set (savedFragments im). incNext ?im \<le> sfNum f \<and> saved_ok cs f" "sorted_wrt SSUFragment_less (savedFragments im)"
      using c by (auto simp: collects_def Suc_le_eq)
    obtain l im' where a: "attach_saved (savedFragments im) False ?im = Some (l, im')" "l \<longleftrightarrow> incNext im' = length cs"
      "holds cs (incNext im') (incMsg im')" "incNext im' \<le> length cs" "sorted_wrt SSUFragment_less (savedFragments im')"
      "\<forall>f \<in> set (savedFragments im'). incNext im' < sfNum f \<and> saved_ok cs f"
      "{0..<incNext im'} \<union> sfNum ` set (savedFragments im') = {0..<Suc (incNext im)} \<union> sfNum ` set (savedFragments im)"
      using attach_saved_holds [OF t, of ?im False "savedFragments im"] pre m saved True k by auto
    have "handle_fragment E k (Suc k = length cs) (cs ! k) im n = Some (l, im', n)"
      using True m saved a by (simp add: handle_fragment_def)
    moreover have "l \<longleftrightarrow> insert k (arrived_fragments im) = {0..<length cs}"
    proof
      assume l: l
      then have "savedFragments im' = []" using a(2,6) by (cases "savedFragments im'") (auto simp: saved_ok_def)
      then show "insert k (arrived_fragments im) = {0..<length cs}" using ins a(2,7) l by simp
    next
      assume all: "insert k (arrived_fragments im) = {0..<length cs}"
      show l
      proof (rule ccontr)
        assume "\<not> l"
        then have "incNext im' \<in> {0..<length cs}" using a(2,4) by simp
        then have "incNext im' \<in> {0..<incNext im'} \<union> sfNum ` set (savedFragments im')" using all ins a(7) by simp
        then show False using a(6) by auto
      qed
    qed
    ultimately show ?thesis using a ins by (auto simp: collects_def arrived_fragments_def)
  qed
next
  case False
  have na: "insert k (arrived_fragments im) \<noteq> {0..<length cs}"
  proof
    assume "insert k (arrived_fragments im) = {0..<length cs}"
    then have "incNext im \<in> insert k (arrived_fragments im)" using c by (simp add: collects_def)
    then show False using False c by (auto simp: arrived_fragments_def collects_def)
  qed
  show ?thesis
  proof (cases "k < incNext im \<or> k \<in> sfNum ` set (savedFragments im)")
    case True
    then have "insert k (arrived_fragments im) = arrived_fragments im" by (auto simp: arrived_fragments_def)
    then show ?thesis using True False na c by (auto simp: handle_fragment_def)
  next
    case new: False
    let ?f = "saved_fragment k (cs ! k) (Suc k = length cs)"
    let ?fs = "set_insert SSUFragment_less ?f (savedFragments im)"
    have s: "set ?fs = insert ?f (set (savedFragments im))"
      using new by (intro set_insert_fragment) (simp add: saved_fragment_def)
    have "sorted_wrt SSUFragment_less ?fs"
      using c by (intro set_insert_sorted SSUFragment_transp) (simp add: collects_def)
    moreover have "incNext im < sfNum ?f" using new False by (simp add: saved_fragment_def)
    ultimately show ?thesis
      using new False na c s saved_fragment_ok [OF k]
      by (auto simp: handle_fragment_def task_eq Let_def collects_def arrived_fragments_def saved_fragment_def)
  qed
qed

section \<open>Complete messages\<close>

text \<open>What the rest of the router sees of a message: type, identifier, expiration and payload.\<close>

type_synonym msg_view = "byte option \<times> u32 option \<times> u64 option \<times> bytes option"

definition view :: "I2NPMessage \<Rightarrow> msg_view" where
  "view m = (GetTypeID m, GetMsgID m, GetExpiration m, msg_payload m)"

definition ssu_view :: "u32 \<Rightarrow> bytes \<Rightarrow> msg_view" where
  "ssu_view msgID w = (Some (hd w), Some msgID, Some (ucast (of_be (take 4 (drop 1 w)) :: u32) * 1000), Some (drop 5 w))"

lemma FromSSU_view:
  assumes h: "holds cs (length cs) m" and l: "5 \<le> length (concat cs)" "length (concat cs) \<le> 32771"
  shows "\<exists>m'. FromSSU msgID m = Some m' \<and> view m' = ssu_view msgID (concat cs)"
proof -
  let ?w = "concat cs" and ?b = "mbuf m"
  have m: "moffset m = 2" "mlen m = 13 + length ?w" "mem_read 13 (length ?w) ?b = Some ?w"
    using h by (simp_all add: holds_def)
  then have lb: "13 + length ?w \<le> length ?b" and w: "take (length ?w) (drop 13 ?b) = ?w" by (auto simp: mem_read_Some_iff)
  have "2 + 16 \<le> length ?b" using lb l by simp
  then obtain pre hd0 post where b: "?b = pre @ hd0 @ post" "length pre = 2" "length hd0 = 16" by (rule split_at)
  from b(3) obtain t0 i0 e0 s0 c0 where hd: "hd0 = t0 # i0 @ e0 @ s0 @ [c0]" "length i0 = 4" "length e0 = 8" "length s0 = 2"
    by (rule header_split)
  have b': "?b = pre @ t0 # i0 @ e0 @ s0 @ c0 # post" using b hd by simp
  let ?t = "hd ?w" and ?e = "of_be (take 4 (drop 1 ?w)) :: u32"
  let ?sz = "of_nat (length ?w - 5) :: u16" and ?ex = "ucast ?e * 1000 :: u64"
  have g: "GetSSUHeader m = 13" using m(1) by (simp add: GetSSUHeader_def)
  have "?b ! 13 = ?w ! 0" using w lb l
    by (metis (no_types, lifting) add_leD1 add_0_right less_le_trans nth_drop nth_take numeral_One zero_less_numeral)
  then have r0: "mem_get 13 ?b = Some ?t" using lb l by (cases "concat cs") (auto simp: mem_get_def)
  let ?b1 = "pre @ ?t # i0 @ e0 @ s0 @ c0 # post" and ?b2 = "pre @ ?t # be_bytes 4 msgID @ e0 @ s0 @ c0 # post"
  let ?b3 = "pre @ ?t # be_bytes 4 msgID @ be_bytes 8 ?ex @ s0 @ c0 # post"
  let ?b4 = "pre @ ?t # be_bytes 4 msgID @ be_bytes 8 ?ex @ be_bytes 2 ?sz @ c0 # post"
  let ?b5 = "pre @ ?t # be_bytes 4 msgID @ be_bytes 8 ?ex @ be_bytes 2 ?sz @ 0 # post"
  have 1: "SetTypeID ?t m = Some (m\<lparr>mbuf := ?b1\<rparr>)"
    using mem_set_append [of "moffset m" pre ?t t0] by (simp add: i2np_access b' b(2) m(1))
  have 2: "SetMsgID msgID (m\<lparr>mbuf := ?b1\<rparr>) = Some (m\<lparr>mbuf := ?b2\<rparr>)"
    using mem_write_append [of "moffset m + 1" "pre @ [?t]" "be_bytes 4 msgID" i0 "e0 @ s0 @ c0 # post"]
    by (simp add: i2np_access b(2) hd m(1))
  have "take 4 (drop 14 ?b2) = drop 7 e0 @ s0 @ [c0]" using b(2) hd by simp
  also have "\<dots> = take 4 (drop 14 ?b)" using b(2) hd unfolding b' by simp
  also have "\<dots> = take 4 (drop 1 ?w)"
  proof -
    have "drop 14 ?b = drop 1 (drop 13 ?b)" by simp
    moreover have "take 4 (drop 1 (drop 13 ?b)) = take 4 (drop 1 (take (length ?w) (drop 13 ?b)))"
      using l(1) by (simp add: drop_take min_def)
    ultimately show ?thesis unfolding w by simp
  qed
  finally have r1: "bufbe32toh (13 + 1) ?b2 = Some ?e"
    using b(2) hd by (simp add: bufbe32toh_eq mem_read_def)
  have 3: "SetExpiration ?ex (m\<lparr>mbuf := ?b2\<rparr>) = Some (m\<lparr>mbuf := ?b3\<rparr>)"
    using mem_write_append [of "moffset m + 5" "pre @ ?t # be_bytes 4 msgID" "be_bytes 8 ?ex" e0 "s0 @ c0 # post"]
    by (simp add: i2np_access b(2) hd m(1))
  have 4: "SetSize ?sz (m\<lparr>mbuf := ?b3\<rparr>) = Some (m\<lparr>mbuf := ?b4\<rparr>)"
    using mem_write_append [of "moffset m + 13" "pre @ ?t # be_bytes 4 msgID @ be_bytes 8 ?ex" "be_bytes 2 ?sz" s0 "c0 # post"]
    by (simp add: i2np_access b(2) hd m(1))
  have 5: "SetChks 0 (m\<lparr>mbuf := ?b4\<rparr>) = Some (m\<lparr>mbuf := ?b5\<rparr>)"
    using mem_set_append [of "moffset m + 15" "pre @ ?t # be_bytes 4 msgID @ be_bytes 8 ?ex @ be_bytes 2 ?sz" 0 c0 post]
    by (simp add: i2np_access b(2) hd m(1))
  have sz: "size_sub (size_sub (mlen m) (moffset m)) 16 = length ?w - 5" using m l by simp
  have F: "FromSSU msgID m = Some (m\<lparr>mbuf := ?b5\<rparr>)"
    unfolding FromSSU_def Let_def g r0 bind.bind_lunit 1 2
    using r1 sz 3 4 5 by simp
  have e: "mbuf (m\<lparr>mbuf := ?b5\<rparr>) = pre @ i2np_header ?t msgID ?ex ?sz 0 @ post" "length pre = moffset (m\<lparr>mbuf := ?b5\<rparr>)"
    using b(2) m(1) by (simp_all add: i2np_header_def)
  have "take (length ?w - 5) post = drop 5 ?w"
  proof -
    have "drop 18 ?b = post" using b(2) hd unfolding b' by simp
    then have "take (length ?w - 5) post = drop 5 (take (length ?w) (drop 13 ?b))" using l(1) by (simp add: drop_take)
    then show ?thesis unfolding w .
  qed
  moreover have "length ?w - 5 \<le> length post" using lb l b' b(2) hd by simp
  ultimately have "msg_payload (m\<lparr>mbuf := ?b5\<rparr>) = Some (drop 5 ?w)"
    using b(2) hd m l by (simp add: msg_payload_def GetPayload_def GetPayloadLength_def GetLength_def GetBuffer_def mem_read_def)
  then have "view (m\<lparr>mbuf := ?b5\<rparr>) = ssu_view msgID ?w"
    using header_access [OF e] by (simp add: view_def ssu_view_def)
  with F show ?thesis by blast
qed

section \<open>Packets that are sent on the way\<close>

text \<open>What sending a packet leaves alone.\<close>

definition same_rx :: "SSUSession \<times> 'g ssunet \<Rightarrow> SSUSession \<times> 'g ssunet \<Rightarrow> bool" where
  "same_rx a b \<longleftrightarrow> m_Data (fst b) = m_Data (fst a) \<and> ssuState (fst b) = ssuState (fst a) \<and>
     m_MacKey (fst b) = m_MacKey (fst a) \<and> m_IsSessionKey (fst b) = m_IsSessionKey (fst a) \<and>
     m_SessionKeyDecryption (fst b) = m_SessionKeyDecryption (fst a) \<and>
     (\<exists>ps. ssuEvents (snd b) = ssuEvents (snd a) @ map (\<lambda>p. SentTo p (m_RemoteEndpoint (fst a))) ps) \<and>
     m_RemoteEndpoint (fst b) = m_RemoteEndpoint (fst a)"

lemma same_rx_refl [simp]: "same_rx a a"
  by (auto simp: same_rx_def intro: exI [of _ "[]"])

lemma same_rx_trans: "same_rx a b \<Longrightarrow> same_rx b c \<Longrightarrow> same_rx a c"
  unfolding same_rx_def by (metis append.assoc map_append)

text \<open>What receiving data leaves alone: the keys and the endpoint.\<close>

definition same_keys :: "SSUSession \<Rightarrow> SSUSession \<Rightarrow> bool" where
  "same_keys s s' \<longleftrightarrow> m_MacKey s' = m_MacKey s \<and> m_IsSessionKey s' = m_IsSessionKey s \<and>
     m_SessionKeyDecryption s' = m_SessionKeyDecryption s \<and> m_RemoteEndpoint s' = m_RemoteEndpoint s"

lemma same_rx_keys: "same_rx a b \<Longrightarrow> same_keys (fst a) (fst b)"
  by (simp add: same_rx_def same_keys_def)

lemma same_keys_data [simp]: "same_keys s (on_data f s') = same_keys s s'" "same_keys (on_data f s) s' = same_keys s s'"
  by (simp_all add: same_keys_def on_data_def)

lemma split_packet:
  assumes "32 + 5 \<le> len" and "len + 18 \<le> length buf"
  shows "buf = take 32 buf @ take (len - 32) (drop 32 buf) @ drop len buf"
proof -
  have "drop len buf = drop (len - 32) (drop 32 buf)" using assms by simp
  then show ?thesis by (metis append_take_drop_id)
qed

lemma FillHeaderAndEncrypt_ok:
  assumes "ssuenv_ok E" and "37 \<le> len" "len \<le> 1998" "16 dvd len" "len + 18 \<le> length buf"
  shows "\<exists>b enc n1. FillHeaderAndEncrypt E t buf len (s, n) = Some (b, s\<lparr>m_SessionKeyEncryption := enc\<rparr>, n1) \<and>
    length b = length buf \<and> eKey enc = eKey (m_SessionKeyEncryption s) \<and> ssuEvents n1 = ssuEvents n"
proof -
  let ?p = "take (len - 32) (drop 32 buf)"
  have b: "buf = take 32 buf @ ?p @ drop len buf" using assms by (intro split_packet) simp_all
  have l: "length ?p + 32 = len" "length (take 32 buf) = 32" "18 \<le> length (drop len buf)" using assms by simp_all
  obtain iv ts enc n1 where f: "FillHeaderAndEncrypt E t (take 32 buf @ ?p @ drop len buf) len (s, n) =
      Some (sealed_packet E iv (eKey (m_SessionKeyEncryption s)) (m_MacKey s) (push_bit 4 t # be_bytes 4 (ts :: u32) @ drop 5 ?p) @
        iv @ be_bytes 2 (of_nat (length ?p) :: u16) @ drop 18 (drop len buf), s\<lparr>m_SessionKeyEncryption := enc\<rparr>, n1)"
    "length iv = 16" "eKey enc = eKey (m_SessionKeyEncryption s)" "ssuEvents n1 = ssuEvents n"
    using FillHeaderAndEncrypt_eq [OF assms(1) l(1) assms(2,3) l(2,3)] by blast
  have "length (push_bit 4 t # be_bytes 4 ts @ drop 5 ?p) = len - 32" "16 dvd len - 32" using assms by auto
  then have "length (sealed_packet E iv (eKey (m_SessionKeyEncryption s)) (m_MacKey s) (push_bit 4 t # be_bytes 4 ts @ drop 5 ?p)) = len"
    using assms(2) by (simp add: length_sealed_packet [OF assms(1) f(2)])
  then show ?thesis using f assms(5) unfolding b [symmetric] by auto
qed

lemma send_sealed_ok:
  assumes "ssuenv_ok E" and "37 \<le> len" "len \<le> 1998" "16 dvd len" "len + 18 \<le> length buf"
  shows "\<exists>r. do { (b2, s1) \<leftarrow> FillHeaderAndEncrypt E t buf len (s, n); Session_Send b2 len s1 } = Some r \<and> same_rx (s, n) r"
proof -
  obtain b enc n1 where f: "FillHeaderAndEncrypt E t buf len (s, n) = Some (b, s\<lparr>m_SessionKeyEncryption := enc\<rparr>, n1)"
      "length b = length buf" "ssuEvents n1 = ssuEvents n"
    using FillHeaderAndEncrypt_ok [OF assms] by blast
  then show ?thesis
    using assms(5) by (auto simp: Session_Send_def mem_read_def same_rx_def emit_def intro: exI [of _ "[take len b]"])
qed

lemma ack_write_ok:
  assumes "ssuenv_ok E" and "37 + length bs \<le> m"
  shows "\<exists>b. mem_write 37 bs (fst (tgarbage E m g)) = Some b \<and> length b = m"
proof -
  have "length (fst (tgarbage E m g)) = m" using assms(1) by (simp add: ssuenv_ok_def)
  then show ?thesis using assms(2) by (simp add: mem_write_def)
qed

lemma SendMsgAck_ok:
  assumes "ssuenv_ok E"
  shows "\<exists>r. SendMsgAck E msgID a = Some r \<and> same_rx a r"
proof -
  obtain s n where a: "a = (s, n)" by (cases a)
  obtain b where b: "mem_write 37 ([DATA_FLAG_EXPLICIT_ACKS_INCLUDED, 1] @ be_bytes 4 msgID @ [0]) (fst (tgarbage E (48 + 18) (ssuWorld n))) = Some b"
      "length b = 48 + 18"
    using ack_write_ok [OF assms, of "[DATA_FLAG_EXPLICIT_ACKS_INCLUDED, 1] @ be_bytes 4 msgID @ [0]" "48 + 18" "ssuWorld n"] by auto
  let ?n = "n\<lparr>ssuWorld := snd (tgarbage E (48 + 18) (ssuWorld n))\<rparr>"
  obtain r where r: "do { (b2, s1) \<leftarrow> FillHeaderAndEncrypt E PAYLOAD_TYPE_DATA b 48 (s, ?n); Session_Send b2 48 s1 } = Some r" "same_rx (s, ?n) r"
    using send_sealed_ok [OF assms, of 48 b PAYLOAD_TYPE_DATA s ?n] b(2) by auto
  then have "SendMsgAck E msgID a = Some r" unfolding SendMsgAck_def a by (simp only: prod.case task_eq Let_def b(1) bind.bind_lunit)
  moreover have "same_rx a r" using r(2) by (simp add: same_rx_def a)
  ultimately show ?thesis by blast
qed

lemma SendFragmentAck_ok:
  assumes "ssuenv_ok E"
  shows "\<exists>r. SendFragmentAck E msgID k a = Some r \<and> same_rx a r"
proof -
  obtain s n where a: "a = (s, n)" by (cases a)
  show ?thesis
  proof (cases "k > 64")
    case True
    then show ?thesis by (simp add: SendFragmentAck_def a)
  next
    case False
    have "k div 7 \<le> 9" using False by simp
    then obtain b where b: "mem_write 37 (fragment_ack msgID k) (fst (tgarbage E (64 + 18) (ssuWorld n))) = Some b" "length b = 64 + 18"
      using ack_write_ok [OF assms, of "fragment_ack msgID k" "64 + 18" "ssuWorld n"] by (auto simp: fragment_ack_def)
    let ?n = "n\<lparr>ssuWorld := snd (tgarbage E (64 + 18) (ssuWorld n))\<rparr>" and ?len = "if k div 7 < 4 then 48 else 64 :: nat"
    have len: "37 \<le> ?len" "?len \<le> 1998" "16 dvd ?len" "?len + 18 \<le> length b" using b(2) by simp_all
    obtain r where r: "do { (b2, s1) \<leftarrow> FillHeaderAndEncrypt E PAYLOAD_TYPE_DATA b ?len (s, ?n); Session_Send b2 ?len s1 } = Some r" "same_rx (s, ?n) r"
      using send_sealed_ok [OF assms len] by blast
    then have "SendFragmentAck E msgID k a = Some r"
      using False unfolding SendFragmentAck_def a by (simp only: prod.case task_eq Let_def b(1) bind.bind_lunit if_False)
    moreover have "same_rx a r" using r(2) by (simp add: same_rx_def a)
    ultimately show ?thesis by blast
  qed
qed

section \<open>An abstract receiver\<close>

text \<open>The messages handed on: to the handler, posted to the tunnel thread, and waiting to be posted.\<close>

fun event_msgs :: "ssu_event \<Rightarrow> I2NPMessage list" where
  "event_msgs (SSUHandled m) = [m]"
| "event_msgs (SSUPosted ms) = ms"
| "event_msgs _ = []"

definition handed :: "SSUSession \<times> 'g ssunet \<Rightarrow> msg_view multiset" where
  "handed = (\<lambda>(s, n). image_mset view (mset (concat (map event_msgs (ssuEvents n))) +
     mset (m_TunnelMsgs (m_Data s)) + mset (m_TunnelGatewayMsgs (m_Data s))))"

text \<open>Abstractly: the fragments that have arrived of each message, the identifiers received, what was handed on.\<close>

type_synonym spec_rx = "(u32 \<Rightarrow> nat set) \<times> u32 set \<times> msg_view multiset"

definition abs_rx :: "SSUSession \<times> 'g ssunet \<Rightarrow> spec_rx" where
  "abs_rx = (\<lambda>(s, n). (\<lambda>msgID. case map_find msgID (ssuIncomplete (m_Data s)) of Some im \<Rightarrow> arrived_fragments im | None \<Rightarrow> {},
     ssuReceived (m_Data s), handed (s, n)))"

definition spec_fragment :: "(u32 \<Rightarrow> bytes list) \<Rightarrow> u32 \<times> nat \<Rightarrow> spec_rx \<Rightarrow> spec_rx" where
  "spec_fragment cs = (\<lambda>(msgID, k) (A, R, D).
     let B = insert k (A msgID)
     in if B = {0..<length (cs msgID)} then
          (A(msgID := {}),
           if msgID \<in> R then R else insert msgID (if card R > MAX_NUM_RECEIVED_MESSAGES then {} else R),
           if msgID \<in> R then D else add_mset (ssu_view msgID (concat (cs msgID))) D)
        else (A(msgID := B), R, D))"

definition rx_inv :: "(u32 \<Rightarrow> bytes list) \<Rightarrow> SSUSession \<Rightarrow> bool" where
  "rx_inv cs s \<longleftrightarrow> smap_ok (ssuIncomplete (m_Data s)) \<and> ssuState s = eSessionStateEstablished \<and>
     (\<forall>msgID im. map_find msgID (ssuIncomplete (m_Data s)) = Some im \<longrightarrow> collects (cs msgID) im)"

text \<open>A message that fits: its fragments as they are cut.\<close>

definition fits :: "bytes list \<Rightarrow> bool" where
  "fits cs \<longleftrightarrow> cs \<noteq> [] \<and> length cs \<le> 128 \<and> (\<forall>c \<in> set cs. length c < 1456) \<and> 5 \<le> length (concat cs) \<and> length (concat cs) \<le> 32771"

lemma handed_same_rx: "same_rx a b \<Longrightarrow> handed b = handed a"
  by (cases a; cases b) (auto simp: same_rx_def handed_def comp_def)

lemma abs_same_rx: "same_rx a b \<Longrightarrow> abs_rx b = abs_rx a"
  using handed_same_rx [of a b] by (cases a; cases b) (simp add: abs_rx_def same_rx_def)

lemma rx_inv_same_rx: "same_rx a b \<Longrightarrow> rx_inv cs (fst b) = rx_inv cs (fst a)"
  by (simp add: rx_inv_def same_rx_def)

lemma PutNextMessage_ok:
  assumes "view m = ssu_view msgID w"
  shows "\<exists>r. ssu_PutNextMessage m a = Some r \<and> handed r = add_mset (ssu_view msgID w) (handed a) \<and>
    ssuIncomplete (m_Data (fst r)) = ssuIncomplete (m_Data (fst a)) \<and> ssuReceived (m_Data (fst r)) = ssuReceived (m_Data (fst a)) \<and>
    ssuState (fst r) = ssuState (fst a) \<and> same_keys (fst a) (fst r)"
proof -
  have "GetTypeID m = Some (hd w)" using assms by (simp add: view_def ssu_view_def)
  then show ?thesis
    using assms by (cases a) (simp add: ssu_PutNextMessage_def handed_def on_data_def emit_def same_keys_def)
qed

text \<open>After the last fragment.\<close>

lemma complete_message_ok:
  assumes E: "ssuenv_ok E" and h: "holds (cs msgID) (length (cs msgID)) m" and f: "fits (cs msgID)"
    and i: "smap_ok (ssuIncomplete (m_Data s))" "ssuState s = eSessionStateEstablished"
      "\<forall>msgID' im. msgID' \<noteq> msgID \<and> map_find msgID' (ssuIncomplete (m_Data s)) = Some im \<longrightarrow> collects (cs msgID') im"
    and ab: "abs_rx (s, n) = (A, R, D)"
  shows "\<exists>r. complete_message E msgID m (s, n) = Some r \<and> rx_inv cs (fst r) \<and> same_keys s (fst r) \<and>
    abs_rx r = (A(msgID := {}), if msgID \<in> R then R else insert msgID (if card R > MAX_NUM_RECEIVED_MESSAGES then {} else R),
      if msgID \<in> R then D else add_mset (ssu_view msgID (concat (cs msgID))) D)"
proof -
  let ?s = "on_data (\<lambda>d. d\<lparr>ssuIncomplete := map_erase msgID (ssuIncomplete d)\<rparr>) s"
  obtain s1 n1 where a: "SendMsgAck E msgID (?s, n) = Some (s1, n1)" "same_rx (?s, n) (s1, n1)"
    using SendMsgAck_ok [OF E, of msgID "(?s, n)"] by auto
  have d: "m_Data s1 = (m_Data s)\<lparr>ssuIncomplete := map_erase msgID (ssuIncomplete (m_Data s))\<rparr>" "ssuState s1 = eSessionStateEstablished"
    using a(2) i(2) by (simp_all add: same_rx_def on_data_def)
  have hd: "handed (s1, n1) = D" using handed_same_rx [OF a(2)] ab by (simp add: abs_rx_def handed_def on_data_def)
  obtain msg where msg: "FromSSU msgID m = Some msg" "view msg = ssu_view msgID (concat (cs msgID))"
    using FromSSU_view [OF h] f by (auto simp: fits_def)
  have R: "R = ssuReceived (m_Data s)" and A: "A = (\<lambda>i. case map_find i (ssuIncomplete (m_Data s)) of Some im \<Rightarrow> arrived_fragments im | None \<Rightarrow> {})"
    using ab by (simp_all add: abs_rx_def)
  have A': "(\<lambda>i. case map_find i (map_erase msgID (ssuIncomplete (m_Data s))) of Some im \<Rightarrow> arrived_fragments im | None \<Rightarrow> {}) = A(msgID := {})"
    by (auto simp: A map_find_erase fun_eq_iff)
  have inv: "rx_inv cs s'" if "ssuIncomplete (m_Data s') = map_erase msgID (ssuIncomplete (m_Data s))" "ssuState s' = eSessionStateEstablished" for s'
    using that i by (auto simp: rx_inv_def smap_ok_erase map_find_erase split: if_splits)
  show ?thesis
  proof (cases "msgID \<in> R")
    case True
    then have "complete_message E msgID m (s, n) = Some (s1, n1)"
      unfolding complete_message_def prod.case a(1) bind.bind_lunit msg(1) using d R by simp
    moreover have "abs_rx (s1, n1) = (A(msgID := {}), R, D)" using d hd A' R by (simp add: abs_rx_def)
    ultimately show ?thesis using True inv d same_rx_keys [OF a(2)] by auto
  next
    case False
    let ?f = "\<lambda>d. d\<lparr>ssuReceived := insert msgID (if card (ssuReceived d) > MAX_NUM_RECEIVED_MESSAGES then {} else ssuReceived d)\<rparr>"
    obtain r where r: "ssu_PutNextMessage msg (on_data ?f s1, n1) = Some r" "handed r = add_mset (ssu_view msgID (concat (cs msgID))) (handed (on_data ?f s1, n1))"
        "ssuIncomplete (m_Data (fst r)) = ssuIncomplete (m_Data s1)" "ssuReceived (m_Data (fst r)) = ssuReceived (m_Data (on_data ?f s1))" "ssuState (fst r) = ssuState s1" "same_keys s1 (fst r)"
      using PutNextMessage_ok [OF msg(2), of "(on_data ?f s1, n1)"] by (auto simp: on_data_def same_keys_def)
    have "complete_message E msgID m (s, n) = Some r"
      unfolding complete_message_def prod.case a(1) bind.bind_lunit msg(1) using d R False r(1) by simp
    moreover have "abs_rx r = (A(msgID := {}), insert msgID (if card R > MAX_NUM_RECEIVED_MESSAGES then {} else R), add_mset (ssu_view msgID (concat (cs msgID))) D)"
      using r d hd A' R by (cases r) (simp add: abs_rx_def on_data_def handed_def)
    moreover have "same_keys s (fst r)" using r(6) same_rx_keys [OF a(2)] by (simp add: same_keys_def on_data_def)
    ultimately show ?thesis using False inv r(3,5) d by auto
  qed
qed

lemma fragment_payload_reads:
  assumes r: "mem_read pos (9 + length chunk) mem = Some (fragment_payload msgID k l chunk)"
    and k: "k < 128" "length chunk < 8192"
  shows "mem_get pos mem = Some DATA_FLAG_WANT_REPLY" and "mem_get (pos + 1) mem = Some 1"
    and "bufbe32toh (pos + 2) mem = Some msgID" and "read_fragment_info (pos + 6) mem = Some (k, l, length chunk)"
    and "mem_read (pos + 9) (length chunk) mem = Some chunk"
proof -
  let ?i = "drop 1 (be_bytes 4 (fragment_info k l (length chunk)))"
  have li: "length ?i = 3" by simp
  have s: "mem_read (pos + 2) 4 mem = Some (be_bytes 4 msgID)" "mem_read (pos + 6) 3 mem = Some ?i"
    using mem_read_sub [OF r, of 2 4] mem_read_sub [OF r, of 6 3] by (simp_all add: fragment_payload_def)
  show "mem_get pos mem = Some DATA_FLAG_WANT_REPLY" "mem_get (pos + 1) mem = Some 1"
    using mem_get_read [OF r, of 0] mem_get_read [OF r, of 1] by (simp_all add: fragment_payload_def)
  show "bufbe32toh (pos + 2) mem = Some msgID" using s(1) by (simp add: bufbe32toh_eq)
  show "read_fragment_info (pos + 6) mem = Some (k, l, length chunk)" by (rule read_fragment_info_eq [OF k s(2)])
  show "mem_read (pos + 9) (length chunk) mem = Some chunk"
    using mem_read_sub [OF r, of 9 "length chunk"] by (simp add: fragment_payload_def)
qed

lemma receive_fragment_ok:
  assumes E: "ssuenv_ok E" and f: "fits (cs msgID)" and k: "k < length (cs msgID)" and i: "rx_inv cs s"
    and r: "mem_read pos (9 + length (cs msgID ! k)) mem = Some (fragment_payload msgID k (Suc k = length (cs msgID)) (cs msgID ! k))"
  shows "\<exists>a. SSUData_ProcessMessage E pos mem (s, n) = Some a \<and> rx_inv cs (fst a) \<and> same_keys s (fst a) \<and>
    abs_rx a = spec_fragment cs (msgID, k) (abs_rx (s, n))"
proof -
  let ?c = "cs msgID ! k" and ?last = "Suc k = length (cs msgID)" and ?inc = "ssuIncomplete (m_Data s)"
  have lc: "length ?c < 1456" using f k by (simp add: fits_def)
  have k128: "k < 128" using f k by (simp add: fits_def)
  have "length ?c < 8192" using lc by simp
  note rd = fragment_payload_reads [OF r k128 this]
  let ?im = "case map_find msgID ?inc of Some im \<Rightarrow> im | None \<Rightarrow> newIncompleteMessage"
  obtain A R D where ab: "abs_rx (s, n) = (A, R, D)" by (cases "abs_rx (s, n)")
  have A: "A = (\<lambda>j. case map_find j ?inc of Some im \<Rightarrow> arrived_fragments im | None \<Rightarrow> {})" using ab by (simp add: abs_rx_def)
  have c: "collects (cs msgID) ?im" using i f by (auto simp: rx_inv_def fits_def collects_new split: option.splits)
  have Am: "A msgID = arrived_fragments ?im" by (simp add: A split: option.splits)
  obtain l im1 n1 where h: "handle_fragment E k ?last ?c ?im n = Some (l, im1, n1)" "ssuEvents n1 = ssuEvents n"
      "l \<longleftrightarrow> insert k (A msgID) = {0..<length (cs msgID)}" "l \<longrightarrow> holds (cs msgID) (length (cs msgID)) (incMsg im1)"
      "\<not> l \<longrightarrow> collects (cs msgID) im1 \<and> arrived_fragments im1 = insert k (A msgID)"
    using handle_fragment_collects [OF c k, of E n] lc f Am by (auto simp: fits_def)
  let ?s1 = "on_data (\<lambda>d. d\<lparr>ssuIncomplete := map_put msgID im1 (ssuIncomplete d)\<rparr>) s"
  have ok: "smap_ok ?inc" and est: "ssuState s = eSessionStateEstablished" using i by (simp_all add: rx_inv_def)
  have inc1: "ssuIncomplete (m_Data ?s1) = map_put msgID im1 ?inc" "smap_ok (ssuIncomplete (m_Data ?s1))" "ssuState ?s1 = eSessionStateEstablished"
    using ok est by (simp_all add: on_data_def smap_ok_put)
  have ab1: "abs_rx (?s1, n1) = (A(msgID := arrived_fragments im1), R, D)"
    using ab h(2) ok by (auto simp: abs_rx_def handed_def on_data_def map_find_put fun_eq_iff)
  have p0: "process_ssu_fragments E 0 p mem = Some" for p by (rule ext) simp
  have q: "pos + 2 + 4 = pos + 6" "pos + 2 + 7 = pos + 9" by simp_all
  have proc: "process_ssu_fragments E (Suc 0) (pos + 2) mem (s, n) =
      (if l then complete_message E msgID (incMsg im1) (?s1, n1) else SendFragmentAck E msgID k (?s1, n1))"
    unfolding process_ssu_fragments.simps(2) q rd(3,4) bind.bind_lunit prod.case rd(5) Let_def h(1) p0
    using lc by simp
  have upd: "s\<lparr>m_Data := m_Data s\<rparr> = s" by (cases s) simp
  have fl: "(DATA_FLAG_WANT_REPLY :: byte) AND (DATA_FLAG_ACK_BITFIELDS_INCLUDED OR DATA_FLAG_EXPLICIT_ACKS_INCLUDED) = 0"
      "(DATA_FLAG_WANT_REPLY :: byte) AND DATA_FLAG_EXTENDED_DATA_INCLUDED = 0" "unat (1 :: byte) = Suc 0" "pos + 1 + 1 = pos + 2"
    by simp_all
  have P: "SSUData_ProcessMessage E pos mem (s, n) =
      (if l then complete_message E msgID (incMsg im1) (?s1, n1) else SendFragmentAck E msgID k (?s1, n1))"
    unfolding SSUData_ProcessMessage_def ProcessFragments_def prod.case rd(1) bind.bind_lunit
    by (simp only: fl rd(2) simp_thms if_False bind.bind_lunit prod.case upd proc)
  show ?thesis
  proof (cases l)
    case True
    have "\<forall>j im. j \<noteq> msgID \<and> map_find j (ssuIncomplete (m_Data ?s1)) = Some im \<longrightarrow> collects (cs j) im"
      using i ok unfolding inc1(1) by (auto simp: rx_inv_def map_find_put)
    from complete_message_ok [OF E _ f inc1(2,3) this ab1] h(4) True
    show ?thesis unfolding P ab using h(3) True by (simp add: spec_fragment_def)
  next
    case False
    obtain a where a: "SendFragmentAck E msgID k (?s1, n1) = Some a" "same_rx (?s1, n1) a" using SendFragmentAck_ok [OF E] by blast
    have "rx_inv cs ?s1" using i ok h(5) False inc1 by (auto simp: rx_inv_def map_find_put)
    then have "rx_inv cs (fst a)" using rx_inv_same_rx [OF a(2)] by simp
    moreover have "abs_rx a = (A(msgID := insert k (A msgID)), R, D)" using abs_same_rx [OF a(2)] ab1 h(5) False by simp
    ultimately show ?thesis unfolding P ab using h(3) False a(1) same_rx_keys [OF a(2)] by (simp add: spec_fragment_def)
  qed
qed

end
