(* ===== verification/SSU_Send.thy ===== *)
theory SSU_Send
  imports SSU_Receive
begin

text \<open>
  Sending over SSU: a message is cut into pieces, and packet by packet they carry the fragments.
\<close>

section \<open>Cutting a message\<close>

text \<open>The pieces that \<open>Send\<close> makes of a message, for a payload size that is not zero.\<close>

fun cut :: "nat \<Rightarrow> bytes \<Rightarrow> bytes list" where
  "cut p w = (if w = [] \<or> p = 0 then [] else take p w # cut p (drop p w))"

declare cut.simps [simp del]

lemma cut_Nil [simp]: "cut p [] = []" by (subst cut.simps) simp

lemma cut_step: "w \<noteq> [] \<Longrightarrow> p \<noteq> 0 \<Longrightarrow> cut p w = take p w # cut p (drop p w)" by (subst cut.simps) simp

lemma concat_cut: "p \<noteq> 0 \<Longrightarrow> concat (cut p w) = w"
  by (induction p w rule: cut.induct) (subst cut.simps, simp)

lemma cut_pieces: "c \<in> set (cut p w) \<Longrightarrow> c \<noteq> [] \<and> length c \<le> p"
proof (induction p w rule: cut.induct)
  case (1 p w)
  then show ?case by (cases "w = [] \<or> p = 0") (auto simp: cut.simps [of p w])
qed

lemma length_cut: "p \<noteq> 0 \<Longrightarrow> length (cut p w) = (length w + p - 1) div p"
proof (induction p w rule: cut.induct)
  case (1 p w)
  show ?case
  proof (cases "w = []")
    case False
    then have "length (cut p w) = Suc ((length (drop p w) + p - 1) div p)" using 1 by (simp add: cut_step)
    also have "\<dots> = (length w + p - 1) div p"
    proof (cases "length w \<le> p")
      case True
      moreover have "1 \<le> length w" using False by (cases w) simp_all
      moreover have "length (drop p w) + p - 1 = p - 1" using True by simp
      ultimately have e: "length (drop p w) + p - 1 = p - 1" "length w + p - 1 = p + (length w - 1)" "length w - 1 < p"
        using 1(2) by linarith+
      have "(p + (length w - 1)) div p = Suc ((length w - 1) div p)" using 1(2) by (metis div_add_self1 Suc_eq_plus1)
      then show ?thesis unfolding e(1,2) using e(3) 1(2) by simp
    next
      case b: False
      have e: "length w + p - 1 = p + (length (drop p w) + p - 1)" using b by simp
      have "(p + (length (drop p w) + p - 1)) div p = Suc ((length (drop p w) + p - 1) div p)" using 1(2) by (metis div_add_self1 Suc_eq_plus1)
      then show ?thesis unfolding e by simp
    qed
    finally show ?thesis .
  qed (use 1(2) in simp)
qed

section \<open>Sending\<close>

text \<open>A packet on the wire that carries a fragment under the keys of a session.\<close>

definition carries_fragment :: "'g ssuenv \<Rightarrow> bytes \<Rightarrow> bytes \<Rightarrow> u32 \<Rightarrow> nat \<Rightarrow> bool \<Rightarrow> bytes \<Rightarrow> bytes \<Rightarrow> bool" where
  "carries_fragment E key macKey msgID k l chunk P \<longleftrightarrow>
     (\<exists>iv ts pad. length iv = 16 \<and> 16 dvd 14 + length chunk + length pad \<and> 14 + length chunk + length pad \<le> 1966 \<and>
        P = sealed_packet E iv key macKey (push_bit 4 PAYLOAD_TYPE_DATA # be_bytes 4 (ts :: u32) @ fragment_payload msgID k l chunk @ pad))"

text \<open>One pass of the loop.\<close>

lemma length_fragment_payload [simp]: "length (fragment_payload msgID k l chunk) = 9 + length chunk"
  by (simp add: fragment_payload_def)

lemma seal_fragment:
  assumes E: "ssuenv_ok E" and c: "length chunk \<le> 1410"
    and b1: "mem_write SSUHeader_size (fragment_payload msgID k l chunk) (fst (tgarbage E (SSU_V4_MAX_PACKET_SIZE + 18) g)) = Some b1"
    and z: "size2 = (let size1 = length chunk + 46 in if size1 mod 16 \<noteq> 0 then (size1 div 16 + 1) * 16 else size1)"
  shows "\<exists>b enc n1. FillHeaderAndEncrypt E PAYLOAD_TYPE_DATA b1 size2 (s, n) = Some (b, s\<lparr>m_SessionKeyEncryption := enc\<rparr>, n1) \<and>
    length b = 1474 \<and> size2 \<le> 1456 \<and> eKey enc = eKey (m_SessionKeyEncryption s) \<and> ssuEvents n1 = ssuEvents n \<and>
    carries_fragment E (eKey (m_SessionKeyEncryption s)) (m_MacKey s) msgID k l chunk (take size2 b)"
proof -
  let ?G = "fst (tgarbage E (SSU_V4_MAX_PACKET_SIZE + 18) g)" and ?f = "fragment_payload msgID k l chunk"
  have lG: "length ?G = 1474" using E by (simp add: ssuenv_ok_def)
  have "46 + length chunk \<le> 1456" using c by simp
  then have z1: "46 + length chunk \<le> size2" "size2 \<le> 1456" "16 dvd size2"
    unfolding z Let_def by (auto simp: dvd_eq_mod_eq_0) presburger+
  have b1': "b1 = take 37 ?G @ ?f @ drop (46 + length chunk) ?G"
    using b1 by (simp add: mem_write_def split: if_splits)
  let ?pad = "take (size2 - (46 + length chunk)) (drop (46 + length chunk) ?G)" and ?t = "drop size2 ?G"
  have "drop (size2 - (46 + length chunk)) (drop (46 + length chunk) ?G) = ?t" using z1(1) by simp
  then have "drop (46 + length chunk) ?G = ?pad @ ?t" by (metis append_take_drop_id)
  moreover have "take 37 ?G = take 32 ?G @ take 5 (drop 32 ?G)" using take_add [of 32 5 ?G] by simp
  ultimately have sp: "b1 = take 32 ?G @ (take 5 (drop 32 ?G) @ ?f @ ?pad) @ ?t"
    unfolding b1' by simp
  let ?p = "take 5 (drop 32 ?G) @ ?f @ ?pad"
  have l: "length ?p + 32 = size2" "length (take 32 ?G) = 32" "18 \<le> length ?t" "37 \<le> size2" "size2 \<le> 1998"
    using z1 lG by auto
  obtain iv ts enc n1 where r: "FillHeaderAndEncrypt E PAYLOAD_TYPE_DATA (take 32 ?G @ ?p @ ?t) size2 (s, n) =
      Some (sealed_packet E iv (eKey (m_SessionKeyEncryption s)) (m_MacKey s) (push_bit 4 PAYLOAD_TYPE_DATA # be_bytes 4 (ts :: u32) @ drop 5 ?p) @
        iv @ be_bytes 2 (of_nat (length ?p) :: u16) @ drop 18 ?t, s\<lparr>m_SessionKeyEncryption := enc\<rparr>, n1)"
    "length iv = 16" "eKey enc = eKey (m_SessionKeyEncryption s)" "ssuEvents n1 = ssuEvents n"
    using FillHeaderAndEncrypt_eq [OF E l(1,4,5) l(2,3)] by blast
  have d: "drop 5 ?p = ?f @ ?pad" using lG by simp
  let ?P = "sealed_packet E iv (eKey (m_SessionKeyEncryption s)) (m_MacKey s) (push_bit 4 PAYLOAD_TYPE_DATA # be_bytes 4 ts @ ?f @ ?pad)"
  have lp: "14 + length chunk + length ?pad + 32 = size2" using z1 lG by simp
  then have dv: "16 dvd 14 + length chunk + length ?pad" using z1(3) by presburger
  have "length (push_bit 4 PAYLOAD_TYPE_DATA # be_bytes 4 ts @ ?f @ ?pad) = 14 + length chunk + length ?pad" by simp
  then have lP: "length ?P = size2" using length_sealed_packet [OF E r(2)] lp by (metis add.commute)
  have "carries_fragment E (eKey (m_SessionKeyEncryption s)) (m_MacKey s) msgID k l chunk ?P"
    unfolding carries_fragment_def using r(2) dv lp z1(2) by (intro exI [of _ iv] exI [of _ ts] exI [of _ ?pad]) auto
  moreover have "length (?P @ iv @ be_bytes 2 (of_nat (length ?p) :: u16) @ drop 18 ?t) = 1474" using lP r(2) lG z1(2) by simp
  ultimately show ?thesis using r lP z1(2) unfolding sp [symmetric] d by fastforce
qed

lemma send_fragments_ok:
  assumes E: "ssuenv_ok E" and p: "0 < p" "p \<le> 1410"
  shows "mem_read pos (length w) mem = Some w \<Longrightarrow> num + length (cut p w) = N \<Longrightarrow>
    \<exists>fs s1 n1 ps. send_fragments E msgID p mem num pos (length w) (s, n) = Some (map Some fs, s1, n1) \<and>
      m_Data s1 = m_Data s \<and> ssuState s1 = ssuState s \<and> eKey (m_SessionKeyEncryption s1) = eKey (m_SessionKeyEncryption s) \<and>
      m_MacKey s1 = m_MacKey s \<and> m_RemoteEndpoint s1 = m_RemoteEndpoint s \<and>
      ssuEvents n1 = ssuEvents n @ map (\<lambda>P. SentTo P (m_RemoteEndpoint s)) ps \<and> length ps = length (cut p w) \<and>
      map (\<lambda>f. take (sfLen f) (sfBuf f)) fs = ps \<and> (\<forall>f \<in> set fs. sfLen f \<le> length (sfBuf f)) \<and>
      (\<forall>k < length ps. carries_fragment E (eKey (m_SessionKeyEncryption s)) (m_MacKey s) msgID (num + k)
         (Suc (num + k) = N) (cut p w ! k) (ps ! k))"
proof (induction "length w" arbitrary: w num pos s n rule: less_induct)
  case less
  show ?case
  proof (cases "w = []")
    case True
    then show ?thesis
      by (intro exI [of _ "[]"] exI [of _ s] exI [of _ n]) (simp add: send_fragments.simps)
  next
    case False
    let ?last = "length w \<le> p"
    define size' where "size' = (if ?last then length w else p)"
    define chunk where "chunk = take p w"
    have ch: "chunk = take size' w" "length chunk = size'" "size' \<le> 1410" "size' \<le> length w"
      using p by (auto simp: size'_def chunk_def)
    let ?g = "ssuWorld n"
    let ?G = "fst (tgarbage E (SSU_V4_MAX_PACKET_SIZE + 18) ?g)"
    let ?n = "n\<lparr>ssuWorld := snd (tgarbage E (SSU_V4_MAX_PACKET_SIZE + 18) ?g)\<rparr>"
    have c: "cut p w = chunk # cut p (drop p w)" using False p by (simp add: cut_step chunk_def)
    have lst: "?last \<longleftrightarrow> Suc num = N"
    proof -
      have "cut p (drop p w) = [] \<longleftrightarrow> ?last" using p concat_cut [of p "drop p w"] by (cases ?last) auto
      then show ?thesis using less.prems(2) c by auto
    qed
    have rd: "mem_read pos size' mem = Some chunk"
      using mem_read_sub [OF less.prems(1), of 0 size'] ch by simp
    have lG: "length ?G = 1474" using E by (simp add: ssuenv_ok_def)
    let ?f = "fragment_payload msgID num ?last chunk"
    obtain b1 where b1: "mem_write SSUHeader_size ?f ?G = Some b1" using lG ch by (simp add: mem_write_def)
    define size2 where "size2 = (let size1 = length chunk + 46 in if size1 mod 16 \<noteq> 0 then (size1 div 16 + 1) * 16 else size1)"
    obtain b enc n1 where S: "FillHeaderAndEncrypt E PAYLOAD_TYPE_DATA b1 size2 (s, ?n) = Some (b, s\<lparr>m_SessionKeyEncryption := enc\<rparr>, n1)"
        "length b = 1474" "size2 \<le> 1456" "eKey enc = eKey (m_SessionKeyEncryption s)" "ssuEvents n1 = ssuEvents ?n"
        "carries_fragment E (eKey (m_SessionKeyEncryption s)) (m_MacKey s) msgID num ?last chunk (take size2 b)"
      using seal_fragment [OF E _ b1 size2_def, of s ?n] ch by auto
    let ?s1 = "s\<lparr>m_SessionKeyEncryption := enc, ssuNumSent := ssuNumSent s + size2\<rparr>" and ?n1 = "emit (SentTo (take size2 b) (m_RemoteEndpoint s)) n1"
    have send: "Session_Send b size2 (s\<lparr>m_SessionKeyEncryption := enc\<rparr>, n1) = Some (?s1, ?n1)"
      using S by (simp add: Session_Send_def mem_read_def)
    define w1 where "w1 = drop p w"
    have lw1: "length w1 = (if ?last then 0 else length w - p)" "length w1 < length w" using False p by (auto simp: w1_def)
    have rd1: "mem_read (pos + p) (length w1) mem = Some w1 \<or> w1 = []"
    proof (cases ?last)
      case False
      then show ?thesis using mem_read_sub [OF less.prems(1), of p "length w1"] lw1 by (simp add: w1_def)
    qed (simp add: w1_def)
    obtain fs s2 n2 ps where R: "send_fragments E msgID p mem (num + 1) (pos + p) (length w1) (?s1, ?n1) = Some (map Some fs, s2, n2)"
      "m_Data s2 = m_Data ?s1" "ssuState s2 = ssuState ?s1" "eKey (m_SessionKeyEncryption s2) = eKey (m_SessionKeyEncryption ?s1)"
      "m_MacKey s2 = m_MacKey ?s1" "m_RemoteEndpoint s2 = m_RemoteEndpoint ?s1"
      "ssuEvents n2 = ssuEvents ?n1 @ map (\<lambda>P. SentTo P (m_RemoteEndpoint ?s1)) ps" "length ps = length (cut p w1)"
      "map (\<lambda>f. take (sfLen f) (sfBuf f)) fs = ps" "\<forall>f \<in> set fs. sfLen f \<le> length (sfBuf f)"
      "\<forall>k < length ps. carries_fragment E (eKey (m_SessionKeyEncryption ?s1)) (m_MacKey ?s1) msgID (num + 1 + k)
         (Suc (num + 1 + k) = N) (cut p w1 ! k) (ps ! k)"
    proof (cases "w1 = []")
      case True
      then show ?thesis using that [of "[]" ?s1 ?n1 "[]"] by (simp add: send_fragments.simps)
    next
      case False
      then have "mem_read (pos + p) (length w1) mem = Some w1" using rd1 by simp
      moreover have "num + 1 + length (cut p w1) = N" using less.prems(2) c by (simp add: w1_def)
      ultimately show ?thesis using less.hyps [OF lw1(2), of "pos + p" "num + 1" ?s1 ?n1] that by blast
    qed
    let ?fr = "\<lparr>sfNum = num, sfLen = size2, sfIsLast = False, sfBuf = b\<rparr>"
    have z: "(if size' + 46 mod 16 \<noteq> 0 then x else y) = (if size' + 46 mod 16 \<noteq> 0 then x else y)" for x y :: nat ..
    have main: "send_fragments E msgID p mem num pos (length w) (s, n) = Some (map Some (?fr # fs), s2, n2)"
      unfolding send_fragments.simps [of E msgID p mem num pos "length w"] Let_def size'_def [symmetric] task_eq prod.case fst_conv snd_conv rd
        bind.bind_lunit
      using False p(1) b1 S(1) send R(1) lw1(1)
      by (simp add: fragment_payload_def ch(2) size2_def Let_def)
    have "\<forall>k < length (take size2 b # ps). carries_fragment E (eKey (m_SessionKeyEncryption s)) (m_MacKey s) msgID (num + k)
         (Suc (num + k) = N) (cut p w ! k) ((take size2 b # ps) ! k)"
    proof (intro allI impI)
      fix k assume k: "k < length (take size2 b # ps)"
      show "carries_fragment E (eKey (m_SessionKeyEncryption s)) (m_MacKey s) msgID (num + k)
         (Suc (num + k) = N) (cut p w ! k) ((take size2 b # ps) ! k)"
        using S(4,6) R(11) k lst by (cases k) (simp_all add: c w1_def)
    qed
    then show ?thesis
      using main R S(2-5) c
      by (intro exI [of _ "?fr # fs"] exI [of _ s2] exI [of _ n2] exI [of _ "take size2 b # ps"]) (simp add: emit_def w1_def)
  qed
qed

end
