(* ===== verification/SSU_Session.thy ===== *)
theory SSU_Session
  imports SSU_Data
begin

text \<open>
  The operations of one SSU session: \<open>src/core/transport/SSUSession.cpp\<close>. The handshake, relaying, peer tests as far as
  they concern one session, and the operations of the router on a session. Timers are what the session waits for.
\<close>

section \<open>Creation\<close>

text \<open>The constructor; the identity and the keys are what the memory was.\<close>

definition newSSUSession :: "'g ssuenv \<Rightarrow> endpoint \<Rightarrow> ssu_router option \<Rightarrow> bool \<Rightarrow> 'g ssunet \<Rightarrow> (SSUSession \<times> 'g ssunet) option" where
  "newSSUSession E remoteEndpoint router peerTest n = do {
     let (std, n1) = task (tgarbage E DEFAULT_IDENTITY_SIZE) n;
     let (hash, n2) = task (tgarbage E 32) n1;
     let null = newIdentityEx (Identity_of std) hash;
     ident \<leftarrow> (case router of Some r \<Rightarrow> IdentityEx_assign (rtIdentity r) null | None \<Rightarrow> Some null);
     let (sk, n3) = task (tgarbage E 32) n2;
     let (mk, n4) = task (tgarbage E 32) n3;
     let (ts, n5) = task (tseconds E) n4;
     Some (\<lparr>m_RemoteRouter = router, m_RemoteIdent = ident, m_DHKeysPair = None, ssuNumSent = 0, ssuNumReceived = 0,
       m_RemoteEndpoint = remoteEndpoint, m_PeerTest = peerTest, ssuState = eSessionStateUnknown, m_IsSessionKey = False,
       m_RelayTag = 0, m_SessionKeyEncryption = newCBCEncryption, m_SessionKeyDecryption = newCBCDecryption,
       m_SessionKey = sk, m_MacKey = mk, m_CreationTime = ucast ts,
       m_Data = newSSUData (\<not> is_v4 (epIP remoteEndpoint)) router, m_IsDataReceived = False, ssuTimer = None\<rparr>, n5)
   }"

definition GetIntroKey :: "'g ssuenv \<Rightarrow> SSUSession \<Rightarrow> 'g ssunet \<Rightarrow> bytes option \<times> 'g ssunet" where
  "GetIntroKey E s n =
     (case m_RemoteRouter s of
        Some r \<Rightarrow> (map_option aKey (rtAddress r), n)
      | None \<Rightarrow> let (address, n1) = task (contextSSU E) n in (map_option aKey address, n1))"

text \<open>\<open>SSUServer::Send\<close>; failures of the socket are only logged.\<close>

definition Server_Send :: "bytes \<Rightarrow> nat \<Rightarrow> endpoint \<Rightarrow> 'g ssunet \<Rightarrow> 'g ssunet option" where
  "Server_Send buf len to n = map_option (\<lambda>data. emit (SentTo data to) n) (mem_read 0 len buf)"

text \<open>Lengths are rounded up to blocks.\<close>

definition round16 :: "nat \<Rightarrow> nat" where
  "round16 n = (let p = n mod 16 in if p > 0 then n + (16 - p) else n)"

definition ip_size :: "bytes \<Rightarrow> byte" where "ip_size ip = (if is_v4 ip then 4 else 16)"

section \<open>The handshake\<close>

definition SendSessionRequest :: "'g ssuenv \<Rightarrow> SSUSession \<times> 'g ssunet \<Rightarrow> (SSUSession \<times> 'g ssunet) option" where
  "SendSessionRequest E = (\<lambda>(s, n).
     case GetIntroKey E s n of
       (None, n1) \<Rightarrow> Some (s, n1)
     | (Some introKey, n1) \<Rightarrow> do {
         (pub, priv) \<leftarrow> m_DHKeysPair s;
         let ip = epIP (m_RemoteEndpoint s);
         b1 \<leftarrow> mem_write SSUHeader_size (pub @ ip_size ip # ip) (replicate (320 + 18) 0);
         let (iv, n2) = task (genBlock (tgen E) 16) n1;
         let len = (if is_v4 ip then 304 else 320);
         (b2, n3) \<leftarrow> FillHeaderAndEncrypt_keys E PAYLOAD_TYPE_SESSION_REQUEST b1 len introKey iv introKey n2;
         n4 \<leftarrow> Server_Send b2 len (m_RemoteEndpoint s) n3;
         Some (s, n4)
       })"

definition SendRelayRequest :: "'g ssuenv \<Rightarrow> u32 \<Rightarrow> bytes \<Rightarrow> SSUSession \<times> 'g ssunet \<Rightarrow> (SSUSession \<times> 'g ssunet) option" where
  "SendRelayRequest E tag introKey = (\<lambda>(s, n).
     case task (contextSSU E) n of
       (None, n1) \<Rightarrow> Some (s, n1)
     | (Some address, n1) \<Rightarrow> do {
         let (nonce, n2) = task (genMsgID (tgen E)) n1;
         b1 \<leftarrow> mem_write SSUHeader_size (be_bytes 4 tag @ [0, 0, 0, 0] @ aKey address @ be_bytes 4 nonce) (replicate (96 + 18) 0);
         let (iv, n3) = task (genBlock (tgen E) 16) n2;
         (b2, n4) \<leftarrow> (if ssuState s = eSessionStateEstablished
           then FillHeaderAndEncrypt_keys E PAYLOAD_TYPE_RELAY_REQUEST b1 96 (m_SessionKey s) iv (m_MacKey s) n3
           else FillHeaderAndEncrypt_keys E PAYLOAD_TYPE_RELAY_REQUEST b1 96 introKey iv introKey n3);
         n5 \<leftarrow> Server_Send b2 96 (m_RemoteEndpoint s) n4;
         Some (s, n5)
       })"

text \<open>
  The answer to a request. What is signed: both public keys, both endpoints, relay tag and time. The signature and the
  padding behind it are encrypted with the session key, then all with the introduction key.
\<close>

definition relay_tag :: "'g ssuenv \<Rightarrow> endpoint \<Rightarrow> 'g ssunet \<Rightarrow> u32 \<times> 'g ssunet" where
  "relay_tag E relay n =
     (case task (contextIntroducer E) n of
        (False, n1) \<Rightarrow> (0, n1)
      | (True, n1) \<Rightarrow>
          let (w, n2) = task (genMsgID (tgen E)) n1; tag = (if w = 0 then 1 else w)
          in (tag, AddRelay tag relay n2))"

definition SendSessionCreated :: "'g ssuenv \<Rightarrow> bytes \<Rightarrow> SSUSession \<times> 'g ssunet \<Rightarrow> (SSUSession \<times> 'g ssunet) option" where
  "SendSessionCreated E x = (\<lambda>(s, n).
     let (introKey, n1) = GetIntroKey E s n;
         (address, n2) = task (if IsV6 s then contextSSUV6 E else contextSSUV4 E) n1
     in case (introKey, address) of
          (Some key, Some a) \<Rightarrow> do {
            (pub, priv) \<leftarrow> m_DHKeysPair s;
            let ip = epIP (m_RemoteEndpoint s);
            let remote = ip @ be_bytes 2 (epPort (m_RemoteEndpoint s));
            let (relayTag, n3) = relay_tag E (m_RemoteEndpoint s) n2;
            let (ts, n4) = task (tseconds E) n3;
            let signedOn = be_bytes 4 relayTag @ be_bytes 4 (ucast ts :: u32);
            let fields = pub @ ip_size ip # remote @ signedOn;
            b1 \<leftarrow> mem_write SSUHeader_size fields (replicate (384 + 18) 0);
            let pos = SSUHeader_size + length fields;
            let (sig, n5) = task (PrivateKeys_Sign (tsig E)
              (x @ pub @ remote @ aHost a @ be_bytes 2 (aPort a) @ signedOn) (contextKeys E)) n4;
            b2 \<leftarrow> (case sig of Some g \<Rightarrow> mem_write pos g b1 | None \<Rightarrow> Some b1);
            let (iv, n6) = task (genBlock (tgen E) 16) n5;
            (signatureLen, ident) \<leftarrow> GetSignatureLen (m_Public (contextKeys E));
            plain \<leftarrow> mem_read pos (round16 signatureLen) b2;
            let (c, enc) = CBCEncryption_Encrypt (taes E) plain (CBCEncryption_SetIV iv (m_SessionKeyEncryption s));
            b3 \<leftarrow> mem_write pos c b2;
            let msgLen = pos + round16 signatureLen;
            (b4, n7) \<leftarrow> FillHeaderAndEncrypt_keys E PAYLOAD_TYPE_SESSION_CREATED b3 msgLen key iv key n6;
            Session_Send b4 msgLen (s\<lparr>m_SessionKeyEncryption := enc\<rparr>, n7)
          }
        | _ \<Rightarrow> Some (s, n2))"

definition SendSessionConfirmed :: "'g ssuenv \<Rightarrow> bytes \<Rightarrow> bytes \<Rightarrow> SSUSession \<times> 'g ssunet \<Rightarrow> (SSUSession \<times> 'g ssunet) option" where
  "SendSessionConfirmed E y ourAddress = (\<lambda>(s, n). do {
     let ident = m_Public (contextKeys E);
     let identLen = GetFullLen ident;
     b1 \<leftarrow> mem_write SSUHeader_size (1 # be_bytes 2 (of_nat identLen :: u16)) (replicate (512 + 18) 0);
     (len, b2) \<leftarrow> ToBuffer 40 ident b1;
     let (ts, n1) = task (tseconds E) n;
     let signedOn = be_bytes 4 (ucast ts :: u32);
     b3 \<leftarrow> mem_write (40 + identLen) signedOn b2;
     (signatureLen, ident1) \<leftarrow> GetSignatureLen ident;
     let paddingSize = (44 + identLen + signatureLen) mod 16;
     let pos = 44 + identLen + (if paddingSize > 0 then 16 - paddingSize else 0);
     (pub, priv) \<leftarrow> m_DHKeysPair s;
     let (sig, n2) = task (PrivateKeys_Sign (tsig E)
       (pub @ y @ ourAddress @ epIP (m_RemoteEndpoint s) @ be_bytes 2 (epPort (m_RemoteEndpoint s)) @
        be_bytes 4 (m_RelayTag s) @ signedOn) (contextKeys E)) n1;
     b4 \<leftarrow> (case sig of Some g \<Rightarrow> mem_write pos g b3 | None \<Rightarrow> Some b3);
     let msgLen = pos + signatureLen;
     let (iv, n3) = task (genBlock (tgen E) 16) n2;
     (b5, n4) \<leftarrow> FillHeaderAndEncrypt_keys E PAYLOAD_TYPE_SESSION_CONFIRMED b4 msgLen (m_SessionKey s) iv (m_MacKey s) n3;
     Session_Send b5 msgLen (s, n4)
   })"

definition ProcessSessionRequest :: "'g ssuenv \<Rightarrow> bytes \<Rightarrow> endpoint \<Rightarrow> SSUSession \<times> 'g ssunet \<Rightarrow> (SSUSession \<times> 'g ssunet) option" where
  "ProcessSessionRequest E buf senderEndpoint = (\<lambda>(s, n). do {
     let s1 = s\<lparr>m_RemoteEndpoint := senderEndpoint\<rparr>;
     let (s2, n1) = (case m_DHKeysPair s1 of
         Some k \<Rightarrow> (s1, n)
       | None \<Rightarrow> let (k, n1) = task (nextDHKeysPair E) n in (s1\<lparr>m_DHKeysPair := Some k\<rparr>, n1));
     x \<leftarrow> mem_read SSUHeader_size 256 buf;
     s3 \<leftarrow> CreateAESandMacKey E x s2;
     SendSessionCreated E x (s3, n1)
   })"

text \<open>Whether the signature is right is logged; the handshake goes on.\<close>

definition ProcessSessionCreated :: "'g ssuenv \<Rightarrow> bytes \<Rightarrow> SSUSession \<times> 'g ssunet \<Rightarrow> (SSUSession \<times> 'g ssunet) option" where
  "ProcessSessionCreated E buf = (\<lambda>(s, n).
     if m_RemoteRouter s = None \<or> m_DHKeysPair s = None then Some (s, n)
     else do {
       y \<leftarrow> mem_read SSUHeader_size 256 buf;
       s1 \<leftarrow> CreateAESandMacKey E y (s\<lparr>ssuTimer := None\<rparr>);
       (pub, priv) \<leftarrow> m_DHKeysPair s1;
       addressSize \<leftarrow> mem_get 293 buf;
       ourIP \<leftarrow> mem_read 294 (if addressSize = 4 then 4 else 16) buf;
       let pos = 294 + unat addressSize;
       ourAddress \<leftarrow> mem_read 294 (unat addressSize + 2) buf;
       signedOn \<leftarrow> mem_read (pos + 2) 8 buf;
       relayTag \<leftarrow> bufbe32toh (pos + 2) buf;
       (signatureLen, ident) \<leftarrow> GetSignatureLen (m_RemoteIdent s1);
       iv \<leftarrow> mem_read 16 16 buf;
       c \<leftarrow> mem_read (pos + 10) (round16 signatureLen) buf;
       let (sig, dec) = CBCDecryption_Decrypt (taes E) c (CBCDecryption_SetIV iv (m_SessionKeyDecryption s1));
       b1 \<leftarrow> mem_write (pos + 10) sig buf;
       (verified, ident1) \<leftarrow> Identity_Verify (verifyWith (tsig E))
         (pub @ y @ ourAddress @ epIP (m_RemoteEndpoint s1) @ be_bytes 2 (epPort (m_RemoteEndpoint s1)) @ signedOn) (pos + 10) b1 ident;
       SendSessionConfirmed E y ourAddress (s1\<lparr>m_RelayTag := relayTag, m_SessionKeyDecryption := dec,
         m_RemoteIdent := DropVerifier ident1\<rparr>, emit (UpdateAddress ourIP) n)
     })"

definition DeliveryStatusMsg :: "'g ssuenv \<Rightarrow> 'g ssunet \<Rightarrow> I2NPMessage option \<times> 'g ssunet" where
  "DeliveryStatusMsg E n =
     (let (w, n1) = task (genMsgID (tgen E)) n;
          (rnd, n2) = task (genMsgID (tgen E)) n1;
          (now, n3) = task (clock (tgen E)) n2
      in (CreateDeliveryStatusMsg \<lparr>sha256 = gsha (tgen E), rndWord = rnd, nowMs = now\<rparr> w 0, n3))"

text \<open>The signature behind the identity is not looked at.\<close>

definition ProcessSessionConfirmed :: "'g ssuenv \<Rightarrow> bytes \<Rightarrow> SSUSession \<times> 'g ssunet \<Rightarrow> (SSUSession \<times> 'g ssunet) option" where
  "ProcessSessionConfirmed E buf = (\<lambda>(s, n). do {
     identitySize \<leftarrow> bufbe16toh 38 buf;
     (r, ident) \<leftarrow> FromBuffer (gsha (tgen E)) 40 (unat identitySize) buf (m_RemoteIdent s);
     let (s1, n1) = UpdatePacketSize E (m_IdentHash ident) (s\<lparr>m_RemoteIdent := ident\<rparr>, n);
     (signatureLen, ident1) \<leftarrow> GetSignatureLen ident;
     let (m, n2) = DeliveryStatusMsg E n1;
     msg \<leftarrow> m;
     s2 \<leftarrow> SSUData_Send E msg (s1\<lparr>m_RemoteIdent := ident1\<rparr>, n2);
     Established E s2
   })"

section \<open>Relaying\<close>

definition SendRelayResponse :: "'g ssuenv \<Rightarrow> u32 \<Rightarrow> endpoint \<Rightarrow> bytes \<Rightarrow> endpoint \<Rightarrow> SSUSession \<times> 'g ssunet \<Rightarrow>
    (SSUSession \<times> 'g ssunet) option" where
  "SendRelayResponse E nonce alice introKey charlie = (\<lambda>(s, n).
     if \<not> is_v4 (epIP charlie) then Some (s, n)
     else do {
       b1 \<leftarrow> mem_write SSUHeader_size (4 # epIP charlie @ be_bytes 2 (epPort charlie) @
         ip_size (epIP alice) # epIP alice @ be_bytes 2 (epPort alice) @ be_bytes 4 nonce) (replicate (80 + 18) 0);
       let len = (if is_v4 (epIP alice) then 64 else 80);
       if ssuState s = eSessionStateEstablished then do {
         (b2, s1) \<leftarrow> FillHeaderAndEncrypt E PAYLOAD_TYPE_RELAY_RESPONSE b1 len (s, n);
         Session_Send b2 len s1
       } else do {
         let (iv, n1) = task (genBlock (tgen E) 16) n;
         (b2, n2) \<leftarrow> FillHeaderAndEncrypt_keys E PAYLOAD_TYPE_RELAY_RESPONSE b1 len introKey iv introKey n1;
         n3 \<leftarrow> Server_Send b2 len alice n2;
         Some (s, n3)
       }
     })"

text \<open>Sent to the endpoint of another session with its keys; that session is not changed.\<close>

definition SendRelayIntro :: "'g ssuenv \<Rightarrow> SSUSession \<Rightarrow> endpoint \<Rightarrow> 'g ssunet \<Rightarrow> 'g ssunet option" where
  "SendRelayIntro E session alice n =
     (if \<not> is_v4 (epIP alice) then Some n
      else do {
        b1 \<leftarrow> mem_write SSUHeader_size (4 # epIP alice @ be_bytes 2 (epPort alice) @ [0]) (replicate (48 + 18) 0);
        let (iv, n1) = task (genBlock (tgen E) 16) n;
        (b2, n2) \<leftarrow> FillHeaderAndEncrypt_keys E PAYLOAD_TYPE_RELAY_INTRO b1 48 (m_SessionKey session) iv (m_MacKey session) n1;
        Server_Send b2 48 (m_RemoteEndpoint session) n2
      })"

definition ProcessRelayResponse :: "bytes \<Rightarrow> 'g ssunet \<Rightarrow> 'g ssunet option" where
  "ProcessRelayResponse buf n = do {
     remoteSize \<leftarrow> mem_get SSUHeader_size buf;
     let pos = SSUHeader_size + 3 + unat remoteSize;
     ourSize \<leftarrow> mem_get pos buf;
     ourIP \<leftarrow> mem_read (pos + 1) (if ourSize = 4 then 4 else 16) buf;
     ourPort \<leftarrow> bufbe16toh (pos + 1 + unat ourSize) buf;
     Some (emit (UpdateAddress ourIP) n)
   }"

text \<open>A hole punch is a packet of no bytes.\<close>

definition ProcessRelayIntro :: "nat \<Rightarrow> bytes \<Rightarrow> 'g ssunet \<Rightarrow> 'g ssunet option" where
  "ProcessRelayIntro pos buf n = do {
     size' \<leftarrow> mem_get pos buf;
     if size' = 4 then do {
       address \<leftarrow> mem_read (pos + 1) 4 buf;
       port \<leftarrow> bufbe16toh (pos + 5) buf;
       Some (emit (SentTo [] (UdpEndpoint address port)) n)
     } else Some n
   }"

section \<open>Connecting and closing\<close>

definition ScheduleConnectTimer :: "SSUSession \<Rightarrow> SSUSession" where
  "ScheduleConnectTimer s = s\<lparr>ssuTimer := Some ConnectTimer\<rparr>"

definition Connect :: "'g ssuenv \<Rightarrow> SSUSession \<times> 'g ssunet \<Rightarrow> (SSUSession \<times> 'g ssunet) option" where
  "Connect E = (\<lambda>(s, n).
     if ssuState s = eSessionStateUnknown then
       let (k, n1) = task (nextDHKeysPair E) n
       in SendSessionRequest E ((ScheduleConnectTimer s)\<lparr>m_DHKeysPair := Some k\<rparr>, n1)
     else Some (s, n))"

definition WaitForConnect :: "SSUSession \<Rightarrow> SSUSession" where
  "WaitForConnect s = (if m_RemoteRouter s = None then ScheduleConnectTimer s else s)"

definition Introduce :: "'g ssuenv \<Rightarrow> u32 \<Rightarrow> bytes \<Rightarrow> SSUSession \<times> 'g ssunet \<Rightarrow> (SSUSession \<times> 'g ssunet) option" where
  "Introduce E tag introKey = (\<lambda>(s, n). SendRelayRequest E tag introKey
     (if ssuState s = eSessionStateUnknown then s\<lparr>ssuTimer := Some ConnectTimer\<rparr> else s, n))"

definition WaitForIntroduction :: "SSUSession \<Rightarrow> SSUSession" where
  "WaitForIntroduction s = s\<lparr>ssuState := eSessionStateIntroduced, ssuTimer := Some ConnectTimer\<rparr>"

definition SendSesionDestroyed :: "'g ssuenv \<Rightarrow> SSUSession \<times> 'g ssunet \<Rightarrow> (SSUSession \<times> 'g ssunet) option" where
  "SendSesionDestroyed E = (\<lambda>(s, n).
     if m_IsSessionKey s then do {
       (b, s1) \<leftarrow> FillHeaderAndEncrypt E PAYLOAD_TYPE_SESSION_DESTROYED (replicate (48 + 18) 0) 48 (s, n);
       Session_Send b 48 s1
     } else Some (s, n))"

definition Session_Close :: "'g ssuenv \<Rightarrow> SSUSession \<times> 'g ssunet \<Rightarrow> (SSUSession \<times> 'g ssunet) option" where
  "Session_Close E = (\<lambda>(s, n). do {
     (s1, n1) \<leftarrow> SendSesionDestroyed E (s\<lparr>ssuState := eSessionStateClosed\<rparr>, n);
     Some (s1\<lparr>ssuTimer := None\<rparr>, emit PeerDisconnected n1)
   })"

section \<open>Messages of an established session\<close>

text \<open>Null pointers in the vector are skipped.\<close>

fun send_all :: "'g ssuenv \<Rightarrow> I2NPMessage option list \<Rightarrow> SSUSession \<times> 'g ssunet \<Rightarrow> (SSUSession \<times> 'g ssunet) option" where
  "send_all E [] s = Some s"
| "send_all E (None # ms) s = send_all E ms s"
| "send_all E (Some m # ms) s = do { s1 \<leftarrow> SSUData_Send E m s; send_all E ms s1 }"

definition PostI2NPMessages :: "'g ssuenv \<Rightarrow> I2NPMessage option list \<Rightarrow> SSUSession \<times> 'g ssunet \<Rightarrow> (SSUSession \<times> 'g ssunet) option" where
  "PostI2NPMessages E msgs = (\<lambda>(s, n). if ssuState s = eSessionStateEstablished then send_all E msgs (s, n) else Some (s, n))"

definition ProcessData :: "'g ssuenv \<Rightarrow> nat \<Rightarrow> bytes \<Rightarrow> SSUSession \<times> 'g ssunet \<Rightarrow> (SSUSession \<times> 'g ssunet) option" where
  "ProcessData E pos buf s = do {
     (s1, n1) \<leftarrow> SSUData_ProcessMessage E pos buf s;
     Some (s1\<lparr>m_IsDataReceived := True\<rparr>, n1)
   }"

definition FlushData :: "SSUSession \<times> 'g ssunet \<Rightarrow> SSUSession \<times> 'g ssunet" where
  "FlushData = (\<lambda>(s, n).
     if m_IsDataReceived s then
       let (s1, n1) = FlushReceivedMessage (s, n) in (s1\<lparr>m_IsDataReceived := False\<rparr>, n1)
     else (s, n))"

text \<open>\<open>Send (type, payload, len)\<close>.\<close>

definition Session_Send_type :: "'g ssuenv \<Rightarrow> byte \<Rightarrow> bytes \<Rightarrow> SSUSession \<times> 'g ssunet \<Rightarrow> (SSUSession \<times> 'g ssunet) option" where
  "Session_Send_type E type payload = (\<lambda>(s, n).
     let msgSize = round16 (length payload + SSUHeader_size)
     in if msgSize > SSU_MTU_V4 then Some (s, n)
        else do {
          b1 \<leftarrow> mem_write SSUHeader_size payload (replicate (SSU_MTU_V4 + 18) 0);
          (b2, s1) \<leftarrow> FillHeaderAndEncrypt E type b1 msgSize (s, n);
          Session_Send b2 msgSize s1
        })"

definition SendKeepAlive :: "'g ssuenv \<Rightarrow> SSUSession \<times> 'g ssunet \<Rightarrow> (SSUSession \<times> 'g ssunet) option" where
  "SendKeepAlive E = (\<lambda>(s, n).
     if ssuState s = eSessionStateEstablished then do {
       (b, s1) \<leftarrow> FillHeaderAndEncrypt E PAYLOAD_TYPE_DATA (replicate (48 + 18) 0) 48 (s, n);
       (s2, n2) \<leftarrow> Session_Send b 48 s1;
       Some (ScheduleTermination s2, n2)
     } else Some (s, n))"

section \<open>Opening a packet\<close>

text \<open>
  First the session key is tried, then the introduction key of the other side or ours, then ours. The buffer changes on
  the way: \<open>Validate\<close> writes behind the packet.
\<close>

datatype opened = Opened bytes | Unsupported | Rejected

definition open_packet :: "'g ssuenv \<Rightarrow> bytes \<Rightarrow> nat \<Rightarrow> SSUSession \<times> 'g ssunet \<Rightarrow> (opened \<times> SSUSession \<times> 'g ssunet) option" where
  "open_packet E buf len = (\<lambda>(s, n). do {
     (ok1, b1) \<leftarrow> (if m_IsSessionKey s then Validate E buf len (m_MacKey s) else Some (False, buf));
     if ok1 then do {
       (b, s1) \<leftarrow> DecryptSessionKey E b1 len s;
       Some (Opened b, s1, n)
     } else do {
       let (introKey, n1) = GetIntroKey E s n;
       (ok2, b2) \<leftarrow> (case introKey of Some key \<Rightarrow> Validate E b1 len key | None \<Rightarrow> Some (False, b1));
       if ok2 then do {
         b \<leftarrow> Decrypt E b2 len (the introKey);
         Some (Opened b, s, n1)
       } else
         (case task (contextSSU E) n1 of
            (None, n2) \<Rightarrow> Some (Unsupported, s, n2)
          | (Some address, n2) \<Rightarrow> do {
              (ok3, b3) \<leftarrow> Validate E b2 len (aKey address);
              if ok3 then do {
                b \<leftarrow> Decrypt E b3 len (aKey address);
                Some (Opened b, s, n2)
              } else Some (Rejected, s, n2)
            })
     }
   })"

end
