(* ===== verification/SSU_Server.thy ===== *)
theory SSU_Server
  imports SSU_Session
begin

text \<open>
  The SSU server, \<open>src/core/transport/SSU.cpp\<close> and \<open>SSU.h\<close>, and the operations of a session that reach other sessions
  through it. Sessions are shared objects: they lie in a list and are named by their number; the map of the server leads
  from endpoints to numbers. An operation of a session may be an operation on another one, or on itself.
\<close>

section \<open>State\<close>

record 'g SSUServer =
  sObjects :: "SSUSession list"
  m_Sessions :: "(endpoint, nat) smap"
  m_Introducers :: "endpoint list"
  sNet :: "'g ssunet"

abbreviation SSU_PEER_TEST_TIMEOUT :: u64 where "SSU_PEER_TEST_TIMEOUT \<equiv> 60"
abbreviation SSU_TO_INTRODUCER_SESSION_DURATION :: u32 where "SSU_TO_INTRODUCER_SESSION_DURATION \<equiv> 3600"
abbreviation SSU_MAX_NUM_INTRODUCERS :: nat where "SSU_MAX_NUM_INTRODUCERS \<equiv> 3"

text \<open>A packet: a buffer of 1500 bytes and up to 15 bytes that its alignment leaves.\<close>

record SSUPacket =
  pkBuf :: bytes
  pkFrom :: endpoint
  pkLen :: nat

text \<open>An operation on one session, and one that only the rest sees.\<close>

definition on_session :: "nat \<Rightarrow> (SSUSession \<times> 'g ssunet \<Rightarrow> (SSUSession \<times> 'g ssunet) option) \<Rightarrow> 'g SSUServer \<Rightarrow> 'g SSUServer option" where
  "on_session i f v =
     (if i < length (sObjects v) then
        map_option (\<lambda>(s, n). v\<lparr>sObjects := (sObjects v)[i := s], sNet := n\<rparr>) (f (sObjects v ! i, sNet v))
      else None)"

definition change_session :: "nat \<Rightarrow> (SSUSession \<Rightarrow> SSUSession) \<Rightarrow> 'g SSUServer \<Rightarrow> 'g SSUServer" where
  "change_session i f v = v\<lparr>sObjects := (sObjects v)[i := f (sObjects v ! i)]\<rparr>"

definition on_net :: "('g ssunet \<Rightarrow> 'g ssunet) \<Rightarrow> 'g SSUServer \<Rightarrow> 'g SSUServer" where
  "on_net f v = v\<lparr>sNet := f (sNet v)\<rparr>"

definition ask :: "('g \<Rightarrow> 'a \<times> 'g) \<Rightarrow> 'g SSUServer \<Rightarrow> 'a \<times> 'g SSUServer" where
  "ask q v = (let (a, n) = task q (sNet v) in (a, v\<lparr>sNet := n\<rparr>))"

text \<open>\<open>std::make_shared<SSUSession>\<close>: the number of the new object.\<close>

definition make_session :: "'g ssuenv \<Rightarrow> endpoint \<Rightarrow> ssu_router option \<Rightarrow> bool \<Rightarrow> 'g SSUServer \<Rightarrow> (nat \<times> 'g SSUServer) option" where
  "make_session E e router peerTest v = do {
     (s, n) \<leftarrow> newSSUSession E e router peerTest (sNet v);
     Some (length (sObjects v), v\<lparr>sObjects := sObjects v @ [s], sNet := n\<rparr>)
   }"

section \<open>Finding and deleting sessions\<close>

definition FindSession :: "endpoint \<Rightarrow> 'g SSUServer \<Rightarrow> nat option" where
  "FindSession e v = map_find e (m_Sessions v)"

definition FindSession_router :: "'g ssuenv \<Rightarrow> ssu_router option \<Rightarrow> 'g SSUServer \<Rightarrow> nat option" where
  "FindSession_router E router v = do {
     r \<leftarrow> router;
     a \<leftarrow> rtAddressV4 r;
     case FindSession (UdpEndpoint (aHost a) (aPort a)) v of
       Some i \<Rightarrow> Some i
     | None \<Rightarrow>
         if \<not> supportsV6 E then None
         else do {
           a6 \<leftarrow> rtAddressV6 r;
           FindSession (UdpEndpoint (aHost a6) (aPort a6)) v
         }
   }"

definition FindRelaySession :: "u32 \<Rightarrow> 'g SSUServer \<Rightarrow> nat option" where
  "FindRelaySession tag v = do { e \<leftarrow> map_find tag (m_Relays (sNet v)); FindSession e v }"

definition Server_DeleteSession :: "'g ssuenv \<Rightarrow> nat \<Rightarrow> 'g SSUServer \<Rightarrow> 'g SSUServer option" where
  "Server_DeleteSession E i v = do {
     v1 \<leftarrow> on_session i (Session_Close E) v;
     Some (v1\<lparr>m_Sessions := map_erase (m_RemoteEndpoint (sObjects v1 ! i)) (m_Sessions v1)\<rparr>)
   }"

fun close_all :: "'g ssuenv \<Rightarrow> nat list \<Rightarrow> 'g SSUServer \<Rightarrow> 'g SSUServer option" where
  "close_all E [] v = Some v"
| "close_all E (i # is) v = do { v1 \<leftarrow> on_session i (Session_Close E) v; close_all E is v1 }"

definition DeleteAllSessions :: "'g ssuenv \<Rightarrow> 'g SSUServer \<Rightarrow> 'g SSUServer option" where
  "DeleteAllSessions E v = map_option (\<lambda>v1. v1\<lparr>m_Sessions := []\<rparr>) (close_all E (map snd (m_Sessions v)) v)"

text \<open>\<open>Failed\<close>, which timers and \<open>Done\<close> end in.\<close>

definition Session_Failed :: "'g ssuenv \<Rightarrow> nat \<Rightarrow> 'g SSUServer \<Rightarrow> 'g SSUServer option" where
  "Session_Failed E i v =
     (if ssuState (sObjects v ! i) \<noteq> eSessionStateFailed
      then Server_DeleteSession E i (change_session i (\<lambda>s. s\<lparr>ssuState := eSessionStateFailed\<rparr>) v) else Some v)"

text \<open>The timer of a session expires: both handlers fail the session.\<close>

definition HandleSessionTimer :: "'g ssuenv \<Rightarrow> nat \<Rightarrow> 'g SSUServer \<Rightarrow> 'g SSUServer option" where
  "HandleSessionTimer E i v =
     (case ssuTimer (sObjects v ! i) of
        None \<Rightarrow> Some v
      | Some t \<Rightarrow> Session_Failed E i (change_session i (\<lambda>s. s\<lparr>ssuTimer := None\<rparr>) v))"

definition GetRandomSession :: "'g ssuenv \<Rightarrow> (nat \<Rightarrow> bool) \<Rightarrow> 'g SSUServer \<Rightarrow> nat option \<times> 'g SSUServer" where
  "GetRandomSession E P v =
     (let filteredSessions = filter P (map snd (m_Sessions v))
      in if length filteredSessions > 0 then
           let (ind, v1) = ask (genWord32 (tgen E) (length filteredSessions - 1)) v in (Some (filteredSessions ! ind), v1)
         else (None, v))"

definition GetRandomEstablishedSession :: "'g ssuenv \<Rightarrow> nat \<Rightarrow> 'g SSUServer \<Rightarrow> nat option \<times> 'g SSUServer" where
  "GetRandomEstablishedSession E excluded v =
     GetRandomSession E (\<lambda>i. ssuState (sObjects v ! i) = eSessionStateEstablished \<and> \<not> IsV6 (sObjects v ! i) \<and> i \<noteq> excluded) v"

section \<open>Messages that reach other sessions\<close>

definition ProcessRelayRequest :: "'g ssuenv \<Rightarrow> nat \<Rightarrow> bytes \<Rightarrow> endpoint \<Rightarrow> nat \<Rightarrow> 'g SSUServer \<Rightarrow> 'g SSUServer option" where
  "ProcessRelayRequest E pos buf alice i v = do {
     relayTag \<leftarrow> bufbe32toh pos buf;
     case FindRelaySession relayTag v of
       None \<Rightarrow> Some v
     | Some j \<Rightarrow> do {
         size' \<leftarrow> mem_get (pos + 4) buf;
         let p = pos + 7 + unat size';
         challengeSize \<leftarrow> mem_get p buf;
         let k = p + 1 + unat challengeSize;
         introKey \<leftarrow> mem_read k 32 buf;
         nonce \<leftarrow> bufbe32toh (k + 32) buf;
         v1 \<leftarrow> on_session i (SendRelayResponse E nonce alice introKey (m_RemoteEndpoint (sObjects v ! j))) v;
         n \<leftarrow> SendRelayIntro E (sObjects v1 ! j) alice (sNet v1);
         Some (v1\<lparr>sNet := n\<rparr>)
       }
   }"

text \<open>
  Peer tests. The result says whether an exception was thrown: \<open>to_v4\<close> throws for other addresses. \<open>pos\<close> is the
  payload, \<open>len\<close> its length.
\<close>

definition send_test :: "'g ssuenv \<Rightarrow> nat \<Rightarrow> u32 \<Rightarrow> endpoint \<Rightarrow> nat \<Rightarrow> bytes \<Rightarrow> bool \<Rightarrow> bool \<Rightarrow> 'g SSUServer \<Rightarrow>
    (bool \<times> 'g SSUServer) option" where
  "send_test E i nonce sender key buf toAddress sendAddress v =
     (if \<not> is_v4 (epIP sender) then Some (True, v)
      else do {
        introKey \<leftarrow> mem_read key 32 buf;
        v1 \<leftarrow> on_session i (SendPeerTest_args E nonce (of_be (epIP sender)) (epPort sender) introKey toAddress sendAddress) v;
        Some (False, v1)
      })"

definition ProcessPeerTest :: "'g ssuenv \<Rightarrow> nat \<Rightarrow> nat \<Rightarrow> bytes \<Rightarrow> endpoint \<Rightarrow> nat \<Rightarrow> 'g SSUServer \<Rightarrow> (bool \<times> 'g SSUServer) option" where
  "ProcessPeerTest E pos len buf sender i v = do {
     nonce \<leftarrow> bufbe32toh pos buf;
     size' \<leftarrow> mem_get (pos + 4) buf;
     address \<leftarrow> (if size' = 4 then bufbe32toh (pos + 5) buf else Some 0);
     port \<leftarrow> bufbe16toh (pos + unat size' + 5) buf;
     let key = pos + unat size' + 7;
     let established = (ssuState (sObjects v ! i) = eSessionStateEstablished);
     if port \<noteq> 0 \<and> address = 0 then Some (False, v)
     else
       (case GetPeerTestParticipant nonce (sNet v) of
          ePeerTestParticipantAlice1 \<Rightarrow>
            if established then
              Some (False, on_net (\<lambda>n. if ssuStatus n = eRouterStatusTesting then n\<lparr>ssuStatus := eRouterStatusFirewalled\<rparr> else n) v)
            else send_test E i nonce sender key buf True False
              (on_net (\<lambda>n. UpdatePeerTest nonce ePeerTestParticipantAlice2 (n\<lparr>ssuStatus := eRouterStatusOK\<rparr>)) v)
        | ePeerTestParticipantAlice2 \<Rightarrow>
            if established then Some (False, v)
            else Some (False, on_net (\<lambda>n. RemovePeerTest nonce (n\<lparr>ssuStatus := eRouterStatusOK\<rparr>)) v)
        | ePeerTestParticipantBob \<Rightarrow> do {
            v1 \<leftarrow> (case GetPeerTestSession nonce (sNet v) of
                Some j \<Rightarrow>
                  if ssuState (sObjects v ! j) = eSessionStateEstablished then do {
                    payload \<leftarrow> mem_read pos len buf;
                    on_session j (Session_Send_type E PAYLOAD_TYPE_PEER_TEST payload) v
                  } else Some v
              | None \<Rightarrow> Some v);
            Some (False, on_net (RemovePeerTest nonce) v1)
          }
        | ePeerTestParticipantCharlie \<Rightarrow> do {
            (thrown, v1) \<leftarrow> send_test E i nonce sender key buf True True v;
            Some (thrown, if thrown then v1 else on_net (RemovePeerTest nonce) v1)
          }
        | ePeerTestParticipantUnknown \<Rightarrow>
            if \<not> established then Some (False, v)
            else if port \<noteq> 0 then do {
              let v1 = on_net (NewPeerTest E nonce ePeerTestParticipantCharlie None) v;
              payload \<leftarrow> mem_read pos len buf;
              v2 \<leftarrow> on_session i (Session_Send_type E PAYLOAD_TYPE_PEER_TEST payload) v1;
              introKey \<leftarrow> mem_read key 32 buf;
              v3 \<leftarrow> on_session i (SendPeerTest_args E nonce address port introKey True True) v2;
              Some (False, v3)
            }
            else
              (case GetRandomEstablishedSession E i v of
                 (None, v1) \<Rightarrow> Some (False, v1)
               | (Some j, v1) \<Rightarrow> send_test E j nonce sender key buf False True
                   (on_net (NewPeerTest E nonce ePeerTestParticipantBob (Some i)) v1)))
   }"

section \<open>Packets\<close>

definition ProcessMessage :: "'g ssuenv \<Rightarrow> bytes \<Rightarrow> nat \<Rightarrow> endpoint \<Rightarrow> nat \<Rightarrow> 'g SSUServer \<Rightarrow> (bool \<times> 'g SSUServer) option" where
  "ProcessMessage E buf len0 sender i v =
     (let len = len0 - len0 mod 16; done = map_option (Pair False) in
      if len \<le> SSUHeader_size then Some (False, v)
      else do {
        flag \<leftarrow> mem_get 32 buf;
        let t = drop_bit 4 flag;
        if t = PAYLOAD_TYPE_DATA then done (on_session i (ProcessData E SSUHeader_size buf) v)
        else if t = PAYLOAD_TYPE_SESSION_REQUEST then done (on_session i (ProcessSessionRequest E buf sender) v)
        else if t = PAYLOAD_TYPE_SESSION_CREATED then done (on_session i (ProcessSessionCreated E buf) v)
        else if t = PAYLOAD_TYPE_SESSION_CONFIRMED then done (on_session i (ProcessSessionConfirmed E buf) v)
        else if t = PAYLOAD_TYPE_PEER_TEST then ProcessPeerTest E SSUHeader_size (len - SSUHeader_size) buf sender i v
        else if t = PAYLOAD_TYPE_SESSION_DESTROYED then done (Server_DeleteSession E i v)
        else if t = PAYLOAD_TYPE_RELAY_RESPONSE then do {
          n \<leftarrow> ProcessRelayResponse buf (sNet v);
          let v1 = v\<lparr>sNet := n\<rparr>;
          done (if ssuState (sObjects v1 ! i) \<noteq> eSessionStateEstablished then Server_DeleteSession E i v1 else Some v1)
        }
        else if t = PAYLOAD_TYPE_RELAY_REQUEST then done (ProcessRelayRequest E SSUHeader_size buf sender i v)
        else if t = PAYLOAD_TYPE_RELAY_INTRO then
          done (map_option (\<lambda>n. v\<lparr>sNet := n\<rparr>) (ProcessRelayIntro SSUHeader_size buf (sNet v)))
        else Some (False, v)
      })"

definition ProcessNextMessage :: "'g ssuenv \<Rightarrow> bytes \<Rightarrow> nat \<Rightarrow> endpoint \<Rightarrow> nat \<Rightarrow> 'g SSUServer \<Rightarrow> (bool \<times> 'g SSUServer) option" where
  "ProcessNextMessage E buf len sender i v0 =
     (let v = change_session i (\<lambda>s. s\<lparr>ssuNumReceived := ssuNumReceived s + len\<rparr>) v0; s = sObjects v ! i in
      if ssuState s = eSessionStateIntroduced then
        map_option (Pair False) (on_session i (Connect E) (change_session i (\<lambda>s. s\<lparr>ssuState := eSessionStateUnknown\<rparr>) v))
      else if len = 0 then Some (False, v)
      else if i < length (sObjects v) then do {
        let v1 = (if ssuState s = eSessionStateEstablished then change_session i ScheduleTermination v else v);
        (r, s1, n) \<leftarrow> open_packet E buf len (sObjects v1 ! i, sNet v1);
        let v2 = v1\<lparr>sObjects := (sObjects v1)[i := s1], sNet := n\<rparr>;
        (case r of
           Opened b \<Rightarrow> ProcessMessage E b len sender i v2
         | Unsupported \<Rightarrow> Some (False, v2)
         | Rejected \<Rightarrow> map_option (Pair False) (Server_DeleteSession E i v2))
      }
      else None)"

text \<open>
  A batch of packets. \<open>session\<close> is the variable of the function: a packet from another endpoint looks its session up,
  and only when none is held then a session is made.
\<close>

definition flush :: "nat option \<Rightarrow> 'g SSUServer \<Rightarrow> 'g SSUServer option" where
  "flush session v = (case session of Some i \<Rightarrow> on_session i (Some \<circ> FlushData) v | None \<Rightarrow> Some v)"

definition select_session :: "'g ssuenv \<Rightarrow> nat option \<Rightarrow> endpoint \<Rightarrow> 'g SSUServer \<Rightarrow> (nat \<times> 'g SSUServer) option" where
  "select_session E session sender v =
     (case session of
        Some i \<Rightarrow>
          if m_RemoteEndpoint (sObjects v ! i) \<noteq> sender then do {
            v1 \<leftarrow> flush session v;
            Some (case map_find sender (m_Sessions v1) of Some j \<Rightarrow> (j, v1) | None \<Rightarrow> (i, v1))
          } else Some (i, v)
      | None \<Rightarrow>
          (case map_find sender (m_Sessions v) of
             Some j \<Rightarrow> Some (j, v)
           | None \<Rightarrow> do {
               (i, v1) \<leftarrow> make_session E sender None False v;
               let v2 = change_session i WaitForConnect v1;
               Some (i, v2\<lparr>m_Sessions := map_put sender i (m_Sessions v2)\<rparr>)
             }))"

fun handle_packets :: "'g ssuenv \<Rightarrow> nat option \<Rightarrow> SSUPacket list \<Rightarrow> 'g SSUServer \<Rightarrow> 'g SSUServer option" where
  "handle_packets E session [] v = flush session v"
| "handle_packets E session (p # ps) v = do {
     (i, v1) \<leftarrow> select_session E session (pkFrom p) v;
     (thrown, v2) \<leftarrow> ProcessNextMessage E (pkBuf p) (pkLen p) (pkFrom p) i v1;
     if thrown then do {
       v3 \<leftarrow> flush (Some i) v2;
       handle_packets E None ps v3
     } else handle_packets E (Some i) ps v2
   }"

definition HandleReceivedPackets :: "'g ssuenv \<Rightarrow> SSUPacket list \<Rightarrow> 'g SSUServer \<Rightarrow> 'g SSUServer option" where
  "HandleReceivedPackets E packets v = handle_packets E None packets v"

section \<open>Making sessions\<close>

text \<open>The first introducer with a session, or the first one.\<close>

fun find_introducer :: "ssu_introducer list \<Rightarrow> (endpoint, nat) smap \<Rightarrow> (nat \<times> ssu_introducer) option" where
  "find_introducer [] m = None"
| "find_introducer (r # rs) m =
     (case map_find (UdpEndpoint (iHost r) (iPort r)) m of Some i \<Rightarrow> Some (i, r) | None \<Rightarrow> find_introducer rs m)"

definition GetSession :: "'g ssuenv \<Rightarrow> ssu_router option \<Rightarrow> bool \<Rightarrow> 'g SSUServer \<Rightarrow> (nat option \<times> 'g SSUServer) option" where
  "GetSession E router peerTest v =
     (case router of
        None \<Rightarrow> Some (None, v)
      | Some r \<Rightarrow>
          (case (if supportsV6 E then rtAddress r else rtAddressV4 r) of
             None \<Rightarrow> Some (None, v)
           | Some a \<Rightarrow>
               let remoteEndpoint = UdpEndpoint (aHost a) (aPort a)
               in case map_find remoteEndpoint (m_Sessions v) of
                    Some i \<Rightarrow> Some (Some i, v)
                  | None \<Rightarrow> do {
                      (i, v1) \<leftarrow> make_session E remoteEndpoint router peerTest v;
                      let v2 = v1\<lparr>m_Sessions := map_put remoteEndpoint i (m_Sessions v1)\<rparr>;
                      if \<not> rtUsesIntroducer r then map_option (Pair (Some i)) (on_session i (Connect E) v2)
                      else if introducers a = [] then
                        Some (None, v2\<lparr>m_Sessions := map_erase remoteEndpoint (m_Sessions v2)\<rparr>)
                      else do {
                        (j, introducer, v3) \<leftarrow> (case find_introducer (introducers a) (m_Sessions v2) of
                            Some (j, introducer) \<Rightarrow> Some (j, introducer, v2)
                          | None \<Rightarrow>
                              let introducer = hd (introducers a); e = UdpEndpoint (iHost introducer) (iPort introducer)
                              in map_option (\<lambda>(j, v3). (j, introducer, v3\<lparr>m_Sessions := map_put e j (m_Sessions v3)\<rparr>))
                                   (make_session E e router False v2));
                        let v4 = change_session i WaitForIntroduction v3;
                        let (unreachable, v5) = ask (contextUsesIntroducer E) v4;
                        let v6 = (if unreachable then on_net (emit (SentTo [] remoteEndpoint)) v5 else v5);
                        map_option (Pair (Some i)) (on_session j (Introduce E (iTag introducer) (iKey introducer)) v6)
                      }
                    }))"

section \<open>Introducers\<close>

text \<open>The loop ends with the first session found.\<close>

fun find_introducers :: "'g ssuenv \<Rightarrow> u32 \<Rightarrow> nat \<Rightarrow> nat list \<Rightarrow> 'g SSUServer \<Rightarrow> nat list \<times> 'g SSUServer" where
  "find_introducers E ts 0 ret v = (ret, v)"
| "find_introducers E ts (Suc k) ret v =
     (case GetRandomSession E (\<lambda>i. let s = sObjects v ! i in m_RelayTag s \<noteq> 0 \<and> i \<notin> set ret \<and>
          ssuState s = eSessionStateEstablished \<and> ts < m_CreationTime s + SSU_TO_INTRODUCER_SESSION_DURATION) v of
        (Some i, v1) \<Rightarrow> (i # ret, v1)
      | (None, v1) \<Rightarrow> find_introducers E ts k ret v1)"

definition FindIntroducers :: "'g ssuenv \<Rightarrow> nat \<Rightarrow> 'g SSUServer \<Rightarrow> nat list \<times> 'g SSUServer" where
  "FindIntroducers E maxNumIntroducers v =
     (let (ts, v1) = ask (tseconds E) v in find_introducers E (ucast ts) maxNumIntroducers [] v1)"

fun keep_introducers :: "'g ssuenv \<Rightarrow> u32 \<Rightarrow> endpoint list \<Rightarrow> 'g SSUServer \<Rightarrow> (endpoint list \<times> 'g SSUServer) option" where
  "keep_introducers E ts [] v = Some ([], v)"
| "keep_introducers E ts (e # es) v =
     (case FindSession e v of
        Some i \<Rightarrow>
          if ts < m_CreationTime (sObjects v ! i) + SSU_TO_INTRODUCER_SESSION_DURATION then do {
            v1 \<leftarrow> on_session i (SendKeepAlive E) v;
            (kept, v2) \<leftarrow> keep_introducers E ts es v1;
            Some (e # kept, v2)
          } else keep_introducers E ts es (on_net (emit (RemoveIntroducer e)) v)
      | None \<Rightarrow> keep_introducers E ts es (on_net (emit (RemoveIntroducer e)) v))"

fun add_introducers :: "'g ssuenv \<Rightarrow> nat list \<Rightarrow> endpoint list \<Rightarrow> 'g SSUServer \<Rightarrow> endpoint list \<times> 'g SSUServer" where
  "add_introducers E [] newList v = (newList, v)"
| "add_introducers E (i # is) newList v =
     (let s = sObjects v ! i in
      case m_RemoteRouter s of
        None \<Rightarrow> add_introducers E is newList v
      | Some r \<Rightarrow>
          (case ask (contextAddIntroducer E r (m_RelayTag s)) v of
             (False, v1) \<Rightarrow> add_introducers E is newList v1
           | (True, v1) \<Rightarrow>
               let newList1 = newList @ [m_RemoteEndpoint s]
               in if length newList1 \<ge> SSU_MAX_NUM_INTRODUCERS then (newList1, v1) else add_introducers E is newList1 v1))"

definition HandleIntroducersUpdateTimer :: "'g ssuenv \<Rightarrow> 'g SSUServer \<Rightarrow> 'g SSUServer option" where
  "HandleIntroducersUpdateTimer E v =
     (if ssuStatus (sNet v) = eRouterStatusTesting \<or> ssuStatus (sNet v) = eRouterStatusOK then Some v
      else do {
        let (unreachable, v1) = ask (contextUnreachable E) v;
        let v2 = (if unreachable then v1 else on_net (emit SetUnreachable) v1);
        let (ts, v3) = ask (tseconds E) v2;
        (newList, v4) \<leftarrow> keep_introducers E (ucast ts) (m_Introducers v3) v3;
        let (newList1, v5) = (if length newList < SSU_MAX_NUM_INTRODUCERS then
            let (found, v5) = FindIntroducers E SSU_MAX_NUM_INTRODUCERS v4 in add_introducers E found newList v5
          else (newList, v4));
        let v6 = v5\<lparr>m_Introducers := newList1\<rparr>;
        if newList1 = [] then
          (case ask (netdbRandomIntroducer E) v6 of
             (None, v7) \<Rightarrow> Some v7
           | (Some r, v7) \<Rightarrow> map_option snd (GetSession E (Some r) False v7))
        else Some v6
      })"

section \<open>Peer tests that have expired\<close>

definition HandlePeerTestsCleanupTimer :: "'g ssuenv \<Rightarrow> 'g ssunet \<Rightarrow> 'g ssunet" where
  "HandlePeerTestsCleanupTimer E n =
     (let (ts, n1) = task (clock (tgen E)) n
      in n1\<lparr>m_PeerTests := filter (\<lambda>(nonce, t). \<not> ts > ptCreationTime t + SSU_PEER_TEST_TIMEOUT * 1000) (m_PeerTests n1)\<rparr>)"

end
