(* ===== verification/SSU_Link.thy ===== *)
theory SSU_Link
  imports SSU_Send SSU_Server
begin

text \<open>
From one router to another over SSU: packets that carry fragments are opened by a session with the same keys, a batch of them refines the abstract receiver, and that receiver hands on every message once.
\<close>


section \<open>One packet\<close>

text \<open>A session that is established with keys of encryption and authentication, and collects fragments of \<open>cs\<close>.\<close>

definition rx_session :: "bytes \<Rightarrow> bytes \<Rightarrow> (u32 \<Rightarrow> bytes list) \<Rightarrow> SSUSession \<Rightarrow> bool" where
  "rx_session key macKey cs s \<longleftrightarrow> rx_inv cs s \<and> m_IsSessionKey s \<and> dKey (m_SessionKeyDecryption s) = key \<and> m_MacKey s = macKey \<and>
     (m_IsDataReceived s \<or> m_TunnelMsgs (m_Data s) = [] \<and> m_TunnelGatewayMsgs (m_Data s) = [])"

definition listens :: "bytes \<Rightarrow> bytes \<Rightarrow> (u32 \<Rightarrow> bytes list) \<Rightarrow> endpoint \<Rightarrow> nat \<Rightarrow> 'g SSUServer \<Rightarrow> bool" where
  "listens key macKey cs e i v \<longleftrightarrow> i < length (sObjects v) \<and> rx_session key macKey cs (sObjects v ! i) \<and>
     m_RemoteEndpoint (sObjects v ! i) = e"

definition abs_srv :: "nat \<Rightarrow> 'g SSUServer \<Rightarrow> spec_rx" where
  "abs_srv i v = abs_rx (sObjects v ! i, sNet v)"

definition same_crypto :: "'g ssuenv \<Rightarrow> 'h ssuenv \<Rightarrow> bool" where
  "same_crypto E F \<longleftrightarrow> md5 F = md5 E \<and> taes F = taes E"

text \<open>A packet in the buffer it was received into.\<close>

definition in_buffer :: "bytes \<Rightarrow> SSUPacket \<Rightarrow> bool" where
  "in_buffer P p \<longleftrightarrow> pkLen p = length P \<and> take (length P) (pkBuf p) = P \<and> length P + 18 \<le> length (pkBuf p)"

lemma abs_rx_other [simp]:
  "abs_rx (s\<lparr>ssuNumReceived := a\<rparr>, n) = abs_rx (s, n)" "abs_rx (s\<lparr>ssuTimer := b\<rparr>, n) = abs_rx (s, n)"
  "abs_rx (s\<lparr>m_SessionKeyDecryption := d\<rparr>, n) = abs_rx (s, n)" "abs_rx (s\<lparr>m_IsDataReceived := c\<rparr>, n) = abs_rx (s, n)"
  by (simp_all add: abs_rx_def handed_def)

lemma rx_inv_other [simp]:
  "rx_inv cs (s\<lparr>ssuNumReceived := a\<rparr>) = rx_inv cs s" "rx_inv cs (s\<lparr>ssuTimer := b\<rparr>) = rx_inv cs s"
  "rx_inv cs (s\<lparr>m_SessionKeyDecryption := d\<rparr>) = rx_inv cs s" "rx_inv cs (s\<lparr>m_IsDataReceived := c\<rparr>) = rx_inv cs s"
  by (simp_all add: rx_inv_def)

lemma same_keys_other [simp]:
  "same_keys s (s'\<lparr>m_IsDataReceived := c\<rparr>) = same_keys s s'"
  by (simp add: same_keys_def)

lemma open_fragment:
  assumes E: "ssuenv_ok E" and c: "same_crypto E F"
    and P: "P = sealed_packet E iv key macKey plain" "length iv = 16" "16 dvd length plain" "5 \<le> length plain" "length plain \<le> 1966"
    and b: "in_buffer P p" and s: "m_IsSessionKey s" "dKey (m_SessionKeyDecryption s) = key" "m_MacKey s = macKey"
  shows "\<exists>dec rest. open_packet F (pkBuf p) (pkLen p) (s, n) =
      Some (Opened (take 32 P @ plain @ rest), s\<lparr>m_SessionKeyDecryption := dec\<rparr>, n) \<and> dKey dec = key \<and> length P = 32 + length plain"
proof -
  let ?rest = "drop (length P) (pkBuf p)"
  have lP: "length P = 32 + length plain" using P E by (simp add: length_sealed_packet)
  have buf: "pkBuf p = P @ ?rest" "18 \<le> length ?rest"
    using b append_take_drop_id [of "length P" "pkBuf p"] by (auto simp: in_buffer_def)
  have md: "md5 F = md5 E" "taes F = taes E" using c by (simp_all add: same_crypto_def)
  have V: "Validate F (P @ ?rest) (32 + length plain) (m_MacKey s) =
      Some (True, P @ iv @ be_bytes 2 (of_nat (length plain) :: u16) @ drop 18 ?rest)"
    unfolding s(3) P(1) using Validate_sealed [OF E md(1) P(2,4,5) buf(2) [unfolded P(1)]] .
  obtain dec where D: "DecryptSessionKey F (P @ iv @ be_bytes 2 (of_nat (length plain) :: u16) @ drop 18 ?rest) (32 + length plain) s =
      Some (take 32 P @ plain @ iv @ be_bytes 2 (of_nat (length plain) :: u16) @ drop 18 ?rest, s\<lparr>m_SessionKeyDecryption := dec\<rparr>)" "dKey dec = key"
    unfolding P(1) using DecryptSessionKey_sealed [OF E md(2) P(2,4,5) s(2)] by blast
  have l: "pkLen p = 32 + length plain" using b lP by (simp add: in_buffer_def)
  have "open_packet F (pkBuf p) (pkLen p) (s, n) =
      Some (Opened (take 32 P @ plain @ iv @ be_bytes 2 (of_nat (length plain) :: u16) @ drop 18 ?rest), s\<lparr>m_SessionKeyDecryption := dec\<rparr>, n)"
    unfolding open_packet_def prod.case l using s(1)
    by (subst buf(1)) (simp only: if_True V bind.bind_lunit prod.case D(1))
  then show ?thesis using D(2) lP by blast
qed

lemma ProcessMessage_data:
  assumes "drop_bit 4 flag = PAYLOAD_TYPE_DATA" and "mem_get 32 b = Some flag" and "37 < len" "len mod 16 = 0"
  shows "ProcessMessage F b len e i v = map_option (Pair False) (on_session i (ProcessData F SSUHeader_size b) v)"
  using assms by (simp add: ProcessMessage_def Let_def)

lemma ProcessNextMessage_opened:
  assumes "i < length (sObjects v)" and "ssuState (sObjects v ! i) = eSessionStateEstablished" and "len \<noteq> 0"
    and "open_packet E buf len ((sObjects v ! i)\<lparr>ssuNumReceived := ssuNumReceived (sObjects v ! i) + len,
      ssuTimer := Some TerminationTimer\<rparr>, sNet v) = Some (Opened b, s, n)"
  shows "ProcessNextMessage E buf len sender i v = ProcessMessage E b len sender i (v\<lparr>sObjects := (sObjects v)[i := s], sNet := n\<rparr>)"
  using assms by (simp add: ProcessNextMessage_def Let_def change_session_def ScheduleTermination_def)

lemma receive_packet_ok:
  assumes E: "ssuenv_ok E" "ssuenv_ok F" and c: "same_crypto E F" and f: "fits (cs msgID)" and k: "k < length (cs msgID)"
    and P: "carries_fragment E key macKey msgID k (Suc k = length (cs msgID)) (cs msgID ! k) P" and b: "in_buffer P p"
    and l: "listens key macKey cs e i v"
  shows "\<exists>v1. ProcessNextMessage F (pkBuf p) (pkLen p) e' i v = Some (False, v1) \<and> listens key macKey cs e i v1 \<and>
    abs_srv i v1 = spec_fragment cs (msgID, k) (abs_srv i v)"
proof -
  let ?c = "cs msgID ! k" and ?last = "Suc k = length (cs msgID)"
  obtain iv ts pad where P': "length iv = 16" "16 dvd 14 + length ?c + length pad" "14 + length ?c + length pad \<le> 1966"
      "P = sealed_packet E iv key macKey (push_bit 4 PAYLOAD_TYPE_DATA # be_bytes 4 (ts :: u32) @ fragment_payload msgID k ?last ?c @ pad)"
    using P by (auto simp: carries_fragment_def)
  define plain where "plain = push_bit 4 PAYLOAD_TYPE_DATA # be_bytes 4 ts @ fragment_payload msgID k ?last ?c @ pad"
  have lp: "length plain = 14 + length ?c + length pad" by (simp add: plain_def)
  let ?s = "sObjects v ! i"
  have i: "i < length (sObjects v)" and est: "ssuState ?s = eSessionStateEstablished" and inv: "rx_inv cs ?s"
    and ks: "m_IsSessionKey ?s" "dKey (m_SessionKeyDecryption ?s) = key" "m_MacKey ?s = macKey" "m_RemoteEndpoint ?s = e"
    using l by (auto simp: listens_def rx_session_def rx_inv_def)
  let ?s1 = "?s\<lparr>ssuNumReceived := ssuNumReceived ?s + pkLen p, ssuTimer := Some TerminationTimer\<rparr>"
  have pl: "16 dvd length plain" "5 \<le> length plain" "length plain \<le> 1966" unfolding lp using P'(2,3) by simp_all
  obtain dec rest where O: "open_packet F (pkBuf p) (pkLen p) (?s1, sNet v) =
      Some (Opened (take 32 P @ plain @ rest), ?s1\<lparr>m_SessionKeyDecryption := dec\<rparr>, sNet v)" "dKey dec = key" "length P = 32 + length plain"
    using open_fragment [OF E(1) c P'(4) [folded plain_def] P'(1) pl b, of ?s1 "sNet v"] ks by auto
  let ?B = "take 32 P @ plain @ rest" and ?s2 = "?s1\<lparr>m_SessionKeyDecryption := dec\<rparr>"
  let ?v2 = "v\<lparr>sObjects := (sObjects v)[i := ?s2], sNet := sNet v\<rparr>"
  have v2: "sObjects ?v2 ! i = ?s2" "sNet ?v2 = sNet v" "i < length (sObjects ?v2)" using i by simp_all
  have len: "37 < pkLen p" "pkLen p mod 16 = 0" "pkLen p \<noteq> 0"
  proof -
    have pk: "pkLen p = 32 + length plain" using b O(3) by (simp add: in_buffer_def)
    show "37 < pkLen p" "pkLen p \<noteq> 0" unfolding pk lp by simp_all
    show "pkLen p mod 16 = 0" unfolding pk using pl(1) by presburger
  qed
  have flag: "mem_get 32 ?B = Some (push_bit 4 PAYLOAD_TYPE_DATA)"
  proof -
    have t: "length (take 32 P) = 32" using O(3) by simp
    have B: "?B = take 32 P @ push_bit 4 PAYLOAD_TYPE_DATA # (be_bytes 4 ts @ fragment_payload msgID k ?last ?c @ pad) @ rest"
      by (simp only: plain_def append_Cons append_assoc)
    show ?thesis unfolding B mem_get_def using nth_append_length [of "take 32 P"] unfolding t using O(3) by simp
  qed
  have r: "mem_read 37 (9 + length ?c) ?B = Some (fragment_payload msgID k ?last ?c)"
  proof -
    let ?h = "take 32 P @ push_bit 4 PAYLOAD_TYPE_DATA # be_bytes 4 ts"
    have B: "?B = ?h @ fragment_payload msgID k ?last ?c @ pad @ rest"
      by (simp only: plain_def append_Cons append_assoc)
    have h: "37 = length ?h" "9 + length ?c = length (fragment_payload msgID k ?last ?c)" using O(3) by simp_all
    show ?thesis unfolding B by (rule mem_read_append [OF h])
  qed
  have inv2: "rx_inv cs ?s2" using inv by simp
  obtain s3 n3 where R: "SSUData_ProcessMessage F 37 ?B (?s2, sNet v) = Some (s3, n3)" "rx_inv cs s3" "same_keys ?s2 s3"
      "abs_rx (s3, n3) = spec_fragment cs (msgID, k) (abs_rx (?s2, sNet v))"
    using receive_fragment_ok [OF E(2) f k inv2 r, of "sNet v"] by auto
  let ?v3 = "?v2\<lparr>sObjects := (sObjects ?v2)[i := s3\<lparr>m_IsDataReceived := True\<rparr>], sNet := n3\<rparr>"
  have os: "on_session i (ProcessData F SSUHeader_size ?B) ?v2 = Some ?v3"
    unfolding on_session_def using v2(3) by (simp only: if_True v2(1,2) ProcessData_def R(1) bind.bind_lunit prod.case option.map)
  have dr: "drop_bit 4 (push_bit 4 PAYLOAD_TYPE_DATA :: byte) = PAYLOAD_TYPE_DATA" by simp
  have pm: "ProcessMessage F ?B (pkLen p) e' i ?v2 = Some (False, ?v3)"
    unfolding ProcessMessage_data [OF dr flag len(1,2)] os by simp
  have "ProcessNextMessage F (pkBuf p) (pkLen p) e' i v = Some (False, ?v3)"
    unfolding ProcessNextMessage_opened [OF i est len(3) O(1)] by (rule pm)
  moreover have "listens key macKey cs e i ?v3"
    using i R(2,3) ks O(2) by (simp add: listens_def rx_session_def same_keys_def)
  moreover have "abs_srv i ?v3 = spec_fragment cs (msgID, k) (abs_srv i v)"
    using i R(4) by (simp add: abs_srv_def)
  ultimately show ?thesis by blast
qed


section \<open>Batches of packets\<close>

lemma FlushData_ok:
  assumes "rx_session key macKey cs s" and "FlushData (s, n) = (s1, n1)"
  shows "rx_session key macKey cs s1 \<and> m_RemoteEndpoint s1 = m_RemoteEndpoint s \<and> abs_rx (s1, n1) = abs_rx (s, n) \<and>
    m_TunnelMsgs (m_Data s1) = [] \<and> m_TunnelGatewayMsgs (m_Data s1) = []"
  using assms
  by (auto simp: FlushData_def FlushReceivedMessage_def Let_def rx_session_def rx_inv_def on_data_def abs_rx_def handed_def emit_def
      split: if_splits)

text \<open>A packet of the batch that carries a fragment of one of the messages.\<close>

definition arrives :: "'g ssuenv \<Rightarrow> bytes \<Rightarrow> bytes \<Rightarrow> (u32 \<Rightarrow> bytes list) \<Rightarrow> endpoint \<Rightarrow> SSUPacket \<Rightarrow> u32 \<times> nat \<Rightarrow> bool" where
  "arrives E key macKey cs e p = (\<lambda>(msgID, k). pkFrom p = e \<and> fits (cs msgID) \<and> k < length (cs msgID) \<and>
     (\<exists>P. carries_fragment E key macKey msgID k (Suc k = length (cs msgID)) (cs msgID ! k) P \<and> in_buffer P p))"

lemma handle_fragments_ok:
  assumes E: "ssuenv_ok E" "ssuenv_ok F" "same_crypto E F"
  shows "listens key macKey cs e i v \<Longrightarrow> list_all2 (arrives E key macKey cs e) ps ids \<Longrightarrow>
    \<exists>v1. handle_packets F (Some i) ps v = Some v1 \<and> listens key macKey cs e i v1 \<and>
      m_TunnelMsgs (m_Data (sObjects v1 ! i)) = [] \<and> m_TunnelGatewayMsgs (m_Data (sObjects v1 ! i)) = [] \<and>
      abs_srv i v1 = fold (spec_fragment cs) ids (abs_srv i v)"
proof (induction ps arbitrary: ids v)
  case Nil
  have i: "i < length (sObjects v)" and s: "rx_session key macKey cs (sObjects v ! i)" using Nil.prems(1) by (simp_all add: listens_def)
  obtain s1 n1 where f: "FlushData (sObjects v ! i, sNet v) = (s1, n1)" by (cases "FlushData (sObjects v ! i, sNet v)")
  from FlushData_ok [OF s f] show ?case
    using i f Nil.prems by (simp add: flush_def on_session_def listens_def abs_srv_def)
next
  case (Cons p ps)
  obtain msgID k ids1 where ids: "ids = (msgID, k) # ids1" "arrives E key macKey cs e p (msgID, k)"
      "list_all2 (arrives E key macKey cs e) ps ids1"
    using Cons.prems(2) by (auto simp: list_all2_Cons1)
  obtain P where P: "pkFrom p = e" "fits (cs msgID)" "k < length (cs msgID)"
      "carries_fragment E key macKey msgID k (Suc k = length (cs msgID)) (cs msgID ! k) P" "in_buffer P p"
    using ids(2) by (auto simp: arrives_def)
  have sel: "select_session F (Some i) (pkFrom p) v = Some (i, v)"
    using Cons.prems(1) P(1) by (simp add: select_session_def listens_def)
  obtain v1 where v1: "ProcessNextMessage F (pkBuf p) (pkLen p) (pkFrom p) i v = Some (False, v1)" "listens key macKey cs e i v1"
      "abs_srv i v1 = spec_fragment cs (msgID, k) (abs_srv i v)"
    using receive_packet_ok [OF E P(2-5) Cons.prems(1)] by blast
  from Cons.IH [OF v1(2) ids(3)] show ?case unfolding ids(1) by (auto simp: sel v1(1,3))
qed

lemma batch_fragments_ok:
  assumes E: "ssuenv_ok E" "ssuenv_ok F" "same_crypto E F" and l: "listens key macKey cs e i v" and m: "map_find e (m_Sessions v) = Some i"
    and ps: "list_all2 (arrives E key macKey cs e) ps ids" "ps \<noteq> []"
  shows "\<exists>v1. HandleReceivedPackets F ps v = Some v1 \<and> listens key macKey cs e i v1 \<and>
      m_TunnelMsgs (m_Data (sObjects v1 ! i)) = [] \<and> m_TunnelGatewayMsgs (m_Data (sObjects v1 ! i)) = [] \<and>
      abs_srv i v1 = fold (spec_fragment cs) ids (abs_srv i v)"
proof -
  obtain p qs where p: "ps = p # qs" using ps(2) by (cases ps) simp_all
  have e: "pkFrom p = e" using ps(1) by (auto simp: p list_all2_Cons1 arrives_def)
  have "select_session F None (pkFrom p) v = select_session F (Some i) (pkFrom p) v"
    using l m e by (simp add: select_session_def listens_def)
  then have "HandleReceivedPackets F ps v = handle_packets F (Some i) ps v"
    by (simp add: HandleReceivedPackets_def p)
  then show ?thesis using handle_fragments_ok [OF E l ps(1)] by simp
qed

section \<open>The abstract receiver hands on every message once\<close>

text \<open>The messages all of whose fragments occur in a sequence of fragments.\<close>

definition completed :: "(u32 \<Rightarrow> bytes list) \<Rightarrow> (u32 \<times> nat) list \<Rightarrow> u32 set" where
  "completed cs ids = {m \<in> fst ` set ids. \<forall>k < length (cs m). (m, k) \<in> set ids}"

lemma spec_run:
  assumes "\<forall>(m, k) \<in> set ids. k < length (cs m) \<and> A m = {} \<and> m \<notin> R" and "card (R \<union> fst ` set ids) \<le> 1001"
    and "fold (spec_fragment cs) ids (A, R, D) = (A', R', D')"
  shows "R' = R \<union> completed cs ids \<and> D' = D + image_mset (\<lambda>m. ssu_view m (concat (cs m))) (mset_set (completed cs ids)) \<and>
    (\<forall>m. m \<notin> R' \<longrightarrow> A' m = A m \<union> {k. (m, k) \<in> set ids})"
  using assms
proof (induction ids arbitrary: A' R' D' rule: rev_induct)
  case Nil
  have "completed cs [] = {}" by (simp add: completed_def)
  then show ?case using Nil by simp
next
  case (snoc x ids)
  obtain m k where x: "x = (m, k)" by (cases x)
  obtain A1 R1 D1 where f: "fold (spec_fragment cs) ids (A, R, D) = (A1, R1, D1)" by (cases "fold (spec_fragment cs) ids (A, R, D)")
  have c: "card (R \<union> fst ` set ids) \<le> 1001"
    using snoc.prems(2) by (intro order_trans [OF card_mono snoc.prems(2)]) auto
  have IH: "R1 = R \<union> completed cs ids" "D1 = D + image_mset (\<lambda>m. ssu_view m (concat (cs m))) (mset_set (completed cs ids))"
      "\<And>m. m \<notin> R1 \<Longrightarrow> A1 m = A m \<union> {k. (m, k) \<in> set ids}"
    using snoc.IH [OF _ c f] snoc.prems(1) by auto
  have mk: "k < length (cs m)" "A m = {}" "m \<notin> R" and kk: "\<And>k. (m, k) \<in> set ids \<Longrightarrow> k < length (cs m)" using snoc.prems(1) by (auto simp: x)
  have step: "(A', R', D') = spec_fragment cs (m, k) (A1, R1, D1)" using snoc.prems(3) f by (simp add: x)
  have mono: "completed cs ids \<subseteq> completed cs (ids @ [x])" by (auto simp: completed_def)
  have other: "completed cs (ids @ [x]) - {m} = completed cs ids - {m}" by (auto simp: completed_def x)
  have A3: "\<forall>m'. m' \<notin> R' \<longrightarrow> A' m' = A m' \<union> {k. (m', k) \<in> set (ids @ [x])}"
    if sub: "R1 \<subseteq> R'" and eq: "\<And>m'. m' \<noteq> m \<Longrightarrow> A' m' = A1 m'" and m: "m \<in> R' \<or> A' m = insert k (A1 m)"
  proof (intro allI impI)
    fix m' assume n: "m' \<notin> R'"
    then have "A1 m' = A m' \<union> {k. (m', k) \<in> set ids}" using IH(3) sub by blast
    then show "A' m' = A m' \<union> {k. (m', k) \<in> set (ids @ [x])}"
      using eq [of m'] m n by (cases "m' = m") (auto simp: x)
  qed
  show ?case
  proof (cases "m \<in> R1")
    case True
    then have "m \<in> completed cs ids" using IH(1) mk(3) by simp
    then have "completed cs (ids @ [x]) = completed cs ids" using other mono by blast
    moreover have "R' = R1" "D' = D1" "\<And>m'. m' \<noteq> m \<Longrightarrow> A' m' = A1 m'" using step True by (auto simp: spec_fragment_def Let_def split: if_splits)
    ultimately show ?thesis using IH(1,2) True A3 by simp
  next
    case False
    have B: "insert k (A1 m) = {k'. (m, k') \<in> set (ids @ [x])}" using IH(3) [OF False] mk(2) by (auto simp: x)
    have full: "insert k (A1 m) = {0..<length (cs m)} \<longleftrightarrow> m \<in> completed cs (ids @ [x])"
      unfolding B using mk(1) kk by (auto simp: completed_def x)
    have nc: "m \<notin> completed cs ids" using False IH(1) by simp
    show ?thesis
    proof (cases "m \<in> completed cs (ids @ [x])")
      case comp: True
      have "R1 \<subseteq> (R \<union> fst ` set (ids @ [x])) - {m}"
        using False IH(1) by (auto simp: completed_def)
      then have "card R1 \<le> card ((R \<union> fst ` set (ids @ [x])) - {m})" by (intro card_mono) simp_all
      also have "\<dots> \<le> 1000" using snoc.prems(2) by (subst card_Diff_singleton) (simp_all add: x)
      finally have R': "R' = insert m R1" "D' = add_mset (ssu_view m (concat (cs m))) D1" "A' = A1(m := {})"
        using step False comp full by (auto simp: spec_fragment_def Let_def)
      have ins: "completed cs (ids @ [x]) = insert m (completed cs ids)" using other comp mono by blast
      have "mset_set (insert m (completed cs ids)) = add_mset m (mset_set (completed cs ids))"
        using nc by (intro mset_set.insert) simp_all
      then show ?thesis using R' IH(1,2) ins A3 by auto
    next
      case nocomp: False
      then have "R' = R1" "D' = D1" "A' = A1(m := insert k (A1 m))" using step full by (auto simp: spec_fragment_def Let_def)
      moreover have "completed cs (ids @ [x]) = completed cs ids" using other nocomp nc by blast
      ultimately show ?thesis using IH(1,2) A3 by simp
    qed
  qed
qed


section \<open>Sending a message\<close>

text \<open>A message with all its header fields, wherever it came from.\<close>

definition carries_msg :: "byte \<Rightarrow> u32 \<Rightarrow> u64 \<Rightarrow> bytes \<Rightarrow> I2NPMessage \<Rightarrow> bool" where
  "carries_msg t msgID e payload m \<longleftrightarrow> (\<exists>pre c post. mbuf m = pre @ i2np_header t msgID e (of_nat (length payload)) c @ payload @ post \<and>
     length pre = moffset m) \<and> length payload < 65536"

text \<open>The form of a message on the wire of SSU.\<close>

definition ssu_wire :: "byte \<Rightarrow> u64 \<Rightarrow> bytes \<Rightarrow> bytes" where
  "ssu_wire t e payload = t # be_bytes 4 (ucast (e div 1000) :: u32) @ payload"

lemma ToSSU_wire:
  assumes "carries_msg t msgID e payload m"
  shows "\<exists>m1. ToSSU m = Some (msgID, m1) \<and> GetLength m1 = length (ssu_wire t e payload) \<and>
    mem_read (GetSSUHeader m1) (GetLength m1) (mbuf m1) = Some (ssu_wire t e payload)"
proof -
  let ?sz = "of_nat (length payload) :: u16"
  obtain pre c post where b: "mbuf m = pre @ i2np_header t msgID e ?sz c @ payload @ post" "length pre = moffset m"
    using assms by (auto simp: carries_msg_def)
  have sz: "unat ?sz = length payload" using assms by (simp add: carries_msg_def unat_of_nat)
  let ?H = "i2np_header t msgID e ?sz c"
  have H: "?H = t # be_bytes 4 msgID @ be_bytes 8 e @ be_bytes 2 ?sz @ [c]" by (simp add: i2np_header_def)
  have r: "mem_read (GetHeader m) I2NP_HEADER_SIZE (mbuf m) = Some ?H"
    using mem_read_append [of "moffset m" pre 16 ?H] b by (simp add: i2np_access H)
  obtain h1 h2 where h: "?H = h1 @ h2" "length h1 = 11" "length h2 = 5" by (rule that [of "take 11 ?H" "drop 11 ?H"]) (simp_all add: H)
  obtain x0 x1 where x: "h2 = x0 # x1" "length x1 = 4" using h(3) by (cases h2) simp_all
  let ?e = "be_bytes 4 (ucast (e div 1000) :: u32)"
  let ?b1 = "pre @ h1 @ t # x1 @ payload @ post" and ?b2 = "pre @ h1 @ t # ?e @ payload @ post"
  have g: "GetSSUHeader m = length (pre @ h1)" using h b by (simp add: GetSSUHeader_def)
  have w1: "upd_buf (mem_set (GetSSUHeader m) t) m = Some (m\<lparr>mbuf := ?b1\<rparr>)"
    using mem_set_append [of "GetSSUHeader m" "pre @ h1" t x0 "x1 @ payload @ post"] g by (simp add: upd_buf_def b(1) h(1) x(1))
  have w2: "upd_buf (htobe32buf (GetSSUHeader m + 1) (ucast (e div 1000))) (m\<lparr>mbuf := ?b1\<rparr>) = Some (m\<lparr>mbuf := ?b2\<rparr>)"
    using mem_write_append [of "GetSSUHeader m + 1" "pre @ h1 @ [t]" ?e x1 "payload @ post"] g x(2)
    by (simp add: upd_buf_def htobe32buf_eq)
  have r1: "mem_get 0 ?H = Some t" by (simp add: mem_get_def H)
  have r2: "bufbe64toh 5 ?H = Some e"
    using mem_read_append [of 5 "t # be_bytes 4 msgID" 8 "be_bytes 8 e" "be_bytes 2 ?sz @ [c]"] by (simp add: bufbe64toh_eq H)
  have r3: "bufbe16toh 13 ?H = Some ?sz"
    using mem_read_append [of 13 "t # be_bytes 4 msgID @ be_bytes 8 e" 2 "be_bytes 2 ?sz" "[c]"] by (simp add: bufbe16toh_eq H)
  have r4: "bufbe32toh 1 ?H = Some msgID"
    using mem_read_append [of 1 "[t]" 4 "be_bytes 4 msgID" "be_bytes 8 e @ be_bytes 2 ?sz @ [c]"] by (simp add: bufbe32toh_eq H)
  let ?m = "m\<lparr>mbuf := ?b2, mlen := moffset m + I2NP_SHORT_HEADER_SIZE + length payload\<rparr>"
  have "ToSSU m = Some (msgID, ?m)"
    unfolding ToSSU_def r bind.bind_lunit Let_def using r1 r2 r3 r4 w1 w2 by (simp add: sz)
  moreover have "GetLength ?m = length (ssu_wire t e payload)" by (simp add: GetLength_def ssu_wire_def)
  moreover have "mem_read (GetSSUHeader ?m) (length (ssu_wire t e payload)) (mbuf ?m) = Some (ssu_wire t e payload)"
    using mem_read_append [of "GetSSUHeader m" "pre @ h1" "length (ssu_wire t e payload)" "ssu_wire t e payload" post] g
    by (simp add: ssu_wire_def GetSSUHeader_def)
  ultimately show ?thesis by auto
qed

lemma SSUData_Send_ok:
  assumes E: "ssuenv_ok E" and m: "ToSSU msg = Some (msgID, m)" "mem_read (GetSSUHeader m) (GetLength m) (mbuf m) = Some w"
    and new: "map_find msgID (ssuSent (m_Data s)) = None" and p: "m_PacketSize (m_Data s) = int p + 46" "0 < p" "p \<le> 1410"
  shows "\<exists>s1 n1 ps. SSUData_Send E msg (s, n) = Some (s1, n1) \<and>
    ssuEvents n1 = ssuEvents n @ map (\<lambda>P. SentTo P (m_RemoteEndpoint s)) ps \<and> length ps = length (cut p w) \<and>
    (\<forall>k < length ps. carries_fragment E (eKey (m_SessionKeyEncryption s)) (m_MacKey s) msgID k (Suc k = length (cut p w)) (cut p w ! k) (ps ! k))"
proof -
  let ?n = "n\<lparr>ssuWorld := snd (tseconds E (ssuWorld n))\<rparr>"
  have lw: "GetLength m = length w" using m(2) by (auto simp: mem_read_def split: if_splits)
  have pz: "nat (int p mod 18446744073709551616) = p" using p(3) by simp
  obtain fs s1 n1 ps where S: "send_fragments E msgID p (mbuf m) 0 (GetSSUHeader m) (length w) (s, ?n) = Some (map Some fs, s1, n1)"
    "ssuEvents n1 = ssuEvents ?n @ map (\<lambda>P. SentTo P (m_RemoteEndpoint s)) ps" "length ps = length (cut p w)"
    "\<forall>k < length ps. carries_fragment E (eKey (m_SessionKeyEncryption s)) (m_MacKey s) msgID (0 + k) (Suc (0 + k) = length (cut p w)) (cut p w ! k) (ps ! k)"
    using send_fragments_ok [OF E p(2,3) m(2) [unfolded lw], of 0 "length (cut p w)" msgID s ?n] unfolding add_0 by blast
  show ?thesis
    unfolding SSUData_Send_def prod.case m(1) bind.bind_lunit task_eq Let_def p(1)
    using new S by (auto simp: lw pz on_data_def)
qed

text \<open>What has been handed on to the rest of the router.\<close>

definition ssu_delivered :: "'g ssunet \<Rightarrow> msg_view multiset" where
  "ssu_delivered n = image_mset view (mset (concat (map event_msgs (ssuEvents n))))"

lemma handed_ssu_delivered:
  "m_TunnelMsgs (m_Data s) = [] \<Longrightarrow> m_TunnelGatewayMsgs (m_Data s) = [] \<Longrightarrow> handed (s, n) = ssu_delivered n"
  by (simp add: handed_def ssu_delivered_def)

lemma receive_batch_once:
  assumes E: "ssuenv_ok E" "ssuenv_ok F" "same_crypto E F" and l: "listens key macKey cs e i v" and m: "map_find e (m_Sessions v) = Some i"
    and ps: "list_all2 (arrives E key macKey cs e) ps ids" "ps \<noteq> []"
    and new: "\<forall>(m, k) \<in> set ids. map_find m (ssuIncomplete (m_Data (sObjects v ! i))) = None \<and> m \<notin> ssuReceived (m_Data (sObjects v ! i))"
    and few: "card (ssuReceived (m_Data (sObjects v ! i)) \<union> fst ` set ids) \<le> 1001"
  shows "\<exists>v1. HandleReceivedPackets F ps v = Some v1 \<and> listens key macKey cs e i v1 \<and>
    ssu_delivered (sNet v1) = handed (sObjects v ! i, sNet v) +
      image_mset (\<lambda>m. ssu_view m (concat (cs m))) (mset_set (completed cs ids)) \<and>
    ssuReceived (m_Data (sObjects v1 ! i)) = ssuReceived (m_Data (sObjects v ! i)) \<union> completed cs ids"
proof -
  let ?s = "sObjects v ! i"
  obtain v1 where v1: "HandleReceivedPackets F ps v = Some v1" "listens key macKey cs e i v1"
      "m_TunnelMsgs (m_Data (sObjects v1 ! i)) = []" "m_TunnelGatewayMsgs (m_Data (sObjects v1 ! i)) = []"
      "abs_srv i v1 = fold (spec_fragment cs) ids (abs_srv i v)"
    using batch_fragments_ok [OF E l m ps] by blast
  obtain A R D where a: "abs_srv i v = (A, R, D)" by (cases "abs_srv i v")
  obtain A' R' D' where a': "abs_srv i v1 = (A', R', D')" by (cases "abs_srv i v1")
  have R: "R = ssuReceived (m_Data ?s)" "D = handed (?s, sNet v)" "A = (\<lambda>m. case map_find m (ssuIncomplete (m_Data ?s)) of Some im \<Rightarrow> arrived_fragments im | None \<Rightarrow> {})"
    using a by (simp_all add: abs_srv_def abs_rx_def)
  have R': "R' = ssuReceived (m_Data (sObjects v1 ! i))" "D' = ssu_delivered (sNet v1)"
    using a' handed_ssu_delivered [OF v1(3,4), of "sNet v1"] by (simp_all add: abs_srv_def abs_rx_def)
  have k: "\<forall>(m, k) \<in> set ids. k < length (cs m)"
    using ps(1) by (fastforce simp: list_all2_conv_all_nth in_set_conv_nth arrives_def)
  have "\<forall>(m, k) \<in> set ids. k < length (cs m) \<and> A m = {} \<and> m \<notin> R" using k new by (auto simp: R)
  from spec_run [OF this few [folded R(1)], of D A' R' D'] v1(5) show ?thesis
    unfolding a a' using v1(1,2) by (auto simp: R(1,2) R')
qed

end
