(* ===== verification/SSU_Handshake.thy ===== *)
theory SSU_Handshake
  imports SSU_Link
begin

text \<open>
How two routers establish an SSU session: what sending leaves alone, and the three packets of the handshake with the effect of each.
\<close>


section \<open>Writing packets\<close>

definition ip_ok :: "bytes \<Rightarrow> bool" where "ip_ok ip \<longleftrightarrow> length ip = 4 \<or> length ip = 16"

lemma unat_ip_size: "ip_ok ip \<Longrightarrow> unat (ip_size ip) = length ip"
  by (auto simp: ip_ok_def ip_size_def is_v4_def)

lemma write_fields:
  "37 + length fs \<le> m \<Longrightarrow> mem_write 37 fs (replicate m 0) = Some (replicate 37 0 @ fs @ replicate (m - 37 - length fs) 0)"
  by (simp add: mem_write_def min_absorb1)

lemma Fill_fields:
  assumes "ssuenv_ok E" and "length iv = 16" and "37 \<le> len" "len \<le> 1998" "len + 18 \<le> 37 + length G"
  shows "\<exists>ts n1 R. FillHeaderAndEncrypt_keys E t (replicate 37 0 @ G) len key iv mk n =
      Some (sealed_packet E iv key mk (push_bit 4 t # be_bytes 4 (ts :: u32) @ take (len - 37) G) @ R, n1) \<and>
    length (sealed_packet E iv key mk (push_bit 4 t # be_bytes 4 ts @ take (len - 37) G)) = len \<and>
    ssuEvents n1 = ssuEvents n"
proof -
  have b: "len + 18 \<le> length (replicate 37 0 @ G :: bytes)" using assms(5) by simp
  have d: "drop 5 (take (len - 32) (drop 32 (replicate 37 0 @ G))) = take (len - 37) G"
    using assms(3) by (simp add: drop_take)
  obtain ts n1 where "FillHeaderAndEncrypt_keys E t (replicate 37 0 @ G) len key iv mk n =
      Some (sealed_packet E iv key mk (push_bit 4 t # be_bytes 4 (ts :: u32) @ take (len - 37) G) @
        iv @ be_bytes 2 (of_nat (len - 32) :: u16) @ drop (len + 18) (replicate 37 0 @ G), n1)" "n1 = snd (task (tseconds E) n)"
    using FillHeaderAndEncrypt_keys_eq [OF assms(1-4) b, of t key mk n] unfolding d by blast
  moreover have "length (sealed_packet E iv key mk (push_bit 4 t # be_bytes 4 ts @ take (len - 37) G)) = len" for ts :: u32
    using assms by (simp add: length_sealed_packet [OF assms(1,2)])
  ultimately show ?thesis by (auto simp: task_eq)
qed

lemma sent_prefix: "length P = len \<Longrightarrow> mem_read 0 len (P @ R) = Some P"
  by (simp add: mem_read_def)

lemma genBlock_iv: "ssuenv_ok E \<Longrightarrow> length (fst (genBlock (tgen E) 16 g)) = 16"
  by (simp add: ssuenv_ok_def genv_ok_def)

section \<open>The three packets of the handshake\<close>

text \<open>First packet: the public key of the client and the address of the server, under the introduction key.\<close>

lemma SendSessionRequest_ok:
  assumes E: "ssuenv_ok E" and k: "GetIntroKey E s n = (Some K, n0)" "ssuEvents n0 = ssuEvents n"
    and d: "m_DHKeysPair s = Some (X, x)" "length X = 256" and ip: "ip_ok (epIP (m_RemoteEndpoint s))"
  shows "\<exists>iv ts body n1. SendSessionRequest E (s, n) = Some (s, n1) \<and>
    ssuEvents n1 = ssuEvents n @ [SentTo (sealed_packet E iv K K (push_bit 4 PAYLOAD_TYPE_SESSION_REQUEST # be_bytes 4 (ts :: u32) @ X @ body))
      (m_RemoteEndpoint s)] \<and> length iv = 16 \<and> (length body = 11 \<or> length body = 27)"
proof -
  let ?ip = "epIP (m_RemoteEndpoint s)" and ?len = "if is_v4 (epIP (m_RemoteEndpoint s)) then 304 else 320 :: nat"
  let ?fs = "X @ ip_size ?ip # ?ip"
  let ?G = "?fs @ replicate (320 + 18 - 37 - length ?fs) 0"
  let ?iv = "fst (genBlock (tgen E) 16 (ssuWorld n0))" and ?n = "n0\<lparr>ssuWorld := snd (genBlock (tgen E) 16 (ssuWorld n0))\<rparr>"
  have w: "mem_write 37 ?fs (replicate (320 + 18) 0) = Some (replicate 37 0 @ ?G)"
    using ip d(2) by (intro write_fields) (auto simp: ip_ok_def)
  have l: "length ?G = 301" using ip d(2) by (auto simp: ip_ok_def)
  have ll: "37 \<le> ?len" "?len \<le> 1998" "?len + 18 \<le> 37 + length ?G" unfolding l by simp_all
  obtain ts n1 R where f: "FillHeaderAndEncrypt_keys E PAYLOAD_TYPE_SESSION_REQUEST (replicate 37 0 @ ?G) ?len K ?iv K ?n =
      Some (sealed_packet E ?iv K K (push_bit 4 PAYLOAD_TYPE_SESSION_REQUEST # be_bytes 4 (ts :: u32) @ take (?len - 37) ?G) @ R, n1)"
    "length (sealed_packet E ?iv K K (push_bit 4 PAYLOAD_TYPE_SESSION_REQUEST # be_bytes 4 ts @ take (?len - 37) ?G)) = ?len"
    "ssuEvents n1 = ssuEvents ?n"
    using Fill_fields [OF E genBlock_iv [OF E] ll, of PAYLOAD_TYPE_SESSION_REQUEST K "ssuWorld n0" K ?n] by blast
  define body where "body = drop 256 (take (?len - 37) ?G)"
  have tk: "take (?len - 37) ?G = X @ body" unfolding body_def using d(2) by (simp add: take_append)
  have lb: "length body = 11 \<or> length body = 27" unfolding body_def using l d(2) by simp
  have "SendSessionRequest E (s, n) = Some (s, emit (SentTo (sealed_packet E ?iv K K (push_bit 4 PAYLOAD_TYPE_SESSION_REQUEST #
      be_bytes 4 ts @ take (?len - 37) ?G)) (m_RemoteEndpoint s)) n1)"
    unfolding SendSessionRequest_def prod.case k(1) option.case d(1) bind.bind_lunit Let_def w task_eq f(1) Server_Send_def sent_prefix [OF f(2)]
    by simp
  then show ?thesis
    unfolding tk using f(3) k(2) genBlock_iv [OF E] lb by (intro exI [of _ ?iv] exI [of _ ts] exI [of _ body]) (simp add: emit_def)
qed

text \<open>A packet under the introduction key, unless the session key opens it.\<close>

lemma open_intro:
  assumes E: "ssuenv_ok E" and c: "same_crypto E F"
    and P: "P = sealed_packet E iv K K plain" "length iv = 16" "5 \<le> length plain" "length plain \<le> 1966"
    and b: "in_buffer P p" and s: "m_IsSessionKey s \<Longrightarrow> P \<noteq> sealed_packet E iv K (m_MacKey s) plain"
    and k: "GetIntroKey F s n = (Some K, n1)"
  shows "\<exists>rest. open_packet F (pkBuf p) (pkLen p) (s, n) = Some (Opened (take 32 P @ plain @ rest), s, n1) \<and>
    length P = 32 + length plain"
proof -
  let ?rest = "drop (length P) (pkBuf p)"
  have lP: "length P = 32 + length plain" using P E by (simp add: length_sealed_packet)
  have buf: "pkBuf p = P @ ?rest" "18 \<le> length ?rest" and l: "pkLen p = 32 + length plain"
    using b append_take_drop_id [of "length P" "pkBuf p"] lP by (auto simp: in_buffer_def)
  have md: "md5 F = md5 E" "taes F = taes E" using c by (simp_all add: same_crypto_def)
  let ?pad = "iv @ be_bytes 2 (of_nat (length plain) :: u16)"
  have V: "Validate F (P @ R) (32 + length plain) mk = Some (P = sealed_packet E iv K mk plain, P @ ?pad @ drop 18 R)" if "18 \<le> length R" for R mk
    using Validate_any [OF E md(1) P(2-4) that, of K K mk] unfolding P(1) [symmetric] by simp
  obtain R where R: "(if m_IsSessionKey s then Validate F (P @ ?rest) (32 + length plain) (m_MacKey s) else Some (False, P @ ?rest)) =
      Some (False, P @ R)" "18 \<le> length R"
  proof (cases "m_IsSessionKey s")
    case True
    then show ?thesis using that [of "?pad @ drop 18 ?rest"] V [OF buf(2)] s P(2) by auto
  qed (use that [of ?rest] buf(2) in auto)
  have V2: "Validate F (P @ R) (32 + length plain) K = Some (True, P @ ?pad @ drop 18 R)" using V [OF R(2), of K] P(1) by simp
  have D: "Decrypt F (P @ ?pad @ drop 18 R) (32 + length plain) K = Some (take 32 P @ plain @ ?pad @ drop 18 R)"
    unfolding P(1) using Decrypt_sealed [OF E md(2) P(2-4)] .
  have "open_packet F (P @ ?rest) (32 + length plain) (s, n) = Some (Opened (take 32 P @ plain @ ?pad @ drop 18 R), s, n1)"
    unfolding open_packet_def prod.case R(1) bind.bind_lunit k Let_def option.case V2 option.sel D by simp
  then show ?thesis using buf(1) l lP by auto
qed

section \<open>Sending keeps the session\<close>

text \<open>A session without what sending changes.\<close>

definition core :: "SSUSession \<Rightarrow> SSUSession" where
  "core s = s\<lparr>m_SessionKeyEncryption := newCBCEncryption, ssuNumSent := 0, m_Data := (m_Data s)\<lparr>ssuSent := []\<rparr>\<rparr>"

lemma core_fields:
  assumes "core s' = core s"
  shows "m_RemoteRouter s' = m_RemoteRouter s" "m_RemoteIdent s' = m_RemoteIdent s" "m_DHKeysPair s' = m_DHKeysPair s"
    "m_RemoteEndpoint s' = m_RemoteEndpoint s" "m_PeerTest s' = m_PeerTest s" "ssuState s' = ssuState s"
    "m_IsSessionKey s' = m_IsSessionKey s" "m_SessionKeyDecryption s' = m_SessionKeyDecryption s" "m_SessionKey s' = m_SessionKey s"
    "m_MacKey s' = m_MacKey s" "m_RelayTag s' = m_RelayTag s" "m_CreationTime s' = m_CreationTime s"
    "m_IsDataReceived s' = m_IsDataReceived s" "ssuTimer s' = ssuTimer s" "m_PacketSize (m_Data s') = m_PacketSize (m_Data s)"
    "ssuIncomplete (m_Data s') = ssuIncomplete (m_Data s)" "ssuReceived (m_Data s') = ssuReceived (m_Data s)"
    "m_TunnelMsgs (m_Data s') = m_TunnelMsgs (m_Data s)" "m_TunnelGatewayMsgs (m_Data s') = m_TunnelGatewayMsgs (m_Data s)"
  using arg_cong [OF assms, of m_RemoteRouter] arg_cong [OF assms, of m_RemoteIdent] arg_cong [OF assms, of m_DHKeysPair]
    arg_cong [OF assms, of m_RemoteEndpoint] arg_cong [OF assms, of m_PeerTest] arg_cong [OF assms, of ssuState]
    arg_cong [OF assms, of m_IsSessionKey] arg_cong [OF assms, of m_SessionKeyDecryption] arg_cong [OF assms, of m_SessionKey]
    arg_cong [OF assms, of m_MacKey] arg_cong [OF assms, of m_RelayTag] arg_cong [OF assms, of m_CreationTime]
    arg_cong [OF assms, of m_IsDataReceived] arg_cong [OF assms, of ssuTimer] arg_cong [OF assms, of "\<lambda>s. m_PacketSize (m_Data s)"]
    arg_cong [OF assms, of "\<lambda>s. ssuIncomplete (m_Data s)"] arg_cong [OF assms, of "\<lambda>s. ssuReceived (m_Data s)"]
    arg_cong [OF assms, of "\<lambda>s. m_TunnelMsgs (m_Data s)"] arg_cong [OF assms, of "\<lambda>s. m_TunnelGatewayMsgs (m_Data s)"]
  by (simp_all add: core_def)

lemma core_updates [simp]:
  "core (s\<lparr>m_SessionKeyEncryption := e\<rparr>) = core s" "core (s\<lparr>ssuNumSent := k\<rparr>) = core s"
  "core (on_data (\<lambda>d. d\<lparr>ssuSent := X d\<rparr>) s) = core s"
  by (simp_all add: core_def on_data_def)

lemma seal_key: "seal E t len iv enc mk buf n = Some (b, enc1, n1) \<Longrightarrow> eKey enc1 = eKey enc \<and> ssuEvents n1 = ssuEvents n"
  using cbc_encrypt_key [of "taes E"]
  by (auto simp: seal_def Let_def task_eq CBCEncryption_Encrypt_def CBCEncryption_SetIV_def case_prod_beta split: bind_splits)

lemma Fill_core:
  "FillHeaderAndEncrypt E t buf len a = Some (b, r) \<Longrightarrow> core (fst r) = core (fst a) \<and>
    eKey (m_SessionKeyEncryption (fst r)) = eKey (m_SessionKeyEncryption (fst a)) \<and> ssuEvents (snd r) = ssuEvents (snd a)"
  by (cases a) (auto simp: FillHeaderAndEncrypt_def task_eq Let_def dest!: seal_key split: if_splits bind_splits)

lemma Session_Send_core:
  "Session_Send b len a = Some r \<Longrightarrow> core (fst r) = core (fst a) \<and> m_SessionKeyEncryption (fst r) = m_SessionKeyEncryption (fst a)"
  by (cases a) (auto simp: Session_Send_def split: bind_splits)

lemma send_fragments_step:
  assumes "send_fragments E msgID p mem num pos len a = Some (fs, r)" and "len \<noteq> 0"
  obtains b1 size2 n1 b2 a1 a2 fs1 len1 where "FillHeaderAndEncrypt E PAYLOAD_TYPE_DATA b1 size2 (fst a, n1) = Some (b2, a1)"
    "Session_Send b2 size2 a1 = Some a2" "send_fragments E msgID p mem (num + 1) (pos + p) len1 a2 = Some (fs1, r)" "len1 < len"
proof -
  let ?n1 = "snd (task (tgarbage E (SSU_V4_MAX_PACKET_SIZE + 18)) (snd a))"
  have p: "p \<noteq> 0" using assms by (subst (asm) send_fragments.simps) (auto split: if_splits)
  have l: "(if len \<le> p then 0 else len - p) < len" using p assms(2) by simp
  show thesis
    using assms p
    by (subst (asm) send_fragments.simps, clarsimp simp: Option.bind_eq_Some_conv Let_def task_eq split del: if_split)
      (rule that [OF _ _ _ l], (simp split del: if_split | assumption)+)
qed

lemma send_fragments_core:
  "send_fragments E msgID p mem num pos len a = Some (fs, r) \<Longrightarrow> core (fst r) = core (fst a) \<and>
    eKey (m_SessionKeyEncryption (fst r)) = eKey (m_SessionKeyEncryption (fst a))"
proof (induction len arbitrary: num pos a fs rule: less_induct)
  case (less len)
  show ?case
  proof (cases "len = 0")
    case True
    then show ?thesis using less.prems by (subst (asm) send_fragments.simps) simp
  next
    case False
    from send_fragments_step [OF less.prems False] obtain b1 size2 n1 b2 a1 a2 fs1 len1 where
      s: "FillHeaderAndEncrypt E PAYLOAD_TYPE_DATA b1 size2 (fst a, n1) = Some (b2, a1)" "Session_Send b2 size2 a1 = Some a2"
      "send_fragments E msgID p mem (num + 1) (pos + p) len1 a2 = Some (fs1, r)" "len1 < len" .
    show ?thesis using less.IH [OF s(4,3)] Fill_core [OF s(1)] Session_Send_core [OF s(2)] by simp
  qed
qed

lemma SSUData_Send_core:
  assumes "SSUData_Send E msg a = Some r"
  shows "core (fst r) = core (fst a) \<and> eKey (m_SessionKeyEncryption (fst r)) = eKey (m_SessionKeyEncryption (fst a))"
  using assms by (cases a) (auto simp: SSUData_Send_def Let_def task_eq on_data_def dest!: send_fragments_core split: if_splits bind_splits
      intro!: core_updates(3) [unfolded on_data_def, THEN trans])

text \<open>Messages that a session can send, and packet sizes it can send with.\<close>

definition sendable :: "I2NPMessage \<Rightarrow> bool" where
  "sendable m \<longleftrightarrow> (\<exists>t msgID ex payload. carries_msg t msgID ex payload m)"

definition size_ok :: "SSUSession \<Rightarrow> bool" where
  "size_ok s \<longleftrightarrow> 47 \<le> m_PacketSize (m_Data s) \<and> m_PacketSize (m_Data s) \<le> 1456"

lemma SSUData_Send_total:
  assumes E: "ssuenv_ok E" and m: "sendable msg" and z: "size_ok s"
  shows "\<exists>s1 n1 ps. SSUData_Send E msg (s, n) = Some (s1, n1) \<and> core s1 = core s \<and>
    eKey (m_SessionKeyEncryption s1) = eKey (m_SessionKeyEncryption s) \<and>
    ssuEvents n1 = ssuEvents n @ map (\<lambda>P. SentTo P (m_RemoteEndpoint s)) ps"
proof -
  obtain t msgID ex payload where c: "carries_msg t msgID ex payload msg" using m by (auto simp: sendable_def)
  obtain m1 where m1: "ToSSU msg = Some (msgID, m1)" "mem_read (GetSSUHeader m1) (GetLength m1) (mbuf m1) = Some (ssu_wire t ex payload)"
    using ToSSU_wire [OF c] by auto
  define p where "p = nat (m_PacketSize (m_Data s) - 46)"
  have p: "m_PacketSize (m_Data s) = int p + 46" "0 < p" "p \<le> 1410" using z by (auto simp: p_def size_ok_def)
  show ?thesis
  proof (cases "map_find msgID (ssuSent (m_Data s))")
    case None
    obtain s1 n1 ps where "SSUData_Send E msg (s, n) = Some (s1, n1)" "ssuEvents n1 = ssuEvents n @ map (\<lambda>P. SentTo P (m_RemoteEndpoint s)) ps"
      using SSUData_Send_ok [OF E m1 None p] by blast
    then show ?thesis using SSUData_Send_core by fastforce
  next
    case (Some x)
    have "SSUData_Send E msg (s, n) = Some (s, n)"
      unfolding SSUData_Send_def prod.case m1(1) bind.bind_lunit by (simp add: Some)
    then show ?thesis by (intro exI [of _ s] exI [of _ n] exI [of _ "[]"]) simp
  qed
qed

lemma size_ok_core: "core s' = core s \<Longrightarrow> size_ok s' = size_ok s"
  by (drule core_fields(15)) (simp add: size_ok_def)

section \<open>The answer of the server\<close>

text \<open>An identity whose signatures have a known length.\<close>

definition can_sign :: "'g ssuenv \<Rightarrow> nat \<Rightarrow> bool" where
  "can_sign E sl \<longleftrightarrow> idex_ok (m_Public (contextKeys E)) \<and> (\<exists>i. GetSignatureLen (m_Public (contextKeys E)) = Some (sl, i)) \<and>
     (\<forall>d g x. fst (PrivateKeys_Sign (tsig E) d (contextKeys E) g) = Some x \<longrightarrow> length x = sl)"

lemma append_take_length: "take (length A) (A @ B) = A" by simp

lemma write_behind:
  "length g \<le> length Z \<Longrightarrow> i = length pre \<Longrightarrow> mem_write i g (pre @ Z) = Some (pre @ g @ drop (length g) Z)"
  by (simp add: mem_write_def)

lemma round16_props: "n \<le> round16 n" "round16 n mod 16 = 0" "round16 n < n + 16"
proof -
  have "n mod 16 < 16" by simp
  then have "n \<le> round16 n \<and> round16 n < n + 16" unfolding round16_def Let_def by (cases "n mod 16 > 0") auto
  then show "n \<le> round16 n" "round16 n < n + 16" by simp_all
  show "round16 n mod 16 = 0" unfolding round16_def Let_def by presburger
qed

lemma relay_tag_events: "ssuEvents (snd (relay_tag E e n)) = ssuEvents n"
  by (simp add: relay_tag_def task_eq Let_def AddRelay_def split: bool.splits)

lemma SendSessionCreated_ok:
  assumes E: "ssuenv_ok E" and k: "GetIntroKey E s n = (Some K, n0)" "ssuEvents n0 = ssuEvents n"
    and a: "\<And>g. fst ((if IsV6 s then contextSSUV6 E else contextSSUV4 E) g) = Some a"
    and d: "m_DHKeysPair s = Some (Y, y)" "length Y = 256" and ip: "ip_ok (epIP (m_RemoteEndpoint s))"
    and sl: "can_sign E sl" "sl \<le> 64"
  shows "\<exists>iv ts tag c s1 n1. SendSessionCreated E x (s, n) = Some (s1, n1) \<and> core s1 = core s \<and>
    eKey (m_SessionKeyEncryption s1) = eKey (m_SessionKeyEncryption s) \<and>
    ssuEvents n1 = ssuEvents n @ [SentTo (sealed_packet E iv K K (push_bit 4 PAYLOAD_TYPE_SESSION_CREATED # be_bytes 4 (ts :: u32) @
      Y @ ip_size (epIP (m_RemoteEndpoint s)) # epIP (m_RemoteEndpoint s) @ be_bytes 2 (epPort (m_RemoteEndpoint s)) @ tag @ c))
      (m_RemoteEndpoint s)] \<and> length iv = 16 \<and> length tag = 8 \<and> length c = round16 sl"
proof -
  let ?ip = "epIP (m_RemoteEndpoint s)" and ?r = "round16 sl"
  let ?n1 = "n0\<lparr>ssuWorld := snd ((if IsV6 s then contextSSUV6 E else contextSSUV4 E) (ssuWorld n0))\<rparr>"
  obtain tg n2 where tg: "relay_tag E (m_RemoteEndpoint s) ?n1 = (tg, n2)" by (cases "relay_tag E (m_RemoteEndpoint s) ?n1")
  then have n2: "ssuEvents n2 = ssuEvents n" using relay_tag_events [of E "m_RemoteEndpoint s" ?n1] k(2) by simp
  let ?n3 = "n2\<lparr>ssuWorld := snd (tseconds E (ssuWorld n2))\<rparr>"
  let ?tag = "be_bytes 4 tg @ be_bytes 4 (ucast (fst (tseconds E (ssuWorld n2))) :: u32)"
  let ?remote = "?ip @ be_bytes 2 (epPort (m_RemoteEndpoint s))"
  let ?fs = "Y @ ip_size ?ip # ?remote @ ?tag"
  have lfs: "length ?fs = 267 + length ?ip" "length ?ip \<le> 16" using d(2) ip by (auto simp: ip_ok_def)
  let ?Z = "replicate (384 + 18 - 37 - length ?fs) 0 :: bytes"
  have w1: "mem_write 37 ?fs (replicate (384 + 18) 0) = Some (replicate 37 0 @ ?fs @ ?Z)"
    using lfs by (intro write_fields) simp
  let ?pos = "37 + length ?fs"
  let ?data = "x @ Y @ ?remote @ aHost a @ be_bytes 2 (aPort a) @ ?tag"
  obtain sig n4 where sg: "task (PrivateKeys_Sign (tsig E) ?data (contextKeys E)) ?n3 = (sig, n4)"
    by (cases "task (PrivateKeys_Sign (tsig E) ?data (contextKeys E)) ?n3")
  then have n4: "ssuEvents n4 = ssuEvents n" and sig: "\<And>g. sig = Some g \<Longrightarrow> length g = sl"
    using n2 sl(1) by (auto simp: task_eq can_sign_def)
  have r: "?r \<le> 64" "sl \<le> ?r" using round16_props [of sl] sl(2) by presburger+
  have lZ: "?r + 18 \<le> length ?Z" using lfs r by simp
  obtain Z2 where w2: "(case sig of Some g \<Rightarrow> mem_write ?pos g (replicate 37 0 @ ?fs @ ?Z) | None \<Rightarrow> Some (replicate 37 0 @ ?fs @ ?Z)) =
      Some (replicate 37 0 @ ?fs @ Z2)" "length Z2 = length ?Z"
  proof (cases sig)
    case (Some g)
    have "mem_write ?pos g ((replicate 37 0 @ ?fs) @ ?Z) = Some ((replicate 37 0 @ ?fs) @ g @ drop (length g) ?Z)"
      using sig [OF Some] r lZ by (intro write_behind) simp_all
    then show ?thesis using that [of "g @ drop (length g) ?Z"] Some sig [OF Some] r lZ by simp
  qed (use that [of ?Z] in simp)
  let ?iv = "fst (genBlock (tgen E) 16 (ssuWorld n4))" and ?n5 = "n4\<lparr>ssuWorld := snd (genBlock (tgen E) 16 (ssuWorld n4))\<rparr>"
  obtain i where i: "GetSignatureLen (m_Public (contextKeys E)) = Some (sl, i)" using sl(1) by (auto simp: can_sign_def)
  have rd: "mem_read ?pos ?r (replicate 37 0 @ ?fs @ Z2) = Some (take ?r Z2)"
    using mem_read_append [of ?pos "replicate 37 0 @ ?fs" ?r "take ?r Z2" "drop ?r Z2"] lZ w2(2) by simp
  let ?enc0 = "CBCEncryption_SetIV ?iv (m_SessionKeyEncryption s)"
  obtain c0 enc where c0: "CBCEncryption_Encrypt (taes E) (take ?r Z2) ?enc0 = (c0, enc)" by (cases "CBCEncryption_Encrypt (taes E) (take ?r Z2) ?enc0")
  have e0: "?enc0 = \<lparr>eKey = eKey (m_SessionKeyEncryption s), m_LastBlock = ?iv\<rparr>" using genBlock_iv [OF E] by (simp add: CBCEncryption_SetIV_def)
  have enc: "eKey enc = eKey (m_SessionKeyEncryption s)"
    using cbc_encrypt_key [of "taes E" "length (take ?r Z2) div 16" "take ?r Z2" ?enc0] c0 by (simp add: CBCEncryption_Encrypt_def e0)
  have lr: "length (take ?r Z2) = ?r" using lZ w2(2) by simp
  have "16 * (?r div 16) = ?r" using round16_props(2) [of sl] by presburger
  then have lc0: "length c0 = ?r"
    using length_cbc_encrypt [of "taes E" ?iv "take ?r Z2" "eKey (m_SessionKeyEncryption s)"] genBlock_iv [OF E, of "ssuWorld n4"] c0 E
    unfolding CBCEncryption_Encrypt_def e0 lr by (simp add: ssuenv_ok_def)
  have w3: "mem_write ?pos c0 (replicate 37 0 @ ?fs @ Z2) = Some (replicate 37 0 @ ?fs @ c0 @ drop ?r Z2)"
    using write_behind [of c0 Z2 ?pos "replicate 37 0 @ ?fs"] lc0 lZ w2(2) by simp
  let ?G = "?fs @ c0 @ drop ?r Z2" and ?len = "?pos + ?r"
  have ll: "37 \<le> ?len" "?len \<le> 1998" "?len + 18 \<le> 37 + length ?G" using lfs r lc0 lZ w2(2) by simp_all
  obtain ts n6 R where f: "FillHeaderAndEncrypt_keys E PAYLOAD_TYPE_SESSION_CREATED (replicate 37 0 @ ?G) ?len K ?iv K ?n5 =
      Some (sealed_packet E ?iv K K (push_bit 4 PAYLOAD_TYPE_SESSION_CREATED # be_bytes 4 (ts :: u32) @ take (?len - 37) ?G) @ R, n6)"
    "length (sealed_packet E ?iv K K (push_bit 4 PAYLOAD_TYPE_SESSION_CREATED # be_bytes 4 ts @ take (?len - 37) ?G)) = ?len"
    "ssuEvents n6 = ssuEvents ?n5"
    using Fill_fields [OF E genBlock_iv [OF E] ll, of PAYLOAD_TYPE_SESSION_CREATED K "ssuWorld n4" K ?n5] by blast
  have tk: "take (?len - 37) ?G = ?fs @ c0"
  proof -
    have "?len - 37 = length (?fs @ c0)" using lc0 by simp
    moreover have "take (length (?fs @ c0)) ((?fs @ c0) @ drop ?r Z2) = ?fs @ c0" unfolding append_take_length ..
    ultimately show ?thesis unfolding append_assoc by metis
  qed
  let ?s1 = "s\<lparr>m_SessionKeyEncryption := enc, ssuNumSent := ssuNumSent s + ?len\<rparr>"
  have "SendSessionCreated E x (s, n) = Some (?s1, emit (SentTo (sealed_packet E ?iv K K
      (push_bit 4 PAYLOAD_TYPE_SESSION_CREATED # be_bytes 4 ts @ take (?len - 37) ?G)) (m_RemoteEndpoint s)) n6)"
    unfolding SendSessionCreated_def prod.case k(1) Let_def task_eq [of "if IsV6 s then contextSSUV6 E else contextSSUV4 E"] a option.case
      d(1) bind.bind_lunit tg task_eq [of "tseconds E"] fst_conv snd_conv w1 sg w2(1) task_eq [of "genBlock (tgen E) 16"] i rd c0 w3 f(1)
      Session_Send_def sent_prefix [OF f(2)]
    by simp
  moreover have "core ?s1 = core s" by (simp add: core_def)
  ultimately show ?thesis
    unfolding tk using f(3) n4 enc genBlock_iv [OF E] lc0
    by (intro exI [of _ ?iv] exI [of _ ts] exI [of _ ?tag] exI [of _ c0] exI [of _ ?s1]) (auto simp: emit_def)
qed


section \<open>The confirmation of the client\<close>

text \<open>A session with keys for both directions.\<close>

definition has_keys :: "bytes \<Rightarrow> bytes \<Rightarrow> SSUSession \<Rightarrow> bool" where
  "has_keys k mk s \<longleftrightarrow> m_IsSessionKey s \<and> m_SessionKey s = k \<and> m_MacKey s = mk \<and>
     eKey (m_SessionKeyEncryption s) = k \<and> dKey (m_SessionKeyDecryption s) = k"

lemma has_keys_core: "core s' = core s \<Longrightarrow> eKey (m_SessionKeyEncryption s') = eKey (m_SessionKeyEncryption s) \<Longrightarrow> has_keys k mk s' = has_keys k mk s"
  using core_fields [of s' s] by (simp add: has_keys_def)

lemma CreateAESandMacKey_ok:
  assumes "m_DHKeysPair s = Some (pub, priv)" and "dhAgree E priv pubKey = Some sh" and "derive_keys (gsha (tgen E)) sh = Some (k, mk)"
  shows "\<exists>s1. CreateAESandMacKey E pubKey s = Some s1 \<and> has_keys k mk s1 \<and>
    s1 = s\<lparr>m_SessionKey := k, m_MacKey := mk, m_IsSessionKey := True, m_SessionKeyEncryption := m_SessionKeyEncryption s1,
      m_SessionKeyDecryption := m_SessionKeyDecryption s1\<rparr>"
  using assms by (simp add: CreateAESandMacKey_def has_keys_def CBCEncryption_SetKey_def CBCDecryption_SetKey_def)

lemma GetSignatureLen_verify:
  assumes "GetSignatureLen i = Some (n, i1)" and "mem_read sp n smem = Some x"
  shows "\<exists>b i2. Identity_Verify vw data sp smem i1 = Some (b, i2) \<and> DropVerifier i2 = DropVerifier i"
proof -
  have w: "with_verifier i = Some i1" and n: "n = (case m_Verifier i1 of Some (t, k) \<Rightarrow> SignatureLen t | None \<Rightarrow> 40)"
    using assms(1) by (auto simp: GetSignatureLen_def split: bind_splits)
  have d: "DropVerifier i1 = DropVerifier i"
    using w by (auto simp: with_verifier_def CreateVerifier_def DropVerifier_def split: if_splits bind_splits)
  have w1: "with_verifier i1 = Some i1"
    using w by (auto simp: with_verifier_def CreateVerifier_def split: if_splits bind_splits)
  show ?thesis
    using n assms(2) d by (cases "m_Verifier i1") (auto simp: Identity_Verify_def w1)
qed

lemma write_inside:
  assumes "i = length pre + p" and "p + length g \<le> length Z"
  shows "\<exists>Z2. mem_write i g (pre @ Z) = Some (pre @ Z2) \<and> length Z2 = length Z"
  using assms by (intro exI [of _ "take p Z @ g @ drop (p + length g) Z"]) (simp add: mem_write_def)

lemma SendSessionConfirmed_ok:
  assumes E: "ssuenv_ok E" and d: "m_DHKeysPair s = Some (X, x)" and sl: "can_sign E sl"
    and fit: "round16 (44 + GetFullLen (m_Public (contextKeys E)) + sl) \<le> 512"
  shows "\<exists>iv ts rest s1 n1. SendSessionConfirmed E y oa (s, n) = Some (s1, n1) \<and> core s1 = core s \<and>
    m_SessionKeyEncryption s1 = m_SessionKeyEncryption s \<and>
    ssuEvents n1 = ssuEvents n @ [SentTo (sealed_packet E iv (m_SessionKey s) (m_MacKey s)
      (push_bit 4 PAYLOAD_TYPE_SESSION_CONFIRMED # be_bytes 4 (ts :: u32) @ 1 #
       be_bytes 2 (of_nat (GetFullLen (m_Public (contextKeys E))) :: u16) @ idex_bytes (m_Public (contextKeys E)) @ rest)) (m_RemoteEndpoint s)] \<and>
    length iv = 16 \<and> length rest < 512 \<and> (40 + GetFullLen (m_Public (contextKeys E)) + length rest) mod 16 = 0"
proof -
  let ?i = "m_Public (contextKeys E)"
  let ?L = "GetFullLen ?i" and ?Z0 = "replicate (512 + 18 - 37 - 3) 0 :: bytes"
  have ok: "idex_ok ?i" using sl by (simp add: can_sign_def)
  have lb: "length (idex_bytes ?i) = ?L" by (rule length_idex_bytes [OF ok])
  have fit0: "44 + ?L + sl \<le> 512" by (rule order_trans [OF round16_props(1) fit])
  let ?f1 = "1 # be_bytes 2 (of_nat ?L :: u16)"
  have w1: "mem_write 37 ?f1 (replicate (512 + 18) 0) = Some (replicate 37 0 @ ?f1 @ ?Z0)"
    using write_fields [of ?f1 "512 + 18"] by simp
  have w2: "mem_write 40 (idex_bytes ?i) (replicate 37 0 @ ?f1 @ ?Z0) = Some (replicate 37 0 @ ?f1 @ idex_bytes ?i @ drop ?L ?Z0)"
    using write_behind [of "idex_bytes ?i" ?Z0 40 "replicate 37 0 @ ?f1"] lb fit0 by simp
  have tb: "ToBuffer 40 ?i (replicate 37 0 @ ?f1 @ ?Z0) = Some (?L, replicate 37 0 @ ?f1 @ idex_bytes ?i @ drop ?L ?Z0)"
    unfolding ToBuffer_eq [OF ok] w2 by simp
  let ?ts = "ucast (fst (tseconds E (ssuWorld n))) :: u32" and ?n1 = "n\<lparr>ssuWorld := snd (tseconds E (ssuWorld n))\<rparr>"
  have l1: "length (drop ?L ?Z0) = 490 - ?L" by simp
  have w3: "mem_write (40 + ?L) (be_bytes 4 ?ts) (replicate 37 0 @ ?f1 @ idex_bytes ?i @ drop ?L ?Z0) =
      Some (replicate 37 0 @ ?f1 @ idex_bytes ?i @ be_bytes 4 ?ts @ drop 4 (drop ?L ?Z0))"
    using write_behind [of "be_bytes 4 ?ts" "drop ?L ?Z0" "40 + ?L" "replicate 37 0 @ ?f1 @ idex_bytes ?i"] lb fit0 by simp
  let ?pad = "(44 + ?L + sl) mod 16"
  define pad where "pad = (if ?pad > 0 then 16 - ?pad else 0)"
  have "44 + ?L + pad + sl = round16 (44 + ?L + sl)" unfolding pad_def round16_def Let_def by (simp add: add.assoc)
  then have fit1: "44 + ?L + pad + sl \<le> 512" and padm: "(44 + ?L + pad + sl) mod 16 = 0" "pad < 16"
    using round16_props(2,3) [of "44 + ?L + sl"] fit by simp_all
  let ?pre = "replicate 37 0 @ ?f1 @ idex_bytes ?i @ be_bytes 4 ?ts" and ?Z1 = "drop 4 (drop ?L ?Z0)"
  let ?data = "X @ y @ oa @ epIP (m_RemoteEndpoint s) @ be_bytes 2 (epPort (m_RemoteEndpoint s)) @ be_bytes 4 (m_RelayTag s) @ be_bytes 4 ?ts"
  obtain sig n2 where sg: "task (PrivateKeys_Sign (tsig E) ?data (contextKeys E)) ?n1 = (sig, n2)"
    by (cases "task (PrivateKeys_Sign (tsig E) ?data (contextKeys E)) ?n1")
  then have n2: "ssuEvents n2 = ssuEvents n" and sig: "\<And>g. sig = Some g \<Longrightarrow> length g = sl"
    using sl by (auto simp: task_eq can_sign_def)
  have lpre: "length ?pre = 44 + ?L" using lb by simp
  have lZ1: "length ?Z1 = 486 - ?L" by simp
  obtain Z2 where w4: "(case sig of Some g \<Rightarrow> mem_write (44 + ?L + pad) g (?pre @ ?Z1) | None \<Rightarrow> Some (?pre @ ?Z1)) = Some (?pre @ Z2)"
      "length Z2 = 486 - ?L"
  proof (cases sig)
    case (Some g)
    have "\<exists>Z2. mem_write (44 + ?L + pad) g (?pre @ ?Z1) = Some (?pre @ Z2) \<and> length Z2 = length ?Z1"
      by (rule write_inside [of _ _ pad]) (use sig [OF Some] fit1 padm lZ1 lpre in linarith)+
    then show ?thesis using that Some unfolding lZ1 by auto
  next
    case None
    then show ?thesis using that [of ?Z1] lZ1 by simp
  qed
  let ?iv = "fst (genBlock (tgen E) 16 (ssuWorld n2))" and ?n3 = "n2\<lparr>ssuWorld := snd (genBlock (tgen E) 16 (ssuWorld n2))\<rparr>"
  let ?G = "?f1 @ idex_bytes ?i @ be_bytes 4 ?ts @ Z2" and ?len = "44 + ?L + pad + sl"
  have G: "?pre @ Z2 = replicate 37 0 @ ?G" by simp
  have ll: "37 \<le> ?len" "?len \<le> 1998" "?len + 18 \<le> 37 + length ?G" using fit1 lb w4(2) by simp_all
  obtain ts n4 R where f: "FillHeaderAndEncrypt_keys E PAYLOAD_TYPE_SESSION_CONFIRMED (replicate 37 0 @ ?G) ?len (m_SessionKey s) ?iv (m_MacKey s) ?n3 =
      Some (sealed_packet E ?iv (m_SessionKey s) (m_MacKey s) (push_bit 4 PAYLOAD_TYPE_SESSION_CONFIRMED # be_bytes 4 (ts :: u32) @ take (?len - 37) ?G) @ R, n4)"
    "length (sealed_packet E ?iv (m_SessionKey s) (m_MacKey s) (push_bit 4 PAYLOAD_TYPE_SESSION_CONFIRMED # be_bytes 4 ts @ take (?len - 37) ?G)) = ?len"
    "ssuEvents n4 = ssuEvents ?n3"
    using Fill_fields [OF E genBlock_iv [OF E] ll, of PAYLOAD_TYPE_SESSION_CONFIRMED "m_SessionKey s" "ssuWorld n2" "m_MacKey s" ?n3] by blast
  let ?rest = "be_bytes 4 ?ts @ take (pad + sl) Z2"
  have lr: "length ?rest = 4 + pad + sl" using w4(2) fit1 by simp
  have tk: "take (?len - 37) ?G = 1 # be_bytes 2 (of_nat ?L :: u16) @ idex_bytes ?i @ ?rest"
  proof -
    let ?A = "?f1 @ idex_bytes ?i @ ?rest"
    have "?G = ?A @ drop (pad + sl) Z2" by simp
    moreover have "?len - 37 = length ?A" using lr lb by simp
    ultimately have "take (?len - 37) ?G = ?A" by (metis append_take_length)
    then show ?thesis by simp
  qed
  obtain i' where i': "GetSignatureLen ?i = Some (sl, i')" using sl by (auto simp: can_sign_def)
  let ?s1 = "s\<lparr>ssuNumSent := ssuNumSent s + ?len\<rparr>"
  have "SendSessionConfirmed E y oa (s, n) = Some (?s1, emit (SentTo (sealed_packet E ?iv (m_SessionKey s) (m_MacKey s)
      (push_bit 4 PAYLOAD_TYPE_SESSION_CONFIRMED # be_bytes 4 ts @ take (?len - 37) ?G)) (m_RemoteEndpoint s)) n4)"
    unfolding SendSessionConfirmed_def prod.case Let_def w1 bind.bind_lunit tb task_eq [of "tseconds E"] w3 i' d sg
      task_eq [of "genBlock (tgen E) 16"] pad_def [symmetric] w4(1) [unfolded append_assoc] f(1) Session_Send_def sent_prefix [OF f(2)]
    by simp
  moreover have "40 + ?L + length ?rest = 44 + ?L + pad + sl" using lr by linarith
  then have "(40 + ?L + length ?rest) mod 16 = 0" using padm(1) by (simp only:)
  moreover have "length ?rest < 512" using lr fit1 by linarith
  moreover have "core ?s1 = core s" "m_SessionKeyEncryption ?s1 = m_SessionKeyEncryption s" by (simp_all add: core_def)
  moreover have "ssuEvents n4 = ssuEvents n" using f(3) n2 by simp
  ultimately show ?thesis
    unfolding tk using genBlock_iv [OF E, of "ssuWorld n2"]
    by (rule_tac x = ?iv in exI, rule_tac x = ts in exI, rule_tac x = ?rest in exI, rule_tac x = ?s1 in exI)
      (intro exI conjI, assumption+, simp add: emit_def, assumption+)
qed


section \<open>The end of the handshake\<close>

lemma wire_msg_sendable: "length P < 65536 \<Longrightarrow> sendable (wire_msg E sz t r P)"
  unfolding sendable_def carries_msg_def wire_msg_def
  by (intro exI [of _ t] exI [of _ "if r \<noteq> 0 then r else rndWord E"] exI [of _ "nowMs E + 5000"] exI [of _ P] exI [of _ "[0, 0]"]
      exI [of _ "hd (sha256 E P)"] exI [of _ "replicate (sz - 2 - length P) 0"] conjI) simp_all

lemma CreateDeliveryStatusMsg_wire:
  assumes "\<And>x. sha256 E x \<noteq> []"
  shows "CreateDeliveryStatusMsg E w 0 = Some (wire_msg E 4096 eI2NPDeliveryStatus 0 (be_bytes 4 w @ be_bytes 8 (2 :: u64)))"
proof -
  have p: "GetPayload NewI2NPShortMessage = 18" by (simp add: new_msgs)
  have "CreateDeliveryStatusMsg E w 0 = do { m1 \<leftarrow> put_fields 18 [be_bytes 4 w, be_bytes 8 (2 :: u64)] (I2NPMessageBuffer 4096);
      fillHeader E eI2NPDeliveryStatus 0 (add_len (length (concat [be_bytes 4 w, be_bytes 8 (2 :: u64)])) m1) }"
    unfolding CreateDeliveryStatusMsg_def Let_def p htobe32buf_eq htobe64buf_eq put_bytes_def [symmetric]
    by (simp add: new_msgs split: option.split bind_split)
  then show ?thesis using wire_msg_fields [OF assms, of "[be_bytes 4 w, be_bytes 8 (2 :: u64)]" 4096 eI2NPDeliveryStatus 0] by simp
qed

lemma DeliveryStatusMsg_ok:
  assumes "ssuenv_ok E"
  shows "\<exists>m n1. DeliveryStatusMsg E n = (Some m, n1) \<and> sendable m \<and> ssuEvents n1 = ssuEvents n"
proof -
  have "\<And>x. gsha (tgen E) x \<noteq> []" using assms by (simp add: ssuenv_ok_def genv_ok_def) (metis list.size(3) zero_neq_numeral)
  then show ?thesis
    by (simp add: DeliveryStatusMsg_def task_eq Let_def CreateDeliveryStatusMsg_wire wire_msg_sendable)
qed

end
