(* ===== verification/SSU_Established.thy ===== *)
theory SSU_Established
  imports SSU_Handshake
begin

text \<open>
  The second half of the handshake: the client derives the keys from the answer of the server and confirms; the server
  reads the identity of the client and the session is established.
\<close>

text \<open>The client has the answer of the server: it derives the keys and confirms.\<close>

lemma ProcessSessionCreated_ok:
  assumes E: "ssuenv_ok E" and r: "m_RemoteRouter s \<noteq> None" and d: "m_DHKeysPair s = Some (X, x)"
    and dh: "dhAgree E x Y = Some sh" "derive_keys (gsha (tgen E)) sh = Some (k, mk)"
    and sl: "can_sign E sl" "round16 (44 + GetFullLen (m_Public (contextKeys E)) + sl) \<le> 512"
    and rs: "GetSignatureLen (m_RemoteIdent s) = Some (rsl, ri)"
    and b: "buf = H @ Y @ ip_size ip # ip @ port @ tag @ c @ rest" "length H = 37" "length Y = 256" "ip_ok ip" "length port = 2"
      "length tag = 8" "length c = round16 rsl"
  shows "\<exists>iv ts rest' s1 n1. ProcessSessionCreated E buf (s, n) = Some (s1, n1) \<and> has_keys k mk s1 \<and> ssuState s1 = ssuState s \<and>
    m_RemoteEndpoint s1 = m_RemoteEndpoint s \<and> m_RemoteRouter s1 = m_RemoteRouter s \<and> m_PeerTest s1 = m_PeerTest s \<and>
    size_ok s1 = size_ok s \<and> ssuIncomplete (m_Data s1) = ssuIncomplete (m_Data s) \<and> ssuReceived (m_Data s1) = ssuReceived (m_Data s) \<and>
    m_IsDataReceived s1 = m_IsDataReceived s \<and>
    ssuEvents n1 = ssuEvents n @ [UpdateAddress ip, SentTo (sealed_packet E iv k mk
      (push_bit 4 PAYLOAD_TYPE_SESSION_CONFIRMED # be_bytes 4 (ts :: u32) @ 1 #
       be_bytes 2 (of_nat (GetFullLen (m_Public (contextKeys E))) :: u16) @ idex_bytes (m_Public (contextKeys E)) @ rest')) (m_RemoteEndpoint s)] \<and>
    length iv = 16 \<and> length rest' < 512 \<and> (40 + GetFullLen (m_Public (contextKeys E)) + length rest') mod 16 = 0"
proof -
  let ?l = "length ip"
  have lip: "?l = 4 \<or> ?l = 16" "unat (ip_size ip) = ?l" "(if ip_size ip = 4 then 4 else 16) = ?l"
    using b(4) unat_ip_size [OF b(4)] by (auto simp: ip_ok_def ip_size_def is_v4_def)
  have y: "mem_read 37 256 buf = Some Y"
    using mem_read_append [of 37 H 256 Y "ip_size ip # ip @ port @ tag @ c @ rest"] b(1-3) by simp
  have a: "mem_get 293 buf = Some (ip_size ip)"
    using mem_get_append [of 293 "H @ Y" "ip_size ip" "ip @ port @ tag @ c @ rest"] b(1-3) by simp
  have o: "mem_read 294 ?l buf = Some ip"
    using mem_read_append [of 294 "H @ Y @ [ip_size ip]" ?l ip "port @ tag @ c @ rest"] b(1-3) by simp
  have oa: "mem_read 294 (?l + 2) buf = Some (ip @ port)"
    using mem_read_append [of 294 "H @ Y @ [ip_size ip]" "?l + 2" "ip @ port" "tag @ c @ rest"] b(1-3,5) by simp
  have t: "mem_read (294 + ?l + 2) 8 buf = Some tag"
    using mem_read_append [of "294 + ?l + 2" "H @ Y @ [ip_size ip] @ ip @ port" 8 tag "c @ rest"] b(1-3,5,6) by simp
  have t4: "mem_read (294 + ?l + 2) 4 buf = Some (take 4 tag)"
    using mem_read_sub [OF t, of 0 4] b(6) by simp
  have rc: "mem_read (294 + ?l + 10) (round16 rsl) buf = Some c"
    using mem_read_append [of "294 + ?l + 10" "H @ Y @ [ip_size ip] @ ip @ port @ tag" "round16 rsl" c rest] b(1-3,5-7) by simp
  have iv: "mem_read 16 16 buf = Some (take 16 (drop 16 H))"
    using b(1,2) by (simp add: mem_read_def)
  obtain s1 where s1: "CreateAESandMacKey E Y (s\<lparr>ssuTimer := None\<rparr>) = Some s1" "has_keys k mk s1"
    "s1 = s\<lparr>ssuTimer := None, m_SessionKey := k, m_MacKey := mk, m_IsSessionKey := True, m_SessionKeyEncryption := m_SessionKeyEncryption s1,
      m_SessionKeyDecryption := m_SessionKeyDecryption s1\<rparr>"
    using CreateAESandMacKey_ok [of "s\<lparr>ssuTimer := None\<rparr>" X x E Y sh k mk] d dh by auto
  have f1: "m_DHKeysPair s1 = Some (X, x)" "m_RemoteIdent s1 = m_RemoteIdent s" "ssuState s1 = ssuState s" "m_RemoteEndpoint s1 = m_RemoteEndpoint s"
    "m_RemoteRouter s1 = m_RemoteRouter s" "m_PeerTest s1 = m_PeerTest s" "m_Data s1 = m_Data s"
    "m_IsDataReceived s1 = m_IsDataReceived s"
    by (subst s1(3); simp add: d)+
  let ?dec0 = "CBCDecryption_SetIV (take 16 (drop 16 H)) (m_SessionKeyDecryption s1)"
  obtain sig dec where dc: "CBCDecryption_Decrypt (taes E) c ?dec0 = (sig, dec)" by (cases "CBCDecryption_Decrypt (taes E) c ?dec0")
  have dk: "dKey dec = k"
    using cbc_decrypt_key [of "taes E" "length c div 16" c ?dec0] dc s1(2) by (simp add: CBCDecryption_Decrypt_def CBCDecryption_SetIV_def has_keys_def)
  have lH: "length (take 16 (drop 16 H)) = 16" using b(2) by simp
  have "16 * (length c div 16) = length c" using round16_props(2) [of rsl] b(7) by presburger
  then have ls: "length sig = length c"
    using length_cbc(2) [of "taes E" c "length c div 16" ?dec0] E dc lH by (simp add: CBCDecryption_Decrypt_def CBCDecryption_SetIV_def ssuenv_ok_def)
  obtain b1 where b1: "mem_write (294 + ?l + 10) sig buf = Some b1" "length b1 = length buf"
    using b(1-3,5-7) ls by (simp add: mem_write_def)
  have "rsl \<le> round16 rsl" by (rule round16_props)
  then have "294 + ?l + 10 + rsl \<le> length b1" using b1(2) b(1-3,5-7) by simp
  then obtain x' where "mem_read (294 + ?l + 10) rsl b1 = Some x'" by (simp add: mem_read_def)
  let ?data = "X @ Y @ (ip @ port) @ epIP (m_RemoteEndpoint s1) @ be_bytes 2 (epPort (m_RemoteEndpoint s1)) @ tag"
  obtain vf i2 where v: "Identity_Verify (verifyWith (tsig E)) ?data (294 + ?l + 10) b1 ri = Some (vf, i2)"
    using GetSignatureLen_verify [OF rs \<open>mem_read (294 + ?l + 10) rsl b1 = Some x'\<close>] by blast
  let ?s2 = "s1\<lparr>m_RelayTag := of_be (take 4 tag), m_SessionKeyDecryption := dec, m_RemoteIdent := DropVerifier i2\<rparr>"
  have ks: "has_keys k mk ?s2" using s1(2) dk by (simp add: has_keys_def)
  have d2: "m_DHKeysPair ?s2 = Some (X, x)" using f1(1) by simp
  obtain iv' ts rest' s3 n3 where C: "SendSessionConfirmed E Y (ip @ port) (?s2, emit (UpdateAddress ip) n) = Some (s3, n3)" "core s3 = core ?s2"
    "m_SessionKeyEncryption s3 = m_SessionKeyEncryption ?s2"
    "ssuEvents n3 = ssuEvents (emit (UpdateAddress ip) n) @ [SentTo (sealed_packet E iv' (m_SessionKey ?s2) (m_MacKey ?s2)
      (push_bit 4 PAYLOAD_TYPE_SESSION_CONFIRMED # be_bytes 4 (ts :: u32) @ 1 #
       be_bytes 2 (of_nat (GetFullLen (m_Public (contextKeys E))) :: u16) @ idex_bytes (m_Public (contextKeys E)) @ rest')) (m_RemoteEndpoint ?s2)]"
    "length iv' = 16" "length rest' < 512" "(40 + GetFullLen (m_Public (contextKeys E)) + length rest') mod 16 = 0"
    using SendSessionConfirmed_ok [OF E d2 sl, of Y "ip @ port" "emit (UpdateAddress ip) n"] by (elim exE conjE) (rule that)
  have "ProcessSessionCreated E buf (s, n) = Some (s3, n3)"
    unfolding ProcessSessionCreated_def prod.case Let_def using r d
    by (simp only: y s1(1) f1(1,2) a lip(2,3) o oa t t4 bufbe32toh_eq option.map rs iv rc dc b1(1) v C(1) bind.bind_lunit prod.case
      simp_thms if_False option.distinct add.assoc [symmetric])
  moreover have "has_keys k mk s3" using has_keys_core [OF C(2), of k mk] C(3) ks by simp
  ultimately show ?thesis
    using core_fields [OF C(2)] C(4-7) f1 ks size_ok_core [OF C(2)]
    by (intro exI [of _ iv'] exI [of _ ts] exI [of _ rest'] exI [of _ s3]) (simp add: has_keys_def emit_def size_ok_def)
qed

text \<open>The server has the confirmation.\<close>

text \<open>What the network database and the router context give a session.\<close>

definition context_ok :: "'g ssuenv \<Rightarrow> bool" where
  "context_ok E \<longleftrightarrow> (\<forall>g. sendable (fst (ownRouterInfoMsg E g))) \<and>
     (\<forall>h g r a. fst (netdbFind E h g) = Some r \<and> rtAddress r = Some a \<longrightarrow> aMtu a = 0 \<or> 96 \<le> aMtu a)"

lemma below_sixteens:
  fixes z :: int
  assumes "48 \<le> z"
  shows "48 \<le> z div 16 * 16" "z div 16 * 16 \<le> z"
  using assms by presburger+

lemma AdjustPacketSize_ok:
  assumes "\<And>a. rtAddress r = Some a \<Longrightarrow> aMtu a = 0 \<or> 96 \<le> aMtu a" and "47 \<le> m_PacketSize d \<and> m_PacketSize d \<le> 1456"
    and "m_MaxPacketSize d \<in> {1424, 1456}"
  shows "47 \<le> m_PacketSize (AdjustPacketSize v6 r d) \<and> m_PacketSize (AdjustPacketSize v6 r d) \<le> 1456 \<and>
    m_MaxPacketSize (AdjustPacketSize v6 r d) = m_MaxPacketSize d"
proof (cases "rtAddress r")
  case (Some a)
  let ?z = "aMtu a - (if v6 then IPV6_HEADER_SIZE else IPV4_HEADER_SIZE) - UDP_HEADER_SIZE"
  show ?thesis
  proof (cases "aMtu a = 0")
    case False
    then have "48 \<le> ?z" using assms(1) [OF Some] by auto
    obtain z where z: "z = ?z" by blast
    have a: "48 \<le> z div 16 * 16" "48 \<le> z" using below_sixteens(1) [of z] \<open>48 \<le> ?z\<close> z by simp_all
    have m: "AdjustPacketSize v6 r d = d\<lparr>m_PacketSize := min (z div 16 * 16) (m_MaxPacketSize d)\<rparr>"
      by (simp only: AdjustPacketSize_def Some option.case Let_def False if_False z [symmetric]) (use a(2) in simp)
    show ?thesis unfolding m using assms(3) a(1) by (auto simp: min_def)
  qed (use Some assms in \<open>simp add: AdjustPacketSize_def\<close>)
qed (use assms in \<open>simp add: AdjustPacketSize_def\<close>)

lemma UpdatePacketSize_ok:
  assumes "context_ok E" and "size_ok s" and "m_MaxPacketSize (m_Data s) \<in> {1424, 1456}"
  shows "\<exists>s1 n1. UpdatePacketSize E h (s, n) = (s1, n1) \<and> size_ok s1 \<and> s1 = s\<lparr>m_Data := m_Data s1\<rparr> \<and>
    ssuEvents n1 = ssuEvents n \<and> ssuIncomplete (m_Data s1) = ssuIncomplete (m_Data s) \<and> ssuReceived (m_Data s1) = ssuReceived (m_Data s) \<and>
    ssuSent (m_Data s1) = ssuSent (m_Data s)"
proof (cases "fst (netdbFind E h (ssuWorld n))")
  case (Some r)
  have "47 \<le> m_PacketSize (AdjustPacketSize (IsV6 s) r (m_Data s)) \<and> m_PacketSize (AdjustPacketSize (IsV6 s) r (m_Data s)) \<le> 1456"
    using AdjustPacketSize_ok [of r "m_Data s" "IsV6 s"] assms Some unfolding context_ok_def size_ok_def by blast
  then show ?thesis
    using Some by (auto simp: UpdatePacketSize_def task_eq on_data_def size_ok_def AdjustPacketSize_def Let_def split: option.splits)
qed (use assms in \<open>simp add: UpdatePacketSize_def task_eq\<close>)

lemma Established_ok:
  assumes E: "ssuenv_ok E" "context_ok E" and s: "size_ok s" "\<not> m_PeerTest s"
  shows "\<exists>s1 n1 ps. Established E (s, n) = Some (s1, n1) \<and> ssuState s1 = eSessionStateEstablished \<and> m_DHKeysPair s1 = None \<and>
    ssuTimer s1 = Some TerminationTimer \<and> has_keys k mk s1 = has_keys k mk s \<and> m_RemoteIdent s1 = m_RemoteIdent s \<and>
    m_RemoteEndpoint s1 = m_RemoteEndpoint s \<and> ssuIncomplete (m_Data s1) = ssuIncomplete (m_Data s) \<and>
    ssuReceived (m_Data s1) = ssuReceived (m_Data s) \<and> size_ok s1 \<and> m_MacKey s1 = m_MacKey s \<and> m_IsSessionKey s1 = m_IsSessionKey s \<and>
    m_IsDataReceived s1 = m_IsDataReceived s \<and>
    ssuEvents n1 = ssuEvents n @ map (\<lambda>P. SentTo P (m_RemoteEndpoint s)) ps @ [PeerConnected]"
proof -
  let ?s = "s\<lparr>ssuState := eSessionStateEstablished, m_DHKeysPair := None\<rparr>"
  let ?m = "fst (ownRouterInfoMsg E (ssuWorld n))" and ?n = "n\<lparr>ssuWorld := snd (ownRouterInfoMsg E (ssuWorld n))\<rparr>"
  have m: "sendable ?m" using E(2) by (simp add: context_ok_def)
  have z: "size_ok ?s" using s(1) by (simp add: size_ok_def)
  obtain s1 n1 ps where S: "SSUData_Send E ?m (?s, ?n) = Some (s1, n1)" "core s1 = core ?s"
    "eKey (m_SessionKeyEncryption s1) = eKey (m_SessionKeyEncryption ?s)" "ssuEvents n1 = ssuEvents ?n @ map (\<lambda>P. SentTo P (m_RemoteEndpoint ?s)) ps"
    using SSUData_Send_total [OF E(1) m z, of ?n] by blast
  have p: "\<not> m_PeerTest s1" using core_fields(5) [OF S(2)] s(2) by simp
  have "Established E (s, n) = Some (ScheduleTermination s1, emit PeerConnected n1)"
    unfolding Established_def prod.case task_eq Let_def S(1) bind.bind_lunit using p by simp
  then show ?thesis
    using core_fields [OF S(2)] S(3,4) s(1)
    by (intro exI [of _ "ScheduleTermination s1"] exI [of _ "emit PeerConnected n1"] exI [of _ ps])
      (simp add: ScheduleTermination_def has_keys_def emit_def size_ok_def)
qed

lemma ProcessSessionConfirmed_ok:
  assumes E: "ssuenv_ok E" "context_ok E" and s: "size_ok s" "\<not> m_PeerTest s" "m_MaxPacketSize (m_Data s) \<in> {1424, 1456}"
      "m_ExtendedBuffer (m_RemoteIdent s) \<noteq> Freed"
    and i: "idex_ok i" "GetFullLen i < 65536" "GetSignatureLen (i\<lparr>m_IdentHash := gsha (tgen E) (idex_bytes i), m_Verifier := None\<rparr>) = Some (sl, i1)"
    and b: "buf = H @ 1 # be_bytes 2 (of_nat (GetFullLen i) :: u16) @ idex_bytes i @ rest" "length H = 37"
  shows "\<exists>s1 n1 ps. ProcessSessionConfirmed E buf (s, n) = Some (s1, n1) \<and> ssuState s1 = eSessionStateEstablished \<and>
    ssuTimer s1 = Some TerminationTimer \<and> (\<forall>k mk. has_keys k mk s1 = has_keys k mk s) \<and>
    DropVerifier (m_RemoteIdent s1) = DropVerifier (i\<lparr>m_IdentHash := gsha (tgen E) (idex_bytes i)\<rparr>) \<and> m_RemoteEndpoint s1 = m_RemoteEndpoint s \<and>
    ssuIncomplete (m_Data s1) = ssuIncomplete (m_Data s) \<and> ssuReceived (m_Data s1) = ssuReceived (m_Data s) \<and> size_ok s1 \<and>
    m_IsSessionKey s1 = m_IsSessionKey s \<and> m_IsDataReceived s1 = m_IsDataReceived s \<and>
    ssuEvents n1 = ssuEvents n @ map (\<lambda>P. SentTo P (m_RemoteEndpoint s)) ps @ [PeerConnected]"
proof -
  let ?L = "GetFullLen i" and ?i = "i\<lparr>m_IdentHash := gsha (tgen E) (idex_bytes i), m_Verifier := None\<rparr>"
  have lb: "length (idex_bytes i) = ?L" by (rule length_idex_bytes [OF i(1)])
  have u: "unat (of_nat ?L :: u16) = ?L" using i(2) by (simp add: unat_of_nat)
  have r1: "bufbe16toh 38 buf = Some (of_nat ?L)"
    using mem_read_append [of 38 "H @ [1]" 2 "be_bytes 2 (of_nat ?L :: u16)" "idex_bytes i @ rest"] b by (simp add: bufbe16toh_eq of_le_le_bytes)
  have r2: "mem_read 40 ?L buf = Some (idex_bytes i)"
  proof -
    have "40 = length (H @ [1] @ be_bytes 2 (of_nat ?L :: u16))" using b(2) by simp
    moreover have "?L = length (idex_bytes i)" using lb by (rule sym)
    ultimately have "mem_read 40 ?L ((H @ [1] @ be_bytes 2 (of_nat ?L :: u16)) @ idex_bytes i @ rest) = Some (idex_bytes i)" by (rule mem_read_append)
    then show ?thesis unfolding b(1) by (simp only: append.assoc append_Cons append_Nil)
  qed
  have f: "FromBuffer (gsha (tgen E)) 40 (unat (of_nat ?L :: u16)) buf (m_RemoteIdent s) = Some (?L, ?i)"
    unfolding u by (rule FromBuffer_eq [OF i(1) r2 order_refl s(4)])
  have z1: "size_ok (s\<lparr>m_RemoteIdent := ?i\<rparr>)" using s(1) by (simp add: size_ok_def)
  have m1: "m_MaxPacketSize (m_Data (s\<lparr>m_RemoteIdent := ?i\<rparr>)) \<in> {1424, 1456}" using s(3) by simp
  obtain s1 n1 where U0: "UpdatePacketSize E (m_IdentHash ?i) (s\<lparr>m_RemoteIdent := ?i\<rparr>, n) = (s1, n1)" "size_ok s1"
      "s1 = s\<lparr>m_RemoteIdent := ?i\<rparr>\<lparr>m_Data := m_Data s1\<rparr>" "ssuEvents n1 = ssuEvents n"
      "ssuIncomplete (m_Data s1) = ssuIncomplete (m_Data (s\<lparr>m_RemoteIdent := ?i\<rparr>))"
      "ssuReceived (m_Data s1) = ssuReceived (m_Data (s\<lparr>m_RemoteIdent := ?i\<rparr>))"
    using UpdatePacketSize_ok [OF E(2) z1 m1, of "m_IdentHash ?i" n] by (elim exE conjE) (rule that)
  have U5: "ssuIncomplete (m_Data s1) = ssuIncomplete (m_Data s)" "ssuReceived (m_Data s1) = ssuReceived (m_Data s)"
    using U0(5,6) by simp_all
  note U = U0(1-4) U5
  obtain m n2 where D: "DeliveryStatusMsg E n1 = (Some m, n2)" "sendable m" "ssuEvents n2 = ssuEvents n1"
    using DeliveryStatusMsg_ok [OF E(1)] by blast
  let ?s2 = "s1\<lparr>m_RemoteIdent := i1\<rparr>"
  have z2: "size_ok ?s2" using U(2) by (simp add: size_ok_def)
  obtain s3 n3 ps where S: "SSUData_Send E m (?s2, n2) = Some (s3, n3)" "core s3 = core ?s2"
    "eKey (m_SessionKeyEncryption s3) = eKey (m_SessionKeyEncryption ?s2)" "ssuEvents n3 = ssuEvents n2 @ map (\<lambda>P. SentTo P (m_RemoteEndpoint ?s2)) ps"
    using SSUData_Send_total [OF E(1) D(2) z2, of n2] by blast
  note c = core_fields [OF S(2)]
  have f1: "m_PeerTest s1 = m_PeerTest s" "m_RemoteEndpoint s1 = m_RemoteEndpoint s" "m_IsSessionKey s1 = m_IsSessionKey s"
    "m_IsDataReceived s1 = m_IsDataReceived s" "\<And>k mk. has_keys k mk s1 = has_keys k mk s"
    using arg_cong [OF U(3), of m_PeerTest] arg_cong [OF U(3), of m_RemoteEndpoint] arg_cong [OF U(3), of m_IsSessionKey]
      arg_cong [OF U(3), of m_IsDataReceived]
      arg_cong [OF U(3), of "has_keys k mk" for k mk] by (simp_all add: has_keys_def)
  have z3: "size_ok s3" "\<not> m_PeerTest s3" using size_ok_core [OF S(2)] z2 c(5) f1(1) s(2) by simp_all
  obtain s4 n4 ps' where T: "Established E (s3, n3) = Some (s4, n4)" "ssuState s4 = eSessionStateEstablished" "ssuTimer s4 = Some TerminationTimer"
    "m_RemoteIdent s4 = m_RemoteIdent s3" "m_RemoteEndpoint s4 = m_RemoteEndpoint s3"
    "ssuIncomplete (m_Data s4) = ssuIncomplete (m_Data s3)" "ssuReceived (m_Data s4) = ssuReceived (m_Data s3)" "size_ok s4"
    "m_IsSessionKey s4 = m_IsSessionKey s3" "m_IsDataReceived s4 = m_IsDataReceived s3" "ssuEvents n4 = ssuEvents n3 @ map (\<lambda>P. SentTo P (m_RemoteEndpoint s3)) ps' @ [PeerConnected]"
    using Established_ok [OF E z3, of n3] by blast
  have hk: "has_keys k mk s4 = has_keys k mk s" for k mk
  proof -
    have "has_keys k mk s4 = has_keys k mk s3" using Established_ok [OF E z3, of n3 k mk] T(1) by auto
    also have "\<dots> = has_keys k mk ?s2" by (rule has_keys_core [OF S(2,3)])
    finally show ?thesis using f1(5) by (simp add: has_keys_def)
  qed
  have w: "with_verifier ?i = Some i1" using i(3) by (auto simp: GetSignatureLen_def split: bind_splits)
  then have dv: "DropVerifier i1 = DropVerifier (i\<lparr>m_IdentHash := gsha (tgen E) (idex_bytes i)\<rparr>)"
    by (auto simp: with_verifier_def CreateVerifier_def DropVerifier_def split: if_splits bind_splits)
  have "ProcessSessionConfirmed E buf (s, n) = Some (s4, n4)"
    unfolding ProcessSessionConfirmed_def prod.case r1 f bind.bind_lunit U(1) Let_def i(3) D(1) S(1) T(1) ..
  then show ?thesis
    using T c U(4-6) D(3) S(4) hk dv f1
    by (intro exI [of _ s4] exI [of _ n4] exI [of _ "ps @ ps'"]) simp
qed

end
