(* ===== verification/SSU_Connect.thy ===== *)
theory SSU_Connect
  imports SSU_Established
begin

text \<open>
  The packets of the handshake between two servers: what \<open>Connect\<close> sends, and what \<open>HandleReceivedPackets\<close> makes of a
  request, of its answer and of a confirmation.
\<close>


section \<open>One packet as a batch\<close>

lemma FlushData_idle: "\<not> m_IsDataReceived s \<Longrightarrow> FlushData (s, n) = (s, n)"
  by (simp add: FlushData_def)

lemma flush_idle:
  assumes "i < length (sObjects v)" and "\<not> m_IsDataReceived (sObjects v ! i)"
  shows "flush (Some i) v = Some v"
  using assms by (simp add: flush_def on_session_def FlushData_idle)

lemma single_packet:
  assumes "select_session F None (pkFrom q) v = Some (i, v1)"
    and "ProcessNextMessage F (pkBuf q) (pkLen q) (pkFrom q) i v1 = Some (False, v2)"
    and "i < length (sObjects v2)" and "\<not> m_IsDataReceived (sObjects v2 ! i)"
  shows "HandleReceivedPackets F [q] v = Some v2"
  using assms by (simp add: HandleReceivedPackets_def flush_idle)

lemma ProcessNextMessage_unknown:
  assumes "i < length (sObjects v)" and "ssuState (sObjects v ! i) = eSessionStateUnknown" and "len \<noteq> 0"
    and "open_packet E buf len ((sObjects v ! i)\<lparr>ssuNumReceived := ssuNumReceived (sObjects v ! i) + len\<rparr>, sNet v) = Some (Opened b, s, n)"
  shows "ProcessNextMessage E buf len sender i v = ProcessMessage E b len sender i (v\<lparr>sObjects := (sObjects v)[i := s], sNet := n\<rparr>)"
  using assms by (simp add: ProcessNextMessage_def Let_def change_session_def)

lemma ProcessMessage_handshake:
  assumes "mem_get 32 b = Some flag" and "53 \<le> len"
  shows "flag = push_bit 4 PAYLOAD_TYPE_SESSION_REQUEST \<Longrightarrow>
      ProcessMessage F b len e i v = map_option (Pair False) (on_session i (ProcessSessionRequest F b e) v)"
    and "flag = push_bit 4 PAYLOAD_TYPE_SESSION_CREATED \<Longrightarrow>
      ProcessMessage F b len e i v = map_option (Pair False) (on_session i (ProcessSessionCreated F b) v)"
    and "flag = push_bit 4 PAYLOAD_TYPE_SESSION_CONFIRMED \<Longrightarrow>
      ProcessMessage F b len e i v = map_option (Pair False) (on_session i (ProcessSessionConfirmed F b) v)"
proof -
  have l: "\<not> len - len mod 16 \<le> 37" using assms(2) by presburger
  show "flag = push_bit 4 PAYLOAD_TYPE_SESSION_REQUEST \<Longrightarrow>
      ProcessMessage F b len e i v = map_option (Pair False) (on_session i (ProcessSessionRequest F b e) v)"
    using l by (simp add: ProcessMessage_def Let_def assms(1))
  show "flag = push_bit 4 PAYLOAD_TYPE_SESSION_CREATED \<Longrightarrow>
      ProcessMessage F b len e i v = map_option (Pair False) (on_session i (ProcessSessionCreated F b) v)"
    using l by (simp add: ProcessMessage_def Let_def assms(1))
  show "flag = push_bit 4 PAYLOAD_TYPE_SESSION_CONFIRMED \<Longrightarrow>
      ProcessMessage F b len e i v = map_option (Pair False) (on_session i (ProcessSessionConfirmed F b) v)"
    using l by (simp add: ProcessMessage_def Let_def assms(1))
qed

text \<open>The packets of the handshake, before they are opened.\<close>

definition request_packet :: "'g ssuenv \<Rightarrow> bytes \<Rightarrow> bytes \<Rightarrow> bytes \<Rightarrow> bool" where
  "request_packet E K X P \<longleftrightarrow> (\<exists>iv ts body. length iv = 16 \<and> (length body = 11 \<or> length body = 27) \<and>
     P = sealed_packet E iv K K (push_bit 4 PAYLOAD_TYPE_SESSION_REQUEST # be_bytes 4 (ts :: u32) @ X @ body))"

definition created_packet :: "'g ssuenv \<Rightarrow> bytes \<Rightarrow> bytes \<Rightarrow> endpoint \<Rightarrow> nat \<Rightarrow> bytes \<Rightarrow> bool" where
  "created_packet E K Y e sl P \<longleftrightarrow> (\<exists>iv ts tag c. length iv = 16 \<and> length tag = 8 \<and> length c = round16 sl \<and>
     P = sealed_packet E iv K K (push_bit 4 PAYLOAD_TYPE_SESSION_CREATED # be_bytes 4 (ts :: u32) @
       Y @ ip_size (epIP e) # epIP e @ be_bytes 2 (epPort e) @ tag @ c))"

definition confirmed_packet :: "'g ssuenv \<Rightarrow> bytes \<Rightarrow> bytes \<Rightarrow> IdentityEx \<Rightarrow> bytes \<Rightarrow> bool" where
  "confirmed_packet E k mk ident P \<longleftrightarrow> (\<exists>iv ts rest. length iv = 16 \<and> length rest < 512 \<and> (40 + GetFullLen ident + length rest) mod 16 = 0 \<and>
     P = sealed_packet E iv k mk (push_bit 4 PAYLOAD_TYPE_SESSION_CONFIRMED # be_bytes 4 (ts :: u32) @ 1 #
       be_bytes 2 (of_nat (GetFullLen ident) :: u16) @ idex_bytes ident @ rest))"

section \<open>The client connects\<close>

text \<open>A session to a router with introduction key \<open>K\<close>, before it connects.\<close>

definition client_session :: "bytes \<Rightarrow> endpoint \<Rightarrow> nat \<Rightarrow> SSUSession \<Rightarrow> bool" where
  "client_session K e sl s \<longleftrightarrow> ssuState s = eSessionStateUnknown \<and> (\<exists>r a. m_RemoteRouter s = Some r \<and> rtAddress r = Some a \<and> aKey a = K) \<and>
     m_RemoteEndpoint s = e \<and> \<not> m_IsSessionKey s \<and> \<not> m_IsDataReceived s \<and> (\<exists>i. GetSignatureLen (m_RemoteIdent s) = Some (sl, i))"

lemma client_intro: "client_session K e sl s \<Longrightarrow> GetIntroKey E s n = (Some K, n)"
  by (auto simp: client_session_def GetIntroKey_def)

lemma Connect_ok:
  assumes E: "ssuenv_ok E" and s: "client_session K e sl s" and ip: "ip_ok (epIP e)"
    and d: "\<And>g. fst (nextDHKeysPair E g) = (X, x)" "length X = 256"
  shows "\<exists>P s1 n1. Connect E (s, n) = Some (s1, n1) \<and> ssuEvents n1 = ssuEvents n @ [SentTo P e] \<and> request_packet E K X P \<and>
    client_session K e sl s1 \<and> m_DHKeysPair s1 = Some (X, x)"
proof -
  let ?n = "n\<lparr>ssuWorld := snd (nextDHKeysPair E (ssuWorld n))\<rparr>"
  let ?s = "(ScheduleConnectTimer s)\<lparr>m_DHKeysPair := Some (X, x)\<rparr>"
  have c: "client_session K e sl ?s" using s by (simp add: client_session_def ScheduleConnectTimer_def)
  have ee: "m_RemoteEndpoint ?s = e" "m_DHKeysPair ?s = Some (X, x)" using c by (simp_all add: client_session_def)
  obtain iv ts body n1 where R: "SendSessionRequest E (?s, ?n) = Some (?s, n1)"
    "ssuEvents n1 = ssuEvents ?n @ [SentTo (sealed_packet E iv K K (push_bit 4 PAYLOAD_TYPE_SESSION_REQUEST # be_bytes 4 (ts :: u32) @ X @ body)) e]"
    "length iv = 16" "length body = 11 \<or> length body = 27"
    using SendSessionRequest_ok [OF E client_intro [OF c] refl ee(2) d(2), of ?n] ip unfolding ee(1) by blast
  have "Connect E (s, n) = Some (?s, n1)"
    using s R(1) d(1) by (simp add: Connect_def task_eq client_session_def)
  moreover have "request_packet E K X (sealed_packet E iv K K (push_bit 4 PAYLOAD_TYPE_SESSION_REQUEST # be_bytes 4 ts @ X @ body))"
    using R(3,4) unfolding request_packet_def by blast
  ultimately show ?thesis using R(2) c ee(2) by auto
qed

section \<open>The server answers\<close>

text \<open>A session the server has made for a client, with and without keys.\<close>

definition server_session :: "endpoint \<Rightarrow> SSUSession \<Rightarrow> bool" where
  "server_session e s \<longleftrightarrow> ssuState s = eSessionStateUnknown \<and> m_RemoteRouter s = None \<and> m_RemoteEndpoint s = e \<and> \<not> m_PeerTest s \<and>
     \<not> m_IsDataReceived s \<and> size_ok s \<and> m_MaxPacketSize (m_Data s) \<in> {1424, 1456} \<and> m_ExtendedBuffer (m_RemoteIdent s) \<noteq> Freed"

lemma make_session_server:
  "\<exists>s v1. make_session F e None False v = Some (length (sObjects v), v1) \<and> server_session e s \<and> \<not> m_IsSessionKey s \<and>
     m_DHKeysPair s = None \<and> sObjects v1 = sObjects v @ [s] \<and> m_Sessions v1 = m_Sessions v \<and> ssuEvents (sNet v1) = ssuEvents (sNet v)"
  by (simp add: make_session_def newSSUSession_def task_eq Let_def server_session_def newIdentityEx_def newSSUData_def size_ok_def)

lemma select_new:
  assumes "map_find e (m_Sessions v) = None" and "smap_ok (m_Sessions v)"
  shows "\<exists>s v1. select_session F None e v = Some (length (sObjects v), v1) \<and> server_session e s \<and> \<not> m_IsSessionKey s \<and>
     m_DHKeysPair s = None \<and> sObjects v1 = sObjects v @ [s] \<and> map_find e (m_Sessions v1) = Some (length (sObjects v)) \<and>
     ssuEvents (sNet v1) = ssuEvents (sNet v)"
proof -
  obtain s v1 where m: "make_session F e None False v = Some (length (sObjects v), v1)" "server_session e s" "\<not> m_IsSessionKey s"
    "m_DHKeysPair s = None" "sObjects v1 = sObjects v @ [s]" "m_Sessions v1 = m_Sessions v" "ssuEvents (sNet v1) = ssuEvents (sNet v)"
    using make_session_server [of F e v] by blast
  let ?s = "WaitForConnect s"
  have "server_session e ?s \<and> \<not> m_IsSessionKey ?s \<and> m_DHKeysPair ?s = None"
    using m(2-4) by (simp add: WaitForConnect_def ScheduleConnectTimer_def server_session_def size_ok_def)
  then show ?thesis
    using assms m(1,5-7)
    by (intro exI [of _ ?s] exI [of _ "(change_session (length (sObjects v)) WaitForConnect v1)\<lparr>m_Sessions := map_put e (length (sObjects v)) (m_Sessions v)\<rparr>"])
      (simp add: select_session_def change_session_def map_find_put)
qed


text \<open>What the server relies on: its own addresses with the introduction key, key pairs and signatures.\<close>

definition server_env :: "'g ssuenv \<Rightarrow> bytes \<Rightarrow> bytes \<Rightarrow> bytes \<Rightarrow> nat \<Rightarrow> bool" where
  "server_env F K Y y sl \<longleftrightarrow> ssuenv_ok F \<and> (\<forall>g. \<exists>a. fst (contextSSU F g) = Some a \<and> aKey a = K) \<and>
     (\<exists>a. \<forall>g. fst (contextSSUV4 F g) = Some a) \<and> (\<exists>a. \<forall>g. fst (contextSSUV6 F g) = Some a) \<and>
     (\<forall>g. fst (nextDHKeysPair F g) = (Y, y)) \<and> length Y = 256 \<and> can_sign F sl \<and> sl \<le> 64"

lemma server_intro:
  assumes "server_env F K Y y sl" and "m_RemoteRouter s = None"
  shows "\<exists>n1. GetIntroKey F s n = (Some K, n1) \<and> ssuEvents n1 = ssuEvents n \<and> m_PeerTests n1 = m_PeerTests n"
proof -
  obtain a where "fst (contextSSU F (ssuWorld n)) = Some a" "aKey a = K" using assms(1) unfolding server_env_def by blast
  then show ?thesis using assms(2) by (simp add: GetIntroKey_def task_eq)
qed

lemma ProcessSessionRequest_core:
  assumes F: "server_env F K Y y sl" and s: "m_RemoteRouter s = None" "m_DHKeysPair s = None" and ip: "ip_ok (epIP e)"
    and dh: "dhAgree F y X = Some sh" "derive_keys (gsha (tgen F)) sh = Some (k, mk)"
    and b: "buf = H @ X @ rest" "length H = 37" "length X = 256"
  shows "\<exists>P s1 n1. ProcessSessionRequest F buf e (s, n) = Some (s1, n1) \<and> has_keys k mk s1 \<and>
    core s1 = core (s\<lparr>m_RemoteEndpoint := e, m_DHKeysPair := Some (Y, y), m_SessionKey := k, m_MacKey := mk, m_IsSessionKey := True,
      m_SessionKeyDecryption := m_SessionKeyDecryption s1\<rparr>) \<and>
    ssuEvents n1 = ssuEvents n @ [SentTo P e] \<and> created_packet F K Y e sl P"
proof -
  have E: "ssuenv_ok F" and d: "fst (nextDHKeysPair F (ssuWorld n)) = (Y, y)" "length Y = 256" and sg: "can_sign F sl" "sl \<le> 64"
    using F by (simp_all add: server_env_def)
  let ?n1 = "n\<lparr>ssuWorld := snd (nextDHKeysPair F (ssuWorld n))\<rparr>"
  let ?r = "s\<lparr>m_RemoteEndpoint := e, m_DHKeysPair := Some (Y, y)\<rparr>"
  have x: "mem_read 37 256 buf = Some X" using mem_read_append [of 37 H 256 X rest] b by simp
  obtain s3 where s3: "CreateAESandMacKey F X ?r = Some s3" "has_keys k mk s3"
    "s3 = ?r\<lparr>m_SessionKey := k, m_MacKey := mk, m_IsSessionKey := True, m_SessionKeyEncryption := m_SessionKeyEncryption s3,
      m_SessionKeyDecryption := m_SessionKeyDecryption s3\<rparr>"
    using CreateAESandMacKey_ok [of ?r Y y F X sh k mk] dh by auto
  have f: "m_RemoteRouter s3 = None" "m_DHKeysPair s3 = Some (Y, y)" "m_RemoteEndpoint s3 = e"
    by (subst s3(3); use s(1) in simp)+
  have c3: "core s3 = core (s\<lparr>m_RemoteEndpoint := e, m_DHKeysPair := Some (Y, y), m_SessionKey := k, m_MacKey := mk, m_IsSessionKey := True,
      m_SessionKeyDecryption := m_SessionKeyDecryption s3\<rparr>)"
    by (subst (1) s3(3)) (simp add: core_def)
  obtain n2 where gi: "GetIntroKey F s3 ?n1 = (Some K, n2)" "ssuEvents n2 = ssuEvents ?n1" using server_intro [OF F f(1)] by blast
  obtain a where a: "\<And>g. fst ((if IsV6 s3 then contextSSUV6 F else contextSSUV4 F) g) = Some a"
    using F unfolding server_env_def by (cases "IsV6 s3") auto
  have ips: "ip_ok (epIP (m_RemoteEndpoint s3))" unfolding f(3) by (rule ip)
  obtain iv ts tag c s4 n4 where C: "SendSessionCreated F X (s3, ?n1) = Some (s4, n4)" "core s4 = core s3"
    "eKey (m_SessionKeyEncryption s4) = eKey (m_SessionKeyEncryption s3)"
    "ssuEvents n4 = ssuEvents ?n1 @ [SentTo (sealed_packet F iv K K (push_bit 4 PAYLOAD_TYPE_SESSION_CREATED # be_bytes 4 (ts :: u32) @
      Y @ ip_size (epIP (m_RemoteEndpoint s3)) # epIP (m_RemoteEndpoint s3) @ be_bytes 2 (epPort (m_RemoteEndpoint s3)) @ tag @ c))
      (m_RemoteEndpoint s3)]" "length iv = 16" "length tag = 8" "length c = round16 sl"
    using SendSessionCreated_ok [OF E gi a f(2) d(2) ips sg, of X] by (elim exE conjE) (rule that)
  have "ProcessSessionRequest F buf e (s, n) = Some (s4, n4)"
    unfolding ProcessSessionRequest_def prod.case Let_def using s(2) d(1)
    by (simp add: task_eq x s3(1) C(1))
  moreover have "has_keys k mk s4" using has_keys_core [OF C(2,3)] s3(2) by simp
  moreover have "created_packet F K Y e sl (sealed_packet F iv K K (push_bit 4 PAYLOAD_TYPE_SESSION_CREATED # be_bytes 4 ts @
      Y @ ip_size (epIP e) # epIP e @ be_bytes 2 (epPort e) @ tag @ c))"
    using C(5-7) unfolding created_packet_def by blast
  ultimately show ?thesis using C(2,4) f(3) c3 core_fields(8) [OF C(2)] by auto
qed

lemma core_server_session:
  assumes "core s1 = core s" and "server_session e s"
  shows "server_session e s1"
  using assms(2) core_fields [OF assms(1)] size_ok_core [OF assms(1)] arg_cong [OF assms(1), of "\<lambda>s. m_MaxPacketSize (m_Data s)"]
  by (simp add: server_session_def core_def)

lemma ProcessSessionRequest_ok:
  assumes "server_env F K Y y sl" and s: "server_session e s" "m_DHKeysPair s = None" and "ip_ok (epIP e)"
    and "dhAgree F y X = Some sh" "derive_keys (gsha (tgen F)) sh = Some (k, mk)"
    and "buf = H @ X @ rest" "length H = 37" "length X = 256"
  shows "\<exists>P s1 n1. ProcessSessionRequest F buf e (s, n) = Some (s1, n1) \<and> server_session e s1 \<and> has_keys k mk s1 \<and>
    ssuEvents n1 = ssuEvents n @ [SentTo P e] \<and> created_packet F K Y e sl P"
proof -
  have r: "m_RemoteRouter s = None" using s(1) by (simp add: server_session_def)
  have "server_session e (s\<lparr>m_RemoteEndpoint := e, m_DHKeysPair := Some (Y, y), m_SessionKey := k, m_MacKey := mk, m_IsSessionKey := True,
      m_SessionKeyDecryption := d\<rparr>)" for d
    using s(1) by (simp add: server_session_def size_ok_def)
  then show ?thesis
    using ProcessSessionRequest_core [OF assms(1) r s(2) assms(4-9), of n] core_server_session by blast
qed

lemma opened_header:
  assumes "length P = 32 + length plain" and "plain = x # be_bytes 4 (ts :: u32) @ payload" and "32 \<le> length P"
  shows "take 32 P @ plain @ rest = (take 32 P @ x # be_bytes 4 ts) @ payload @ rest" "length (take 32 P @ x # be_bytes 4 ts) = 37"
    "mem_get 32 (take 32 P @ plain @ rest) = Some x"
proof -
  show "take 32 P @ plain @ rest = (take 32 P @ x # be_bytes 4 ts) @ payload @ rest" by (simp add: assms(2))
  show "length (take 32 P @ x # be_bytes 4 ts) = 37" using assms(3) by simp
  show "mem_get 32 (take 32 P @ plain @ rest) = Some x"
    using mem_get_append [of 32 "take 32 P" x "be_bytes 4 ts @ payload @ rest"] assms(2,3) by simp
qed

lemma request_received:
  assumes F: "server_env F K Y y sl" and E: "ssuenv_ok E" "same_crypto E F"
    and dh: "dhAgree F y X = Some sh" "derive_keys (gsha (tgen F)) sh = Some (k, mk)" "length X = 256"
    and P: "request_packet E K X P" "in_buffer P q" "pkFrom q = e" and ip: "ip_ok (epIP e)"
    and v: "map_find e (m_Sessions v) = None" "smap_ok (m_Sessions v)"
  shows "\<exists>P2 j v1. HandleReceivedPackets F [q] v = Some v1 \<and> j < length (sObjects v1) \<and> map_find e (m_Sessions v1) = Some j \<and>
    server_session e (sObjects v1 ! j) \<and> has_keys k mk (sObjects v1 ! j) \<and> created_packet F K Y e sl P2 \<and>
    ssuEvents (sNet v1) = ssuEvents (sNet v) @ [SentTo P2 e]"
proof -
  let ?j = "length (sObjects v)"
  obtain s v1 where S: "select_session F None e v = Some (?j, v1)" "server_session e s" "\<not> m_IsSessionKey s" "m_DHKeysPair s = None"
    "sObjects v1 = sObjects v @ [s]" "map_find e (m_Sessions v1) = Some ?j" "ssuEvents (sNet v1) = ssuEvents (sNet v)"
    using select_new [OF v, of F] by blast
  have sj: "sObjects v1 ! ?j = s" "?j < length (sObjects v1)" unfolding S(5) by simp_all
  obtain iv ts body where p: "length iv = 16" "length body = 11 \<or> length body = 27"
    "P = sealed_packet E iv K K (push_bit 4 PAYLOAD_TYPE_SESSION_REQUEST # be_bytes 4 (ts :: u32) @ X @ body)"
    using P(1) unfolding request_packet_def by blast
  define plain where "plain = push_bit 4 PAYLOAD_TYPE_SESSION_REQUEST # be_bytes 4 ts @ X @ body"
  have lp: "5 \<le> length plain" "length plain \<le> 1966" "250 \<le> length plain" using p(2) dh(3) by (auto simp: plain_def)
  let ?s = "s\<lparr>ssuNumReceived := ssuNumReceived s + pkLen q\<rparr>"
  have ns: "\<not> m_IsSessionKey ?s" "m_RemoteRouter ?s = None" using S(2,3) by (simp_all add: server_session_def)
  obtain n1 where gi: "GetIntroKey F ?s (sNet v1) = (Some K, n1)" "ssuEvents n1 = ssuEvents (sNet v1)"
    using server_intro [OF F ns(2)] by blast
  obtain rest where O: "open_packet F (pkBuf q) (pkLen q) (?s, sNet v1) = Some (Opened (take 32 P @ plain @ rest), ?s, n1)"
    "length P = 32 + length plain"
    using open_intro [OF E p(3) [folded plain_def] p(1) lp(1,2) P(2) _ gi(1)] ns(1) by blast
  have l32: "32 \<le> length P" using O(2) by simp
  note h = opened_header [OF O(2) plain_def l32]
  have ss: "server_session e ?s" "m_DHKeysPair ?s = None" using S(2,4) by (simp_all add: server_session_def size_ok_def)
  have bb: "take 32 P @ plain @ rest = (take 32 P @ push_bit 4 PAYLOAD_TYPE_SESSION_REQUEST # be_bytes 4 ts) @ X @ body @ rest"
    using h(1) [of rest] by simp
  obtain P2 s2 n2 where R: "ProcessSessionRequest F (take 32 P @ plain @ rest) e (?s, n1) = Some (s2, n2)" "server_session e s2"
    "has_keys k mk s2" "ssuEvents n2 = ssuEvents n1 @ [SentTo P2 e]" "created_packet F K Y e sl P2"
    using ProcessSessionRequest_ok [OF F ss ip dh(1,2) bb h(2) dh(3), of n1] by blast
  have len: "pkLen q \<noteq> 0" "53 \<le> pkLen q" using P(2) O(2) lp(3) by (simp_all add: in_buffer_def)
  have un: "ssuState (sObjects v1 ! ?j) = eSessionStateUnknown" using S(2) sj(1) by (simp add: server_session_def)
  let ?v2 = "v1\<lparr>sObjects := (sObjects v1)[?j := ?s], sNet := n1\<rparr>"
  let ?v3 = "v1\<lparr>sObjects := (sObjects v1)[?j := s2], sNet := n2\<rparr>"
  have os: "on_session ?j (ProcessSessionRequest F (take 32 P @ plain @ rest) e) ?v2 = Some ?v3"
    using sj(2) R(1) by (simp add: on_session_def)
  have "ProcessNextMessage F (pkBuf q) (pkLen q) e ?j v1 = Some (False, ?v3)"
    using ProcessNextMessage_unknown [OF sj(2) un len(1) O(1) [folded sj(1)], of e] ProcessMessage_handshake(1) [OF h(3) [of rest] len(2) refl, of F e ?j ?v2] os
    unfolding sj(1) by simp
  then have "HandleReceivedPackets F [q] v = Some ?v3"
    by (intro single_packet [of _ _ _ ?j v1]) (use P(3) S(1) sj(2) R(2) in \<open>simp_all add: server_session_def\<close>)
  then show ?thesis using sj(2) S(6,7) R(2-5) gi(2) by (intro exI [of _ P2] exI [of _ ?j] exI [of _ ?v3]) simp
qed


section \<open>The client confirms\<close>

lemma created_received:
  assumes E: "ssuenv_ok E" "ssuenv_ok F" "same_crypto F E"
    and s: "client_session K e sl (sObjects v ! i)" "m_DHKeysPair (sObjects v ! i) = Some (X, x)" "i < length (sObjects v)"
      "map_find e (m_Sessions v) = Some i"
    and dh: "dhAgree E x Y = Some sh" "derive_keys (gsha (tgen E)) sh = Some (k, mk)" "length Y = 256"
    and sg: "can_sign E sl'" "round16 (44 + GetFullLen (m_Public (contextKeys E)) + sl') \<le> 512" "sl \<le> 64"
    and P: "created_packet F K Y own sl P" "in_buffer P q" "pkFrom q = e" and ip: "ip_ok (epIP own)"
  shows "\<exists>P3 v1. HandleReceivedPackets E [q] v = Some v1 \<and> has_keys k mk (sObjects v1 ! i) \<and>
    confirmed_packet E k mk (m_Public (contextKeys E)) P3 \<and>
    ssuEvents (sNet v1) = ssuEvents (sNet v) @ [UpdateAddress (epIP own), SentTo P3 e]"
proof -
  let ?old = "sObjects v ! i"
  have sel: "select_session E None (pkFrom q) v = Some (i, v)" using s(4) P(3) by (simp add: select_session_def)
  obtain iv ts tag c where p: "length iv = 16" "length tag = 8" "length c = round16 sl"
    "P = sealed_packet F iv K K (push_bit 4 PAYLOAD_TYPE_SESSION_CREATED # be_bytes 4 (ts :: u32) @
       Y @ ip_size (epIP own) # epIP own @ be_bytes 2 (epPort own) @ tag @ c)"
    using P(1) unfolding created_packet_def by blast
  define plain where "plain = push_bit 4 PAYLOAD_TYPE_SESSION_CREATED # be_bytes 4 ts @
       Y @ ip_size (epIP own) # epIP own @ be_bytes 2 (epPort own) @ tag @ c"
  have "round16 sl < sl + 16" by (rule round16_props(3))
  then have lp: "5 \<le> length plain" "length plain \<le> 1966" "250 \<le> length plain"
    using p(2,3) dh(3) ip sg(3) by (auto simp: plain_def ip_ok_def)
  let ?s = "?old\<lparr>ssuNumReceived := ssuNumReceived ?old + pkLen q\<rparr>"
  have cs: "client_session K e sl ?s" and d: "m_DHKeysPair ?s = Some (X, x)" using s(1,2) by (simp_all add: client_session_def)
  then have ns: "\<not> m_IsSessionKey ?s" "m_RemoteRouter ?s \<noteq> None" "m_RemoteEndpoint ?s = e" "\<not> m_IsDataReceived ?s"
    and un: "ssuState ?old = eSessionStateUnknown"
    using s(1) by (auto simp: client_session_def)
  obtain ri where ri: "GetSignatureLen (m_RemoteIdent ?s) = Some (sl, ri)" using cs by (auto simp: client_session_def)
  obtain rest where O: "open_packet E (pkBuf q) (pkLen q) (?s, sNet v) = Some (Opened (take 32 P @ plain @ rest), ?s, sNet v)"
    "length P = 32 + length plain"
    using open_intro [OF E(2,3) p(4) [folded plain_def] p(1) lp(1,2) P(2) _ client_intro [OF cs]] ns(1) by blast
  have l32: "32 \<le> length P" using O(2) by simp
  note h = opened_header [OF O(2) plain_def l32]
  have bb: "take 32 P @ plain @ rest = (take 32 P @ push_bit 4 PAYLOAD_TYPE_SESSION_CREATED # be_bytes 4 ts) @
      Y @ ip_size (epIP own) # epIP own @ be_bytes 2 (epPort own) @ tag @ c @ rest"
    unfolding h(1) [of rest] by (simp only: append.assoc append_Cons)
  have lport: "length (be_bytes 2 (epPort own)) = 2" by simp
  obtain iv' ts' rest' s1 n1 where R: "ProcessSessionCreated E (take 32 P @ plain @ rest) (?s, sNet v) = Some (s1, n1)" "has_keys k mk s1"
    "m_IsDataReceived s1 = m_IsDataReceived ?s"
    "ssuEvents n1 = ssuEvents (sNet v) @ [UpdateAddress (epIP own), SentTo (sealed_packet E iv' k mk
      (push_bit 4 PAYLOAD_TYPE_SESSION_CONFIRMED # be_bytes 4 (ts' :: u32) @ 1 #
       be_bytes 2 (of_nat (GetFullLen (m_Public (contextKeys E))) :: u16) @ idex_bytes (m_Public (contextKeys E)) @ rest')) (m_RemoteEndpoint ?s)]"
    "length iv' = 16" "length rest' < 512" "(40 + GetFullLen (m_Public (contextKeys E)) + length rest') mod 16 = 0"
    using ProcessSessionCreated_ok [OF E(1) ns(2) d dh(1,2) sg(1,2) ri bb h(2) dh(3) ip lport p(2,3), of "sNet v"] by (elim exE conjE) (rule that)
  let ?v3 = "v\<lparr>sObjects := (sObjects v)[i := s1], sNet := n1\<rparr>"
  have os: "on_session i (ProcessSessionCreated E (take 32 P @ plain @ rest)) (v\<lparr>sObjects := (sObjects v)[i := ?s], sNet := sNet v\<rparr>) = Some ?v3"
    using s(3) R(1) by (simp add: on_session_def)
  have len: "pkLen q \<noteq> 0" "53 \<le> pkLen q" using P(2) O(2) lp(3) by (simp_all add: in_buffer_def)
  have "ProcessNextMessage E (pkBuf q) (pkLen q) (pkFrom q) i v = Some (False, ?v3)"
    unfolding ProcessNextMessage_unknown [OF s(3) un len(1) O(1)] ProcessMessage_handshake(2) [OF h(3) len(2) refl] os by simp
  then have "HandleReceivedPackets E [q] v = Some ?v3"
    by (intro single_packet [OF sel]) (use s(3) R(3) ns(4) in simp_all)
  moreover have "confirmed_packet E k mk (m_Public (contextKeys E)) (sealed_packet E iv' k mk
      (push_bit 4 PAYLOAD_TYPE_SESSION_CONFIRMED # be_bytes 4 ts' @ 1 #
       be_bytes 2 (of_nat (GetFullLen (m_Public (contextKeys E))) :: u16) @ idex_bytes (m_Public (contextKeys E)) @ rest'))"
    unfolding confirmed_packet_def by (intro exI [of _ iv'] exI [of _ ts'] exI [of _ rest'] conjI R(5-7) refl)
  ultimately show ?thesis using s(3) R(2,4) ns(3) by auto
qed

section \<open>The server establishes the session\<close>

text \<open>A session that expects a confirmation; the confirmation before it is sealed, and what a session makes of it.\<close>

definition awaits :: "endpoint \<Rightarrow> SSUSession \<Rightarrow> bool" where
  "awaits e s \<longleftrightarrow> size_ok s \<and> \<not> m_PeerTest s \<and> m_MaxPacketSize (m_Data s) \<in> {1424, 1456} \<and> m_ExtendedBuffer (m_RemoteIdent s) \<noteq> Freed \<and>
     \<not> m_IsDataReceived s \<and> m_RemoteEndpoint s = e"

lemma server_awaits: "server_session e s \<Longrightarrow> awaits e (s\<lparr>ssuNumReceived := k\<rparr>)"
  "server_session e s \<Longrightarrow> awaits e (s\<lparr>ssuNumReceived := k, m_SessionKeyDecryption := d\<rparr>)"
  by (simp_all add: server_session_def awaits_def size_ok_def)

definition confirmation :: "u32 \<Rightarrow> IdentityEx \<Rightarrow> bytes \<Rightarrow> bytes" where
  "confirmation ts i body = push_bit 4 PAYLOAD_TYPE_SESSION_CONFIRMED # be_bytes 4 ts @ 1 #
     be_bytes 2 (of_nat (GetFullLen i) :: u16) @ idex_bytes i @ body"

lemma confirmed_packet_confirmation:
  "confirmed_packet E k mk i P \<longleftrightarrow> (\<exists>iv ts rest. length iv = 16 \<and> length rest < 512 \<and> (40 + GetFullLen i + length rest) mod 16 = 0 \<and>
     P = sealed_packet E iv k mk (confirmation ts i rest))"
  by (simp add: confirmed_packet_def confirmation_def)

lemma confirmed_packetD:
  assumes "confirmed_packet E k mk i P" and "idex_ok i" and "GetFullLen i < 1000"
  obtains iv ts body where "length iv = 16" "P = sealed_packet E iv k mk (confirmation ts i body)" "16 dvd length (confirmation ts i body)"
    "250 \<le> length (confirmation ts i body)" "length (confirmation ts i body) \<le> 1966"
proof -
  obtain iv ts body where p: "length iv = 16" "length body < 512" "(40 + GetFullLen i + length body) mod 16 = 0"
    "P = sealed_packet E iv k mk (confirmation ts i body)"
    using assms(1) unfolding confirmed_packet_confirmation by (elim exE conjE) (rule that)
  have l: "length (confirmation ts i body) = 8 + GetFullLen i + length body"
    using length_idex_bytes [OF assms(2)] by (simp add: confirmation_def)
  have "16 dvd length (confirmation ts i body)" unfolding l using p(3) by presburger
  moreover have "387 \<le> GetFullLen i" by (simp add: GetFullLen_def)
  then have "250 \<le> length (confirmation ts i body)" "length (confirmation ts i body) \<le> 1966"
    unfolding l using p(2) assms(3) by linarith+
  ultimately show thesis using p(1,4) by (intro that)
qed

lemma confirmation_processed:
  assumes F: "ssuenv_ok F" "context_ok F" and s: "ssuState (sObjects v ! j) = eSessionStateUnknown" "j < length (sObjects v)"
    and i: "idex_ok i" "GetFullLen i < 1000" "GetSignatureLen (i\<lparr>m_IdentHash := gsha (tgen F) (idex_bytes i), m_Verifier := None\<rparr>) = Some (sl, i1)"
    and O: "open_packet F (pkBuf q) (pkLen q) ((sObjects v ! j)\<lparr>ssuNumReceived := ssuNumReceived (sObjects v ! j) + pkLen q\<rparr>, sNet v) =
        Some (Opened (take 32 P @ confirmation ts i body @ rest), s1, n1)"
      "length P = 32 + length (confirmation ts i body)" "250 \<le> length (confirmation ts i body)"
    and q: "in_buffer P q" and w: "awaits e s1"
  shows "\<exists>v1 ps. ProcessNextMessage F (pkBuf q) (pkLen q) (pkFrom q) j v = Some (False, v1) \<and> length (sObjects v1) = length (sObjects v) \<and>
    m_Sessions v1 = m_Sessions v \<and> ssuState (sObjects v1 ! j) = eSessionStateEstablished \<and>
    (\<forall>k mk. has_keys k mk (sObjects v1 ! j) = has_keys k mk s1) \<and> m_IsSessionKey (sObjects v1 ! j) = m_IsSessionKey s1 \<and>
    \<not> m_IsDataReceived (sObjects v1 ! j) \<and>
    DropVerifier (m_RemoteIdent (sObjects v1 ! j)) = DropVerifier (i\<lparr>m_IdentHash := gsha (tgen F) (idex_bytes i)\<rparr>) \<and>
    ssuEvents (sNet v1) = ssuEvents n1 @ map (\<lambda>P. SentTo P e) ps @ [PeerConnected]"
proof -
  have l32: "32 \<le> length P" using O(2) by simp
  note h = opened_header [OF O(2) confirmation_def l32]
  have bb: "take 32 P @ confirmation ts i body @ rest = (take 32 P @ push_bit 4 PAYLOAD_TYPE_SESSION_CONFIRMED # be_bytes 4 ts) @
      1 # be_bytes 2 (of_nat (GetFullLen i) :: u16) @ idex_bytes i @ body @ rest"
    unfolding h(1) [of rest] by (simp only: append.assoc append_Cons)
  have ss: "size_ok s1" "\<not> m_PeerTest s1" "m_MaxPacketSize (m_Data s1) \<in> {1424, 1456}" "m_ExtendedBuffer (m_RemoteIdent s1) \<noteq> Freed"
    "\<not> m_IsDataReceived s1" "m_RemoteEndpoint s1 = e"
    using w by (simp_all add: awaits_def)
  have lf: "GetFullLen i < 65536" using i(2) by simp
  obtain s2 n2 ps where R: "ProcessSessionConfirmed F (take 32 P @ confirmation ts i body @ rest) (s1, n1) = Some (s2, n2)"
    "ssuState s2 = eSessionStateEstablished" "\<forall>k mk. has_keys k mk s2 = has_keys k mk s1"
    "DropVerifier (m_RemoteIdent s2) = DropVerifier (i\<lparr>m_IdentHash := gsha (tgen F) (idex_bytes i)\<rparr>)"
    "m_IsSessionKey s2 = m_IsSessionKey s1" "m_IsDataReceived s2 = m_IsDataReceived s1"
    "ssuEvents n2 = ssuEvents n1 @ map (\<lambda>P. SentTo P (m_RemoteEndpoint s1)) ps @ [PeerConnected]"
    using ProcessSessionConfirmed_ok [OF F ss(1-4) i(1) lf i(3) bb h(2), of n1] by (elim exE conjE) (rule that)
  let ?v3 = "v\<lparr>sObjects := (sObjects v)[j := s2], sNet := n2\<rparr>"
  have os: "on_session j (ProcessSessionConfirmed F (take 32 P @ confirmation ts i body @ rest)) (v\<lparr>sObjects := (sObjects v)[j := s1], sNet := n1\<rparr>) = Some ?v3"
    using s(2) R(1) by (simp add: on_session_def)
  have len: "pkLen q \<noteq> 0" "53 \<le> pkLen q" using q O(2,3) by (simp_all add: in_buffer_def)
  have "ProcessNextMessage F (pkBuf q) (pkLen q) (pkFrom q) j v = Some (False, ?v3)"
    unfolding ProcessNextMessage_unknown [OF s(2,1) len(1) O(1)] ProcessMessage_handshake(3) [OF h(3) len(2) refl] os by simp
  then show ?thesis using s(2) R(2-7) ss(5,6) by (intro exI [of _ ?v3] exI [of _ ps]) simp
qed

lemma confirmed_received:
  assumes F: "ssuenv_ok F" "context_ok F" and E: "ssuenv_ok E" "same_crypto E F"
    and s: "server_session e (sObjects v ! j)" "has_keys k mk (sObjects v ! j)" "j < length (sObjects v)" "map_find e (m_Sessions v) = Some j"
    and i: "idex_ok i" "GetFullLen i < 1000" "GetSignatureLen (i\<lparr>m_IdentHash := gsha (tgen F) (idex_bytes i), m_Verifier := None\<rparr>) = Some (sl, i1)"
    and P: "confirmed_packet E k mk i P" "in_buffer P q" "pkFrom q = e"
  shows "\<exists>v1 ps. HandleReceivedPackets F [q] v = Some v1 \<and> map_find e (m_Sessions v1) = Some j \<and>
    ssuState (sObjects v1 ! j) = eSessionStateEstablished \<and> has_keys k mk (sObjects v1 ! j) \<and>
    DropVerifier (m_RemoteIdent (sObjects v1 ! j)) = DropVerifier (i\<lparr>m_IdentHash := gsha (tgen F) (idex_bytes i)\<rparr>) \<and>
    ssuEvents (sNet v1) = ssuEvents (sNet v) @ map (\<lambda>P. SentTo P e) ps @ [PeerConnected]"
proof -
  let ?old = "sObjects v ! j"
  have sel: "select_session F None (pkFrom q) v = Some (j, v)" using s(4) P(3) by (simp add: select_session_def)
  obtain iv ts body where p: "length iv = 16" "P = sealed_packet E iv k mk (confirmation ts i body)" "16 dvd length (confirmation ts i body)"
    "250 \<le> length (confirmation ts i body)" "length (confirmation ts i body) \<le> 1966" by (rule confirmed_packetD [OF P(1) i(1,2)])
  let ?s = "?old\<lparr>ssuNumReceived := ssuNumReceived ?old + pkLen q\<rparr>"
  have ks: "m_IsSessionKey ?s" "dKey (m_SessionKeyDecryption ?s) = k" "m_MacKey ?s = mk" using s(2) by (simp_all add: has_keys_def)
  have l5: "5 \<le> length (confirmation ts i body)" using p(4) by linarith
  obtain dec rest where O: "open_packet F (pkBuf q) (pkLen q) (?s, sNet v) =
      Some (Opened (take 32 P @ confirmation ts i body @ rest), ?s\<lparr>m_SessionKeyDecryption := dec\<rparr>, sNet v)" "dKey dec = k"
      "length P = 32 + length (confirmation ts i body)"
    using open_fragment [OF E p(2,1,3) l5 p(5) P(2) ks, of "sNet v"] by blast
  have un: "ssuState ?old = eSessionStateUnknown" using s(1) by (simp add: server_session_def)
  obtain v1 ps where R: "ProcessNextMessage F (pkBuf q) (pkLen q) (pkFrom q) j v = Some (False, v1)" "length (sObjects v1) = length (sObjects v)"
    "m_Sessions v1 = m_Sessions v" "ssuState (sObjects v1 ! j) = eSessionStateEstablished"
    "\<forall>k mk. has_keys k mk (sObjects v1 ! j) = has_keys k mk (?s\<lparr>m_SessionKeyDecryption := dec\<rparr>)" "\<not> m_IsDataReceived (sObjects v1 ! j)"
    "DropVerifier (m_RemoteIdent (sObjects v1 ! j)) = DropVerifier (i\<lparr>m_IdentHash := gsha (tgen F) (idex_bytes i)\<rparr>)"
    "ssuEvents (sNet v1) = ssuEvents (sNet v) @ map (\<lambda>P. SentTo P e) ps @ [PeerConnected]"
    using confirmation_processed [OF F un s(3) i O(1,3) p(4) P(2) server_awaits(2) [OF s(1)]] by blast
  have "j < length (sObjects v1)" unfolding R(2) by (rule s(3))
  then have "HandleReceivedPackets F [q] v = Some v1" by (intro single_packet [OF sel R(1)] R(6))
  moreover have "has_keys k mk (sObjects v1 ! j)" unfolding R(5) [rule_format] using s(2) O(2) by (simp add: has_keys_def)
  ultimately show ?thesis using s(4) R(3,4,7,8) by auto
qed

end
