(* ===== verification/SSU_Properties.thy ===== *)
theory SSU_Properties
  imports SSU_Link Lease_Set
begin

text \<open>
  What SSU sessions do with messages: what one router sends another one receives, once, whatever the order of the packets.
  Inputs on which the code loses the acknowledgements of fragments or writes behind its buffers.
\<close>

section \<open>An example\<close>

definition demo_ssuenv :: "unit ssuenv" where
  "demo_ssuenv = \<lparr>tgen = demo_genv, taes = demo_aes, tsig = demo_sigenv, md5 = (\<lambda>x. replicate 16 0),
     dhAgree = (\<lambda>priv pub. Some (replicate 256 0x90)), tseconds = (\<lambda>g. (1000, g)), tgarbage = (\<lambda>n g. (replicate n 0, g)),
     nextDHKeysPair = (\<lambda>g. ((replicate 256 1, replicate 256 2), g)), contextKeys = fst (demo_dest 1),
     contextSSU = (\<lambda>g. (Some \<lparr>aHost = [127, 0, 0, 1], aPort = 9, aKey = replicate 32 6, aMtu = 0, introducers = []\<rparr>, g)),
     contextSSUV4 = (\<lambda>g. (None, g)), contextSSUV6 = (\<lambda>g. (None, g)), contextIntroducer = (\<lambda>g. (False, g)),
     ownRouterInfoMsg = (\<lambda>g. (NewI2NPMessage, g)), contextUsesIntroducer = (\<lambda>g. (False, g)), contextUnreachable = (\<lambda>g. (False, g)),
     contextAddIntroducer = (\<lambda>r t g. (False, g)), supportsV6 = False, netdbFind = (\<lambda>h g. (None, g)),
     netdbRandomIntroducer = (\<lambda>g. (None, g))\<rparr>"

lemma demo_ssuenv_ok: "ssuenv_ok demo_ssuenv"
  using demo_genv_ok demo_aes_ok by (simp add: ssuenv_ok_def demo_ssuenv_def)

definition demo_udp :: endpoint where "demo_udp = UdpEndpoint [10, 0, 0, 1] 4000"

definition demo_session :: "endpoint \<Rightarrow> SSUSession" where
  "demo_session e = \<lparr>m_RemoteRouter = None, m_RemoteIdent = demo_idex, m_DHKeysPair = None, ssuNumSent = 0, ssuNumReceived = 0,
     m_RemoteEndpoint = e, m_PeerTest = False, ssuState = eSessionStateEstablished, m_IsSessionKey = True, m_RelayTag = 0,
     m_SessionKeyEncryption = \<lparr>eKey = replicate 32 7, m_LastBlock = replicate 16 0\<rparr>,
     m_SessionKeyDecryption = \<lparr>dKey = replicate 32 7, m_IV = replicate 16 0\<rparr>, m_SessionKey = replicate 32 7, m_MacKey = replicate 32 8,
     m_CreationTime = 0, m_Data = newSSUData False None, m_IsDataReceived = False, ssuTimer = Some TerminationTimer\<rparr>"

definition demo_net :: "unit ssunet" where
  "demo_net = \<lparr>ssuWorld = (), ssuEvents = [], ssuStatus = eRouterStatusTesting, m_Relays = [], m_PeerTests = []\<rparr>"

definition demo_server :: "unit SSUServer" where
  "demo_server = \<lparr>sObjects = [demo_session demo_udp], m_Sessions = [(demo_udp, 0)], m_Introducers = [], sNet = demo_net\<rparr>"

definition demo_ssu_msg :: I2NPMessage where
  "demo_ssu_msg = \<lparr>mbuf = [0, 0] @ i2np_header 20 5 3000 2000 0 @ replicate 2000 3, mlen = 2018, moffset = 2, mmaxLen = 4096, mfrom = None\<rparr>"

lemma demo_ssu_carries: "carries_msg 20 5 3000 (replicate 2000 3) demo_ssu_msg"
  unfolding carries_msg_def demo_ssu_msg_def
  by (intro conjI exI [of _ "[0, 0]"] exI [of _ "0 :: byte"] exI [of _ "[] :: bytes"]) simp_all

lemma demo_listens: "listens (replicate 32 7) (replicate 32 8) cs demo_udp 0 demo_server"
  by (simp add: listens_def demo_server_def rx_session_def rx_inv_def demo_session_def newSSUData_def map_find_def)

section \<open>Messages between two routers\<close>

lemma fst_pairs: "ks \<noteq> [] \<Longrightarrow> fst ` set (map (Pair m) ks) = {m}"
  by (cases ks) (auto simp: image_image)

lemma completed_single:
  assumes "set ks = {0..<length (cs m)}" and "ks \<noteq> []"
  shows "completed cs (map (Pair m) ks) = {m}"
proof -
  have "fst ` set (map (Pair m) ks) = {m}" using assms(2) by (rule fst_pairs)
  then show ?thesis using assms(1) by (auto simp: completed_def)
qed

text \<open>The pieces of a message fit what a session collects, and packets that carry them arrive as its fragments.\<close>

lemma cut_fits:
  assumes "0 < p" "p \<le> 1410" and "length w \<le> 128 * p" "length w \<le> 32771" "5 \<le> length w"
  shows "fits (cut p w)" "cut p w \<noteq> []" "concat (cut p w) = w"
proof -
  show cc: "concat (cut p w) = w" using assms(1) by (intro concat_cut) simp
  show ne: "cut p w \<noteq> []" using cc assms(5) by auto
  have "length w + p - 1 < 129 * p" using assms(1,3) by simp
  then have "(length w + p - 1) div p < 129" by (rule less_mult_imp_div_less)
  then have "length (cut p w) \<le> 128" using assms(1) by (simp add: length_cut)
  moreover have "length c \<le> 1410 \<and> c \<noteq> []" if "c \<in> set (cut p w)" for c using cut_pieces [OF that] assms(2) by simp
  moreover have "length (concat (cut p w)) = length w" using cc by simp
  ultimately show "fits (cut p w)" using ne assms(4,5) unfolding fits_def by fastforce
qed

lemma fragments_arrive:
  assumes a: "list_all2 (\<lambda>k q. k < length Ps \<and> pkFrom q = e \<and> in_buffer (Ps ! k) q) ks qs" and f: "fits (cs m)"
    and P: "length Ps = length (cs m)" "\<forall>k < length Ps. carries_fragment E key mac m k (Suc k = length (cs m)) (cs m ! k) (Ps ! k)"
  shows "list_all2 (arrives E key mac cs e) qs (map (Pair m) ks)"
proof (rule list_all2_all_nthI)
  show "length qs = length (map (Pair m) ks)" using list_all2_lengthD [OF a] by simp
  fix j assume j: "j < length qs"
  then have q: "ks ! j < length Ps" "pkFrom (qs ! j) = e" "in_buffer (Ps ! (ks ! j)) (qs ! j)" "j < length ks"
    using list_all2_nthD2 [OF a] list_all2_lengthD [OF a] by auto
  then have "carries_fragment E key mac m (ks ! j) (Suc (ks ! j) = length (cs m)) (cs m ! (ks ! j)) (Ps ! (ks ! j))"
    using P(2) by simp
  then show "arrives E key mac cs e (qs ! j) (map (Pair m) ks ! j)"
    using q f P(1) unfolding arrives_def by auto
qed

text \<open>
C5. A message of up to 32766 bytes that one router sends over an established SSU session goes out as packets which, received
  by a router whose session has the same keys, in one batch and in any order and any number of times as long as each comes
  at least once, hand on exactly this message, once: with its type, identifier and payload, and its expiration in seconds.
  Packets of other messages may be waiting in both sessions.
\<close>

theorem ssu_transport_delivers:
  assumes "ssuenv_ok E" and "ssuenv_ok F" and "same_crypto E F"
    and "carries_msg t msgID ex payload msg" and "length payload \<le> 32766"
    and "map_find msgID (ssuSent (m_Data s)) = None" and "m_PacketSize (m_Data s) = int p + 46" "0 < p" "p \<le> 1410"
      "length payload + 5 \<le> 128 * p"
    and "listens (eKey (m_SessionKeyEncryption s)) (m_MacKey s) cs e i v" and "map_find e (m_Sessions v) = Some i"
    and "map_find msgID (ssuIncomplete (m_Data (sObjects v ! i))) = None" and "msgID \<notin> ssuReceived (m_Data (sObjects v ! i))"
      "card (ssuReceived (m_Data (sObjects v ! i))) \<le> 1000"
  shows "\<exists>s1 n1 Ps. SSUData_Send E msg (s, n) = Some (s1, n1) \<and>
    ssuEvents n1 = ssuEvents n @ map (\<lambda>P. SentTo P (m_RemoteEndpoint s)) Ps \<and>
    (\<forall>ks qs. list_all2 (\<lambda>k q. k < length Ps \<and> pkFrom q = e \<and> in_buffer (Ps ! k) q) ks qs \<and> set ks = {0..<length Ps} \<longrightarrow>
       (\<exists>v1. HandleReceivedPackets F qs v = Some v1 \<and> ssu_delivered (sNet v1) =
          add_mset (Some t, Some msgID, Some (ucast (ucast (ex div 1000) :: u32) * 1000), Some payload) (handed (sObjects v ! i, sNet v))))"
proof -
  let ?w = "ssu_wire t ex payload" and ?r = "sObjects v ! i"
  let ?key = "eKey (m_SessionKeyEncryption s)" and ?mac = "m_MacKey s"
  let ?cs = "cs(msgID := cut p ?w)"
  obtain m where m: "ToSSU msg = Some (msgID, m)" "mem_read (GetSSUHeader m) (GetLength m) (mbuf m) = Some ?w"
    using ToSSU_wire [OF assms(4)] by auto
  obtain s1 n1 Ps where S: "SSUData_Send E msg (s, n) = Some (s1, n1)"
      "ssuEvents n1 = ssuEvents n @ map (\<lambda>P. SentTo P (m_RemoteEndpoint s)) Ps" "length Ps = length (cut p ?w)"
      "\<forall>k < length Ps. carries_fragment E ?key ?mac msgID k (Suc k = length (cut p ?w)) (cut p ?w ! k) (Ps ! k)"
    using SSUData_Send_ok [OF assms(1) m assms(6-9)] by blast
  have w: "length ?w \<le> 128 * p" "length ?w \<le> 32771" "5 \<le> length ?w" using assms(5,10) by (auto simp: ssu_wire_def)
  note cut = cut_fits [OF assms(8,9) w]
  have l: "listens ?key ?mac ?cs e i v" using assms(11,13) by (auto simp: listens_def rx_session_def rx_inv_def)
  have "\<exists>v1. HandleReceivedPackets F qs v = Some v1 \<and> ssu_delivered (sNet v1) =
      add_mset (Some t, Some msgID, Some (ucast (ucast (ex div 1000) :: u32) * 1000), Some payload) (handed (?r, sNet v))"
    if a: "list_all2 (\<lambda>k q. k < length Ps \<and> pkFrom q = e \<and> in_buffer (Ps ! k) q) ks qs" "set ks = {0..<length Ps}" for ks qs
  proof -
    have ar: "list_all2 (arrives E ?key ?mac ?cs e) qs (map (Pair msgID) ks)"
      using fragments_arrive [OF a(1), of ?cs msgID] cut(1) S(3,4) by simp
    have ks: "ks \<noteq> []" "qs \<noteq> []" using a cut(2) S(3) by auto
    have new: "\<forall>(m, k) \<in> set (map (Pair msgID) ks). map_find m (ssuIncomplete (m_Data ?r)) = None \<and> m \<notin> ssuReceived (m_Data ?r)"
      using assms(13,14) by auto
    have few: "card (ssuReceived (m_Data ?r) \<union> fst ` set (map (Pair msgID) ks)) \<le> 1001"
      unfolding fst_pairs [OF ks(1)] using assms(14,15) by simp
    have "completed ?cs (map (Pair msgID) ks) = {msgID}" using a(2) S(3) ks(1) by (intro completed_single) simp_all
    moreover have "ssu_view msgID (concat (?cs msgID)) = (Some t, Some msgID, Some (ucast (ucast (ex div 1000) :: u32) * 1000), Some payload)"
      unfolding fun_upd_same cut(3) by (simp add: ssu_view_def ssu_wire_def of_le_le_bytes)
    ultimately show ?thesis
      using receive_batch_once [OF assms(1-3) l assms(12) ar ks(2) new few] by auto
  qed
  then show ?thesis using S(1,2) by blast
qed

lemma demo_send_premises:
  "map_find (5 :: u32) (ssuSent (m_Data (demo_session demo_udp))) = None"
  "m_PacketSize (m_Data (demo_session demo_udp)) = int 1410 + 46"
  "map_find (5 :: u32) (ssuIncomplete (m_Data (sObjects demo_server ! 0))) = None"
  "(5 :: u32) \<notin> ssuReceived (m_Data (sObjects demo_server ! 0))" "card (ssuReceived (m_Data (sObjects demo_server ! 0))) \<le> 1000"
  "map_find demo_udp (m_Sessions demo_server) = Some 0"
  "eKey (m_SessionKeyEncryption (demo_session demo_udp)) = replicate 32 7" "m_MacKey (demo_session demo_udp) = replicate 32 8"
  "handed (sObjects demo_server ! 0, sNet demo_server) = {#}"
  by (simp_all add: demo_session_def demo_server_def newSSUData_def map_find_def handed_def demo_net_def)

lemma demo_same_crypto: "same_crypto demo_ssuenv demo_ssuenv"
  by (simp add: same_crypto_def)

lemma ssu_transport_delivers_witness:
  "\<exists>s1 n1 Ps. SSUData_Send demo_ssuenv demo_ssu_msg (demo_session demo_udp, demo_net) = Some (s1, n1) \<and>
    ssuEvents n1 = ssuEvents demo_net @ map (\<lambda>P. SentTo P (m_RemoteEndpoint (demo_session demo_udp))) Ps \<and>
    (\<forall>ks qs. list_all2 (\<lambda>k q. k < length Ps \<and> pkFrom q = demo_udp \<and> in_buffer (Ps ! k) q) ks qs \<and> set ks = {0..<length Ps} \<longrightarrow>
       (\<exists>v1. HandleReceivedPackets demo_ssuenv qs demo_server = Some v1 \<and> ssu_delivered (sNet v1) =
          add_mset (Some 20, Some 5, Some (ucast (ucast (3000 div 1000 :: u64) :: u32) * 1000), Some (replicate 2000 3))
            (handed (sObjects demo_server ! 0, sNet demo_server))))"
proof -
  note p = demo_send_premises
  have l: "length (replicate 2000 (3 :: byte)) \<le> 32766" "(0 :: nat) < 1410" "(1410 :: nat) \<le> 1410"
      "length (replicate 2000 (3 :: byte)) + 5 \<le> 128 * 1410" by simp_all
  show ?thesis
    by (rule ssu_transport_delivers [OF demo_ssuenv_ok demo_ssuenv_ok demo_same_crypto demo_ssu_carries l(1) p(1,2) l(2-4)
      demo_listens [folded p(7,8)] p(6,3-5)])
qed

text \<open>
C12. Packets with fragments of any messages that a session with the same keys receives in one batch, from their endpoint, in
  any order, interleaved and repeated: the batch is processed to its end without an access outside a buffer, exactly the
  messages of which every fragment came are handed on, each once, and remembered, as long as no more than 1001 identifiers are
  known.
\<close>

theorem ssu_receives_once:
  assumes "ssuenv_ok E" and "ssuenv_ok F" and "same_crypto E F" and "listens key macKey cs e i v"
    and "map_find e (m_Sessions v) = Some i" and "list_all2 (arrives E key macKey cs e) ps ids" and "ps \<noteq> []"
    and "\<forall>(m, k) \<in> set ids. map_find m (ssuIncomplete (m_Data (sObjects v ! i))) = None \<and> m \<notin> ssuReceived (m_Data (sObjects v ! i))"
    and "card (ssuReceived (m_Data (sObjects v ! i)) \<union> fst ` set ids) \<le> 1001"
  shows "\<exists>v1. HandleReceivedPackets F ps v = Some v1 \<and>
    ssu_delivered (sNet v1) = handed (sObjects v ! i, sNet v) +
      image_mset (\<lambda>m. ssu_view m (concat (cs m))) (mset_set (completed cs ids)) \<and>
    ssuReceived (m_Data (sObjects v1 ! i)) = ssuReceived (m_Data (sObjects v ! i)) \<union> completed cs ids"
  using receive_batch_once [OF assms] by blast

lemma ssu_receives_once_witness:
  "\<exists>cs ps ids v1. length ps = 2 \<and> HandleReceivedPackets demo_ssuenv ps demo_server = Some v1 \<and>
    ssu_delivered (sNet v1) = handed (sObjects demo_server ! 0, sNet demo_server) +
      image_mset (\<lambda>m. ssu_view m (concat (cs m))) (mset_set (completed cs ids)) \<and> completed cs ids = {5}"
proof -
  note p = demo_send_premises
  let ?w = "ssu_wire 20 3000 (replicate 2000 3)"
  obtain m where m: "ToSSU demo_ssu_msg = Some (5, m)" "mem_read (GetSSUHeader m) (GetLength m) (mbuf m) = Some ?w"
    using ToSSU_wire [OF demo_ssu_carries] by auto
  obtain Ps where S: "length Ps = length (cut 1410 ?w)"
      "\<forall>k < length Ps. carries_fragment demo_ssuenv (replicate 32 7) (replicate 32 8) 5 k (Suc k = length (cut 1410 ?w)) (cut 1410 ?w ! k) (Ps ! k)"
    using SSUData_Send_ok [OF demo_ssuenv_ok m p(1,2), of demo_net] unfolding p(7,8) by auto
  let ?cs = "\<lambda>_ :: u32. cut 1410 ?w"
  let ?q = "\<lambda>k. \<lparr>pkBuf = Ps ! k @ replicate 18 0, pkFrom = demo_udp, pkLen = length (Ps ! k)\<rparr>"
  have lw: "length ?w = 2005" by (simp add: ssu_wire_def)
  have lc: "length (cut 1410 ?w) = 2" using lw by (simp add: length_cut)
  have cc: "concat (cut 1410 ?w) = ?w" by (rule concat_cut) simp
  have f: "fits (cut 1410 ?w)"
    using lc cc lw cut_pieces [of _ 1410 ?w] by (fastforce simp: fits_def)
  have ar: "list_all2 (arrives demo_ssuenv (replicate 32 7) (replicate 32 8) ?cs demo_udp) [?q 1, ?q 0] [(5, 1), (5, 0)]"
  proof -
    have "arrives demo_ssuenv (replicate 32 7) (replicate 32 8) ?cs demo_udp (?q k) (5, k)" if "k < 2" for k
    proof -
      have "in_buffer (Ps ! k) (?q k)" by (simp add: in_buffer_def)
      moreover have "k < length Ps" using that S(1) lc by simp
      ultimately show ?thesis using S(2) f lc that unfolding arrives_def by auto
    qed
    then show ?thesis by simp
  qed
  have c: "completed ?cs [(5, 1), (5, 0)] = {5}" using lc by (auto simp: completed_def less_Suc_eq numeral_2_eq_2)
  have new: "\<forall>(m, k) \<in> set [(5 :: u32, 1 :: nat), (5, 0)]. map_find m (ssuIncomplete (m_Data (sObjects demo_server ! 0))) = None \<and>
      m \<notin> ssuReceived (m_Data (sObjects demo_server ! 0))" using p(3,4) by simp
  have few: "card (ssuReceived (m_Data (sObjects demo_server ! 0)) \<union> fst ` set [(5 :: u32, 1 :: nat), (5, 0)]) \<le> 1001"
    using p(4,5) by simp
  obtain v1 where "HandleReceivedPackets demo_ssuenv [?q 1, ?q 0] demo_server = Some v1"
    "ssu_delivered (sNet v1) = handed (sObjects demo_server ! 0, sNet demo_server) +
      image_mset (\<lambda>m. ssu_view m (concat (?cs m))) (mset_set (completed ?cs [(5, 1), (5, 0)]))"
    using ssu_receives_once [OF demo_ssuenv_ok demo_ssuenv_ok demo_same_crypto demo_listens [of ?cs] p(6) ar _ new few] by auto
  then show ?thesis using c by (intro exI [of _ ?cs] exI [of _ "[?q 1, ?q 0]"] exI [of _ "[(5, 1), (5, 0)]"] exI [of _ v1]) simp
qed


section \<open>Acknowledgements of fragments\<close>

lemma clear_one:
  assumes "j < 7"
  shows "clear_fragments (push_bit j 1) 0 fs = (if j < length fs then fs[j := None] else fs)"
proof -
  have b: "bit (push_bit j 1 :: byte) i \<longleftrightarrow> i = j" if "i < 7" for i
    using that assms by (auto simp: bit_simps)
  have e: "fold (\<lambda>i fs. if bit (push_bit j 1 :: byte) i \<and> 0 + i < length fs then fs[0 + i := None] else fs) [0..<7] fs =
      fold (\<lambda>i fs. if i = j \<and> i < length fs then fs[i := None] else fs) [0..<7] fs"
    by (rule fold_cong) (auto simp only: b set_upt atLeastLessThan_iff add_0)
  have f: "fold (\<lambda>i fs. if i = j \<and> i < length fs then fs[i := None] else fs) is fs = fs" if "j \<notin> set is" for "is" and fs :: "SSUFragment option list"
    using that by (induction "is") auto
  have "[0..<7] = [0..<j] @ j # [Suc j..<7]" using assms upt_add_eq_append [of 0 j "7 - j"] by (simp add: upt_conv_Cons)
  then show ?thesis unfolding clear_fragments_def e
    by (simp add: f)
qed

lemma ack_bitfields_last:
  assumes "j < 7" and "pos < length mem" and "mem ! pos = push_bit j 1"
  shows "ack_bitfields pos 0 mem (Some fs) = Some (pos + 1, Some (if j < length fs then fs[j := None] else fs))"
proof -
  have "(push_bit j 1 :: byte) AND 0x80 = 0" "(push_bit j 1 :: byte) AND 0x7F = push_bit j 1" "push_bit j (1 :: byte) \<noteq> 0"
    using assms(1) by (auto simp: less_Suc_eq numeral_eq_Suc)
  then show ?thesis using assms clear_one [OF assms(1), of fs] by (subst ack_bitfields.simps) simp
qed

lemma ack_bitfields_run:
  assumes "j < 7"
  shows "mem_read pos (Suc k) mem = Some (replicate k 0x80 @ [push_bit j 1]) \<Longrightarrow>
    ack_bitfields pos 0 mem (Some fs) = Some (pos + k + 1, Some (if j < length fs then fs[j := None] else fs))"
proof (induction k arbitrary: pos)
  case 0
  then show ?case using mem_get_read [OF 0, of 0] ack_bitfields_last [OF assms, of pos mem fs] by (auto simp: mem_get_def split: if_splits)
next
  case (Suc k)
  have "mem_get pos mem = Some 0x80" using mem_get_read [OF Suc.prems, of 0] by simp
  then have p: "pos < length mem" "mem ! pos = 0x80" by (auto simp: mem_get_def split: if_splits)
  have "mem_read (pos + 1) (Suc k) mem = Some (replicate k 0x80 @ [push_bit j 1])"
    using mem_read_sub [OF Suc.prems, of 1 "Suc k"] by simp
  from Suc.IH [OF this] show ?case using p by (subst ack_bitfields.simps) simp
qed

text \<open>
C33. The acknowledgement a receiver sends for fragment \<open>n\<close> makes the sender forget fragment \<open>n mod 7\<close>: bitfields without
  a bit do not move the sender on. It is right for the first seven fragments only; for a later one the sender goes on
  resending what has arrived and never again sends the other fragment, which may be lost.
\<close>

theorem fragment_ack_clears:
  assumes "mem_read pos (length (fragment_ack msgID n)) mem = Some (fragment_ack msgID n)"
    and "map_find msgID (ssuSent d) = Some sm" and "n mod 7 < length (fragments sm)"
  shows "ProcessAcks (pos + 1) DATA_FLAG_ACK_BITFIELDS_INCLUDED mem d =
    Some (pos + 6 + n div 7 + 1, d\<lparr>ssuSent := map_put msgID (sm\<lparr>fragments := (fragments sm)[n mod 7 := None]\<rparr>) (ssuSent d)\<rparr>)"
proof -
  let ?a = "fragment_ack msgID n"
  have l: "length ?a = 8 + n div 7" by (simp add: fragment_ack_def)
  have c: "mem_get (pos + 1) mem = Some 1" using mem_get_read [OF assms(1), of 1] by (simp add: fragment_ack_def)
  have "mem_read (pos + 2) 4 mem = Some (take 4 (drop 2 ?a))" using mem_read_sub [OF assms(1), of 2 4] l by simp
  then have i: "bufbe32toh (pos + 2) mem = Some msgID" by (simp add: bufbe32toh_eq fragment_ack_def of_le_le_bytes)
  have "take (Suc (n div 7)) (drop 6 ?a) = replicate (n div 7) 0x80 @ [push_bit (n mod 7) 1]" by (simp add: fragment_ack_def)
  then have "mem_read (pos + 6) (Suc (n div 7)) mem = Some (replicate (n div 7) 0x80 @ [push_bit (n mod 7) 1])"
    using mem_read_sub [OF assms(1), of 6 "Suc (n div 7)"] l by simp
  from ack_bitfields_run [OF _ this, of "fragments sm"]
  have "ack_bitfields (pos + 6) 0 mem (Some (fragments sm)) = Some (pos + 6 + n div 7 + 1, Some ((fragments sm)[n mod 7 := None]))"
    using assms(3) by simp
  note r = this
  have u: "unat (1 :: byte) = Suc 0" "pos + 1 + 1 = pos + 2" "pos + 2 + 4 = pos + 6" by simp_all
  have fl: "DATA_FLAG_ACK_BITFIELDS_INCLUDED AND DATA_FLAG_EXPLICIT_ACKS_INCLUDED = (0 :: byte)"
    "DATA_FLAG_ACK_BITFIELDS_INCLUDED AND DATA_FLAG_ACK_BITFIELDS_INCLUDED \<noteq> (0 :: byte)" by simp_all
  have "ProcessAcks (pos + 1) DATA_FLAG_ACK_BITFIELDS_INCLUDED mem d = bitfield_acks (Suc 0) (pos + 2) mem d"
    unfolding ProcessAcks_def using fl by (simp only: c u simp_thms if_False if_True bind.bind_lunit prod.case)
  also have "\<dots> = Some (pos + 6 + n div 7 + 1, d\<lparr>ssuSent := map_put msgID (sm\<lparr>fragments := (fragments sm)[n mod 7 := None]\<rparr>) (ssuSent d)\<rparr>)"
    by (simp only: bitfield_acks.simps i bind.bind_lunit assms(2) Let_def u option.map r prod.case option.case)
  finally show ?thesis .
qed

lemma fragment_ack_clears_witness:
  "ProcessAcks 1 DATA_FLAG_ACK_BITFIELDS_INCLUDED (fragment_ack 5 9) ((newSSUData False None)\<lparr>ssuSent :=
      [(5, \<lparr>fragments = replicate 10 (Some (saved_fragment 0 [] False)), nextResendTime = 0, numResends = 0\<rparr>)]\<rparr>) =
    Some (8, (newSSUData False None)\<lparr>ssuSent :=
      [(5, \<lparr>fragments = (replicate 10 (Some (saved_fragment 0 [] False)))[2 := None], nextResendTime = 0, numResends = 0\<rparr>)]\<rparr>)"
proof -
  let ?sm = "\<lparr>fragments = replicate 10 (Some (saved_fragment 0 [] False)), nextResendTime = 0, numResends = 0\<rparr>"
  have "mem_read 0 (length (fragment_ack 5 9)) (fragment_ack 5 9) = Some (fragment_ack 5 9)" by (simp add: mem_read_def)
  from fragment_ack_clears [OF this, of "(newSSUData False None)\<lparr>ssuSent := [(5, ?sm)]\<rparr>" ?sm]
  show ?thesis by (simp add: map_find_def)
qed

section \<open>Messages that do not fit\<close>

text \<open>
C34. A router that announces an MTU between 29 and 75 makes the payload size of its IPv4 sessions wrap: a message of more than 1428
  bytes to it is not cut, and the first packet is written behind the 1474 bytes of its fragment.
\<close>

theorem small_mtu_overflow:
  assumes "ssuenv_ok E" and "rtAddress r = Some a" and "29 \<le> aMtu a" "aMtu a \<le> 75" and "m_Data s = newSSUData False (Some r)"
    and "carries_msg t msgID ex payload msg" and "1428 < length payload + 5"
  shows "SSUData_Send E msg (s, n) = None"
proof -
  let ?w = "ssu_wire t ex payload" and ?n = "n\<lparr>ssuWorld := snd (tseconds E (ssuWorld n))\<rparr>"
  obtain m where m: "ToSSU msg = Some (msgID, m)" "GetLength m = length ?w" "mem_read (GetSSUHeader m) (length ?w) (mbuf m) = Some ?w"
    using ToSSU_wire [OF assms(6)] by auto
  have lw: "length ?w = length payload + 5" by (simp add: ssu_wire_def)
  have d: "m_PacketSize (m_Data s) = (aMtu a - 28) div 16 * 16" "ssuSent (m_Data s) = []"
    using assms(2-5) by (auto simp: newSSUData_def AdjustPacketSize_def Let_def)
  have b: "0 \<le> (aMtu a - 28) div 16 * 16" "(aMtu a - 28) div 16 * 16 \<le> 32" using assms(3,4) by presburger+
  define p where "p = nat ((m_PacketSize (m_Data s) - 46) mod 18446744073709551616)"
  have "(m_PacketSize (m_Data s) - 46) mod 18446744073709551616 = m_PacketSize (m_Data s) - 46 + 18446744073709551616"
    using b unfolding d(1) by (subst mod_add_self2 [symmetric], subst mod_pos_pos_trivial) simp_all
  then have p: "18446744073709551570 \<le> p" using b unfolding p_def d(1) by simp
  have big: "length payload < 65536" using assms(6) by (simp add: carries_msg_def)
  have none: "mem_write SSUHeader_size ([DATA_FLAG_WANT_REPLY, 1] @ be_bytes 4 msgID @
      drop 1 (be_bytes 4 (fragment_info 0 True (length ?w))) @ ?w) (fst (tgarbage E (SSU_V4_MAX_PACKET_SIZE + 18) g)) = None" for g
    using assms(1,7) lw by (simp add: mem_write_def ssuenv_ok_def)
  have "send_fragments E msgID p (mbuf m) 0 (GetSSUHeader m) (length ?w) (s, ?n) = None"
    using none p lw big m(3) by (subst send_fragments.simps) (simp add: Let_def task_eq)
  then show ?thesis
    unfolding SSUData_Send_def prod.case m(1) bind.bind_lunit task_eq Let_def
    by (simp add: d(2) map_find_def m(2) p_def)
qed

definition demo_small_address :: ssu_address where
  "demo_small_address = \<lparr>aHost = [10, 0, 0, 1], aPort = 4000, aKey = replicate 32 6, aMtu = 60, introducers = []\<rparr>"

definition demo_small_router :: ssu_router where
  "demo_small_router = \<lparr>rtIdentity = demo_idex, rtAddress = Some demo_small_address, rtAddressV4 = None,
     rtAddressV6 = None, rtPeerTesting = False, rtUsesIntroducer = False\<rparr>"

lemma small_mtu_overflow_witness:
  "SSUData_Send demo_ssuenv demo_ssu_msg
     ((demo_session demo_udp)\<lparr>m_Data := newSSUData False (Some demo_small_router)\<rparr>, demo_net) = None"
  by (rule small_mtu_overflow [OF demo_ssuenv_ok _ _ _ _ demo_ssu_carries, of demo_small_router demo_small_address])
    (simp_all add: demo_small_router_def demo_small_address_def)

text \<open>
The size of a message that is put together is not bounded: the fragment that takes it beyond the 32784 bytes of the largest
  buffer is copied behind it.
\<close>

theorem reassembly_overflow:
  assumes "holds cs (incNext im) (incMsg im)" and "incNext im < length cs"
    and "length (concat (take (incNext im) cs)) \<le> 32771" "32771 < length (concat (take (Suc (incNext im)) cs))"
  shows "handle_fragment E (incNext im) l (cs ! incNext im) im n = None"
proof -
  let ?m = "incMsg im" and ?d = "cs ! incNext im" and ?xs = "concat (take (incNext im) cs)"
  have tk: "length (concat (take (Suc (incNext im)) cs)) = length ?xs + length ?d" using assms(2) by (simp add: take_Suc_conv_app_nth)
  have h: "moffset ?m = 2" "mmaxLen ?m = 4096" "length (mbuf ?m) \<in> {4112, 32784}" "mlen ?m = 13 + length ?xs"
    using assms(1) by (simp_all add: holds_def)
  have wr: "put_bytes (mlen m1) ?d m1 = None" if "mlen m1 = 13 + length ?xs" "length (mbuf m1) \<le> 32784" for m1
    using that assms(4) unfolding tk by (simp add: put_bytes_def upd_buf_def mem_write_def)
  have "length (mbuf m1) \<le> 32784 \<and> mlen m1 = 13 + length ?xs"
    if "(if mlen ?m + length ?d > mmaxLen ?m then assign_msg NewI2NPMessage ?m else Some ?m) = Some m1" for m1
    using that h by (auto simp: assign_msg_def NewI2NPMessage_def I2NPMessageBuffer_def GetLength_def dest!: mem_write_length split: if_splits bind_splits)
  then have "AttachNextFragment ?d im = None"
    using wr unfolding AttachNextFragment_def Let_def
    by (cases "if mlen ?m + length ?d > mmaxLen ?m then assign_msg NewI2NPMessage ?m else Some ?m") auto
  then show ?thesis by (simp add: handle_fragment_def)
qed

lemma reassembly_overflow_witness:
  "\<exists>im. incNext im = 1 \<and> handle_fragment demo_ssuenv 1 True (replicate 1400 3) im demo_net = None"
proof -
  let ?cs = "[replicate 32000 (2 :: byte), replicate 1400 3]"
  let ?im = "newIncompleteMessage\<lparr>incNext := 1, incMsg := \<lparr>mbuf = replicate 13 0 @ replicate 32000 2 @ replicate 771 0, mlen = 32013, moffset = 2,
    mmaxLen = 4096, mfrom = None\<rparr>\<rparr>"
  have h: "holds ?cs (incNext ?im) (incMsg ?im)"
    by (simp add: holds_def mem_read_def)
  have "handle_fragment demo_ssuenv (incNext ?im) True (?cs ! incNext ?im) ?im demo_net = None"
    by (rule reassembly_overflow [OF h]) simp_all
  then show ?thesis by (intro exI [of _ ?im]) simp
qed

end
