(* ===== verification/SSU_Sessions.thy ===== *)
theory SSU_Sessions
  imports SSU_Connect SSU_Properties
begin

text \<open>
  What SSU sessions achieve and what they do not check: the handshake ends with the same keys on both sides, sending ends,
  identities are not verified, and a session can be taken over by another router.
\<close>


section \<open>Two routers\<close>

text \<open>The identity of a router can be sent in one packet and read by others; \<open>sha\<close> is the hash of the reader.\<close>

definition sends_identity :: "'g ssuenv \<Rightarrow> (bytes \<Rightarrow> bytes) \<Rightarrow> bool" where
  "sends_identity E sha \<longleftrightarrow> (\<exists>sl. can_sign E sl \<and> round16 (44 + GetFullLen (m_Public (contextKeys E)) + sl) \<le> 512) \<and>
     GetSignatureLen ((m_Public (contextKeys E))\<lparr>m_IdentHash := sha (idex_bytes (m_Public (contextKeys E))), m_Verifier := None\<rparr>) \<noteq> None"

text \<open>Both sides find the same keys.\<close>

definition keys_agree :: "'g ssuenv \<Rightarrow> 'h ssuenv \<Rightarrow> bytes \<Rightarrow> bytes \<Rightarrow> bytes \<Rightarrow> bytes \<Rightarrow> bytes \<Rightarrow> bytes \<Rightarrow> bool" where
  "keys_agree E F X x Y y k mk \<longleftrightarrow> length X = 256 \<and> length Y = 256 \<and> (\<forall>g. fst (nextDHKeysPair E g) = (X, x)) \<and>
     (\<exists>sh. dhAgree E x Y = Some sh \<and> dhAgree F y X = Some sh \<and> derive_keys (gsha (tgen E)) sh = Some (k, mk)) \<and>
     gsha (tgen F) = gsha (tgen E)"

text \<open>
C6. The handshake of SSU between a client \<open>v\<close> and a server \<open>w\<close> that receive each other's packets, whatever lies behind them in the
  buffers: the client connects and sends a request; the server makes a session and answers; the client derives the keys, learns
  its own address, and confirms; the server derives the same keys, learns the identity of the client and the session is
  established. No step reads or writes outside a buffer. Conditions: the two sides find the same key by Diffie and Hellman
  (\<open>keys_agree\<close>), the signatures of the server have at most 64 bytes (\<open>server_env\<close>), and the confirmation with the identity and
  the signature of the client has at most 512 bytes (\<open>sends_identity\<close>).
\<close>

theorem ssu_handshake:
  assumes "ssuenv_ok E" and "server_env F K Y y sl" and "context_ok F" and "same_crypto E F" and "keys_agree E F X x Y y k mk"
    and "sends_identity E (gsha (tgen F))" and "ip_ok (epIP a)" and "ip_ok (epIP b)"
    and "client_session K b sl (sObjects v ! i)" and "i < length (sObjects v)" and "map_find b (m_Sessions v) = Some i"
    and "map_find a (m_Sessions w) = None" and "smap_ok (m_Sessions w)"
    and "\<And>P e. in_buffer P (received P e) \<and> pkFrom (received P e) = e"
  shows "\<exists>P1 P2 P3 v1 v2 w1 w2 j ps.
    on_session i (Connect E) v = Some v1 \<and> ssuEvents (sNet v1) = ssuEvents (sNet v) @ [SentTo P1 b] \<and>
    HandleReceivedPackets F [received P1 a] w = Some w1 \<and> ssuEvents (sNet w1) = ssuEvents (sNet w) @ [SentTo P2 a] \<and>
    HandleReceivedPackets E [received P2 b] v1 = Some v2 \<and>
    ssuEvents (sNet v2) = ssuEvents (sNet v1) @ [UpdateAddress (epIP a), SentTo P3 b] \<and> has_keys k mk (sObjects v2 ! i) \<and>
    HandleReceivedPackets F [received P3 a] w1 = Some w2 \<and>
    ssuEvents (sNet w2) = ssuEvents (sNet w1) @ map (\<lambda>P. SentTo P a) ps @ [PeerConnected] \<and> FindSession a w2 = Some j \<and>
    ssuState (sObjects w2 ! j) = eSessionStateEstablished \<and> has_keys k mk (sObjects w2 ! j) \<and>
    DropVerifier (m_RemoteIdent (sObjects w2 ! j)) =
      DropVerifier ((m_Public (contextKeys E))\<lparr>m_IdentHash := gsha (tgen F) (idex_bytes (m_Public (contextKeys E)))\<rparr>)"
proof -
  let ?i = "m_Public (contextKeys E)"
  obtain sh where d: "length X = 256" "length Y = 256" "\<And>g. fst (nextDHKeysPair E g) = (X, x)" "dhAgree E x Y = Some sh"
    "dhAgree F y X = Some sh" "derive_keys (gsha (tgen E)) sh = Some (k, mk)" "derive_keys (gsha (tgen F)) sh = Some (k, mk)"
    using assms(5) by (auto simp: keys_agree_def)
  obtain sl' sl'' i1 where sg: "can_sign E sl'" "round16 (44 + GetFullLen ?i + sl') \<le> 512"
    and vi: "GetSignatureLen (?i\<lparr>m_IdentHash := gsha (tgen F) (idex_bytes ?i), m_Verifier := None\<rparr>) = Some (sl'', i1)"
    using assms(6) by (auto simp: sends_identity_def)
  have F: "ssuenv_ok F" "sl \<le> 64" and c: "same_crypto F E" and ok: "idex_ok ?i"
    using assms(2,4) sg(1) by (simp_all add: server_env_def same_crypto_def can_sign_def)
  have "44 + GetFullLen ?i + sl' \<le> 512" by (rule order_trans [OF round16_props(1) sg(2)])
  then have small: "GetFullLen ?i < 1000" by simp
  have rcv: "in_buffer P (received P e)" "pkFrom (received P e) = e" for P e using assms(14) by simp_all
  obtain P1 s1 n1 where C: "Connect E (sObjects v ! i, sNet v) = Some (s1, n1)" "ssuEvents n1 = ssuEvents (sNet v) @ [SentTo P1 b]"
    "request_packet E K X P1" "client_session K b sl s1" "m_DHKeysPair s1 = Some (X, x)"
    using Connect_ok [OF assms(1,9,8) d(3,1)] by blast
  let ?v1 = "v\<lparr>sObjects := (sObjects v)[i := s1], sNet := n1\<rparr>"
  have v1: "on_session i (Connect E) v = Some ?v1" "ssuEvents (sNet ?v1) = ssuEvents (sNet v) @ [SentTo P1 b]"
    using C(1,2) assms(10) by (simp_all add: on_session_def)
  have s1: "client_session K b sl (sObjects ?v1 ! i)" "m_DHKeysPair (sObjects ?v1 ! i) = Some (X, x)" "i < length (sObjects ?v1)"
    "map_find b (m_Sessions ?v1) = Some i" using C(4,5) assms(10,11) by simp_all
  obtain P2 j w1 where w1: "HandleReceivedPackets F [received P1 a] w = Some w1" "ssuEvents (sNet w1) = ssuEvents (sNet w) @ [SentTo P2 a]"
      "j < length (sObjects w1)" "map_find a (m_Sessions w1) = Some j" "server_session a (sObjects w1 ! j)"
      "has_keys k mk (sObjects w1 ! j)" "created_packet F K Y a sl P2"
    using request_received [OF assms(2,1,4) d(5,7,1) C(3) rcv assms(7,12,13)] by blast
  obtain P3 v2 where v2: "HandleReceivedPackets E [received P2 b] ?v1 = Some v2"
      "ssuEvents (sNet v2) = ssuEvents (sNet ?v1) @ [UpdateAddress (epIP a), SentTo P3 b]" "has_keys k mk (sObjects v2 ! i)"
      "confirmed_packet E k mk ?i P3"
    using created_received [OF assms(1) F(1) c s1 d(4,6,2) sg F(2) w1(7) rcv assms(7)] by blast
  obtain w2 ps where w2: "HandleReceivedPackets F [received P3 a] w1 = Some w2" "map_find a (m_Sessions w2) = Some j"
      "ssuState (sObjects w2 ! j) = eSessionStateEstablished" "has_keys k mk (sObjects w2 ! j)"
      "DropVerifier (m_RemoteIdent (sObjects w2 ! j)) = DropVerifier (?i\<lparr>m_IdentHash := gsha (tgen F) (idex_bytes ?i)\<rparr>)"
      "ssuEvents (sNet w2) = ssuEvents (sNet w1) @ map (\<lambda>P. SentTo P a) ps @ [PeerConnected]"
    using confirmed_received [OF F(1) assms(3,1,4) w1(5,6,3,4) ok small vi v2(4) rcv] by blast
  show ?thesis
    unfolding FindSession_def
    by (rule exI [of _ P1], rule exI [of _ P2], rule exI [of _ P3], rule exI [of _ ?v1], rule exI [of _ v2], rule exI [of _ w1],
      rule exI [of _ w2], rule exI [of _ j], rule exI [of _ ps], intro conjI v1 v2 w1(1,2) w2)
qed

text \<open>A router with one session it has just made, and one without sessions.\<close>

definition demo_router :: ssu_router where
  "demo_router = demo_small_router\<lparr>rtAddress := Some (demo_small_address\<lparr>aMtu := 0\<rparr>)\<rparr>"

definition demo_client :: "unit SSUServer" where
  "demo_client = demo_server\<lparr>sObjects := [(demo_session demo_udp)\<lparr>m_RemoteRouter := Some demo_router, ssuState := eSessionStateUnknown,
     m_IsSessionKey := False\<rparr>]\<rparr>"

definition demo_idle :: "unit SSUServer" where
  "demo_idle = \<lparr>sObjects = [], m_Sessions = [], m_Introducers = [], sNet = demo_net\<rparr>"

definition demo_both :: "unit ssuenv" where
  "demo_both = demo_ssuenv\<lparr>contextSSUV4 := contextSSU demo_ssuenv, contextSSUV6 := contextSSU demo_ssuenv,
     ownRouterInfoMsg := (\<lambda>g. (demo_ssu_msg, g))\<rparr>"
lemma demo_both_env: "server_env demo_both (replicate 32 6) (replicate 256 1) (replicate 256 2) 40" "context_ok demo_both"
  "sends_identity demo_both (gsha (tgen demo_both))"
  "keys_agree demo_both demo_both (replicate 256 1) (replicate 256 2) (replicate 256 1) (replicate 256 2)
     (0 # replicate 31 0x90) (replicate 32 0x90)"
proof -
  have v: "with_verifier (demo_idex\<lparr>m_IdentHash := h\<rparr>) = Some (demo_idex\<lparr>m_IdentHash := h, m_Verifier := Some (0, signingKey demo_identity)\<rparr>)" for h
    by (simp add: with_verifier_def CreateVerifier_def GetSigningKeyType_def make_verifier_def demo_idex_def newIdentityEx_def demo_identity_def)
  have v0: "GetSignatureLen (demo_idex\<lparr>m_IdentHash := h\<rparr>) = Some (40, demo_idex\<lparr>m_IdentHash := h, m_Verifier := Some (0, signingKey demo_identity)\<rparr>)" for h
    by (simp add: GetSignatureLen_def v SignatureLen_def)
  have g: "\<exists>i. GetSignatureLen demo_idex = Some (40, i)" using v0 [of "m_IdentHash demo_idex"] by simp
  have k: "contextKeys demo_both = fst (demo_dest 1)" "m_Public (fst (demo_dest 1)) = demo_idex" "tsig demo_both = demo_sigenv"
    by (simp_all add: demo_both_def demo_ssuenv_def demo_dest_def demo_keys_def)
  have sg: "can_sign demo_both 40"
    unfolding can_sign_def k using g demo_idex_ok
    by (auto simp: PrivateKeys_Sign_def demo_dest_def demo_keys_def demo_sigenv_def SignatureLen_def)
  have ok: "ssuenv_ok demo_both" using demo_ssuenv_ok by (simp add: ssuenv_ok_def demo_both_def)
  show "server_env demo_both (replicate 32 6) (replicate 256 1) (replicate 256 2) 40"
    using sg ok unfolding server_env_def by (simp add: demo_both_def demo_ssuenv_def)
  have "sendable demo_ssu_msg" using demo_ssu_carries unfolding sendable_def by blast
  then show "context_ok demo_both" by (simp add: context_ok_def demo_both_def demo_ssuenv_def)
  show "sends_identity demo_both (gsha (tgen demo_both))"
    unfolding sends_identity_def k using sg v0 by (intro conjI exI [of _ 40]) (simp_all add: k round16_def)
  have "derive_keys f (replicate 256 0x90) = Some (0 # replicate 31 0x90, replicate 32 0x90)" for f
    by (simp add: derive_keys_def)
  then show "keys_agree demo_both demo_both (replicate 256 1) (replicate 256 2) (replicate 256 1) (replicate 256 2)
      (0 # replicate 31 0x90) (replicate 32 0x90)"
    by (simp add: keys_agree_def demo_both_def demo_ssuenv_def)
qed

lemma demo_client_session:
  "client_session (replicate 32 6) demo_udp 40 (sObjects demo_client ! 0)" "0 < length (sObjects demo_client)"
  "map_find demo_udp (m_Sessions demo_client) = Some 0"
proof -
  have "GetSignatureLen demo_idex = Some (40, demo_idex\<lparr>m_Verifier := Some (0, signingKey demo_identity)\<rparr>)"
    by (simp add: GetSignatureLen_def with_verifier_def CreateVerifier_def GetSigningKeyType_def make_verifier_def SignatureLen_def
        demo_idex_def newIdentityEx_def demo_identity_def)
  then show "client_session (replicate 32 6) demo_udp 40 (sObjects demo_client ! 0)"
    by (simp add: client_session_def demo_client_def demo_server_def demo_session_def demo_router_def demo_small_router_def demo_small_address_def)
  show "0 < length (sObjects demo_client)" "map_find demo_udp (m_Sessions demo_client) = Some 0"
    by (simp_all add: demo_client_def demo_server_def map_find_def)
qed

lemma ssu_handshake_witness:
  "\<exists>P1 P3 w1 w2 j. HandleReceivedPackets demo_both [\<lparr>pkBuf = P1 @ replicate 18 0, pkFrom = UdpEndpoint [10, 0, 0, 2] 5, pkLen = length P1\<rparr>] demo_idle = Some w1 \<and>
    HandleReceivedPackets demo_both [\<lparr>pkBuf = P3 @ replicate 18 0, pkFrom = UdpEndpoint [10, 0, 0, 2] 5, pkLen = length P3\<rparr>] w1 = Some w2 \<and>
    ssuState (sObjects w2 ! j) = eSessionStateEstablished \<and> has_keys (0 # replicate 31 0x90) (replicate 32 0x90) (sObjects w2 ! j)"
proof -
  let ?r = "\<lambda>P e. \<lparr>pkBuf = P @ replicate 18 0, pkFrom = e, pkLen = length P\<rparr>" and ?a = "UdpEndpoint [10, 0, 0, 2] 5"
  have ok: "ssuenv_ok demo_both" using demo_both_env(1) by (simp add: server_env_def)
  have c: "same_crypto demo_both demo_both" by (simp add: same_crypto_def)
  have ip: "ip_ok (epIP ?a)" "ip_ok (epIP demo_udp)" by (simp_all add: ip_ok_def demo_udp_def)
  have n: "map_find ?a (m_Sessions demo_idle) = None" "smap_ok (m_Sessions demo_idle)" by (simp_all add: demo_idle_def map_find_def smap_ok_def)
  have r: "in_buffer P (?r P e) \<and> pkFrom (?r P e) = e" for P e by (simp add: in_buffer_def)
  show ?thesis
    using ssu_handshake [OF ok demo_both_env(1,2) c demo_both_env(4,3) ip demo_client_session n r] by blast
qed


section \<open>Sending ends\<close>

lemma newSSUData_size:
  assumes "\<And>r' a. r = Some r' \<Longrightarrow> rtAddress r' = Some a \<Longrightarrow> aMtu a = 0 \<or> 96 \<le> aMtu a"
  shows "\<exists>p. m_PacketSize (newSSUData v6 r) = int p + 46 \<and> 0 < p \<and> p \<le> 1410 \<and> ssuSent (newSSUData v6 r) = []"
proof -
  let ?size = "if v6 then 1424 else 1456 :: int"
  let ?d = "\<lparr>ssuIncomplete = [], ssuSent = [], ssuReceived = {}, m_MaxPacketSize = ?size, m_PacketSize = ?size,
            m_TunnelMsgs = [], m_TunnelGatewayMsgs = []\<rparr>"
  have d: "newSSUData v6 r = (case r of None \<Rightarrow> ?d | Some r' \<Rightarrow> AdjustPacketSize v6 r' ?d)"
    by (cases r) (simp_all add: newSSUData_def Let_def)
  have s: "ssuSent (newSSUData v6 r) = []" unfolding d by (simp add: AdjustPacketSize_def Let_def split: option.split)
  have "47 \<le> m_PacketSize (newSSUData v6 r) \<and> m_PacketSize (newSSUData v6 r) \<le> 1456"
  proof (cases r)
    case (Some r')
    have z: "47 \<le> m_PacketSize ?d \<and> m_PacketSize ?d \<le> 1456" "m_MaxPacketSize ?d \<in> {1424, 1456}" by simp_all
    have "aMtu a = 0 \<or> 96 \<le> aMtu a" if "rtAddress r' = Some a" for a using assms Some that by blast
    from AdjustPacketSize_ok [of r' ?d v6, OF this z] show ?thesis unfolding d by (simp only: Some option.case)
  qed (use d in simp)
  then show ?thesis using s by (intro exI [of _ "nat (m_PacketSize (newSSUData v6 r) - 46)"]) (simp add: nat_le_iff)
qed

text \<open>
C14. Sending ends for every message and every announced MTU that is absent or at least 96: the loop over the fragments is left
  after as many packets as payload-sized pieces cover the message, none outside a buffer.
\<close>

theorem ssu_send_terminates:
  assumes "ssuenv_ok E" and "m_Data s = newSSUData v6 r"
    and "\<And>r' a. r = Some r' \<Longrightarrow> rtAddress r' = Some a \<Longrightarrow> aMtu a = 0 \<or> 96 \<le> aMtu a"
    and "carries_msg t msgID ex payload msg"
  shows "\<exists>p s1 n1 Ps. int p = m_PacketSize (m_Data s) - 46 \<and> 0 < p \<and> SSUData_Send E msg (s, n) = Some (s1, n1) \<and>
    ssuEvents n1 = ssuEvents n @ map (\<lambda>P. SentTo P (m_RemoteEndpoint s)) Ps \<and> length Ps = (length payload + 5 + p - 1) div p"
proof -
  obtain p where p: "m_PacketSize (m_Data s) = int p + 46" "0 < p" "p \<le> 1410" "ssuSent (m_Data s) = []"
    using newSSUData_size [of r v6] assms(3) unfolding assms(2) by blast
  obtain m where m: "ToSSU msg = Some (msgID, m)" "mem_read (GetSSUHeader m) (GetLength m) (mbuf m) = Some (ssu_wire t ex payload)"
    using ToSSU_wire [OF assms(4)] by auto
  have new: "map_find msgID (ssuSent (m_Data s)) = None" by (simp add: p(4) map_find_def)
  obtain s1 n1 Ps where S: "SSUData_Send E msg (s, n) = Some (s1, n1)" "ssuEvents n1 = ssuEvents n @ map (\<lambda>P. SentTo P (m_RemoteEndpoint s)) Ps"
    "length Ps = length (cut p (ssu_wire t ex payload))"
    using SSUData_Send_ok [OF assms(1) m new p(1-3), of n] by blast
  have "length Ps = (length payload + 5 + p - 1) div p" unfolding S(3) using p(2) by (simp add: length_cut ssu_wire_def add.commute)
  then show ?thesis using S(1,2) p(1,2) by (intro exI [of _ p] exI [of _ s1] exI [of _ n1] exI [of _ Ps]) simp
qed

lemma ssu_send_terminates_witness:
  "\<exists>p s1 n1 Ps. int p = m_PacketSize (m_Data (demo_session demo_udp)) - 46 \<and> 0 < p \<and>
    SSUData_Send demo_ssuenv demo_ssu_msg (demo_session demo_udp, demo_net) = Some (s1, n1) \<and>
    ssuEvents n1 = ssuEvents demo_net @ map (\<lambda>P. SentTo P (m_RemoteEndpoint (demo_session demo_udp))) Ps \<and>
    length Ps = (2000 + 5 + p - 1) div p"
  using ssu_send_terminates [OF demo_ssuenv_ok _ _ demo_ssu_carries, of "demo_session demo_udp" False None demo_net]
  by (simp add: demo_session_def)

section \<open>What the handshake does not check\<close>

text \<open>
C13. Anyone who knows the published introduction key of a router makes it hold a session with any identity: one packet, from an
  endpoint that has no session, is enough. There is no key exchange and the signature is not looked at; the router reports
  the peer as connected.
\<close>

theorem identity_not_verified:
  assumes "server_env F K Y y sl" and "context_ok F" and "ssuenv_ok E" and "same_crypto E F"
    and "idex_ok i" "GetFullLen i < 1000" "GetSignatureLen (i\<lparr>m_IdentHash := gsha (tgen F) (idex_bytes i), m_Verifier := None\<rparr>) \<noteq> None"
    and "confirmed_packet E K K i P" "in_buffer P q" "pkFrom q = e"
    and "map_find e (m_Sessions w) = None" "smap_ok (m_Sessions w)"
  shows "\<exists>w1 j ps. HandleReceivedPackets F [q] w = Some w1 \<and> FindSession e w1 = Some j \<and>
    ssuState (sObjects w1 ! j) = eSessionStateEstablished \<and> \<not> m_IsSessionKey (sObjects w1 ! j) \<and>
    DropVerifier (m_RemoteIdent (sObjects w1 ! j)) = DropVerifier (i\<lparr>m_IdentHash := gsha (tgen F) (idex_bytes i)\<rparr>) \<and>
    ssuEvents (sNet w1) = ssuEvents (sNet w) @ map (\<lambda>P. SentTo P e) ps @ [PeerConnected]"
proof -
  let ?j = "length (sObjects w)"
  have F: "ssuenv_ok F" using assms(1) by (simp add: server_env_def)
  obtain sl' i1 where vi: "GetSignatureLen (i\<lparr>m_IdentHash := gsha (tgen F) (idex_bytes i), m_Verifier := None\<rparr>) = Some (sl', i1)"
    using assms(7) by auto
  obtain s v1 where S: "select_session F None e w = Some (?j, v1)" "server_session e s" "\<not> m_IsSessionKey s" "m_DHKeysPair s = None"
    "sObjects v1 = sObjects w @ [s]" "map_find e (m_Sessions v1) = Some ?j" "ssuEvents (sNet v1) = ssuEvents (sNet w)"
    using select_new [OF assms(11,12), of F] by blast
  have sj: "sObjects v1 ! ?j = s" "?j < length (sObjects v1)" unfolding S(5) by simp_all
  obtain iv ts body where p: "length iv = 16" "P = sealed_packet E iv K K (confirmation ts i body)" "16 dvd length (confirmation ts i body)"
    "250 \<le> length (confirmation ts i body)" "length (confirmation ts i body) \<le> 1966" by (rule confirmed_packetD [OF assms(8,5,6)])
  let ?o = "sObjects v1 ! ?j"
  let ?s = "?o\<lparr>ssuNumReceived := ssuNumReceived ?o + pkLen q\<rparr>"
  have so: "server_session e ?o" "\<not> m_IsSessionKey ?o" unfolding sj(1) by (rule S(2,3))+
  then have ns: "\<not> m_IsSessionKey ?s" "m_RemoteRouter ?s = None" by (simp_all add: server_session_def)
  obtain n1 where gi: "GetIntroKey F ?s (sNet v1) = (Some K, n1)" "ssuEvents n1 = ssuEvents (sNet v1)"
    using server_intro [OF assms(1) ns(2)] by blast
  have l5: "5 \<le> length (confirmation ts i body)" using p(4) by linarith
  obtain rest where O: "open_packet F (pkBuf q) (pkLen q) (?s, sNet v1) = Some (Opened (take 32 P @ confirmation ts i body @ rest), ?s, n1)"
    "length P = 32 + length (confirmation ts i body)"
    using open_intro [OF assms(3,4) p(2,1) l5 p(5) assms(9) _ gi(1)] ns(1) by blast
  have un: "ssuState (sObjects v1 ! ?j) = eSessionStateUnknown" using S(2) sj(1) by (simp add: server_session_def)
  obtain w1 ps where R: "ProcessNextMessage F (pkBuf q) (pkLen q) (pkFrom q) ?j v1 = Some (False, w1)" "length (sObjects w1) = length (sObjects v1)"
    "m_Sessions w1 = m_Sessions v1" "ssuState (sObjects w1 ! ?j) = eSessionStateEstablished"
    "m_IsSessionKey (sObjects w1 ! ?j) = m_IsSessionKey ?s" "\<not> m_IsDataReceived (sObjects w1 ! ?j)"
    "DropVerifier (m_RemoteIdent (sObjects w1 ! ?j)) = DropVerifier (i\<lparr>m_IdentHash := gsha (tgen F) (idex_bytes i)\<rparr>)"
    "ssuEvents (sNet w1) = ssuEvents n1 @ map (\<lambda>P. SentTo P e) ps @ [PeerConnected]"
    using confirmation_processed [OF F assms(2) un sj(2) assms(5,6) vi O(1,2) p(4) assms(9) server_awaits(1) [OF so(1)]] by blast
  have "?j < length (sObjects w1)" unfolding R(2) by (rule sj(2))
  then have "HandleReceivedPackets F [q] w = Some w1" by (intro single_packet [OF _ R(1)] R(6)) (use S(1) assms(10) in simp)
  then show ?thesis
    using S(6,7) R(3-5,7,8) ns(1) gi(2) by (intro exI [of _ w1] exI [of _ ?j] exI [of _ ps]) (simp add: FindSession_def)
qed

lemma identity_not_verified_witness:
  "\<exists>P w1 j. confirmed_packet demo_both (replicate 32 6) (replicate 32 6) demo_idex P \<and>
    HandleReceivedPackets demo_both [\<lparr>pkBuf = P @ replicate 18 0, pkFrom = demo_udp, pkLen = length P\<rparr>] demo_idle = Some w1 \<and>
    FindSession demo_udp w1 = Some j \<and> ssuState (sObjects w1 ! j) = eSessionStateEstablished \<and> \<not> m_IsSessionKey (sObjects w1 ! j)"
proof -
  let ?P = "sealed_packet demo_both (replicate 16 0) (replicate 32 6) (replicate 32 6) (confirmation 0 demo_idex (replicate 5 0))"
  have P: "confirmed_packet demo_both (replicate 32 6) (replicate 32 6) demo_idex ?P"
    unfolding confirmed_packet_confirmation
    by (rule exI [of _ "replicate 16 0"], rule exI [of _ 0], rule exI [of _ "replicate 5 0"]) simp
  have ok: "ssuenv_ok demo_both" using demo_both_env(1) by (simp add: server_env_def)
  have c: "same_crypto demo_both demo_both" by (simp add: same_crypto_def)
  have i: "GetFullLen demo_idex < 1000" "GetSignatureLen (demo_idex\<lparr>m_IdentHash := gsha (tgen demo_both) (idex_bytes demo_idex), m_Verifier := None\<rparr>) \<noteq> None"
    using demo_both_env(3) by (simp_all add: sends_identity_def demo_both_def demo_ssuenv_def demo_dest_def demo_keys_def)
  have q: "in_buffer ?P \<lparr>pkBuf = ?P @ replicate 18 0, pkFrom = demo_udp, pkLen = length ?P\<rparr>"
    "pkFrom \<lparr>pkBuf = ?P @ replicate 18 0, pkFrom = demo_udp, pkLen = length ?P\<rparr> = demo_udp" by (simp_all add: in_buffer_def)
  have n: "map_find demo_udp (m_Sessions demo_idle) = None" "smap_ok (m_Sessions demo_idle)" by (simp_all add: demo_idle_def map_find_def smap_ok_def)
  show ?thesis
    using identity_not_verified [OF demo_both_env(1,2) ok c demo_idex_ok i P q n] P by blast
qed


section \<open>Packets of other routers in one batch\<close>

lemma ProcessNextMessage_empty:
  assumes "ssuState (sObjects v ! i) = eSessionStateEstablished" and "i < length (sObjects v)"
  shows "ProcessNextMessage F buf 0 e i v = Some (False, v)"
  using assms by (simp add: ProcessNextMessage_def Let_def change_session_def)

text \<open>
C7. In one batch, a session request from an endpoint that has no session behind an empty packet of an established session is
  processed by that session: no session is made for the new router; the established one takes its endpoint and the keys of its
  key exchange, while it is still filed under the old endpoint.
\<close>

theorem session_taken_over:
  assumes "server_env F K Y y sl" and "ssuenv_ok E" "same_crypto E F"
    and "dhAgree F y X = Some sh" "derive_keys (gsha (tgen F)) sh = Some (k, mk)" "length X = 256"
    and "map_find e (m_Sessions v) = Some i" "i < length (sObjects v)" and "ssuState (sObjects v ! i) = eSessionStateEstablished"
      "m_RemoteEndpoint (sObjects v ! i) = e" "m_RemoteRouter (sObjects v ! i) = None" "m_DHKeysPair (sObjects v ! i) = None"
      "\<not> m_IsDataReceived (sObjects v ! i)"
    and "map_find e' (m_Sessions v) = None" "ip_ok (epIP e')"
    and "pkFrom p = e" "pkLen p = 0"
    and "request_packet E K X P" "in_buffer P q" "pkFrom q = e'" and "\<And>iv plain. P \<noteq> sealed_packet E iv K (m_MacKey (sObjects v ! i)) plain"
  shows "\<exists>v1 P2. HandleReceivedPackets F [p, q] v = Some v1 \<and> length (sObjects v1) = length (sObjects v) \<and>
    m_Sessions v1 = m_Sessions v \<and> m_RemoteEndpoint (sObjects v1 ! i) = e' \<and> has_keys k mk (sObjects v1 ! i) \<and>
    ssuState (sObjects v1 ! i) = eSessionStateEstablished \<and> ssuEvents (sNet v1) = ssuEvents (sNet v) @ [SentTo P2 e']"
proof -
  let ?o = "sObjects v ! i"
  let ?s = "?o\<lparr>ssuNumReceived := ssuNumReceived ?o + pkLen q, ssuTimer := Some TerminationTimer\<rparr>"
  have ne: "e' \<noteq> e" using assms(7,14) by auto
  obtain iv ts body where p: "length iv = 16" "length body = 11 \<or> length body = 27"
    "P = sealed_packet E iv K K (push_bit 4 PAYLOAD_TYPE_SESSION_REQUEST # be_bytes 4 (ts :: u32) @ X @ body)"
    using assms(18) unfolding request_packet_def by blast
  define plain where "plain = push_bit 4 PAYLOAD_TYPE_SESSION_REQUEST # be_bytes 4 ts @ X @ body"
  have lp: "5 \<le> length plain" "length plain \<le> 1966" "250 \<le> length plain" using p(2) assms(6) by (auto simp: plain_def)
  have rr: "m_RemoteRouter ?s = None" "m_DHKeysPair ?s = None" using assms(11,12) by simp_all
  obtain n1 where gi: "GetIntroKey F ?s (sNet v) = (Some K, n1)" "ssuEvents n1 = ssuEvents (sNet v)"
    using server_intro [OF assms(1) rr(1)] by blast
  have mac: "P \<noteq> sealed_packet E iv K (m_MacKey ?s) plain" using assms(21) by simp
  obtain rest where O: "open_packet F (pkBuf q) (pkLen q) (?s, sNet v) = Some (Opened (take 32 P @ plain @ rest), ?s, n1)"
    "length P = 32 + length plain"
    using open_intro [OF assms(2,3) p(3) [folded plain_def] p(1) lp(1,2) assms(19) mac gi(1)] by blast
  have l32: "32 \<le> length P" using O(2) by simp
  note h = opened_header [OF O(2) plain_def l32]
  have bb: "take 32 P @ plain @ rest = (take 32 P @ push_bit 4 PAYLOAD_TYPE_SESSION_REQUEST # be_bytes 4 ts) @ X @ body @ rest"
    using h(1) [of rest] by simp
  obtain P2 s2 n2 where R: "ProcessSessionRequest F (take 32 P @ plain @ rest) e' (?s, n1) = Some (s2, n2)" "has_keys k mk s2"
    "core s2 = core (?s\<lparr>m_RemoteEndpoint := e', m_DHKeysPair := Some (Y, y), m_SessionKey := k, m_MacKey := mk, m_IsSessionKey := True,
      m_SessionKeyDecryption := m_SessionKeyDecryption s2\<rparr>)" "ssuEvents n2 = ssuEvents n1 @ [SentTo P2 e']"
    using ProcessSessionRequest_core [OF assms(1) rr assms(15,4,5) bb h(2) assms(6), of n1] by blast
  let ?v3 = "v\<lparr>sObjects := (sObjects v)[i := s2], sNet := n2\<rparr>"
  have os: "on_session i (ProcessSessionRequest F (take 32 P @ plain @ rest) e') (v\<lparr>sObjects := (sObjects v)[i := ?s], sNet := n1\<rparr>) = Some ?v3"
    using assms(8) R(1) by (simp add: on_session_def)
  have len: "pkLen q \<noteq> 0" "53 \<le> pkLen q" using assms(19) O(2) lp(3) by (simp_all add: in_buffer_def)
  have N: "ProcessNextMessage F (pkBuf q) (pkLen q) e' i v = Some (False, ?v3)"
    unfolding ProcessNextMessage_opened [OF assms(8,9) len(1) O(1)] ProcessMessage_handshake(1) [OF h(3) len(2) refl] os by simp
  have f: "ssuState s2 = eSessionStateEstablished" "m_RemoteEndpoint s2 = e'" "\<not> m_IsDataReceived s2"
    using core_fields(4,6,13) [OF R(3)] assms(9,13) by simp_all
  have fl: "flush (Some i) v = Some v" by (rule flush_idle [OF assms(8,13)])
  have fl3: "flush (Some i) ?v3 = Some ?v3" by (rule flush_idle) (use assms(8) f(3) in simp_all)
  have s1: "select_session F None e v = Some (i, v)" using assms(7) by (simp add: select_session_def)
  have s2: "select_session F (Some i) e' v = Some (i, v)" using assms(10,14) ne fl by (simp add: select_session_def)
  have "HandleReceivedPackets F [p, q] v = Some ?v3"
    using assms(16,17,20) s1 s2 N fl3 ProcessNextMessage_empty [OF assms(9,8)] by (simp add: HandleReceivedPackets_def)
  then show ?thesis using assms(8) R(2,4) f gi(2) by (intro exI [of _ ?v3] exI [of _ P2]) simp
qed

text \<open>A hash that depends on its input, so that packets of other sessions are not valid.\<close>

definition demo_keyed :: "unit ssuenv" where
  "demo_keyed = demo_both\<lparr>md5 := (\<lambda>x. take 16 (x @ replicate 16 0))\<rparr>"

lemma take_mac:
  assumes "md5 E = (\<lambda>x. take 16 (x @ replicate 16 0))" and "length mk = 32"
  shows "take 16 (sealed_packet E iv key mk plain) = map (\<lambda>b. b XOR 0x5C) (take 16 mk)"
  using assms by (simp add: sealed_packet_def Let_def hmac_pad_def take_map)

lemma session_taken_over_witness:
  "\<exists>P v1. HandleReceivedPackets demo_keyed [\<lparr>pkBuf = replicate 1500 0, pkFrom = demo_udp, pkLen = 0\<rparr>,
      \<lparr>pkBuf = P @ replicate 18 0, pkFrom = UdpEndpoint [10, 0, 0, 2] 5, pkLen = length P\<rparr>] demo_server = Some v1 \<and>
    m_Sessions v1 = m_Sessions demo_server \<and> m_RemoteEndpoint (sObjects v1 ! 0) = UdpEndpoint [10, 0, 0, 2] 5"
proof -
  let ?e = "UdpEndpoint [10, 0, 0, 2] 5"
  let ?P = "sealed_packet demo_keyed (replicate 16 0) (replicate 32 6) (replicate 32 6)
    (push_bit 4 PAYLOAD_TYPE_SESSION_REQUEST # be_bytes 4 (0 :: u32) @ replicate 256 1 @ replicate 11 0)"
  have md: "md5 demo_keyed = (\<lambda>x. take 16 (x @ replicate 16 0))" by (simp add: demo_keyed_def)
  have se: "server_env demo_keyed (replicate 32 6) (replicate 256 1) (replicate 256 2) 40"
    using demo_both_env(1) by (simp add: server_env_def demo_keyed_def ssuenv_ok_def can_sign_def min_def)
  then have ok: "ssuenv_ok demo_keyed" by (simp add: server_env_def)
  have c: "same_crypto demo_keyed demo_keyed" by (simp add: same_crypto_def)
  have d: "dhAgree demo_keyed (replicate 256 2) (replicate 256 1) = Some (replicate 256 0x90)"
    "derive_keys (gsha (tgen demo_keyed)) (replicate 256 0x90) = Some (0 # replicate 31 0x90, replicate 32 0x90)"
    by (simp_all add: demo_keyed_def demo_both_def demo_ssuenv_def derive_keys_def)
  have s: "map_find demo_udp (m_Sessions demo_server) = Some 0" "0 < length (sObjects demo_server)"
    "ssuState (sObjects demo_server ! 0) = eSessionStateEstablished" "m_RemoteEndpoint (sObjects demo_server ! 0) = demo_udp"
    "m_RemoteRouter (sObjects demo_server ! 0) = None" "m_DHKeysPair (sObjects demo_server ! 0) = None"
    "\<not> m_IsDataReceived (sObjects demo_server ! 0)" "map_find ?e (m_Sessions demo_server) = None"
    by (simp_all add: demo_server_def map_find_def demo_session_def demo_udp_def)
  have rp: "request_packet demo_keyed (replicate 32 6) (replicate 256 1) ?P"
    unfolding request_packet_def
    by (rule exI [of _ "replicate 16 0"], rule exI [of _ 0], rule exI [of _ "replicate 11 0"]) simp
  have "?P \<noteq> sealed_packet demo_keyed iv (replicate 32 6) (m_MacKey (sObjects demo_server ! 0)) plain" for iv plain
  proof
    assume a: "?P = sealed_packet demo_keyed iv (replicate 32 6) (m_MacKey (sObjects demo_server ! 0)) plain"
    show False using arg_cong [OF a, of "take 16"]
      by (simp add: take_mac [OF md] demo_server_def demo_session_def)
  qed
  then show ?thesis
    using session_taken_over [OF se ok c d _ s(1-8) _ _ _ rp, of "\<lparr>pkBuf = replicate 1500 0, pkFrom = demo_udp, pkLen = 0\<rparr>"
      "\<lparr>pkBuf = ?P @ replicate 18 0, pkFrom = ?e, pkLen = length ?P\<rparr>"] by (auto simp: in_buffer_def ip_ok_def)
qed

end
