(* ===== verification/Spec2Isabelle.thy ===== *)
theory Spec2Isabelle
  imports Base64 Base32 Tunnel_Build_Correct Router_Properties Stream_Properties
    SSU_Sessions
begin

text \<open>
  A verification development of i2pd, a router of the I2P anonymity network, from its C++ sources under
  \<open>src/core\<close>. The library follows the way of a message through the tunnels of a router, the way of
  the bytes of an application through a stream on top of them, and the way of a message from one router to the
  next over SSU, the transport below them.

  \<^bold>\<open>The program.\<close> A router owns tunnels and takes part in tunnels of other routers. An outbound tunnel
  packs I2NP messages into tunnel messages of fixed size, encrypts them for all hops and sends them to
  its first hop; participants add a layer and pass them on; the endpoint reassembles the messages and
  delivers them. Inbound tunnels start at a gateway on another router and end at their owner. Tunnels are
  built by build requests that travel along their hops, live for eleven minutes and are replaced in
  time. The tunnel thread (\<open>Tunnels::Run\<close>) takes messages from a queue, dispatches them and sweeps over
  the tables of tunnels every fifteen seconds; pools keep the tunnels of local destinations.
  A destination is known by its identity (keys and a certificate) and publishes a lease set, the gateways
  of its inbound tunnels, signed. Streams send numbered packets from a destination to another one through an outbound
  tunnel and a lease of the other side, resend what is not acknowledged and put what arrives in order.
  Routers reach each other, among other ways, by SSU, a transport over UDP: two routers agree on session keys in a
  handshake of three packets, then exchange I2NP messages cut into sealed packets, which are acknowledged,
  resent and put together again.

  \<^bold>\<open>Theories and sources.\<close>
  \<^item> \<open>Prelude\<close>: bytes, machine words, checked access to memory (\<open>None\<close> is an access outside a buffer),
    \<open>size_t\<close> arithmetic, collections of simplification rules.
  \<^item> \<open>Endian\<close>: \<open>util/I2PEndian.h\<close>, \<open>I2PEndian.cpp\<close>, \<open>LittleBigEndian.h\<close>. The locale \<open>field_codec\<close> is
    the contract of a field in a buffer, interpreted for every width.
  \<^item> \<open>Base64\<close>, \<open>Base32\<close>: \<open>util/base64.cpp\<close>.
  \<^item> \<open>I2NP\<close>: \<open>I2NPProtocol.h\<close> and the functions of \<open>I2NPProtocol.cpp\<close> that create messages.
  \<^item> \<open>Tunnel_Gateway\<close>, \<open>Tunnel_Endpoint\<close>: \<open>tunnel/TunnelGateway.cpp\<close> and \<open>TunnelEndpoint.cpp\<close>; an
    abstract packing of messages into fragments that the gateway refines and the endpoint inverts.
    \<open>Tunnel_Messages\<close> composes the two.
  \<^item> \<open>Tunnel_Crypto\<close>: the CBC mode of \<open>crypto/aes.cpp\<close> and \<open>tunnel/TunnelCrypto.cpp\<close>. The locale \<open>layers\<close>
    states that layers of encryption cancel; it is interpreted for the tunnel encryption here and for
    the reply encryption of build records in \<open>Tunnel_Build_Correct\<close>.
  \<^item> \<open>ElGamal\<close>: \<open>crypto/ElGamal.h\<close> and the group of \<open>crypto/CryptoConst.cpp\<close>.
  \<^item> \<open>Tunnel_Config\<close>: \<open>tunnel/TunnelConfig.h\<close>.
  \<^item> \<open>Tunnel_Path\<close>: the data paths of \<open>tunnel/Tunnel.cpp\<close> and \<open>TransitTunnel.cpp\<close>; \<open>Tunnel_Delivery\<close>
    proves that whole tunnels deliver.
  \<^item> \<open>Tunnel_Build\<close>: \<open>Tunnel::Build\<close>, \<open>HandleTunnelBuildResponse\<close>, \<open>HandleBuildRequestRecords\<close>;
    \<open>Tunnel_Build_Correct\<close> proves the protocol correct.
  \<^item> \<open>Msg_Queue\<close>: \<open>util/Queue.h\<close>, with the locale \<open>fifo\<close>.
  \<^item> \<open>Std_Containers\<close>: the ordered maps and sets of the C++ library, with the locale \<open>lookup_table\<close>.
  \<^item> \<open>Router_State\<close>, \<open>Tunnel_Pool\<close>, \<open>Tunnels_Manager\<close>, \<open>Router_Messages\<close>: the state of
    \<open>tunnel/Tunnel.cpp\<close> and \<open>TunnelPool.cpp\<close>, its operations, the handlers of \<open>I2NPProtocol.cpp\<close> and the
    tunnel thread.
  \<^item> \<open>Router_Invariant\<close>, \<open>Pool_Invariant\<close>, \<open>Manager_Invariant\<close>, \<open>Router_Steps\<close>: the invariant of the
    state, kept by every operation, and the step relation of the router.
  \<^item> \<open>Router_Batch\<close>, \<open>Router_Properties\<close>: what the tunnel thread, the sweeps and the pools achieve.
  \<^item> \<open>Identities\<close>: \<open>Identity.cpp\<close>, \<open>Identity.h\<close> and the key lengths of \<open>crypto/Signature.h\<close>.
  \<^item> \<open>Lease_Set\<close>: \<open>LeaseSet.cpp\<close>, on the pools of \<open>Router_State\<close>.
  \<^item> \<open>Stream_Packets\<close>, \<open>Streaming\<close>: \<open>Streaming.h\<close> and \<open>Streaming.cpp\<close>, packets and routes first, then the
    operations of streams and of streaming destinations. \<open>Stream_Frames\<close> says which members each operation leaves alone.
  \<^item> \<open>Stream_History\<close>: the operations of a stream with the packets they hand to \<open>SendPackets\<close> as an additional
    result (a history variable); erasing it gives the operations of \<open>Streaming\<close> back.
  \<^item> \<open>Stream_Receive\<close>, \<open>Stream_Send\<close>, \<open>Stream_Link\<close>: the invariants of the receiving and of the sending
    half of a stream, for every sequence of operations, and two streams joined by a network.
  \<^item> \<open>Stream_Syn\<close>, \<open>Stream_Acks\<close>, \<open>Stream_Properties\<close>: the initial packet, acknowledgements, examples.
  \<^item> \<open>SSU_Packets\<close>: \<open>crypto/hmac.h\<close>, the state of a session (\<open>transport/SSUSession.h\<close>, \<open>SSUData.h\<close>) and how packets
    are sealed and opened. \<open>SSU_Data\<close>: \<open>transport/SSUData.cpp\<close>, fragments and acknowledgements. \<open>SSU_Session\<close>:
    \<open>transport/SSUSession.cpp\<close>, the handshake, relaying and peer tests. \<open>SSU_Server\<close>: \<open>transport/SSU.cpp\<close> and the
    operations of a session that reach other sessions.
  \<^item> \<open>SSU_Receive\<close>, \<open>SSU_Send\<close>, \<open>SSU_Link\<close>: an abstract receiver that collects the numbers of fragments, refined
    by the code; how a message is cut; packets from one router to another.
  \<^item> \<open>SSU_Handshake\<close>, \<open>SSU_Connect\<close>, \<open>SSU_Established\<close>: the three packets of the handshake, written and read.
    \<open>SSU_Properties\<close>, \<open>SSU_Sessions\<close>: what sessions achieve and what they do not check.

  \<^bold>\<open>How the code is modelled.\<close> Structures are records with the names of their members. Objects behind
  shared pointers are entries of heaps in the state \<open>rstate\<close>, so that aliasing is visible: a tunnel in a
  table, in a pool and in a running test is one object. Undefined behaviour (a null pointer, an access
  outside a buffer, an uninitialised pointer) is the result \<open>None\<close>. Random numbers, clocks, allocated
  memory and the answers of other components (network database, transports, profiles) come from the
  environments \<open>genv\<close>, \<open>renv\<close>, \<open>sigenv\<close> (signatures), \<open>senv\<close> (what a stream asks of its owner) and \<open>ssuenv\<close>
  (what SSU asks of the router), functions on an arbitrary state of the world; what the tunnel code and SSU ask
  of other components is a list of events. Fields of messages, identifiers, sequence numbers and
  times are words of the width the code has; values of \<open>size_t\<close> are natural numbers whose subtraction wraps
  (\<open>size_sub\<close>); the \<open>int\<close> counters of the base 64 functions overflow to \<open>None\<close> (\<open>int_op\<close>). Simplifications: the \<open>int\<close>
  members of a stream (window, round trip times, attempts) and the statistics of tunnel creations are unbounded
  integers, and the uninitialised reply key of all hops of one new configuration is the same piece of memory.

  \<^bold>\<open>What the theorems show.\<close>
  \<^item> Messages: encodings and their inverses, at every width and length; message constructors stay inside
    their buffers.
  \<^item> Tunnel data: what is put into a gateway comes out of the endpoint, in order and unchanged, for one
    pair and through whole tunnels of any number of hops, except that a message that would fit an empty tunnel
    message but not the rest of the current one is lost (\<open>puts_safe\<close> excludes it,
    \<open>PutI2NPMsg_loses_short_message\<close> shows it); fragments may be swapped or interleaved.
  \<^item> Tunnel building: a request that travels along its hops is accepted by its creator, every accepting hop
    has exactly the transit tunnel of its record.
  \<^item> The router: its invariant holds in every reachable state, the life of a tunnel only moves forward, a
    build reply is used at most once, batches forward every message once, sweeps remove exactly what is due.
  \<^item> Identities and lease sets: written, read and published ones are understood by other routers, for every
    signature algorithm; what is read is well formed.
  \<^item> Streams: what is read at one end is a beginning of what was written at the other, whatever the network
    drops, repeats and reorders; every packet ever handed to the network, resent ones too, carries the bytes of its
    number; acknowledgements name exactly what has arrived.
  \<^item> SSU: the handshake ends with the same keys on both sides; what one router sends the other one hands on, once,
    whatever the order and the repetitions of the packets; sending ends. What is not checked: the identity of a
    peer, and to which session a packet of a batch belongs.
  \<^item> Inputs on which the code is undefined or loses data are theorems too; each is a finding.

  \<^bold>\<open>Hypotheses.\<close> Documented behaviour of the libraries: \<open>genv_ok\<close> (hashes have 32 bytes, random bytes the
  requested number, random words the requested range), \<open>aes_ok\<close> (a block cipher and its inverse on blocks
  of 16 bytes), \<open>shuffled\<close> (\<open>std::random_shuffle\<close> permutes), \<open>ptr_order\<close> (pointers are strictly ordered). Of the
  network and the other routers: \<open>delivers\<close> (a transport hands over the payload it was given), \<open>key_fits\<close> (the
  private key of a hop belongs to the public key its build record is encrypted with), \<open>no_clash\<close> (no record in
  front of the one for a hop starts, by chance, with the sixteen bytes that hop looks for). Of signatures:
  \<open>sig_pair\<close> (what a private key signs its public key verifies), in \<open>dest_ok\<close> and \<open>owner_ok\<close> for the keys of a
  destination. Of the network below streams: the initial packet of a stream reaches its peer once; \<open>duplicate_syn_delivered_twice\<close>
  shows why. Of SSU:
  \<open>ssuenv_ok\<close> (lengths of digests and of memory), \<open>same_crypto\<close> (both routers have the same hash and cipher), \<open>keys_agree\<close>
  (both sides of a Diffie and Hellman exchange find the same secret), \<open>server_env\<close> (the server knows its addresses and
  can sign), \<open>context_ok\<close> (its router info can be sent, and known routers announce no MTU or one of at least 96), and
  \<open>sends_identity\<close> (the identity of a router fits the confirmation). Each theorem
  with a hypothesis is applied to a concrete input in the theorem that carries its name and \<open>_witness\<close>.

  \<^bold>\<open>Bounds.\<close> \<open>PutI2NPMsg\<close> calls itself at most once, so two activations are enough for the model of its
  recursion; messages of at most 29000 bytes fit the buffers of the endpoint; a build message holds at most
  seven records, and a theorem shows what happens with eight. A batch of the tunnel thread has as much fuel
  as there are messages, and a theorem shows that this is enough. Streams are shown correct for fewer than
  \<open>2 ^ 31 - 1\<close> packets, where sequence numbers turn negative, and for signatures of at most 256 bytes in the initial
  packet (\<open>syn_signature_overflow\<close>). SSU messages have at most 32766 bytes of payload in at most 128 fragments of a
  payload size of at most 1410, as every realistic MTU gives; a session remembers up to 1001 message identifiers before
  it forgets; in the handshake the signatures of the server have at most 64 bytes and the confirmation of the client at most
  512. Base 64 is shown correct for at most 1610612733 bytes, and a theorem shows the overflow behind them.

  \<^bold>\<open>Not modelled.\<close> The TCP transport, the network database, reseeding, UPnP, daemon and logging, which are network and
  file access, timers and threads around libraries; garlic sessions, datagrams, lookups under way and peer profiles,
  whose answers reach the modelled code as answers of its environment; the line protocols of the client programs; the
  vendored Ed25519 code, the AES-NI assembly and Crypto++ itself. Timers are events that may come at any time, so that
  when they are started or cancelled is not modelled.
\<close>

end
